(* ===== verification/Prelude.thy ===== *)
theory Prelude
  imports Main "HOL-Library.Word"
begin

text \<open>
  Shared vocabulary of the development: machine integers and byte strings, Go's
  error and panic results as sums, big-endian encodings as \<^verbatim>\<open>encoding/binary\<close>
  writes them, slices with Go's bounds, and the contract of a machine with an invariant that
  several components share.
\<close>

unbundle bit_operations_syntax

section \<open>Types\<close>

type_synonym byte = "8 word"
type_synonym u8 = "8 word"
type_synonym u16 = "16 word"
type_synonym u32 = "32 word"
type_synonym u64 = "64 word"

text \<open>A \<^verbatim>\<open>common.Hash\<close> or \<^verbatim>\<open>[32]byte\<close> is its list of bytes.\<close>
type_synonym hash = "byte list"

abbreviation zero_hash32 :: hash where
  "zero_hash32 \<equiv> replicate 32 0"

section \<open>Results: an error or panic on the left, the value on the right\<close>

definition rbind :: "'e + 'a \<Rightarrow> ('a \<Rightarrow> 'e + 'b) \<Rightarrow> 'e + 'b" where
  "rbind r f = (case r of Inl e \<Rightarrow> Inl e | Inr x \<Rightarrow> f x)"

lemma rbind_simps [simp]:
  "rbind (Inl e) f = Inl e"
  "rbind (Inr x) f = f x"
  by (simp_all add: rbind_def)

lemma rbind_eq_Inr: "rbind r f = Inr y \<longleftrightarrow> (\<exists>x. r = Inr x \<and> f x = Inr y)"
  by (cases r) auto

lemma rbind_eq_Inl: "rbind r f = Inl e \<longleftrightarrow> r = Inl e \<or> (\<exists>x. r = Inr x \<and> f x = Inl e)"
  by (cases r) auto

lemma rbind_cong [fundef_cong]:
  "r = r' \<Longrightarrow> (\<And>x. r' = Inr x \<Longrightarrow> f x = g x) \<Longrightarrow> rbind r f = rbind r' g"
  by (cases r') auto

lemma rbind_split:
  "P (rbind r f) \<longleftrightarrow> (\<forall>e. r = Inl e \<longrightarrow> P (Inl e)) \<and> (\<forall>x. r = Inr x \<longrightarrow> P (f x))"
  by (cases r) auto

lemma rbind_split_asm:
  "P (rbind r f) \<longleftrightarrow>
     \<not> ((\<exists>e. r = Inl e \<and> \<not> P (Inl e)) \<or> (\<exists>x. r = Inr x \<and> \<not> P (f x)))"
  by (cases r) auto

lemmas rbind_splits = rbind_split rbind_split_asm

section \<open>Words\<close>

lemma unat_lt: "unat (w :: 'a::len word) < 2 ^ LENGTH('a)"
  by (rule unsigned_less)

lemma unat_drop_bit: "unat (drop_bit n (w :: 'a::len word)) = unat w div 2 ^ n"
  by (metis unat_drop_bit_eq drop_bit_eq_div)

lemma unat_and_mask: "unat (w AND mask n :: 'a::len word) = unat w mod 2 ^ n"
  by (metis min.cobounded1 take_bit_eq_mask take_bit_eq_mod unsigned_take_bit_eq)

lemma sint_small: "unat (w :: u64) < 2 ^ 63 \<Longrightarrow> sint w = int (unat w)"
proof -
  assume "unat w < 2 ^ 63"
  then have "int (unat w) < int (2 ^ 63)" by (simp only: of_nat_less_iff)
  then have "uint w < 2 ^ 63" by simp
  moreover have "- (2 ^ 63) \<le> uint w" using uint_ge_0 [of w] by (intro order_trans [OF _ uint_ge_0]) simp
  ultimately have "signed_take_bit 63 (uint w) = uint w"
    by (intro signed_take_bit_int_eq_self) simp_all
  then show ?thesis by (simp add: sint_uint)
qed

lemma unat_word_of_int: "0 \<le> k \<Longrightarrow> k < 2 ^ 64 \<Longrightarrow> unat (word_of_int k :: u64) = nat k"
  by (simp add: unat_eq_nat_uint uint_word_of_int mod_pos_pos_trivial)

lemma unat_exp: "n < 64 \<Longrightarrow> unat ((2 :: u64) ^ n) = 2 ^ n"
proof -
  assume n: "n < 64"
  then have "uint ((2 :: u64) ^ n) = 2 ^ n"
    by (intro uint_2p) (simp add: word_gt_0 exp_eq_zero_iff not_le)
  then show ?thesis by (simp add: unat_eq_nat_uint nat_power_eq)
qed

text \<open>Two different multiples of four are at least four apart.\<close>

lemma aligned_less: "a mod 4 = 0 \<Longrightarrow> b mod 4 = 0 \<Longrightarrow> a < b \<Longrightarrow> a + 4 \<le> (b :: nat)"
proof -
  assume "a mod 4 = 0" "b mod 4 = 0" "a < b"
  then obtain p q where "a = 4 * p" "b = 4 * q" by (auto dest!: mod_0_imp_dvd elim!: dvdE)
  then show ?thesis using \<open>a < b\<close> by simp
qed

section \<open>Big-endian byte strings\<close>

text \<open>
  \<^term>\<open>be_enc n v\<close> is the \<open>n\<close>-byte big-endian form of \<open>v\<close> (\<^verbatim>\<open>PutUint16\<close>,
  \<^verbatim>\<open>PutUint32\<close>, \<^verbatim>\<open>PutUint64\<close>), \<^term>\<open>be_dec bs\<close> the number a byte string denotes.
\<close>

fun be_enc :: "nat \<Rightarrow> nat \<Rightarrow> byte list" where
  "be_enc 0 v = []"
| "be_enc (Suc n) v = be_enc n (v div 256) @ [of_nat (v mod 256)]"

definition be_dec :: "byte list \<Rightarrow> nat" where
  "be_dec bs = foldl (\<lambda>a b. a * 256 + unat b) 0 bs"

lemma length_be_enc [simp]: "length (be_enc n v) = n"
  by (induction n arbitrary: v) auto

lemma be_dec_Nil [simp]: "be_dec [] = 0"
  by (simp add: be_dec_def)

lemma be_dec_snoc [simp]: "be_dec (bs @ [b]) = be_dec bs * 256 + unat b"
  by (simp add: be_dec_def)

lemma be_dec_enc: "be_dec (be_enc n v) = v mod 256 ^ n"
proof (induction n arbitrary: v)
  case (Suc n)
  have b: "unat (of_nat (v mod 256) :: byte) = v mod 256"
    by (simp add: unat_of_nat del: of_nat_mod)
  have "v mod (256 * 256 ^ n) = 256 * (v div 256 mod 256 ^ n) + v mod 256"
    by (simp add: mod_mult2_eq)
  then show ?case
    using Suc.IH [of "v div 256"] by (simp add: b mult.commute del: of_nat_mod)
qed simp

lemma unat_byte_less [simp]: "unat (b :: byte) < 256"
  using unat_lt [of b] by simp

lemma be_enc_dec: "be_enc (length bs) (be_dec bs) = bs"
proof (induction bs rule: rev_induct)
  case (snoc b bs)
  have "(be_dec bs * 256 + unat b) div 256 = be_dec bs"
    and "(be_dec bs * 256 + unat b) mod 256 = unat b"
    using unat_byte_less [of b] by (simp_all add: div_add1_eq)
  then show ?case using snoc by (simp del: of_nat_add of_nat_mult of_nat_mod)
qed simp

lemma be_dec_less: "be_dec bs < 256 ^ length bs"
proof (induction bs rule: rev_induct)
  case (snoc b bs)
  have "be_dec bs * 256 + unat b < (be_dec bs + 1) * 256"
    using unat_byte_less [of b] by simp
  also have "\<dots> \<le> 256 ^ length bs * 256"
    using snoc by (intro mult_le_mono1) simp
  finally show ?case by simp
qed simp

definition put_u16 :: "u16 \<Rightarrow> byte list" where "put_u16 x = be_enc 2 (unat x)"
definition put_u32 :: "u32 \<Rightarrow> byte list" where "put_u32 x = be_enc 4 (unat x)"
definition put_u64 :: "u64 \<Rightarrow> byte list" where "put_u64 x = be_enc 8 (unat x)"
definition get_u16 :: "byte list \<Rightarrow> u16" where "get_u16 bs = of_nat (be_dec bs)"
definition get_u32 :: "byte list \<Rightarrow> u32" where "get_u32 bs = of_nat (be_dec bs)"
definition get_u64 :: "byte list \<Rightarrow> u64" where "get_u64 bs = of_nat (be_dec bs)"

lemma length_put [simp]:
  "length (put_u16 a) = 2" "length (put_u32 b) = 4" "length (put_u64 c) = 8"
  by (simp_all add: put_u16_def put_u32_def put_u64_def)

lemma get_put_u16 [simp]: "get_u16 (put_u16 x) = x"
  using unat_lt [of x] by (simp add: get_u16_def put_u16_def be_dec_enc)

lemma get_put_u32 [simp]: "get_u32 (put_u32 x) = x"
  using unat_lt [of x] by (simp add: get_u32_def put_u32_def be_dec_enc)

lemma get_put_u64 [simp]: "get_u64 (put_u64 x) = x"
  using unat_lt [of x] by (simp add: get_u64_def put_u64_def be_dec_enc)

lemma put_get_u32: "length bs = 4 \<Longrightarrow> put_u32 (get_u32 bs) = bs"
  using be_dec_less [of bs] be_enc_dec [of bs]
  by (simp add: put_u32_def get_u32_def unat_of_nat)

lemma put_get_u16: "length bs = 2 \<Longrightarrow> put_u16 (get_u16 bs) = bs"
  using be_dec_less [of bs] be_enc_dec [of bs]
  by (simp add: put_u16_def get_u16_def unat_of_nat)

section \<open>Slices\<close>

text \<open>\<^verbatim>\<open>copy(dst, src)\<close>: as many elements as both hold; the rest of \<open>dst\<close> stays.\<close>

definition go_copy :: "'a list \<Rightarrow> 'a list \<Rightarrow> 'a list" where
  "go_copy dst src = take (length dst) src @ drop (length src) dst"

lemma length_go_copy [simp]: "length (go_copy dst src) = length dst"
  by (simp add: go_copy_def)

section \<open>Machines with an invariant\<close>

text \<open>
  The states a step relation reaches from its initial ones, and the contract by which a
  component proves an invariant of all of them: it holds initially and every step keeps it.
\<close>

inductive reach :: "('s \<Rightarrow> bool) \<Rightarrow> ('s \<Rightarrow> 's \<Rightarrow> bool) \<Rightarrow> 's \<Rightarrow> bool"
  for init step where
  reach_init: "init s \<Longrightarrow> reach init step s"
| reach_step: "reach init step s \<Longrightarrow> step s t \<Longrightarrow> reach init step t"

locale machine =
  fixes init :: "'s \<Rightarrow> bool" and step :: "'s \<Rightarrow> 's \<Rightarrow> bool" and inv :: "'s \<Rightarrow> bool"
  assumes init_inv: "init s \<Longrightarrow> inv s"
    and step_inv: "inv s \<Longrightarrow> step s t \<Longrightarrow> inv t"
begin

lemma reach_inv: "reach init step s \<Longrightarrow> inv s"
  by (induction rule: reach.induct) (auto intro: init_inv step_inv)

lemma run_inv: "inv s \<Longrightarrow> step\<^sup>*\<^sup>* s t \<Longrightarrow> inv t"
  by (rotate_tac, induction rule: rtranclp_induct) (auto intro: step_inv)

end

end
