(* ===== verification/Mips_Memory.thy ===== *)
theory Mips_Memory
  imports Prelude
begin

text \<open>
  The MIPS emulator's memory (\<^verbatim>\<open>cannon/mipsevm/page.go\<close>, \<^verbatim>\<open>memory.go\<close>): 4 KiB pages
  allocated on demand, each with a cache of its Merkle sub-tree, and a table of the
  tree nodes above the pages. \<^verbatim>\<open>nil\<close> entries of a table are \<^term>\<open>Some None\<close>, missing
  ones \<^term>\<open>None\<close>. Pages are referred to by pointer (the map of pages and the two
  last-used entries share them), so the memory carries its heap of pages. Arrays are
  functions on indices; every access stays in the range the code checks. The node
  indices are numbers, since they stay below \<open>2 ^ 29\<close> (\<open>2 ^ 33\<close> for a page index out of
  range). The hash function \<^verbatim>\<open>crypto.Keccak256Hash\<close> is a parameter \<open>K\<close>.
\<close>

section \<open>Panics\<close>

datatype vm_panic =
    UnalignedAccess u32 | InvalidPageAddr | GindexTooDeep | TraversedTooDeep
  | NilDereference | StackOverflow | DuplicatePage nat u32 | SliceBounds | ReaderError
  | IndexOutOfRange | BranchInDelaySlot | JumpInDelaySlot | InvalidRegister
  | InvalidInstruction | DivideByZero | FuelExhausted | UnexpectedMemAccess u32 u32 | InvalidWitnessLength nat

section \<open>Pages\<close>

record cached_page =
  cp_data :: "nat \<Rightarrow> byte"
  cp_cache :: "nat \<Rightarrow> hash"
  cp_ok :: "nat \<Rightarrow> bool"

definition new_page :: cached_page where
  "new_page = \<lparr>cp_data = (\<lambda>_. 0), cp_cache = (\<lambda>_. zero_hash32), cp_ok = (\<lambda>_. False)\<rparr>"

definition slice_of :: "(nat \<Rightarrow> byte) \<Rightarrow> nat \<Rightarrow> nat \<Rightarrow> byte list" where
  "slice_of d i n = map d [i..<i + n]"

definition write_bytes :: "(nat \<Rightarrow> byte) \<Rightarrow> nat \<Rightarrow> byte list \<Rightarrow> nat \<Rightarrow> byte" where
  "write_bytes d off bs = (\<lambda>i. if off \<le> i \<and> i < off + length bs then bs ! (i - off) else d i)"

definition hash_pair :: "(byte list \<Rightarrow> hash) \<Rightarrow> hash \<Rightarrow> hash \<Rightarrow> hash" where
  "hash_pair K left right = K (left @ right)"

primrec zero_hashes :: "(byte list \<Rightarrow> hash) \<Rightarrow> nat \<Rightarrow> hash" where
  "zero_hashes K 0 = zero_hash32"
| "zero_hashes K (Suc i) = hash_pair K (zero_hashes K i) (zero_hashes K i)"

fun clear_ok_path :: "nat \<Rightarrow> (nat \<Rightarrow> bool) \<Rightarrow> (nat \<Rightarrow> bool)" where
  "clear_ok_path k ok = (if k = 0 then ok else clear_ok_path (k div 2) (ok(k := False)))"

definition page_invalidate :: "cached_page \<Rightarrow> u32 \<Rightarrow> vm_panic + cached_page" where
  "page_invalidate p pageAddr =
     (if 4096 \<le> pageAddr then Inl InvalidPageAddr
      else let k = drop_bit 6 (4096 OR unat pageAddr)
           in Inr (p\<lparr>cp_ok := clear_ok_path k (cp_ok p)\<rparr>))"

definition page_invalidate_full :: "cached_page \<Rightarrow> cached_page" where
  "page_invalidate_full p = p\<lparr>cp_ok := (\<lambda>_. False)\<rparr>"

definition hash_bottom :: "(byte list \<Rightarrow> hash) \<Rightarrow> nat \<Rightarrow> cached_page \<Rightarrow> cached_page" where
  "hash_bottom K i p =
     (let j = 4096 div 32 div 2 + i div 64
      in if cp_ok p j then p
         else p\<lparr>cp_cache := (cp_cache p)(j := K (slice_of (cp_data p) i 64)),
                cp_ok := (cp_ok p)(j := True)\<rparr>)"

definition hash_layer :: "(byte list \<Rightarrow> hash) \<Rightarrow> nat \<Rightarrow> cached_page \<Rightarrow> cached_page" where
  "hash_layer K i p =
     (let j = i div 2
      in if cp_ok p j then p
         else p\<lparr>cp_cache := (cp_cache p)(j := hash_pair K (cp_cache p i) (cp_cache p (i + 1))),
                cp_ok := (cp_ok p)(j := True)\<rparr>)"

definition page_fill :: "(byte list \<Rightarrow> hash) \<Rightarrow> cached_page \<Rightarrow> cached_page" where
  "page_fill K p =
     fold (hash_layer K) (rev (map (\<lambda>n. 2 * n) [1..<64]))
       (fold (hash_bottom K) (map (\<lambda>n. 64 * n) [0..<64]) p)"

definition page_merkle_root :: "(byte list \<Rightarrow> hash) \<Rightarrow> cached_page \<Rightarrow> hash \<times> cached_page" where
  "page_merkle_root K p = (let p' = page_fill K p in (cp_cache p' 1, p'))"

definition page_merkleize_subtree ::
  "(byte list \<Rightarrow> hash) \<Rightarrow> cached_page \<Rightarrow> nat \<Rightarrow> vm_panic + hash \<times> cached_page" where
  "page_merkleize_subtree K p gindex =
     (let p' = snd (page_merkle_root K p)
      in if 4096 div 32 \<le> gindex
         then if 4096 div 32 * 2 \<le> gindex then Inl GindexTooDeep
              else let nodeIndex = gindex AND drop_bit 5 4095
                   in Inr (slice_of (cp_data p') (nodeIndex * 32) 32, p')
         else Inr (cp_cache p' gindex, p'))"

section \<open>The memory\<close>

record memory =
  m_nodes :: "nat \<rightharpoonup> hash option"
  m_pages :: "u32 \<rightharpoonup> nat"
  m_heap :: "nat \<Rightarrow> cached_page"
  m_next :: nat
  m_key0 :: u32
  m_key1 :: u32
  m_last0 :: "nat option"
  m_last1 :: "nat option"

definition new_memory :: memory where
  "new_memory = \<lparr>m_nodes = Map.empty, m_pages = Map.empty, m_heap = (\<lambda>_. new_page), m_next = 0,
     m_key0 = - 1, m_key1 = - 1, m_last0 = None, m_last1 = None\<rparr>"

text \<open>
  The result of a look-up is the pair Go returns, a pointer that may be nil and the
  \<open>ok\<close> flag; a page found in the map moves into the first of the two last-used entries.
\<close>

definition page_lookup :: "memory \<Rightarrow> u32 \<Rightarrow> (nat option \<times> bool) \<times> memory" where
  "page_lookup m pageIndex =
     (if pageIndex = m_key0 m then ((m_last0 m, True), m)
      else if pageIndex = m_key1 m then ((m_last1 m, True), m)
      else case m_pages m pageIndex of
             None \<Rightarrow> ((None, False), m)
           | Some p \<Rightarrow> ((Some p, True),
               m\<lparr>m_key1 := m_key0 m, m_last1 := m_last0 m, m_key0 := pageIndex, m_last0 := Some p\<rparr>))"

fun clear_nodes :: "nat \<Rightarrow> (nat \<rightharpoonup> hash option) \<Rightarrow> (nat \<rightharpoonup> hash option)" where
  "clear_nodes k nodes = (if k = 0 then nodes else clear_nodes (k div 2) (nodes(k \<mapsto> None)))"

definition heap_update :: "nat \<Rightarrow> cached_page \<Rightarrow> memory \<Rightarrow> memory" where
  "heap_update p pg m = m\<lparr>m_heap := (m_heap m)(p := pg)\<rparr>"

definition mem_invalidate :: "memory \<Rightarrow> u32 \<Rightarrow> vm_panic + memory" where
  "mem_invalidate m addr =
     (if addr AND 3 \<noteq> 0 then Inl (UnalignedAccess addr)
      else let (r, m1) = page_lookup m (drop_bit 12 addr)
           in case r of
                (_, False) \<Rightarrow> Inr m1
              | (None, True) \<Rightarrow> Inl NilDereference
              | (Some p, True) \<Rightarrow>
                  let prevValid = cp_ok (m_heap m1 p) 1
                  in rbind (page_invalidate (m_heap m1 p) (addr AND 4095)) (\<lambda>pg.
                       let m2 = heap_update p pg m1
                       in if \<not> prevValid then Inr m2
                          else Inr (m2\<lparr>m_nodes :=
                                 clear_nodes (drop_bit 12 (2 ^ 32 OR unat addr)) (m_nodes m2)\<rparr>)))"

fun len64 :: "nat \<Rightarrow> nat" where
  "len64 g = (if g = 0 then 0 else Suc (len64 (g div 2)))"

declare len64.simps [simp del] clear_ok_path.simps [simp del] clear_nodes.simps [simp del]

lemma len64_0 [simp]: "len64 0 = 0"
  by (simp add: len64.simps)

lemma len64_double [simp]: "0 < g \<Longrightarrow> len64 (2 * g) = Suc (len64 g)"
  "len64 (Suc (2 * g)) = Suc (len64 g)"
  by (subst len64.simps, simp)+

text \<open>
  A node index 0 whose entry is \<^verbatim>\<open>nil\<close> is its own child: the code recurses for ever,
  which Go ends with a stack overflow.
\<close>

function mem_merkleize_subtree ::
  "(byte list \<Rightarrow> hash) \<Rightarrow> memory \<Rightarrow> nat \<Rightarrow> vm_panic + hash \<times> memory" where
  "mem_merkleize_subtree K m gindex =
     (let l = len64 gindex
      in if l > 28 then Inl GindexTooDeep
         else if l > 20 then
           let depthIntoPage = l - 1 - 20;
               pageIndex = drop_bit depthIntoPage gindex AND (2 ^ 20 - 1)
           in case m_pages m (of_nat pageIndex) of
                Some p \<Rightarrow>
                  let pageGindex = push_bit depthIntoPage 1 OR (gindex AND (push_bit depthIntoPage 1 - 1))
                  in rbind (page_merkleize_subtree K (m_heap m p) pageGindex)
                       (\<lambda>(h, pg). Inr (h, heap_update p pg m))
              | None \<Rightarrow> Inr (zero_hashes K (28 - l), m)
         else case m_nodes m gindex of
                None \<Rightarrow> Inr (zero_hashes K (28 - l), m)
              | Some (Some n) \<Rightarrow> Inr (n, m)
              | Some None \<Rightarrow>
                  if gindex = 0 then Inl StackOverflow
                  else rbind (mem_merkleize_subtree K m (2 * gindex)) (\<lambda>(left, m1).
                       rbind (mem_merkleize_subtree K m1 (2 * gindex + 1)) (\<lambda>(right, m2).
                       let r = hash_pair K left right
                       in Inr (r, m2\<lparr>m_nodes := (m_nodes m2)(gindex \<mapsto> Some r)\<rparr>))))"
  by pat_completeness auto
termination
  by (relation "measure (\<lambda>(K, m, g). 28 - len64 g)") auto

declare mem_merkleize_subtree.simps [simp del]

function traverse_branch ::
  "(byte list \<Rightarrow> hash) \<Rightarrow> memory \<Rightarrow> nat \<Rightarrow> u32 \<Rightarrow> nat \<Rightarrow> vm_panic + hash list \<times> memory" where
  "traverse_branch K m parent addr depth =
     (if depth = 27 then
        rbind (mem_merkleize_subtree K m parent) (\<lambda>(h, m1). Inr ([h], m1))
      else if depth > 27 then Inl TraversedTooDeep
      else let left = 2 * parent; right = left OR 1;
               (self, sibling) = (if addr AND push_bit (31 - depth) 1 \<noteq> 0
                                  then (right, left) else (left, right))
           in rbind (traverse_branch K m self addr (depth + 1)) (\<lambda>(proof, m1).
              rbind (mem_merkleize_subtree K m1 sibling) (\<lambda>(siblingNode, m2).
              Inr (proof @ [siblingNode], m2))))"
  by pat_completeness auto
termination
  by (relation "measure (\<lambda>(K, m, p, a, d). 27 - d)") (auto split: if_splits)

declare traverse_branch.simps [simp del]

definition merkle_proof :: "(byte list \<Rightarrow> hash) \<Rightarrow> memory \<Rightarrow> u32 \<Rightarrow> vm_panic + byte list \<times> memory" where
  "merkle_proof K m addr =
     rbind (traverse_branch K m 1 addr 0) (\<lambda>(proof, m1).
       Inr (concat (map (\<lambda>i. proof ! i) [0..<28]), m1))"

definition mem_merkle_root :: "(byte list \<Rightarrow> hash) \<Rightarrow> memory \<Rightarrow> vm_panic + hash \<times> memory" where
  "mem_merkle_root K m = mem_merkleize_subtree K m 1"

definition alloc_page :: "memory \<Rightarrow> u32 \<Rightarrow> nat \<times> memory" where
  "alloc_page m pageIndex =
     (let p = m_next m; k = 2 ^ 20 OR unat pageIndex
      in (p, m\<lparr>m_heap := (m_heap m)(p := new_page), m_next := Suc p,
               m_pages := (m_pages m)(pageIndex \<mapsto> p),
               m_nodes := clear_nodes k (m_nodes m)\<rparr>))"

definition write_page :: "nat \<Rightarrow> nat \<Rightarrow> byte list \<Rightarrow> memory \<Rightarrow> memory" where
  "write_page p off bs m =
     heap_update p ((m_heap m p)\<lparr>cp_data := write_bytes (cp_data (m_heap m p)) off bs\<rparr>) m"

definition set_memory :: "memory \<Rightarrow> u32 \<Rightarrow> u32 \<Rightarrow> vm_panic + memory" where
  "set_memory m addr v =
     (if addr AND 3 \<noteq> 0 then Inl (UnalignedAccess addr)
      else let pageIndex = drop_bit 12 addr; pageAddr = addr AND 4095;
               (r, m1) = page_lookup m pageIndex
           in case r of
                (_, False) \<Rightarrow>
                  let (p, m2) = alloc_page m1 pageIndex
                  in Inr (write_page p (unat pageAddr) (put_u32 v) m2)
              | (q, True) \<Rightarrow>
                  rbind (mem_invalidate m1 addr) (\<lambda>m2.
                    case q of None \<Rightarrow> Inl NilDereference
                    | Some p \<Rightarrow> Inr (write_page p (unat pageAddr) (put_u32 v) m2)))"

definition get_memory :: "memory \<Rightarrow> u32 \<Rightarrow> vm_panic + u32 \<times> memory" where
  "get_memory m addr =
     (if addr AND 3 \<noteq> 0 then Inl (UnalignedAccess addr)
      else let (r, m1) = page_lookup m (drop_bit 12 addr)
           in case r of
                (_, False) \<Rightarrow> Inr (0, m1)
              | (None, True) \<Rightarrow> Inl NilDereference
              | (Some p, True) \<Rightarrow>
                  Inr (get_u32 (slice_of (cp_data (m_heap m1 p)) (unat (addr AND 4095)) 4), m1))"

end
