(* ===== verification/Mips_Merkle.thy ===== *)
theory Mips_Merkle
  imports Mips_Memory
begin

text \<open>
  The Merkle caches compute the root of a plain tree. The reference is \<open>mtree\<close>: the
  complete binary tree over 32-byte leaves, with no cache. This theory shows that a
  page's cache agrees with it, that writes clear exactly the entries they spoil, and
  collects the facts on node indices (bit length, ancestors) the proofs share.
\<close>

section \<open>Bit lengths, ancestors\<close>

lemma len64_1 [simp]: "len64 (Suc 0) = 1"
  by (simp add: len64.simps [of "Suc 0"])

lemma div_pow_Suc: "(x :: nat) div 2 ^ Suc n = x div 2 div 2 ^ n"
  by (simp only: power_Suc div_mult2_eq)

lemma div_pow_Suc2: "(x :: nat) div 2 ^ Suc n = x div 2 ^ n div 2"
  by (simp only: power_Suc2 div_mult2_eq)

lemma len64_eqI: "2 ^ n \<le> g \<Longrightarrow> g < 2 ^ Suc n \<Longrightarrow> len64 g = Suc n"
proof (induction n arbitrary: g)
  case 0
  then have "g = 1" by simp
  then show ?case by simp
next
  case (Suc n)
  have "2 ^ n \<le> g div 2" "g div 2 < 2 ^ Suc n" using Suc.prems by auto
  then have "len64 (g div 2) = Suc n" by (rule Suc.IH)
  moreover have "g \<noteq> 0" using Suc.prems(1) by (cases g) auto
  ultimately show ?case by (simp add: len64.simps [of g])
qed

lemma len64_bounds: "0 < g \<Longrightarrow> \<exists>n. len64 g = Suc n \<and> 2 ^ n \<le> g \<and> g < 2 ^ Suc n"
proof (induction g rule: len64.induct)
  case (1 g)
  show ?case
  proof (cases "g = 1")
    case True
    then show ?thesis by (intro exI [of _ 0]) simp
  next
    case False
    with "1.prems" have "0 < g div 2" "g \<noteq> 0" by auto
    with "1.IH" obtain n where "len64 (g div 2) = Suc n" "2 ^ n \<le> g div 2" "g div 2 < 2 ^ Suc n"
      by auto
    then show ?thesis using \<open>g \<noteq> 0\<close>
      by (intro exI [of _ "Suc n"]) (auto simp: len64.simps [of g])
  qed
qed

lemma len64_le_iff: "0 < g \<Longrightarrow> len64 g \<le> n \<longleftrightarrow> g < 2 ^ n"
proof -
  assume "0 < g"
  then obtain k where k: "len64 g = Suc k" "2 ^ k \<le> g" "g < 2 ^ Suc k"
    using len64_bounds by blast
  show ?thesis
  proof
    assume "len64 g \<le> n"
    then have "(2::nat) ^ Suc k \<le> 2 ^ n" using k(1) by (intro power_increasing) auto
    then show "g < 2 ^ n" using k(3) by linarith
  next
    assume "g < 2 ^ n"
    then have "(2::nat) ^ k < 2 ^ n" using k(2) by linarith
    then show "len64 g \<le> n" using k(1) by simp
  qed
qed

definition anc :: "nat \<Rightarrow> nat \<Rightarrow> bool" where
  "anc g x \<longleftrightarrow> g \<noteq> 0 \<and> (\<exists>n. x div 2 ^ n = g)"

lemma anc_refl: "x \<noteq> 0 \<Longrightarrow> anc x x"
  by (auto simp: anc_def intro: exI [of _ 0])

lemma anc_half: "anc g (x div 2) \<Longrightarrow> anc g x"
proof -
  assume a: "anc g (x div 2)"
  then obtain n where "x div 2 div 2 ^ n = g" by (auto simp: anc_def)
  then have "x div 2 ^ Suc n = g" by (simp only: div_pow_Suc)
  then show ?thesis using a unfolding anc_def by blast
qed

lemma anc_step: "anc g x \<longleftrightarrow> g \<noteq> 0 \<and> (x = g \<or> anc g (x div 2))"
proof
  assume a: "anc g x"
  then obtain n where n: "x div 2 ^ n = g" "g \<noteq> 0" by (auto simp: anc_def)
  show "g \<noteq> 0 \<and> (x = g \<or> anc g (x div 2))"
  proof (cases n)
    case 0 with n show ?thesis by simp
  next
    case (Suc k)
    then have "x div 2 div 2 ^ k = g" using n by (simp only: div_pow_Suc)
    with n show ?thesis unfolding anc_def by blast
  qed
next
  assume "g \<noteq> 0 \<and> (x = g \<or> anc g (x div 2))"
  then show "anc g x" using anc_half anc_refl by blast
qed

lemma anc_0 [simp]: "\<not> anc g 0" "\<not> anc 0 x"
  by (auto simp: anc_def)

lemma anc_child: "anc (2 * g) x \<Longrightarrow> anc g x" "anc (Suc (2 * g)) x \<Longrightarrow> g \<noteq> 0 \<Longrightarrow> anc g x"
proof -
  show "anc (2 * g) x \<Longrightarrow> anc g x"
  proof -
    assume a: "anc (2 * g) x"
    then obtain n where n: "x div 2 ^ n = 2 * g" by (auto simp: anc_def)
    have "x div 2 ^ Suc n = g" using n by (simp add: div_pow_Suc2 del: power_Suc)
    moreover have "g \<noteq> 0" using a by (auto simp: anc_def)
    ultimately show ?thesis unfolding anc_def by blast
  qed
  show "anc (Suc (2 * g)) x \<Longrightarrow> g \<noteq> 0 \<Longrightarrow> anc g x"
  proof -
    assume a: "anc (Suc (2 * g)) x" "g \<noteq> 0"
    then obtain n where n: "x div 2 ^ n = Suc (2 * g)" by (auto simp: anc_def)
    have "x div 2 ^ Suc n = g" using n by (simp add: div_pow_Suc2 del: power_Suc)
    then show ?thesis using a(2) unfolding anc_def by blast
  qed
qed

lemma anc_split:
  assumes a: "anc g x" and ne: "x \<noteq> g"
  shows "anc (2 * g) x \<or> anc (Suc (2 * g)) x"
proof -
  obtain n where n: "x div 2 ^ n = g" "g \<noteq> 0" using a by (auto simp: anc_def)
  with ne obtain k where k: "n = Suc k" by (cases n) auto
  then have "x div 2 ^ k div 2 = g" using n by (simp only: div_pow_Suc2)
  then have "x div 2 ^ k = 2 * g \<or> x div 2 ^ k = Suc (2 * g)" by linarith
  then show ?thesis using n(2) unfolding anc_def by auto
qed

lemma clear_ok_path_eq: "clear_ok_path k ok = (\<lambda>j. ok j \<and> \<not> anc j k)"
proof (induction k ok rule: clear_ok_path.induct)
  case (1 k ok)
  show ?case
  proof (cases "k = 0")
    case False
    then have "clear_ok_path k ok = clear_ok_path (k div 2) (ok(k := False))"
      by (simp add: clear_ok_path.simps [of k])
    also have "\<dots> = (\<lambda>j. ok j \<and> \<not> anc j k)"
      using False by (subst "1.IH") (auto simp: fun_eq_iff anc_step [of _ k])
    finally show ?thesis .
  qed (simp add: clear_ok_path.simps [of 0])
qed

lemma clear_nodes_eq: "clear_nodes k nodes = (\<lambda>g. if anc g k then Some None else nodes g)"
proof (induction k nodes rule: clear_nodes.induct)
  case (1 k nodes)
  show ?case
  proof (cases "k = 0")
    case False
    then have "clear_nodes k nodes = clear_nodes (k div 2) (nodes(k \<mapsto> None))"
      by (simp add: clear_nodes.simps [of k])
    also have "\<dots> = (\<lambda>g. if anc g k then Some None else nodes g)"
      using False by (subst "1.IH") (auto simp: fun_eq_iff anc_step [of _ k])
    finally show ?thesis .
  qed (simp add: clear_nodes.simps [of 0])
qed

lemma nat_or_shift: "x < 2 ^ n \<Longrightarrow> (2 ^ n OR x :: nat) = 2 ^ n + x"
proof -
  assume x: "x < 2 ^ n"
  have "\<not> bit (2 ^ n :: nat) k \<or> \<not> bit x k" for k
  proof (cases "k = n")
    case True
    have "take_bit n x = x" using x by (simp add: take_bit_nat_eq_self_iff)
    then have "bit x n \<longleftrightarrow> bit (take_bit n x) n" by simp
    then show ?thesis using True by (simp add: bit_take_bit_iff)
  qed (simp add: bit_exp_iff)
  then show ?thesis by (simp add: disjunctive_add)
qed

lemma nat_and_mask: "(x AND (2 ^ n - 1) :: nat) = x mod 2 ^ n"
  by (metis mask_eq_exp_minus_1 take_bit_eq_mask take_bit_eq_mod)

section \<open>The reference tree\<close>

fun mtree :: "(byte list \<Rightarrow> hash) \<Rightarrow> (nat \<Rightarrow> hash) \<Rightarrow> nat \<Rightarrow> nat \<Rightarrow> hash" where
  "mtree K leaf 0 g = leaf g"
| "mtree K leaf (Suc h) g = hash_pair K (mtree K leaf h (2 * g)) (mtree K leaf h (2 * g + 1))"

lemma mtree_cong:
  "(\<And>i. i < 2 ^ h \<Longrightarrow> leaf (g * 2 ^ h + i) = leaf' (g' * 2 ^ h + i)) \<Longrightarrow>
   mtree K leaf h g = mtree K leaf' h g'"
proof (induction h arbitrary: g g')
  case (Suc h)
  have "mtree K leaf h (2 * g) = mtree K leaf' h (2 * g')"
  proof (rule Suc.IH)
    fix i :: nat assume "i < 2 ^ h"
    then show "leaf (2 * g * 2 ^ h + i) = leaf' (2 * g' * 2 ^ h + i)"
      using Suc.prems [of i] by (simp add: ac_simps)
  qed
  moreover have "mtree K leaf h (2 * g + 1) = mtree K leaf' h (2 * g' + 1)"
  proof (rule Suc.IH)
    fix i :: nat assume "i < 2 ^ h"
    then show "leaf ((2 * g + 1) * 2 ^ h + i) = leaf' ((2 * g' + 1) * 2 ^ h + i)"
      using Suc.prems [of "2 ^ h + i"] by (simp add: algebra_simps)
  qed
  ultimately show ?case by simp
qed simp

lemma mtree_zero:
  "(\<And>i. i < 2 ^ h \<Longrightarrow> leaf (g * 2 ^ h + i) = zero_hash32) \<Longrightarrow> mtree K leaf h g = zero_hashes K h"
proof (induction h arbitrary: g)
  case (Suc h)
  have "mtree K leaf h (2 * g) = zero_hashes K h"
  proof (rule Suc.IH)
    fix i :: nat assume "i < 2 ^ h"
    then show "leaf (2 * g * 2 ^ h + i) = zero_hash32"
      using Suc.prems [of i] by (simp add: ac_simps)
  qed
  moreover have "mtree K leaf h (2 * g + 1) = zero_hashes K h"
  proof (rule Suc.IH)
    fix i :: nat assume "i < 2 ^ h"
    then show "leaf ((2 * g + 1) * 2 ^ h + i) = zero_hash32"
      using Suc.prems [of "2 ^ h + i"] by (simp add: algebra_simps)
  qed
  ultimately show ?case by simp
qed simp

section \<open>Pages\<close>

definition pleaf :: "(nat \<Rightarrow> byte) \<Rightarrow> nat \<Rightarrow> hash" where
  "pleaf d j = slice_of d ((j - 128) * 32) 32"

definition pnode :: "(byte list \<Rightarrow> hash) \<Rightarrow> (nat \<Rightarrow> byte) \<Rightarrow> nat \<Rightarrow> hash" where
  "pnode K d j = mtree K (pleaf d) (8 - len64 j) j"

definition page_ok :: "(byte list \<Rightarrow> hash) \<Rightarrow> cached_page \<Rightarrow> bool" where
  "page_ok K p \<longleftrightarrow> (\<forall>j. 1 \<le> j \<and> j < 128 \<and> cp_ok p j \<longrightarrow> cp_cache p j = pnode K (cp_data p) j)"

lemma page_ok_new [simp]: "page_ok K new_page"
  by (simp add: page_ok_def new_page_def)

lemma page_okD: "page_ok K p \<Longrightarrow> cp_ok p j \<Longrightarrow> 1 \<le> j \<Longrightarrow> j < 128 \<Longrightarrow>
    cp_cache p j = pnode K (cp_data p) j"
  by (simp add: page_ok_def)

lemma slice_of_append: "slice_of d i n @ slice_of d (i + n) m = slice_of d i (n + m)"
  using upt_add_eq_append [of i "i + n" m]
  by (simp add: slice_of_def add.assoc flip: map_append)

lemma length_slice_of [simp]: "length (slice_of d i n) = n"
  by (simp add: slice_of_def)

lemma pnode_inner:
  assumes "1 \<le> j" "j < 128"
  shows "pnode K d j = hash_pair K (pnode K d (2 * j)) (pnode K d (2 * j + 1))"
proof -
  have "len64 j \<le> 7" using assms by (subst len64_le_iff) auto
  then obtain h where h: "8 - len64 j = Suc h" "h = 8 - Suc (len64 j)"
    by (cases "8 - len64 j") auto
  have "0 < j" using assms by simp
  then show ?thesis using h by (simp add: pnode_def)
qed

lemma pnode_bottom:
  assumes "n < 64"
  shows "pnode K d (64 + n) = K (slice_of d (64 * n) 64)"
proof -
  have l: "len64 (2 * (64 + n)) = 8" "len64 (2 * (64 + n) + 1) = 8"
    using len64_eqI [of 7 "2 * (64 + n)"] len64_eqI [of 7 "2 * (64 + n) + 1"] assms by simp_all
  have "pnode K d (64 + n) = hash_pair K (pnode K d (2 * (64 + n))) (pnode K d (2 * (64 + n) + 1))"
    using assms by (intro pnode_inner) auto
  also have "\<dots> = K (slice_of d (64 * n) 32 @ slice_of d (64 * n + 32) 32)"
    using l by (simp add: pnode_def pleaf_def hash_pair_def algebra_simps)
  finally show ?thesis by (simp only: slice_of_append) simp
qed


subsection \<open>Filling a page's cache\<close>

lemma hash_bottom_data [simp]: "cp_data (hash_bottom K i p) = cp_data p"
  by (simp add: hash_bottom_def Let_def)

lemma hash_layer_data [simp]: "cp_data (hash_layer K i p) = cp_data p"
  by (simp add: hash_layer_def Let_def)

lemma hash_bottom_ok [simp]:
  "cp_ok (hash_bottom K i p) j \<longleftrightarrow> cp_ok p j \<or> j = 64 + i div 64"
  by (auto simp: hash_bottom_def Let_def)

lemma hash_layer_ok [simp]: "cp_ok (hash_layer K i p) j \<longleftrightarrow> cp_ok p j \<or> j = i div 2"
  by (auto simp: hash_layer_def Let_def)

lemma hash_bottom_page_ok: "page_ok K p \<Longrightarrow> n < 64 \<Longrightarrow> page_ok K (hash_bottom K (64 * n) p)"
  using pnode_bottom [of n K "cp_data p"]
  by (auto simp: page_ok_def hash_bottom_def Let_def)

lemma hash_layer_page_ok:
  assumes p: "page_ok K p" and n: "1 \<le> n" "n < 64"
    and kids: "cp_ok p (2 * n)" "cp_ok p (2 * n + 1)"
  shows "page_ok K (hash_layer K (2 * n) p)"
proof -
  have "cp_cache p (2 * n) = pnode K (cp_data p) (2 * n)"
    and "cp_cache p (2 * n + 1) = pnode K (cp_data p) (2 * n + 1)"
    using p n kids by (auto intro!: page_okD)
  then have "hash_pair K (cp_cache p (2 * n)) (cp_cache p (2 * n + 1)) = pnode K (cp_data p) n"
    using n by (simp add: pnode_inner)
  then show ?thesis
    using p by (auto simp: page_ok_def hash_layer_def Let_def)
qed

lemma fold_bottom:
  "N \<le> 64 \<Longrightarrow> page_ok K p \<Longrightarrow>
   let q = fold (hash_bottom K) (map (\<lambda>n. 64 * n) [0..<N]) p
   in page_ok K q \<and> cp_data q = cp_data p \<and> (\<forall>j. 64 \<le> j \<and> j < 64 + N \<longrightarrow> cp_ok q j)"
proof (induction N)
  case (Suc N)
  then show ?case
    using hash_bottom_page_ok [of K "fold (hash_bottom K) (map (\<lambda>n. 64 * n) [0..<N]) p" N]
    by (auto simp: Let_def)
qed auto

lemma fold_layer:
  assumes "1 \<le> N" "N \<le> 64" "page_ok K p" "\<And>j. N \<le> j \<Longrightarrow> j < 128 \<Longrightarrow> cp_ok p j"
  shows "let q = fold (hash_layer K) (rev (map (\<lambda>n. 2 * n) [1..<N])) p
   in page_ok K q \<and> cp_data q = cp_data p \<and> (\<forall>j. 1 \<le> j \<and> j < 128 \<longrightarrow> cp_ok q j)"
  using assms
proof (induction N arbitrary: p)
  case (Suc N)
  show ?case
  proof (cases "N = 0")
    case True
    then show ?thesis using Suc.prems by simp
  next
    case False
    let ?p = "hash_layer K (2 * N) p"
    have "page_ok K ?p" using Suc.prems False by (intro hash_layer_page_ok) auto
    moreover have "cp_ok ?p j" if "N \<le> j" "j < 128" for j
      using that Suc.prems(4) by (cases "j = N") auto
    ultimately show ?thesis using Suc.IH [of ?p] Suc.prems False by (simp add: Let_def)
  qed
qed simp

lemma page_fill:
  assumes "page_ok K p"
  shows page_fill_ok: "page_ok K (page_fill K p)"
    and page_fill_data: "cp_data (page_fill K p) = cp_data p"
    and page_fill_valid: "1 \<le> j \<Longrightarrow> j < 128 \<Longrightarrow> cp_ok (page_fill K p) j"
proof -
  let ?b = "fold (hash_bottom K) (map (\<lambda>n. 64 * n) [0..<64]) p"
  have b: "page_ok K ?b" "cp_data ?b = cp_data p" "\<And>j. 64 \<le> j \<Longrightarrow> j < 128 \<Longrightarrow> cp_ok ?b j"
    using fold_bottom [of 64 K p] assms by (simp_all only: Let_def order_refl) auto
  have "let q = page_fill K p
        in page_ok K q \<and> cp_data q = cp_data ?b \<and> (\<forall>j. 1 \<le> j \<and> j < 128 \<longrightarrow> cp_ok q j)"
    unfolding page_fill_def by (rule fold_layer) (use b in auto)
  then show "page_ok K (page_fill K p)" "cp_data (page_fill K p) = cp_data p"
    "1 \<le> j \<Longrightarrow> j < 128 \<Longrightarrow> cp_ok (page_fill K p) j"
    using b(2) by (simp_all add: Let_def)
qed

lemma page_merkleize_subtree_eq:
  assumes "page_ok K p" "1 \<le> g" "g < 256"
  shows "page_merkleize_subtree K p g = Inr (pnode K (cp_data p) g, page_fill K p)"
proof (cases "g < 128")
  case True
  then show ?thesis
    using page_okD [OF page_fill_ok [OF assms(1)] page_fill_valid [OF assms(1)], of g] assms
    by (simp add: page_merkleize_subtree_def page_merkle_root_def Let_def page_fill_data)
next
  case False
  have m: "g AND 127 = g - 128"
    using False assms(3) nat_and_mask [of g 7] by (simp add: mod_if)
  have "len64 g = 8" using len64_eqI [of 7 g] False assms by simp
  then show ?thesis
    using False assms
    by (simp add: page_merkleize_subtree_def page_merkle_root_def Let_def page_fill_data m
        pnode_def pleaf_def)
qed

subsection \<open>Writing to a page\<close>

lemma page_invalidate_eq:
  "unat a < 4096 \<Longrightarrow> page_invalidate p a =
     Inr (p\<lparr>cp_ok := (\<lambda>j. cp_ok p j \<and> \<not> anc j (64 + unat a div 64))\<rparr>)"
proof -
  assume a: "unat a < 4096"
  have "\<not> 4096 \<le> a" using a by (simp add: word_le_nat_alt)
  moreover have "drop_bit 6 (4096 OR unat a) = 64 + unat a div 64"
    using nat_or_shift [of "unat a" 12] a by (simp add: drop_bit_eq_div)
  ultimately show ?thesis
    by (simp add: page_invalidate_def Let_def clear_ok_path_eq)
qed

text \<open>
  A write inside one aligned word leaves the sub-tree of every entry alone that is not
  above that word.
\<close>

lemma slice_of_write:
  "(off + length bs \<le> i \<or> i + n \<le> off) \<Longrightarrow> slice_of (write_bytes d off bs) i n = slice_of d i n"
  by (auto simp: slice_of_def write_bytes_def)

lemma leaf_apart:
  assumes "128 \<le> x" "x div 2 \<noteq> 64 + a div 64" "a mod 4 = (0::nat)"
  shows "a + 4 \<le> (x - 128) * 32 \<or> (x - 128) * 32 + 32 \<le> a"
proof -
  obtain y where y: "x = 128 + y" using assms(1) le_Suc_ex by blast
  then have "y div 2 \<noteq> a div 64" using assms(2) by simp
  moreover obtain b where b: "a = 4 * b" using assms(3) by (auto simp: mod_eq_0_iff_dvd)
  ultimately have "y div 2 < b div 16 \<or> b div 16 < y div 2" by auto
  then have "32 * y + 32 \<le> 4 * b \<or> 4 * b + 4 \<le> 32 * y"
  proof
    assume "y div 2 < b div 16"
    then have "y + 1 \<le> 2 * (b div 16)" by linarith
    then show ?thesis by linarith
  next
    assume "b div 16 < y div 2"
    then have "b + 1 \<le> 16 * (y div 2)" by linarith
    then show ?thesis by linarith
  qed
  then show ?thesis using y b by auto
qed

lemma pnode_write:
  assumes j: "1 \<le> j" "j < 128" and a: "a < 4096" "a mod 4 = 0" and l: "length bs = 4"
    and na: "\<not> anc j (64 + a div 64)"
  shows "pnode K (write_bytes d a bs) j = pnode K d j"
  unfolding pnode_def
proof (rule mtree_cong)
  fix i :: nat assume i: "i < 2 ^ (8 - len64 j)"
  obtain n where n: "len64 j = Suc n" "2 ^ n \<le> j" "j < 2 ^ Suc n"
    using len64_bounds [of j] j by auto
  have "(2::nat) ^ n < 2 ^ 7" using n(2) j(2) by simp
  then have "n < 7" by (simp only: power_strict_increasing_iff)
  then obtain h where h: "8 - len64 j = Suc h" "n + h = 6"
    using n(1) by (intro that [of "6 - n"]) auto
  let ?x = "j * 2 ^ (8 - len64 j) + i"
  have x2: "?x div 2 div 2 ^ h = j"
  proof -
    have "?x div 2 ^ Suc h = j" using i h by simp
    then show ?thesis by (simp only: div_pow_Suc)
  qed
  have ne: "?x div 2 \<noteq> 64 + a div 64"
  proof
    assume "?x div 2 = 64 + a div 64"
    then have "(64 + a div 64) div 2 ^ h = j" using x2 by simp
    then have "anc j (64 + a div 64)" using j by (auto simp: anc_def)
    with na show False by simp
  qed
  have "128 \<le> ?x"
  proof -
    have "(2::nat) ^ n * 2 ^ Suc h = 2 ^ (n + h) * 2" by (simp add: power_add)
    then have "(128 :: nat) = 2 ^ n * 2 ^ Suc h" using h(2) by simp
    also have "\<dots> \<le> j * 2 ^ Suc h" using n(2) by (rule mult_le_mono1)
    finally show ?thesis unfolding h(1) by (rule trans_le_add1)
  qed
  then have "a + 4 \<le> (?x - 128) * 32 \<or> (?x - 128) * 32 + 32 \<le> a"
    using ne a by (intro leaf_apart)
  then show "pleaf (write_bytes d a bs) ?x = pleaf d ?x"
    unfolding pleaf_def using l by (intro slice_of_write) auto
qed

lemma page_ok_write:
  assumes "page_ok K p" "a < 4096" "a mod 4 = 0" "length bs = 4"
    and "\<And>j. cp_ok p j \<Longrightarrow> \<not> anc j (64 + a div 64)"
  shows "page_ok K (p\<lparr>cp_data := write_bytes (cp_data p) a bs\<rparr>)"
  using assms by (auto simp: page_ok_def pnode_write)

end
