(* ===== verification/Mips_Memory_Inv.thy ===== *)
theory Mips_Memory_Inv
  imports Mips_Merkle
begin

text \<open>
  The invariant of the emulator's memory and what every operation keeps of it: the
  last-used entries point to the pages of the map, every valid cache entry holds the
  hash of the reference tree over the flat 4 GiB memory, a missing node has no page below
  it, and a page whose root is not valid has no valid node above it (the early return of
  \<^verbatim>\<open>Memory.Invalidate\<close> rests on the last one).
\<close>

section \<open>The flat memory and its tree\<close>

definition flat :: "memory \<Rightarrow> nat \<Rightarrow> byte" where
  "flat m a = (if 2 ^ 32 \<le> a then 0 else case m_pages m (of_nat (a div 4096)) of
      None \<Rightarrow> 0 | Some p \<Rightarrow> cp_data (m_heap m p) (a mod 4096))"

definition mleaf :: "(nat \<Rightarrow> byte) \<Rightarrow> nat \<Rightarrow> hash" where
  "mleaf c x = slice_of c ((x - 2 ^ 27) * 32) 32"

definition mnode :: "(byte list \<Rightarrow> hash) \<Rightarrow> (nat \<Rightarrow> byte) \<Rightarrow> nat \<Rightarrow> hash" where
  "mnode K c g = mtree K (mleaf c) (28 - len64 g) g"

section \<open>Invariants\<close>

definition mem_wf :: "memory \<Rightarrow> bool" where
  "mem_wf m \<longleftrightarrow>
     (\<forall>k p. m_pages m k = Some p \<longrightarrow> p < m_next m) \<and>
     (\<forall>k k' p. m_pages m k = Some p \<and> m_pages m k' = Some p \<longrightarrow> k = k') \<and>
     (m_key0 m \<noteq> - 1 \<longrightarrow> m_last0 m \<noteq> None \<and> m_pages m (m_key0 m) = m_last0 m) \<and>
     (m_key1 m \<noteq> - 1 \<longrightarrow> m_last1 m \<noteq> None \<and> m_pages m (m_key1 m) = m_last1 m)"

definition pages_inv :: "(byte list \<Rightarrow> hash) \<Rightarrow> memory \<Rightarrow> bool" where
  "pages_inv K m \<longleftrightarrow> (\<forall>k p. m_pages m k = Some p \<longrightarrow> page_ok K (m_heap m p))"

definition nodes_inv :: "(byte list \<Rightarrow> hash) \<Rightarrow> memory \<Rightarrow> bool" where
  "nodes_inv K m \<longleftrightarrow>
     (\<forall>g h. 1 \<le> g \<and> g < 2 ^ 20 \<and> m_nodes m g = Some (Some h) \<longrightarrow> h = mnode K (flat m) g)"

definition absent_inv :: "memory \<Rightarrow> bool" where
  "absent_inv m \<longleftrightarrow>
     (\<forall>g k p. 1 \<le> g \<and> g < 2 ^ 20 \<and> m_nodes m g = None \<and> unat k < 2 ^ 20 \<and> m_pages m k = Some p \<longrightarrow>
        \<not> anc g (2 ^ 20 + unat k))"

definition dirty_inv :: "memory \<Rightarrow> bool" where
  "dirty_inv m \<longleftrightarrow>
     (\<forall>k p g. unat k < 2 ^ 20 \<and> m_pages m k = Some p \<and> \<not> cp_ok (m_heap m p) 1 \<and>
        g < 2 ^ 20 \<and> anc g (2 ^ 20 + unat k) \<longrightarrow> m_nodes m g = Some None)"

definition mem_inv :: "(byte list \<Rightarrow> hash) \<Rightarrow> memory \<Rightarrow> bool" where
  "mem_inv K m \<longleftrightarrow> mem_wf m \<and> pages_inv K m \<and> nodes_inv K m \<and> absent_inv m \<and> dirty_inv m"

lemmas mem_inv_defs = mem_inv_def pages_inv_def nodes_inv_def absent_inv_def dirty_inv_def

lemma dirtyD: "mem_inv K m \<Longrightarrow> unat k < 2 ^ 20 \<Longrightarrow> m_pages m k = Some p \<Longrightarrow>
    \<not> cp_ok (m_heap m p) 1 \<Longrightarrow> g < 2 ^ 20 \<Longrightarrow> anc g (2 ^ 20 + unat k) \<Longrightarrow> m_nodes m g = Some None"
  unfolding mem_inv_def dirty_inv_def by blast

lemma mem_inv_new: "mem_inv K new_memory"
  by (simp add: mem_inv_defs mem_wf_def new_memory_def)

text \<open>The invariant reads the tables and pages, not the last-used entries.\<close>

definition same_tables :: "memory \<Rightarrow> memory \<Rightarrow> bool" where
  "same_tables m m' \<longleftrightarrow> m_nodes m' = m_nodes m \<and> m_pages m' = m_pages m \<and> m_heap m' = m_heap m \<and>
     m_next m' = m_next m"

lemma same_tables_flat: "same_tables m m' \<Longrightarrow> flat m' = flat m"
  by (intro ext) (simp add: same_tables_def flat_def split: option.split)

lemma same_tables_inv: "same_tables m m' \<Longrightarrow> mem_wf m' \<Longrightarrow> mem_inv K m \<Longrightarrow> mem_inv K m'"
  using same_tables_flat [of m m'] by (auto simp: mem_inv_defs same_tables_def)

lemma small_not_max: "unat (k :: u32) < 2 ^ 20 \<Longrightarrow> k \<noteq> - 1"
  by (auto simp: unsigned_minus_1_eq_mask mask_eq_exp_minus_1)

lemma page_lookup_wf:
  assumes "mem_wf m" "unat k < 2 ^ 20"
  obtains m' where "page_lookup m k = ((m_pages m k, m_pages m k \<noteq> None), m')"
    "same_tables m m'" "mem_wf m'"
  using assms small_not_max [OF assms(2)]
  by (force simp: page_lookup_def mem_wf_def same_tables_def split: if_splits option.splits)

section \<open>Addresses\<close>

lemma unat_page_index: "unat (drop_bit 12 (addr :: u32)) = unat addr div 4096"
  by (simp add: unat_drop_bit del: drop_bit_numeral_minus_bit1)

lemma page_index_less: "unat (drop_bit 12 (addr :: u32)) < 2 ^ 20"
  using unat_lt [of addr] by (simp add: unat_page_index)

lemma unat_page_addr: "unat (addr AND 4095 :: u32) = unat addr mod 4096"
  using unat_and_mask [of addr 12] by (simp add: mask_eq_exp_minus_1)

lemma aligned_iff: "(addr :: u32) AND 3 = 0 \<longleftrightarrow> unat addr mod 4 = 0"
  using unat_and_mask [of addr 2] by (simp add: mask_eq_exp_minus_1 flip: unat_eq_0)

lemma of_nat_page_index: "(of_nat (unat (addr :: u32) div 4096) :: u32) = drop_bit 12 addr"
  by (subst unat_page_index [symmetric]) simp

lemma aligned_page_addr: "unat (addr :: u32) mod 4 = 0 \<Longrightarrow> unat addr mod 4096 mod 4 = 0"
  by (simp add: mod_mod_cancel)

lemma gindex_of_addr: "drop_bit 12 (2 ^ 32 OR unat (addr :: u32)) = 2 ^ 20 + unat addr div 4096"
  using nat_or_shift [of "unat addr" 32] unat_lt [of addr] by (simp add: drop_bit_eq_div)

lemma page_gindex: "unat (k :: u32) < 2 ^ 20 \<Longrightarrow> 2 ^ 20 OR unat k = 2 ^ 20 + unat k"
  by (rule nat_or_shift)

section \<open>Merkleization\<close>

text \<open>What filling caches leaves alone.\<close>

definition same_data :: "memory \<Rightarrow> memory \<Rightarrow> bool" where
  "same_data m m' \<longleftrightarrow> m_pages m' = m_pages m \<and> m_next m' = m_next m \<and>
     m_key0 m' = m_key0 m \<and> m_key1 m' = m_key1 m \<and> m_last0 m' = m_last0 m \<and> m_last1 m' = m_last1 m \<and>
     (\<forall>p. cp_data (m_heap m' p) = cp_data (m_heap m p)) \<and>
     (\<forall>p. cp_ok (m_heap m p) 1 \<longrightarrow> cp_ok (m_heap m' p) 1)"

lemma same_data_refl [simp]: "same_data m m"
  by (simp add: same_data_def)

lemma same_data_trans: "same_data m m1 \<Longrightarrow> same_data m1 m2 \<Longrightarrow> same_data m m2"
  by (simp add: same_data_def)

lemma same_data_flat: "same_data m m' \<Longrightarrow> flat m' = flat m"
  by (auto simp: same_data_def flat_def fun_eq_iff split: option.splits)

lemma same_data_wf: "same_data m m' \<Longrightarrow> mem_wf m \<Longrightarrow> mem_wf m'"
  by (simp add: same_data_def mem_wf_def)

lemma mnode_page:
  assumes g: "2 ^ 20 \<le> g" "g < 2 ^ 28" and d: "d = len64 g - 21"
    and p: "m_pages m (of_nat (g div 2 ^ d - 2 ^ 20)) = Some p"
  shows "mnode K (flat m) g = pnode K (cp_data (m_heap m p)) (2 ^ d + g mod 2 ^ d)"
proof -
  obtain n where n: "len64 g = Suc n" "2 ^ n \<le> g" "g < 2 ^ Suc n"
    using len64_bounds [of g] g by auto
  have "(2::nat) ^ n < 2 ^ 28" "(2::nat) ^ 20 < 2 ^ Suc n" using n g by linarith+
  then have n2: "n < 28" "20 < Suc n" by (simp_all only: power_strict_increasing_iff)
  then have nd: "n = 20 + d" using d n(1) by simp
  define q where "q = g div 2 ^ d - 2 ^ 20"
  define r where "r = g mod 2 ^ d"
  have r: "r < 2 ^ d" by (simp add: r_def)
  have "2 ^ 20 \<le> g div 2 ^ d" using n(2) nd by (simp add: less_eq_div_iff_mult_less_eq power_add)
  then have gq: "g = (2 ^ 20 + q) * 2 ^ d + r"
    by (simp only: q_def r_def le_add_diff_inverse div_mult_mod_eq)
  have "g < 2 ^ 21 * 2 ^ d" using n(3) nd by (simp add: power_add)
  then have "g div 2 ^ d < 2 ^ 21" by (rule less_mult_imp_div_less)
  then have q: "q < 2 ^ 20" using \<open>2 ^ 20 \<le> g div 2 ^ d\<close> by (simp add: q_def)
  have len2: "len64 (2 ^ d + r) = Suc d" using r by (intro len64_eqI) auto
  obtain h where h: "28 - len64 g = h" "d + h = 7" using n(1) nd n2 by auto
  have h2: "8 - len64 (2 ^ d + r) = h" using len2 h by simp
  have pw: "(2::nat) ^ d * 2 ^ h = 128" using h(2) by (simp flip: power_add)
  have "mtree K (mleaf (flat m)) h g = mtree K (pleaf (cp_data (m_heap m p))) h (2 ^ d + r)"
  proof (rule mtree_cong)
    fix i :: nat assume i: "i < 2 ^ h"
    define y where "y = r * 2 ^ h + i"
    have "y < 128"
    proof -
      have "y < (r + 1) * 2 ^ h" using i by (simp add: y_def)
      also have "\<dots> \<le> 2 ^ d * 2 ^ h" using r by (intro mult_le_mono1) simp
      finally show ?thesis using pw by simp
    qed
    have gi: "g * 2 ^ h + i = 2 ^ 27 + 128 * q + y"
    proof -
      have "g * 2 ^ h = (2 ^ 20 + q) * (2 ^ d * 2 ^ h) + r * 2 ^ h"
        by (simp only: gq distrib_right mult.assoc)
      then show ?thesis by (simp add: pw y_def)
    qed
    have ji: "(2 ^ d + r) * 2 ^ h + i = 128 + y"
      by (simp add: distrib_right pw y_def)
    have "flat m ((128 * q + y) * 32 + t) = cp_data (m_heap m p) (y * 32 + t)" if "t < 32" for t
    proof -
      have "y * 32 + t < 4096" using \<open>y < 128\<close> that by simp
      moreover have e: "(128 * q + y) * 32 + t = q * 4096 + (y * 32 + t)" by simp
      ultimately have "((128 * q + y) * 32 + t) div 4096 = q"
        "((128 * q + y) * 32 + t) mod 4096 = y * 32 + t" by (simp_all only: e) simp_all
      moreover have "(128 * q + y) * 32 + t < 2 ^ 32" using q \<open>y * 32 + t < 4096\<close> by simp
      ultimately show ?thesis using p by (simp add: flat_def q_def)
    qed
    then have "map (flat m) [(128 * q + y) * 32..<(128 * q + y) * 32 + 32]
        = map (cp_data (m_heap m p)) [y * 32..<y * 32 + 32]"
      by (intro nth_equalityI) simp_all
    then show "mleaf (flat m) (g * 2 ^ h + i) = pleaf (cp_data (m_heap m p)) ((2 ^ d + r) * 2 ^ h + i)"
      by (simp add: gi ji mleaf_def pleaf_def slice_of_def)
  qed
  then show ?thesis by (simp add: mnode_def pnode_def h h2 flip: r_def)
qed

lemma leaf_range:
  assumes g: "1 \<le> g" "g < 2 ^ 28" and i: "i < 2 ^ (28 - len64 g)"
  shows "2 ^ 27 \<le> g * 2 ^ (28 - len64 g) + i" and "g * 2 ^ (28 - len64 g) + i < 2 ^ 28"
    and "(g * 2 ^ (28 - len64 g) + i) div 2 ^ (28 - len64 g) = g"
proof -
  define h where "h = 28 - len64 g"
  define x where "x = g * 2 ^ h + i"
  have i: "i < 2 ^ h" using i by (simp add: h_def)
  obtain n where n: "len64 g = Suc n" "2 ^ n \<le> g" "g < 2 ^ Suc n"
    using len64_bounds [of g] g by auto
  have "(2::nat) ^ n < 2 ^ 28" using n g by linarith
  then have nh: "n + h = 27" using n(1) by (simp only: power_strict_increasing_iff h_def)
  have "(2::nat) ^ n * 2 ^ h \<le> g * 2 ^ h" using n(2) by (rule mult_le_mono1)
  moreover have pw: "(2::nat) ^ n * 2 ^ h = 2 ^ 27" by (simp only: nh flip: power_add)
  ultimately have lo: "2 ^ 27 \<le> x" by (simp add: x_def)
  have "x < (g + 1) * 2 ^ h" using i by (simp add: x_def)
  also have "\<dots> \<le> 2 ^ Suc n * 2 ^ h" using n(3) by (intro mult_le_mono1) simp
  also have "\<dots> = 2 ^ 28" using pw by (simp add: mult.assoc)
  finally have hi: "x < 2 ^ 28" .
  show "2 ^ 27 \<le> g * 2 ^ (28 - len64 g) + i" "g * 2 ^ (28 - len64 g) + i < 2 ^ 28"
    using lo hi by (simp_all add: x_def h_def)
  show "(g * 2 ^ (28 - len64 g) + i) div 2 ^ (28 - len64 g) = g"
    using i by (simp flip: h_def)
qed

lemma mnode_absent:
  assumes g: "1 \<le> g" "g < 2 ^ 28"
    and none: "\<And>x. 2 ^ 27 \<le> x \<Longrightarrow> x < 2 ^ 28 \<Longrightarrow> x div 2 ^ (28 - len64 g) = g \<Longrightarrow>
       m_pages m (of_nat (x div 128 - 2 ^ 20)) = None"
  shows "mnode K (flat m) g = zero_hashes K (28 - len64 g)"
  unfolding mnode_def
proof (rule mtree_zero)
  fix i :: nat assume i: "i < 2 ^ (28 - len64 g)"
  let ?h = "28 - len64 g"
  define x where "x = g * 2 ^ ?h + i"
  note x = leaf_range [OF g i, folded x_def]
  then have np: "m_pages m (of_nat (x div 128 - 2 ^ 20)) = None" using none by blast
  have "flat m ((x - 2 ^ 27) * 32 + t) = 0" if "t < 32" for t
  proof -
    have "((x - 2 ^ 27) * 32 + t) div 4096 = x div 128 - 2 ^ 20"
    proof -
      obtain y where y: "x = 2 ^ 27 + y" using x(1) le_Suc_ex by blast
      have "(y * 32 + t) div 4096 = y div 128" using that by linarith
      then show ?thesis using y by simp
    qed
    then show ?thesis using np by (simp add: flat_def)
  qed
  then have "map (flat m) [(x - 2 ^ 27) * 32..<(x - 2 ^ 27) * 32 + 32] = zero_hash32"
    by (intro nth_equalityI) simp_all
  then show "mleaf (flat m) (g * 2 ^ ?h + i) = zero_hash32"
    by (simp add: mleaf_def slice_of_def flip: x_def)
qed


text \<open>
  \<^verbatim>\<open>MerkleizeSubtree\<close> returns the reference hash, keeps the invariant and the contents,
  and leaves every page below the node with a valid root.
\<close>

definition merkleized :: "(byte list \<Rightarrow> hash) \<Rightarrow> memory \<Rightarrow> nat \<Rightarrow> vm_panic + hash \<times> memory \<Rightarrow> bool" where
  "merkleized K m g r \<longleftrightarrow> (\<exists>m'. r = Inr (mnode K (flat m) g, m') \<and> mem_inv K m' \<and> same_data m m' \<and>
     (\<forall>k p. unat k < 2 ^ 20 \<and> m_pages m k = Some p \<and> anc g (2 ^ 20 + unat k) \<longrightarrow>
        cp_ok (m_heap m' p) 1))"

lemma mnode_inner:
  assumes "1 \<le> g" "g < 2 ^ 20"
  shows "mnode K c g = hash_pair K (mnode K c (2 * g)) (mnode K c (2 * g + 1))"
proof -
  have "len64 g \<le> 20" using assms by (subst len64_le_iff) auto
  then obtain h where h: "28 - len64 g = Suc h" "h = 28 - Suc (len64 g)"
    by (cases "28 - len64 g") auto
  then show ?thesis using assms by (simp add: mnode_def)
qed

lemma anc_page_level:
  assumes g: "2 ^ 20 \<le> g" and k: "unat (k :: u32) < 2 ^ 20" and a: "anc g (2 ^ 20 + unat k)"
  shows "g = 2 ^ 20 + unat k"
proof -
  obtain t where t: "(2 ^ 20 + unat k) div 2 ^ t = g" using a by (auto simp: anc_def)
  have "t = 0"
  proof (rule ccontr)
    assume "t \<noteq> 0"
    then have "(2 ^ 20 + unat k) div 2 ^ t \<le> (2 ^ 20 + unat k) div 2 ^ 1"
      by (intro div_le_mono2 power_increasing) auto
    then show False using t g k by simp
  qed
  then show ?thesis using t by simp
qed

lemma merkleize_page:
  assumes inv: "mem_inv K m" and g: "2 ^ 20 \<le> g" "g < 2 ^ 28" and d: "d = len64 g - 21"
    and p: "m_pages m (of_nat (g div 2 ^ d - 2 ^ 20)) = Some p"
  shows "merkleized K m g (Inr (pnode K (cp_data (m_heap m p)) (2 ^ d + g mod 2 ^ d),
           heap_update p (page_fill K (m_heap m p)) m))"
proof -
  let ?pg = "page_fill K (m_heap m p)" and ?m = "heap_update p (page_fill K (m_heap m p)) m"
  have ok: "page_ok K (m_heap m p)" using inv p by (auto simp: mem_inv_def pages_inv_def)
  have sd: "same_data m ?m"
    using page_fill_data [OF ok] page_fill_valid [OF ok, of 1] by (simp add: same_data_def heap_update_def)
  have fl: "flat ?m = flat m" by (rule same_data_flat [OF sd])
  have "mem_inv K ?m"
    using inv sd same_data_wf [OF sd] page_fill_ok [OF ok] page_fill_valid [OF ok, of 1] fl
    by (auto simp: mem_inv_defs heap_update_def)
  moreover have "cp_ok (m_heap ?m q) 1"
    if k: "unat k < 2 ^ 20" "m_pages m k = Some q" "anc g (2 ^ 20 + unat k)" for k q
  proof -
    have gk: "g = 2 ^ 20 + unat k" using anc_page_level [OF g(1) k(1,3)] .
    then have "len64 g = Suc 20" using k(1) by (intro len64_eqI) auto
    then have "g div 2 ^ d - 2 ^ 20 = unat k" using d gk by simp
    then have "of_nat (g div 2 ^ d - 2 ^ 20) = k" by simp
    then show ?thesis using p k(2) page_fill_valid [OF ok, of 1] by (simp add: heap_update_def)
  qed
  ultimately show ?thesis
    using sd mnode_page [OF g d p] by (auto simp: merkleized_def)
qed


lemma page_level_index:
  assumes g: "2 ^ 20 \<le> g" "g < 2 ^ 28" and d: "d = len64 g - 21"
  shows "drop_bit d g AND (2 ^ 20 - 1) = g div 2 ^ d - 2 ^ 20"
    and "2 ^ 20 \<le> g div 2 ^ d" and "g div 2 ^ d < 2 ^ 21"
    and "push_bit d 1 OR (g AND (push_bit d 1 - 1)) = 2 ^ d + g mod 2 ^ d"
    and "1 \<le> 2 ^ d + g mod 2 ^ d" "2 ^ d + g mod 2 ^ d < 256"
proof -
  obtain n where n: "len64 g = Suc n" "2 ^ n \<le> g" "g < 2 ^ Suc n"
    using len64_bounds [of g] g by auto
  have "(2::nat) ^ n < 2 ^ 28" "(2::nat) ^ 20 < 2 ^ Suc n" using n g by linarith+
  then have n2: "n < 28" "20 < Suc n" by (simp_all only: power_strict_increasing_iff)
  then have nd: "n = 20 + d" using d n(1) by simp
  show lo: "2 ^ 20 \<le> g div 2 ^ d"
    using n(2) nd by (simp add: less_eq_div_iff_mult_less_eq power_add)
  have "g < 2 ^ 21 * 2 ^ d" using n(3) nd by (simp add: power_add)
  then show hi: "g div 2 ^ d < 2 ^ 21" by (rule less_mult_imp_div_less)
  show "drop_bit d g AND (2 ^ 20 - 1) = g div 2 ^ d - 2 ^ 20"
    using lo hi by (simp only: nat_and_mask drop_bit_eq_div) (simp add: mod_if)
  show "push_bit d 1 OR (g AND (push_bit d 1 - 1)) = 2 ^ d + g mod 2 ^ d"
    using nat_or_shift [of "g mod 2 ^ d" d] by (simp only: push_bit_eq_mult nat_and_mask mult_1) simp
  show "1 \<le> 2 ^ d + g mod 2 ^ d" by (rule trans_le_add1) simp
  have "d \<le> 7" using n2 nd by simp
  then have "(2::nat) ^ d \<le> 2 ^ 7" by (rule power_increasing) simp
  moreover have "g mod 2 ^ d < 2 ^ d" by simp
  ultimately have "2 ^ d + g mod 2 ^ d < 2 ^ 7 + 2 ^ 7" by linarith
  then show "2 ^ d + g mod 2 ^ d < 256" by simp
qed

lemma anc_leaf_page:
  assumes g: "1 \<le> g" "g < 2 ^ 20" and x: "2 ^ 27 \<le> x" "x < 2 ^ 28" "x div 2 ^ (28 - len64 g) = g"
  shows "anc g (2 ^ 20 + (x div 128 - 2 ^ 20))"
proof -
  have "len64 g \<le> 20" using g by (subst len64_le_iff) auto
  then have h: "28 - len64 g = 7 + (21 - len64 g)" by simp
  have "x div 2 ^ 7 div 2 ^ (21 - len64 g) = g"
    using x(3) unfolding h by (simp only: power_add div_mult2_eq)
  moreover have "2 ^ 20 + (x div 128 - 2 ^ 20) = x div 2 ^ 7" using x(1) by simp
  ultimately show ?thesis using g(1) unfolding anc_def by auto
qed

lemma nodes_update_inv:
  assumes inv: "mem_inv K m" and g: "1 \<le> g" "g < 2 ^ 20"
    and clean: "\<And>k p. unat k < 2 ^ 20 \<Longrightarrow> m_pages m k = Some p \<Longrightarrow> anc g (2 ^ 20 + unat k) \<Longrightarrow>
       cp_ok (m_heap m p) 1"
  shows "mem_inv K (m\<lparr>m_nodes := (m_nodes m)(g \<mapsto> Some (mnode K (flat m) g))\<rparr>)"
proof -
  have fl: "flat (m\<lparr>m_nodes := n\<rparr>) = flat m" for n by (intro ext) (simp add: flat_def split: option.split)
  have wf: "mem_wf (m\<lparr>m_nodes := n\<rparr>) = mem_wf m" for n by (simp add: mem_wf_def)
  let ?m = "m\<lparr>m_nodes := (m_nodes m)(g \<mapsto> Some (mnode K (flat m) g))\<rparr>"
  have "nodes_inv K ?m" "absent_inv ?m"
    using inv unfolding mem_inv_def nodes_inv_def absent_inv_def by (auto simp: fl)
  moreover have "dirty_inv ?m"
    unfolding dirty_inv_def
  proof (intro allI impI)
    fix k p g' assume a: "unat k < 2 ^ 20 \<and> m_pages ?m k = Some p \<and> \<not> cp_ok (m_heap ?m p) 1 \<and>
      g' < 2 ^ 20 \<and> anc g' (2 ^ 20 + unat k)"
    then have "g' \<noteq> g" using clean [of k p] by auto
    moreover have "m_nodes m g' = Some None" using a by (intro dirtyD [OF inv, of k p]) auto
    ultimately show "m_nodes ?m g' = Some None" by simp
  qed
  ultimately show ?thesis
    using inv by (simp add: mem_inv_def pages_inv_def wf)
qed

theorem mem_merkleize_subtree_eq:
  "mem_inv K m \<Longrightarrow> 1 \<le> g \<Longrightarrow> g < 2 ^ 28 \<Longrightarrow> merkleized K m g (mem_merkleize_subtree K m g)"
proof (induction K m g rule: mem_merkleize_subtree.induct)
  case (1 K m g)
  let ?l = "len64 g"
  have l28: "\<not> 28 < ?l" using "1.prems" len64_le_iff [of g 28] by simp
  show ?case
  proof (cases "g < 2 ^ 20")
    case False
    then have g: "2 ^ 20 \<le> g" "g < 2 ^ 28" using "1.prems" by simp_all
    have l: "20 < ?l" using g(1) len64_le_iff [of g 20] by simp
    define d where "d = ?l - 21"
    note pl = page_level_index [OF g d_def]
    have l1: "?l - 1 - 20 = d" by (simp add: d_def)
    show ?thesis
    proof (cases "m_pages m (of_nat (g div 2 ^ d - 2 ^ 20))")
      case (Some p)
      have ok: "page_ok K (m_heap m p)"
        using "1.prems"(1) Some by (auto simp: mem_inv_def pages_inv_def)
      have "mem_merkleize_subtree K m g =
          Inr (pnode K (cp_data (m_heap m p)) (2 ^ d + g mod 2 ^ d),
               heap_update p (page_fill K (m_heap m p)) m)"
        using l28 l Some page_merkleize_subtree_eq [OF ok pl(5) pl(6)]
        by (subst mem_merkleize_subtree.simps) (simp only: Let_def l1 pl if_True if_False option.case rbind_simps split)
      then show ?thesis using merkleize_page [OF "1.prems"(1) g d_def Some] by simp
    next
      case None
      have eq: "mem_merkleize_subtree K m g = Inr (zero_hashes K (28 - ?l), m)"
        using l28 l None by (subst mem_merkleize_subtree.simps) (simp only: Let_def l1 pl if_True if_False option.case)
      have "mnode K (flat m) g = zero_hashes K (28 - ?l)"
      proof (rule mnode_absent)
        fix x assume x: "2 ^ 27 \<le> x" "x < 2 ^ 28" "x div 2 ^ (28 - ?l) = g"
        have "28 - ?l = 7 - d" "d \<le> 7" using l l28 by (auto simp: d_def)
        then have "x div (2 ^ (28 - ?l) * 2 ^ d) = x div 128" by (simp flip: power_add)
        then have "x div 128 = g div 2 ^ d" using x(3) by (simp only: div_mult2_eq)
        then show "m_pages m (of_nat (x div 128 - 2 ^ 20)) = None" using None by simp
      qed (use "1.prems" in auto)
      moreover have "\<not> (unat k < 2 ^ 20 \<and> m_pages m k = Some p \<and> anc g (2 ^ 20 + unat k))" for k p
      proof
        assume k: "unat k < 2 ^ 20 \<and> m_pages m k = Some p \<and> anc g (2 ^ 20 + unat k)"
        then have gk: "g = 2 ^ 20 + unat k" using anc_page_level g(1) by blast
        then have "?l = Suc 20" using k by (intro len64_eqI) auto
        then have "g div 2 ^ d - 2 ^ 20 = unat k" using gk by (simp add: d_def)
        then show False using None k by simp
      qed
      ultimately show ?thesis using eq "1.prems" by (auto simp: merkleized_def)
    qed
  next
    case True
    have l: "\<not> 20 < ?l" using True "1.prems" len64_le_iff [of g 20] by simp
    have g0: "g \<noteq> 0" using "1.prems" by simp
    show ?thesis
    proof (cases "m_nodes m g")
      case None
      have none: "\<not> (unat k < 2 ^ 20 \<and> m_pages m k = Some p \<and> anc g (2 ^ 20 + unat k))" for k p
        using "1.prems" True None by (auto simp: mem_inv_def absent_inv_def)
      have "mem_merkleize_subtree K m g = Inr (zero_hashes K (28 - ?l), m)"
        using l28 l None by (subst mem_merkleize_subtree.simps) (simp add: Let_def)
      moreover have "mnode K (flat m) g = zero_hashes K (28 - ?l)"
      proof (rule mnode_absent)
        fix x assume x: "2 ^ 27 \<le> x" "x < 2 ^ 28" "x div 2 ^ (28 - ?l) = g"
        let ?k = "of_nat (x div 128 - 2 ^ 20) :: u32"
        have "x div 128 - 2 ^ 20 < 2 ^ 20" using x by simp
        then have k: "unat ?k = x div 128 - 2 ^ 20" by (simp only: unat_of_nat) simp
        then have "anc g (2 ^ 20 + unat ?k)" using anc_leaf_page [OF "1.prems"(2) True x] by simp
        then show "m_pages m ?k = None" using none [of ?k] k \<open>x div 128 - 2 ^ 20 < 2 ^ 20\<close>
          by (cases "m_pages m ?k") simp_all
      qed (use "1.prems" in auto)
      ultimately show ?thesis using none "1.prems" by (auto simp: merkleized_def)
    next
      case (Some node)
      show ?thesis
      proof (cases node)
        case None
        obtain m1 where m1: "mem_merkleize_subtree K m (2 * g) = Inr (mnode K (flat m) (2 * g), m1)"
          "mem_inv K m1" "same_data m m1" "\<And>k p. unat k < 2 ^ 20 \<Longrightarrow> m_pages m k = Some p \<Longrightarrow>
             anc (2 * g) (2 ^ 20 + unat k) \<Longrightarrow> cp_ok (m_heap m1 p) 1"
          using "1.IH"(1) [OF refl l28 l Some None g0] "1.prems" True by (auto simp: merkleized_def)
        obtain m2 where m2: "mem_merkleize_subtree K m1 (2 * g + 1) = Inr (mnode K (flat m1) (2 * g + 1), m2)"
          "mem_inv K m2" "same_data m1 m2" "\<And>k p. unat k < 2 ^ 20 \<Longrightarrow> m_pages m1 k = Some p \<Longrightarrow>
             anc (2 * g + 1) (2 ^ 20 + unat k) \<Longrightarrow> cp_ok (m_heap m2 p) 1"
          using "1.IH"(2) [OF refl l28 l Some None g0 m1(1) refl m1(2)] True by (auto simp: merkleized_def)
        note fl = same_data_flat [OF m1(3)] same_data_flat [OF m2(3)]
        let ?r = "mnode K (flat m) g"
        have eq: "mem_merkleize_subtree K m g = Inr (?r, m2\<lparr>m_nodes := (m_nodes m2)(g \<mapsto> Some ?r)\<rparr>)"
          using l28 l Some None g0 m1(1) m2(1) mnode_inner [OF "1.prems"(2) True]
          by (subst mem_merkleize_subtree.simps) (simp add: Let_def fl)
        have clean: "cp_ok (m_heap m2 p) 1"
          if k: "unat k < 2 ^ 20" "m_pages m k = Some p" "anc g (2 ^ 20 + unat k)" for k p
        proof -
          have "2 ^ 20 + unat k \<noteq> g" using True by simp
          then have "anc (2 * g) (2 ^ 20 + unat k) \<or> anc (2 * g + 1) (2 ^ 20 + unat k)"
            using anc_split [OF k(3)] by simp
          then show ?thesis
            using m1(3) m1(4) [OF k(1,2)] m2(3) m2(4) [of k p] k by (auto simp: same_data_def)
        qed
        have pg: "m_pages m2 = m_pages m" using m1(3) m2(3) by (simp add: same_data_def)
        have "mem_inv K (m2\<lparr>m_nodes := (m_nodes m2)(g \<mapsto> Some ?r)\<rparr>)"
          using nodes_update_inv [OF m2(2) "1.prems"(2) True] clean pg fl by simp
        moreover have "same_data m (m2\<lparr>m_nodes := (m_nodes m2)(g \<mapsto> Some ?r)\<rparr>)"
          using same_data_trans [OF m1(3) m2(3)] by (simp add: same_data_def)
        ultimately show ?thesis using eq clean by (auto simp: merkleized_def)
      next
        case (Some h)
        have "h = mnode K (flat m) g"
          using "1.prems" True Some \<open>m_nodes m g = Some node\<close> by (auto simp: mem_inv_def nodes_inv_def)
        moreover have "mem_merkleize_subtree K m g = Inr (h, m)"
          using l28 l Some \<open>m_nodes m g = Some node\<close>
          by (subst mem_merkleize_subtree.simps) (simp add: Let_def)
        moreover have "cp_ok (m_heap m p) 1"
          if k: "unat k < 2 ^ 20" "m_pages m k = Some p" "anc g (2 ^ 20 + unat k)" for k p
        proof (rule ccontr)
          assume "\<not> cp_ok (m_heap m p) 1"
          then have "m_nodes m g = Some None" using dirtyD [OF "1.prems"(1) k(1,2)] True k(3) by blast
          then show False using Some \<open>m_nodes m g = Some node\<close> by simp
        qed
        ultimately show ?thesis using "1.prems" by (auto simp: merkleized_def)
      qed
    qed
  qed
qed


section \<open>Look-ups, allocation, invalidation, writes\<close>

lemma alloc_page_inv:
  assumes inv: "mem_inv K m" and k: "unat k < 2 ^ 20" "m_pages m k = None"
  defines "r \<equiv> alloc_page m k"
  shows "mem_inv K (snd r)" and "flat (snd r) = flat m"
    and "m_pages (snd r) = (m_pages m)(k \<mapsto> fst r)" and "m_heap (snd r) (fst r) = new_page"
proof -
  let ?p = "m_next m" and ?m = "snd r"
  have eq: "fst r = ?p" "m_pages ?m = (m_pages m)(k \<mapsto> ?p)" "m_next ?m = Suc ?p"
    "m_heap ?m = (m_heap m)(?p := new_page)" "m_key0 ?m = m_key0 m" "m_key1 ?m = m_key1 m"
    "m_last0 ?m = m_last0 m" "m_last1 ?m = m_last1 m"
    "m_nodes ?m = (\<lambda>g. if anc g (2 ^ 20 + unat k) then Some None else m_nodes m g)"
    using page_gindex [OF k(1)] by (simp_all add: r_def alloc_page_def Let_def clear_nodes_eq)
  have fresh: "m_pages m k' \<noteq> Some ?p" for k'
    using inv by (auto simp: mem_inv_def mem_wf_def)
  have lt: "q < ?p" if "m_pages m k' = Some q" for k' q
    using inv that by (auto simp: mem_inv_def mem_wf_def)
  show fl: "flat ?m = flat m"
    using k(2) lt by (intro ext) (auto simp: flat_def eq new_page_def split: option.split)
  have "mem_wf ?m"
    using inv k(2) fresh lt unfolding mem_inv_def mem_wf_def eq
    by (auto split: if_splits) (metis less_Suc_eq)+
  moreover have "pages_inv K ?m"
    using inv fresh by (auto simp: mem_inv_def pages_inv_def eq)
  moreover have "nodes_inv K ?m" using inv by (auto simp: mem_inv_def nodes_inv_def eq fl)
  moreover have "absent_inv ?m"
    using inv by (auto simp: mem_inv_def absent_inv_def eq)
  moreover have "dirty_inv ?m"
    unfolding dirty_inv_def
  proof (intro allI impI)
    fix k' q g
    assume a: "unat k' < 2 ^ 20 \<and> m_pages ?m k' = Some q \<and> \<not> cp_ok (m_heap ?m q) 1 \<and>
      g < 2 ^ 20 \<and> anc g (2 ^ 20 + unat k')"
    show "m_nodes ?m g = Some None"
    proof (cases "k' = k")
      case False
      then have "m_pages m k' = Some q" "q \<noteq> ?p" using a lt by (auto simp: eq)
      then have "m_nodes m g = Some None" using a by (intro dirtyD [OF inv, of k' q]) (auto simp: eq)
      then show ?thesis by (simp add: eq)
    qed (use a in \<open>simp add: eq\<close>)
  qed
  ultimately show "mem_inv K ?m" by (simp add: mem_inv_def)
  show "m_pages ?m = (m_pages m)(k \<mapsto> fst r)" "m_heap ?m (fst r) = new_page"
    by (simp_all add: eq)
qed

text \<open>A page may be written where no valid entry lies above the word written.\<close>

definition writable :: "memory \<Rightarrow> nat \<Rightarrow> nat \<Rightarrow> bool" where
  "writable m p off \<longleftrightarrow> (\<forall>j. cp_ok (m_heap m p) j \<longrightarrow> \<not> anc j (64 + off div 64))"

lemma anc_1: "x \<noteq> 0 \<Longrightarrow> anc 1 x"
proof (induction x rule: less_induct)
  case (less x)
  show ?case
  proof (cases "x = 1")
    case False
    then have "anc 1 (x div 2)" using less by simp
    then show ?thesis by (rule anc_half)
  qed (simp add: anc_refl)
qed

lemma writable_dirty: "writable m p off \<Longrightarrow> \<not> cp_ok (m_heap m p) 1"
  using anc_1 [of "64 + off div 64"] by (auto simp: writable_def)

lemma write_page_flat:
  assumes wf: "mem_wf m" and k: "unat k < 2 ^ 20" "m_pages m k = Some p"
    and off: "off + length bs \<le> 4096"
  shows "flat (write_page p off bs m) = write_bytes (flat m) (4096 * unat k + off) bs"
proof
  fix a
  have km: "unat k * 4096 + 4096 \<le> 2 ^ 32" using k(1) by simp
  have nk: "(of_nat (a div 4096) :: u32) = k" if "a div 4096 = unat k" using that by simp
  have ka: "a div 4096 = unat k" if "(of_nat (a div 4096) :: u32) = k" "a < 2 ^ 32"
  proof -
    have "a div 4096 < 2 ^ 20" using that(2) by simp
    then have "unat (of_nat (a div 4096) :: u32) = a div 4096" by (simp only: unat_of_nat) simp
    then show ?thesis using that(1) by simp
  qed
  show "flat (write_page p off bs m) a = write_bytes (flat m) (4096 * unat k + off) bs a"
  proof (cases "a < 2 ^ 32 \<and> a div 4096 = unat k")
    case True
    then have e: "a = 4096 * unat k + a mod 4096" by (metis mult_div_mod_eq)
    have "4096 * unat k + off \<le> a \<longleftrightarrow> off \<le> a mod 4096" by (subst e) simp
    moreover have "a < 4096 * unat k + off + length bs \<longleftrightarrow> a mod 4096 < off + length bs"
      by (subst e) simp
    moreover have "a - (4096 * unat k + off) = a mod 4096 - off" by (subst e) simp
    ultimately show ?thesis
      using True k nk by (auto simp: flat_def write_page_def heap_update_def write_bytes_def)
  next
    case False
    have "\<not> (4096 * unat k + off \<le> a \<and> a < 4096 * unat k + off + length bs)"
    proof
      assume a: "4096 * unat k + off \<le> a \<and> a < 4096 * unat k + off + length bs"
      then have "a < 2 ^ 32" using km off by simp
      moreover have "a div 4096 = unat k" using a off by (intro div_nat_eqI) auto
      ultimately show False using False by simp
    qed
    moreover have "p \<noteq> q" if "m_pages m (of_nat (a div 4096)) = Some q" "a < 2 ^ 32" for q
      using that wf k(2) ka False unfolding mem_wf_def by metis
    ultimately show ?thesis
      by (auto simp: flat_def write_page_def heap_update_def write_bytes_def split: option.split)
  qed
qed

lemma mleaf_write_apart:
  assumes x: "2 ^ 27 \<le> x" and off: "off + length bs \<le> 4096" and ne: "x div 128 - 2 ^ 20 \<noteq> k"
  shows "mleaf (write_bytes c (4096 * k + off) bs) x = mleaf c x"
proof -
  obtain y where y: "x = 2 ^ 27 + y" using x le_Suc_ex by blast
  then have "y div 128 \<noteq> k" using ne by simp
  then have "y div 128 + 1 \<le> k \<or> k + 1 \<le> y div 128" by linarith
  then have "4096 * k + off + length bs \<le> y * 32 \<or> y * 32 + 32 \<le> 4096 * k + off"
  proof
    assume "y div 128 + 1 \<le> k"
    then have "y + 1 \<le> 128 * k" by linarith
    then show ?thesis by linarith
  next
    assume "k + 1 \<le> y div 128"
    then have "128 * k + 128 \<le> y" by linarith
    then show ?thesis using off by linarith
  qed
  then show ?thesis unfolding mleaf_def y by (intro slice_of_write) simp
qed

lemma write_page_inv:
  assumes inv: "mem_inv K m" and k: "unat k < 2 ^ 20" "m_pages m k = Some p"
    and off: "off < 4096" "off mod 4 = 0" and l: "length bs = 4" and w: "writable m p off"
  shows "mem_inv K (write_page p off bs m)"
    and "flat (write_page p off bs m) = write_bytes (flat m) (4096 * unat k + off) bs"
proof -
  let ?m = "write_page p off bs m"
  have wf: "mem_wf m" using inv by (simp add: mem_inv_def)
  have ol: "off + length bs \<le> 4096" using off l aligned_less [of off 4096] by simp
  with wf k show fl: "flat ?m = write_bytes (flat m) (4096 * unat k + off) bs"
    by (rule write_page_flat)
  have eq: "m_pages ?m = m_pages m" "m_nodes ?m = m_nodes m" "m_next ?m = m_next m"
    "cp_ok (m_heap ?m q) = cp_ok (m_heap m q)" for q
    by (simp_all add: write_page_def heap_update_def)
  have "mem_wf ?m" using wf by (simp add: mem_wf_def write_page_def heap_update_def)
  moreover have "pages_inv K ?m"
    using inv w page_ok_write [OF _ off l, of K "m_heap m p"] k(2)
    by (auto simp: mem_inv_def pages_inv_def write_page_def heap_update_def writable_def)
  moreover have "absent_inv ?m" "dirty_inv ?m"
    using inv by (auto simp: mem_inv_def absent_inv_def dirty_inv_def eq)
  moreover have "nodes_inv K ?m"
    unfolding nodes_inv_def
  proof (intro allI impI)
    fix g h assume a: "1 \<le> g \<and> g < 2 ^ 20 \<and> m_nodes ?m g = Some (Some h)"
    then have na: "\<not> anc g (2 ^ 20 + unat k)"
      using dirtyD [OF inv k writable_dirty [OF w], of g] by (auto simp: eq)
    have "mnode K (flat ?m) g = mnode K (flat m) g"
      unfolding mnode_def
    proof (rule mtree_cong)
      fix i :: nat assume i: "i < 2 ^ (28 - len64 g)"
      show "mleaf (flat ?m) (g * 2 ^ (28 - len64 g) + i) = mleaf (flat m) (g * 2 ^ (28 - len64 g) + i)"
      proof -
        have g: "1 \<le> g" "g < 2 ^ 28" using a by auto
        note x = leaf_range [OF g i]
        have "anc g (2 ^ 20 + ((g * 2 ^ (28 - len64 g) + i) div 128 - 2 ^ 20))"
          using a x by (intro anc_leaf_page) auto
        then have "(g * 2 ^ (28 - len64 g) + i) div 128 - 2 ^ 20 \<noteq> unat k" using na by auto
        then show ?thesis
          unfolding fl using x(1) ol by (intro mleaf_write_apart)
      qed
    qed
    then show "h = mnode K (flat ?m) g" using inv a by (simp add: mem_inv_def nodes_inv_def eq)
  qed
  ultimately show "mem_inv K ?m" by (simp add: mem_inv_def)
qed

end
