(* ===== verification/Mips_Memory_Ops.thy ===== *)
theory Mips_Memory_Ops
  imports Mips_Memory_Inv
begin

text \<open>
  What the memory's operations do, in terms of the flat 4 GiB contents: reads and writes of
  words, Merkle proofs and the root, reads and writes of ranges, the JSON form. The
  contract \<open>word_store\<close> is what the emulator's steps use of the memory; it is
  interpreted here on \<^verbatim>\<open>GetMemory\<close> and \<^verbatim>\<open>SetMemory\<close>.
\<close>

section \<open>Words of the flat memory\<close>

definition flat_word :: "memory \<Rightarrow> u32 \<Rightarrow> u32" where
  "flat_word m addr = get_u32 (slice_of (flat m) (unat addr) 4)"

lemma flat_word_cong: "flat m' = flat m \<Longrightarrow> flat_word m' = flat_word m"
  by (intro ext) (simp add: flat_word_def)

lemma addr_split: "unat (addr :: u32) = 4096 * unat (drop_bit 12 addr) + unat addr mod 4096"
  by (simp add: unat_page_index)

lemma aligned_room: "(a :: nat) mod 4 = 0 \<Longrightarrow> a mod 4096 + 4 \<le> 4096"
proof -
  assume "a mod 4 = 0"
  then have "a mod 4096 mod 4 = 0" by (simp add: mod_mod_cancel)
  then show ?thesis using aligned_less [of "a mod 4096" 4096] by simp
qed

lemma same_page_offset:
  "(a :: nat) mod 4096 + t < 4096 \<Longrightarrow> (a + t) div 4096 = a div 4096 \<and> (a + t) mod 4096 = a mod 4096 + t"
proof -
  assume r: "a mod 4096 + t < 4096"
  define q x where "q = a div 4096" and "x = a mod 4096"
  have a: "a = 4096 * q + x" by (simp add: q_def x_def)
  have "x + t < 4096" using r by (simp add: x_def)
  then have d: "(a + t) div 4096 = q"
    unfolding a by (intro div_nat_eqI) simp_all
  moreover have "a + t = 4096 * ((a + t) div 4096) + (a + t) mod 4096" by simp
  ultimately show ?thesis using a unfolding q_def [symmetric] x_def [symmetric] by linarith
qed

lemma flat_slice:
  assumes "unat addr mod 4 = 0"
  shows "slice_of (flat m) (unat (addr :: u32)) 4 =
    (case m_pages m (drop_bit 12 addr) of None \<Rightarrow> [0, 0, 0, 0]
     | Some p \<Rightarrow> slice_of (cp_data (m_heap m p)) (unat addr mod 4096) 4)"
proof -
  let ?a = "unat addr"
  have r: "?a mod 4096 + 4 \<le> 4096" using aligned_room [OF assms] .
  have d: "(?a + t) div 4096 = ?a div 4096" "(?a + t) mod 4096 = ?a mod 4096 + t" if "t < 4" for t
    using same_page_offset [of ?a t] r that by simp_all
  have lt: "?a + t < 2 ^ 32" if "t < 4" for t
  proof -
    have "?a div 4096 < 1048576" using page_index_less [of addr] by (simp add: unat_page_index)
    moreover have "?a + t = 4096 * (?a div 4096) + (?a mod 4096 + t)" by simp
    ultimately have "?a + t < 4294967296" using r that by linarith
    then show ?thesis by simp
  qed
  have "flat m (?a + t) = (case m_pages m (drop_bit 12 addr) of None \<Rightarrow> 0
     | Some p \<Rightarrow> cp_data (m_heap m p) (?a mod 4096 + t))" if "t < 4" for t
    using lt [OF that] d [OF that] by (simp add: flat_def of_nat_page_index split: option.split)
  then have "slice_of (flat m) ?a 4 = map (\<lambda>t. case m_pages m (drop_bit 12 addr) of None \<Rightarrow> 0
     | Some p \<Rightarrow> cp_data (m_heap m p) (?a mod 4096 + t)) [0..<4]"
    by (intro nth_equalityI) (simp_all add: slice_of_def split: option.split)
  then have s: "slice_of (flat m) ?a 4 = map (\<lambda>t. case m_pages m (drop_bit 12 addr) of None \<Rightarrow> 0
     | Some p \<Rightarrow> cp_data (m_heap m p) (?a mod 4096 + t)) [0..<4]" .
  show ?thesis
  proof (cases "m_pages m (drop_bit 12 addr)")
    case None
    then show ?thesis unfolding s by (simp add: upt_rec)
  next
    case (Some p)
    then show ?thesis unfolding s by (auto simp: slice_of_def intro: nth_equalityI)
  qed
qed

section \<open>Single operations\<close>

lemma mem_invalidate_ok:
  assumes inv: "mem_inv K m" and a: "addr AND 3 = 0"
  obtains m' where "mem_invalidate m addr = Inr m'" "mem_inv K m'" "flat m' = flat m"
    "m_pages m' = m_pages m"
    "\<And>p. m_pages m (drop_bit 12 addr) = Some p \<Longrightarrow> writable m' p (unat addr mod 4096)"
proof -
  let ?k = "drop_bit 12 addr" and ?off = "unat addr mod 4096"
  have wf: "mem_wf m" using inv by (simp add: mem_inv_def)
  obtain m1 where m1: "page_lookup m ?k = ((m_pages m ?k, m_pages m ?k \<noteq> None), m1)"
    "same_tables m m1" "mem_wf m1"
    using page_lookup_wf [OF wf page_index_less] by blast
  have inv1: "mem_inv K m1" by (rule same_tables_inv [OF m1(2,3) inv])
  have pg1: "m_pages m1 = m_pages m" using m1(2) by (simp add: same_tables_def)
  show ?thesis
  proof (cases "m_pages m ?k")
    case None
    then have "mem_invalidate m addr = Inr m1" using a m1(1) by (simp add: mem_invalidate_def)
    then show ?thesis using that [of m1] inv1 same_tables_flat [OF m1(2)] pg1 None by simp
  next
    case (Some p)
    let ?path = "64 + ?off div 64"
    let ?pg = "(m_heap m1 p)\<lparr>cp_ok := (\<lambda>j. cp_ok (m_heap m1 p) j \<and> \<not> anc j ?path)\<rparr>"
    let ?m2 = "heap_update p ?pg m1"
    define m3 where "m3 = (if cp_ok (m_heap m1 p) 1
      then ?m2\<lparr>m_nodes := clear_nodes (2 ^ 20 + unat ?k) (m_nodes ?m2)\<rparr> else ?m2)"
    have pi: "page_invalidate (m_heap m1 p) (addr AND 4095) = Inr ?pg"
      using page_invalidate_eq [of "addr AND 4095" "m_heap m1 p"] by (simp add: unat_page_addr)
    have gi: "drop_bit 12 (2 ^ 32 OR unat addr) = 2 ^ 20 + unat ?k"
      using gindex_of_addr [of addr] by (simp only: unat_page_index)
    have eq: "mem_invalidate m addr = Inr m3"
      unfolding mem_invalidate_def m3_def using a m1(1) Some pi gi
      by (simp only: Let_def split option.case bool.case rbind_simps if_False if_True not_True_eq_False
          refl split: if_split) auto
    have d: "m_pages m3 = m_pages m" "m_next m3 = m_next m1" "m_heap m3 = (m_heap m1)(p := ?pg)"
      "m_key0 m3 = m_key0 m1" "m_key1 m3 = m_key1 m1" "m_last0 m3 = m_last0 m1" "m_last1 m3 = m_last1 m1"
      by (simp_all add: m3_def heap_update_def pg1)
    have nd: "m_nodes m3 g = (if cp_ok (m_heap m1 p) 1 \<and> anc g (2 ^ 20 + unat ?k) then Some None
        else m_nodes m1 g)" for g
      by (simp add: m3_def heap_update_def clear_nodes_eq)
    have fl: "flat m3 = flat m1"
      by (intro ext) (auto simp: flat_def d pg1 split: option.split)
    have inj: "q \<noteq> p" if "m_pages m k' = Some q" "k' \<noteq> ?k" for k' q
      using wf that Some unfolding mem_wf_def by metis
    have "dirty_inv m3"
      unfolding dirty_inv_def
    proof (intro allI impI)
      fix k' q g
      assume x: "unat k' < 2 ^ 20 \<and> m_pages m3 k' = Some q \<and> \<not> cp_ok (m_heap m3 q) 1 \<and>
        g < 2 ^ 20 \<and> anc g (2 ^ 20 + unat k')"
      show "m_nodes m3 g = Some None"
      proof (cases "k' = ?k")
        case True
        then show ?thesis
          using x nd [of g] dirtyD [OF inv1, of ?k p g] Some pg1 by auto
      next
        case False
        then have "\<not> cp_ok (m_heap m1 q) 1" using x inj [of k' q] d by auto
        then have "m_nodes m1 g = Some None"
          using x d pg1 by (intro dirtyD [OF inv1, of k' q]) auto
        then show ?thesis by (simp add: nd)
      qed
    qed
    moreover have "pages_inv K m3"
      using inv1 by (auto simp: mem_inv_def pages_inv_def d pg1 page_ok_def)
    moreover have "nodes_inv K m3" "absent_inv m3"
      using inv1 by (auto simp: mem_inv_def nodes_inv_def absent_inv_def nd d pg1 fl split: if_splits)
    moreover have "mem_wf m3" using m1(3) unfolding mem_wf_def d pg1 .
    ultimately have "mem_inv K m3" by (simp only: mem_inv_def simp_thms)
    moreover have "writable m3 q ?off" if "m_pages m ?k = Some q" for q
      using that Some by (simp add: writable_def d)
    ultimately show ?thesis
      using that [OF eq] fl same_tables_flat [OF m1(2)] d(1) by simp
  qed
qed

theorem set_memory_ok:
  assumes inv: "mem_inv K m" and a: "addr AND 3 = 0"
  obtains m' where "set_memory m addr v = Inr m'" "mem_inv K m'"
    "flat m' = write_bytes (flat m) (unat addr) (put_u32 v)"
proof -
  let ?k = "drop_bit 12 addr" and ?off = "unat addr mod 4096"
  have wf: "mem_wf m" using inv by (simp add: mem_inv_def)
  have al: "unat addr mod 4 = 0" using a by (simp only: aligned_iff)
  have off: "?off < 4096" "?off mod 4 = 0" using aligned_page_addr [OF al] by simp_all
  obtain m1 where m1: "page_lookup m ?k = ((m_pages m ?k, m_pages m ?k \<noteq> None), m1)"
    "same_tables m m1" "mem_wf m1"
    using page_lookup_wf [OF wf page_index_less] by blast
  have inv1: "mem_inv K m1" by (rule same_tables_inv [OF m1(2,3) inv])
  have pg1: "m_pages m1 = m_pages m" using m1(2) by (simp add: same_tables_def)
  show ?thesis
  proof (cases "m_pages m ?k")
    case None
    define r where "r = alloc_page m1 ?k"
    note al = alloc_page_inv [OF inv1 page_index_less, of addr, folded r_def]
    have none1: "m_pages m1 ?k = None" using None pg1 by simp
    have w: "writable (snd r) (fst r) ?off"
      using al(4) [OF none1] by (simp add: writable_def new_page_def)
    have p: "m_pages (snd r) ?k = Some (fst r)" using al(3) [OF none1] by simp
    have eq: "set_memory m addr v = Inr (write_page (fst r) ?off (put_u32 v) (snd r))"
      using a m1(1) None by (simp add: set_memory_def r_def unat_page_addr split: prod.split)
    show ?thesis
      using that [OF eq] write_page_inv [OF al(1) [OF none1] page_index_less p off length_put(2) w]
        al(2) [OF none1] same_tables_flat [OF m1(2)]
      by (simp flip: addr_split)
  next
    case (Some p)
    obtain m2 where m2: "mem_invalidate m1 addr = Inr m2" "mem_inv K m2" "flat m2 = flat m1"
      "m_pages m2 = m_pages m1"
      "\<And>p. m_pages m1 ?k = Some p \<Longrightarrow> writable m2 p ?off"
      using mem_invalidate_ok [OF inv1 a] by metis
    have eq: "set_memory m addr v = Inr (write_page p ?off (put_u32 v) m2)"
      using a m1(1) Some m2(1) by (simp add: set_memory_def unat_page_addr)
    have p: "m_pages m2 ?k = Some p" "writable m2 p ?off" using m2(4,5) pg1 Some by simp_all
    show ?thesis
      using that [OF eq] write_page_inv [OF m2(2) page_index_less p(1) off length_put(2) p(2)]
        m2(3) same_tables_flat [OF m1(2)]
      by (simp flip: addr_split)
  qed
qed

theorem get_memory_ok:
  assumes inv: "mem_inv K m" and a: "addr AND 3 = 0"
  obtains m' where "get_memory m addr = Inr (flat_word m addr, m')" "mem_inv K m'" "flat m' = flat m"
proof -
  let ?k = "drop_bit 12 addr"
  have wf: "mem_wf m" using inv by (simp add: mem_inv_def)
  have al: "unat addr mod 4 = 0" using a by (simp only: aligned_iff)
  obtain m1 where m1: "page_lookup m ?k = ((m_pages m ?k, m_pages m ?k \<noteq> None), m1)"
    "same_tables m m1" "mem_wf m1"
    using page_lookup_wf [OF wf page_index_less] by blast
  have hp: "m_heap m1 = m_heap m" using m1(2) by (simp add: same_tables_def)
  have "get_memory m addr = Inr (flat_word m addr, m1)"
    using a m1(1) by (auto simp: get_memory_def flat_word_def flat_slice [OF al] hp unat_page_addr
        get_u32_def be_dec_def split: option.split)
  then show ?thesis
    using that same_tables_inv [OF m1(2,3) inv] same_tables_flat [OF m1(2)] by blast
qed

lemma mem_unaligned:
  "addr AND 3 \<noteq> 0 \<Longrightarrow> get_memory m addr = Inl (UnalignedAccess addr)"
  "addr AND 3 \<noteq> 0 \<Longrightarrow> set_memory m addr v = Inl (UnalignedAccess addr)"
  by (simp_all add: get_memory_def set_memory_def)

lemma flat_word_write:
  assumes "flat m' = write_bytes (flat m) (unat a) (put_u32 v)" "a AND 3 = 0" "b AND 3 = 0"
  shows "flat_word m' b = (if b = a then v else flat_word m b)"
proof (cases "b = a")
  case True
  have "slice_of (write_bytes c x (put_u32 v)) x 4 = put_u32 v" for c x
    by (intro nth_equalityI) (auto simp: slice_of_def write_bytes_def)
  then show ?thesis using True assms(1) by (simp add: flat_word_def)
next
  case False
  then have "unat a \<noteq> unat b" using word_unat_eq_iff by metis
  then have "unat a + 4 \<le> unat b \<or> unat b + 4 \<le> unat a"
    using assms(2,3) aligned_less [of "unat a" "unat b"] aligned_less [of "unat b" "unat a"]
    unfolding aligned_iff by linarith
  then have "slice_of (flat m') (unat b) 4 = slice_of (flat m) (unat b) 4"
    unfolding assms(1) by (intro slice_of_write) simp
  then show ?thesis using False by (simp add: flat_word_def)
qed


section \<open>The contract of a word store\<close>

primrec store_all :: "('m \<Rightarrow> u32 \<Rightarrow> u32 \<Rightarrow> 'e + 'm) \<Rightarrow> 'm \<Rightarrow> (u32 \<times> u32) list \<Rightarrow> 'e + 'm" where
  "store_all st m [] = Inr m"
| "store_all st m (w # ws) = rbind (st m (fst w) (snd w)) (\<lambda>m'. store_all st m' ws)"

locale word_store =
  fixes load :: "'m \<Rightarrow> u32 \<Rightarrow> 'e + u32 \<times> 'm"
    and store :: "'m \<Rightarrow> u32 \<Rightarrow> u32 \<Rightarrow> 'e + 'm"
    and invar :: "'m \<Rightarrow> bool"
    and word_at :: "'m \<Rightarrow> u32 \<Rightarrow> u32"
  assumes load_ok: "invar m \<Longrightarrow> a AND 3 = 0 \<Longrightarrow>
      \<exists>m'. load m a = Inr (word_at m a, m') \<and> invar m' \<and> word_at m' = word_at m"
    and store_ok: "invar m \<Longrightarrow> a AND 3 = 0 \<Longrightarrow>
      \<exists>m'. store m a v = Inr m' \<and> invar m' \<and>
        (\<forall>b. b AND 3 = 0 \<longrightarrow> word_at m' b = (if b = a then v else word_at m b))"
begin

lemma loadE:
  assumes "invar m" "a AND 3 = 0"
  obtains m' where "load m a = Inr (word_at m a, m')" "invar m'" "word_at m' = word_at m"
  using load_ok [OF assms] by blast

lemma storeE:
  assumes "invar m" "a AND 3 = 0"
  obtains m' where "store m a v = Inr m'" "invar m'"
    "\<And>b. b AND 3 = 0 \<Longrightarrow> word_at m' b = (if b = a then v else word_at m b)"
  using store_ok [OF assms] by blast

lemma load_after_store:
  assumes "invar m" "a AND 3 = 0" "b AND 3 = 0" "store m a v = Inr m1"
  shows "\<exists>m2. load m1 b = Inr (if b = a then v else word_at m b, m2)"
proof -
  have "invar m1" "word_at m1 b = (if b = a then v else word_at m b)"
    using store_ok [OF assms(1,2), of v] assms(3,4) by auto
  then show ?thesis using load_ok [of m1 b] assms(3) by auto
qed

text \<open>After a run of stores every word holds the last value stored there.\<close>

lemma store_all_ok:
  assumes "invar m" "\<And>w. w \<in> set ws \<Longrightarrow> fst w AND 3 = 0"
  shows "\<exists>m'. store_all store m ws = Inr m' \<and> invar m' \<and>
    (\<forall>b. b AND 3 = 0 \<longrightarrow>
       word_at m' b = (case map_of (rev ws) b of None \<Rightarrow> word_at m b | Some v \<Rightarrow> v))"
  using assms
proof (induction ws arbitrary: m)
  case (Cons w ws)
  obtain m1 where m1: "store m (fst w) (snd w) = Inr m1" "invar m1"
    "\<And>b. b AND 3 = 0 \<Longrightarrow> word_at m1 b = (if b = fst w then snd w else word_at m b)"
    using storeE Cons.prems by (metis list.set_intros(1))
  obtain m' where "store_all store m1 ws = Inr m'" "invar m'"
    "\<forall>b. b AND 3 = 0 \<longrightarrow>
       word_at m' b = (case map_of (rev ws) b of None \<Rightarrow> word_at m1 b | Some v \<Rightarrow> v)"
    using Cons.IH [OF m1(2)] Cons.prems(2) by auto
  then show ?case using m1 by (cases w) (auto simp: map_add_def split: option.splits)
qed simp

end

interpretation mem: word_store get_memory set_memory "mem_inv K" flat_word for K
proof unfold_locales
  fix m and a :: u32 assume "mem_inv K m" "a AND 3 = 0"
  then show "\<exists>m'. get_memory m a = Inr (flat_word m a, m') \<and> mem_inv K m' \<and> flat_word m' = flat_word m"
    using get_memory_ok flat_word_cong by metis
next
  fix m and a v :: u32 assume m: "mem_inv K m" "a AND 3 = 0"
  obtain m' where "set_memory m a v = Inr m'" "mem_inv K m'"
    "flat m' = write_bytes (flat m) (unat a) (put_u32 v)"
    using set_memory_ok [OF m] by blast
  then show "\<exists>m'. set_memory m a v = Inr m' \<and> mem_inv K m' \<and>
      (\<forall>b. b AND 3 = 0 \<longrightarrow> flat_word m' b = (if b = a then v else flat_word m b))"
    using flat_word_write m(2) by blast
qed

section \<open>Merkle proofs\<close>

text \<open>
  The check that the on-chain machine makes of a proof (\<^verbatim>\<open>MIPS.sol\<close>, \<open>readMem\<close>): start from
  the leaf and combine with the siblings, the bits of the address above the fifth saying
  which side the path is on.
\<close>

definition proof_step :: "(byte list \<Rightarrow> hash) \<Rightarrow> u32 \<Rightarrow> nat \<times> hash \<Rightarrow> hash \<Rightarrow> nat \<times> hash" where
  "proof_step K addr s sibling =
     (Suc (fst s), if bit (drop_bit 5 addr) (fst s) then hash_pair K sibling (snd s)
                   else hash_pair K (snd s) sibling)"

definition proof_root :: "(byte list \<Rightarrow> hash) \<Rightarrow> u32 \<Rightarrow> hash list \<Rightarrow> hash" where
  "proof_root K addr pf = snd (foldl (proof_step K addr) (0, hd pf) (tl pf))"

lemma foldl_proof_step_fst: "fst (foldl (proof_step K addr) s sibs) = fst s + length sibs"
  by (induction sibs arbitrary: s) (auto simp: proof_step_def)

lemma proof_root_snoc:
  "pf \<noteq> [] \<Longrightarrow> proof_root K addr (pf @ [s]) =
     (if bit addr (4 + length pf) then hash_pair K s (proof_root K addr pf)
      else hash_pair K (proof_root K addr pf) s)"
  by (cases pf) (simp_all add: proof_root_def proof_step_def foldl_proof_step_fst bit_drop_bit_eq)

definition path_at :: "u32 \<Rightarrow> nat \<Rightarrow> nat" where
  "path_at addr depth = (2 ^ 32 + unat addr) div 2 ^ (32 - depth)"

lemma path_at_step:
  assumes "depth < 27"
  shows "path_at addr (Suc depth) = 2 * path_at addr depth + (if bit addr (31 - depth) then 1 else 0)"
proof -
  let ?a = "2 ^ 32 + unat addr" and ?k = "31 - depth"
  have e: "32 - depth = Suc ?k" "32 - Suc depth = ?k" using assms by simp_all
  have b: "bit addr ?k \<longleftrightarrow> odd (unat addr div 2 ^ ?k)"
    using bit_iff_odd [of "unat addr" ?k] bit_unsigned_iff [of addr ?k, where ?'a = nat] by simp
  have "?a div 2 ^ ?k = 2 ^ (Suc depth) + unat addr div 2 ^ ?k"
  proof -
    have "(2::nat) ^ 32 = 2 ^ Suc depth * 2 ^ ?k" using assms by (simp flip: power_add power_Suc)
    then show ?thesis by (simp only: div_mult_self4) simp
  qed
  then have o: "odd (?a div 2 ^ ?k) \<longleftrightarrow> bit addr ?k" using b by simp
  then have m: "?a div 2 ^ ?k mod 2 = (if bit addr ?k then 1 else 0)" by (simp add: mod_2_eq_odd)
  show ?thesis
    unfolding path_at_def e div_pow_Suc2 m [symmetric] by (rule mult_div_mod_eq [symmetric])
qed

lemma path_at_range:
  assumes "depth \<le> 27"
  shows "1 \<le> path_at addr depth" and "path_at addr depth < 2 ^ 28" and "depth < 27 \<Longrightarrow> path_at addr depth < 2 ^ 27"
proof -
  let ?a = "2 ^ 32 + unat addr" and ?k = "32 - depth"
  have p: "(2::nat) ^ 32 = 2 ^ depth * 2 ^ ?k" using assms by (simp flip: power_add)
  have "?a div 2 ^ ?k = 2 ^ depth + unat addr div 2 ^ ?k" by (simp only: p div_mult_self4) simp
  moreover have "(1::nat) \<le> 2 ^ depth" by simp
  ultimately show "1 \<le> path_at addr depth" unfolding path_at_def by linarith
  have "?a < 2 ^ Suc depth * 2 ^ ?k" using p unat_lt [of addr] by simp
  then have lt: "path_at addr depth < 2 ^ Suc depth"
    unfolding path_at_def by (rule less_mult_imp_div_less)
  have "(2::nat) ^ Suc depth \<le> 2 ^ 28" using assms by (intro power_increasing) auto
  then show "path_at addr depth < 2 ^ 28" using lt by linarith
  assume "depth < 27"
  then have "(2::nat) ^ Suc depth \<le> 2 ^ 27" by (intro power_increasing) auto
  then show "path_at addr depth < 2 ^ 27" using lt by linarith
qed

lemma nat_double_or_1: "(2 * n OR Suc 0) = Suc (2 * n)"
  using or_one_eq [of "2 * n"] by simp

lemma traverse_bit: "depth \<le> 31 \<Longrightarrow> (addr :: u32) AND push_bit (31 - depth) 1 \<noteq> 0 \<longleftrightarrow> bit addr (31 - depth)"
  by (simp add: and_exp_eq_0_iff_not_bit push_bit_of_1)

lemma mnode_half:
  assumes "1 \<le> g" "g < 2 ^ 27"
  shows "mnode K c g = hash_pair K (mnode K c (2 * g)) (mnode K c (2 * g + 1))"
proof -
  have "len64 g \<le> 27" using assms by (subst len64_le_iff) auto
  then obtain h where h: "28 - len64 g = Suc h" "h = 28 - Suc (len64 g)"
    by (cases "28 - len64 g") auto
  then show ?thesis using assms by (simp add: mnode_def)
qed

lemma merkleizedE:
  assumes "mem_inv K m" "1 \<le> g" "g < 2 ^ 28"
  obtains m' where "mem_merkleize_subtree K m g = Inr (mnode K (flat m) g, m')" "mem_inv K m'"
    "flat m' = flat m" "m_pages m' = m_pages m"
proof -
  obtain m' where m': "mem_merkleize_subtree K m g = Inr (mnode K (flat m) g, m')" "mem_inv K m'" "same_data m m'"
    using mem_merkleize_subtree_eq [OF assms] unfolding merkleized_def by blast
  then show ?thesis using that same_data_flat by (simp add: same_data_def)
qed

lemma traverse_branch_ok:
  "mem_inv K m \<Longrightarrow> depth \<le> 27 \<Longrightarrow> parent = path_at addr depth \<Longrightarrow>
   \<exists>pf m'. traverse_branch K m parent addr depth = Inr (pf, m') \<and> mem_inv K m' \<and> flat m' = flat m \<and> m_pages m' = m_pages m \<and>
     length pf = 28 - depth \<and> hd pf = mnode K (flat m) (path_at addr 27) \<and>
     proof_root K addr pf = mnode K (flat m) parent"
proof (induction K m parent addr depth rule: traverse_branch.induct)
  case (1 K m parent addr depth)
  note range = path_at_range [OF "1.prems"(2), of addr, folded "1.prems"(3)]
  show ?case
  proof (cases "depth = 27")
    case True
    obtain m1 where "mem_merkleize_subtree K m parent = Inr (mnode K (flat m) parent, m1)"
      "mem_inv K m1" "flat m1 = flat m" "m_pages m1 = m_pages m"
      using merkleizedE [OF "1.prems"(1) range(1,2)] by blast
    then show ?thesis
      using True "1.prems"(3) by (subst traverse_branch.simps) (simp add: proof_root_def)
  next
    case False
    then have d: "depth < 27" using "1.prems"(2) by simp
    let ?b = "bit addr (31 - depth)"
    define self where "self = 2 * parent + (if ?b then 1 else 0)"
    define sib where "sib = 2 * parent + (if ?b then 0 else 1)"
    have self: "self = path_at addr (depth + 1)"
      using path_at_step [OF d, of addr] "1.prems"(3) by (simp add: self_def)
    have swap: "(if addr AND push_bit (31 - depth) 1 \<noteq> 0 then (2 * parent OR 1, 2 * parent)
        else (2 * parent, 2 * parent OR 1)) = (self, sib)"
      using traverse_bit [of depth addr] d by (simp add: self_def sib_def nat_double_or_1)
    have "\<exists>pf m1. traverse_branch K m self addr (depth + 1) = Inr (pf, m1) \<and> mem_inv K m1 \<and>
        flat m1 = flat m \<and> m_pages m1 = m_pages m \<and> length pf = 28 - (depth + 1) \<and>
        hd pf = mnode K (flat m) (path_at addr 27) \<and> proof_root K addr pf = mnode K (flat m) self"
      using d self by (intro "1.IH" [OF False _ refl refl refl swap [symmetric]]) (use "1.prems" in auto)
    then obtain pf m1 where pf: "traverse_branch K m self addr (depth + 1) = Inr (pf, m1)"
      "mem_inv K m1" "flat m1 = flat m" "m_pages m1 = m_pages m" "length pf = 27 - depth"
      "hd pf = mnode K (flat m) (path_at addr 27)" "proof_root K addr pf = mnode K (flat m) self"
      by auto
    have "1 \<le> sib" "sib < 2 ^ 28" using range d by (auto simp: sib_def)
    then obtain m2 where m2: "mem_merkleize_subtree K m1 sib = Inr (mnode K (flat m) sib, m2)"
      "mem_inv K m2" "flat m2 = flat m" "m_pages m2 = m_pages m"
      using merkleizedE [OF pf(2), of sib] pf(3,4) by auto
    have eq: "traverse_branch K m parent addr depth = Inr (pf @ [mnode K (flat m) sib], m2)"
      using d pf(1) m2(1) by (subst traverse_branch.simps) (simp only: Let_def swap split rbind_simps, simp)
    have "pf \<noteq> []" using pf(5) d by auto
    moreover have "4 + length pf = 31 - depth" using pf(5) d by simp
    ultimately have "proof_root K addr (pf @ [mnode K (flat m) sib]) = mnode K (flat m) parent"
      using pf(7) mnode_half [OF range(1) range(3) [OF d]]
      by (simp add: proof_root_snoc self_def sib_def)
    then show ?thesis
      using eq m2 pf(5,6) d \<open>pf \<noteq> []\<close> by (intro exI [of _ "pf @ [mnode K (flat m) sib]"]) auto
  qed
qed

lemma leaf_of_addr: "mnode K c (path_at addr 27) = slice_of c (unat addr div 32 * 32) 32"
proof -
  have "path_at addr 27 = 2 ^ 27 + unat addr div 32" by (simp add: path_at_def)
  moreover have "unat addr div 32 < 2 ^ 27" using unat_lt [of addr] by simp
  ultimately show ?thesis
    using len64_eqI [of 27 "2 ^ 27 + unat addr div 32"] by (simp add: mnode_def mleaf_def)
qed

lemma merkle_proof_ok:
  assumes "mem_inv K m"
  obtains pf m' where "merkle_proof K m addr = Inr (concat pf, m')" "mem_inv K m'" "flat m' = flat m"
    "m_pages m' = m_pages m" "length pf = 28" "hd pf = slice_of (flat m) (unat addr div 32 * 32) 32"
    "proof_root K addr pf = mnode K (flat m) 1"
proof -
  have "path_at addr 0 = 1" using unat_lt [of addr] by (simp add: path_at_def div_add1_eq)
  then obtain pf m' where pf: "traverse_branch K m 1 addr 0 = Inr (pf, m')" "mem_inv K m'"
    "flat m' = flat m" "m_pages m' = m_pages m" "length pf = 28" "hd pf = mnode K (flat m) (path_at addr 27)"
    "proof_root K addr pf = mnode K (flat m) 1"
    using traverse_branch_ok [OF assms, of 0 1 addr] by auto
  have "map (\<lambda>i. pf ! i) [0..<28] = pf" using map_nth [of pf] pf(5) by simp
  then show ?thesis using that [of pf m'] pf by (simp add: merkle_proof_def leaf_of_addr)
qed

end
