(* ===== verification/Mips_Memory_IO.thy ===== *)
theory Mips_Memory_IO
  imports Mips_Memory_Ops
begin

text \<open>
  Reading and writing ranges of the emulator's memory through \<^verbatim>\<open>io.Reader\<close>s, and its JSON
  form (the list of page entries; the encoding of the list itself is the standard
  library's). A reader is a function from its state and the room in the destination; loops
  that drain a reader take fuel, with lemmas that say how much is enough.
\<close>

section \<open>Reading a range\<close>

record mem_reader =
  mr_addr :: u32
  mr_count :: u32

text \<open>\<^term>\<open>None\<close> is \<^verbatim>\<open>io.EOF\<close>; \<open>room\<close> is the length of the destination.\<close>

definition mem_reader_read ::
  "memory \<Rightarrow> mem_reader \<Rightarrow> nat \<Rightarrow> vm_panic + byte list option \<times> mem_reader \<times> memory" where
  "mem_reader_read m r room =
     (if mr_count r = 0 then Inr (None, r, m)
      else let endAddr = mr_addr r + mr_count r;
               pageIndex = drop_bit 12 (mr_addr r);
               start = mr_addr r AND 4095;
               end = (if pageIndex = drop_bit 12 endAddr then endAddr AND 4095 else 4096);
               (q, m1) = page_lookup m pageIndex;
               advance = (\<lambda>dat. (Some dat,
                  r\<lparr>mr_addr := mr_addr r + of_nat (length dat),
                    mr_count := mr_count r - of_nat (length dat)\<rparr>, m1))
           in case q of
                (_, False) \<Rightarrow> Inr (advance (replicate (min room (unat (end - start))) 0))
              | (None, True) \<Rightarrow> Inl NilDereference
              | (Some p, True) \<Rightarrow>
                  if end < start then Inl SliceBounds
                  else Inr (advance (slice_of (cp_data (m_heap m1 p)) (unat start)
                              (min room (unat end - unat start)))))"

definition read_memory_range :: "u32 \<Rightarrow> u32 \<Rightarrow> mem_reader" where
  "read_memory_range addr count = \<lparr>mr_addr = addr, mr_count = count\<rparr>"

text \<open>
  Draining it as \<^verbatim>\<open>io.Copy\<close> and \<^verbatim>\<open>io.ReadAll\<close> do; \<open>room i\<close> is the length of the
  destination at the \<open>i\<close>-th call, which the standard library chooses.
\<close>

fun drain_reader ::
  "(nat \<Rightarrow> nat) \<Rightarrow> nat \<Rightarrow> nat \<Rightarrow> memory \<Rightarrow> mem_reader \<Rightarrow> (vm_panic + byte list \<times> memory) option" where
  "drain_reader room 0 i m r = None"
| "drain_reader room (Suc fuel) i m r =
     (case mem_reader_read m r (room i) of
        Inl e \<Rightarrow> Some (Inl e)
      | Inr (None, r', m') \<Rightarrow> Some (Inr ([], m'))
      | Inr (Some dat, r', m') \<Rightarrow>
          (case drain_reader room fuel (Suc i) m' r' of
             None \<Rightarrow> None
           | Some (Inl e) \<Rightarrow> Some (Inl e)
           | Some (Inr (rest, m'')) \<Rightarrow> Some (Inr (dat @ rest, m''))))"

lemma flat_page_slice:
  assumes "start + n \<le> 4096" "unat k < 2 ^ 20"
  shows "slice_of (flat m) (4096 * unat (k :: u32) + start) n =
    (case m_pages m k of None \<Rightarrow> replicate n 0 | Some p \<Rightarrow> slice_of (cp_data (m_heap m p)) start n)"
proof -
  have "flat m (4096 * unat k + start + t) =
      (case m_pages m k of None \<Rightarrow> 0 | Some p \<Rightarrow> cp_data (m_heap m p) (start + t))" if "t < n" for t
  proof -
    have s: "start + t < 4096" using assms(1) that by simp
    then have "4096 * unat k + (start + t) < 4294967296" using assms(2) by simp
    moreover have "(4096 * unat k + (start + t)) div 4096 = unat k"
      "(4096 * unat k + (start + t)) mod 4096 = start + t" using s by simp_all
    ultimately show ?thesis by (simp add: flat_def add.assoc split: option.split)
  qed
  then show ?thesis
    by (cases "m_pages m k") (auto simp: slice_of_def intro!: nth_equalityI)
qed

lemma mem_reader_read_ok:
  assumes inv: "mem_inv K m" and c: "mr_count r \<noteq> 0" and room: "0 < room"
    and nw: "unat (mr_addr r) + unat (mr_count r) < 2 ^ 32"
  obtains n m' where "0 < n" "n \<le> unat (mr_count r)" "mem_inv K m'" "flat m' = flat m"
    "mem_reader_read m r room = Inr (Some (slice_of (flat m) (unat (mr_addr r)) n),
       r\<lparr>mr_addr := mr_addr r + of_nat n, mr_count := mr_count r - of_nat n\<rparr>, m')"
proof -
  let ?a = "mr_addr r" and ?e = "mr_addr r + mr_count r"
  let ?k = "drop_bit 12 ?a" and ?start = "?a AND 4095"
  have wf: "mem_wf m" using inv by (simp add: mem_inv_def)
  obtain m1 where m1: "page_lookup m ?k = ((m_pages m ?k, m_pages m ?k \<noteq> None), m1)"
    "same_tables m m1" "mem_wf m1"
    using page_lookup_wf [OF wf page_index_less] by blast
  have hp: "m_heap m1 = m_heap m" using m1(2) by (simp add: same_tables_def)
  have ue: "unat ?e = unat ?a + unat (mr_count r)" using nw by (simp add: unat_word_ariths)
  have c0: "0 < unat (mr_count r)" using c by (simp add: unat_gt_0)
  define fin where "fin = (if ?k = drop_bit 12 ?e then ?e AND 4095 else 4096)"
  have us: "unat ?start = unat ?a mod 4096" by (simp add: unat_page_addr)
  have fin: "unat ?start < unat fin" "unat fin \<le> 4096"
    "unat fin - unat ?start \<le> unat (mr_count r)"
  proof -
    have ae: "unat ?a = 4096 * (unat ?a div 4096) + unat ?a mod 4096"
      "unat ?e = 4096 * (unat ?e div 4096) + unat ?e mod 4096" by simp_all
    show "unat ?start < unat fin" "unat fin \<le> 4096" "unat fin - unat ?start \<le> unat (mr_count r)"
    proof (atomize (full), cases "?k = drop_bit 12 ?e")
      case True
      then have "unat ?a div 4096 = unat ?e div 4096" by (metis unat_page_index)
      moreover have "unat fin = unat ?e mod 4096" using True by (simp add: fin_def unat_page_addr)
      moreover have "unat ?e mod 4096 < 4096" by simp
      ultimately show "unat ?start < unat fin \<and> unat fin \<le> 4096 \<and>
          unat fin - unat ?start \<le> unat (mr_count r)"
        using ue c0 ae us by linarith
    next
      case False
      then have "unat ?a div 4096 \<noteq> unat ?e div 4096" using word_unat_eq_iff by (metis unat_page_index)
      moreover have "unat ?a div 4096 \<le> unat ?e div 4096" using ue by (intro div_le_mono) simp
      moreover have "unat fin = 4096" using False by (simp add: fin_def)
      moreover have "unat ?a mod 4096 < 4096" by simp
      ultimately show "unat ?start < unat fin \<and> unat fin \<le> 4096 \<and>
          unat fin - unat ?start \<le> unat (mr_count r)"
        using ue ae us by linarith
    qed
  qed
  define n where "n = min room (unat fin - unat ?start)"
  have sub: "unat (fin - ?start) = unat fin - unat ?start"
    using fin(1) by (simp add: unat_sub word_le_nat_alt)
  have nfs: "\<not> fin < ?start" using fin(1) by (simp add: word_less_nat_alt)
  have sl: "slice_of (flat m) (unat ?a) n = (case m_pages m ?k of None \<Rightarrow> replicate n 0
     | Some p \<Rightarrow> slice_of (cp_data (m_heap m p)) (unat ?start) n)"
  proof -
    have "slice_of (flat m) (4096 * unat ?k + unat ?start) n = (case m_pages m ?k of None \<Rightarrow> replicate n 0
     | Some p \<Rightarrow> slice_of (cp_data (m_heap m p)) (unat ?start) n)"
      using fin by (intro flat_page_slice page_index_less) (simp add: n_def)
    then show ?thesis by (simp only: us flip: addr_split)
  qed
  have "mem_reader_read m r room = Inr (Some (slice_of (flat m) (unat ?a) n),
       r\<lparr>mr_addr := ?a + of_nat n, mr_count := mr_count r - of_nat n\<rparr>, m1)"
    unfolding mem_reader_read_def Let_def fin_def [symmetric] m1(1) sl
    using c nfs by (cases "m_pages m ?k") (simp_all add: hp sub n_def [symmetric])
  moreover have "0 < n" "n \<le> unat (mr_count r)" using fin room by (auto simp: n_def)
  ultimately show ?thesis
    using that same_tables_inv [OF m1(2,3) inv] same_tables_flat [OF m1(2)] by metis
qed

lemma drain_reader_ok:
  assumes room: "\<And>i. 0 < room i"
  shows "mem_inv K m \<Longrightarrow> unat (mr_addr r) + unat (mr_count r) < 2 ^ 32 \<Longrightarrow> unat (mr_count r) < fuel \<Longrightarrow>
   \<exists>m'. drain_reader room fuel i m r =
     Some (Inr (slice_of (flat m) (unat (mr_addr r)) (unat (mr_count r)), m')) \<and>
     mem_inv K m' \<and> flat m' = flat m"
proof (induction fuel arbitrary: i m r)
  case (Suc fuel)
  show ?case
  proof (cases "mr_count r = 0")
    case True
    then have "mem_reader_read m r (room i) = Inr (None, r, m)" by (simp add: mem_reader_read_def)
    then show ?thesis using True Suc.prems(1) by (simp add: slice_of_def)
  next
    case False
    obtain n m1 where n: "0 < n" "n \<le> unat (mr_count r)" "mem_inv K m1" "flat m1 = flat m"
      "mem_reader_read m r (room i) = Inr (Some (slice_of (flat m) (unat (mr_addr r)) n),
         r\<lparr>mr_addr := mr_addr r + of_nat n, mr_count := mr_count r - of_nat n\<rparr>, m1)"
      using mem_reader_read_ok [OF Suc.prems(1) False room [of i] Suc.prems(2)] by blast
    let ?r = "r\<lparr>mr_addr := mr_addr r + of_nat n, mr_count := mr_count r - of_nat n\<rparr>"
    have un: "unat (of_nat n :: u32) = n"
      using n(2) unat_lt [of "mr_count r"] by (simp add: unat_of_nat)
    have ua: "unat (mr_addr ?r) = unat (mr_addr r) + n"
      using n(2) Suc.prems(2) un by (simp add: unat_word_ariths(1))
    have uc: "unat (mr_count ?r) = unat (mr_count r) - n"
      using n(2) un by (simp add: unat_sub word_le_nat_alt)
    have "unat (mr_addr ?r) + unat (mr_count ?r) < 2 ^ 32" "unat (mr_count ?r) < fuel"
      using Suc.prems(2,3) n(1,2) unfolding ua uc by simp_all
    from Suc.IH [OF n(3) this, of "Suc i"] obtain m' where
      "drain_reader room fuel (Suc i) m1 ?r =
         Some (Inr (slice_of (flat m) (unat (mr_addr r) + n) (unat (mr_count r) - n), m'))"
      "mem_inv K m'" "flat m' = flat m"
      unfolding ua uc n(4) by blast
    then show ?thesis
      using n(2,5) slice_of_append [of "flat m" "unat (mr_addr r)" n "unat (mr_count r) - n"] by simp
  qed
qed simp


section \<open>Writing a range\<close>

text \<open>
  A reader \<open>rd\<close> takes its state and the room of the destination and returns the bytes it
  writes, an error if any (\<open>Eof\<close> or another) and its next state.
\<close>

datatype read_err = Eof | Read_failed

type_synonym 's reader = "'s \<Rightarrow> nat \<Rightarrow> byte list \<times> read_err option \<times> 's"

definition range_chunk :: "'s reader \<Rightarrow> memory \<Rightarrow> u32 \<Rightarrow> 's \<Rightarrow>
    vm_panic + (nat \<times> read_err option \<times> 's \<times> memory)" where
  "range_chunk rd m addr s =
     (let pageIndex = drop_bit 12 addr; pageAddr = unat (addr AND 4095);
          (q, m1) = page_lookup m pageIndex;
          (p, m2) = (case q of (p, True) \<Rightarrow> (p, m1)
                     | (_, False) \<Rightarrow> (let (p, m2) = alloc_page m1 pageIndex in (Some p, m2)))
      in case p of
           None \<Rightarrow> Inl NilDereference
         | Some p \<Rightarrow>
             let m3 = heap_update p (page_invalidate_full (m_heap m2 p)) m2;
                 (dat, err, s') = rd s (4096 - pageAddr)
             in Inr (length dat, err, s', write_page p pageAddr dat m3))"

fun set_memory_range :: "'s reader \<Rightarrow> nat \<Rightarrow> memory \<Rightarrow> u32 \<Rightarrow> 's \<Rightarrow> (vm_panic + memory) option" where
  "set_memory_range rd 0 m addr s = None"
| "set_memory_range rd (Suc fuel) m addr s =
     (case range_chunk rd m addr s of
        Inl e \<Rightarrow> Some (Inl e)
      | Inr (n, Some Eof, s', m') \<Rightarrow> Some (Inr m')
      | Inr (n, Some Read_failed, s', m') \<Rightarrow> Some (Inl ReaderError)
      | Inr (n, None, s', m') \<Rightarrow> set_memory_range rd fuel m' (addr + of_nat n) s')"

text \<open>\<^verbatim>\<open>bytes.Reader\<close>: \<^verbatim>\<open>io.EOF\<close> only once nothing is left.\<close>

definition bytes_reader :: "byte list reader" where
  "bytes_reader bs room = (if bs = [] then ([], Some Eof, []) else (take room bs, None, drop room bs))"

text \<open>
  \<^verbatim>\<open>SetMemoryRange\<close> does not clear the nodes above the pages, so it keeps the
  invariant only where no node is valid yet, which is how the ELF loader uses it.
\<close>

definition unhashed :: "memory \<Rightarrow> bool" where
  "unhashed m \<longleftrightarrow> (\<forall>g h. m_nodes m g \<noteq> Some (Some h))"

lemma unhashed_new: "unhashed new_memory"
  by (simp add: unhashed_def new_memory_def)

lemma unhashed_same: "same_tables m m' \<Longrightarrow> unhashed m \<Longrightarrow> unhashed m'"
  by (simp add: unhashed_def same_tables_def)

lemma absent_nil: "mem_inv K m \<Longrightarrow> unhashed m \<Longrightarrow> unat k < 2 ^ 20 \<Longrightarrow> m_pages m k = Some p \<Longrightarrow>
    1 \<le> g \<Longrightarrow> g < 2 ^ 20 \<Longrightarrow> anc g (2 ^ 20 + unat k) \<Longrightarrow> m_nodes m g = Some None"
  unfolding mem_inv_def absent_inv_def unhashed_def by (metis option.exhaust)

lemma write_invalid_page:
  assumes inv: "mem_inv K m" and u: "unhashed m" and k: "unat k < 2 ^ 20" "m_pages m k = Some p"
    and r: "off + length bs \<le> 4096"
  defines "m' \<equiv> write_page p off bs (heap_update p (page_invalidate_full (m_heap m p)) m)"
  shows "mem_inv K m'" "unhashed m'" "flat m' = write_bytes (flat m) (4096 * unat k + off) bs"
    "m_pages m' = m_pages m"
proof -
  let ?m1 = "heap_update p (page_invalidate_full (m_heap m p)) m"
  have wf: "mem_wf m" using inv by (simp add: mem_inv_def)
  have wf1: "mem_wf ?m1" using wf by (simp add: mem_wf_def heap_update_def)
  have f1: "flat ?m1 = flat m"
    by (intro ext) (auto simp: flat_def heap_update_def page_invalidate_full_def split: option.split)
  show pg: "m_pages m' = m_pages m" by (simp add: m'_def write_page_def heap_update_def)
  show fl: "flat m' = write_bytes (flat m) (4096 * unat k + off) bs"
    using write_page_flat [OF wf1 k(1) _ r, of p] k(2) f1
    by (simp add: m'_def heap_update_def)
  show "unhashed m'" using u by (simp add: unhashed_def m'_def write_page_def heap_update_def)
  have nd: "m_nodes m' = m_nodes m" by (simp add: m'_def write_page_def heap_update_def)
  have ok: "cp_ok (m_heap m' q) = (if q = p then (\<lambda>_. False) else cp_ok (m_heap m q))" for q
    by (simp add: m'_def write_page_def heap_update_def page_invalidate_full_def)
  have hp: "q \<noteq> p \<Longrightarrow> m_heap m' q = m_heap m q" for q
    by (simp add: m'_def write_page_def heap_update_def)
  have "mem_wf m'" using wf by (simp add: m'_def mem_wf_def write_page_def heap_update_def)
  moreover have "pages_inv K m'"
    using inv ok hp unfolding mem_inv_def pages_inv_def page_ok_def pg by metis
  moreover have "nodes_inv K m'" using u by (simp add: nodes_inv_def unhashed_def nd)
  moreover have "absent_inv m'" using inv by (auto simp: mem_inv_def absent_inv_def nd pg)
  moreover have "dirty_inv m'"
    unfolding dirty_inv_def nd pg
    using absent_nil [OF inv u] by (metis anc_0(2) less_one not_le)
  ultimately show "mem_inv K m'" by (simp add: mem_inv_def)
qed

lemma alloc_unhashed: "unhashed m \<Longrightarrow> unhashed (snd (alloc_page m k))"
  by (auto simp: unhashed_def alloc_page_def Let_def clear_nodes_eq)

lemma range_chunk_ok:
  assumes inv: "mem_inv K m" and u: "unhashed m"
    and rd: "rd s (4096 - unat addr mod 4096) = (dat, err, s')" "length dat \<le> 4096 - unat addr mod 4096"
  obtains m' where "range_chunk rd m addr s = Inr (length dat, err, s', m')" "mem_inv K m'" "unhashed m'"
    "flat m' = write_bytes (flat m) (unat addr) dat"
proof -
  let ?k = "drop_bit 12 addr" and ?off = "unat addr mod 4096"
  have wf: "mem_wf m" using inv by (simp add: mem_inv_def)
  obtain m1 where m1: "page_lookup m ?k = ((m_pages m ?k, m_pages m ?k \<noteq> None), m1)"
    "same_tables m m1" "mem_wf m1"
    using page_lookup_wf [OF wf page_index_less] by blast
  have inv1: "mem_inv K m1" by (rule same_tables_inv [OF m1(2,3) inv])
  have u1: "unhashed m1" by (rule unhashed_same [OF m1(2) u])
  have pg1: "m_pages m1 = m_pages m" using m1(2) by (simp add: same_tables_def)
  have "?off < 4096" by simp
  then have r: "?off + length dat \<le> 4096" using rd(2) by linarith
  have f1: "flat m1 = flat m" by (rule same_tables_flat [OF m1(2)])
  show ?thesis
  proof (cases "m_pages m ?k")
    case None
    then have n1: "m_pages m1 ?k = None" by (simp add: pg1)
    obtain p m2 where a: "alloc_page m1 ?k = (p, m2)" by (cases "alloc_page m1 ?k")
    note al = alloc_page_inv [OF inv1 page_index_less n1, unfolded a fst_conv snd_conv]
    have pk: "m_pages m2 ?k = Some p" using al(3) by simp
    have u2: "unhashed m2" using alloc_unhashed [OF u1, of ?k] by (simp add: a)
    note w = write_invalid_page [OF al(1) u2 page_index_less pk r]
    show ?thesis
      using that [OF _ w(1,2)] w(3) None a rd(1) m1(1) al(2) f1
      by (simp add: range_chunk_def unat_page_addr flip: addr_split)
  next
    case (Some p)
    then have pk: "m_pages m1 ?k = Some p" by (simp add: pg1)
    note w = write_invalid_page [OF inv1 u1 page_index_less pk r]
    show ?thesis
      using that [OF _ w(1,2)] w(3) Some rd(1) m1(1) f1
      by (simp add: range_chunk_def unat_page_addr flip: addr_split)
  qed
qed

lemma write_bytes_append:
  "write_bytes (write_bytes c a xs) (a + length xs) ys = write_bytes c a (xs @ ys)"
  by (auto simp: write_bytes_def fun_eq_iff nth_append)

lemma set_memory_range_ok:
  "mem_inv K m \<Longrightarrow> unhashed m \<Longrightarrow> unat addr + length bs < 2 ^ 32 \<Longrightarrow> length bs + 1 < fuel \<Longrightarrow>
   \<exists>m'. set_memory_range bytes_reader fuel m addr bs = Some (Inr m') \<and> mem_inv K m' \<and> unhashed m' \<and>
     flat m' = write_bytes (flat m) (unat addr) bs"
proof (induction fuel arbitrary: m addr bs)
  case (Suc fuel)
  let ?room = "4096 - unat addr mod 4096"
  have room: "0 < ?room" by simp
  show ?case
  proof (cases "bs = []")
    case True
    then have rd: "bytes_reader bs ?room = ([], Some Eof, [])" by (simp add: bytes_reader_def)
    obtain m' where "range_chunk bytes_reader m addr bs = Inr (0, Some Eof, [], m')" "mem_inv K m'"
      "unhashed m'" "flat m' = write_bytes (flat m) (unat addr) []"
      using range_chunk_ok [where rd = bytes_reader, OF Suc.prems(1,2), of bs addr, OF rd] by auto
    then show ?thesis using True by auto
  next
    case False
    then have rd: "bytes_reader bs ?room = (take ?room bs, None, drop ?room bs)"
      by (simp add: bytes_reader_def)
    obtain m1 where m1: "range_chunk bytes_reader m addr bs =
        Inr (length (take ?room bs), None, drop ?room bs, m1)" "mem_inv K m1" "unhashed m1"
      "flat m1 = write_bytes (flat m) (unat addr) (take ?room bs)"
      using range_chunk_ok [where rd = bytes_reader, OF Suc.prems(1,2), of bs addr, OF rd] by auto
    define n where "n = length (take ?room bs)"
    have n: "n \<le> length bs" "0 < n" using False room by (auto simp: n_def)
    have un: "unat (of_nat n :: u32) = n" using n(1) Suc.prems(3) by (simp add: unat_of_nat)
    have ua: "unat (addr + of_nat n) = unat addr + n"
      using n(1) un Suc.prems(3) by (simp add: unat_word_ariths(1))
    have len: "length (drop ?room bs) = length bs - n" by (simp add: n_def)
    have "unat (addr + of_nat n) + length (drop ?room bs) < 2 ^ 32" "length (drop ?room bs) + 1 < fuel"
      using Suc.prems(3,4) n unfolding ua len by simp_all
    from Suc.IH [OF m1(2,3) this] obtain m' where m':
      "set_memory_range bytes_reader fuel m1 (addr + of_nat n) (drop ?room bs) = Some (Inr m')"
      "mem_inv K m'" "unhashed m'"
      "flat m' = write_bytes (flat m1) (unat addr + n) (drop ?room bs)"
      unfolding ua by blast
    have "flat m' = write_bytes (flat m) (unat addr) bs"
      unfolding m'(4) m1(4) n_def write_bytes_append append_take_drop_id ..
    then show ?thesis using m1(1) m'(1,2,3) by (simp add: n_def)
  qed
qed simp


section \<open>JSON\<close>

record page_entry =
  pe_index :: u32
  pe_data :: "nat \<Rightarrow> byte"

definition marshal_memory :: "memory \<Rightarrow> page_entry list" where
  "marshal_memory m =
     map (\<lambda>k. \<lparr>pe_index = k, pe_data = cp_data (m_heap m (the (m_pages m k)))\<rparr>)
       (sorted_list_of_set (dom (m_pages m)))"

definition set_page_data :: "nat \<Rightarrow> (nat \<Rightarrow> byte) \<Rightarrow> memory \<Rightarrow> memory" where
  "set_page_data p d m = heap_update p ((m_heap m p)\<lparr>cp_data := d\<rparr>) m"

fun load_pages :: "nat \<Rightarrow> page_entry list \<Rightarrow> memory \<Rightarrow> vm_panic + memory" where
  "load_pages i [] m = Inr m"
| "load_pages i (e # es) m =
     (if m_pages m (pe_index e) \<noteq> None then Inl (DuplicatePage i (pe_index e))
      else let (p, m1) = alloc_page m (pe_index e)
           in load_pages (Suc i) es (set_page_data p (pe_data e) m1))"

definition unmarshal_memory :: "page_entry list \<Rightarrow> vm_panic + memory" where
  "unmarshal_memory es = load_pages 0 es new_memory"

definition page_count :: "memory \<Rightarrow> nat" where
  "page_count m = card (dom (m_pages m))"

lemma load_page_inv:
  assumes inv: "mem_inv K m" and u: "unhashed m" and n: "m_pages m k = None" and kl: "unat k < 2 ^ 20"
  defines "r \<equiv> alloc_page m k"
  shows "mem_inv K (set_page_data (fst r) d (snd r))" and "unhashed (set_page_data (fst r) d (snd r))"
    and "m_pages (set_page_data (fst r) d (snd r)) = (m_pages m)(k \<mapsto> fst r)"
    and "m_heap (set_page_data (fst r) d (snd r)) (fst r) = new_page\<lparr>cp_data := d\<rparr>"
    and "q \<noteq> fst r \<Longrightarrow> m_heap (set_page_data (fst r) d (snd r)) q = m_heap m q"
proof -
  let ?m = "set_page_data (fst r) d (snd r)"
  note al = alloc_page_inv [OF inv kl n, folded r_def]
  have u1: "unhashed (snd r)" using alloc_unhashed [OF u] by (simp add: r_def)
  have eq: "m_pages ?m = (m_pages m)(k \<mapsto> fst r)" "m_nodes ?m = m_nodes (snd r)"
    "m_heap ?m = (m_heap (snd r))(fst r := new_page\<lparr>cp_data := d\<rparr>)"
    using al(3,4) by (simp_all add: set_page_data_def heap_update_def)
  show "m_pages ?m = (m_pages m)(k \<mapsto> fst r)" by (rule eq(1))
  show "m_heap ?m (fst r) = new_page\<lparr>cp_data := d\<rparr>" by (simp add: eq)
  show "q \<noteq> fst r \<Longrightarrow> m_heap ?m q = m_heap m q"
    by (simp add: eq) (simp add: r_def alloc_page_def Let_def)
  show "unhashed ?m" using u1 by (simp add: unhashed_def eq)
  have "mem_wf ?m" using al(1) by (simp add: mem_inv_def mem_wf_def set_page_data_def heap_update_def)
  moreover have "pages_inv K ?m"
    unfolding pages_inv_def
  proof (intro allI impI)
    fix k' q assume q: "m_pages ?m k' = Some q"
    then have "page_ok K (m_heap (snd r) q)"
      using al(1,3) unfolding mem_inv_def pages_inv_def eq by metis
    then show "page_ok K (m_heap ?m q)" by (simp add: eq page_ok_def new_page_def)
  qed
  moreover have "nodes_inv K ?m" using u1 by (simp add: nodes_inv_def unhashed_def eq)
  moreover have "absent_inv ?m" using al(1,3) unfolding mem_inv_def absent_inv_def eq by auto
  moreover have "dirty_inv ?m"
    unfolding dirty_inv_def eq(1,2)
    using absent_nil [OF al(1) u1] al(3) by (metis anc_0(2) less_one not_le)
  ultimately show "mem_inv K ?m" by (simp add: mem_inv_def)
qed

text \<open>Loading distinct pages gives each its data, and pages not listed stay absent.\<close>

lemma load_pages_ok:
  assumes "mem_inv K m" "unhashed m" "distinct (map pe_index es)"
    "\<And>e. e \<in> set es \<Longrightarrow> unat (pe_index e) < 2 ^ 20 \<and> m_pages m (pe_index e) = None"
  shows "\<exists>m'. load_pages i es m = Inr m' \<and> mem_inv K m' \<and> unhashed m' \<and>
    (\<forall>k. map_option (\<lambda>p. cp_data (m_heap m' p)) (m_pages m' k) =
       (case map_of (map (\<lambda>e. (pe_index e, pe_data e)) es) k of
          Some d \<Rightarrow> Some d | None \<Rightarrow> map_option (\<lambda>p. cp_data (m_heap m p)) (m_pages m k)))"
  using assms
proof (induction es arbitrary: i m)
  case (Cons e es)
  let ?k = "pe_index e"
  define r where "r = alloc_page m ?k"
  let ?m = "set_page_data (fst r) (pe_data e) (snd r)"
  have n: "m_pages m ?k = None" "unat ?k < 2 ^ 20" using Cons.prems(4) by auto
  note lp = load_page_inv [OF Cons.prems(1,2) n, where d = "pe_data e", folded r_def]
  have fresh: "q \<noteq> fst r" if "m_pages m k = Some q" for k q
    using Cons.prems(1) that by (auto simp: mem_inv_def mem_wf_def r_def alloc_page_def Let_def)
  have ih: "\<exists>m'. load_pages (Suc i) es ?m = Inr m' \<and> mem_inv K m' \<and> unhashed m' \<and>
    (\<forall>k. map_option (\<lambda>p. cp_data (m_heap m' p)) (m_pages m' k) =
       (case map_of (map (\<lambda>e. (pe_index e, pe_data e)) es) k of
          Some d \<Rightarrow> Some d | None \<Rightarrow> map_option (\<lambda>p. cp_data (m_heap ?m p)) (m_pages ?m k)))"
    using Cons.prems(3,4) lp(3) by (intro Cons.IH lp(1,2)) (auto simp: image_iff)
  have step: "load_pages i (e # es) m = load_pages (Suc i) es ?m"
    using n by (simp add: r_def split: prod.split)
  have nin: "map_of (map (\<lambda>e. (pe_index e, pe_data e)) es) ?k = None"
    using Cons.prems(3) by (auto simp: map_of_eq_None_iff)
  have new: "map_option (\<lambda>p. cp_data (m_heap ?m p)) (m_pages ?m k) =
      (if k = ?k then Some (pe_data e) else map_option (\<lambda>p. cp_data (m_heap m p)) (m_pages m k))" for k
    using lp(3,4,5) fresh [of k] by (cases "m_pages m k") auto
  show ?case
    using ih nin unfolding step new by (auto split: option.splits if_splits)
qed simp

lemma flat_pages_cong:
  assumes "\<And>k. map_option (\<lambda>p. cp_data (m_heap m' p)) (m_pages m' k) =
      map_option (\<lambda>p. cp_data (m_heap m p)) (m_pages m k)"
  shows "flat m' = flat m"
proof
  fix a
  show "flat m' a = flat m a"
    using assms [of "of_nat (a div 4096)"] by (auto simp: flat_def split: option.split)
qed

lemma marshal_roundtrip:
  assumes small: "\<And>k. k \<in> dom (m_pages m) \<Longrightarrow> unat k < 2 ^ 20"
  shows "\<exists>m'. unmarshal_memory (marshal_memory m) = Inr m' \<and> mem_inv K m' \<and> flat m' = flat m \<and>
    dom (m_pages m') = dom (m_pages m)"
proof -
  let ?es = "marshal_memory m"
  let ?al = "map (\<lambda>e. (pe_index e, pe_data e)) ?es"
  have fin: "finite (dom (m_pages m))" by (rule finite_subset [OF subset_UNIV]) (rule finite)
  have idx: "map pe_index ?es = sorted_list_of_set (dom (m_pages m))"
    by (simp add: marshal_memory_def o_def)
  have al: "?al = map (\<lambda>k. (k, cp_data (m_heap m (the (m_pages m k))))) (sorted_list_of_set (dom (m_pages m)))"
    by (simp add: marshal_memory_def o_def)
  have mo: "map_of ?al k = map_option (\<lambda>p. cp_data (m_heap m p)) (m_pages m k)" for k
  proof (cases "m_pages m k")
    case None
    then have "k \<notin> fst ` set ?al" by (auto simp: al fin)
    then show ?thesis using None by (simp add: map_of_eq_None_iff)
  next
    case (Some p)
    then have "(k, cp_data (m_heap m p)) \<in> set ?al" by (force simp: al fin)
    moreover have "distinct (map fst ?al)" by (simp add: al o_def)
    ultimately show ?thesis using Some by (simp add: map_of_is_SomeI)
  qed
  have "\<exists>m'. load_pages 0 ?es new_memory = Inr m' \<and> mem_inv K m' \<and> unhashed m' \<and>
    (\<forall>k. map_option (\<lambda>p. cp_data (m_heap m' p)) (m_pages m' k) =
       (case map_of ?al k of Some d \<Rightarrow> Some d
        | None \<Rightarrow> map_option (\<lambda>p. cp_data (m_heap new_memory p)) (m_pages new_memory k)))"
  proof (rule load_pages_ok)
    show "distinct (map pe_index ?es)" by (simp add: idx)
    fix e assume "e \<in> set ?es"
    then have "pe_index e \<in> set (sorted_list_of_set (dom (m_pages m)))" by (metis idx imageI list.set_map)
    then show "unat (pe_index e) < 2 ^ 20 \<and> m_pages new_memory (pe_index e) = None"
      using small fin by (auto simp: new_memory_def)
  qed (simp_all add: mem_inv_new unhashed_new)
  then obtain m' where m': "load_pages 0 ?es new_memory = Inr m'" "mem_inv K m'" and
    raw: "\<And>k. map_option (\<lambda>p. cp_data (m_heap m' p)) (m_pages m' k) =
       (case map_of ?al k of Some d \<Rightarrow> Some d
        | None \<Rightarrow> map_option (\<lambda>p. cp_data (m_heap new_memory p)) (m_pages new_memory k))"
    by blast
  have same: "map_option (\<lambda>p. cp_data (m_heap m' p)) (m_pages m' k) =
        map_option (\<lambda>p. cp_data (m_heap m p)) (m_pages m k)" for k
    unfolding raw mo by (cases "m_pages m k") (simp_all add: new_memory_def)
  have "dom (m_pages m') = dom (m_pages m)"
    using same by (auto simp: dom_def) (metis option.map_disc_iff option.distinct(1) not_None_eq)+
  then show ?thesis using m' flat_pages_cong [OF same] by (auto simp: unmarshal_memory_def)
qed

end
