(* ===== verification/Mips_Memory_Props.thy ===== *)
theory Mips_Memory_Props
  imports Mips_Memory_IO
begin

text \<open>
  The properties of the emulator's memory, over every memory its operations can reach
  from the empty one or from a JSON snapshot.
\<close>

section \<open>Reachable memories\<close>

inductive mem_reach :: "(byte list \<Rightarrow> hash) \<Rightarrow> memory \<Rightarrow> bool" for K where
  fresh: "mem_reach K new_memory"
| loaded: "(\<And>e. e \<in> set es \<Longrightarrow> unat (pe_index e) < 2 ^ 20) \<Longrightarrow> unmarshal_memory es = Inr m \<Longrightarrow> mem_reach K m"
| set: "mem_reach K m \<Longrightarrow> set_memory m addr v = Inr m' \<Longrightarrow> mem_reach K m'"
| get: "mem_reach K m \<Longrightarrow> get_memory m addr = Inr (v, m') \<Longrightarrow> mem_reach K m'"
| root: "mem_reach K m \<Longrightarrow> mem_merkle_root K m = Inr (h, m') \<Longrightarrow> mem_reach K m'"
| range: "mem_reach K m \<Longrightarrow> unhashed m \<Longrightarrow> unat addr + length bs < 2 ^ 32 \<Longrightarrow> length bs + 1 < fuel \<Longrightarrow>
    set_memory_range bytes_reader fuel m addr bs = Some (Inr m') \<Longrightarrow> mem_reach K m'"
| proof_at: "mem_reach K m \<Longrightarrow> merkle_proof K m addr = Inr (p, m') \<Longrightarrow> mem_reach K m'"

lemma load_pages_distinct:
  "load_pages i es m = Inr m' \<Longrightarrow>
     distinct (map pe_index es) \<and> (\<forall>e \<in> set es. m_pages m (pe_index e) = None)"
proof (induction i es m rule: load_pages.induct)
  case (2 i e es m)
  obtain p m1 where a: "alloc_page m (pe_index e) = (p, m1)" by (cases "alloc_page m (pe_index e)")
  have n: "m_pages m (pe_index e) = None" using "2.prems" by (auto split: if_splits)
  then have "load_pages (Suc i) es (set_page_data p (pe_data e) m1) = Inr m'"
    using "2.prems" a by simp
  from "2.IH" [OF _ a [symmetric] refl this]
  have ih: "distinct (map pe_index es)"
    "\<forall>e' \<in> set es. m_pages (set_page_data p (pe_data e) m1) (pe_index e') = None" using n by auto
  have "m_pages (set_page_data p (pe_data e) m1) = (m_pages m)(pe_index e \<mapsto> p)"
    using a by (auto simp: alloc_page_def Let_def set_page_data_def heap_update_def)
  then show ?case using ih n by (auto split: if_splits)
qed simp

lemma unmarshal_inv:
  assumes "\<And>e. e \<in> set es \<Longrightarrow> unat (pe_index e) < 2 ^ 20" "unmarshal_memory es = Inr m"
  shows "mem_inv K m"
  using load_pages_ok [OF mem_inv_new unhashed_new, where K = K and es = es and i = 0] assms
    load_pages_distinct [of 0 es new_memory m]
  by (auto simp: unmarshal_memory_def new_memory_def)

lemma mem_reach_inv: "mem_reach K m \<Longrightarrow> mem_inv K m"
proof (induction rule: mem_reach.induct)
  case (loaded es m)
  then show ?case by (intro unmarshal_inv)
next
  case (set m addr v m')
  then show ?case using set_memory_ok [OF set.IH, of addr v] mem_unaligned(2) by (metis Inl_Inr_False Inr_inject)
next
  case (get m addr v m')
  then show ?case using get_memory_ok [OF get.IH, of addr] mem_unaligned(1)
    by (metis Inl_Inr_False Inr_inject prod.inject)
next
  case (root m h m')
  then show ?case using merkleizedE [OF root.IH, of 1]
    by (metis Inr_inject mem_merkle_root_def one_less_numeral_iff one_less_power order_refl
        prod.inject semiring_norm(76) zero_less_numeral)
next
  case (range m addr bs fuel m')
  then show ?case using set_memory_range_ok [OF range.IH range.hyps(2-4)] by auto
next
  case (proof_at m addr p m')
  then show ?case using merkle_proof_ok [OF proof_at.IH, of addr] by (metis Inr_inject prod.inject)
qed (rule mem_inv_new)

lemma mnode_1: "mnode K c 1 = mtree K (mleaf c) 27 1"
  by (simp add: mnode_def)

section \<open>Properties\<close>

text \<open>C3. Whatever writes, reads, proofs and roots came before, with ranges set only while no node is cached, \<^verbatim>\<open>MerkleRoot\<close> with all its
  caches returns the root of the plain 27-level hash tree over the flat 4 GiB contents,
  for any hash function, and changes no byte of the memory.\<close>

theorem merkle_root_correct:
  assumes "mem_reach K m"
  shows "\<exists>m'. mem_merkle_root K m = Inr (mtree K (mleaf (flat m)) 27 1, m') \<and> flat m' = flat m"
  using merkleizedE [OF mem_reach_inv [OF assms], of 1]
  by (simp add: mem_merkle_root_def mnode_1 flip: One_nat_def) (metis mnode_1)

theorem merkle_root_correct_witness:
  "\<forall>K. \<exists>m m'. set_memory new_memory 4096 7 = Inr m \<and>
     mem_merkle_root K m = Inr (mtree K (mleaf (flat m)) 27 1, m') \<and> flat m' = flat m"
proof -
  have "\<exists>m m'. set_memory new_memory 4096 7 = Inr m \<and>
     mem_merkle_root K m = Inr (mtree K (mleaf (flat m)) 27 1, m') \<and> flat m' = flat m"
    for K :: "byte list \<Rightarrow> hash"
  proof -
    obtain m where m: "set_memory new_memory 4096 7 = Inr m"
      using set_memory_ok [OF mem_inv_new, of 4096 7] by auto
    then show ?thesis using merkle_root_correct [OF mem_reach.set [OF mem_reach.fresh m]] by blast
  qed
  then show ?thesis by blast
qed

text \<open>C4. The proof \<^verbatim>\<open>MerkleProof\<close> returns for any address has 28 nodes, starts with the 32
  bytes of memory the address lies in, and the on-chain check (\<open>proof_root\<close>) of it gives
  exactly the root of the memory's tree.\<close>

theorem merkle_proof_verifies:
  assumes "mem_reach K m"
  shows "\<exists>pf m'. merkle_proof K m addr = Inr (concat pf, m') \<and> length pf = 28 \<and>
     hd pf = slice_of (flat m) (unat addr div 32 * 32) 32 \<and>
     proof_root K addr pf = mtree K (mleaf (flat m)) 27 1 \<and> flat m' = flat m"
  using merkle_proof_ok [OF mem_reach_inv [OF assms], of addr] mnode_1 by metis

theorem merkle_proof_verifies_witness:
  "\<forall>K. \<exists>m pf m'. set_memory new_memory 4096 7 = Inr m \<and> merkle_proof K m 4100 = Inr (concat pf, m') \<and>
     proof_root K 4100 pf = mtree K (mleaf (flat m)) 27 1"
proof -
  have "\<exists>m pf m'. set_memory new_memory 4096 7 = Inr m \<and> merkle_proof K m 4100 = Inr (concat pf, m') \<and>
     proof_root K 4100 pf = mtree K (mleaf (flat m)) 27 1"
    for K :: "byte list \<Rightarrow> hash"
  proof -
    obtain m where m: "set_memory new_memory 4096 7 = Inr m"
      using set_memory_ok [OF mem_inv_new, of 4096 7] by auto
    then show ?thesis
      using merkle_proof_verifies [OF mem_reach.set [OF mem_reach.fresh m], where addr = 4100] by blast
  qed
  then show ?thesis by blast
qed

text \<open>The memory is a word store: after any run of aligned \<^verbatim>\<open>SetMemory\<close> calls on a
  reachable memory, none of which panics, \<^verbatim>\<open>GetMemory\<close> of an aligned address returns the
  last value written there, or the old word where none was.\<close>

theorem memory_last_write_wins:
  assumes "mem_reach K m" and "\<And>w. w \<in> set ws \<Longrightarrow> fst w AND 3 = 0" and "a AND 3 = 0"
  shows "\<exists>m' m''. store_all set_memory m ws = Inr m' \<and>
    get_memory m' a = Inr (case map_of (rev ws) a of None \<Rightarrow> flat_word m a | Some v \<Rightarrow> v, m'')"
  using mem.store_all_ok [OF mem_reach_inv [OF assms(1)] assms(2)] assms(3) mem.load_ok [of K _ a]
  by metis

theorem memory_last_write_wins_witness:
  "\<exists>m' m''. store_all set_memory new_memory [(8, 1), (4096, 2), (8, 3)] = Inr m' \<and>
    get_memory m' 8 = Inr (3, m'')"
proof -
  have a: "w \<in> set [(8, 1), (4096, 2), (8, 3)] \<Longrightarrow> fst w AND 3 = 0" "8 AND 3 = (0 :: u32)"
    for w :: "u32 \<times> u32" by auto
  show ?thesis
    using memory_last_write_wins [OF mem_reach.fresh, where ws = "[(8, 1), (4096, 2), (8, 3)]" and a = 8, OF a(1) a(2)]
    by simp
qed

text \<open>Draining \<^verbatim>\<open>ReadMemoryRange(addr, count)\<close> returns, whatever buffer sizes the caller
  uses, exactly the \<open>count\<close> bytes of the flat memory from \<open>addr\<close> on, provided the range
  does not wrap around; the loop ends within \<open>count + 1\<close> reads.\<close>

theorem read_memory_range_correct:
  assumes "mem_reach K m" and "\<And>i. 0 < room i" and "unat addr + unat count < 2 ^ 32"
  shows "\<exists>m'. drain_reader room (unat count + 1) 0 m (read_memory_range addr count) =
    Some (Inr (slice_of (flat m) (unat addr) (unat count), m'))"
  using drain_reader_ok [of room, OF assms(2) mem_reach_inv [OF assms(1)], where r = "read_memory_range addr count"
      and fuel = "unat count + 1" and i = 0] assms(3)
  by (auto simp: read_memory_range_def simp del: drain_reader.simps)

theorem read_memory_range_correct_witness:
  "\<exists>m m'. set_memory new_memory 4092 7 = Inr m \<and>
    drain_reader (\<lambda>_. 512) 9 0 m (read_memory_range 4090 8) = Some (Inr (slice_of (flat m) 4090 8, m'))"
proof -
  obtain m where m: "set_memory new_memory 4092 7 = Inr m"
    using set_memory_ok [OF mem_inv_new, of 4092 7] by auto
  then show ?thesis
    using read_memory_range_correct [OF mem_reach.set [OF mem_reach.fresh m], where room = "\<lambda>_. 512" and addr = 4090 and count = 8] by auto
qed

text \<open>JSON round trip: loading the page list that \<^verbatim>\<open>MarshalJSON\<close> writes succeeds and gives
  a memory with the same pages and the same contents, whose root is therefore the same.\<close>

theorem memory_json_roundtrip:
  assumes "\<And>k. k \<in> dom (m_pages m) \<Longrightarrow> unat k < 2 ^ 20"
  shows "\<exists>m'. unmarshal_memory (marshal_memory m) = Inr m' \<and> flat m' = flat m \<and>
    dom (m_pages m') = dom (m_pages m) \<and>
    (\<exists>m''. mem_merkle_root K m' = Inr (mtree K (mleaf (flat m)) 27 1, m''))"
proof -
  obtain m' where m': "unmarshal_memory (marshal_memory m) = Inr m'" "mem_inv K m'" "flat m' = flat m"
    "dom (m_pages m') = dom (m_pages m)"
    using marshal_roundtrip [of m K] assms by blast
  then show ?thesis using merkleizedE [OF m'(2), of 1] mnode_1 unfolding mem_merkle_root_def
    by (metis one_less_numeral_iff one_less_power order_refl semiring_norm(76) zero_less_numeral)
qed

theorem memory_json_roundtrip_witness:
  "\<exists>m'. unmarshal_memory (marshal_memory (snd (alloc_page new_memory 5))) = Inr m' \<and>
     dom (m_pages m') = {5}"
proof -
  have d: "dom (m_pages (snd (alloc_page new_memory 5))) = {5}"
    by (simp add: alloc_page_def new_memory_def Let_def)
  then show ?thesis
    using memory_json_roundtrip [where m = "snd (alloc_page new_memory 5)" and K = id] by auto
qed

lemma write_bytes_nil [simp]: "write_bytes c a [] = c"
  by (rule ext) (auto simp: write_bytes_def)

lemma range_chunk_present:
  assumes wf: "mem_wf m" and p: "m_pages m (drop_bit 12 addr) = Some p"
    and rd: "rd s (4096 - unat addr mod 4096) = (dat, err, s')" "length dat \<le> 4096 - unat addr mod 4096"
  obtains m' where "range_chunk rd m addr s = Inr (length dat, err, s', m')" "mem_wf m'"
    "m_pages m' = m_pages m" "m_nodes m' = m_nodes m"
    "flat m' = write_bytes (flat m) (unat addr) dat"
proof -
  obtain m1 where m1: "page_lookup m (drop_bit 12 addr) = ((Some p, True), m1)"
    "same_tables m m1" "mem_wf m1"
    using page_lookup_wf [OF wf page_index_less [of addr]] p by auto
  let ?m2 = "heap_update p (page_invalidate_full (m_heap m1 p)) m1"
  have wf2: "mem_wf ?m2" using m1(3) by (simp add: mem_wf_def heap_update_def)
  have f2: "flat ?m2 = flat m1"
    by (intro ext) (auto simp: flat_def heap_update_def page_invalidate_full_def split: option.split)
  have p2: "m_pages ?m2 (drop_bit 12 addr) = Some p"
    using m1(2) p by (simp add: heap_update_def same_tables_def)
  have "unat addr mod 4096 < 4096" by simp
  then have r: "unat addr mod 4096 + length dat \<le> 4096" using rd(2) by linarith
  have wf3: "mem_wf (write_page p (unat addr mod 4096) dat ?m2)"
    using wf2 by (simp add: mem_wf_def write_page_def heap_update_def)
  have f3: "flat (write_page p (unat addr mod 4096) dat ?m2) = write_bytes (flat m) (unat addr) dat"
    using write_page_flat [OF wf2 page_index_less p2 r] f2 same_tables_flat [OF m1(2)]
    by (simp flip: addr_split)
  have "m_pages (write_page p (unat addr mod 4096) dat ?m2) = m_pages m"
    "m_nodes (write_page p (unat addr mod 4096) dat ?m2) = m_nodes m"
    using m1(2) by (simp_all add: same_tables_def write_page_def heap_update_def)
  with wf3 f3 show ?thesis using that m1(1) rd(1) by (simp add: range_chunk_def unat_page_addr)
qed

lemma root_cached:
  assumes inv: "mem_inv K m" and p: "m_pages m k = Some p" "unat k < 2 ^ 20"
    and r: "mem_merkle_root K m = Inr (r, m1)"
  shows "m_nodes m1 1 = Some (Some r)"
proof -
  have "anc 1 (2 ^ 20 + unat k)" by (rule anc_1) simp
  then have "m_nodes m 1 \<noteq> None"
    using inv p unfolding mem_inv_def absent_inv_def by fastforce
  then show ?thesis using r
    by (auto simp: mem_merkle_root_def mem_merkleize_subtree.simps [of K m "Suc 0"] len64.simps
        Let_def rbind_eq_Inr split: option.splits prod.splits)
qed

text \<open>\<^verbatim>\<open>SetMemoryRange\<close> leaves a stale root behind: when the root of a memory has been
  computed and bytes inside one present page are then written with it, the contents
  change, but the next \<^verbatim>\<open>MerkleRoot\<close> still returns the root of the old contents.\<close>

theorem set_memory_range_stale_root:
  assumes "mem_reach K m" and "mem_merkle_root K m = Inr (r, m1)" and "m_pages m (drop_bit 12 addr) = Some p"
    and "bs \<noteq> []" and "unat addr mod 4096 + length bs < 4096"
  shows "\<exists>m2. set_memory_range bytes_reader 2 m1 addr bs = Some (Inr m2) \<and>
    flat m2 = write_bytes (flat m) (unat addr) bs \<and> mem_merkle_root K m2 = Inr (r, m2)"
proof -
  have m1: "m_nodes m1 1 = Some (Some r)" "mem_wf m1" "m_pages m1 = m_pages m" "flat m1 = flat m"
    using root_cached [OF mem_reach_inv [OF assms(1)] assms(3) page_index_less assms(2)]
      mem_merkleize_subtree_eq [OF mem_reach_inv [OF assms(1)], of 1] assms(2) same_data_flat
    by (auto simp: mem_merkle_root_def merkleized_def mem_inv_def same_data_def)
  have a: "unat (addr + of_nat (length bs)) = unat addr + length bs"
    "drop_bit 12 (addr + of_nat (length bs)) = drop_bit 12 addr"
  proof -
    define q x where "q = unat addr div 4096" and "x = unat addr mod 4096"
    have u: "unat addr = q * 4096 + x" "q < 2 ^ 20" "x + length bs < 4096"
      using assms(5) unat_lt [of addr] by (simp_all add: q_def x_def)
    then have le: "unat addr + length bs < 2 ^ 32" by simp
    then have "unat (of_nat (length bs) :: u32) = length bs" by (simp add: unat_of_nat)
    then show ua: "unat (addr + of_nat (length bs)) = unat addr + length bs"
      using le by (simp add: unat_word_ariths(1))
    have "(unat addr + length bs) div 4096 = q" unfolding u(1) using u(3) by simp
    then have "unat (drop_bit 12 (addr + of_nat (length bs))) = unat (drop_bit 12 addr)"
      by (simp only: unat_page_index ua q_def)
    then show "drop_bit 12 (addr + of_nat (length bs)) = drop_bit 12 addr" by (simp only: word_unat_eq_iff)
  qed
  have rd: "bytes_reader bs (4096 - unat addr mod 4096) = (bs, None, [])"
    using assms(4,5) by (simp add: bytes_reader_def)
  obtain m2 where m2: "range_chunk bytes_reader m1 addr bs = Inr (length bs, None, [], m2)" "mem_wf m2"
    "m_pages m2 = m_pages m" "m_nodes m2 1 = Some (Some r)"
    "flat m2 = write_bytes (flat m) (unat addr) bs"
    by (rule range_chunk_present [where rd = bytes_reader, OF m1(2) assms(3) [folded m1(3)], OF rd])
      (use assms(5) m1 in auto)
  have rd2: "bytes_reader [] (4096 - unat (addr + of_nat (length bs)) mod 4096) = ([], Some Eof, [])"
    by (simp add: bytes_reader_def)
  obtain m3 where m3: "range_chunk bytes_reader m2 (addr + of_nat (length bs)) [] = Inr (0, Some Eof, [], m3)"
    "m_nodes m3 1 = Some (Some r)" "flat m3 = write_bytes (flat m) (unat addr) bs"
    by (rule range_chunk_present [where rd = bytes_reader and p = p, OF m2(2) _ rd2])
      (use m2(3-5) assms(3) a(2) in \<open>auto simp: write_bytes_nil\<close>)
  then have "set_memory_range bytes_reader 2 m1 addr bs = Some (Inr m3)"
    using m2(1) by (simp add: numeral_2_eq_2)
  moreover have "mem_merkle_root K m3 = Inr (r, m3)"
    using m3(2) by (simp add: mem_merkle_root_def mem_merkleize_subtree.simps [of K m3 "Suc 0"] len64.simps)
  ultimately show ?thesis using m3(3) by blast
qed

theorem set_memory_range_stale_root_witness:
  "\<forall>K. \<exists>m r m1 m2. set_memory new_memory 4096 7 = Inr m \<and> mem_merkle_root K m = Inr (r, m1) \<and>
     set_memory_range bytes_reader 2 m1 4100 [1, 2] = Some (Inr m2) \<and>
     flat m2 = write_bytes (flat m) 4100 [1, 2] \<and> mem_merkle_root K m2 = Inr (r, m2)"
proof -
  have "\<exists>m r m1 m2. set_memory new_memory 4096 7 = Inr m \<and> mem_merkle_root K m = Inr (r, m1) \<and>
     set_memory_range bytes_reader 2 m1 4100 [1, 2] = Some (Inr m2) \<and>
     flat m2 = write_bytes (flat m) 4100 [1, 2] \<and> mem_merkle_root K m2 = Inr (r, m2)"
    for K :: "byte list \<Rightarrow> hash"
  proof -
    obtain m where m: "set_memory new_memory 4096 7 = Inr m" "mem_inv K m"
      using set_memory_ok [OF mem_inv_new, of 4096 7] by auto
    have p: "m_pages m 1 = Some 0"
      using m(1) by (auto simp: set_memory_def new_memory_def page_lookup_def alloc_page_def Let_def
          write_page_def heap_update_def)
    obtain r m1 where r: "mem_merkle_root K m = Inr (r, m1)"
      unfolding mem_merkle_root_def by (rule merkleizedE [OF m(2), of 1]) simp_all
    show ?thesis
      using set_memory_range_stale_root [OF mem_reach.set [OF mem_reach.fresh m(1)] r, where addr = 4100
          and p = 0 and bs = "[1, 2]"] p m(1) r by auto
  qed
  then show ?thesis by blast
qed

end
