(* ===== verification/Mips_State.thy ===== *)
theory Mips_State
  imports Mips_Memory_IO
begin

text \<open>
  The state of the MIPS virtual machine and its witness (\<^verbatim>\<open>cannon/mipsevm/state.go\<close>,
  \<^verbatim>\<open>witness.go\<close>): the 226-byte encoding the dispute game commits to, the state hash
  with the VM status in its first byte, and a decoder that reads the fields back from the
  offsets \<^verbatim>\<open>MIPS.sol\<close> uses.
\<close>

section \<open>State\<close>

record vm_state =
  vs_mem :: memory
  vs_key :: hash
  vs_offset :: u32
  vs_pc :: u32
  vs_next_pc :: u32
  vs_lo :: u32
  vs_hi :: u32
  vs_heap :: u32
  vs_exit_code :: u8
  vs_exited :: bool
  vs_step :: u64
  vs_regs :: "u32 list"
  vs_last_hint :: "byte list"

definition vm_status :: "bool \<Rightarrow> u8 \<Rightarrow> u8" where
  "vm_status exited exitCode =
     (if \<not> exited then 3 else if exitCode = 0 then 0 else if exitCode = 1 then 1 else 2)"

definition VMStatus :: "vm_state \<Rightarrow> u8" where
  "VMStatus s = vm_status (vs_exited s) (vs_exit_code s)"

definition encode_fields :: "hash \<Rightarrow> vm_state \<Rightarrow> byte list" where
  "encode_fields memRoot s =
     memRoot @ vs_key s @ put_u32 (vs_offset s) @ put_u32 (vs_pc s) @ put_u32 (vs_next_pc s) @
     put_u32 (vs_lo s) @ put_u32 (vs_hi s) @ put_u32 (vs_heap s) @ [vs_exit_code s] @
     [if vs_exited s then 1 else 0] @ put_u64 (vs_step s) @ concat (map put_u32 (vs_regs s))"

definition encode_witness ::
  "(byte list \<Rightarrow> hash) \<Rightarrow> vm_state \<Rightarrow> vm_panic + byte list \<times> vm_state" where
  "encode_witness K s =
     rbind (mem_merkle_root K (vs_mem s)) (\<lambda>(memRoot, m).
       Inr (encode_fields memRoot s, s\<lparr>vs_mem := m\<rparr>))"

definition state_hash :: "(byte list \<Rightarrow> hash) \<Rightarrow> byte list \<Rightarrow> vm_panic + hash" where
  "state_hash K sw =
     (if length sw \<noteq> 226 then Inl (InvalidWitnessLength (length sw))
      else let h = K sw; offset = 32 * 2 + 4 * 6;
               status = vm_status (sw ! (offset + 1) = 1) (sw ! offset)
           in Inr (h[0 := status]))"

section \<open>Step witnesses\<close>

record step_witness =
  sw_state :: "byte list"
  sw_mem_proof :: "byte list"
  sw_preimage_key :: hash
  sw_preimage_value :: "byte list"
  sw_preimage_offset :: u32

definition has_preimage :: "step_witness \<Rightarrow> bool" where
  "has_preimage wit \<longleftrightarrow> sw_preimage_key wit \<noteq> zero_hash32"

section \<open>Well-formed states\<close>

text \<open>Go's fixed-size arrays: 32 registers, 32-byte keys.\<close>

definition vm_wf :: "vm_state \<Rightarrow> bool" where
  "vm_wf s \<longleftrightarrow> length (vs_regs s) = 32 \<and> length (vs_key s) = 32"

section \<open>The witness layout\<close>

text \<open>
  The fields as the on-chain VM reads them: at fixed offsets of the encoding.
\<close>

definition sub_bytes :: "byte list \<Rightarrow> nat \<Rightarrow> nat \<Rightarrow> byte list" where
  "sub_bytes bs i n = take n (drop i bs)"

definition decode_witness :: "byte list \<Rightarrow> hash \<times> vm_state \<Rightarrow> hash \<times> vm_state" where
  "decode_witness bs = (\<lambda>(_, s). (sub_bytes bs 0 32,
     s\<lparr>vs_key := sub_bytes bs 32 32, vs_offset := get_u32 (sub_bytes bs 64 4),
       vs_pc := get_u32 (sub_bytes bs 68 4), vs_next_pc := get_u32 (sub_bytes bs 72 4),
       vs_lo := get_u32 (sub_bytes bs 76 4), vs_hi := get_u32 (sub_bytes bs 80 4),
       vs_heap := get_u32 (sub_bytes bs 84 4), vs_exit_code := bs ! 88,
       vs_exited := (bs ! 89 = 1), vs_step := get_u64 (sub_bytes bs 90 8),
       vs_regs := map (\<lambda>i. get_u32 (sub_bytes bs (98 + 4 * i) 4)) [0..<32]\<rparr>))"

lemma concat_put_u32_length [simp]: "length (concat (map put_u32 rs)) = 4 * length rs"
  by (induction rs) auto

lemma sub_bytes_regs:
  "i < length rs \<Longrightarrow> sub_bytes (concat (map put_u32 rs)) (4 * i) 4 = put_u32 (rs ! i)"
proof (induction rs arbitrary: i)
  case (Cons r rs)
  then show ?case by (cases i) (auto simp: sub_bytes_def)
qed simp

lemma sub_bytes_skip [simp]: "length xs \<le> i \<Longrightarrow> sub_bytes (xs @ ys) i n = sub_bytes ys (i - length xs) n"
  by (simp add: sub_bytes_def)

lemma sub_bytes_here [simp]: "length xs = n \<Longrightarrow> sub_bytes (xs @ ys) 0 n = xs"
  by (simp add: sub_bytes_def)

lemma sub_bytes_Cons [simp]: "0 < i \<Longrightarrow> sub_bytes (x # ys) i n = sub_bytes ys (i - 1) n"
  by (cases i) (simp_all add: sub_bytes_def)

lemma encode_fields_length:
  "vm_wf s \<Longrightarrow> length root = 32 \<Longrightarrow> length (encode_fields root s) = 226"
  by (simp add: encode_fields_def vm_wf_def)

lemma encode_fields_split:
  assumes "vm_wf s" "length root = 32"
  shows "decode_witness (encode_fields root s) (root', s0) =
    (root, s\<lparr>vs_mem := vs_mem s0, vs_last_hint := vs_last_hint s0\<rparr>)"
proof -
  have l: "length (vs_regs s) = 32" "length (vs_key s) = 32" using assms(1) by (simp_all add: vm_wf_def)
  have regs: "map (\<lambda>i. get_u32 (sub_bytes (encode_fields root s) (98 + 4 * i) 4)) [0..<32] = vs_regs s"
    using l assms(2) by (intro nth_equalityI) (simp_all add: encode_fields_def sub_bytes_regs)
  have ec: "encode_fields root s ! 88 = vs_exit_code s"
    "encode_fields root s ! 89 = (if vs_exited s then 1 else 0)"
    using l assms(2) by (simp_all add: encode_fields_def nth_append)
  have ks: "sub_bytes (encode_fields root s) 0 32 = root" "sub_bytes (encode_fields root s) 32 32 = vs_key s"
    using l assms(2) by (simp_all add: encode_fields_def)
  have us: "sub_bytes (encode_fields root s) 64 4 = put_u32 (vs_offset s)"
    "sub_bytes (encode_fields root s) 68 4 = put_u32 (vs_pc s)"
    "sub_bytes (encode_fields root s) 72 4 = put_u32 (vs_next_pc s)"
    "sub_bytes (encode_fields root s) 76 4 = put_u32 (vs_lo s)"
    "sub_bytes (encode_fields root s) 80 4 = put_u32 (vs_hi s)"
    "sub_bytes (encode_fields root s) 84 4 = put_u32 (vs_heap s)"
    "sub_bytes (encode_fields root s) 90 8 = put_u64 (vs_step s)"
    using l assms(2) by (simp_all add: encode_fields_def sub_bytes_def)
  show ?thesis by (simp add: decode_witness_def regs ec ks us)
qed

end
