(* ===== verification/Mips_Exec.thy ===== *)
theory Mips_Exec
  imports Mips_State "HOL-Library.Signed_Division"
begin

text \<open>
  The arithmetic of the MIPS virtual machine (\<^verbatim>\<open>cannon/mipsevm/mips.go\<close>, \<^verbatim>\<open>execute\<close> and
  \<^verbatim>\<open>SE\<close>), one branch per case of the two switches, on 32-bit words with Go's shifts (a
  count of 32 or more gives 0).
\<close>

section \<open>Definitions\<close>

definition shl :: "u32 \<Rightarrow> u32 \<Rightarrow> u32" where "shl x n = push_bit (unat n) x"
definition shr :: "u32 \<Rightarrow> u32 \<Rightarrow> u32" where "shr x n = drop_bit (unat n) x"

definition SE :: "u32 \<Rightarrow> u32 \<Rightarrow> u32" where
  "SE dat idx =
     (let isSigned = (shr dat (idx - 1) \<noteq> 0);
          signed = shl (shl 1 (32 - idx) - 1) idx;
          mask = shl 1 idx - 1
      in if isSigned then (dat AND mask) OR signed else dat AND mask)"

text \<open>The counting loop of \<^verbatim>\<open>clo\<close> and \<^verbatim>\<open>clz\<close>.\<close>

definition top_bit :: "u32 \<Rightarrow> bool" where
  "top_bit rs \<longleftrightarrow> rs AND 0x80000000 \<noteq> 0"

lemma top_bit_iff: "top_bit rs \<longleftrightarrow> bit rs 31"
proof -
  have m: "(0x80000000 :: u32) = 2 ^ 31" by simp
  show ?thesis unfolding top_bit_def m and_exp_eq_0_iff_not_bit by simp
qed

lemma bit_shl_1: "bit (shl w 1) n \<longleftrightarrow> 1 \<le> n \<and> n < 32 \<and> bit w (n - 1)"
  by (simp only: shl_def unsigned_1 bit_push_bit_iff possible_bit_word) auto

lemma set_bits_shift:
  assumes "bit (w :: u32) 31"
  shows "card {n. bit (shl w 1) n} < card {n. bit w n}"
proof -
  have fin: "finite {n. bit w n}" by (rule finite_subset [of _ "{..<32}"]) (auto dest: bit_imp_le_length)
  have s: "{n. bit (shl w 1) n} \<subseteq> Suc ` ({n. bit w n} - {31})"
  proof
    fix n assume "n \<in> {n. bit (shl w 1) n}"
    then have n: "1 \<le> n" "bit w (n - 1)" "n < 32" by (simp_all add: bit_shl_1)
    then have "n = Suc (n - 1)" "n - 1 \<in> {n. bit w n} - {31}" by auto
    then show "n \<in> Suc ` ({n. bit w n} - {31})" by (rule image_eqI)
  qed
  have "card {n. bit (shl w 1) n} \<le> card ({n. bit w n} - {31})"
    using card_mono [OF _ s] fin card_image_le [of "{n. bit w n} - {31}" Suc] by fastforce
  also have "\<dots> < card {n. bit w n}" using fin assms by (intro psubset_card_mono) auto
  finally show ?thesis .
qed

function count_ones :: "u32 \<Rightarrow> u32 \<Rightarrow> u32" where
  "count_ones rs i = (if top_bit rs then count_ones (shl rs 1) (i + 1) else i)"
  by pat_completeness auto
termination
  by (relation "measure (\<lambda>(rs, i). card {n. bit rs n})") (auto simp: top_bit_iff set_bits_shift)

declare count_ones.simps [simp del]

definition opcode_of :: "u32 \<Rightarrow> u32" where "opcode_of insn = drop_bit 26 insn"
definition fun_of :: "u32 \<Rightarrow> u32" where "fun_of insn = insn AND 0x3f"
definition shamt_of :: "u32 \<Rightarrow> u32" where "shamt_of insn = drop_bit 6 insn AND 0x1F"

text \<open>The first half of \<^verbatim>\<open>execute\<close>: SPECIAL, and the immediate forms turned into it.\<close>

definition alu_fun :: "u32 \<Rightarrow> u32 \<Rightarrow> u32" where
  "alu_fun opcode fn =
     (if opcode = 8 then 0x20 else if opcode = 9 then 0x21 else if opcode = 0xA then 0x2A
      else if opcode = 0xB then 0x2B else if opcode = 0xC then 0x24 else if opcode = 0xD then 0x25
      else if opcode = 0xE then 0x26 else fn)"

definition execute_special :: "u32 \<Rightarrow> u32 \<Rightarrow> u32 \<Rightarrow> u32 \<Rightarrow> vm_panic + u32" where
  "execute_special fn insn rs rt =
     (if fn = 0x00 then Inr (shl rt (shamt_of insn))
      else if fn = 0x02 then Inr (shr rt (shamt_of insn))
      else if fn = 0x03 then Inr (SE (shr rt (shamt_of insn)) (32 - shamt_of insn))
      else if fn = 0x04 then Inr (shl rt (rs AND 0x1F))
      else if fn = 0x06 then Inr (shr rt (rs AND 0x1F))
      else if fn = 0x07 then Inr (SE (shr rt rs) (32 - rs))
      else if fn \<in> {0x08, 0x09, 0x0a, 0x0b, 0x0c, 0x0f, 0x10, 0x11, 0x12, 0x13,
                     0x18, 0x19, 0x1a, 0x1b} then Inr rs
      else if fn = 0x20 \<or> fn = 0x21 then Inr (rs + rt)
      else if fn = 0x22 \<or> fn = 0x23 then Inr (rs - rt)
      else if fn = 0x24 then Inr (rs AND rt)
      else if fn = 0x25 then Inr (rs OR rt)
      else if fn = 0x26 then Inr (rs XOR rt)
      else if fn = 0x27 then Inr (NOT (rs OR rt))
      else if fn = 0x2a then Inr (if rs <s rt then 1 else 0)
      else if fn = 0x2b then Inr (if rs < rt then 1 else 0)
      else Inl InvalidInstruction)"

definition execute_other :: "u32 \<Rightarrow> u32 \<Rightarrow> u32 \<Rightarrow> u32 \<Rightarrow> u32 \<Rightarrow> vm_panic + u32" where
  "execute_other opcode insn rs rt mem =
     (let b = 24 - (rs AND 3) * 8; l = (rs AND 3) * 8; h = 16 - (rs AND 2) * 8
      in if opcode = 0x1C then
           (let fn = fun_of insn
            in if fn = 0x2 then Inr (word_of_int (sint rs * sint rt))
               else if fn = 0x20 \<or> fn = 0x21 then
                 Inr (count_ones (if fn = 0x20 then NOT rs else rs) 0)
               else Inl InvalidInstruction)
         else if opcode = 0x0F then Inr (shl rt 16)
         else if opcode = 0x20 then Inr (SE (shr mem b AND 0xFF) 8)
         else if opcode = 0x21 then Inr (SE (shr mem h AND 0xFFFF) 16)
         else if opcode = 0x22 then Inr ((rt AND NOT (shl 0xFFFFFFFF l)) OR shl mem l)
         else if opcode = 0x23 then Inr mem
         else if opcode = 0x24 then Inr (shr mem b AND 0xFF)
         else if opcode = 0x25 then Inr (shr mem h AND 0xFFFF)
         else if opcode = 0x26 then Inr ((rt AND NOT (shr 0xFFFFFFFF b)) OR shr mem b)
         else if opcode = 0x28 then Inr ((mem AND (0xFFFFFFFF XOR shl 0xFF b)) OR shl (rt AND 0xFF) b)
         else if opcode = 0x29 then Inr ((mem AND (0xFFFFFFFF XOR shl 0xFFFF h)) OR shl (rt AND 0xFFFF) h)
         else if opcode = 0x2a then Inr ((mem AND NOT (shr 0xFFFFFFFF l)) OR shr rt l)
         else if opcode = 0x2b then Inr rt
         else if opcode = 0x2e then Inr ((mem AND NOT (shl 0xFFFFFFFF b)) OR shl rt b)
         else if opcode = 0x30 then Inr mem
         else if opcode = 0x38 then Inr rt
         else Inl InvalidInstruction)"

definition execute :: "u32 \<Rightarrow> u32 \<Rightarrow> u32 \<Rightarrow> u32 \<Rightarrow> vm_panic + u32" where
  "execute insn rs rt mem =
     (let opcode = opcode_of insn
      in if opcode = 0 \<or> (8 \<le> opcode \<and> opcode < 0xF)
         then execute_special (alu_fun opcode (fun_of insn)) insn rs rt
         else execute_other opcode insn rs rt mem)"

end
