(* ===== verification/Mips_Step.thy ===== *)
theory Mips_Step
  imports Mips_Exec
begin

text \<open>
  One instruction of the MIPS virtual machine (\<^verbatim>\<open>cannon/mipsevm/mips.go\<close>) and the
  instrumented step with its witness (\<^verbatim>\<open>instrumented.go\<close>). The pre-image oracle's
  \<^verbatim>\<open>GetPreimage\<close> is the parameter \<open>G\<close>; the hints sent to it and what is written to the two
  output streams are collected in the state. A panic ends the run and is the left value.
\<close>

section \<open>State\<close>

record inst_state =
  is_state :: vm_state
  is_stdout :: "byte list"
  is_stderr :: "byte list"
  is_hints :: "byte list list"
  is_last_access :: u32
  is_proof_enabled :: bool
  is_mem_proof :: "byte list"
  is_last_preimage :: "byte list"
  is_last_key :: hash
  is_last_offset :: u32

definition new_instrumented :: "vm_state \<Rightarrow> inst_state" where
  "new_instrumented s = \<lparr>is_state = s, is_stdout = [], is_stderr = [], is_hints = [],
     is_last_access = 0, is_proof_enabled = False, is_mem_proof = replicate (28 * 32) 0,
     is_last_preimage = [], is_last_key = zero_hash32, is_last_offset = 0\<rparr>"

definition reg :: "inst_state \<Rightarrow> u32 \<Rightarrow> u32" where
  "reg m i = vs_regs (is_state m) ! unat i"

definition set_reg :: "u32 \<Rightarrow> u32 \<Rightarrow> inst_state \<Rightarrow> inst_state" where
  "set_reg i v m = m\<lparr>is_state := (is_state m)\<lparr>vs_regs := (vs_regs (is_state m))[unat i := v]\<rparr>\<rparr>"

definition set_mem :: "memory \<Rightarrow> inst_state \<Rightarrow> inst_state" where
  "set_mem mm m = m\<lparr>is_state := (is_state m)\<lparr>vs_mem := mm\<rparr>\<rparr>"

definition set_pc :: "u32 \<Rightarrow> u32 \<Rightarrow> inst_state \<Rightarrow> inst_state" where
  "set_pc pc npc m = m\<lparr>is_state := (is_state m)\<lparr>vs_pc := pc, vs_next_pc := npc\<rparr>\<rparr>"

text \<open>\<^verbatim>\<open>PC = NextPC; NextPC = NextPC + 4\<close>.\<close>

definition advance_pc :: "inst_state \<Rightarrow> inst_state" where
  "advance_pc m = set_pc (vs_next_pc (is_state m)) (vs_next_pc (is_state m) + 4) m"

definition load_word :: "u32 \<Rightarrow> inst_state \<Rightarrow> vm_panic + u32 \<times> inst_state" where
  "load_word addr m = rbind (get_memory (vs_mem (is_state m)) addr) (\<lambda>(w, mm). Inr (w, set_mem mm m))"

definition store_word :: "u32 \<Rightarrow> u32 \<Rightarrow> inst_state \<Rightarrow> vm_panic + inst_state" where
  "store_word addr v m = rbind (set_memory (vs_mem (is_state m)) addr v) (\<lambda>mm. Inr (set_mem mm m))"

section \<open>Pre-images and memory accesses\<close>

definition read_preimage ::
  "(hash \<Rightarrow> byte list) \<Rightarrow> hash \<Rightarrow> u32 \<Rightarrow> inst_state \<Rightarrow> vm_panic + byte list \<times> u32 \<times> inst_state" where
  "read_preimage G key offset m =
     (let (preimage, m1) =
            (if key \<noteq> is_last_key m
             then let dat = G key; pre = put_u64 (of_nat (length dat)) @ dat
                  in (pre, m\<lparr>is_last_key := key, is_last_preimage := pre\<rparr>)
             else (is_last_preimage m, m));
          m2 = m1\<lparr>is_last_offset := offset\<rparr>
      in if length preimage < unat offset then Inl SliceBounds
         else let src = drop (unat offset) preimage
              in Inr (go_copy zero_hash32 src, of_nat (min 32 (length src)), m2))"

definition track_mem_access ::
  "(byte list \<Rightarrow> hash) \<Rightarrow> u32 \<Rightarrow> inst_state \<Rightarrow> vm_panic + inst_state" where
  "track_mem_access K effAddr m =
     (if is_proof_enabled m \<and> is_last_access m \<noteq> effAddr then
        if is_last_access m \<noteq> - 1 then Inl (UnexpectedMemAccess effAddr (is_last_access m))
        else rbind (merkle_proof K (vs_mem (is_state m)) effAddr) (\<lambda>(prf', mm).
               Inr (set_mem mm (m\<lparr>is_last_access := effAddr, is_mem_proof := prf'\<rparr>)))
      else Inr m)"

section \<open>System calls\<close>

text \<open>\<^verbatim>\<open>io.Copy\<close> and \<^verbatim>\<open>io.ReadAll\<close> of a memory range.\<close>

definition read_range :: "nat \<Rightarrow> u32 \<Rightarrow> u32 \<Rightarrow> inst_state \<Rightarrow> vm_panic + byte list \<times> inst_state" where
  "read_range room addr count m =
     (case drain_reader (\<lambda>_. room) (unat count + 1) 0 (vs_mem (is_state m)) (read_memory_range addr count) of
        None \<Rightarrow> Inl FuelExhausted
      | Some (Inl e) \<Rightarrow> Inl e
      | Some (Inr (dat, mm)) \<Rightarrow> Inr (dat, set_mem mm m))"

text \<open>
  The hint loop. \<^verbatim>\<open>LastHint[4:4+hintLen]\<close> and \<^verbatim>\<open>LastHint[4+hintLen:]\<close> with \<^verbatim>\<open>uint32\<close> bounds:
  the second panics unless \<open>4 + hintLen\<close> is at most the length, the first unless it is at
  least 4.
\<close>

function hint_loop :: "byte list \<Rightarrow> byte list list \<Rightarrow> vm_panic + byte list \<times> byte list list" where
  "hint_loop lastHint hints =
     (if length lastHint < 4 then Inr (lastHint, hints)
      else let hintLen = get_u32 (take 4 lastHint);
               high = 4 + hintLen
           in if (of_nat (length (drop 4 lastHint)) :: u32) \<le> hintLen
              then if high < 4 \<or> length lastHint < unat high then Inl SliceBounds
                   else hint_loop (drop (unat high) lastHint)
                          (hints @ [take (unat high - 4) (drop 4 lastHint)])
              else Inr (lastHint, hints))"
  by pat_completeness auto
termination
proof (relation "measure (\<lambda>(l, h). length l)", goal_cases)
  case (2 l h hl high)
  then have "4 \<le> high" and l: "unat high \<le> length l" using not_less by blast+
  then have "4 \<le> unat high" by (simp add: word_le_nat_alt)
  then have "length (drop (unat high) l) < length l" using l by simp
  then show ?case by simp
qed simp

declare hint_loop.simps [simp del]

definition sys_mmap :: "inst_state \<Rightarrow> u32 \<times> inst_state" where
  "sys_mmap m =
     (let a0 = reg m 4; a1 = reg m 5;
          sz = (if a1 AND 4095 \<noteq> 0 then a1 + (4096 - (a1 AND 4095)) else a1)
      in if a0 = 0
         then (vs_heap (is_state m), m\<lparr>is_state := (is_state m)\<lparr>vs_heap := vs_heap (is_state m) + sz\<rparr>\<rparr>)
         else (a0, m))"

text \<open>Reads and writes on the pre-image file descriptors, at most one word at a time.\<close>

definition preimage_len :: "u32 \<Rightarrow> u32 \<Rightarrow> u32 \<Rightarrow> u32" where
  "preimage_len a1 a2 datLen =
     (let space = 4 - (a1 AND 3);
          datLen = (if space < datLen then space else datLen)
      in if a2 < datLen then a2 else datLen)"

definition splice_word :: "u32 \<Rightarrow> u32 \<Rightarrow> byte list \<Rightarrow> u32" where
  "splice_word a1 mem dat =
     (let alignment = unat (a1 AND 3); outMem = put_u32 mem
      in get_u32 (take alignment outMem @ go_copy (drop alignment outMem) dat))"

definition preimage_read ::
  "(byte list \<Rightarrow> hash) \<Rightarrow> (hash \<Rightarrow> byte list) \<Rightarrow> u32 \<Rightarrow> u32 \<Rightarrow> inst_state \<Rightarrow> vm_panic + u32 \<times> inst_state" where
  "preimage_read K G a1 a2 m =
     rbind (track_mem_access K (a1 AND 0xFFFFFFFC) m) (\<lambda>m.
     rbind (load_word (a1 AND 0xFFFFFFFC) m) (\<lambda>(mem, m).
     rbind (read_preimage G (vs_key (is_state m)) (vs_offset (is_state m)) m) (\<lambda>(dat, datLen, m).
     let n = preimage_len a1 a2 datLen
     in rbind (store_word (a1 AND 0xFFFFFFFC) (splice_word a1 mem (take (unat n) dat)) m) (\<lambda>m.
        Inr (n, m\<lparr>is_state := (is_state m)\<lparr>vs_offset := vs_offset (is_state m) + n\<rparr>\<rparr>)))))"

definition shift_key :: "u32 \<Rightarrow> u32 \<Rightarrow> u32 \<Rightarrow> hash \<Rightarrow> hash" where
  "shift_key a1 a2 mem key =
     (let key = go_copy key (drop (unat a2) key)
      in take (32 - unat a2) key @
           go_copy (drop (32 - unat a2) key) (drop (unat (a1 AND 3)) (put_u32 mem)))"

definition preimage_write ::
  "(byte list \<Rightarrow> hash) \<Rightarrow> u32 \<Rightarrow> u32 \<Rightarrow> inst_state \<Rightarrow> vm_panic + u32 \<times> inst_state" where
  "preimage_write K a1 a2 m =
     rbind (track_mem_access K (a1 AND 0xFFFFFFFC) m) (\<lambda>m.
     rbind (load_word (a1 AND 0xFFFFFFFC) m) (\<lambda>(mem, m).
     let space = 4 - (a1 AND 3); a2 = (if space < a2 then space else a2)
     in Inr (a2, m\<lparr>is_state := (is_state m)\<lparr>
          vs_key := shift_key a1 a2 mem (vs_key (is_state m)), vs_offset := 0\<rparr>\<rparr>)))"

definition sys_read ::
  "(byte list \<Rightarrow> hash) \<Rightarrow> (hash \<Rightarrow> byte list) \<Rightarrow> inst_state \<Rightarrow> vm_panic + u32 \<times> u32 \<times> inst_state" where
  "sys_read K G m =
     (let a0 = reg m 4; a1 = reg m 5; a2 = reg m 6
      in if a0 = 0 then Inr (0, 0, m)
         else if a0 = 5 then rbind (preimage_read K G a1 a2 m) (\<lambda>(v0, m). Inr (v0, 0, m))
         else if a0 = 3 then Inr (a2, 0, m)
         else Inr (0xFFFFFFFF, 9, m))"

definition sys_write ::
  "(byte list \<Rightarrow> hash) \<Rightarrow> inst_state \<Rightarrow> vm_panic + u32 \<times> u32 \<times> inst_state" where
  "sys_write K m =
     (let a0 = reg m 4; a1 = reg m 5; a2 = reg m 6
      in if a0 = 1 then
           rbind (read_range 32768 a1 a2 m) (\<lambda>(dat, m). Inr (a2, 0, m\<lparr>is_stdout := is_stdout m @ dat\<rparr>))
         else if a0 = 2 then
           rbind (read_range 32768 a1 a2 m) (\<lambda>(dat, m). Inr (a2, 0, m\<lparr>is_stderr := is_stderr m @ dat\<rparr>))
         else if a0 = 4 then
           rbind (read_range 512 a1 a2 m) (\<lambda>(hintData, m).
           rbind (hint_loop (vs_last_hint (is_state m) @ hintData) (is_hints m)) (\<lambda>(rest, hints).
             Inr (a2, 0, m\<lparr>is_hints := hints, is_state := (is_state m)\<lparr>vs_last_hint := rest\<rparr>\<rparr>)))
         else if a0 = 6 then rbind (preimage_write K a1 a2 m) (\<lambda>(v0, m). Inr (v0, 0, m))
         else Inr (0xFFFFFFFF, 9, m))"

definition sys_fcntl :: "inst_state \<Rightarrow> u32 \<times> u32" where
  "sys_fcntl m =
     (let a0 = reg m 4; a1 = reg m 5
      in if a1 = 3 then
           if a0 \<in> {0, 5, 3} then (0, 0) else if a0 \<in> {1, 2, 6, 4} then (1, 0) else (0xFFFFFFFF, 9)
         else (0xFFFFFFFF, 0x16))"

definition sys_call ::
  "(byte list \<Rightarrow> hash) \<Rightarrow> (hash \<Rightarrow> byte list) \<Rightarrow> inst_state \<Rightarrow> vm_panic + u32 \<times> u32 \<times> inst_state" where
  "sys_call K G m =
     (let syscallNum = reg m 2
      in if syscallNum = 4090 then let (v0, m) = sys_mmap m in Inr (v0, 0, m)
         else if syscallNum = 4045 then Inr (0x40000000, 0, m)
         else if syscallNum = 4120 then Inr (1, 0, m)
         else if syscallNum = 4003 then sys_read K G m
         else if syscallNum = 4004 then sys_write K m
         else if syscallNum = 4055 then let (v0, v1) = sys_fcntl m in Inr (v0, v1, m)
         else Inr (0, 0, m))"

definition handle_syscall ::
  "(byte list \<Rightarrow> hash) \<Rightarrow> (hash \<Rightarrow> byte list) \<Rightarrow> inst_state \<Rightarrow> vm_panic + inst_state" where
  "handle_syscall K G m =
     (if reg m 2 = 4246
      then Inr (m\<lparr>is_state := (is_state m)\<lparr>vs_exited := True, vs_exit_code := ucast (reg m 4)\<rparr>\<rparr>)
      else rbind (sys_call K G m) (\<lambda>(v0, v1, m). Inr (advance_pc (set_reg 7 v1 (set_reg 2 v0 m)))))"

section \<open>Branches, jumps, registers\<close>

definition should_branch :: "u32 \<Rightarrow> u32 \<Rightarrow> u32 \<Rightarrow> u32 \<Rightarrow> bool" where
  "should_branch opcode insn rs rt =
     (if opcode = 4 \<or> opcode = 5 then (rs = rt \<and> opcode = 4) \<or> (rs \<noteq> rt \<and> opcode = 5)
      else if opcode = 6 then sint rs \<le> 0
      else if opcode = 7 then sint rs > 0
      else if opcode = 1 then
        let rtv = drop_bit 16 insn AND 0x1F
        in if rtv = 0 then sint rs < 0 else if rtv = 1 then sint rs \<ge> 0 else False
      else False)"

definition handle_branch :: "u32 \<Rightarrow> u32 \<Rightarrow> u32 \<Rightarrow> u32 \<Rightarrow> inst_state \<Rightarrow> vm_panic + inst_state" where
  "handle_branch opcode insn rtReg rs m =
     (let pc = vs_pc (is_state m); npc = vs_next_pc (is_state m)
      in if npc \<noteq> pc + 4 then Inl BranchInDelaySlot
         else if should_branch opcode insn rs (reg m rtReg)
         then Inr (set_pc npc (pc + 4 + shl (SE (insn AND 0xFFFF) 16) 2) m)
         else Inr (set_pc npc (npc + 4) m))"

definition set_hi_lo :: "u32 \<Rightarrow> u32 \<Rightarrow> inst_state \<Rightarrow> inst_state" where
  "set_hi_lo hi lo m = m\<lparr>is_state := (is_state m)\<lparr>vs_hi := hi, vs_lo := lo\<rparr>\<rparr>"

text \<open>Go's integer division truncates, panics for a zero divisor and wraps on overflow.\<close>

definition handle_hi_lo :: "u32 \<Rightarrow> u32 \<Rightarrow> u32 \<Rightarrow> u32 \<Rightarrow> inst_state \<Rightarrow> vm_panic + inst_state" where
  "handle_hi_lo fn rs rt storeReg m =
     (let hi = vs_hi (is_state m); lo = vs_lo (is_state m);
          finish = (\<lambda>val m. Inr (advance_pc (if storeReg \<noteq> 0 then set_reg storeReg val m else m)))
      in if fn = 0x10 then finish hi m
         else if fn = 0x11 then finish 0 (set_hi_lo rs lo m)
         else if fn = 0x12 then finish lo m
         else if fn = 0x13 then finish 0 (set_hi_lo hi rs m)
         else if fn = 0x18 then
           (let acc = (scast rs :: u64) * scast rt
            in finish 0 (set_hi_lo (ucast (drop_bit 32 acc)) (ucast acc) m))
         else if fn = 0x19 then
           (let acc = (ucast rs :: u64) * ucast rt
            in finish 0 (set_hi_lo (ucast (drop_bit 32 acc)) (ucast acc) m))
         else if fn = 0x1a then
           (if rt = 0 then Inl DivideByZero
            else finish 0 (set_hi_lo (word_of_int (sint rs smod sint rt)) (word_of_int (sint rs sdiv sint rt)) m))
         else if fn = 0x1b then
           (if rt = 0 then Inl DivideByZero
            else finish 0 (set_hi_lo (rs mod rt) (rs div rt) m))
         else finish 0 m)"

definition handle_jump :: "u32 \<Rightarrow> u32 \<Rightarrow> inst_state \<Rightarrow> vm_panic + inst_state" where
  "handle_jump linkReg dest m =
     (let pc = vs_pc (is_state m); npc = vs_next_pc (is_state m)
      in if npc \<noteq> pc + 4 then Inl JumpInDelaySlot
         else let m1 = set_pc npc dest m
              in Inr (if linkReg \<noteq> 0 then set_reg linkReg (pc + 8) m1 else m1))"

definition handle_rd :: "u32 \<Rightarrow> u32 \<Rightarrow> bool \<Rightarrow> inst_state \<Rightarrow> vm_panic + inst_state" where
  "handle_rd storeReg val conditional m =
     (if 32 \<le> storeReg then Inl InvalidRegister
      else Inr (advance_pc (if storeReg \<noteq> 0 \<and> conditional then set_reg storeReg val m else m)))"

section \<open>The instruction step\<close>

text \<open>The value of \<open>rt\<close> and the destination register, by instruction format.\<close>

definition operands :: "u32 \<Rightarrow> u32 \<Rightarrow> inst_state \<Rightarrow> u32 \<times> u32" where
  "operands opcode insn m =
     (let rtReg = drop_bit 16 insn AND 0x1F
      in if opcode = 0 \<or> opcode = 0x1c then (reg m rtReg, drop_bit 11 insn AND 0x1F)
         else if opcode < 0x20 then
           (if opcode = 0xC \<or> opcode = 0xD \<or> opcode = 0xe then (insn AND 0xFFFF, rtReg)
            else (SE (insn AND 0xFFFF) 16, rtReg))
         else if 0x28 \<le> opcode \<or> opcode = 0x22 \<or> opcode = 0x26 then (reg m rtReg, rtReg)
         else (0, rtReg))"

text \<open>
  The memory access of loads and stores: the new \<open>rs\<close> (the effective address), the word
  read, the store address (all ones when there is none) and the destination register.
\<close>

definition mem_phase :: "(byte list \<Rightarrow> hash) \<Rightarrow> u32 \<Rightarrow> u32 \<Rightarrow> u32 \<Rightarrow> u32 \<Rightarrow> inst_state \<Rightarrow>
    vm_panic + u32 \<times> u32 \<times> u32 \<times> u32 \<times> inst_state" where
  "mem_phase K opcode insn rs rdReg m =
     (if 0x20 \<le> opcode then
        let rs = rs + SE (insn AND 0xFFFF) 16; addr = rs AND 0xFFFFFFFC
        in rbind (track_mem_access K addr m) (\<lambda>m.
           rbind (load_word addr m) (\<lambda>(mem, m).
           if 0x28 \<le> opcode \<and> opcode \<noteq> 0x30 then Inr (rs, mem, addr, 0, m)
           else Inr (rs, mem, 0xFFFFFFFF, rdReg, m)))
      else Inr (rs, 0, 0xFFFFFFFF, rdReg, m))"

definition write_back :: "(byte list \<Rightarrow> hash) \<Rightarrow> u32 \<Rightarrow> u32 \<Rightarrow> u32 \<Rightarrow> u32 \<Rightarrow> u32 \<Rightarrow> inst_state \<Rightarrow>
    vm_panic + inst_state" where
  "write_back K opcode rtReg storeAddr val rdReg m =
     (let m = (if opcode = 0x38 \<and> rtReg \<noteq> 0 then set_reg rtReg 1 m else m)
      in rbind (if storeAddr \<noteq> 0xFFFFFFFF
                then rbind (track_mem_access K storeAddr m) (store_word storeAddr val)
                else Inr m)
           (handle_rd rdReg val True))"

definition special_phase :: "(byte list \<Rightarrow> hash) \<Rightarrow> (hash \<Rightarrow> byte list) \<Rightarrow> u32 \<Rightarrow> u32 \<Rightarrow> u32 \<Rightarrow> u32 \<Rightarrow>
    inst_state \<Rightarrow> (vm_panic + inst_state) option" where
  "special_phase K G fn rs rt rdReg m =
     (if fn = 8 \<or> fn = 9 then Some (handle_jump (if fn = 9 then rdReg else 0) rs m)
      else if fn = 0xa then Some (handle_rd rdReg rs (rt = 0) m)
      else if fn = 0xb then Some (handle_rd rdReg rs (rt \<noteq> 0) m)
      else if fn = 0xC then Some (handle_syscall K G m)
      else if 0x10 \<le> fn \<and> fn < 0x1c then Some (handle_hi_lo fn rs rt rdReg m)
      else None)"

definition alu_phase :: "(byte list \<Rightarrow> hash) \<Rightarrow> (hash \<Rightarrow> byte list) \<Rightarrow> u32 \<Rightarrow> u32 \<Rightarrow>
    u32 \<Rightarrow> u32 \<Rightarrow> u32 \<Rightarrow> u32 \<Rightarrow> inst_state \<Rightarrow> vm_panic + inst_state" where
  "alu_phase K G insn rt rs mem storeAddr rdReg m =
     (let opcode = opcode_of insn; fn = fun_of insn
      in rbind (execute insn rs rt mem) (\<lambda>val.
         case (if opcode = 0 \<and> 8 \<le> fn \<and> fn < 0x1c then special_phase K G fn rs rt rdReg m else None) of
           Some r \<Rightarrow> r
         | None \<Rightarrow> write_back K opcode (drop_bit 16 insn AND 0x1F) storeAddr val rdReg m))"

definition exec_insn :: "(byte list \<Rightarrow> hash) \<Rightarrow> (hash \<Rightarrow> byte list) \<Rightarrow> u32 \<Rightarrow> inst_state \<Rightarrow> vm_panic + inst_state" where
  "exec_insn K G insn m =
     (let opcode = opcode_of insn
      in if opcode = 2 \<or> opcode = 3 then
           handle_jump (if opcode = 3 then 31 else 0)
             ((vs_next_pc (is_state m) AND 0xF0000000) OR shl (insn AND 0x03FFFFFF) 2) m
         else
           let rs = reg m (drop_bit 21 insn AND 0x1F); (rt, rdReg) = operands opcode insn m
           in if (4 \<le> opcode \<and> opcode < 8) \<or> opcode = 1
              then handle_branch opcode insn (drop_bit 16 insn AND 0x1F) rs m
              else rbind (mem_phase K opcode insn rs rdReg m) (\<lambda>(rs, mem, storeAddr, rdReg, m).
                   alu_phase K G insn rt rs mem storeAddr rdReg m))"

definition mips_step :: "(byte list \<Rightarrow> hash) \<Rightarrow> (hash \<Rightarrow> byte list) \<Rightarrow> inst_state \<Rightarrow> vm_panic + inst_state" where
  "mips_step K G m =
     (if vs_exited (is_state m) then Inr m
      else let m = m\<lparr>is_state := (is_state m)\<lparr>vs_step := vs_step (is_state m) + 1\<rparr>\<rparr>
      in rbind (load_word (vs_pc (is_state m)) m) (\<lambda>(insn, m). exec_insn K G insn m))"

section \<open>The instrumented step\<close>

definition instrumented_step :: "(byte list \<Rightarrow> hash) \<Rightarrow> (hash \<Rightarrow> byte list) \<Rightarrow> bool \<Rightarrow> inst_state \<Rightarrow>
    vm_panic + step_witness option \<times> inst_state" where
  "instrumented_step K G proof m =
     (let m = m\<lparr>is_proof_enabled := proof, is_last_access := - 1, is_last_offset := - 1\<rparr>
      in if proof then
           rbind (merkle_proof K (vs_mem (is_state m)) (vs_pc (is_state m))) (\<lambda>(insnProof, mm).
           rbind (encode_witness K ((is_state m)\<lparr>vs_mem := mm\<rparr>)) (\<lambda>(enc, s).
           rbind (mips_step K G (m\<lparr>is_state := s\<rparr>)) (\<lambda>m.
           let wit = \<lparr>sw_state = enc, sw_mem_proof = insnProof @ is_mem_proof m,
                      sw_preimage_key = zero_hash32, sw_preimage_value = [], sw_preimage_offset = 0\<rparr>
           in Inr (Some (if is_last_offset m \<noteq> - 1
                         then wit\<lparr>sw_preimage_offset := is_last_offset m, sw_preimage_key := is_last_key m,
                                  sw_preimage_value := is_last_preimage m\<rparr>
                         else wit), m))))
         else rbind (mips_step K G m) (\<lambda>m. Inr (None, m)))"

end
