(* ===== verification/Mips_Alu.thy ===== *)
theory Mips_Alu
  imports Mips_Step
begin

text \<open>
  What the instructions compute: sign extension, arithmetic shifts, leading-bit counts,
  multiplication and division on the HI and LO registers, and the byte-wise meaning of
  the partial loads and stores on big-endian words.
\<close>

section \<open>Sign extension\<close>

lemma sint_word_of_int: "- (2 ^ 31) \<le> k \<Longrightarrow> k < 2 ^ 31 \<Longrightarrow> sint (word_of_int k :: u32) = k"
  using signed_take_bit_int_eq_self [of 31 k] by (simp add: signed_of_int)

lemma or_not_mask:
  fixes w :: u32
  assumes "take_bit n w = w"
  shows "w OR NOT (mask n) = w - 2 ^ n"
proof -
  have "w AND NOT (mask n) = 0"
    by (subst assms [symmetric]) (auto simp: bit_eq_iff bit_simps)
  then have "w OR NOT (mask n) = w + NOT (mask n)" by (simp add: disjunctive_add_eq_or)
  also have "\<dots> = w - 2 ^ n" by (simp add: not_eq_complement mask_eq_exp_minus_1)
  finally show ?thesis .
qed

lemma SE_eq:
  assumes n: "n = unat idx" "1 \<le> n" "n \<le> 32" and d: "unat dat < 2 ^ n"
  shows "SE dat idx = (if unat dat < 2 ^ (n - 1) then dat else dat - 2 ^ n)"
proof -
  have t: "take_bit n dat = dat"
    using d by (simp only: word_unat_eq_iff unsigned_take_bit_eq take_bit_nat_eq_self)
  have i1: "unat (idx - 1) = n - 1" using n by (simp add: unat_sub word_le_nat_alt)
  have i32: "unat (32 - idx) = 32 - n" using n by (simp add: unat_sub word_le_nat_alt)
  have signed: "shl (shl 1 (32 - idx) - 1) idx = NOT (mask n)"
    unfolding shl_def i32 n(1) [symmetric]
    by (rule bit_word_eqI) (auto simp: push_bit_eq_mult mask_eq_exp_minus_1 [symmetric] bit_simps
        simp flip: push_bit_eq_mult)
  have mask: "shl 1 idx - 1 = mask n"
    by (simp add: shl_def n(1) mask_eq_exp_minus_1 push_bit_eq_mult)
  have s: "shr dat (idx - 1) \<noteq> 0 \<longleftrightarrow> \<not> unat dat < 2 ^ (n - 1)"
  proof -
    have "unat (shr dat (idx - 1)) = unat dat div 2 ^ (n - 1)"
      unfolding shr_def i1 by (rule unat_drop_bit)
    then show ?thesis by (auto simp flip: unat_eq_0 simp: div_eq_0_iff)
  qed
  have m: "dat AND mask n = dat" using t by (simp add: take_bit_eq_mask)
  show ?thesis unfolding SE_def Let_def signed mask s m using or_not_mask [OF t] by simp
qed

lemma sint_SE:
  assumes n: "n = unat idx" "1 \<le> n" "n \<le> 32" and d: "unat dat < 2 ^ n"
  shows "sint (SE dat idx) = (if unat dat < 2 ^ (n - 1) then int (unat dat) else int (unat dat) - 2 ^ n)"
proof -
  have w: "dat = word_of_int (int (unat dat))" by simp
  have p: "(2::int) ^ n = 2 * 2 ^ (n - 1)" using n(2) by (simp flip: power_Suc)
  have b: "(2::int) ^ (n - 1) \<le> 2 ^ 31" using n(3) by (intro power_increasing) auto
  have d': "int (unat dat) < 2 ^ n" using d by (metis of_nat_less_iff of_nat_numeral of_nat_power)
  show ?thesis
  proof (cases "unat dat < 2 ^ (n - 1)")
    case True
    then have "int (unat dat) < 2 ^ (n - 1)" by (metis of_nat_less_iff of_nat_numeral of_nat_power)
    then have "sint (word_of_int (int (unat dat)) :: u32) = int (unat dat)"
      using b by (intro sint_word_of_int) linarith+
    then show ?thesis using True SE_eq [OF assms] by simp
  next
    case False
    then have g: "2 ^ (n - 1) \<le> int (unat dat)" by (metis not_less of_nat_le_iff of_nat_numeral of_nat_power)
    have "dat - 2 ^ n = word_of_int (int (unat dat) - 2 ^ n)" by (metis w of_int_power of_int_numeral wi_hom_sub word_of_int_2p)
    moreover have "sint (word_of_int (int (unat dat) - 2 ^ n) :: u32) = int (unat dat) - 2 ^ n"
      using b p g d' by (intro sint_word_of_int) linarith+
    ultimately show ?thesis using False SE_eq [OF assms] by simp
  qed
qed


section \<open>Arithmetic shifts\<close>

lemma sint_drop_bit_SE:
  assumes k: "k = unat n" "k < 32"
  shows "sint (SE (shr rt n) (32 - n)) = sint rt div 2 ^ k"
proof -
  have i: "unat (32 - n) = 32 - k" using k by (simp add: unat_sub word_le_nat_alt)
  have u: "unat (shr rt n) = unat rt div 2 ^ k" unfolding shr_def k(1) by (rule unat_drop_bit)
  have p: "(2::nat) ^ 32 = 2 ^ (32 - k) * 2 ^ k" using k(2) by (simp flip: power_add)
  have b: "unat (shr rt n) < 2 ^ (32 - k)"
    unfolding u using unat_lt [of rt] p by (simp add: less_mult_imp_div_less)
  have q: "(2::nat) ^ 31 = 2 ^ (32 - k - 1) * 2 ^ k" using k(2) by (simp flip: power_add)
  have c: "unat rt div 2 ^ k < 2 ^ (32 - k - 1) \<longleftrightarrow> unat rt < 2 ^ 31"
    unfolding q by (simp add: div_less_iff_less_mult)
  have s: "sint rt = (if unat rt < 2 ^ 31 then int (unat rt) else int (unat rt) - 2 ^ 32)"
  proof -
    have z: "(2::u32) ^ 32 = 0" by (simp add: exp_eq_zero_iff flip: mask_eq_exp_minus_1)
    have "SE rt 32 = rt" using SE_eq [of 32 32 rt] unat_lt [of rt] by (simp only: z) simp
    then show ?thesis using sint_SE [of 32 32 rt] unat_lt [of rt] by simp
  qed
  have P: "(2::int) ^ 32 = 2 ^ (32 - k) * 2 ^ k" using k(2) by (simp flip: power_add)
  have "(int (unat rt) - 2 ^ 32) div 2 ^ k = int (unat rt) div 2 ^ k - 2 ^ (32 - k)"
    unfolding P using div_mult_self1 [of "2 ^ k" "int (unat rt)" "- (2 ^ (32 - k))"] by simp
  then show ?thesis
    using sint_SE [OF i [symmetric] _ _ b] k(2) c s by (simp add: u zdiv_int)
qed

section \<open>Counting leading bits\<close>

lemma count_ones_spec:
  "unat i + n \<le> 32 \<Longrightarrow> n \<le> 32 \<Longrightarrow> (\<And>j. j < n \<Longrightarrow> bit rs (31 - j)) \<Longrightarrow> (n < 32 \<Longrightarrow> \<not> bit rs (31 - n)) \<Longrightarrow>
     count_ones rs i = i + of_nat n"
proof (induction n arbitrary: rs i)
  case 0
  then show ?case by (subst count_ones.simps) (simp add: top_bit_iff)
next
  case (Suc n)
  have t: "top_bit rs" using Suc.prems(3) [of 0] by (simp add: top_bit_iff)
  have ui: "unat (i + 1) = Suc (unat i)"
    using Suc.prems(1) by (simp add: unat_word_ariths(1))
  have "count_ones (shl rs 1) (i + 1) = (i + 1) + of_nat n"
  proof (rule Suc.IH)
    fix j assume "j < n"
    then have "j \<le> 30" "bit rs (31 - Suc j)" using Suc.prems(2) Suc.prems(3) [of "Suc j"] by auto
    then show "bit (shl rs 1) (31 - j)" unfolding bit_shl_1 by auto
  next
    assume "n < 32"
    then show "\<not> bit (shl rs 1) (31 - n)"
      using Suc.prems(4) unfolding bit_shl_1 by (cases "n = 31") simp_all
  qed (use Suc.prems ui in simp_all)
  then show ?case using t by (subst count_ones.simps) (simp add: algebra_simps)
qed


section \<open>Words as bytes\<close>

lemma put_u32_bytes:
  "put_u32 w = [ucast (drop_bit 24 w), ucast (drop_bit 16 w), ucast (drop_bit 8 w), ucast w]"
proof -
  have b: "(of_nat (unat w div 2 ^ n mod 256) :: byte) = ucast (drop_bit n w)" for n
    by (simp add: word_unat_eq_iff unat_of_nat unsigned_ucast_eq take_bit_eq_mod unat_drop_bit del: of_nat_mod)
  have four: "(4::nat) = Suc (Suc (Suc (Suc 0)))" by simp
  have d: "x div 256 div 256 = x div 2 ^ 16" "x div 2 ^ 16 div 256 = x div 2 ^ 24"
    "x div 256 = x div 2 ^ 8" "x = x div 2 ^ 0" for x :: nat
    by (simp_all flip: div_mult2_eq)
  have "put_u32 w = [of_nat (unat w div 2 ^ 24 mod 256), of_nat (unat w div 2 ^ 16 mod 256),
      of_nat (unat w div 2 ^ 8 mod 256), of_nat (unat w div 2 ^ 0 mod 256)]"
    unfolding put_u32_def four be_enc.simps d(1,2) by simp
  then show ?thesis unfolding b by simp
qed

lemma low_bits_cases:
  obtains "(rs :: u32) AND 3 = 0" "rs AND 2 = 0" | "rs AND 3 = 1" "rs AND 2 = 0"
  | "rs AND 3 = 2" "rs AND 2 = 2" | "rs AND 3 = 3" "rs AND 2 = 2"
proof -
  have a: "rs AND 2 = (rs AND 3) AND 2" by (simp add: and.assoc)
  have u: "unat (rs AND 3) = unat rs mod 4" using unat_and_mask [of rs 2] by (simp add: mask_eq_exp_minus_1)
  then have "unat (rs AND 3) < 4" by simp
  then have "unat (rs AND 3) = unat (0 :: u32) \<or> unat (rs AND 3) = unat (1 :: u32) \<or>
    unat (rs AND 3) = unat (2 :: u32) \<or> unat (rs AND 3) = unat (3 :: u32)" by auto
  then have "rs AND 3 = 0 \<or> rs AND 3 = 1 \<or> rs AND 3 = 2 \<or> rs AND 3 = 3"
    by (simp only: word_unat_eq_iff [symmetric])
  then have "rs AND 3 = 0 \<and> rs AND 2 = 0 \<or> rs AND 3 = 1 \<and> rs AND 2 = 0 \<or>
   rs AND 3 = 2 \<and> rs AND 2 = 2 \<or> rs AND 3 = 3 \<and> rs AND 2 = 2"
    unfolding a by (elim disjE) simp_all
  then show ?thesis using that by blast
qed

text \<open>The bitwise operations and shifts by whole bytes, byte by byte.\<close>

lemmas byte_bits = bit_and_iff bit_or_iff bit_xor_iff bit_not_iff bit_push_bit_iff bit_drop_bit_eq
  bit_unsigned_iff possible_bit_word

lemma put_u32_bitwise:
  "put_u32 (x AND y) = map2 (AND) (put_u32 x) (put_u32 y)"
  "put_u32 (x OR y) = map2 (OR) (put_u32 x) (put_u32 y)"
  "put_u32 (x XOR y) = map2 (XOR) (put_u32 x) (put_u32 y)"
  "put_u32 (NOT x) = map NOT (put_u32 x)"
  unfolding put_u32_bytes by (auto intro!: bit_word_eqI simp: byte_bits)

lemma put_u32_shl:
  "put_u32 (shl w 0) = put_u32 w"
  "put_u32 (shl w 8) = drop 1 (put_u32 w) @ [0]"
  "put_u32 (shl w 16) = drop 2 (put_u32 w) @ [0, 0]"
  "put_u32 (shl w 24) = drop 3 (put_u32 w) @ [0, 0, 0]"
  unfolding put_u32_bytes shl_def
  by (auto intro!: bit_word_eqI simp: byte_bits bit_simps)

lemma put_u32_shr:
  "put_u32 (shr w 0) = put_u32 w"
  "put_u32 (shr w 8) = 0 # take 3 (put_u32 w)"
  "put_u32 (shr w 16) = [0, 0] @ take 2 (put_u32 w)"
  "put_u32 (shr w 24) = [0, 0, 0] @ take 1 (put_u32 w)"
  unfolding put_u32_bytes shr_def
  by (auto intro!: bit_word_eqI simp: byte_bits bit_simps)

lemma put_u32_ones:
  "put_u32 0xFFFFFFFF = [0xFF, 0xFF, 0xFF, 0xFF]" "put_u32 0xFF = [0, 0, 0, 0xFF]"
  "put_u32 0xFFFF = [0, 0, 0xFF, 0xFF]"
  unfolding put_u32_bytes by simp_all

lemma byte_ones:
  "(b :: byte) AND 0xFF = b" "0xFF AND (b :: byte) = b" "NOT (0xFF :: byte) = 0" "NOT (0 :: byte) = 0xFF" "(- 256 :: byte) = 0"
proof -
  have f: "(0xFF :: byte) = - 1" by simp
  show "b AND 0xFF = b" "0xFF AND b = b" "NOT (0xFF :: byte) = 0" "NOT (0 :: byte) = 0xFF" "(- 256 :: byte) = 0"
    unfolding f by simp_all
qed

lemmas by_bytes = put_u32_bitwise put_u32_shl put_u32_shr put_u32_ones byte_ones

text \<open>
  The bytes a partial load leaves in the register, and a partial store in memory, as the
  MIPS manual draws them for a big-endian machine; \<open>k\<close> is the byte offset in the word.
\<close>

definition sign_fill :: "byte \<Rightarrow> byte" where
  "sign_fill b = (if bit b 7 then 0xFF else 0)"

definition load_bytes :: "u32 \<Rightarrow> nat \<Rightarrow> byte list \<Rightarrow> byte list \<Rightarrow> byte list" where
  "load_bytes opcode k mem rt =
     (let h = k div 2 * 2
      in if opcode = 0x20 then (let s = sign_fill (mem ! k) in [s, s, s, mem ! k])
         else if opcode = 0x21 then (let s = sign_fill (mem ! h) in [s, s, mem ! h, mem ! (h + 1)])
         else if opcode = 0x22 then drop k mem @ drop (4 - k) rt
         else if opcode = 0x24 then [0, 0, 0, mem ! k]
         else if opcode = 0x25 then [0, 0, mem ! h, mem ! (h + 1)]
         else if opcode = 0x26 then take (3 - k) rt @ take (k + 1) mem
         else mem)"

definition store_bytes :: "u32 \<Rightarrow> nat \<Rightarrow> byte list \<Rightarrow> byte list \<Rightarrow> byte list" where
  "store_bytes opcode k mem rt =
     (let h = k div 2 * 2
      in if opcode = 0x28 then mem[k := rt ! 3]
         else if opcode = 0x29 then mem[h := rt ! 2, h + 1 := rt ! 3]
         else if opcode = 0x2a then take k mem @ take (4 - k) rt
         else if opcode = 0x2e then drop (3 - k) rt @ drop (k + 1) mem
         else rt)"

lemma put_u32_cases: obtains a b c d where "put_u32 w = [a, b, c, d]"
  using put_u32_bytes by blast

lemma store_bytes_exec:
  assumes "opcode \<in> {0x28, 0x29, 0x2a, 0x2b, 0x2e, 0x38}"
  shows "\<exists>v. execute_other opcode insn rs rt mem = Inr v \<and>
    put_u32 v = store_bytes opcode (unat (rs AND 3)) (put_u32 mem) (put_u32 rt)"
proof -
  obtain a b c d where m: "put_u32 mem = [a, b, c, d]" by (rule put_u32_cases)
  obtain e f g h where r: "put_u32 rt = [e, f, g, h]" by (rule put_u32_cases)
  show ?thesis
  proof (cases rs rule: low_bits_cases)
    case 1
    show ?thesis using assms
      by (elim insertE emptyE) (simp_all add: execute_other_def store_bytes_def by_bytes m r 1)
  next
    case 2
    show ?thesis using assms
      by (elim insertE emptyE) (simp_all add: execute_other_def store_bytes_def by_bytes m r 2)
  next
    case 3
    show ?thesis using assms
      by (elim insertE emptyE) (simp_all add: execute_other_def store_bytes_def by_bytes m r 3)
  next
    case 4
    show ?thesis using assms
      by (elim insertE emptyE) (simp_all add: execute_other_def store_bytes_def by_bytes m r 4)
  qed
qed

lemma load_bytes_exec:
  assumes "opcode \<in> {0x22, 0x23, 0x24, 0x25, 0x26, 0x30}"
  shows "\<exists>v. execute_other opcode insn rs rt mem = Inr v \<and>
    put_u32 v = load_bytes opcode (unat (rs AND 3)) (put_u32 mem) (put_u32 rt)"
proof -
  obtain a b c d where m: "put_u32 mem = [a, b, c, d]" by (rule put_u32_cases)
  obtain e f g h where r: "put_u32 rt = [e, f, g, h]" by (rule put_u32_cases)
  show ?thesis
  proof (cases rs rule: low_bits_cases)
    case 1
    show ?thesis using assms
      by (elim insertE emptyE) (simp_all add: execute_other_def load_bytes_def by_bytes m r 1)
  next
    case 2
    show ?thesis using assms
      by (elim insertE emptyE) (simp_all add: execute_other_def load_bytes_def by_bytes m r 2)
  next
    case 3
    show ?thesis using assms
      by (elim insertE emptyE) (simp_all add: execute_other_def load_bytes_def by_bytes m r 3)
  next
    case 4
    show ?thesis using assms
      by (elim insertE emptyE) (simp_all add: execute_other_def load_bytes_def by_bytes m r 4)
  qed
qed

lemma bit_7: "bit (x :: byte) 7 \<longleftrightarrow> 128 \<le> unat x"
proof -
  have l: "unat x div 128 < 2" using unat_byte_less [of x] by (simp add: less_mult_imp_div_less)
  have "unat x div 128 = 0 \<longleftrightarrow> unat x < 128" by (simp add: div_eq_0_iff)
  then have "odd (unat x div 128) \<longleftrightarrow> 128 \<le> unat x" using l by (auto simp: less_2_cases_iff)
  moreover have "bit x 7 \<longleftrightarrow> odd (unat x div 128)"
    using bit_unsigned_iff [where 'a = nat, of x 7] by (simp add: bit_iff_odd [of "unat x"])
  ultimately show ?thesis by blast
qed

lemma unat_put_u32: "unat w = be_dec (put_u32 w)"
  using unat_lt [of w] by (simp add: put_u32_def be_dec_enc)

lemma be_dec_Cons: "be_dec [a, b, c, d] = ((unat a * 256 + unat b) * 256 + unat c) * 256 + unat d"
  by (simp add: be_dec_def)

lemma byte_or_ones: "(x :: byte) OR 255 = 255" "255 OR (x :: byte) = 255"
proof -
  have f: "(0xFF :: byte) = - 1" by simp
  show "x OR 255 = 255" "255 OR x = 255" unfolding f by simp_all
qed

lemma put_u32_high:
  assumes "take_bit n dat = dat" "put_u32 (NOT (mask n)) = hs"
  shows "put_u32 (dat - 2 ^ n) = map2 (OR) (put_u32 dat) hs"
  unfolding or_not_mask [OF assms(1), symmetric] put_u32_bitwise(2) assms(2) ..

lemma SE_byte:
  assumes a: "put_u32 dat = [0, 0, 0, x]"
  shows "put_u32 (SE dat 8) = [sign_fill x, sign_fill x, sign_fill x, x]"
proof -
  have u: "unat dat = unat x" unfolding unat_put_u32 [of dat] a be_dec_Cons by simp
  then have l: "unat dat < 2 ^ 8" using unat_byte_less [of x] by simp
  then have t: "take_bit 8 dat = dat"
    by (simp only: word_unat_eq_iff unsigned_take_bit_eq take_bit_nat_eq_self)
  have n: "put_u32 (NOT (mask 8)) = [0xFF, 0xFF, 0xFF, 0]"
    unfolding put_u32_bytes mask_eq_exp_minus_1 by simp
  have h: "put_u32 (dat - 2 ^ 8) = [0xFF, 0xFF, 0xFF, x]"
    unfolding put_u32_high [OF t n] a by simp
  have s: "SE dat 8 = (if unat dat < 2 ^ 7 then dat else dat - 2 ^ 8)" using SE_eq [of 8 8 dat] l by simp
  have c: "unat dat < 2 ^ 7 \<longleftrightarrow> \<not> bit x 7" unfolding u bit_7 by auto
  show ?thesis unfolding s c using h a by (simp only: sign_fill_def if_True if_False simp_thms split: if_split)
      simp
qed

lemma SE_half:
  assumes a: "put_u32 dat = [0, 0, y, x]"
  shows "put_u32 (SE dat 16) = [sign_fill y, sign_fill y, y, x]"
proof -
  have u: "unat dat = unat y * 256 + unat x" unfolding unat_put_u32 [of dat] a be_dec_Cons by simp
  have l: "unat dat < 2 ^ 16" using unat_byte_less [of x] unat_byte_less [of y] unfolding u by (simp; linarith)
  then have t: "take_bit 16 dat = dat"
    by (simp only: word_unat_eq_iff unsigned_take_bit_eq take_bit_nat_eq_self)
  have n: "put_u32 (NOT (mask 16)) = [0xFF, 0xFF, 0, 0]"
    unfolding put_u32_bytes mask_eq_exp_minus_1 by simp
  have h: "put_u32 (dat - 2 ^ 16) = [0xFF, 0xFF, y, x]"
    unfolding put_u32_high [OF t n] a by simp
  have s: "SE dat 16 = (if unat dat < 2 ^ 15 then dat else dat - 2 ^ 16)" using SE_eq [of 16 16 dat] l by simp
  have c: "unat dat < 2 ^ 15 \<longleftrightarrow> \<not> bit y 7"
  proof -
    have "unat y * 256 + unat x < 32768 \<longleftrightarrow> \<not> 128 \<le> unat y" using unat_byte_less [of x] by (simp; linarith)
    then show ?thesis unfolding u bit_7 by simp
  qed
  show ?thesis unfolding s c using h a by (simp only: sign_fill_def if_True if_False simp_thms split: if_split)
      simp
qed

lemma signed_load_bytes_exec:
  assumes "opcode \<in> {0x20, 0x21}"
  shows "\<exists>v. execute_other opcode insn rs rt mem = Inr v \<and>
    put_u32 v = load_bytes opcode (unat (rs AND 3)) (put_u32 mem) (put_u32 rt)"
proof -
  obtain a b c d where m: "put_u32 mem = [a, b, c, d]" by (rule put_u32_cases)
  show ?thesis
  proof (cases rs rule: low_bits_cases)
    case 1
    show ?thesis using assms
      by (elim insertE emptyE) (simp_all add: execute_other_def load_bytes_def by_bytes SE_byte SE_half Let_def m 1)
  next
    case 2
    show ?thesis using assms
      by (elim insertE emptyE) (simp_all add: execute_other_def load_bytes_def by_bytes SE_byte SE_half Let_def m 2)
  next
    case 3
    show ?thesis using assms
      by (elim insertE emptyE) (simp_all add: execute_other_def load_bytes_def by_bytes SE_byte SE_half Let_def m 3)
  next
    case 4
    show ?thesis using assms
      by (elim insertE emptyE) (simp_all add: execute_other_def load_bytes_def by_bytes SE_byte SE_half Let_def m 4)
  qed
qed

lemma execute_memory_op:
  "0x20 \<le> opcode_of insn \<Longrightarrow> execute insn rs rt mem = execute_other (opcode_of insn) insn rs rt mem"
  by (auto simp: execute_def Let_def word_le_nat_alt word_less_nat_alt)

lemma execute_load:
  assumes "opcode_of insn \<in> {0x20, 0x21, 0x22, 0x23, 0x24, 0x25, 0x26, 0x30}"
  shows "\<exists>v. execute insn rs rt mem = Inr v \<and>
    put_u32 v = load_bytes (opcode_of insn) (unat (rs AND 3)) (put_u32 mem) (put_u32 rt)"
proof -
  have "0x20 \<le> opcode_of insn" using assms by auto
  then show ?thesis unfolding execute_memory_op [OF \<open>0x20 \<le> opcode_of insn\<close>]
    using assms load_bytes_exec signed_load_bytes_exec by blast
qed

lemma execute_store:
  assumes "opcode_of insn \<in> {0x28, 0x29, 0x2a, 0x2b, 0x2e, 0x38}"
  shows "\<exists>v. execute insn rs rt mem = Inr v \<and>
    put_u32 v = store_bytes (opcode_of insn) (unat (rs AND 3)) (put_u32 mem) (put_u32 rt)"
proof -
  have "0x20 \<le> opcode_of insn" using assms by auto
  then show ?thesis unfolding execute_memory_op [OF \<open>0x20 \<le> opcode_of insn\<close>]
    using assms store_bytes_exec by blast
qed

section \<open>Unaligned words\<close>

definition word_at :: "(nat \<Rightarrow> byte) \<Rightarrow> nat \<Rightarrow> u32" where
  "word_at c a = get_u32 (slice_of c (a div 4 * 4) 4)"

lemma put_word_at: "put_u32 (word_at c a) = slice_of c (a div 4 * 4) 4"
  by (simp add: word_at_def put_get_u32 slice_of_def)

lemma slice_of_4: "slice_of c i 4 = [c i, c (i + 1), c (i + 2), c (i + 3)]"
  by (simp add: slice_of_def upt_rec numeral_eq_Suc)

lemma word_split_cases:
  obtains B k where "a = B + k" "a mod 4 = k" "a div 4 * 4 = (B :: nat)" "k \<in> {0, 1, 2, 3}"
    "(a + 3) mod 4 = (if k = 0 then 3 else k - 1)"
    "(a + 3) div 4 * 4 = (if k = 0 then B else B + 4)"
proof -
  define q where "q = a div 4"
  have e: "(p * 4 + r) mod 4 = r" "(p * 4 + r) div 4 = p" if "r < 4" for p r :: nat using that by simp_all
  have "a = q * 4 + a mod 4" "a mod 4 < 4" by (simp_all add: q_def)
  then consider "a = q * 4" | "a = q * 4 + 1" | "a = q * 4 + 2" | "a = q * 4 + 3" by linarith
  then show ?thesis
  proof cases
    case 1
    then show ?thesis using that [of "q * 4" 0] by simp
  next
    case 2
    have "a mod 4 = 1" "a div 4 = q" unfolding 2 by (rule e, simp)+
    moreover have s: "a + 3 = (q + 1) * 4 + 0" unfolding 2 by simp
    moreover have "(a + 3) mod 4 = 0" "(a + 3) div 4 = q + 1" unfolding s by (rule e, simp)+
    ultimately show ?thesis using that [of "q * 4" 1] 2 by simp
  next
    case 3
    have "a mod 4 = 2" "a div 4 = q" unfolding 3 by (rule e, simp)+
    moreover have s: "a + 3 = (q + 1) * 4 + 1" unfolding 3 by simp
    moreover have "(a + 3) mod 4 = 1" "(a + 3) div 4 = q + 1" unfolding s by (rule e, simp)+
    ultimately show ?thesis using that [of "q * 4" 2] 3 by simp
  next
    case 4
    have "a mod 4 = 3" "a div 4 = q" unfolding 4 by (rule e, simp)+
    moreover have s: "a + 3 = (q + 1) * 4 + 2" unfolding 4 by simp
    moreover have "(a + 3) mod 4 = 2" "(a + 3) div 4 = q + 1" unfolding s by (rule e, simp)+
    ultimately show ?thesis using that [of "q * 4" 3] 4 by simp
  qed
qed

lemma load_pair_bytes:
  assumes "length rt = 4"
  shows "load_bytes 0x26 ((a + 3) mod 4) (slice_of c ((a + 3) div 4 * 4) 4)
     (load_bytes 0x22 (a mod 4) (slice_of c (a div 4 * 4) 4) rt) = slice_of c a 4"
proof -
  obtain e f g h where rt: "rt = [e, f, g, h]"
    using assms by (auto simp: numeral_eq_Suc length_Suc_conv)
  obtain B k where B: "a = B + k" "a mod 4 = k" "a div 4 * 4 = B" "k \<in> {0, 1, 2, 3}"
    "(a + 3) mod 4 = (if k = 0 then 3 else k - 1)" "(a + 3) div 4 * 4 = (if k = 0 then B else B + 4)"
    by (rule word_split_cases)
  have n: "B + 3 = Suc (Suc (Suc B))" "B + 4 = Suc (Suc (Suc (Suc B)))" "B + 5 = Suc (Suc (Suc (Suc (Suc B))))"
    "B + 6 = Suc (Suc (Suc (Suc (Suc (Suc B)))))" by simp_all
  show ?thesis unfolding B(2,3,5,6) unfolding B(1) using B(4)
    by (elim insertE emptyE) (simp_all add: load_bytes_def slice_of_4 rt n)
qed

lemma slice_of_8:
  "slice_of d i 8 = [d i, d (i + 1), d (i + 2), d (i + 3), d (i + 4), d (i + 5), d (i + 6), d (i + 7)]"
  by (simp add: slice_of_def upt_rec numeral_eq_Suc)

lemma store_pair_bytes:
  assumes "length rt = 4" and k: "a mod 4 \<noteq> 0"
  shows "store_bytes 0x2a (a mod 4) (slice_of c (a div 4 * 4) 4) rt @
     store_bytes 0x2e ((a + 3) mod 4) (slice_of c ((a + 3) div 4 * 4) 4) rt =
     slice_of (write_bytes c a rt) (a div 4 * 4) 8"
proof -
  obtain e f g h where rt: "rt = [e, f, g, h]"
    using assms(1) by (auto simp: numeral_eq_Suc length_Suc_conv)
  obtain B k where B: "a = B + k" "a mod 4 = k" "a div 4 * 4 = B" "k \<in> {0, 1, 2, 3}"
    "(a + 3) mod 4 = (if k = 0 then 3 else k - 1)" "(a + 3) div 4 * 4 = (if k = 0 then B else B + 4)"
    by (rule word_split_cases)
  have w: "write_bytes c (B + k) rt (B + j) = (if k \<le> j \<and> j < k + 4 then rt ! (j - k) else c (B + j))" for j
    using assms(1) by (auto simp: write_bytes_def)
  have w8: "slice_of (write_bytes c (B + k) rt) B 8 =
    map (\<lambda>j. if k \<le> j \<and> j < k + 4 then rt ! (j - k) else c (B + j)) [0, 1, 2, 3, 4, 5, 6, 7]"
    unfolding slice_of_8 w using w [of 0] by auto
  have s4: "slice_of c (B + 4) 4 = map (\<lambda>j. c (B + j)) [4, 5, 6, 7]" "slice_of c B 4 = map (\<lambda>j. c (B + j)) [0, 1, 2, 3]"
    by (simp_all add: slice_of_4 add.commute)
  have "k = 1 \<or> k = 2 \<or> k = 3" using B(2,4) k by auto
  then show ?thesis unfolding B(2,3,5,6) unfolding B(1) w8
    by (elim disjE) (simp_all add: s4 rt store_bytes_def)
qed

section \<open>Multiplication and division\<close>

lemma split_acc:
  "uint (ucast (drop_bit 32 (acc :: u64)) :: u32) * 2 ^ 32 + uint (ucast acc :: u32) = uint acc"
proof -
  have h: "uint (ucast (drop_bit 32 acc) :: u32) = uint acc div 2 ^ 32"
  proof -
    have "uint (drop_bit 32 acc) = uint acc div 2 ^ 32" 
      by (simp only: unat_drop_bit uint_nat) (simp add: zdiv_int)
    moreover have "uint acc div 2 ^ 32 < 2 ^ 32" using uint_lt2p [of acc] by simp
    ultimately show ?thesis
      by (simp add: unsigned_ucast_eq take_bit_int_eq_self pos_imp_zdiv_nonneg_iff)
  qed
  have l: "uint (ucast acc :: u32) = uint acc mod 2 ^ 32"
    by (simp add: unsigned_ucast_eq take_bit_eq_mod)
  show ?thesis unfolding h l by simp
qed

lemma uint_mult_64: "uint ((ucast rs :: u64) * ucast (rt :: u32)) = uint (rs :: u32) * uint rt"
proof -
  have "uint rs * uint rt < 2 ^ 32 * 2 ^ 32"
    using uint_lt2p [of rs] uint_lt2p [of rt] by (intro mult_strict_mono) auto
  moreover have "uint (ucast rs :: u64) = uint rs" "uint (ucast rt :: u64) = uint rt"
    using uint_lt2p [of rs] uint_lt2p [of rt] by (simp_all add: unsigned_ucast_eq take_bit_int_eq_self)
  ultimately show ?thesis by (simp add: uint_word_ariths(3))
qed

end
