(* ===== verification/Mips_Sim.thy ===== *)
theory Mips_Sim
  imports Mips_Memory_Props Mips_Alu
begin

text \<open>
  The simulation between a run that records memory proofs and one that does not: two
  instrumented states are related when they differ only in the caches of their memories
  and in the proof fields. It carries the machine's invariant, and, for the recording
  side, that the one word the step touches is covered by a proof against the memory
  before the step.
\<close>

section \<open>Results related pointwise\<close>

abbreviation rsim :: "('a \<Rightarrow> 'b \<Rightarrow> bool) \<Rightarrow> 'e + 'a \<Rightarrow> 'e + 'b \<Rightarrow> bool" where
  "rsim R \<equiv> rel_sum (=) R"

lemma rsim_bind:
  "rsim R r1 r2 \<Longrightarrow> (\<And>x y. R x y \<Longrightarrow> rsim S (f x) (g y)) \<Longrightarrow> rsim S (rbind r1 f) (rbind r2 g)"
  by (cases r1; cases r2) auto

definition vsim :: "('m \<Rightarrow> 'n \<Rightarrow> bool) \<Rightarrow> 'v \<times> 'm \<Rightarrow> 'v \<times> 'n \<Rightarrow> bool" where
  "vsim R x y \<longleftrightarrow> fst x = fst y \<and> R (snd x) (snd y)"

lemma vsim_iff [simp]: "vsim R (v, m) (w, n) \<longleftrightarrow> v = w \<and> R m n"
  by (simp add: vsim_def)

section \<open>Memories\<close>

definition msim :: "(byte list \<Rightarrow> hash) \<Rightarrow> memory \<Rightarrow> memory \<Rightarrow> bool" where
  "msim K m1 m2 \<longleftrightarrow> mem_inv K m1 \<and> mem_inv K m2 \<and> flat m1 = flat m2 \<and> dom (m_pages m1) = dom (m_pages m2)"

lemma page_lookup_pages: "m_pages (snd (page_lookup m k)) = m_pages m"
  by (auto simp: page_lookup_def split: option.split)

lemma page_lookup_hit: "mem_wf m \<Longrightarrow> unat k < 2 ^ 20 \<Longrightarrow> page_lookup m k = ((q, True), m1) \<Longrightarrow> m_pages m k \<noteq> None"
  by (rule page_lookup_wf [of m k]) auto

lemma mem_invalidate_pages:
  assumes "mem_invalidate m addr = Inr m'"
  shows "m_pages m' = m_pages m"
proof -
  obtain q b m1 where l: "page_lookup m (drop_bit 12 addr) = ((q, b), m1)" by (metis prod.exhaust)
  have p: "m_pages m1 = m_pages m" using page_lookup_pages [of m "drop_bit 12 addr"] l by simp
  define g where "g = drop_bit 12 (2 ^ 32 OR unat addr)"
  have al: "addr AND 3 = 0" using assms by (intro ccontr [of "addr AND 3 = 0"]) (simp add: mem_invalidate_def)
  show ?thesis
  proof (cases "b \<and> q \<noteq> None")
    case True
    then obtain x where q: "q = Some x" b by auto
    from assms have "rbind (page_invalidate (m_heap m1 x) (addr AND 4095)) (\<lambda>pg.
        let m2 = heap_update x pg m1
        in if \<not> cp_ok (m_heap m1 x) 1 then Inr m2
           else Inr (m2\<lparr>m_nodes := clear_nodes g (m_nodes m2)\<rparr>)) = Inr m'"
      unfolding mem_invalidate_def g_def [symmetric] l
      by (simp only: al q prod.case option.case bool.case if_False not_True_eq_False simp_thms Let_def)
    then obtain pg where "(let m2 = heap_update x pg m1
        in if \<not> cp_ok (m_heap m1 x) 1 then (Inr m2 :: vm_panic + memory)
           else Inr (m2\<lparr>m_nodes := clear_nodes g (m_nodes m2)\<rparr>)) = Inr m'"
      unfolding rbind_eq_Inr by blast
    then have "m_pages m' = m_pages m1"
      by (cases "cp_ok (m_heap m1 x) 1") (auto simp: Let_def heap_update_def)
    then show ?thesis using p by simp
  next
    case False
    then show ?thesis using assms p unfolding mem_invalidate_def l using al by (cases b; cases q) simp_all
  qed
qed

lemma get_memory_pages: "get_memory m addr = Inr (v, m') \<Longrightarrow> m_pages m' = m_pages m"
  using page_lookup_pages [of m "drop_bit 12 addr"]
  by (auto simp: get_memory_def Let_def split: if_splits prod.splits option.splits bool.splits)

lemma set_memory_pages:
  assumes "mem_wf m" "set_memory m addr v = Inr m'"
  shows "dom (m_pages m') = insert (drop_bit 12 addr) (dom (m_pages m))"
proof -
  let ?k = "drop_bit 12 addr"
  obtain q b m1 where l: "page_lookup m ?k = ((q, b), m1)" by (metis prod.exhaust)
  have p1: "m_pages m1 = m_pages m" using page_lookup_pages [of m ?k] l by simp
  have al: "addr AND 3 = 0" using assms(2) mem_unaligned(2) by (metis Inl_Inr_False)
  show ?thesis
  proof (cases b)
    case True
    then have "m_pages m ?k \<noteq> None" using page_lookup_hit [OF assms(1) page_index_less] l by metis
    moreover have "m_pages m' = m_pages m1"
      using assms(2) l True al mem_invalidate_pages [of m1 addr]
      by (auto simp: set_memory_def Let_def rbind_eq_Inr write_page_def heap_update_def split: option.splits)
    ultimately show ?thesis using p1 by auto
  next
    case False
    then show ?thesis using assms(2) l al p1
      by (auto simp: set_memory_def Let_def alloc_page_def write_page_def heap_update_def)
  qed
qed

section \<open>Memory operations on similar memories\<close>

lemma msimD: "msim K m1 m2 \<Longrightarrow> mem_inv K m1 \<and> mem_inv K m2 \<and> flat m1 = flat m2"
  by (simp add: msim_def)

lemma msim_get:
  assumes s: "msim K m1 m2"
  shows "rsim (\<lambda>(v, a) (w, b). v = w \<and> msim K a b \<and> flat a = flat m1)
    (get_memory m1 addr) (get_memory m2 addr)"
proof (cases "addr AND 3 = 0")
  case True
  obtain m1' where a: "get_memory m1 addr = Inr (flat_word m1 addr, m1')" "mem_inv K m1'" "flat m1' = flat m1"
    using get_memory_ok [OF _ True] s by (metis msim_def)
  obtain m2' where b: "get_memory m2 addr = Inr (flat_word m2 addr, m2')" "mem_inv K m2'" "flat m2' = flat m2"
    using get_memory_ok [OF _ True] s by (metis msim_def)
  show ?thesis
    using a b s get_memory_pages [OF a(1)] get_memory_pages [OF b(1)]
    by (simp add: msim_def flat_word_def)
qed (simp add: mem_unaligned)

lemma msim_set:
  assumes s: "msim K m1 m2"
  shows "rsim (msim K) (set_memory m1 addr v) (set_memory m2 addr v)"
proof (cases "addr AND 3 = 0")
  case True
  have i: "mem_inv K m1" "mem_inv K m2" "flat m1 = flat m2" using s by (simp_all add: msim_def)
  obtain m1' where a: "set_memory m1 addr v = Inr m1'" "mem_inv K m1'"
    "flat m1' = write_bytes (flat m1) (unat addr) (put_u32 v)"
    by (rule set_memory_ok [OF i(1) True])
  obtain m2' where b: "set_memory m2 addr v = Inr m2'" "mem_inv K m2'"
    "flat m2' = write_bytes (flat m2) (unat addr) (put_u32 v)"
    by (rule set_memory_ok [OF i(2) True])
  have "mem_wf m1" "mem_wf m2" using i by (simp_all add: mem_inv_def)
  then have "dom (m_pages m1') = dom (m_pages m2')"
    using set_memory_pages [OF _ a(1)] set_memory_pages [OF _ b(1)] s by (simp add: msim_def)
  then show ?thesis using a b i by (simp add: msim_def)
qed (simp add: mem_unaligned)

lemma msim_proof:
  assumes s: "msim K m1 m2"
  obtains pf m1' where "merkle_proof K m1 addr = Inr (concat pf, m1')" "msim K m1' m2" "flat m1' = flat m1"
    "length pf = 28" "hd pf = slice_of (flat m1) (unat addr div 32 * 32) 32"
    "proof_root K addr pf = mtree K (mleaf (flat m1)) 27 1"
proof -
  have i: "mem_inv K m1" using s by (simp add: msim_def)
  obtain pf m1' where "merkle_proof K m1 addr = Inr (concat pf, m1')" "mem_inv K m1'" "flat m1' = flat m1"
    "m_pages m1' = m_pages m1" "length pf = 28" "hd pf = slice_of (flat m1) (unat addr div 32 * 32) 32"
    "proof_root K addr pf = mnode K (flat m1) 1"
    by (rule merkle_proof_ok [OF i])
  then show ?thesis using that s mnode_1 by (metis msim_def)
qed

lemma msim_read:
  assumes s: "msim K m1 m2"
  shows "rsim (\<lambda>(d1, r1, m1') (d2, r2, m2'). d1 = d2 \<and> r1 = r2 \<and> msim K m1' m2' \<and> flat m1' = flat m1)
    (mem_reader_read m1 r room) (mem_reader_read m2 r room)"
proof -
  let ?k = "drop_bit 12 (mr_addr r)" and ?e = "mr_addr r + mr_count r" and ?st = "mr_addr r AND 4095"
  define fin where "fin = (if ?k = drop_bit 12 ?e then ?e AND 4095 else 4096)"
  have wf: "mem_wf m1" "mem_wf m2" using s by (simp_all add: msim_def mem_inv_def)
  obtain n1 where n1: "page_lookup m1 ?k = ((m_pages m1 ?k, m_pages m1 ?k \<noteq> None), n1)"
    "same_tables m1 n1" "mem_wf n1" by (rule page_lookup_wf [OF wf(1) page_index_less])
  obtain n2 where n2: "page_lookup m2 ?k = ((m_pages m2 ?k, m_pages m2 ?k \<noteq> None), n2)"
    "same_tables m2 n2" "mem_wf n2" by (rule page_lookup_wf [OF wf(2) page_index_less])
  have n: "msim K n1 n2" "flat n1 = flat m1"
    using s same_tables_inv [OF n1(2,3)] same_tables_inv [OF n2(2,3)] same_tables_flat [OF n1(2)]
      same_tables_flat [OF n2(2)] n1(2) n2(2)
    by (simp_all add: msim_def same_tables_def)
  have hp: "m_heap n1 = m_heap m1" "m_heap n2 = m_heap m2" using n1(2) n2(2) by (simp_all add: same_tables_def)
  have fin: "unat fin \<le> 4096"
    using unat_page_addr [of ?e] by (auto simp: fin_def intro: less_imp_le)
  show ?thesis
  proof (cases "m_pages m1 ?k")
    case None
    moreover from this have "m_pages m2 ?k = None" using s by (metis msim_def domIff)
    ultimately show ?thesis
      using n s unfolding mem_reader_read_def Let_def fin_def [symmetric] n1(1) n2(1) by simp
  next
    case (Some p)
    then obtain q where q: "m_pages m2 ?k = Some q" using s by (metis msim_def domD domI)
    have "slice_of (cp_data (m_heap m1 p)) (unat ?st) j = slice_of (cp_data (m_heap m2 q)) (unat ?st) j"
      if "unat ?st + j \<le> 4096" for j
    proof -
      have "slice_of (flat m1) (4096 * unat ?k + unat ?st) j = slice_of (flat m2) (4096 * unat ?k + unat ?st) j"
        using s by (simp add: msim_def)
      then show ?thesis
        using flat_page_slice [OF that page_index_less, of m1 "mr_addr r"]
          flat_page_slice [OF that page_index_less, of m2 "mr_addr r"] Some q by simp
    qed
    moreover have "\<not> fin < ?st \<Longrightarrow> unat ?st + min room (unat fin - unat ?st) \<le> 4096"
      using fin by (simp add: word_less_nat_alt)
    ultimately have sl: "\<not> fin < ?st \<Longrightarrow>
      slice_of (cp_data (m_heap m1 p)) (unat ?st) (min room (unat fin - unat ?st)) =
      slice_of (cp_data (m_heap m2 q)) (unat ?st) (min room (unat fin - unat ?st))" by blast
    show ?thesis
      using n s unfolding mem_reader_read_def Let_def fin_def [symmetric] n1(1) n2(1) Some q
      by (simp add: sl hp)
  qed
qed

lemma msim_drain:
  "msim K m1 m2 \<Longrightarrow>
   rel_option (rsim (\<lambda>(d1, m1') (d2, m2'). d1 = d2 \<and> msim K m1' m2' \<and> flat m1' = flat m1))
     (drain_reader room fuel i m1 r) (drain_reader room fuel i m2 r)"
proof (induction fuel arbitrary: i m1 m2 r)
  case (Suc fuel)
  have rd: "rsim (\<lambda>(d1, r1, m1') (d2, r2, m2'). d1 = d2 \<and> r1 = r2 \<and> msim K m1' m2' \<and> flat m1' = flat m1)
    (mem_reader_read m1 r (room i)) (mem_reader_read m2 r (room i))"
    by (rule msim_read [OF Suc.prems])
  show ?case
  proof (cases "mem_reader_read m1 r (room i)")
    case (Inl e)
    then show ?thesis using rd by (cases "mem_reader_read m2 r (room i)") auto
  next
    case (Inr x)
    then obtain d r' m1' where x: "mem_reader_read m1 r (room i) = Inr (d, r', m1')" by (metis prod.exhaust)
    then obtain m2' where y: "mem_reader_read m2 r (room i) = Inr (d, r', m2')"
      "msim K m1' m2'" "flat m1' = flat m1"
      using rd by (cases "mem_reader_read m2 r (room i)") auto
    show ?thesis
    proof (cases d)
      case None
      then show ?thesis using x y by simp
    next
      case (Some dat)
      have "rel_option (rsim (\<lambda>(d1, m1'') (d2, m2''). d1 = d2 \<and> msim K m1'' m2'' \<and> flat m1'' = flat m1'))
         (drain_reader room fuel (Suc i) m1' r') (drain_reader room fuel (Suc i) m2' r')"
        by (rule Suc.IH [OF y(2)])
      then show ?thesis using x y Some
        by (cases "drain_reader room fuel (Suc i) m1' r'"; cases "drain_reader room fuel (Suc i) m2' r'")
          (auto elim!: rel_sum.cases)
    qed
  qed
qed simp

section \<open>Instrumented states\<close>

text \<open>
  \<^term>\<open>covered K c0 L m\<close>: with the contents \<open>c0\<close> at the start of the step and \<open>L\<close> the address
  accessed (all ones when there is none), the contents differ from \<open>c0\<close> in the word at \<open>L\<close>
  only, and the recorded proof is a proof of that word against the root of \<open>c0\<close>.
\<close>

definition covered :: "(byte list \<Rightarrow> hash) \<Rightarrow> (nat \<Rightarrow> byte) \<Rightarrow> u32 \<Rightarrow> inst_state \<Rightarrow> bool" where
  "covered K c0 L m \<longleftrightarrow> is_proof_enabled m \<and> is_last_access m = L \<and>
     (if L = - 1 then flat (vs_mem (is_state m)) = c0
      else L AND 3 = 0 \<and>
        (\<forall>a. a div 4 \<noteq> unat L div 4 \<longrightarrow> flat (vs_mem (is_state m)) a = c0 a) \<and>
        (\<exists>pf. is_mem_proof m = concat pf \<and> length pf = 28 \<and>
           hd pf = slice_of c0 (unat L div 32 * 32) 32 \<and>
           proof_root K L pf = mtree K (mleaf c0) 27 1))"

definition regs_ok :: "vm_state \<Rightarrow> bool" where
  "regs_ok s \<longleftrightarrow> vm_wf s \<and> vs_regs s ! 0 = 0"

text \<open>The cached pre-image is that of the cached key, or nothing has been read yet.\<close>

definition preimage_of :: "(hash \<Rightarrow> byte list) \<Rightarrow> hash \<Rightarrow> byte list" where
  "preimage_of G key = put_u64 (of_nat (length (G key))) @ G key"

definition cache_ok :: "(hash \<Rightarrow> byte list) \<Rightarrow> inst_state \<Rightarrow> bool" where
  "cache_ok G m \<longleftrightarrow> is_last_preimage m = preimage_of G (is_last_key m) \<or>
     is_last_key m = zero_hash32 \<and> is_last_preimage m = []"

definition retag :: "u32 \<Rightarrow> byte list \<Rightarrow> memory \<Rightarrow> inst_state \<Rightarrow> inst_state" where
  "retag la pf mm m = m\<lparr>is_state := (is_state m)\<lparr>vs_mem := mm\<rparr>, is_last_access := la,
     is_proof_enabled := False, is_mem_proof := pf\<rparr>"

definition isim :: "(hash \<Rightarrow> byte list) \<Rightarrow> (byte list \<Rightarrow> hash) \<Rightarrow> (nat \<Rightarrow> byte) \<Rightarrow> u32 \<Rightarrow> inst_state \<Rightarrow> inst_state \<Rightarrow> bool" where
  "isim G K c0 L m n \<longleftrightarrow> covered K c0 L m \<and> regs_ok (is_state m) \<and> cache_ok G m \<and>
     (\<exists>la pf mm. n = retag la pf mm m \<and> msim K (vs_mem (is_state m)) mm)"

lemma covered_rest [simp]:
  "covered K c0 L (m\<lparr>is_stdout := a\<rparr>) = covered K c0 L m"
  "covered K c0 L (m\<lparr>is_stderr := a\<rparr>) = covered K c0 L m"
  "covered K c0 L (m\<lparr>is_hints := h\<rparr>) = covered K c0 L m"
  "covered K c0 L (m\<lparr>is_last_preimage := a\<rparr>) = covered K c0 L m"
  "covered K c0 L (m\<lparr>is_last_key := k\<rparr>) = covered K c0 L m"
  "covered K c0 L (m\<lparr>is_last_offset := off\<rparr>) = covered K c0 L m"
  "vs_mem s = vs_mem (is_state m) \<Longrightarrow> covered K c0 L (m\<lparr>is_state := s\<rparr>) = covered K c0 L m"
  by (simp_all add: covered_def)

lemma isim_reg: "isim G K c0 L m n \<Longrightarrow> reg n i = reg m i"
  by (auto simp: isim_def retag_def reg_def)

lemma isim_state:
  assumes "isim G K c0 L m n"
  shows "is_state n = (is_state m)\<lparr>vs_mem := vs_mem (is_state n)\<rparr>"
  using assms by (auto simp: isim_def retag_def)

lemma isim_fields:
  assumes "isim G K c0 L m n"
  shows "vs_key (is_state n) = vs_key (is_state m)" "vs_offset (is_state n) = vs_offset (is_state m)"
    "vs_pc (is_state n) = vs_pc (is_state m)" "vs_next_pc (is_state n) = vs_next_pc (is_state m)"
    "vs_lo (is_state n) = vs_lo (is_state m)" "vs_hi (is_state n) = vs_hi (is_state m)"
    "vs_heap (is_state n) = vs_heap (is_state m)" "vs_exit_code (is_state n) = vs_exit_code (is_state m)"
    "vs_exited (is_state n) = vs_exited (is_state m)" "vs_step (is_state n) = vs_step (is_state m)"
    "vs_last_hint (is_state n) = vs_last_hint (is_state m)" "vs_regs (is_state n) = vs_regs (is_state m)"
    "is_stdout n = is_stdout m" "is_stderr n = is_stderr m" "is_hints n = is_hints m"
    "is_last_preimage n = is_last_preimage m" "is_last_key n = is_last_key m"
    "is_last_offset n = is_last_offset m"
  using assms by (auto simp: isim_def retag_def)

lemma isim_regs: "isim G K c0 L m n \<Longrightarrow> regs_ok (is_state m)"
  by (simp add: isim_def)

text \<open>Updates that touch neither the memory nor the proof fields.\<close>

lemma isim_update:
  assumes "isim G K c0 L m n" "\<And>la pf mm. f (retag la pf mm m) = retag la pf mm (f m)"
    "vs_mem (is_state (f m)) = vs_mem (is_state m)"
    "is_proof_enabled (f m) = is_proof_enabled m" "is_last_access (f m) = is_last_access m"
    "is_mem_proof (f m) = is_mem_proof m" "regs_ok (is_state (f m))"
    "cache_ok G m \<Longrightarrow> cache_ok G (f m)"
  shows "isim G K c0 L (f m) (f n)"
proof -
  obtain la pf mm where n: "n = retag la pf mm m" "msim K (vs_mem (is_state m)) mm" "covered K c0 L m" "cache_ok G m"
    using assms(1) by (auto simp: isim_def)
  have "covered K c0 L (f m)" using n(3) unfolding covered_def assms(3-6) .
  then show ?thesis using n assms(2,3,7,8) unfolding isim_def by metis
qed

lemma regs_ok_set:
  assumes "regs_ok s" "i \<noteq> (0 :: u32)"
  shows "regs_ok (s\<lparr>vs_regs := (vs_regs s)[unat i := v]\<rparr>)"
  using assms by (auto simp: regs_ok_def vm_wf_def nth_list_update unat_eq_0)

lemma isim_set_reg: "isim G K c0 L m n \<Longrightarrow> i \<noteq> 0 \<Longrightarrow> isim G K c0 L (set_reg i v m) (set_reg i v n)"
  by (frule isim_regs, erule isim_update) (auto simp: set_reg_def retag_def regs_ok_set cache_ok_def)

lemma isim_set_pc: "isim G K c0 L m n \<Longrightarrow> isim G K c0 L (set_pc a b m) (set_pc a b n)"
  by (frule isim_regs, erule isim_update) (auto simp: set_pc_def retag_def regs_ok_def vm_wf_def cache_ok_def)

lemma isim_advance: "isim G K c0 L m n \<Longrightarrow> isim G K c0 L (advance_pc m) (advance_pc n)"
  using isim_set_pc [of G K c0 L m n] by (simp add: advance_pc_def isim_fields)

lemma isim_hi_lo: "isim G K c0 L m n \<Longrightarrow> isim G K c0 L (set_hi_lo a b m) (set_hi_lo a b n)"
  by (frule isim_regs, erule isim_update) (auto simp: set_hi_lo_def retag_def regs_ok_def vm_wf_def cache_ok_def)

lemma handle_jump_sim: "isim G K c0 L m n \<Longrightarrow> rsim (isim G K c0 L) (handle_jump r d m) (handle_jump r d n)"
  by (simp add: handle_jump_def isim_fields Let_def isim_set_reg isim_set_pc)

lemma handle_branch_sim:
  "isim G K c0 L m n \<Longrightarrow> rsim (isim G K c0 L) (handle_branch op insn r v m) (handle_branch op insn r v n)"
  by (simp add: handle_branch_def isim_fields isim_reg Let_def isim_set_pc)

lemma handle_rd_sim: "isim G K c0 L m n \<Longrightarrow> rsim (isim G K c0 L) (handle_rd r v c m) (handle_rd r v c n)"
  by (simp add: handle_rd_def isim_set_reg isim_advance)

lemma handle_hi_lo_sim:
  "isim G K c0 L m n \<Longrightarrow> rsim (isim G K c0 L) (handle_hi_lo fn rs rt r m) (handle_hi_lo fn rs rt r n)"
  by (simp add: handle_hi_lo_def isim_fields Let_def isim_set_reg isim_advance isim_hi_lo)

section \<open>Memory operations of the step\<close>

lemma isimI: "covered K c0 L m \<Longrightarrow> regs_ok (is_state m) \<Longrightarrow> cache_ok G m \<Longrightarrow>
    msim K (vs_mem (is_state m)) mm \<Longrightarrow> n = retag la pf mm m \<Longrightarrow> isim G K c0 L m n"
  by (auto simp: isim_def)

lemma isim_set_mem:
  assumes "isim G K c0 L m n" "msim K a b" "covered K c0 L (set_mem a m)"
  shows "isim G K c0 L (set_mem a m) (set_mem b n)"
proof -
  obtain la pf mm where n: "n = retag la pf mm m" using assms(1) by (auto simp: isim_def)
  have "set_mem b n = retag la pf b (set_mem a m)" by (simp add: n retag_def set_mem_def)
  then show ?thesis using assms
    by (intro isimI [where K = K and G = G and L = L and m = "set_mem a m" and mm = b]) (auto simp: isim_def set_mem_def regs_ok_def vm_wf_def cache_ok_def)
qed

lemma load_word_sim:
  assumes s: "isim G K c0 L m n"
  shows "rsim (vsim (isim G K c0 L)) (load_word addr m) (load_word addr n)"
proof -
  have "msim K (vs_mem (is_state m)) (vs_mem (is_state n))" using s by (auto simp: isim_def retag_def)
  from msim_get [OF this, of addr] show ?thesis unfolding load_word_def
  proof (rule rsim_bind, clarsimp)
    fix w a b assume ab: "msim K a b" "flat a = flat (vs_mem (is_state m))"
    have "covered K c0 L (set_mem a m)"
      using s ab(2) unfolding isim_def covered_def set_mem_def by (simp del: One_nat_def)
    then show "isim G K c0 L (set_mem a m) (set_mem b n)" by (rule isim_set_mem [OF s ab(1)])
  qed
qed

lemma aligned_not_max: "(addr :: u32) AND 3 = 0 \<Longrightarrow> addr \<noteq> - 1"
  by auto

lemma write_word_outside:
  assumes "unat addr mod 4 = 0" "a div 4 \<noteq> unat addr div 4"
  shows "write_bytes c (unat (addr :: u32)) (put_u32 v) a = c a"
proof -
  have "(unat addr \<le> a \<and> a < unat addr + 4) = False"
  proof (rule iffI)
    assume "unat addr \<le> a \<and> a < unat addr + 4"
    then obtain i where "a = unat addr + i" "i < 4" by (metis add_less_cancel_left le_Suc_ex)
    moreover obtain q where "unat addr = 4 * q" using assms(1) by (auto dest: mod_0_imp_dvd elim!: dvdE)
    ultimately have "a div 4 = unat addr div 4" by simp
    then show False using assms(2) by simp
  qed simp
  then show ?thesis by (simp only: write_bytes_def length_put if_False)
qed

lemma store_word_sim:
  assumes s: "isim G K c0 L m n" and L: "L \<noteq> - 1"
  shows "rsim (isim G K c0 L) (store_word L v m) (store_word L v n)"
proof -
  have ms: "msim K (vs_mem (is_state m)) (vs_mem (is_state n))" using s by (auto simp: isim_def retag_def)
  have al: "L AND 3 = 0" using s L by (auto simp: isim_def covered_def)
  then have al4: "unat L mod 4 = 0" by (simp only: aligned_iff)
  have i: "mem_inv K (vs_mem (is_state m))" using ms by (simp add: msim_def)
  obtain a where a: "set_memory (vs_mem (is_state m)) L v = Inr a"
    "flat a = write_bytes (flat (vs_mem (is_state m))) (unat L) (put_u32 v)"
    using set_memory_ok [OF i al] by metis
  then obtain b where b: "set_memory (vs_mem (is_state n)) L v = Inr b" "msim K a b"
    using msim_set [OF ms, of L v] by (cases "set_memory (vs_mem (is_state n)) L v") auto
  have "covered K c0 L (set_mem a m)"
    using s L unfolding isim_def covered_def set_mem_def
    by (simp add: a(2) write_word_outside [OF al4] del: One_nat_def)
  then have "isim G K c0 L (set_mem a m) (set_mem b n)" by (rule isim_set_mem [OF s b(2)])
  then show ?thesis using a(1) b(1) by (simp add: store_word_def)
qed

lemma track_sim:
  assumes s: "isim G K c0 L m n" and L: "L = - 1 \<or> L = addr" and al: "addr AND 3 = 0"
  shows "rsim (isim G K c0 addr) (track_mem_access K addr m) (track_mem_access K addr n)"
proof -
  have ms: "msim K (vs_mem (is_state m)) (vs_mem (is_state n))" using s by (auto simp: isim_def retag_def)
  have n: "track_mem_access K addr n = Inr n" using s by (auto simp: isim_def retag_def track_mem_access_def)
  have c: "is_proof_enabled m" "is_last_access m = L" using s by (simp_all add: isim_def covered_def)
  show ?thesis
  proof (cases "L = addr")
    case True
    then show ?thesis using s n c by (simp add: track_mem_access_def)
  next
    case False
    then have L1: "L = - 1" using L by simp
    then have fl: "flat (vs_mem (is_state m)) = c0" using s by (simp add: isim_def covered_def)
    obtain pf a where a: "merkle_proof K (vs_mem (is_state m)) addr = Inr (concat pf, a)"
      "msim K a (vs_mem (is_state n))" "flat a = flat (vs_mem (is_state m))" "length pf = 28"
      "hd pf = slice_of (flat (vs_mem (is_state m))) (unat addr div 32 * 32) 32"
      "proof_root K addr pf = mtree K (mleaf (flat (vs_mem (is_state m)))) 27 1"
      by (rule msim_proof [OF ms])
    let ?m = "set_mem a (m\<lparr>is_last_access := addr, is_mem_proof := concat pf\<rparr>)"
    have t: "track_mem_access K addr m = Inr ?m"
      using a(1) c False L1 by (simp add: track_mem_access_def)
    have "covered K c0 addr ?m"
      using a al c(1) fl aligned_not_max [OF al] unfolding covered_def set_mem_def
      by (auto simp del: One_nat_def intro!: exI [of _ pf])
    moreover obtain la pf' mm where n': "n = retag la pf' mm m" using s by (auto simp: isim_def)
    moreover have "n = retag la pf' (vs_mem (is_state n)) ?m"
      unfolding n' by (simp add: retag_def set_mem_def)
    ultimately have "isim G K c0 addr ?m n"
      using s a(2) by (intro isimI [where K = K and G = G and L = addr and m = ?m and mm = "vs_mem (is_state n)"])
        (auto simp: isim_def set_mem_def regs_ok_def vm_wf_def cache_ok_def)
    then show ?thesis using n t by simp
  qed
qed

lemma low_mask_aligned [simp]: "(a AND 0xFFFFFFFC :: u32) AND 3 = 0"
  by (simp add: and.assoc)

end
