(* ===== verification/Mips_Step_Sim.thy ===== *)
theory Mips_Step_Sim
  imports Mips_Sim
begin

text \<open>
  The simulation through the system calls and the whole instruction step: recording
  proofs changes nothing but the caches, a step touches one word of memory at most, and
  every step keeps the machine's invariant.
\<close>

section \<open>System calls\<close>

lemma read_preimage_sim:
  assumes s: "isim G K c0 L m n"
  shows "rsim (\<lambda>(d, l, m') (d', l', n'). d = d' \<and> l = l' \<and> isim G K c0 L m' n')
    (read_preimage G key off m) (read_preimage G key off n)"
proof -
  have u: "isim G K c0 L (m\<lparr>is_last_key := k, is_last_preimage := p, is_last_offset := off\<rparr>)
      (n\<lparr>is_last_key := k, is_last_preimage := p, is_last_offset := off\<rparr>)"
    if "p = preimage_of G k" for k p
    by (rule isim_update [OF s]) (use s that in \<open>auto simp: retag_def isim_def cache_ok_def preimage_of_def\<close>)
  have u2: "isim G K c0 L (m\<lparr>is_last_offset := off\<rparr>) (n\<lparr>is_last_offset := off\<rparr>)"
    by (rule isim_update [OF s]) (use s in \<open>auto simp: retag_def isim_def cache_ok_def preimage_of_def\<close>)
  show ?thesis
    using u u2 by (simp add: read_preimage_def isim_fields [OF s] Let_def preimage_of_def)
qed

lemma read_range_sim:
  assumes s: "isim G K c0 L m n"
  shows "rsim (vsim (isim G K c0 L)) (read_range room addr count m) (read_range room addr count n)"
proof -
  have ms: "msim K (vs_mem (is_state m)) (vs_mem (is_state n))" using s by (auto simp: isim_def retag_def)
  have upd: "isim G K c0 L (set_mem a m) (set_mem b n)"
    if "msim K a b" "flat a = flat (vs_mem (is_state m))" for a b
  proof (rule isim_set_mem [OF s that(1)])
    show "covered K c0 L (set_mem a m)"
      using s that(2) unfolding isim_def covered_def set_mem_def by (simp del: One_nat_def)
  qed
  show ?thesis
    using msim_drain [OF ms, of "\<lambda>_. room" "unat count + 1" 0 "read_memory_range addr count"] upd
    unfolding read_range_def
    by (auto simp del: drain_reader.simps split: option.splits elim!: rel_sum.cases option.rel_cases)
qed

lemma sys_mmap_sim:
  assumes s: "isim G K c0 L m n"
  shows "vsim (isim G K c0 L) (sys_mmap m) (sys_mmap n)"
proof -
  have "isim G K c0 L (m\<lparr>is_state := (is_state m)\<lparr>vs_heap := vs_heap (is_state m) + x\<rparr>\<rparr>)
      (n\<lparr>is_state := (is_state n)\<lparr>vs_heap := vs_heap (is_state n) + x\<rparr>\<rparr>)" for x
    by (rule isim_update [OF s]) (use s in \<open>auto simp: retag_def isim_def regs_ok_def vm_wf_def cache_ok_def\<close>)
  then show ?thesis using s
    by (simp add: sys_mmap_def isim_reg [OF s] isim_fields [OF s] Let_def vsim_def)
qed

text \<open>Operations that may end with another access address.\<close>

abbreviation isim_any :: "(hash \<Rightarrow> byte list) \<Rightarrow> (byte list \<Rightarrow> hash) \<Rightarrow> (nat \<Rightarrow> byte) \<Rightarrow> inst_state \<Rightarrow> inst_state \<Rightarrow> bool" where
  "isim_any G K c0 m n \<equiv> \<exists>L. isim G K c0 L m n"

lemma isim_set_offset:
  assumes s: "isim G K c0 L m n"
  shows "isim G K c0 L (m\<lparr>is_state := (is_state m)\<lparr>vs_offset := x\<rparr>\<rparr>) (n\<lparr>is_state := (is_state n)\<lparr>vs_offset := x\<rparr>\<rparr>)"
  by (rule isim_update [OF s]) (use s in \<open>auto simp: retag_def isim_def regs_ok_def vm_wf_def cache_ok_def\<close>)

lemma preimage_tail_sim:
  assumes s: "isim G K c0 L m n" and L: "L \<noteq> - 1"
  shows "rsim (vsim (isim_any G K c0))
    (rbind (store_word L v m) (\<lambda>m. Inr (k, m\<lparr>is_state := (is_state m)\<lparr>vs_offset := vs_offset (is_state m) + k\<rparr>\<rparr>)))
    (rbind (store_word L v n) (\<lambda>m. Inr (k, m\<lparr>is_state := (is_state m)\<lparr>vs_offset := vs_offset (is_state m) + k\<rparr>\<rparr>)))"
proof (rule rsim_bind [OF store_word_sim [OF s L]])
  fix m3 n3 assume s3: "isim G K c0 L m3 n3"
  show "rsim (vsim (isim_any G K c0))
    (Inr (k, m3\<lparr>is_state := (is_state m3)\<lparr>vs_offset := vs_offset (is_state m3) + k\<rparr>\<rparr>))
    (Inr (k, n3\<lparr>is_state := (is_state n3)\<lparr>vs_offset := vs_offset (is_state n3) + k\<rparr>\<rparr>))"
    unfolding isim_fields [OF s3] using isim_set_offset [OF s3] by auto
qed

lemma preimage_read_sim:
  assumes s: "isim G K c0 (- 1) m n"
  shows "rsim (vsim (isim_any G K c0)) (preimage_read K G a1 a2 m) (preimage_read K G a1 a2 n)"
  unfolding preimage_read_def
proof (rule rsim_bind [OF track_sim [OF s disjI1 [OF refl] low_mask_aligned]])
  fix m1 n1 assume s1: "isim G K c0 (a1 AND 0xFFFFFFFC) m1 n1"
  have L: "a1 AND 0xFFFFFFFC \<noteq> - 1" by (rule aligned_not_max) simp
  show "rsim (vsim (isim_any G K c0))
     (rbind (load_word (a1 AND 0xFFFFFFFC) m1) (\<lambda>(mem, m).
      rbind (read_preimage G (vs_key (is_state m)) (vs_offset (is_state m)) m) (\<lambda>(dat, datLen, m).
      let n = preimage_len a1 a2 datLen
      in rbind (store_word (a1 AND 0xFFFFFFFC) (splice_word a1 mem (take (unat n) dat)) m) (\<lambda>m.
         Inr (n, m\<lparr>is_state := (is_state m)\<lparr>vs_offset := vs_offset (is_state m) + n\<rparr>\<rparr>)))))
     (rbind (load_word (a1 AND 0xFFFFFFFC) n1) (\<lambda>(mem, m).
      rbind (read_preimage G (vs_key (is_state m)) (vs_offset (is_state m)) m) (\<lambda>(dat, datLen, m).
      let n = preimage_len a1 a2 datLen
      in rbind (store_word (a1 AND 0xFFFFFFFC) (splice_word a1 mem (take (unat n) dat)) m) (\<lambda>m.
         Inr (n, m\<lparr>is_state := (is_state m)\<lparr>vs_offset := vs_offset (is_state m) + n\<rparr>\<rparr>)))))"
  proof (rule rsim_bind [OF load_word_sim [OF s1]], clarsimp)
    fix w m2 n2 assume s2: "isim G K c0 (a1 AND 0xFFFFFFFC) m2 n2"
    show "rsim (vsim (isim_any G K c0))
     (rbind (read_preimage G (vs_key (is_state m2)) (vs_offset (is_state m2)) m2) (\<lambda>(dat, datLen, m).
      let n = preimage_len a1 a2 datLen
      in rbind (store_word (a1 AND 0xFFFFFFFC) (splice_word a1 w (take (unat n) dat)) m) (\<lambda>m.
         Inr (n, m\<lparr>is_state := (is_state m)\<lparr>vs_offset := vs_offset (is_state m) + n\<rparr>\<rparr>))))
     (rbind (read_preimage G (vs_key (is_state n2)) (vs_offset (is_state n2)) n2) (\<lambda>(dat, datLen, m).
      let n = preimage_len a1 a2 datLen
      in rbind (store_word (a1 AND 0xFFFFFFFC) (splice_word a1 w (take (unat n) dat)) m) (\<lambda>m.
         Inr (n, m\<lparr>is_state := (is_state m)\<lparr>vs_offset := vs_offset (is_state m) + n\<rparr>\<rparr>))))"
      unfolding isim_fields [OF s2]
      by (rule rsim_bind [OF read_preimage_sim [OF s2]])
        (clarsimp simp: Let_def, rule preimage_tail_sim [OF _ L])
  qed
qed

lemma shift_key_length: "length key = 32 \<Longrightarrow> length (shift_key a1 a2 mem key) = 32"
  by (simp add: shift_key_def Let_def)

lemma preimage_write_sim:
  assumes s: "isim G K c0 (- 1) m n"
  shows "rsim (vsim (isim_any G K c0)) (preimage_write K a1 a2 m) (preimage_write K a1 a2 n)"
  unfolding preimage_write_def
proof (rule rsim_bind [OF track_sim [OF s disjI1 [OF refl] low_mask_aligned]],
    rule rsim_bind, erule load_word_sim, clarsimp simp: Let_def)
  fix w m1 n1 assume s1: "isim G K c0 (a1 AND 0xFFFFFFFC) m1 n1"
  have upd: "isim G K c0 (a1 AND 0xFFFFFFFC) (m1\<lparr>is_state := (is_state m1)\<lparr>vs_key := shift_key a1 x w (vs_key (is_state m1)), vs_offset := 0\<rparr>\<rparr>)
      (n1\<lparr>is_state := (is_state n1)\<lparr>vs_key := shift_key a1 x w (vs_key (is_state n1)), vs_offset := 0\<rparr>\<rparr>)" for x
    by (rule isim_update [OF s1])
      (use s1 in \<open>auto simp: retag_def isim_def regs_ok_def vm_wf_def shift_key_length cache_ok_def\<close>)
  show "(4 - (a1 AND 3) < a2 \<longrightarrow> isim_any G K c0
      (m1\<lparr>is_state := (is_state m1)\<lparr>vs_key := shift_key a1 (4 - (a1 AND 3)) w (vs_key (is_state m1)), vs_offset := 0\<rparr>\<rparr>)
      (n1\<lparr>is_state := (is_state n1)\<lparr>vs_key := shift_key a1 (4 - (a1 AND 3)) w (vs_key (is_state n1)), vs_offset := 0\<rparr>\<rparr>)) \<and>
    (\<not> 4 - (a1 AND 3) < a2 \<longrightarrow> isim_any G K c0
      (m1\<lparr>is_state := (is_state m1)\<lparr>vs_key := shift_key a1 a2 w (vs_key (is_state m1)), vs_offset := 0\<rparr>\<rparr>)
      (n1\<lparr>is_state := (is_state n1)\<lparr>vs_key := shift_key a1 a2 w (vs_key (is_state n1)), vs_offset := 0\<rparr>\<rparr>))"
    using upd by blast
qed

abbreviation tsim :: "(hash \<Rightarrow> byte list) \<Rightarrow> (byte list \<Rightarrow> hash) \<Rightarrow> (nat \<Rightarrow> byte) \<Rightarrow> 'a \<times> 'b \<times> inst_state \<Rightarrow> 'a \<times> 'b \<times> inst_state \<Rightarrow> bool" where
  "tsim G K c0 \<equiv> vsim (vsim (isim_any G K c0))"

lemma ret_sim:
  assumes "rsim (vsim (isim_any G K c0)) r1 r2"
  shows "rsim (tsim G K c0) (rbind r1 (\<lambda>(v0, m). Inr (v0, x, m))) (rbind r2 (\<lambda>(v0, m). Inr (v0, x, m)))"
  by (rule rsim_bind [OF assms]) auto

lemma sys_read_sim:
  assumes s: "isim G K c0 (- 1) m n"
  shows "rsim (tsim G K c0) (sys_read K G m) (sys_read K G n)"
  using s ret_sim [OF preimage_read_sim [OF s]]
  by (auto simp: sys_read_def isim_reg [OF s] Let_def)

lemma isim_out:
  assumes s: "isim G K c0 L m n"
  shows "isim G K c0 L (m\<lparr>is_stdout := x\<rparr>) (n\<lparr>is_stdout := x\<rparr>)"
    and "isim G K c0 L (m\<lparr>is_stderr := x\<rparr>) (n\<lparr>is_stderr := x\<rparr>)"
    and "isim G K c0 L (m\<lparr>is_hints := hs, is_state := (is_state m)\<lparr>vs_last_hint := h\<rparr>\<rparr>)
      (n\<lparr>is_hints := hs, is_state := (is_state n)\<lparr>vs_last_hint := h\<rparr>\<rparr>)"
  by (rule isim_update [OF s]; use s in \<open>auto simp: retag_def isim_def regs_ok_def vm_wf_def cache_ok_def\<close>)+

lemma sys_write_sim:
  assumes s: "isim G K c0 (- 1) m n"
  shows "rsim (tsim G K c0) (sys_write K m) (sys_write K n)"
proof -
  let ?a1 = "reg m 5" and ?a2 = "reg m 6"
  have o1: "rsim (tsim G K c0)
    (rbind (read_range 32768 ?a1 ?a2 m) (\<lambda>(dat, m). Inr (?a2, z, m\<lparr>is_stdout := is_stdout m @ dat\<rparr>)))
    (rbind (read_range 32768 ?a1 ?a2 n) (\<lambda>(dat, m). Inr (?a2, z, m\<lparr>is_stdout := is_stdout m @ dat\<rparr>)))"
    for z :: u32
    by (rule rsim_bind [OF read_range_sim [OF s]]) (clarsimp, metis isim_fields(13) isim_out(1))
  have o2: "rsim (tsim G K c0)
    (rbind (read_range 32768 ?a1 ?a2 m) (\<lambda>(dat, m). Inr (?a2, z, m\<lparr>is_stderr := is_stderr m @ dat\<rparr>)))
    (rbind (read_range 32768 ?a1 ?a2 n) (\<lambda>(dat, m). Inr (?a2, z, m\<lparr>is_stderr := is_stderr m @ dat\<rparr>)))"
    for z :: u32
    by (rule rsim_bind [OF read_range_sim [OF s]]) (clarsimp, metis isim_fields(14) isim_out(2))
  have o3: "rsim (tsim G K c0)
    (rbind (read_range 512 ?a1 ?a2 m) (\<lambda>(hintData, m).
     rbind (hint_loop (vs_last_hint (is_state m) @ hintData) (is_hints m)) (\<lambda>(rest, hints).
       Inr (?a2, z, m\<lparr>is_hints := hints, is_state := (is_state m)\<lparr>vs_last_hint := rest\<rparr>\<rparr>))))
    (rbind (read_range 512 ?a1 ?a2 n) (\<lambda>(hintData, m).
     rbind (hint_loop (vs_last_hint (is_state m) @ hintData) (is_hints m)) (\<lambda>(rest, hints).
       Inr (?a2, z, m\<lparr>is_hints := hints, is_state := (is_state m)\<lparr>vs_last_hint := rest\<rparr>\<rparr>))))"
    for z :: u32
  proof (rule rsim_bind [OF read_range_sim [OF s]], clarsimp)
    fix dat m1 n1 assume s1: "isim G K c0 (- 1) m1 n1"
    show "rsim (tsim G K c0)
      (rbind (hint_loop (vs_last_hint (is_state m1) @ dat) (is_hints m1)) (\<lambda>(rest, hints).
        Inr (?a2, z, m1\<lparr>is_hints := hints, is_state := (is_state m1)\<lparr>vs_last_hint := rest\<rparr>\<rparr>)))
      (rbind (hint_loop (vs_last_hint (is_state n1) @ dat) (is_hints n1)) (\<lambda>(rest, hints).
        Inr (?a2, z, n1\<lparr>is_hints := hints, is_state := (is_state n1)\<lparr>vs_last_hint := rest\<rparr>\<rparr>)))"
      unfolding isim_fields [OF s1]
      by (cases "hint_loop (vs_last_hint (is_state m1) @ dat) (is_hints m1)")
        (auto intro!: exI isim_out(3) [OF s1])
  qed
  show ?thesis
    using s o1 o2 o3 ret_sim [OF preimage_write_sim [OF s]]
    by (auto simp: sys_write_def isim_reg [OF s] Let_def)
qed

lemma sys_call_sim:
  assumes s: "isim G K c0 (- 1) m n"
  shows "rsim (tsim G K c0) (sys_call K G m) (sys_call K G n)"
  using s sys_mmap_sim [OF s] sys_read_sim [OF s] sys_write_sim [OF s]
  by (auto simp: sys_call_def isim_reg [OF s] sys_fcntl_def Let_def vsim_def split: prod.splits)

lemma handle_syscall_sim:
  assumes s: "isim G K c0 (- 1) m n"
  shows "rsim (isim_any G K c0) (handle_syscall K G m) (handle_syscall K G n)"
proof -
  have ex: "isim G K c0 (- 1) (m\<lparr>is_state := (is_state m)\<lparr>vs_exited := True, vs_exit_code := x\<rparr>\<rparr>)
     (n\<lparr>is_state := (is_state n)\<lparr>vs_exited := True, vs_exit_code := x\<rparr>\<rparr>)" for x
    by (rule isim_update [OF s]) (use s in \<open>auto simp: retag_def isim_def regs_ok_def vm_wf_def cache_ok_def\<close>)
  have ret: "rsim (isim_any G K c0)
    (rbind (sys_call K G m) (\<lambda>(v0, v1, m). Inr (advance_pc (set_reg 7 v1 (set_reg 2 v0 m)))))
    (rbind (sys_call K G n) (\<lambda>(v0, v1, m). Inr (advance_pc (set_reg 7 v1 (set_reg 2 v0 m)))))"
    by (rule rsim_bind [OF sys_call_sim [OF s]]) (auto simp: vsim_def intro!: isim_advance isim_set_reg exI)
  show ?thesis
    using ret ex unfolding handle_syscall_def isim_reg [OF s] by auto
qed

section \<open>The step\<close>

lemma mem_phase_sim:
  assumes s: "isim G K c0 (- 1) m n"
  shows "rsim (\<lambda>(rs1, w1, sa1, rd1, m1) (rs2, w2, sa2, rd2, n1). rs1 = rs2 \<and> w1 = w2 \<and> sa1 = sa2 \<and> rd1 = rd2 \<and>
      (if 0x20 \<le> opcode then sa1 = - 1 \<or> isim G K c0 sa1 m1 n1 else sa1 = - 1 \<and> isim G K c0 (- 1) m1 n1) \<and>
      isim_any G K c0 m1 n1)
    (mem_phase K opcode insn rs rd m) (mem_phase K opcode insn rs rd n)"
proof (cases "0x20 \<le> opcode")
  case False
  then show ?thesis using s by (auto simp: mem_phase_def)
next
  case True
  let ?rs = "rs + SE (insn AND 0xFFFF) 16"
  have al: "(?rs AND 0xFFFFFFFC) AND 3 = 0" by simp
  show ?thesis
    unfolding mem_phase_def Let_def if_P [OF True]
  proof (rule rsim_bind [OF track_sim [OF s disjI1 [OF refl] al]], rule rsim_bind, erule load_word_sim, clarsimp)
  qed auto
qed

lemma rsim_any: "rsim (isim G K c0 L) r1 r2 \<Longrightarrow> rsim (isim_any G K c0) r1 r2"
  by (cases r1; cases r2) auto

lemma write_back_sim:
  assumes s: "isim_any G K c0 m n" "sa \<noteq> - 1 \<Longrightarrow> isim G K c0 sa m n"
  shows "rsim (isim_any G K c0) (write_back K op r sa v rd m) (write_back K op r sa v rd n)"
proof -
  let ?f = "\<lambda>m. if op = 0x38 \<and> r \<noteq> 0 then set_reg r 1 m else m"
  have f: "isim G K c0 L m n \<Longrightarrow> isim G K c0 L (?f m) (?f n)" for L by (simp add: isim_set_reg)
  have st: "rsim (isim_any G K c0)
      (if sa \<noteq> 0xFFFFFFFF then rbind (track_mem_access K sa (?f m)) (store_word sa v) else Inr (?f m))
      (if sa \<noteq> 0xFFFFFFFF then rbind (track_mem_access K sa (?f n)) (store_word sa v) else Inr (?f n))"
  proof (cases "sa = - 1")
    case True
    obtain L where "isim G K c0 L m n" using s(1) by blast
    from f [OF this] have "isim_any G K c0 (?f m) (?f n)" by (rule exI)
    then show ?thesis using True by simp
  next
    case False
    then have sa: "isim G K c0 sa (?f m) (?f n)" using f s(2) by blast
    then have al: "sa AND 3 = 0" using False by (auto simp: isim_def covered_def)
    have "rsim (isim_any G K c0) (rbind (track_mem_access K sa (?f m)) (store_word sa v))
      (rbind (track_mem_access K sa (?f n)) (store_word sa v))"
    proof (rule rsim_bind [OF track_sim [OF sa disjI2 [OF refl] al]])
      fix x y assume "isim G K c0 sa x y"
      then have "rsim (isim G K c0 sa) (store_word sa v x) (store_word sa v y)"
        using store_word_sim False by blast
      then show "rsim (isim_any G K c0) (store_word sa v x) (store_word sa v y)"
        by (rule rsim_any)
    qed
    moreover have "sa \<noteq> 0xFFFFFFFF" using False by auto
    ultimately show ?thesis by simp
  qed
  show ?thesis unfolding write_back_def Let_def
  proof (rule rsim_bind [OF st], clarsimp)
    fix x y L assume "isim G K c0 L x y"
    then show "rsim (isim_any G K c0) (handle_rd rd v True x) (handle_rd rd v True y)"
      using rsim_any handle_rd_sim by blast
  qed
qed

lemma special_phase_sim:
  assumes s: "isim G K c0 (- 1) m n"
  shows "rel_option (rsim (isim_any G K c0)) (special_phase K G fn rs rt rd m) (special_phase K G fn rs rt rd n)"
  using rsim_any [OF handle_jump_sim [OF s]] rsim_any [OF handle_rd_sim [OF s]] handle_syscall_sim [OF s]
    rsim_any [OF handle_hi_lo_sim [OF s]]
  by (simp add: special_phase_def)

lemma operands_sim: "isim G K c0 L m n \<Longrightarrow> operands op insn n = operands op insn m"
  by (simp add: operands_def isim_reg Let_def)

lemma alu_phase_sim:
  assumes s: "isim_any G K c0 m n" "sa \<noteq> - 1 \<Longrightarrow> isim G K c0 sa m n" "opcode_of insn = 0 \<Longrightarrow> isim G K c0 (- 1) m n"
  shows "rsim (isim_any G K c0) (alu_phase K G insn rt rs w sa rd m) (alu_phase K G insn rt rs w sa rd n)"
proof (cases "execute insn rs rt w")
  case (Inr v)
  have wb: "rsim (isim_any G K c0) (write_back K op r sa v rd m) (write_back K op r sa v rd n)" for op r
    by (rule write_back_sim [OF s(1,2)])
  show ?thesis
  proof (cases "opcode_of insn = 0 \<and> 8 \<le> fun_of insn \<and> fun_of insn < 0x1c")
    case True
    then have "rel_option (rsim (isim_any G K c0)) (special_phase K G (fun_of insn) rs rt rd m)
        (special_phase K G (fun_of insn) rs rt rd n)"
      using special_phase_sim s(3) by blast
    then show ?thesis using wb Inr True
      by (auto simp: alu_phase_def Let_def elim!: option.rel_cases)
  next
    case False
    then show ?thesis using wb Inr by (auto simp: alu_phase_def Let_def)
  qed
qed (simp add: alu_phase_def Let_def)

lemma exec_insn_sim:
  assumes s: "isim G K c0 (- 1) m n"
  shows "rsim (isim_any G K c0) (exec_insn K G insn m) (exec_insn K G insn n)"
proof (cases "opcode_of insn = 2 \<or> opcode_of insn = 3")
  case True
  then show ?thesis
    using rsim_any [OF handle_jump_sim [OF s]] by (auto simp: exec_insn_def Let_def isim_fields [OF s])
next
  case False
  let ?rs = "reg m (drop_bit 21 insn AND 0x1F)"
  obtain rt rd where o: "operands (opcode_of insn) insn m = (rt, rd)" by (metis prod.exhaust)
  have o': "operands (opcode_of insn) insn n = (rt, rd)" using operands_sim [OF s] o by simp
  have br: "rsim (isim_any G K c0) (handle_branch (opcode_of insn) insn r ?rs m)
      (handle_branch (opcode_of insn) insn r ?rs n)" for r
    by (rule rsim_any [OF handle_branch_sim [OF s]])
  have ph: "rsim (isim_any G K c0)
     (rbind (mem_phase K (opcode_of insn) insn ?rs rd m) (\<lambda>(rs, mem, storeAddr, rdReg, m).
        alu_phase K G insn rt rs mem storeAddr rdReg m))
     (rbind (mem_phase K (opcode_of insn) insn ?rs rd n) (\<lambda>(rs, mem, storeAddr, rdReg, m).
        alu_phase K G insn rt rs mem storeAddr rdReg m))"
  proof (rule rsim_bind [OF mem_phase_sim [OF s]], clarsimp)
    fix rs w sa rd' m1 n1 L
    assume a: "if 32 \<le> opcode_of insn then sa = - 1 \<or> isim G K c0 sa m1 n1
        else sa = - 1 \<and> isim G K c0 (- 1) m1 n1" "isim G K c0 L m1 n1"
    show "rsim (isim_any G K c0) (alu_phase K G insn rt rs w sa rd' m1) (alu_phase K G insn rt rs w sa rd' n1)"
      using a by (intro alu_phase_sim) (auto split: if_splits)
  qed
  show ?thesis
    unfolding exec_insn_def Let_def if_not_P [OF False] isim_reg [OF s] o o' prod.case
    using br ph by simp
qed

theorem mips_step_sim:
  assumes s: "isim G K c0 (- 1) m n"
  shows "rsim (isim_any G K c0) (mips_step K G m) (mips_step K G n)"
proof (cases "vs_exited (is_state m)")
  case True
  then show ?thesis using s by (auto simp: mips_step_def isim_fields [OF s])
next
  case False
  let ?f = "\<lambda>m. m\<lparr>is_state := (is_state m)\<lparr>vs_step := vs_step (is_state m) + 1\<rparr>\<rparr>"
  have s1: "isim G K c0 (- 1) (?f m) (?f n)"
    by (rule isim_update [OF s]) (use s in \<open>auto simp: retag_def isim_def regs_ok_def vm_wf_def cache_ok_def\<close>)
  have pc: "vs_pc (is_state (?f n)) = vs_pc (is_state (?f m))" using isim_fields(3) [OF s] by simp
  have nx: "\<not> vs_exited (is_state n)" using False isim_fields(9) [OF s] by simp
  show ?thesis
    unfolding mips_step_def Let_def if_not_P [OF False] if_not_P [OF nx] pc
    by (rule rsim_bind [OF load_word_sim [OF s1]]) (auto intro: exec_insn_sim)
qed

end
