(* ===== verification/Mips_Props.thy ===== *)
theory Mips_Props
  imports Mips_Step_Sim
begin

text \<open>
  The properties of the MIPS virtual machine, over every state its instrumented steps can
  reach from a fresh one.
\<close>

section \<open>Reachable machines\<close>

inductive vm_reach :: "(byte list \<Rightarrow> hash) \<Rightarrow> (hash \<Rightarrow> byte list) \<Rightarrow> inst_state \<Rightarrow> bool" for K G where
  init: "mem_reach K (vs_mem s) \<Longrightarrow> length (vs_regs s) = 32 \<Longrightarrow> vs_regs s ! 0 = 0 \<Longrightarrow> length (vs_key s) = 32 \<Longrightarrow>
    vm_reach K G (new_instrumented s)"
| step: "vm_reach K G m \<Longrightarrow> instrumented_step K G prf' m = Inr (w, m') \<Longrightarrow> vm_reach K G m'"

definition vm_inv :: "(byte list \<Rightarrow> hash) \<Rightarrow> (hash \<Rightarrow> byte list) \<Rightarrow> inst_state \<Rightarrow> bool" where
  "vm_inv K G m \<longleftrightarrow> mem_inv K (vs_mem (is_state m)) \<and> regs_ok (is_state m) \<and> cache_ok G m"

text \<open>The start of a step: the recording side has its proofs computed, the other has not.\<close>

definition step_start :: "bool \<Rightarrow> inst_state \<Rightarrow> inst_state" where
  "step_start prf' m = m\<lparr>is_proof_enabled := prf', is_last_access := - 1, is_last_offset := - 1\<rparr>"

lemma instrumented_step_False:
  "instrumented_step K G False m = rbind (mips_step K G (step_start False m)) (\<lambda>m. Inr (None, m))"
  by (simp add: instrumented_step_def step_start_def)

definition witness_of :: "byte list \<Rightarrow> byte list \<Rightarrow> inst_state \<Rightarrow> step_witness" where
  "witness_of enc insnProof m =
     (let wit = \<lparr>sw_state = enc, sw_mem_proof = insnProof @ is_mem_proof m,
                 sw_preimage_key = zero_hash32, sw_preimage_value = [], sw_preimage_offset = 0\<rparr>
      in if is_last_offset m \<noteq> - 1
         then wit\<lparr>sw_preimage_offset := is_last_offset m, sw_preimage_key := is_last_key m,
                  sw_preimage_value := is_last_preimage m\<rparr>
         else wit)"

lemma instrumented_step_True:
  assumes inv: "vm_inv K G m"
  obtains ipf mm where
    "instrumented_step K G True m =
       rbind (mips_step K G (set_mem mm (step_start True m))) (\<lambda>m'. Inr (Some (witness_of
         (encode_fields (mtree K (mleaf (flat (vs_mem (is_state m)))) 27 1) (is_state m)) (concat ipf) m'), m'))"
    "length ipf = 28" "hd ipf = slice_of (flat (vs_mem (is_state m))) (unat (vs_pc (is_state m)) div 32 * 32) 32"
    "proof_root K (vs_pc (is_state m)) ipf = mtree K (mleaf (flat (vs_mem (is_state m)))) 27 1"
    "isim G K (flat (vs_mem (is_state m))) (- 1) (set_mem mm (step_start True m)) (step_start False m)"
proof -
  let ?M = "vs_mem (is_state m)"
  have i: "mem_inv K ?M" using inv by (simp add: vm_inv_def)
  obtain pf a where a: "merkle_proof K ?M (vs_pc (is_state m)) = Inr (concat pf, a)" "mem_inv K a"
    "flat a = flat ?M" "m_pages a = m_pages ?M" "length pf = 28"
    "hd pf = slice_of (flat ?M) (unat (vs_pc (is_state m)) div 32 * 32) 32"
    "proof_root K (vs_pc (is_state m)) pf = mnode K (flat ?M) 1"
    by (rule merkle_proof_ok [OF i])
  obtain b where b: "mem_merkle_root K a = Inr (mnode K (flat a) 1, b)" "mem_inv K b" "flat b = flat a"
    "m_pages b = m_pages a"
    unfolding mem_merkle_root_def by (rule merkleizedE [OF a(2), of 1]) auto
  have enc: "encode_fields r (s\<lparr>vs_mem := x\<rparr>) = encode_fields r s" for r s x by (simp add: encode_fields_def)
  have eq: "instrumented_step K G True m =
    rbind (mips_step K G (set_mem b (step_start True m))) (\<lambda>m'. Inr (Some (witness_of
         (encode_fields (mnode K (flat ?M) 1) (is_state m)) (concat pf) m'), m'))"
    using a(1,3) b(1)
    by (simp add: instrumented_step_def step_start_def encode_witness_def enc set_mem_def witness_of_def Let_def
        del: One_nat_def)
  have ms: "msim K b ?M" using i b a(3,4) by (simp add: msim_def)
  have "covered K (flat ?M) (- 1) (set_mem b (step_start True m))"
    using b(3) a(3) by (simp add: covered_def step_start_def set_mem_def)
  moreover have "regs_ok (is_state (set_mem b (step_start True m)))" "cache_ok G (set_mem b (step_start True m))"
    using inv by (simp_all add: vm_inv_def regs_ok_def vm_wf_def cache_ok_def set_mem_def step_start_def)
  moreover have "step_start False m = retag (- 1) (is_mem_proof m) ?M (set_mem b (step_start True m))"
    by (simp add: step_start_def retag_def set_mem_def)
  ultimately have "isim G K (flat ?M) (- 1) (set_mem b (step_start True m)) (step_start False m)"
    using ms by (intro isimI [where mm = ?M]) (simp_all add: set_mem_def)
  then show ?thesis using that [OF _ a(5,6)] eq a(7) unfolding mnode_1 by blast
qed

lemma isim_inv: "isim G K c0 L m n \<Longrightarrow> vm_inv K G m \<and> vm_inv K G n"
  by (auto simp: isim_def vm_inv_def msim_def retag_def regs_ok_def vm_wf_def cache_ok_def)

lemma instrumented_step_inv:
  assumes "vm_inv K G m" "instrumented_step K G prf' m = Inr (w, m')"
  shows "vm_inv K G m'"
proof -
  obtain ipf mm where s: "instrumented_step K G True m =
       rbind (mips_step K G (set_mem mm (step_start True m))) (\<lambda>m'. Inr (Some (witness_of
         (encode_fields (mtree K (mleaf (flat (vs_mem (is_state m)))) 27 1) (is_state m)) (concat ipf) m'), m'))"
    "isim G K (flat (vs_mem (is_state m))) (- 1) (set_mem mm (step_start True m)) (step_start False m)"
    by (rule instrumented_step_True [OF assms(1)])
  show ?thesis
  proof (cases prf')
    case True
    then show ?thesis using assms(2) s(1) mips_step_sim [OF s(2)] isim_inv
      by (auto simp: rbind_eq_Inr elim!: rel_sum.cases)
  next
    case False
    then show ?thesis using assms(2) mips_step_sim [OF s(2)] isim_inv
      by (auto simp: instrumented_step_False rbind_eq_Inr elim!: rel_sum.cases)
  qed
qed

lemma vm_reach_inv: "vm_reach K G m \<Longrightarrow> vm_inv K G m"
proof (induction rule: vm_reach.induct)
  case (init s)
  then show ?case
    using mem_reach_inv by (simp add: vm_inv_def new_instrumented_def regs_ok_def vm_wf_def cache_ok_def)
next
  case (step m prf' w m')
  then show ?case using instrumented_step_inv by blast
qed

lemma load_word_eval:
  assumes "mem_inv K (vs_mem (is_state m))" "addr AND 3 = 0"
  obtains mm where "load_word addr m = Inr (flat_word (vs_mem (is_state m)) addr, set_mem mm m)"
    "mem_inv K mm" "flat mm = flat (vs_mem (is_state m))"
  using get_memory_ok [OF assms] unfolding load_word_def by (metis (no_types, lifting) prod.case rbind_simps(2))

lemma store_word_eval:
  assumes "mem_inv K (vs_mem (is_state m))" "addr AND 3 = 0"
  obtains mm where "store_word addr v m = Inr (set_mem mm m)" "mem_inv K mm"
    "flat mm = write_bytes (flat (vs_mem (is_state m))) (unat addr) (put_u32 v)"
  using set_memory_ok [OF assms, of v] unfolding store_word_def by (metis rbind_simps(2))

section \<open>Properties of the step\<close>

text \<open>C5. Every reachable machine has 32 registers with register 0 equal to zero and a 32-byte
  pre-image key, and its memory's root, with all caches as the steps left them, is the
  root of the plain hash tree over its contents.\<close>

theorem machine_invariant:
  assumes "vm_reach K G m"
  shows "length (vs_regs (is_state m)) = 32 \<and> vs_regs (is_state m) ! 0 = 0 \<and>
    length (vs_key (is_state m)) = 32 \<and>
    (\<exists>mm. mem_merkle_root K (vs_mem (is_state m)) =
       Inr (mtree K (mleaf (flat (vs_mem (is_state m)))) 27 1, mm))"
proof -
  have i: "vm_inv K G m" by (rule vm_reach_inv [OF assms])
  then obtain mm where "mem_merkle_root K (vs_mem (is_state m)) =
       Inr (mnode K (flat (vs_mem (is_state m))) 1, mm)"
    unfolding mem_merkle_root_def vm_inv_def
    by (elim conjE) (rule merkleizedE [of K "vs_mem (is_state m)" 1], auto)
  then show ?thesis using i unfolding mnode_1 by (simp add: vm_inv_def regs_ok_def vm_wf_def)
qed

definition boot_state :: vm_state where
  "boot_state = \<lparr>vs_mem = new_memory, vs_key = zero_hash32, vs_offset = 0, vs_pc = 0, vs_next_pc = 4,
     vs_lo = 0, vs_hi = 0, vs_heap = 0x20000000, vs_exit_code = 0, vs_exited = False, vs_step = 0,
     vs_regs = replicate 32 0, vs_last_hint = []\<rparr>"

lemma boot_reach: "vm_reach K G (new_instrumented boot_state)"
  by (rule vm_reach.init) (simp_all add: boot_state_def mem_reach.fresh)

text \<open>Stepping over the no-op at address 0 of an empty memory.\<close>

lemma boot_step:
  obtains w m where "instrumented_step K G True (new_instrumented boot_state) = Inr (Some w, m)"
proof -
  let ?m = "new_instrumented boot_state"
  obtain ipf mm where s: "instrumented_step K G True ?m =
       rbind (mips_step K G (set_mem mm (step_start True ?m))) (\<lambda>m'. Inr (Some (witness_of
         (encode_fields (mtree K (mleaf (flat (vs_mem (is_state ?m)))) 27 1) (is_state ?m)) (concat ipf) m'), m'))"
    "isim G K (flat (vs_mem (is_state ?m))) (- 1) (set_mem mm (step_start True ?m)) (step_start False ?m)"
    by (rule instrumented_step_True [OF vm_reach_inv [OF boot_reach]])
  then have mm: "mem_inv K mm" "flat mm = flat new_memory"
    by (auto simp: isim_def msim_def set_mem_def retag_def step_start_def covered_def new_instrumented_def boot_state_def)
  let ?n = "set_mem mm (step_start True ?m)"
  let ?n1 = "?n\<lparr>is_state := (is_state ?n)\<lparr>vs_step := vs_step (is_state ?n) + 1\<rparr>\<rparr>"
  have z: "slice_of (flat new_memory) 0 4 = [0, 0, 0, 0]"
    by (simp add: slice_of_4 flat_def new_memory_def)
  have a0: "(0 :: u32) AND 3 = 0" by simp
  have i: "mem_inv K (vs_mem (is_state ?n1))" using mm by (simp add: set_mem_def)
  obtain mm' where l: "load_word 0 ?n1 = Inr (flat_word (vs_mem (is_state ?n1)) 0, set_mem mm' ?n1)"
    by (rule load_word_eval [OF i a0])
  have "flat_word (vs_mem (is_state ?n1)) 0 = 0"
    using mm z by (simp add: flat_word_def set_mem_def get_u32_def be_dec_def)
  then have "mips_step K G ?n = exec_insn K G 0 (set_mem mm' ?n1)"
    using l by (simp add: mips_step_def set_mem_def step_start_def new_instrumented_def boot_state_def)
  also have "\<dots> = Inr (advance_pc (set_mem mm' ?n1))"
    by (simp add: exec_insn_def opcode_of_def operands_def mem_phase_def alu_phase_def fun_of_def
        execute_def execute_special_def alu_fun_def shamt_of_def write_back_def handle_rd_def)
  finally show ?thesis using that s(1) by simp
qed

theorem machine_invariant_witness:
  "\<forall>K G. \<exists>w m. instrumented_step K G True (new_instrumented boot_state) = Inr (w, m) \<and>
     length (vs_regs (is_state m)) = 32 \<and> vs_regs (is_state m) ! 0 = 0"
proof -
  have "\<exists>w m. instrumented_step K G True (new_instrumented boot_state) = Inr (w, m) \<and>
     length (vs_regs (is_state m)) = 32 \<and> vs_regs (is_state m) ! 0 = 0"
    for K :: "byte list \<Rightarrow> hash" and G :: "hash \<Rightarrow> byte list"
  proof -
    obtain w m where s: "instrumented_step K G True (new_instrumented boot_state) = Inr (Some w, m)"
      by (rule boot_step)
    then show ?thesis using machine_invariant [OF vm_reach.step [OF boot_reach s]] by blast
  qed
  then show ?thesis by blast
qed

text \<open>C1. The witness of a step is enough to replay it: its state part encodes the machine
  before the step with the memory's root, its first 28 nodes prove the instruction word,
  and either the step left the contents alone or the next 28 nodes prove, against the
  same root, the only word the step may have changed.\<close>

theorem step_witness_sound:
  assumes "vm_reach K G m" and "instrumented_step K G True m = Inr (Some wit, m')"
  shows "let c = flat (vs_mem (is_state m)); root = mtree K (mleaf c) 27 1; pc = vs_pc (is_state m)
    in sw_state wit = encode_fields root (is_state m) \<and>
      (\<exists>ipf mp. sw_mem_proof wit = concat ipf @ mp \<and> length ipf = 28 \<and>
         hd ipf = slice_of c (unat pc div 32 * 32) 32 \<and> proof_root K pc ipf = root \<and>
         (flat (vs_mem (is_state m')) = c \<or>
          (\<exists>L pf. L AND 3 = 0 \<and> mp = concat pf \<and> length pf = 28 \<and>
             hd pf = slice_of c (unat L div 32 * 32) 32 \<and> proof_root K L pf = root \<and>
             (\<forall>a. a div 4 \<noteq> unat L div 4 \<longrightarrow> flat (vs_mem (is_state m')) a = c a))))"
proof -
  obtain ipf mm where s: "instrumented_step K G True m =
       rbind (mips_step K G (set_mem mm (step_start True m))) (\<lambda>m'. Inr (Some (witness_of
         (encode_fields (mtree K (mleaf (flat (vs_mem (is_state m)))) 27 1) (is_state m)) (concat ipf) m'), m'))"
    "length ipf = 28" "hd ipf = slice_of (flat (vs_mem (is_state m))) (unat (vs_pc (is_state m)) div 32 * 32) 32"
    "proof_root K (vs_pc (is_state m)) ipf = mtree K (mleaf (flat (vs_mem (is_state m)))) 27 1"
    "isim G K (flat (vs_mem (is_state m))) (- 1) (set_mem mm (step_start True m)) (step_start False m)"
    by (rule instrumented_step_True [OF vm_reach_inv [OF assms(1)]])
  from assms(2) have r: "mips_step K G (set_mem mm (step_start True m)) = Inr m'"
    "wit = witness_of (encode_fields (mtree K (mleaf (flat (vs_mem (is_state m)))) 27 1) (is_state m)) (concat ipf) m'"
    unfolding s(1) by (auto simp: rbind_eq_Inr)
  obtain L where L: "covered K (flat (vs_mem (is_state m))) L m'"
    using mips_step_sim [OF s(5)] r(1) by (auto simp: isim_def elim!: rel_sum.cases)
  have w: "sw_state wit = encode_fields (mtree K (mleaf (flat (vs_mem (is_state m)))) 27 1) (is_state m)"
    "sw_mem_proof wit = concat ipf @ is_mem_proof m'"
    by (simp_all add: r(2) witness_of_def Let_def)
  show ?thesis
    using L unfolding Let_def w covered_def
    by (intro conjI refl exI [of _ ipf] exI [of _ "is_mem_proof m'"] s(2-4)) (metis (no_types, lifting))
qed

theorem step_witness_sound_witness:
  "\<forall>K G. \<exists>wit m'. instrumented_step K G True (new_instrumented boot_state) = Inr (Some wit, m') \<and>
     sw_state wit = encode_fields (mtree K (mleaf (flat new_memory)) 27 1) boot_state"
proof -
  have "\<exists>wit m'. instrumented_step K G True (new_instrumented boot_state) = Inr (Some wit, m') \<and>
     sw_state wit = encode_fields (mtree K (mleaf (flat new_memory)) 27 1) boot_state"
    for K :: "byte list \<Rightarrow> hash" and G :: "hash \<Rightarrow> byte list"
  proof -
    obtain w m where s: "instrumented_step K G True (new_instrumented boot_state) = Inr (Some w, m)"
      by (rule boot_step)
    have b: "is_state (new_instrumented boot_state) = boot_state" "vs_mem boot_state = new_memory"
      by (simp_all add: new_instrumented_def boot_state_def)
    from step_witness_sound [OF boot_reach s] show ?thesis using s unfolding Let_def b by blast
  qed
  then show ?thesis by blast
qed

definition vm_view where
  "vm_view m = (flat (vs_mem (is_state m)), (is_state m)\<lparr>vs_mem := new_memory\<rparr>, is_stdout m, is_stderr m,
     is_hints m, is_last_preimage m, is_last_key m, is_last_offset m)"

lemma isim_view: "isim G K c0 L m n \<Longrightarrow> vm_view n = vm_view m"
  by (auto simp: isim_def vm_view_def retag_def msim_def)

text \<open>C2. Recording proofs does not change the run: from any reachable machine, a step with
  \<^verbatim>\<open>proof = true\<close> panics exactly when the step with \<^verbatim>\<open>proof = false\<close> does, with the same
  panic, and otherwise both end with the same memory contents, registers, outputs, hints
  and pre-image cursor.\<close>

theorem proof_recording_transparent:
  assumes "vm_reach K G m"
  shows "map_sum id (\<lambda>(w, m'). vm_view m') (instrumented_step K G True m) =
    map_sum id (\<lambda>(w, m'). vm_view m') (instrumented_step K G False m)"
proof -
  obtain ipf mm where s: "instrumented_step K G True m =
       rbind (mips_step K G (set_mem mm (step_start True m))) (\<lambda>m'. Inr (Some (witness_of
         (encode_fields (mtree K (mleaf (flat (vs_mem (is_state m)))) 27 1) (is_state m)) (concat ipf) m'), m'))"
    "isim G K (flat (vs_mem (is_state m))) (- 1) (set_mem mm (step_start True m)) (step_start False m)"
    by (rule instrumented_step_True [OF vm_reach_inv [OF assms]])
  show ?thesis
    using mips_step_sim [OF s(2)] unfolding s(1) instrumented_step_False
    by (cases "mips_step K G (set_mem mm (step_start True m))"; cases "mips_step K G (step_start False m)")
      (auto simp: isim_view)
qed

theorem proof_recording_transparent_witness:
  "\<forall>K G. map_sum id (\<lambda>(w, m'). vm_view m') (instrumented_step K G True (new_instrumented boot_state)) =
    map_sum id (\<lambda>(w, m'). vm_view m') (instrumented_step K G False (new_instrumented boot_state))"
proof -
  have "map_sum id (\<lambda>(w, m'). vm_view m') (instrumented_step K G True (new_instrumented boot_state)) =
    map_sum id (\<lambda>(w, m'). vm_view m') (instrumented_step K G False (new_instrumented boot_state))"
    for K :: "byte list \<Rightarrow> hash" and G :: "hash \<Rightarrow> byte list"
    by (rule proof_recording_transparent [OF boot_reach])
  then show ?thesis by blast
qed

text \<open>C9. The state witness commits to every field: for a well-formed state the encoding is
  226 bytes long, reading the fields back from the offsets \<^verbatim>\<open>MIPS.sol\<close> uses gives the
  memory root and the state, and \<^verbatim>\<open>StateHash\<close> accepts it and puts the VM status in the
  first byte of the hash.\<close>

theorem state_witness_roundtrip:
  assumes "length (vs_regs s) = 32" and "length (vs_key s) = 32" and "length root = 32"
  shows "length (encode_fields root s) = 226 \<and>
    decode_witness (encode_fields root s) (r0, s0) =
      (root, s\<lparr>vs_mem := vs_mem s0, vs_last_hint := vs_last_hint s0\<rparr>) \<and>
    state_hash K (encode_fields root s) = Inr ((K (encode_fields root s))[0 := VMStatus s])"
proof -
  have wf: "vm_wf s" using assms by (simp add: vm_wf_def)
  have l: "length (encode_fields root s) = 226" by (rule encode_fields_length [OF wf assms(3)])
  have "encode_fields root s ! 88 = vs_exit_code s"
    "encode_fields root s ! 89 = (if vs_exited s then 1 else 0)"
    using assms by (simp_all add: encode_fields_def nth_append)
  then show ?thesis
    using l encode_fields_split [OF wf assms(3)] by (simp add: state_hash_def VMStatus_def)
qed

theorem state_witness_roundtrip_witness:
  "\<forall>K. state_hash K (encode_fields zero_hash32 boot_state) =
     Inr ((K (encode_fields zero_hash32 boot_state))[0 := 3])"
proof -
  have "state_hash K (encode_fields zero_hash32 boot_state) =
     Inr ((K (encode_fields zero_hash32 boot_state))[0 := 3])"
    for K :: "byte list \<Rightarrow> hash"
    using state_witness_roundtrip [of boot_state zero_hash32 "[]" boot_state K]
    by (simp add: boot_state_def VMStatus_def vm_status_def)
  then show ?thesis by blast
qed

end
