(* ===== verification/Mips_Insn_Props.thy ===== *)
theory Mips_Insn_Props
  imports Mips_Props
begin

text \<open>
  The properties of single instructions and system calls: shifts, counts, multiplication
  and division, partial and unaligned loads and stores, whole load and store steps, the
  hint buffer and the pre-image reads.
\<close>

section \<open>Arithmetic\<close>

text \<open>\<^verbatim>\<open>sra\<close> is the arithmetic shift, and so is \<^verbatim>\<open>srav\<close> for counts below 32; for a larger
  \<open>rs\<close>, where the architecture and the neighbouring cases \<^verbatim>\<open>sllv\<close> and \<^verbatim>\<open>srlv\<close> use its low five bits,
  \<^verbatim>\<open>srav\<close> returns 0 whatever it shifts.\<close>

theorem arithmetic_shifts:
  assumes "opcode_of insn = 0"
  shows "if fun_of insn = 3 then \<exists>v. execute insn rs rt mem = Inr v \<and> sint v = sint rt div 2 ^ unat (shamt_of insn)
    else if fun_of insn = 7 \<and> unat rs < 32 then \<exists>v. execute insn rs rt mem = Inr v \<and> sint v = sint rt div 2 ^ unat rs
    else if fun_of insn = 7 then execute insn rs rt mem = Inr 0
    else True"
proof -
  have sh: "unat (shamt_of insn) < 32"
    using unat_and_mask [of "drop_bit 6 insn" 5] by (simp add: shamt_of_def mask_eq_exp_minus_1)
  have z: "SE (shr rt rs) (32 - rs) = 0" if "\<not> unat rs < 32"
  proof -
    have "shr rt rs = 0"
    proof -
      have "(2::nat) ^ 32 \<le> 2 ^ unat rs" using that by (intro power_increasing) auto
      then have "unat rt < 2 ^ unat rs" using unat_lt [of rt] by simp
      then show ?thesis by (simp add: shr_def word_unat_eq_iff unat_drop_bit)
    qed
    then show ?thesis by (simp add: SE_def shr_def)
  qed
  show ?thesis
    using sint_drop_bit_SE [OF refl sh, of rt] sint_drop_bit_SE [OF refl, of rs rt] z assms
    by (simp add: execute_def execute_special_def alu_fun_def)
qed

theorem arithmetic_shifts_witness:
  "execute 0x00000007 33 0xFFFFFFFF 0 = Inr 0 \<and>
    (\<exists>v. execute 0x00000007 1 0xFFFFFFF0 0 = Inr v \<and> sint v = - 8)"
  using arithmetic_shifts [where insn = 7 and rs = 33 and rt = "0xFFFFFFFF" and mem = 0]
    arithmetic_shifts [where insn = 7 and rs = 1 and rt = "0xFFFFFFF0" and mem = 0]
  by (simp add: opcode_of_def fun_of_def)

text \<open>\<^verbatim>\<open>clz\<close> and \<^verbatim>\<open>clo\<close> count the leading zeros (ones) of \<open>rs\<close>: the result is the \<open>n\<close> such
  that the top \<open>n\<close> bits are clear (set) and the next one, if there is one, is not.\<close>

theorem count_leading:
  assumes "opcode_of insn = 0x1C" and "fun_of insn = 0x20 \<or> fun_of insn = 0x21"
  shows "\<exists>n \<le> 32. execute insn rs rt mem = Inr (of_nat n) \<and>
    (\<forall>j. j < n \<longrightarrow> (bit rs (31 - j) \<longleftrightarrow> fun_of insn = 0x21)) \<and>
    (n < 32 \<longrightarrow> (bit rs (31 - n) \<longleftrightarrow> fun_of insn = 0x20))"
proof -
  let ?w = "if fun_of insn = 0x20 then NOT rs else rs"
  let ?P = "\<lambda>n. n = 32 \<or> \<not> bit ?w (31 - n)"
  define n where "n = (LEAST n. ?P n)"
  have n: "?P n" unfolding n_def by (rule LeastI [of ?P 32]) simp
  have le: "n \<le> 32" unfolding n_def by (rule Least_le) simp
  have top: "bit ?w (31 - j)" if "j < n" for j using not_less_Least [of j ?P] that unfolding n_def by blast
  have c: "count_ones ?w 0 = of_nat n"
    using count_ones_spec [of 0 n ?w] le top n by auto
  have "execute insn rs rt mem = Inr (of_nat n)"
    using assms c by (auto simp: execute_def execute_other_def Let_def)
  moreover have "bit rs (31 - j) \<longleftrightarrow> fun_of insn = 0x21" if "j < n" for j
    using top [OF that] assms(2) by (auto simp: bit_not_iff)
  moreover have "bit rs (31 - n) \<longleftrightarrow> fun_of insn = 0x20" if "n < 32"
    using n assms(2) that by (auto simp: bit_not_iff)
  ultimately show ?thesis using le by blast
qed

theorem count_leading_witness:
  "\<exists>n \<le> 32. execute 0x70000020 0x00010000 0 0 = Inr (of_nat n) \<and> (\<forall>j. j < n \<longrightarrow> \<not> bit (0x00010000 :: u32) (31 - j))"
  using count_leading [where insn = "0x70000020" and rs = "0x00010000" and rt = 0 and mem = 0] by (auto simp: opcode_of_def fun_of_def)

text \<open>HI and LO after an operation, when it does not panic.\<close>

definition hi_lo_after :: "vm_panic + inst_state \<Rightarrow> (u32 \<times> u32) option" where
  "hi_lo_after r = (case r of Inl e \<Rightarrow> None | Inr m \<Rightarrow> Some (vs_hi (is_state m), vs_lo (is_state m)))"

lemma hi_lo_finish:
  "hi_lo_after (Inr (advance_pc (set_hi_lo hi lo m))) = Some (hi, lo)"
  "hi_lo_after (Inr (advance_pc (set_reg r v (set_hi_lo hi lo m)))) = Some (hi, lo)"
  by (simp_all add: hi_lo_after_def advance_pc_def set_pc_def set_reg_def set_hi_lo_def)

lemma sint_word_of_int_64: "- (2 ^ 63) \<le> k \<Longrightarrow> k < 2 ^ 63 \<Longrightarrow> sint (word_of_int k :: u64) = k"
  using signed_take_bit_int_eq_self [of 63 k] by (simp add: signed_of_int)

lemma sint_if_int:
  "0 \<le> k \<Longrightarrow> k < 2 ^ 32 \<Longrightarrow> sint (word_of_int k :: u32) = (if k < 2 ^ 31 then k else k - 2 ^ 32)"
  "0 \<le> k \<Longrightarrow> k < 2 ^ 64 \<Longrightarrow> sint (word_of_int k :: u64) = (if k < 2 ^ 63 then k else k - 2 ^ 64)"
proof -
  have z: "(4294967296 :: u32) = 0" "(18446744073709551616 :: u64) = 0" by simp_all
  have e: "(word_of_int (k - 2 ^ 32) :: u32) = word_of_int k" "(word_of_int (k - 2 ^ 64) :: u64) = word_of_int k"
    by (simp_all add: z)
  show "0 \<le> k \<Longrightarrow> k < 2 ^ 32 \<Longrightarrow> sint (word_of_int k :: u32) = (if k < 2 ^ 31 then k else k - 2 ^ 32)"
    using sint_word_of_int [of k] sint_word_of_int [of "k - 2 ^ 32", unfolded e] by auto
  show "0 \<le> k \<Longrightarrow> k < 2 ^ 64 \<Longrightarrow> sint (word_of_int k :: u64) = (if k < 2 ^ 63 then k else k - 2 ^ 64)"
    using sint_word_of_int_64 [of k] sint_word_of_int_64 [of "k - 2 ^ 64", unfolded e] by auto
qed

lemma uint_nonneg: "0 \<le> uint w"
  by simp

lemma sint_if:
  "sint (w :: u32) = (if uint w < 2 ^ 31 then uint w else uint w - 2 ^ 32)"
  "sint (v :: u64) = (if uint v < 2 ^ 63 then uint v else uint v - 2 ^ 64)"
  using sint_if_int(1) [of "uint w"] sint_if_int(2) [of "uint v"] uint_lt2p [of w] uint_lt2p [of v]
  by simp_all

lemma sint_split_acc:
  "sint (ucast (drop_bit 32 (acc :: u64)) :: u32) * 2 ^ 32 + uint (ucast acc :: u32) = sint acc"
proof -
  have k: "(h < 2 ^ 31) = (a < 2 ^ 63)" if "h * 2 ^ 32 + l = a" "0 \<le> l" "l < 2 ^ 32" for h l a :: int
    using that by auto
  define h l where "h = (ucast (drop_bit 32 acc) :: u32)" and "l = (ucast acc :: u32)"
  have s: "uint h * 2 ^ 32 + uint l = uint acc" unfolding h_def l_def by (rule split_acc)
  have "(uint h < 2 ^ 31) = (uint acc < 2 ^ 63)"
    by (rule k [OF s uint_nonneg]) (use uint_lt2p [of l] in simp)
  then have "sint h * 2 ^ 32 + uint l = sint acc" using s unfolding sint_if by (simp split: if_split)
  then show ?thesis by (simp only: h_def l_def)
qed

lemma sint_range: "- (2 ^ 31) \<le> sint (w :: u32)" "sint w < 2 ^ 31"
proof -
  have k: "- (2 ^ 31) \<le> (if k < 2 ^ 31 then k else k - 2 ^ 32) \<and> (if k < 2 ^ 31 then k else k - 2 ^ 32) < 2 ^ 31"
    if "0 \<le> k" "k < 2 ^ 32" for k :: int using that by auto
  show "- (2 ^ 31) \<le> sint w" "sint w < 2 ^ 31"
    unfolding sint_if(1) using k [OF uint_nonneg, of w] uint_lt2p [of w] by simp_all
qed

lemma sint_mult_64: "sint ((scast rs :: u64) * scast (rt :: u32)) = sint (rs :: u32) * sint rt"
proof -
  have "\<bar>sint rs * sint rt\<bar> \<le> 2 ^ 31 * 2 ^ 31"
    unfolding abs_mult using sint_range [of rs] sint_range [of rt] by (intro mult_mono) auto
  then have "sint (word_of_int (sint rs * sint rt) :: u64) = sint rs * sint rt"
    by (intro sint_word_of_int_64) auto
  then show ?thesis by simp
qed

lemma sint_div:
  assumes "rt \<noteq> 0"
  shows "sint (word_of_int (sint rs smod sint rt) :: u32) = sint (rs :: u32) smod sint (rt :: u32)"
    and "sint (word_of_int (sint rs sdiv sint rt) :: u32) =
      (if sint rs = - (2 ^ 31) \<and> sint rt = - 1 then - (2 ^ 31) else sint rs sdiv sint rt)"
proof -
  have b: "sint rt \<noteq> 0" using assms uint_lt2p [of rt] unfolding sint_if by (auto simp: uint_0_iff)
  have "\<bar>sint rt\<bar> \<le> 2 ^ 31" using sint_range [of rt] by auto
  then show "sint (word_of_int (sint rs smod sint rt) :: u32) = sint rs smod sint rt"
    using smod_int_range [OF b, of "sint rs"] by (intro sint_word_of_int) auto
  show "sint (word_of_int (sint rs sdiv sint rt) :: u32) =
      (if sint rs = - (2 ^ 31) \<and> sint rt = - 1 then - (2 ^ 31) else sint rs sdiv sint rt)"
  proof (cases "sint rs = - (2 ^ 31) \<and> sint rt = - 1")
    case False
    have r: "sint rs sdiv sint rt \<in> {- \<bar>sint rs\<bar>..\<bar>sint rs\<bar>}" by (rule sdiv_int_range)
    have "sint rs sdiv sint rt < 2 ^ 31"
    proof (cases "sint rs = - (2 ^ 31)")
      case True
      then have "sint rt \<noteq> - 1" using False by simp
      then consider "sint rt = 1" | "2 \<le> \<bar>sint rt\<bar>" using b by linarith
      then show ?thesis
      proof cases
        case 2
        then have "(2 ^ 31 :: int) div \<bar>sint rt\<bar> \<le> 2 ^ 31 div 2" by (intro zdiv_mono2) auto
        then have "\<bar>sint rs sdiv sint rt\<bar> \<le> 2 ^ 30"
          using True b pos_imp_zdiv_nonneg_iff [of "\<bar>sint rt\<bar>" "2 ^ 31"]
          by (cases "0 < sint rt") (simp_all add: signed_divide_int_def abs_mult)
        then show ?thesis by simp
      qed (use True in simp)
    next
      case False
      then have "\<bar>sint rs\<bar> < 2 ^ 31" using sint_range [of rs] by auto
      then show ?thesis using r by auto
    qed
    then show ?thesis using False r sint_range [of rs] by (subst sint_word_of_int) auto
  next
    case True
    then show ?thesis using sint_if_int(1) [of "2 ^ 31"] by simp
  qed
qed

text \<open>Multiplication leaves the exact 64-bit product in HI and LO, unsigned and signed;
  division by zero panics; otherwise unsigned division leaves quotient and remainder, and
  signed division leaves the truncated quotient and remainder, except that the quotient of
  the smallest integer by -1 wraps.\<close>

theorem multiply_divide:
  "(\<exists>hi lo. hi_lo_after (handle_hi_lo 0x19 rs rt r m) = Some (hi, lo) \<and>
      uint hi * 2 ^ 32 + uint lo = uint rs * uint rt) \<and>
   (\<exists>hi lo. hi_lo_after (handle_hi_lo 0x18 rs rt r m) = Some (hi, lo) \<and>
      sint hi * 2 ^ 32 + uint lo = sint rs * sint rt) \<and>
   (if rt = 0 then handle_hi_lo 0x1a rs rt r m = Inl DivideByZero \<and> handle_hi_lo 0x1b rs rt r m = Inl DivideByZero
    else hi_lo_after (handle_hi_lo 0x1b rs rt r m) = Some (rs mod rt, rs div rt) \<and>
      (\<exists>hi lo. hi_lo_after (handle_hi_lo 0x1a rs rt r m) = Some (hi, lo) \<and>
         sint hi = sint rs smod sint rt \<and>
         sint lo = (if sint rs = - (2 ^ 31) \<and> sint rt = - 1 then - (2 ^ 31) else sint rs sdiv sint rt)))"
proof -
  have u: "uint (ucast (drop_bit 32 ((ucast rs :: u64) * ucast rt)) :: u32) * 2 ^ 32 +
      uint (ucast ((ucast rs :: u64) * ucast rt) :: u32) = uint rs * uint rt"
    unfolding split_acc uint_mult_64 ..
  have s: "sint (ucast (drop_bit 32 ((scast rs :: u64) * scast rt)) :: u32) * 2 ^ 32 +
      uint (ucast ((scast rs :: u64) * scast rt) :: u32) = sint rs * sint rt"
    unfolding sint_split_acc sint_mult_64 ..
  have "\<exists>hi lo. hi_lo_after (handle_hi_lo 0x19 rs rt r m) = Some (hi, lo) \<and>
      uint hi * 2 ^ 32 + uint lo = uint rs * uint rt"
    using u by (simp add: handle_hi_lo_def Let_def hi_lo_finish del: of_int_numeral)
  moreover have "\<exists>hi lo. hi_lo_after (handle_hi_lo 0x18 rs rt r m) = Some (hi, lo) \<and>
      sint hi * 2 ^ 32 + uint lo = sint rs * sint rt"
    using s by (simp add: handle_hi_lo_def Let_def hi_lo_finish)
  ultimately show ?thesis
    using sint_div [of rt rs] by (simp add: handle_hi_lo_def Let_def hi_lo_finish)
qed

section \<open>Unaligned words\<close>

lemma unat_and_3: "unat (a AND 3 :: u32) = unat a mod 4"
  using unat_and_mask [of a 2] by (simp add: mask_eq_exp_minus_1)

text \<open>The pair \<^verbatim>\<open>lwl rt, 0(a)\<close>, \<^verbatim>\<open>lwr rt, 3(a)\<close> loads the four bytes at \<open>a\<close>, at any
  alignment, whatever \<open>rt\<close> held.\<close>

theorem unaligned_load:
  assumes "opcode_of i1 = 0x22" and "opcode_of i2 = 0x26" and "unat a + 3 < 2 ^ 32"
  shows "\<exists>v1 v2. execute i1 a rt (word_at c (unat a)) = Inr v1 \<and>
    execute i2 (a + 3) v1 (word_at c (unat a + 3)) = Inr v2 \<and> put_u32 v2 = slice_of c (unat a) 4"
proof -
  have u: "unat (a + 3) = unat a + 3" using assms(3) by (simp add: unat_word_ariths(1))
  obtain v1 where v1: "execute i1 a rt (word_at c (unat a)) = Inr v1"
    "put_u32 v1 = load_bytes 0x22 (unat a mod 4) (slice_of c (unat a div 4 * 4) 4) (put_u32 rt)"
    using execute_load [of i1 a rt "word_at c (unat a)"] assms(1) by (auto simp: unat_and_3 put_word_at)
  obtain v2 where v2: "execute i2 (a + 3) v1 (word_at c (unat a + 3)) = Inr v2"
    "put_u32 v2 = load_bytes 0x26 ((unat a + 3) mod 4) (slice_of c ((unat a + 3) div 4 * 4) 4) (put_u32 v1)"
    using execute_load [of i2 "a + 3" v1 "word_at c (unat a + 3)"] assms(2) by (auto simp: unat_and_3 u put_word_at)
  show ?thesis using v1 v2 load_pair_bytes [of "put_u32 rt" "unat a" c] by auto
qed

theorem unaligned_load_witness:
  "\<exists>v1 v2. execute 0x88000000 5 0xDEADBEEF (word_at of_nat 5) = Inr v1 \<and>
    execute 0x98000003 8 v1 (word_at of_nat 8) = Inr v2 \<and> put_u32 v2 = [5, 6, 7, 8]"
  using unaligned_load [of "0x88000000" "0x98000003" 5 "0xDEADBEEF" of_nat]
  by (simp add: opcode_of_def slice_of_4)

text \<open>The pair \<^verbatim>\<open>swl rt, 0(a)\<close>, \<^verbatim>\<open>swr rt, 3(a)\<close> at an address that is not a multiple of four
  writes exactly the four bytes of \<open>rt\<close> at \<open>a\<close> and keeps the other bytes of the two words
  they touch.\<close>

theorem unaligned_store:
  assumes "opcode_of i1 = 0x2a" and "opcode_of i2 = 0x2e" and "unat a + 3 < 2 ^ 32" and "unat a mod 4 \<noteq> 0"
  shows "\<exists>v1 v2. execute i1 a rt (word_at c (unat a)) = Inr v1 \<and>
    execute i2 (a + 3) rt (word_at c (unat a + 3)) = Inr v2 \<and>
    put_u32 v1 @ put_u32 v2 = slice_of (write_bytes c (unat a) (put_u32 rt)) (unat a div 4 * 4) 8"
proof -
  have u: "unat (a + 3) = unat a + 3" using assms(3) by (simp add: unat_word_ariths(1))
  obtain v1 where v1: "execute i1 a rt (word_at c (unat a)) = Inr v1"
    "put_u32 v1 = store_bytes 0x2a (unat a mod 4) (slice_of c (unat a div 4 * 4) 4) (put_u32 rt)"
    using execute_store [of i1 a rt "word_at c (unat a)"] assms(1) by (auto simp: unat_and_3 put_word_at)
  obtain v2 where v2: "execute i2 (a + 3) rt (word_at c (unat a + 3)) = Inr v2"
    "put_u32 v2 = store_bytes 0x2e ((unat a + 3) mod 4) (slice_of c ((unat a + 3) div 4 * 4) 4) (put_u32 rt)"
    using execute_store [of i2 "a + 3" rt "word_at c (unat a + 3)"] assms(2) by (auto simp: unat_and_3 u put_word_at)
  show ?thesis using v1 v2 store_pair_bytes [OF length_put(2) assms(4), of c rt] by auto
qed

theorem unaligned_store_witness:
  "\<exists>v1 v2. execute 0xA8000000 5 0xDEADBEEF (word_at of_nat 5) = Inr v1 \<and>
    execute 0xB8000003 8 0xDEADBEEF (word_at of_nat 8) = Inr v2 \<and>
    put_u32 v1 @ put_u32 v2 = [4, 0xDE, 0xAD, 0xBE, 0xEF, 9, 10, 11]"
proof -
  have "put_u32 0xDEADBEEF = [0xDE, 0xAD, 0xBE, 0xEF]" by (simp add: put_u32_bytes)
  then show ?thesis
    using unaligned_store [of "0xA8000000" "0xB8000003" 5 "0xDEADBEEF" of_nat]
    by (simp add: opcode_of_def slice_of_8 write_bytes_def)
qed

section \<open>Whole load and store steps\<close>

text \<open>The fields of a fetched instruction and its effective address.\<close>

definition rs_of :: "u32 \<Rightarrow> u32" where "rs_of insn = drop_bit 21 insn AND 0x1F"
definition rt_of :: "u32 \<Rightarrow> u32" where "rt_of insn = drop_bit 16 insn AND 0x1F"

definition ea_of :: "u32 \<Rightarrow> inst_state \<Rightarrow> u32" where
  "ea_of insn m = reg m (rs_of insn) + SE (insn AND 0xFFFF) 16"

lemma reg_step [simp]:
  "reg (set_mem mm m) i = reg m i" "reg (step_start b m) i = reg m i"
  "reg (m\<lparr>is_state := (is_state m)\<lparr>vs_step := s\<rparr>\<rparr>) i = reg m i"
  by (simp_all add: reg_def set_mem_def step_start_def)

text \<open>A step up to the execution of the fetched instruction, when no proofs are recorded.\<close>

lemma step_fetch:
  assumes inv: "vm_inv K G m" and ex: "\<not> vs_exited (is_state m)" and pc: "vs_pc (is_state m) AND 3 = 0"
  obtains mm where "mem_inv K mm" "flat mm = flat (vs_mem (is_state m))"
    "instrumented_step K G False m =
       rbind (exec_insn K G (flat_word (vs_mem (is_state m)) (vs_pc (is_state m)))
         ((step_start False m)\<lparr>is_state := (is_state m)\<lparr>vs_step := vs_step (is_state m) + 1, vs_mem := mm\<rparr>\<rparr>))
       (\<lambda>m'. Inr (None, m'))"
proof -
  let ?m = "step_start False m"
  let ?m1 = "?m\<lparr>is_state := (is_state ?m)\<lparr>vs_step := vs_step (is_state ?m) + 1\<rparr>\<rparr>"
  have i: "mem_inv K (vs_mem (is_state ?m1))" using inv by (simp add: vm_inv_def step_start_def)
  obtain mm where mm: "load_word (vs_pc (is_state m)) ?m1 =
      Inr (flat_word (vs_mem (is_state ?m1)) (vs_pc (is_state m)), set_mem mm ?m1)"
    "mem_inv K mm" "flat mm = flat (vs_mem (is_state ?m1))"
    by (rule load_word_eval [OF i pc])
  have "mips_step K G ?m = exec_insn K G (flat_word (vs_mem (is_state m)) (vs_pc (is_state m))) (set_mem mm ?m1)"
    using mm(1) ex by (simp add: mips_step_def Let_def step_start_def)
  then show ?thesis
    using that [OF mm(2)] mm(3) by (simp add: instrumented_step_False step_start_def set_mem_def)
qed

text \<open>Writing back a word of which only a part has changed writes that part.\<close>

lemma write_part:
  assumes "k + length d \<le> n"
  shows "write_bytes c e (take k (slice_of c e n) @ d @ drop (k + length d) (slice_of c e n)) = write_bytes c (e + k) d"
  using assms by (intro ext) (auto simp: write_bytes_def slice_of_def nth_append)

lemma store_bytes_parts:
  assumes "w = [w0, w1, w2, w3]" "r = [x0, x1, x2, x3]"
    and "op = 0x28 \<and> k < 4 \<and> n = 1 \<or> op = 0x29 \<and> (k = 0 \<or> k = 2) \<and> n = 2 \<or> op = 0x2b \<and> k = 0 \<and> n = 4"
  shows "store_bytes op k w r = take k w @ drop (4 - n) r @ drop (k + length (drop (4 - n) r)) w"
proof -
  consider "op = 0x28" "n = 1" "k = 0" | "op = 0x28" "n = 1" "k = 1" | "op = 0x28" "n = 1" "k = 2"
    | "op = 0x28" "n = 1" "k = 3" | "op = 0x29" "n = 2" "k = 0" | "op = 0x29" "n = 2" "k = 2" | "op = 0x2b" "n = 4" "k = 0"
  proof -
    have "k < 4 \<Longrightarrow> k = 0 \<or> k = 1 \<or> k = 2 \<or> k = 3" by presburger
    then show ?thesis using assms(3) that by metis
  qed
  then show ?thesis by cases (simp_all add: store_bytes_def assms(1,2))
qed

lemma write_store_bytes:
  assumes "op = 0x28 \<and> k < 4 \<and> n = 1 \<or> op = 0x29 \<and> (k = 0 \<or> k = 2) \<and> n = 2 \<or> op = 0x2b \<and> k = 0 \<and> n = 4"
  shows "write_bytes c e (store_bytes op k (slice_of c e 4) (put_u32 r)) = write_bytes c (e + k) (drop (4 - n) (put_u32 r))"
proof -
  obtain x0 x1 x2 x3 where r: "put_u32 r = [x0, x1, x2, x3]" by (rule put_u32_cases)
  have "k + length (drop (4 - n) (put_u32 r)) \<le> 4" using assms by auto
  from write_part [OF this, of c e] show ?thesis
    using store_bytes_parts [OF slice_of_4 r assms, of c e] by simp
qed

lemma ea_split: "unat (a AND 0xFFFFFFFC :: u32) = unat a div 4 * 4"
proof -
  have m: "(0xFFFFFFFF :: u32) = - 1" by simp
  have o: "(0xFFFFFFFC :: u32) OR 3 = - 1" unfolding m [symmetric] by simp
  have "(a AND 0xFFFFFFFC) OR (a AND 3) = a AND (0xFFFFFFFC OR 3)" by (rule bit.conj_disj_distrib [symmetric])
  also have "\<dots> = a" unfolding o by simp
  finally have "(a AND 0xFFFFFFFC) OR (a AND 3) = a" .
  moreover have "(a AND 0xFFFFFFFC) AND (a AND 3) = 0" by (simp add: and.assoc and.left_commute [of _ a])
  ultimately have "(a AND 0xFFFFFFFC) + (a AND 3) = a" by (simp add: disjunctive_add_eq_or)
  then have "a AND 0xFFFFFFFC = a - (a AND 3)" by (simp add: eq_diff_eq)
  moreover have "unat (a AND 3) \<le> unat a" by (simp add: unat_and_3)
  ultimately have "unat (a AND 0xFFFFFFFC) = unat a - unat a mod 4"
    by (simp add: unat_sub word_le_nat_alt unat_and_3)
  then show ?thesis by (simp add: minus_mod_eq_div_mult)
qed

lemma fields_small: "unat (rt_of insn) < 32" "\<not> 32 \<le> rt_of insn"
proof -
  show "unat (rt_of insn) < 32"
    using unat_and_mask [of "drop_bit 16 insn" 5] by (simp add: rt_of_def mask_eq_exp_minus_1)
  then show "\<not> 32 \<le> rt_of insn" by (simp add: word_le_nat_alt)
qed

text \<open>C6. A store instruction executed by a whole step writes exactly the low bytes of \<open>rt\<close> at
  the effective address: one for \<^verbatim>\<open>sb\<close>, two for \<^verbatim>\<open>sh\<close> and four for \<^verbatim>\<open>sw\<close> (at their natural
  alignment), changes no register, and goes on to the next instruction.\<close>

theorem store_step:
  assumes "vm_reach K G m" and "\<not> vs_exited (is_state m)" and "vs_pc (is_state m) AND 3 = 0"
    and "insn = flat_word (vs_mem (is_state m)) (vs_pc (is_state m))"
    and "(opcode_of insn, n) \<in> {(0x28, 1), (0x29, 2), (0x2b, 4)}" and "unat (ea_of insn m) mod n = 0"
  shows "\<exists>m'. instrumented_step K G False m = Inr (None, m') \<and>
    flat (vs_mem (is_state m')) = write_bytes (flat (vs_mem (is_state m))) (unat (ea_of insn m))
      (drop (4 - n) (put_u32 (reg m (rt_of insn)))) \<and>
    vs_regs (is_state m') = vs_regs (is_state m) \<and>
    vs_pc (is_state m') = vs_next_pc (is_state m) \<and> vs_next_pc (is_state m') = vs_next_pc (is_state m) + 4"
proof -
  have inv: "vm_inv K G m" by (rule vm_reach_inv [OF assms(1)])
  obtain mm where mm: "mem_inv K mm" "flat mm = flat (vs_mem (is_state m))"
    "instrumented_step K G False m = rbind (exec_insn K G insn
         ((step_start False m)\<lparr>is_state := (is_state m)\<lparr>vs_step := vs_step (is_state m) + 1, vs_mem := mm\<rparr>\<rparr>))
       (\<lambda>m'. Inr (None, m'))"
    using step_fetch [OF inv assms(2,3)] assms(4) by blast
  define m1 where "m1 = (step_start False m)\<lparr>is_state := (is_state m)\<lparr>vs_step := vs_step (is_state m) + 1, vs_mem := mm\<rparr>\<rparr>"
  let ?ea = "ea_of insn m" and ?a = "ea_of insn m AND 0xFFFFFFFC" and ?rt = "reg m (rt_of insn)"
  have al: "?a AND 3 = 0" by simp
  have nm: "?a \<noteq> 0xFFFFFFFF" using aligned_not_max [OF al] by auto
  have r1: "reg m1 i = reg m i" for i by (simp add: m1_def reg_def)
  have pe: "is_proof_enabled (set_mem x m1) = False" "is_proof_enabled m1 = False" for x
    by (simp_all add: m1_def step_start_def set_mem_def)
  have i1: "mem_inv K (vs_mem (is_state m1))" using mm by (simp add: m1_def)
  obtain m2 where m2: "load_word ?a m1 = Inr (flat_word (vs_mem (is_state m1)) ?a, set_mem m2 m1)"
    "mem_inv K m2" "flat m2 = flat (vs_mem (is_state m1))" by (rule load_word_eval [OF i1 al])
  define w where "w = flat_word (vs_mem (is_state m1)) ?a"
  have pw: "put_u32 w = slice_of (flat (vs_mem (is_state m))) (unat ?ea div 4 * 4) 4"
    using mm(2) by (simp add: w_def flat_word_def m1_def ea_split put_get_u32 slice_of_def)
  have op: "opcode_of insn \<in> {0x28, 0x29, 0x2a, 0x2b, 0x2e, 0x38}" using assms(5) by auto
  obtain v where v: "execute insn ?ea ?rt w = Inr v"
    "put_u32 v = store_bytes (opcode_of insn) (unat ?ea mod 4) (put_u32 w) (put_u32 ?rt)"
    using execute_store [OF op, of ?ea ?rt w] by (auto simp: unat_and_3)
  have i2: "mem_inv K (vs_mem (is_state (set_mem m2 m1)))" using m2 by (simp add: set_mem_def)
  obtain m3 where m3: "store_word ?a v (set_mem m2 m1) = Inr (set_mem m3 (set_mem m2 m1))"
    "flat m3 = write_bytes (flat (vs_mem (is_state (set_mem m2 m1)))) (unat ?a) (put_u32 v)"
    by (rule store_word_eval [OF i2 al])
  have ea: "reg m (drop_bit 21 insn AND 0x1F) + SE (insn AND 0xFFFF) 16 = ?ea"
    "reg m (drop_bit 16 insn AND 0x1F) = ?rt" by (simp_all add: ea_of_def rs_of_def rt_of_def)
  have o: "operands (opcode_of insn) insn m1 = (?rt, rt_of insn)"
    using assms(5) by (auto simp: operands_def r1 rt_of_def Let_def)
  have mp: "mem_phase K (opcode_of insn) insn (reg m1 (drop_bit 21 insn AND 0x1F)) (rt_of insn) m1 =
      Inr (?ea, w, ?a, 0, set_mem m2 m1)"
    using assms(5) unfolding mem_phase_def Let_def r1 ea
    by (auto simp: track_mem_access_def pe m2(1) w_def)
  have wb: "write_back K (opcode_of insn) (drop_bit 16 insn AND 0x1F) ?a v 0 (set_mem m2 m1) =
      Inr (advance_pc (set_mem m3 (set_mem m2 m1)))"
    using assms(5) nm by (auto simp: write_back_def track_mem_access_def pe m3(1) handle_rd_def)
  have ap: "alu_phase K G insn ?rt ?ea w ?a 0 (set_mem m2 m1) = Inr (advance_pc (set_mem m3 (set_mem m2 m1)))"
    using assms(5) v(1) wb by (auto simp: alu_phase_def Let_def)
  have ex: "exec_insn K G insn m1 = Inr (advance_pc (set_mem m3 (set_mem m2 m1)))"
    using assms(5) unfolding exec_insn_def Let_def o mp prod.case rbind_simps ap by auto
  have "opcode_of insn = 0x28 \<and> unat ?ea mod 4 < 4 \<and> n = 1 \<or> opcode_of insn = 0x29 \<and> (unat ?ea mod 4 = 0 \<or> unat ?ea mod 4 = 2) \<and> n = 2
     \<or> opcode_of insn = 0x2b \<and> unat ?ea mod 4 = 0 \<and> n = 4"
    using assms(5,6) by (elim insertE emptyE) (simp_all, presburger+)
  from write_store_bytes [OF this] have "flat m3 = write_bytes (flat (vs_mem (is_state m))) (unat ?ea) (drop (4 - n) (put_u32 ?rt))"
    using m3(2) m2(3) mm(2) by (simp add: set_mem_def m1_def v(2) pw ea_split)
  then show ?thesis using mm(3) ex unfolding m1_def [symmetric]
    by (simp add: advance_pc_def set_pc_def set_mem_def) (simp add: m1_def)
qed

text \<open>Running a step from a machine with one given instruction at address 0.\<close>

definition loaded_with :: "u32 \<Rightarrow> u32 list \<Rightarrow> memory \<Rightarrow> inst_state" where
  "loaded_with pc regs mem = new_instrumented (boot_state\<lparr>vs_mem := mem, vs_pc := pc, vs_next_pc := pc + 4, vs_regs := regs\<rparr>)"

lemma loaded_program:
  assumes "length regs = 32" "regs ! 0 = 0"
  obtains mem where "set_memory new_memory 0 insn = Inr mem" "vm_reach K G (loaded_with 0 regs mem)"
    "flat_word mem 0 = insn" "flat mem = write_bytes (flat new_memory) 0 (put_u32 insn)"
proof -
  have a: "(0 :: u32) AND 3 = 0" by simp
  obtain mem where m: "set_memory new_memory 0 insn = Inr mem"
    "flat mem = write_bytes (flat new_memory) (unat (0 :: u32)) (put_u32 insn)"
    by (rule set_memory_ok [OF mem_inv_new a])
  have "vm_reach K G (loaded_with 0 regs mem)"
    unfolding loaded_with_def using assms mem_reach.set [OF mem_reach.fresh m(1)]
    by (intro vm_reach.init) (simp_all add: boot_state_def)
  moreover have "flat_word mem 0 = insn" using flat_word_write [OF m(2) a a] by simp
  ultimately show ?thesis using that m by simp
qed

theorem store_step_witness:
  "\<forall>K G. \<exists>mem m'. set_memory new_memory 0 0xA0020105 = Inr mem \<and>
     instrumented_step K G False (loaded_with 0 ((replicate 32 0)[2 := 0xAABBCCDD]) mem) = Inr (None, m') \<and>
     flat (vs_mem (is_state m')) = write_bytes (flat mem) 0x105 [0xDD]"
proof -
  have "\<exists>mem m'. set_memory new_memory 0 0xA0020105 = Inr mem \<and>
     instrumented_step K G False (loaded_with 0 ((replicate 32 0)[2 := 0xAABBCCDD]) mem) = Inr (None, m') \<and>
     flat (vs_mem (is_state m')) = write_bytes (flat mem) 0x105 [0xDD]"
    for K :: "byte list \<Rightarrow> hash" and G :: "hash \<Rightarrow> byte list"
  proof -
    let ?regs = "(replicate 32 0)[2 := 0xAABBCCDD] :: u32 list"
    obtain mem where mem: "set_memory new_memory 0 0xA0020105 = Inr mem" "vm_reach K G (loaded_with 0 ?regs mem)"
      "flat_word mem 0 = 0xA0020105" by (rule loaded_program [where regs = ?regs and insn = "0xA0020105" and K = K and G = G]) simp_all
    let ?m = "loaded_with 0 ?regs mem"
    have s: "vs_mem (is_state ?m) = mem" "vs_pc (is_state ?m) = 0" "\<not> vs_exited (is_state ?m)"
      by (simp_all add: loaded_with_def new_instrumented_def boot_state_def)
    have se: "SE 0x105 16 = 0x105" using SE_eq [of 16 16 "0x105"] by simp
    have f: "ea_of 0xA0020105 ?m = 0x105" "rt_of 0xA0020105 = 2" "reg ?m 2 = 0xAABBCCDD"
      using se by (simp_all add: ea_of_def rs_of_def rt_of_def reg_def loaded_with_def new_instrumented_def)
    have p: "drop 3 (put_u32 0xAABBCCDD) = [0xDD]" by (simp add: put_u32_bytes)
    show ?thesis
      using store_step [OF mem(2), where insn = "0xA0020105" and n = 1] mem(1,3) s f p
      by (auto simp: opcode_of_def)
  qed
  then show ?thesis by blast
qed

lemma load_bytes_rt: "op \<noteq> 0x22 \<Longrightarrow> op \<noteq> 0x26 \<Longrightarrow> load_bytes op k w r = load_bytes op k w r'"
  by (simp add: load_bytes_def Let_def)

text \<open>C7. A load instruction executed by a whole step leaves in \<open>rt\<close> the bytes the MIPS manual
  prescribes for the word at the effective address (sign-extended, zero-extended or
  merged with the old register), keeps the memory and the other registers, and goes on
  to the next instruction; register 0 stays zero.\<close>

theorem load_step:
  assumes "vm_reach K G m" and "\<not> vs_exited (is_state m)" and "vs_pc (is_state m) AND 3 = 0"
    and "insn = flat_word (vs_mem (is_state m)) (vs_pc (is_state m))"
    and "opcode_of insn \<in> {0x20, 0x21, 0x22, 0x23, 0x24, 0x25, 0x26, 0x30}"
  shows "\<exists>m' v. instrumented_step K G False m = Inr (None, m') \<and>
    put_u32 v = load_bytes (opcode_of insn) (unat (ea_of insn m) mod 4)
      (slice_of (flat (vs_mem (is_state m))) (unat (ea_of insn m) div 4 * 4) 4) (put_u32 (reg m (rt_of insn))) \<and>
    vs_regs (is_state m') = (if rt_of insn = 0 then vs_regs (is_state m)
      else (vs_regs (is_state m))[unat (rt_of insn) := v]) \<and>
    flat (vs_mem (is_state m')) = flat (vs_mem (is_state m)) \<and>
    vs_pc (is_state m') = vs_next_pc (is_state m) \<and> vs_next_pc (is_state m') = vs_next_pc (is_state m) + 4"
proof -
  have inv: "vm_inv K G m" by (rule vm_reach_inv [OF assms(1)])
  obtain mm where mm: "mem_inv K mm" "flat mm = flat (vs_mem (is_state m))"
    "instrumented_step K G False m = rbind (exec_insn K G insn
         ((step_start False m)\<lparr>is_state := (is_state m)\<lparr>vs_step := vs_step (is_state m) + 1, vs_mem := mm\<rparr>\<rparr>))
       (\<lambda>m'. Inr (None, m'))"
    using step_fetch [OF inv assms(2,3)] assms(4) by blast
  define m1 where "m1 = (step_start False m)\<lparr>is_state := (is_state m)\<lparr>vs_step := vs_step (is_state m) + 1, vs_mem := mm\<rparr>\<rparr>"
  let ?ea = "ea_of insn m" and ?a = "ea_of insn m AND 0xFFFFFFFC"
  define rt where "rt = (if opcode_of insn = 0x22 \<or> opcode_of insn = 0x26 \<or> opcode_of insn = 0x30 then reg m (rt_of insn) else 0)"
  have al: "?a AND 3 = 0" by simp
  have r1: "reg m1 i = reg m i" for i by (simp add: m1_def reg_def)
  have pe: "is_proof_enabled m1 = False" by (simp add: m1_def step_start_def)
  have i1: "mem_inv K (vs_mem (is_state m1))" using mm by (simp add: m1_def)
  obtain m2 where m2: "load_word ?a m1 = Inr (flat_word (vs_mem (is_state m1)) ?a, set_mem m2 m1)"
    "mem_inv K m2" "flat m2 = flat (vs_mem (is_state m1))" by (rule load_word_eval [OF i1 al])
  define w where "w = flat_word (vs_mem (is_state m1)) ?a"
  have pw: "put_u32 w = slice_of (flat (vs_mem (is_state m))) (unat ?ea div 4 * 4) 4"
    using mm(2) by (simp add: w_def flat_word_def m1_def ea_split put_get_u32 slice_of_def)
  obtain v where v: "execute insn ?ea rt w = Inr v"
    "put_u32 v = load_bytes (opcode_of insn) (unat ?ea mod 4) (put_u32 w) (put_u32 rt)"
    using execute_load [OF assms(5), of ?ea rt w] by (auto simp: unat_and_3)
  have lb: "put_u32 v = load_bytes (opcode_of insn) (unat ?ea mod 4) (put_u32 w) (put_u32 (reg m (rt_of insn)))"
    using v(2) load_bytes_rt [of "opcode_of insn"] by (auto simp: rt_def)
  have ea: "reg m (drop_bit 21 insn AND 0x1F) + SE (insn AND 0xFFFF) 16 = ?ea"
    "reg m (drop_bit 16 insn AND 0x1F) = reg m (rt_of insn)" by (simp_all add: ea_of_def rs_of_def rt_of_def)
  have o: "operands (opcode_of insn) insn m1 = (rt, rt_of insn)"
    using assms(5) by (auto simp: operands_def r1 rt_of_def rt_def Let_def)
  have mp: "mem_phase K (opcode_of insn) insn (reg m1 (drop_bit 21 insn AND 0x1F)) (rt_of insn) m1 =
      Inr (?ea, w, 0xFFFFFFFF, rt_of insn, set_mem m2 m1)"
    using assms(5) unfolding mem_phase_def Let_def r1 ea
    by (auto simp: track_mem_access_def pe m2(1) w_def)
  let ?m3 = "advance_pc (if rt_of insn \<noteq> 0 then set_reg (rt_of insn) v (set_mem m2 m1) else set_mem m2 m1)"
  have wb: "write_back K (opcode_of insn) (drop_bit 16 insn AND 0x1F) 0xFFFFFFFF v (rt_of insn) (set_mem m2 m1) = Inr ?m3"
    using assms(5) fields_small(2) [of insn] by (auto simp: write_back_def handle_rd_def)
  have ap: "alu_phase K G insn rt ?ea w 0xFFFFFFFF (rt_of insn) (set_mem m2 m1) = Inr ?m3"
    using assms(5) v(1) wb by (auto simp: alu_phase_def Let_def)
  have ex: "exec_insn K G insn m1 = Inr ?m3"
    using assms(5) unfolding exec_insn_def Let_def o mp prod.case rbind_simps ap by auto
  show ?thesis
    using mm(3) ex lb m2(3) mm(2) unfolding m1_def [symmetric] pw
    by (auto simp: advance_pc_def set_pc_def set_mem_def set_reg_def m1_def step_start_def)
qed

theorem load_step_witness:
  "\<forall>K G. \<exists>mem m' v. set_memory new_memory 0 0x80020001 = Inr mem \<and>
     instrumented_step K G False (loaded_with 0 (replicate 32 0) mem) = Inr (None, m') \<and>
     vs_regs (is_state m') = (replicate 32 0)[2 := v] \<and> put_u32 v = [0, 0, 0, 2]"
proof -
  have "\<exists>mem m' v. set_memory new_memory 0 0x80020001 = Inr mem \<and>
     instrumented_step K G False (loaded_with 0 (replicate 32 0) mem) = Inr (None, m') \<and>
     vs_regs (is_state m') = (replicate 32 0)[2 := v] \<and> put_u32 v = [0, 0, 0, 2]"
    for K :: "byte list \<Rightarrow> hash" and G :: "hash \<Rightarrow> byte list"
  proof -
    let ?regs = "replicate 32 0 :: u32 list"
    obtain mem where mem: "set_memory new_memory 0 0x80020001 = Inr mem" "vm_reach K G (loaded_with 0 ?regs mem)"
      "flat_word mem 0 = 0x80020001" "flat mem = write_bytes (flat new_memory) 0 (put_u32 0x80020001)"
      by (rule loaded_program [where regs = ?regs and insn = "0x80020001" and K = K and G = G]) simp_all
    let ?m = "loaded_with 0 ?regs mem"
    have s: "vs_mem (is_state ?m) = mem" "vs_pc (is_state ?m) = 0" "\<not> vs_exited (is_state ?m)" "vs_regs (is_state ?m) = ?regs"
      by (simp_all add: loaded_with_def new_instrumented_def boot_state_def)
    have se: "SE 1 16 = 1" using SE_eq [of 16 16 1] by simp
    have f: "ea_of 0x80020001 ?m = 1" "rt_of 0x80020001 = 2"
      using se by (simp_all add: ea_of_def rs_of_def rt_of_def reg_def loaded_with_def new_instrumented_def)
    have sl: "slice_of (flat mem) 0 4 = [0x80, 2, 0, 1]"
      by (simp add: mem(4) slice_of_4 write_bytes_def put_u32_bytes)
    show ?thesis
      using load_step [OF mem(2), where insn = "0x80020001"] mem(1,3) s f sl
      by (auto simp: opcode_of_def load_bytes_def sign_fill_def Let_def)
  qed
  then show ?thesis by blast
qed

section \<open>Hints and pre-images\<close>

text \<open>C10. The hint buffer with a length prefix \<open>n\<close>: a hint that is exactly complete is sent and
  leaves the buffer; an incomplete one, which the loop means to keep until the rest is
  written, panics with slice bounds out of range; and a complete hint followed by more
  bytes is never sent.\<close>

theorem hint_buffer:
  assumes "length rest < 2 ^ 32 - 4" and "unat n < 2 ^ 32 - 4"
  shows "hint_loop (put_u32 n @ rest) hints =
    (if length rest < unat n then Inl SliceBounds
     else if length rest = unat n then Inr ([], hints @ [rest])
     else Inr (put_u32 n @ rest, hints))"
proof -
  have h: "unat (4 + n) = 4 + unat n" using assms(2) by (simp add: unat_word_ariths(1))
  have l: "unat (of_nat (length rest) :: u32) = length rest" using assms(1) by (simp add: unat_of_nat)
  have c: "(of_nat (length rest) :: u32) \<le> n \<longleftrightarrow> length rest \<le> unat n" "\<not> 4 + n < 4"
    by (simp_all add: word_le_nat_alt word_less_nat_alt h l)
  show ?thesis
    by (subst hint_loop.simps) (auto simp: Let_def c h hint_loop.simps [of "[]"])
qed

theorem hint_buffer_witness:
  "hint_loop [0, 0, 0, 2, 7] [] = Inl SliceBounds \<and> hint_loop [0, 0, 0, 2, 7, 8, 9] [] = Inr ([0, 0, 0, 2, 7, 8, 9], [])"
proof -
  have p: "put_u32 2 = [0, 0, 0, 2]" by (simp add: put_u32_bytes)
  show ?thesis using hint_buffer [of "[7]" 2 "[]"] hint_buffer [of "[7, 8, 9]" 2 "[]"] by (simp add: p)
qed

lemma read_preimage_eval:
  assumes c: "cache_ok G m" and k: "key \<noteq> zero_hash32"
  shows "if length (preimage_of G key) < unat off then read_preimage G key off m = Inl SliceBounds
    else \<exists>m'. read_preimage G key off m =
        Inr (go_copy zero_hash32 (drop (unat off) (preimage_of G key)),
          of_nat (min 32 (length (preimage_of G key) - unat off)), m') \<and> is_state m' = is_state m"
  using c k unfolding read_preimage_def cache_ok_def Let_def preimage_of_def [symmetric] by auto

lemma unat_min_of_nat: "n < 2 ^ 32 \<Longrightarrow> unat (of_nat n :: u32) = n"
  by (simp add: unat_of_nat)

lemma preimage_len_eval:
  assumes "l \<le> 32"
  shows "unat (preimage_len a1 a2 (of_nat l)) = min (4 - unat a1 mod 4) (min (unat a2) l)"
proof -
  have "unat (a1 AND 3) < 4" by (simp add: unat_and_3)
  then have s: "unat (4 - (a1 AND 3)) = 4 - unat a1 mod 4" by (simp add: unat_sub word_le_nat_alt unat_and_3)
  have l: "unat (of_nat l :: u32) = l" using assms by (intro unat_min_of_nat) simp
  show ?thesis by (auto simp: preimage_len_def Let_def word_less_nat_alt s l)
qed

lemma splice_word_eval:
  assumes "put_u32 w = slice_of c e 4" "k = unat (a1 AND 3)" "k + length d \<le> 4"
  shows "write_bytes c e (put_u32 (splice_word a1 w d)) = write_bytes c (e + k) d"
proof -
  have l: "length (slice_of c e 4) = 4" by (simp add: slice_of_def)
  have "go_copy (drop k (slice_of c e 4)) d = d @ drop (k + length d) (slice_of c e 4)"
    using assms(3) l by (simp add: go_copy_def add.commute)
  then have "put_u32 (splice_word a1 w d) = take k (slice_of c e 4) @ d @ drop (k + length d) (slice_of c e 4)"
    using assms l unfolding splice_word_def Let_def by (subst put_get_u32) simp_all
  then show ?thesis using write_part [OF assms(3)] by simp
qed

text \<open>C8. A read from the pre-image file descriptor copies into memory at \<open>a1\<close> the next bytes of
  the length-prefixed pre-image of the key at the cursor: as many as remain, fit in the
  word \<open>a1\<close> lies in, and are asked for; it returns that number and moves the cursor by it. A
  cursor beyond the end panics.\<close>

theorem preimage_read_streams:
  assumes "vm_reach K G m" and "\<not> is_proof_enabled m" and "vs_key (is_state m) \<noteq> zero_hash32"
  shows "let pre = preimage_of G (vs_key (is_state m)); off = unat (vs_offset (is_state m));
      n = min (4 - unat a1 mod 4) (min (unat a2) (min 32 (length pre - off)))
    in if length pre < off then preimage_read K G a1 a2 m = Inl SliceBounds
       else \<exists>m'. preimage_read K G a1 a2 m = Inr (of_nat n, m') \<and>
         flat (vs_mem (is_state m')) = write_bytes (flat (vs_mem (is_state m))) (unat a1) (take n (drop off pre)) \<and>
         vs_offset (is_state m') = vs_offset (is_state m) + of_nat n"
proof -
  have inv: "vm_inv K G m" by (rule vm_reach_inv [OF assms(1)])
  let ?e = "a1 AND 0xFFFFFFFC" and ?k = "unat (a1 AND 3)"
  let ?pre = "preimage_of G (vs_key (is_state m))" and ?off = "unat (vs_offset (is_state m))"
  let ?l = "min 32 (length ?pre - ?off)" and ?c = "flat (vs_mem (is_state m))"
  have al: "?e AND 3 = 0" by simp
  have t: "track_mem_access K ?e m = Inr m" using assms(2) by (simp add: track_mem_access_def)
  obtain mm where mm: "load_word ?e m = Inr (flat_word (vs_mem (is_state m)) ?e, set_mem mm m)" "mem_inv K mm" "flat mm = ?c"
    by (rule load_word_eval [OF _ al]) (use inv in \<open>auto simp: vm_inv_def\<close>)
  let ?w = "flat_word (vs_mem (is_state m)) ?e" and ?m1 = "set_mem mm m"
  have st1: "vs_key (is_state ?m1) = vs_key (is_state m)" "vs_offset (is_state ?m1) = vs_offset (is_state m)"
    by (simp_all add: set_mem_def)
  have "cache_ok G ?m1" using inv by (simp add: vm_inv_def cache_ok_def set_mem_def)
  note rp = read_preimage_eval [OF this assms(3), of "vs_offset (is_state m)"]
  show ?thesis
  proof (cases "length ?pre < ?off")
    case True
    then show ?thesis using rp by (simp add: preimage_read_def t mm(1) st1)
  next
    case False
    then obtain m2 where m2: "read_preimage G (vs_key (is_state m)) (vs_offset (is_state m)) ?m1 =
        Inr (go_copy zero_hash32 (drop ?off ?pre), of_nat ?l, m2)" "is_state m2 = is_state ?m1"
      using rp by auto
    let ?n = "preimage_len a1 a2 (of_nat ?l)"
    have n: "unat ?n = min (4 - unat a1 mod 4) (min (unat a2) ?l)" by (rule preimage_len_eval) simp
    have n4: "unat ?n \<le> 4" "?k + unat ?n \<le> 4" "unat ?n \<le> 32" "unat ?n \<le> length ?pre - ?off"
      unfolding n unat_and_3 by auto
    have d: "take (unat ?n) (go_copy zero_hash32 (drop ?off ?pre)) = take (unat ?n) (drop ?off ?pre)"
      using n4 by (simp add: go_copy_def)
    have i2: "mem_inv K (vs_mem (is_state m2))" using m2(2) mm(2) by (simp add: set_mem_def)
    obtain m3 where m3: "store_word ?e (splice_word a1 ?w (take (unat ?n) (drop ?off ?pre))) m2 = Inr (set_mem m3 m2)"
      "flat m3 = write_bytes (flat (vs_mem (is_state m2))) (unat ?e)
        (put_u32 (splice_word a1 ?w (take (unat ?n) (drop ?off ?pre))))"
      by (rule store_word_eval [OF i2 al])
    have pw: "put_u32 ?w = slice_of ?c (unat ?e) 4" by (simp add: flat_word_def put_get_u32 slice_of_def)
    have fl: "flat m3 = write_bytes ?c (unat a1) (take (unat ?n) (drop ?off ?pre))"
    proof -
      have "unat ?e + ?k = unat a1" by (simp add: ea_split unat_and_3)
      moreover have "?k + length (take (unat ?n) (drop ?off ?pre)) \<le> 4" using n4 by simp
      ultimately show ?thesis
        using m3(2) splice_word_eval [OF pw refl] m2(2) mm(3) by (simp add: set_mem_def)
    qed
    have "preimage_read K G a1 a2 m = Inr (?n, (set_mem m3 m2)\<lparr>is_state :=
       (is_state (set_mem m3 m2))\<lparr>vs_offset := vs_offset (is_state (set_mem m3 m2)) + ?n\<rparr>\<rparr>)"
      by (simp add: preimage_read_def t mm(1) st1 m2(1) Let_def d m3(1))
    moreover have "vs_offset (is_state (set_mem m3 m2)) = vs_offset (is_state m)"
      using m2(2) by (simp add: set_mem_def)
    moreover have "?n = of_nat (unat ?n)" by simp
    ultimately show ?thesis using False fl unfolding Let_def n [symmetric]
      by (simp add: set_mem_def)
  qed
qed

theorem preimage_read_streams_witness:
  "\<forall>K. \<exists>m'. preimage_read K (\<lambda>_. [9, 8, 7]) 0x1002 100
       (new_instrumented (boot_state\<lparr>vs_key := replicate 32 1, vs_offset := 8\<rparr>)) = Inr (2, m') \<and>
     flat (vs_mem (is_state m')) = write_bytes (flat new_memory) 0x1002 [9, 8]"
proof -
  have "\<exists>m'. preimage_read K (\<lambda>_. [9, 8, 7]) 0x1002 100
       (new_instrumented (boot_state\<lparr>vs_key := replicate 32 1, vs_offset := 8\<rparr>)) = Inr (2, m') \<and>
     flat (vs_mem (is_state m')) = write_bytes (flat new_memory) 0x1002 [9, 8]"
    for K :: "byte list \<Rightarrow> hash"
  proof -
    let ?m = "new_instrumented (boot_state\<lparr>vs_key := replicate 32 1, vs_offset := 8\<rparr>)"
    have r: "vm_reach K (\<lambda>_. [9, 8, 7]) ?m"
      by (rule vm_reach.init) (simp_all add: boot_state_def mem_reach.fresh)
    have p: "preimage_of (\<lambda>_. [9, 8, 7]) k = [0, 0, 0, 0, 0, 0, 0, 3, 9, 8, 7]" for k
    proof -
      have e: "(8 :: nat) = Suc (Suc (Suc (Suc (Suc (Suc (Suc (Suc 0)))))))" by simp
      have "put_u64 3 = [0, 0, 0, 0, 0, 0, 0, 3]" unfolding put_u64_def e be_enc.simps by simp
      then show ?thesis by (simp add: preimage_of_def)
    qed
    have s: "vs_key (is_state ?m) = replicate 32 1" "vs_offset (is_state ?m) = 8" "vs_mem (is_state ?m) = new_memory"
      "\<not> is_proof_enabled ?m" by (simp_all add: new_instrumented_def boot_state_def)
    have "(replicate 32 1 :: byte list) \<noteq> zero_hash32" by simp
    then show ?thesis
      using preimage_read_streams [OF r s(4), of "0x1002" 100] unfolding s p Let_def by auto
  qed
  then show ?thesis by blast
qed

end
