(* ===== verification/Game_Position.thy ===== *)
theory Game_Position
  imports Prelude
begin

text \<open>
  Positions of the dispute game tree (\<^verbatim>\<open>bl-challenger/game/fault/types/position.go\<close>):
  generalised indices, attack and defend moves, the trace index a position commits to,
  and positions relative to a subtree. \<^verbatim>\<open>big.Int\<close> is \<^typ>\<open>int\<close>; the depth is a Go
  \<^verbatim>\<open>int\<close>, which the code never takes near its bounds. Shifting by a negative depth
  converts it to a huge \<^verbatim>\<open>uint\<close> and panics: \<^verbatim>\<open>TraceIndex\<close>, the one operation a game
  can call that way, returns the panic as a value.
\<close>

section \<open>Errors of the dispute game packages\<close>

datatype game_err =
    ErrPositionDepthTooSmall
  | ErrClaimNotFound
  | ErrGameDepthReached
  | ErrStepNonLeafNode
  | ErrStepIgnoreInvalidPath
  | ErrIndexTooLarge
  | ErrIndexTooBig
  | ErrTraceIndexOutOfBounds
  | ErrGetStepData
  | ErrRefClaimNotDeepEnough
  | ErrProofMissingPostHash
  | ErrProofMissingStateData
  | ErrProofMissingProofData
  | ErrProofNotGenerated
  | ErrUnknownGame
  | ErrUnsupportedGameType
  | ErrNoClaims
  | ErrPrestateMismatch
  | ErrInvalidGameStatus u8
  | ErrExternal nat
  | GamePanic

section \<open>Positions\<close>

datatype position = Position (pos_depth: int) (pos_index: int)

fun msb_loop :: "nat \<Rightarrow> nat \<Rightarrow> nat" where
  "msb_loop x out = (if x = 0 then out else msb_loop (x div 2) (out + 1))"

declare msb_loop.simps [simp del]

definition big_msb :: "nat \<Rightarrow> nat" where
  "big_msb x = (if x = 0 then 0 else msb_loop x 0 - 1)"

definition new_position_from_gindex :: "nat \<Rightarrow> position" where
  "new_position_from_gindex x =
     (let depth = big_msb x; withoutMSB = NOT (push_bit depth (1 :: int))
      in Position (int depth) (int x AND withoutMSB))"

definition to_gindex :: "position \<Rightarrow> int" where
  "to_gindex p = push_bit (nat (pos_depth p)) 1 OR pos_index p"

definition move_right :: "position \<Rightarrow> position" where
  "move_right p = Position (pos_depth p) (pos_index p + 1)"

text \<open>
  \<^verbatim>\<open>1 << newPosDepth\<close> is a 64-bit \<^verbatim>\<open>int\<close>: \<open>-2\<^sup>6\<^sup>3\<close> at 63 and \<open>0\<close> from 64 on, where
  \<^verbatim>\<open>Mod\<close> divides by zero. \<^verbatim>\<open>Mod\<close> is Euclidean, so the sign of the modulus is irrelevant.
\<close>

definition relative_to_ancestor :: "position \<Rightarrow> u64 \<Rightarrow> game_err + position" where
  "relative_to_ancestor p ancestor =
     (if ancestor > word_of_int (pos_depth p) then Inl ErrPositionDepthTooSmall
      else let newPosDepth = word_of_int (pos_depth p) - ancestor;
               nodesAtDepth = push_bit (unat newPosDepth) (1 :: u64)
           in if nodesAtDepth = 0 then Inl GamePanic
              else Inr (Position (sint newPosDepth) (pos_index p mod \<bar>sint nodesAtDepth\<bar>)))"

definition is_root_position :: "position \<Rightarrow> bool" where
  "is_root_position p \<longleftrightarrow> pos_depth p = 0 \<and> pos_index p = 0"

definition lsh_index :: "position \<Rightarrow> int \<Rightarrow> int" where
  "lsh_index p amount = push_bit (nat amount) (pos_index p)"

definition trace_index :: "int \<Rightarrow> position \<Rightarrow> game_err + int" where
  "trace_index maxDepth p =
     (let rd = maxDepth - pos_depth p
      in if rd < 0 then Inl GamePanic
         else let rhs = push_bit (nat rd) 1 - 1 in Inr (lsh_index p rd OR rhs))"

definition pos_move :: "position \<Rightarrow> bool \<Rightarrow> position" where
  "pos_move p right = Position (pos_depth p + 1) (lsh_index p 1 OR (if right then 1 else 0))"

definition parent_index_at_depth :: "position \<Rightarrow> int" where
  "parent_index_at_depth p = pos_index p div 2"

definition right_of :: "position \<Rightarrow> position \<Rightarrow> bool" where
  "right_of p par \<longleftrightarrow> parent_index_at_depth p \<noteq> pos_index par"

definition pos_parent :: "position \<Rightarrow> position" where
  "pos_parent p = Position (pos_depth p - 1) (parent_index_at_depth p)"

definition pos_attack :: "position \<Rightarrow> position" where
  "pos_attack p = pos_move p False"

definition pos_defend :: "position \<Rightarrow> position" where
  "pos_defend p = pos_move (pos_move (pos_parent p) True) False"

section \<open>Well-formed positions\<close>

definition wf_pos :: "position \<Rightarrow> bool" where
  "wf_pos p \<longleftrightarrow> 0 \<le> pos_depth p \<and> 0 \<le> pos_index p \<and> pos_index p < 2 ^ nat (pos_depth p)"

text \<open>What a trace index is: the last leaf under the position.\<close>

definition leaf_of :: "int \<Rightarrow> position \<Rightarrow> int" where
  "leaf_of D p = (pos_index p + 1) * 2 ^ nat (D - pos_depth p) - 1"

named_theorems pos_defs

lemmas [pos_defs] = wf_pos_def is_root_position_def

subsection \<open>Moves in closed form\<close>

lemma or_0_1: "(2 * i) OR (1 :: int) = 2 * i + 1"
  by (simp add: or_one_eq)

lemma or_low: "0 \<le> r \<Longrightarrow> r < 2 ^ n \<Longrightarrow> (push_bit n i) OR r = i * 2 ^ n + (r :: int)"
proof -
  assume r: "0 \<le> r" "r < 2 ^ n"
  have t: "take_bit n r = r" using r by (simp add: take_bit_int_eq_self)
  have "push_bit n i OR r = push_bit n i + r"
  proof (rule disjunctive_add [symmetric])
    fix m
    show "\<not> bit (push_bit n i) m \<or> \<not> bit r m"
    proof (cases "m < n")
      case False
      have "\<not> bit (take_bit n r) m" using False by (simp add: bit_take_bit_iff)
      then show ?thesis using t by simp
    qed (simp add: bit_push_bit_iff)
  qed
  then show ?thesis by (simp add: push_bit_eq_mult)
qed

lemma pos_move_eq: "pos_move p right = Position (pos_depth p + 1) (2 * pos_index p + (if right then 1 else 0))"
  using or_low [of 1 1 "pos_index p"] by (simp add: pos_move_def lsh_index_def push_bit_eq_mult)

lemma pos_attack_eq: "pos_attack p = Position (pos_depth p + 1) (2 * pos_index p)"
  by (simp add: pos_attack_def pos_move_eq)

lemma pos_defend_eq:
  "pos_defend p = Position (pos_depth p + 1) (2 * (2 * (pos_index p div 2) + 1))"
  by (simp add: pos_defend_def pos_move_eq pos_parent_def parent_index_at_depth_def)

lemma trace_index_eq:
  "trace_index D p = (if D < pos_depth p then Inl GamePanic else Inr (leaf_of D p))"
proof (cases "D < pos_depth p")
  case False
  have "lsh_index p (D - pos_depth p) OR (push_bit (nat (D - pos_depth p)) 1 - 1) = leaf_of D p"
    unfolding lsh_index_def by (subst or_low) (simp_all add: leaf_of_def algebra_simps)
  then show ?thesis using False by (simp add: trace_index_def Let_def)
qed (simp add: trace_index_def)

lemma to_gindex_eq: "wf_pos p \<Longrightarrow> to_gindex p = 2 ^ nat (pos_depth p) + pos_index p"
  using or_low [of "pos_index p" "nat (pos_depth p)" 1]
  by (simp add: to_gindex_def wf_pos_def)

lemma wf_pos_move: "wf_pos p \<Longrightarrow> wf_pos (pos_move p b)"
  by (auto simp: wf_pos_def pos_move_eq nat_add_distrib)

lemma wf_pos_attack: "wf_pos p \<Longrightarrow> wf_pos (pos_attack p)"
  by (simp add: pos_attack_def wf_pos_move)

lemma wf_pos_parent: "wf_pos p \<Longrightarrow> 0 < pos_depth p \<Longrightarrow> wf_pos (pos_parent p)"
proof -
  assume w: "wf_pos p" and d: "0 < pos_depth p"
  have "nat (pos_depth p) = Suc (nat (pos_depth p - 1))" using d by simp
  then have "pos_index p < 2 ^ nat (pos_depth p - 1) * 2" using w by (simp add: wf_pos_def mult.commute)
  then show ?thesis using w d by (auto simp: wf_pos_def pos_parent_def parent_index_at_depth_def)
qed

lemma wf_pos_defend: "wf_pos p \<Longrightarrow> 0 < pos_depth p \<Longrightarrow> wf_pos (pos_defend p)"
  by (simp add: pos_defend_def wf_pos_move wf_pos_parent)

lemma wf_root: "is_root_position p \<Longrightarrow> wf_pos p"
  by (simp add: pos_defs)

lemma wf_depth0: "wf_pos p \<Longrightarrow> pos_depth p = 0 \<Longrightarrow> is_root_position p"
  by (simp add: pos_defs)

subsection \<open>The most significant bit\<close>

lemma msb_loop_bounds:
  "x \<noteq> 0 \<Longrightarrow> \<exists>k. msb_loop x out = out + Suc k \<and> 2 ^ k \<le> x \<and> x < 2 ^ Suc k"
proof (induction x out rule: msb_loop.induct)
  case (1 x out)
  show ?case
  proof (cases "x div 2 = 0")
    case True
    then have "x = 1" using 1 by simp
    then show ?thesis by (intro exI [of _ 0]) (simp add: msb_loop.simps)
  next
    case False
    then obtain k where k: "msb_loop (x div 2) (out + 1) = out + 1 + Suc k"
        "2 ^ k \<le> x div 2" "x div 2 < 2 ^ Suc k" using 1 by blast
    have "2 * 2 ^ k \<le> x" "x < 2 * 2 ^ Suc k" using k(2,3) by linarith+
    moreover have "msb_loop x out = out + Suc (Suc k)" using k(1) 1(2) by (subst msb_loop.simps) simp
    ultimately show ?thesis by (intro exI [of _ "Suc k"]) simp
  qed
qed

lemma big_msb_bounds: "x \<noteq> 0 \<Longrightarrow> 2 ^ big_msb x \<le> x \<and> x < 2 ^ Suc (big_msb x)"
  using msb_loop_bounds [of x 0] by (auto simp: big_msb_def)

lemma big_msb_unique: "2 ^ k \<le> x \<Longrightarrow> x < 2 ^ Suc k \<Longrightarrow> big_msb x = k"
proof -
  assume k: "2 ^ k \<le> x" "x < 2 ^ Suc k"
  have "(0 :: nat) < 2 ^ k" by simp
  then have x: "x \<noteq> 0" using k(1) by linarith
  note m = big_msb_bounds [OF x]
  have "2 ^ k < (2 :: nat) ^ Suc (big_msb x)" using k m by linarith
  moreover have "2 ^ big_msb x < (2 :: nat) ^ Suc k" using k m by linarith
  ultimately have "k < Suc (big_msb x)" "big_msb x < Suc k"
    by (auto simp del: power_Suc dest!: power_less_imp_less_exp [rotated])
  then show ?thesis by simp
qed

lemma and_not_msb:
  assumes "2 ^ k \<le> x" "x < (2 :: int) ^ Suc k"
  shows "x AND NOT (push_bit k 1) = x - 2 ^ k"
proof -
  have t: "take_bit (Suc k) x = x" using assms by (intro take_bit_int_eq_self) (auto intro: order_trans [rotated])
  have "x AND NOT (push_bit k 1) = take_bit k x"
  proof (rule bit_eqI)
    fix n
    have "bit x n \<Longrightarrow> n < Suc k"
      using t by (metis bit_take_bit_iff)
    then show "bit (x AND NOT (push_bit k 1)) n \<longleftrightarrow> bit (take_bit k x) n"
      by (auto simp: bit_and_iff bit_not_iff bit_take_bit_iff bit_exp_iff less_Suc_eq)
  qed
  also have "\<dots> = (x - 2 ^ k) mod 2 ^ k" by (simp add: take_bit_eq_mod)
  also have "\<dots> = x - 2 ^ k" using assms by (intro mod_pos_pos_trivial) auto
  finally show ?thesis .
qed

lemma new_position_from_gindex_eq:
  assumes "x \<noteq> 0"
  shows "new_position_from_gindex x = Position (int (big_msb x)) (int x - 2 ^ big_msb x)"
proof -
  note b = big_msb_bounds [OF assms]
  have "int (2 ^ big_msb x) \<le> int x" "int x < int (2 ^ Suc (big_msb x))"
    using b by (simp_all only: zle_int of_nat_less_iff)
  then have "int x AND NOT (push_bit (big_msb x) 1) = int x - 2 ^ big_msb x"
    by (intro and_not_msb) simp_all
  then show ?thesis by (simp add: new_position_from_gindex_def Let_def)
qed

lemma wf_new_position: "wf_pos (new_position_from_gindex x)"
proof (cases "x = 0")
  case True
  then show ?thesis by (simp add: new_position_from_gindex_def big_msb_def wf_pos_def)
next
  case False
  note b = big_msb_bounds [OF False]
  have "int (2 ^ big_msb x) \<le> int x" "int x < int (2 ^ Suc (big_msb x))"
    using b by (simp_all only: zle_int of_nat_less_iff)
  then show ?thesis using False by (simp add: new_position_from_gindex_eq wf_pos_def)
qed

lemma from_to_gindex: "wf_pos p \<Longrightarrow> new_position_from_gindex (nat (to_gindex p)) = p"
proof -
  assume w: "wf_pos p"
  obtain d i where p: "p = Position d i" by (cases p)
  have di: "0 \<le> d" "0 \<le> i" "i < 2 ^ nat d" using w by (simp_all add: p wf_pos_def)
  have g: "to_gindex p = 2 ^ nat d + i" using to_gindex_eq [OF w] by (simp add: p)
  let ?x = "nat (2 ^ nat d + i)"
  have xi: "int ?x = 2 ^ nat d + i" using di by simp
  have "int (2 ^ nat d) \<le> int ?x" "int ?x < int (2 ^ Suc (nat d))" using di by (simp_all add: xi)
  then have "big_msb ?x = nat d" by (intro big_msb_unique) (simp_all only: zle_int of_nat_less_iff)
  moreover have "?x \<noteq> 0"
  proof
    assume "?x = 0"
    moreover have "(0 :: int) < 2 ^ nat d" by simp
    ultimately show False using xi di by linarith
  qed
  ultimately show ?thesis unfolding g using di
    by (subst new_position_from_gindex_eq) (simp_all add: xi p)
qed

lemma to_from_gindex: "x \<noteq> 0 \<Longrightarrow> to_gindex (new_position_from_gindex x) = int x"
  using wf_new_position [of x] by (simp add: to_gindex_eq new_position_from_gindex_eq)

subsection \<open>Trace indices under moves\<close>

lemma pow_split: "0 < n \<Longrightarrow> (2 :: int) ^ nat n = 2 * 2 ^ nat (n - 1)"
proof -
  assume "0 < n"
  then have "nat n = Suc (nat (n - 1))" by simp
  then show ?thesis by simp
qed

lemma leaf_attack:
  "pos_depth p < D \<Longrightarrow> leaf_of D (pos_attack p) = leaf_of D p - 2 ^ nat (D - pos_depth p - 1)"
  using pow_split [of "D - pos_depth p"]
  by (simp add: leaf_of_def pos_attack_eq algebra_simps)

lemma leaf_defend:
  "pos_depth p < D \<Longrightarrow> even (pos_index p) \<Longrightarrow>
   leaf_of D (pos_defend p) = leaf_of D p + 2 ^ nat (D - pos_depth p - 1)"
  using pow_split [of "D - pos_depth p"]
  by (auto simp: leaf_of_def pos_defend_eq algebra_simps elim!: evenE)

lemma trace_leaf_range: "wf_pos p \<Longrightarrow> pos_depth p \<le> D \<Longrightarrow> 0 \<le> leaf_of D p \<and> leaf_of D p < 2 ^ nat D"
proof -
  assume w: "wf_pos p" and d: "pos_depth p \<le> D"
  let ?k = "2 ^ nat (D - pos_depth p) :: int"
  have pw: "2 ^ nat D = 2 ^ nat (pos_depth p) * ?k"
    using d w by (simp add: wf_pos_def flip: power_add nat_add_distrib)
  have "(pos_index p + 1) * ?k \<le> 2 ^ nat (pos_depth p) * ?k"
    using w by (intro mult_right_mono) (auto simp: wf_pos_def)
  moreover have "1 * ?k \<le> (pos_index p + 1) * ?k"
    using w by (intro mult_right_mono) (auto simp: wf_pos_def)
  moreover have "(1 :: int) \<le> ?k" by simp
  ultimately show ?thesis unfolding leaf_of_def pw by linarith
qed

lemma trace_index_wf:
  "wf_pos p \<Longrightarrow> pos_depth p \<le> D \<Longrightarrow> trace_index D p = Inr (leaf_of D p)"
  by (simp add: trace_index_eq)

end
