(* ===== verification/Game_Types.thy ===== *)
theory Game_Types
  imports Game_Position
begin

text \<open>
  Claims, actions and the game state of a fault dispute game
  (\<^verbatim>\<open>bl-challenger/game/fault/types/{types,actions,game}.go\<close>), and the computations of
  the packages above it: a result is an error or a value, and a Go loop or recursion that
  may not return is \<^term>\<open>None\<close>. Wrapping an error with \<^verbatim>\<open>%w\<close> keeps what
  \<^verbatim>\<open>errors.Is\<close> sees, so it is the identity here.
\<close>

section \<open>Computations that may fail or not return\<close>

type_synonym 'a comp = "(game_err + 'a) option"

definition ret :: "'a \<Rightarrow> 'a comp" where "ret x = Some (Inr x)"
definition fail :: "game_err \<Rightarrow> 'a comp" where "fail e = Some (Inl e)"

definition cbind :: "'a comp \<Rightarrow> ('a \<Rightarrow> 'b comp) \<Rightarrow> 'b comp" where
  "cbind c f = (case c of None \<Rightarrow> None | Some (Inl e) \<Rightarrow> Some (Inl e) | Some (Inr x) \<Rightarrow> f x)"

lemma cbind_simps [simp]:
  "cbind None f = None" "cbind (Some (Inl e)) f = Some (Inl e)" "cbind (Some (Inr x)) f = f x"
  "cbind (ret x) f = f x" "cbind (fail e) f = fail e"
  by (simp_all add: cbind_def ret_def fail_def)

lemma cbind_eq_Some_Inr:
  "cbind c f = Some (Inr y) \<longleftrightarrow> (\<exists>x. c = Some (Inr x) \<and> f x = Some (Inr y))"
  by (auto simp: cbind_def split: option.splits sum.splits)

lemma cbind_eq_Some:
  "cbind c f = Some r \<longleftrightarrow>
     (\<exists>e. c = Some (Inl e) \<and> r = Inl e) \<or> (\<exists>x. c = Some (Inr x) \<and> f x = Some r)"
  by (auto simp: cbind_def split: option.splits sum.splits)

text \<open>The computation returns, with a value or an error.\<close>

definition returns :: "'a option \<Rightarrow> bool" where "returns c \<longleftrightarrow> c \<noteq> None"

lemma returns_cbind [simp]:
  "returns (cbind c f) \<longleftrightarrow> returns c \<and> (\<forall>x. c = Some (Inr x) \<longrightarrow> returns (f x))"
  by (auto simp: cbind_def returns_def split: option.splits sum.splits)

lemma returns_simps [simp]: "returns (ret x)" "returns (fail e)" "returns (Some r)"
  by (simp_all add: ret_def fail_def returns_def)

lemma cbind_cong [fundef_cong]:
  "c = c' \<Longrightarrow> (\<And>x. c' = Some (Inr x) \<Longrightarrow> f x = f' x) \<Longrightarrow> cbind c f = cbind c' f'"
  by (auto simp: cbind_def split: option.splits sum.splits)

lemma ret_fail_simps [simp]:
  "ret x \<noteq> None" "fail e \<noteq> None" "None \<noteq> ret x" "None \<noteq> fail e"
  "ret x = Some r \<longleftrightarrow> r = Inr x" "ret x \<noteq> fail e" "fail e \<noteq> ret x"
  "fail e = Some r \<longleftrightarrow> r = Inl e"
  "ret x = ret y \<longleftrightarrow> x = y" "fail e = fail e' \<longleftrightarrow> e = e'"
  by (auto simp: ret_def fail_def)

lemma cbind_mono [partial_function_mono]:
  fixes B :: "('r \<Rightarrow> 's option) \<Rightarrow> 'a comp" and C :: "'a \<Rightarrow> ('r \<Rightarrow> 's option) \<Rightarrow> 'b comp"
  assumes mf: "mono_option B" and mg: "\<And>y. mono_option (\<lambda>f. C y f)"
  shows "mono_option (\<lambda>f. cbind (B f) (\<lambda>y. C y f))"
proof -
  have "cbind c k = Option.bind c (\<lambda>r. case r of Inl e \<Rightarrow> Some (Inl e) | Inr x \<Rightarrow> k x)"
    for c :: "'a comp" and k :: "'a \<Rightarrow> 'b comp"
    by (auto simp: cbind_def split: option.splits sum.splits)
  moreover have "mono_option (\<lambda>f. case r of Inl e \<Rightarrow> Some (Inl e) | Inr x \<Rightarrow> C x f)" for r
    by (cases r) (auto intro: mg option.const_mono)
  ultimately show ?thesis by (simp add: bind_mono [OF mf])
qed

definition lift_res :: "game_err + 'a \<Rightarrow> 'a comp" where "lift_res r = Some r"

lemma lift_res_simps [simp]:
  "returns (lift_res r)" "lift_res r = Some s \<longleftrightarrow> r = s" "lift_res (Inr x) = ret x" "lift_res (Inl e) = fail e"
  by (simp_all add: lift_res_def ret_def fail_def returns_def)

section \<open>Claims, actions and oracle data\<close>

record claim =
  claim_value :: hash
  claim_pos :: position
  countered :: bool
  clock :: u64
  contract_index :: int
  parent_contract_index :: int

definition claim_is_root :: "claim \<Rightarrow> bool" where
  "claim_is_root c = is_root_position (claim_pos c)"

definition claim_depth :: "claim \<Rightarrow> int" where "claim_depth c = pos_depth (claim_pos c)"

record preimage_data =
  pd_is_local :: bool
  pd_local_context :: u64
  pd_oracle_key :: "byte list"
  pd_oracle_data :: "byte list"
  pd_oracle_offset :: u32

definition new_preimage_data :: "u64 \<Rightarrow> byte list \<Rightarrow> byte list \<Rightarrow> u32 \<Rightarrow> preimage_data" where
  "new_preimage_data lctx key data offset =
     \<lparr>pd_is_local = (length key > 0 \<and> key ! 0 = 1), pd_local_context = lctx,
      pd_oracle_key = key, pd_oracle_data = data, pd_oracle_offset = offset\<rparr>"

definition get_ident :: "preimage_data \<Rightarrow> game_err + nat" where
  "get_ident p = (if pd_oracle_key p = [] then Inl GamePanic
                  else Inr (be_dec (drop 1 (pd_oracle_key p))))"

definition get_preimage_without_size :: "preimage_data \<Rightarrow> game_err + byte list" where
  "get_preimage_without_size p =
     (if length (pd_oracle_data p) < 8 then Inl GamePanic else Inr (drop 8 (pd_oracle_data p)))"

datatype action_type = ActionTypeMove | ActionTypeStep

record action =
  act_type :: action_type
  act_parent_idx :: int
  act_is_attack :: bool
  act_value :: hash
  act_pre_state :: "byte list"
  act_proof_data :: "byte list"
  act_oracle_data :: "preimage_data option"

section \<open>Game state\<close>

text \<open>\<^verbatim>\<open>big.Int.Bytes\<close>: the absolute value, big-endian, without leading zeros.\<close>

fun nat_bytes :: "nat \<Rightarrow> byte list" where
  "nat_bytes n = (if n = 0 then [] else nat_bytes (n div 256) @ [of_nat (n mod 256)])"

declare nat_bytes.simps [simp del]

definition big_bytes :: "int \<Rightarrow> byte list" where "big_bytes x = nat_bytes (nat \<bar>x\<bar>)"

definition claim_id_preimage :: "claim \<Rightarrow> byte list" where
  "claim_id_preimage c =
     big_bytes (to_gindex (claim_pos c)) @ claim_value c @ big_bytes (parent_contract_index c)"

definition compute_claim_id :: "(byte list \<Rightarrow> hash) \<Rightarrow> claim \<Rightarrow> hash" where
  "compute_claim_id K c = K (claim_id_preimage c)"

record game_state =
  gs_agree_with_proposed_output :: bool
  gs_claims :: "claim list"
  gs_claim_ids :: "hash \<rightharpoonup> bool"
  gs_depth :: u64

definition new_game_state :: "(byte list \<Rightarrow> hash) \<Rightarrow> bool \<Rightarrow> claim list \<Rightarrow> u64 \<Rightarrow> game_state" where
  "new_game_state K agree claims depth =
     \<lparr>gs_agree_with_proposed_output = agree, gs_claims = claims,
      gs_claim_ids = fold (\<lambda>c ids. ids(compute_claim_id K c \<mapsto> True)) claims Map.empty,
      gs_depth = depth\<rparr>"

text \<open>Go's \<^verbatim>\<open>%\<close> keeps the dividend's sign, so a negative depth is never odd.\<close>

definition agree_with_claim_level :: "game_state \<Rightarrow> claim \<Rightarrow> bool" where
  "agree_with_claim_level g c =
     (let isOddLevel = (0 \<le> claim_depth c \<and> claim_depth c mod 2 = 1)
      in if gs_agree_with_proposed_output g then isOddLevel else \<not> isOddLevel)"

definition is_duplicate :: "(byte list \<Rightarrow> hash) \<Rightarrow> game_state \<Rightarrow> claim \<Rightarrow> bool" where
  "is_duplicate K g c \<longleftrightarrow> gs_claim_ids g (compute_claim_id K c) = Some True"

definition game_parent :: "game_state \<Rightarrow> claim \<Rightarrow> claim option" where
  "game_parent g c =
     (if claim_is_root c then None
      else if int (length (gs_claims g)) \<le> parent_contract_index c \<or> parent_contract_index c < 0
           then None
      else Some (gs_claims g ! nat (parent_contract_index c)))"

definition get_parent :: "game_state \<Rightarrow> claim \<Rightarrow> claim comp" where
  "get_parent g c =
     (case game_parent g c of None \<Rightarrow> fail ErrClaimNotFound | Some p \<Rightarrow> ret p)"

definition defends_parent :: "game_state \<Rightarrow> claim \<Rightarrow> bool" where
  "defends_parent g c =
     (case game_parent g c of None \<Rightarrow> False | Some p \<Rightarrow> right_of (claim_pos c) (claim_pos p))"

section \<open>Duplicates\<close>

lemma fold_ids:
  "fold (\<lambda>c ids. ids(f c \<mapsto> True)) cs m h = (if h \<in> f ` set cs then Some True else m h)"
  by (induction cs arbitrary: m) auto

lemma is_duplicate_new_game:
  "is_duplicate K (new_game_state K a cs d) c \<longleftrightarrow> compute_claim_id K c \<in> compute_claim_id K ` set cs"
  by (simp add: is_duplicate_def new_game_state_def fold_ids)

lemma be_dec_nat_bytes: "be_dec (nat_bytes n) = n"
  by (induction n rule: nat_bytes.induct)
     (subst nat_bytes.simps, simp add: unat_of_nat del: of_nat_mod)

lemma nat_bytes_inj: "nat_bytes m = nat_bytes n \<Longrightarrow> m = n"
  using be_dec_nat_bytes by metis

lemma big_bytes_inj: "0 \<le> x \<Longrightarrow> 0 \<le> y \<Longrightarrow> big_bytes x = big_bytes y \<Longrightarrow> x = y"
  by (auto simp: big_bytes_def dest!: nat_bytes_inj)

section \<open>Well-formed games\<close>

text \<open>
  What the contract guarantees of the claims it lists: claim \<open>i\<close> knows its index, the first
  claim is the root, and every later one attacks or defends an earlier claim.
\<close>

definition wf_claim_at :: "claim list \<Rightarrow> nat \<Rightarrow> bool" where
  "wf_claim_at cs i \<longleftrightarrow>
     contract_index (cs ! i) = int i \<and>
     (if i = 0 then is_root_position (claim_pos (cs ! i))
      else let p = parent_contract_index (cs ! i) in
        0 \<le> p \<and> p < int i \<and>
        (claim_pos (cs ! i) = pos_attack (claim_pos (cs ! nat p)) \<or>
         p \<noteq> 0 \<and> claim_pos (cs ! i) = pos_defend (claim_pos (cs ! nat p))))"

definition wf_claims :: "claim list \<Rightarrow> bool" where
  "wf_claims cs \<longleftrightarrow> list_all (wf_claim_at cs) [0..<length cs]"

lemma wf_claims_nth: "wf_claims cs \<Longrightarrow> i < length cs \<Longrightarrow> wf_claim_at cs i"
  by (simp add: wf_claims_def list_all_iff)

text \<open>Every claim sits at an even index; only the first one is at the root.\<close>

lemma wf_claims_pos:
  assumes "wf_claims cs" "i < length cs"
  shows "wf_pos (claim_pos (cs ! i)) \<and> even (pos_index (claim_pos (cs ! i))) \<and>
         (0 < pos_depth (claim_pos (cs ! i)) \<longleftrightarrow> i \<noteq> 0)"
  using assms(2)
proof (induction i rule: less_induct)
  case (less i)
  note w = wf_claims_nth [OF assms(1) less.prems, unfolded wf_claim_at_def Let_def]
  show ?case
  proof (cases "i = 0")
    case True
    then show ?thesis using w by (simp add: pos_defs)
  next
    case False
    let ?p = "nat (parent_contract_index (cs ! i))"
    have p: "?p < i" using w False by auto
    with less.prems have "?p < length cs" by simp
    note ih = less.IH [OF p this]
    have d0: "0 \<le> pos_depth (claim_pos (cs ! ?p))" using ih by (simp add: wf_pos_def)
    consider "claim_pos (cs ! i) = pos_attack (claim_pos (cs ! ?p))"
      | "parent_contract_index (cs ! i) \<noteq> 0" "claim_pos (cs ! i) = pos_defend (claim_pos (cs ! ?p))"
      using w False by auto
    then show ?thesis
    proof cases
      case 1
      then show ?thesis using ih False d0 by (auto simp: wf_pos_attack) (auto simp: pos_attack_eq)
    next
      case 2
      have "?p \<noteq> 0" using 2(1) w False by auto
      then show ?thesis using ih 2 False d0 by (auto simp: wf_pos_defend) (auto simp: pos_defend_eq)
    qed
  qed
qed

lemma wf_claims_root_iff:
  "wf_claims cs \<Longrightarrow> i < length cs \<Longrightarrow> claim_is_root (cs ! i) \<longleftrightarrow> i = 0"
  using wf_claims_pos [of cs i] wf_depth0 [of "claim_pos (cs ! i)"]
  by (auto simp: claim_is_root_def is_root_position_def wf_pos_def)

lemma wf_claims_parent:
  assumes "wf_claims (gs_claims g)" "i < length (gs_claims g)" "i \<noteq> 0"
  obtains p where "p < i" "parent_contract_index (gs_claims g ! i) = int p"
    "game_parent g (gs_claims g ! i) = Some (gs_claims g ! p)"
    "claim_depth (gs_claims g ! i) = claim_depth (gs_claims g ! p) + 1"
proof -
  let ?c = "gs_claims g ! i" and ?p = "nat (parent_contract_index (gs_claims g ! i))"
  note w = wf_claims_nth [OF assms(1,2), unfolded wf_claim_at_def Let_def]
  have "?p < i" "parent_contract_index ?c = int ?p" using w assms(3) by auto
  moreover have "\<not> claim_is_root ?c" using assms by (simp add: wf_claims_root_iff)
  then have "game_parent g ?c = Some (gs_claims g ! ?p)"
    using w assms by (auto simp: game_parent_def)
  moreover have "claim_depth ?c = claim_depth (gs_claims g ! ?p) + 1"
    using w assms(3) by (auto simp: claim_depth_def pos_attack_eq pos_defend_eq)
  ultimately show ?thesis by (rule that)
qed

lemma wf_claims_index: "wf_claims cs \<Longrightarrow> i < length cs \<Longrightarrow> contract_index (cs ! i) = int i"
  using wf_claims_nth [of cs i] by (simp add: wf_claim_at_def)

lemma mem_claimsE:
  assumes "c \<in> set cs" obtains i where "i < length cs" "c = cs ! i"
  using assms by (auto simp: in_set_conv_nth)

end
