(* ===== verification/Game_Solver.thy ===== *)
theory Game_Solver
  imports Game_Types
begin

text \<open>
  The honest actor of the dispute game
  (\<^verbatim>\<open>bl-challenger/game/fault/solver/{solver,game_solver,rules}.go\<close>): which move or
  step answers each claim, and the rules a move has to keep. The trace accessor is a pair of
  functions of the game, the reference claim and the position. \<^verbatim>\<open>agreeWithClaimPath\<close>
  recurses along parent indices the contract supplies, so it is a partial function; on a
  well-formed game it returns.
\<close>

section \<open>The claim solver\<close>

type_synonym step_payload = "byte list \<times> byte list \<times> preimage_data option"

record trace_accessor =
  ta_get :: "game_state \<Rightarrow> claim \<Rightarrow> position \<Rightarrow> hash comp"
  ta_get_step_data :: "game_state \<Rightarrow> claim \<Rightarrow> position \<Rightarrow> step_payload comp"

record step_data =
  sd_leaf_claim :: claim
  sd_is_attack :: bool
  sd_payload :: step_payload

definition agree_with_claim :: "trace_accessor \<Rightarrow> game_state \<Rightarrow> claim \<Rightarrow> bool comp" where
  "agree_with_claim tr g c =
     cbind (ta_get tr g c (claim_pos c)) (\<lambda>ourValue. ret (ourValue = claim_value c))"

partial_function (option) agree_with_claim_path ::
  "trace_accessor \<Rightarrow> game_state \<Rightarrow> claim \<Rightarrow> bool comp" where
  "agree_with_claim_path tr g c =
     cbind (agree_with_claim tr g c) (\<lambda>agree.
       if \<not> agree then ret False
       else if claim_is_root c then ret True
       else cbind (get_parent g c) (\<lambda>par.
         if claim_is_root par then ret True
         else cbind (get_parent g par) (\<lambda>grandParent.
           agree_with_claim_path tr g grandParent)))"

definition response :: "claim \<Rightarrow> position \<Rightarrow> hash \<Rightarrow> claim" where
  "response c pos value =
     \<lparr>claim_value = value, claim_pos = pos, countered = False, clock = 0,
      contract_index = 0, parent_contract_index = contract_index c\<rparr>"

definition solver_attack :: "trace_accessor \<Rightarrow> game_state \<Rightarrow> claim \<Rightarrow> claim option comp" where
  "solver_attack tr g c =
     (let position = pos_attack (claim_pos c)
      in cbind (ta_get tr g c position) (\<lambda>value. ret (Some (response c position value))))"

definition solver_defend :: "trace_accessor \<Rightarrow> game_state \<Rightarrow> claim \<Rightarrow> claim option comp" where
  "solver_defend tr g c =
     (if claim_is_root c then ret None
      else let position = pos_defend (claim_pos c)
        in cbind (ta_get tr g c position) (\<lambda>value. ret (Some (response c position value))))"

definition next_move :: "int \<Rightarrow> trace_accessor \<Rightarrow> claim \<Rightarrow> game_state \<Rightarrow> claim option comp" where
  "next_move gameDepth tr c g =
     (if claim_depth c = gameDepth then fail ErrGameDepthReached
      else cbind
        (if claim_is_root c then ret True
         else cbind (get_parent g c) (\<lambda>par. agree_with_claim_path tr g par))
        (\<lambda>agreeWithParent.
          if \<not> agreeWithParent then ret None
          else cbind (agree_with_claim tr g c) (\<lambda>agree.
            if agree then solver_defend tr g c else solver_attack tr g c)))"

definition attempt_step :: "int \<Rightarrow> trace_accessor \<Rightarrow> game_state \<Rightarrow> claim \<Rightarrow> step_data comp" where
  "attempt_step gameDepth tr g c =
     (if claim_depth c \<noteq> gameDepth then fail ErrStepNonLeafNode
      else cbind (get_parent g c) (\<lambda>par.
        cbind (agree_with_claim_path tr g par) (\<lambda>parentValid.
          if \<not> parentValid then fail ErrStepIgnoreInvalidPath
          else cbind (agree_with_claim tr g c) (\<lambda>claimCorrect.
            let position = (if \<not> claimCorrect then claim_pos c else move_right (claim_pos c))
            in cbind (ta_get_step_data tr g c position) (\<lambda>payload.
                 ret \<lparr>sd_leaf_claim = c, sd_is_attack = \<not> claimCorrect,
                      sd_payload = payload\<rparr>)))))"

section \<open>The game solver\<close>

definition step_action :: "step_data \<Rightarrow> action" where
  "step_action st =
     (case sd_payload st of (pre, proofData, oracle) \<Rightarrow>
       \<lparr>act_type = ActionTypeStep, act_parent_idx = contract_index (sd_leaf_claim st),
        act_is_attack = sd_is_attack st, act_value = zero_hash32, act_pre_state = pre,
        act_proof_data = proofData, act_oracle_data = oracle\<rparr>)"

text \<open>\<^verbatim>\<open>ErrStepIgnoreInvalidPath\<close> is no error here but no action.\<close>

definition calculate_step ::
  "int \<Rightarrow> trace_accessor \<Rightarrow> game_state \<Rightarrow> claim \<Rightarrow> action option comp" where
  "calculate_step gameDepth tr g c =
     (if countered c then ret None
      else if agree_with_claim_level g c then ret None
      else case attempt_step gameDepth tr g c of
          None \<Rightarrow> None
        | Some (Inl e) \<Rightarrow> if e = ErrStepIgnoreInvalidPath then ret None else fail e
        | Some (Inr st) \<Rightarrow> ret (Some (step_action st)))"

definition move_action :: "game_state \<Rightarrow> claim \<Rightarrow> action" where
  "move_action g move =
     \<lparr>act_type = ActionTypeMove, act_parent_idx = parent_contract_index move,
      act_is_attack = (\<not> defends_parent g move), act_value = claim_value move,
      act_pre_state = [], act_proof_data = [], act_oracle_data = None\<rparr>"

definition calculate_move ::
  "(byte list \<Rightarrow> hash) \<Rightarrow> int \<Rightarrow> trace_accessor \<Rightarrow> game_state \<Rightarrow> claim \<Rightarrow> action option comp" where
  "calculate_move K gameDepth tr g c =
     (if agree_with_claim_level g c then ret None
      else cbind (next_move gameDepth tr c g) (\<lambda>m.
        case m of
          None \<Rightarrow> ret None
        | Some move \<Rightarrow> if is_duplicate K g move then ret None
                       else ret (Some (move_action g move))))"

definition claim_action ::
  "(byte list \<Rightarrow> hash) \<Rightarrow> int \<Rightarrow> trace_accessor \<Rightarrow> game_state \<Rightarrow> claim \<Rightarrow> action option comp" where
  "claim_action K gameDepth tr g c =
     (if word_of_int (claim_depth c) = gs_depth g then calculate_step gameDepth tr g c
      else calculate_move K gameDepth tr g c)"

text \<open>The loop over the claims: errors are collected and do not stop it.\<close>

fun next_actions_loop ::
  "(byte list \<Rightarrow> hash) \<Rightarrow> int \<Rightarrow> trace_accessor \<Rightarrow> game_state \<Rightarrow> claim list \<Rightarrow>
   action list \<Rightarrow> game_err list \<Rightarrow> (action list \<times> game_err list) option" where
  "next_actions_loop K gameDepth tr g [] actions errs = Some (actions, errs)"
| "next_actions_loop K gameDepth tr g (c # cs) actions errs =
     (case claim_action K gameDepth tr g c of
        None \<Rightarrow> None
      | Some (Inl e) \<Rightarrow> next_actions_loop K gameDepth tr g cs actions (errs @ [e])
      | Some (Inr None) \<Rightarrow> next_actions_loop K gameDepth tr g cs actions errs
      | Some (Inr (Some a)) \<Rightarrow> next_actions_loop K gameDepth tr g cs (actions @ [a]) errs)"

definition calculate_next_actions ::
  "(byte list \<Rightarrow> hash) \<Rightarrow> int \<Rightarrow> trace_accessor \<Rightarrow> game_state \<Rightarrow>
   (action list \<times> game_err list) option" where
  "calculate_next_actions K gameDepth tr g = next_actions_loop K gameDepth tr g (gs_claims g) [] []"

section \<open>The rules of the game\<close>

datatype rule_violation =
  ParentMustExist | OnlyStepAtMaxDepth | OnlyMoveBeforeMaxDepth | DoNotDuplicateExistingMoves
  | DoNotDefendRootClaim

text \<open>
  A rule returns a violation, none, or panics: every rule but the first indexes the claims
  with the action's parent.
\<close>

type_synonym rule = "game_state \<Rightarrow> action \<Rightarrow> game_err + rule_violation option"

definition claim_at :: "game_state \<Rightarrow> int \<Rightarrow> game_err + claim" where
  "claim_at g i = (if 0 \<le> i \<and> i < int (length (gs_claims g)) then Inr (gs_claims g ! nat i)
                   else Inl GamePanic)"

definition parent_must_exist :: rule where
  "parent_must_exist g a =
     Inr (if int (length (gs_claims g)) \<le> act_parent_idx a \<or> act_parent_idx a < 0
          then Some ParentMustExist else None)"

definition only_step_at_max_depth :: rule where
  "only_step_at_max_depth g a =
     (if act_type a = ActionTypeStep then Inr None
      else rbind (claim_at g (act_parent_idx a)) (\<lambda>p.
        Inr (if word_of_int (claim_depth p) \<ge> gs_depth g then Some OnlyStepAtMaxDepth else None)))"

definition only_move_before_max_depth :: rule where
  "only_move_before_max_depth g a =
     (if act_type a = ActionTypeMove then Inr None
      else rbind (claim_at g (act_parent_idx a)) (\<lambda>p.
        Inr (if word_of_int (claim_depth p) < gs_depth g then Some OnlyMoveBeforeMaxDepth else None)))"

definition resulting_position :: "game_state \<Rightarrow> action \<Rightarrow> game_err + position" where
  "resulting_position g a =
     rbind (claim_at g (act_parent_idx a)) (\<lambda>p.
       Inr (if act_type a = ActionTypeStep then claim_pos p
            else if act_is_attack a then pos_attack (claim_pos p)
            else pos_defend (claim_pos p)))"

definition do_not_duplicate_existing_moves :: "(byte list \<Rightarrow> hash) \<Rightarrow> rule" where
  "do_not_duplicate_existing_moves K g a =
     rbind (resulting_position g a) (\<lambda>pos.
       Inr (if is_duplicate K g \<lparr>claim_value = act_value a, claim_pos = pos, countered = False,
                 clock = 0, contract_index = 0, parent_contract_index = act_parent_idx a\<rparr>
            then Some DoNotDuplicateExistingMoves else None))"

definition do_not_defend_root_claim :: rule where
  "do_not_defend_root_claim g a =
     rbind (claim_at g (act_parent_idx a)) (\<lambda>p.
       Inr (if is_root_position (claim_pos p) \<and> \<not> act_is_attack a
            then Some DoNotDefendRootClaim else None))"

definition rules :: "(byte list \<Rightarrow> hash) \<Rightarrow> rule list" where
  "rules K = [parent_must_exist, only_step_at_max_depth, only_move_before_max_depth,
              do_not_duplicate_existing_moves K, do_not_defend_root_claim]"

fun run_rules :: "rule list \<Rightarrow> game_state \<Rightarrow> action \<Rightarrow> game_err + rule_violation list" where
  "run_rules [] g a = Inr []"
| "run_rules (r # rs) g a =
     rbind (r g a) (\<lambda>v. rbind (run_rules rs g a) (\<lambda>vs.
       Inr (case v of None \<Rightarrow> vs | Some x \<Rightarrow> x # vs)))"

definition check_rules ::
  "(byte list \<Rightarrow> hash) \<Rightarrow> game_state \<Rightarrow> action \<Rightarrow> game_err + rule_violation list" where
  "check_rules K g a = run_rules (rules K) g a"

end
