(* ===== verification/Game_Trace.thy ===== *)
theory Game_Trace
  imports Game_Solver Mips_State
begin

text \<open>
  Where claim values come from (\<^verbatim>\<open>bl-challenger/game/fault/trace\<close>): trace providers,
  the translation of positions into a subtree, the accessors that choose a provider (one
  provider, or the split game's output roots above and a bottom provider below), the
  alphabet, output-root and cannon providers. RPC clients, the file system and the cannon
  binary are parameters.
\<close>

section \<open>Providers and accessors\<close>

record trace_provider =
  tp_get :: "position \<Rightarrow> game_err + hash"
  tp_get_step_data :: "position \<Rightarrow> game_err + step_payload"
  tp_absolute_prestate :: "game_err + hash"

definition translate :: "trace_provider \<Rightarrow> u64 \<Rightarrow> trace_provider" where
  "translate provider rootDepth =
     \<lparr>tp_get = (\<lambda>pos. rbind (relative_to_ancestor pos rootDepth) (tp_get provider)),
      tp_get_step_data =
        (\<lambda>pos. rbind (relative_to_ancestor pos rootDepth) (tp_get_step_data provider)),
      tp_absolute_prestate = tp_absolute_prestate provider\<rparr>"

type_synonym provider_selector = "game_state \<Rightarrow> claim \<Rightarrow> position \<Rightarrow> trace_provider comp"

definition new_accessor :: "provider_selector \<Rightarrow> trace_accessor" where
  "new_accessor selector =
     \<lparr>ta_get = (\<lambda>g ref pos. cbind (selector g ref pos) (\<lambda>p. lift_res (tp_get p pos))),
      ta_get_step_data =
        (\<lambda>g ref pos. cbind (selector g ref pos) (\<lambda>p. lift_res (tp_get_step_data p pos)))\<rparr>"

definition new_simple_trace_accessor :: "trace_provider \<Rightarrow> trace_accessor" where
  "new_simple_trace_accessor provider = new_accessor (\<lambda>g ref pos. ret provider)"

section \<open>The split game\<close>

partial_function (option) find_ancestor_at_depth ::
  "game_state \<Rightarrow> claim \<Rightarrow> int \<Rightarrow> claim comp" where
  "find_ancestor_at_depth g c depth =
     (if claim_depth c > depth
      then cbind (get_parent g c) (\<lambda>par. find_ancestor_at_depth g par depth)
      else ret c)"

partial_function (option) find_ancestor_with_trace_index ::
  "game_state \<Rightarrow> claim \<Rightarrow> int \<Rightarrow> int \<Rightarrow> claim comp" where
  "find_ancestor_with_trace_index g candidate depth traceIdx =
     cbind (lift_res (trace_index depth (claim_pos candidate))) (\<lambda>ti.
       if ti \<noteq> traceIdx
       then cbind (get_parent g candidate) (\<lambda>par.
              find_ancestor_with_trace_index g par depth traceIdx)
       else ret candidate)"

text \<open>The zero claim \<^verbatim>\<open>types.Claim{}\<close> that stands for "no pre-claim" is \<^term>\<open>None\<close>.\<close>

type_synonym provider_creator = "claim option \<Rightarrow> claim \<Rightarrow> game_err + trace_provider"

definition split_claims ::
  "game_state \<Rightarrow> int \<Rightarrow> claim \<Rightarrow> position \<Rightarrow> (claim option \<times> claim) comp" where
  "split_claims g topDepth topLeaf pos =
     cbind (lift_res (trace_index (pos_depth pos) pos)) (\<lambda>posIdx.
     cbind (lift_res (trace_index (pos_depth pos) (claim_pos topLeaf))) (\<lambda>leafIdx.
     cbind (lift_res (trace_index topDepth (claim_pos topLeaf))) (\<lambda>topIdx.
       if posIdx > leafIdx
       then cbind (find_ancestor_with_trace_index g topLeaf topDepth (topIdx + 1)) (\<lambda>post.
              ret (Some topLeaf, post))
       else if topIdx = 0 then ret (None, topLeaf)
       else cbind (find_ancestor_with_trace_index g topLeaf topDepth (topIdx - 1)) (\<lambda>pre.
              ret (Some pre, topLeaf)))))"

definition split_provider_selector ::
  "trace_provider \<Rightarrow> int \<Rightarrow> provider_creator \<Rightarrow> provider_selector" where
  "split_provider_selector topProvider topDepth bottomCreator g ref pos =
     (if pos_depth pos \<le> topDepth then ret topProvider
      else if claim_depth ref < topDepth then fail ErrRefClaimNotDeepEnough
      else cbind (find_ancestor_at_depth g ref topDepth) (\<lambda>topLeaf.
        cbind (split_claims g topDepth topLeaf pos) (\<lambda>(pre, post).
        cbind (lift_res (bottomCreator pre post)) (\<lambda>provider.
          ret (translate provider (word_of_int topDepth + 1))))))"

section \<open>The alphabet provider\<close>

record alphabet_provider =
  ap_state :: "byte list list"
  ap_depth :: u64
  ap_max_len :: u64

definition absolute_prestate :: "byte list" where
  "absolute_prestate = replicate 31 0 @ [0x60]"

text \<open>The state as \<^verbatim>\<open>strings.Split(state, "")\<close> yields it: one non-empty string per letter.\<close>

definition new_alphabet_provider :: "byte list list \<Rightarrow> u64 \<Rightarrow> alphabet_provider" where
  "new_alphabet_provider letters depth =
     \<lparr>ap_state = letters, ap_depth = depth, ap_max_len = push_bit (unat depth) 1\<rparr>"

definition letter_to_bytes :: "byte list \<Rightarrow> byte list" where
  "letter_to_bytes letter = (replicate 32 0)[31 := letter ! 0]"

definition build_alphabet_preimage :: "int \<Rightarrow> byte list \<Rightarrow> byte list" where
  "build_alphabet_preimage i letter = be_enc 32 (nat i) @ letter_to_bytes letter"

function alphabet_get_step_data :: "alphabet_provider \<Rightarrow> position \<Rightarrow> game_err + step_payload" where
  "alphabet_get_step_data ap i =
     (case trace_index (sint (ap_depth ap)) i of
        Inl e \<Rightarrow> Inl e
      | Inr ti \<Rightarrow>
          if ti = 0 then Inr (absolute_prestate, [], None)
          else if ti - 1 \<ge> sint (ap_max_len ap) then Inl ErrIndexTooLarge
          else if ti - 1 \<ge> int (length (ap_state ap))
            then alphabet_get_step_data ap
                   (Position (sint (ap_depth ap)) (int (length (ap_state ap))))
          else Inr (build_alphabet_preimage (ti - 1) (ap_state ap ! nat (ti - 1)), [], None))"
  by pat_completeness auto

text \<open>The one recursive call asks for an index within the state, so it does not recur.\<close>

termination
proof (relation "measure (\<lambda>(ap, i). case trace_index (sint (ap_depth ap)) i of Inl _ \<Rightarrow> 0
    | Inr ti \<Rightarrow> if ti - 1 \<ge> int (length (ap_state ap)) then 1 else 0)", goal_cases)
  case (2 ap i ti)
  have "trace_index (sint (ap_depth ap)) (Position (sint (ap_depth ap)) (int (length (ap_state ap))))
      = Inr (int (length (ap_state ap)))"
    by (simp add: trace_index_eq leaf_of_def)
  then show ?case using 2 by simp
qed simp

declare alphabet_get_step_data.simps [simp del]

definition alphabet_state_hash :: "(byte list \<Rightarrow> hash) \<Rightarrow> byte list \<Rightarrow> hash" where
  "alphabet_state_hash K st = (K st)[0 := 1]"

definition alphabet_get ::
  "(byte list \<Rightarrow> hash) \<Rightarrow> alphabet_provider \<Rightarrow> position \<Rightarrow> game_err + hash" where
  "alphabet_get K ap i =
     (if (word_of_int (pos_depth i) :: u64) > ap_depth ap then Inl ErrIndexTooLarge
      else rbind (trace_index (sint (ap_depth ap)) i) (\<lambda>ti.
        rbind (alphabet_get_step_data ap (Position (sint (ap_depth ap)) (ti + 1)))
          (\<lambda>(claimBytes, _, _). Inr (alphabet_state_hash K claimBytes))))"

definition alphabet_absolute_prestate_commitment :: "(byte list \<Rightarrow> hash) \<Rightarrow> hash" where
  "alphabet_absolute_prestate_commitment K = (K absolute_prestate)[0 := 3]"

definition alphabet_trace :: "(byte list \<Rightarrow> hash) \<Rightarrow> alphabet_provider \<Rightarrow> trace_provider" where
  "alphabet_trace K ap =
     \<lparr>tp_get = alphabet_get K ap, tp_get_step_data = alphabet_get_step_data ap,
      tp_absolute_prestate = Inr (alphabet_absolute_prestate_commitment K)\<rparr>"

section \<open>The output-root provider\<close>

record output_provider =
  op_output_at_block :: "u64 \<Rightarrow> game_err + hash"
  op_prestate_block :: u64
  op_poststate_block :: u64
  op_game_depth :: u64

definition is_uint64 :: "int \<Rightarrow> bool" where "is_uint64 x \<longleftrightarrow> 0 \<le> x \<and> x < 2 ^ 64"

definition output_block_number :: "output_provider \<Rightarrow> position \<Rightarrow> game_err + u64" where
  "output_block_number p pos =
     rbind (trace_index (sint (op_game_depth p)) pos) (\<lambda>traceIndex.
       if \<not> is_uint64 traceIndex then Inl ErrIndexTooBig
       else let outputBlock = word_of_int traceIndex + op_prestate_block p + 1
            in Inr (if outputBlock > op_poststate_block p then op_poststate_block p
                    else outputBlock))"

definition output_get :: "output_provider \<Rightarrow> position \<Rightarrow> game_err + hash" where
  "output_get p pos = rbind (output_block_number p pos) (op_output_at_block p)"

definition output_trace :: "output_provider \<Rightarrow> trace_provider" where
  "output_trace p =
     \<lparr>tp_get = output_get p, tp_get_step_data = (\<lambda>_. Inl ErrGetStepData),
      tp_absolute_prestate = op_output_at_block p (op_prestate_block p)\<rparr>"

section \<open>The cannon provider\<close>

text \<open>
  The files of a game's directory: the proofs by step (\<^term>\<open>None\<close>: no such file,
  an error: the file does not open or parse), the cached last step, and the final state
  the last cannon run left.
\<close>

record proof_data =
  pf_claim_value :: hash
  pf_state_data :: "byte list"
  pf_proof_data :: "byte list option"
  pf_oracle_key :: "byte list"
  pf_oracle_value :: "byte list"
  pf_oracle_offset :: u32

record game_dir =
  gd_proofs :: "u64 \<Rightarrow> (game_err + proof_data) option"
  gd_last_step :: "game_err + u64"
  gd_final_state :: "game_err + vm_state"

text \<open>
  What the provider does not own: running cannon up to a step, and whether the two cache
  files can be written.
\<close>

record cannon_env =
  ce_generate_proof :: "u64 \<Rightarrow> game_dir \<Rightarrow> game_err option \<times> game_dir"
  ce_cache_writable :: bool
  ce_proof_writable :: bool

record cannon_provider =
  cn_prestate :: "game_err + vm_state"
  cn_game_depth :: u64
  cn_local_context :: u64
  cn_last_step :: u64

definition write_last_step :: "cannon_env \<Rightarrow> proof_data \<Rightarrow> u64 \<Rightarrow> game_dir \<Rightarrow> game_dir" where
  "write_last_step env pf step d =
     (if \<not> ce_cache_writable env then d
      else let d1 = d\<lparr>gd_last_step := Inr step\<rparr>
        in if \<not> ce_proof_writable env then d1
           else d1\<lparr>gd_proofs := (gd_proofs d1)(step := Some (Inr pf))\<rparr>)"

definition state_witness_hash ::
  "(byte list \<Rightarrow> hash) \<Rightarrow> vm_state \<Rightarrow> game_err + byte list \<times> hash" where
  "state_witness_hash K s =
     (case encode_witness K s of
        Inl _ \<Rightarrow> Inl GamePanic
      | Inr (witness, _) \<Rightarrow>
          (case state_hash K witness of Inl _ \<Rightarrow> Inl GamePanic | Inr h \<Rightarrow> Inr (witness, h)))"

definition extension_proof :: "byte list \<Rightarrow> hash \<Rightarrow> proof_data" where
  "extension_proof witness h =
     \<lparr>pf_claim_value = h, pf_state_data = witness, pf_proof_data = Some [],
      pf_oracle_key = [], pf_oracle_value = [], pf_oracle_offset = 0\<rparr>"

text \<open>The end of the trace, when cannon ran and left no proof of step \<open>i\<close>.\<close>

definition extend_trace ::
  "(byte list \<Rightarrow> hash) \<Rightarrow> cannon_env \<Rightarrow> u64 \<Rightarrow> cannon_provider \<Rightarrow> game_dir \<Rightarrow>
   (game_err + proof_data) \<times> cannon_provider \<times> game_dir" where
  "extend_trace K env i p d =
     (case gd_final_state d of
        Inl e \<Rightarrow> (Inl e, p, d)
      | Inr s \<Rightarrow>
          if vs_exited s \<and> vs_step s \<le> i
          then let p1 = p\<lparr>cn_last_step := vs_step s - 1\<rparr>
            in case state_witness_hash K s of
                 Inl e \<Rightarrow> (Inl e, p1, d)
               | Inr (witness, h) \<Rightarrow>
                   let pf = extension_proof witness h
                   in (Inr pf, p1, write_last_step env pf (cn_last_step p1) d)
          else (Inl ErrProofNotGenerated, p, d))"

definition read_cached_last_step :: "cannon_provider \<Rightarrow> game_dir \<Rightarrow> cannon_provider" where
  "read_cached_last_step p d =
     (if cn_last_step p = 0
      then (case gd_last_step d of Inl _ \<Rightarrow> p | Inr step \<Rightarrow> p\<lparr>cn_last_step := step\<rparr>)
      else p)"

definition load_proof ::
  "(byte list \<Rightarrow> hash) \<Rightarrow> cannon_env \<Rightarrow> u64 \<Rightarrow> cannon_provider \<Rightarrow> game_dir \<Rightarrow>
   (game_err + proof_data) \<times> cannon_provider \<times> game_dir" where
  "load_proof K env i0 p0 d =
     (let p = read_cached_last_step p0 d;
          i = (if cn_last_step p \<noteq> 0 \<and> i0 > cn_last_step p then cn_last_step p else i0)
      in case gd_proofs d i of
           Some r \<Rightarrow> (r, p, d)
         | None \<Rightarrow>
             (case ce_generate_proof env i d of
                (Some e, d1) \<Rightarrow> (Inl e, p, d1)
              | (None, d1) \<Rightarrow>
                  (case gd_proofs d1 i of
                     Some r \<Rightarrow> (r, p, d1)
                   | None \<Rightarrow> extend_trace K env i p d1)))"

definition cannon_get ::
  "(byte list \<Rightarrow> hash) \<Rightarrow> cannon_env \<Rightarrow> position \<Rightarrow> cannon_provider \<Rightarrow> game_dir \<Rightarrow>
   (game_err + hash) \<times> cannon_provider \<times> game_dir" where
  "cannon_get K env pos p d =
     (case trace_index (sint (cn_game_depth p)) pos of
        Inl e \<Rightarrow> (Inl e, p, d)
      | Inr ti \<Rightarrow>
          if \<not> is_uint64 ti then (Inl ErrTraceIndexOutOfBounds, p, d)
          else (case load_proof K env (word_of_int ti) p d of
              (Inl e, s) \<Rightarrow> (Inl e, s)
            | (Inr pf, s) \<Rightarrow>
                (if pf_claim_value pf = zero_hash32 then Inl ErrProofMissingPostHash
                 else Inr (pf_claim_value pf), s)))"

definition proof_payload :: "u64 \<Rightarrow> proof_data \<Rightarrow> game_err + step_payload" where
  "proof_payload ctx pf =
     (if pf_state_data pf = [] then Inl ErrProofMissingStateData
      else case pf_proof_data pf of
          None \<Rightarrow> Inl ErrProofMissingProofData
        | Some pd \<Rightarrow>
            Inr (pf_state_data pf, pd,
                 if pf_oracle_key pf = [] then None
                 else Some (new_preimage_data ctx (pf_oracle_key pf) (pf_oracle_value pf)
                              (pf_oracle_offset pf))))"

definition cannon_get_step_data ::
  "(byte list \<Rightarrow> hash) \<Rightarrow> cannon_env \<Rightarrow> position \<Rightarrow> cannon_provider \<Rightarrow> game_dir \<Rightarrow>
   (game_err + step_payload) \<times> cannon_provider \<times> game_dir" where
  "cannon_get_step_data K env pos p d =
     (case trace_index (sint (cn_game_depth p)) pos of
        Inl e \<Rightarrow> (Inl e, p, d)
      | Inr ti \<Rightarrow>
          if \<not> is_uint64 ti then (Inl ErrTraceIndexOutOfBounds, p, d)
          else (case load_proof K env (word_of_int ti) p d of
              (Inl e, s) \<Rightarrow> (Inl e, s)
            | (Inr pf, s) \<Rightarrow> (proof_payload (cn_local_context p) pf, s)))"

definition cannon_absolute_prestate_commitment ::
  "(byte list \<Rightarrow> hash) \<Rightarrow> cannon_provider \<Rightarrow> game_err + hash" where
  "cannon_absolute_prestate_commitment K p =
     rbind (cn_prestate p) (\<lambda>s. rbind (state_witness_hash K s) (\<lambda>(_, h). Inr h))"

text \<open>
  The snapshot a run starts from: the latest one before the step, or the absolute
  pre-state. An entry of the directory is a subdirectory, a file with another name, or a
  snapshot with its number (\<^term>\<open>None\<close> when it does not fit 64 bits).
\<close>

datatype snapshot_entry = SnapDir | SnapOther | Snapshot "u64 option"

fun best_snapshot :: "u64 \<Rightarrow> snapshot_entry list \<Rightarrow> u64 \<Rightarrow> u64" where
  "best_snapshot traceIndex [] best = best"
| "best_snapshot traceIndex (Snapshot (Some index) # es) best =
     best_snapshot traceIndex es (if index > best \<and> index < traceIndex then index else best)"
| "best_snapshot traceIndex (_ # es) best = best_snapshot traceIndex es best"

definition find_starting_snapshot :: "snapshot_entry list \<Rightarrow> u64 \<Rightarrow> u64 option" where
  "find_starting_snapshot entries traceIndex =
     (let bestSnap = best_snapshot traceIndex entries 0
      in if bestSnap = 0 then None else Some bestSnap)"

end
