(* ===== verification/Game_Solver_Lemmas.thy ===== *)
theory Game_Solver_Lemmas
  imports Game_Trace
begin

text \<open>
  The contracts between the solver and its surroundings, as locales: an accessor that
  always returns (with a value or an error), and a provider that answers every position of
  its game. Inside them: the solver returns, and its actions in closed form. Both are
  interpreted on the accessors and providers of \<^verbatim>\<open>Game_Trace\<close>.
\<close>

section \<open>Ancestor searches return on well-formed games\<close>

lemma find_ancestor_at_depth_wf:
  assumes "wf_claims (gs_claims g)" "i < length (gs_claims g)" "0 \<le> D"
  shows "\<exists>j \<le> i. find_ancestor_at_depth g (gs_claims g ! i) D = ret (gs_claims g ! j) \<and>
           claim_depth (gs_claims g ! j) = min D (claim_depth (gs_claims g ! i))"
  using assms(2)
proof (induction i rule: less_induct)
  case (less i)
  show ?case
  proof (cases "claim_depth (gs_claims g ! i) > D")
    case False
    then show ?thesis
      by (intro exI [of _ i]) (simp add: find_ancestor_at_depth.simps)
  next
    case True
    then have i0: "i \<noteq> 0"
      using wf_claims_root_iff [OF assms(1) less.prems] assms(3)
      by (auto simp: claim_is_root_def is_root_position_def claim_depth_def)
    obtain p where p: "p < i" "game_parent g (gs_claims g ! i) = Some (gs_claims g ! p)"
        "claim_depth (gs_claims g ! i) = claim_depth (gs_claims g ! p) + 1"
      by (rule wf_claims_parent [OF assms(1) less.prems i0])
    obtain j where "j \<le> p" "find_ancestor_at_depth g (gs_claims g ! p) D = ret (gs_claims g ! j)"
        "claim_depth (gs_claims g ! j) = min D (claim_depth (gs_claims g ! p))"
      using less.IH [OF p(1)] p(1) less.prems by auto
    then show ?thesis using True p
      by (intro exI [of _ j]) (simp add: find_ancestor_at_depth.simps [of g "gs_claims g ! i"] get_parent_def)
  qed
qed

lemma find_ancestor_with_trace_index_wf:
  assumes "wf_claims (gs_claims g)" "i < length (gs_claims g)"
  shows "returns (find_ancestor_with_trace_index g (gs_claims g ! i) D k) \<and>
    (\<forall>a. find_ancestor_with_trace_index g (gs_claims g ! i) D k = Some (Inr a) \<longrightarrow>
       (\<exists>j \<le> i. a = gs_claims g ! j) \<and> trace_index D (claim_pos a) = Inr k)"
  using assms(2)
proof (induction i rule: less_induct)
  case (less i)
  note simps = find_ancestor_with_trace_index.simps [of g "gs_claims g ! i"]
  show ?case
  proof (cases "trace_index D (claim_pos (gs_claims g ! i))")
    case (Inl e)
    then show ?thesis by (simp add: simps)
  next
    case (Inr ti)
    show ?thesis
    proof (cases "ti = k")
      case True
      then show ?thesis using Inr by (auto simp: simps)
    next
      case False
      show ?thesis
      proof (cases "i = 0")
        case True
        then have "game_parent g (gs_claims g ! i) = None"
          using wf_claims_root_iff [OF assms(1) less.prems] by (simp add: game_parent_def)
        then show ?thesis using False Inr by (simp add: simps get_parent_def)
      next
        case i0: False
        obtain p where p: "p < i" "game_parent g (gs_claims g ! i) = Some (gs_claims g ! p)"
          by (rule wf_claims_parent [OF assms(1) less.prems i0])
        then have "p < length (gs_claims g)" using less.prems by simp
        note ih = less.IH [OF p(1) this]
        have "find_ancestor_with_trace_index g (gs_claims g ! i) D k =
            find_ancestor_with_trace_index g (gs_claims g ! p) D k"
          using False Inr p(2) by (simp add: simps get_parent_def)
        then show ?thesis using ih p(1) by (metis less_imp_le order_trans)
      qed
    qed
  qed
qed

section \<open>Accessors that return\<close>

locale returning_accessor =
  fixes tr :: trace_accessor
  assumes get_returns:
      "wf_claims (gs_claims g) \<Longrightarrow> c \<in> set (gs_claims g) \<Longrightarrow> returns (ta_get tr g c p)"
    and step_returns:
      "wf_claims (gs_claims g) \<Longrightarrow> c \<in> set (gs_claims g) \<Longrightarrow> returns (ta_get_step_data tr g c p)"
begin

lemma agree_returns:
  "wf_claims (gs_claims g) \<Longrightarrow> c \<in> set (gs_claims g) \<Longrightarrow> returns (agree_with_claim tr g c)"
  by (simp add: agree_with_claim_def get_returns)

lemma path_returns:
  assumes "wf_claims (gs_claims g)" "i < length (gs_claims g)"
  shows "returns (agree_with_claim_path tr g (gs_claims g ! i))"
  using assms(2)
proof (induction i rule: less_induct)
  case (less i)
  have agree: "returns (agree_with_claim tr g (gs_claims g ! i))"
    using agree_returns [OF assms(1)] less.prems by simp
  show ?case
  proof (cases "i = 0")
    case True
    then have "claim_is_root (gs_claims g ! i)" using wf_claims_root_iff [OF assms(1) less.prems] by simp
    then show ?thesis using agree
      by (subst agree_with_claim_path.simps) simp
  next
    case i0: False
    obtain p where p: "p < i" "game_parent g (gs_claims g ! i) = Some (gs_claims g ! p)"
      by (rule wf_claims_parent [OF assms(1) less.prems i0])
    then have pl: "p < length (gs_claims g)" using less.prems by simp
    show ?thesis
    proof (cases "p = 0")
      case True
      then have "claim_is_root (gs_claims g ! p)" using wf_claims_root_iff [OF assms(1) pl] by simp
      then show ?thesis using agree p
        by (subst agree_with_claim_path.simps) (simp add: get_parent_def)
    next
      case False
      obtain q where q: "q < p" "game_parent g (gs_claims g ! p) = Some (gs_claims g ! q)"
        by (rule wf_claims_parent [OF assms(1) pl False])
      then have "returns (agree_with_claim_path tr g (gs_claims g ! q))"
        using less.IH [of q] p(1) pl by simp
      then show ?thesis using agree p q
        by (subst agree_with_claim_path.simps) (simp add: get_parent_def)
    qed
  qed
qed

lemma claim_action_returns:
  assumes wf: "wf_claims (gs_claims g)" and i: "i < length (gs_claims g)"
  shows "returns (claim_action K gd tr g (gs_claims g ! i))"
proof -
  let ?c = "gs_claims g ! i"
  have mem: "?c \<in> set (gs_claims g)" using i by simp
  note A = agree_returns [OF wf mem] and G = get_returns [OF wf mem] and S = step_returns [OF wf mem]
  have par: "returns (cbind (get_parent g ?c) (agree_with_claim_path tr g))"
  proof (cases "game_parent g ?c")
    case (Some p)
    then have "i \<noteq> 0" using wf_claims_root_iff [OF wf i] by (auto simp: game_parent_def)
    then obtain j where "j < i" "game_parent g ?c = Some (gs_claims g ! j)"
      by (rule wf_claims_parent [OF wf i])
    then show ?thesis using path_returns [OF wf, of j] i by (simp add: get_parent_def)
  qed (simp add: get_parent_def)
  have "returns (next_move gd tr ?c g)"
    using par A G
    by (simp add: next_move_def solver_attack_def solver_defend_def Let_def)
  moreover have "returns (attempt_step gd tr g ?c)"
    using par A S by (simp add: attempt_step_def Let_def)
  ultimately show ?thesis
    by (cases "attempt_step gd tr g ?c")
       (auto simp: claim_action_def calculate_step_def calculate_move_def returns_def [of None]
             split: option.split sum.split)
qed

lemma loop_returns:
  "wf_claims (gs_claims g) \<Longrightarrow> set cs \<subseteq> set (gs_claims g) \<Longrightarrow>
   returns (next_actions_loop K gd tr g cs as es)"
proof (induction cs arbitrary: as es)
  case (Cons c cs)
  obtain i where "i < length (gs_claims g)" "c = gs_claims g ! i"
    using Cons.prems(2) by (auto elim: mem_claimsE)
  then have "returns (claim_action K gd tr g c)" using claim_action_returns Cons.prems(1) by blast
  then show ?case using Cons by (auto simp: returns_def split: option.splits sum.splits)
qed simp

lemma solver_returns:
  "wf_claims (gs_claims g) \<Longrightarrow> returns (calculate_next_actions K gd tr g)"
  unfolding calculate_next_actions_def by (rule loop_returns) simp_all

end

interpretation simple: returning_accessor "new_simple_trace_accessor provider" for provider
  by unfold_locales (simp_all add: new_simple_trace_accessor_def new_accessor_def)

lemma split_claims_returns:
  assumes "wf_claims (gs_claims g)" "i < length (gs_claims g)"
  shows "returns (split_claims g D (gs_claims g ! i) pos)"
  using find_ancestor_with_trace_index_wf [OF assms]
  by (simp add: split_claims_def)

lemma split_selector_returns:
  assumes wf: "wf_claims (gs_claims g)" and c: "c \<in> set (gs_claims g)" and D: "0 \<le> D"
  shows "returns (split_provider_selector tp D bottom g c pos)"
proof -
  obtain i where i: "i < length (gs_claims g)" "c = gs_claims g ! i" using c by (rule mem_claimsE)
  obtain j where j: "j \<le> i" "find_ancestor_at_depth g c D = ret (gs_claims g ! j)"
    using find_ancestor_at_depth_wf [OF wf i(1) D] i(2) by blast
  then have "returns (split_claims g D (gs_claims g ! j) pos)"
    using split_claims_returns [OF wf, of j] i(1) by simp
  then show ?thesis using j(2)
    by (auto simp: split_provider_selector_def split: prod.split)
qed

interpretation split: returning_accessor
  "new_accessor (split_provider_selector topProvider (int topDepth) bottomCreator)"
  for topProvider topDepth bottomCreator
  by unfold_locales (simp_all add: new_accessor_def split_selector_returns)

section \<open>Providers that answer\<close>

text \<open>
  A claim on an honest path: its value is the trace's, and so are the values of the claims
  two levels up, up to the root or the level below it.
\<close>

inductive honest_path :: "(position \<Rightarrow> hash) \<Rightarrow> claim list \<Rightarrow> nat \<Rightarrow> bool"
  for T cs where
  path_root: "claim_value (cs ! 0) = T (claim_pos (cs ! 0)) \<Longrightarrow> honest_path T cs 0"
| path_child: "i \<noteq> 0 \<Longrightarrow> claim_value (cs ! i) = T (claim_pos (cs ! i)) \<Longrightarrow>
    parent_contract_index (cs ! i) = 0 \<Longrightarrow> honest_path T cs i"
| path_step: "i \<noteq> 0 \<Longrightarrow> claim_value (cs ! i) = T (claim_pos (cs ! i)) \<Longrightarrow>
    parent_contract_index (cs ! i) = int p \<Longrightarrow> p \<noteq> 0 \<Longrightarrow>
    parent_contract_index (cs ! p) = int q \<Longrightarrow> honest_path T cs q \<Longrightarrow> honest_path T cs i"

inductive_simps honest_path_iff: "honest_path T cs i"

lemma honest_path_simps:
  "honest_path T cs 0 \<longleftrightarrow> claim_value (cs ! 0) = T (claim_pos (cs ! 0))"
  "i \<noteq> 0 \<Longrightarrow> parent_contract_index (cs ! i) = 0 \<Longrightarrow>
     honest_path T cs i \<longleftrightarrow> claim_value (cs ! i) = T (claim_pos (cs ! i))"
  "i \<noteq> 0 \<Longrightarrow> parent_contract_index (cs ! i) = int p \<Longrightarrow> p \<noteq> 0 \<Longrightarrow>
     parent_contract_index (cs ! p) = int q \<Longrightarrow>
     honest_path T cs i \<longleftrightarrow> claim_value (cs ! i) = T (claim_pos (cs ! i)) \<and> honest_path T cs q"
  by (subst honest_path_iff, simp)+

text \<open>The honest value of a position, and the claim an honest actor answers \<open>c\<close> with.\<close>

definition provider_value :: "trace_provider \<Rightarrow> position \<Rightarrow> hash" where
  "provider_value provider p = projr (tp_get provider p)"

definition honest_answer :: "(position \<Rightarrow> hash) \<Rightarrow> claim \<Rightarrow> claim" where
  "honest_answer T c =
     (let pos = (if claim_value c = T (claim_pos c) then pos_defend (claim_pos c)
                 else pos_attack (claim_pos c))
      in response c pos (T pos))"

text \<open>
  The claims that get an answer: a wrong root, and every other claim whose parent is on an
  honest path.
\<close>

definition to_be_answered :: "(position \<Rightarrow> hash) \<Rightarrow> claim list \<Rightarrow> nat \<Rightarrow> bool" where
  "to_be_answered T cs i \<longleftrightarrow>
     (if i = 0 then claim_value (cs ! 0) \<noteq> T (claim_pos (cs ! 0))
      else honest_path T cs (nat (parent_contract_index (cs ! i))))"

locale answering_provider =
  fixes provider :: trace_provider and D :: int
  assumes answers: "wf_pos p \<Longrightarrow> pos_depth p \<le> D \<Longrightarrow> \<exists>h. tp_get provider p = Inr h"
begin

abbreviation "trace_value \<equiv> provider_value provider"
abbreviation "acc \<equiv> new_simple_trace_accessor provider"

lemma get_value:
  "wf_pos p \<Longrightarrow> pos_depth p \<le> D \<Longrightarrow> ta_get acc g c p = ret (trace_value p)"
  using answers [of p] by (auto simp: new_simple_trace_accessor_def new_accessor_def provider_value_def)

lemma agree_value:
  "wf_claims (gs_claims g) \<Longrightarrow> i < length (gs_claims g) \<Longrightarrow> claim_depth (gs_claims g ! i) \<le> D \<Longrightarrow>
   agree_with_claim acc g (gs_claims g ! i) =
     ret (claim_value (gs_claims g ! i) = trace_value (claim_pos (gs_claims g ! i)))"
  using wf_claims_pos [of "gs_claims g" i]
  by (auto simp: agree_with_claim_def get_value claim_depth_def)

lemma path_value:
  assumes wf: "wf_claims (gs_claims g)" and "i < length (gs_claims g)"
    and "claim_depth (gs_claims g ! i) \<le> D"
  shows "agree_with_claim_path acc g (gs_claims g ! i) = ret (honest_path trace_value (gs_claims g) i)"
  using assms(2,3)
proof (induction i rule: less_induct)
  case (less i)
  let ?cs = "gs_claims g"
  note agree = agree_value [OF wf less.prems]
  note simps = agree_with_claim_path.simps [of acc g "?cs ! i"]
  show ?case
  proof (cases "i = 0")
    case True
    then have "claim_is_root (?cs ! i)" using wf_claims_root_iff [OF wf less.prems(1)] by simp
    moreover have "honest_path trace_value ?cs i \<longleftrightarrow>
        claim_value (?cs ! i) = trace_value (claim_pos (?cs ! i))"
      using True by (simp add: honest_path_simps)
    ultimately show ?thesis using agree by (simp add: simps)
  next
    case i0: False
    obtain p where p: "p < i" "parent_contract_index (?cs ! i) = int p"
        "game_parent g (?cs ! i) = Some (?cs ! p)" "claim_depth (?cs ! i) = claim_depth (?cs ! p) + 1"
      by (rule wf_claims_parent [OF wf less.prems(1) i0])
    have pl: "p < length ?cs" using p(1) less.prems by simp
    have nr: "\<not> claim_is_root (?cs ! i)" using wf_claims_root_iff [OF wf less.prems(1)] i0 by simp
    show ?thesis
    proof (cases "p = 0")
      case True
      then have "claim_is_root (?cs ! p)" using wf_claims_root_iff [OF wf pl] by simp
      then show ?thesis using True agree nr p i0
        by (simp add: simps get_parent_def honest_path_simps)
    next
      case False
      obtain q where q: "q < p" "parent_contract_index (?cs ! p) = int q"
          "game_parent g (?cs ! p) = Some (?cs ! q)" "claim_depth (?cs ! p) = claim_depth (?cs ! q) + 1"
        by (rule wf_claims_parent [OF wf pl False])
      have npr: "\<not> claim_is_root (?cs ! p)" using wf_claims_root_iff [OF wf pl] False by simp
      have ih: "agree_with_claim_path acc g (?cs ! q) = ret (honest_path trace_value ?cs q)"
        using less.IH [of q] p q pl less.prems by simp
      have "honest_path trace_value ?cs i \<longleftrightarrow>
          claim_value (?cs ! i) = trace_value (claim_pos (?cs ! i)) \<and> honest_path trace_value ?cs q"
        using i0 False p(2) q(2) by (simp add: honest_path_simps)
      then show ?thesis using agree nr npr p q ih by (simp add: simps get_parent_def)
    qed
  qed
qed

lemma next_move_value:
  assumes wf: "wf_claims (gs_claims g)" and i: "i < length (gs_claims g)"
    and d: "claim_depth (gs_claims g ! i) < D"
  shows "next_move D acc (gs_claims g ! i) g =
    ret (if to_be_answered trace_value (gs_claims g) i then Some (honest_answer trace_value (gs_claims g ! i)) else None)"
proof -
  let ?cs = "gs_claims g" and ?c = "gs_claims g ! i"
  have agree: "agree_with_claim acc g ?c = ret (claim_value ?c = trace_value (claim_pos ?c))"
    using agree_value [OF wf i] d by simp
  have pos: "wf_pos (claim_pos ?c)" "0 < pos_depth (claim_pos ?c) \<longleftrightarrow> i \<noteq> 0"
    using wf_claims_pos [OF wf i] by simp_all
  have att: "ta_get acc g ?c (pos_attack (claim_pos ?c)) = ret (trace_value (pos_attack (claim_pos ?c)))"
    using d pos by (intro get_value wf_pos_attack) (simp_all add: pos_attack_eq claim_depth_def)
  have dfd: "i \<noteq> 0 \<Longrightarrow>
      ta_get acc g ?c (pos_defend (claim_pos ?c)) = ret (trace_value (pos_defend (claim_pos ?c)))"
    using d pos by (intro get_value wf_pos_defend) (simp_all add: pos_defend_eq claim_depth_def)
  have root: "claim_is_root ?c \<longleftrightarrow> i = 0" by (rule wf_claims_root_iff [OF wf i])
  show ?thesis
  proof (cases "i = 0")
    case True
    then show ?thesis using root agree att d
      by (simp add: next_move_def solver_attack_def solver_defend_def Let_def to_be_answered_def honest_answer_def)
  next
    case False
    obtain p where p: "p < i" "parent_contract_index ?c = int p" "game_parent g ?c = Some (?cs ! p)"
        "claim_depth ?c = claim_depth (?cs ! p) + 1"
      by (rule wf_claims_parent [OF wf i False])
    have "agree_with_claim_path acc g (?cs ! p) = ret (honest_path trace_value ?cs p)"
      using path_value [OF wf] p i d by simp
    then show ?thesis using False root agree att dfd d p
      by (simp add: next_move_def solver_attack_def solver_defend_def Let_def to_be_answered_def
            honest_answer_def get_parent_def)
  qed
qed

end

section \<open>The alphabet provider answers\<close>

lemma alphabet_step_ok:
  assumes d: "unat d < 63" and ti: "0 \<le> ti" "ti < 2 ^ unat d"
  shows "\<exists>x. alphabet_get_step_data (new_alphabet_provider letters d)
           (Position (sint d) (ti + 1)) = Inr x"
proof -
  let ?ap = "new_alphabet_provider letters d"
  let ?n = "int (length letters)"
  have pw: "(2 :: nat) ^ unat d < 2 ^ 63" using d by (intro power_strict_increasing) simp_all
  have mx: "sint (ap_max_len ?ap) = 2 ^ unat d"
  proof -
    have "unat ((2 :: u64) ^ unat d) = 2 ^ unat d" using d by (simp add: unat_exp)
    then have "sint ((2 :: u64) ^ unat d) = 2 ^ unat d" using pw by (simp add: sint_small)
    then show ?thesis by (simp add: new_alphabet_provider_def push_bit_eq_mult)
  qed
  have idx: "trace_index (sint d) (Position (sint d) k) = Inr k" for k
    by (simp add: trace_index_eq leaf_of_def)
  show ?thesis
  proof (cases "ti < ?n")
    case True
    then show ?thesis using ti mx
      by (subst alphabet_get_step_data.simps) (simp add: idx new_alphabet_provider_def)
  next
    case False
    have "int (length letters) \<le> 2 ^ unat d" using False ti by linarith
    then have "length letters \<le> 2 ^ unat d" by (metis of_nat_le_iff of_nat_numeral of_nat_power)
    then have "\<exists>x. alphabet_get_step_data ?ap (Position (sint d) ?n) = Inr x"
      using False ti mx
      by (subst alphabet_get_step_data.simps) (auto simp: idx new_alphabet_provider_def)
    then show ?thesis using False ti mx
      by (subst alphabet_get_step_data.simps) (simp add: idx new_alphabet_provider_def)
  qed
qed

lemma alphabet_answers:
  assumes d: "unat d < 63" and p: "wf_pos p" "pos_depth p \<le> int (unat d)"
  shows "\<exists>h. alphabet_get K (new_alphabet_provider letters d) p = Inr h"
proof -
  have "unat d < 2 ^ 63" using d by (rule order_less_trans) simp
  then have sd: "sint d = int (unat d)" by (rule sint_small)
  have "nat (pos_depth p) \<le> unat d" using p(2) by (simp only: nat_le_iff)
  moreover have "pos_depth p < 63" using p(2) d by linarith
  then have "pos_depth p < 2 ^ 64" by (rule order_less_trans) simp
  then have "unat (word_of_int (pos_depth p) :: u64) = nat (pos_depth p)"
    using p(1) by (intro unat_word_of_int) (simp_all add: wf_pos_def)
  ultimately have "\<not> (word_of_int (pos_depth p) :: u64) > d"
    by (simp add: word_less_nat_alt)
  moreover have ti: "trace_index (sint d) p = Inr (leaf_of (sint d) p)"
    using trace_index_wf [OF p(1)] p(2) sd by simp
  moreover have r: "0 \<le> leaf_of (sint d) p" "leaf_of (sint d) p < 2 ^ unat d"
    using trace_leaf_range [OF p(1), of "sint d"] p(2) sd by simp_all
  moreover obtain x where "alphabet_get_step_data (new_alphabet_provider letters d)
      (Position (sint d) (leaf_of (sint d) p + 1)) = Inr x"
    using alphabet_step_ok [OF d r, of letters] by blast
  moreover have "ap_depth (new_alphabet_provider letters d) = d"
    by (simp add: new_alphabet_provider_def)
  ultimately show ?thesis by (simp add: alphabet_get_def split: prod.split)
qed

text \<open>Games of every depth a 64-bit trace length can hold.\<close>

interpretation alphabet: answering_provider
  "alphabet_trace K (new_alphabet_provider letters (of_nat (depth mod 63)))" "int (depth mod 63)"
  for K letters depth
proof
  fix p assume p: "wf_pos p" "pos_depth p \<le> int (depth mod 63)"
  have u: "unat (of_nat (depth mod 63) :: u64) = depth mod 63"
    by (simp add: unat_of_nat)
  have "depth mod 63 < 63" by simp
  then show "\<exists>h. tp_get (alphabet_trace K (new_alphabet_provider letters (of_nat (depth mod 63)))) p
      = Inr h"
    using alphabet_answers [of "of_nat (depth mod 63)" p K letters] p u
    by (simp add: alphabet_trace_def)
qed

end
