(* ===== verification/Game_Solver_Props.thy ===== *)
theory Game_Solver_Props
  imports Game_Solver_Lemmas
begin

text \<open>
  What the position arithmetic and the solver guarantee: positions round trip through their
  generalised index and moves halve the disputed range, the solver returns on every
  well-formed game, its moves keep the rules, and it answers every claim that has to be
  answered with the honest value.
\<close>

section \<open>Lemmas on the action loop\<close>

lemma loop_actions:
  "next_actions_loop K gd tr g cs as es = Some (as', es') \<Longrightarrow>
   set as' = set as \<union> {a. \<exists>c\<in>set cs. claim_action K gd tr g c = Some (Inr (Some a))}"
  by (induction cs arbitrary: as es) (auto split: option.splits sum.splits)

lemma next_actions_set:
  "calculate_next_actions K gd tr g = Some (as, es) \<Longrightarrow>
   set as = {a. \<exists>c\<in>set (gs_claims g). claim_action K gd tr g c = Some (Inr (Some a))}"
  unfolding calculate_next_actions_def by (drule loop_actions) simp

lemma move_shape:
  assumes "next_move gd tr c g = Some (Inr (Some m))"
  shows "\<exists>v pos. m = response c pos v \<and>
    (pos = pos_attack (claim_pos c) \<or> \<not> claim_is_root c \<and> pos = pos_defend (claim_pos c))"
  using assms
  by (auto simp: next_move_def cbind_eq_Some_Inr solver_attack_def solver_defend_def Let_def
           split: if_splits)

text \<open>A move sits where the rules look for it.\<close>

lemma response_defends:
  assumes wf: "wf_claims (gs_claims g)" and i: "i < length (gs_claims g)"
    and pos: "pos = pos_attack (claim_pos (gs_claims g ! i)) \<or>
              i \<noteq> 0 \<and> pos = pos_defend (claim_pos (gs_claims g ! i))"
  shows "defends_parent g (response (gs_claims g ! i) pos v) \<longleftrightarrow>
      pos \<noteq> pos_attack (claim_pos (gs_claims g ! i))"
proof -
  let ?c = "gs_claims g ! i"
  have w: "wf_pos (claim_pos ?c)" "even (pos_index (claim_pos ?c))"
    using wf_claims_pos [OF wf i] by simp_all
  have "0 < pos_depth pos" using pos w(1) by (auto simp: wf_pos_def pos_attack_eq pos_defend_eq)
  then have "game_parent g (response ?c pos v) = Some ?c"
    using wf_claims_index [OF wf i] i
    by (simp add: game_parent_def response_def claim_is_root_def is_root_position_def)
  then show ?thesis using pos w(2)
    by (auto simp: defends_parent_def response_def right_of_def parent_index_at_depth_def
          pos_attack_eq pos_defend_eq elim!: evenE)
qed

lemma depth_word:
  "0 \<le> k \<Longrightarrow> k \<le> int (unat (d :: u64)) \<Longrightarrow> unat (word_of_int k :: u64) = nat k"
proof -
  assume k: "0 \<le> k" "k \<le> int (unat d)"
  have "unat d < 18446744073709551616" using unat_lt [of d] by simp
  then have "k < 18446744073709551616" using k(2) by linarith
  then have "k < 2 ^ 64" by simp
  then show ?thesis using k(1) by (rule unat_word_of_int [rotated])
qed

section \<open>A small game for the witnesses\<close>

text \<open>
  A game of depth 2 over a two-letter alphabet whose root claim is wrong; the hash function
  is the identity.
\<close>

definition demo_root :: claim where
  "demo_root = \<lparr>claim_value = [7], claim_pos = Position 0 0, countered = False, clock = 0,
                contract_index = 0, parent_contract_index = 4294967295\<rparr>"

definition demo_provider :: trace_provider where
  "demo_provider = alphabet_trace id (new_alphabet_provider [[97], [98]] (of_nat (2 mod 63)))"

lemma demo_wf: "wf_claims [demo_root]"
  by (simp add: wf_claims_def wf_claim_at_def demo_root_def is_root_position_def)

lemma demo_answers:
  "\<forall>p. wf_pos p \<and> pos_depth p \<le> int (unat (2 :: u64)) \<longrightarrow> (\<exists>h. tp_get demo_provider p = Inr h)"
  using alphabet.answers [of _ 2 id "[[97], [98]]"] by (simp add: demo_provider_def)

lemma demo_value: "provider_value demo_provider p \<noteq> [7]" if "wf_pos p" "pos_depth p \<le> 2"
proof -
  obtain h where h: "tp_get demo_provider p = Inr h" using demo_answers \<open>wf_pos p\<close> \<open>pos_depth p \<le> 2\<close> by auto
  have len: "length (fst x) = 64 \<or> length (fst x) = 32"
    if "alphabet_get_step_data ap q = Inr x" for ap q x
    using that
    by (induction ap q rule: alphabet_get_step_data.induct)
       (subst (asm) (2) alphabet_get_step_data.simps,
        auto simp: absolute_prestate_def build_alphabet_preimage_def letter_to_bytes_def
             split: sum.splits if_splits)
  show ?thesis using h len
    by (fastforce simp: provider_value_def demo_provider_def alphabet_trace_def alphabet_get_def
          rbind_eq_Inr alphabet_state_hash_def dest: arg_cong [of _ _ length] split: if_splits prod.splits)
qed

section \<open>Positions\<close>

text \<open>\<^verbatim>\<open>NewPositionFromGIndex\<close> and \<^verbatim>\<open>ToGIndex\<close> are inverse to each other: every positive
  generalised index names one well-formed position and every well-formed position is read
  back from its index.\<close>

theorem gindex_roundtrip:
  "(0 < x \<longrightarrow> wf_pos (new_position_from_gindex x) \<and> to_gindex (new_position_from_gindex x) = int x) \<and>
   (wf_pos p \<longrightarrow> new_position_from_gindex (nat (to_gindex p)) = p)"
  by (simp add: wf_new_position to_from_gindex from_to_gindex)

theorem gindex_roundtrip_witness:
  "wf_pos (new_position_from_gindex 13) \<and> to_gindex (new_position_from_gindex 13) = 13 \<and>
   new_position_from_gindex (nat (to_gindex (Position 3 5))) = Position 3 5"
proof -
  have "wf_pos (Position 3 5)" by (simp add: wf_pos_def)
  then show ?thesis using gindex_roundtrip [of 13 "Position 3 5"] by simp
qed

text \<open>C11. A move against a claim halves the disputed range of the trace: with \<open>k\<close> levels left
  below a claim at an even index, attacking it moves the trace index \<open>2\<^sup>k\<^sup>-\<^sup>1\<close> to the left,
  defending it moves it as much to the right, and both stay within the trace.\<close>

theorem moves_bisect_trace:
  assumes "wf_pos p" "even (pos_index p)" "0 < pos_depth p" "pos_depth p < D"
  shows "\<exists>ti. trace_index D p = Inr ti \<and>
    trace_index D (pos_attack p) = Inr (ti - 2 ^ nat (D - pos_depth p - 1)) \<and>
    trace_index D (pos_defend p) = Inr (ti + 2 ^ nat (D - pos_depth p - 1)) \<and>
    0 \<le> ti - 2 ^ nat (D - pos_depth p - 1) \<and> ti + 2 ^ nat (D - pos_depth p - 1) < 2 ^ nat D"
proof -
  have "pos_depth (pos_attack p) \<le> D" "pos_depth (pos_defend p) \<le> D"
    using assms(4) by (simp_all add: pos_attack_eq pos_defend_eq)
  moreover note trace_leaf_range [OF wf_pos_attack [OF assms(1)], of D]
    trace_leaf_range [OF wf_pos_defend [OF assms(1,3)], of D]
  ultimately show ?thesis using assms
    by (simp add: trace_index_wf wf_pos_attack wf_pos_defend leaf_attack leaf_defend)
qed

theorem moves_bisect_trace_witness:
  "trace_index 4 (Position 2 2) = Inr 11 \<and> trace_index 4 (pos_attack (Position 2 2)) = Inr 9 \<and>
   trace_index 4 (pos_defend (Position 2 2)) = Inr 13"
proof -
  have "wf_pos (Position 2 2)" by (simp add: wf_pos_def)
  moreover have "trace_index 4 (Position 2 2) = Inr 11" by (simp add: trace_index_eq leaf_of_def)
  ultimately show ?thesis using moves_bisect_trace [of "Position 2 2" 4] by simp
qed

section \<open>The solver\<close>

text \<open>C12. The honest actor always returns: on every game whose claims each attack or defend an
  earlier one, \<^verbatim>\<open>CalculateNextActions\<close> comes back with actions and errors, with one provider
  for all positions and with the split game's provider selection, although both follow
  parent indices read from the contract and a cycle of those would never end.\<close>

theorem solver_terminates:
  assumes "wf_claims (gs_claims g)"
  shows "returns (calculate_next_actions K gd (new_simple_trace_accessor provider) g) \<and>
    returns (calculate_next_actions K gd
      (new_accessor (split_provider_selector topProvider (int topDepth) bottomCreator)) g)"
  using assms by (simp add: simple.solver_returns split.solver_returns)

theorem solver_terminates_witness:
  "returns (calculate_next_actions id 2 (new_simple_trace_accessor demo_provider)
     (new_game_state id True [demo_root] 2))"
  using solver_terminates [of "new_game_state id True [demo_root] 2" id 2 demo_provider] demo_wf
  by (simp add: new_game_state_def)

text \<open>C13. The solver keeps the rules of the game: on a well-formed game of depth \<open>d\<close>, and
  whatever the trace says, every move it returns passes \<^verbatim>\<open>checkRules\<close> (its parent exists and
  is above the maximum depth, it duplicates no claim and does not defend the root), and a
  step can only be reported by the duplicate rule, which is about moves.\<close>

theorem solver_keeps_rules:
  assumes wf: "wf_claims cs" and depth: "\<forall>c\<in>set cs. claim_depth c \<le> int (unat d)"
    and run: "calculate_next_actions K (int (unat d)) tr (new_game_state K agree cs d) = Some (acts, errs)"
    and a: "a \<in> set acts"
  shows "\<exists>vs. check_rules K (new_game_state K agree cs d) a = Inr vs \<and>
    (if act_type a = ActionTypeMove then vs = [] else set vs \<subseteq> {DoNotDuplicateExistingMoves})"
proof -
  let ?g = "new_game_state K agree cs d"
  have gc: "gs_claims ?g = cs" "gs_depth ?g = d" by (simp_all add: new_game_state_def)
  obtain c where c: "c \<in> set cs" "claim_action K (int (unat d)) tr ?g c = Some (Inr (Some a))"
    using next_actions_set [OF run] a gc by auto
  obtain i where i: "i < length cs" "c = cs ! i" using c(1) by (rule mem_claimsE)
  have idx: "contract_index c = int i" and w: "wf_pos (claim_pos c)" "0 < pos_depth (claim_pos c) \<longleftrightarrow> i \<noteq> 0"
    using wf_claims_index [OF wf i(1)] wf_claims_pos [OF wf i(1)] i(2) by simp_all
  have dw: "unat (word_of_int (claim_depth c) :: u64) = nat (claim_depth c)"
    using depth c(1) w(1) by (intro depth_word [of _ d]) (auto simp: claim_depth_def wf_pos_def)
  have root: "claim_is_root c \<longleftrightarrow> i = 0" using wf_claims_root_iff [OF wf i(1)] i(2) by simp
  show ?thesis
  proof (cases "word_of_int (claim_depth c) = d")
    case True
    then obtain st where st: "attempt_step (int (unat d)) tr ?g c = Some (Inr st)" "a = step_action st"
      using c(2) gc by (auto simp: claim_action_def calculate_step_def split: if_splits option.splits sum.splits)
    have leaf: "sd_leaf_claim st = c" and nr: "i \<noteq> 0"
      using st(1) root by (auto simp: attempt_step_def cbind_eq_Some_Inr Let_def get_parent_def
            game_parent_def split: if_splits)
    have "claim_at ?g (act_parent_idx a) = Inr c" "act_type a = ActionTypeStep"
      "act_parent_idx a = int i"
      using leaf idx i gc by (simp_all add: st(2) step_action_def claim_at_def split: prod.split)
    then show ?thesis using True root nr gc i
      by (auto simp: check_rules_def rules_def parent_must_exist_def only_step_at_max_depth_def
            only_move_before_max_depth_def do_not_duplicate_existing_moves_def
            resulting_position_def do_not_defend_root_claim_def claim_is_root_def)
  next
    case False
    then obtain m where m: "next_move (int (unat d)) tr c ?g = Some (Inr (Some m))"
        "\<not> is_duplicate K ?g m" "a = move_action ?g m"
      using c(2) gc
      by (auto simp: claim_action_def calculate_move_def cbind_eq_Some_Inr split: if_splits option.splits)
    obtain v pos where r: "m = response c pos v"
        "pos = pos_attack (claim_pos c) \<or> i \<noteq> 0 \<and> pos = pos_defend (claim_pos c)"
      using move_shape [OF m(1)] root by auto
    have att: "act_is_attack a \<longleftrightarrow> pos = pos_attack (claim_pos c)"
      using response_defends [of ?g i pos v] wf i r gc by (simp add: m(3) move_action_def)
    have "claim_at ?g (act_parent_idx a) = Inr c" "act_type a = ActionTypeMove"
      "act_parent_idx a = int i" "act_value a = v"
      using idx i gc by (simp_all add: m(3) move_action_def claim_at_def r(1) response_def)
    moreover have "resulting_position ?g a = Inr pos"
      using calculation att r(2) by (auto simp: resulting_position_def)
    moreover have "nat (claim_depth c) < unat d"
    proof -
      have "unat (word_of_int (claim_depth c) :: u64) \<noteq> unat d" using False by (simp add: word_unat_eq_iff)
      moreover have "nat (claim_depth c) \<le> unat d" using depth c(1) by (simp only: nat_le_iff)
      ultimately show ?thesis using dw by simp
    qed
    then have "\<not> (word_of_int (claim_depth c) :: u64) \<ge> d"
      using dw by (simp add: word_le_nat_alt)
    moreover have "\<not> (is_root_position (claim_pos c) \<and> \<not> act_is_attack a)"
      using att r(2) root by (auto simp: claim_is_root_def)
    ultimately show ?thesis using m(2) gc i idx
      by (simp add: check_rules_def rules_def parent_must_exist_def only_step_at_max_depth_def
            only_move_before_max_depth_def do_not_duplicate_existing_moves_def
            do_not_defend_root_claim_def r(1) response_def)
  qed
qed

theorem solver_keeps_rules_witness:
  "\<exists>acts errs. calculate_next_actions id 2 (new_simple_trace_accessor demo_provider)
     (new_game_state id True [demo_root] 2) = Some (acts, errs) \<and>
   (\<forall>a\<in>set acts. \<exists>vs. check_rules id (new_game_state id True [demo_root] 2) a = Inr vs)"
proof -
  obtain acts errs where run: "calculate_next_actions id (int (unat (2 :: u64)))
      (new_simple_trace_accessor demo_provider) (new_game_state id True [demo_root] 2) = Some (acts, errs)"
    using simple.solver_returns [of "new_game_state id True [demo_root] 2"] demo_wf
    by (fastforce simp: new_game_state_def returns_def)
  have "\<forall>c\<in>set [demo_root]. claim_depth c \<le> int (unat (2 :: u64))"
    by (simp add: demo_root_def claim_depth_def)
  from solver_keeps_rules [OF demo_wf this run] run show ?thesis by fastforce
qed

text \<open>C14. The honest actor answers: if the provider answers every position of the game, then every
  claim above the maximum depth on the opponent's level that must be answered (a wrong
  root, or a claim whose parent is on an honest path) is answered by the game already, or
  by one of the returned moves: an attack exactly if the claim is wrong, a defence
  otherwise, with the trace's value at the new position.\<close>

theorem solver_answers:
  assumes wf: "wf_claims cs"
    and answers: "\<forall>p. wf_pos p \<and> pos_depth p \<le> int (unat d) \<longrightarrow> (\<exists>h. tp_get provider p = Inr h)"
    and i: "i < length cs" and d: "claim_depth (cs ! i) < int (unat d)"
    and level: "\<not> agree_with_claim_level (new_game_state K agree cs d) (cs ! i)"
    and path: "to_be_answered (provider_value provider) cs i"
  shows "\<exists>acts errs.
    calculate_next_actions K (int (unat d)) (new_simple_trace_accessor provider)
      (new_game_state K agree cs d) = Some (acts, errs) \<and>
    (let c = cs ! i; wrong = (claim_value c \<noteq> provider_value provider (claim_pos c));
         pos = (if wrong then pos_attack (claim_pos c) else pos_defend (claim_pos c));
         value = provider_value provider pos
     in compute_claim_id K (response c pos value) \<in> compute_claim_id K ` set cs \<or>
        (\<exists>a\<in>set acts. act_type a = ActionTypeMove \<and> act_parent_idx a = int i \<and>
           act_is_attack a = wrong \<and> act_value a = value))"
proof -
  let ?g = "new_game_state K agree cs d" and ?tr = "new_simple_trace_accessor provider"
  let ?T = "provider_value provider" and ?c = "cs ! i"
  have gc: "gs_claims ?g = cs" "gs_depth ?g = d" by (simp_all add: new_game_state_def)
  have ap: "answering_provider provider (int (unat d))" using answers by unfold_locales blast
  obtain acts errs where run: "calculate_next_actions K (int (unat d)) ?tr ?g = Some (acts, errs)"
    using simple.solver_returns [of ?g K "int (unat d)" provider] wf gc by (auto simp: returns_def)
  have w: "wf_pos (claim_pos ?c)" "even (pos_index (claim_pos ?c))" using wf_claims_pos [OF wf i] by simp_all
  have move: "next_move (int (unat d)) ?tr ?c ?g = ret (Some (honest_answer ?T ?c))"
    using answering_provider.next_move_value [OF ap, of ?g i] wf i d path gc by simp
  have d0: "0 \<le> claim_depth ?c" using w(1) by (simp add: claim_depth_def wf_pos_def)
  then have "unat (word_of_int (claim_depth ?c) :: u64) = nat (claim_depth ?c)"
    using d by (intro depth_word [of _ d]) simp_all
  then have "unat (word_of_int (claim_depth ?c) :: u64) \<noteq> unat d" using d d0 by linarith
  then have "word_of_int (claim_depth ?c) \<noteq> d" by metis
  then have act: "claim_action K (int (unat d)) ?tr ?g ?c =
      ret (if is_duplicate K ?g (honest_answer ?T ?c) then None
           else Some (move_action ?g (honest_answer ?T ?c)))"
    using level move gc by (simp add: claim_action_def calculate_move_def)
  have root: "i = 0 \<Longrightarrow> claim_value ?c \<noteq> ?T (claim_pos ?c)" using path by (simp add: to_be_answered_def)
  let ?pos = "if claim_value ?c \<noteq> ?T (claim_pos ?c) then pos_attack (claim_pos ?c) else pos_defend (claim_pos ?c)"
  have ans: "honest_answer ?T ?c = response ?c ?pos (?T ?pos)" by (simp add: honest_answer_def Let_def)
  have ne: "pos_defend (claim_pos ?c) \<noteq> pos_attack (claim_pos ?c)"
    using w(2) by (auto simp: pos_attack_eq pos_defend_eq elim!: evenE)
  let ?a = "move_action ?g (honest_answer ?T ?c)"
  have "defends_parent ?g (honest_answer ?T ?c) \<longleftrightarrow> \<not> claim_value ?c \<noteq> ?T (claim_pos ?c)"
    unfolding ans using response_defends [of ?g i ?pos "?T ?pos"] wf i gc root ne
    by (cases "i = 0") auto
  then have a: "act_type ?a = ActionTypeMove" "act_parent_idx ?a = int i"
    "act_is_attack ?a = (claim_value ?c \<noteq> ?T (claim_pos ?c))" "act_value ?a = ?T ?pos"
    using wf_claims_index [OF wf i] by (simp_all add: move_action_def ans) (simp_all add: response_def)
  have "?a \<in> set acts" if "\<not> is_duplicate K ?g (honest_answer ?T ?c)"
    unfolding next_actions_set [OF run] gc
    by (rule CollectI, rule bexI [of _ ?c]) (use act that i in simp_all)
  then have "is_duplicate K ?g (honest_answer ?T ?c) \<or> (\<exists>a\<in>set acts. act_type a = ActionTypeMove \<and>
      act_parent_idx a = int i \<and> act_is_attack a = (claim_value ?c \<noteq> ?T (claim_pos ?c)) \<and>
      act_value a = ?T ?pos)"
    using a by blast
  then show ?thesis using run by (auto simp: Let_def is_duplicate_new_game ans)
qed

theorem solver_answers_witness:
  "\<exists>acts errs. calculate_next_actions id 2 (new_simple_trace_accessor demo_provider)
     (new_game_state id True [demo_root] 2) = Some (acts, errs) \<and>
   (\<exists>a\<in>set acts. act_type a = ActionTypeMove \<and> act_is_attack a \<and>
      act_value a = provider_value demo_provider (Position 1 0))"
proof -
  have v: "provider_value demo_provider (Position 0 0) \<noteq> [7]" "provider_value demo_provider (Position 1 0) \<noteq> [7]"
    by (rule demo_value; simp add: wf_pos_def)+
  have a: "claim_depth ([demo_root] ! 0) < int (unat (2 :: u64))"
    "\<not> agree_with_claim_level (new_game_state id True [demo_root] 2) ([demo_root] ! 0)"
    "to_be_answered (provider_value demo_provider) [demo_root] 0"
    using v by (simp_all add: demo_root_def claim_depth_def agree_with_claim_level_def
      new_game_state_def to_be_answered_def)
  have n: "nat_bytes (Suc 0) = [1]" "nat_bytes 2 = [2]"
    by (simp_all add: nat_bytes.simps)
  have "compute_claim_id id (response demo_root (Position 1 0) x) \<noteq> compute_claim_id id demo_root" for x
    by (simp add: compute_claim_id_def claim_id_preimage_def response_def demo_root_def
          to_gindex_def big_bytes_def n)
  then show ?thesis
    using solver_answers [OF demo_wf demo_answers _ a] v
    by (simp add: demo_root_def pos_attack_eq) (fastforce simp: demo_root_def)
qed

end
