(* ===== verification/Game_Trace_Props.thy ===== *)
theory Game_Trace_Props
  imports Game_Solver_Props
begin

text \<open>
  What the trace providers guarantee: positions relative to a subtree, the claims the
  split game hands to its bottom provider, the block an output claim is about, and the
  extension of a finished cannon trace.
\<close>

section \<open>Relative positions\<close>

lemma relative_depth:
  fixes a :: u64
  assumes "wf_pos p" "unat a \<le> nat (pos_depth p)" "pos_depth p < 2 ^ 63"
  shows "\<not> a > word_of_int (pos_depth p)"
    "unat (word_of_int (pos_depth p) - a) = nat (pos_depth p) - unat a"
proof -
  have "pos_depth p < 2 ^ 64" using assms(3) by simp
  then have u: "unat (word_of_int (pos_depth p) :: u64) = nat (pos_depth p)"
    using assms(1) by (intro unat_word_of_int) (simp_all add: wf_pos_def)
  then show "\<not> a > word_of_int (pos_depth p)" using assms(2) by (simp add: word_less_nat_alt)
  then have "a \<le> word_of_int (pos_depth p)" by simp
  then show "unat (word_of_int (pos_depth p) - a) = nat (pos_depth p) - unat a"
    using u by (simp add: unat_sub)
qed

lemma leaf_relative:
  assumes "0 \<le> n" "n \<le> pos_depth p" "pos_depth p \<le> D" "0 \<le> pos_index p"
  shows "leaf_of D p = pos_index p div 2 ^ nat n * 2 ^ nat (D - (pos_depth p - n)) +
    leaf_of (D - (pos_depth p - n)) (Position n (pos_index p mod 2 ^ nat n))"
proof -
  let ?q = "pos_index p div 2 ^ nat n" and ?r = "pos_index p mod 2 ^ nat n"
  have e: "nat (D - (pos_depth p - n)) = nat n + nat (D - pos_depth p)"
    using assms by (simp flip: nat_add_distrib)
  have "pos_index p = ?q * 2 ^ nat n + ?r" by (rule div_mult_mod_eq [symmetric])
  then have "leaf_of D p = (?q * 2 ^ nat n + ?r + 1) * 2 ^ nat (D - pos_depth p) - 1"
    unfolding leaf_of_def by metis
  moreover have "D - (pos_depth p - n) - n = D - pos_depth p" by simp
  moreover have "(q * N + r + 1) * M - 1 = q * (N * M) + ((r + 1) * M - 1)" for q r N M :: int
    by (simp add: algebra_simps)
  ultimately show ?thesis unfolding e power_add by (simp only: leaf_of_def position.sel)
qed

text \<open>\<^verbatim>\<open>RelativeToAncestorAtDepth\<close> is right up to 62 levels below the ancestor and panics from
  64 on: it keeps the depth below the ancestor and the low bits of the index, so that the
  trace index in the whole game is the subtree's number times the subtree's width plus the
  trace index within it; with 64 or more levels \<^verbatim>\<open>1 << newPosDepth\<close> overflows to zero and the
  modulus divides by it; a position above the ancestor is rejected.\<close>

theorem relative_position_bounds:
  assumes "wf_pos p" "pos_depth p < 2 ^ 63" "pos_depth p \<le> D"
  shows "let n = pos_depth p - int (unat a) in
    if n < 0 then relative_to_ancestor p a = Inl ErrPositionDepthTooSmall
    else if 64 \<le> n then relative_to_ancestor p a = Inl GamePanic
    else n \<le> 62 \<longrightarrow>
      (\<exists>rel k. relative_to_ancestor p a = Inr rel \<and> wf_pos rel \<and> pos_depth rel = n \<and>
        trace_index (D - int (unat a)) rel = Inr k \<and>
        trace_index D p =
          Inr (pos_index p div 2 ^ nat n * 2 ^ nat (D - int (unat a)) + k))"
proof -
  let ?n = "pos_depth p - int (unat a)"
  have d0: "0 \<le> pos_depth p" "0 \<le> pos_index p" using assms(1) by (simp_all add: wf_pos_def)
  show ?thesis
  proof (cases "?n < 0")
    case True
    have "pos_depth p < 2 ^ 64" using assms(2) by simp
    then have "unat (word_of_int (pos_depth p) :: u64) = nat (pos_depth p)"
      using d0 by (intro unat_word_of_int)
    moreover have "nat (pos_depth p) < unat a" using True d0 by linarith
    ultimately have "a > word_of_int (pos_depth p)" by (simp add: word_less_nat_alt)
    then show ?thesis using True by (simp add: relative_to_ancestor_def Let_def)
  next
    case False
    then have "unat a \<le> nat (pos_depth p)" by linarith
    note r = relative_depth [OF assms(1) this assms(2)]
    have un: "unat (word_of_int (pos_depth p) - a) = nat ?n" using r(2) False by linarith
    show ?thesis
    proof (cases "64 \<le> ?n")
      case True
      then have "64 \<le> nat ?n" by linarith
      then have "push_bit (unat (word_of_int (pos_depth p) - a)) (1 :: u64) = 0"
        unfolding un by (simp add: push_bit_eq_mult exp_eq_zero_iff)
      then show ?thesis using True r(1) by (simp add: relative_to_ancestor_def Let_def)
    next
      case n64: False
      show ?thesis
      proof (cases "?n \<le> 62")
        case True
        then have n: "nat ?n < 63" by linarith
        have pb: "push_bit (unat (word_of_int (pos_depth p) - a)) (1 :: u64) = 2 ^ nat ?n"
          unfolding un by (simp add: push_bit_eq_mult)
        have u2: "unat ((2 :: u64) ^ nat ?n) = 2 ^ nat ?n" using n by (intro unat_exp) simp
        have lt: "(2 :: nat) ^ nat ?n < 2 ^ 63" using n by (intro power_strict_increasing) simp_all
        have s2: "sint ((2 :: u64) ^ nat ?n) = 2 ^ nat ?n" using lt u2 by (simp add: sint_small)
        have ne: "(2 :: u64) ^ nat ?n \<noteq> 0" using n by (simp add: exp_eq_zero_iff)
        have "nat ?n < (2 :: nat) ^ 63" using n by (rule order_less_trans) simp
        then have sn: "sint (word_of_int (pos_depth p) - a) = ?n"
          using un False by (subst sint_small) simp_all
        let ?rel = "Position ?n (pos_index p mod 2 ^ nat ?n)"
        have "relative_to_ancestor p a = Inr ?rel"
          unfolding relative_to_ancestor_def Let_def pb s2 sn using r(1) ne by simp
        moreover have w: "wf_pos ?rel" using False by (simp add: wf_pos_def)
        moreover have "trace_index (D - int (unat a)) ?rel = Inr (leaf_of (D - int (unat a)) ?rel)"
          using assms(3) by (intro trace_index_wf w) simp
        moreover have "trace_index D p = Inr (pos_index p div 2 ^ nat ?n * 2 ^ nat (D - int (unat a)) +
            leaf_of (D - int (unat a)) ?rel)"
          using leaf_relative [of ?n p D] False assms(3) d0 trace_index_wf [OF assms(1,3)] by simp
        ultimately show ?thesis using False n64 unfolding Let_def
          by (simp only: if_False) (intro impI exI conjI; simp)
      next
        case False
        then show ?thesis using \<open>\<not> ?n < 0\<close> n64 by (simp add: Let_def)
      qed
    qed
  qed
qed

theorem relative_position_bounds_witness:
  "relative_to_ancestor (Position 5 19) 2 = Inr (Position 3 3) \<and>
   relative_to_ancestor (Position 70 0) 1 = Inl GamePanic"
proof -
  have "wf_pos (Position 70 0)" "wf_pos (Position 5 19)" by (simp_all add: wf_pos_def)
  then show ?thesis
    using relative_position_bounds [of "Position 70 0" 70 1]
      relative_position_bounds [of "Position 5 19" 5 2]
    by (auto simp: relative_to_ancestor_def)
qed

section \<open>The split game\<close>

lemma split_claims_spec:
  assumes wf: "wf_claims (gs_claims g)" and j: "j < length (gs_claims g)"
    and r: "split_claims g D (gs_claims g ! j) pos = Some (Inr (pre, post))"
  shows "\<exists>k. trace_index D (claim_pos post) = Inr k \<and> post \<in> set (gs_claims g) \<and>
    (case pre of None \<Rightarrow> k = 0
     | Some c \<Rightarrow> c \<in> set (gs_claims g) \<and> trace_index D (claim_pos c) = Inr (k - 1))"
proof -
  note A = find_ancestor_with_trace_index_wf [OF wf j, THEN conjunct2, rule_format]
  have mem: "gs_claims g ! i \<in> set (gs_claims g)" if "i \<le> j" for i
    using that j by simp
  consider (defend) idx where "trace_index D (claim_pos (gs_claims g ! j)) = Inr idx"
      "pre = Some (gs_claims g ! j)"
      "find_ancestor_with_trace_index g (gs_claims g ! j) D (idx + 1) = Some (Inr post)"
    | (zero) "trace_index D (claim_pos (gs_claims g ! j)) = Inr 0" "pre = None" "post = gs_claims g ! j"
    | (attack) idx c where "trace_index D (claim_pos (gs_claims g ! j)) = Inr idx"
      "pre = Some c" "post = gs_claims g ! j"
      "find_ancestor_with_trace_index g (gs_claims g ! j) D (idx - 1) = Some (Inr c)"
    using r by (auto simp: split_claims_def cbind_eq_Some_Inr split: if_splits)
  then show ?thesis
  proof cases
    case defend
    from A [OF defend(3)] show ?thesis using defend mem [of j] mem by auto
  next
    case zero
    then show ?thesis using mem by simp
  next
    case attack
    from A [OF attack(4)] show ?thesis using attack mem [of j] mem by auto
  qed
qed

text \<open>C15. The split game always hands its bottom provider two neighbouring claims of the top game:
  whenever \<^verbatim>\<open>newSplitProviderSelector\<close> selects a provider for a position below the top game,
  that provider was created for a post-claim of the game and either the claim with the
  trace index just before it, or no claim if the post-claim is the first of the trace; and
  its positions are translated to the level below the top game.\<close>

theorem split_provider_adjacent:
  assumes wf: "wf_claims (gs_claims g)" and ref: "ref \<in> set (gs_claims g)"
    and below: "int D < pos_depth pos"
    and sel: "split_provider_selector topProvider (int D) bottom g ref pos = Some (Inr p)"
  shows "\<exists>pre post q k. bottom pre post = Inr q \<and> p = translate q (word_of_int (int D) + 1) \<and>
    post \<in> set (gs_claims g) \<and> trace_index (int D) (claim_pos post) = Inr k \<and>
    (case pre of None \<Rightarrow> k = 0
     | Some c \<Rightarrow> c \<in> set (gs_claims g) \<and> trace_index (int D) (claim_pos c) = Inr (k - 1))"
proof -
  obtain i where i: "i < length (gs_claims g)" "ref = gs_claims g ! i" using ref by (rule mem_claimsE)
  obtain j where j: "j \<le> i" "find_ancestor_at_depth g ref (int D) = ret (gs_claims g ! j)"
    using find_ancestor_at_depth_wf [OF wf i(1), of "int D"] i(2) by auto
  obtain pre post q where "split_claims g (int D) (gs_claims g ! j) pos = Some (Inr (pre, post))"
      "bottom pre post = Inr q" "p = translate q (word_of_int (int D) + 1)"
    using sel below j(2)
    by (auto simp: split_provider_selector_def cbind_eq_Some_Inr split: if_splits)
  then show ?thesis using split_claims_spec [OF wf, of j "int D" pos pre post] i j(1) by auto
qed

text \<open>The game of the witness: a root, an attack on it (the top game's leaf), and a claim below.\<close>

definition demo_split_game :: game_state where
  "demo_split_game = new_game_state id True
     [\<lparr>claim_value = [1], claim_pos = Position 0 0, countered = False, clock = 0,
       contract_index = 0, parent_contract_index = 4294967295\<rparr>,
      \<lparr>claim_value = [2], claim_pos = Position 1 0, countered = False, clock = 0,
       contract_index = 1, parent_contract_index = 0\<rparr>] 4"

theorem split_provider_adjacent_witness:
  "\<exists>p. split_provider_selector demo_provider (int 1) (\<lambda>pre post. Inr demo_provider)
     demo_split_game (gs_claims demo_split_game ! 1) (Position 2 2) = Some (Inr p) \<and>
   (\<exists>pre post q k. (Inr demo_provider :: game_err + trace_provider) = Inr q \<and>
      p = translate q (word_of_int (int 1) + 1) \<and>
      post \<in> set (gs_claims demo_split_game) \<and> trace_index (int 1) (claim_pos post) = Inr k \<and>
      (case pre of None \<Rightarrow> k = 0
       | Some c \<Rightarrow> c \<in> set (gs_claims demo_split_game) \<and>
           trace_index (int 1) (claim_pos c) = Inr (k - 1)))"
proof -
  have cs: "gs_claims demo_split_game ! 0 \<in> set (gs_claims demo_split_game)"
    "gs_claims demo_split_game ! 1 \<in> set (gs_claims demo_split_game)"
    by (simp_all add: demo_split_game_def new_game_state_def)
  have wf: "wf_claims (gs_claims demo_split_game)"
    by (simp add: demo_split_game_def new_game_state_def wf_claims_def wf_claim_at_def
          is_root_position_def pos_attack_eq upt_rec)
  have sel: "split_provider_selector demo_provider (int 1) (\<lambda>pre post. Inr demo_provider)
      demo_split_game (gs_claims demo_split_game ! 1) (Position 2 2)
      = Some (Inr (translate demo_provider (word_of_int (int 1) + 1)))"
    by (simp add: demo_split_game_def new_game_state_def split_provider_selector_def
          claim_depth_def find_ancestor_at_depth.simps split_claims_def trace_index_eq leaf_of_def
          find_ancestor_with_trace_index.simps get_parent_def game_parent_def claim_is_root_def
          is_root_position_def ret_def)
  have "int 1 < pos_depth (Position 2 2)" by simp
  note adjacent = split_provider_adjacent [OF wf cs(2) this sel]
  show ?thesis by (rule exI, rule conjI, rule sel, rule adjacent)
qed

section \<open>Output roots\<close>

text \<open>An output claim is about a block of the disputed range: as long as the trace index does
  not overflow past the pre-state block, the block number of a position is its trace index
  plus one after the pre-state block, cut off at the post-state block; so it lies strictly
  after the pre-state block and at most at the post-state block.\<close>

theorem output_block_bounds:
  assumes "wf_pos pos" "op_game_depth p < 64" "pos_depth pos \<le> int (unat (op_game_depth p))"
    and "op_prestate_block p < op_poststate_block p"
    and "leaf_of (int (unat (op_game_depth p))) pos + int (unat (op_prestate_block p)) + 1 < 2 ^ 64"
  shows "\<exists>b. output_block_number p pos = Inr b \<and>
    op_prestate_block p < b \<and> b \<le> op_poststate_block p \<and>
    int (unat b) = min (leaf_of (int (unat (op_game_depth p))) pos + int (unat (op_prestate_block p)) + 1)
                       (int (unat (op_poststate_block p)))"
proof -
  let ?D = "int (unat (op_game_depth p))" and ?pre = "op_prestate_block p" and ?post = "op_poststate_block p"
  let ?l = "leaf_of ?D pos"
  have d: "unat (op_game_depth p) < 64" using assms(2) by (simp add: word_less_nat_alt)
  then have "unat (op_game_depth p) < 2 ^ 63" by (rule order_less_trans) simp
  then have s: "sint (op_game_depth p) = ?D" by (rule sint_small)
  have l: "0 \<le> ?l" using trace_leaf_range [OF assms(1,3)] by simp
  then have l64: "?l < 2 ^ 64" using assms(5) by linarith
  have ti: "trace_index ?D pos = Inr ?l" by (rule trace_index_wf [OF assms(1,3)])
  let ?b = "word_of_int ?l + ?pre + 1"
  have "?b = word_of_int (?l + int (unat ?pre) + 1)" by simp
  then have ub: "unat ?b = nat (?l + int (unat ?pre) + 1)"
    using l assms(5) by (simp only: unat_word_of_int)
  have r: "output_block_number p pos = Inr (if ?b > ?post then ?post else ?b)"
    using s ti l l64 by (simp add: output_block_number_def is_uint64_def Let_def)
  have pp: "unat ?pre < unat ?post" using assms(4) by (simp add: word_less_nat_alt)
  have ib: "int (unat ?b) = ?l + int (unat ?pre) + 1" using ub l by linarith
  show ?thesis unfolding r
    using pp ib l by (auto simp only: sum.inject word_less_nat_alt word_le_nat_alt not_less
        intro!: exI split: if_split)
qed
theorem output_block_bounds_witness:
  "\<exists>b. output_block_number
      \<lparr>op_output_at_block = \<lambda>_. Inr [], op_prestate_block = 100, op_poststate_block = 110, op_game_depth = 5\<rparr>
      (Position 2 2) = Inr b \<and> uint b = 110"
proof -
  let ?p = "\<lparr>op_output_at_block = \<lambda>_. Inr [], op_prestate_block = 100, op_poststate_block = 110, op_game_depth = 5\<rparr>"
  have "wf_pos (Position 2 2)" by (simp add: wf_pos_def)
  then show ?thesis using output_block_bounds [of "Position 2 2" ?p] by (auto simp: leaf_of_def)
qed

text \<open>
  The sum itself is not checked: the root claim of a game of depth 64 has the largest
  trace index, and its block wraps around to the pre-state block.
\<close>

lemma output_block_overflow:
  "output_block_number
     \<lparr>op_output_at_block = out, op_prestate_block = 100, op_poststate_block = 110, op_game_depth = 64\<rparr>
     (Position 0 0) = Inr 100"
  by (simp add: output_block_number_def trace_index_eq leaf_of_def is_uint64_def)

section \<open>The end of a cannon trace\<close>

lemma load_known_last_step:
  assumes "cn_last_step (read_cached_last_step p d) = l" "l \<noteq> 0" "l \<le> j" "gd_proofs d l = Some r"
  shows "load_proof K env j p d = (r, read_cached_last_step p d, d)"
proof -
  have "(if l \<noteq> 0 \<and> l < j then l else j) = l" using assms(2,3) by auto
  then show ?thesis using assms(4) unfolding load_proof_def Let_def assms(1) by simp
qed

text \<open>The first request beyond the end of an exited cannon run extends the trace: its proof is
  the no-op one over the final state (its witness as state data, its hash as claim value,
  empty proof data). From then on every request from the last step on is answered from the
  files with that very proof, without running cannon, by this provider and by one that
  starts afresh on the directory.\<close>

theorem cannon_trace_extended:
  assumes unknown: "cn_last_step p = 0" "gd_last_step d = Inl e0" "gd_proofs d i = None"
    and run: "ce_generate_proof env i d = (None, d1)" "gd_proofs d1 i = None"
    and final: "gd_final_state d1 = Inr s" "vs_exited s" "vs_step s \<le> i" "1 < vs_step s"
    and hash: "state_witness_hash K s = Inr (w, h)"
    and files: "ce_cache_writable env" "ce_proof_writable env"
  shows "\<exists>p' d'. load_proof K env i p d = (Inr (extension_proof w h), p', d') \<and>
    cn_last_step p' = vs_step s - 1 \<and>
    (\<forall>env2 j. vs_step s - 1 \<le> j \<longrightarrow>
       load_proof K env2 j p' d' = (Inr (extension_proof w h), p', d') \<and>
       load_proof K env2 j p d' = (Inr (extension_proof w h), p', d'))"
proof -
  let ?l = "vs_step s - 1" and ?pf = "extension_proof w h"
  let ?p = "p\<lparr>cn_last_step := ?l\<rparr>" and ?d = "write_last_step env ?pf ?l d1"
  have l0: "?l \<noteq> 0" using final(4) by (metis eq_iff_diff_eq_0 order_less_irrefl)
  have disk: "gd_last_step ?d = Inr ?l" "gd_proofs ?d ?l = Some (Inr ?pf)"
    using files by (simp_all add: write_last_step_def Let_def)
  have first: "load_proof K env i p d = (Inr ?pf, ?p, ?d)"
    using unknown run final hash
    by (simp add: load_proof_def read_cached_last_step_def extend_trace_def Let_def)
  have read: "read_cached_last_step ?p ?d = ?p" "read_cached_last_step p ?d = ?p"
    using disk l0 unknown by (simp_all add: read_cached_last_step_def)
  have "load_proof K env2 j ?p ?d = (Inr ?pf, ?p, ?d) \<and> load_proof K env2 j p ?d = (Inr ?pf, ?p, ?d)"
    if "?l \<le> j" for env2 j
    using load_known_last_step [OF _ l0 that disk(2), of ?p K env2]
      load_known_last_step [OF _ l0 that disk(2), of p K env2] read by simp
  then show ?thesis using first by (intro exI [of _ ?p] exI [of _ ?d]) simp
qed

text \<open>The witness: a machine that exited at step 5, in a directory without files.\<close>

definition exited_state :: vm_state where
  "exited_state = \<lparr>vs_mem = new_memory, vs_key = replicate 32 0, vs_offset = 0, vs_pc = 0, vs_next_pc = 4,
     vs_lo = 0, vs_hi = 0, vs_heap = 0, vs_exit_code = 0, vs_exited = True, vs_step = 5,
     vs_regs = replicate 32 0, vs_last_hint = []\<rparr>"

lemma exited_state_hash:
  "\<exists>w h. state_witness_hash (\<lambda>_. replicate 32 0) exited_state = Inr (w, h)"
proof -
  have z: "length (zero_hashes (\<lambda>_. replicate 32 0) n) = 32" for n
    by (cases n) (simp_all add: hash_pair_def)
  have "mem_merkle_root (\<lambda>_. replicate 32 0) new_memory =
      Inr (zero_hashes (\<lambda>_. replicate 32 0) 27, new_memory)"
    unfolding mem_merkle_root_def
    by (subst mem_merkleize_subtree.simps) (simp add: new_memory_def len64.simps)
  then show ?thesis
    by (simp add: state_witness_hash_def encode_witness_def exited_state_def encode_fields_def
          state_hash_def z Let_def length_concat comp_def sum_list_triv sum_list_replicate)
qed

theorem cannon_trace_extended_witness:
  "\<exists>p w h p' d'. load_proof (\<lambda>_. replicate 32 0)
      \<lparr>ce_generate_proof = \<lambda>_ d. (None, d), ce_cache_writable = True, ce_proof_writable = True\<rparr> 9 p
      \<lparr>gd_proofs = Map.empty, gd_last_step = Inl (ErrExternal 0), gd_final_state = Inr exited_state\<rparr>
    = (Inr (extension_proof w h), p', d') \<and> cn_last_step p' = 4"
proof -
  obtain w h where h: "state_witness_hash (\<lambda>_. replicate 32 0) exited_state = Inr (w, h)"
    using exited_state_hash by blast
  let ?env = "\<lparr>ce_generate_proof = \<lambda>_ d. (None, d), ce_cache_writable = True, ce_proof_writable = True\<rparr>"
  let ?d = "\<lparr>gd_proofs = Map.empty, gd_last_step = Inl (ErrExternal 0), gd_final_state = Inr exited_state\<rparr>"
  let ?p = "\<lparr>cn_prestate = Inl (ErrExternal 0), cn_game_depth = 6, cn_local_context = 0, cn_last_step = 0\<rparr>"
  have "vs_step exited_state = 5" "vs_exited exited_state" by (simp_all add: exited_state_def)
  then have "\<exists>p' d'. load_proof (\<lambda>_. replicate 32 0) ?env 9 ?p ?d = (Inr (extension_proof w h), p', d') \<and>
      cn_last_step p' = 4"
    using cannon_trace_extended [of ?p ?d "ErrExternal 0" 9 ?env ?d exited_state
      "\<lambda>_. replicate 32 0" w h] h by auto
  then show ?thesis by blast
qed

end
