(* ===== verification/Game_Agent.thy ===== *)
theory Game_Agent
  imports Game_Solver
begin

text \<open>
  Acting on one game: the contract calls and transactions
  (\<^verbatim>\<open>bl-challenger/game/fault/contracts\<close>), the responder that sends them, the agent's
  \<^verbatim>\<open>Act\<close> and the player that wraps it (\<^verbatim>\<open>responder.go\<close>, \<^verbatim>\<open>agent.go\<close>,
  \<^verbatim>\<open>player.go\<close>). The chain and the transaction manager are the functions of a
  \<^verbatim>\<open>chain\<close> record over an arbitrary world; a read leaves the world alone, a transaction
  returns an error or whether its receipt was successful, and the next world.
\<close>

section \<open>Statuses and transactions\<close>

datatype game_status = GameStatusInProgress | GameStatusChallengerWon | GameStatusDefenderWon

definition game_status_from_uint8 :: "u8 \<Rightarrow> game_err + game_status" where
  "game_status_from_uint8 i =
     (if i > 2 then Inl (ErrInvalidGameStatus i)
      else Inr (if i = 0 then GameStatusInProgress
                else if i = 1 then GameStatusChallengerWon else GameStatusDefenderWon))"

datatype game_tx =
    AttackTx u64 hash
  | DefendTx u64 hash
  | StepTx u64 bool "byte list" "byte list"
  | ResolveTx
  | ResolveClaimTx u64
  | AddLocalDataTx nat u64 u32
  | LoadKeccak256PreimagePartTx nat u32 "byte list"

text \<open>A row of \<^verbatim>\<open>claimData\<close> as the contract returns it.\<close>

record claim_row =
  cr_parent_index :: u32
  cr_countered :: bool
  cr_claim :: hash
  cr_position :: nat
  cr_clock :: nat

record 'w chain =
  ch_claim_count :: "'w \<Rightarrow> game_err + nat"
  ch_claim_data :: "'w \<Rightarrow> nat list \<Rightarrow> game_err + claim_row list"
  ch_status :: "'w \<Rightarrow> game_err + u8"
  ch_call_resolve :: "'w \<Rightarrow> game_err + u8"
  ch_call_resolve_claim :: "'w \<Rightarrow> u64 \<Rightarrow> game_err option"
  ch_oracle_address :: "'w \<Rightarrow> game_err + nat"
  ch_send :: "game_tx \<Rightarrow> 'w \<Rightarrow> (game_err + bool) \<times> 'w"
  ch_order :: "u64 list \<Rightarrow> u64 list"

definition decode_claim :: "claim_row \<Rightarrow> nat \<Rightarrow> claim" where
  "decode_claim r contractIndex =
     \<lparr>claim_value = cr_claim r, claim_pos = new_position_from_gindex (cr_position r),
      countered = cr_countered r, clock = of_nat (cr_clock r),
      contract_index = int contractIndex, parent_contract_index = uint (cr_parent_index r)\<rparr>"

definition get_all_claims :: "'w chain \<Rightarrow> 'w \<Rightarrow> game_err + claim list" where
  "get_all_claims ch w =
     rbind (ch_claim_count ch w) (\<lambda>count.
     rbind (ch_claim_data ch w [0..<count mod 2 ^ 64]) (\<lambda>rows.
       Inr (map2 decode_claim rows [0..<length rows])))"

definition get_status :: "'w chain \<Rightarrow> 'w \<Rightarrow> game_err + game_status" where
  "get_status ch w = rbind (ch_status ch w) game_status_from_uint8"

definition call_resolve :: "'w chain \<Rightarrow> 'w \<Rightarrow> game_err + game_status" where
  "call_resolve ch w = rbind (ch_call_resolve ch w) game_status_from_uint8"

definition add_local_data_tx :: "preimage_data \<Rightarrow> game_err + game_tx" where
  "add_local_data_tx data =
     rbind (get_ident data) (\<lambda>ident.
       Inr (AddLocalDataTx ident (pd_local_context data) (pd_oracle_offset data)))"

definition add_global_data_tx :: "'w chain \<Rightarrow> 'w \<Rightarrow> preimage_data \<Rightarrow> game_err + game_tx" where
  "add_global_data_tx ch w data =
     rbind (ch_oracle_address ch w) (\<lambda>oracle.
     rbind (get_preimage_without_size data) (\<lambda>part.
       Inr (LoadKeccak256PreimagePartTx oracle (pd_oracle_offset data) part)))"

definition update_oracle_tx :: "'w chain \<Rightarrow> 'w \<Rightarrow> preimage_data \<Rightarrow> game_err + game_tx" where
  "update_oracle_tx ch w data =
     (if pd_is_local data then add_local_data_tx data else add_global_data_tx ch w data)"

section \<open>The responder\<close>

text \<open>A reverted transaction is logged, not an error.\<close>

definition send_tx_and_wait :: "'w chain \<Rightarrow> game_tx \<Rightarrow> 'w \<Rightarrow> game_err option \<times> 'w" where
  "send_tx_and_wait ch tx w =
     (case ch_send ch tx w of
        (Inl e, w') \<Rightarrow> (Some e, w')
      | (Inr receiptOk, w') \<Rightarrow> (None, w'))"

definition action_tx :: "action \<Rightarrow> game_tx" where
  "action_tx a =
     (case act_type a of
        ActionTypeMove \<Rightarrow>
          if act_is_attack a then AttackTx (word_of_int (act_parent_idx a)) (act_value a)
          else DefendTx (word_of_int (act_parent_idx a)) (act_value a)
      | ActionTypeStep \<Rightarrow>
          StepTx (word_of_int (act_parent_idx a)) (act_is_attack a) (act_pre_state a)
            (act_proof_data a))"

definition perform_action :: "'w chain \<Rightarrow> action \<Rightarrow> 'w \<Rightarrow> game_err option \<times> 'w" where
  "perform_action ch a w =
     (case (case act_oracle_data a of
              None \<Rightarrow> (None, w)
            | Some data \<Rightarrow>
                (case update_oracle_tx ch w data of
                   Inl e \<Rightarrow> (Some e, w)
                 | Inr tx \<Rightarrow> send_tx_and_wait ch tx w)) of
        (Some e, w1) \<Rightarrow> (Some e, w1)
      | (None, w1) \<Rightarrow> send_tx_and_wait ch (action_tx a) w1)"

section \<open>The agent\<close>

text \<open>
  \<^verbatim>\<open>tryResolveClaims\<close> returns \<^term>\<open>Inr False\<close> for \<^verbatim>\<open>errNoResolvableClaims\<close>, \<^term>\<open>Inr True\<close>
  for \<^verbatim>\<open>nil\<close>. The goroutines send their transactions in some order, \<^verbatim>\<open>ch_order\<close>.
\<close>

definition resolvable_claims :: "'w chain \<Rightarrow> 'w \<Rightarrow> claim list \<Rightarrow> u64 list" where
  "resolvable_claims ch w cs =
     filter (\<lambda>i. ch_call_resolve_claim ch w i = None) (map (\<lambda>c. word_of_int (contract_index c)) cs)"

definition resolve_all :: "'w chain \<Rightarrow> u64 list \<Rightarrow> 'w \<Rightarrow> 'w" where
  "resolve_all ch is w =
     fold (\<lambda>i w. snd (send_tx_and_wait ch (ResolveClaimTx i) w)) (ch_order ch is) w"

definition try_resolve_claims :: "'w chain \<Rightarrow> 'w \<Rightarrow> (game_err + bool) \<times> 'w" where
  "try_resolve_claims ch w =
     (case get_all_claims ch w of
        Inl e \<Rightarrow> (Inl e, w)
      | Inr cs \<Rightarrow>
          if cs = [] then (Inr False, w)
          else let resolvable = resolvable_claims ch w cs
            in if resolvable = [] then (Inr False, w)
               else (Inr True, resolve_all ch resolvable w))"

partial_function (option) resolve_claims :: "'w chain \<Rightarrow> 'w \<Rightarrow> (game_err option \<times> 'w) option" where
  "resolve_claims ch w =
     (case try_resolve_claims ch w of
        (Inl e, w') \<Rightarrow> Some (Some e, w')
      | (Inr again, w') \<Rightarrow> if again then resolve_claims ch w' else Some (None, w'))"

definition should_resolve :: "bool \<Rightarrow> game_status \<Rightarrow> bool" where
  "should_resolve agreeWithProposedOutput status =
     (let expected = (if agreeWithProposedOutput then GameStatusChallengerWon
                      else GameStatusDefenderWon)
      in expected = status)"

definition try_resolve :: "'w chain \<Rightarrow> bool \<Rightarrow> 'w \<Rightarrow> (bool \<times> 'w) option" where
  "try_resolve ch agree w =
     (case resolve_claims ch w of
        None \<Rightarrow> None
      | Some (Some e, w1) \<Rightarrow> Some (False, w1)
      | Some (None, w1) \<Rightarrow>
          (case call_resolve ch w1 of
             Inl e \<Rightarrow> Some (False, w1)
           | Inr status \<Rightarrow>
               if status = GameStatusInProgress then Some (False, w1)
               else if \<not> should_resolve agree status then Some (True, w1)
               else Some (True, snd (send_tx_and_wait ch ResolveTx w1))))"

record agent =
  ag_tr :: trace_accessor
  ag_max_depth :: int
  ag_agree :: bool

definition new_game_from_contracts ::
  "(byte list \<Rightarrow> hash) \<Rightarrow> 'w chain \<Rightarrow> agent \<Rightarrow> 'w \<Rightarrow> game_err + game_state" where
  "new_game_from_contracts K ch ag w =
     rbind (get_all_claims ch w) (\<lambda>cs.
       if cs = [] then Inl ErrNoClaims
       else Inr (new_game_state K (ag_agree ag) cs (word_of_int (ag_max_depth ag))))"

definition perform_actions :: "'w chain \<Rightarrow> action list \<Rightarrow> 'w \<Rightarrow> 'w" where
  "perform_actions ch as w = fold (\<lambda>a w. snd (perform_action ch a w)) as w"

definition agent_act ::
  "(byte list \<Rightarrow> hash) \<Rightarrow> 'w chain \<Rightarrow> agent \<Rightarrow> 'w \<Rightarrow> (game_err option \<times> 'w) option" where
  "agent_act K ch ag w =
     (case try_resolve ch (ag_agree ag) w of
        None \<Rightarrow> None
      | Some (True, w1) \<Rightarrow> Some (None, w1)
      | Some (False, w1) \<Rightarrow>
          (case new_game_from_contracts K ch ag w1 of
             Inl e \<Rightarrow> Some (Some e, w1)
           | Inr game \<Rightarrow>
               (case calculate_next_actions K (ag_max_depth ag) (ag_tr ag) game of
                  None \<Rightarrow> None
                | Some (actions, errs) \<Rightarrow> Some (None, perform_actions ch actions w1))))"

section \<open>The player\<close>

text \<open>A player of a game that was resolved when it was created has no agent.\<close>

record game_player =
  gp_agent :: "agent option"
  gp_status :: game_status

definition validate_absolute_prestate :: "game_err + hash \<Rightarrow> game_err + hash \<Rightarrow> game_err option" where
  "validate_absolute_prestate providerPrestate onchainPrestate =
     (case providerPrestate of
        Inl e \<Rightarrow> Some e
      | Inr p \<Rightarrow> (case onchainPrestate of
                     Inl e \<Rightarrow> Some e
                   | Inr c \<Rightarrow> if p \<noteq> c then Some ErrPrestateMismatch else None))"

definition new_game_player ::
  "'w chain \<Rightarrow> bool \<Rightarrow> game_err + u64 \<Rightarrow> (u64 \<Rightarrow> game_err + trace_accessor \<times> game_err option) \<Rightarrow>
   'w \<Rightarrow> game_err + game_player" where
  "new_game_player ch agree maxGameDepth creator w =
     rbind (get_status ch w) (\<lambda>status.
       if status \<noteq> GameStatusInProgress then Inr \<lparr>gp_agent = None, gp_status = status\<rparr>
       else rbind maxGameDepth (\<lambda>gameDepth.
         rbind (creator gameDepth) (\<lambda>(accessor, validation).
           case validation of
             Some e \<Rightarrow> Inl e
           | None \<Rightarrow> Inr \<lparr>gp_agent = Some \<lparr>ag_tr = accessor, ag_max_depth = sint gameDepth,
                                              ag_agree = agree\<rparr>,
                          gp_status = status\<rparr>)))"

definition player_act ::
  "(byte list \<Rightarrow> hash) \<Rightarrow> 'w chain \<Rightarrow> game_player \<Rightarrow> 'w \<Rightarrow> (game_err option \<times> 'w) option" where
  "player_act K ch p w =
     (case gp_agent p of None \<Rightarrow> Some (None, w) | Some ag \<Rightarrow> agent_act K ch ag w)"

definition progress_game ::
  "(byte list \<Rightarrow> hash) \<Rightarrow> 'w chain \<Rightarrow> game_player \<Rightarrow> 'w \<Rightarrow>
   (game_status \<times> game_player \<times> 'w) option" where
  "progress_game K ch p w =
     (if gp_status p \<noteq> GameStatusInProgress then Some (gp_status p, p, w)
      else case player_act K ch p w of
          None \<Rightarrow> None
        | Some (_, w1) \<Rightarrow>
            (case get_status ch w1 of
               Inl e \<Rightarrow> Some (GameStatusInProgress, p, w1)
             | Inr status \<Rightarrow> Some (status, p\<lparr>gp_status := status\<rparr>, w1)))"

section \<open>What the agent guarantees\<close>

lemma get_all_claims_index:
  "get_all_claims ch w = Inr cs \<Longrightarrow> i < length cs \<Longrightarrow> contract_index (cs ! i) = int i"
  by (auto simp: get_all_claims_def rbind_eq_Inr decode_claim_def)

lemma resolve_claims_returns:
  assumes progress: "\<And>w w'. try_resolve_claims ch w = (Inr True, w') \<Longrightarrow> unresolved w' < (unresolved w :: nat)"
  shows "\<exists>r w'. resolve_claims ch w = Some (r, w') \<and>
    (r = None \<longrightarrow> try_resolve_claims ch w' = (Inr False, w'))"
proof (induction "unresolved w" arbitrary: w rule: less_induct)
  case less
  obtain r w1 where t: "try_resolve_claims ch w = (r, w1)" by force
  show ?case
  proof (cases r)
    case (Inl e)
    then show ?thesis using t by (subst resolve_claims.simps) simp
  next
    case (Inr again)
    show ?thesis
    proof (cases again)
      case True
      then have "unresolved w1 < unresolved w" using progress t Inr by simp
      then show ?thesis using less t Inr True by (subst resolve_claims.simps) simp
    next
      case False
      have "w1 = w" using t Inr False
        by (auto simp: try_resolve_claims_def Let_def split: sum.splits if_splits)
      then show ?thesis using t Inr False by (subst resolve_claims.simps) simp
    qed
  qed
qed

text \<open>
  The loop only ends when a round resolves nothing: a claim that can be resolved, and whose
  transaction never gets through, keeps it running.
\<close>

lemma resolve_claims_diverges:
  assumes stuck: "\<And>w. P w \<Longrightarrow> \<exists>w'. try_resolve_claims ch w = (Inr True, w') \<and> P w'" and "P w"
  shows "resolve_claims ch w = None"
proof (rule ccontr)
  assume "resolve_claims ch w \<noteq> None"
  then obtain y where y: "resolve_claims ch w = Some y" by blast
  have "c = ch \<longrightarrow> \<not> P w" if "resolve_claims c w = Some y" for c w y
  proof (rule resolve_claims.raw_induct [where P = "\<lambda>c w y. c = ch \<longrightarrow> \<not> P w", OF _ that], intro impI notI)
    fix f c w y
    assume IH: "\<And>c w y. f c w = Some y \<Longrightarrow> c = ch \<longrightarrow> \<not> P w"
      and body: "(case try_resolve_claims c w of
        (Inl e, w') \<Rightarrow> Some (Some e, w')
      | (Inr again, w') \<Rightarrow> if again then f c w' else Some (None, w')) = Some y"
      and c: "c = ch" and "P w"
    then obtain w' where "try_resolve_claims c w = (Inr True, w')" "P w'" using stuck by blast
    then show False using IH body c by auto
  qed
  then show False using y assms(2) by blast
qed

end
