(* ===== verification/Game_Scheduler.thy ===== *)
theory Game_Scheduler
  imports Game_Agent
begin

text \<open>
  Playing many games at once (\<^verbatim>\<open>bl-challenger/game/{monitor,loader,registry,scheduler}\<close>):
  the games to play at a block, the coordinator's map of game states, and the queues
  between it and the workers as a step relation, one step per channel operation. Players
  are opaque handles; what a worker's \<^verbatim>\<open>ProgressGame\<close> returns is arbitrary.
\<close>

section \<open>Which games to play\<close>

type_synonym address = "byte list"

record game_metadata =
  gm_game_type :: u8
  gm_timestamp :: u64
  gm_proxy :: address

text \<open>The factory's games from the newest down, until one is too old.\<close>

fun fetch_games_loop ::
  "(u64 \<Rightarrow> game_err + game_metadata) \<Rightarrow> u64 \<Rightarrow> nat \<Rightarrow> game_metadata list \<Rightarrow>
   game_err + game_metadata list" where
  "fetch_games_loop getGame earliest 0 games = Inr games"
| "fetch_games_loop getGame earliest (Suc i) games =
     (case getGame (of_nat i) of
        Inl e \<Rightarrow> Inl e
      | Inr game \<Rightarrow> if gm_timestamp game < earliest then Inr games
                    else fetch_games_loop getGame earliest i (games @ [game]))"

definition fetch_all_games_at_block ::
  "game_err + u64 \<Rightarrow> (u64 \<Rightarrow> game_err + game_metadata) \<Rightarrow> u64 \<Rightarrow> game_err + game_metadata list" where
  "fetch_all_games_at_block gameCount getGame earliest =
     rbind gameCount (\<lambda>n. fetch_games_loop getGame earliest (unat n) [])"

definition allowed_game :: "address list \<Rightarrow> address \<Rightarrow> bool" where
  "allowed_game allowed game \<longleftrightarrow> allowed = [] \<or> game \<in> set allowed"

text \<open>Times and the window in nanoseconds; \<^verbatim>\<open>Unix\<close> rounds down, \<^verbatim>\<open>int64(Seconds())\<close> to zero.\<close>

definition min_game_timestamp :: "int \<Rightarrow> int \<Rightarrow> u64" where
  "min_game_timestamp now window =
     (if window = 0 then 0
      else if now div 10 ^ 9 > (if 0 \<le> window then window div 10 ^ 9 else - (- window div 10 ^ 9))
        then word_of_int ((now - window) div 10 ^ 9)
      else 0)"

definition games_to_play :: "address list \<Rightarrow> game_metadata list \<Rightarrow> game_metadata list" where
  "games_to_play allowed games = filter (\<lambda>g. allowed_game allowed (gm_proxy g)) games"

text \<open>The monitor passes on the games of a block; a busy scheduler is not an error.\<close>

definition monitor_progress_games ::
  "address list \<Rightarrow> (u64 \<Rightarrow> game_err + game_metadata list) \<Rightarrow> int \<Rightarrow> int \<Rightarrow>
   (game_metadata list \<Rightarrow> 's \<Rightarrow> bool \<times> 's) \<Rightarrow> 's \<Rightarrow> game_err option \<times> 's" where
  "monitor_progress_games allowed fetch now window schedule s =
     (case fetch (min_game_timestamp now window) of
        Inl e \<Rightarrow> (Some e, s)
      | Inr games \<Rightarrow> (None, snd (schedule (games_to_play allowed games) s)))"

type_synonym 'p registry = "u8 \<rightharpoonup> (game_metadata \<Rightarrow> game_err + 'p \<times> game_status)"

definition register_game_type ::
  "u8 \<Rightarrow> (game_metadata \<Rightarrow> game_err + 'p \<times> game_status) \<Rightarrow> 'p registry \<Rightarrow> game_err + 'p registry" where
  "register_game_type gameType creator r =
     (if r gameType \<noteq> None then Inl GamePanic else Inr (r(gameType \<mapsto> creator)))"

definition registry_create_player ::
  "'p registry \<Rightarrow> game_metadata \<Rightarrow> game_err + 'p \<times> game_status" where
  "registry_create_player r game =
     (case r (gm_game_type game) of None \<Rightarrow> Inl ErrUnsupportedGameType | Some creator \<Rightarrow> creator game)"

section \<open>The coordinator\<close>

record 'p game_entry =
  ge_player :: "'p option"
  ge_inflight :: bool
  ge_status :: game_status

record 'p job =
  jb_addr :: address
  jb_player :: "'p option"
  jb_status :: game_status

record 'p coordinator =
  co_states :: "address \<rightharpoonup> 'p game_entry"
  co_disk :: "address list"

definition drop_old_states :: "game_metadata list \<Rightarrow> 'p coordinator \<Rightarrow> 'p coordinator" where
  "drop_old_states games c =
     c\<lparr>co_states := (\<lambda>addr. case co_states c addr of
        None \<Rightarrow> None
      | Some st \<Rightarrow> if \<not> ge_inflight st \<and> \<not> list_ex (\<lambda>g. gm_proxy g = addr) games then None
                   else Some st)\<rparr>"

definition create_job ::
  "(game_metadata \<Rightarrow> game_err + 'p \<times> game_status) \<Rightarrow> game_metadata \<Rightarrow> 'p coordinator \<Rightarrow>
   (game_err + 'p job option) \<times> 'p coordinator" where
  "create_job createPlayer game c =
     (let addr = gm_proxy game;
          st = (case co_states c addr of
                  Some st \<Rightarrow> st
                | None \<Rightarrow> \<lparr>ge_player = None, ge_inflight = False, ge_status = GameStatusInProgress\<rparr>);
          put = (\<lambda>st. c\<lparr>co_states := (co_states c)(addr \<mapsto> st)\<rparr>)
      in if ge_inflight st then (Inr None, put st)
         else case (if ge_player st = None
                    then (case createPlayer game of
                            Inl e \<Rightarrow> Inl e
                          | Inr (player, status) \<Rightarrow>
                              Inr (st\<lparr>ge_player := Some player, ge_status := status\<rparr>))
                    else Inr st) of
             Inl e \<Rightarrow> (Inl e, put st)
           | Inr st1 \<Rightarrow>
               let st2 = st1\<lparr>ge_inflight := True\<rparr>
               in if ge_status st2 \<noteq> GameStatusInProgress then (Inr None, put st2)
                  else (Inr (Some \<lparr>jb_addr = addr, jb_player = ge_player st2,
                                  jb_status = ge_status st2\<rparr>), put st2))"

fun create_jobs ::
  "(game_metadata \<Rightarrow> game_err + 'p \<times> game_status) \<Rightarrow> game_metadata list \<Rightarrow> 'p coordinator \<Rightarrow>
   'p job list \<Rightarrow> game_err list \<Rightarrow> 'p job list \<times> game_err list \<times> 'p coordinator" where
  "create_jobs createPlayer [] c jobs errs = (jobs, errs, c)"
| "create_jobs createPlayer (g # gs) c jobs errs =
     (case create_job createPlayer g c of
        (Inl e, c1) \<Rightarrow> create_jobs createPlayer gs c1 jobs (errs @ [e])
      | (Inr None, c1) \<Rightarrow> create_jobs createPlayer gs c1 jobs errs
      | (Inr (Some j), c1) \<Rightarrow> create_jobs createPlayer gs c1 (jobs @ [j]) errs)"

text \<open>\<^verbatim>\<open>schedule\<close> up to the point where it starts to enqueue.\<close>

definition schedule_jobs ::
  "(game_metadata \<Rightarrow> game_err + 'p \<times> game_status) \<Rightarrow> game_metadata list \<Rightarrow> 'p coordinator \<Rightarrow>
   'p job list \<times> game_err list \<times> 'p coordinator" where
  "schedule_jobs createPlayer games c = create_jobs createPlayer games (drop_old_states games c) [] []"

definition keep_game :: "'p coordinator \<Rightarrow> address \<Rightarrow> bool" where
  "keep_game c addr =
     (case co_states c addr of
        None \<Rightarrow> False
      | Some st \<Rightarrow> ge_status st = GameStatusInProgress \<or> ge_inflight st)"

definition delete_resolved_game_files :: "'p coordinator \<Rightarrow> 'p coordinator" where
  "delete_resolved_game_files c = c\<lparr>co_disk := filter (keep_game c) (co_disk c)\<rparr>"

definition process_result :: "'p job \<Rightarrow> 'p coordinator \<Rightarrow> game_err option \<times> 'p coordinator" where
  "process_result j c =
     (case co_states c (jb_addr j) of
        None \<Rightarrow> (Some ErrUnknownGame, c)
      | Some st \<Rightarrow>
          (None, delete_resolved_game_files
             (c\<lparr>co_states := (co_states c)(jb_addr j \<mapsto>
                 st\<lparr>ge_inflight := False, ge_status := jb_status j\<rparr>)\<rparr>)))"

section \<open>The scheduler: coordinator, queues and workers\<close>

record 'p scheduler =
  sc_coordinator :: "'p coordinator"
  sc_pending :: "'p job list"
  sc_job_queue :: "'p job list"
  sc_working :: "'p job list"
  sc_result_queue :: "'p job list"

definition scheduler_init :: "'p scheduler \<Rightarrow> bool" where
  "scheduler_init s \<longleftrightarrow> co_states (sc_coordinator s) = Map.empty \<and> sc_pending s = [] \<and>
     sc_job_queue s = [] \<and> sc_working s = [] \<and> sc_result_queue s = []"

text \<open>
  \<open>schedule\<close>: the loop takes an update and creates its jobs; \<open>enqueue\<close>, \<open>result\<close>,
  \<open>cancel\<close>: the three cases of \<^verbatim>\<open>enqueueJob\<close>'s select (\<open>result\<close> also being the loop's);
  \<open>take\<close>, \<open>finish\<close>: a worker receives a job, and sends it back with the player's
  status, having perhaps written to the game's directory.
\<close>

inductive scheduler_step ::
  "nat \<Rightarrow> (game_metadata \<Rightarrow> game_err + 'p \<times> game_status) \<Rightarrow> 'p scheduler \<Rightarrow> 'p scheduler \<Rightarrow> bool"
  for maxConcurrency createPlayer where
  schedule: "sc_pending s = [] \<Longrightarrow>
    schedule_jobs createPlayer games (sc_coordinator s) = (jobs, errs, c) \<Longrightarrow>
    scheduler_step maxConcurrency createPlayer s (s\<lparr>sc_coordinator := c, sc_pending := jobs\<rparr>)"
| enqueue: "sc_pending s = j # js \<Longrightarrow> length (sc_job_queue s) < 2 * maxConcurrency \<Longrightarrow>
    scheduler_step maxConcurrency createPlayer s
      (s\<lparr>sc_pending := js, sc_job_queue := sc_job_queue s @ [j]\<rparr>)"
| result: "sc_result_queue s = r # rs \<Longrightarrow>
    process_result r (sc_coordinator s) = (err, c) \<Longrightarrow>
    scheduler_step maxConcurrency createPlayer s
      (s\<lparr>sc_coordinator := c, sc_result_queue := rs\<rparr>)"
| cancel: "sc_pending s = j # js \<Longrightarrow>
    scheduler_step maxConcurrency createPlayer s (s\<lparr>sc_pending := js\<rparr>)"
| take: "sc_job_queue s = j # js \<Longrightarrow> length (sc_working s) < maxConcurrency \<Longrightarrow>
    scheduler_step maxConcurrency createPlayer s
      (s\<lparr>sc_job_queue := js, sc_working := sc_working s @ [j]\<rparr>)"
| finish: "sc_working s = xs @ j # ys \<Longrightarrow> length (sc_result_queue s) < 2 * maxConcurrency \<Longrightarrow>
    disk = co_disk (sc_coordinator s) \<or> disk = jb_addr j # co_disk (sc_coordinator s) \<Longrightarrow>
    scheduler_step maxConcurrency createPlayer s
      (s\<lparr>sc_coordinator := (sc_coordinator s)\<lparr>co_disk := disk\<rparr>, sc_working := xs @ ys,
         sc_result_queue := sc_result_queue s @ [j\<lparr>jb_status := status\<rparr>]\<rparr>)"

inductive_cases scheduler_stepE: "scheduler_step n cp s t"

section \<open>One job per game\<close>

definition sched_jobs :: "'p scheduler \<Rightarrow> 'p job list" where
  "sched_jobs s = sc_pending s @ sc_job_queue s @ sc_working s @ sc_result_queue s"

definition in_flight :: "'p coordinator \<Rightarrow> address \<Rightarrow> bool" where
  "in_flight c a \<longleftrightarrow> (\<exists>st. co_states c a = Some st \<and> ge_inflight st)"

definition scheduler_inv :: "'p scheduler \<Rightarrow> bool" where
  "scheduler_inv s \<longleftrightarrow> distinct (map jb_addr (sched_jobs s)) \<and>
     (\<forall>j\<in>set (sched_jobs s). in_flight (sc_coordinator s) (jb_addr j))"

text \<open>From \<open>c\<close> to \<open>c'\<close> the games of \<open>new\<close>, none of them in flight before, take off.\<close>

definition takes_off :: "'p coordinator \<Rightarrow> 'p coordinator \<Rightarrow> 'p job list \<Rightarrow> bool" where
  "takes_off c c' new \<longleftrightarrow>
     (\<forall>a. in_flight c a \<longrightarrow> in_flight c' a) \<and> co_disk c' = co_disk c \<and>
     distinct (map jb_addr new) \<and>
     (\<forall>j\<in>set new. \<not> in_flight c (jb_addr j) \<and> in_flight c' (jb_addr j))"

lemma takes_off_trans:
  assumes a: "takes_off c c1 xs" and b: "takes_off c1 c' ys"
  shows "takes_off c c' (xs @ ys)"
proof -
  have "jb_addr x \<noteq> jb_addr y" if "x \<in> set xs" "y \<in> set ys" for x y
    using a b that unfolding takes_off_def by metis
  then have "jb_addr ` set xs \<inter> jb_addr ` set ys = {}" by auto
  then show ?thesis using a b unfolding takes_off_def by (simp add: ball_Un) blast
qed

lemma create_job_spec:
  assumes "create_job cp g c = (r, c')"
  shows "takes_off c c' (case r of Inr (Some j) \<Rightarrow> [j] | _ \<Rightarrow> [])"
  using assms
  by (auto simp: create_job_def Let_def takes_off_def in_flight_def
           split: option.splits sum.splits if_splits prod.splits)

lemma create_jobs_spec:
  "create_jobs cp gs c jobs errs = (jobs', errs', c') \<Longrightarrow>
   \<exists>new. jobs' = jobs @ new \<and> takes_off c c' new"
proof (induction gs arbitrary: c jobs errs)
  case Nil
  then show ?case by (simp add: takes_off_def)
next
  case (Cons g gs)
  obtain r c1 where r: "create_job cp g c = (r, c1)" by force
  let ?n = "case r of Inr (Some j) \<Rightarrow> [j] | _ \<Rightarrow> []"
  have "\<exists>errs1. create_jobs cp gs c1 (jobs @ ?n) errs1 = (jobs', errs', c')"
    using Cons.prems r by (auto split: sum.splits option.splits)
  then obtain new where "jobs' = (jobs @ ?n) @ new" "takes_off c1 c' new" using Cons.IH by blast
  then show ?case using takes_off_trans [OF create_job_spec [OF r]] by (metis append.assoc)
qed

lemma drop_old_in_flight: "in_flight (drop_old_states gs c) a \<longleftrightarrow> in_flight c a"
  by (auto simp: in_flight_def drop_old_states_def split: option.splits if_splits)

lemma schedule_jobs_spec:
  assumes "schedule_jobs cp gs c = (jobs, errs, c')"
  shows "takes_off c c' jobs"
  using create_jobs_spec [OF assms [unfolded schedule_jobs_def]]
  by (simp add: takes_off_def drop_old_in_flight) (simp add: drop_old_states_def)

lemma process_result_spec:
  assumes "process_result r c = (err, c')" "in_flight c (jb_addr r)"
  shows "err = None \<and> (\<forall>a. a \<noteq> jb_addr r \<longrightarrow> in_flight c a \<longrightarrow> in_flight c' a) \<and>
    co_disk c' = filter (keep_game c') (co_disk c)"
  using assms
  by (auto simp: process_result_def in_flight_def delete_resolved_game_files_def keep_game_def
        fun_eq_iff split: option.splits intro!: filter_cong)

lemma sched_jobs_step:
  assumes "scheduler_inv s" "scheduler_step n cp s t"
  shows "scheduler_inv t"
  using assms(2)
proof cases
  case (schedule games jobs errs c)
  then show ?thesis using assms(1) schedule_jobs_spec [OF schedule(3)]
    by (force simp: scheduler_inv_def sched_jobs_def takes_off_def)
next
  case (enqueue j js)
  then show ?thesis using assms(1) by (auto simp: scheduler_inv_def sched_jobs_def)
next
  case (result r rs err c)
  have r: "in_flight (sc_coordinator s) (jb_addr r)"
    using assms(1) result(2) by (simp add: scheduler_inv_def sched_jobs_def)
  note p = process_result_spec [OF result(3) r]
  have d: "distinct (map jb_addr (sched_jobs t))" "jb_addr r \<notin> jb_addr ` set (sched_jobs t)"
    and f: "\<forall>j\<in>set (sched_jobs t). in_flight (sc_coordinator s) (jb_addr j)"
    using assms(1) result(1,2) by (auto simp: scheduler_inv_def sched_jobs_def)
  have "in_flight c (jb_addr j)" if "j \<in> set (sched_jobs t)" for j
    using p f d(2) that by (metis image_eqI)
  then show ?thesis using d(1) result(1) by (simp add: scheduler_inv_def)
next
  case (cancel j js)
  then show ?thesis using assms(1) by (auto simp: scheduler_inv_def sched_jobs_def)
next
  case (take j js)
  then show ?thesis using assms(1) by (auto simp: scheduler_inv_def sched_jobs_def)
next
  case (finish xs j ys disk status)
  then show ?thesis using assms(1)
    by (auto simp: scheduler_inv_def sched_jobs_def in_flight_def)
qed

interpretation scheduler: machine scheduler_init "scheduler_step n cp" scheduler_inv for n cp
proof
  show "scheduler_inv s" if "scheduler_init s" for s :: "'a scheduler"
    using that by (simp add: scheduler_init_def scheduler_inv_def sched_jobs_def)
qed (rule sched_jobs_step)

end
