(* ===== verification/Game_Agent_Props.thy ===== *)
theory Game_Agent_Props
  imports Game_Scheduler Game_Solver_Props
begin

text \<open>
  What the agent and the scheduler guarantee: the resolution loop ends once the contract has
  nothing left to resolve, no game is played twice at a time, and the files of a game that
  is still played are never removed.
\<close>

section \<open>The resolution loop\<close>

text \<open>C16. The agent resolves until nothing is left: if a round of resolutions always leaves fewer
  unresolved claims on chain, \<^verbatim>\<open>resolveClaims\<close> returns, and unless reading the claims
  failed it returns in a world where no listed claim can be resolved. (Without progress it
  runs for ever, see \<open>resolve_claims_diverges\<close>: it neither gives up nor waits.)\<close>

theorem agent_resolves_all:
  fixes unresolved :: "'w \<Rightarrow> nat"
  assumes "\<And>w w'. try_resolve_claims ch w = (Inr True, w') \<Longrightarrow> unresolved w' < unresolved w"
  shows "\<exists>r w'. resolve_claims ch w = Some (r, w') \<and>
    (r = None \<longrightarrow> (\<forall>cs. get_all_claims ch w' = Inr cs \<longrightarrow>
       (\<forall>c\<in>set cs. ch_call_resolve_claim ch w' (word_of_int (contract_index c)) \<noteq> None)))"
proof -
  obtain r w' where r: "resolve_claims ch w = Some (r, w')"
      "r = None \<longrightarrow> try_resolve_claims ch w' = (Inr False, w')"
    using resolve_claims_returns [of ch unresolved w] assms by blast
  have "ch_call_resolve_claim ch w' (word_of_int (contract_index c)) \<noteq> None"
    if "r = None" "get_all_claims ch w' = Inr cs" "c \<in> set cs" for cs c
    using r(2) that
    by (auto simp: try_resolve_claims_def resolvable_claims_def Let_def filter_empty_conv
             split: if_splits)
  then show ?thesis using r(1) by blast
qed

text \<open>A chain whose world is the number of claims still to resolve, one at a time.\<close>

definition demo_chain :: "nat chain" where
  "demo_chain = \<lparr>ch_claim_count = \<lambda>_. Inr 1,
     ch_claim_data = \<lambda>_ _. Inr [\<lparr>cr_parent_index = 0, cr_countered = False, cr_claim = [],
                                  cr_position = 1, cr_clock = 0\<rparr>],
     ch_status = \<lambda>_. Inr 0, ch_call_resolve = \<lambda>_. Inr 0,
     ch_call_resolve_claim = (\<lambda>w _. if w = 0 then Some ErrGetStepData else None),
     ch_oracle_address = \<lambda>_. Inr 0, ch_send = (\<lambda>_ w. (Inr True, w - 1)), ch_order = (\<lambda>is. is)\<rparr>"

theorem agent_resolves_all_witness:
  "\<exists>r w'. resolve_claims demo_chain 3 = Some (r, w') \<and>
    (r = None \<longrightarrow> (\<forall>cs. get_all_claims demo_chain w' = Inr cs \<longrightarrow>
       (\<forall>c\<in>set cs. ch_call_resolve_claim demo_chain w' (word_of_int (contract_index c)) \<noteq> None)))"
proof -
  have "w' < w" if "try_resolve_claims demo_chain w = (Inr True, w')" for w w'
    using that
    by (auto simp: try_resolve_claims_def get_all_claims_def demo_chain_def resolvable_claims_def
          resolve_all_def send_tx_and_wait_def Let_def split: if_splits)
  then show ?thesis by (rule agent_resolves_all [of demo_chain "\<lambda>w. w" 3])
qed

section \<open>The scheduler\<close>

text \<open>C17. However the coordinator and its workers interleave, no game is played twice at a time: in
  every reachable state of the scheduler the jobs waiting to be enqueued, queued, being
  played and returned are of pairwise different games, and every returned result is of a
  game the coordinator knows.\<close>

theorem scheduler_one_job_per_game:
  assumes "reach scheduler_init (scheduler_step n createPlayer) s"
  shows "distinct (map jb_addr (sc_pending s @ sc_job_queue s @ sc_working s @ sc_result_queue s)) \<and>
    (\<forall>r\<in>set (sc_result_queue s). fst (process_result r (sc_coordinator s)) = None)"
proof -
  have "scheduler_inv s" using scheduler.reach_inv assms .
  then have "distinct (map jb_addr (sched_jobs s))"
    and "\<forall>r\<in>set (sc_result_queue s). in_flight (sc_coordinator s) (jb_addr r)"
    by (simp_all add: scheduler_inv_def sched_jobs_def)
  then show ?thesis
    by (fastforce simp: sched_jobs_def in_flight_def process_result_def)
qed

text \<open>C18. Cleaning up never hurts a game in play: a step of the scheduler removes a game's files
  only if the game is then no longer tracked, or resolved with no update in flight; in
  particular the files of every game with a job stay.\<close>

theorem scheduler_keeps_live_files:
  assumes "reach scheduler_init (scheduler_step n createPlayer) s"
    and "scheduler_step n createPlayer s t"
    and "a \<in> set (co_disk (sc_coordinator s))" "a \<notin> set (co_disk (sc_coordinator t))"
  shows "(case co_states (sc_coordinator t) a of
      None \<Rightarrow> True | Some st \<Rightarrow> ge_status st \<noteq> GameStatusInProgress \<and> \<not> ge_inflight st) \<and>
    a \<notin> jb_addr ` set (sc_pending t @ sc_job_queue t @ sc_working t @ sc_result_queue t)"
proof -
  have inv: "scheduler_inv s" using scheduler.reach_inv assms(1) .
  then have inv': "scheduler_inv t" using scheduler.step_inv assms(2) by blast
  have k: "\<not> keep_game (sc_coordinator t) a"
    using assms(2)
  proof cases
    case (schedule games jobs errs c)
    then show ?thesis using assms(3,4) schedule_jobs_spec [OF schedule(3)] by (simp add: takes_off_def)
  next
    case (result r rs err c)
    have "in_flight (sc_coordinator s) (jb_addr r)"
      using inv result(2) by (simp add: scheduler_inv_def sched_jobs_def)
    then show ?thesis using process_result_spec [OF result(3)] assms(3,4) result(1) by auto
  qed (use assms(3,4) in auto)
  then have "\<not> in_flight (sc_coordinator t) a"
    by (auto simp: keep_game_def in_flight_def split: option.splits)
  then have "a \<notin> jb_addr ` set (sched_jobs t)" using inv' by (auto simp: scheduler_inv_def)
  then show ?thesis using k by (auto simp: keep_game_def sched_jobs_def split: option.splits)
qed

text \<open>
  The witnesses' run: two games are scheduled, the first is enqueued, taken, played to the
  end and its result processed, which removes its directory.
\<close>

definition demo_games :: "game_metadata list" where
  "demo_games = [\<lparr>gm_game_type = 0, gm_timestamp = 1, gm_proxy = [1]\<rparr>,
                 \<lparr>gm_game_type = 0, gm_timestamp = 2, gm_proxy = [2]\<rparr>]"

definition demo_create :: "game_metadata \<Rightarrow> game_err + nat \<times> game_status" where
  "demo_create g = Inr (unat (gm_timestamp g), GameStatusInProgress)"

definition demo_job :: "nat \<Rightarrow> nat job" where
  "demo_job k = \<lparr>jb_addr = [of_nat k], jb_player = Some k, jb_status = GameStatusInProgress\<rparr>"

definition demo_entry :: "nat \<Rightarrow> nat game_entry" where
  "demo_entry k = \<lparr>ge_player = Some k, ge_inflight = True, ge_status = GameStatusInProgress\<rparr>"

definition demo_states :: "address \<rightharpoonup> nat game_entry" where
  "demo_states = [[1] \<mapsto> demo_entry 1, [2] \<mapsto> demo_entry 2]"

definition demo_result :: "nat job" where
  "demo_result = (demo_job 1)\<lparr>jb_status := GameStatusDefenderWon\<rparr>"

definition demo_sched :: "nat scheduler" where
  "demo_sched = \<lparr>sc_coordinator = \<lparr>co_states = demo_states, co_disk = [[1]]\<rparr>,
     sc_pending = [demo_job 2], sc_job_queue = [], sc_working = [], sc_result_queue = [demo_result]\<rparr>"

lemma demo_sched_reach: "reach scheduler_init (scheduler_step 1 demo_create) demo_sched"
proof -
  let ?s0 = "\<lparr>sc_coordinator = \<lparr>co_states = Map.empty, co_disk = []\<rparr>, sc_pending = [],
    sc_job_queue = [], sc_working = [], sc_result_queue = []\<rparr> :: nat scheduler"
  let ?c = "\<lparr>co_states = demo_states, co_disk = []\<rparr>"
  have 0: "reach scheduler_init (scheduler_step 1 demo_create) ?s0"
    by (rule reach_init) (simp add: scheduler_init_def)
  have "schedule_jobs demo_create demo_games (sc_coordinator ?s0) = ([demo_job 1, demo_job 2], [], ?c)"
    by (simp add: schedule_jobs_def drop_old_states_def demo_games_def create_job_def demo_create_def
          demo_job_def demo_states_def demo_entry_def Let_def)
  from reach_step [OF 0 scheduler_step.schedule [OF _ this]]
  have 1: "reach scheduler_init (scheduler_step 1 demo_create)
      (?s0\<lparr>sc_coordinator := ?c, sc_pending := [demo_job 1, demo_job 2]\<rparr>)" by simp
  from reach_step [OF 1 scheduler_step.enqueue, of "demo_job 1" "[demo_job 2]"]
  have 2: "reach scheduler_init (scheduler_step 1 demo_create)
      (?s0\<lparr>sc_coordinator := ?c, sc_pending := [demo_job 2], sc_job_queue := [demo_job 1]\<rparr>)" by simp
  from reach_step [OF 2 scheduler_step.take, of "demo_job 1" "[]"]
  have 3: "reach scheduler_init (scheduler_step 1 demo_create)
      (?s0\<lparr>sc_coordinator := ?c, sc_pending := [demo_job 2], sc_working := [demo_job 1]\<rparr>)" by simp
  from reach_step [OF 3 scheduler_step.finish, of "[]" "demo_job 1" "[]" "[[1]]" GameStatusDefenderWon]
  show ?thesis by (simp add: demo_sched_def demo_result_def demo_job_def)
qed

theorem scheduler_one_job_per_game_witness:
  "distinct (map jb_addr [demo_job 2, demo_result]) \<and>
   fst (process_result demo_result (sc_coordinator demo_sched)) = None"
  using scheduler_one_job_per_game [OF demo_sched_reach] by (simp add: demo_sched_def)

theorem scheduler_keeps_live_files_witness:
  "\<exists>t. scheduler_step 1 demo_create demo_sched t \<and>
     [1] \<in> set (co_disk (sc_coordinator demo_sched)) \<and> [1] \<notin> set (co_disk (sc_coordinator t)) \<and>
     [1] \<notin> jb_addr ` set (sc_pending t)"
proof -
  let ?c = "snd (process_result demo_result (sc_coordinator demo_sched))"
  let ?t = "demo_sched\<lparr>sc_coordinator := ?c, sc_result_queue := []\<rparr>"
  have step: "scheduler_step 1 demo_create demo_sched ?t"
    by (rule scheduler_step.result [where r = demo_result and err = "fst (process_result demo_result (sc_coordinator demo_sched))"])
       (simp_all add: demo_sched_def)
  have "[1] \<in> set (co_disk (sc_coordinator demo_sched))" "[1] \<notin> set (co_disk (sc_coordinator ?t))"
    by (simp_all add: demo_sched_def process_result_def demo_states_def demo_entry_def demo_result_def
          demo_job_def delete_resolved_game_files_def keep_game_def)
  with scheduler_keeps_live_files [OF demo_sched_reach step this] step show ?thesis by auto
qed

section \<open>A resolved game stays in flight\<close>

text \<open>
  A game whose player is found resolved when it is created is marked in flight although no
  job is made for it; from then on it is neither scheduled, nor dropped, nor cleaned up.
\<close>

lemma resolved_game_in_flight:
  assumes "co_states c (gm_proxy g) = None" "cp g = Inr (p, st)" "st \<noteq> GameStatusInProgress"
  shows "fst (create_job cp g c) = Inr None \<and> in_flight (snd (create_job cp g c)) (gm_proxy g)"
  using assms by (simp add: create_job_def Let_def in_flight_def)

lemma resolved_game_stuck:
  assumes "scheduler_inv s" "in_flight (sc_coordinator s) a" "a \<notin> jb_addr ` set (sched_jobs s)"
    and "scheduler_step n cp s t"
  shows "in_flight (sc_coordinator t) a \<and> a \<notin> jb_addr ` set (sched_jobs t)"
  using assms(4)
proof cases
  case (schedule games jobs errs c)
  then show ?thesis using assms(2,3) schedule_jobs_spec [OF schedule(3)]
    by (auto simp: takes_off_def sched_jobs_def)
next
  case (result r rs err c)
  then have "in_flight (sc_coordinator s) (jb_addr r)" "jb_addr r \<noteq> a"
    using assms(1,3) by (auto simp: scheduler_inv_def sched_jobs_def)
  then show ?thesis using process_result_spec [OF result(3)] assms(2,3) result(1,2)
    by (auto simp: sched_jobs_def)
qed (use assms(2,3) in \<open>auto simp: sched_jobs_def in_flight_def\<close>)

end
