(* ===== verification/Derive_Frame.thy ===== *)
theory Derive_Frame
  imports Prelude
begin

text \<open>
  Frames, the units in which batcher data reaches L1
  (\<^verbatim>\<open>bl-node/rollup/derive/{frame,params,frame_queue}.go\<close>), and the contract of a prefix
  codec: what an encoder writes, its decoder reads back and leaves the rest alone. Readers
  are byte lists; a read returns an error or the value and the rest.
\<close>

section \<open>Readers\<close>

datatype read_err =
    ErrEOF
  | ErrUnexpectedEOF
  | ErrFrameTooLarge u32
  | ErrInvalidIsLast
  | ErrEmptyData
  | ErrInvalidVersion byte
  | ErrNoFrames
  | ErrUvarintOverflow
  | ErrTooBigSpanBatchSize
  | ErrEmptySpanBatch
  | ErrInvalidSignature
  | ErrBadPadding
  | ErrNumberLength
  | ErrNumberTooLarge
  | ErrUnexpectedLength
  | ErrTooManyBytes

type_synonym 'a reader = "byte list \<Rightarrow> read_err + 'a \<times> byte list"

text \<open>\<^verbatim>\<open>io.ReadFull\<close> (and \<^verbatim>\<open>binary.Read\<close>): nothing read is \<^verbatim>\<open>EOF\<close>, a part \<^verbatim>\<open>ErrUnexpectedEOF\<close>.\<close>

definition read_full :: "nat \<Rightarrow> byte list reader" where
  "read_full n bs =
     (if n \<le> length bs then Inr (take n bs, drop n bs)
      else if bs = [] then Inl ErrEOF else Inl ErrUnexpectedEOF)"

definition read_byte :: "byte reader" where
  "read_byte bs = (case bs of [] \<Rightarrow> Inl ErrEOF | b # rest \<Rightarrow> Inr (b, rest))"

definition eof_as_unexpected :: "read_err + 'a \<Rightarrow> read_err + 'a" where
  "eof_as_unexpected r = (case r of Inl ErrEOF \<Rightarrow> Inl ErrUnexpectedEOF | _ \<Rightarrow> r)"

lemma read_full_append [simp]: "length xs = n \<Longrightarrow> read_full n (xs @ rest) = Inr (xs, rest)"
  by (simp add: read_full_def)

lemma read_full_Inr: "read_full n bs = Inr (x, r) \<longleftrightarrow> bs = x @ r \<and> length x = n"
  by (auto simp: read_full_def append_eq_conv_conj)

lemma read_byte_simps [simp]: "read_byte (b # rest) = Inr (b, rest)" "read_byte [] = Inl ErrEOF"
  by (simp_all add: read_byte_def)

lemma read_byte_Inr: "read_byte bs = Inr (x, r) \<longleftrightarrow> bs = x # r"
  by (auto simp: read_byte_def split: list.splits)

lemma eof_as_unexpected_simps [simp]:
  "eof_as_unexpected (Inr x) = Inr x"
  "eof_as_unexpected r = Inr x \<longleftrightarrow> r = Inr x"
  by (auto simp: eof_as_unexpected_def split: sum.splits read_err.splits)

section \<open>Codecs\<close>

text \<open>Reading \<open>n\<close> items in a row.\<close>

fun read_n :: "'a reader \<Rightarrow> nat \<Rightarrow> 'a list reader" where
  "read_n dec 0 bs = Inr ([], bs)"
| "read_n dec (Suc n) bs =
     rbind (dec bs) (\<lambda>(x, rest). rbind (read_n dec n rest) (\<lambda>(xs, rest'). Inr (x # xs, rest')))"

locale codec =
  fixes enc :: "'a \<Rightarrow> byte list" and dec :: "'a reader" and ok :: "'a \<Rightarrow> bool"
  assumes dec_enc: "ok x \<Longrightarrow> dec (enc x @ rest) = Inr (x, rest)"
    and enc_nonempty: "ok x \<Longrightarrow> enc x \<noteq> []"
begin

lemma read_n_enc: "list_all ok xs \<Longrightarrow> read_n dec (length xs) (concat (map enc xs) @ rest) = Inr (xs, rest)"
  by (induction xs) (simp_all add: dec_enc)

lemma enc_inj: "ok x \<Longrightarrow> ok y \<Longrightarrow> enc x = enc y \<Longrightarrow> x = y"
  by (metis dec_enc sum.inject(2) prod.inject)

text \<open>No encoding is a proper prefix of another.\<close>

lemma enc_prefix_free: "ok x \<Longrightarrow> ok y \<Longrightarrow> enc x @ xs = enc y @ ys \<Longrightarrow> x = y \<and> xs = ys"
  by (metis dec_enc sum.inject(2) prod.inject)

end

section \<open>Frames\<close>

record frame =
  fr_id :: "byte list"
  fr_number :: u16
  fr_data :: "byte list"
  fr_is_last :: bool

definition marshal_frame :: "frame \<Rightarrow> byte list" where
  "marshal_frame f =
     fr_id f @ put_u16 (fr_number f) @ put_u32 (of_nat (length (fr_data f))) @ fr_data f @
     [if fr_is_last f then 1 else 0]"

definition read_frame_header :: "(byte list \<times> u16 \<times> u32) reader" where
  "read_frame_header r =
     rbind (read_full 16 r) (\<lambda>(ident, r).
     rbind (eof_as_unexpected (read_full 2 r)) (\<lambda>(num, r).
     rbind (eof_as_unexpected (read_full 4 r)) (\<lambda>(len, r).
       Inr ((ident, get_u16 num, get_u32 len), r))))"

definition read_frame_body :: "byte list \<Rightarrow> u16 \<Rightarrow> u32 \<Rightarrow> frame reader" where
  "read_frame_body ident num frameLength r =
     rbind (eof_as_unexpected (read_full (unat frameLength) r)) (\<lambda>(data, r).
     rbind (eof_as_unexpected (read_byte r)) (\<lambda>(isLastByte, r).
       if isLastByte = 0
       then Inr (\<lparr>fr_id = ident, fr_number = num, fr_data = data, fr_is_last = False\<rparr>, r)
       else if isLastByte = 1
       then Inr (\<lparr>fr_id = ident, fr_number = num, fr_data = data, fr_is_last = True\<rparr>, r)
       else Inl ErrInvalidIsLast))"

definition unmarshal_frame :: "frame reader" where
  "unmarshal_frame r =
     rbind (read_frame_header r) (\<lambda>((ident, num, frameLength), r).
       if frameLength > 1000000 then Inl (ErrFrameTooLarge frameLength)
       else read_frame_body ident num frameLength r)"

lemma header_Inr:
  "read_frame_header bs = Inr ((ident, num, len), r) \<Longrightarrow>
   \<exists>n l. bs = ident @ n @ l @ r \<and> length ident = 16 \<and> length n = 2 \<and> length l = 4 \<and>
     num = get_u16 n \<and> len = get_u32 l"
  by (auto simp: read_frame_header_def rbind_eq_Inr read_full_Inr)

lemma body_Inr:
  "read_frame_body ident num len bs = Inr (f, r) \<Longrightarrow>
   \<exists>data b. bs = data @ b # r \<and> length data = unat len \<and> (b = 0 \<or> b = 1) \<and>
     f = \<lparr>fr_id = ident, fr_number = num, fr_data = data, fr_is_last = (b = 1)\<rparr>"
  by (auto simp: read_frame_body_def rbind_eq_Inr read_full_Inr read_byte_Inr split: if_splits)

lemma unmarshal_shape:
  assumes "unmarshal_frame bs = Inr (f, rest)"
  obtains ident num len data b where "bs = ident @ num @ len @ data @ b # rest"
    "length ident = 16" "length num = 2" "length len = 4" "\<not> get_u32 len > 1000000"
    "length data = unat (get_u32 len)" "b = 0 \<or> b = 1"
    "f = \<lparr>fr_id = ident, fr_number = get_u16 num, fr_data = data, fr_is_last = (b = 1)\<rparr>"
proof -
  obtain ident num len r where h: "read_frame_header bs = Inr ((ident, num, len), r)"
      "\<not> len > 1000000" "read_frame_body ident num len r = Inr (f, rest)"
    using assms unfolding unmarshal_frame_def rbind_eq_Inr by (force split: if_splits)
  then show ?thesis using header_Inr [OF h(1)] body_Inr [OF h(3)] that by force
qed

lemma unmarshal_shrinks: "unmarshal_frame r = Inr (f, r') \<Longrightarrow> length r' < length r"
  by (erule unmarshal_shape) simp

function parse_frames_loop :: "byte list \<Rightarrow> frame list \<Rightarrow> read_err + frame list" where
  "parse_frames_loop buf frames =
     (if buf = [] then Inr frames
      else case unmarshal_frame buf of
          Inl e \<Rightarrow> Inl e
        | Inr (f, rest) \<Rightarrow> parse_frames_loop rest (frames @ [f]))"
  by pat_completeness auto
termination
  by (relation "measure (\<lambda>(buf, _). length buf)") (auto dest: unmarshal_shrinks)

declare parse_frames_loop.simps [simp del]

definition parse_frames :: "byte list \<Rightarrow> read_err + frame list" where
  "parse_frames data =
     (case data of
        [] \<Rightarrow> Inl ErrEmptyData
      | v # buf \<Rightarrow>
          if v \<noteq> 0 then Inl (ErrInvalidVersion v)
          else rbind (parse_frames_loop buf []) (\<lambda>frames.
            if frames = [] then Inl ErrNoFrames else Inr frames))"

section \<open>The frame queue\<close>

datatype stage_err =
  StageEOF | NotEnoughData | TemporaryError | ResetError | CriticalError | OtherError
  | EngineP2PSyncing | StagePanic

type_synonym frame_queue = "frame list"

text \<open>
  \<^verbatim>\<open>NextFrame\<close>; \<open>nextData\<close> is the result of pulling the stage before, which happens only
  when no frame is left. Data that does not parse is skipped.
\<close>

definition frame_queue_next ::
  "frame_queue \<Rightarrow> stage_err + byte list \<Rightarrow> (stage_err + frame) \<times> frame_queue" where
  "frame_queue_next fq nextData =
     (case (if fq = []
            then rbind nextData (\<lambda>data.
              case parse_frames data of Inl e \<Rightarrow> Inr [] | Inr new \<Rightarrow> Inr new)
            else Inr fq) of
        Inl e \<Rightarrow> (Inl e, fq)
      | Inr [] \<Rightarrow> (Inl NotEnoughData, [])
      | Inr (f # fs) \<Rightarrow> (Inr f, fs))"

section \<open>Round trips\<close>

text \<open>The frames the protocol allows: a 16-byte channel id and at most a megabyte of data.\<close>

definition wf_frame :: "frame \<Rightarrow> bool" where
  "wf_frame f \<longleftrightarrow> length (fr_id f) = 16 \<and> length (fr_data f) \<le> 1000000"

lemma length_u32: "n \<le> 1000000 \<Longrightarrow> unat (of_nat n :: u32) = n"
  by (simp add: unat_of_nat)

lemma length_not_too_large: "n \<le> 1000000 \<Longrightarrow> \<not> (of_nat n :: u32) > 1000000"
  by (simp add: word_less_nat_alt length_u32)

lemma unmarshal_marshal: "wf_frame f \<Longrightarrow> unmarshal_frame (marshal_frame f @ rest) = Inr (f, rest)"
  by (cases f)
     (simp add: unmarshal_frame_def read_frame_header_def read_frame_body_def marshal_frame_def
        wf_frame_def length_u32 length_not_too_large)

interpretation frame: codec marshal_frame unmarshal_frame wf_frame
  by unfold_locales (simp_all only: unmarshal_marshal, simp add: marshal_frame_def)

lemma parse_frames_loop_enc:
  "list_all wf_frame fs \<Longrightarrow> parse_frames_loop (concat (map marshal_frame fs)) acc = Inr (acc @ fs)"
proof (induction fs arbitrary: acc)
  case Nil
  then show ?case by (simp add: parse_frames_loop.simps)
next
  case (Cons f fs)
  then show ?case
    using frame.dec_enc [of f "concat (map marshal_frame fs)"] frame.enc_nonempty [of f]
    by (subst parse_frames_loop.simps) simp
qed

text \<open>What the parser accepts is exactly what the marshaller writes.\<close>

lemma marshal_unmarshal:
  assumes "unmarshal_frame bs = Inr (f, rest)"
  shows "bs = marshal_frame f @ rest \<and> wf_frame f"
proof -
  obtain ident num len data b where p: "bs = ident @ num @ len @ data @ b # rest"
      "length ident = 16" "length num = 2" "length len = 4" "\<not> get_u32 len > 1000000"
      "length data = unat (get_u32 len)" "b = 0 \<or> b = 1"
      "f = \<lparr>fr_id = ident, fr_number = get_u16 num, fr_data = data, fr_is_last = (b = 1)\<rparr>"
    using assms by (rule unmarshal_shape)
  have "get_u32 len \<le> 1000000" using p(5) by simp
  then have "length data \<le> 1000000" using p(6) by (simp add: word_le_nat_alt)
  moreover have "put_u32 (of_nat (length data)) = len" using p(4,6) by (simp add: put_get_u32)
  ultimately show ?thesis using p by (auto simp: marshal_frame_def wf_frame_def put_get_u16)
qed

lemma parse_frames_loop_sound:
  "parse_frames_loop buf acc = Inr fs \<Longrightarrow>
   \<exists>new. fs = acc @ new \<and> buf = concat (map marshal_frame new) \<and> list_all wf_frame new"
proof (induction buf acc rule: parse_frames_loop.induct)
  case (1 buf acc)
  show ?case
  proof (cases "buf = []")
    case True
    then show ?thesis using 1(2) by (simp add: parse_frames_loop.simps)
  next
    case False
    then obtain f rest where f: "unmarshal_frame buf = Inr (f, rest)"
        "parse_frames_loop rest (acc @ [f]) = Inr fs"
      using 1(2) by (subst (asm) parse_frames_loop.simps) (auto split: sum.splits)
    from 1(1) [OF False f(1) refl f(2)] obtain new where
      "fs = (acc @ [f]) @ new" "rest = concat (map marshal_frame new)" "list_all wf_frame new" by blast
    then show ?thesis using marshal_unmarshal [OF f(1)] by (intro exI [of _ "f # new"]) simp
  qed
qed

text \<open>C19. \<^verbatim>\<open>ParseFrames\<close> accepts exactly the version byte followed by at least one marshalled frame,
  and returns those frames: every list of well-formed frames is read back from its
  encoding, and whatever is accepted is the encoding of the frames returned, with no byte
  left over and none ignored.\<close>

theorem parse_frames_iff:
  "parse_frames data = Inr fs \<longleftrightarrow>
     fs \<noteq> [] \<and> list_all wf_frame fs \<and> data = 0 # concat (map marshal_frame fs)"
proof
  assume "parse_frames data = Inr fs"
  then obtain buf where "data = 0 # buf" "parse_frames_loop buf [] = Inr fs" "fs \<noteq> []"
    by (auto simp: parse_frames_def rbind_eq_Inr split: list.splits if_splits)
  then show "fs \<noteq> [] \<and> list_all wf_frame fs \<and> data = 0 # concat (map marshal_frame fs)"
    using parse_frames_loop_sound [of buf "[]" fs] by auto
next
  assume "fs \<noteq> [] \<and> list_all wf_frame fs \<and> data = 0 # concat (map marshal_frame fs)"
  then show "parse_frames data = Inr fs"
    using parse_frames_loop_enc [of fs "[]"] by (simp add: parse_frames_def)
qed

end
