(* ===== verification/Derive_Types.thy ===== *)
theory Derive_Types
  imports Prelude
begin

text \<open>
  Chain references and the rollup configuration (\<^verbatim>\<open>bl-service/eth/id.go\<close>,
  \<^verbatim>\<open>bl-node/rollup/types.go\<close>). A field of the configuration that may be \<^verbatim>\<open>nil\<close> is an option;
  chain ids are integers; addresses and hashes are byte lists.
\<close>

section \<open>Chain references\<close>

record block_id =
  bid_hash :: hash
  bid_number :: u64

record l1_ref =
  l1_hash :: hash
  l1_number :: u64
  l1_parent_hash :: hash
  l1_time :: u64

record l2_ref =
  l2_hash :: hash
  l2_number :: u64
  l2_parent_hash :: hash
  l2_time :: u64
  l2_l1_origin :: block_id
  l2_sequence_number :: u64

definition zero_l1_ref :: l1_ref where
  "zero_l1_ref = \<lparr>l1_hash = zero_hash32, l1_number = 0, l1_parent_hash = zero_hash32, l1_time = 0\<rparr>"

definition l1_id :: "l1_ref \<Rightarrow> block_id" where
  "l1_id r = \<lparr>bid_hash = l1_hash r, bid_number = l1_number r\<rparr>"

definition l2_id :: "l2_ref \<Rightarrow> block_id" where
  "l2_id r = \<lparr>bid_hash = l2_hash r, bid_number = l2_number r\<rparr>"

definition l1_parent_id :: "l1_ref \<Rightarrow> block_id" where
  "l1_parent_id r =
     \<lparr>bid_hash = l1_parent_hash r,
      bid_number = (if l1_number r > 0 then l1_number r - 1 else l1_number r)\<rparr>"

definition l2_parent_id :: "l2_ref \<Rightarrow> block_id" where
  "l2_parent_id r =
     \<lparr>bid_hash = l2_parent_hash r,
      bid_number = (if l2_number r > 0 then l2_number r - 1 else l2_number r)\<rparr>"

section \<open>Configuration\<close>

record system_config =
  sc_batcher_addr :: "byte list"
  sc_overhead :: "byte list"
  sc_scalar :: "byte list"
  sc_gas_limit :: u64

record genesis =
  gen_l1 :: block_id
  gen_l2 :: block_id
  gen_l2_time :: u64
  gen_system_config :: system_config

record rollup_config =
  rc_genesis :: genesis
  rc_block_time :: u64
  rc_max_sequencer_drift :: u64
  rc_seq_window_size :: u64
  rc_channel_timeout :: u64
  rc_l1_chain_id :: "int option"
  rc_l2_chain_id :: "int option"
  rc_regolith_time :: "u64 option"
  rc_canyon_time :: "u64 option"
  rc_span_batch_time :: "u64 option"
  rc_batch_inbox_address :: "byte list"
  rc_deposit_contract_address :: "byte list"
  rc_l1_system_config_address :: "byte list"

definition fork_active :: "u64 option \<Rightarrow> u64 \<Rightarrow> bool" where
  "fork_active fork t \<longleftrightarrow> (case fork of None \<Rightarrow> False | Some c \<Rightarrow> t \<ge> c)"

definition is_regolith :: "rollup_config \<Rightarrow> u64 \<Rightarrow> bool" where
  "is_regolith cfg t \<longleftrightarrow> fork_active (rc_regolith_time cfg) t"

definition is_canyon :: "rollup_config \<Rightarrow> u64 \<Rightarrow> bool" where
  "is_canyon cfg t \<longleftrightarrow> fork_active (rc_canyon_time cfg) t"

definition is_span_batch :: "rollup_config \<Rightarrow> u64 \<Rightarrow> bool" where
  "is_span_batch cfg t \<longleftrightarrow> fork_active (rc_span_batch_time cfg) t"

definition timestamp_for_block :: "rollup_config \<Rightarrow> u64 \<Rightarrow> u64" where
  "timestamp_for_block cfg blockNumber =
     gen_l2_time (rc_genesis cfg) +
     (blockNumber - bid_number (gen_l2 (rc_genesis cfg))) * rc_block_time cfg"

datatype config_err =
    ErrBlockTimeZero | ErrMissingChannelTimeout | ErrInvalidSeqWindowSize
  | ErrMissingGenesisL1Hash | ErrMissingGenesisL2Hash | ErrGenesisHashesSame
  | ErrMissingGenesisL2Time | ErrMissingBatcherAddr | ErrMissingOverhead | ErrMissingScalar
  | ErrMissingGasLimit | ErrMissingBatchInboxAddress | ErrMissingDepositContractAddress
  | ErrMissingL1ChainID | ErrMissingL2ChainID | ErrChainIDsSame | ErrL1ChainIDNotPositive
  | ErrL2ChainIDNotPositive | ErrBeforeGenesis | DivideByZeroPanic

text \<open>The block number expected at a time; a block time of zero is a division by zero.\<close>

definition target_block_number :: "rollup_config \<Rightarrow> u64 \<Rightarrow> config_err + u64" where
  "target_block_number cfg timestamp =
     (if timestamp < gen_l2_time (rc_genesis cfg) then Inl ErrBeforeGenesis
      else if rc_block_time cfg = 0 then Inl DivideByZeroPanic
      else Inr (bid_number (gen_l2 (rc_genesis cfg)) +
                (timestamp - gen_l2_time (rc_genesis cfg)) div rc_block_time cfg))"

definition check_chain_ids :: "rollup_config \<Rightarrow> config_err + unit" where
  "check_chain_ids cfg =
     (case rc_l1_chain_id cfg of
        None \<Rightarrow> Inl ErrMissingL1ChainID
      | Some l1 \<Rightarrow>
          (case rc_l2_chain_id cfg of
             None \<Rightarrow> Inl ErrMissingL2ChainID
           | Some l2 \<Rightarrow>
               if l1 = l2 then Inl ErrChainIDsSame
               else if sgn l1 < 1 then Inl ErrL1ChainIDNotPositive
               else if sgn l2 < 1 then Inl ErrL2ChainIDNotPositive
               else Inr ()))"

definition check_config :: "rollup_config \<Rightarrow> config_err + unit" where
  "check_config cfg =
     (let g = rc_genesis cfg; sc = gen_system_config g in
      if rc_block_time cfg = 0 then Inl ErrBlockTimeZero
      else if rc_channel_timeout cfg = 0 then Inl ErrMissingChannelTimeout
      else if rc_seq_window_size cfg < 2 then Inl ErrInvalidSeqWindowSize
      else if bid_hash (gen_l1 g) = zero_hash32 then Inl ErrMissingGenesisL1Hash
      else if bid_hash (gen_l2 g) = zero_hash32 then Inl ErrMissingGenesisL2Hash
      else if bid_hash (gen_l2 g) = bid_hash (gen_l1 g) then Inl ErrGenesisHashesSame
      else if gen_l2_time g = 0 then Inl ErrMissingGenesisL2Time
      else if sc_batcher_addr sc = replicate 20 0 then Inl ErrMissingBatcherAddr
      else if sc_overhead sc = zero_hash32 then Inl ErrMissingOverhead
      else if sc_scalar sc = zero_hash32 then Inl ErrMissingScalar
      else if sc_gas_limit sc = 0 then Inl ErrMissingGasLimit
      else if rc_batch_inbox_address cfg = replicate 20 0 then Inl ErrMissingBatchInboxAddress
      else if rc_deposit_contract_address cfg = replicate 20 0
        then Inl ErrMissingDepositContractAddress
      else check_chain_ids cfg)"

text \<open>A checked configuration has a block time, so that the block number of a time exists, and
  the block number of a block's timestamp is that block as long as nothing wraps around.\<close>

lemma check_config_block_time: "check_config cfg = Inr () \<Longrightarrow> rc_block_time cfg \<noteq> 0"
  by (auto simp: check_config_def Let_def split: if_splits)

lemma target_timestamp:
  assumes "check_config cfg = Inr ()"
    and "bid_number (gen_l2 (rc_genesis cfg)) \<le> n"
    and "unat (gen_l2_time (rc_genesis cfg)) +
      (unat n - unat (bid_number (gen_l2 (rc_genesis cfg)))) * unat (rc_block_time cfg) < 2 ^ 64"
  shows "target_block_number cfg (timestamp_for_block cfg n) = Inr n"
proof -
  define g t0 bt where "g = bid_number (gen_l2 (rc_genesis cfg))"
    and "t0 = gen_l2_time (rc_genesis cfg)" and "bt = rc_block_time cfg"
  have bt: "bt \<noteq> 0" using check_config_block_time [OF assms(1)] by (simp add: bt_def)
  have b: "unat t0 + (unat n - unat g) * unat bt < 2 ^ 64" using assms(3) by (simp add: g_def t0_def bt_def)
  have d: "unat (n - g) = unat n - unat g" using assms(2) by (simp add: g_def unat_sub)
  have m: "unat ((n - g) * bt) = (unat n - unat g) * unat bt"
    using b by (subst unat_mult_lem [THEN iffD1]) (simp_all add: d)
  have le: "t0 \<le> t0 + (n - g) * bt"
    using b m by (simp add: word_le_nat_alt unat_word_ariths)
  have "unat (((n - g) * bt) div bt) = unat (n - g)"
    using bt by (simp add: unat_div m d) (simp add: unat_eq_zero)
  then have "((n - g) * bt) div bt = n - g" by (simp add: word_unat_eq_iff)
  then show ?thesis using le bt
    by (simp add: target_block_number_def timestamp_for_block_def g_def t0_def bt_def not_less)
qed

text \<open>A configuration that passes the check, for concrete runs.\<close>

definition demo_config :: rollup_config where
  "demo_config =
     \<lparr>rc_genesis = \<lparr>gen_l1 = \<lparr>bid_hash = replicate 32 1, bid_number = 10\<rparr>,
        gen_l2 = \<lparr>bid_hash = replicate 32 2, bid_number = 0\<rparr>, gen_l2_time = 1000,
        gen_system_config = \<lparr>sc_batcher_addr = replicate 20 7, sc_overhead = replicate 32 1,
          sc_scalar = replicate 32 1, sc_gas_limit = 30000000\<rparr>\<rparr>,
      rc_block_time = 2, rc_max_sequencer_drift = 600, rc_seq_window_size = 3600,
      rc_channel_timeout = 300, rc_l1_chain_id = Some 1, rc_l2_chain_id = Some 81457,
      rc_regolith_time = Some 0, rc_canyon_time = Some 0, rc_span_batch_time = Some 0,
      rc_batch_inbox_address = replicate 20 5, rc_deposit_contract_address = replicate 20 6,
      rc_l1_system_config_address = replicate 20 8\<rparr>"

lemma check_demo_config: "check_config demo_config = Inr ()"
  by (simp add: check_config_def check_chain_ids_def demo_config_def Let_def)

end
