(* ===== verification/Derive_Channel.thy ===== *)
theory Derive_Channel
  imports Derive_Frame Derive_Types
begin

text \<open>
  Channels and the channel bank (\<^verbatim>\<open>bl-node/rollup/derive/{channel,channel_bank}.go\<close>): frames
  of a channel arrive in any order and are read back as one byte string; the bank keeps
  channels in the order they were opened, times them out, and drops the oldest when they
  grow too large. Go's maps are association lists; their iteration order does not matter
  to what is computed. A \<^verbatim>\<open>nil\<close> map entry or an index out of range is \<^term>\<open>StagePanic\<close>.
\<close>

section \<open>Channels\<close>

record channel =
  ch_id :: "byte list"
  ch_open_block :: l1_ref
  ch_size :: u64
  ch_closed :: bool
  ch_highest_frame :: u16
  ch_end_frame :: u16
  ch_inputs :: "(nat \<times> frame) list"
  ch_highest_l1 :: l1_ref

definition frame_size :: "frame \<Rightarrow> u64" where
  "frame_size f = of_nat (length (fr_data f)) + 200"

definition new_channel :: "byte list \<Rightarrow> l1_ref \<Rightarrow> channel" where
  "new_channel ident openBlock =
     \<lparr>ch_id = ident, ch_open_block = openBlock, ch_size = 0, ch_closed = False,
      ch_highest_frame = 0, ch_end_frame = 0, ch_inputs = [], ch_highest_l1 = zero_l1_ref\<rparr>"

datatype channel_err = WrongChannelId | EndingFrameOnClosed | DuplicateErr | FrameAfterEnd

definition close_channel :: "frame \<Rightarrow> channel \<Rightarrow> channel" where
  "close_channel f ch =
     (if fr_is_last f then ch\<lparr>ch_end_frame := fr_number f, ch_closed := True\<rparr> else ch)"

text \<open>The size of every buffered frame is subtracted, not only that of the pruned ones.\<close>

definition prune_frames :: "frame \<Rightarrow> channel \<Rightarrow> channel" where
  "prune_frames f ch =
     (if fr_is_last f \<and> ch_end_frame ch < ch_highest_frame ch
      then ch\<lparr>ch_inputs := filter (\<lambda>(k, _). \<not> k \<ge> unat (ch_end_frame ch)) (ch_inputs ch),
              ch_size := fold (\<lambda>(_, pruned) s. s - frame_size pruned) (ch_inputs ch) (ch_size ch),
              ch_highest_frame := ch_end_frame ch\<rparr>
      else ch)"

definition buffer_frame :: "frame \<Rightarrow> l1_ref \<Rightarrow> channel \<Rightarrow> channel" where
  "buffer_frame f l1 ch =
     ch\<lparr>ch_highest_frame := (if fr_number f > ch_highest_frame ch then fr_number f
                             else ch_highest_frame ch),
        ch_highest_l1 := (if l1_number (ch_highest_l1 ch) < l1_number l1 then l1
                          else ch_highest_l1 ch),
        ch_inputs := ch_inputs ch @ [(unat (fr_number f), f)],
        ch_size := ch_size ch + frame_size f\<rparr>"

definition add_frame :: "channel \<Rightarrow> frame \<Rightarrow> l1_ref \<Rightarrow> channel_err + channel" where
  "add_frame ch f l1 =
     (if fr_id f \<noteq> ch_id ch then Inl WrongChannelId
      else if fr_is_last f \<and> ch_closed ch then Inl EndingFrameOnClosed
      else if map_of (ch_inputs ch) (unat (fr_number f)) \<noteq> None then Inl DuplicateErr
      else if ch_closed ch \<and> fr_number f \<ge> ch_end_frame ch then Inl FrameAfterEnd
      else Inr (buffer_frame f l1 (prune_frames f (close_channel f ch))))"

definition open_block_number :: "channel \<Rightarrow> u64" where
  "open_block_number ch = l1_number (ch_open_block ch)"

definition channel_is_ready :: "channel \<Rightarrow> bool" where
  "channel_is_ready ch \<longleftrightarrow>
     ch_closed ch \<and> length (ch_inputs ch) = unat (ch_end_frame ch) + 1 \<and>
     list_all (\<lambda>i. map_of (ch_inputs ch) i \<noteq> None) [0..<unat (ch_end_frame ch) + 1]"

definition channel_reader :: "channel \<Rightarrow> stage_err + byte list" where
  "channel_reader ch =
     (let frames = map (map_of (ch_inputs ch)) [0..<unat (ch_end_frame ch) + 1]
      in if None \<in> set frames then Inl StagePanic
         else Inr (concat (map (fr_data \<circ> the) frames)))"

section \<open>The channel bank\<close>

record channel_bank =
  cb_channels :: "(byte list \<times> channel) list"
  cb_queue :: "byte list list"

definition max_channel_bank_size :: u64 where "max_channel_bank_size = 100000000"

definition bank_total_size :: "(byte list \<times> channel) list \<Rightarrow> u64" where
  "bank_total_size cs = fold (\<lambda>(_, ch) s. s + ch_size ch) cs 0"

definition delete_channel :: "byte list \<Rightarrow> (byte list \<times> channel) list \<Rightarrow> (byte list \<times> channel) list" where
  "delete_channel k cs = filter (\<lambda>(k', _). k' \<noteq> k) cs"

definition put_channel ::
  "byte list \<Rightarrow> channel \<Rightarrow> (byte list \<times> channel) list \<Rightarrow> (byte list \<times> channel) list" where
  "put_channel k ch cs = map (\<lambda>(k', c). if k' = k then (k', ch) else (k', c)) cs"

fun prune_loop ::
  "u64 \<Rightarrow> byte list list \<Rightarrow> (byte list \<times> channel) list \<Rightarrow> stage_err + channel_bank" where
  "prune_loop totalSize queue cs =
     (if \<not> totalSize > max_channel_bank_size then Inr \<lparr>cb_channels = cs, cb_queue = queue\<rparr>
      else case queue of
          [] \<Rightarrow> Inl StagePanic
        | k # rest \<Rightarrow>
            (case map_of cs k of
               None \<Rightarrow> Inl StagePanic
             | Some ch \<Rightarrow> prune_loop (totalSize - ch_size ch) rest (delete_channel k cs)))"

declare prune_loop.simps [simp del]

definition bank_prune :: "channel_bank \<Rightarrow> stage_err + channel_bank" where
  "bank_prune cb = prune_loop (bank_total_size (cb_channels cb)) (cb_queue cb) (cb_channels cb)"

definition timed_out :: "rollup_config \<Rightarrow> l1_ref \<Rightarrow> channel \<Rightarrow> bool" where
  "timed_out cfg origin ch \<longleftrightarrow> open_block_number ch + rc_channel_timeout cfg < l1_number origin"

definition open_channel :: "byte list \<Rightarrow> l1_ref \<Rightarrow> channel_bank \<Rightarrow> channel_bank" where
  "open_channel k origin cb =
     (case map_of (cb_channels cb) k of
        Some _ \<Rightarrow> cb
      | None \<Rightarrow> cb\<lparr>cb_channels := cb_channels cb @ [(k, new_channel k origin)],
                   cb_queue := cb_queue cb @ [k]\<rparr>)"

definition ingest_frame ::
  "rollup_config \<Rightarrow> l1_ref \<Rightarrow> frame \<Rightarrow> channel_bank \<Rightarrow> stage_err + channel_bank" where
  "ingest_frame cfg origin f cb =
     (let cb1 = open_channel (fr_id f) origin cb
      in case map_of (cb_channels cb1) (fr_id f) of
           None \<Rightarrow> Inl StagePanic
         | Some ch \<Rightarrow>
             if timed_out cfg origin ch then Inr cb1
             else case add_frame ch f origin of
                 Inl e \<Rightarrow> Inr cb1
               | Inr ch' \<Rightarrow> bank_prune (cb1\<lparr>cb_channels := put_channel (fr_id f) ch' (cb_channels cb1)\<rparr>))"

definition try_read_channel_at_index ::
  "rollup_config \<Rightarrow> l1_ref \<Rightarrow> nat \<Rightarrow> channel_bank \<Rightarrow> (stage_err + byte list) \<times> channel_bank" where
  "try_read_channel_at_index cfg origin i cb =
     (if length (cb_queue cb) \<le> i then (Inl StagePanic, cb)
      else let k = cb_queue cb ! i
        in case map_of (cb_channels cb) k of
             None \<Rightarrow> (Inl StagePanic, cb)
           | Some ch \<Rightarrow>
               if timed_out cfg origin ch \<or> \<not> channel_is_ready ch then (Inl StageEOF, cb)
               else (channel_reader ch,
                     \<lparr>cb_channels = delete_channel k (cb_channels cb),
                      cb_queue = take i (cb_queue cb) @ drop (i + 1) (cb_queue cb)\<rparr>))"

text \<open>Canyon: the first channel of the queue that can be read. Any error moves on to the next.\<close>

fun try_read_from ::
  "rollup_config \<Rightarrow> l1_ref \<Rightarrow> nat list \<Rightarrow> channel_bank \<Rightarrow> (stage_err + byte list) \<times> channel_bank" where
  "try_read_from cfg origin [] cb = (Inl StageEOF, cb)"
| "try_read_from cfg origin (i # is) cb =
     (case try_read_channel_at_index cfg origin i cb of
        (Inr data, cb') \<Rightarrow> (Inr data, cb')
      | (Inl e, cb') \<Rightarrow> if e = StagePanic then (Inl e, cb') else try_read_from cfg origin is cb')"

definition bank_read ::
  "rollup_config \<Rightarrow> l1_ref \<Rightarrow> channel_bank \<Rightarrow> (stage_err + byte list) \<times> channel_bank" where
  "bank_read cfg origin cb =
     (case cb_queue cb of
        [] \<Rightarrow> (Inl StageEOF, cb)
      | k # rest \<Rightarrow>
          (case map_of (cb_channels cb) k of
             None \<Rightarrow> (Inl StagePanic, cb)
           | Some ch \<Rightarrow>
               if timed_out cfg origin ch
               then (Inr [], \<lparr>cb_channels = delete_channel k (cb_channels cb), cb_queue = rest\<rparr>)
               else if \<not> is_canyon cfg (l1_time origin) then try_read_channel_at_index cfg origin 0 cb
               else try_read_from cfg origin [0..<length (cb_queue cb)] cb))"

text \<open>\<open>nextFrame\<close> is the result of pulling the frame queue, used only when nothing can be read.\<close>

definition bank_next_data ::
  "rollup_config \<Rightarrow> l1_ref \<Rightarrow> stage_err + frame \<Rightarrow> channel_bank \<Rightarrow>
   (stage_err + byte list) \<times> channel_bank" where
  "bank_next_data cfg origin nextFrame cb =
     (case bank_read cfg origin cb of
        (Inr data, cb1) \<Rightarrow> (Inr data, cb1)
      | (Inl e, cb1) \<Rightarrow>
          if e \<noteq> StageEOF then (Inl e, cb1)
          else case nextFrame of
              Inl e' \<Rightarrow> (Inl e', cb1)
            | Inr f \<Rightarrow>
                (case ingest_frame cfg origin f cb1 of
                   Inl e' \<Rightarrow> (Inl e', cb1)
                 | Inr cb2 \<Rightarrow> (Inl NotEnoughData, cb2)))"

definition bank_reset :: channel_bank where
  "bank_reset = \<lparr>cb_channels = [], cb_queue = []\<rparr>"

end
