(* ===== verification/Derive_Channel_Props.thy ===== *)
theory Derive_Channel_Props
  imports Derive_Channel
begin

text \<open>
  Channels give back what the batcher split, in whatever order and however often the frames
  arrive; the channel bank stays consistent and within its size, and never panics.
\<close>

section \<open>Reassembly\<close>

text \<open>The frames of channel \<open>k\<close> with the data chunks \<open>ds\<close>, and their delivery in some order.\<close>

definition frame_of :: "byte list \<Rightarrow> byte list list \<Rightarrow> nat \<Rightarrow> frame" where
  "frame_of k ds i = \<lparr>fr_id = k, fr_number = of_nat i, fr_data = ds ! i, fr_is_last = (i + 1 = length ds)\<rparr>"

definition deliver :: "byte list \<Rightarrow> byte list list \<Rightarrow> (nat \<times> l1_ref) list \<Rightarrow> channel \<Rightarrow> channel" where
  "deliver k ds order ch =
     fold (\<lambda>(i, l1) ch. case add_frame ch (frame_of k ds i) l1 of Inl _ \<Rightarrow> ch | Inr ch' \<Rightarrow> ch') order ch"

definition holds_frames :: "byte list \<Rightarrow> byte list list \<Rightarrow> nat set \<Rightarrow> channel \<Rightarrow> bool" where
  "holds_frames k ds S ch \<longleftrightarrow>
     ch_id ch = k \<and> distinct (map fst (ch_inputs ch)) \<and> fst ` set (ch_inputs ch) = S \<and>
     (\<forall>i\<in>S. i < length ds \<and> map_of (ch_inputs ch) i = Some (frame_of k ds i)) \<and>
     (ch_closed ch \<longleftrightarrow> length ds - 1 \<in> S) \<and>
     (ch_closed ch \<longrightarrow> unat (ch_end_frame ch) = length ds - 1) \<and>
     unat (ch_highest_frame ch) \<le> length ds - 1"

lemma frame_number: "i < 65536 \<Longrightarrow> unat (of_nat i :: u16) = i"
  by (simp add: unat_of_nat)

lemma holds_step:
  assumes h: "holds_frames k ds S ch" and n: "ds \<noteq> []" "length ds \<le> 65536" and i: "i < length ds"
  shows "holds_frames k ds (insert i S)
    (case add_frame ch (frame_of k ds i) l1 of Inl _ \<Rightarrow> ch | Inr ch' \<Rightarrow> ch')"
proof -
  have u: "unat (fr_number (frame_of k ds i)) = i" using n i by (simp add: frame_of_def frame_number)
  show ?thesis
  proof (cases "i \<in> S")
    case True
    then have "map_of (ch_inputs ch) i \<noteq> None" using h by (auto simp: holds_frames_def)
    then have "\<exists>e. add_frame ch (frame_of k ds i) l1 = Inl e" by (auto simp: add_frame_def u)
    then show ?thesis using h True by (auto simp: insert_absorb)
  next
    case False
    let ?f = "frame_of k ds i"
    have m: "map_of (ch_inputs ch) i = None"
      using h False by (auto simp: holds_frames_def map_of_eq_None_iff)
    have last: "fr_is_last ?f \<longleftrightarrow> i = length ds - 1" using n(1) i by (auto simp: frame_of_def)
    have open_last: "\<not> (fr_is_last ?f \<and> ch_closed ch)"
      using h False last by (auto simp: holds_frames_def)
    have "\<not> (ch_closed ch \<and> fr_number ?f \<ge> ch_end_frame ch)"
    proof
      assume c: "ch_closed ch \<and> fr_number ?f \<ge> ch_end_frame ch"
      then have "length ds - 1 \<le> i" using h u by (auto simp: holds_frames_def word_le_nat_alt)
      then have "i = length ds - 1" using i by simp
      then show False using c open_last last by simp
    qed
    then have add: "add_frame ch ?f l1 = Inr (buffer_frame ?f l1 (prune_frames ?f (close_channel ?f ch)))"
      using h m open_last by (simp add: add_frame_def u) (simp add: holds_frames_def frame_of_def)
    have prune: "prune_frames ?f (close_channel ?f ch) = close_channel ?f ch"
      using h u last by (auto simp: prune_frames_def close_channel_def holds_frames_def word_less_nat_alt)
    have "i \<notin> fst ` set (ch_inputs ch)" using h False by (simp add: holds_frames_def)
    then have "map_of (ch_inputs ch @ [(i, ?f)]) = (map_of (ch_inputs ch))(i \<mapsto> ?f)"
      using m by (auto simp: fun_eq_iff map_add_def split: option.split)
    then show ?thesis unfolding add sum.case prune
      using h i u last False
      by (auto simp: holds_frames_def buffer_frame_def close_channel_def)
  qed
qed

lemma holds_deliver:
  assumes "ds \<noteq> []" "length ds \<le> 65536" "fst ` set order \<subseteq> {..<length ds}"
    and "holds_frames k ds S ch"
  shows "holds_frames k ds (S \<union> fst ` set order) (deliver k ds order ch)"
  using assms(3,4)
proof (induction order arbitrary: S ch)
  case Nil
  then show ?case by (simp add: deliver_def)
next
  case (Cons x order)
  obtain i l1 where x: "x = (i, l1)" by (cases x)
  let ?ch = "case add_frame ch (frame_of k ds i) l1 of Inl _ \<Rightarrow> ch | Inr ch' \<Rightarrow> ch'"
  have step: "holds_frames k ds (insert i S) ?ch" using holds_step assms(1,2) Cons.prems x by simp
  have "fst ` set order \<subseteq> {..<length ds}" using Cons.prems(1) by auto
  from Cons.IH [OF this step] show ?case by (simp add: deliver_def x)
qed

lemma deliver_reassembles:
  assumes "ds \<noteq> []" "length ds \<le> 65536" "fst ` set order \<subseteq> {..<length ds}"
  shows "(channel_is_ready (deliver k ds order (new_channel k l1)) \<longleftrightarrow>
      {..<length ds} \<subseteq> fst ` set order) \<and>
    (channel_is_ready (deliver k ds order (new_channel k l1)) \<longrightarrow>
      channel_reader (deliver k ds order (new_channel k l1)) = Inr (concat ds))"
proof -
  let ?ch = "deliver k ds order (new_channel k l1)" and ?S = "fst ` set order"
  have "holds_frames k ds {} (new_channel k l1)" by (simp add: holds_frames_def new_channel_def)
  from holds_deliver [OF assms this] have h: "holds_frames k ds ?S ?ch" by simp
  have n: "unat (ch_end_frame ?ch) + 1 = length ds" if "ch_closed ?ch"
    using h that assms(1) by (cases ds) (auto simp: holds_frames_def)
  have card: "length (ch_inputs ?ch) = card ?S"
    using h distinct_card [of "map fst (ch_inputs ?ch)"] by (simp add: holds_frames_def)
  have get: "map_of (ch_inputs ?ch) i = Some (frame_of k ds i)" if "i \<in> ?S" for i
    using h that by (auto simp: holds_frames_def)
  have ready: "channel_is_ready ?ch \<longleftrightarrow> {..<length ds} \<subseteq> ?S"
  proof
    assume r: "channel_is_ready ?ch"
    then have c: "ch_closed ?ch" by (simp add: channel_is_ready_def)
    have "map_of (ch_inputs ?ch) i \<noteq> None" if "i < length ds" for i
    proof -
      have "i \<in> set [0..<unat (ch_end_frame ?ch) + 1]" using that n [OF c] by simp
      then show ?thesis using r unfolding channel_is_ready_def list_all_iff by blast
    qed
    then show "{..<length ds} \<subseteq> ?S"
      using h by (auto simp: holds_frames_def map_of_eq_None_iff)
  next
    assume s: "{..<length ds} \<subseteq> ?S"
    then have eq: "?S = {..<length ds}" using assms(3) by blast
    have c: "ch_closed ?ch" using h s assms(1) by (auto simp: holds_frames_def)
    then show "channel_is_ready ?ch" using n [OF c] card eq get
      by (simp add: channel_is_ready_def list_all_iff)
  qed
  moreover have "channel_reader ?ch = Inr (concat ds)" if "channel_is_ready ?ch"
  proof -
    have c: "ch_closed ?ch" using that by (simp add: channel_is_ready_def)
    have s: "{..<length ds} \<subseteq> ?S" using that ready by simp
    have "map (map_of (ch_inputs ?ch)) [0..<length ds] = map (\<lambda>i. Some (frame_of k ds i)) [0..<length ds]"
      by (rule map_cong [OF refl], rule get) (use s in auto)
    moreover have "map (fr_data \<circ> the) (map (\<lambda>i. Some (frame_of k ds i)) [0..<length ds]) = ds"
      by (simp add: comp_def frame_of_def map_nth)
    moreover have "None \<notin> set (map (\<lambda>i. Some (frame_of k ds i)) [0..<length ds])" by auto
    ultimately show ?thesis unfolding channel_reader_def Let_def n [OF c] by (simp only: if_False)
  qed
  ultimately show ?thesis by blast
qed

text \<open>C20. Frames may come in any order and more than once: a channel split into up to 65536 chunks
  is ready to be read exactly when every one of its frames has been delivered, and then the
  reader returns the chunks in order.\<close>

theorem channel_reassembles:
  assumes "ds \<noteq> []" "length ds \<le> 65536" "fst ` set order \<subseteq> {..<length ds}"
  shows "(channel_is_ready (deliver k ds order (new_channel k l1)) \<longleftrightarrow>
      {..<length ds} \<subseteq> fst ` set order) \<and>
    (channel_is_ready (deliver k ds order (new_channel k l1)) \<longrightarrow>
      channel_reader (deliver k ds order (new_channel k l1)) = Inr (concat ds))"
  using deliver_reassembles [OF assms] .

theorem channel_reassembles_witness:
  "channel_reader (deliver [7] [[1], [2, 3], [4]] [(2, zero_l1_ref), (0, zero_l1_ref), (2, zero_l1_ref), (1, zero_l1_ref)]
     (new_channel [7] zero_l1_ref)) = Inr [1, 2, 3, 4]"
proof -
  have "{..<3} \<subseteq> {2, 0, 1 :: nat}" by auto
  then show ?thesis
    using channel_reassembles [of "[[1], [2, 3], [4]]"
      "[(2, zero_l1_ref), (0, zero_l1_ref), (2, zero_l1_ref), (1, zero_l1_ref)]" "[7]" zero_l1_ref]
    by (simp add: lessThan_Suc numeral_3_eq_3)
qed

section \<open>The bank\<close>

definition sizes :: "(byte list \<times> channel) list \<Rightarrow> nat" where
  "sizes cs = sum_list (map (\<lambda>(_, ch). unat (ch_size ch)) cs)"

text \<open>The size of an open channel is that of its frames.\<close>

definition channel_inv :: "channel \<Rightarrow> bool" where
  "channel_inv ch \<longleftrightarrow> \<not> ch_closed ch \<longrightarrow> ch_size ch = sum_list (map (frame_size \<circ> snd) (ch_inputs ch))"

definition bank_wf :: "channel_bank \<Rightarrow> bool" where
  "bank_wf cb \<longleftrightarrow> distinct (cb_queue cb) \<and> distinct (map fst (cb_channels cb)) \<and>
     fst ` set (cb_channels cb) = set (cb_queue cb) \<and>
     (\<forall>(k, ch)\<in>set (cb_channels cb). channel_inv ch)"

definition bank_inv :: "channel_bank \<Rightarrow> bool" where
  "bank_inv cb \<longleftrightarrow> bank_wf cb \<and> sizes (cb_channels cb) \<le> 100000000"

lemma fold_sub: "fold (\<lambda>(_, f) s. s - frame_size f) xs (s :: u64) = s - sum_list (map (frame_size \<circ> snd) xs)"
  by (induction xs arbitrary: s) (auto simp: algebra_simps)

lemma frame_size_le: "wf_frame f \<Longrightarrow> unat (frame_size f) \<le> 1000200"
proof -
  assume "wf_frame f"
  then have l: "length (fr_data f) \<le> 1000000" by (simp add: wf_frame_def)
  have "unat (frame_size f) = unat (of_nat (length (fr_data f) + 200) :: u64)" by (simp add: frame_size_def)
  also have "\<dots> = length (fr_data f) + 200" using l by (simp only: unat_of_nat) simp
  finally show ?thesis using l by simp
qed

lemma unat_add_le: "unat (a + b :: u64) \<le> unat a + unat b"
  by (simp add: unat_word_ariths)

lemma add_frame_inv:
  assumes "add_frame ch f l1 = Inr ch'" "channel_inv ch" "wf_frame f"
  shows "channel_inv ch' \<and> unat (ch_size ch') \<le> unat (ch_size ch) + 1000200"
proof -
  have ch': "ch' = buffer_frame f l1 (prune_frames f (close_channel f ch))"
    and c: "fr_is_last f \<longrightarrow> \<not> ch_closed ch"
    using assms(1) by (auto simp: add_frame_def split: if_splits)
  have s: "ch_size (prune_frames f (close_channel f ch)) \<in> {ch_size ch, 0}"
    using assms(2) c by (auto simp: prune_frames_def close_channel_def channel_inv_def fold_sub)
  have "unat (ch_size ch') \<le> unat (ch_size (prune_frames f (close_channel f ch))) + unat (frame_size f)"
    by (simp add: ch' buffer_frame_def unat_add_le)
  then have "unat (ch_size ch') \<le> unat (ch_size ch) + 1000200"
    using s frame_size_le [OF assms(3)] by auto
  moreover have "channel_inv ch'" using assms(2)
    by (auto simp: ch' channel_inv_def buffer_frame_def prune_frames_def close_channel_def)
  ultimately show ?thesis by simp
qed

lemma sizes_delete:
  "distinct (map fst cs) \<Longrightarrow> map_of cs k = Some ch \<Longrightarrow> sizes (delete_channel k cs) + unat (ch_size ch) = sizes cs"
proof (induction cs)
  case (Cons x cs)
  obtain k' c where x: "x = (k', c)" by (cases x)
  show ?case
  proof (cases "k' = k")
    case True
    then have "k \<notin> fst ` set cs" using Cons.prems x by auto
    then have "filter (\<lambda>(k', _). k' \<noteq> k) cs = cs" by (force simp: filter_id_conv)
    then show ?thesis using Cons.prems True x by (simp add: sizes_def delete_channel_def)
  next
    case False
    then show ?thesis using Cons x by (simp add: sizes_def delete_channel_def)
  qed
qed simp

lemma sizes_put:
  "distinct (map fst cs) \<Longrightarrow> map_of cs k = Some ch \<Longrightarrow>
   sizes (put_channel k ch' cs) + unat (ch_size ch) = sizes cs + unat (ch_size ch')"
proof (induction cs)
  case (Cons x cs)
  obtain k' c where x: "x = (k', c)" by (cases x)
  show ?case
  proof (cases "k' = k")
    case True
    then have "k \<notin> fst ` set cs" using Cons.prems x by auto
    then have "put_channel k ch' cs = cs" by (force simp: put_channel_def intro!: map_idI)
    then show ?thesis using Cons.prems True x by (simp add: sizes_def put_channel_def)
  next
    case False
    then show ?thesis using Cons x by (simp add: sizes_def put_channel_def)
  qed
qed simp

lemma keys_put [simp]: "map fst (put_channel k ch cs) = map fst cs"
  by (auto simp: put_channel_def)

lemma keys_delete: "map fst (delete_channel k cs) = filter (\<lambda>k'. k' \<noteq> k) (map fst cs)"
  by (induction cs) (auto simp: delete_channel_def)

lemma set_delete: "set (delete_channel k cs) \<subseteq> set cs"
  by (auto simp: delete_channel_def)

lemma sizes_delete_le: "sizes (delete_channel k cs) \<le> sizes cs"
  by (induction cs) (auto simp: sizes_def delete_channel_def)

lemma bank_wf_delete:
  assumes "bank_wf cb" "queue' = filter (\<lambda>k'. k' \<noteq> k) (cb_queue cb)"
  shows "bank_wf \<lparr>cb_channels = delete_channel k (cb_channels cb), cb_queue = queue'\<rparr>"
proof -
  have "fst ` set (delete_channel k (cb_channels cb)) = set queue'"
    using assms by (simp add: bank_wf_def keys_delete flip: set_map)
  then show ?thesis using assms set_delete [of k "cb_channels cb"]
    by (auto simp: bank_wf_def keys_delete)
qed

lemma total_eq: "bank_total_size cs = of_nat (sizes cs)"
proof -
  have "fold (\<lambda>(_, ch) s. s + ch_size ch) cs s = s + of_nat (sizes cs)" for s
    by (induction cs arbitrary: s) (auto simp: sizes_def algebra_simps)
  then show ?thesis by (simp add: bank_total_size_def)
qed

lemma prune_loop_ok:
  "bank_wf \<lparr>cb_channels = cs, cb_queue = queue\<rparr> \<Longrightarrow> tot = of_nat (sizes cs) \<Longrightarrow>
   sizes cs < 2 ^ 64 \<Longrightarrow> \<exists>cb'. prune_loop tot queue cs = Inr cb' \<and> bank_inv cb'"
proof (induction tot queue cs rule: prune_loop.induct)
  case (1 tot queue cs)
  have u: "unat tot = sizes cs" using 1(3,4) by (simp add: unat_of_nat)
  show ?case
  proof (cases "tot > max_channel_bank_size")
    case False
    then have "sizes cs \<le> 100000000"
      using u by (simp add: max_channel_bank_size_def word_less_nat_alt)
    then show ?thesis using False 1(2) by (simp add: prune_loop.simps bank_inv_def)
  next
    case True
    then have pos: "sizes cs \<noteq> 0" using u by (auto simp: max_channel_bank_size_def word_less_nat_alt)
    have keys: "fst ` set cs = set queue" using 1(2) by (simp add: bank_wf_def)
    obtain k rest where q: "queue = k # rest"
    proof (cases queue)
      case Nil
      then show ?thesis using keys pos by (simp add: sizes_def)
    qed (rule that)
    have "k \<in> fst ` set cs" using keys q by simp
    then obtain ch where ch: "map_of cs k = Some ch" by (metis map_of_eq_None_iff option.exhaust)
    have rest: "rest = filter (\<lambda>k'. k' \<noteq> k) queue"
      using 1(2) q by (auto simp: bank_wf_def filter_id_conv intro!: filter_True [symmetric])
    have s: "sizes (delete_channel k cs) + unat (ch_size ch) = sizes cs"
      using sizes_delete [OF _ ch] 1(2) by (simp add: bank_wf_def)
    have "tot - ch_size ch = of_nat (sizes (delete_channel k cs))"
      using 1(3) by (simp add: s [symmetric])
    moreover have "bank_wf \<lparr>cb_channels = delete_channel k cs, cb_queue = rest\<rparr>"
      using bank_wf_delete [OF 1(2), of rest k] rest by simp
    moreover have "sizes (delete_channel k cs) < 2 ^ 64" using s 1(4) by linarith
    ultimately have "\<exists>cb'. prune_loop (tot - ch_size ch) rest (delete_channel k cs) = Inr cb' \<and> bank_inv cb'"
      using 1(1) [of k rest ch] True q ch by simp
    then show ?thesis using True q ch by (simp add: prune_loop.simps [of tot])
  qed
qed

lemma open_channel_ok:
  assumes "bank_inv cb"
  shows "bank_inv (open_channel k origin cb) \<and> (\<exists>ch. map_of (cb_channels (open_channel k origin cb)) k = Some ch)"
proof (cases "map_of (cb_channels cb) k")
  case None
  then have "k \<notin> fst ` set (cb_channels cb)" by (simp add: map_of_eq_None_iff)
  then show ?thesis using None assms
    by (auto simp: open_channel_def bank_inv_def bank_wf_def sizes_def new_channel_def channel_inv_def map_add_def)
qed (use assms in \<open>simp add: open_channel_def\<close>)

lemma ingest_ok:
  assumes "bank_inv cb" "wf_frame f"
  shows "\<exists>cb'. ingest_frame cfg origin f cb = Inr cb' \<and> bank_inv cb'"
proof -
  let ?cb = "open_channel (fr_id f) origin cb"
  obtain ch where ch: "map_of (cb_channels ?cb) (fr_id f) = Some ch" and inv: "bank_inv ?cb"
    using open_channel_ok [OF assms(1)] by blast
  show ?thesis
  proof (cases "timed_out cfg origin ch \<or> (\<exists>e. add_frame ch f origin = Inl e)")
    case True
    then show ?thesis using ch inv by (auto simp: ingest_frame_def Let_def)
  next
    case False
    then obtain ch' where add: "add_frame ch f origin = Inr ch'" "\<not> timed_out cfg origin ch"
      by (metis sum.exhaust)
    have "channel_inv ch" using inv map_of_SomeD [OF ch] by (auto simp: bank_inv_def bank_wf_def)
    then have ch'_inv: "channel_inv ch'" "unat (ch_size ch') \<le> unat (ch_size ch) + 1000200"
      using add_frame_inv [OF add(1) _ assms(2)] by simp_all
    let ?cs = "put_channel (fr_id f) ch' (cb_channels ?cb)"
    have "sizes ?cs + unat (ch_size ch) = sizes (cb_channels ?cb) + unat (ch_size ch')"
      using sizes_put [OF _ ch] inv by (simp add: bank_inv_def bank_wf_def)
    then have "sizes ?cs \<le> 100000000 + 1000200" using ch'_inv(2) inv by (simp add: bank_inv_def)
    then have lt: "sizes ?cs < 2 ^ 64" by simp
    have "bank_wf \<lparr>cb_channels = ?cs, cb_queue = cb_queue ?cb\<rparr>"
      using inv ch'_inv(1) keys_put [of "fr_id f" ch' "cb_channels ?cb"]
      by (auto simp: bank_inv_def bank_wf_def simp flip: set_map simp del: keys_put)
         (auto simp: put_channel_def split: if_splits)
    from prune_loop_ok [OF this refl lt] show ?thesis
      using ch add by (simp add: ingest_frame_def Let_def bank_prune_def total_eq)
  qed
qed

lemma remove_nth_filter:
  "distinct xs \<Longrightarrow> i < length xs \<Longrightarrow> take i xs @ drop (i + 1) xs = filter (\<lambda>x. x \<noteq> xs ! i) xs"
proof (induction xs arbitrary: i)
  case (Cons x xs)
  show ?case
  proof (cases i)
    case 0
    then have "filter (\<lambda>y. y \<noteq> x) xs = xs" using Cons.prems by (auto simp: filter_id_conv)
    then show ?thesis using 0 by simp
  next
    case (Suc j)
    then have "xs ! j \<noteq> x" using Cons.prems by auto
    then show ?thesis using Cons Suc by auto
  qed
qed simp

lemma bank_inv_remove:
  assumes "bank_inv cb" "queue' = filter (\<lambda>k'. k' \<noteq> k) (cb_queue cb)"
  shows "bank_inv \<lparr>cb_channels = delete_channel k (cb_channels cb), cb_queue = queue'\<rparr>"
  using assms bank_wf_delete [of cb queue' k] sizes_delete_le [of k "cb_channels cb"]
  by (simp add: bank_inv_def)

lemma bank_lookup:
  assumes "bank_inv cb" "k \<in> set (cb_queue cb)"
  obtains ch where "map_of (cb_channels cb) k = Some ch"
proof -
  have "k \<in> fst ` set (cb_channels cb)" using assms by (simp add: bank_inv_def bank_wf_def)
  then show ?thesis using that by (metis map_of_eq_None_iff option.exhaust)
qed

lemma ready_reader: "channel_is_ready ch \<Longrightarrow> \<exists>data. channel_reader ch = Inr data"
  by (auto simp: channel_is_ready_def channel_reader_def list_all_iff Let_def)

lemma try_read_ok:
  assumes "bank_inv cb" "i < length (cb_queue cb)"
  shows "(case try_read_channel_at_index cfg origin i cb of
      (Inr data, cb') \<Rightarrow> bank_inv cb' | (Inl e, cb') \<Rightarrow> e = StageEOF \<and> cb' = cb)"
proof -
  obtain ch where ch: "map_of (cb_channels cb) (cb_queue cb ! i) = Some ch"
    using bank_lookup [OF assms(1)] assms(2) by (metis nth_mem)
  have "bank_inv \<lparr>cb_channels = delete_channel (cb_queue cb ! i) (cb_channels cb),
      cb_queue = take i (cb_queue cb) @ drop (i + 1) (cb_queue cb)\<rparr>"
    using bank_inv_remove [OF assms(1)] remove_nth_filter [OF _ assms(2)] assms(1)
    by (simp add: bank_inv_def bank_wf_def)
  then show ?thesis using ready_reader [of ch] ch assms(2)
    by (auto simp: try_read_channel_at_index_def Let_def)
qed

lemma try_read_from_ok:
  "bank_inv cb \<Longrightarrow> set is \<subseteq> {..<length (cb_queue cb)} \<Longrightarrow>
   (case try_read_from cfg origin is cb of
      (Inr data, cb') \<Rightarrow> bank_inv cb' | (Inl e, cb') \<Rightarrow> e = StageEOF \<and> cb' = cb)"
proof (induction "is")
  case (Cons i "is")
  then show ?case using try_read_ok [of cb i cfg origin]
    by (auto split: prod.splits sum.splits)
qed simp

lemma bank_read_ok:
  assumes "bank_inv cb"
  shows "(case bank_read cfg origin cb of
      (Inr data, cb') \<Rightarrow> bank_inv cb' | (Inl e, cb') \<Rightarrow> e = StageEOF \<and> cb' = cb)"
proof (cases "cb_queue cb")
  case (Cons k rest)
  obtain ch where ch: "map_of (cb_channels cb) k = Some ch"
    using bank_lookup [OF assms] Cons by (metis list.set_intros(1))
  have "distinct (cb_queue cb)" using assms by (simp add: bank_inv_def bank_wf_def)
  then have "rest = filter (\<lambda>k'. k' \<noteq> k) (cb_queue cb)"
    using Cons by (auto intro!: filter_True [symmetric])
  then have "bank_inv \<lparr>cb_channels = delete_channel k (cb_channels cb), cb_queue = rest\<rparr>"
    using bank_inv_remove [OF assms] by simp
  then show ?thesis
    using Cons ch try_read_ok [OF assms, of 0 cfg origin]
      try_read_from_ok [OF assms, of "[0..<length (cb_queue cb)]" cfg origin]
    by (auto simp: bank_read_def lessThan_atLeast0 simp del: upt_Suc)
qed (simp add: bank_read_def)

lemma bank_next_ok:
  assumes "bank_inv cb" "\<And>f. nextFrame = Inr f \<Longrightarrow> wf_frame f" "nextFrame \<noteq> Inl StagePanic"
  shows "bank_inv (snd (bank_next_data cfg origin nextFrame cb)) \<and>
    fst (bank_next_data cfg origin nextFrame cb) \<noteq> Inl StagePanic"
proof -
  obtain r cb1 where r: "bank_read cfg origin cb = (r, cb1)" by force
  show ?thesis
  proof (cases r)
    case (Inr data)
    then show ?thesis using bank_read_ok [OF assms(1), of cfg origin] r
      by (simp add: bank_next_data_def)
  next
    case (Inl e)
    then have e: "e = StageEOF" "cb1 = cb" using bank_read_ok [OF assms(1), of cfg origin] r by simp_all
    show ?thesis
    proof (cases nextFrame)
      case (Inr f)
      then obtain cb2 where "ingest_frame cfg origin f cb = Inr cb2" "bank_inv cb2"
        using ingest_ok [OF assms(1), of f cfg origin] assms(2) by blast
      then show ?thesis using r Inl e Inr by (simp add: bank_next_data_def)
    qed (use r Inl e assms in \<open>auto simp: bank_next_data_def\<close>)
  qed
qed

text \<open>The bank as a machine: pulls with any origin and any well-formed next frame, and resets.\<close>

inductive bank_step :: "rollup_config \<Rightarrow> channel_bank \<Rightarrow> channel_bank \<Rightarrow> bool" for cfg where
  pull: "(\<forall>f. nextFrame = Inr f \<longrightarrow> wf_frame f) \<Longrightarrow> nextFrame \<noteq> Inl StagePanic \<Longrightarrow>
    bank_step cfg cb (snd (bank_next_data cfg origin nextFrame cb))"
| reset: "bank_step cfg cb bank_reset"

lemma bank_inv_reset: "bank_inv bank_reset"
  by (simp add: bank_reset_def bank_inv_def bank_wf_def sizes_def)

interpretation bank: machine "\<lambda>cb. cb = bank_reset" "bank_step cfg" bank_inv for cfg
proof
  show "bank_inv t" if "bank_inv s" "bank_step cfg s t" for s t
    using that(2,1) by cases (auto simp: bank_inv_reset intro: bank_next_ok [THEN conjunct1])
qed (simp add: bank_inv_reset)

text \<open>C21. The channel bank stays bounded and consistent: in every reachable state its queue lists
  each channel once and the recorded sizes of the channels sum up, without wrap-around, to
  at most \<^verbatim>\<open>MaxChannelBankSize\<close>; and the next pull does not panic, so that pruning never
  runs out of channels and no queued channel is missing.\<close>

theorem channel_bank_bounded:
  assumes "reach (\<lambda>cb. cb = bank_reset) (bank_step cfg) cb"
    and "\<forall>f. nextFrame = Inr f \<longrightarrow> wf_frame f" "nextFrame \<noteq> Inl StagePanic"
  shows "sizes (cb_channels cb) \<le> unat max_channel_bank_size \<and>
    distinct (cb_queue cb) \<and> set (cb_queue cb) = fst ` set (cb_channels cb) \<and>
    fst (bank_next_data cfg origin nextFrame cb) \<noteq> Inl StagePanic"
proof -
  have inv: "bank_inv cb" using bank.reach_inv assms(1) .
  then show ?thesis using bank_next_ok [OF inv _ assms(3), of cfg origin] assms(2)
    by (simp add: bank_inv_def bank_wf_def max_channel_bank_size_def)
qed

theorem channel_bank_bounded_witness:
  "\<exists>cb. cb_queue cb = [replicate 16 9] \<and>
     fst (bank_next_data demo_config zero_l1_ref (Inl StageEOF) cb) \<noteq> Inl StagePanic"
proof -
  let ?f = "\<lparr>fr_id = replicate 16 9, fr_number = 0, fr_data = [1, 2], fr_is_last = False\<rparr>"
  let ?cb = "snd (bank_next_data demo_config zero_l1_ref (Inr ?f) bank_reset)"
  have r0: "reach (\<lambda>cb. cb = bank_reset) (bank_step demo_config) bank_reset"
    by (rule reach_init) simp
  have "bank_step demo_config bank_reset ?cb" by (rule bank_step.pull) (simp_all add: wf_frame_def)
  with r0 have "reach (\<lambda>cb. cb = bank_reset) (bank_step demo_config) ?cb" by (rule reach_step)
  from channel_bank_bounded [OF this, of "Inl StageEOF" zero_l1_ref]
  have "fst (bank_next_data demo_config zero_l1_ref (Inl StageEOF) ?cb) \<noteq> Inl StagePanic" by simp
  moreover have "cb_queue ?cb = [replicate 16 9]"
    by (simp add: bank_next_data_def bank_read_def bank_reset_def ingest_frame_def open_channel_def
          timed_out_def open_block_number_def new_channel_def zero_l1_ref_def demo_config_def
          add_frame_def close_channel_def prune_frames_def buffer_frame_def bank_prune_def
          put_channel_def bank_total_size_def frame_size_def prune_loop.simps
          max_channel_bank_size_def Let_def)
  ultimately show ?thesis by blast
qed

text \<open>
  Closing a channel below frames it has already seen subtracts the frames it keeps as well:
  here frames 0 and 2 were buffered (201 bytes each) and the closing frame is number 1, and
  the recorded size is that of the closing frame alone although frame 0 is still there.
\<close>

lemma prune_undercounts:
  "\<exists>ch. add_frame \<lparr>ch_id = k, ch_open_block = zero_l1_ref, ch_size = 402, ch_closed = False,
       ch_highest_frame = 2, ch_end_frame = 0,
       ch_inputs = [(0, \<lparr>fr_id = k, fr_number = 0, fr_data = [5], fr_is_last = False\<rparr>),
                    (2, \<lparr>fr_id = k, fr_number = 2, fr_data = [6], fr_is_last = False\<rparr>)],
       ch_highest_l1 = zero_l1_ref\<rparr>
     \<lparr>fr_id = k, fr_number = 1, fr_data = [7], fr_is_last = True\<rparr> zero_l1_ref = Inr ch \<and>
   map fst (ch_inputs ch) = [0, 1] \<and> ch_size ch = 201"
  by (simp add: add_frame_def close_channel_def prune_frames_def buffer_frame_def frame_size_def
        zero_l1_ref_def)

end
