(* ===== verification/Derive_Abi.thy ===== *)
theory Derive_Abi
  imports Derive_Frame
begin

text \<open>
  ABI words (\<^verbatim>\<open>bl-service/solabi\<close>) and the L1 attributes that every L2 block carries in its first
  transaction (\<^verbatim>\<open>bl-node/rollup/derive/l1_block_info.go\<close>). Integers of arbitrary size are
  \<^typ>\<open>int\<close>; writers do not fail by themselves, a value that does not fit does.
\<close>

section \<open>ABI words\<close>

definition read_and_validate_signature :: "byte list \<Rightarrow> byte list reader" where
  "read_and_validate_signature expected r =
     rbind (read_full 4 r) (\<lambda>(sig, r).
       if sig \<noteq> expected then Inl ErrInvalidSignature else Inr (sig, r))"

definition read_hash :: "hash reader" where
  "read_hash r = read_full 32 r"

definition read_address :: "byte list reader" where
  "read_address r =
     rbind (read_full 12 r) (\<lambda>(readPadding, r).
       if readPadding \<noteq> replicate 12 0 then Inl ErrBadPadding
       else read_full 20 r)"

definition read_uint64 :: "u64 reader" where
  "read_uint64 r =
     rbind (read_full 24 r) (\<lambda>(readPadding, r).
       if readPadding \<noteq> replicate 24 0 then Inl ErrBadPadding
       else case read_full 8 r of
           Inl _ \<Rightarrow> Inl ErrNumberLength
         | Inr (n, r) \<Rightarrow> Inr (get_u64 n, r))"

definition read_uint256 :: "int reader" where
  "read_uint256 r = rbind (read_full 32 r) (\<lambda>(n, r). Inr (int (be_dec n), r))"

definition empty_reader :: "byte list \<Rightarrow> bool" where
  "empty_reader r \<longleftrightarrow> r = []"

definition write_address :: "byte list \<Rightarrow> byte list" where
  "write_address a = replicate 12 0 @ a"

definition write_uint64 :: "u64 \<Rightarrow> byte list" where
  "write_uint64 n = replicate 24 0 @ put_u64 n"

text \<open>The absolute value is written: a negative number loses its sign.\<close>

definition write_uint256 :: "int \<Rightarrow> read_err + byte list" where
  "write_uint256 n =
     (if \<bar>n\<bar> \<ge> 2 ^ 256 then Inl ErrNumberTooLarge else Inr (be_enc 32 (nat \<bar>n\<bar>)))"

section \<open>L1 block information\<close>

record l1_block_info =
  li_number :: u64
  li_time :: u64
  li_base_fee :: int
  li_block_hash :: hash
  li_sequence_number :: u64
  li_batcher_addr :: "byte list"
  li_l1_fee_overhead :: "byte list"
  li_l1_fee_scalar :: "byte list"

definition l1_info_len :: nat where "l1_info_len = 4 + 32 * 8"

text \<open>\<open>sig\<close> is the first four bytes of the hash of the signature of \<^verbatim>\<open>setL1BlockValues\<close>.\<close>

definition marshal_l1_info :: "byte list \<Rightarrow> l1_block_info \<Rightarrow> read_err + byte list" where
  "marshal_l1_info sig info =
     rbind (write_uint256 (li_base_fee info)) (\<lambda>baseFee.
       Inr (sig @ write_uint64 (li_number info) @ write_uint64 (li_time info) @ baseFee @
         li_block_hash info @ write_uint64 (li_sequence_number info) @
         write_address (li_batcher_addr info) @ li_l1_fee_overhead info @ li_l1_fee_scalar info))"

definition read_l1_fees :: "(byte list \<times> byte list \<times> byte list) reader" where
  "read_l1_fees r =
     rbind (read_address r) (\<lambda>(batcherAddr, r).
     rbind (read_full 32 r) (\<lambda>(overhead, r).
     rbind (read_full 32 r) (\<lambda>(scalar, r). Inr ((batcherAddr, overhead, scalar), r))))"

definition read_l1_info_fields :: "l1_block_info reader" where
  "read_l1_info_fields r =
     rbind (read_uint64 r) (\<lambda>(number, r).
     rbind (read_uint64 r) (\<lambda>(time, r).
     rbind (read_uint256 r) (\<lambda>(baseFee, r).
     rbind (read_hash r) (\<lambda>(blockHash, r).
     rbind (read_uint64 r) (\<lambda>(seqNum, r).
     rbind (read_l1_fees r) (\<lambda>((batcherAddr, overhead, scalar), r).
       Inr (\<lparr>li_number = number, li_time = time, li_base_fee = baseFee, li_block_hash = blockHash,
             li_sequence_number = seqNum, li_batcher_addr = batcherAddr,
             li_l1_fee_overhead = overhead, li_l1_fee_scalar = scalar\<rparr>, r)))))))"

definition unmarshal_l1_info :: "byte list \<Rightarrow> byte list \<Rightarrow> read_err + l1_block_info" where
  "unmarshal_l1_info sig data =
     (if length data \<noteq> l1_info_len then Inl ErrUnexpectedLength
      else rbind (read_and_validate_signature sig data) (\<lambda>(_, r).
           rbind (read_l1_info_fields r) (\<lambda>(info, r).
             if \<not> empty_reader r then Inl ErrTooManyBytes else Inr info)))"

section \<open>Round trips\<close>

lemma put_get_u64: "length bs = 8 \<Longrightarrow> put_u64 (get_u64 bs) = bs"
  using be_dec_less [of bs] be_enc_dec [of bs]
  by (simp add: put_u64_def get_u64_def unat_of_nat)

lemma read_full_simps:
  "length xs = n \<Longrightarrow> read_full n (xs @ rest) = Inr (xs, rest)"
  "length xs = n \<Longrightarrow> read_full n xs = Inr (xs, [])"
  by (simp_all add: read_full_def)

lemma read_uint64_write: "read_uint64 (write_uint64 n @ rest) = Inr (n, rest)"
  by (simp add: read_uint64_def write_uint64_def)

lemma read_uint64_Inr: "read_uint64 bs = Inr (n, r) \<longleftrightarrow> bs = write_uint64 n @ r"
proof
  assume "read_uint64 bs = Inr (n, r)"
  then obtain d where "bs = replicate 24 0 @ d @ r" "length d = 8" "n = get_u64 d"
    by (auto simp: read_uint64_def rbind_eq_Inr read_full_Inr split: if_splits sum.splits)
  then show "bs = write_uint64 n @ r" by (simp add: write_uint64_def put_get_u64)
qed (simp add: read_uint64_write)

interpretation abi_uint64: codec write_uint64 read_uint64 "\<lambda>_. True"
  by unfold_locales (simp_all only: read_uint64_write, simp add: write_uint64_def)

lemma read_address_Inr:
  "read_address bs = Inr (a, r) \<longleftrightarrow> bs = write_address a @ r \<and> length a = 20"
  by (auto simp: read_address_def write_address_def rbind_eq_Inr read_full_Inr split: if_splits)

lemma read_address_write: "length a = 20 \<Longrightarrow> read_address (write_address a @ rest) = Inr (a, rest)"
  by (simp add: read_address_Inr)

interpretation abi_address: codec write_address read_address "\<lambda>a. length a = 20"
  by unfold_locales (simp_all only: read_address_write, simp add: write_address_def)

lemma read_uint256_Inr:
  "read_uint256 bs = Inr (n, r) \<longleftrightarrow> (\<exists>d. bs = d @ r \<and> 0 \<le> n \<and> write_uint256 n = Inr d)"
proof
  assume "read_uint256 bs = Inr (n, r)"
  then obtain d where d: "bs = d @ r" "length d = 32" "n = int (be_dec d)"
    by (auto simp: read_uint256_def rbind_eq_Inr read_full_Inr)
  have "be_dec d < 256 ^ 32" using be_dec_less [of d] d(2) by simp
  then have "n < 2 ^ 256" using d(3) by simp
  then have "write_uint256 n = Inr d" using d be_enc_dec [of d] by (simp add: write_uint256_def)
  then show "\<exists>d. bs = d @ r \<and> 0 \<le> n \<and> write_uint256 n = Inr d" using d by auto
next
  assume "\<exists>d. bs = d @ r \<and> 0 \<le> n \<and> write_uint256 n = Inr d"
  then obtain d where d: "bs = d @ r" "0 \<le> n" "n < 2 ^ 256" "d = be_enc 32 (nat n)"
    by (auto simp: write_uint256_def split: if_splits)
  have "nat n < 256 ^ 32" using d(2,3) by (simp add: nat_less_iff)
  then show "read_uint256 bs = Inr (n, r)" using d
    by (simp add: read_uint256_def be_dec_enc)
qed

text \<open>The values of the fields: a base fee of at most 256 bits, hashes and addresses of their length.\<close>

definition wf_l1_info :: "l1_block_info \<Rightarrow> bool" where
  "wf_l1_info info \<longleftrightarrow> 0 \<le> li_base_fee info \<and> length (li_block_hash info) = 32 \<and>
     length (li_batcher_addr info) = 20 \<and> length (li_l1_fee_overhead info) = 32 \<and>
     length (li_l1_fee_scalar info) = 32"

lemma length_write_uint256: "write_uint256 n = Inr d \<Longrightarrow> length d = 32"
  by (auto simp: write_uint256_def split: if_splits)

lemma read_l1_fees_Inr:
  "read_l1_fees bs = Inr ((a, ov, sc), r) \<longleftrightarrow>
     bs = write_address a @ ov @ sc @ r \<and> length a = 20 \<and> length ov = 32 \<and> length sc = 32"
  by (auto simp: read_l1_fees_def rbind_eq_Inr read_address_Inr read_full_Inr)

lemma read_l1_info_fields_Inr:
  "read_l1_info_fields bs = Inr (info, r) \<longleftrightarrow>
     wf_l1_info info \<and> (\<exists>d. marshal_l1_info [] info = Inr d \<and> bs = d @ r)"
  unfolding read_l1_info_fields_def rbind_eq_Inr split_paired_Ex
    read_uint64_Inr read_uint256_Inr read_l1_fees_Inr marshal_l1_info_def wf_l1_info_def read_hash_def
    read_full_Inr prod.case
  by (cases info) auto

lemma marshal_sig: "marshal_l1_info sig info = rbind (marshal_l1_info [] info) (\<lambda>d. Inr (sig @ d))"
  by (auto simp: marshal_l1_info_def split: rbind_splits)

lemma length_marshal:
  "wf_l1_info info \<Longrightarrow> marshal_l1_info [] info = Inr d \<Longrightarrow> length d = 256"
  by (auto simp: marshal_l1_info_def wf_l1_info_def rbind_eq_Inr write_uint64_def write_address_def
      dest!: length_write_uint256)

lemma unmarshal_marshal_l1_info:
  assumes "length sig = 4" "wf_l1_info info" "marshal_l1_info sig info = Inr data"
  shows "unmarshal_l1_info sig data = Inr info"
proof -
  obtain d where d: "marshal_l1_info [] info = Inr d" "data = sig @ d"
    using assms(3) by (auto simp: marshal_sig [of sig] rbind_eq_Inr)
  then have "read_l1_info_fields d = Inr (info, [])" using assms(2) by (simp add: read_l1_info_fields_Inr)
  then show ?thesis
    using d assms(1) length_marshal [OF assms(2) d(1)]
    by (simp add: unmarshal_l1_info_def read_and_validate_signature_def empty_reader_def l1_info_len_def)
qed

text \<open>The L1 attributes transaction: what \<^verbatim>\<open>UnmarshalBinary\<close> accepts is exactly what
  \<^verbatim>\<open>MarshalBinary\<close> writes for a well-formed value, so that both are inverse to each other, with
  no second encoding of the same information.\<close>

theorem l1_info_roundtrip:
  assumes "length sig = 4"
  shows "unmarshal_l1_info sig data = Inr info \<longleftrightarrow>
    wf_l1_info info \<and> marshal_l1_info sig info = Inr data"
proof
  assume "unmarshal_l1_info sig data = Inr info"
  then show "wf_l1_info info \<and> marshal_l1_info sig info = Inr data"
    by (auto simp: unmarshal_l1_info_def read_and_validate_signature_def empty_reader_def
        rbind_eq_Inr read_full_Inr read_l1_info_fields_Inr marshal_sig [of sig] split: if_splits)
next
  assume "wf_l1_info info \<and> marshal_l1_info sig info = Inr data"
  then show "unmarshal_l1_info sig data = Inr info"
    using unmarshal_marshal_l1_info [OF assms] by blast
qed

definition demo_l1_info :: l1_block_info where
  "demo_l1_info = \<lparr>li_number = 17, li_time = 1700000000, li_base_fee = 7000000000,
     li_block_hash = replicate 32 3, li_sequence_number = 2, li_batcher_addr = replicate 20 9,
     li_l1_fee_overhead = replicate 32 0, li_l1_fee_scalar = replicate 32 1\<rparr>"

theorem l1_info_roundtrip_witness:
  "\<exists>data. marshal_l1_info [1, 93, 142, 185] demo_l1_info = Inr data \<and>
     unmarshal_l1_info [1, 93, 142, 185] data = Inr demo_l1_info"
proof -
  have "\<exists>data. marshal_l1_info [1, 93, 142, 185] demo_l1_info = Inr data"
    by (simp add: marshal_l1_info_def demo_l1_info_def write_uint256_def)
  moreover have "wf_l1_info demo_l1_info" by (simp add: wf_l1_info_def demo_l1_info_def)
  ultimately show ?thesis using l1_info_roundtrip [of "[1, 93, 142, 185]"] by auto
qed

end
