(* ===== verification/Derive_Deposit.thy ===== *)
theory Derive_Deposit
  imports Derive_Abi Derive_Types
begin

text \<open>
  Deposits (\<^verbatim>\<open>bl-node/rollup/derive/{deposit_log,deposit_source,deposits}.go\<close>) and updates of the
  system configuration (\<^verbatim>\<open>system_config.go\<close>): events of L1 contracts, decoded from the
  receipts of an L1 block. The parameter \<open>K\<close> is Keccak-256, of 32-byte results.
\<close>

section \<open>Events and deposits\<close>

record log_event =
  ev_address :: "byte list"
  ev_topics :: "hash list"
  ev_data :: "byte list"
  ev_block_hash :: hash
  ev_index :: u64

record receipt =
  rcpt_status :: u64
  rcpt_logs :: "log_event list"

text \<open>The fields of \<^verbatim>\<open>types.DepositTx\<close> that are set here.\<close>

record deposit_tx =
  dt_source_hash :: hash
  dt_from :: "byte list"
  dt_to :: "byte list option"
  dt_mint :: "int option"
  dt_value :: int
  dt_gas :: u64
  dt_is_system :: bool
  dt_data :: "byte list"

datatype deposit_err =
    WrongTopicCount nat
  | InvalidSelector
  | IncompleteHeader
  | UnalignedData
  | InvalidOffset
  | InvalidLength
  | InvalidVersion
  | ShortOpaqueData
  | BadGasValue
  | MintTooLarge
  | ValueTooLarge
  | UnknownUpdateType
  | MalformedUpdate

definition ascii :: "string \<Rightarrow> byte list" where
  "ascii s = map (of_nat \<circ> of_char) s"

definition deposit_event_hash :: "(byte list \<Rightarrow> hash) \<Rightarrow> hash" where
  "deposit_event_hash K = K (ascii ''TransactionDeposited(address,address,uint256,bytes)'')"

definition deposit_event_version0 :: hash where
  "deposit_event_version0 = zero_hash32"

section \<open>Source hashes\<close>

definition domain_hash :: "(byte list \<Rightarrow> hash) \<Rightarrow> u64 \<Rightarrow> hash \<Rightarrow> u64 \<Rightarrow> hash" where
  "domain_hash K domain blockHash n =
     (let depositIDHash = K (blockHash @ replicate 24 0 @ put_u64 n)
      in K (replicate 24 0 @ put_u64 domain @ depositIDHash))"

definition user_deposit_source_hash :: "(byte list \<Rightarrow> hash) \<Rightarrow> hash \<Rightarrow> u64 \<Rightarrow> hash" where
  "user_deposit_source_hash K blockHash logIndex = domain_hash K 0 blockHash logIndex"

definition l1_info_source_hash :: "(byte list \<Rightarrow> hash) \<Rightarrow> hash \<Rightarrow> u64 \<Rightarrow> hash" where
  "l1_info_source_hash K blockHash seqNumber = domain_hash K 1 blockHash seqNumber"

section \<open>Decoding a deposit\<close>

definition slice :: "nat \<Rightarrow> nat \<Rightarrow> byte list \<Rightarrow> byte list" where
  "slice a b xs = take (b - a) (drop a xs)"

definition unmarshal_deposit_version0 ::
  "deposit_tx \<Rightarrow> byte list \<Rightarrow> byte list \<Rightarrow> deposit_err + deposit_tx" where
  "unmarshal_deposit_version0 dep to opaqueData =
     (if length opaqueData < 32 + 32 + 8 + 1 then Inl ShortOpaqueData
      else let mint = be_dec (slice 0 32 opaqueData);
               val = be_dec (slice 32 64 opaqueData);
               gas = be_dec (slice 64 72 opaqueData)
        in if \<not> gas < 2 ^ 64 then Inl BadGasValue
           else Inr (dep\<lparr>dt_mint := (if mint = 0 then None else Some (int mint)),
                        dt_value := int val, dt_gas := of_nat gas,
                        dt_to := (if opaqueData ! 72 = 0 then Some to else dt_to dep),
                        dt_data := drop 73 opaqueData\<rparr>))"

text \<open>
  The length field is compared as a \<^verbatim>\<open>uint64\<close>; the second test is reached only for lengths up
  to that of the data, so its sum does not wrap around and naturals do.
\<close>

definition unmarshal_deposit_log_event ::
  "(byte list \<Rightarrow> hash) \<Rightarrow> log_event \<Rightarrow> deposit_err + deposit_tx" where
  "unmarshal_deposit_log_event K ev =
     (if length (ev_topics ev) \<noteq> 4 then Inl (WrongTopicCount (length (ev_topics ev)))
      else if ev_topics ev ! 0 \<noteq> deposit_event_hash K then Inl InvalidSelector
      else if length (ev_data ev) < 64 then Inl IncompleteHeader
      else if length (ev_data ev) mod 32 \<noteq> 0 then Inl UnalignedData
      else let sender = drop 12 (ev_topics ev ! 1); to = drop 12 (ev_topics ev ! 2);
               contentOffset = be_dec (slice 0 32 (ev_data ev));
               contentLength = be_dec (slice 32 64 (ev_data ev))
        in if \<not> contentOffset < 2 ^ 64 \<or> contentOffset \<noteq> 32 then Inl InvalidOffset
           else if \<not> contentLength < 2 ^ 64 \<or> contentLength > length (ev_data ev) - 64 \<or>
             contentLength + 32 \<le> length (ev_data ev) - 64 then Inl InvalidLength
           else if ev_topics ev ! 3 \<noteq> deposit_event_version0 then Inl InvalidVersion
           else unmarshal_deposit_version0
             \<lparr>dt_source_hash = user_deposit_source_hash K (ev_block_hash ev) (ev_index ev),
              dt_from = sender, dt_to = None, dt_mint = None, dt_value = 0, dt_gas = 0,
              dt_is_system = False, dt_data = []\<rparr>
             to (slice 64 (64 + contentLength) (ev_data ev)))"

section \<open>Encoding a deposit\<close>

definition fill_bytes32 :: "int \<Rightarrow> byte list" where
  "fill_bytes32 n = be_enc 32 (nat \<bar>n\<bar>)"

definition marshal_deposit_version0 :: "deposit_tx \<Rightarrow> deposit_err + byte list" where
  "marshal_deposit_version0 dep =
     rbind (case dt_mint dep of
         None \<Rightarrow> Inr (replicate 32 0)
       | Some m \<Rightarrow> if \<bar>m\<bar> \<ge> 2 ^ 256 then Inl MintTooLarge else Inr (fill_bytes32 m)) (\<lambda>mint.
       if \<bar>dt_value dep\<bar> \<ge> 2 ^ 256 then Inl ValueTooLarge
       else Inr (mint @ fill_bytes32 (dt_value dep) @ put_u64 (dt_gas dep) @
         [case dt_to dep of None \<Rightarrow> 1 | Some _ \<Rightarrow> 0] @ dt_data dep))"

definition address_as_left_padded_hash :: "byte list \<Rightarrow> hash" where
  "address_as_left_padded_hash addr = replicate 12 0 @ addr"

definition marshal_deposit_log_event ::
  "(byte list \<Rightarrow> hash) \<Rightarrow> byte list \<Rightarrow> deposit_tx \<Rightarrow> deposit_err + log_event" where
  "marshal_deposit_log_event K contract dep =
     rbind (marshal_deposit_version0 dep) (\<lambda>opaqueData.
       let data = replicate 24 0 @ put_u64 32 @
             replicate 24 0 @ put_u64 (of_nat (length opaqueData)) @ opaqueData
       in Inr \<lparr>ev_address = contract,
               ev_topics = [deposit_event_hash K, address_as_left_padded_hash (dt_from dep),
                 case dt_to dep of None \<Rightarrow> zero_hash32 | Some to \<Rightarrow> address_as_left_padded_hash to,
                 deposit_event_version0],
               ev_data = (if length data mod 32 \<noteq> 0
                          then data @ replicate (32 - length data mod 32) 0 else data),
               ev_block_hash = zero_hash32, ev_index = 0\<rparr>)"

section \<open>The deposits of a block\<close>

definition is_event_of :: "byte list \<Rightarrow> hash \<Rightarrow> log_event \<Rightarrow> bool" where
  "is_event_of contract sel ev \<longleftrightarrow>
     ev_address ev = contract \<and> ev_topics ev \<noteq> [] \<and> hd (ev_topics ev) = sel"

text \<open>The logs of the successful receipts that a contract emitted with a selector, in order.\<close>

definition contract_events :: "byte list \<Rightarrow> hash \<Rightarrow> receipt list \<Rightarrow> log_event list" where
  "contract_events contract sel receipts =
     concat (map (\<lambda>rec. if rcpt_status rec \<noteq> 1 then []
                        else filter (is_event_of contract sel) (rcpt_logs rec)) receipts)"

text \<open>The decoded deposits, and the errors of those that do not decode.\<close>

fun user_deposits_loop ::
  "(byte list \<Rightarrow> hash) \<Rightarrow> log_event list \<Rightarrow> deposit_tx list \<Rightarrow> deposit_err list \<Rightarrow>
   deposit_tx list \<times> deposit_err list" where
  "user_deposits_loop K [] out result = (out, result)"
| "user_deposits_loop K (ev # evs) out result =
     (case unmarshal_deposit_log_event K ev of
        Inl e \<Rightarrow> user_deposits_loop K evs out (result @ [e])
      | Inr dep \<Rightarrow> user_deposits_loop K evs (out @ [dep]) result)"

definition user_deposits ::
  "(byte list \<Rightarrow> hash) \<Rightarrow> receipt list \<Rightarrow> byte list \<Rightarrow> deposit_tx list \<times> deposit_err list" where
  "user_deposits K receipts contract =
     user_deposits_loop K (contract_events contract (deposit_event_hash K) receipts) [] []"

text \<open>\<open>enc\<close> is go-ethereum's encoding of a transaction; the flag says that there was an error.\<close>

definition derive_deposits ::
  "(byte list \<Rightarrow> hash) \<Rightarrow> (deposit_tx \<Rightarrow> byte list option) \<Rightarrow> receipt list \<Rightarrow> byte list \<Rightarrow>
   byte list list \<times> bool" where
  "derive_deposits K enc receipts contract =
     (case user_deposits K receipts contract of (userDeposits, errs) \<Rightarrow>
        (List.map_filter enc userDeposits, errs \<noteq> [] \<or> None \<in> set (map enc userDeposits)))"

section \<open>System configuration updates\<close>

definition config_update_event_hash :: "(byte list \<Rightarrow> hash) \<Rightarrow> hash" where
  "config_update_event_hash K = K (ascii ''ConfigUpdate(uint256,uint8,bytes)'')"

definition update_type :: "byte \<Rightarrow> hash" where
  "update_type n = replicate 31 0 @ [n]"

definition read_update_header :: "u64 \<Rightarrow> unit reader" where
  "read_update_header len r =
     rbind (read_uint64 r) (\<lambda>(pointer, r).
       if pointer \<noteq> 32 then Inl ErrUnexpectedLength
       else rbind (read_uint64 r) (\<lambda>(l, r).
         if l \<noteq> len then Inl ErrUnexpectedLength else Inr ((), r)))"

definition update_batcher :: "byte list \<Rightarrow> system_config \<Rightarrow> read_err + system_config" where
  "update_batcher data sys =
     rbind (read_update_header 32 data) (\<lambda>(_, r).
     rbind (read_address r) (\<lambda>(address, r).
       if \<not> empty_reader r then Inl ErrTooManyBytes
       else Inr (sys\<lparr>sc_batcher_addr := address\<rparr>)))"

definition update_gas_config :: "byte list \<Rightarrow> system_config \<Rightarrow> read_err + system_config" where
  "update_gas_config data sys =
     rbind (read_update_header 64 data) (\<lambda>(_, r).
     rbind (read_full 32 r) (\<lambda>(overhead, r).
     rbind (read_full 32 r) (\<lambda>(scalar, r).
       if \<not> empty_reader r then Inl ErrTooManyBytes
       else Inr (sys\<lparr>sc_overhead := overhead, sc_scalar := scalar\<rparr>))))"

definition update_gas_limit :: "byte list \<Rightarrow> system_config \<Rightarrow> read_err + system_config" where
  "update_gas_limit data sys =
     rbind (read_update_header 32 data) (\<lambda>(_, r).
     rbind (read_uint64 r) (\<lambda>(gasLimit, r).
       if \<not> empty_reader r then Inl ErrTooManyBytes
       else Inr (sys\<lparr>sc_gas_limit := gasLimit\<rparr>)))"

text \<open>Every error of a reader is reported as a malformed update.\<close>

definition malformed :: "read_err + 'a \<Rightarrow> deposit_err + 'a" where
  "malformed r = (case r of Inl _ \<Rightarrow> Inl MalformedUpdate | Inr x \<Rightarrow> Inr x)"

definition process_system_config_update ::
  "(byte list \<Rightarrow> hash) \<Rightarrow> system_config \<Rightarrow> log_event \<Rightarrow> deposit_err + system_config" where
  "process_system_config_update K sys ev =
     (if length (ev_topics ev) \<noteq> 3 then Inl (WrongTopicCount (length (ev_topics ev)))
      else if ev_topics ev ! 0 \<noteq> config_update_event_hash K then Inl InvalidSelector
      else if ev_topics ev ! 1 \<noteq> zero_hash32 then Inl InvalidVersion
      else if ev_topics ev ! 2 = update_type 0 then malformed (update_batcher (ev_data ev) sys)
      else if ev_topics ev ! 2 = update_type 1 then malformed (update_gas_config (ev_data ev) sys)
      else if ev_topics ev ! 2 = update_type 2 then malformed (update_gas_limit (ev_data ev) sys)
      else if ev_topics ev ! 2 = update_type 3 then Inr sys
      else Inl UnknownUpdateType)"

text \<open>The configuration after all updates that could be applied, and the errors of the others.\<close>

definition update_system_config ::
  "(byte list \<Rightarrow> hash) \<Rightarrow> rollup_config \<Rightarrow> receipt list \<Rightarrow> system_config \<Rightarrow>
   system_config \<times> deposit_err list" where
  "update_system_config K cfg receipts sys =
     fold (\<lambda>ev (sys, errs). case process_system_config_update K sys ev of
             Inl e \<Rightarrow> (sys, errs @ [e])
           | Inr sys' \<Rightarrow> (sys', errs))
       (contract_events (rc_l1_system_config_address cfg) (config_update_event_hash K) receipts)
       (sys, [])"

section \<open>Round trip\<close>

text \<open>
  The deposits the contract can emit: addresses of 20 bytes, amounts of at most 256 bits, a
  mint that is not zero (that is \<^verbatim>\<open>nil\<close>), no system transaction, and data that fits a log.
\<close>

definition wf_deposit :: "deposit_tx \<Rightarrow> bool" where
  "wf_deposit dep \<longleftrightarrow>
     length (dt_from dep) = 20 \<and> (\<forall>to. dt_to dep = Some to \<longrightarrow> length to = 20) \<and>
     (\<forall>m. dt_mint dep = Some m \<longrightarrow> 0 < m \<and> m < 2 ^ 256) \<and>
     0 \<le> dt_value dep \<and> dt_value dep < 2 ^ 256 \<and> \<not> dt_is_system dep \<and>
     length (dt_data dep) < 2 ^ 32"

lemma be_dec_append: "be_dec (xs @ ys) = be_dec xs * 256 ^ length ys + be_dec ys"
proof (induction ys rule: rev_induct)
  case (snoc y ys)
  then show ?case by (simp add: algebra_simps flip: append_assoc)
qed simp

lemma be_dec_zeros [simp]: "be_dec (replicate n 0) = 0"
proof (induction n)
  case (Suc n)
  have "be_dec (0 # replicate n 0) = be_dec (replicate n 0)" by (simp add: be_dec_def)
  then show ?case using Suc by simp
qed simp

lemma be_dec_put_u64 [simp]: "be_dec (put_u64 x) = unat x"
  using unat_lt [of x] by (simp add: put_u64_def be_dec_enc)

lemma be_dec_fill: "0 \<le> n \<Longrightarrow> n < 2 ^ 256 \<Longrightarrow> be_dec (fill_bytes32 n) = nat n"
proof -
  assume n: "0 \<le> n" "n < 2 ^ 256"
  then have "nat n < 256 ^ 32" by (simp add: nat_less_iff)
  then show ?thesis using n by (simp add: fill_bytes32_def be_dec_enc)
qed

lemma length_fill [simp]: "length (fill_bytes32 n) = 32"
  by (simp add: fill_bytes32_def)

lemma slice_append:
  "length xs = a \<Longrightarrow> length ys = b - a \<Longrightarrow> slice a b (xs @ ys @ zs) = ys"
  by (simp add: slice_def)

lemma marshal_version0_unmarshal:
  assumes "wf_deposit dep" "marshal_deposit_version0 dep = Inr d"
    and "to = (case dt_to dep of None \<Rightarrow> to0 | Some a \<Rightarrow> a)" "dt_to base = None"
  shows "unmarshal_deposit_version0 base to d =
      Inr (base\<lparr>dt_mint := dt_mint dep, dt_value := dt_value dep, dt_gas := dt_gas dep,
                dt_to := dt_to dep, dt_data := dt_data dep\<rparr>) \<and>
    length d = 73 + length (dt_data dep)"
proof -
  define c :: byte where "c = (case dt_to dep of None \<Rightarrow> 1 | Some _ \<Rightarrow> 0)"
  obtain m where m: "d = m @ fill_bytes32 (dt_value dep) @ put_u64 (dt_gas dep) @ [c] @ dt_data dep"
      "m = (case dt_mint dep of None \<Rightarrow> replicate 32 0 | Some k \<Rightarrow> fill_bytes32 k)"
    using assms(2) unfolding marshal_deposit_version0_def c_def
    by (auto simp: rbind_eq_Inr split: option.splits if_splits)
  have lm: "length m = 32" by (simp add: m(2) split: option.splits)
  have mint: "be_dec m = (case dt_mint dep of None \<Rightarrow> 0 | Some k \<Rightarrow> nat k)"
    using assms(1) by (auto simp: m(2) wf_deposit_def be_dec_fill split: option.splits)
  have s: "slice 0 32 d = m" "slice 32 64 d = fill_bytes32 (dt_value dep)"
      "slice 64 72 d = put_u64 (dt_gas dep)" "d ! 72 = c" "drop 73 d = dt_data dep"
    using lm by (simp_all add: m(1) slice_def nth_append)
  have v: "int (be_dec (fill_bytes32 (dt_value dep))) = dt_value dep"
    using assms(1) by (simp add: wf_deposit_def be_dec_fill)
  have g: "unat (dt_gas dep) < 2 ^ 64" using unat_lt [of "dt_gas dep"] by simp
  have k: "(if be_dec m = 0 then None else Some (int (be_dec m))) = dt_mint dep"
    using assms(1) by (auto simp: mint wf_deposit_def split: option.splits)
  have l: "length d = 73 + length (dt_data dep)" using lm by (simp add: m(1))
  then show ?thesis using g k v assms(3,4)
    by (simp add: unmarshal_deposit_version0_def Let_def s c_def split: option.splits)
qed

lemma pad32_mod:
  fixes n :: nat
  shows "(if n mod 32 \<noteq> 0 then n + (32 - n mod 32) else n) mod 32 = 0"
proof -
  obtain q r where "n = 32 * q + r" "r < 32" by (metis div_mod_decomp mod_less_divisor mult.commute zero_less_numeral)
  then have "n + (32 - n mod 32) = 32 * (q + 1)" by simp
  then show ?thesis by simp
qed

text \<open>What the encoder builds: the topics, and the data padded to a multiple of 32 bytes.\<close>

lemma marshal_event_shape:
  assumes "marshal_deposit_log_event K contract dep = Inr ev"
  obtains d pad where "marshal_deposit_version0 dep = Inr d"
    "ev_topics ev = [deposit_event_hash K, address_as_left_padded_hash (dt_from dep),
       case dt_to dep of None \<Rightarrow> zero_hash32 | Some to \<Rightarrow> address_as_left_padded_hash to,
       deposit_event_version0]"
    "ev_data ev = replicate 24 0 @ put_u64 32 @ replicate 24 0 @
       put_u64 (of_nat (length d)) @ d @ pad" "length pad < 32" "length (ev_data ev) mod 32 = 0"
proof -
  obtain d where d: "marshal_deposit_version0 dep = Inr d"
    using assms by (auto simp: marshal_deposit_log_event_def rbind_eq_Inr)
  define data where "data = replicate 24 0 @ put_u64 32 @ replicate 24 0 @
    put_u64 (of_nat (length d)) @ d"
  define pad :: "byte list" where
    "pad = (if length data mod 32 \<noteq> 0 then replicate (32 - length data mod 32) 0 else [])"
  have ev: "ev = \<lparr>ev_address = contract,
      ev_topics = [deposit_event_hash K, address_as_left_padded_hash (dt_from dep),
        case dt_to dep of None \<Rightarrow> zero_hash32 | Some to \<Rightarrow> address_as_left_padded_hash to,
        deposit_event_version0],
      ev_data = data @ pad, ev_block_hash = zero_hash32, ev_index = 0\<rparr>"
    using assms unfolding marshal_deposit_log_event_def d rbind_simps Let_def
      data_def [symmetric] pad_def by (auto simp: Let_def)
  have "length (data @ pad) mod 32 = 0"
    using pad32_mod [of "length data"] by (auto simp: pad_def split: if_splits)
  moreover have "length pad < 32" by (simp add: pad_def)
  ultimately show ?thesis using that [OF d, of pad] by (simp add: ev data_def)
qed

text \<open>C22. A deposit event is decoded to the deposit that it encodes: for every deposit the contract
  can emit, with a mint or not and creating a contract or not, \<^verbatim>\<open>UnmarshalDepositLogEvent\<close>
  reads back all its fields from the event \<^verbatim>\<open>MarshalDepositLogEvent\<close> builds, whatever the
  padding, and sets the source hash to that of the log's block and index.\<close>

theorem deposit_roundtrip:
  assumes "wf_deposit dep" "marshal_deposit_log_event K contract dep = Inr ev"
  shows "unmarshal_deposit_log_event K (ev\<lparr>ev_block_hash := bh, ev_index := i\<rparr>) =
    Inr (dep\<lparr>dt_source_hash := user_deposit_source_hash K bh i\<rparr>)"
proof -
  obtain d pad where d: "marshal_deposit_version0 dep = Inr d"
    and ev: "ev_topics ev = [deposit_event_hash K, address_as_left_padded_hash (dt_from dep),
        case dt_to dep of None \<Rightarrow> zero_hash32 | Some to \<Rightarrow> address_as_left_padded_hash to,
        deposit_event_version0]"
    and pad: "ev_data ev = replicate 24 0 @ put_u64 32 @ replicate 24 0 @
        put_u64 (of_nat (length d)) @ d @ pad" "length pad < 32" "length (ev_data ev) mod 32 = 0"
    using assms(2) by (rule marshal_event_shape)
  define to where "to = (case dt_to dep of None \<Rightarrow> drop 12 zero_hash32 | Some a \<Rightarrow> a)"
  let ?base = "\<lparr>dt_source_hash = user_deposit_source_hash K bh i, dt_from = dt_from dep,
    dt_to = None, dt_mint = None, dt_value = 0, dt_gas = 0, dt_is_system = False, dt_data = []\<rparr>"
  have u: "unmarshal_deposit_version0 ?base to d =
      Inr (?base\<lparr>dt_mint := dt_mint dep, dt_value := dt_value dep, dt_gas := dt_gas dep,
                dt_to := dt_to dep, dt_data := dt_data dep\<rparr>)"
    and len: "length d = 73 + length (dt_data dep)"
    using marshal_version0_unmarshal [OF assms(1) d to_def, of ?base] by simp_all
  have "length d < 2 ^ 64" using assms(1) len by (simp add: wf_deposit_def)
  then have n: "unat (of_nat (length d) :: u64) = length d" by (simp add: unat_of_nat)
  have s: "be_dec (slice 0 32 (ev_data ev)) = 32"
      "be_dec (slice 32 64 (ev_data ev)) = length d"
      "slice 64 (64 + length d) (ev_data ev) = d"
    using n by (simp_all add: pad(1) slice_def be_dec_append)
  have l: "length (ev_data ev) = 64 + length d + length pad" by (simp add: pad(1))
  have t: "drop 12 (ev_topics ev ! 1) = dt_from dep" "drop 12 (ev_topics ev ! 2) = to"
    by (simp_all add: ev to_def address_as_left_padded_hash_def split: option.splits)
  have "unmarshal_deposit_log_event K (ev\<lparr>ev_block_hash := bh, ev_index := i\<rparr>) =
      unmarshal_deposit_version0 ?base to d"
    using pad(2,3) l n \<open>length d < 2 ^ 64\<close>
    by (simp add: unmarshal_deposit_log_event_def Let_def s t)
      (simp add: ev address_as_left_padded_hash_def)
  also have "\<dots> = Inr (dep\<lparr>dt_source_hash := user_deposit_source_hash K bh i\<rparr>)"
    using assms(1) unfolding u by (cases dep) (simp add: wf_deposit_def)
  finally show ?thesis .
qed

definition demo_deposit :: deposit_tx where
  "demo_deposit = \<lparr>dt_source_hash = [], dt_from = replicate 20 1, dt_to = Some (replicate 20 2),
     dt_mint = Some 5, dt_value = 3, dt_gas = 21000, dt_is_system = False, dt_data = [1, 2, 3]\<rparr>"

theorem deposit_roundtrip_witness:
  "\<exists>ev. marshal_deposit_log_event (\<lambda>_. zero_hash32) (replicate 20 6) demo_deposit = Inr ev \<and>
     unmarshal_deposit_log_event (\<lambda>_. zero_hash32) (ev\<lparr>ev_block_hash := zero_hash32, ev_index := 4\<rparr>) =
       Inr (demo_deposit\<lparr>dt_source_hash := zero_hash32\<rparr>)"
proof -
  have "\<exists>ev. marshal_deposit_log_event (\<lambda>_. zero_hash32) (replicate 20 6) demo_deposit = Inr ev"
    by (simp add: marshal_deposit_log_event_def marshal_deposit_version0_def demo_deposit_def Let_def)
  then obtain ev where ev: "marshal_deposit_log_event (\<lambda>_. zero_hash32) (replicate 20 6) demo_deposit = Inr ev" ..
  have "wf_deposit demo_deposit" by (simp add: wf_deposit_def demo_deposit_def)
  from deposit_roundtrip [OF this ev, of 4 zero_hash32] ev show ?thesis
    by (intro exI [of _ ev]) (simp add: user_deposit_source_hash_def domain_hash_def)
qed

end
