(* ===== verification/Derive_Batch.thy ===== *)
theory Derive_Batch
  imports Derive_Deposit
begin

text \<open>
  Batches and the rules a batch has to satisfy
  (\<^verbatim>\<open>bl-node/rollup/derive/{singular_batch,span_batch,batches,payload_util,l2block_util}.go\<close>).
  Slices that are indexed out of range and divisions by zero panic in Go: the checker's result
  is a verdict or a panic. The L2 node and go-ethereum's decoding of transactions are
  parameters.
\<close>

section \<open>Batches\<close>

record singular_batch =
  sb_parent_hash :: hash
  sb_epoch_num :: u64
  sb_epoch_hash :: hash
  sb_timestamp :: u64
  sb_transactions :: "byte list list"

record span_element =
  se_epoch_num :: u64
  se_timestamp :: u64
  se_transactions :: "byte list list"

record span_batch =
  sp_parent_check :: "byte list"
  sp_l1_origin_check :: "byte list"
  sp_batches :: "span_element list"

datatype batch = Singular singular_batch | Span span_batch

datatype validity = BatchDrop | BatchAccept | BatchUndecided | BatchFuture

text \<open>The accessors of a span batch; the first block's are undefined (a panic) on an empty span.\<close>

definition span_timestamp :: "span_batch \<Rightarrow> u64" where
  "span_timestamp b = se_timestamp (sp_batches b ! 0)"

definition span_start_epoch :: "span_batch \<Rightarrow> u64" where
  "span_start_epoch b = se_epoch_num (sp_batches b ! 0)"

definition span_block_epoch :: "span_batch \<Rightarrow> nat \<Rightarrow> u64" where
  "span_block_epoch b i = se_epoch_num (sp_batches b ! i)"

definition span_block_timestamp :: "span_batch \<Rightarrow> nat \<Rightarrow> u64" where
  "span_block_timestamp b i = se_timestamp (sp_batches b ! i)"

definition span_block_transactions :: "span_batch \<Rightarrow> nat \<Rightarrow> byte list list" where
  "span_block_transactions b i = se_transactions (sp_batches b ! i)"

definition span_block_count :: "span_batch \<Rightarrow> nat" where
  "span_block_count b = length (sp_batches b)"

definition check_origin_hash :: "span_batch \<Rightarrow> hash \<Rightarrow> bool" where
  "check_origin_hash b h \<longleftrightarrow> sp_l1_origin_check b = take 20 h"

definition check_parent_hash :: "span_batch \<Rightarrow> hash \<Rightarrow> bool" where
  "check_parent_hash b h \<longleftrightarrow> sp_parent_check b = take 20 h"

section \<open>L2 blocks and their L1 origin\<close>

text \<open>The fields of an execution payload that are used. Withdrawals are absent before Canyon.\<close>

record withdrawal =
  wd_index :: u64
  wd_validator :: u64
  wd_address :: "byte list"
  wd_amount :: u64

record payload =
  pl_parent_hash :: hash
  pl_prev_randao :: hash
  pl_block_number :: u64
  pl_gas_limit :: u64
  pl_timestamp :: u64
  pl_block_hash :: hash
  pl_withdrawals :: "withdrawal list option"
  pl_transactions :: "byte list list"

datatype ref_err =
  GenesisHashMismatch | MissingInfoTx | UndecodableTx | NotDepositTx | BadL1Info

definition deposit_tx_type :: byte where "deposit_tx_type = 126"

text \<open>\<open>txdec\<close> decodes a transaction to its type and data, \<open>sig\<close> selects \<^verbatim>\<open>setL1BlockValues\<close>.\<close>

record l2_env =
  env_txdec :: "byte list \<Rightarrow> (byte \<times> byte list) option"
  env_sig :: "byte list"
  env_l2_ref :: "u64 \<Rightarrow> l2_ref option"
  env_payload :: "u64 \<Rightarrow> payload option"

definition info_of_deposit :: "byte list \<Rightarrow> byte \<times> byte list \<Rightarrow> ref_err + l1_block_info" where
  "info_of_deposit sig tx =
     (if fst tx \<noteq> deposit_tx_type then Inl NotDepositTx
      else case unmarshal_l1_info sig (snd tx) of Inl _ \<Rightarrow> Inl BadL1Info | Inr info \<Rightarrow> Inr info)"

definition info_of_payload :: "l2_env \<Rightarrow> payload \<Rightarrow> ref_err + l1_block_info" where
  "info_of_payload env pl =
     (case pl_transactions pl of
        [] \<Rightarrow> Inl MissingInfoTx
      | tx # _ \<Rightarrow>
          (case env_txdec env tx of
             None \<Rightarrow> Inl UndecodableTx
           | Some t \<Rightarrow> info_of_deposit (env_sig env) t))"

definition payload_to_block_ref :: "l2_env \<Rightarrow> genesis \<Rightarrow> payload \<Rightarrow> ref_err + l2_ref" where
  "payload_to_block_ref env gen pl =
     rbind
       (if pl_block_number pl = bid_number (gen_l2 gen)
        then if pl_block_hash pl \<noteq> bid_hash (gen_l2 gen) then Inl GenesisHashMismatch
          else Inr (gen_l1 gen, 0)
        else rbind (info_of_payload env pl) (\<lambda>info.
          Inr (\<lparr>bid_hash = li_block_hash info, bid_number = li_number info\<rparr>, li_sequence_number info)))
       (\<lambda>(l1Origin, sequenceNumber).
         Inr \<lparr>l2_hash = pl_block_hash pl, l2_number = pl_block_number pl,
              l2_parent_hash = pl_parent_hash pl, l2_time = pl_timestamp pl,
              l2_l1_origin = l1Origin, l2_sequence_number = sequenceNumber\<rparr>)"

definition payload_to_system_config :: "l2_env \<Rightarrow> genesis \<Rightarrow> payload \<Rightarrow> ref_err + system_config" where
  "payload_to_system_config env gen pl =
     (if pl_block_number pl = bid_number (gen_l2 gen)
      then if pl_block_hash pl \<noteq> bid_hash (gen_l2 gen) then Inl GenesisHashMismatch
        else Inr (gen_system_config gen)
      else rbind (info_of_payload env pl) (\<lambda>info.
        Inr \<lparr>sc_batcher_addr = li_batcher_addr info, sc_overhead = li_l1_fee_overhead info,
             sc_scalar = li_l1_fee_scalar info, sc_gas_limit = pl_gas_limit pl\<rparr>))"

text \<open>The same reference read from a block whose transactions are decoded already.\<close>

record l2_block =
  blk_hash :: hash
  blk_parent_hash :: hash
  blk_number :: u64
  blk_time :: u64
  blk_transactions :: "(byte \<times> byte list) list"

definition l2_block_to_block_ref :: "byte list \<Rightarrow> genesis \<Rightarrow> l2_block \<Rightarrow> ref_err + l2_ref" where
  "l2_block_to_block_ref sig gen blk =
     rbind
       (if blk_number blk = bid_number (gen_l2 gen)
        then if blk_hash blk \<noteq> bid_hash (gen_l2 gen) then Inl GenesisHashMismatch
          else Inr (gen_l1 gen, 0)
        else case blk_transactions blk of
            [] \<Rightarrow> Inl MissingInfoTx
          | tx # _ \<Rightarrow> rbind (info_of_deposit sig tx) (\<lambda>info.
              Inr (\<lparr>bid_hash = li_block_hash info, bid_number = li_number info\<rparr>,
                   li_sequence_number info)))
       (\<lambda>(l1Origin, sequenceNumber).
         Inr \<lparr>l2_hash = blk_hash blk, l2_number = blk_number blk,
              l2_parent_hash = blk_parent_hash blk, l2_time = blk_time blk,
              l2_l1_origin = l1Origin, l2_sequence_number = sequenceNumber\<rparr>)"

section \<open>Rules for singular batches\<close>

definition txs_ok :: "byte list list \<Rightarrow> bool" where
  "txs_ok txs \<longleftrightarrow> list_all (\<lambda>tx. tx \<noteq> [] \<and> hd tx \<noteq> deposit_tx_type) txs"

definition singular_origin :: "l1_ref list \<Rightarrow> u64 \<Rightarrow> validity + l1_ref" where
  "singular_origin l1Blocks epochNum =
     (let epoch = l1Blocks ! 0 in
      if epochNum < l1_number epoch then Inl BatchDrop
      else if epochNum = l1_number epoch then Inr epoch
      else if epochNum = l1_number epoch + 1 then
        if length l1Blocks < 2 then Inl BatchUndecided else Inr (l1Blocks ! 1)
      else Inl BatchDrop)"

text \<open>The sequencer drift: past it only empty batches, and only as long as the next origin is late.\<close>

definition singular_drift ::
  "rollup_config \<Rightarrow> l1_ref list \<Rightarrow> l1_ref \<Rightarrow> singular_batch \<Rightarrow> validity + unit" where
  "singular_drift cfg l1Blocks batchOrigin b =
     (if \<not> sb_timestamp b > l1_time batchOrigin + rc_max_sequencer_drift cfg then Inr ()
      else if sb_transactions b \<noteq> [] then Inl BatchDrop
      else if l1_number (l1Blocks ! 0) \<noteq> l1_number batchOrigin then Inr ()
      else if length l1Blocks < 2 then Inl BatchUndecided
      else if sb_timestamp b \<ge> l1_time (l1Blocks ! 1) then Inl BatchDrop
      else Inr ())"

definition check_singular_batch ::
  "rollup_config \<Rightarrow> l1_ref list \<Rightarrow> l2_ref \<Rightarrow> singular_batch \<Rightarrow> l1_ref \<Rightarrow> validity" where
  "check_singular_batch cfg l1Blocks safe b inclusion =
     (let nextTimestamp = l2_time safe + rc_block_time cfg in
      if l1Blocks = [] then BatchUndecided
      else if sb_timestamp b > nextTimestamp then BatchFuture
      else if sb_timestamp b < nextTimestamp then BatchDrop
      else if sb_parent_hash b \<noteq> l2_hash safe then BatchDrop
      else if sb_epoch_num b + rc_seq_window_size cfg < l1_number inclusion then BatchDrop
      else case singular_origin l1Blocks (sb_epoch_num b) of
          Inl v \<Rightarrow> v
        | Inr batchOrigin \<Rightarrow>
            if sb_epoch_hash b \<noteq> l1_hash batchOrigin then BatchDrop
            else if sb_timestamp b < l1_time batchOrigin then BatchDrop
            else case singular_drift cfg l1Blocks batchOrigin b of
                Inl v \<Rightarrow> v
              | Inr _ \<Rightarrow> if \<not> txs_ok (sb_transactions b) then BatchDrop else BatchAccept)"

section \<open>Rules for span batches\<close>

datatype outcome = Verdict validity | CheckPanic

type_synonym 'a check = "outcome + 'a"

definition require :: "bool \<Rightarrow> validity \<Rightarrow> unit check" where
  "require c v = (if c then Inr () else Inl (Verdict v))"

definition span_origin :: "l1_ref list \<Rightarrow> u64 \<Rightarrow> l1_ref check" where
  "span_origin l1Blocks startEpoch =
     (if startEpoch = l1_number (l1Blocks ! 0) + 1 then
        if length l1Blocks < 2 then Inl (Verdict BatchUndecided) else Inr (l1Blocks ! 1)
      else Inr (l1Blocks ! 0))"

text \<open>The parent of the span: the safe head, or an ancestor of it if the span overlaps it.\<close>

definition span_parent ::
  "l2_env \<Rightarrow> rollup_config \<Rightarrow> l2_ref \<Rightarrow> span_batch \<Rightarrow> (u64 \<times> l2_ref) check" where
  "span_parent env cfg safe b =
     (let ts = span_timestamp b in
      if \<not> ts < l2_time safe + rc_block_time cfg then Inr (l2_number safe, safe)
      else if ts > l2_time safe then Inl (Verdict BatchDrop)
      else if rc_block_time cfg = 0 then Inl CheckPanic
      else if (l2_time safe - ts) mod rc_block_time cfg \<noteq> 0 then Inl (Verdict BatchDrop)
      else let parentNum = l2_number safe - (l2_time safe - ts) div rc_block_time cfg - 1
        in case env_l2_ref env parentNum of
            None \<Rightarrow> Inl (Verdict BatchUndecided)
          | Some parentBlock \<Rightarrow> Inr (parentNum, parentBlock))"

text \<open>The last block's origin: the first L1 block of its number has to match the origin check.\<close>

definition span_end_origin :: "l1_ref list \<Rightarrow> span_batch \<Rightarrow> unit check" where
  "span_end_origin l1Blocks b =
     (case List.find (\<lambda>l1. l1_number l1 = span_block_epoch b (span_block_count b - 1)) l1Blocks of
        None \<Rightarrow> Inl (Verdict BatchUndecided)
      | Some l1 \<Rightarrow> require (check_origin_hash b (l1_hash l1)) BatchDrop)"

definition span_epochs ::
  "rollup_config \<Rightarrow> l1_ref list \<Rightarrow> l2_ref \<Rightarrow> span_batch \<Rightarrow> l1_ref \<Rightarrow> unit check" where
  "span_epochs cfg l1Blocks parentBlock b inclusion =
     rbind (require (check_parent_hash b (l2_hash parentBlock)) BatchDrop) (\<lambda>_.
     rbind (require (\<not> span_start_epoch b + rc_seq_window_size cfg < l1_number inclusion) BatchDrop) (\<lambda>_.
     rbind (require (\<not> span_start_epoch b > bid_number (l2_l1_origin parentBlock) + 1) BatchDrop) (\<lambda>_.
     rbind (span_end_origin l1Blocks b) (\<lambda>_.
       require (\<not> span_start_epoch b < bid_number (l2_l1_origin parentBlock)) BatchDrop))))"

text \<open>The first L1 block from index \<open>j\<close> on with a number.\<close>

definition find_origin :: "l1_ref list \<Rightarrow> nat \<Rightarrow> u64 \<Rightarrow> nat option" where
  "find_origin l1Blocks j num = List.find (\<lambda>k. l1_number (l1Blocks ! k) = num) [j..<length l1Blocks]"

definition span_drift ::
  "rollup_config \<Rightarrow> l1_ref list \<Rightarrow> nat \<Rightarrow> bool \<Rightarrow> l1_ref \<Rightarrow> span_element \<Rightarrow> unit check" where
  "span_drift cfg l1Blocks originIdx originAdvanced l1Origin el =
     (if \<not> se_timestamp el > l1_time l1Origin + rc_max_sequencer_drift cfg then Inr ()
      else if se_transactions el \<noteq> [] then Inl (Verdict BatchDrop)
      else if originAdvanced then Inr ()
      else if originIdx + 1 \<ge> length l1Blocks then Inl (Verdict BatchUndecided)
      else require (\<not> se_timestamp el \<ge> l1_time (l1Blocks ! (originIdx + 1))) BatchDrop)"

text \<open>One block of the span. An origin that is not found is the zero reference.\<close>

definition check_span_block ::
  "rollup_config \<Rightarrow> l1_ref list \<Rightarrow> l2_ref \<Rightarrow> span_batch \<Rightarrow> nat \<Rightarrow> nat \<times> bool \<Rightarrow> (nat \<times> bool) check" where
  "check_span_block cfg l1Blocks safe b i st =
     (let el = sp_batches b ! i in
      if se_timestamp el \<le> l2_time safe then Inr st
      else let (l1Origin, originIdx) =
                 (case find_origin l1Blocks (fst st) (se_epoch_num el) of
                    None \<Rightarrow> (zero_l1_ref, fst st)
                  | Some j \<Rightarrow> (l1Blocks ! j, j));
               originAdvanced =
                 (if i > 0 then span_block_epoch b i > span_block_epoch b (i - 1) else snd st)
        in rbind (require (\<not> se_timestamp el < l1_time l1Origin) BatchDrop) (\<lambda>_.
           rbind (span_drift cfg l1Blocks originIdx originAdvanced l1Origin el) (\<lambda>_.
           rbind (require (txs_ok (se_transactions el)) BatchDrop) (\<lambda>_.
             Inr (originIdx, originAdvanced)))))"

fun span_blocks_loop ::
  "rollup_config \<Rightarrow> l1_ref list \<Rightarrow> l2_ref \<Rightarrow> span_batch \<Rightarrow> nat list \<Rightarrow> nat \<times> bool \<Rightarrow> (nat \<times> bool) check" where
  "span_blocks_loop cfg l1Blocks safe b [] st = Inr st"
| "span_blocks_loop cfg l1Blocks safe b (i # is) st =
     rbind (check_span_block cfg l1Blocks safe b i st) (span_blocks_loop cfg l1Blocks safe b is)"

text \<open>A block the span repeats has to be the safe one: the same transactions after its deposits,
  the same origin.\<close>

definition deposit_count :: "byte list list \<Rightarrow> nat check" where
  "deposit_count txs =
     (if [] \<in> set txs then Inl CheckPanic
      else Inr (length (filter (\<lambda>tx. hd tx = deposit_tx_type) txs)))"

definition check_overlapped_block ::
  "l2_env \<Rightarrow> rollup_config \<Rightarrow> span_batch \<Rightarrow> u64 \<Rightarrow> nat \<Rightarrow> unit check" where
  "check_overlapped_block env cfg b parentNum i =
     (case env_payload env (parentNum + of_nat i + 1) of
        None \<Rightarrow> Inl (Verdict BatchUndecided)
      | Some pl \<Rightarrow>
          if \<not> i < span_block_count b then Inl CheckPanic
          else rbind (deposit_count (pl_transactions pl)) (\<lambda>depositCount.
            rbind (require (drop depositCount (pl_transactions pl) = span_block_transactions b i)
                BatchDrop) (\<lambda>_.
              case payload_to_block_ref env (rc_genesis cfg) pl of
                Inl _ \<Rightarrow> Inl (Verdict BatchDrop)
              | Inr ref \<Rightarrow>
                  require (bid_number (l2_l1_origin ref) = span_block_epoch b i) BatchDrop)))"

fun overlap_loop ::
  "l2_env \<Rightarrow> rollup_config \<Rightarrow> span_batch \<Rightarrow> u64 \<Rightarrow> nat list \<Rightarrow> unit check" where
  "overlap_loop env cfg b parentNum [] = Inr ()"
| "overlap_loop env cfg b parentNum (i # is) =
     rbind (check_overlapped_block env cfg b parentNum i) (\<lambda>_. overlap_loop env cfg b parentNum is)"

definition span_prechecks ::
  "rollup_config \<Rightarrow> l1_ref list \<Rightarrow> l2_ref \<Rightarrow> span_batch \<Rightarrow> unit check" where
  "span_prechecks cfg l1Blocks safe b =
     rbind (require (l1Blocks \<noteq> []) BatchUndecided) (\<lambda>_.
     rbind (if sp_batches b = [] then Inl CheckPanic else Inr ()) (\<lambda>_.
     rbind (span_origin l1Blocks (span_start_epoch b)) (\<lambda>batchOrigin.
     rbind (require (is_span_batch cfg (l1_time batchOrigin)) BatchDrop) (\<lambda>_.
     rbind (require (\<not> span_timestamp b > l2_time safe + rc_block_time cfg) BatchFuture) (\<lambda>_.
       require (\<not> span_block_timestamp b (span_block_count b - 1) < l2_time safe + rc_block_time cfg)
         BatchDrop)))))"

definition check_span_rules ::
  "l2_env \<Rightarrow> rollup_config \<Rightarrow> l1_ref list \<Rightarrow> l2_ref \<Rightarrow> span_batch \<Rightarrow> l1_ref \<Rightarrow> unit check" where
  "check_span_rules env cfg l1Blocks safe b inclusion =
     rbind (span_prechecks cfg l1Blocks safe b) (\<lambda>_.
     rbind (span_parent env cfg safe b) (\<lambda>(parentNum, parentBlock).
     rbind (span_epochs cfg l1Blocks parentBlock b inclusion) (\<lambda>_.
     rbind (span_blocks_loop cfg l1Blocks safe b [0..<span_block_count b]
              (0, span_start_epoch b = bid_number (l2_l1_origin parentBlock) + 1)) (\<lambda>_.
       if span_timestamp b < l2_time safe + rc_block_time cfg
       then overlap_loop env cfg b parentNum [0..<unat (l2_number safe - parentNum)]
       else Inr ()))))"

definition check_span_batch ::
  "l2_env \<Rightarrow> rollup_config \<Rightarrow> l1_ref list \<Rightarrow> l2_ref \<Rightarrow> span_batch \<Rightarrow> l1_ref \<Rightarrow> outcome" where
  "check_span_batch env cfg l1Blocks safe b inclusion =
     (case check_span_rules env cfg l1Blocks safe b inclusion of
        Inl out \<Rightarrow> out
      | Inr _ \<Rightarrow> Verdict BatchAccept)"

definition check_batch ::
  "l2_env \<Rightarrow> rollup_config \<Rightarrow> l1_ref list \<Rightarrow> l2_ref \<Rightarrow> batch \<Rightarrow> l1_ref \<Rightarrow> outcome" where
  "check_batch env cfg l1Blocks safe b inclusion =
     (case b of
        Singular s \<Rightarrow> Verdict (check_singular_batch cfg l1Blocks safe s inclusion)
      | Span s \<Rightarrow> check_span_batch env cfg l1Blocks safe s inclusion)"

section \<open>From spans to singular batches\<close>

text \<open>The new blocks of a span with the hash of their origin, the parent hash still unset.\<close>

fun singulars_loop ::
  "l1_ref list \<Rightarrow> l2_ref \<Rightarrow> span_element list \<Rightarrow> nat \<Rightarrow> u64 + singular_batch list" where
  "singulars_loop l1Origins safe [] originIdx = Inr []"
| "singulars_loop l1Origins safe (el # els) originIdx =
     (if se_timestamp el \<le> l2_time safe then singulars_loop l1Origins safe els originIdx
      else case find_origin l1Origins originIdx (se_epoch_num el) of
          None \<Rightarrow> Inl (se_epoch_num el)
        | Some i \<Rightarrow>
            rbind (singulars_loop l1Origins safe els i) (\<lambda>rest.
              Inr (\<lparr>sb_parent_hash = zero_hash32, sb_epoch_num = se_epoch_num el,
                    sb_epoch_hash = l1_hash (l1Origins ! i), sb_timestamp = se_timestamp el,
                    sb_transactions = se_transactions el\<rparr> # rest)))"

definition get_singular_batches ::
  "span_batch \<Rightarrow> l1_ref list \<Rightarrow> l2_ref \<Rightarrow> u64 + singular_batch list" where
  "get_singular_batches b l1Origins safe = singulars_loop l1Origins safe (sp_batches b) 0"

end
