(* ===== verification/Derive_Bits.thy ===== *)
theory Derive_Bits
  imports Derive_Frame
begin

text \<open>
  The two encodings of numbers that span batches use: variable-length integers
  (\<^verbatim>\<open>encoding/binary\<close>'s \<^verbatim>\<open>PutUvarint\<close> and \<^verbatim>\<open>ReadUvarint\<close>) and bit lists padded to whole bytes, the
  loops that \<^verbatim>\<open>span_batch.go\<close> and \<^verbatim>\<open>span_batch_txs.go\<close> have for origin bits, contract creation
  bits and y-parity bits. A \<^verbatim>\<open>big.Int\<close> of bits is an \<^typ>\<open>int\<close>.
\<close>

section \<open>Variable-length integers\<close>

function put_uvarint :: "u64 \<Rightarrow> byte list" where
  "put_uvarint x =
     (if x < 128 then [ucast x] else (ucast x OR 128) # put_uvarint (drop_bit 7 x))"
  by pat_completeness auto
termination
proof (relation "measure unat")
  fix x :: u64
  assume "\<not> x < 128"
  then have "unat x \<ge> 128" by (simp add: word_less_nat_alt)
  then show "(drop_bit 7 x, x) \<in> measure unat" by (simp add: unat_drop_bit)
qed simp

declare put_uvarint.simps [simp del]

text \<open>\<^verbatim>\<open>ReadUvarint\<close>: \<open>i\<close> counts the bytes read, at most ten, the tenth at most one.\<close>

fun read_uvarint_from :: "nat \<Rightarrow> u64 \<Rightarrow> byte list \<Rightarrow> read_err + u64 \<times> byte list" where
  "read_uvarint_from i x [] =
     Inl (if i \<ge> 10 then ErrUvarintOverflow else if i > 0 then ErrUnexpectedEOF else ErrEOF)"
| "read_uvarint_from i x (b # r) =
     (if i \<ge> 10 then Inl ErrUvarintOverflow
      else if b < 128 then
        if i = 9 \<and> b > 1 then Inl ErrUvarintOverflow
        else Inr (x OR push_bit (7 * i) (ucast b), r)
      else read_uvarint_from (i + 1) (x OR push_bit (7 * i) (ucast (b AND 127))) r)"

definition read_uvarint :: "u64 reader" where
  "read_uvarint r = read_uvarint_from 0 0 r"

lemma uvarint_step:
  fixes x y :: u64
  shows "(x OR push_bit s (ucast ((ucast y OR 128 :: byte) AND 127))) OR push_bit (s + 7) (drop_bit 7 y) =
    x OR push_bit s y"
proof (rule bit_eqI)
  fix n
  assume "possible_bit TYPE(u64) n"
  have m: "bit (127 :: int) k \<longleftrightarrow> k < 7" and h: "bit (128 :: int) k \<longleftrightarrow> k = 7" for k
    using bit_mask_iff [where 'a = int, of 7 k] bit_exp_iff [where 'a = int, of 7 k]
    by (auto simp: mask_eq_exp_minus_1)
  show "bit ((x OR push_bit s (ucast ((ucast y OR 128 :: byte) AND 127))) OR
      push_bit (s + 7) (drop_bit 7 y)) n = bit (x OR push_bit s y) n"
    by (cases "n < s + 7") (auto simp: bit_simps m h)
qed

lemma byte_high_bit: "(w :: byte) < 128 \<Longrightarrow> \<not> bit w 7"
proof -
  assume "w < 128"
  then have "take_bit 7 w = w"
    by (simp add: word_unat_eq_iff word_less_nat_alt unsigned_take_bit_eq take_bit_nat_eq_self)
  then show ?thesis by (metis bit_take_bit_iff less_irrefl)
qed

lemma read_put_uvarint_from:
  "i \<le> 9 \<Longrightarrow> unat y < 2 ^ (64 - 7 * i) \<Longrightarrow>
   read_uvarint_from i x (put_uvarint y @ rest) = Inr (x OR push_bit (7 * i) y, rest)"
proof (induction y arbitrary: i x rule: put_uvarint.induct)
  case (1 y)
  show ?case
  proof (cases "y < 128")
    case True
    have "unat (ucast y :: byte) = unat y"
      using True by (simp add: unsigned_ucast_eq word_less_nat_alt take_bit_nat_eq_self)
    moreover from this have u: "ucast (ucast y :: byte) = y"
      by (simp add: word_unat_eq_iff unsigned_ucast_eq unsigned_take_bit_eq take_bit_nat_eq_self)
    ultimately have "(ucast y :: byte) < 128" "i = 9 \<Longrightarrow> \<not> (ucast y :: byte) > 1"
      using True 1(3) by (simp_all add: word_less_nat_alt)
    with u show ?thesis using True 1(2) by (subst put_uvarint.simps) simp
  next
    case False
    have y: "128 \<le> unat y" using False by (simp add: word_less_nat_alt)
    have i: "i < 9"
    proof (rule ccontr)
      assume "\<not> i < 9"
      then have "i = 9" using 1(2) by simp
      then show False using y 1(3) by simp
    qed
    have "(2 :: nat) ^ (64 - 7 * i) = 2 ^ 7 * 2 ^ (64 - 7 * (i + 1))"
    proof -
      have "64 - 7 * i = 7 + (64 - 7 * (i + 1))" using i by simp
      then show ?thesis by (metis power_add)
    qed
    then have small: "unat (drop_bit 7 y) < 2 ^ (64 - 7 * (i + 1))"
      using 1(3) by (simp add: unat_drop_bit less_mult_imp_div_less mult.commute)
    have big: "\<not> (ucast y OR 128 :: byte) < 128"
    proof -
      have "bit (ucast y OR 128 :: byte) 7"
        using bit_exp_iff [where 'a = byte, of 7 7] by (simp add: bit_or_iff)
      then show ?thesis using byte_high_bit by blast
    qed
    have "read_uvarint_from i x (put_uvarint y @ rest) =
        read_uvarint_from (i + 1) (x OR push_bit (7 * i) (ucast ((ucast y OR 128 :: byte) AND 127)))
          (put_uvarint (drop_bit 7 y) @ rest)"
      using False i big by (subst put_uvarint.simps) simp
    also have "\<dots> = Inr ((x OR push_bit (7 * i) (ucast ((ucast y OR 128 :: byte) AND 127))) OR
        push_bit (7 * (i + 1)) (drop_bit 7 y), rest)"
      using i small by (intro 1(1) [OF False]) simp_all
    also have "\<dots> = Inr (x OR push_bit (7 * i) y, rest)"
      using uvarint_step [of x "7 * i" y] by (simp add: add.commute)
    finally show ?thesis .
  qed
qed

lemma read_put_uvarint: "read_uvarint (put_uvarint y @ rest) = Inr (y, rest)"
  using read_put_uvarint_from [of 0 y 0 rest] unat_lt [of y] by (simp add: read_uvarint_def)

interpretation uvarint: codec put_uvarint read_uvarint "\<lambda>_. True"
  by unfold_locales (simp_all only: read_put_uvarint, simp add: put_uvarint.simps)

section \<open>Bit lists\<close>

definition max_span_batch_size :: u64 where "max_span_batch_size = 10000000"

definition bit_buffer_len :: "u64 \<Rightarrow> u64" where
  "bit_buffer_len count = count div 8 + (if count mod 8 \<noteq> 0 then 1 else 0)"

text \<open>The end of a group: never below the count, so that every group runs to the end of the list.\<close>

definition group_end :: "nat \<Rightarrow> nat \<Rightarrow> nat" where
  "group_end i count = (let e = i + 8 in if e < count then count else e)"

definition encode_bit_group :: "int \<Rightarrow> nat \<Rightarrow> nat \<Rightarrow> byte" where
  "encode_bit_group b count i =
     ucast (fold (\<lambda>j bits. bits OR push_bit (j - i) (of_bool (bit b j)))
       [i..<group_end i count] (0 :: u64))"

definition encode_bits :: "u64 \<Rightarrow> int \<Rightarrow> byte list" where
  "encode_bits count b =
     map (\<lambda>k. encode_bit_group b (unat count) (8 * k)) [0..<unat (bit_buffer_len count)]"

definition decode_bit_group :: "byte \<Rightarrow> nat \<Rightarrow> nat \<Rightarrow> int \<Rightarrow> int" where
  "decode_bit_group bits count i acc =
     fold (\<lambda>j acc. if bit bits (j - i) then set_bit j acc else unset_bit j acc)
       [i..<group_end i count] acc"

definition decode_bits :: "u64 \<Rightarrow> byte list \<Rightarrow> int" where
  "decode_bits count buf =
     fold (\<lambda>k acc. decode_bit_group (buf ! k) (unat count) (8 * k) acc)
       [0..<unat (bit_buffer_len count)] 0"

definition read_bits :: "u64 \<Rightarrow> int reader" where
  "read_bits count r =
     (if bit_buffer_len count > max_span_batch_size then Inl ErrTooBigSpanBatchSize
      else rbind (read_full (unat (bit_buffer_len count)) r) (\<lambda>(buf, r).
        Inr (decode_bits count buf, r)))"

text \<open>The lists that fit their buffer.\<close>

definition wf_bits :: "u64 \<Rightarrow> int \<Rightarrow> bool" where
  "wf_bits count b \<longleftrightarrow> 0 \<le> b \<and> b < 2 ^ (8 * unat (bit_buffer_len count))"

lemma group_end_ge: "i + 8 \<le> group_end i count"
  by (simp add: group_end_def Let_def)

lemma bit_fold_or:
  fixes acc :: u64
  shows "bit (fold (\<lambda>j bits. bits OR f j) js acc) n \<longleftrightarrow> bit acc n \<or> (\<exists>j \<in> set js. bit (f j) n)"
  by (induction js arbitrary: acc) (auto simp: bit_or_iff)

lemma bit_encode_group: "bit (encode_bit_group b count i) n \<longleftrightarrow> n < 8 \<and> bit b (i + n)"
proof -
  define P where
    "P \<longleftrightarrow> (\<exists>j \<in> set [i..<group_end i count]. bit (push_bit (j - i) (of_bool (bit b j)) :: u64) n)"
  have "P \<longleftrightarrow> bit b (i + n)" if "n < 8"
  proof
    assume "bit b (i + n)"
    then have "bit (push_bit (i + n - i) (of_bool (bit b (i + n))) :: u64) n"
      using that by (auto simp: bit_simps)
    moreover have "i + n \<in> set [i..<group_end i count]" using that group_end_ge [of i count] by simp
    ultimately show P unfolding P_def by blast
  next
    assume P
    then obtain j where j: "j - i \<le> n" "n + i \<le> j" "bit b j" by (auto simp: P_def bit_simps)
    then have "j = i + n" by simp
    with j(3) show "bit b (i + n)" by simp
  qed
  moreover have "bit (encode_bit_group b count i) n \<longleftrightarrow> n < 8 \<and> P"
    unfolding encode_bit_group_def bit_ucast_iff bit_fold_or P_def [symmetric] by simp
  ultimately show ?thesis by blast
qed

lemma bit_decode_group:
  "bit (decode_bit_group bits count i acc) j \<longleftrightarrow>
     (if i \<le> j \<and> j < group_end i count then bit bits (j - i) else bit acc j)"
proof -
  have "bit (fold (\<lambda>j acc. if bit bits (j - i) then set_bit j acc else unset_bit j acc) js acc) j \<longleftrightarrow>
      (if j \<in> set js then bit bits (j - i) else bit acc j)" for js and acc :: int
    by (induction js arbitrary: acc) (auto simp: bit_set_bit_iff bit_unset_bit_iff)
  then show ?thesis by (simp add: decode_bit_group_def)
qed

lemma bit_decode_prefix:
  "bit (fold (\<lambda>k acc. decode_bit_group (buf ! k) count (8 * k) acc) [0..<m] 0) j \<longleftrightarrow>
     j < 8 * m \<and> bit (buf ! (j div 8)) (j mod 8)"
proof (induction m)
  case (Suc m)
  have "bit (buf ! m) (j - 8 * m) \<longleftrightarrow> j < 8 * Suc m \<and> bit (buf ! (j div 8)) (j mod 8)"
    if "8 * m \<le> j" "j < group_end (8 * m) count"
  proof (cases "j < 8 * Suc m")
    case True
    then have "j div 8 = m" "j mod 8 = j - 8 * m" using that(1) by (simp_all add: div_nat_eqI modulo_nat_def)
    then show ?thesis using True by simp
  next
    case False
    then show ?thesis using bit_imp_le_length [of "buf ! m" "j - 8 * m"] by auto
  qed
  moreover have "8 * Suc m \<le> group_end (8 * m) count" using group_end_ge [of "8 * m" count] by simp
  ultimately show ?case using Suc.IH by (auto simp: bit_decode_group)
qed simp

lemma bit_decode_bits:
  "bit (decode_bits count buf) j \<longleftrightarrow>
     j < 8 * unat (bit_buffer_len count) \<and> bit (buf ! (j div 8)) (j mod 8)"
  by (simp add: decode_bits_def bit_decode_prefix)

lemma decode_encode_bits: "wf_bits count b \<Longrightarrow> decode_bits count (encode_bits count b) = b"
proof (rule bit_eqI)
  fix j
  assume wf: "wf_bits count b"
  define n where "n = unat (bit_buffer_len count)"
  have "take_bit (8 * n) b = b" using wf by (simp add: wf_bits_def n_def take_bit_int_eq_self)
  then have out: "\<not> j < 8 * n \<Longrightarrow> \<not> bit b j" by (metis bit_take_bit_iff)
  show "bit (decode_bits count (encode_bits count b)) j = bit b j"
  proof (cases "j < 8 * n")
    case True
    then have "j div 8 < n" by (simp add: less_mult_imp_div_less mult.commute)
    then have "encode_bits count b ! (j div 8) = encode_bit_group b (unat count) (8 * (j div 8))"
      by (simp add: encode_bits_def n_def)
    then show ?thesis using True by (simp add: bit_decode_bits bit_encode_group n_def)
  qed (use out in \<open>simp add: bit_decode_bits n_def\<close>)
qed

lemma length_encode_bits: "length (encode_bits count b) = unat (bit_buffer_len count)"
  by (simp add: encode_bits_def)

lemma read_encode_bits:
  "wf_bits count b \<Longrightarrow> \<not> bit_buffer_len count > max_span_batch_size \<Longrightarrow>
   read_bits count (encode_bits count b @ rest) = Inr (b, rest)"
  by (simp add: read_bits_def length_encode_bits decode_encode_bits)

text \<open>
  Padding bits are not checked: with three blocks the fourth bit of the only byte is read as
  a bit of the list, and two different encodings denote the same three blocks.
\<close>

lemma padding_bits_accepted:
  "\<exists>b b'. read_bits 3 [15] = Inr (b, []) \<and> read_bits 3 [7] = Inr (b', []) \<and>
     b \<noteq> b' \<and> (\<forall>j < 3. bit b j = bit b' j)"
proof -
  have len: "bit_buffer_len 3 = 1" by (simp add: bit_buffer_len_def)
  have bits: "bit (decode_bits 3 [x]) j \<longleftrightarrow> j < 8 \<and> bit x j" for x j
    by (auto simp: bit_decode_bits len)
  have "bit (decode_bits 3 [15]) 3 \<noteq> bit (decode_bits 3 [7]) 3" by (simp add: bits)
  then have "decode_bits 3 [15] \<noteq> decode_bits 3 [7]" by metis
  moreover have "\<forall>j < 3. bit (decode_bits 3 [15]) j = bit (decode_bits 3 [7]) j"
    by (auto simp: bits less_Suc_eq numeral_3_eq_3)
  ultimately show ?thesis
    by (simp add: read_bits_def len max_span_batch_size_def read_full_def)
qed

end
