(* ===== verification/Derive_Span.thy ===== *)
theory Derive_Span
  imports Derive_Batch Derive_Bits
begin

text \<open>
  Span batches as they are encoded (\<^verbatim>\<open>bl-node/rollup/derive/{span_batch,span_batch_txs,
  span_batch_tx,batch}.go\<close>): transactions taken apart into columns, block origins as bits, and
  the conversions from and to the list of blocks. RLP and go-ethereum's transaction codec are
  parameters (\<open>tx_env\<close>); \<^verbatim>\<open>uint256.Int\<close> is a 256-bit word.
\<close>

section \<open>Transactions\<close>

type_synonym access_list = "(byte list \<times> hash list) list"

datatype span_tx_data =
    LegacyTxData int int "byte list"
  | AccessListTxData int int "byte list" access_list
  | DynamicFeeTxData int int int "byte list" access_list

fun span_tx_type :: "span_tx_data \<Rightarrow> byte" where
  "span_tx_type (LegacyTxData _ _ _) = 0"
| "span_tx_type (AccessListTxData _ _ _ _) = 1"
| "span_tx_type (DynamicFeeTxData _ _ _ _ _) = 2"

text \<open>A decoded transaction: one of the three kinds spans carry, or another (a deposit, a blob).\<close>

datatype tx_body = KnownBody span_tx_data | OtherBody byte

record full_tx =
  ftx_body :: tx_body
  ftx_chain_id :: int
  ftx_nonce :: u64
  ftx_gas :: u64
  ftx_to :: "byte list option"
  ftx_v :: int
  ftx_r :: int
  ftx_s :: int

record tx_env =
  te_rlp_enc :: "span_tx_data \<Rightarrow> byte list option"
  te_rlp_dec :: "byte \<Rightarrow> byte list \<Rightarrow> span_tx_data option"
  te_read_list :: "byte list reader"
  te_unmarshal :: "byte list \<Rightarrow> full_tx option"
  te_marshal :: "full_tx \<Rightarrow> byte list option"
  te_protected :: "full_tx \<Rightarrow> bool"
  te_tx_chain_id :: "full_tx \<Rightarrow> int"

datatype span_err =
    SpanPanic
  | TxDecodeError
  | TxEncodeError
  | ChainIdMismatch
  | TxTypeNotSupported
  | TypedTxTooShort
  | TxToNotEnough
  | EmptySpanBatch

definition marshal_span_tx :: "tx_env \<Rightarrow> span_tx_data \<Rightarrow> span_err + byte list" where
  "marshal_span_tx env tx =
     (case te_rlp_enc env tx of
        None \<Rightarrow> Inl TxEncodeError
      | Some d \<Rightarrow> Inr (if span_tx_type tx = 0 then d else span_tx_type tx # d))"

definition decode_typed_tx :: "tx_env \<Rightarrow> byte list \<Rightarrow> span_err + span_tx_data" where
  "decode_typed_tx env b =
     (if length b \<le> 1 then Inl TypedTxTooShort
      else if hd b = 1 \<or> hd b = 2 then
        (case te_rlp_dec env (hd b) (tl b) of None \<Rightarrow> Inl TxDecodeError | Some tx \<Rightarrow> Inr tx)
      else Inl TxTypeNotSupported)"

definition unmarshal_span_tx :: "tx_env \<Rightarrow> byte list \<Rightarrow> span_err + span_tx_data" where
  "unmarshal_span_tx env b =
     (if length b > 0 \<and> hd b > 127 then
        (case te_rlp_dec env 0 b of None \<Rightarrow> Inl TxDecodeError | Some tx \<Rightarrow> Inr tx)
      else decode_typed_tx env b)"

definition convert_to_full_tx ::
  "span_tx_data \<Rightarrow> u64 \<Rightarrow> u64 \<Rightarrow> byte list option \<Rightarrow> int \<Rightarrow> int \<Rightarrow> int \<Rightarrow> int \<Rightarrow> full_tx" where
  "convert_to_full_tx tx nonce gas to chainID v r s =
     \<lparr>ftx_body = KnownBody tx, ftx_chain_id = (if span_tx_type tx = 0 then 0 else chainID),
      ftx_nonce = nonce, ftx_gas = gas, ftx_to = to, ftx_v = v, ftx_r = r, ftx_s = s\<rparr>"

definition new_span_tx :: "full_tx \<Rightarrow> span_err + span_tx_data" where
  "new_span_tx tx = (case ftx_body tx of KnownBody d \<Rightarrow> Inr d | OtherBody _ \<Rightarrow> Inl TxTypeNotSupported)"

text \<open>\<^verbatim>\<open>ReadTxData\<close>: a byte up to 0x7f is the type of the transaction, then an RLP list follows.\<close>

definition read_tx_data :: "tx_env \<Rightarrow> (byte list \<times> byte) reader" where
  "read_tx_data env r =
     (case r of
        [] \<Rightarrow> Inl ErrEOF
      | b # r' \<Rightarrow>
          if b \<le> 127
          then rbind (te_read_list env r') (\<lambda>(txPayload, rest). Inr ((b # txPayload, b), rest))
          else rbind (te_read_list env r) (\<lambda>(txPayload, rest). Inr ((txPayload, 0), rest)))"

section \<open>The columns of a span's transactions\<close>

record span_signature =
  sig_v :: u64
  sig_r :: "256 word"
  sig_s :: "256 word"

record span_txs =
  st_total :: u64
  st_creation_bits :: int
  st_y_parity_bits :: int
  st_sigs :: "span_signature list"
  st_nonces :: "u64 list"
  st_gases :: "u64 list"
  st_tos :: "byte list list"
  st_datas :: "byte list list"
  st_types :: "byte list"

definition put_sig :: "span_signature \<Rightarrow> byte list" where
  "put_sig s = be_enc 32 (unat (sig_r s)) @ be_enc 32 (unat (sig_s s))"

definition read_sig :: "span_signature reader" where
  "read_sig r =
     rbind (read_full 32 r) (\<lambda>(rb, r).
     rbind (read_full 32 r) (\<lambda>(sb, r).
       Inr (\<lparr>sig_v = 0, sig_r = of_nat (be_dec rb), sig_s = of_nat (be_dec sb)\<rparr>, r)))"

definition encode_tx_sigs :: "span_txs \<Rightarrow> byte list" where
  "encode_tx_sigs t = concat (map put_sig (st_sigs t))"

definition encode_tx_nonces :: "span_txs \<Rightarrow> byte list" where
  "encode_tx_nonces t = concat (map put_uvarint (st_nonces t))"

definition encode_tx_gases :: "span_txs \<Rightarrow> byte list" where
  "encode_tx_gases t = concat (map put_uvarint (st_gases t))"

definition encode_tx_tos :: "span_txs \<Rightarrow> byte list" where
  "encode_tx_tos t = concat (st_tos t)"

definition encode_tx_datas :: "span_txs \<Rightarrow> byte list" where
  "encode_tx_datas t = concat (st_datas t)"

definition encode_span_txs :: "span_txs \<Rightarrow> byte list" where
  "encode_span_txs t =
     encode_bits (st_total t) (st_creation_bits t) @
     encode_bits (st_total t) (st_y_parity_bits t) @
     encode_tx_sigs t @ encode_tx_tos t @ encode_tx_datas t @ encode_tx_nonces t @ encode_tx_gases t"

definition contract_creation_count :: "u64 \<Rightarrow> int \<Rightarrow> nat" where
  "contract_creation_count count b = length (filter (bit b) [0..<unat count])"

definition read_tx_sigs :: "u64 \<Rightarrow> span_signature list reader" where
  "read_tx_sigs count = read_n read_sig (unat count)"

definition read_tx_nonces :: "u64 \<Rightarrow> u64 list reader" where
  "read_tx_nonces count = read_n read_uvarint (unat count)"

definition read_tx_gases :: "u64 \<Rightarrow> u64 list reader" where
  "read_tx_gases count = read_n read_uvarint (unat count)"

definition read_tx_tos :: "u64 \<Rightarrow> int \<Rightarrow> byte list list reader" where
  "read_tx_tos count creation =
     read_n (read_full 20) (unat count - contract_creation_count count creation)"

definition read_tx_datas :: "tx_env \<Rightarrow> u64 \<Rightarrow> (byte list \<times> byte) list reader" where
  "read_tx_datas env count = read_n (read_tx_data env) (unat count)"

text \<open>The number of transactions is set before decoding.\<close>

definition read_span_txs :: "tx_env \<Rightarrow> u64 \<Rightarrow> span_txs reader" where
  "read_span_txs env count r =
     rbind (read_bits count r) (\<lambda>(creation, r).
     rbind (read_bits count r) (\<lambda>(yParity, r).
     rbind (read_tx_sigs count r) (\<lambda>(sigs, r).
     rbind (read_tx_tos count creation r) (\<lambda>(tos, r).
     rbind (read_tx_datas env count r) (\<lambda>(datas, r).
     rbind (read_tx_nonces count r) (\<lambda>(nonces, r).
     rbind (read_tx_gases count r) (\<lambda>(gases, r).
       Inr (\<lparr>st_total = count, st_creation_bits = creation, st_y_parity_bits = yParity,
             st_sigs = sigs, st_nonces = nonces, st_gases = gases, st_tos = tos,
             st_datas = map fst datas, st_types = map snd datas\<rparr>, r))))))))"

lemmas tx_column_defs = encode_tx_sigs_def encode_tx_nonces_def encode_tx_gases_def encode_tx_tos_def
  encode_tx_datas_def read_tx_sigs_def read_tx_nonces_def read_tx_gases_def read_tx_tos_def
  read_tx_datas_def

text \<open>The value \<open>v\<close> of a signature from its parity bit; an unknown type panics.\<close>

definition recovered_v :: "int \<Rightarrow> bool \<Rightarrow> byte \<Rightarrow> u64 option" where
  "recovered_v chainID parity txType =
     (if txType = 0 then Some (word_of_int chainID * 2 + 35 + of_bool parity)
      else if txType = 1 \<or> txType = 2 then Some (of_bool parity)
      else None)"

definition recover_v :: "int \<Rightarrow> span_txs \<Rightarrow> span_err + span_txs" where
  "recover_v chainID t =
     (if length (st_types t) \<noteq> length (st_sigs t) then Inl SpanPanic
      else let vs = map (\<lambda>i. recovered_v chainID (bit (st_y_parity_bits t) i) (st_types t ! i))
                      [0..<length (st_types t)]
        in if None \<in> set vs then Inl SpanPanic
           else Inr (t\<lparr>st_sigs := map2 (\<lambda>v s. s\<lparr>sig_v := the v\<rparr>) vs (st_sigs t)\<rparr>))"

text \<open>
  The transactions again; \<open>tos\<close> are the addresses not used yet. An index past the end of a
  column is a panic.
\<close>

fun full_txs_loop ::
  "tx_env \<Rightarrow> int \<Rightarrow> span_txs \<Rightarrow> nat list \<Rightarrow> byte list list \<Rightarrow> span_err + byte list list" where
  "full_txs_loop env chainID t [] tos = Inr []"
| "full_txs_loop env chainID t (i # is) tos =
     (if \<not> (i < length (st_datas t) \<and> i < length (st_nonces t) \<and> i < length (st_gases t) \<and>
            i < length (st_sigs t)) then Inl SpanPanic
      else rbind (unmarshal_span_tx env (st_datas t ! i)) (\<lambda>stx.
        rbind (if bit (st_creation_bits t) i then Inr (None, tos)
               else case tos of [] \<Rightarrow> Inl TxToNotEnough | to # tos' \<Rightarrow> Inr (Some to, tos')) (\<lambda>(to, tos').
          let s = st_sigs t ! i;
              tx = convert_to_full_tx stx (st_nonces t ! i) (st_gases t ! i) to chainID
                     (uint (sig_v s)) (uint (sig_r s)) (uint (sig_s s))
          in case te_marshal env tx of
              None \<Rightarrow> Inl TxEncodeError
            | Some d \<Rightarrow> rbind (full_txs_loop env chainID t is tos') (\<lambda>rest. Inr (d # rest)))))"

definition full_txs :: "tx_env \<Rightarrow> int \<Rightarrow> span_txs \<Rightarrow> span_err + byte list list" where
  "full_txs env chainID t = full_txs_loop env chainID t [0..<unat (st_total t)] (st_tos t)"

text \<open>A single transaction's columns; a parity other than 0 and 1 is a panic of \<^verbatim>\<open>SetBit\<close>.\<close>

record tx_columns =
  tc_sig :: span_signature
  tc_to :: "byte list option"
  tc_parity :: u64
  tc_nonce :: u64
  tc_gas :: u64
  tc_data :: "byte list"
  tc_type :: byte

definition body_type :: "tx_body \<Rightarrow> byte" where
  "body_type b = (case b of KnownBody d \<Rightarrow> span_tx_type d | OtherBody k \<Rightarrow> k)"

definition convert_v_to_y_parity :: "u64 \<Rightarrow> byte \<Rightarrow> span_err + u64" where
  "convert_v_to_y_parity v txType =
     (if txType = 0 then Inr ((v - 35) AND 1)
      else if txType = 1 \<or> txType = 2 then Inr v
      else Inl SpanPanic)"

definition columns_of_tx :: "tx_env \<Rightarrow> int \<Rightarrow> byte list \<Rightarrow> span_err + tx_columns" where
  "columns_of_tx env chainID raw =
     (case te_unmarshal env raw of
        None \<Rightarrow> Inl TxDecodeError
      | Some tx \<Rightarrow>
          if te_protected env tx \<and> te_tx_chain_id env tx \<noteq> chainID then Inl ChainIdMismatch
          else rbind (convert_v_to_y_parity (word_of_int (ftx_v tx)) (body_type (ftx_body tx))) (\<lambda>parity.
            rbind (if parity > 1 then Inl SpanPanic else new_span_tx tx) (\<lambda>stx.
            rbind (marshal_span_tx env stx) (\<lambda>d.
              Inr \<lparr>tc_sig = \<lparr>sig_v = word_of_int (ftx_v tx), sig_r = word_of_int (ftx_r tx),
                     sig_s = word_of_int (ftx_s tx)\<rparr>,
                   tc_to = ftx_to tx, tc_parity = parity, tc_nonce = ftx_nonce tx,
                   tc_gas = ftx_gas tx, tc_data = d, tc_type = body_type (ftx_body tx)\<rparr>))))"

fun columns_of_txs :: "tx_env \<Rightarrow> int \<Rightarrow> byte list list \<Rightarrow> span_err + tx_columns list" where
  "columns_of_txs env chainID [] = Inr []"
| "columns_of_txs env chainID (raw # raws) =
     rbind (columns_of_tx env chainID raw) (\<lambda>c.
     rbind (columns_of_txs env chainID raws) (\<lambda>cs. Inr (c # cs)))"

text \<open>The bits of a list of flags, set from the first one on.\<close>

definition bits_of :: "bool list \<Rightarrow> int" where
  "bits_of bs = fold (\<lambda>i acc. if bs ! i then set_bit i acc else unset_bit i acc) [0..<length bs] 0"

definition new_span_txs :: "tx_env \<Rightarrow> int \<Rightarrow> byte list list \<Rightarrow> span_err + span_txs" where
  "new_span_txs env chainID txs =
     rbind (columns_of_txs env chainID txs) (\<lambda>cs.
       Inr \<lparr>st_total = of_nat (length txs),
            st_creation_bits = bits_of (map (\<lambda>c. tc_to c = None) cs),
            st_y_parity_bits = bits_of (map (\<lambda>c. tc_parity c \<noteq> 0) cs),
            st_sigs = map tc_sig cs, st_nonces = map tc_nonce cs, st_gases = map tc_gas cs,
            st_tos = List.map_filter tc_to cs, st_datas = map tc_data cs, st_types = map tc_type cs\<rparr>)"

end
