(* ===== verification/Derive_Span_Raw.thy ===== *)
theory Derive_Span_Raw
  imports Derive_Span
begin

text \<open>
  The raw form of a span batch and its encoding, the conversions between it and the list of
  blocks, the builder the batcher uses, and the typed encoding of both kinds of batches
  (\<^verbatim>\<open>bl-node/rollup/derive/{span_batch,batch}.go\<close>). A \<^verbatim>\<open>uvarint\<close> of more than ten bytes is an error.
\<close>

section \<open>The raw batch and its encoding\<close>

record raw_span_batch =
  rs_rel_timestamp :: u64
  rs_l1_origin_num :: u64
  rs_parent_check :: "byte list"
  rs_l1_origin_check :: "byte list"
  rs_block_count :: u64
  rs_origin_bits :: int
  rs_block_tx_counts :: "u64 list"
  rs_txs :: span_txs

definition encode_prefix :: "raw_span_batch \<Rightarrow> byte list" where
  "encode_prefix b =
     put_uvarint (rs_rel_timestamp b) @ put_uvarint (rs_l1_origin_num b) @
     rs_parent_check b @ rs_l1_origin_check b"

definition encode_payload :: "raw_span_batch \<Rightarrow> byte list" where
  "encode_payload b =
     put_uvarint (rs_block_count b) @
     encode_bits (rs_block_count b) (rs_origin_bits b) @
     concat (map put_uvarint (rs_block_tx_counts b)) @
     encode_span_txs (rs_txs b)"

definition encode_raw_span :: "raw_span_batch \<Rightarrow> byte list" where
  "encode_raw_span b = encode_prefix b @ encode_payload b"

definition read_prefix :: "(u64 \<times> u64 \<times> byte list \<times> byte list) reader" where
  "read_prefix r =
     rbind (read_uvarint r) (\<lambda>(relTimestamp, r).
     rbind (read_uvarint r) (\<lambda>(l1OriginNum, r).
     rbind (read_full 20 r) (\<lambda>(parentCheck, r).
     rbind (read_full 20 r) (\<lambda>(l1OriginCheck, r).
       Inr ((relTimestamp, l1OriginNum, parentCheck, l1OriginCheck), r)))))"

definition read_block_count :: "u64 reader" where
  "read_block_count r =
     rbind (read_uvarint r) (\<lambda>(blockCount, r).
       if blockCount > max_span_batch_size then Inl ErrTooBigSpanBatchSize
       else if blockCount = 0 then Inl ErrEmptySpanBatch
       else Inr (blockCount, r))"

definition read_block_tx_count :: "u64 reader" where
  "read_block_tx_count r =
     rbind (read_uvarint r) (\<lambda>(c, r).
       if c > max_span_batch_size then Inl ErrTooBigSpanBatchSize else Inr (c, r))"

definition read_block_tx_counts :: "u64 \<Rightarrow> u64 list reader" where
  "read_block_tx_counts blockCount r = read_n read_block_tx_count (unat blockCount) r"

text \<open>\<^verbatim>\<open>SafeAdd\<close>: a sum that wraps around is an error.\<close>

fun sum_tx_counts :: "u64 \<Rightarrow> u64 list \<Rightarrow> read_err + u64" where
  "sum_tx_counts tot [] = Inr tot"
| "sum_tx_counts tot (c # cs) =
     (if tot + c < tot then Inl ErrTooBigSpanBatchSize else sum_tx_counts (tot + c) cs)"

definition read_txs :: "tx_env \<Rightarrow> u64 list \<Rightarrow> span_txs reader" where
  "read_txs env counts r =
     rbind (sum_tx_counts 0 counts) (\<lambda>tot.
       if tot > max_span_batch_size then Inl ErrTooBigSpanBatchSize
       else read_span_txs env tot r)"

definition decode_raw_span :: "tx_env \<Rightarrow> raw_span_batch reader" where
  "decode_raw_span env r =
     (if length r > unat max_span_batch_size then Inl ErrTooBigSpanBatchSize
      else rbind (read_prefix r) (\<lambda>((relTimestamp, l1OriginNum, parentCheck, l1OriginCheck), r).
           rbind (read_block_count r) (\<lambda>(blockCount, r).
           rbind (read_bits blockCount r) (\<lambda>(originBits, r).
           rbind (read_block_tx_counts blockCount r) (\<lambda>(counts, r).
           rbind (read_txs env counts r) (\<lambda>(txs, r).
             Inr (\<lparr>rs_rel_timestamp = relTimestamp, rs_l1_origin_num = l1OriginNum,
                   rs_parent_check = parentCheck, rs_l1_origin_check = l1OriginCheck,
                   rs_block_count = blockCount, rs_origin_bits = originBits,
                   rs_block_tx_counts = counts, rs_txs = txs\<rparr>, r)))))))"

section \<open>From the raw batch to its blocks\<close>

text \<open>The origin of every block, from the last one down: a set bit is a step of the origin.\<close>

fun origin_nums :: "int \<Rightarrow> nat \<Rightarrow> u64 \<Rightarrow> u64 list \<Rightarrow> u64 list" where
  "origin_nums bits 0 num acc = acc"
| "origin_nums bits (Suc i) num acc =
     origin_nums bits i (if bit bits i \<and> i > 0 then num - 1 else num) (num # acc)"

text \<open>The transactions of block after block; running out of them is an index out of range.\<close>

fun split_txs :: "u64 list \<Rightarrow> byte list list \<Rightarrow> span_err + byte list list list" where
  "split_txs [] txs = Inr []"
| "split_txs (c # cs) txs =
     (if length txs < unat c then Inl SpanPanic
      else rbind (split_txs cs (drop (unat c) txs)) (\<lambda>rest. Inr (take (unat c) txs # rest)))"

definition derive_span ::
  "tx_env \<Rightarrow> u64 \<Rightarrow> u64 \<Rightarrow> int \<Rightarrow> raw_span_batch \<Rightarrow> span_err + span_batch" where
  "derive_span env blockTime genesisTimestamp chainID b =
     (if rs_block_count b = 0 then Inl EmptySpanBatch
      else let n = unat (rs_block_count b);
               origins = origin_nums (rs_origin_bits b) n (rs_l1_origin_num b) []
        in rbind (recover_v chainID (rs_txs b)) (\<lambda>txs.
           rbind (full_txs env chainID txs) (\<lambda>fullTxs.
             if length (rs_block_tx_counts b) < n then Inl SpanPanic
             else rbind (split_txs (take n (rs_block_tx_counts b)) fullTxs) (\<lambda>blockTxs.
               Inr \<lparr>sp_parent_check = rs_parent_check b, sp_l1_origin_check = rs_l1_origin_check b,
                    sp_batches = map (\<lambda>i.
                      \<lparr>se_epoch_num = origins ! i,
                       se_timestamp = genesisTimestamp + rs_rel_timestamp b + blockTime * of_nat i,
                       se_transactions = blockTxs ! i\<rparr>) [0..<n]\<rparr>))))"

section \<open>From blocks to the raw batch\<close>

definition origin_flags :: "bool \<Rightarrow> span_element list \<Rightarrow> bool list" where
  "origin_flags originChanged els =
     map (\<lambda>i. if i = 0 then originChanged
              else se_epoch_num (els ! (i - 1)) < se_epoch_num (els ! i)) [0..<length els]"

text \<open>\<^verbatim>\<open>sort.Slice\<close> does not promise to keep the order of blocks with equal timestamps, \<open>sort_key\<close> does: for
  a span with two blocks of the same time, which no batcher builds, Go may answer differently.\<close>

definition to_raw_span ::
  "tx_env \<Rightarrow> bool \<Rightarrow> u64 \<Rightarrow> int \<Rightarrow> span_batch \<Rightarrow> span_err + raw_span_batch" where
  "to_raw_span env originChanged genesisTimestamp chainID b =
     (if sp_batches b = [] then Inl EmptySpanBatch
      else let els = sort_key se_timestamp (sp_batches b)
        in rbind (new_span_txs env chainID (concat (map se_transactions els))) (\<lambda>stxs.
             Inr \<lparr>rs_rel_timestamp = se_timestamp (hd els) - genesisTimestamp,
                  rs_l1_origin_num = se_epoch_num (last els),
                  rs_parent_check = sp_parent_check b, rs_l1_origin_check = sp_l1_origin_check b,
                  rs_block_count = of_nat (length els),
                  rs_origin_bits = bits_of (origin_flags originChanged els),
                  rs_block_tx_counts = map (\<lambda>el. of_nat (length (se_transactions el))) els,
                  rs_txs = stxs\<rparr>))"

definition singular_to_element :: "singular_batch \<Rightarrow> span_element" where
  "singular_to_element s =
     \<lparr>se_epoch_num = sb_epoch_num s, se_timestamp = sb_timestamp s,
      se_transactions = sb_transactions s\<rparr>"

definition append_singular_batch :: "singular_batch \<Rightarrow> span_batch \<Rightarrow> span_batch" where
  "append_singular_batch s b =
     b\<lparr>sp_parent_check :=
         (if sp_batches b = [] then take 20 (sb_parent_hash s) else sp_parent_check b),
       sp_batches := sp_batches b @ [singular_to_element s],
       sp_l1_origin_check := take 20 (sb_epoch_hash s)\<rparr>"

definition empty_span :: span_batch where
  "empty_span = \<lparr>sp_parent_check = replicate 20 0, sp_l1_origin_check = replicate 20 0, sp_batches = []\<rparr>"

definition new_span_batch :: "singular_batch list \<Rightarrow> span_batch" where
  "new_span_batch ss =
     (if ss = [] then empty_span
      else \<lparr>sp_parent_check = take 20 (sb_parent_hash (hd ss)),
            sp_l1_origin_check = take 20 (sb_epoch_hash (last ss)),
            sp_batches = map singular_to_element ss\<rparr>)"

text \<open>The builder: the flag says that the first block is the first of its epoch.\<close>

record span_builder =
  sbb_genesis_timestamp :: u64
  sbb_chain_id :: int
  sbb_span :: span_batch
  sbb_origin_changed :: bool

definition new_span_builder :: "u64 \<Rightarrow> int \<Rightarrow> span_builder" where
  "new_span_builder genesisTimestamp chainID =
     \<lparr>sbb_genesis_timestamp = genesisTimestamp, sbb_chain_id = chainID, sbb_span = empty_span,
      sbb_origin_changed = False\<rparr>"

definition builder_append :: "singular_batch \<Rightarrow> u64 \<Rightarrow> span_builder \<Rightarrow> span_builder" where
  "builder_append s seqNum b =
     b\<lparr>sbb_origin_changed :=
         (if sp_batches (sbb_span b) = [] then seqNum = 0 else sbb_origin_changed b),
       sbb_span := append_singular_batch s (sbb_span b)\<rparr>"

definition builder_raw :: "tx_env \<Rightarrow> span_builder \<Rightarrow> span_err + raw_span_batch" where
  "builder_raw env b =
     to_raw_span env (sbb_origin_changed b) (sbb_genesis_timestamp b) (sbb_chain_id b) (sbb_span b)"

definition builder_reset :: "span_builder \<Rightarrow> span_builder" where
  "builder_reset b = b\<lparr>sbb_span := empty_span\<rparr>"

section \<open>Typed batches\<close>

datatype batch_data = SingularData singular_batch | SpanData raw_span_batch

datatype batch_err = BatchTooShort | UnknownBatchType byte | BatchDecode

text \<open>\<open>rlp\<close> and \<open>unrlp\<close> are the RLP encoding of a singular batch and its inverse.\<close>

definition encode_typed :: "(singular_batch \<Rightarrow> byte list) \<Rightarrow> batch_data \<Rightarrow> byte list" where
  "encode_typed rlp b =
     (case b of SingularData s \<Rightarrow> 0 # rlp s | SpanData r \<Rightarrow> 1 # encode_raw_span r)"

definition decode_typed ::
  "tx_env \<Rightarrow> (byte list \<Rightarrow> singular_batch option) \<Rightarrow> byte list \<Rightarrow> batch_err + batch_data" where
  "decode_typed env unrlp data =
     (case data of
        [] \<Rightarrow> Inl BatchTooShort
      | t # body \<Rightarrow>
          if t = 0 then (case unrlp body of None \<Rightarrow> Inl BatchDecode | Some s \<Rightarrow> Inr (SingularData s))
          else if t = 1 then
            (case decode_raw_span env body of
               Inl _ \<Rightarrow> Inl BatchDecode
             | Inr (raw, _) \<Rightarrow> Inr (SpanData raw))
          else Inl (UnknownBatchType t))"

end
