(* ===== verification/Derive_Queue.thy ===== *)
theory Derive_Queue
  imports Derive_Batch Derive_Channel
begin

text \<open>
  The batch queue (\<^verbatim>\<open>bl-node/rollup/derive/batch_queue.go\<close>): it keeps the L1 blocks of the
  sequencing window and the batches that are not decided yet, returns the next batch on top
  of the safe head, and makes empty batches once the window of an epoch has passed. The
  results of the stage before are arguments: its origin, and the batch it returns when pulled.
\<close>

record batch_queue =
  bq_origin :: l1_ref
  bq_l1_blocks :: "l1_ref list"
  bq_batches :: "(l1_ref \<times> batch) list"
  bq_next_span :: "singular_batch list"

definition pop_next_batch ::
  "l2_ref \<Rightarrow> batch_queue \<Rightarrow> stage_err + singular_batch \<times> batch_queue" where
  "pop_next_batch parent bq =
     (case bq_next_span bq of
        [] \<Rightarrow> Inl StagePanic
      | s # rest \<Rightarrow> Inr (s\<lparr>sb_parent_hash := l2_hash parent\<rparr>, bq\<lparr>bq_next_span := rest\<rparr>))"

text \<open>Once the parent's origin has moved on, the L1 blocks before it are dropped.\<close>

definition advance_l1_blocks :: "u64 \<Rightarrow> l1_ref list \<Rightarrow> l1_ref list" where
  "advance_l1_blocks originNumber l1Blocks =
     (if l1Blocks \<noteq> [] \<and> originNumber > l1_number (hd l1Blocks)
      then case dropWhile (\<lambda>b. l1_number b \<noteq> originNumber) l1Blocks of
          [] \<Rightarrow> l1Blocks
        | bs \<Rightarrow> bs
      else l1Blocks)"

definition advance_origin :: "l1_ref \<Rightarrow> bool \<Rightarrow> batch_queue \<Rightarrow> batch_queue" where
  "advance_origin prevOrigin originBehind bq =
     (if bq_origin bq \<noteq> prevOrigin
      then bq\<lparr>bq_origin := prevOrigin,
              bq_l1_blocks := (if originBehind then [] else bq_l1_blocks bq @ [prevOrigin])\<rparr>
      else bq)"

definition add_batch ::
  "l2_env \<Rightarrow> rollup_config \<Rightarrow> l2_ref \<Rightarrow> batch \<Rightarrow> batch_queue \<Rightarrow> stage_err + batch_queue" where
  "add_batch env cfg parent b bq =
     (if bq_l1_blocks bq = [] then Inl StagePanic
      else case check_batch env cfg (bq_l1_blocks bq) parent b (bq_origin bq) of
          CheckPanic \<Rightarrow> Inl StagePanic
        | Verdict v \<Rightarrow>
            if v = BatchDrop then Inr bq
            else Inr (bq\<lparr>bq_batches := bq_batches bq @ [(bq_origin bq, b)]\<rparr>))"

text \<open>One pass over the batches: the first that is accepted, and those to keep.\<close>

datatype scan =
    ScanFound batch "(l1_ref \<times> batch) list"
  | ScanUndecided "(l1_ref \<times> batch) list"
  | ScanNone "(l1_ref \<times> batch) list"
  | ScanPanic

fun scan_batches ::
  "l2_env \<Rightarrow> rollup_config \<Rightarrow> l1_ref list \<Rightarrow> l2_ref \<Rightarrow> (l1_ref \<times> batch) list \<Rightarrow>
   (l1_ref \<times> batch) list \<Rightarrow> scan" where
  "scan_batches env cfg l1Blocks parent [] remaining = ScanNone remaining"
| "scan_batches env cfg l1Blocks parent ((l1, b) # bs) remaining =
     (case check_batch env cfg l1Blocks parent b l1 of
        CheckPanic \<Rightarrow> ScanPanic
      | Verdict BatchFuture \<Rightarrow>
          scan_batches env cfg l1Blocks parent bs (remaining @ [(l1, b)])
      | Verdict BatchDrop \<Rightarrow> scan_batches env cfg l1Blocks parent bs remaining
      | Verdict BatchAccept \<Rightarrow> ScanFound b (remaining @ bs)
      | Verdict BatchUndecided \<Rightarrow> ScanUndecided (remaining @ (l1, b) # bs))"

definition window_expired :: "rollup_config \<Rightarrow> bool \<Rightarrow> batch_queue \<Rightarrow> bool" where
  "window_expired cfg outOfData bq \<longleftrightarrow>
     (let expiryEpoch = l1_number (hd (bq_l1_blocks bq)) + rc_seq_window_size cfg
      in expiryEpoch = l1_number (bq_origin bq) \<and> outOfData \<or> expiryEpoch < l1_number (bq_origin bq))"

text \<open>No batch is left for this epoch: an empty one, or the step to the next epoch.\<close>

definition force_empty_batch ::
  "rollup_config \<Rightarrow> bool \<Rightarrow> l2_ref \<Rightarrow> batch_queue \<Rightarrow> (stage_err + batch) \<times> batch_queue" where
  "force_empty_batch cfg outOfData parent bq =
     (let epoch = hd (bq_l1_blocks bq); nextTimestamp = l2_time parent + rc_block_time cfg;
          firstOfEpoch = (l1_number epoch = bid_number (l2_l1_origin parent) + 1)
      in if \<not> window_expired cfg outOfData bq then (Inl StageEOF, bq)
         else if length (bq_l1_blocks bq) < 2 then (Inl StageEOF, bq)
         else if nextTimestamp < l1_time (bq_l1_blocks bq ! 1) \<or> firstOfEpoch
         then (Inr (Singular \<lparr>sb_parent_hash = l2_hash parent, sb_epoch_num = l1_number epoch,
                              sb_epoch_hash = l1_hash epoch, sb_timestamp = nextTimestamp,
                              sb_transactions = []\<rparr>), bq)
         else (Inl StageEOF, bq\<lparr>bq_l1_blocks := tl (bq_l1_blocks bq)\<rparr>))"

definition derive_next_batch ::
  "l2_env \<Rightarrow> rollup_config \<Rightarrow> bool \<Rightarrow> l2_ref \<Rightarrow> batch_queue \<Rightarrow> (stage_err + batch) \<times> batch_queue" where
  "derive_next_batch env cfg outOfData parent bq =
     (if bq_l1_blocks bq = [] then (Inl CriticalError, bq)
      else let epoch = hd (bq_l1_blocks bq)
        in if l2_l1_origin parent \<noteq> l1_id epoch \<and>
              bid_number (l2_l1_origin parent) \<noteq> l1_number epoch - 1
           then (Inl ResetError, bq)
           else case scan_batches env cfg (bq_l1_blocks bq) parent (bq_batches bq) [] of
               ScanPanic \<Rightarrow> (Inl StagePanic, bq)
             | ScanUndecided remaining \<Rightarrow> (Inl StageEOF, bq\<lparr>bq_batches := remaining\<rparr>)
             | ScanFound b remaining \<Rightarrow> (Inr b, bq\<lparr>bq_batches := remaining\<rparr>)
             | ScanNone remaining \<Rightarrow>
                 force_empty_batch cfg outOfData parent (bq\<lparr>bq_batches := remaining\<rparr>))"

text \<open>What is done with the batch found: a span is cached as singular batches, the first popped.\<close>

definition emit_batch ::
  "l2_ref \<Rightarrow> batch \<Rightarrow> batch_queue \<Rightarrow> (stage_err + singular_batch \<times> bool) \<times> batch_queue" where
  "emit_batch parent b bq =
     (case b of
        Singular s \<Rightarrow> (Inr (s, bq_next_span bq = []), bq)
      | Span sp \<Rightarrow>
          (case get_singular_batches sp (bq_l1_blocks bq) parent of
             Inl _ \<Rightarrow> (Inl CriticalError, bq)
           | Inr singulars \<Rightarrow>
               (case pop_next_batch parent (bq\<lparr>bq_next_span := singulars\<rparr>) of
                  Inl e \<Rightarrow> (Inl e, bq)
                | Inr (s, bq') \<Rightarrow> (Inr (s, bq_next_span bq' = []), bq'))))"

text \<open>The stage's own pull, after the cache: advance, load the batch pulled, derive.\<close>

definition fill_and_derive ::
  "l2_env \<Rightarrow> rollup_config \<Rightarrow> l2_ref \<Rightarrow> l1_ref \<Rightarrow> stage_err + batch \<Rightarrow> batch_queue \<Rightarrow>
   (stage_err + singular_batch \<times> bool) \<times> batch_queue" where
  "fill_and_derive env cfg parent prevOrigin pulled bq =
     (let originBehind = l1_number prevOrigin < bid_number (l2_l1_origin parent);
          bq1 = advance_origin prevOrigin originBehind
                  (bq\<lparr>bq_l1_blocks := advance_l1_blocks (bid_number (l2_l1_origin parent)) (bq_l1_blocks bq)\<rparr>);
          outOfData = (pulled = Inl StageEOF)
      in if \<not> outOfData \<and> isl pulled then (Inl (projl pulled), bq1)
         else case (if outOfData \<or> originBehind then Inr bq1
                    else add_batch env cfg parent (projr pulled) bq1) of
             Inl e \<Rightarrow> (Inl e, bq1)
           | Inr bq2 \<Rightarrow>
               if originBehind then (Inl (if outOfData then StageEOF else NotEnoughData), bq2)
               else (case derive_next_batch env cfg outOfData parent bq2 of
                   (Inl StageEOF, bq3) \<Rightarrow> (Inl (if outOfData then StageEOF else NotEnoughData), bq3)
                 | (Inl e, bq3) \<Rightarrow> (Inl e, bq3)
                 | (Inr b, bq3) \<Rightarrow> emit_batch parent b bq3))"

definition next_batch ::
  "l2_env \<Rightarrow> rollup_config \<Rightarrow> l2_ref \<Rightarrow> l1_ref \<Rightarrow> stage_err + batch \<Rightarrow> batch_queue \<Rightarrow>
   (stage_err + singular_batch \<times> bool) \<times> batch_queue" where
  "next_batch env cfg parent prevOrigin pulled bq =
     (case bq_next_span bq of
        [] \<Rightarrow> fill_and_derive env cfg parent prevOrigin pulled bq
      | s # rest \<Rightarrow>
          if sb_timestamp s = l2_time parent + rc_block_time cfg
          then (case pop_next_batch parent bq of
              Inl e \<Rightarrow> (Inl e, bq)
            | Inr (s', bq') \<Rightarrow> (Inr (s', bq_next_span bq' = []), bq'))
          else fill_and_derive env cfg parent prevOrigin pulled (bq\<lparr>bq_next_span := []\<rparr>))"

definition batch_queue_reset :: "l1_ref \<Rightarrow> batch_queue" where
  "batch_queue_reset base =
     \<lparr>bq_origin = base, bq_l1_blocks = [base], bq_batches = [], bq_next_span = []\<rparr>"

end
