(* ===== verification/Derive_Queue_Props.thy ===== *)
theory Derive_Queue_Props
  imports Derive_Queue
begin

text \<open>
  What the batch rules guarantee. A span batch is well formed if its blocks are one block time
  apart and each keeps its predecessor's epoch or takes the next; an accepted span of new
  blocks is then as good as its blocks sent one by one, the checker does not panic, and the
  queue only returns batches that build on the safe head.
\<close>

section \<open>Well-formed spans and consecutive L1 blocks\<close>

definition wf_span :: "rollup_config \<Rightarrow> span_batch \<Rightarrow> bool" where
  "wf_span cfg b \<longleftrightarrow> sp_batches b \<noteq> [] \<and>
     (\<forall>i. Suc i < span_block_count b \<longrightarrow>
        unat (span_block_timestamp b (Suc i)) =
          unat (span_block_timestamp b i) + unat (rc_block_time cfg) \<and>
        (unat (span_block_epoch b (Suc i)) = unat (span_block_epoch b i) \<or>
         unat (span_block_epoch b (Suc i)) = unat (span_block_epoch b i) + 1))"

definition l1_consecutive :: "l1_ref list \<Rightarrow> bool" where
  "l1_consecutive bs \<longleftrightarrow>
     (\<forall>k < length bs. unat (l1_number (bs ! k)) = unat (l1_number (bs ! 0)) + k)"

lemma wf_span_count: "wf_span cfg b \<Longrightarrow> 0 < span_block_count b"
  by (simp add: wf_span_def span_block_count_def)

lemma wf_span_time:
  "wf_span cfg b \<Longrightarrow> i < span_block_count b \<Longrightarrow>
   unat (span_block_timestamp b i) = unat (span_timestamp b) + i * unat (rc_block_time cfg)"
proof (induction i)
  case 0
  show ?case by (simp add: span_timestamp_def span_block_timestamp_def)
qed (simp add: wf_span_def)

lemma wf_span_time_add:
  assumes "wf_span cfg b" "Suc i < span_block_count b"
  shows "span_block_timestamp b (Suc i) = span_block_timestamp b i + rc_block_time cfg"
proof -
  have "unat (span_block_timestamp b (Suc i)) =
      unat (span_block_timestamp b i) + unat (rc_block_time cfg)"
    using assms by (simp add: wf_span_def)
  then show ?thesis using unat_lt [of "span_block_timestamp b (Suc i)"]
    by (simp add: word_unat_eq_iff unat_word_ariths)
qed

lemma wf_span_epoch_mono:
  assumes "wf_span cfg b" "i \<le> j" "j < span_block_count b"
  shows "unat (span_block_epoch b i) \<le> unat (span_block_epoch b j)"
  using assms(2,3)
proof (induction j rule: dec_induct)
  case (step n)
  then show ?case using assms(1) by (fastforce simp: wf_span_def)
qed simp

lemma unat_next: "unat (e :: u64) = unat a + 1 \<Longrightarrow> e = a + 1"
proof -
  assume e: "unat e = unat a + 1"
  then have "unat (a + 1) = unat a + 1" using unat_lt [of e] by (simp add: unat_word_ariths)
  then show ?thesis using e by (simp add: word_unat_eq_iff)
qed

lemma word_next_cases:
  fixes e a :: u64
  assumes "\<not> e > a + 1" "\<not> e < a"
  shows "e = a \<or> e = a + 1 \<and> unat e = unat a + 1"
proof -
  have "unat e \<le> (unat a + 1) mod 2 ^ 64" "unat a \<le> unat e"
    using assms by (simp_all add: word_less_nat_alt unat_word_ariths not_less)
  moreover have "(unat a + 1) mod 2 ^ 64 \<le> unat a + 1" by simp
  ultimately have "unat e = unat a \<or> unat e = unat a + 1" by linarith
  then show ?thesis using unat_next [of e a] by (auto simp: word_unat_eq_iff)
qed

lemma dropWhile_nth:
  "k < length xs \<Longrightarrow> \<not> P (xs ! k) \<Longrightarrow> (\<forall>j < k. P (xs ! j)) \<Longrightarrow> dropWhile P xs = drop k xs"
proof (induction xs arbitrary: k)
  case (Cons x xs)
  show ?case
  proof (cases k)
    case (Suc k')
    have "P x" "\<forall>j < k'. P (xs ! j)"
      using Cons.prems(3) [rule_format, of 0] Cons.prems(3) [rule_format, of "Suc _"] Suc by simp_all
    then show ?thesis using Cons.IH [of k'] Cons.prems(1,2) Suc by simp
  qed (use Cons.prems in simp)
qed simp

lemma find_append_Some: "\<forall>y \<in> set xs. \<not> P y \<Longrightarrow> P x \<Longrightarrow> List.find P (xs @ x # ys) = Some x"
  by (induction xs) auto

lemma find_origin_Some:
  assumes "l1_consecutive bs" "j \<le> k" "k < length bs" "l1_number (bs ! k) = num"
  shows "find_origin bs j num = Some k"
proof -
  have "\<not> (\<exists>k' < k. j \<le> k' \<and> l1_number (bs ! k') = num)"
  proof
    assume "\<exists>k' < k. j \<le> k' \<and> l1_number (bs ! k') = num"
    then obtain k' where k': "k' < k" "l1_number (bs ! k') = l1_number (bs ! k)" using assms(4) by auto
    then have "unat (l1_number (bs ! 0)) + k' = unat (l1_number (bs ! 0)) + k"
      using assms(1,3) unfolding l1_consecutive_def by (metis order_less_trans)
    then show False using k' by simp
  qed
  then have e: "\<And>x. j \<le> x \<Longrightarrow> x < k \<Longrightarrow> l1_number (bs ! x) \<noteq> num" by blast
  have "[j..<length bs] = [j..<k] @ k # [Suc k..<length bs]"
    using assms(2,3) by (metis le_add_diff_inverse less_imp_le_nat upt_add_eq_append upt_conv_Cons)
  then show ?thesis unfolding find_origin_def
    using find_append_Some [of "[j..<k]" "\<lambda>k. l1_number (bs ! k) = num" k "[Suc k..<length bs]"] e assms(4)
    by simp
qed

lemma advance_l1_blocks_drop:
  assumes "l1_consecutive bs" "k < length bs" "num = l1_number (bs ! k)"
  shows "advance_l1_blocks num bs = drop k bs"
proof (cases "k = 0")
  case True
  then show ?thesis using assms by (auto simp: advance_l1_blocks_def hd_conv_nth)
next
  case False
  have n: "unat (l1_number (bs ! j)) = unat (l1_number (bs ! 0)) + j" if "j \<le> k" for j
    using assms(1,2) that by (simp add: l1_consecutive_def)
  have "l1_number (bs ! j) \<noteq> num" if "j < k" for j
    using n [of j] n [of k] that assms(3) by auto
  then have "dropWhile (\<lambda>b. l1_number b \<noteq> num) bs = drop k bs"
    using assms by (intro dropWhile_nth) auto
  moreover have "num > l1_number (bs ! 0)" using n [of k] False assms(3) by (simp add: word_less_nat_alt)
  moreover have "hd bs = bs ! 0" "bs \<noteq> []" using assms(2) by (cases bs; simp)+
  ultimately show ?thesis using assms(2)
    by (cases "drop k bs") (auto simp: advance_l1_blocks_def)
qed

section \<open>What acceptance of a span says\<close>

lemma require_Inr [simp]: "require c v = Inr u \<longleftrightarrow> c"
  by (simp add: require_def)

definition block_ok ::
  "rollup_config \<Rightarrow> l1_ref list \<Rightarrow> span_batch \<Rightarrow> bool \<Rightarrow> nat \<Rightarrow> bool" where
  "block_ok cfg bs b adv i \<longleftrightarrow>
     (\<exists>k < length bs. l1_number (bs ! k) = span_block_epoch b i \<and>
        \<not> span_block_timestamp b i < l1_time (bs ! k) \<and>
        span_drift cfg bs k (if i > 0 then span_block_epoch b i > span_block_epoch b (i - 1) else adv)
          (bs ! k) (sp_batches b ! i) = Inr () \<and>
        txs_ok (span_block_transactions b i))"

lemma loop_blocks_ok:
  assumes "l1_consecutive bs"
    and new: "\<forall>i. a \<le> i \<and> i < n \<longrightarrow> span_block_timestamp b i > l2_time safe"
    and found: "\<forall>i. a \<le> i \<and> i < n \<longrightarrow> (\<exists>k < length bs. l1_number (bs ! k) = span_block_epoch b i \<and> fst st \<le> k)"
    and mono: "\<forall>i. a \<le> i \<and> i < n \<longrightarrow> unat (span_block_epoch b a) \<le> unat (span_block_epoch b i)"
    and mono2: "\<forall>i j. a \<le> i \<and> i \<le> j \<and> j < n \<longrightarrow> unat (span_block_epoch b i) \<le> unat (span_block_epoch b j)"
    and adv: "a = 0 \<longrightarrow> snd st = adv"
    and "span_blocks_loop cfg bs safe b [a..<n] st = Inr st'" "a \<le> i" "i < n"
  shows "block_ok cfg bs b adv i"
  using assms(2-)
proof (induction "n - a" arbitrary: a st)
  case (Suc d)
  then have a: "a < n" by simp
  obtain k where k: "k < length bs" "l1_number (bs ! k) = span_block_epoch b a" "fst st \<le> k"
    using Suc.prems(2) a by blast
  have f: "find_origin bs (fst st) (se_epoch_num (sp_batches b ! a)) = Some k"
    using find_origin_Some [OF assms(1) k(3,1)] k(2) by (simp add: span_block_epoch_def)
  have "\<not> se_timestamp (sp_batches b ! a) \<le> l2_time safe"
    using Suc.prems(1) a by (simp add: span_block_timestamp_def not_le)
  then obtain adv' where step: "check_span_block cfg bs safe b a st = Inr (k, adv')"
      "span_blocks_loop cfg bs safe b [Suc a..<n] (k, adv') = Inr st'"
      and ok: "\<not> se_timestamp (sp_batches b ! a) < l1_time (bs ! k)"
        "span_drift cfg bs k adv' (bs ! k) (sp_batches b ! a) = Inr ()"
        "txs_ok (se_transactions (sp_batches b ! a))"
        "adv' = (if a > 0 then span_block_epoch b a > span_block_epoch b (a - 1) else snd st)"
    using Suc.prems(6) a f unfolding upt_conv_Cons [OF a]
    by (auto simp: check_span_block_def rbind_eq_Inr Let_def simp del: One_nat_def)
  show ?case
  proof (cases "i = a")
    case True
    then show ?thesis using ok k Suc.prems(5)
      by (auto simp: block_ok_def span_block_timestamp_def span_block_transactions_def
          intro!: exI [of _ k])
  next
    case False
    have kk: "unat (l1_number (bs ! m)) = unat (l1_number (bs ! 0)) + m" if "m < length bs" for m
      using assms(1) that by (simp add: l1_consecutive_def)
    have found': "\<exists>m < length bs. l1_number (bs ! m) = span_block_epoch b j \<and> k \<le> m"
      if j: "Suc a \<le> j" "j < n" for j
    proof -
      obtain m where m: "m < length bs" "l1_number (bs ! m) = span_block_epoch b j"
        using Suc.prems(2) j by (metis Suc_leD)
      have "unat (span_block_epoch b a) \<le> unat (span_block_epoch b j)"
        using Suc.prems(3) j by simp
      then have "k \<le> m" using kk [OF m(1)] kk [OF k(1)] m(2) k(2) by simp
      then show ?thesis using m by blast
    qed
    show ?thesis
    proof (rule Suc.hyps(1) [of "Suc a" "(k, adv')"])
      show "d = n - Suc a" using Suc.hyps(2) by simp
      show "\<forall>i. Suc a \<le> i \<and> i < n \<longrightarrow>
          (\<exists>m < length bs. l1_number (bs ! m) = span_block_epoch b i \<and> fst (k, adv') \<le> m)"
        using found' by simp
      show "\<forall>i. Suc a \<le> i \<and> i < n \<longrightarrow> unat (span_block_epoch b (Suc a)) \<le> unat (span_block_epoch b i)"
        using Suc.prems(4) by simp
      show "span_blocks_loop cfg bs safe b [Suc a..<n] (k, adv') = Inr st'" by (rule step(2))
    qed (use Suc.prems(1,4,7,8) False in auto)
  qed
qed simp

text \<open>The singular batch of a block, and the conversion when every origin is known.\<close>

definition singular_of :: "l1_ref list \<Rightarrow> span_batch \<Rightarrow> nat \<Rightarrow> singular_batch" where
  "singular_of bs b i =
     \<lparr>sb_parent_hash = zero_hash32, sb_epoch_num = span_block_epoch b i,
      sb_epoch_hash = l1_hash (bs ! (unat (span_block_epoch b i) - unat (l1_number (bs ! 0)))),
      sb_timestamp = span_block_timestamp b i, sb_transactions = span_block_transactions b i\<rparr>"

lemma consecutive_index:
  "l1_consecutive bs \<Longrightarrow> k < length bs \<Longrightarrow> l1_number (bs ! k) = e \<Longrightarrow>
   k = unat e - unat (l1_number (bs ! 0))"
  by (auto simp: l1_consecutive_def)

lemma singulars_of_blocks:
  assumes "l1_consecutive bs" "n = span_block_count b"
    and "\<forall>i. a \<le> i \<and> i < n \<longrightarrow> span_block_timestamp b i > l2_time safe"
    and "\<forall>i. a \<le> i \<and> i < n \<longrightarrow> (\<exists>k < length bs. l1_number (bs ! k) = span_block_epoch b i \<and> j \<le> k)"
    and "\<forall>i j. a \<le> i \<and> i \<le> j \<and> j < n \<longrightarrow> unat (span_block_epoch b i) \<le> unat (span_block_epoch b j)"
    and "a \<le> n"
  shows "singulars_loop bs safe (drop a (sp_batches b)) j = Inr (map (singular_of bs b) [a..<n])"
  using assms(3-)
proof (induction "n - a" arbitrary: a j)
  case 0
  then show ?case using assms(2) by (simp add: span_block_count_def)
next
  case (Suc d)
  then have a: "a < n" by simp
  obtain k where k: "k < length bs" "l1_number (bs ! k) = span_block_epoch b a" "j \<le> k"
    using Suc.prems(2) a by blast
  have kk: "unat (l1_number (bs ! m)) = unat (l1_number (bs ! 0)) + m" if "m < length bs" for m
    using assms(1) that by (simp add: l1_consecutive_def)
  have found': "\<exists>m < length bs. l1_number (bs ! m) = span_block_epoch b i \<and> k \<le> m"
    if i: "Suc a \<le> i" "i < n" for i
  proof -
    obtain m where m: "m < length bs" "l1_number (bs ! m) = span_block_epoch b i"
      using Suc.prems(2) i by (metis Suc_leD)
    have "unat (span_block_epoch b a) \<le> unat (span_block_epoch b i)"
      using Suc.prems(3) i by simp
    then have "k \<le> m" using kk [OF m(1)] kk [OF k(1)] m(2) k(2) by simp
    then show ?thesis using m by blast
  qed
  have rest: "singulars_loop bs safe (drop (Suc a) (sp_batches b)) k =
      Inr (map (singular_of bs b) [Suc a..<n])"
    using Suc.hyps(2) found' Suc.prems(1,3) a by (intro Suc.hyps(1)) auto
  have f: "find_origin bs j (span_block_epoch b a) = Some k"
    using find_origin_Some [OF assms(1) k(3,1,2)] .
  have "drop a (sp_batches b) = sp_batches b ! a # drop (Suc a) (sp_batches b)"
    using a assms(2) by (simp add: Cons_nth_drop_Suc span_block_count_def)
  moreover have "\<not> se_timestamp (sp_batches b ! a) \<le> l2_time safe"
    using Suc.prems(1) a by (simp add: span_block_timestamp_def not_le)
  ultimately show ?case
    using rest f consecutive_index [OF assms(1) k(1,2)] upt_conv_Cons [OF a]
    by (simp add: singular_of_def span_block_epoch_def span_block_timestamp_def
        span_block_transactions_def)
qed

text \<open>A block that passed the span rules passes the singular rules on top of its predecessor.\<close>

lemma block_ok_singular:
  assumes "l1_consecutive bs" "block_ok cfg bs b adv i" "i < span_block_count b"
    and q: "q < length bs" "l1_number (bs ! q) = bid_number (l2_l1_origin p)"
    and step: "unat (span_block_epoch b i) = unat (bid_number (l2_l1_origin p)) \<or>
      unat (span_block_epoch b i) = unat (bid_number (l2_l1_origin p)) + 1"
    and adv: "(if i > 0 then span_block_epoch b i > span_block_epoch b (i - 1) else adv) =
      (span_block_epoch b i \<noteq> bid_number (l2_l1_origin p))"
    and time: "span_block_timestamp b i = l2_time p + rc_block_time cfg"
    and window: "\<not> span_block_epoch b i + rc_seq_window_size cfg < l1_number inclusion"
  shows "check_singular_batch cfg (advance_l1_blocks (bid_number (l2_l1_origin p)) bs) p
     ((singular_of bs b i)\<lparr>sb_parent_hash := l2_hash p\<rparr>) inclusion = BatchAccept"
proof -
  let ?prev = "bid_number (l2_l1_origin p)" and ?e = "span_block_epoch b i"
  let ?s = "(singular_of bs b i)\<lparr>sb_parent_hash := l2_hash p\<rparr>"
  let ?bs = "drop q bs"
  obtain k where k: "k < length bs" "l1_number (bs ! k) = ?e"
      "\<not> span_block_timestamp b i < l1_time (bs ! k)"
      "span_drift cfg bs k (?e \<noteq> ?prev) (bs ! k) (sp_batches b ! i) = Inr ()"
      "txs_ok (span_block_transactions b i)"
    using assms(2) unfolding block_ok_def adv by blast
  have kk: "unat (l1_number (bs ! m)) = unat (l1_number (bs ! 0)) + m" if "m < length bs" for m
    using assms(1) that by (simp add: l1_consecutive_def)
  have bs: "advance_l1_blocks ?prev bs = ?bs"
    using q by (intro advance_l1_blocks_drop [OF assms(1)]) simp_all
  have nth: "?bs \<noteq> []" "?bs ! 0 = bs ! q" "length ?bs < 2 \<longleftrightarrow> \<not> q + 1 < length bs"
    using q(1) by auto
  have nth1: "?bs ! 1 = bs ! (q + 1)" if "q + 1 < length bs" using that by simp
  have hash: "sb_epoch_hash ?s = l1_hash (bs ! k)"
    using consecutive_index [OF assms(1) k(1,2)] by (simp add: singular_of_def)
  have cases: "?e = ?prev \<and> k = q \<or> ?e = ?prev + 1 \<and> ?e \<noteq> ?prev \<and> \<not> ?e < ?prev \<and> k = q + 1"
  proof -
    have "k = q" if "?e = ?prev" using kk [OF k(1)] kk [OF q(1)] k(2) q(2) that by simp
    moreover have "?e = ?prev + 1 \<and> \<not> ?e < ?prev \<and> k = q + 1" if "unat ?e = unat ?prev + 1"
      using unat_next [OF that] kk [OF k(1)] kk [OF q(1)] k(2) q(2) that
      by (simp add: word_less_nat_alt)
    ultimately show ?thesis using step by (auto simp: word_unat_eq_iff)
  qed
  have origin: "singular_origin ?bs ?e = Inr (bs ! k)"
    using cases k(1) nth nth1 q(2) by (auto simp: singular_origin_def Let_def)
  have drift: "singular_drift cfg ?bs (bs ! k) ?s = Inr ()"
    using k(4) cases nth nth1 q(2) k(1,2)
    by (auto simp: singular_drift_def span_drift_def singular_of_def span_block_timestamp_def
        span_block_transactions_def split: if_splits)
  show ?thesis unfolding bs check_singular_batch_def
    using nth(1) origin drift hash k(3,5) time window
    by (simp add: Let_def singular_of_def)
qed

text \<open>No rule accepts early: an accepted span passed every one of them.\<close>

lemma require_Inl [simp]: "require c v = Inl out \<longleftrightarrow> \<not> c \<and> out = Verdict v"
  by (auto simp: require_def)

lemma rbind_no_accept:
  "r \<noteq> Inl (Verdict BatchAccept) \<Longrightarrow> (\<And>x. f x \<noteq> Inl (Verdict BatchAccept)) \<Longrightarrow>
   rbind r f \<noteq> Inl (Verdict BatchAccept)"
  by (cases r) auto

lemma no_accept_parts:
  "span_origin bs e \<noteq> Inl (Verdict BatchAccept)"
  "span_parent env cfg safe b \<noteq> Inl (Verdict BatchAccept)"
  "span_end_origin bs b \<noteq> Inl (Verdict BatchAccept)"
  "span_drift cfg bs k a l1 el \<noteq> Inl (Verdict BatchAccept)"
  "deposit_count txs \<noteq> Inl (Verdict BatchAccept)"
  by (auto simp: span_origin_def span_parent_def span_end_origin_def span_drift_def
      deposit_count_def Let_def split: option.splits)

lemma check_span_block_no_accept: "check_span_block cfg bs safe b i st \<noteq> Inl (Verdict BatchAccept)"
  by (auto simp: check_span_block_def Let_def rbind_eq_Inl no_accept_parts split: prod.splits)

lemma loop_no_accept: "span_blocks_loop cfg bs safe b is st \<noteq> Inl (Verdict BatchAccept)"
  by (induction "is" arbitrary: st) (auto simp: rbind_eq_Inl check_span_block_no_accept)

lemma overlap_no_accept: "overlap_loop env cfg b n is \<noteq> Inl (Verdict BatchAccept)"
  by (induction "is")
     (auto simp: rbind_eq_Inl check_overlapped_block_def no_accept_parts split: option.splits sum.splits)

lemma check_span_rules_no_accept:
  "check_span_rules env cfg bs safe b inclusion \<noteq> Inl (Verdict BatchAccept)"
  unfolding check_span_rules_def span_prechecks_def span_epochs_def
  by (auto simp: rbind_eq_Inl no_accept_parts loop_no_accept overlap_no_accept
      split: prod.splits if_splits)

lemma accepted_rules:
  "check_span_batch env cfg bs safe b inclusion = Verdict BatchAccept \<longleftrightarrow>
   check_span_rules env cfg bs safe b inclusion = Inr ()"
  using check_span_rules_no_accept [of env cfg bs safe b inclusion]
  by (auto simp: check_span_batch_def split: sum.splits)

lemma accepted_new_span:
  assumes "check_span_batch env cfg bs safe b inclusion = Verdict BatchAccept"
    and "\<not> span_timestamp b < l2_time safe + rc_block_time cfg"
  shows "span_timestamp b = l2_time safe + rc_block_time cfg"
    and "\<not> span_start_epoch b + rc_seq_window_size cfg < l1_number inclusion"
    and "\<not> span_start_epoch b > bid_number (l2_l1_origin safe) + 1"
    and "\<not> span_start_epoch b < bid_number (l2_l1_origin safe)"
    and "\<exists>k < length bs. l1_number (bs ! k) = span_block_epoch b (span_block_count b - 1)"
    and "\<exists>st. span_blocks_loop cfg bs safe b [0..<span_block_count b]
           (0, span_start_epoch b = bid_number (l2_l1_origin safe) + 1) = Inr st"
proof -
  have p: "span_parent env cfg safe b = Inr (l2_number safe, safe)"
    using assms(2) by (simp add: span_parent_def Let_def)
  have r: "span_prechecks cfg bs safe b = Inr ()"
      "span_epochs cfg bs safe b inclusion = Inr ()"
      "\<exists>st. span_blocks_loop cfg bs safe b [0..<span_block_count b]
           (0, span_start_epoch b = bid_number (l2_l1_origin safe) + 1) = Inr st"
    using assms(1) unfolding accepted_rules check_span_rules_def p
    by (auto simp: rbind_eq_Inr)
  show "\<exists>st. span_blocks_loop cfg bs safe b [0..<span_block_count b]
           (0, span_start_epoch b = bid_number (l2_l1_origin safe) + 1) = Inr st" by (rule r(3))
  show "span_timestamp b = l2_time safe + rc_block_time cfg"
    using r(1) assms(2) by (auto simp: span_prechecks_def rbind_eq_Inr)
  have e: "span_end_origin bs b = Inr ()" "\<not> span_start_epoch b + rc_seq_window_size cfg < l1_number inclusion"
      "\<not> span_start_epoch b > bid_number (l2_l1_origin safe) + 1"
      "\<not> span_start_epoch b < bid_number (l2_l1_origin safe)"
    using r(2) by (auto simp: span_epochs_def rbind_eq_Inr)
  then show "\<not> span_start_epoch b + rc_seq_window_size cfg < l1_number inclusion"
      "\<not> span_start_epoch b > bid_number (l2_l1_origin safe) + 1"
      "\<not> span_start_epoch b < bid_number (l2_l1_origin safe)" by blast+
  show "\<exists>k < length bs. l1_number (bs ! k) = span_block_epoch b (span_block_count b - 1)"
    using e(1) by (auto simp: span_end_origin_def find_Some_iff split: option.splits)
qed

text \<open>The epochs of an accepted span of new blocks all are among the L1 blocks.\<close>

lemma accepted_epochs_found:
  assumes "wf_span cfg b" "l1_consecutive bs"
    and lo: "unat (l1_number (bs ! 0)) \<le> unat (span_start_epoch b)"
    and last: "\<exists>k < length bs. l1_number (bs ! k) = span_block_epoch b (span_block_count b - 1)"
    and i: "i < span_block_count b"
  shows "\<exists>k < length bs. l1_number (bs ! k) = span_block_epoch b i"
proof -
  obtain m where m: "m < length bs" "l1_number (bs ! m) = span_block_epoch b (span_block_count b - 1)"
    using last by blast
  have kk: "unat (l1_number (bs ! j)) = unat (l1_number (bs ! 0)) + j" if "j < length bs" for j
    using assms(2) that by (simp add: l1_consecutive_def)
  have le: "unat (span_start_epoch b) \<le> unat (span_block_epoch b i)"
    using wf_span_epoch_mono [OF assms(1), of 0 i] i by (simp add: span_start_epoch_def span_block_epoch_def)
  have ge: "unat (span_block_epoch b i) \<le> unat (l1_number (bs ! 0)) + m"
    using wf_span_epoch_mono [OF assms(1), of i "span_block_count b - 1"] i m kk [OF m(1)] by simp
  define k where "k = unat (span_block_epoch b i) - unat (l1_number (bs ! 0))"
  have "k \<le> m" "unat (l1_number (bs ! 0)) + k = unat (span_block_epoch b i)"
    using le ge lo by (simp_all add: k_def)
  then have "k < length bs" "l1_number (bs ! k) = span_block_epoch b i"
    using m(1) kk [of k] by (simp_all add: word_unat_eq_iff)
  then show ?thesis by blast
qed

text \<open>What acceptance gives for every block of a new span, and its conversion.\<close>

lemma accepted_new_blocks:
  assumes "wf_span cfg b" "l1_consecutive bs"
    and "check_span_batch env cfg bs safe b inclusion = Verdict BatchAccept"
    and "\<not> span_timestamp b < l2_time safe + rc_block_time cfg"
    and "bid_number (l2_l1_origin safe) = l1_number (bs ! 0)"
    and "rc_block_time cfg \<noteq> 0" "unat (l2_time safe) + unat (rc_block_time cfg) < 2 ^ 64"
    and "unat (span_block_epoch b (span_block_count b - 1)) + unat (rc_seq_window_size cfg) < 2 ^ 64"
  shows "get_singular_batches b bs safe = Inr (map (singular_of bs b) [0..<span_block_count b])"
    and "i < span_block_count b \<Longrightarrow>
      block_ok cfg bs b (span_start_epoch b = bid_number (l2_l1_origin safe) + 1) i"
    and "i < span_block_count b \<Longrightarrow>
      \<not> span_block_epoch b i + rc_seq_window_size cfg < l1_number inclusion"
    and "i < span_block_count b \<Longrightarrow> \<exists>k < length bs. l1_number (bs ! k) = span_block_epoch b i"
proof -
  let ?n = "span_block_count b" and ?adv = "span_start_epoch b = bid_number (l2_l1_origin safe) + 1"
  note acc = accepted_new_span [OF assms(3,4)]
  obtain st where loop: "span_blocks_loop cfg bs safe b [0..<?n] (0, ?adv) = Inr st"
    using acc(6) by blast
  have n: "0 < ?n" by (rule wf_span_count [OF assms(1)])
  have next_time: "unat (span_timestamp b) = unat (l2_time safe) + unat (rc_block_time cfg)"
    using acc(1) assms(7) by (simp add: unat_word_ariths)
  have new: "span_block_timestamp b i > l2_time safe" if "i < ?n" for i
  proof -
    have "unat (rc_block_time cfg) > 0" using assms(6) by (simp add: unat_gt_0)
    then show ?thesis using wf_span_time [OF assms(1) that] next_time by (simp add: word_less_nat_alt)
  qed
  have lo: "unat (l1_number (bs ! 0)) \<le> unat (span_start_epoch b)"
    using acc(4) assms(5) by (simp add: word_le_nat_alt not_less)
  have found: "\<exists>k < length bs. l1_number (bs ! k) = span_block_epoch b i" if "i < ?n" for i
    using accepted_epochs_found [OF assms(1,2) lo acc(5) that] .
  have mono: "unat (span_block_epoch b i) \<le> unat (span_block_epoch b j)" if "i \<le> j" "j < ?n" for i j
    using wf_span_epoch_mono [OF assms(1)] that .
  show "block_ok cfg bs b ?adv i" if "i < ?n"
    using loop_blocks_ok [OF assms(2), where a = 0 and n = ?n and b = b and safe = safe and
        st = "(0, ?adv)" and adv = ?adv and cfg = cfg and st' = st and i = i] new found mono loop that
    by simp
  show "get_singular_batches b bs safe = Inr (map (singular_of bs b) [0..<?n])"
    using singulars_of_blocks [OF assms(2) refl, where a = 0 and b = b and safe = safe and j = 0]
      new found mono by (simp add: get_singular_batches_def)
  show "\<exists>k < length bs. l1_number (bs ! k) = span_block_epoch b i" if "i < ?n" using found that .
  show "\<not> span_block_epoch b i + rc_seq_window_size cfg < l1_number inclusion" if "i < ?n"
  proof -
    have "unat (span_start_epoch b) \<le> unat (span_block_epoch b i)"
      "unat (span_block_epoch b i) \<le> unat (span_block_epoch b (?n - 1))"
      using mono [of 0 i] mono [of i "?n - 1"] that by (simp_all add: span_start_epoch_def span_block_epoch_def)
    then show ?thesis using acc(2) assms(8) by (simp add: word_less_nat_alt unat_word_ariths)
  qed
qed

text \<open>C23. A span batch is as good as its blocks sent one by one: if an accepted, well-formed span
  starts right after the safe head, then its conversion to singular batches succeeds and
  block \<open>i\<close>, put on top of any block with the time and origin of block \<open>i - 1\<close> and checked against
  the L1 blocks from that origin on, is accepted by the rules for singular batches.\<close>

theorem span_accepted_as_singulars:
  assumes "wf_span cfg b" "l1_consecutive l1Blocks"
    and "check_span_batch env cfg l1Blocks safe b inclusion = Verdict BatchAccept"
    and "\<not> span_timestamp b < l2_time safe + rc_block_time cfg"
    and "bid_number (l2_l1_origin safe) = l1_number (l1Blocks ! 0)"
    and "rc_block_time cfg \<noteq> 0" "unat (l2_time safe) + unat (rc_block_time cfg) < 2 ^ 64"
    and "unat (span_block_epoch b (span_block_count b - 1)) + unat (rc_seq_window_size cfg) < 2 ^ 64"
  shows "\<exists>singulars. get_singular_batches b l1Blocks safe = Inr singulars \<and>
    length singulars = span_block_count b \<and>
    (\<forall>i < span_block_count b. \<forall>p.
       l2_time p = (if i = 0 then l2_time safe else span_block_timestamp b (i - 1)) \<and>
       bid_number (l2_l1_origin p) =
         (if i = 0 then bid_number (l2_l1_origin safe) else span_block_epoch b (i - 1)) \<longrightarrow>
       check_singular_batch cfg (advance_l1_blocks (bid_number (l2_l1_origin p)) l1Blocks) p
         ((singulars ! i)\<lparr>sb_parent_hash := l2_hash p\<rparr>) inclusion = BatchAccept)"
proof -
  let ?n = "span_block_count b" and ?adv = "span_start_epoch b = bid_number (l2_l1_origin safe) + 1"
  note acc = accepted_new_span [OF assms(3,4)] and blocks = accepted_new_blocks [OF assms]
  have e0: "span_start_epoch b = span_block_epoch b 0" "span_timestamp b = span_block_timestamp b 0"
    by (simp_all add: span_start_epoch_def span_block_epoch_def span_timestamp_def span_block_timestamp_def)
  have single: "check_singular_batch cfg (advance_l1_blocks (bid_number (l2_l1_origin p)) l1Blocks) p
      ((singular_of l1Blocks b i)\<lparr>sb_parent_hash := l2_hash p\<rparr>) inclusion = BatchAccept"
    if i: "i < ?n" and p: "l2_time p = (if i = 0 then l2_time safe else span_block_timestamp b (i - 1))"
      "bid_number (l2_l1_origin p) =
         (if i = 0 then bid_number (l2_l1_origin safe) else span_block_epoch b (i - 1))" for i p
  proof -
    have time: "span_block_timestamp b i = l2_time p + rc_block_time cfg"
      using p(1) acc(1) wf_span_time_add [OF assms(1), of "i - 1"] i e0 by (cases i) simp_all
    have first: "i = 0 \<Longrightarrow> span_block_epoch b i = bid_number (l2_l1_origin p) \<or>
        span_block_epoch b i = bid_number (l2_l1_origin p) + 1 \<and>
        unat (span_block_epoch b i) = unat (bid_number (l2_l1_origin p)) + 1"
      using p(2) e0 acc(3,4) word_next_cases by simp
    then have step: "unat (span_block_epoch b i) = unat (bid_number (l2_l1_origin p)) \<or>
        unat (span_block_epoch b i) = unat (bid_number (l2_l1_origin p)) + 1"
      using assms(1) p(2) i by (cases i) (auto simp: wf_span_def)
    have "\<exists>q < length l1Blocks. l1_number (l1Blocks ! q) = bid_number (l2_l1_origin p)"
      using p(2) blocks(4) [of "i - 1"] blocks(4) [OF i] i assms(5) by (cases i) (auto intro!: exI [of _ 0])
    then obtain q where q: "q < length l1Blocks" "l1_number (l1Blocks ! q) = bid_number (l2_l1_origin p)"
      by blast
    have adv: "(if i > 0 then span_block_epoch b i > span_block_epoch b (i - 1) else ?adv) =
        (span_block_epoch b i \<noteq> bid_number (l2_l1_origin p))"
    proof (cases i)
      case 0
      then show ?thesis using first p(2) e0 by auto
    next
      case (Suc j)
      then show ?thesis using step p(2) by (auto simp: word_less_nat_alt word_unat_eq_iff)
    qed
    show ?thesis by (rule block_ok_singular [OF assms(2) blocks(2) [OF i] i q step adv time blocks(3) [OF i]])
  qed
  then show ?thesis unfolding blocks(1)
    by (intro exI [of _ "map (singular_of l1Blocks b) [0..<?n]"]) simp
qed

definition demo_l1_blocks :: "l1_ref list" where
  "demo_l1_blocks =
     [\<lparr>l1_hash = replicate 32 10, l1_number = 10, l1_parent_hash = replicate 32 9, l1_time = 996\<rparr>,
      \<lparr>l1_hash = replicate 32 11, l1_number = 11, l1_parent_hash = replicate 32 10, l1_time = 1003\<rparr>]"

definition demo_safe :: l2_ref where
  "demo_safe = \<lparr>l2_hash = replicate 32 2, l2_number = 0, l2_parent_hash = zero_hash32, l2_time = 1000,
     l2_l1_origin = \<lparr>bid_hash = replicate 32 10, bid_number = 10\<rparr>, l2_sequence_number = 0\<rparr>"

definition demo_span :: span_batch where
  "demo_span = \<lparr>sp_parent_check = replicate 20 2, sp_l1_origin_check = replicate 20 11,
     sp_batches = [\<lparr>se_epoch_num = 10, se_timestamp = 1002, se_transactions = [[2, 1]]\<rparr>,
                   \<lparr>se_epoch_num = 11, se_timestamp = 1004, se_transactions = []\<rparr>]\<rparr>"

definition demo_env :: l2_env where
  "demo_env = \<lparr>env_txdec = (\<lambda>_. None), env_sig = [], env_l2_ref = (\<lambda>_. None), env_payload = (\<lambda>_. None)\<rparr>"

lemmas span_accessors = span_timestamp_def span_start_epoch_def span_block_epoch_def
  span_block_timestamp_def span_block_transactions_def span_block_count_def

lemma demo_span_accepted:
  "check_span_batch demo_env demo_config demo_l1_blocks demo_safe demo_span (demo_l1_blocks ! 1) =
     Verdict BatchAccept"
  unfolding accepted_rules check_span_rules_def
  by (simp add: span_prechecks_def span_origin_def span_accessors demo_span_def
      demo_l1_blocks_def demo_safe_def demo_config_def is_span_batch_def fork_active_def
      span_parent_def span_epochs_def check_parent_hash_def span_end_origin_def
      check_origin_hash_def check_span_block_def find_origin_def span_drift_def txs_ok_def
      deposit_tx_type_def require_def Let_def upt_rec)

lemma demo_span_wf: "wf_span demo_config demo_span" "l1_consecutive demo_l1_blocks"
  by (auto simp: wf_span_def span_accessors demo_span_def demo_config_def l1_consecutive_def
      demo_l1_blocks_def less_Suc_eq)

theorem span_accepted_as_singulars_witness:
  "\<exists>singulars. get_singular_batches demo_span demo_l1_blocks demo_safe = Inr singulars \<and>
     length singulars = 2 \<and>
     check_singular_batch demo_config demo_l1_blocks demo_safe
       ((singulars ! 0)\<lparr>sb_parent_hash := replicate 32 2\<rparr>) (demo_l1_blocks ! 1) = BatchAccept"
proof -
  obtain singulars where s: "get_singular_batches demo_span demo_l1_blocks demo_safe = Inr singulars"
      "length singulars = span_block_count demo_span"
    and all: "\<forall>i < span_block_count demo_span. \<forall>p.
       l2_time p = (if i = 0 then l2_time demo_safe else span_block_timestamp demo_span (i - 1)) \<and>
       bid_number (l2_l1_origin p) =
         (if i = 0 then bid_number (l2_l1_origin demo_safe) else span_block_epoch demo_span (i - 1)) \<longrightarrow>
       check_singular_batch demo_config
         (advance_l1_blocks (bid_number (l2_l1_origin p)) demo_l1_blocks) p
         ((singulars ! i)\<lparr>sb_parent_hash := l2_hash p\<rparr>) (demo_l1_blocks ! 1) = BatchAccept"
    using span_accepted_as_singulars [OF demo_span_wf demo_span_accepted]
    by (auto simp: span_accessors demo_span_def demo_safe_def demo_config_def demo_l1_blocks_def)
  have "check_singular_batch demo_config
      (advance_l1_blocks (bid_number (l2_l1_origin demo_safe)) demo_l1_blocks) demo_safe
      ((singulars ! 0)\<lparr>sb_parent_hash := l2_hash demo_safe\<rparr>) (demo_l1_blocks ! 1) = BatchAccept"
    using all [rule_format, of 0 demo_safe] by (simp add: span_block_count_def demo_span_def)
  moreover have "advance_l1_blocks (bid_number (l2_l1_origin demo_safe)) demo_l1_blocks = demo_l1_blocks"
    by (simp add: advance_l1_blocks_def demo_l1_blocks_def demo_safe_def)
  ultimately show ?thesis using s
    by (intro exI [of _ singulars]) (simp add: span_block_count_def demo_span_def demo_safe_def)
qed

section \<open>Batches on top of the safe head\<close>

lemma filter_hd_nth:
  "m < length xs \<Longrightarrow> P (xs ! m) \<Longrightarrow> (\<forall>j < m. \<not> P (xs ! j)) \<Longrightarrow> \<exists>ys. filter P xs = xs ! m # ys"
proof (induction xs arbitrary: m)
  case (Cons x xs)
  show ?case
  proof (cases m)
    case (Suc m')
    have "\<not> P x" "\<forall>j < m'. \<not> P (xs ! j)"
      using Cons.prems(3) [rule_format, of 0] Cons.prems(3) [rule_format, of "Suc _"] Suc by simp_all
    then show ?thesis using Cons.IH [of m'] Cons.prems(1,2) Suc by simp
  qed (use Cons.prems in simp)
qed simp

lemma singulars_times:
  "singulars_loop bs safe els j = Inr ss \<Longrightarrow>
   map sb_timestamp ss = filter (\<lambda>t. t > l2_time safe) (map se_timestamp els)"
proof (induction els arbitrary: j ss)
  case (Cons el els)
  then show ?case
    by (cases "se_timestamp el \<le> l2_time safe")
       (auto simp: rbind_eq_Inr not_less split: option.splits)
qed simp

text \<open>The first new block of an accepted span, overlapping or not, is the one after the safe head.\<close>

lemma checked_span_aligned:
  assumes "wf_span cfg b" "span_prechecks cfg bs safe b = Inr ()"
    and "span_parent env cfg safe b = Inr parent"
    and "rc_block_time cfg \<noteq> 0" "unat (l2_time safe) + unat (rc_block_time cfg) < 2 ^ 64"
  shows "\<exists>m < span_block_count b. unat (span_timestamp b) + m * unat (rc_block_time cfg) =
      unat (l2_time safe) + unat (rc_block_time cfg)"
proof -
  let ?T = "unat (l2_time safe)" and ?bt = "unat (rc_block_time cfg)" and ?t = "unat (span_timestamp b)"
  have next_time: "unat (l2_time safe + rc_block_time cfg) = ?T + ?bt"
    using assms(5) by (simp add: unat_word_ariths)
  note pre = assms(2) and par = assms(3)
  have up: "?t \<le> ?T + ?bt"
    and last: "?T + ?bt \<le> unat (span_block_timestamp b (span_block_count b - 1))"
    using pre next_time by (auto simp: span_prechecks_def rbind_eq_Inr word_less_nat_alt not_less)
  have n: "0 < span_block_count b" by (rule wf_span_count [OF assms(1)])
  have bt: "0 < ?bt" using assms(4) by (simp add: unat_gt_0)
  have last_time: "?T + ?bt \<le> ?t + (span_block_count b - 1) * ?bt"
    using last wf_span_time [OF assms(1), of "span_block_count b - 1"] n by simp
  show ?thesis
  proof (cases "span_timestamp b < l2_time safe + rc_block_time cfg")
    case False
    then show ?thesis using up next_time n by (intro exI [of _ 0]) (simp add: word_less_nat_alt)
  next
    case True
    then have le: "span_timestamp b \<le> l2_time safe"
        and md: "(l2_time safe - span_timestamp b) mod rc_block_time cfg = 0"
      using par by (auto simp: span_parent_def Let_def split: if_splits)
    then have "(?T - ?t) mod ?bt = 0"
      by (metis unat_mod_distrib unat_sub unat_0)
    then obtain q where q: "?T - ?t = ?bt * q" by (auto elim: dvdE simp: mod_eq_0_iff_dvd)
    have "?t \<le> ?T" using le by (simp add: word_le_nat_alt)
    then have T: "?T = ?t + q * ?bt" using q by (simp add: mult.commute)
    then have "(q + 1) * ?bt \<le> (span_block_count b - 1) * ?bt" using last_time by simp
    then have "q + 1 \<le> span_block_count b - 1" using bt by (simp only: mult_le_cancel2 simp_thms)
    then show ?thesis using T n by (intro exI [of _ "q + 1"]) simp
  qed
qed

text \<open>What holds of every span: the steps from block to block, as the machine adds.\<close>

definition span_steps :: "rollup_config \<Rightarrow> span_batch \<Rightarrow> bool" where
  "span_steps cfg b \<longleftrightarrow> sp_batches b \<noteq> [] \<and>
     (\<forall>i. Suc i < span_block_count b \<longrightarrow>
        span_block_timestamp b (Suc i) = span_block_timestamp b i + rc_block_time cfg \<and>
        (span_block_epoch b (Suc i) = span_block_epoch b i \<or>
         span_block_epoch b (Suc i) = span_block_epoch b i + 1))"

lemma span_steps_time:
  "span_steps cfg b \<Longrightarrow> i < span_block_count b \<Longrightarrow>
   span_block_timestamp b i = span_timestamp b + of_nat i * rc_block_time cfg"
proof (induction i)
  case 0
  then show ?case by (simp add: span_timestamp_def span_block_timestamp_def)
qed (simp add: span_steps_def algebra_simps)

text \<open>An overlapping span has enough blocks to be compared with the safe ones it repeats, also when its
  timestamps wrap around.\<close>

lemma overlap_in_span:
  assumes "span_steps cfg b" "span_prechecks cfg bs safe b = Inr ()"
    and "span_parent env cfg safe b = Inr (parentNum, parentBlock)"
    and "span_timestamp b < l2_time safe + rc_block_time cfg"
    and "rc_block_time cfg \<noteq> 0" "unat (l2_time safe) + unat (rc_block_time cfg) < 2 ^ 64"
  shows "unat (l2_number safe - parentNum) < span_block_count b"
proof (rule ccontr)
  let ?T = "unat (l2_time safe)" and ?bt = "unat (rc_block_time cfg)" and ?t = "unat (span_timestamp b)"
  let ?q = "(l2_time safe - span_timestamp b) div rc_block_time cfg"
  let ?m = "span_block_count b - 1"
  assume "\<not> unat (l2_number safe - parentNum) < span_block_count b"
  moreover have le: "span_timestamp b \<le> l2_time safe" and num: "parentNum = l2_number safe - ?q - 1"
    using assms(3,4) by (auto simp: span_parent_def Let_def split: if_splits option.splits)
  moreover have "unat (?q + 1) \<le> unat ?q + 1" by (simp add: unat_word_ariths)
  ultimately have "?m \<le> unat ?q" by simp
  then have "?m * ?bt \<le> unat ?q * ?bt" by (rule mult_le_mono1)
  also have "\<dots> \<le> ?T - ?t" using le by (simp add: unat_div_distrib unat_sub)
  finally have m: "?m * ?bt \<le> ?T - ?t" .
  then have le64: "?t + ?m * ?bt \<le> ?T" using le by (simp add: word_le_nat_alt)
  have "?m * ?bt < 2 ^ 64" using m unat_lt [of "l2_time safe"] by simp
  moreover from this have "?m < 2 ^ 64"
    using assms(5) by (metis less_le_trans mult.right_neutral mult_le_mono2 not_less unat_eq_zero leI less_one)
  ultimately have "unat (of_nat ?m * rc_block_time cfg) = ?m * ?bt"
    by (simp add: unat_word_ariths unat_of_nat)
  then have "unat (span_timestamp b + of_nat ?m * rc_block_time cfg) = ?t + ?m * ?bt"
    using le64 unat_lt [of "l2_time safe"] by (simp add: unat_word_ariths)
  moreover have "0 < span_block_count b" using assms(1) by (simp add: span_steps_def span_block_count_def)
  ultimately have "unat (span_block_timestamp b ?m) \<le> ?T"
    using span_steps_time [OF assms(1), of ?m] le64 by simp
  moreover have "unat (l2_time safe + rc_block_time cfg) = ?T + ?bt" using assms(6) by (simp add: unat_word_ariths)
  moreover have "l2_time safe + rc_block_time cfg \<le> span_block_timestamp b ?m"
    using assms(2) by (auto simp: span_prechecks_def rbind_eq_Inr not_less)
  ultimately show False using assms(5) by (simp add: word_le_nat_alt unat_gt_0 [symmetric])
qed

text \<open>The checker does not panic on such a span, given payloads without empty transactions.\<close>

lemma rbind_no_panic:
  "r \<noteq> Inl CheckPanic \<Longrightarrow> (\<And>x. r = Inr x \<Longrightarrow> f x \<noteq> Inl CheckPanic) \<Longrightarrow> rbind r f \<noteq> Inl CheckPanic"
  by (cases r) auto

lemma require_no_panic: "require c v \<noteq> Inl CheckPanic"
  by simp

lemma check_span_block_no_panic: "check_span_block cfg bs safe b i st \<noteq> Inl CheckPanic"
  by (auto simp: check_span_block_def Let_def rbind_eq_Inl span_drift_def split: prod.splits if_splits)

lemma loop_no_panic: "span_blocks_loop cfg bs safe b is st \<noteq> Inl CheckPanic"
  by (induction "is" arbitrary: st) (auto simp: rbind_eq_Inl check_span_block_no_panic)

lemma overlap_no_panic:
  assumes "\<forall>num pl. env_payload env num = Some pl \<longrightarrow> [] \<notin> set (pl_transactions pl)"
    and "\<forall>i \<in> set is. i < span_block_count b"
  shows "overlap_loop env cfg b parentNum is \<noteq> Inl CheckPanic"
  using assms(2)
proof (induction "is")
  case (Cons i "is")
  have "check_overlapped_block env cfg b parentNum i \<noteq> Inl CheckPanic"
    using Cons.prems assms(1)
    by (auto simp: check_overlapped_block_def deposit_count_def rbind_eq_Inl
        split: option.splits sum.splits)
  then show ?case using Cons by (auto simp: rbind_eq_Inl)
qed simp

lemma check_span_batch_no_panic:
  assumes "span_steps cfg b" "rc_block_time cfg \<noteq> 0"
    and "unat (l2_time safe) + unat (rc_block_time cfg) < 2 ^ 64"
    and "\<forall>num pl. env_payload env num = Some pl \<longrightarrow> [] \<notin> set (pl_transactions pl)"
  shows "check_span_batch env cfg bs safe b inclusion \<noteq> CheckPanic"
proof -
  have ne: "sp_batches b \<noteq> []" using assms(1) by (simp add: span_steps_def)
  have pre: "span_prechecks cfg bs safe b \<noteq> Inl CheckPanic"
    using ne by (auto simp: span_prechecks_def rbind_eq_Inl span_origin_def)
  have par: "span_parent env cfg safe b \<noteq> Inl CheckPanic"
    using assms(2) by (auto simp: span_parent_def Let_def split: option.splits)
  have ep: "span_epochs cfg bs p b inclusion \<noteq> Inl CheckPanic" for p
    by (auto simp: span_epochs_def rbind_eq_Inl span_end_origin_def split: option.splits)
  have "check_span_rules env cfg bs safe b inclusion \<noteq> Inl CheckPanic"
    unfolding check_span_rules_def
  proof (rule rbind_no_panic [OF pre])
    fix x
    assume p: "span_prechecks cfg bs safe b = Inr x"
    show "rbind (span_parent env cfg safe b) (\<lambda>(parentNum, parentBlock).
       rbind (span_epochs cfg bs parentBlock b inclusion) (\<lambda>_.
       rbind (span_blocks_loop cfg bs safe b [0..<span_block_count b]
              (0, span_start_epoch b = bid_number (l2_l1_origin parentBlock) + 1)) (\<lambda>_.
         if span_timestamp b < l2_time safe + rc_block_time cfg
         then overlap_loop env cfg b parentNum [0..<unat (l2_number safe - parentNum)]
         else Inr ()))) \<noteq> Inl CheckPanic"
    proof (rule rbind_no_panic [OF par], clarify)
      fix parentNum parentBlock
      assume q: "span_parent env cfg safe b = Inr (parentNum, parentBlock)"
        and "rbind (span_epochs cfg bs parentBlock b inclusion) (\<lambda>_.
          rbind (span_blocks_loop cfg bs safe b [0..<span_block_count b]
              (0, span_start_epoch b = bid_number (l2_l1_origin parentBlock) + 1)) (\<lambda>_.
            if span_timestamp b < l2_time safe + rc_block_time cfg
            then overlap_loop env cfg b parentNum [0..<unat (l2_number safe - parentNum)]
            else Inr ())) = Inl CheckPanic"
      then have "span_timestamp b < l2_time safe + rc_block_time cfg"
        "overlap_loop env cfg b parentNum [0..<unat (l2_number safe - parentNum)] = Inl CheckPanic"
        using ep loop_no_panic by (auto simp: rbind_eq_Inl split: if_splits)
      then show False
        using overlap_no_panic [OF assms(4), of "[0..<unat (l2_number safe - parentNum)]"]
          overlap_in_span [OF assms(1) _ q _ assms(2,3), of bs] p by auto
    qed
  qed
  then show ?thesis by (auto simp: check_span_batch_def split: sum.splits)
qed

lemma accepted_span_head:
  assumes "wf_span cfg b" "check_span_rules env cfg bs safe b inclusion = Inr ()"
    and "rc_block_time cfg \<noteq> 0" "unat (l2_time safe) + unat (rc_block_time cfg) < 2 ^ 64"
    and "get_singular_batches b bs' safe = Inr ss"
  shows "\<exists>s rest. ss = s # rest \<and> sb_timestamp s = l2_time safe + rc_block_time cfg"
proof -
  obtain m where m: "m < span_block_count b" "unat (span_timestamp b) + m * unat (rc_block_time cfg) =
      unat (l2_time safe) + unat (rc_block_time cfg)"
  proof -
    obtain parent where "span_prechecks cfg bs safe b = Inr ()" "span_parent env cfg safe b = Inr parent"
      using assms(2) by (auto simp: check_span_rules_def rbind_eq_Inr)
    from checked_span_aligned [OF assms(1) this assms(3,4)] show ?thesis using that by blast
  qed
  have bt: "0 < unat (rc_block_time cfg)" using assms(3) by (simp add: unat_gt_0)
  have tm: "unat (span_block_timestamp b j) = unat (span_timestamp b) + j * unat (rc_block_time cfg)"
    if "j \<le> m" for j using wf_span_time [OF assms(1)] m(1) that by simp
  have hd: "span_block_timestamp b m = l2_time safe + rc_block_time cfg"
    using tm [of m] m(2) assms(4) by (simp add: word_unat_eq_iff unat_word_ariths)
  have new: "span_block_timestamp b m > l2_time safe"
    using tm [of m] m(2) bt by (simp add: word_less_nat_alt)
  have old: "\<not> span_block_timestamp b j > l2_time safe" if j: "j < m" for j
  proof -
    have "(j + 1) * unat (rc_block_time cfg) \<le> m * unat (rc_block_time cfg)"
      using j by (intro mult_le_mono1) simp
    then show ?thesis using tm [of j] m(2) j by (simp add: word_less_nat_alt)
  qed
  have "\<exists>ys. filter (\<lambda>t. t > l2_time safe) (map se_timestamp (sp_batches b)) =
      map se_timestamp (sp_batches b) ! m # ys"
    using m(1) new old by (intro filter_hd_nth) (auto simp: span_block_count_def span_block_timestamp_def)
  then obtain ys where ys: "map sb_timestamp ss = (l2_time safe + rc_block_time cfg) # ys"
    using singulars_times [of bs' safe "sp_batches b" 0 ss] assms(5) m(1) hd
    by (auto simp: get_singular_batches_def span_block_count_def span_block_timestamp_def)
  then show ?thesis by (cases ss) auto
qed

text \<open>The batches the queue holds, and what it finds among them.\<close>

definition wf_batch :: "rollup_config \<Rightarrow> batch \<Rightarrow> bool" where
  "wf_batch cfg b \<longleftrightarrow> (case b of Singular _ \<Rightarrow> True | Span s \<Rightarrow> wf_span cfg s)"

definition bq_wf :: "rollup_config \<Rightarrow> batch_queue \<Rightarrow> bool" where
  "bq_wf cfg bq \<longleftrightarrow> list_all (\<lambda>(_, b). wf_batch cfg b) (bq_batches bq)"

lemma scan_batches_wf:
  assumes "list_all (\<lambda>(_, b). wf_batch cfg b) (remaining @ bs)"
  shows "(case scan_batches env cfg l1s parent bs remaining of
      ScanFound b rest \<Rightarrow> wf_batch cfg b \<and> list_all (\<lambda>(_, b). wf_batch cfg b) rest \<and>
        (\<exists>l1. check_batch env cfg l1s parent b l1 = Verdict BatchAccept)
    | ScanUndecided rest \<Rightarrow> list_all (\<lambda>(_, b). wf_batch cfg b) rest
    | ScanNone rest \<Rightarrow> list_all (\<lambda>(_, b). wf_batch cfg b) rest
    | ScanPanic \<Rightarrow> True)"
  using assms
  by (induction env cfg l1s parent bs remaining rule: scan_batches.induct)
     (auto split: outcome.splits validity.splits)

text \<open>A batch to emit: an accepted one, or the empty batch made for an expired window.\<close>

definition emittable :: "rollup_config \<Rightarrow> l2_ref \<Rightarrow> batch \<Rightarrow> bool" where
  "emittable cfg parent b \<longleftrightarrow> wf_batch cfg b \<and>
     (case b of
        Singular s \<Rightarrow> sb_parent_hash s = l2_hash parent \<and>
          sb_timestamp s = l2_time parent + rc_block_time cfg
      | Span sp \<Rightarrow> \<exists>env l1s l1. check_span_rules env cfg l1s parent sp l1 = Inr ())"

lemma accepted_emittable:
  "check_batch env cfg l1s parent b l1 = Verdict BatchAccept \<Longrightarrow> wf_batch cfg b \<Longrightarrow>
   emittable cfg parent b"
  by (cases b)
     (auto simp: emittable_def check_batch_def accepted_rules check_singular_batch_def Let_def
       split: if_splits)

lemma force_empty_emittable:
  assumes "force_empty_batch cfg eof parent bq = (r, bq')" "bq_wf cfg bq"
  shows "bq_wf cfg bq' \<and> bq_next_span bq' = bq_next_span bq \<and> (\<forall>b. r = Inr b \<longrightarrow> emittable cfg parent b)"
  using assms
  by (auto simp: force_empty_batch_def Let_def bq_wf_def emittable_def wf_batch_def split: if_splits)

lemma derive_next_batch_emittable:
  assumes "derive_next_batch env cfg eof parent bq = (r, bq')" "bq_wf cfg bq"
  shows "bq_wf cfg bq' \<and> bq_next_span bq' = bq_next_span bq \<and> (\<forall>b. r = Inr b \<longrightarrow> emittable cfg parent b)"
proof -
  have w: "list_all (\<lambda>(_, b). wf_batch cfg b) ([] @ bq_batches bq)" using assms(2) by (simp add: bq_wf_def)
  consider (early) e where "r = Inl e" "bq' = bq"
    | (scanned) "derive_next_batch env cfg eof parent bq =
        (case scan_batches env cfg (bq_l1_blocks bq) parent (bq_batches bq) [] of
           ScanPanic \<Rightarrow> (Inl StagePanic, bq)
         | ScanUndecided remaining \<Rightarrow> (Inl StageEOF, bq\<lparr>bq_batches := remaining\<rparr>)
         | ScanFound b remaining \<Rightarrow> (Inr b, bq\<lparr>bq_batches := remaining\<rparr>)
         | ScanNone remaining \<Rightarrow> force_empty_batch cfg eof parent (bq\<lparr>bq_batches := remaining\<rparr>))"
    using assms(1) unfolding derive_next_batch_def Let_def by (metis prod.inject)
  then show ?thesis
  proof cases
    case early
    then show ?thesis using assms(2) by simp
  next
    case scanned
    show ?thesis
    proof (cases "scan_batches env cfg (bq_l1_blocks bq) parent (bq_batches bq) []")
      case (ScanFound b rest)
      then show ?thesis
        using assms(1) scanned scan_batches_wf [OF w, of env "bq_l1_blocks bq" parent] accepted_emittable
        by (auto simp: bq_wf_def)
    next
      case (ScanNone rest)
      have "bq_wf cfg (bq\<lparr>bq_batches := rest\<rparr>)"
        using ScanNone scan_batches_wf [OF w, of env "bq_l1_blocks bq" parent] by (simp add: bq_wf_def)
      from force_empty_emittable [OF _ this] show ?thesis using assms(1) scanned ScanNone by simp
    qed (use assms scanned scan_batches_wf [OF w, of env "bq_l1_blocks bq" parent] in
        \<open>auto simp: bq_wf_def\<close>)
  qed
qed

lemma emit_batch_on_parent:
  assumes "emit_batch parent b bq = (Inr (s, lastInSpan), bq')" "emittable cfg parent b"
    and "rc_block_time cfg \<noteq> 0" "unat (l2_time parent) + unat (rc_block_time cfg) < 2 ^ 64"
  shows "sb_parent_hash s = l2_hash parent \<and> sb_timestamp s = l2_time parent + rc_block_time cfg \<and>
    bq_batches bq' = bq_batches bq"
proof (cases b)
  case (Singular s')
  then show ?thesis using assms(1,2) by (auto simp: emit_batch_def emittable_def)
next
  case (Span sp)
  then obtain env l1s l1 where r: "check_span_rules env cfg l1s parent sp l1 = Inr ()" "wf_span cfg sp"
    using assms(2) by (auto simp: emittable_def wf_batch_def)
  obtain ss where ss: "get_singular_batches sp (bq_l1_blocks bq) parent = Inr ss"
    using assms(1) Span by (auto simp: emit_batch_def split: sum.splits)
  obtain s1 rest where "ss = s1 # rest" "sb_timestamp s1 = l2_time parent + rc_block_time cfg"
    using accepted_span_head [OF r(2,1) assms(3,4) ss] by blast
  then show ?thesis using assms(1) ss Span by (auto simp: emit_batch_def pop_next_batch_def)
qed

lemma add_batch_wf:
  "add_batch env cfg parent b bq = Inr bq' \<Longrightarrow> bq_wf cfg bq \<Longrightarrow> wf_batch cfg b \<Longrightarrow>
   bq_wf cfg bq' \<and> bq_next_span bq' = bq_next_span bq"
  by (auto simp: add_batch_def bq_wf_def split: if_splits outcome.splits)

lemma advance_wf: "bq_wf cfg (advance_origin l1 behind (bq\<lparr>bq_l1_blocks := bs\<rparr>)) = bq_wf cfg bq"
  by (simp add: advance_origin_def bq_wf_def)

lemma fill_and_derive_on_parent:
  assumes "fill_and_derive env cfg parent prevOrigin pulled bq = (Inr (s, lastInSpan), bq')"
    and "bq_wf cfg bq" "\<forall>b. pulled = Inr b \<longrightarrow> wf_batch cfg b"
    and "rc_block_time cfg \<noteq> 0" "unat (l2_time parent) + unat (rc_block_time cfg) < 2 ^ 64"
  shows "sb_parent_hash s = l2_hash parent \<and> sb_timestamp s = l2_time parent + rc_block_time cfg \<and>
    bq_wf cfg bq'"
proof -
  define behind where "behind = (l1_number prevOrigin < bid_number (l2_l1_origin parent))"
  define bq1 where "bq1 = advance_origin prevOrigin behind
    (bq\<lparr>bq_l1_blocks := advance_l1_blocks (bid_number (l2_l1_origin parent)) (bq_l1_blocks bq)\<rparr>)"
  have w1: "bq_wf cfg bq1" using assms(2) by (simp add: bq1_def advance_wf)
  obtain bq2 where load: "(if pulled = Inl StageEOF \<or> behind then Inr bq1
        else add_batch env cfg parent (projr pulled) bq1) = Inr bq2" and nb: "\<not> behind"
    and der: "(case derive_next_batch env cfg (pulled = Inl StageEOF) parent bq2 of
        (Inl StageEOF, bq3) \<Rightarrow>
          (Inl (if pulled = Inl StageEOF then StageEOF else NotEnoughData), bq3)
      | (Inl e, bq3) \<Rightarrow> (Inl e, bq3)
      | (Inr b, bq3) \<Rightarrow> emit_batch parent b bq3) = (Inr (s, lastInSpan), bq')"
    and ok: "pulled = Inl StageEOF \<or> \<not> isl pulled"
    using assms(1) unfolding fill_and_derive_def Let_def behind_def [symmetric] bq1_def [symmetric]
    by (auto split: if_splits sum.splits)
  have w2: "bq_wf cfg bq2"
    using load w1 ok assms(3) add_batch_wf [of env cfg parent "projr pulled" bq1 bq2]
    by (cases pulled) (auto split: if_splits)
  obtain r bq3 where d: "derive_next_batch env cfg (pulled = Inl StageEOF) parent bq2 = (r, bq3)"
    by (cases "derive_next_batch env cfg (pulled = Inl StageEOF) parent bq2") auto
  then obtain b where b: "r = Inr b" "emit_batch parent b bq3 = (Inr (s, lastInSpan), bq')"
    using der by (auto split: sum.splits stage_err.splits)
  note e = derive_next_batch_emittable [OF d w2]
  from emit_batch_on_parent [OF b(2) _ assms(4,5)] e b(1) show ?thesis
    by (auto simp: bq_wf_def)
qed

text \<open>C24. Every batch the queue returns builds on the safe head: whatever singular and span batches
  it holds or is given, in order or not, cached, accepted or forced empty, the batch returned
  by \<^verbatim>\<open>NextBatch\<close> has the parent's hash and the next timestamp, which is what the attributes
  queue insists on; and the queue keeps only well-formed batches.\<close>

theorem next_batch_builds_on_parent:
  assumes "next_batch env cfg parent prevOrigin pulled bq = (Inr (s, lastInSpan), bq')"
    and "bq_wf cfg bq" "\<forall>b. pulled = Inr b \<longrightarrow> wf_batch cfg b"
    and "rc_block_time cfg \<noteq> 0" "unat (l2_time parent) + unat (rc_block_time cfg) < 2 ^ 64"
  shows "sb_parent_hash s = l2_hash parent \<and> sb_timestamp s = l2_time parent + rc_block_time cfg \<and>
    bq_wf cfg bq'"
proof (cases "bq_next_span bq")
  case Nil
  then show ?thesis using assms fill_and_derive_on_parent by (auto simp: next_batch_def)
next
  case (Cons c rest)
  show ?thesis
  proof (cases "sb_timestamp c = l2_time parent + rc_block_time cfg")
    case True
    then show ?thesis using assms(1,2) Cons
      by (auto simp: next_batch_def pop_next_batch_def bq_wf_def)
  next
    case False
    have "bq_wf cfg (bq\<lparr>bq_next_span := []\<rparr>)" using assms(2) by (simp add: bq_wf_def)
    then show ?thesis using assms(1,3-5) Cons False fill_and_derive_on_parent
      by (auto simp: next_batch_def)
  qed
qed

theorem next_batch_builds_on_parent_witness:
  "\<exists>s bq'. next_batch demo_env demo_config demo_safe (demo_l1_blocks ! 0) (Inl StageEOF)
       (batch_queue_reset (demo_l1_blocks ! 0)\<lparr>bq_next_span :=
          [\<lparr>sb_parent_hash = zero_hash32, sb_epoch_num = 10, sb_epoch_hash = replicate 32 10,
            sb_timestamp = 1002, sb_transactions = []\<rparr>]\<rparr>) = (Inr (s, True), bq') \<and>
     sb_parent_hash s = replicate 32 2 \<and> sb_timestamp s = 1002"
proof -
  let ?c = "\<lparr>sb_parent_hash = zero_hash32, sb_epoch_num = 10, sb_epoch_hash = replicate 32 10,
    sb_timestamp = 1002, sb_transactions = []\<rparr> :: singular_batch"
  let ?bq = "batch_queue_reset (demo_l1_blocks ! 0)\<lparr>bq_next_span := [?c]\<rparr>"
  let ?s = "?c\<lparr>sb_parent_hash := l2_hash demo_safe\<rparr>"
  have run: "next_batch demo_env demo_config demo_safe (demo_l1_blocks ! 0) (Inl StageEOF) ?bq =
      (Inr (?s, True), ?bq\<lparr>bq_next_span := []\<rparr>)"
    by (simp add: next_batch_def pop_next_batch_def demo_safe_def demo_config_def)
  have "bq_wf demo_config ?bq" by (simp add: bq_wf_def batch_queue_reset_def)
  from next_batch_builds_on_parent [OF run this]
  have "sb_parent_hash ?s = l2_hash demo_safe \<and>
      sb_timestamp ?s = l2_time demo_safe + rc_block_time demo_config"
    by (simp add: demo_safe_def demo_config_def)
  with run show ?thesis by (simp add: demo_safe_def demo_config_def)
qed

end
