(* ===== verification/Derive_Span_Props.thy ===== *)
theory Derive_Span_Props
  imports Derive_Span_Raw Derive_Queue_Props
begin

text \<open>
  What the batcher encodes, the derivation decodes: the columns of the transactions, the raw
  batch, and the whole way from the blocks of a span over its bytes and back. What is used of
  RLP and of go-ethereum's transaction codec is \<open>tx_env_ok\<close>.
\<close>

section \<open>Reading back the columns\<close>

lemma read_put_sig: "sig_v s = 0 \<Longrightarrow> read_sig (put_sig s @ rest) = Inr (s, rest)"
  using unat_lt [of "sig_r s"] unat_lt [of "sig_s s"]
  by (cases s) (simp add: read_sig_def put_sig_def be_dec_enc)

lemma put_sig_simps: "put_sig (s\<lparr>sig_v := v\<rparr>) = put_sig s" "length (put_sig s) = 64"
  by (simp_all add: put_sig_def)

lemma put_sig_nonempty: "put_sig s \<noteq> []"
  using put_sig_simps(2) [of s] by (metis list.size(3) zero_neq_numeral)

interpretation sig: codec put_sig read_sig "\<lambda>s. sig_v s = 0"
  by unfold_locales (simp_all only: read_put_sig put_sig_nonempty not_False_eq_True)

interpretation address20: codec "\<lambda>a. a" "read_full 20" "\<lambda>a. length a = 20"
  by unfold_locales (auto simp: read_full_def)

definition tx_readable :: "tx_env \<Rightarrow> byte list \<times> byte \<Rightarrow> bool" where
  "tx_readable env p \<longleftrightarrow> fst p \<noteq> [] \<and> (\<forall>rest. read_tx_data env (fst p @ rest) = Inr (p, rest))"

interpretation tx_data: codec fst "read_tx_data env" "tx_readable env" for env
  by unfold_locales (simp_all add: tx_readable_def)

text \<open>Columns of the right lengths, with data that reads back.\<close>

definition wf_span_txs :: "tx_env \<Rightarrow> span_txs \<Rightarrow> bool" where
  "wf_span_txs env t \<longleftrightarrow>
     \<not> bit_buffer_len (st_total t) > max_span_batch_size \<and>
     wf_bits (st_total t) (st_creation_bits t) \<and> wf_bits (st_total t) (st_y_parity_bits t) \<and>
     length (st_sigs t) = unat (st_total t) \<and>
     length (st_tos t) = unat (st_total t) - contract_creation_count (st_total t) (st_creation_bits t) \<and>
     list_all (\<lambda>a. length a = 20) (st_tos t) \<and>
     length (st_datas t) = unat (st_total t) \<and> length (st_types t) = unat (st_total t) \<and>
     list_all (tx_readable env) (zip (st_datas t) (st_types t)) \<and>
     length (st_nonces t) = unat (st_total t) \<and> length (st_gases t) = unat (st_total t)"

text \<open>The value \<open>v\<close> of a signature is not encoded.\<close>

definition strip_v :: "span_txs \<Rightarrow> span_txs" where
  "strip_v t = t\<lparr>st_sigs := map (\<lambda>s. s\<lparr>sig_v := 0\<rparr>) (st_sigs t)\<rparr>"

lemma read_n_enc':
  assumes "codec enc dec ok" "list_all ok xs" "length xs = n" "d = concat (map enc xs)"
  shows "read_n dec n (d @ rest) = Inr (xs, rest)"
  using codec.read_n_enc [OF assms(1,2), of rest] assms(3,4) by simp

lemma read_encode_span_txs:
  assumes "wf_span_txs env t"
  shows "read_span_txs env (st_total t) (encode_span_txs t @ rest) = Inr (strip_v t, rest)"
proof -
  let ?n = "unat (st_total t)" and ?ps = "zip (st_datas t) (st_types t)"
  note wf = assms [unfolded wf_span_txs_def]
  define r1 where "r1 = concat (map put_uvarint (st_gases t)) @ rest"
  define r2 where "r2 = concat (map put_uvarint (st_nonces t)) @ r1"
  define r3 where "r3 = concat (st_datas t) @ r2"
  define r4 where "r4 = concat (st_tos t) @ r3"
  define r5 where "r5 = concat (map put_sig (st_sigs t)) @ r4"
  have enc: "encode_span_txs t @ rest = encode_bits (st_total t) (st_creation_bits t) @
      encode_bits (st_total t) (st_y_parity_bits t) @ r5"
    by (simp add: encode_span_txs_def tx_column_defs r1_def r2_def r3_def r4_def r5_def)
  have "concat (map put_sig (st_sigs t)) = concat (map put_sig (st_sigs (strip_v t)))"
    by (simp add: strip_v_def put_sig_simps comp_def)
  then have sigs: "read_n read_sig ?n r5 = Inr (st_sigs (strip_v t), r4)"
    unfolding r5_def using wf
    by (intro read_n_enc' [OF sig.codec_axioms]) (simp_all add: strip_v_def list_all_iff)
  have tos: "read_n (read_full 20) (?n - contract_creation_count (st_total t) (st_creation_bits t)) r4 =
      Inr (st_tos t, r3)"
    unfolding r4_def using wf by (intro read_n_enc' [OF address20.codec_axioms]) simp_all
  have datas: "read_n (read_tx_data env) ?n r3 = Inr (?ps, r2)"
    unfolding r3_def using wf by (intro read_n_enc' [OF tx_data.codec_axioms]) simp_all
  have nonces: "read_n read_uvarint ?n r2 = Inr (st_nonces t, r1)"
    unfolding r2_def using wf
    by (intro read_n_enc' [OF uvarint.codec_axioms]) (simp_all add: list_all_iff)
  have gases: "read_n read_uvarint ?n r1 = Inr (st_gases t, rest)"
    unfolding r1_def using wf
    by (intro read_n_enc' [OF uvarint.codec_axioms]) (simp_all add: list_all_iff)
  show ?thesis unfolding enc read_span_txs_def tx_column_defs
    using wf by (simp add: read_encode_bits sigs tos datas nonces gases)
      (simp add: strip_v_def)
qed

section \<open>Reading back the raw batch\<close>

definition wf_raw_span :: "tx_env \<Rightarrow> raw_span_batch \<Rightarrow> bool" where
  "wf_raw_span env b \<longleftrightarrow>
     length (rs_parent_check b) = 20 \<and> length (rs_l1_origin_check b) = 20 \<and>
     rs_block_count b \<noteq> 0 \<and> \<not> rs_block_count b > max_span_batch_size \<and>
     wf_bits (rs_block_count b) (rs_origin_bits b) \<and>
     length (rs_block_tx_counts b) = unat (rs_block_count b) \<and>
     list_all (\<lambda>c. \<not> c > max_span_batch_size) (rs_block_tx_counts b) \<and>
     sum_tx_counts 0 (rs_block_tx_counts b) = Inr (st_total (rs_txs b)) \<and>
     \<not> st_total (rs_txs b) > max_span_batch_size \<and>
     wf_span_txs env (rs_txs b)"

lemma bit_buffer_small: "\<not> n > max_span_batch_size \<Longrightarrow> \<not> bit_buffer_len n > max_span_batch_size"
proof -
  assume "\<not> n > max_span_batch_size"
  then have "unat n \<le> 10000000" by (simp add: max_span_batch_size_def word_less_nat_alt not_less)
  moreover have "unat (bit_buffer_len n) \<le> unat n div 8 + 1"
    by (auto simp: bit_buffer_len_def unat_word_ariths unat_div_distrib)
  ultimately show ?thesis by (simp add: max_span_batch_size_def word_less_nat_alt)
qed

interpretation tx_count: codec put_uvarint read_block_tx_count "\<lambda>c. \<not> c > max_span_batch_size"
  by unfold_locales (simp_all add: read_block_tx_count_def read_put_uvarint, simp add: put_uvarint.simps)

lemma decode_encode_raw:
  assumes "wf_raw_span env b" "length (encode_raw_span b) \<le> unat max_span_batch_size"
  shows "decode_raw_span env (encode_raw_span b) = Inr (b\<lparr>rs_txs := strip_v (rs_txs b)\<rparr>, [])"
proof -
  note wf = assms(1) [unfolded wf_raw_span_def]
  define r1 where "r1 = encode_span_txs (rs_txs b)"
  define r2 where "r2 = concat (map put_uvarint (rs_block_tx_counts b)) @ r1"
  define r3 where "r3 = encode_bits (rs_block_count b) (rs_origin_bits b) @ r2"
  define r4 where "r4 = put_uvarint (rs_block_count b) @ r3"
  have pre: "read_prefix (encode_raw_span b) = Inr ((rs_rel_timestamp b, rs_l1_origin_num b,
      rs_parent_check b, rs_l1_origin_check b), r4)"
    using wf by (simp add: read_prefix_def encode_raw_span_def encode_prefix_def encode_payload_def
        read_put_uvarint r1_def r2_def r3_def r4_def)
  have count: "read_block_count r4 = Inr (rs_block_count b, r3)"
    using wf by (simp add: read_block_count_def r4_def read_put_uvarint)
  have bits: "read_bits (rs_block_count b) r3 = Inr (rs_origin_bits b, r2)"
    using wf bit_buffer_small by (simp add: r3_def read_encode_bits)
  have counts: "read_block_tx_counts (rs_block_count b) r2 = Inr (rs_block_tx_counts b, r1)"
    unfolding read_block_tx_counts_def r2_def using wf
    by (intro read_n_enc' [OF tx_count.codec_axioms]) simp_all
  have txs: "read_txs env (rs_block_tx_counts b) r1 = Inr (strip_v (rs_txs b), [])"
    using wf read_encode_span_txs [of env "rs_txs b" "[]"] by (simp add: read_txs_def r1_def)
  show ?thesis using assms(2) by (simp add: decode_raw_span_def pre count bits counts txs)
qed

end
