(* ===== verification/Derive_Span_Roundtrip.thy ===== *)
theory Derive_Span_Roundtrip
  imports Derive_Span_Props
begin

text \<open>
  From the blocks of a span to bytes and back: the columns of a transaction determine it, the
  bits determine the origins, the counts the blocks. The exception are legacy transactions
  without replay protection, whose signature is recovered as a protected one.
\<close>

section \<open>What is used of the codecs\<close>

definition tx_env_ok :: "tx_env \<Rightarrow> bool" where
  "tx_env_ok env \<longleftrightarrow>
     (\<forall>t d. te_rlp_enc env t = Some d \<longrightarrow>
        d \<noteq> [] \<and> hd d > 127 \<and> (\<forall>rest. te_read_list env (d @ rest) = Inr (d, rest)) \<and>
        te_rlp_dec env (span_tx_type t) d = Some t) \<and>
     (\<forall>raw tx. te_unmarshal env raw = Some tx \<longrightarrow> te_marshal env tx = Some raw)"

text \<open>A signed transaction of the chain: replay protected if it is a legacy one.\<close>

definition wf_tx :: "int \<Rightarrow> full_tx \<Rightarrow> bool" where
  "wf_tx chainID tx \<longleftrightarrow>
     0 \<le> ftx_r tx \<and> ftx_r tx < 2 ^ 256 \<and> 0 \<le> ftx_s tx \<and> ftx_s tx < 2 ^ 256 \<and>
     (\<forall>a. ftx_to tx = Some a \<longrightarrow> length a = 20) \<and>
     (case ftx_body tx of
        OtherBody _ \<Rightarrow> False
      | KnownBody d \<Rightarrow>
          if span_tx_type d = 0
          then ftx_chain_id tx = 0 \<and> 0 \<le> chainID \<and> 2 * chainID + 36 < 2 ^ 64 \<and>
               (ftx_v tx = 2 * chainID + 35 \<or> ftx_v tx = 2 * chainID + 36)
          else ftx_chain_id tx = chainID \<and> (ftx_v tx = 0 \<or> ftx_v tx = 1))"

section \<open>One transaction\<close>

lemma span_tx_type_cases: "span_tx_type d = 0 \<or> span_tx_type d = 1 \<or> span_tx_type d = 2"
  by (cases d) simp_all

lemma marshal_readable:
  assumes "tx_env_ok env" "marshal_span_tx env d = Inr b"
  shows "tx_readable env (b, span_tx_type d) \<and> unmarshal_span_tx env b = Inr d"
proof -
  obtain e where e: "te_rlp_enc env d = Some e" "b = (if span_tx_type d = 0 then e else span_tx_type d # e)"
    using assms(2) by (auto simp: marshal_span_tx_def split: option.splits)
  have ok: "e \<noteq> []" "hd e > 127" "\<And>rest. te_read_list env (e @ rest) = Inr (e, rest)"
      "te_rlp_dec env (span_tx_type d) e = Some d"
    using assms(1) e(1) by (auto simp: tx_env_ok_def)
  obtain x xs where x: "e = x # xs" "x > 127" using ok(1,2) by (cases e) auto
  have s: "te_read_list env (x # xs @ rest) = Inr (x # xs, rest)" for rest
    using ok(3) [of rest] x(1) by simp
  show ?thesis
    using span_tx_type_cases [of d] e(2) ok(4) x s
    by (auto simp: tx_readable_def read_tx_data_def unmarshal_span_tx_def decode_typed_tx_def not_le)
qed

text \<open>The value \<open>v\<close> of a signature is determined by its parity and the chain.\<close>

lemma of_bool_and_1: "(of_int n :: u64) AND 1 = of_bool (odd n)"
proof -
  have "odd (word_of_int n :: u64) \<longleftrightarrow> odd n"
    using bit_word_of_int_iff [where 'a = 64, of n 0] by (simp add: bit_0)
  then show ?thesis by (auto simp: and_one_eq mod2_eq_if)
qed

lemma recovered_v_parity:
  assumes "wf_tx chainID tx" "ftx_body tx = KnownBody d"
    and "convert_v_to_y_parity (word_of_int (ftx_v tx)) (span_tx_type d) = Inr parity"
  shows "recovered_v chainID (parity \<noteq> 0) (span_tx_type d) = Some (word_of_int (ftx_v tx)) \<and>
    \<not> parity > 1"
proof (cases "span_tx_type d = 0")
  case True
  then obtain k :: int where k: "ftx_v tx = 2 * chainID + 35 + k" "k = 0 \<or> k = 1"
    using assms(1,2) by (auto simp: wf_tx_def)
  have "parity = (word_of_int (2 * chainID + 35 + k) - 35) AND 1"
    using assms(3) True k(1) by (simp add: convert_v_to_y_parity_def)
  also have "word_of_int (2 * chainID + 35 + k) - 35 = (of_int (2 * chainID + k) :: u64)" by simp
  also have "\<dots> AND 1 = of_bool (odd (2 * chainID + k))" by (rule of_bool_and_1)
  finally have "parity = of_bool (k = 1)" using k(2) by auto
  then show ?thesis using True k by (auto simp: recovered_v_def mult.commute)
next
  case False
  then show ?thesis using assms span_tx_type_cases [of d]
    by (auto simp: wf_tx_def convert_v_to_y_parity_def recovered_v_def)
qed

lemma columns_of_tx_back:
  assumes "tx_env_ok env" "te_unmarshal env raw = Some tx" "wf_tx chainID tx"
    and "columns_of_tx env chainID raw = Inr c"
  shows "tx_readable env (tc_data c, tc_type c)"
    and "recovered_v chainID (tc_parity c \<noteq> 0) (tc_type c) = Some (sig_v (tc_sig c))"
    and "\<forall>a. tc_to c = Some a \<longrightarrow> length a = 20"
    and "\<exists>stx. unmarshal_span_tx env (tc_data c) = Inr stx \<and>
      te_marshal env (convert_to_full_tx stx (tc_nonce c) (tc_gas c) (tc_to c) chainID
        (uint (sig_v (tc_sig c))) (uint (sig_r (tc_sig c))) (uint (sig_s (tc_sig c)))) = Some raw"
proof -
  obtain d where d: "ftx_body tx = KnownBody d"
    using assms(3) by (auto simp: wf_tx_def split: tx_body.splits)
  obtain parity b where p: "convert_v_to_y_parity (word_of_int (ftx_v tx)) (span_tx_type d) = Inr parity"
      "marshal_span_tx env d = Inr b"
    and c: "c = \<lparr>tc_sig = \<lparr>sig_v = word_of_int (ftx_v tx), sig_r = word_of_int (ftx_r tx),
        sig_s = word_of_int (ftx_s tx)\<rparr>, tc_to = ftx_to tx, tc_parity = parity,
        tc_nonce = ftx_nonce tx, tc_gas = ftx_gas tx, tc_data = b, tc_type = span_tx_type d\<rparr>"
    using assms(2,4) d
    by (auto simp: columns_of_tx_def rbind_eq_Inr body_type_def new_span_tx_def split: if_splits)
  note m = marshal_readable [OF assms(1) p(2)]
  have v: "uint (word_of_int (ftx_v tx) :: u64) = ftx_v tx"
    using assms(3) d by (auto simp: wf_tx_def uint_word_of_int mod_pos_pos_trivial split: if_splits)
  have rs: "uint (word_of_int (ftx_r tx) :: 256 word) = ftx_r tx"
      "uint (word_of_int (ftx_s tx) :: 256 word) = ftx_s tx"
    using assms(3) by (auto simp: wf_tx_def uint_word_of_int mod_pos_pos_trivial)
  have tx: "convert_to_full_tx d (ftx_nonce tx) (ftx_gas tx) (ftx_to tx) chainID (ftx_v tx)
      (ftx_r tx) (ftx_s tx) = tx"
    using assms(3) d by (cases tx) (auto simp: convert_to_full_tx_def wf_tx_def split: if_splits)
  show "tx_readable env (tc_data c, tc_type c)" using m by (simp add: c)
  show "recovered_v chainID (tc_parity c \<noteq> 0) (tc_type c) = Some (sig_v (tc_sig c))"
    using recovered_v_parity [OF assms(3) d p(1)] by (simp add: c)
  show "\<forall>a. tc_to c = Some a \<longrightarrow> length a = 20" using assms(3) by (simp add: c wf_tx_def)
  show "\<exists>stx. unmarshal_span_tx env (tc_data c) = Inr stx \<and>
      te_marshal env (convert_to_full_tx stx (tc_nonce c) (tc_gas c) (tc_to c) chainID
        (uint (sig_v (tc_sig c))) (uint (sig_r (tc_sig c))) (uint (sig_s (tc_sig c)))) = Some raw"
    using m assms(1,2) tx by (simp add: c v rs tx_env_ok_def)
qed

section \<open>All transactions of a span\<close>

lemma bit_bits_of: "bit (bits_of bs) j \<longleftrightarrow> j < length bs \<and> bs ! j"
proof -
  have "bit (fold (\<lambda>i acc. if bs ! i then set_bit i acc else unset_bit i acc) js acc) j \<longleftrightarrow>
      (if j \<in> set js then bs ! j else bit acc j)" for js and acc :: int
    by (induction js arbitrary: acc) (auto simp: bit_set_bit_iff bit_unset_bit_iff)
  then show ?thesis by (simp add: bits_of_def)
qed

lemma bits_of_bounds: "0 \<le> bits_of bs \<and> bits_of bs < 2 ^ length bs"
proof -
  have "take_bit (length bs) (bits_of bs) = bits_of bs"
    by (rule bit_eqI) (auto simp: bit_take_bit_iff bit_bits_of)
  then show ?thesis by (metis take_bit_nonnegative take_bit_int_less_exp)
qed

lemma bit_buffer_covers: "unat n \<le> 8 * unat (bit_buffer_len n)"
proof -
  have "unat (bit_buffer_len n) = unat n div 8 + (if unat n mod 8 \<noteq> 0 then 1 else 0)"
  proof -
    have "n mod 8 = 0 \<longleftrightarrow> unat n mod 8 = 0" by (simp add: word_unat_eq_iff unat_mod_distrib)
    moreover have "unat n div 8 + 1 < 2 ^ 64" using unat_lt [of n] by simp
    ultimately show ?thesis
      by (auto simp: bit_buffer_len_def unat_word_ariths unat_div_distrib)
  qed
  then show ?thesis by (auto split: if_splits)
qed

lemma wf_bits_of: "length bs = unat n \<Longrightarrow> wf_bits n (bits_of bs)"
proof -
  assume "length bs = unat n"
  then have "(2 :: int) ^ length bs \<le> 2 ^ (8 * unat (bit_buffer_len n))"
    using bit_buffer_covers [of n] by (intro power_increasing) simp_all
  with bits_of_bounds [of bs] have "0 \<le> bits_of bs" "bits_of bs < 2 ^ (8 * unat (bit_buffer_len n))"
    by (blast, linarith)
  then show ?thesis by (simp add: wf_bits_def)
qed

lemma columns_of_txs_length: "columns_of_txs env chainID raws = Inr cs \<Longrightarrow> length cs = length raws"
  by (induction raws arbitrary: cs) (auto simp: rbind_eq_Inr)

lemma columns_of_txs_nth:
  "columns_of_txs env chainID raws = Inr cs \<Longrightarrow> i < length raws \<Longrightarrow>
   columns_of_tx env chainID (raws ! i) = Inr (cs ! i)"
proof (induction raws arbitrary: cs i)
  case (Cons raw raws)
  then show ?case by (cases i) (auto simp: rbind_eq_Inr)
qed simp

text \<open>The transactions a span may carry, in their encoded form.\<close>

definition wf_raw_tx :: "tx_env \<Rightarrow> int \<Rightarrow> byte list \<Rightarrow> bool" where
  "wf_raw_tx env chainID raw \<longleftrightarrow>
     (case te_unmarshal env raw of None \<Rightarrow> False | Some tx \<Rightarrow> wf_tx chainID tx)"

lemma columns_back:
  assumes "tx_env_ok env" "list_all (wf_raw_tx env chainID) raws"
    and "columns_of_txs env chainID raws = Inr cs" "i < length raws"
  shows "tx_readable env (tc_data (cs ! i), tc_type (cs ! i))"
    and "recovered_v chainID (tc_parity (cs ! i) \<noteq> 0) (tc_type (cs ! i)) = Some (sig_v (tc_sig (cs ! i)))"
    and "\<forall>a. tc_to (cs ! i) = Some a \<longrightarrow> length a = 20"
    and "\<exists>stx. unmarshal_span_tx env (tc_data (cs ! i)) = Inr stx \<and>
      te_marshal env (convert_to_full_tx stx (tc_nonce (cs ! i)) (tc_gas (cs ! i)) (tc_to (cs ! i)) chainID
        (uint (sig_v (tc_sig (cs ! i)))) (uint (sig_r (tc_sig (cs ! i)))) (uint (sig_s (tc_sig (cs ! i))))) =
      Some (raws ! i)"
proof -
  obtain tx where tx: "te_unmarshal env (raws ! i) = Some tx" "wf_tx chainID tx"
    using assms(2,4) by (auto simp: list_all_length wf_raw_tx_def split: option.splits)
  note b = columns_of_tx_back [OF assms(1) tx columns_of_txs_nth [OF assms(3,4)]]
  show "tx_readable env (tc_data (cs ! i), tc_type (cs ! i))"
    and "recovered_v chainID (tc_parity (cs ! i) \<noteq> 0) (tc_type (cs ! i)) = Some (sig_v (tc_sig (cs ! i)))"
    and "\<forall>a. tc_to (cs ! i) = Some a \<longrightarrow> length a = 20"
    by (rule b)+
  show "\<exists>stx. unmarshal_span_tx env (tc_data (cs ! i)) = Inr stx \<and>
      te_marshal env (convert_to_full_tx stx (tc_nonce (cs ! i)) (tc_gas (cs ! i)) (tc_to (cs ! i)) chainID
        (uint (sig_v (tc_sig (cs ! i)))) (uint (sig_r (tc_sig (cs ! i)))) (uint (sig_s (tc_sig (cs ! i))))) =
      Some (raws ! i)" by (rule b(4))
qed

lemma filter_index: "length (filter (\<lambda>i. P (xs ! i)) [0..<length xs]) = length (filter P xs)"
proof -
  have "filter P xs = map ((!) xs) (filter (\<lambda>i. P (xs ! i)) [0..<length xs])"
    by (metis filter_map map_nth comp_apply [abs_def] filter_cong)
  then show ?thesis by (metis length_map)
qed

lemma length_map_filter:
  "length (List.map_filter f xs) = length xs - length (filter (\<lambda>x. f x = None) xs)"
proof (induction xs)
  case (Cons x xs)
  then show ?case using length_filter_le [of "\<lambda>x. f x = None" xs]
    by (auto simp: List.map_filter_simps Suc_diff_le split: option.splits)
qed (simp add: List.map_filter_simps)

lemma new_span_txs_wf:
  assumes "tx_env_ok env" "list_all (wf_raw_tx env chainID) raws"
    and "new_span_txs env chainID raws = Inr t" "length raws \<le> 10000000"
  shows "wf_span_txs env t"
proof -
  obtain cs where cs: "columns_of_txs env chainID raws = Inr cs"
    and t: "t = \<lparr>st_total = of_nat (length raws),
        st_creation_bits = bits_of (map (\<lambda>c. tc_to c = None) cs),
        st_y_parity_bits = bits_of (map (\<lambda>c. tc_parity c \<noteq> 0) cs),
        st_sigs = map tc_sig cs, st_nonces = map tc_nonce cs, st_gases = map tc_gas cs,
        st_tos = List.map_filter tc_to cs, st_datas = map tc_data cs, st_types = map tc_type cs\<rparr>"
    using assms(3) by (auto simp: new_span_txs_def rbind_eq_Inr)
  note len = columns_of_txs_length [OF cs]
  note cols = columns_back [OF assms(1,2) cs]
  have n: "unat (of_nat (length raws) :: u64) = length raws" using assms(4) by (simp add: unat_of_nat)
  have "list_all (\<lambda>a. length a = 20) (List.map_filter tc_to cs)"
    using cols(3) len by (auto simp: list_all_iff List.map_filter_def in_set_conv_nth)
  moreover have "list_all (tx_readable env) (zip (map tc_data cs) (map tc_type cs))"
    using cols(1) len by (simp add: list_all_length)
  moreover have "contract_creation_count (of_nat (length raws)) (bits_of (map (\<lambda>c. tc_to c = None) cs)) =
      length (filter (\<lambda>c. tc_to c = None) cs)"
  proof -
    have "filter (bit (bits_of (map (\<lambda>c. tc_to c = None) cs))) [0..<length cs] =
        filter (\<lambda>i. tc_to (cs ! i) = None) [0..<length cs]"
      by (rule filter_cong) (simp_all add: bit_bits_of)
    then show ?thesis using filter_index [of "\<lambda>c. tc_to c = None" cs] len
      by (simp add: contract_creation_count_def n)
  qed
  moreover have "\<not> (of_nat (length raws) :: u64) > max_span_batch_size"
    using assms(4) n by (simp add: max_span_batch_size_def word_less_nat_alt)
  ultimately show ?thesis
    using len by (simp add: t wf_span_txs_def n wf_bits_of bit_buffer_small length_map_filter)
qed

text \<open>Decoding loses only the values \<open>v\<close>, which are recovered; then every transaction is rebuilt.\<close>

lemma new_span_txs_back:
  assumes "tx_env_ok env" "list_all (wf_raw_tx env chainID) raws"
    and "new_span_txs env chainID raws = Inr t" "length raws \<le> 10000000"
  shows "recover_v chainID (strip_v t) = Inr t" and "full_txs env chainID t = Inr raws"
proof -
  obtain cs where cs: "columns_of_txs env chainID raws = Inr cs"
    and t: "t = \<lparr>st_total = of_nat (length raws),
        st_creation_bits = bits_of (map (\<lambda>c. tc_to c = None) cs),
        st_y_parity_bits = bits_of (map (\<lambda>c. tc_parity c \<noteq> 0) cs),
        st_sigs = map tc_sig cs, st_nonces = map tc_nonce cs, st_gases = map tc_gas cs,
        st_tos = List.map_filter tc_to cs, st_datas = map tc_data cs, st_types = map tc_type cs\<rparr>"
    using assms(3) by (auto simp: new_span_txs_def rbind_eq_Inr)
  note len = columns_of_txs_length [OF cs]
  note cols = columns_back [OF assms(1,2) cs]
  have n: "unat (of_nat (length raws) :: u64) = length raws" using assms(4) by (simp add: unat_of_nat)
  show "recover_v chainID (strip_v t) = Inr t"
  proof -
    have vs: "map (\<lambda>i. recovered_v chainID (bit (bits_of (map (\<lambda>c. tc_parity c \<noteq> 0) cs)) i)
          (map tc_type cs ! i)) [0..<length cs] = map (\<lambda>c. Some (sig_v (tc_sig c))) cs"
      using cols(2) len by (intro nth_equalityI) (auto simp: bit_bits_of)
    have "map2 (\<lambda>v s. s\<lparr>sig_v := the v\<rparr>) (map (\<lambda>c. Some (sig_v (tc_sig c))) cs)
        (map (\<lambda>s. s\<lparr>sig_v := 0\<rparr>) (map tc_sig cs)) = map tc_sig cs"
      by (intro nth_equalityI) simp_all
    then show ?thesis by (simp add: recover_v_def strip_v_def t Let_def vs) (auto simp: comp_def)
  qed
  have loop: "full_txs_loop env chainID t [k..<length raws] (List.map_filter tc_to (drop k cs)) =
      Inr (drop k raws)" if "k \<le> length raws" for k
    using that
  proof (induction "length raws - k" arbitrary: k)
    case (Suc d)
    then have k: "k < length raws" by simp
    have rest: "full_txs_loop env chainID t [Suc k..<length raws]
        (List.map_filter tc_to (drop (Suc k) cs)) = Inr (drop (Suc k) raws)"
      using Suc.hyps k by simp
    obtain stx where stx: "unmarshal_span_tx env (tc_data (cs ! k)) = Inr stx"
      "te_marshal env (convert_to_full_tx stx (tc_nonce (cs ! k)) (tc_gas (cs ! k)) (tc_to (cs ! k)) chainID
        (uint (sig_v (tc_sig (cs ! k)))) (uint (sig_r (tc_sig (cs ! k)))) (uint (sig_s (tc_sig (cs ! k))))) =
       Some (raws ! k)" using cols(4) [OF k] by blast
    have ds: "drop k cs = cs ! k # drop (Suc k) cs" "drop k raws = raws ! k # drop (Suc k) raws"
      using k len by (simp_all add: Cons_nth_drop_Suc)
    have bit: "bit (st_creation_bits t) k \<longleftrightarrow> tc_to (cs ! k) = None" using k len by (simp add: t bit_bits_of)
    show ?case using k len rest stx bit unfolding upt_conv_Cons [OF k] ds
      by (cases "tc_to (cs ! k)") (simp_all add: t List.map_filter_simps)
  qed simp
  show "full_txs env chainID t = Inr raws"
    using loop [of 0] by (simp add: full_txs_def t n)
qed

section \<open>Origins and counts\<close>

lemma origin_nums_back:
  assumes "\<forall>i. 0 < i \<and> i < length es \<longrightarrow>
      (bit bits i \<longleftrightarrow> es ! (i - 1) < es ! i) \<and> (es ! i = es ! (i - 1) \<or> es ! i = es ! (i - 1) + 1 \<and> es ! (i - 1) < es ! i)"
    and "0 < k" "k \<le> length es"
  shows "origin_nums bits k (es ! (k - 1)) (drop k es) = es"
  using assms(2,3)
proof (induction k)
  case (Suc i)
  have d: "es ! i # drop (Suc i) es = drop i es" using Suc.prems by (simp add: Cons_nth_drop_Suc)
  show ?case
  proof (cases "i = 0")
    case True
    then show ?thesis using d by simp
  next
    case False
    then have "(if bit bits i \<and> i > 0 then es ! i - 1 else es ! i) = es ! (i - 1)"
      using assms(1) [rule_format, of i] Suc.prems by auto
    then show ?thesis using Suc.IH False Suc.prems d by simp
  qed
qed simp

lemma split_txs_back:
  "list_all (\<lambda>ts. length ts \<le> 10000000) tss \<Longrightarrow>
   split_txs (map (\<lambda>ts. of_nat (length ts)) tss) (concat tss) = Inr tss"
proof (induction tss)
  case (Cons ts tss)
  then have "unat (of_nat (length ts) :: u64) = length ts" by (simp add: unat_of_nat)
  with Cons show ?case by simp
qed simp

lemma sum_tx_counts_back:
  "a + length (concat tss) \<le> 10000000 \<Longrightarrow>
   sum_tx_counts (of_nat a) (map (\<lambda>ts. of_nat (length ts)) tss) = Inr (of_nat (a + length (concat tss)))"
proof (induction tss arbitrary: a)
  case (Cons ts tss)
  have le: "a + length ts \<le> 10000000" using Cons.prems by simp
  then have "unat (of_nat (a + length ts) :: u64) = a + length ts" "unat (of_nat a :: u64) = a"
    by (simp_all add: unat_of_nat del: of_nat_add)
  then have "\<not> (of_nat (a + length ts) :: u64) < of_nat a" by (simp add: word_less_nat_alt del: of_nat_add)
  then have "\<not> (of_nat a :: u64) + of_nat (length ts) < of_nat a" by simp
  moreover have "sum_tx_counts (of_nat a + of_nat (length ts)) (map (\<lambda>ts. of_nat (length ts)) tss) =
      Inr (of_nat (a + length (concat (ts # tss))))"
    using Cons.IH [of "a + length ts"] Cons.prems by (simp add: add.assoc)
  ultimately show ?case by simp
qed simp

lemma length_concat_nonempty: "(\<And>x. f x \<noteq> []) \<Longrightarrow> length xs \<le> length (concat (map f xs))"
proof (induction xs)
  case (Cons x xs)
  have "length (f x) > 0" using Cons.prems by simp
  moreover have "length xs \<le> length (concat (map f xs))" by (rule Cons.IH [OF Cons.prems])
  ultimately show ?case unfolding list.map concat.simps length_append list.size by linarith
qed simp

lemma put_uvarint_nonempty: "put_uvarint x \<noteq> []"
  by (simp add: put_uvarint.simps)

text \<open>Every block and every transaction takes at least a byte.\<close>

lemma encoded_length:
  "length (rs_block_tx_counts raw) \<le> length (encode_raw_span raw)"
  "length (st_sigs (rs_txs raw)) \<le> length (encode_raw_span raw)"
  using length_concat_nonempty [of put_uvarint "rs_block_tx_counts raw", OF put_uvarint_nonempty]
    length_concat_nonempty [of put_sig "st_sigs (rs_txs raw)", OF put_sig_nonempty]
  by (simp_all add: encode_raw_span_def encode_payload_def encode_span_txs_def tx_column_defs)

section \<open>The whole way\<close>

lemma wf_span_time_word:
  assumes "wf_span cfg b" "i < span_block_count b"
  shows "span_block_timestamp b i = span_timestamp b + rc_block_time cfg * of_nat i"
  using assms(2)
proof (induction i)
  case 0
  show ?case by (simp add: span_accessors)
next
  case (Suc i)
  then show ?case using wf_span_time_add [OF assms(1) Suc.prems] by (simp add: algebra_simps)
qed

lemma wf_span_sorted:
  assumes "wf_span cfg b"
  shows "sort_key se_timestamp (sp_batches b) = sp_batches b"
proof (rule sort_key_id_if_sorted)
  have "se_timestamp (sp_batches b ! i) \<le> se_timestamp (sp_batches b ! j)"
    if "i \<le> j" "j < length (sp_batches b)" for i j
    using wf_span_time [OF assms, of i] wf_span_time [OF assms, of j] that
    by (simp add: word_le_nat_alt span_block_timestamp_def span_block_count_def)
  then show "sorted (map se_timestamp (sp_batches b))" by (simp add: sorted_iff_nth_mono)
qed

lemma wf_span_origins:
  assumes "wf_span cfg b"
  shows "origin_nums (bits_of (origin_flags originChanged (sp_batches b))) (length (sp_batches b))
     (se_epoch_num (last (sp_batches b))) [] = map se_epoch_num (sp_batches b)"
proof -
  let ?es = "map se_epoch_num (sp_batches b)" and ?n = "length (sp_batches b)"
  have ne: "sp_batches b \<noteq> []" using assms by (simp add: wf_span_def)
  have step: "(bit (bits_of (origin_flags originChanged (sp_batches b))) i \<longleftrightarrow> ?es ! (i - 1) < ?es ! i) \<and>
      (?es ! i = ?es ! (i - 1) \<or> ?es ! i = ?es ! (i - 1) + 1 \<and> ?es ! (i - 1) < ?es ! i)"
    if i: "0 < i" "i < ?n" for i
  proof -
    have "unat (?es ! i) = unat (?es ! (i - 1)) \<or> unat (?es ! i) = unat (?es ! (i - 1)) + 1"
      using assms i by (cases i) (auto simp: wf_span_def span_block_epoch_def span_block_count_def)
    then have "?es ! i = ?es ! (i - 1) \<or> ?es ! i = ?es ! (i - 1) + 1 \<and> ?es ! (i - 1) < ?es ! i"
      using unat_next [of "?es ! i" "?es ! (i - 1)"]
      by (auto simp: word_unat_eq_iff word_less_nat_alt)
    moreover have "bit (bits_of (origin_flags originChanged (sp_batches b))) i \<longleftrightarrow> ?es ! (i - 1) < ?es ! i"
      using i by (simp add: bit_bits_of origin_flags_def)
    ultimately show ?thesis by blast
  qed
  have "origin_nums (bits_of (origin_flags originChanged (sp_batches b))) ?n (?es ! (?n - 1)) (drop ?n ?es) = ?es"
  proof (rule origin_nums_back)
    show "\<forall>i. 0 < i \<and> i < length ?es \<longrightarrow>
        (bit (bits_of (origin_flags originChanged (sp_batches b))) i \<longleftrightarrow> ?es ! (i - 1) < ?es ! i) \<and>
        (?es ! i = ?es ! (i - 1) \<or> ?es ! i = ?es ! (i - 1) + 1 \<and> ?es ! (i - 1) < ?es ! i)"
      using step unfolding length_map by blast
  qed (use ne in simp_all)
  then show ?thesis using ne by (simp add: last_conv_nth)
qed

lemma to_raw_span_wf:
  assumes "tx_env_ok env" "wf_span cfg b"
    and "length (sp_parent_check b) = 20" "length (sp_l1_origin_check b) = 20"
    and "list_all (\<lambda>el. list_all (wf_raw_tx env chainID) (se_transactions el)) (sp_batches b)"
    and "to_raw_span env originChanged genesisTimestamp chainID b = Inr raw"
    and "length (encode_raw_span raw) \<le> unat max_span_batch_size"
  shows "wf_raw_span env raw \<and> length (sp_batches b) \<le> 10000000 \<and>
    length (concat (map se_transactions (sp_batches b))) \<le> 10000000 \<and>
    (\<exists>stxs. new_span_txs env chainID (concat (map se_transactions (sp_batches b))) = Inr stxs \<and>
       raw = \<lparr>rs_rel_timestamp = span_timestamp b - genesisTimestamp,
         rs_l1_origin_num = se_epoch_num (last (sp_batches b)),
         rs_parent_check = sp_parent_check b, rs_l1_origin_check = sp_l1_origin_check b,
         rs_block_count = of_nat (length (sp_batches b)),
         rs_origin_bits = bits_of (origin_flags originChanged (sp_batches b)),
         rs_block_tx_counts = map (\<lambda>ts. of_nat (length ts)) (map se_transactions (sp_batches b)),
         rs_txs = stxs\<rparr>)"
proof -
  let ?els = "sp_batches b" and ?txs = "concat (map se_transactions (sp_batches b))"
  have ne: "?els \<noteq> []" using assms(2) by (simp add: wf_span_def)
  obtain stxs where stxs: "new_span_txs env chainID ?txs = Inr stxs"
    and raw: "raw = \<lparr>rs_rel_timestamp = span_timestamp b - genesisTimestamp,
         rs_l1_origin_num = se_epoch_num (last ?els),
         rs_parent_check = sp_parent_check b, rs_l1_origin_check = sp_l1_origin_check b,
         rs_block_count = of_nat (length ?els),
         rs_origin_bits = bits_of (origin_flags originChanged ?els),
         rs_block_tx_counts = map (\<lambda>ts. of_nat (length ts)) (map se_transactions ?els), rs_txs = stxs\<rparr>"
    using assms(6) ne
    by (auto simp: to_raw_span_def rbind_eq_Inr wf_span_sorted [OF assms(2)] Let_def
        span_timestamp_def hd_conv_nth comp_def)
  have sigs: "length (st_sigs stxs) = length ?txs" and tot: "st_total stxs = of_nat (length ?txs)"
    using stxs columns_of_txs_length by (auto simp: new_span_txs_def rbind_eq_Inr)
  have n: "length ?els \<le> 10000000" and m: "length ?txs \<le> 10000000"
    using encoded_length [of raw] assms(7) sigs by (simp_all add: raw max_span_batch_size_def)
  have wraw: "list_all (wf_raw_tx env chainID) ?txs" using assms(5) by (auto simp: list_all_iff)
  have wtxs: "wf_span_txs env stxs" by (rule new_span_txs_wf [OF assms(1) wraw stxs m])
  have nn: "unat (of_nat (length ?els) :: u64) = length ?els" using n by (simp add: unat_of_nat)
  have counts: "\<not> of_nat (length (se_transactions el)) > max_span_batch_size" if "el \<in> set ?els" for el
  proof -
    have "length (se_transactions el) \<le> length ?txs"
      using that by (auto simp: length_concat intro!: member_le_sum_list)
    then have "length (se_transactions el) \<le> 10000000" using m by linarith
    then show ?thesis by (simp add: max_span_batch_size_def word_less_nat_alt unat_of_nat)
  qed
  have "wf_raw_span env raw"
    unfolding wf_raw_span_def
  proof (intro conjI)
    show "rs_block_count raw \<noteq> 0" using nn ne by (auto simp: raw)
    show "\<not> rs_block_count raw > max_span_batch_size"
      using n nn by (simp add: raw max_span_batch_size_def word_less_nat_alt)
    show "wf_bits (rs_block_count raw) (rs_origin_bits raw)"
      by (simp add: raw wf_bits_of nn origin_flags_def)
    show "list_all (\<lambda>c. \<not> c > max_span_batch_size) (rs_block_tx_counts raw)"
      using counts by (auto simp: raw list_all_iff)
    show "sum_tx_counts 0 (rs_block_tx_counts raw) = Inr (st_total (rs_txs raw))"
      using sum_tx_counts_back [of 0 "map se_transactions ?els"] m by (simp add: raw tot)
    show "\<not> st_total (rs_txs raw) > max_span_batch_size"
      using m by (simp add: raw tot max_span_batch_size_def word_less_nat_alt unat_of_nat)
  qed (use assms(3,4) nn wtxs in \<open>simp_all add: raw\<close>)
  then show ?thesis using n m stxs raw by blast
qed

text \<open>C25. What the batcher writes, the derivation reads: if a well-formed span of signed transactions
  of the chain is converted to its raw form and encoded within the size limit, decoding the
  bytes succeeds, leaves nothing over, and deriving the blocks from the result gives the same
  span: the same origins, timestamps and transactions, byte for byte.\<close>

theorem span_batch_roundtrip:
  assumes "tx_env_ok env" "wf_span cfg b"
    and "length (sp_parent_check b) = 20" "length (sp_l1_origin_check b) = 20"
    and "list_all (\<lambda>el. list_all (wf_raw_tx env chainID) (se_transactions el)) (sp_batches b)"
    and "to_raw_span env originChanged genesisTimestamp chainID b = Inr raw"
    and "length (encode_raw_span raw) \<le> unat max_span_batch_size"
  shows "\<exists>raw'. decode_raw_span env (encode_raw_span raw) = Inr (raw', []) \<and>
    derive_span env (rc_block_time cfg) genesisTimestamp chainID raw' = Inr b"
proof -
  let ?els = "sp_batches b"
  let ?tss = "map se_transactions ?els"
  note to_raw = to_raw_span_wf [OF assms]
  then obtain stxs where stxs: "new_span_txs env chainID (concat ?tss) = Inr stxs"
    and raw: "raw = \<lparr>rs_rel_timestamp = span_timestamp b - genesisTimestamp,
         rs_l1_origin_num = se_epoch_num (last ?els),
         rs_parent_check = sp_parent_check b, rs_l1_origin_check = sp_l1_origin_check b,
         rs_block_count = of_nat (length ?els),
         rs_origin_bits = bits_of (origin_flags originChanged ?els),
         rs_block_tx_counts = map (\<lambda>ts. of_nat (length ts)) ?tss, rs_txs = stxs\<rparr>" by blast
  have n: "unat (of_nat (length ?els) :: u64) = length ?els" using to_raw by (simp add: unat_of_nat)
  have nz: "(of_nat (length ?els) :: u64) \<noteq> 0"
  proof
    assume "(of_nat (length ?els) :: u64) = 0"
    then have "length ?els = 0" using n by simp
    then show False using assms(2) by (simp add: wf_span_def)
  qed
  have wraw: "list_all (wf_raw_tx env chainID) (concat ?tss)" using assms(5) by (auto simp: list_all_iff)
  note txs = new_span_txs_back [OF assms(1) wraw stxs]
  have "list_all (\<lambda>ts. length ts \<le> 10000000) ?tss"
  proof -
    have "length ts \<le> length (concat ?tss)" if "ts \<in> set ?tss" for ts
      using that by (auto simp: length_concat intro!: member_le_sum_list)
    then show ?thesis using to_raw by (fastforce simp: list_all_iff)
  qed
  then have split: "split_txs (map (\<lambda>ts. of_nat (length ts)) ?tss) (concat ?tss) = Inr ?tss"
    by (rule split_txs_back)
  have blocks: "map (\<lambda>i. \<lparr>se_epoch_num = map se_epoch_num ?els ! i,
      se_timestamp = genesisTimestamp + (span_timestamp b - genesisTimestamp) + rc_block_time cfg * of_nat i,
      se_transactions = ?tss ! i\<rparr>) [0..<length ?els] = ?els"
    using wf_span_time_word [OF assms(2)]
    by (intro nth_equalityI) (simp_all add: span_block_timestamp_def span_block_count_def)
  have "derive_span env (rc_block_time cfg) genesisTimestamp chainID (raw\<lparr>rs_txs := strip_v (rs_txs raw)\<rparr>) = Inr b"
    using to_raw nz txs split blocks wf_span_origins [OF assms(2), of originChanged]
    by (simp add: derive_span_def raw n Let_def)
  then show ?thesis using decode_encode_raw [of env raw] to_raw assms(7) by blast
qed

definition demo_tx :: full_tx where
  "demo_tx = \<lparr>ftx_body = KnownBody (LegacyTxData 1 2 [3]), ftx_chain_id = 0, ftx_nonce = 4,
     ftx_gas = 100, ftx_to = None, ftx_v = 37, ftx_r = 5, ftx_s = 6\<rparr>"

text \<open>A codec of that one transaction: \<open>[192]\<close> is its data, \<open>[193]\<close> the transaction.\<close>

definition demo_tx_env :: tx_env where
  "demo_tx_env =
     \<lparr>te_rlp_enc = (\<lambda>t. if t = LegacyTxData 1 2 [3] then Some [192] else None),
      te_rlp_dec = (\<lambda>k d. if k = 0 \<and> d = [192] then Some (LegacyTxData 1 2 [3]) else None),
      te_read_list = (\<lambda>r. if r \<noteq> [] \<and> hd r = 192 then Inr ([192], tl r) else Inl ErrUnexpectedLength),
      te_unmarshal = (\<lambda>raw. if raw = [193] then Some demo_tx else None),
      te_marshal = (\<lambda>tx. if tx = demo_tx then Some [193] else None),
      te_protected = (\<lambda>_. True), te_tx_chain_id = (\<lambda>_. 1)\<rparr>"

definition demo_tx_span :: span_batch where
  "demo_tx_span = \<lparr>sp_parent_check = replicate 20 2, sp_l1_origin_check = replicate 20 11,
     sp_batches = [\<lparr>se_epoch_num = 10, se_timestamp = 1002, se_transactions = [[193]]\<rparr>,
                   \<lparr>se_epoch_num = 11, se_timestamp = 1004, se_transactions = []\<rparr>]\<rparr>"

lemma demo_tx_span_wf: "wf_span demo_config demo_tx_span"
  by (auto simp: wf_span_def span_accessors demo_tx_span_def demo_config_def less_Suc_eq)

theorem span_batch_roundtrip_witness:
  "\<exists>raw raw'. to_raw_span demo_tx_env False 1000 1 demo_tx_span = Inr raw \<and>
     decode_raw_span demo_tx_env (encode_raw_span raw) = Inr (raw', []) \<and>
     derive_span demo_tx_env 2 1000 1 raw' = Inr demo_tx_span"
proof -
  have env: "tx_env_ok demo_tx_env" by (auto simp: tx_env_ok_def demo_tx_env_def split: if_splits)
  have wf: "list_all (\<lambda>el. list_all (wf_raw_tx demo_tx_env 1) (se_transactions el)) (sp_batches demo_tx_span)"
    by (simp add: demo_tx_span_def wf_raw_tx_def demo_tx_env_def wf_tx_def demo_tx_def)
  obtain raw where raw: "to_raw_span demo_tx_env False 1000 1 demo_tx_span = Inr raw"
      "rs_block_tx_counts raw = [1, 0]" "rs_rel_timestamp raw = 2" "rs_l1_origin_num raw = 11"
      "rs_block_count raw = 2" "length (rs_parent_check raw) = 20" "length (rs_l1_origin_check raw) = 20"
      "st_total (rs_txs raw) = 1" "length (st_sigs (rs_txs raw)) = 1" "st_tos (rs_txs raw) = []"
      "st_datas (rs_txs raw) = [[192]]" "st_nonces (rs_txs raw) = [4]" "st_gases (rs_txs raw) = [100]"
    by (simp add: to_raw_span_def wf_span_sorted [OF demo_tx_span_wf] new_span_txs_def
        columns_of_tx_def demo_tx_span_def demo_tx_env_def demo_tx_def convert_v_to_y_parity_def
        body_type_def new_span_tx_def marshal_span_tx_def Let_def List.map_filter_simps)
  have "length (encode_raw_span raw) \<le> unat max_span_batch_size"
    by (simp add: encode_raw_span_def encode_prefix_def encode_payload_def encode_span_txs_def tx_column_defs raw
        put_uvarint.simps length_encode_bits bit_buffer_len_def max_span_batch_size_def
        length_concat comp_def put_sig_simps sum_list_triv)
  from span_batch_roundtrip [OF env demo_tx_span_wf _ _ wf raw(1) this] raw(1) show ?thesis
    by (simp add: demo_tx_span_def demo_config_def)
qed

section \<open>Transactions that do not survive\<close>

text \<open>
  A legacy transaction without replay protection (\<open>v = 27\<close>) is accepted by the encoder and
  comes back with the signature value of a protected one, here 37 on chain 1.
\<close>

lemma unprotected_tx_altered:
  assumes "te_unmarshal env raw = Some tx" "\<not> te_protected env tx"
    and "ftx_body tx = KnownBody (LegacyTxData v p d)" "ftx_v tx = 27"
    and "te_rlp_enc env (LegacyTxData v p d) = Some e"
  shows "\<exists>c. columns_of_tx env 1 raw = Inr c \<and> sig_v (tc_sig c) = 27 \<and>
    recovered_v 1 (tc_parity c \<noteq> 0) (tc_type c) = Some 37"
  using assms by (simp add: columns_of_tx_def convert_v_to_y_parity_def body_type_def
      new_span_tx_def marshal_span_tx_def recovered_v_def)

text \<open>A transaction of another type panics before its type is reported as unsupported.\<close>

lemma other_type_panics:
  assumes "te_unmarshal env raw = Some tx" "\<not> te_protected env tx"
    and "ftx_body tx = OtherBody k" "k > 2"
  shows "columns_of_tx env chainID raw = Inl SpanPanic"
  using assms by (auto simp: columns_of_tx_def convert_v_to_y_parity_def body_type_def)

end
