(* ===== verification/Derive_Span_Wf.thy ===== *)
theory Derive_Span_Wf
  imports Derive_Span_Roundtrip
begin

text \<open>
  Whatever bytes a channel held, the span derived from them is well formed, and the rules can
  be applied to it: no index is out of range and nothing is divided by zero.
\<close>

section \<open>Derived spans are well formed\<close>

lemma length_origin_nums: "length (origin_nums bits k num acc) = k + length acc"
  by (induction bits k num acc rule: origin_nums.induct) simp_all

text \<open>The last block has the number the span names; going down from it, an origin is its successor's or one less, as the
  machine subtracts.\<close>

lemma origin_nums_acc: "j < length acc \<Longrightarrow> origin_nums bits k num acc ! (k + j) = acc ! j"
proof (induction bits k num acc arbitrary: j rule: origin_nums.induct)
  case (2 bits i num acc)
  then show ?case using "2.IH" [of "Suc j"] by simp
qed simp

lemma origin_nums_last: "0 < k \<Longrightarrow> origin_nums bits k num [] ! (k - 1) = num"
  using origin_nums_acc [of 0 "[num]" bits "k - 1"] by (cases k) simp_all

lemma origin_nums_steps:
  assumes "acc \<noteq> [] \<Longrightarrow> hd acc = num \<or> hd acc = num + 1"
    and "\<forall>i. Suc i < length acc \<longrightarrow> acc ! Suc i = acc ! i \<or> acc ! Suc i = acc ! i + 1"
  shows "\<forall>i. Suc i < k + length acc \<longrightarrow>
      origin_nums bits k num acc ! Suc i = origin_nums bits k num acc ! i \<or>
      origin_nums bits k num acc ! Suc i = origin_nums bits k num acc ! i + 1"
  using assms
proof (induction bits k num acc rule: origin_nums.induct)
  case (2 bits i num acc)
  have chain: "\<forall>j. Suc j < length (num # acc) \<longrightarrow>
      (num # acc) ! Suc j = (num # acc) ! j \<or> (num # acc) ! Suc j = (num # acc) ! j + 1"
  proof (intro allI impI)
    fix j
    assume j: "Suc j < length (num # acc)"
    then show "(num # acc) ! Suc j = (num # acc) ! j \<or> (num # acc) ! Suc j = (num # acc) ! j + 1"
      using "2.prems" by (cases j; cases acc) auto
  qed
  have "hd (num # acc) = (if bit bits i \<and> i > 0 then num - 1 else num) \<or>
      hd (num # acc) = (if bit bits i \<and> i > 0 then num - 1 else num) + 1" by simp
  from "2.IH" [OF this chain] show ?case by simp
qed simp

lemma derived_fields:
  assumes "derive_span env blockTime genesisTimestamp chainID raw = Inr b"
  obtains txs where "sp_batches b = map (\<lambda>i.
        \<lparr>se_epoch_num = origin_nums (rs_origin_bits raw) (unat (rs_block_count raw)) (rs_l1_origin_num raw) [] ! i,
         se_timestamp = genesisTimestamp + rs_rel_timestamp raw + blockTime * of_nat i,
         se_transactions = txs ! i\<rparr>) [0..<unat (rs_block_count raw)]" "0 < unat (rs_block_count raw)"
  using assms
  by (auto simp: derive_span_def Let_def rbind_eq_Inr unat_gt_0 simp del: map_eq_conv split: if_splits)

lemma derive_span_steps:
  assumes "derive_span env (rc_block_time cfg) genesisTimestamp chainID raw = Inr b"
  shows "span_steps cfg b" "span_block_count b = unat (rs_block_count raw)"
    "span_timestamp b = genesisTimestamp + rs_rel_timestamp raw"
    "span_block_epoch b (span_block_count b - 1) = rs_l1_origin_num raw"
proof -
  let ?n = "unat (rs_block_count raw)"
  let ?os = "origin_nums (rs_origin_bits raw) ?n (rs_l1_origin_num raw) []"
  obtain txs where b: "sp_batches b = map (\<lambda>i.
        \<lparr>se_epoch_num = ?os ! i,
         se_timestamp = genesisTimestamp + rs_rel_timestamp raw + rc_block_time cfg * of_nat i,
         se_transactions = txs ! i\<rparr>) [0..<?n]" and n: "0 < ?n"
    by (rule derived_fields [OF assms])
  have steps: "\<forall>i. Suc i < ?n \<longrightarrow> ?os ! Suc i = ?os ! i \<or> ?os ! Suc i = ?os ! i + 1"
    using origin_nums_steps [of "[]" "rs_l1_origin_num raw" ?n "rs_origin_bits raw"] by simp
  show "span_steps cfg b"
    unfolding span_steps_def span_block_count_def span_block_timestamp_def span_block_epoch_def
    using n steps by (auto simp: b algebra_simps)
  show "span_block_count b = ?n" by (simp add: span_block_count_def b)
  show "span_timestamp b = genesisTimestamp + rs_rel_timestamp raw"
    using n by (simp add: span_timestamp_def b hd_map)
  show "span_block_epoch b (span_block_count b - 1) = rs_l1_origin_num raw"
    using n origin_nums_last [OF n] by (simp add: span_block_epoch_def span_block_count_def b)
qed

text \<open>Without a wrap-around the steps are those of numbers. Fewer than \<open>2 ^ 64\<close> steps of at most one cannot wrap around
  and end above where they began.\<close>

lemma epochs_no_wrap:
  assumes "span_steps cfg b" "span_block_count b \<le> 2 ^ 64"
    and "span_block_epoch b 0 \<le> span_block_epoch b (span_block_count b - 1)" "Suc i < span_block_count b"
  shows "unat (span_block_epoch b (Suc i)) = unat (span_block_epoch b i) \<or>
    unat (span_block_epoch b (Suc i)) = unat (span_block_epoch b i) + 1"
proof -
  define e where "e = span_block_epoch b"
  define K where "K j = unat (e j - e 0)" for j
  have step: "K (Suc j) = K j \<or> K (Suc j) = K j + 1" if "Suc j < span_block_count b" "K j \<le> j" for j
  proof -
    have "e (Suc j) - e 0 = e j - e 0 \<or> e (Suc j) - e 0 = (e j - e 0) + 1"
      using assms(1) that(1) by (auto simp: span_steps_def e_def)
    moreover have "unat (x + 1) = unat x + 1" if "unat x + 1 < 2 ^ 64" for x :: u64
      using that by (simp add: unat_word_ariths)
    moreover have "unat (e j - e 0) + 1 < 2 ^ 64" using that assms(2) by (simp add: K_def)
    ultimately show ?thesis unfolding K_def by metis
  qed
  have le: "j < span_block_count b \<Longrightarrow> K j \<le> j" for j
  proof (induction j)
    case (Suc j)
    then show ?case using step [of j] by fastforce
  qed (simp add: K_def)
  have mono: "K j \<le> K (j + d)" if "j + d < span_block_count b" for j d
    using that
  proof (induction d)
    case (Suc d)
    then show ?case using step [of "j + d"] le [of "j + d"] by fastforce
  qed simp
  let ?m = "span_block_count b - 1"
  have top: "unat (e 0) + K ?m = unat (e ?m)" using assms(3) by (simp add: K_def e_def unat_sub word_le_nat_alt)
  have eq: "unat (e j) = unat (e 0) + K j" if "j < span_block_count b" for j
  proof -
    have "K j \<le> K ?m" using mono [of j "?m - j"] that by simp
    then have "unat (e 0) + unat (e j - e 0) < 2 ^ 64" using top unat_lt [of "e ?m"] by (simp add: K_def)
    moreover have "unat (x + y) = unat x + unat y" if "unat x + unat y < 2 ^ 64" for x y :: u64
      using that by (simp add: unat_word_ariths)
    ultimately have "unat (e 0 + (e j - e 0)) = unat (e 0) + unat (e j - e 0)" by blast
    then show ?thesis by (simp add: K_def)
  qed
  show ?thesis using eq [of i] eq [of "Suc i"] step [of i] le [of i] assms(4) by (auto simp: e_def)
qed

lemma steps_wf:
  assumes "span_steps cfg b" "span_block_count b \<le> 2 ^ 64"
    and "span_block_epoch b 0 \<le> span_block_epoch b (span_block_count b - 1)"
    and "unat (span_timestamp b) + (span_block_count b - 1) * unat (rc_block_time cfg) < 2 ^ 64"
  shows "wf_span cfg b"
proof -
  have time: "unat (span_block_timestamp b i) = unat (span_timestamp b) + i * unat (rc_block_time cfg)"
    if "i < span_block_count b" for i
  proof -
    have "i * unat (rc_block_time cfg) \<le> (span_block_count b - 1) * unat (rc_block_time cfg)"
      using that by (intro mult_le_mono1) simp
    then have le: "unat (span_timestamp b) + i * unat (rc_block_time cfg) < 2 ^ 64" using assms(4) by linarith
    have "unat (of_nat i :: u64) = i" using that assms(2) by (simp add: unat_of_nat)
    then have "unat (of_nat i * rc_block_time cfg) = i * unat (rc_block_time cfg)"
      using le by (simp add: unat_word_ariths)
    then show ?thesis using le span_steps_time [OF assms(1) that] by (simp add: unat_word_ariths)
  qed
  have "unat (span_block_timestamp b (Suc i)) = unat (span_block_timestamp b i) + unat (rc_block_time cfg)"
    if "Suc i < span_block_count b" for i using time [of i] time [of "Suc i"] that by simp
  then show ?thesis unfolding wf_span_def
    using assms(1) epochs_no_wrap [OF assms(1-3)] by (simp add: span_steps_def)
qed

text \<open>C26. Every span that is derived from bytes is well typed for the rules, whatever the bytes say: it has
  as many blocks as they name, the first at the time and the last with the L1 origin they name; each block is one
  block time after its predecessor and its origin is the predecessor's or the next, as the machine adds; and the
  checker applied to it never panics, for any L1 blocks and inclusion block, also when the span overlaps the safe chain or its
  numbers wrap around. When the last origin is not below the first and the timestamps do not wrap around, the steps are those
  of numbers, which is what the other results on spans need. Used are a checked configuration, a safe head whose next
  timestamp does not wrap around, and payloads of the safe chain without empty transactions.\<close>

theorem derived_span_well_typed:
  assumes "derive_span env (rc_block_time cfg) genesisTimestamp chainID raw = Inr b"
    and "check_config cfg = Inr ()"
    and "unat (l2_time safe) + unat (rc_block_time cfg) < 2 ^ 64"
    and "\<forall>num pl. env_payload l2env num = Some pl \<longrightarrow> [] \<notin> set (pl_transactions pl)"
  shows "0 < span_block_count b \<and> span_block_count b = unat (rs_block_count raw) \<and>
    span_timestamp b = genesisTimestamp + rs_rel_timestamp raw \<and>
    span_block_epoch b (span_block_count b - 1) = rs_l1_origin_num raw \<and>
    (\<forall>i. Suc i < span_block_count b \<longrightarrow>
       span_block_timestamp b (Suc i) = span_block_timestamp b i + rc_block_time cfg \<and>
       (span_block_epoch b (Suc i) = span_block_epoch b i \<or>
        span_block_epoch b (Suc i) = span_block_epoch b i + 1)) \<and>
    check_span_batch l2env cfg l1Blocks safe b inclusion \<noteq> CheckPanic \<and>
    (span_block_epoch b 0 \<le> span_block_epoch b (span_block_count b - 1) \<and>
     unat (span_timestamp b) + (span_block_count b - 1) * unat (rc_block_time cfg) < 2 ^ 64 \<longrightarrow> wf_span cfg b)"
proof -
  note d = derive_span_steps [OF assms(1)]
  have "span_block_count b \<le> 2 ^ 64" using d(2) unat_lt [of "rs_block_count raw"] by simp
  note wf = steps_wf [OF d(1) this]
  have "check_span_batch l2env cfg l1Blocks safe b inclusion \<noteq> CheckPanic"
    by (rule check_span_batch_no_panic [OF d(1) check_config_block_time [OF assms(2)] assms(3,4)])
  moreover have "0 < span_block_count b" using d(1) by (simp add: span_steps_def span_block_count_def)
  ultimately show ?thesis using d wf by (simp add: span_steps_def)
qed

text \<open>Ten blocks on a young chain, the last with the origin 5.\<close>

definition demo_raw_span :: raw_span_batch where
  "demo_raw_span =
     \<lparr>rs_rel_timestamp = 2, rs_l1_origin_num = 5, rs_parent_check = replicate 20 2,
      rs_l1_origin_check = replicate 20 5, rs_block_count = 10, rs_origin_bits = 2,
      rs_block_tx_counts = [0, 0, 0, 0, 0, 0, 0, 0, 0, 0],
      rs_txs = \<lparr>st_total = 0, st_creation_bits = 0, st_y_parity_bits = 0, st_sigs = [], st_nonces = [],
        st_gases = [], st_tos = [], st_datas = [], st_types = []\<rparr>\<rparr>"

lemma demo_origins:
  "origin_nums 2 10 5 [] = [4, 5, 5, 5, 5, 5, 5, 5, 5, 5]"
  by (simp add: eval_nat_numeral bit_iff_odd)

theorem derived_span_well_typed_witness:
  "\<exists>b. derive_span demo_tx_env 2 1000 1 demo_raw_span = Inr b \<and> wf_span demo_config b \<and> span_block_count b = 10 \<and>
     check_span_batch demo_env demo_config demo_l1_blocks demo_safe b (demo_l1_blocks ! 1) \<noteq> CheckPanic"
proof -
  obtain b where b: "derive_span demo_tx_env (rc_block_time demo_config) 1000 1 demo_raw_span = Inr b"
    by (simp add: derive_span_def demo_raw_span_def demo_config_def Let_def recover_v_def full_txs_def)
  have c: "unat (l2_time demo_safe) + unat (rc_block_time demo_config) < 2 ^ 64"
    "\<forall>num pl. env_payload demo_env num = Some pl \<longrightarrow> [] \<notin> set (pl_transactions pl)"
    by (simp_all add: demo_config_def demo_safe_def demo_env_def)
  note t = derived_span_well_typed [OF b check_demo_config c, of demo_l1_blocks "demo_l1_blocks ! 1"]
  have n: "unat (rs_block_count demo_raw_span) = 10" by (simp add: demo_raw_span_def)
  have "span_block_epoch b 0 = 4"
    using b n by (elim derived_fields) (simp add: span_block_epoch_def demo_raw_span_def demo_origins)
  moreover have "unat (span_timestamp b) = 1002" using t by (simp add: demo_raw_span_def)
  moreover have "span_block_epoch b (span_block_count b - 1) = rs_l1_origin_num demo_raw_span" using t by blast
  moreover have "rs_l1_origin_num demo_raw_span = 5" by (simp add: demo_raw_span_def)
  moreover have "unat (rc_block_time demo_config) = 2" by (simp add: demo_config_def)
  moreover have "span_block_count b = 10" using t n by simp
  ultimately have "wf_span demo_config b" using t by simp
  then show ?thesis using b t n by (auto simp: demo_config_def)
qed

end
