(* ===== verification/Go_Heap.thy ===== *)
theory Go_Heap
  imports Main "HOL-Library.Multiset"
begin

text \<open>
  Go's \<^verbatim>\<open>container/heap\<close>, which the queue of unsafe payloads is built on: a binary heap in a
  slice, with \<^verbatim>\<open>heap.Push\<close> and \<^verbatim>\<open>heap.Pop\<close> over the methods \<^verbatim>\<open>Len\<close>, \<^verbatim>\<open>Less\<close>, \<^verbatim>\<open>Swap\<close>,
  \<^verbatim>\<open>Push\<close> and \<^verbatim>\<open>Pop\<close> of the client. The order is a parameter.
\<close>

section \<open>Operations\<close>

definition heap_swap :: "'a list \<Rightarrow> nat \<Rightarrow> nat \<Rightarrow> 'a list" where
  "heap_swap h i j = h[i := h ! j, j := h ! i]"

text \<open>At index 0 the parent \<^verbatim>\<open>(j-1)/2\<close> is 0 itself, in Go as on naturals.\<close>

fun heap_up :: "('a \<Rightarrow> 'a \<Rightarrow> bool) \<Rightarrow> 'a list \<Rightarrow> nat \<Rightarrow> 'a list" where
  "heap_up lt h j =
     (let i = (j - 1) div 2 in
      if i = j \<or> \<not> lt (h ! j) (h ! i) then h else heap_up lt (heap_swap h i j) i)"

declare heap_up.simps [simp del]

definition smaller_child :: "('a \<Rightarrow> 'a \<Rightarrow> bool) \<Rightarrow> 'a list \<Rightarrow> nat \<Rightarrow> nat \<Rightarrow> nat" where
  "smaller_child lt h i n =
     (let j1 = 2 * i + 1; j2 = j1 + 1 in
      if j2 < n \<and> lt (h ! j2) (h ! j1) then j2 else j1)"

function heap_down :: "('a \<Rightarrow> 'a \<Rightarrow> bool) \<Rightarrow> 'a list \<Rightarrow> nat \<Rightarrow> nat \<Rightarrow> 'a list" where
  "heap_down lt h i n =
     (if 2 * i + 1 \<ge> n then h
      else let j = smaller_child lt h i n in
        if \<not> lt (h ! j) (h ! i) then h else heap_down lt (heap_swap h i j) j n)"
  by pat_completeness auto
termination
  by (relation "measure (\<lambda>(lt, h, i, n). n - i)")
     (auto simp: smaller_child_def Let_def split: if_splits)

declare heap_down.simps [simp del]

definition heap_push :: "('a \<Rightarrow> 'a \<Rightarrow> bool) \<Rightarrow> 'a list \<Rightarrow> 'a \<Rightarrow> 'a list" where
  "heap_push lt h x = heap_up lt (h @ [x]) (length h)"

definition heap_pop :: "('a \<Rightarrow> 'a \<Rightarrow> bool) \<Rightarrow> 'a list \<Rightarrow> 'a \<times> 'a list" where
  "heap_pop lt h =
     (let n = length h - 1; h' = heap_down lt (heap_swap h 0 n) 0 n
      in (h' ! n, take n h'))"

section \<open>What a heap guarantees\<close>

lemma length_heap_swap [simp]: "length (heap_swap h i j) = length h"
  by (simp add: heap_swap_def)

lemma nth_heap_swap:
  "i < length h \<Longrightarrow> j < length h \<Longrightarrow>
   heap_swap h i j ! k = (if k = j then h ! i else if k = i then h ! j else h ! k)"
  by (auto simp: heap_swap_def nth_list_update)

lemma mset_heap_swap: "i < length h \<Longrightarrow> j < length h \<Longrightarrow> mset (heap_swap h i j) = mset h"
  by (simp add: heap_swap_def mset_swap)

lemma length_heap_up [simp]: "length (heap_up lt h j) = length h"
  by (induction lt h j rule: heap_up.induct) (subst heap_up.simps, simp add: Let_def)

lemma mset_heap_up: "j < length h \<Longrightarrow> mset (heap_up lt h j) = mset h"
proof (induction lt h j rule: heap_up.induct)
  case (1 lt h j)
  then show ?case by (subst heap_up.simps) (auto simp: Let_def mset_heap_swap)
qed

lemma smaller_child_bounds:
  "2 * i + 1 < n \<Longrightarrow> i < smaller_child lt h i n \<and> smaller_child lt h i n < n"
  by (auto simp: smaller_child_def Let_def)

lemma length_heap_down [simp]: "length (heap_down lt h i n) = length h"
  by (induction lt h i n rule: heap_down.induct) (subst heap_down.simps, simp add: Let_def)

lemma mset_heap_down: "n \<le> length h \<Longrightarrow> mset (heap_down lt h i n) = mset h"
proof (induction lt h i n rule: heap_down.induct)
  case (1 lt h i n)
  show ?case
  proof (cases "2 * i + 1 \<ge> n")
    case False
    then show ?thesis using 1 smaller_child_bounds [of i n lt h]
      by (subst heap_down.simps) (auto simp: Let_def mset_heap_swap)
  qed (simp add: heap_down.simps)
qed

lemma heap_down_above: "n \<le> k \<Longrightarrow> n \<le> length h \<Longrightarrow> heap_down lt h i n ! k = h ! k"
proof (induction lt h i n rule: heap_down.induct)
  case (1 lt h i n)
  show ?case
  proof (cases "2 * i + 1 \<ge> n")
    case False
    then show ?thesis using 1 smaller_child_bounds [of i n lt h]
      by (subst heap_down.simps) (auto simp: Let_def nth_heap_swap)
  qed (simp add: heap_down.simps)
qed

text \<open>
  The order has to compare like a key does. The invariant with one hole: every element is at
  least its parent, except at the hole, whose children are at least the hole's parent.
\<close>

locale heap_order =
  fixes lt :: "'a \<Rightarrow> 'a \<Rightarrow> bool" and key :: "'a \<Rightarrow> nat"
  assumes less_key: "lt x y \<longleftrightarrow> key x < key y"
begin

definition ordered :: "'a list \<Rightarrow> nat \<Rightarrow> bool" where
  "ordered h n \<longleftrightarrow> (\<forall>k. 0 < k \<and> k < n \<longrightarrow> key (h ! ((k - 1) div 2)) \<le> key (h ! k))"

definition up_hole :: "'a list \<Rightarrow> nat \<Rightarrow> bool" where
  "up_hole h j \<longleftrightarrow>
     (\<forall>k. 0 < k \<and> k < length h \<and> k \<noteq> j \<longrightarrow> key (h ! ((k - 1) div 2)) \<le> key (h ! k)) \<and>
     (\<forall>k. 0 < k \<and> k < length h \<and> 0 < j \<and> (k - 1) div 2 = j \<longrightarrow>
        key (h ! ((j - 1) div 2)) \<le> key (h ! k))"

definition down_hole :: "'a list \<Rightarrow> nat \<Rightarrow> nat \<Rightarrow> bool" where
  "down_hole h i n \<longleftrightarrow>
     (\<forall>k. 0 < k \<and> k < n \<and> (k - 1) div 2 \<noteq> i \<longrightarrow> key (h ! ((k - 1) div 2)) \<le> key (h ! k)) \<and>
     (\<forall>k. 0 < k \<and> k < n \<and> 0 < i \<and> (k - 1) div 2 = i \<longrightarrow>
        key (h ! ((i - 1) div 2)) \<le> key (h ! k))"

lemma up_hole_step:
  assumes j: "j < length h" "0 < j" and u: "up_hole h j"
    and l: "key (h ! j) < key (h ! ((j - 1) div 2))"
  shows "up_hole (heap_swap h ((j - 1) div 2) j) ((j - 1) div 2)"
proof -
  define i where "i = (j - 1) div 2"
  have i: "i < j" "i < length h" using j by (auto simp: i_def)
  note s = nth_heap_swap [OF i(2) j(1)]
  have u1: "key (h ! ((k - 1) div 2)) \<le> key (h ! k)" if "0 < k" "k < length h" "k \<noteq> j" for k
    using u that by (simp add: up_hole_def)
  have u2: "key (h ! i) \<le> key (h ! k)" if "0 < k" "k < length h" "(k - 1) div 2 = j" for k
    using u that j(2) by (simp add: up_hole_def i_def)
  have l': "key (h ! j) < key (h ! i)" using l by (simp add: i_def)
  have a: "key (heap_swap h i j ! ((k - 1) div 2)) \<le> key (heap_swap h i j ! k)"
    if k: "0 < k" "k < length h" "k \<noteq> i" for k
  proof (cases "k = j")
    case True
    moreover have "(j - 1) div 2 = i" by (simp add: i_def)
    ultimately show ?thesis using l' i(1) by (simp add: s)
  next
    case False
    note p = u1 [OF k(1,2) False]
    show ?thesis using u2 [OF k(1,2)] p l' False k(3) by (auto simp: s)
  qed
  have b: "key (heap_swap h i j ! ((i - 1) div 2)) \<le> key (heap_swap h i j ! k)"
    if k: "0 < k" "k < length h" "0 < i" "(k - 1) div 2 = i" for k
  proof -
    have pp: "(i - 1) div 2 \<noteq> i" "(i - 1) div 2 \<noteq> j" using k(3) i(1) by auto
    have "k \<noteq> i" using k(3,4) by auto
    have q: "key (h ! ((i - 1) div 2)) \<le> key (h ! i)" using u1 [of i] i k(3) by simp
    moreover have "key (h ! i) \<le> key (h ! k)" if "k \<noteq> j" using u1 [OF k(1,2) that] k(4) by simp
    ultimately show ?thesis using pp \<open>k \<noteq> i\<close> by (cases "k = j") (auto simp: s)
  qed
  show ?thesis unfolding i_def [symmetric] up_hole_def using a b by simp
qed

lemma ordered_up: "j < length h \<Longrightarrow> up_hole h j \<Longrightarrow> ordered (heap_up lt h j) (length h)"
proof (induction j arbitrary: h rule: less_induct)
  case (less j)
  define i where "i = (j - 1) div 2"
  show ?case
  proof (cases "i = j \<or> \<not> lt (h ! j) (h ! i)")
    case True
    have "key (h ! ((k - 1) div 2)) \<le> key (h ! k)" if "0 < k" "k < length h" for k
      using less.prems(2) that True by (cases "k = j") (auto simp: up_hole_def less_key i_def)
    then show ?thesis using True by (subst heap_up.simps) (simp add: Let_def ordered_def i_def)
  next
    case False
    then have j: "0 < j" "i < j" by (auto simp: i_def)
    have "up_hole (heap_swap h i j) i"
      using up_hole_step [OF less.prems(1) j(1) less.prems(2)] False by (simp add: less_key i_def)
    then have "ordered (heap_up lt (heap_swap h i j) i) (length h)"
      using less.IH [OF j(2), of "heap_swap h i j"] j less.prems(1) by simp
    then show ?thesis using False by (subst heap_up.simps) (simp add: Let_def i_def)
  qed
qed

lemma smaller_child_key:
  "0 < k \<Longrightarrow> k < n \<Longrightarrow> (k - 1) div 2 = i \<Longrightarrow> key (h ! smaller_child lt h i n) \<le> key (h ! k)"
proof -
  assume k: "0 < k" "k < n" "(k - 1) div 2 = i"
  then have "k = 2 * i + 1 \<or> k = 2 * i + 2" by presburger
  then show ?thesis using k by (auto simp: smaller_child_def Let_def less_key)
qed

lemma smaller_child_parent: "2 * i + 1 < n \<Longrightarrow> (smaller_child lt h i n - 1) div 2 = i"
  by (simp add: smaller_child_def Let_def)

lemma down_hole_step:
  assumes n: "n \<le> length h" "2 * i + 1 < n" and d: "down_hole h i n"
    and j: "j = smaller_child lt h i n" "key (h ! j) < key (h ! i)"
  shows "down_hole (heap_swap h i j) j n"
proof -
  have ij: "i < j" "j < n" using smaller_child_bounds [OF n(2), of lt h] j(1) by simp_all
  have pj: "(j - 1) div 2 = i" using smaller_child_parent [OF n(2)] j(1) by simp
  have il: "i < length h" "j < length h" using ij n(1) by simp_all
  note s = nth_heap_swap [OF il]
  have d1: "key (h ! ((k - 1) div 2)) \<le> key (h ! k)" if "0 < k" "k < n" "(k - 1) div 2 \<noteq> i" for k
    using d that by (simp add: down_hole_def)
  have d2: "key (h ! ((i - 1) div 2)) \<le> key (h ! k)" if "0 < k" "k < n" "0 < i" "(k - 1) div 2 = i" for k
    using d that by (simp add: down_hole_def)
  have c: "key (h ! j) \<le> key (h ! k)" if "0 < k" "k < n" "(k - 1) div 2 = i" for k
    using smaller_child_key [OF that] j(1) by simp
  have a: "key (heap_swap h i j ! ((k - 1) div 2)) \<le> key (heap_swap h i j ! k)"
    if k: "0 < k" "k < n" "(k - 1) div 2 \<noteq> j" for k
  proof (cases "(k - 1) div 2 = i")
    case True
    then have "k \<noteq> i" using k(1) by auto
    then show ?thesis using c [OF k(1,2) True] j(2) ij True by (cases "k = j") (simp_all add: s)
  next
    case False
    then have "k \<noteq> j" using pj by auto
    show ?thesis
    proof (cases "k = i")
      case True
      then have "0 < i" "(i - 1) div 2 \<noteq> i" "(i - 1) div 2 \<noteq> j" using k ij by auto
      then show ?thesis using d2 [of j] ij pj True by (simp add: s)
    next
      case k': False
      then show ?thesis using d1 [OF k(1,2) False] False k(3) \<open>k \<noteq> j\<close> by (simp add: s)
    qed
  qed
  have b: "key (heap_swap h i j ! ((j - 1) div 2)) \<le> key (heap_swap h i j ! k)"
    if k: "0 < k" "k < n" "(k - 1) div 2 = j" for k
  proof -
    have "k \<noteq> i" "k \<noteq> j" using k(1,3) ij by auto
    then show ?thesis using d1 [OF k(1,2)] k(3) ij pj by (simp add: s)
  qed
  show ?thesis unfolding down_hole_def using a b by simp
qed

lemma ordered_down:
  "n \<le> length h \<Longrightarrow> down_hole h i n \<Longrightarrow> ordered (heap_down lt h i n) n"
proof (induction "n - i" arbitrary: h i rule: less_induct)
  case less
  define j where "j = smaller_child lt h i n"
  show ?case
  proof (cases "2 * i + 1 \<ge> n \<or> \<not> lt (h ! j) (h ! i)")
    case True
    have "key (h ! ((k - 1) div 2)) \<le> key (h ! k)" if k: "0 < k" "k < n" for k
    proof (cases "(k - 1) div 2 = i")
      case p: True
      then have "2 * i + 1 < n" using k by auto
      then have "key (h ! i) \<le> key (h ! j)" using True by (simp add: less_key)
      then show ?thesis using smaller_child_key [OF k p, of h] p by (simp add: j_def)
    next
      case False
      then show ?thesis using less.prems(2) k by (simp add: down_hole_def)
    qed
    then show ?thesis using True by (subst heap_down.simps) (auto simp: Let_def ordered_def j_def)
  next
    case False
    then have b: "2 * i + 1 < n" "key (h ! j) < key (h ! i)" by (simp_all add: less_key)
    have ij: "i < j" "j < n" using smaller_child_bounds [OF b(1), of lt h] by (simp_all add: j_def)
    have "ordered (heap_down lt (heap_swap h i j) j n) n"
      using less.hyps [of j "heap_swap h i j"] down_hole_step [OF less.prems(1) b(1) less.prems(2) j_def b(2)]
        ij less.prems(1) by simp
    then show ?thesis using False by (subst heap_down.simps) (simp add: Let_def flip: j_def)
  qed
qed

lemma ordered_root: "ordered h n \<Longrightarrow> k < n \<Longrightarrow> key (h ! 0) \<le> key (h ! k)"
proof (induction k rule: less_induct)
  case (less k)
  show ?case
  proof (cases "k = 0")
    case False
    then have "key (h ! 0) \<le> key (h ! ((k - 1) div 2))" using less by auto
    also have "\<dots> \<le> key (h ! k)" using less.prems False by (simp add: ordered_def)
    finally show ?thesis .
  qed simp
qed

text \<open>The contract: both operations keep the order, and change the elements as they should.\<close>

lemma push_ordered: "ordered h (length h) \<Longrightarrow> ordered (heap_push lt h x) (length (heap_push lt h x))"
proof -
  assume o: "ordered h (length h)"
  have "(k - 1) div 2 < length h" if "0 < k" "k < Suc (length h)" for k using that by auto
  then have "up_hole (h @ [x]) (length h)"
    using o unfolding up_hole_def ordered_def by (fastforce simp: nth_append)
  then show ?thesis using ordered_up [of "length h" "h @ [x]"] by (simp add: heap_push_def)
qed

lemma pop_ordered:
  assumes o: "ordered h (length h)" and "h \<noteq> []"
  shows "ordered (snd (heap_pop lt h)) (length (snd (heap_pop lt h)))"
proof -
  define n where "n = length h - 1"
  have n: "n < length h" "0 < length h" using assms(2) by (auto simp: n_def)
  have "down_hole (heap_swap h 0 n) 0 n"
    using o n by (auto simp: down_hole_def ordered_def nth_heap_swap)
  then have d: "ordered (heap_down lt (heap_swap h 0 n) 0 n) n" using ordered_down n by simp
  have "ordered (take n (heap_down lt (heap_swap h 0 n) 0 n)) n"
    unfolding ordered_def
  proof (intro allI impI)
    fix k assume "0 < k \<and> k < n"
    moreover from this have "(k - 1) div 2 < n" by auto
    ultimately show "key (take n (heap_down lt (heap_swap h 0 n) 0 n) ! ((k - 1) div 2))
        \<le> key (take n (heap_down lt (heap_swap h 0 n) 0 n) ! k)"
      using d by (simp add: ordered_def)
  qed
  moreover have "length (take n (heap_down lt (heap_swap h 0 n) 0 n)) = n" using n by simp
  ultimately show ?thesis unfolding heap_pop_def Let_def n_def [symmetric] snd_conv by metis
qed

end

lemma mset_heap_push: "mset (heap_push lt h x) = add_mset x (mset h)"
  by (simp add: heap_push_def mset_heap_up)

lemma heap_pop_root: "h \<noteq> [] \<Longrightarrow> fst (heap_pop lt h) = h ! 0"
  by (simp add: heap_pop_def Let_def heap_down_above nth_heap_swap)

lemma mset_heap_pop:
  assumes "h \<noteq> []"
  shows "mset h = add_mset (h ! 0) (mset (snd (heap_pop lt h)))"
proof -
  define n where "n = length h - 1"
  define h' where "h' = heap_down lt (heap_swap h 0 n) 0 n"
  have n: "n < length h" "length h' = Suc n" "0 < length h" using assms by (auto simp: n_def h'_def)
  have "mset h' = mset h" using n by (simp add: h'_def mset_heap_down mset_heap_swap)
  moreover have "h' = take n h' @ [h' ! n]" using n(2) take_Suc_conv_app_nth [of n h'] by simp
  then have "mset h' = add_mset (h' ! n) (mset (take n h'))" by (metis mset_append mset_single_iff_right add_mset_add_single)
  moreover have "h' ! n = h ! 0" using n by (simp add: h'_def heap_down_above nth_heap_swap)
  ultimately show ?thesis unfolding heap_pop_def Let_def n_def [symmetric] h'_def [symmetric] snd_conv by metis
qed

end
