(* ===== verification/Derive_Payloads.thy ===== *)
theory Derive_Payloads
  imports Derive_Batch Go_Heap
begin

text \<open>
  The queue of unsafe payloads (\<^verbatim>\<open>bl-node/rollup/derive/payloads_queue.go\<close>): payloads received
  ahead of their derivation, lowest block number first, within a memory limit. The function
  that measures a payload is an argument. The loop that evicts payloads pops until the limit
  holds: on an empty queue it would not end, which is the result \<^const>\<open>None\<close>.
\<close>

section \<open>Operations\<close>

record payloads_queue =
  pq_heap :: "(payload \<times> u64) list"
  pq_current_size :: u64
  pq_max_size :: u64
  pq_block_hashes :: "hash set"

definition payload_less :: "payload \<times> u64 \<Rightarrow> payload \<times> u64 \<Rightarrow> bool" where
  "payload_less x y \<longleftrightarrow> pl_block_number (fst x) < pl_block_number (fst y)"

definition payload_mem_size :: "payload option \<Rightarrow> u64" where
  "payload_mem_size p =
     (case p of
        None \<Rightarrow> 800
      | Some pl \<Rightarrow> foldl (\<lambda>out tx. out + (of_nat (length tx) + 24)) 800 (pl_transactions pl))"

definition new_payloads_queue :: "u64 \<Rightarrow> payloads_queue" where
  "new_payloads_queue maxSize =
     \<lparr>pq_heap = [], pq_current_size = 0, pq_max_size = maxSize, pq_block_hashes = {}\<rparr>"

definition payloads_peek :: "payloads_queue \<Rightarrow> payload option" where
  "payloads_peek q = (case pq_heap q of [] \<Rightarrow> None | x # _ \<Rightarrow> Some (fst x))"

definition payloads_pop :: "payloads_queue \<Rightarrow> payload option \<times> payloads_queue" where
  "payloads_pop q =
     (if pq_heap q = [] then (None, q)
      else case heap_pop payload_less (pq_heap q) of (ps, h) \<Rightarrow>
        (Some (fst ps),
         q\<lparr>pq_heap := h, pq_current_size := pq_current_size q - snd ps,
           pq_block_hashes := pq_block_hashes q - {pl_block_hash (fst ps)}\<rparr>))"

partial_function (option) evict_loop :: "payloads_queue \<Rightarrow> payloads_queue option" where
  "evict_loop q =
     (if pq_current_size q > pq_max_size q then evict_loop (snd (payloads_pop q)) else Some q)"

datatype push_err = NilPayload | DuplicatePayload | PayloadTooLarge

definition payloads_push ::
  "(payload \<Rightarrow> u64) \<Rightarrow> payload option \<Rightarrow> payloads_queue \<Rightarrow> (push_err + payloads_queue) option" where
  "payloads_push sizeFn p q =
     (case p of
        None \<Rightarrow> Some (Inl NilPayload)
      | Some pl \<Rightarrow>
          if pl_block_hash pl \<in> pq_block_hashes q then Some (Inl DuplicatePayload)
          else if sizeFn pl > pq_max_size q then Some (Inl PayloadTooLarge)
          else map_option
            (\<lambda>q'. Inr (q'\<lparr>pq_block_hashes := insert (pl_block_hash pl) (pq_block_hashes q')\<rparr>))
            (evict_loop (q\<lparr>pq_heap := heap_push payload_less (pq_heap q) (pl, sizeFn pl),
                           pq_current_size := pq_current_size q + sizeFn pl\<rparr>)))"

section \<open>Invariant\<close>

interpretation payloads: heap_order payload_less "\<lambda>x. unat (pl_block_number (fst x))"
  by unfold_locales (simp add: payload_less_def word_less_nat_alt)

definition heap_mem :: "(payload \<times> u64) multiset \<Rightarrow> nat" where
  "heap_mem M = sum_mset (image_mset (\<lambda>x. unat (snd x)) M)"

lemma heap_mem_simps [simp]:
  "heap_mem {#} = 0" "heap_mem (add_mset x M) = unat (snd x) + heap_mem M"
  "heap_mem (M + N) = heap_mem M + heap_mem N"
  by (simp_all add: heap_mem_def)

text \<open>What holds while payloads are evicted: everything but the limit.\<close>

definition heap_state :: "payloads_queue \<Rightarrow> bool" where
  "heap_state q \<longleftrightarrow>
     payloads.ordered (pq_heap q) (length (pq_heap q)) \<and>
     unat (pq_current_size q) = heap_mem (mset (pq_heap q))"

definition known_hashes :: "payloads_queue \<Rightarrow> bool" where
  "known_hashes q \<longleftrightarrow>
     distinct (map (pl_block_hash \<circ> fst) (pq_heap q)) \<and>
     (pl_block_hash \<circ> fst) ` set (pq_heap q) \<subseteq> pq_block_hashes q"

definition payloads_inv :: "payloads_queue \<Rightarrow> bool" where
  "payloads_inv q \<longleftrightarrow>
     heap_state q \<and> known_hashes q \<and> pq_current_size q \<le> pq_max_size q \<and>
     unat (pq_max_size q) < 2 ^ 63"

abbreviation number_of :: "payload \<times> u64 \<Rightarrow> u64" where
  "number_of x \<equiv> pl_block_number (fst x)"

abbreviation hash_of :: "payload \<times> u64 \<Rightarrow> hash" where
  "hash_of x \<equiv> pl_block_hash (fst x)"

lemma pop_ok:
  assumes "heap_state q" "pq_heap q \<noteq> []"
  defines "r \<equiv> pq_heap q ! 0" and "p \<equiv> snd (payloads_pop q)"
  shows "fst (payloads_pop q) = Some (fst r)"
    and "mset (pq_heap q) = add_mset r (mset (pq_heap p))"
    and "\<forall>x \<in> set (pq_heap q). number_of r \<le> number_of x"
    and "heap_state p" and "pq_max_size p = pq_max_size q"
    and "pq_block_hashes p = pq_block_hashes q - {hash_of r}"
proof -
  obtain ps h where ph: "heap_pop payload_less (pq_heap q) = (ps, h)" by fastforce
  have ps: "ps = r" using heap_pop_root [OF assms(2), of payload_less] ph by (simp add: r_def)
  have m: "mset (pq_heap q) = add_mset r (mset h)"
    using mset_heap_pop [OF assms(2), of payload_less] ph by (simp add: r_def)
  have o: "payloads.ordered (pq_heap q) (length (pq_heap q))" using assms(1) by (simp add: heap_state_def)
  have h: "payloads.ordered h (length h)" using payloads.pop_ordered [OF o assms(2)] ph by simp
  have c: "unat (pq_current_size q) = unat (snd r) + heap_mem (mset h)"
    using assms(1) by (simp add: heap_state_def m)
  then have "unat (pq_current_size q - snd r) = heap_mem (mset h)"
    by (subst unat_sub) (simp_all add: word_le_nat_alt)
  then show "heap_state p"
    using assms(2) h by (simp add: payloads_pop_def ph ps heap_state_def p_def)
  show "\<forall>x \<in> set (pq_heap q). number_of r \<le> number_of x"
  proof
    fix x assume "x \<in> set (pq_heap q)"
    then have "\<exists>k < length (pq_heap q). pq_heap q ! k = x" by (simp only: in_set_conv_nth)
    then show "number_of r \<le> number_of x"
      using payloads.ordered_root [OF o] by (auto simp: r_def word_le_nat_alt)
  qed
  show "fst (payloads_pop q) = Some (fst r)" "mset (pq_heap q) = add_mset r (mset (pq_heap p))"
    "pq_max_size p = pq_max_size q" "pq_block_hashes p = pq_block_hashes q - {hash_of r}"
    using assms(2) m by (simp_all add: payloads_pop_def ph ps p_def)
qed

lemma pop_hashes:
  assumes "heap_state q" "pq_heap q \<noteq> []" "distinct (map hash_of (pq_heap q))"
  defines "r \<equiv> pq_heap q ! 0" and "p \<equiv> snd (payloads_pop q)"
  shows "distinct (map hash_of (pq_heap p))" "hash_of r \<notin> hash_of ` set (pq_heap p)"
    "set (pq_heap q) = insert r (set (pq_heap p))"
proof -
  have m: "mset (pq_heap q) = mset (r # pq_heap p)"
    using pop_ok(2) [OF assms(1,2)] by (simp add: r_def p_def)
  then have "mset (map hash_of (pq_heap q)) = mset (map hash_of (r # pq_heap p))"
    by (simp only: mset_map)
  then have "distinct (map hash_of (r # pq_heap p))"
    using assms(3) mset_eq_imp_distinct_iff by blast
  then show "distinct (map hash_of (pq_heap p))" "hash_of r \<notin> hash_of ` set (pq_heap p)" by simp_all
  show "set (pq_heap q) = insert r (set (pq_heap p))"
    using mset_eq_setD [OF m] by simp
qed

text \<open>While evicting, one payload's hash may not be recorded yet.\<close>

definition known_but :: "hash \<Rightarrow> payloads_queue \<Rightarrow> bool" where
  "known_but h q \<longleftrightarrow>
     distinct (map hash_of (pq_heap q)) \<and> hash_of ` set (pq_heap q) \<subseteq> insert h (pq_block_hashes q)"

lemma pop_known_but:
  assumes "heap_state q" "pq_heap q \<noteq> []" "known_but h q"
  shows "known_but h (snd (payloads_pop q))"
proof -
  have d: "distinct (map hash_of (pq_heap q))" using assms(3) by (simp add: known_but_def)
  note p = pop_hashes [OF assms(1,2) d]
  have "hash_of ` set (pq_heap (snd (payloads_pop q))) \<subseteq> insert h (pq_block_hashes q)"
    using assms(3) p(3) by (auto simp: known_but_def)
  then show ?thesis using p(1,2) unfolding known_but_def pop_ok(6) [OF assms(1,2)] by blast
qed

lemma evict_ok:
  assumes "heap_state q" "known_but h q"
  shows "\<exists>q' dropped. evict_loop q = Some q' \<and> heap_state q' \<and> known_but h q' \<and>
    pq_current_size q' \<le> pq_max_size q' \<and> pq_max_size q' = pq_max_size q \<and>
    mset (pq_heap q) = mset (pq_heap q') + dropped \<and>
    (\<forall>d \<in># dropped. \<forall>k \<in># mset (pq_heap q'). number_of d \<le> number_of k) \<and>
    (dropped \<noteq> {#} \<longrightarrow>
       (\<exists>d \<in># dropped. unat (pq_max_size q) < heap_mem (mset (pq_heap q')) + unat (snd d)))"
  using assms
proof (induction "length (pq_heap q)" arbitrary: q rule: less_induct)
  case less
  show ?case
  proof (cases "pq_current_size q > pq_max_size q")
    case False
    then show ?thesis using less.prems
      by (subst evict_loop.simps) (auto intro!: exI [of _ q])
  next
    case True
    define p where "p = snd (payloads_pop q)"
    have ne: "pq_heap q \<noteq> []"
      using True less.prems(1) by (auto simp: heap_state_def word_less_nat_alt)
    define r where "r = pq_heap q ! 0"
    note r = pop_ok(2,3,4,5) [OF less.prems(1) ne, folded p_def r_def]
    have k: "known_but h p" using pop_known_but [OF less.prems(1) ne less.prems(2)] by (simp add: p_def)
    have "length (pq_heap p) < length (pq_heap q)"
      using arg_cong [OF r(1), of size] by simp
    from less.hyps [OF this r(3) k] obtain q' dropped where q': "evict_loop p = Some q'" "heap_state q'"
        "known_but h q'" "pq_current_size q' \<le> pq_max_size q'" "pq_max_size q' = pq_max_size p"
        "mset (pq_heap p) = mset (pq_heap q') + dropped"
        "\<forall>d \<in># dropped. \<forall>k \<in># mset (pq_heap q'). number_of d \<le> number_of k"
        "dropped \<noteq> {#} \<longrightarrow>
          (\<exists>d \<in># dropped. unat (pq_max_size p) < heap_mem (mset (pq_heap q')) + unat (snd d))"
      by blast
    have e: "evict_loop q = Some q'"
      using True q'(1) by (subst evict_loop.simps) (simp add: p_def)
    have "set_mset (mset (pq_heap q')) \<subseteq> set_mset (mset (pq_heap q))"
      unfolding r(1) q'(6) by auto
    then have low: "\<forall>k \<in># mset (pq_heap q'). number_of r \<le> number_of k" using r(2) by auto
    have "unat (pq_max_size q) < heap_mem (mset (pq_heap q')) + unat (snd r)" if "dropped = {#}"
      using True less.prems(1) r(1) q'(6) that by (simp add: heap_state_def word_less_nat_alt)
    then have "\<exists>d \<in># add_mset r dropped. unat (pq_max_size q) < heap_mem (mset (pq_heap q')) + unat (snd d)"
      using q'(8) r(4) by (cases "dropped = {#}") auto
    then show ?thesis using e q' r low by (intro exI [of _ q'] exI [of _ "add_mset r dropped"]) auto
  qed
qed

lemma known_hashes_but: "known_hashes q \<longleftrightarrow> distinct (map hash_of (pq_heap q)) \<and>
    hash_of ` set (pq_heap q) \<subseteq> pq_block_hashes q"
  by (simp add: known_hashes_def comp_def)

lemma payloads_pop_inv: "payloads_inv q \<Longrightarrow> payloads_inv (snd (payloads_pop q))"
proof (cases "pq_heap q = []")
  case False
  assume i: "payloads_inv q"
  then have h: "heap_state q" "known_but (hash_of (pq_heap q ! 0)) q"
    by (auto simp: payloads_inv_def known_hashes_but known_but_def)
  have d: "distinct (map hash_of (pq_heap q))" using i by (simp add: payloads_inv_def known_hashes_but)
  note p = pop_hashes [OF h(1) False d] and r = pop_ok(2,4,5,6) [OF h(1) False]
  have "hash_of ` set (pq_heap (snd (payloads_pop q))) \<subseteq> pq_block_hashes q"
    using i p(3) by (auto simp: payloads_inv_def known_hashes_but)
  then have "known_hashes (snd (payloads_pop q))"
    using p(1,2) unfolding known_hashes_but r(4) by blast
  moreover have "pq_current_size (snd (payloads_pop q)) \<le> pq_current_size q"
    using r(1,2) h(1) by (simp add: heap_state_def word_le_nat_alt)
  ultimately show ?thesis using i r(2,3) by (auto simp: payloads_inv_def intro: order_trans)
qed (simp add: payloads_pop_def)

lemma payloads_push_ok:
  assumes i: "payloads_inv q" and n: "pl_block_hash p \<notin> pq_block_hashes q" "\<not> sizeFn p > pq_max_size q"
  shows "\<exists>q' dropped. payloads_push sizeFn (Some p) q = Some (Inr q') \<and> payloads_inv q' \<and>
    pq_max_size q' = pq_max_size q \<and>
    add_mset (p, sizeFn p) (mset (pq_heap q)) = mset (pq_heap q') + dropped \<and>
    (\<forall>d \<in># dropped. \<forall>k \<in># mset (pq_heap q'). number_of d \<le> number_of k) \<and>
    (dropped \<noteq> {#} \<longrightarrow>
       (\<exists>d \<in># dropped. unat (pq_max_size q) < heap_mem (mset (pq_heap q')) + unat (snd d)))"
proof -
  define p1 where "p1 = q\<lparr>pq_heap := heap_push payload_less (pq_heap q) (p, sizeFn p),
      pq_current_size := pq_current_size q + sizeFn p\<rparr>"
  note iD = i [unfolded payloads_inv_def heap_state_def known_hashes_but]
  have m: "mset (pq_heap p1) = mset ((p, sizeFn p) # pq_heap q)" by (simp add: p1_def mset_heap_push)
  have "unat (pq_current_size q) + unat (sizeFn p) < 2 ^ 64"
    using iD n(2) by (simp add: word_le_nat_alt not_less)
  then have "unat (pq_current_size q + sizeFn p) = unat (pq_current_size q) + unat (sizeFn p)"
    by (subst unat_add_lem [THEN iffD1]) simp_all
  then have h: "heap_state p1"
    using iD payloads.push_ordered [of "pq_heap q"] by (simp add: heap_state_def p1_def mset_heap_push)
  have "mset (map hash_of (pq_heap p1)) = mset (map hash_of ((p, sizeFn p) # pq_heap q))"
    using m by (simp only: mset_map)
  then have "distinct (map hash_of (pq_heap p1)) = distinct (map hash_of ((p, sizeFn p) # pq_heap q))"
    by (rule mset_eq_imp_distinct_iff)
  moreover have "set (pq_heap p1) = insert (p, sizeFn p) (set (pq_heap q))"
    using m by (metis list.set(2) set_mset_mset)
  moreover have "pl_block_hash p \<notin> hash_of ` set (pq_heap q)" using iD n(1) by auto
  ultimately have k: "known_but (pl_block_hash p) p1"
    using iD by (auto simp: known_but_def p1_def)
  obtain q' dropped where q': "evict_loop p1 = Some q'" "heap_state q'"
      "known_but (pl_block_hash p) q'" "pq_current_size q' \<le> pq_max_size q'" "pq_max_size q' = pq_max_size p1"
      "mset (pq_heap p1) = mset (pq_heap q') + dropped"
      "\<forall>d \<in># dropped. \<forall>k \<in># mset (pq_heap q'). number_of d \<le> number_of k"
      "dropped \<noteq> {#} \<longrightarrow>
        (\<exists>d \<in># dropped. unat (pq_max_size p1) < heap_mem (mset (pq_heap q')) + unat (snd d))"
    using evict_ok [OF h k] by blast
  define q2 where "q2 = q'\<lparr>pq_block_hashes := insert (pl_block_hash p) (pq_block_hashes q')\<rparr>"
  have "payloads_push sizeFn (Some p) q = Some (Inr q2)"
    using n q'(1) by (simp add: payloads_push_def q2_def p1_def)
  moreover have "payloads_inv q2"
    using q'(2,3,4,5) iD by (auto simp: payloads_inv_def heap_state_def known_but_def known_hashes_but q2_def p1_def)
  ultimately show ?thesis using q' m
    by (intro exI [of _ q2] exI [of _ dropped]) (simp add: q2_def p1_def)
qed

section \<open>What the queue keeps\<close>

inductive payloads_step :: "(payload \<Rightarrow> u64) \<Rightarrow> payloads_queue \<Rightarrow> payloads_queue \<Rightarrow> bool"
  for sizeFn where
  step_pop: "payloads_step sizeFn q (snd (payloads_pop q))"
| step_push: "payloads_push sizeFn p q = Some (Inr q') \<Longrightarrow> payloads_step sizeFn q q'"

lemma payloads_step_inv: "payloads_step sizeFn q q' \<Longrightarrow> payloads_inv q \<Longrightarrow> payloads_inv q'"
proof (induction rule: payloads_step.induct)
  case (step_push p q q')
  then obtain pl where pl: "p = Some pl" "pl_block_hash pl \<notin> pq_block_hashes q" "\<not> sizeFn pl > pq_max_size q"
    by (auto simp: payloads_push_def split: option.splits if_splits)
  then show ?case using payloads_push_ok [where sizeFn = sizeFn, OF step_push(2) pl(2,3)] step_push(1) pl(1) by auto
qed (rule payloads_pop_inv)

lemma payloads_new_inv: "unat n < 2 ^ 63 \<Longrightarrow> payloads_inv (new_payloads_queue n)"
  by (simp add: payloads_inv_def new_payloads_queue_def heap_state_def known_hashes_but
      payloads.ordered_def)

interpretation payloads_machine:
  machine "\<lambda>q. \<exists>n. unat n < 2 ^ 63 \<and> q = new_payloads_queue n" "payloads_step sizeFn" payloads_inv
  for sizeFn
  by unfold_locales (auto intro: payloads_step_inv payloads_new_inv)

definition payloads_reach :: "(payload \<Rightarrow> u64) \<Rightarrow> payloads_queue \<Rightarrow> bool" where
  "payloads_reach sizeFn =
     reach (\<lambda>q. \<exists>n. unat n < 2 ^ 63 \<and> q = new_payloads_queue n) (payloads_step sizeFn)"

lemma payloads_peek_lowest:
  assumes "payloads_inv q" "payloads_peek q = Some p" "x \<in> set (pq_heap q)"
  shows "pl_block_number p \<le> number_of x"
proof -
  have "pq_heap q \<noteq> []" using assms(3) by auto
  moreover have "heap_state q" using assms(1) by (simp add: payloads_inv_def)
  ultimately have "\<forall>x \<in> set (pq_heap q). number_of (pq_heap q ! 0) \<le> number_of x" by (rule pop_ok(3) [rotated])
  then show ?thesis using assms(2,3) by (auto simp: payloads_peek_def split: list.splits)
qed

text \<open>What holds of a reachable queue, and what \<open>Push\<close> does to it.\<close>

lemma payloads_queue_facts:
  assumes "payloads_reach sizeFn q"
  shows "heap_mem (mset (pq_heap q)) = unat (pq_current_size q)"
    and "pq_current_size q \<le> pq_max_size q"
    and "distinct (map (\<lambda>x. pl_block_hash (fst x)) (pq_heap q))"
    and "payloads_peek q = Some p \<Longrightarrow> x \<in> set (pq_heap q) \<Longrightarrow> pl_block_number p \<le> pl_block_number (fst x)"
    and "pl_block_hash pl \<notin> pq_block_hashes q \<Longrightarrow> sizeFn pl \<le> pq_max_size q \<Longrightarrow>
      \<exists>q' dropped. payloads_push sizeFn (Some pl) q = Some (Inr q') \<and>
        add_mset (pl, sizeFn pl) (mset (pq_heap q)) = mset (pq_heap q') + dropped \<and>
        (\<forall>d \<in># dropped. \<forall>k \<in> set (pq_heap q'). pl_block_number (fst d) \<le> pl_block_number (fst k)) \<and>
        (dropped \<noteq> {#} \<longrightarrow>
           (\<exists>d \<in># dropped. unat (pq_max_size q) < heap_mem (mset (pq_heap q')) + unat (snd d)))"
proof -
  have i: "payloads_inv q"
    using payloads_machine.reach_inv assms by (simp add: payloads_reach_def)
  then show "heap_mem (mset (pq_heap q)) = unat (pq_current_size q)" "pq_current_size q \<le> pq_max_size q"
    "distinct (map (\<lambda>x. pl_block_hash (fst x)) (pq_heap q))"
    by (simp_all add: payloads_inv_def heap_state_def known_hashes_but)
  show "payloads_peek q = Some p \<Longrightarrow> x \<in> set (pq_heap q) \<Longrightarrow> pl_block_number p \<le> pl_block_number (fst x)"
    using payloads_peek_lowest [OF i] by blast
  show "\<exists>q' dropped. payloads_push sizeFn (Some pl) q = Some (Inr q') \<and>
        add_mset (pl, sizeFn pl) (mset (pq_heap q)) = mset (pq_heap q') + dropped \<and>
        (\<forall>d \<in># dropped. \<forall>k \<in> set (pq_heap q'). pl_block_number (fst d) \<le> pl_block_number (fst k)) \<and>
        (dropped \<noteq> {#} \<longrightarrow>
           (\<exists>d \<in># dropped. unat (pq_max_size q) < heap_mem (mset (pq_heap q')) + unat (snd d)))"
    if "pl_block_hash pl \<notin> pq_block_hashes q" "sizeFn pl \<le> pq_max_size q"
    using payloads_push_ok [OF i that(1), of sizeFn] that(2) by (simp add: not_less) blast
qed

text \<open>C31. In every state that pushes and pops reach from an empty queue of a limit below 2^63
  bytes: the sizes of the payloads held sum up to the recorded size, which is within the
  limit, no block is held twice, and \<^verbatim>\<open>Peek\<close> gives a payload of the lowest block number.
  \<^verbatim>\<open>Push\<close> of a payload that is not known and fits the limit always returns; it keeps what
  was there and the new payload, but for payloads dropped to get below the limit: none of
  those has a higher block number than one that is kept, and keeping all that was dropped
  last would exceed the limit.\<close>

theorem payloads_queue_keeps_highest:
  assumes "payloads_reach sizeFn q"
  shows "heap_mem (mset (pq_heap q)) = unat (pq_current_size q) \<and>
    pq_current_size q \<le> pq_max_size q \<and>
    distinct (map (\<lambda>x. pl_block_hash (fst x)) (pq_heap q)) \<and>
    (payloads_peek q = Some p \<and> x \<in> set (pq_heap q) \<longrightarrow> pl_block_number p \<le> pl_block_number (fst x)) \<and>
    (pl_block_hash pl \<notin> pq_block_hashes q \<and> sizeFn pl \<le> pq_max_size q \<longrightarrow>
      (\<exists>q' dropped. payloads_push sizeFn (Some pl) q = Some (Inr q') \<and>
        add_mset (pl, sizeFn pl) (mset (pq_heap q)) = mset (pq_heap q') + dropped \<and>
        (\<forall>d \<in># dropped. \<forall>k \<in> set (pq_heap q'). pl_block_number (fst d) \<le> pl_block_number (fst k)) \<and>
        (dropped \<noteq> {#} \<longrightarrow>
           (\<exists>d \<in># dropped. unat (pq_max_size q) < heap_mem (mset (pq_heap q')) + unat (snd d)))))"
  using payloads_queue_facts(1,2,3) [OF assms] payloads_queue_facts(4) [OF assms, of p x]
    payloads_queue_facts(5) [OF assms, of pl] by blast

definition demo_payload :: "u64 \<Rightarrow> payload" where
  "demo_payload n =
     \<lparr>pl_parent_hash = [], pl_prev_randao = [], pl_block_number = n, pl_gas_limit = 0,
      pl_timestamp = 0, pl_block_hash = [ucast n], pl_withdrawals = None, pl_transactions = []\<rparr>"

definition demo_sizes :: "payload \<Rightarrow> u64" where
  "demo_sizes p = payload_mem_size (Some p)"

lemma demo_size [simp]:
  "demo_sizes (demo_payload n) = 800" "pl_block_number (demo_payload n) = n"
  "pl_block_hash (demo_payload n) = [ucast n]"
  by (simp_all add: demo_sizes_def payload_mem_size_def demo_payload_def)

text \<open>Block 5 in a queue that holds two payloads, then 7 and 3: 3 is dropped again at once.\<close>

definition demo_full_queue :: payloads_queue where
  "demo_full_queue =
     \<lparr>pq_heap = [(demo_payload 5, 800), (demo_payload 7, 800)], pq_current_size = 1600,
      pq_max_size = 2000, pq_block_hashes = {[5], [7]}\<rparr>"

lemma demo_full_queue_reach: "payloads_reach demo_sizes demo_full_queue"
proof -
  define q1 where "q1 = \<lparr>pq_heap = [(demo_payload 5, 800)], pq_current_size = 800,
      pq_max_size = 2000, pq_block_hashes = {[5]}\<rparr>"
  have "payloads_push demo_sizes (Some (demo_payload 5)) (new_payloads_queue 2000) = Some (Inr q1)"
    by (simp add: payloads_push_def new_payloads_queue_def q1_def evict_loop.simps heap_push_def
        heap_up.simps)
  then have "payloads_step demo_sizes (new_payloads_queue 2000) q1" by (rule step_push)
  moreover have "payloads_push demo_sizes (Some (demo_payload 7)) q1 = Some (Inr demo_full_queue)"
    by (simp add: payloads_push_def q1_def demo_full_queue_def evict_loop.simps heap_push_def
        heap_up.simps payload_less_def Let_def insert_commute)
  then have "payloads_step demo_sizes q1 demo_full_queue" by (rule step_push)
  moreover have "payloads_reach demo_sizes (new_payloads_queue 2000)"
    unfolding payloads_reach_def by (rule reach_init) (auto intro!: exI [of _ "2000 :: u64"])
  ultimately show ?thesis unfolding payloads_reach_def by (blast intro: reach_step)
qed

theorem payloads_queue_keeps_highest_witness:
  "payloads_peek demo_full_queue = Some (demo_payload 5) \<and>
   pl_block_number (demo_payload 5) \<le> pl_block_number (fst (demo_payload 7, 800 :: u64)) \<and>
   (\<exists>q' dropped. payloads_push demo_sizes (Some (demo_payload 3)) demo_full_queue = Some (Inr q') \<and>
      add_mset (demo_payload 3, 800) (mset (pq_heap demo_full_queue)) = mset (pq_heap q') + dropped)"
proof (intro conjI)
  show p: "payloads_peek demo_full_queue = Some (demo_payload 5)"
    by (simp add: payloads_peek_def demo_full_queue_def)
  show "pl_block_number (demo_payload 5) \<le> pl_block_number (fst (demo_payload 7, 800 :: u64))"
    using payloads_queue_keeps_highest [OF demo_full_queue_reach,
        of "demo_payload 5" "(demo_payload 7, 800)"] p by (simp add: demo_full_queue_def)
  show "\<exists>q' dropped. payloads_push demo_sizes (Some (demo_payload 3)) demo_full_queue = Some (Inr q') \<and>
      add_mset (demo_payload 3, 800) (mset (pq_heap demo_full_queue)) = mset (pq_heap q') + dropped"
    using payloads_queue_keeps_highest [OF demo_full_queue_reach, THEN conjunct2, THEN conjunct2,
        THEN conjunct2, THEN conjunct2, rule_format, of "demo_payload 3"]
    by (auto simp: demo_full_queue_def)
qed

text \<open>The hash of a payload is recorded after the eviction: one that was dropped at once stays
  known, and is refused as a duplicate although the queue does not hold it.\<close>

lemma dropped_payload_stays_known:
  "\<exists>q'. payloads_push demo_sizes (Some (demo_payload 3)) demo_full_queue = Some (Inr q') \<and>
     pq_heap q' = [(demo_payload 5, 800), (demo_payload 7, 800)] \<and>
     payloads_push demo_sizes (Some (demo_payload 3)) q' = Some (Inl DuplicatePayload)"
proof -
  define q1 where "q1 = \<lparr>pq_heap = [(demo_payload 3, 800), (demo_payload 7, 800), (demo_payload 5, 800)],
      pq_current_size = 2400, pq_max_size = 2000, pq_block_hashes = {[5], [7]}\<rparr>"
  have s: "heap_swap [a, b, c] 0 (Suc (Suc 0)) = [c, b, a]" for a b c :: "payload \<times> u64"
    by (simp add: heap_swap_def)
  have d: "heap_down payload_less [(demo_payload 5, 800), (demo_payload 7, 800), x] 0 (Suc (Suc 0)) =
      [(demo_payload 5, 800), (demo_payload 7, 800), x]" for x
    by (subst heap_down.simps) (simp add: smaller_child_def payload_less_def Let_def)
  have p: "heap_pop payload_less (pq_heap q1) =
      ((demo_payload 3, 800), [(demo_payload 5, 800), (demo_payload 7, 800)])"
    by (simp add: q1_def heap_pop_def s d Let_def)
  have "payloads_pop q1 = (Some (demo_payload 3), demo_full_queue)"
    by (simp add: payloads_pop_def p) (simp add: q1_def demo_full_queue_def insert_commute)
  then have e: "evict_loop q1 = evict_loop demo_full_queue"
    by (subst evict_loop.simps) (simp add: q1_def)
  have "evict_loop demo_full_queue = Some demo_full_queue"
    by (subst evict_loop.simps) (simp add: demo_full_queue_def)
  moreover have "heap_push payload_less (pq_heap demo_full_queue) (demo_payload 3, 800) = pq_heap q1"
    by (simp add: demo_full_queue_def heap_push_def heap_up.simps [of _ _ "Suc (Suc 0)"] heap_up.simps [of _ _ 0]
        payload_less_def Let_def q1_def heap_swap_def)
  moreover have "demo_full_queue\<lparr>pq_heap := pq_heap q1, pq_current_size := pq_current_size demo_full_queue + 800\<rparr> = q1"
    by (simp add: demo_full_queue_def q1_def)
  ultimately have "payloads_push demo_sizes (Some (demo_payload 3)) demo_full_queue =
      Some (Inr (demo_full_queue\<lparr>pq_block_hashes := {[3], [5], [7]}\<rparr>))"
    using e by (simp add: payloads_push_def) (simp add: demo_full_queue_def)
  then show ?thesis by (simp add: payloads_push_def) (simp add: demo_full_queue_def)
qed

end
