(* ===== verification/Derive_Stages.thy ===== *)
theory Derive_Stages
  imports Derive_Queue Derive_Span_Raw
begin

text \<open>
  The first and the last pull stages of the derivation pipeline
  (\<^verbatim>\<open>bl-node/rollup/derive/{l1_traversal,calldata_source,l1_retrieval,channel_in_reader,attributes,attributes_queue}.go\<close>):
  the walk along L1 blocks, the data of the batcher's transactions, batches read out of
  channels, and the payload attributes of the next L2 block. The L1 node is a record of
  the answers it gives; a \<^verbatim>\<open>not found\<close> is told from other failures. Decompression with the
  splitting into RLP strings, the hash, and go-ethereum's transaction codec are parameters.
\<close>

section \<open>The L1 node\<close>

datatype rpc_err = RpcNotFound | RpcFailed

record l1_tx =
  tx_to :: "byte list option"
  tx_data :: "byte list"
  tx_raw :: "byte list"

record l1_header =
  hd_hash :: hash
  hd_parent_hash :: hash
  hd_number :: u64
  hd_time :: u64
  hd_base_fee :: int
  hd_mix_digest :: hash

text \<open>\<open>l1_sender\<close> is the L1 signer: the sender a valid signature of a transaction recovers to.\<close>

record l1_env =
  l1_by_number :: "u64 \<Rightarrow> rpc_err + l1_ref"
  l1_by_hash :: "hash \<Rightarrow> rpc_err + l1_ref"
  l1_fetch_receipts :: "hash \<Rightarrow> rpc_err + l1_header \<times> receipt list"
  l1_info_by_hash :: "hash \<Rightarrow> rpc_err + l1_header"
  l1_txs_by_hash :: "hash \<Rightarrow> rpc_err + l1_tx list"
  l1_sender :: "l1_tx \<Rightarrow> byte list option"

section \<open>L1 traversal\<close>

record l1_traversal =
  tv_block :: l1_ref
  tv_done :: bool
  tv_sys_cfg :: system_config

definition next_l1_block :: "l1_traversal \<Rightarrow> (stage_err + l1_ref) \<times> l1_traversal" where
  "next_l1_block tv =
     (if \<not> tv_done tv then (Inr (tv_block tv), tv\<lparr>tv_done := True\<rparr>) else (Inl StageEOF, tv))"

text \<open>Updates of the configuration that were applied stay, also when a later one is malformed.\<close>

definition advance_l1_block ::
  "(byte list \<Rightarrow> hash) \<Rightarrow> l1_env \<Rightarrow> rollup_config \<Rightarrow> l1_traversal \<Rightarrow>
   (stage_err + unit) \<times> l1_traversal" where
  "advance_l1_block K l1 cfg tv =
     (case l1_by_number l1 (l1_number (tv_block tv) + 1) of
        Inl RpcNotFound \<Rightarrow> (Inl StageEOF, tv)
      | Inl RpcFailed \<Rightarrow> (Inl TemporaryError, tv)
      | Inr nextL1Origin \<Rightarrow>
          if l1_hash (tv_block tv) \<noteq> l1_parent_hash nextL1Origin then (Inl ResetError, tv)
          else case l1_fetch_receipts l1 (l1_hash nextL1Origin) of
              Inl _ \<Rightarrow> (Inl TemporaryError, tv)
            | Inr (_, receipts) \<Rightarrow>
                (case update_system_config K cfg receipts (tv_sys_cfg tv) of
                   (sys, errs) \<Rightarrow>
                     if errs \<noteq> [] then (Inl CriticalError, tv\<lparr>tv_sys_cfg := sys\<rparr>)
                     else (Inr (), \<lparr>tv_block = nextL1Origin, tv_done = False, tv_sys_cfg = sys\<rparr>)))"

definition traversal_reset :: "l1_ref \<Rightarrow> system_config \<Rightarrow> l1_traversal" where
  "traversal_reset base cfg = \<lparr>tv_block = base, tv_done = False, tv_sys_cfg = cfg\<rparr>"

section \<open>The batcher's data of an L1 block\<close>

definition data_from_evm_transactions ::
  "l1_env \<Rightarrow> rollup_config \<Rightarrow> byte list \<Rightarrow> l1_tx list \<Rightarrow> byte list list" where
  "data_from_evm_transactions l1 cfg batcherAddr txs =
     map tx_data (filter (\<lambda>tx. tx_to tx = Some (rc_batch_inbox_address cfg) \<and>
                               l1_sender l1 tx = Some batcherAddr) txs)"

record data_source =
  ds_open :: bool
  ds_data :: "byte list list"
  ds_id :: block_id
  ds_batcher_addr :: "byte list"

text \<open>A source that could be opened keeps no block: it is not fetched again.\<close>

definition new_data_source ::
  "l1_env \<Rightarrow> rollup_config \<Rightarrow> block_id \<Rightarrow> byte list \<Rightarrow> data_source" where
  "new_data_source l1 cfg block batcherAddr =
     (case l1_txs_by_hash l1 (bid_hash block) of
        Inl _ \<Rightarrow> \<lparr>ds_open = False, ds_data = [], ds_id = block, ds_batcher_addr = batcherAddr\<rparr>
      | Inr txs \<Rightarrow>
          \<lparr>ds_open = True, ds_data = data_from_evm_transactions l1 cfg batcherAddr txs,
           ds_id = \<lparr>bid_hash = zero_hash32, bid_number = 0\<rparr>, ds_batcher_addr = replicate 20 0\<rparr>)"

definition data_source_open ::
  "l1_env \<Rightarrow> rollup_config \<Rightarrow> data_source \<Rightarrow> stage_err + data_source" where
  "data_source_open l1 cfg ds =
     (if ds_open ds then Inr ds
      else case l1_txs_by_hash l1 (bid_hash (ds_id ds)) of
          Inr txs \<Rightarrow>
            Inr (ds\<lparr>ds_open := True,
                    ds_data := data_from_evm_transactions l1 cfg (ds_batcher_addr ds) txs\<rparr>)
        | Inl RpcNotFound \<Rightarrow> Inl ResetError
        | Inl RpcFailed \<Rightarrow> Inl TemporaryError)"

definition data_source_next ::
  "l1_env \<Rightarrow> rollup_config \<Rightarrow> data_source \<Rightarrow> (stage_err + byte list) \<times> data_source" where
  "data_source_next l1 cfg ds =
     (case data_source_open l1 cfg ds of
        Inl e \<Rightarrow> (Inl e, ds)
      | Inr ds' \<Rightarrow>
          (case ds_data ds' of
             [] \<Rightarrow> (Inl StageEOF, ds')
           | d # rest \<Rightarrow> (Inr d, ds'\<lparr>ds_data := rest\<rparr>)))"

section \<open>L1 retrieval\<close>

record l1_retrieval =
  rt_prev :: l1_traversal
  rt_datas :: "data_source option"

definition retrieval_read ::
  "l1_env \<Rightarrow> rollup_config \<Rightarrow> l1_traversal \<Rightarrow> data_source \<Rightarrow>
   (stage_err + byte list) \<times> l1_retrieval" where
  "retrieval_read l1 cfg tv ds =
     (case data_source_next l1 cfg ds of
        (Inl e, ds') \<Rightarrow>
          (Inl e, \<lparr>rt_prev = tv, rt_datas = (if e = StageEOF then None else Some ds')\<rparr>)
      | (Inr d, ds') \<Rightarrow> (Inr d, \<lparr>rt_prev = tv, rt_datas = Some ds'\<rparr>))"

definition retrieval_next_data ::
  "l1_env \<Rightarrow> rollup_config \<Rightarrow> l1_retrieval \<Rightarrow> (stage_err + byte list) \<times> l1_retrieval" where
  "retrieval_next_data l1 cfg rt =
     (case rt_datas rt of
        Some ds \<Rightarrow> retrieval_read l1 cfg (rt_prev rt) ds
      | None \<Rightarrow>
          (case next_l1_block (rt_prev rt) of
             (Inl e, tv) \<Rightarrow> (Inl e, rt\<lparr>rt_prev := tv\<rparr>)
           | (Inr nxt, tv) \<Rightarrow>
               retrieval_read l1 cfg tv
                 (new_data_source l1 cfg (l1_id nxt) (sc_batcher_addr (tv_sys_cfg tv)))))"

definition retrieval_reset ::
  "l1_env \<Rightarrow> rollup_config \<Rightarrow> l1_ref \<Rightarrow> system_config \<Rightarrow> data_source option" where
  "retrieval_reset l1 cfg base sysCfg =
     Some (new_data_source l1 cfg (l1_id base) (sc_batcher_addr sysCfg))"

section \<open>Batches out of a channel\<close>

text \<open>
  What is read from a channel: \<open>unzip\<close> gives the RLP strings its decompressed data consists
  of, up to the end or the first error, or nothing if the stream does not open. The
  reader is what is left of them.
\<close>

record chan_env =
  ce_unzip :: "byte list \<Rightarrow> byte list list option"
  ce_unrlp :: "byte list \<Rightarrow> singular_batch option"
  ce_tx :: tx_env

type_synonym channel_in_reader = "byte list list option"

definition write_channel :: "chan_env \<Rightarrow> byte list \<Rightarrow> stage_err + byte list list" where
  "write_channel env data = (case ce_unzip env data of None \<Rightarrow> Inl TemporaryError | Some ss \<Rightarrow> Inr ss)"

text \<open>The batch of decoded data: spans only once the fork is active at the L1 block of inclusion.\<close>

definition batch_of_data ::
  "chan_env \<Rightarrow> rollup_config \<Rightarrow> l1_ref \<Rightarrow> batch_data \<Rightarrow> stage_err + batch" where
  "batch_of_data env cfg origin d =
     (case d of
        SingularData s \<Rightarrow> Inr (Singular s)
      | SpanData raw \<Rightarrow>
          if \<not> is_span_batch cfg (l1_time origin) then Inl TemporaryError
          else case rc_l2_chain_id cfg of
              None \<Rightarrow> Inl StagePanic
            | Some chainID \<Rightarrow>
                (case derive_span (ce_tx env) (rc_block_time cfg) (gen_l2_time (rc_genesis cfg)) chainID raw of
                   Inl e \<Rightarrow> Inl (if e = SpanPanic then StagePanic else OtherError)
                 | Inr sp \<Rightarrow> Inr (Span sp)))"

definition reader_next_batch ::
  "chan_env \<Rightarrow> rollup_config \<Rightarrow> l1_ref \<Rightarrow> byte list list \<Rightarrow>
   (stage_err + batch) \<times> channel_in_reader" where
  "reader_next_batch env cfg origin strings =
     (case strings of
        [] \<Rightarrow> (Inl NotEnoughData, None)
      | s # rest \<Rightarrow>
          (case decode_typed (ce_tx env) (ce_unrlp env) s of
             Inl _ \<Rightarrow> (Inl NotEnoughData, None)
           | Inr d \<Rightarrow> (batch_of_data env cfg origin d, Some rest)))"

text \<open>\<open>pulled\<close> is the next channel's data, pulled only when no channel is being read.\<close>

definition channel_in_next_batch ::
  "chan_env \<Rightarrow> rollup_config \<Rightarrow> l1_ref \<Rightarrow> stage_err + byte list \<Rightarrow> channel_in_reader \<Rightarrow>
   (stage_err + batch) \<times> channel_in_reader" where
  "channel_in_next_batch env cfg origin pulled cr =
     (case cr of
        Some strings \<Rightarrow> reader_next_batch env cfg origin strings
      | None \<Rightarrow>
          (case rbind pulled (write_channel env) of
             Inl e \<Rightarrow> (Inl e, None)
           | Inr strings \<Rightarrow> reader_next_batch env cfg origin strings))"

section \<open>The L1 attributes transaction\<close>

definition l1_info_depositer_address :: "byte list" where
  "l1_info_depositer_address = concat (replicate 9 [0xde, 0xad]) @ [0, 1]"

definition l1_block_address :: "byte list" where
  "l1_block_address = 0x42 # replicate 18 0 @ [0x15]"

definition sequencer_fee_vault_addr :: "byte list" where
  "sequencer_fee_vault_addr = 0x42 # replicate 18 0 @ [0x11]"

definition regolith_system_tx_gas :: u64 where "regolith_system_tx_gas = 1000000"

text \<open>\<open>ae_enc\<close> is the encoding of a deposit transaction, \<open>ae_sig\<close> the selector of the call, and
  \<open>ae_l2_config\<close> the L2 node's answer for the configuration of a block.\<close>

record attr_env =
  ae_keccak :: "byte list \<Rightarrow> hash"
  ae_enc :: "deposit_tx \<Rightarrow> byte list option"
  ae_sig :: "byte list"
  ae_l1 :: l1_env
  ae_l2_config :: "hash \<Rightarrow> rpc_err + system_config"

definition l1_info_deposit ::
  "attr_env \<Rightarrow> u64 \<Rightarrow> l1_header \<Rightarrow> system_config \<Rightarrow> bool \<Rightarrow> read_err + deposit_tx" where
  "l1_info_deposit env seqNumber block sysCfg regolith =
     rbind (marshal_l1_info (ae_sig env)
       \<lparr>li_number = hd_number block, li_time = hd_time block, li_base_fee = hd_base_fee block,
        li_block_hash = hd_hash block, li_sequence_number = seqNumber,
        li_batcher_addr = sc_batcher_addr sysCfg, li_l1_fee_overhead = sc_overhead sysCfg,
        li_l1_fee_scalar = sc_scalar sysCfg\<rparr>) (\<lambda>data.
     Inr \<lparr>dt_source_hash = l1_info_source_hash (ae_keccak env) (hd_hash block) seqNumber,
          dt_from = l1_info_depositer_address, dt_to = Some l1_block_address, dt_mint = None,
          dt_value = 0, dt_gas = (if regolith then regolith_system_tx_gas else 150000000),
          dt_is_system = \<not> regolith, dt_data = data\<rparr>)"

definition l1_info_deposit_bytes ::
  "attr_env \<Rightarrow> u64 \<Rightarrow> l1_header \<Rightarrow> system_config \<Rightarrow> bool \<Rightarrow> byte list option" where
  "l1_info_deposit_bytes env seqNumber block sysCfg regolith =
     (case l1_info_deposit env seqNumber block sysCfg regolith of
        Inl _ \<Rightarrow> None
      | Inr dep \<Rightarrow> ae_enc env dep)"

section \<open>Payload attributes\<close>

record payload_attributes =
  at_timestamp :: u64
  at_prev_randao :: hash
  at_fee_recipient :: "byte list"
  at_withdrawals :: "withdrawal list option"
  at_transactions :: "byte list list"
  at_no_tx_pool :: bool
  at_gas_limit :: "u64 option"

text \<open>The L1 data of the next block: a new epoch brings its deposits and configuration updates,
  the same epoch only the next sequence number.\<close>

definition epoch_inputs ::
  "attr_env \<Rightarrow> rollup_config \<Rightarrow> l2_ref \<Rightarrow> block_id \<Rightarrow> system_config \<Rightarrow>
   stage_err + (l1_header \<times> byte list list \<times> system_config \<times> u64)" where
  "epoch_inputs env cfg parent epoch sysConfig =
     (if bid_number (l2_l1_origin parent) \<noteq> bid_number epoch
      then case l1_fetch_receipts (ae_l1 env) (bid_hash epoch) of
          Inl _ \<Rightarrow> Inl TemporaryError
        | Inr (info, receipts) \<Rightarrow>
            if bid_hash (l2_l1_origin parent) \<noteq> hd_parent_hash info then Inl ResetError
            else case derive_deposits (ae_keccak env) (ae_enc env) receipts
                        (rc_deposit_contract_address cfg) of
                (deposits, failed) \<Rightarrow>
                  if failed then Inl CriticalError
                  else (case update_system_config (ae_keccak env) cfg receipts sysConfig of
                      (sys, errs) \<Rightarrow>
                        if errs \<noteq> [] then Inl CriticalError else Inr (info, deposits, sys, 0))
      else if bid_hash (l2_l1_origin parent) \<noteq> bid_hash epoch then Inl ResetError
      else case l1_info_by_hash (ae_l1 env) (bid_hash epoch) of
          Inl _ \<Rightarrow> Inl TemporaryError
        | Inr info \<Rightarrow> Inr (info, [], sysConfig, l2_sequence_number parent + 1))"

definition prepare_payload_attributes ::
  "attr_env \<Rightarrow> rollup_config \<Rightarrow> l2_ref \<Rightarrow> block_id \<Rightarrow> stage_err + payload_attributes" where
  "prepare_payload_attributes env cfg parent epoch =
     (case ae_l2_config env (l2_hash parent) of
        Inl _ \<Rightarrow> Inl TemporaryError
      | Inr sysConfig \<Rightarrow>
          rbind (epoch_inputs env cfg parent epoch sysConfig) (\<lambda>(info, depositTxs, sys, seqNumber).
            let nextL2Time = l2_time parent + rc_block_time cfg
            in if nextL2Time < hd_time info then Inl ResetError
               else case l1_info_deposit_bytes env seqNumber info sys (is_regolith cfg nextL2Time) of
                   None \<Rightarrow> Inl CriticalError
                 | Some l1InfoTx \<Rightarrow>
                     Inr \<lparr>at_timestamp = nextL2Time, at_prev_randao = hd_mix_digest info,
                          at_fee_recipient = sequencer_fee_vault_addr,
                          at_withdrawals = (if is_canyon cfg nextL2Time then Some [] else None),
                          at_transactions = l1InfoTx # depositTxs, at_no_tx_pool = True,
                          at_gas_limit = Some (sc_gas_limit sys)\<rparr>))"

section \<open>The attributes queue\<close>

record attributes_with_parent =
  awp_attributes :: payload_attributes
  awp_parent :: l2_ref
  awp_last_in_span :: bool

record attributes_queue =
  aq_batch :: "singular_batch option"
  aq_last_in_span :: bool

definition create_next_attributes ::
  "attr_env \<Rightarrow> rollup_config \<Rightarrow> singular_batch \<Rightarrow> l2_ref \<Rightarrow> stage_err + payload_attributes" where
  "create_next_attributes env cfg b safeHead =
     (if sb_parent_hash b \<noteq> l2_hash safeHead then Inl ResetError
      else if l2_time safeHead + rc_block_time cfg \<noteq> sb_timestamp b then Inl ResetError
      else rbind (prepare_payload_attributes env cfg safeHead
                    \<lparr>bid_hash = sb_epoch_hash b, bid_number = sb_epoch_num b\<rparr>) (\<lambda>attrs.
        Inr (attrs\<lparr>at_no_tx_pool := True,
                   at_transactions := at_transactions attrs @ sb_transactions b\<rparr>)))"

text \<open>\<open>pulled\<close> is the next batch, pulled only when none is buffered; it stays buffered until the
  attributes could be made.\<close>

definition next_attributes ::
  "attr_env \<Rightarrow> rollup_config \<Rightarrow> l2_ref \<Rightarrow> stage_err + singular_batch \<times> bool \<Rightarrow> attributes_queue \<Rightarrow>
   (stage_err + attributes_with_parent) \<times> attributes_queue" where
  "next_attributes env cfg parent pulled aq =
     (case (case aq_batch aq of Some b \<Rightarrow> Inr (b, aq_last_in_span aq) | None \<Rightarrow> pulled) of
        Inl e \<Rightarrow> (Inl e, aq)
      | Inr (b, lastInSpan) \<Rightarrow>
          (case create_next_attributes env cfg b parent of
             Inl e \<Rightarrow> (Inl e, \<lparr>aq_batch = Some b, aq_last_in_span = lastInSpan\<rparr>)
           | Inr attrs \<Rightarrow>
               (Inr \<lparr>awp_attributes = attrs, awp_parent = parent, awp_last_in_span = lastInSpan\<rparr>,
                \<lparr>aq_batch = None, aq_last_in_span = False\<rparr>)))"

definition attributes_queue_reset :: attributes_queue where
  "attributes_queue_reset = \<lparr>aq_batch = None, aq_last_in_span = False\<rparr>"

end
