(* ===== verification/Derive_Sync.thy ===== *)
theory Derive_Sync
  imports Derive_Stages
begin

text \<open>
  The search for the heads to restart from (\<^verbatim>\<open>bl-node/rollup/sync/start.go\<close>): from the unsafe
  head back along the L2 chain, comparing the L1 origins with the L1 chain. The L2 node is a
  record of its answers, \<^verbatim>\<open>not found\<close> told from other failures; a block reference that
  comes with an error is the zero one. A walk that does not end is the result \<^const>\<open>None\<close>.
\<close>

section \<open>The L2 node\<close>

record l2_chain =
  lc_finalized :: "rpc_err + l2_ref"
  lc_safe :: "rpc_err + l2_ref"
  lc_unsafe :: "rpc_err + l2_ref"
  lc_by_hash :: "hash \<Rightarrow> rpc_err + l2_ref"

definition zero_l2_ref :: l2_ref where
  "zero_l2_ref = \<lparr>l2_hash = zero_hash32, l2_number = 0, l2_parent_hash = zero_hash32, l2_time = 0,
     l2_l1_origin = \<lparr>bid_hash = zero_hash32, bid_number = 0\<rparr>, l2_sequence_number = 0\<rparr>"

record heads =
  h_unsafe :: l2_ref
  h_safe :: l2_ref
  h_finalized :: l2_ref

datatype sync_err =
    HeadsUnavailable | L1Unavailable | L2Unavailable | WrongChainL2 | WrongChainL1
  | ReorgFinalized | TooDeepReorg | OriginGap | NonZeroSequence | ParentOriginMismatch
  | SequenceGap

definition max_reorg_seq_windows :: u64 where "max_reorg_seq_windows = 5"

definition current_heads :: "rollup_config \<Rightarrow> l2_chain \<Rightarrow> sync_err + heads" where
  "current_heads cfg l2 =
     (case (if lc_finalized l2 = Inl RpcNotFound
            then lc_by_hash l2 (bid_hash (gen_l2 (rc_genesis cfg))) else lc_finalized l2) of
        Inl _ \<Rightarrow> Inl HeadsUnavailable
      | Inr finalized \<Rightarrow>
          (case (if lc_safe l2 = Inl RpcNotFound then Inr finalized else lc_safe l2) of
             Inl _ \<Rightarrow> Inl HeadsUnavailable
           | Inr safe \<Rightarrow>
               (case lc_unsafe l2 of
                  Inl _ \<Rightarrow> Inl HeadsUnavailable
                | Inr unsafe \<Rightarrow> Inr \<lparr>h_unsafe = unsafe, h_safe = safe, h_finalized = finalized\<rparr>)))"

section \<open>The walk\<close>

text \<open>The variables of the loop: the block \<open>n\<close>, the highest block of a canonical origin, the L1
  block compared with, whether L1 has not got that far, and the candidate for the unsafe head.\<close>

record walk =
  w_n :: l2_ref
  w_highest :: l2_ref
  w_l1 :: l1_ref
  w_ahead :: bool
  w_unsafe :: l2_ref

definition fetch_l1 :: "l1_env \<Rightarrow> walk \<Rightarrow> sync_err + walk" where
  "fetch_l1 l1 w =
     (let orig = l2_l1_origin (w_n w) in
      if bid_hash orig = l1_parent_hash (w_l1 w)
      then case l1_by_hash l1 (bid_hash orig) of
          Inl _ \<Rightarrow> Inl L1Unavailable
        | Inr b \<Rightarrow> Inr (w\<lparr>w_l1 := b, w_ahead := False\<rparr>)
      else if w_l1 w = zero_l1_ref \<or> bid_hash orig \<noteq> l1_hash (w_l1 w)
      then case l1_by_number l1 (bid_number orig) of
          Inl RpcFailed \<Rightarrow> Inl L1Unavailable
        | Inl RpcNotFound \<Rightarrow> Inr (w\<lparr>w_l1 := zero_l1_ref, w_ahead := True\<rparr>)
        | Inr b \<Rightarrow> Inr (w\<lparr>w_l1 := b, w_ahead := False\<rparr>)
      else Inr w)"

definition check_walk :: "rollup_config \<Rightarrow> l2_ref \<Rightarrow> walk \<Rightarrow> sync_err + unit" where
  "check_walk cfg finalized w =
     (let n = w_n w; g = rc_genesis cfg in
      if l2_number n = bid_number (gen_l2 g) \<and> l2_hash n \<noteq> bid_hash (gen_l2 g) then Inl WrongChainL2
      else if l2_number n = bid_number (gen_l2 g) \<and> \<not> w_ahead w \<and> l1_hash (w_l1 w) \<noteq> bid_hash (gen_l1 g)
      then Inl WrongChainL1
      else if l2_number n = l2_number finalized \<and> l2_hash n \<noteq> l2_hash finalized then Inl ReorgFinalized
      else Inr ())"

definition set_unsafe :: "rollup_config \<Rightarrow> l2_ref \<Rightarrow> walk \<Rightarrow> sync_err + walk" where
  "set_unsafe cfg prevUnsafe w =
     (if w_unsafe w \<noteq> zero_l2_ref then Inr w
      else if bid_number (l2_l1_origin (w_n w)) + max_reorg_seq_windows * rc_seq_window_size cfg
        < bid_number (l2_l1_origin prevUnsafe) then Inl TooDeepReorg
      else Inr (w\<lparr>w_unsafe := w_n w\<rparr>))"

definition compare_origin :: "walk \<Rightarrow> walk" where
  "compare_origin w =
     (if w_ahead w then w
      else if l1_hash (w_l1 w) = bid_hash (l2_l1_origin (w_n w))
      then (if w_highest w = zero_l2_ref then w\<lparr>w_highest := w_n w\<rparr> else w)
      else w\<lparr>w_unsafe := zero_l2_ref, w_highest := zero_l2_ref\<rparr>)"

definition window_covered :: "rollup_config \<Rightarrow> l2_ref \<Rightarrow> walk \<Rightarrow> bool" where
  "window_covered cfg safe w \<longleftrightarrow>
     l2_number (w_n w) \<le> l2_number safe \<and>
     bid_number (l2_l1_origin (w_n w)) + rc_seq_window_size cfg < bid_number (l2_l1_origin (w_highest w)) \<and>
     l2_sequence_number (w_n w) = 0"

definition check_parent :: "walk \<Rightarrow> l2_ref \<Rightarrow> sync_err + unit" where
  "check_parent w parent =
     (let n = w_n w in
      if l2_l1_origin parent \<noteq> l2_l1_origin n then
        if bid_number (l2_l1_origin parent) + 1 \<noteq> bid_number (l2_l1_origin n) then Inl OriginGap
        else if l2_sequence_number n \<noteq> 0 then Inl NonZeroSequence
        else if l1_hash (w_l1 w) = bid_hash (l2_l1_origin n) \<and>
          l1_parent_hash (w_l1 w) \<noteq> bid_hash (l2_l1_origin parent) then Inl ParentOriginMismatch
        else Inr ()
      else if l2_sequence_number parent + 1 \<noteq> l2_sequence_number n then Inl SequenceGap
      else Inr ())"

datatype walk_result = WalkDone heads | WalkOn walk

definition walk_parent ::
  "l2_chain \<Rightarrow> rollup_config \<Rightarrow> heads \<Rightarrow> walk \<Rightarrow> sync_err + walk_result" where
  "walk_parent l2 cfg h w =
     (case lc_by_hash l2 (l2_parent_hash (w_n w)) of
        Inl _ \<Rightarrow> Inl L2Unavailable
      | Inr parent \<Rightarrow>
          rbind (check_parent w parent) (\<lambda>_.
            if window_covered cfg (h_safe h) w
            then Inr (WalkDone (h\<lparr>h_unsafe := w_unsafe w, h_safe := parent\<rparr>))
            else Inr (WalkOn (w\<lparr>w_n := parent\<rparr>))))"

text \<open>One iteration; \<open>h\<close> are the heads the walk started with. The skip jumps to the safe head.\<close>

definition walk_step ::
  "l1_env \<Rightarrow> l2_chain \<Rightarrow> rollup_config \<Rightarrow> bool \<Rightarrow> heads \<Rightarrow> walk \<Rightarrow> sync_err + walk_result" where
  "walk_step l1 l2 cfg skipCheck h w =
     rbind (fetch_l1 l1 w) (\<lambda>w1.
     rbind (check_walk cfg (h_finalized h) w1) (\<lambda>_.
     rbind (set_unsafe cfg (h_unsafe h) w1) (\<lambda>w2.
       let w3 = compare_origin w2 in
       if l2_number (w_n w3) = l2_number (h_finalized h)
       then Inr (WalkDone (h\<lparr>h_unsafe := w_unsafe w3, h_safe := w_n w3\<rparr>))
       else if skipCheck \<and> l2_hash (w_highest w3) = l2_hash (w_n w3)
       then Inr (WalkOn (w3\<lparr>w_n := h_safe h\<rparr>))
       else walk_parent l2 cfg h w3)))"

partial_function (option) walk_back ::
  "l1_env \<Rightarrow> l2_chain \<Rightarrow> rollup_config \<Rightarrow> bool \<Rightarrow> heads \<Rightarrow> walk \<Rightarrow> (sync_err + heads) option" where
  "walk_back l1 l2 cfg skipCheck h w =
     (case walk_step l1 l2 cfg skipCheck h w of
        Inl e \<Rightarrow> Some (Inl e)
      | Inr (WalkDone r) \<Rightarrow> Some (Inr r)
      | Inr (WalkOn w') \<Rightarrow> walk_back l1 l2 cfg skipCheck h w')"

definition start_walk :: "heads \<Rightarrow> walk" where
  "start_walk h = \<lparr>w_n = h_unsafe h, w_highest = zero_l2_ref, w_l1 = zero_l1_ref, w_ahead = False,
     w_unsafe = h_unsafe h\<rparr>"

definition find_l2_heads ::
  "l1_env \<Rightarrow> l2_chain \<Rightarrow> rollup_config \<Rightarrow> bool \<Rightarrow> (sync_err + heads) option" where
  "find_l2_heads l1 l2 cfg skipCheck =
     (case current_heads cfg l2 of
        Inl e \<Rightarrow> Some (Inl e)
      | Inr h \<Rightarrow> walk_back l1 l2 cfg skipCheck h (start_walk h))"

end
