(* ===== verification/Derive_Engine.thy ===== *)
theory Derive_Engine
  imports Derive_Payloads Derive_Sync
begin

text \<open>
  The engine queue (\<^verbatim>\<open>bl-node/rollup/derive/{engine_queue,engine_update,engine_consolidate}.go\<close>),
  the last stage of the pipeline: it drives the execution engine with unsafe payloads and with
  derived attributes, and keeps the unsafe, safe and finalized heads. The engine is a
  record of functions over a state of its own, which they return updated; contexts, metrics
  and logs are left out.
\<close>

section \<open>The execution engine\<close>

datatype input_code = InvalidForkchoiceState | InvalidPayloadAttributes | OtherCode

datatype engine_err = InputError input_code | EngineFailed

datatype exec_status =
    ExecutionValid | ExecutionInvalid | ExecutionSyncing | ExecutionAccepted
  | ExecutionInvalidBlockHash | ExecutionInvalidTerminalBlock

record forkchoice =
  fc_head :: hash
  fc_safe :: hash
  fc_finalized :: hash

type_synonym payload_id = "byte list"

definition zero_payload_id :: payload_id where "zero_payload_id = replicate 8 0"

record 'e engine =
  eng_forkchoice_update ::
    "forkchoice \<Rightarrow> payload_attributes option \<Rightarrow> 'e \<Rightarrow> (engine_err + exec_status \<times> payload_id option) \<times> 'e"
  eng_new_payload :: "payload \<Rightarrow> 'e \<Rightarrow> (engine_err + exec_status) \<times> 'e"
  eng_get_payload :: "payload_id \<Rightarrow> 'e \<Rightarrow> (engine_err + payload) \<times> 'e"
  eng_payload_by_number :: "u64 \<Rightarrow> 'e \<Rightarrow> rpc_err + payload"
  eng_chain :: "'e \<Rightarrow> l2_chain"
  eng_system_config :: "hash \<Rightarrow> 'e \<Rightarrow> rpc_err + system_config"

section \<open>Checks of a payload\<close>

definition is_deposit_tx :: "byte list \<Rightarrow> bool option" where
  "is_deposit_tx tx = (case tx of [] \<Rightarrow> None | t # _ \<Rightarrow> Some (t = deposit_tx_type))"

fun last_deposit_from :: "byte list list \<Rightarrow> nat \<Rightarrow> nat \<Rightarrow> nat option" where
  "last_deposit_from [] i lst = Some lst"
| "last_deposit_from (tx # txs) i lst =
     (case is_deposit_tx tx of
        None \<Rightarrow> None
      | Some deposit \<Rightarrow> if deposit then last_deposit_from txs (i + 1) i else Some lst)"

definition last_deposit :: "byte list list \<Rightarrow> nat option" where
  "last_deposit txs = last_deposit_from txs 0 0"

datatype sanity_err = NoTransactions | FirstNotDeposit | UndecodableTransaction | DepositAfterOther
  | EmptyFirstPanic

fun no_more_deposits :: "byte list list \<Rightarrow> sanity_err + unit" where
  "no_more_deposits [] = Inr ()"
| "no_more_deposits (tx # txs) =
     (case is_deposit_tx tx of
        None \<Rightarrow> Inl UndecodableTransaction
      | Some deposit \<Rightarrow> if deposit then Inl DepositAfterOther else no_more_deposits txs)"

definition sanity_check_payload :: "payload \<Rightarrow> sanity_err + unit" where
  "sanity_check_payload pl =
     (case pl_transactions pl of
        [] \<Rightarrow> Inl NoTransactions
      | tx # txs \<Rightarrow>
          if tx = [] then Inl EmptyFirstPanic
          else if hd tx \<noteq> deposit_tx_type then Inl FirstNotDeposit
          else case last_deposit (pl_transactions pl) of
              None \<Rightarrow> Inl UndecodableTransaction
            | Some i \<Rightarrow> no_more_deposits (drop (i + 1) (pl_transactions pl)))"

definition withdrawals_match :: "withdrawal list option \<Rightarrow> withdrawal list option \<Rightarrow> bool" where
  "withdrawals_match attrW blockW \<longleftrightarrow>
     (case (attrW, blockW) of
        (None, None) \<Rightarrow> True
      | (None, Some _) \<Rightarrow> False
      | (Some _, None) \<Rightarrow> False
      | (Some a, Some b) \<Rightarrow> length a = length b \<and> list_all (\<lambda>(x, y). x = y) (zip a b))"

definition attributes_match_block :: "payload_attributes \<Rightarrow> hash \<Rightarrow> payload \<Rightarrow> bool" where
  "attributes_match_block attrs parentHash block \<longleftrightarrow>
     parentHash = pl_parent_hash block \<and> at_timestamp attrs = pl_timestamp block \<and>
     at_prev_randao attrs = pl_prev_randao block \<and>
     length (at_transactions attrs) = length (pl_transactions block) \<and>
     list_all (\<lambda>(x, y). x = y) (zip (at_transactions attrs) (pl_transactions block)) \<and>
     at_gas_limit attrs = Some (pl_gas_limit block) \<and>
     withdrawals_match (at_withdrawals attrs) (pl_withdrawals block)"

section \<open>Building blocks with the engine\<close>

datatype insertion_err = InsertTemporary | InsertPrestate | InsertPayload | InsertPanic

definition start_payload ::
  "'e engine \<Rightarrow> forkchoice \<Rightarrow> payload_attributes \<Rightarrow> 'e \<Rightarrow> (insertion_err + payload_id) \<times> 'e" where
  "start_payload eng fc attrs e =
     (case eng_forkchoice_update eng fc (Some attrs) e of
        (Inl (InputError c), e1) \<Rightarrow>
          (Inl (if c = InvalidPayloadAttributes then InsertPayload else InsertPrestate), e1)
      | (Inl EngineFailed, e1) \<Rightarrow> (Inl InsertTemporary, e1)
      | (Inr (status, ident), e1) \<Rightarrow>
          if status = ExecutionInvalid \<or> status = ExecutionInvalidBlockHash then (Inl InsertPayload, e1)
          else if status = ExecutionValid
          then (case ident of None \<Rightarrow> Inl InsertTemporary | Some i \<Rightarrow> Inr i, e1)
          else (Inl InsertTemporary, e1))"

definition make_canonical ::
  "'e engine \<Rightarrow> forkchoice \<Rightarrow> payload \<Rightarrow> 'e \<Rightarrow> (insertion_err + payload) \<times> 'e" where
  "make_canonical eng fc pl e =
     (case eng_forkchoice_update eng fc None e of
        (Inl (InputError c), e1) \<Rightarrow>
          (Inl (if c = InvalidForkchoiceState then InsertPayload else InsertPrestate), e1)
      | (Inl EngineFailed, e1) \<Rightarrow> (Inl InsertTemporary, e1)
      | (Inr (status, _), e1) \<Rightarrow>
          if status \<noteq> ExecutionValid then (Inl InsertPayload, e1) else (Inr pl, e1))"

definition confirm_payload ::
  "'e engine \<Rightarrow> forkchoice \<Rightarrow> payload_id \<Rightarrow> bool \<Rightarrow> 'e \<Rightarrow> (insertion_err + payload) \<times> 'e" where
  "confirm_payload eng fc ident updateSafe e =
     (case eng_get_payload eng ident e of
        (Inl _, e1) \<Rightarrow> (Inl InsertTemporary, e1)
      | (Inr pl, e1) \<Rightarrow>
          (case sanity_check_payload pl of
             Inl err \<Rightarrow> (Inl (if err = EmptyFirstPanic then InsertPanic else InsertPayload), e1)
           | Inr _ \<Rightarrow>
               (case eng_new_payload eng pl e1 of
                  (Inl _, e2) \<Rightarrow> (Inl InsertTemporary, e2)
                | (Inr status, e2) \<Rightarrow>
                    if status = ExecutionInvalid \<or> status = ExecutionInvalidBlockHash
                    then (Inl InsertPayload, e2)
                    else if status \<noteq> ExecutionValid then (Inl InsertTemporary, e2)
                    else make_canonical eng
                      (fc\<lparr>fc_head := pl_block_hash pl,
                          fc_safe := (if updateSafe then pl_block_hash pl else fc_safe fc)\<rparr>) pl e2)))"

section \<open>The queue\<close>

record finality_data =
  fd_l2_block :: l2_ref
  fd_l1_block :: block_id

record engine_queue =
  eq_finalized :: l2_ref
  eq_safe_head :: l2_ref
  eq_unsafe_head :: l2_ref
  eq_pending_safe_head :: l2_ref
  eq_engine_sync_target :: l2_ref
  eq_building_onto :: l2_ref
  eq_building_id :: payload_id
  eq_building_safe :: bool
  eq_need_forkchoice_update :: bool
  eq_finalized_l1 :: l1_ref
  eq_tried_finalize_at :: l1_ref
  eq_safe_attributes :: "attributes_with_parent option"
  eq_unsafe_payloads :: payloads_queue
  eq_finality_data :: "finality_data list"
  eq_origin :: l1_ref
  eq_sys_cfg :: system_config

record 'e engine_env =
  ee_cfg :: rollup_config
  ee_engine :: "'e engine"
  ee_l1 :: l1_env
  ee_l2 :: l2_env
  ee_engine_sync :: bool
  ee_skip_sync_start_check :: bool

definition max_unsafe_payloads_memory :: u64 where
  "max_unsafe_payloads_memory = 500 * 1024 * 1024"

definition finality_lookback :: nat where "finality_lookback = 4 * 32 + 1"

definition finality_delay :: u64 where "finality_delay = 64"

definition zero_system_config :: system_config where
  "zero_system_config = \<lparr>sc_batcher_addr = replicate 20 0, sc_overhead = zero_hash32,
     sc_scalar = zero_hash32, sc_gas_limit = 0\<rparr>"

definition new_engine_queue :: engine_queue where
  "new_engine_queue =
     \<lparr>eq_finalized = zero_l2_ref, eq_safe_head = zero_l2_ref, eq_unsafe_head = zero_l2_ref,
      eq_pending_safe_head = zero_l2_ref, eq_engine_sync_target = zero_l2_ref,
      eq_building_onto = zero_l2_ref, eq_building_id = zero_payload_id, eq_building_safe = False,
      eq_need_forkchoice_update = False, eq_finalized_l1 = zero_l1_ref,
      eq_tried_finalize_at = zero_l1_ref, eq_safe_attributes = None,
      eq_unsafe_payloads = new_payloads_queue max_unsafe_payloads_memory, eq_finality_data = [],
      eq_origin = zero_l1_ref, eq_sys_cfg = zero_system_config\<rparr>"

definition is_engine_syncing :: "engine_queue \<Rightarrow> bool" where
  "is_engine_syncing q \<longleftrightarrow> l2_hash (eq_unsafe_head q) \<noteq> l2_hash (eq_engine_sync_target q)"

definition pop_unsafe :: "engine_queue \<Rightarrow> engine_queue" where
  "pop_unsafe q = q\<lparr>eq_unsafe_payloads := snd (payloads_pop (eq_unsafe_payloads q))\<rparr>"

text \<open>A payload that cannot be buffered is ignored. The queue's next payload is read for the
  log: on an empty queue that would be a \<^verbatim>\<open>nil\<close> dereference.\<close>

definition add_unsafe_payload :: "payload option \<Rightarrow> engine_queue \<Rightarrow> (stage_err + engine_queue) option" where
  "add_unsafe_payload p q =
     (case p of
        None \<Rightarrow> Some (Inr q)
      | Some pl \<Rightarrow>
          map_option
            (\<lambda>r. case r of
                 Inl _ \<Rightarrow> Inr q
               | Inr pq \<Rightarrow>
                   if payloads_peek pq = None then Inl StagePanic
                   else Inr (q\<lparr>eq_unsafe_payloads := pq\<rparr>))
            (payloads_push (\<lambda>x. payload_mem_size (Some x)) (Some pl) (eq_unsafe_payloads q)))"

section \<open>Finality\<close>

definition try_finalize_l2 :: "engine_queue \<Rightarrow> engine_queue" where
  "try_finalize_l2 q =
     (if eq_finalized_l1 q = zero_l1_ref then q
      else fold (\<lambda>fd q. if l2_number (fd_l2_block fd) > l2_number (eq_finalized q) \<and>
                   bid_number (fd_l1_block fd) \<le> l1_number (eq_finalized_l1 q)
                 then q\<lparr>eq_finalized := fd_l2_block fd, eq_need_forkchoice_update := True\<rparr> else q)
             (eq_finality_data q) (q\<lparr>eq_tried_finalize_at := eq_origin q\<rparr>))"

definition finalize :: "l1_ref \<Rightarrow> engine_queue \<Rightarrow> engine_queue" where
  "finalize l1Origin q =
     (if l1_number l1Origin < l1_number (eq_finalized_l1 q) then q
      else let q1 = q\<lparr>eq_finalized_l1 := l1Origin\<rparr>
        in if l1_id l1Origin \<in> fd_l1_block ` set (eq_finality_data q1) then try_finalize_l2 q1 else q1)"

definition post_process_safe_l2 :: "engine_queue \<Rightarrow> engine_queue" where
  "post_process_safe_l2 q =
     (let data = (if length (eq_finality_data q) \<ge> finality_lookback
                  then take (finality_lookback - 1) (tl (eq_finality_data q)) else eq_finality_data q)
      in q\<lparr>eq_finality_data :=
        (if data = [] \<or> bid_number (fd_l1_block (last data)) < l1_number (eq_origin q)
         then data @ [\<lparr>fd_l2_block = eq_safe_head q, fd_l1_block = l1_id (eq_origin q)\<rparr>]
         else butlast data @ [(last data)\<lparr>fd_l2_block := eq_safe_head q\<rparr>])\<rparr>)"

definition try_finalize_past_l2_blocks ::
  "l1_env \<Rightarrow> engine_queue \<Rightarrow> (stage_err + unit) \<times> engine_queue" where
  "try_finalize_past_l2_blocks l1 q =
     (if eq_finalized_l1 q = zero_l1_ref then (Inr (), q)
      else if l1_number (eq_finalized_l1 q) < l1_number (eq_origin q) then (Inr (), q)
      else if eq_tried_finalize_at q \<noteq> zero_l1_ref \<and>
        l1_number (eq_origin q) \<le> l1_number (eq_tried_finalize_at q) + finality_delay then (Inr (), q)
      else case l1_by_number l1 (l1_number (eq_origin q)) of
          Inl _ \<Rightarrow> (Inl TemporaryError, q)
        | Inr ref \<Rightarrow>
            if l1_hash ref \<noteq> l1_hash (eq_origin q) then (Inl ResetError, q)
            else (Inr (), try_finalize_l2 q))"

section \<open>Unsafe payloads\<close>

definition forkchoice_level :: "engine_err \<Rightarrow> stage_err" where
  "forkchoice_level err =
     (if err = InputError InvalidForkchoiceState then ResetError else TemporaryError)"

definition try_update_engine ::
  "'e engine \<Rightarrow> engine_queue \<Rightarrow> 'e \<Rightarrow> (stage_err + unit) \<times> engine_queue \<times> 'e" where
  "try_update_engine eng q e =
     (case eng_forkchoice_update eng
         \<lparr>fc_head = l2_hash (eq_engine_sync_target q), fc_safe = l2_hash (eq_safe_head q),
          fc_finalized = l2_hash (eq_finalized q)\<rparr> None e of
        (Inl err, e1) \<Rightarrow> (Inl (forkchoice_level err), q, e1)
      | (Inr _, e1) \<Rightarrow> (Inr (), q\<lparr>eq_need_forkchoice_update := False\<rparr>, e1))"

definition check_new_payload_status :: "bool \<Rightarrow> exec_status \<Rightarrow> bool" where
  "check_new_payload_status engineSync status \<longleftrightarrow>
     (if engineSync
      then status = ExecutionValid \<or> status = ExecutionSyncing \<or> status = ExecutionAccepted
      else status = ExecutionValid)"

definition check_forkchoice_updated_status :: "bool \<Rightarrow> exec_status \<Rightarrow> bool" where
  "check_forkchoice_updated_status engineSync status \<longleftrightarrow>
     (if engineSync then status = ExecutionValid \<or> status = ExecutionSyncing else status = ExecutionValid)"

definition mark_unsafe_valid ::
  "'e engine_env \<Rightarrow> payload \<Rightarrow> l2_ref \<Rightarrow> engine_queue \<Rightarrow> 'e \<Rightarrow> (stage_err + unit) \<times> engine_queue \<times> 'e" where
  "mark_unsafe_valid env first ref q e =
     (case eng_forkchoice_update (ee_engine env)
         \<lparr>fc_head = pl_block_hash first, fc_safe = l2_hash (eq_safe_head q),
          fc_finalized = l2_hash (eq_finalized q)\<rparr> None e of
        (Inl err, e1) \<Rightarrow> (Inl (forkchoice_level err), q, e1)
      | (Inr (status, _), e1) \<Rightarrow>
          if \<not> check_forkchoice_updated_status (ee_engine_sync env) status
          then (Inl TemporaryError, pop_unsafe q, e1)
          else (Inr (), pop_unsafe (q\<lparr>eq_engine_sync_target := ref,
                  eq_unsafe_head := (if status = ExecutionValid then ref else eq_unsafe_head q)\<rparr>), e1))"

definition insert_unsafe ::
  "'e engine_env \<Rightarrow> payload \<Rightarrow> engine_queue \<Rightarrow> 'e \<Rightarrow> (stage_err + unit) \<times> engine_queue \<times> 'e" where
  "insert_unsafe env first q e =
     (case payload_to_block_ref (ee_l2 env) (rc_genesis (ee_cfg env)) first of
        Inl _ \<Rightarrow> (Inr (), pop_unsafe q, e)
      | Inr ref \<Rightarrow>
          (case eng_new_payload (ee_engine env) first e of
             (Inl _, e1) \<Rightarrow> (Inl TemporaryError, q, e1)
           | (Inr status, e1) \<Rightarrow>
               if \<not> check_new_payload_status (ee_engine_sync env) status
               then (Inl TemporaryError, pop_unsafe q, e1)
               else mark_unsafe_valid env first ref q e1))"

text \<open>The end of data means that the next unsafe payload cannot be processed yet. An empty queue
  is not asked for one.\<close>

definition try_next_unsafe_payload ::
  "'e engine_env \<Rightarrow> engine_queue \<Rightarrow> 'e \<Rightarrow> (stage_err + unit) \<times> engine_queue \<times> 'e" where
  "try_next_unsafe_payload env q e =
     (case payloads_peek (eq_unsafe_payloads q) of
        None \<Rightarrow> (Inl StagePanic, q, e)
      | Some first \<Rightarrow>
          if pl_block_number first \<le> l2_number (eq_safe_head q) then (Inr (), pop_unsafe q, e)
          else if pl_block_number first \<le> l2_number (eq_unsafe_head q) then (Inr (), pop_unsafe q, e)
          else if \<not> ee_engine_sync env \<and> pl_parent_hash first \<noteq> l2_hash (eq_unsafe_head q)
          then (Inl StageEOF,
                if pl_block_number first = l2_number (eq_unsafe_head q) + 1 then pop_unsafe q else q, e)
          else insert_unsafe env first q e)"

section \<open>Building and confirming blocks\<close>

definition reset_building_state :: "engine_queue \<Rightarrow> engine_queue" where
  "reset_building_state q =
     q\<lparr>eq_building_id := zero_payload_id, eq_building_onto := zero_l2_ref, eq_building_safe := False\<rparr>"

definition queue_start_payload ::
  "'e engine_env \<Rightarrow> l2_ref \<Rightarrow> payload_attributes \<Rightarrow> bool \<Rightarrow> engine_queue \<Rightarrow> 'e \<Rightarrow>
   (insertion_err + unit) \<times> engine_queue \<times> 'e" where
  "queue_start_payload env parent attrs updateSafe q e =
     (if is_engine_syncing q then (Inl InsertTemporary, q, e)
      else case start_payload (ee_engine env)
            \<lparr>fc_head = l2_hash parent, fc_safe = l2_hash (eq_safe_head q),
             fc_finalized = l2_hash (eq_finalized q)\<rparr> attrs e of
          (Inl err, e1) \<Rightarrow> (Inl err, q, e1)
        | (Inr ident, e1) \<Rightarrow>
            (Inr (), q\<lparr>eq_building_id := ident, eq_building_safe := updateSafe,
                       eq_building_onto := parent\<rparr>, e1))"

definition last_in_span :: "engine_queue \<Rightarrow> bool" where
  "last_in_span q \<longleftrightarrow>
     (case eq_safe_attributes q of None \<Rightarrow> False | Some a \<Rightarrow> awp_last_in_span a)"

definition adopt_built :: "l2_ref \<Rightarrow> bool \<Rightarrow> engine_queue \<Rightarrow> engine_queue" where
  "adopt_built ref updateSafe q =
     (let q1 = q\<lparr>eq_unsafe_head := ref, eq_engine_sync_target := ref\<rparr>;
          q2 = (if \<not> eq_building_safe q1 then q1
                else if updateSafe
                then post_process_safe_l2 (q1\<lparr>eq_pending_safe_head := ref, eq_safe_head := ref\<rparr>)
                else q1\<lparr>eq_pending_safe_head := ref\<rparr>)
      in reset_building_state q2)"

definition queue_confirm_payload ::
  "'e engine_env \<Rightarrow> engine_queue \<Rightarrow> 'e \<Rightarrow> (insertion_err + payload) \<times> engine_queue \<times> 'e" where
  "queue_confirm_payload env q e =
     (if eq_building_id q = zero_payload_id then (Inl InsertPrestate, q, e)
      else let updateSafe = eq_building_safe q \<and> last_in_span q
        in case confirm_payload (ee_engine env)
              \<lparr>fc_head = zero_hash32, fc_safe = l2_hash (eq_safe_head q),
               fc_finalized = l2_hash (eq_finalized q)\<rparr> (eq_building_id q) updateSafe e of
            (Inl err, e1) \<Rightarrow> (Inl err, q, e1)
          | (Inr pl, e1) \<Rightarrow>
              (case payload_to_block_ref (ee_l2 env) (rc_genesis (ee_cfg env)) pl of
                 Inl _ \<Rightarrow> (Inl InsertPayload, q, e1)
               | Inr ref \<Rightarrow> (Inr pl, adopt_built ref updateSafe q, e1)))"

text \<open>The error of the payload retrieval is returned unless the cancellation is forced.\<close>

definition queue_cancel_payload ::
  "'e engine_env \<Rightarrow> bool \<Rightarrow> engine_queue \<Rightarrow> 'e \<Rightarrow> (engine_err + unit) \<times> engine_queue \<times> 'e" where
  "queue_cancel_payload env forced q e =
     (if eq_building_id q = zero_payload_id then (Inr (), q, e)
      else case eng_get_payload (ee_engine env) (eq_building_id q) e of
          (Inl err, e1) \<Rightarrow>
            if \<not> forced then (Inl err, q, e1) else (Inr (), reset_building_state q, e1)
        | (Inr _, e1) \<Rightarrow> (Inr (), reset_building_state q, e1))"

section \<open>Safe attributes\<close>

text \<open>A batch whose block is invalid is dropped, and the pending safe head goes back to the safe
  one; a block of deposits only cannot be dropped.\<close>

definition drop_invalid_batch ::
  "'e engine_env \<Rightarrow> payload_attributes \<Rightarrow> engine_queue \<Rightarrow> 'e \<Rightarrow> (stage_err + unit) \<times> engine_queue \<times> 'e" where
  "drop_invalid_batch env attrs q e =
     (case queue_cancel_payload env True q e of
        (_, q1, e1) \<Rightarrow>
          if list_all (\<lambda>tx. tx \<noteq> [] \<and> hd tx = deposit_tx_type) (at_transactions attrs)
          then (Inl CriticalError, q1, e1)
          else (Inr (), q1\<lparr>eq_safe_attributes := None, eq_pending_safe_head := eq_safe_head q1\<rparr>, e1))"

definition start_and_confirm ::
  "'e engine_env \<Rightarrow> payload_attributes \<Rightarrow> engine_queue \<Rightarrow> 'e \<Rightarrow> (insertion_err + payload) \<times> engine_queue \<times> 'e" where
  "start_and_confirm env attrs q e =
     (case queue_start_payload env (eq_pending_safe_head q) attrs True q e of
        (Inl err, q1, e1) \<Rightarrow> (Inl err, q1, e1)
      | (Inr _, q1, e1) \<Rightarrow> queue_confirm_payload env q1 e1)"

definition force_next_safe_attributes ::
  "'e engine_env \<Rightarrow> engine_queue \<Rightarrow> 'e \<Rightarrow> (stage_err + unit) \<times> engine_queue \<times> 'e" where
  "force_next_safe_attributes env q e =
     (case eq_safe_attributes q of
        None \<Rightarrow> (Inr (), q, e)
      | Some a \<Rightarrow>
          (case start_and_confirm env (awp_attributes a) q e of
             (Inr _, q1, e1) \<Rightarrow> (Inr (), q1\<lparr>eq_safe_attributes := None\<rparr>, e1)
           | (Inl InsertTemporary, q1, e1) \<Rightarrow> (Inl TemporaryError, q1, e1)
           | (Inl InsertPrestate, q1, e1) \<Rightarrow>
               (Inl ResetError, snd (queue_cancel_payload env True q1 e1))
           | (Inl InsertPayload, q1, e1) \<Rightarrow> drop_invalid_batch env (awp_attributes a) q1 e1
           | (Inl InsertPanic, q1, e1) \<Rightarrow> (Inl StagePanic, q1, e1)))"

definition consolidate_next_safe_attributes ::
  "'e engine_env \<Rightarrow> attributes_with_parent \<Rightarrow> engine_queue \<Rightarrow> 'e \<Rightarrow>
   (stage_err + unit) \<times> engine_queue \<times> 'e" where
  "consolidate_next_safe_attributes env a q e =
     (case eng_payload_by_number (ee_engine env) (l2_number (eq_pending_safe_head q) + 1) e of
        Inl RpcNotFound \<Rightarrow> (Inl ResetError, q, e)
      | Inl RpcFailed \<Rightarrow> (Inl TemporaryError, q, e)
      | Inr pl \<Rightarrow>
          if \<not> attributes_match_block (awp_attributes a) (l2_hash (eq_pending_safe_head q)) pl
          then force_next_safe_attributes env q e
          else case payload_to_block_ref (ee_l2 env) (rc_genesis (ee_cfg env)) pl of
              Inl _ \<Rightarrow> (Inl ResetError, q, e)
            | Inr ref \<Rightarrow>
                let q1 = q\<lparr>eq_pending_safe_head := ref\<rparr>;
                    q2 = (if awp_last_in_span a
                          then post_process_safe_l2 (q1\<lparr>eq_safe_head := ref, eq_need_forkchoice_update := True\<rparr>)
                          else q1)
                in (Inr (), q2\<lparr>eq_safe_attributes := None\<rparr>, e))"

definition try_next_safe_attributes ::
  "'e engine_env \<Rightarrow> engine_queue \<Rightarrow> 'e \<Rightarrow> (stage_err + unit) \<times> engine_queue \<times> 'e" where
  "try_next_safe_attributes env q e =
     (case eq_safe_attributes q of
        None \<Rightarrow> (Inr (), q, e)
      | Some a \<Rightarrow>
          if eq_pending_safe_head q \<noteq> awp_parent a then
            if l2_parent_hash (eq_pending_safe_head q) = l2_hash (awp_parent a)
            then (Inr (), q\<lparr>eq_safe_attributes := None\<rparr>, e)
            else (Inl ResetError, q, e)
          else if l2_number (eq_pending_safe_head q) < l2_number (eq_unsafe_head q)
          then consolidate_next_safe_attributes env a q e
          else if l2_number (eq_pending_safe_head q) = l2_number (eq_unsafe_head q)
          then force_next_safe_attributes env q e
          else (Inr (), q\<lparr>eq_unsafe_head := eq_pending_safe_head q,
                          eq_engine_sync_target := eq_pending_safe_head q\<rparr>, e))"

end
