(* ===== verification/Derive_Pipeline.thy ===== *)
theory Derive_Pipeline
  imports Derive_Engine
begin

text \<open>
  The engine queue's step and reset, and the derivation pipeline
  (\<^verbatim>\<open>bl-node/rollup/derive/{engine_queue,pipeline}.go\<close>): the stages are composed as the code
  pulls them, each asking the one before only when it has nothing of its own, and reset one
  after the other.
\<close>

section \<open>The step of the engine queue\<close>

definition verify_new_l1_origin :: "l1_env \<Rightarrow> l1_ref \<Rightarrow> engine_queue \<Rightarrow> stage_err + unit" where
  "verify_new_l1_origin l1 newOrigin q =
     (let unsafeOrigin = l2_l1_origin (eq_unsafe_head q) in
      if newOrigin = eq_origin q then Inr ()
      else if l1_number newOrigin = bid_number unsafeOrigin \<and> l1_id newOrigin \<noteq> unsafeOrigin
      then Inl ResetError
      else if l1_number newOrigin = bid_number unsafeOrigin + 1 \<and>
        l1_parent_hash newOrigin \<noteq> bid_hash unsafeOrigin then Inl ResetError
      else if l1_number newOrigin > bid_number unsafeOrigin + 1
      then (case l1_by_number l1 (bid_number unsafeOrigin) of
          Inl _ \<Rightarrow> Inl TemporaryError
        | Inr canon \<Rightarrow> if l1_id canon \<noteq> unsafeOrigin then Inl ResetError else Inr ())
      else Inr ())"

text \<open>The stage before: its origin, and the attributes it gives on top of a block.\<close>

record 'p attributes_provider =
  ap_origin :: "'p \<Rightarrow> l1_ref"
  ap_next :: "l2_ref \<Rightarrow> 'p \<Rightarrow> (stage_err + attributes_with_parent) \<times> 'p"

definition pull_attributes ::
  "'e engine_env \<Rightarrow> 'p attributes_provider \<Rightarrow> engine_queue \<Rightarrow> 'p \<Rightarrow>
   (stage_err + unit) \<times> engine_queue \<times> 'p" where
  "pull_attributes env prev q p =
     (case verify_new_l1_origin (ee_l1 env) (ap_origin prev p) q of
        Inl err \<Rightarrow> (Inl err, q, p)
      | Inr _ \<Rightarrow>
          (case try_finalize_past_l2_blocks (ee_l1 env)
                  (post_process_safe_l2 (q\<lparr>eq_origin := ap_origin prev p\<rparr>)) of
             (Inl err, q1) \<Rightarrow> (Inl err, q1, p)
           | (Inr _, q1) \<Rightarrow>
               (case ap_next prev (eq_pending_safe_head q1) p of
                  (Inl err, p1) \<Rightarrow> (Inl err, q1, p1)
                | (Inr nxt, p1) \<Rightarrow> (Inl NotEnoughData, q1\<lparr>eq_safe_attributes := Some nxt\<rparr>, p1))))"

definition step_derived ::
  "'e engine_env \<Rightarrow> 'p attributes_provider \<Rightarrow> engine_queue \<Rightarrow> 'p \<Rightarrow> 'e \<Rightarrow>
   (stage_err + unit) \<times> engine_queue \<times> 'p \<times> 'e" where
  "step_derived env prev q p e =
     (if is_engine_syncing q then (Inl EngineP2PSyncing, q, p, e)
      else if eq_safe_attributes q \<noteq> None
      then (case try_next_safe_attributes env q e of (r, q1, e1) \<Rightarrow> (r, q1, p, e1))
      else (case pull_attributes env prev q p of (r, q1, p1) \<Rightarrow> (r, q1, p1, e)))"

definition engine_step ::
  "'e engine_env \<Rightarrow> 'p attributes_provider \<Rightarrow> engine_queue \<Rightarrow> 'p \<Rightarrow> 'e \<Rightarrow>
   (stage_err + unit) \<times> engine_queue \<times> 'p \<times> 'e" where
  "engine_step env prev q p e =
     (if eq_need_forkchoice_update q
      then (case try_update_engine (ee_engine env) q e of (r, q1, e1) \<Rightarrow> (r, q1, p, e1))
      else if pq_heap (eq_unsafe_payloads q) \<noteq> []
      then (case try_next_unsafe_payload env q e of
          (Inl StageEOF, q1, e1) \<Rightarrow> step_derived env prev q1 p e1
        | (r, q1, e1) \<Rightarrow> (r, q1, p, e1))
      else step_derived env prev q p e)"

section \<open>The reset of the engine queue\<close>

text \<open>Back along the L2 chain to an L1 origin that is old enough to buffer channels from.\<close>

partial_function (option) pipeline_start ::
  "rollup_config \<Rightarrow> l2_chain \<Rightarrow> u64 \<Rightarrow> l2_ref \<Rightarrow> (stage_err + l2_ref) option" where
  "pipeline_start cfg l2 l1OriginNumber pipelineL2 =
     (if l2_number pipelineL2 > bid_number (gen_l2 (rc_genesis cfg)) \<and>
         bid_number (l2_l1_origin pipelineL2) > bid_number (gen_l1 (rc_genesis cfg)) \<and>
         bid_number (l2_l1_origin pipelineL2) + rc_channel_timeout cfg > l1OriginNumber
      then (case lc_by_hash l2 (l2_parent_hash pipelineL2) of
          Inl _ \<Rightarrow> Some (Inl ResetError)
        | Inr parent \<Rightarrow> pipeline_start cfg l2 l1OriginNumber parent)
      else Some (Inr pipelineL2))"

definition reset_to ::
  "heads \<Rightarrow> l1_ref \<Rightarrow> system_config \<Rightarrow> engine_queue \<Rightarrow> engine_queue" where
  "reset_to h pipelineOrigin l1Cfg q =
     (reset_building_state q)
       \<lparr>eq_unsafe_head := h_unsafe h, eq_engine_sync_target := h_unsafe h,
        eq_safe_head := h_safe h, eq_pending_safe_head := h_safe h, eq_safe_attributes := None,
        eq_finalized := h_finalized h, eq_need_forkchoice_update := True, eq_finality_data := [],
        eq_origin := pipelineOrigin, eq_sys_cfg := l1Cfg\<rparr>"

definition reset_at ::
  "'e engine_env \<Rightarrow> heads \<Rightarrow> engine_queue \<Rightarrow> 'e \<Rightarrow> ((stage_err + unit) \<times> engine_queue) option" where
  "reset_at env h q e =
     (case l1_by_hash (ee_l1 env) (bid_hash (l2_l1_origin (h_safe h))) of
        Inl _ \<Rightarrow> Some (Inl TemporaryError, q)
      | Inr l1Origin \<Rightarrow>
          if l2_time (h_safe h) < l1_time l1Origin then Some (Inl ResetError, q)
          else map_option
            (\<lambda>r. case r of
                 Inl err \<Rightarrow> (Inl err, q)
               | Inr pipelineL2 \<Rightarrow>
                   (case l1_by_hash (ee_l1 env) (bid_hash (l2_l1_origin pipelineL2)) of
                      Inl _ \<Rightarrow> (Inl TemporaryError, q)
                    | Inr pipelineOrigin \<Rightarrow>
                        (case eng_system_config (ee_engine env) (l2_hash pipelineL2) e of
                           Inl _ \<Rightarrow> (Inl TemporaryError, q)
                         | Inr l1Cfg \<Rightarrow> (Inl StageEOF, reset_to h pipelineOrigin l1Cfg q))))
            (pipeline_start (ee_cfg env) (eng_chain (ee_engine env) e) (l1_number l1Origin) (h_safe h)))"

definition engine_reset ::
  "'e engine_env \<Rightarrow> engine_queue \<Rightarrow> 'e \<Rightarrow> ((stage_err + unit) \<times> engine_queue) option" where
  "engine_reset env q e =
     Option.bind
       (find_l2_heads (ee_l1 env) (eng_chain (ee_engine env) e) (ee_cfg env)
          (ee_skip_sync_start_check env))
       (\<lambda>r. case r of
            Inl _ \<Rightarrow> Some (Inl TemporaryError, q)
          | Inr h \<Rightarrow> reset_at env h q e)"

definition unsafe_l2_sync_target :: "'e engine_env \<Rightarrow> engine_queue \<Rightarrow> l2_ref" where
  "unsafe_l2_sync_target env q =
     (case payloads_peek (eq_unsafe_payloads q) of
        None \<Rightarrow> zero_l2_ref
      | Some first \<Rightarrow>
          (case payload_to_block_ref (ee_l2 env) (rc_genesis (ee_cfg env)) first of
             Inl _ \<Rightarrow> zero_l2_ref
           | Inr ref \<Rightarrow> ref))"

section \<open>The pull stages composed\<close>

record pull_stages =
  ps_retrieval :: l1_retrieval
  ps_frames :: frame_queue
  ps_bank :: channel_bank
  ps_reader :: channel_in_reader
  ps_batches :: batch_queue
  ps_attributes :: attributes_queue

record pull_env =
  pe_cfg :: rollup_config
  pe_l1 :: l1_env
  pe_l2 :: l2_env
  pe_chan :: chan_env
  pe_attr :: attr_env

definition stages_origin :: "pull_stages \<Rightarrow> l1_ref" where
  "stages_origin ps = tv_block (rt_prev (ps_retrieval ps))"

definition pull_data :: "pull_env \<Rightarrow> pull_stages \<Rightarrow> (stage_err + byte list) \<times> pull_stages" where
  "pull_data env ps =
     (case retrieval_next_data (pe_l1 env) (pe_cfg env) (ps_retrieval ps) of
        (r, rt) \<Rightarrow> (r, ps\<lparr>ps_retrieval := rt\<rparr>))"

definition pull_frame :: "pull_env \<Rightarrow> pull_stages \<Rightarrow> (stage_err + frame) \<times> pull_stages" where
  "pull_frame env ps =
     (case (if ps_frames ps = [] then pull_data env ps else (Inl StageEOF, ps)) of
        (pulled, ps1) \<Rightarrow>
          (case frame_queue_next (ps_frames ps1) pulled of
             (r, fq) \<Rightarrow> (r, ps1\<lparr>ps_frames := fq\<rparr>)))"

text \<open>The bank pulls a frame only when it has no channel to read.\<close>

definition bank_needs_frame :: "pull_env \<Rightarrow> pull_stages \<Rightarrow> bool" where
  "bank_needs_frame env ps \<longleftrightarrow>
     fst (bank_read (pe_cfg env) (stages_origin ps) (ps_bank ps)) = Inl StageEOF"

definition pull_channel :: "pull_env \<Rightarrow> pull_stages \<Rightarrow> (stage_err + byte list) \<times> pull_stages" where
  "pull_channel env ps =
     (case (if bank_needs_frame env ps then pull_frame env ps else (Inl StageEOF, ps)) of
        (pulled, ps1) \<Rightarrow>
          (case bank_next_data (pe_cfg env) (stages_origin ps1) pulled (ps_bank ps1) of
             (r, cb) \<Rightarrow> (r, ps1\<lparr>ps_bank := cb\<rparr>)))"

definition pull_batch :: "pull_env \<Rightarrow> pull_stages \<Rightarrow> (stage_err + batch) \<times> pull_stages" where
  "pull_batch env ps =
     (case (if ps_reader ps = None then pull_channel env ps else (Inl StageEOF, ps)) of
        (pulled, ps1) \<Rightarrow>
          (case channel_in_next_batch (pe_chan env) (pe_cfg env) (stages_origin ps1) pulled (ps_reader ps1) of
             (r, cr) \<Rightarrow> (r, ps1\<lparr>ps_reader := cr\<rparr>)))"

text \<open>The batch queue pulls unless the next block is cached from a span.\<close>

definition queue_needs_batch :: "pull_env \<Rightarrow> l2_ref \<Rightarrow> pull_stages \<Rightarrow> bool" where
  "queue_needs_batch env parent ps \<longleftrightarrow>
     (case bq_next_span (ps_batches ps) of
        [] \<Rightarrow> True
      | s # _ \<Rightarrow> sb_timestamp s \<noteq> l2_time parent + rc_block_time (pe_cfg env))"

definition pull_singular ::
  "pull_env \<Rightarrow> l2_ref \<Rightarrow> pull_stages \<Rightarrow> (stage_err + singular_batch \<times> bool) \<times> pull_stages" where
  "pull_singular env parent ps =
     (case (if queue_needs_batch env parent ps then pull_batch env ps else (Inl StageEOF, ps)) of
        (pulled, ps1) \<Rightarrow>
          (case next_batch (pe_l2 env) (pe_cfg env) parent (stages_origin ps1) pulled (ps_batches ps1) of
             (r, bq) \<Rightarrow> (r, ps1\<lparr>ps_batches := bq\<rparr>)))"

definition pull_next_attributes ::
  "pull_env \<Rightarrow> l2_ref \<Rightarrow> pull_stages \<Rightarrow> (stage_err + attributes_with_parent) \<times> pull_stages" where
  "pull_next_attributes env parent ps =
     (case (if aq_batch (ps_attributes ps) = None then pull_singular env parent ps else (Inl StageEOF, ps)) of
        (pulled, ps1) \<Rightarrow>
          (case next_attributes (pe_attr env) (pe_cfg env) parent pulled (ps_attributes ps1) of
             (r, aq) \<Rightarrow> (r, ps1\<lparr>ps_attributes := aq\<rparr>)))"

definition stages_provider :: "pull_env \<Rightarrow> pull_stages attributes_provider" where
  "stages_provider env = \<lparr>ap_origin = stages_origin, ap_next = pull_next_attributes env\<rparr>"

section \<open>The pipeline\<close>

text \<open>The stages are reset in this order: engine queue, traversal, retrieval, frame queue, channel
  bank, channel reader, batch queue, attributes queue.\<close>

record pipeline =
  pp_resetting :: nat
  pp_stages :: pull_stages
  pp_engine :: engine_queue

definition stage_count :: nat where "stage_count = 8"

definition pipeline_engine_ready :: "pipeline \<Rightarrow> bool" where
  "pipeline_engine_ready pp \<longleftrightarrow> pp_resetting pp > 0"

definition pipeline_reset :: "pipeline \<Rightarrow> pipeline" where
  "pipeline_reset pp = pp\<lparr>pp_resetting := 0\<rparr>"

text \<open>The stages after the engine queue, whose reset always succeeds.\<close>

definition reset_pull_stage ::
  "pull_env \<Rightarrow> nat \<Rightarrow> l1_ref \<Rightarrow> system_config \<Rightarrow> pull_stages \<Rightarrow> pull_stages" where
  "reset_pull_stage env i base sys ps =
     (if i = 1 then ps\<lparr>ps_retrieval := (ps_retrieval ps)\<lparr>rt_prev := traversal_reset base sys\<rparr>\<rparr>
      else if i = 2
      then ps\<lparr>ps_retrieval := (ps_retrieval ps)\<lparr>rt_datas := retrieval_reset (pe_l1 env) (pe_cfg env) base sys\<rparr>\<rparr>
      else if i = 3 then ps\<lparr>ps_frames := []\<rparr>
      else if i = 4 then ps\<lparr>ps_bank := bank_reset\<rparr>
      else if i = 5 then ps\<lparr>ps_reader := None\<rparr>
      else if i = 6 then ps\<lparr>ps_batches := batch_queue_reset base\<rparr>
      else ps\<lparr>ps_attributes := attributes_queue_reset\<rparr>)"

definition reset_step ::
  "pull_env \<Rightarrow> 'e engine_env \<Rightarrow> pipeline \<Rightarrow> 'e \<Rightarrow> ((stage_err + unit) \<times> pipeline) option" where
  "reset_step penv env pp e =
     (if pp_resetting pp = 0
      then map_option
        (\<lambda>(r, q). if r = Inl StageEOF
                  then (Inr (), pp\<lparr>pp_engine := q, pp_resetting := 1\<rparr>)
                  else (r, pp\<lparr>pp_engine := q\<rparr>))
        (engine_reset env (pp_engine pp) e)
      else Some (Inr (),
        pp\<lparr>pp_stages := reset_pull_stage penv (pp_resetting pp) (eq_origin (pp_engine pp))
                          (eq_sys_cfg (pp_engine pp)) (pp_stages pp),
           pp_resetting := pp_resetting pp + 1\<rparr>))"

text \<open>Once no stage has anything left for this L1 block, L1 advances.\<close>

definition advance_stages ::
  "(byte list \<Rightarrow> hash) \<Rightarrow> pull_env \<Rightarrow> pull_stages \<Rightarrow> (stage_err + unit) \<times> pull_stages" where
  "advance_stages K env ps =
     (case advance_l1_block K (pe_l1 env) (pe_cfg env) (rt_prev (ps_retrieval ps)) of
        (r, tv) \<Rightarrow> (r, ps\<lparr>ps_retrieval := (ps_retrieval ps)\<lparr>rt_prev := tv\<rparr>\<rparr>))"

text \<open>The result \<^const>\<open>None\<close> is a reset that does not return.\<close>

definition pipeline_step ::
  "(byte list \<Rightarrow> hash) \<Rightarrow> pull_env \<Rightarrow> 'e engine_env \<Rightarrow> pipeline \<Rightarrow> 'e \<Rightarrow>
   ((stage_err + unit) \<times> pipeline \<times> 'e) option" where
  "pipeline_step K penv env pp e =
     (if pp_resetting pp < stage_count
      then map_option (\<lambda>(r, pp1). (r, pp1, e)) (reset_step penv env pp e)
      else Some
        (case engine_step env (stages_provider penv) (pp_engine pp) (pp_stages pp) e of
           (Inl StageEOF, q1, ps1, e1) \<Rightarrow>
             (case advance_stages K penv ps1 of
                (r, ps2) \<Rightarrow> (r, pp\<lparr>pp_engine := q1, pp_stages := ps2\<rparr>, e1))
         | (r, q1, ps1, e1) \<Rightarrow> (r, pp\<lparr>pp_engine := q1, pp_stages := ps1\<rparr>, e1)))"

text \<open>What a stage is given when it does not pull makes no difference to it.\<close>

lemma frames_unpulled: "fq \<noteq> [] \<Longrightarrow> frame_queue_next fq x = frame_queue_next fq y"
  by (simp add: frame_queue_next_def)

lemma bank_unpulled:
  "fst (bank_read cfg orig cb) \<noteq> Inl StageEOF \<Longrightarrow> bank_next_data cfg orig x cb = bank_next_data cfg orig y cb"
  by (cases "bank_read cfg orig cb"; cases "fst (bank_read cfg orig cb)") (auto simp: bank_next_data_def)

lemma reader_unpulled:
  "cr \<noteq> None \<Longrightarrow> channel_in_next_batch env cfg orig x cr = channel_in_next_batch env cfg orig y cr"
  by (auto simp: channel_in_next_batch_def)

lemma batches_unpulled:
  "bq_next_span bq = s # rest \<Longrightarrow> sb_timestamp s = l2_time parent + rc_block_time cfg \<Longrightarrow>
   next_batch env cfg parent orig x bq = next_batch env cfg parent orig y bq"
  by (simp add: next_batch_def)

lemma attributes_unpulled:
  "aq_batch aq \<noteq> None \<Longrightarrow> next_attributes env cfg parent x aq = next_attributes env cfg parent y aq"
  by (auto simp: next_attributes_def)

end
