(* ===== verification/Derive_Stages_Props.thy ===== *)
theory Derive_Stages_Props
  imports Derive_Stages
begin

text \<open>
  What the outer stages guarantee: the data of an L1 block is read out completely and in
  order, configuration updates keep the configuration well formed, and a block built from
  derived attributes names the batch's epoch as its L1 origin.
\<close>

section \<open>The data of a block\<close>

fun drain_source ::
  "l1_env \<Rightarrow> rollup_config \<Rightarrow> nat \<Rightarrow> l1_retrieval \<Rightarrow> byte list list \<times> l1_retrieval" where
  "drain_source l1 cfg 0 rt = ([], rt)"
| "drain_source l1 cfg (Suc n) rt =
     (case retrieval_next_data l1 cfg rt of
        (Inl _, rt') \<Rightarrow> ([], rt')
      | (Inr d, rt') \<Rightarrow> (case drain_source l1 cfg n rt' of (ds, rt'') \<Rightarrow> (d # ds, rt'')))"

lemma drain_open:
  "rt_datas rt = Some ds \<Longrightarrow> ds_open ds \<Longrightarrow> n > length (ds_data ds) \<Longrightarrow>
   drain_source l1 cfg n rt = (ds_data ds, rt\<lparr>rt_datas := None\<rparr>)"
proof (induction n arbitrary: rt ds)
  case (Suc n)
  show ?case
  proof (cases "ds_data ds")
    case Nil
    then show ?thesis using Suc.prems
      by (simp add: retrieval_next_data_def retrieval_read_def data_source_next_def data_source_open_def)
  next
    case (Cons d rest)
    then show ?thesis using Suc.prems Suc.IH [of "rt\<lparr>rt_datas := Some (ds\<lparr>ds_data := rest\<rparr>)\<rparr>" "ds\<lparr>ds_data := rest\<rparr>"]
      by (cases rt) (simp add: retrieval_next_data_def retrieval_read_def data_source_next_def data_source_open_def)
  qed
qed simp

text \<open>From a block not read yet, the stage gives the data of the batcher's transactions to the
  inbox in their order, then the end of data, and then nothing more until L1 advances.\<close>

lemma retrieval_reads_block:
  assumes "rt_datas rt = None" "\<not> tv_done (rt_prev rt)"
    and "l1_txs_by_hash l1 (l1_hash (tv_block (rt_prev rt))) = Inr txs"
    and "n > length (data_from_evm_transactions l1 cfg (sc_batcher_addr (tv_sys_cfg (rt_prev rt))) txs)"
  shows "drain_source l1 cfg n rt =
      (data_from_evm_transactions l1 cfg (sc_batcher_addr (tv_sys_cfg (rt_prev rt))) txs,
       \<lparr>rt_prev = (rt_prev rt)\<lparr>tv_done := True\<rparr>, rt_datas = None\<rparr>)"
    and "retrieval_next_data l1 cfg \<lparr>rt_prev = (rt_prev rt)\<lparr>tv_done := True\<rparr>, rt_datas = None\<rparr> =
      (Inl StageEOF, \<lparr>rt_prev = (rt_prev rt)\<lparr>tv_done := True\<rparr>, rt_datas = None\<rparr>)"
proof -
  define ds where "ds = new_data_source l1 cfg (l1_id (tv_block (rt_prev rt)))
      (sc_batcher_addr (tv_sys_cfg (rt_prev rt)))"
  define rt1 where "rt1 = \<lparr>rt_prev = (rt_prev rt)\<lparr>tv_done := True\<rparr>, rt_datas = Some ds\<rparr>"
  have "retrieval_next_data l1 cfg rt = retrieval_next_data l1 cfg rt1"
    using assms(1,2) by (simp add: retrieval_next_data_def next_l1_block_def rt1_def ds_def)
  then have d: "drain_source l1 cfg n rt = drain_source l1 cfg n rt1"
    using assms(4) by (cases n) simp_all
  have ds: "ds_open ds" "ds_data ds =
      data_from_evm_transactions l1 cfg (sc_batcher_addr (tv_sys_cfg (rt_prev rt))) txs"
    using assms(3) by (simp_all add: ds_def new_data_source_def l1_id_def)
  show "drain_source l1 cfg n rt =
      (data_from_evm_transactions l1 cfg (sc_batcher_addr (tv_sys_cfg (rt_prev rt))) txs,
       \<lparr>rt_prev = (rt_prev rt)\<lparr>tv_done := True\<rparr>, rt_datas = None\<rparr>)"
    unfolding d using drain_open [of rt1 ds n l1 cfg] ds assms(4) by (simp add: rt1_def)
  show "retrieval_next_data l1 cfg \<lparr>rt_prev = (rt_prev rt)\<lparr>tv_done := True\<rparr>, rt_datas = None\<rparr> =
      (Inl StageEOF, \<lparr>rt_prev = (rt_prev rt)\<lparr>tv_done := True\<rparr>, rt_datas = None\<rparr>)"
    by (simp add: retrieval_next_data_def next_l1_block_def)
qed

text \<open>After a reset both stages offer the block the pipeline starts from: the retrieval has opened its
  data, and the traversal has not handed the block out yet. Its data is delivered twice.\<close>

lemma reset_delivers_base_twice:
  assumes "l1_txs_by_hash l1 (l1_hash base) = Inr txs"
    and "n > length (data_from_evm_transactions l1 cfg (sc_batcher_addr sys) txs)"
  defines "rt \<equiv> \<lparr>rt_prev = traversal_reset base sys, rt_datas = retrieval_reset l1 cfg base sys\<rparr>"
    and "D \<equiv> data_from_evm_transactions l1 cfg (sc_batcher_addr sys) txs"
  shows "\<exists>rt1 rt2. drain_source l1 cfg n rt = (D, rt1) \<and> drain_source l1 cfg n rt1 = (D, rt2)"
proof -
  define ds where "ds = new_data_source l1 cfg (l1_id base) (sc_batcher_addr sys)"
  have ds: "ds_open ds" "ds_data ds = D" "rt_datas rt = Some ds"
    using assms(1) by (simp_all add: ds_def D_def new_data_source_def l1_id_def rt_def retrieval_reset_def)
  define rt1 where "rt1 = \<lparr>rt_prev = traversal_reset base sys, rt_datas = None\<rparr>"
  have "drain_source l1 cfg n rt = (D, rt1)"
    using drain_open [OF ds(3,1), of n l1 cfg] ds(2) assms(2) by (simp add: rt1_def rt_def D_def)
  moreover have "\<exists>rt2. drain_source l1 cfg n rt1 = (D, rt2)"
  proof -
    have "drain_source l1 cfg n rt1 = (data_from_evm_transactions l1 cfg
        (sc_batcher_addr (tv_sys_cfg (rt_prev rt1))) txs,
       \<lparr>rt_prev = (rt_prev rt1)\<lparr>tv_done := True\<rparr>, rt_datas = None\<rparr>)"
      by (rule retrieval_reads_block(1)) (use assms(1,2) in \<open>simp_all add: rt1_def traversal_reset_def\<close>)
    then show ?thesis by (simp add: rt1_def traversal_reset_def D_def)
  qed
  ultimately show ?thesis by blast
qed

text \<open>L1 only advances to a child of the block it is at.\<close>

lemma advance_l1_child:
  "advance_l1_block K l1 cfg tv = (Inr u, tv') \<Longrightarrow>
   l1_parent_hash (tv_block tv') = l1_hash (tv_block tv) \<and> \<not> tv_done tv' \<and>
   l1_by_number l1 (l1_number (tv_block tv) + 1) = Inr (tv_block tv')"
  by (auto simp: advance_l1_block_def split: sum.splits rpc_err.splits if_splits prod.splits)

section \<open>Well-formed configurations\<close>

definition wf_sys_config :: "system_config \<Rightarrow> bool" where
  "wf_sys_config c \<longleftrightarrow> length (sc_batcher_addr c) = 20 \<and> length (sc_overhead c) = 32 \<and>
     length (sc_scalar c) = 32"

lemma malformed_Inr: "malformed r = Inr x \<longleftrightarrow> r = Inr x"
  by (simp add: malformed_def split: sum.splits)

lemma update_batcher_wf:
  assumes "update_batcher d sys = Inr sys'" "wf_sys_config sys"
  shows "wf_sys_config sys'"
proof -
  obtain r a r' where "read_address r = Inr (a, r')" "sys' = sys\<lparr>sc_batcher_addr := a\<rparr>"
    using assms(1) by (auto simp: update_batcher_def rbind_eq_Inr split: if_splits)
  then show ?thesis using assms(2) by (simp add: wf_sys_config_def read_address_Inr)
qed

lemma update_gas_config_wf:
  assumes "update_gas_config d sys = Inr sys'" "wf_sys_config sys"
  shows "wf_sys_config sys'"
proof -
  obtain r a r1 b r2 where "read_full 32 r = Inr (a, r1)" "read_full 32 r1 = Inr (b, r2)"
      "sys' = sys\<lparr>sc_overhead := a, sc_scalar := b\<rparr>"
    using assms(1) by (auto simp: update_gas_config_def rbind_eq_Inr split: if_splits)
  then show ?thesis using assms(2) by (auto simp: wf_sys_config_def read_full_Inr)
qed

lemma update_gas_limit_wf:
  assumes "update_gas_limit d sys = Inr sys'" "wf_sys_config sys"
  shows "wf_sys_config sys'"
proof -
  obtain g where "sys' = sys\<lparr>sc_gas_limit := g\<rparr>"
    using assms(1) by (auto simp: update_gas_limit_def rbind_eq_Inr split: if_splits)
  then show ?thesis using assms(2) by (simp add: wf_sys_config_def)
qed

lemma process_update_cases:
  "process_system_config_update K sys ev = Inr sys' \<Longrightarrow>
   sys' = sys \<or> update_batcher (ev_data ev) sys = Inr sys' \<or>
   update_gas_config (ev_data ev) sys = Inr sys' \<or> update_gas_limit (ev_data ev) sys = Inr sys'"
  unfolding process_system_config_update_def malformed_Inr [symmetric]
  by (simp only: if_distrib [of "\<lambda>r. r = Inr sys'"] sum.simps split: if_splits) simp_all

lemma process_update_wf:
  "process_system_config_update K sys ev = Inr sys' \<Longrightarrow> wf_sys_config sys \<Longrightarrow> wf_sys_config sys'"
  using process_update_cases update_batcher_wf update_gas_config_wf update_gas_limit_wf by metis

lemma update_system_config_wf:
  assumes "update_system_config K cfg receipts sys = (sys', errs)" "wf_sys_config sys"
  shows "wf_sys_config sys'"
proof -
  have "wf_sys_config sys \<Longrightarrow> wf_sys_config (fst (fold (\<lambda>ev (sys, errs).
      case process_system_config_update K sys ev of Inl e \<Rightarrow> (sys, errs @ [e]) | Inr sys' \<Rightarrow> (sys', errs))
      evs (sys, errs)))" for evs sys and errs :: "deposit_err list"
  proof (induction evs arbitrary: sys errs)
    case (Cons ev evs)
    show ?case
    proof (cases "process_system_config_update K sys ev")
      case (Inr s)
      then show ?thesis using Cons process_update_wf [OF Inr] by simp
    qed (use Cons in simp)
  qed simp
  from this [OF assms(2)] have "wf_sys_config (fst (update_system_config K cfg receipts sys))"
    unfolding update_system_config_def .
  then show ?thesis using assms(1) by simp
qed

section \<open>Attributes carry their origin\<close>

text \<open>What the nodes answer: hashes of 32 bytes, a base fee that is not negative, the header of
  the hash asked for; and a configuration whose fields have their length.\<close>

definition wf_l1_header :: "l1_header \<Rightarrow> bool" where
  "wf_l1_header h \<longleftrightarrow> 0 \<le> hd_base_fee h \<and> length (hd_hash h) = 32"

definition nodes_ok :: "attr_env \<Rightarrow> bool" where
  "nodes_ok env \<longleftrightarrow>
     (\<forall>h info rs. l1_fetch_receipts (ae_l1 env) h = Inr (info, rs) \<longrightarrow> wf_l1_header info \<and> hd_hash info = h) \<and>
     (\<forall>h info. l1_info_by_hash (ae_l1 env) h = Inr info \<longrightarrow> wf_l1_header info \<and> hd_hash info = h) \<and>
     (\<forall>h c. ae_l2_config env h = Inr c \<longrightarrow> wf_sys_config c) \<and> length (ae_sig env) = 4"

definition same_deposit_codec :: "attr_env \<Rightarrow> l2_env \<Rightarrow> bool" where
  "same_deposit_codec env l2 \<longleftrightarrow> env_sig l2 = ae_sig env \<and>
     (\<forall>dep bs. ae_enc env dep = Some bs \<longrightarrow> env_txdec l2 bs = Some (deposit_tx_type, dt_data dep))"

definition epoch_header :: "attr_env \<Rightarrow> l2_ref \<Rightarrow> block_id \<Rightarrow> l1_header \<Rightarrow> bool" where
  "epoch_header env parent epoch info \<longleftrightarrow>
     (if bid_number (l2_l1_origin parent) \<noteq> bid_number epoch
      then (\<exists>rs. l1_fetch_receipts (ae_l1 env) (bid_hash epoch) = Inr (info, rs)) \<and>
        hd_parent_hash info = bid_hash (l2_l1_origin parent)
      else l1_info_by_hash (ae_l1 env) (bid_hash epoch) = Inr info \<and>
        bid_hash epoch = bid_hash (l2_l1_origin parent))"

lemma epoch_inputs_ok:
  assumes "epoch_inputs env cfg parent epoch sc = Inr (info, deps, sys, seqNum)" "nodes_ok env" "wf_sys_config sc"
  shows "epoch_header env parent epoch info" "wf_l1_header info" "hd_hash info = bid_hash epoch"
    "wf_sys_config sys"
    "seqNum = (if bid_number (l2_l1_origin parent) \<noteq> bid_number epoch then 0
               else l2_sequence_number parent + 1)"
    "bid_number (l2_l1_origin parent) = bid_number epoch \<Longrightarrow> deps = []"
  using assms
  by (auto simp: epoch_inputs_def epoch_header_def nodes_ok_def intro: update_system_config_wf
      split: if_splits sum.splits prod.splits)

text \<open>The configuration in force for a block on top of \<open>parent\<close>: the parent's, with the updates in the receipts of
  the L1 block when the block opens a new epoch. The deposits are those of that L1 block.\<close>

definition config_in_force :: "attr_env \<Rightarrow> rollup_config \<Rightarrow> l2_ref \<Rightarrow> block_id \<Rightarrow> system_config \<Rightarrow> bool" where
  "config_in_force env cfg parent epoch sys \<longleftrightarrow>
     (\<exists>sc. ae_l2_config env (l2_hash parent) = Inr sc \<and>
        (if bid_number (l2_l1_origin parent) = bid_number epoch then sys = sc
         else \<exists>info rs. l1_fetch_receipts (ae_l1 env) (bid_hash epoch) = Inr (info, rs) \<and>
           update_system_config (ae_keccak env) cfg rs sc = (sys, [])))"

definition epoch_deposits :: "attr_env \<Rightarrow> rollup_config \<Rightarrow> l2_ref \<Rightarrow> block_id \<Rightarrow> byte list list \<Rightarrow> bool" where
  "epoch_deposits env cfg parent epoch deps \<longleftrightarrow>
     (if bid_number (l2_l1_origin parent) = bid_number epoch then deps = []
      else \<exists>info rs. l1_fetch_receipts (ae_l1 env) (bid_hash epoch) = Inr (info, rs) \<and>
        derive_deposits (ae_keccak env) (ae_enc env) rs (rc_deposit_contract_address cfg) = (deps, False))"

lemma epoch_inputs_in_force:
  assumes "epoch_inputs env cfg parent epoch sc = Inr (info, deps, sys, seqNum)"
    and "ae_l2_config env (l2_hash parent) = Inr sc"
  shows "config_in_force env cfg parent epoch sys" "epoch_deposits env cfg parent epoch deps"
  using assms
  by (auto simp: epoch_inputs_def config_in_force_def epoch_deposits_def split: if_splits sum.splits prod.splits)

text \<open>What the L1 attributes deposit tells: the L1 block, the sequence number, and the configuration.\<close>

definition told_info :: "l1_header \<Rightarrow> u64 \<Rightarrow> system_config \<Rightarrow> l1_block_info" where
  "told_info info seqNum sys =
     \<lparr>li_number = hd_number info, li_time = hd_time info, li_base_fee = hd_base_fee info,
      li_block_hash = hd_hash info, li_sequence_number = seqNum, li_batcher_addr = sc_batcher_addr sys,
      li_l1_fee_overhead = sc_overhead sys, li_l1_fee_scalar = sc_scalar sys\<rparr>"

definition info_deposit_shape :: "attr_env \<Rightarrow> l1_header \<Rightarrow> u64 \<Rightarrow> bool \<Rightarrow> deposit_tx \<Rightarrow> bool" where
  "info_deposit_shape env info seqNum regolith dep \<longleftrightarrow>
     dt_source_hash dep = l1_info_source_hash (ae_keccak env) (hd_hash info) seqNum \<and>
     dt_from dep = l1_info_depositer_address \<and> dt_to dep = Some l1_block_address \<and>
     dt_mint dep = None \<and> dt_value dep = 0 \<and>
     dt_gas dep = (if regolith then 1000000 else 150000000) \<and> (dt_is_system dep \<longleftrightarrow> \<not> regolith)"

lemma info_tx_decodes:
  assumes "l1_info_deposit_bytes env seqNum info sys reg = Some tx" "same_deposit_codec env l2"
    "wf_l1_header info" "wf_sys_config sys" "length (ae_sig env) = 4" "pl_transactions pl = tx # txs"
  shows "info_of_payload l2 pl = Inr (told_info info seqNum sys)"
    "\<exists>dep. ae_enc env dep = Some tx \<and> info_deposit_shape env info seqNum reg dep"
proof -
  define li where "li = told_info info seqNum sys"
  obtain dep where dep: "l1_info_deposit env seqNum info sys reg = Inr dep" "ae_enc env dep = Some tx"
    using assms(1) by (auto simp: l1_info_deposit_bytes_def split: sum.splits)
  then have m: "marshal_l1_info (ae_sig env) li = Inr (dt_data dep)"
    by (auto simp: l1_info_deposit_def li_def told_info_def rbind_eq_Inr)
  have "wf_l1_info li"
    using assms(3,4) by (simp add: wf_l1_info_def li_def told_info_def wf_l1_header_def wf_sys_config_def)
  then have "unmarshal_l1_info (env_sig l2) (dt_data dep) = Inr li"
    using unmarshal_marshal_l1_info [OF assms(5) _ m] assms(2) by (simp add: same_deposit_codec_def)
  then show "info_of_payload l2 pl = Inr (told_info info seqNum sys)"
    using assms(2,6) dep(2) by (simp add: info_of_payload_def info_of_deposit_def same_deposit_codec_def li_def)
  have "info_deposit_shape env info seqNum reg dep"
    using dep(1) by (auto simp: l1_info_deposit_def info_deposit_shape_def regolith_system_tx_gas_def rbind_eq_Inr)
  then show "\<exists>dep. ae_enc env dep = Some tx \<and> info_deposit_shape env info seqNum reg dep"
    using dep(2) by blast
qed

text \<open>What the attributes of the next block are made of.\<close>

lemma next_attributes_parts:
  assumes "next_attributes env cfg parent pulled aq = (Inr a, aq')" "nodes_ok env"
  obtains b info deps sys seqNum tx at where
    "aq_batch aq = Some b \<or> aq_batch aq = None \<and> pulled = Inr (b, awp_last_in_span a)"
    "epoch_header env parent \<lparr>bid_hash = sb_epoch_hash b, bid_number = sb_epoch_num b\<rparr> info"
    "wf_l1_header info" "hd_hash info = sb_epoch_hash b" "wf_sys_config sys"
    "config_in_force env cfg parent \<lparr>bid_hash = sb_epoch_hash b, bid_number = sb_epoch_num b\<rparr> sys"
    "epoch_deposits env cfg parent \<lparr>bid_hash = sb_epoch_hash b, bid_number = sb_epoch_num b\<rparr> deps"
    "seqNum = (if bid_number (l2_l1_origin parent) \<noteq> sb_epoch_num b then 0 else l2_sequence_number parent + 1)"
    "l1_info_deposit_bytes env seqNum info sys (is_regolith cfg (l2_time parent + rc_block_time cfg)) = Some tx"
    "\<not> l2_time parent + rc_block_time cfg < hd_time info"
    "at = \<lparr>at_timestamp = l2_time parent + rc_block_time cfg, at_prev_randao = hd_mix_digest info,
       at_fee_recipient = sequencer_fee_vault_addr,
       at_withdrawals = (if is_canyon cfg (l2_time parent + rc_block_time cfg) then Some [] else None),
       at_transactions = tx # deps @ sb_transactions b, at_no_tx_pool = True,
       at_gas_limit = Some (sc_gas_limit sys)\<rparr>"
    "awp_attributes a = at" "awp_parent a = parent" "aq' = attributes_queue_reset"
proof -
  obtain b lst attrs where b: "(case aq_batch aq of Some b \<Rightarrow> Inr (b, aq_last_in_span aq) | None \<Rightarrow> pulled) = Inr (b, lst)"
      "create_next_attributes env cfg b parent = Inr attrs"
      "a = \<lparr>awp_attributes = attrs, awp_parent = parent, awp_last_in_span = lst\<rparr>"
      "aq' = attributes_queue_reset"
    using assms(1) by (auto simp: next_attributes_def attributes_queue_reset_def split: sum.splits prod.splits)
  define epoch where "epoch = \<lparr>bid_hash = sb_epoch_hash b, bid_number = sb_epoch_num b\<rparr>"
  obtain at where at: "prepare_payload_attributes env cfg parent epoch = Inr at"
      "attrs = at\<lparr>at_no_tx_pool := True, at_transactions := at_transactions at @ sb_transactions b\<rparr>"
    using b(2) by (auto simp: create_next_attributes_def epoch_def rbind_eq_Inr split: if_splits)
  obtain sc where sc: "ae_l2_config env (l2_hash parent) = Inr sc"
    using at(1) by (auto simp: prepare_payload_attributes_def split: sum.splits)
  obtain info deps sys seqNum tx where e: "epoch_inputs env cfg parent epoch sc = Inr (info, deps, sys, seqNum)"
      "l1_info_deposit_bytes env seqNum info sys (is_regolith cfg (l2_time parent + rc_block_time cfg)) = Some tx"
      "\<not> l2_time parent + rc_block_time cfg < hd_time info"
      "at = \<lparr>at_timestamp = l2_time parent + rc_block_time cfg, at_prev_randao = hd_mix_digest info,
         at_fee_recipient = sequencer_fee_vault_addr,
         at_withdrawals = (if is_canyon cfg (l2_time parent + rc_block_time cfg) then Some [] else None),
         at_transactions = tx # deps, at_no_tx_pool = True, at_gas_limit = Some (sc_gas_limit sys)\<rparr>"
    using at(1) sc by (auto simp: prepare_payload_attributes_def rbind_eq_Inr Let_def split: if_splits option.splits)
  have w: "wf_sys_config sc" using sc assms(2) by (simp add: nodes_ok_def)
  note ei = epoch_inputs_ok [OF e(1) assms(2) w] epoch_inputs_in_force [OF e(1) sc]
  have "aq_batch aq = Some b \<or> aq_batch aq = None \<and> pulled = Inr (b, awp_last_in_span a)"
    using b(1,3) by (auto split: option.splits)
  then show thesis
    by (rule that [of b info sys deps seqNum tx "awp_attributes a"])
       (use ei e b(3,4) at(2) in \<open>simp_all add: epoch_def\<close>)
qed

text \<open>C30. A block that is built from derived attributes says where it was derived from: its first
  transaction is the L1 attributes deposit, from the depositer to the L1 block contract, with the gas of the fork,
  and decodes to the number, hash, time and base fee of the batch's epoch, the sequence number (0 in the
  first block of an epoch, one more than the parent's in the others), and the batcher address, overhead and scalar of the
  configuration in force: the parent's, with the updates of the epoch's receipts when the epoch is new.
  \<^verbatim>\<open>PayloadToBlockRef\<close> reads the epoch back as L1 origin, and \<^verbatim>\<open>PayloadToSystemConfig\<close> the
  configuration, if the block has the gas limit of the attributes, which is the configuration's. The epoch is the parent's
  or a child of it by hash, the epoch's deposits come next if it is new, the batch's transactions last
  and unchanged, the timestamp is one block time after the parent's and not before the epoch's, the pool adds nothing, fees go to
  the sequencer's vault, and there are empty withdrawals from the Canyon fork on.
  The nodes answer with well-formed headers and configurations, and the encoding of a deposit is decoded as such.\<close>

theorem attributes_carry_origin:
  assumes "next_attributes env cfg parent pulled aq = (Inr a, aq')"
    and "nodes_ok env" "same_deposit_codec env l2"
    and "pl_transactions pl = at_transactions (awp_attributes a)"
    and "pl_block_number pl \<noteq> bid_number (gen_l2 (rc_genesis cfg))"
  shows "\<exists>b info sys seqNum.
    (aq_batch aq = Some b \<or> aq_batch aq = None \<and> pulled = Inr (b, awp_last_in_span a)) \<and>
    epoch_header env parent \<lparr>bid_hash = sb_epoch_hash b, bid_number = sb_epoch_num b\<rparr> info \<and>
    hd_hash info = sb_epoch_hash b \<and>
    config_in_force env cfg parent \<lparr>bid_hash = sb_epoch_hash b, bid_number = sb_epoch_num b\<rparr> sys \<and>
    seqNum = (if bid_number (l2_l1_origin parent) \<noteq> sb_epoch_num b then 0 else l2_sequence_number parent + 1) \<and>
    info_of_payload l2 pl = Inr
      \<lparr>li_number = hd_number info, li_time = hd_time info, li_base_fee = hd_base_fee info,
       li_block_hash = sb_epoch_hash b, li_sequence_number = seqNum, li_batcher_addr = sc_batcher_addr sys,
       li_l1_fee_overhead = sc_overhead sys, li_l1_fee_scalar = sc_scalar sys\<rparr> \<and>
    payload_to_block_ref l2 (rc_genesis cfg) pl = Inr
      \<lparr>l2_hash = pl_block_hash pl, l2_number = pl_block_number pl, l2_parent_hash = pl_parent_hash pl,
       l2_time = pl_timestamp pl,
       l2_l1_origin = \<lparr>bid_hash = sb_epoch_hash b, bid_number = hd_number info\<rparr>,
       l2_sequence_number = seqNum\<rparr> \<and>
    at_gas_limit (awp_attributes a) = Some (sc_gas_limit sys) \<and>
    (pl_gas_limit pl = sc_gas_limit sys \<longrightarrow> payload_to_system_config l2 (rc_genesis cfg) pl = Inr sys) \<and>
    (\<exists>dep tx deps. at_transactions (awp_attributes a) = tx # deps @ sb_transactions b \<and>
       ae_enc env dep = Some tx \<and>
       info_deposit_shape env info seqNum (is_regolith cfg (l2_time parent + rc_block_time cfg)) dep \<and>
       epoch_deposits env cfg parent \<lparr>bid_hash = sb_epoch_hash b, bid_number = sb_epoch_num b\<rparr> deps) \<and>
    at_timestamp (awp_attributes a) = l2_time parent + rc_block_time cfg \<and>
    at_timestamp (awp_attributes a) \<ge> hd_time info \<and> at_no_tx_pool (awp_attributes a) \<and>
    at_prev_randao (awp_attributes a) = hd_mix_digest info \<and>
    at_fee_recipient (awp_attributes a) = sequencer_fee_vault_addr \<and>
    at_withdrawals (awp_attributes a) = (if is_canyon cfg (l2_time parent + rc_block_time cfg) then Some [] else None) \<and>
    awp_parent a = parent \<and> aq' = attributes_queue_reset"
proof -
  obtain b info deps sys seqNum tx at where n:
    "aq_batch aq = Some b \<or> aq_batch aq = None \<and> pulled = Inr (b, awp_last_in_span a)"
    "epoch_header env parent \<lparr>bid_hash = sb_epoch_hash b, bid_number = sb_epoch_num b\<rparr> info"
    "wf_l1_header info" "hd_hash info = sb_epoch_hash b" "wf_sys_config sys"
    "config_in_force env cfg parent \<lparr>bid_hash = sb_epoch_hash b, bid_number = sb_epoch_num b\<rparr> sys"
    "epoch_deposits env cfg parent \<lparr>bid_hash = sb_epoch_hash b, bid_number = sb_epoch_num b\<rparr> deps"
    "seqNum = (if bid_number (l2_l1_origin parent) \<noteq> sb_epoch_num b then 0 else l2_sequence_number parent + 1)"
    "l1_info_deposit_bytes env seqNum info sys (is_regolith cfg (l2_time parent + rc_block_time cfg)) = Some tx"
    "\<not> l2_time parent + rc_block_time cfg < hd_time info"
    "at = \<lparr>at_timestamp = l2_time parent + rc_block_time cfg, at_prev_randao = hd_mix_digest info,
       at_fee_recipient = sequencer_fee_vault_addr,
       at_withdrawals = (if is_canyon cfg (l2_time parent + rc_block_time cfg) then Some [] else None),
       at_transactions = tx # deps @ sb_transactions b, at_no_tx_pool = True,
       at_gas_limit = Some (sc_gas_limit sys)\<rparr>"
    "awp_attributes a = at" "awp_parent a = parent" "aq' = attributes_queue_reset"
    by (rule next_attributes_parts [OF assms(1,2)])
  have len: "length (ae_sig env) = 4" using assms(2) by (simp add: nodes_ok_def)
  have "pl_transactions pl = tx # deps @ sb_transactions b" using assms(4) n(11,12) by simp
  note d = info_tx_decodes [OF n(9) assms(3) n(3,5) len this]
  have refs: "payload_to_block_ref l2 (rc_genesis cfg) pl = Inr
      \<lparr>l2_hash = pl_block_hash pl, l2_number = pl_block_number pl, l2_parent_hash = pl_parent_hash pl,
       l2_time = pl_timestamp pl, l2_l1_origin = \<lparr>bid_hash = sb_epoch_hash b, bid_number = hd_number info\<rparr>,
       l2_sequence_number = seqNum\<rparr>"
    "pl_gas_limit pl = sc_gas_limit sys \<longrightarrow> payload_to_system_config l2 (rc_genesis cfg) pl = Inr sys"
    using d(1) assms(5) n(4) by (simp_all add: payload_to_block_ref_def payload_to_system_config_def told_info_def)
  show ?thesis
    by (rule exI [of _ b], rule exI [of _ info], rule exI [of _ sys], rule exI [of _ seqNum])
       (use n refs d in \<open>auto simp: told_info_def\<close>)
qed

text \<open>A concrete run: the second block of an epoch.\<close>

definition demo_header :: l1_header where
  "demo_header = \<lparr>hd_hash = replicate 32 3, hd_parent_hash = replicate 32 1, hd_number = 17,
     hd_time = 1000, hd_base_fee = 7, hd_mix_digest = replicate 32 5\<rparr>"

definition demo_l1_env :: l1_env where
  "demo_l1_env = \<lparr>l1_by_number = (\<lambda>_. Inl RpcNotFound), l1_by_hash = (\<lambda>_. Inl RpcNotFound),
     l1_fetch_receipts = (\<lambda>_. Inl RpcNotFound),
     l1_info_by_hash = (\<lambda>h. if h = hd_hash demo_header then Inr demo_header else Inl RpcNotFound),
     l1_txs_by_hash = (\<lambda>_. Inl RpcNotFound), l1_sender = (\<lambda>_. None)\<rparr>"

definition demo_attr_env :: attr_env where
  "demo_attr_env = \<lparr>ae_keccak = (\<lambda>_. zero_hash32), ae_enc = (\<lambda>dep. Some (deposit_tx_type # dt_data dep)),
     ae_sig = [1, 93, 142, 185], ae_l1 = demo_l1_env,
     ae_l2_config = (\<lambda>_. Inr (gen_system_config (rc_genesis demo_config)))\<rparr>"

definition demo_l2_env :: l2_env where
  "demo_l2_env = \<lparr>env_txdec = (\<lambda>bs. case bs of [] \<Rightarrow> None | t # d \<Rightarrow> Some (t, d)),
     env_sig = [1, 93, 142, 185], env_l2_ref = (\<lambda>_. None), env_payload = (\<lambda>_. None)\<rparr>"

definition demo_parent :: l2_ref where
  "demo_parent = \<lparr>l2_hash = replicate 32 4, l2_number = 5, l2_parent_hash = replicate 32 2,
     l2_time = 1010, l2_l1_origin = \<lparr>bid_hash = replicate 32 3, bid_number = 17\<rparr>,
     l2_sequence_number = 0\<rparr>"

definition demo_singular :: singular_batch where
  "demo_singular = \<lparr>sb_parent_hash = replicate 32 4, sb_epoch_num = 17, sb_epoch_hash = replicate 32 3,
     sb_timestamp = 1012, sb_transactions = [[2, 1]]\<rparr>"

lemma demo_nodes_ok: "nodes_ok demo_attr_env" "same_deposit_codec demo_attr_env demo_l2_env"
  by (auto simp: nodes_ok_def same_deposit_codec_def demo_attr_env_def demo_l1_env_def demo_l2_env_def
      wf_l1_header_def demo_header_def wf_sys_config_def demo_config_def split: if_splits)

lemma demo_info_tx: "\<exists>tx. l1_info_deposit_bytes demo_attr_env 1 demo_header
    (gen_system_config (rc_genesis demo_config)) True = Some tx"
proof -
  have "\<exists>d. write_uint256 (hd_base_fee demo_header) = Inr d"
    by (simp add: write_uint256_def demo_header_def)
  then show ?thesis
    by (auto simp: l1_info_deposit_bytes_def l1_info_deposit_def marshal_l1_info_def demo_attr_env_def)
qed

lemma demo_prepared:
  "\<exists>at. prepare_payload_attributes demo_attr_env demo_config demo_parent
      \<lparr>bid_hash = replicate 32 3, bid_number = 17\<rparr> = Inr at"
proof -
  obtain tx where tx: "l1_info_deposit_bytes demo_attr_env 1 demo_header
      (gen_system_config (rc_genesis demo_config)) True = Some tx"
    using demo_info_tx by blast
  have e: "epoch_inputs demo_attr_env demo_config demo_parent \<lparr>bid_hash = replicate 32 3, bid_number = 17\<rparr>
      (gen_system_config (rc_genesis demo_config)) =
      Inr (demo_header, [], gen_system_config (rc_genesis demo_config), 1)"
    by (simp add: epoch_inputs_def demo_parent_def demo_attr_env_def demo_l1_env_def demo_header_def)
  have c: "ae_l2_config demo_attr_env h = Inr (gen_system_config (rc_genesis demo_config))" for h
    by (simp add: demo_attr_env_def)
  have t: "l2_time demo_parent + rc_block_time demo_config = 1012"
    by (simp add: demo_parent_def demo_config_def)
  have r: "is_regolith demo_config 1012" by (simp add: is_regolith_def fork_active_def demo_config_def)
  have h: "\<not> 1012 < hd_time demo_header" by (simp add: demo_header_def)
  show ?thesis by (simp add: prepare_payload_attributes_def c e t r h tx)
qed

lemma demo_next_attributes:
  "\<exists>a. next_attributes demo_attr_env demo_config demo_parent (Inr (demo_singular, True))
     attributes_queue_reset = (Inr a, attributes_queue_reset)"
proof -
  have t: "l2_time demo_parent + rc_block_time demo_config = 1012"
    by (simp add: demo_parent_def demo_config_def)
  obtain at where "prepare_payload_attributes demo_attr_env demo_config demo_parent
      \<lparr>bid_hash = sb_epoch_hash demo_singular, bid_number = sb_epoch_num demo_singular\<rparr> = Inr at"
    using demo_prepared by (auto simp: demo_singular_def)
  moreover have "sb_parent_hash demo_singular = l2_hash demo_parent" "sb_timestamp demo_singular = 1012"
    by (simp_all add: demo_singular_def demo_parent_def)
  ultimately show ?thesis
    by (simp add: next_attributes_def attributes_queue_reset_def create_next_attributes_def t)
qed

theorem attributes_carry_origin_witness:
  "\<exists>a pl info. next_attributes demo_attr_env demo_config demo_parent (Inr (demo_singular, True))
       attributes_queue_reset = (Inr a, attributes_queue_reset) \<and>
     pl_transactions pl = at_transactions (awp_attributes a) \<and>
     info_of_payload demo_l2_env pl = Inr info \<and> li_block_hash info = sb_epoch_hash demo_singular \<and>
     li_sequence_number info = 1 \<and>
     payload_to_system_config demo_l2_env (rc_genesis demo_config) pl = Inr (gen_system_config (rc_genesis demo_config))"
proof -
  obtain a where a: "next_attributes demo_attr_env demo_config demo_parent (Inr (demo_singular, True))
     attributes_queue_reset = (Inr a, attributes_queue_reset)"
    using demo_next_attributes by blast
  define pl where "pl = \<lparr>pl_parent_hash = replicate 32 4, pl_prev_randao = replicate 32 5, pl_block_number = 6,
     pl_gas_limit = sc_gas_limit (gen_system_config (rc_genesis demo_config)), pl_timestamp = 1012,
     pl_block_hash = replicate 32 6, pl_withdrawals = Some [],
     pl_transactions = at_transactions (awp_attributes a)\<rparr>"
  have p: "pl_transactions pl = at_transactions (awp_attributes a)"
    "pl_block_number pl \<noteq> bid_number (gen_l2 (rc_genesis demo_config))"
    "pl_gas_limit pl = sc_gas_limit (gen_system_config (rc_genesis demo_config))"
    by (simp_all add: pl_def demo_config_def)
  have q: "aq_batch attributes_queue_reset = None" "bid_number (l2_l1_origin demo_parent) = sb_epoch_num demo_singular"
    "l2_sequence_number demo_parent = 0"
    by (simp_all add: attributes_queue_reset_def demo_parent_def demo_singular_def)
  have same: "config_in_force demo_attr_env demo_config demo_parent
      \<lparr>bid_hash = sb_epoch_hash demo_singular, bid_number = sb_epoch_num demo_singular\<rparr> sys \<Longrightarrow>
      sys = gen_system_config (rc_genesis demo_config)" for sys
    using q(2) by (auto simp: config_in_force_def demo_attr_env_def)
  show ?thesis
    using attributes_carry_origin [OF a demo_nodes_ok p(1,2)] a p q
    by (intro exI [of _ a] exI [of _ pl]) (auto dest!: same)
qed

end
