(* ===== verification/Derive_Sync_Props.thy ===== *)
theory Derive_Sync_Props
  imports Derive_Sync Derive_Stages_Props
begin

text \<open>
  The search for the sync start returns on every well-formed L2 chain, and what it returns lies
  on that chain: the safe head below the unsafe one, with plausible L1 origins between them.
\<close>

section \<open>Well-formed chains\<close>

definition known_block :: "l2_chain \<Rightarrow> l2_ref \<Rightarrow> bool" where
  "known_block l2 n \<longleftrightarrow> lc_unsafe l2 = Inr n \<or> (\<exists>h. lc_by_hash l2 h = Inr n)"

text \<open>Block numbers count along parent hashes, and every block has an L1 origin.\<close>

definition l2_chain_ok :: "l2_chain \<Rightarrow> bool" where
  "l2_chain_ok l2 \<longleftrightarrow>
     (\<forall>n. known_block l2 n \<longrightarrow> bid_hash (l2_l1_origin n) \<noteq> zero_hash32) \<and>
     (\<forall>n p. known_block l2 n \<and> lc_by_hash l2 (l2_parent_hash n) = Inr p \<longrightarrow>
        unat (l2_number n) = unat (l2_number p) + 1)"

definition canonical :: "l1_env \<Rightarrow> l1_ref \<Rightarrow> bool" where
  "canonical l1 b \<longleftrightarrow> l1_by_number l1 (l1_number b) = Inr b"

text \<open>The L1 node answers from one canonical chain.\<close>

definition l1_view_ok :: "l1_env \<Rightarrow> bool" where
  "l1_view_ok l1 \<longleftrightarrow>
     (\<forall>k b. l1_by_number l1 k = Inr b \<longrightarrow> l1_number b = k) \<and>
     (\<forall>b p. canonical l1 b \<and> l1_by_hash l1 (l1_parent_hash b) = Inr p \<longrightarrow>
        canonical l1 p \<and> l1_hash p = l1_parent_hash b)"

definition origin_canonical :: "l1_env \<Rightarrow> l2_ref \<Rightarrow> bool" where
  "origin_canonical l1 n \<longleftrightarrow> (\<exists>b. canonical l1 b \<and> l1_hash b = bid_hash (l2_l1_origin n))"

definition plausible :: "l1_env \<Rightarrow> l2_ref \<Rightarrow> bool" where
  "plausible l1 n \<longleftrightarrow>
     origin_canonical l1 n \<or> l1_by_number l1 (bid_number (l2_l1_origin n)) = Inl RpcNotFound"

text \<open>L1 has another block at the height of the origin.\<close>

definition origin_reorged :: "l1_env \<Rightarrow> l2_ref \<Rightarrow> bool" where
  "origin_reorged l1 n \<longleftrightarrow>
     (\<exists>b. l1_by_number l1 (bid_number (l2_l1_origin n)) = Inr b \<and> l1_hash b \<noteq> bid_hash (l2_l1_origin n))"

fun linked :: "l2_chain \<Rightarrow> l2_ref list \<Rightarrow> bool" where
  "linked l2 (a # b # ns) \<longleftrightarrow> lc_by_hash l2 (l2_parent_hash a) = Inr b \<and> linked l2 (b # ns)"
| "linked l2 ns \<longleftrightarrow> True"

lemma linked_snoc:
  "linked l2 (ns @ [a]) \<Longrightarrow> lc_by_hash l2 (l2_parent_hash a) = Inr b \<Longrightarrow> linked l2 (ns @ [a, b])"
  by (induction l2 ns rule: linked.induct) auto

section \<open>One iteration\<close>

definition walk_inv :: "l1_env \<Rightarrow> l2_chain \<Rightarrow> l2_ref \<Rightarrow> l2_ref list \<Rightarrow> l2_ref list \<Rightarrow> walk \<Rightarrow> bool" where
  "walk_inv l1 l2 start upper lower w \<longleftrightarrow>
     known_block l2 (w_n w) \<and>
     linked l2 (upper @ lower @ [w_n w]) \<and> hd (upper @ lower @ [w_n w]) = start \<and>
     (upper = [] \<or> origin_reorged l1 (last upper)) \<and> (\<forall>m \<in> set lower. plausible l1 m) \<and>
     (if w_unsafe w = zero_l2_ref then lower = [] \<and> w_highest w = zero_l2_ref
      else hd (lower @ [w_n w]) = w_unsafe w) \<and>
     (w_highest w = zero_l2_ref \<or>
        w_highest w \<in> set (upper @ lower @ [w_n w]) \<and> origin_canonical l1 (w_highest w)) \<and>
     (w_l1 w = zero_l1_ref \<or> canonical l1 (w_l1 w)) \<and> (w_ahead w \<longrightarrow> w_l1 w = zero_l1_ref)"

text \<open>After the L1 block was fetched, it tells about the origin of this block.\<close>

definition l1_told :: "l1_env \<Rightarrow> walk \<Rightarrow> bool" where
  "l1_told l1 w \<longleftrightarrow>
     (if w_ahead w then l1_by_number l1 (bid_number (l2_l1_origin (w_n w))) = Inl RpcNotFound
      else canonical l1 (w_l1 w) \<and>
        (l1_hash (w_l1 w) = bid_hash (l2_l1_origin (w_n w)) \<or>
         l1_by_number l1 (bid_number (l2_l1_origin (w_n w))) = Inr (w_l1 w)))"

lemma fetch_l1_inv:
  assumes "walk_inv l1 l2 start upper lower w" "fetch_l1 l1 w = Inr w'" "l2_chain_ok l2" "l1_view_ok l1"
  shows "walk_inv l1 l2 start upper lower w' \<and> l1_told l1 w' \<and> w_n w' = w_n w \<and>
    w_unsafe w' = w_unsafe w \<and> w_highest w' = w_highest w"
proof -
  define orig where "orig = l2_l1_origin (w_n w)"
  have nz: "bid_hash orig \<noteq> zero_hash32"
    using assms(1,3) by (simp add: walk_inv_def l2_chain_ok_def orig_def)
  have z: "l1_parent_hash zero_l1_ref = zero_hash32" by (simp add: zero_l1_ref_def)
  have l1: "w_l1 w = zero_l1_ref \<or> canonical l1 (w_l1 w)" "w_ahead w \<longrightarrow> w_l1 w = zero_l1_ref"
    using assms(1) by (simp_all add: walk_inv_def)
  consider "w' = w" "w_l1 w \<noteq> zero_l1_ref" "l1_hash (w_l1 w) = bid_hash orig"
    | "w' = w\<lparr>w_l1 := zero_l1_ref, w_ahead := True\<rparr>" "l1_by_number l1 (bid_number orig) = Inl RpcNotFound"
    | b where "w' = w\<lparr>w_l1 := b, w_ahead := False\<rparr>" "canonical l1 b"
        "l1_hash b = bid_hash orig \<or> l1_by_number l1 (bid_number orig) = Inr b"
  proof (cases "bid_hash orig = l1_parent_hash (w_l1 w)")
    case True
    then have c: "canonical l1 (w_l1 w)" using nz z l1 by auto
    obtain b where b: "l1_by_hash l1 (bid_hash orig) = Inr b" "w' = w\<lparr>w_l1 := b, w_ahead := False\<rparr>"
      using assms(2) True by (auto simp: fetch_l1_def Let_def orig_def split: sum.splits)
    then have "canonical l1 b" "l1_hash b = bid_hash orig"
      using c assms(4) True unfolding l1_view_ok_def by metis+
    then show ?thesis using that(3) b(2) by blast
  next
    case False
    note F = assms(2) [unfolded fetch_l1_def Let_def orig_def [symmetric]]
    show ?thesis
    proof (cases "w_l1 w = zero_l1_ref \<or> bid_hash orig \<noteq> l1_hash (w_l1 w)")
      case True
      show ?thesis
      proof (cases "l1_by_number l1 (bid_number orig)")
        case (Inl e)
        then show ?thesis using F False True that(2) by (cases e) simp_all
      next
        case (Inr b)
        then have "canonical l1 b" using assms(4) by (auto simp: l1_view_ok_def canonical_def)
        moreover have "w' = w\<lparr>w_l1 := b, w_ahead := False\<rparr>" using F False True Inr by simp
        ultimately show ?thesis using that(3) Inr by blast
      qed
    next
      case False2: False
      then show ?thesis using F False that(1) by simp
    qed
  qed
  then show ?thesis
  proof cases
    case 1
    then show ?thesis using assms(1) l1 by (auto simp: l1_told_def orig_def)
  next
    case 2
    then show ?thesis using assms(1) by (simp add: walk_inv_def l1_told_def orig_def)
  next
    case (3 b)
    then show ?thesis using assms(1) by (simp add: walk_inv_def l1_told_def orig_def)
  qed
qed

lemma set_unsafe_inv:
  assumes "walk_inv l1 l2 start upper lower w" "l1_told l1 w" "set_unsafe cfg prev w = Inr w'" "l2_chain_ok l2"
  shows "walk_inv l1 l2 start upper lower w'" "l1_told l1 w'" "w_n w' = w_n w" "w_unsafe w' \<noteq> zero_l2_ref"
proof -
  have w': "w' = (if w_unsafe w = zero_l2_ref then w\<lparr>w_unsafe := w_n w\<rparr> else w)"
    using assms(3) by (auto simp: set_unsafe_def split: if_splits)
  have "bid_hash (l2_l1_origin (w_n w)) \<noteq> zero_hash32"
    using assms(1,4) by (simp add: walk_inv_def l2_chain_ok_def)
  then have nz: "w_n w \<noteq> zero_l2_ref" by (auto simp: zero_l2_ref_def)
  show "walk_inv l1 l2 start upper lower w'" using assms(1) nz by (auto simp: walk_inv_def w')
  show "l1_told l1 w'" using assms(2) by (simp add: l1_told_def w')
  show "w_n w' = w_n w" "w_unsafe w' \<noteq> zero_l2_ref" using nz by (simp_all add: w')
qed

text \<open>After the comparison: the block's origin is plausible and there is an unsafe head, or L1 has another block.\<close>

definition walk_compared :: "l1_env \<Rightarrow> l2_chain \<Rightarrow> l2_ref \<Rightarrow> l2_ref list \<Rightarrow> l2_ref list \<Rightarrow> walk \<Rightarrow> bool" where
  "walk_compared l1 l2 start upper lower w \<longleftrightarrow>
     linked l2 (upper @ lower @ [w_n w]) \<and> hd (upper @ lower @ [w_n w]) = start \<and>
     (upper = [] \<or> origin_reorged l1 (last upper)) \<and> (\<forall>m \<in> set lower. plausible l1 m) \<and>
     (if w_unsafe w = zero_l2_ref then origin_reorged l1 (w_n w) \<and> w_highest w = zero_l2_ref
      else hd (lower @ [w_n w]) = w_unsafe w \<and> plausible l1 (w_n w)) \<and>
     (w_highest w = zero_l2_ref \<or>
        w_highest w \<in> set (upper @ lower @ [w_n w]) \<and> origin_canonical l1 (w_highest w)) \<and>
     (w_l1 w = zero_l1_ref \<or> canonical l1 (w_l1 w)) \<and> (w_ahead w \<longrightarrow> w_l1 w = zero_l1_ref)"

lemma compare_origin_inv:
  assumes "walk_inv l1 l2 start upper lower w" "l1_told l1 w" "w_unsafe w \<noteq> zero_l2_ref"
  shows "walk_compared l1 l2 start upper lower (compare_origin w)" "w_n (compare_origin w) = w_n w"
proof -
  have k: "w_ahead w \<Longrightarrow> plausible l1 (w_n w)"
    "\<not> w_ahead w \<Longrightarrow> l1_hash (w_l1 w) = bid_hash (l2_l1_origin (w_n w)) \<Longrightarrow> origin_canonical l1 (w_n w)"
    "\<not> w_ahead w \<Longrightarrow> l1_hash (w_l1 w) \<noteq> bid_hash (l2_l1_origin (w_n w)) \<Longrightarrow> origin_reorged l1 (w_n w)"
    using assms(2) by (auto simp: l1_told_def plausible_def origin_canonical_def origin_reorged_def)
  show n: "w_n (compare_origin w) = w_n w" by (simp add: compare_origin_def)
  note i = assms(1) [unfolded walk_inv_def]
  show "walk_compared l1 l2 start upper lower (compare_origin w)"
  proof (cases "w_ahead w \<or> l1_hash (w_l1 w) = bid_hash (l2_l1_origin (w_n w))")
    case True
    then have "plausible l1 (w_n w)" "\<not> w_ahead w \<Longrightarrow> origin_canonical l1 (w_n w)"
      using k by (auto simp: plausible_def)
    then show ?thesis using i assms(3) True by (auto simp: walk_compared_def compare_origin_def)
  next
    case False
    then show ?thesis using i k(3) by (simp add: walk_compared_def compare_origin_def)
  qed
qed

text \<open>What a finished walk tells about its result.\<close>

definition at_finalized :: "heads \<Rightarrow> heads \<Rightarrow> bool" where
  "at_finalized h r \<longleftrightarrow>
     l2_number (h_safe r) = l2_number (h_finalized h) \<and> l2_hash (h_safe r) = l2_hash (h_finalized h)"

definition heads_ok ::
  "l1_env \<Rightarrow> l2_chain \<Rightarrow> rollup_config \<Rightarrow> heads \<Rightarrow> heads \<Rightarrow> bool" where
  "heads_ok l1 l2 cfg h r \<longleftrightarrow>
     h_finalized r = h_finalized h \<and>
     (\<exists>upper lower. linked l2 (upper @ lower @ [h_safe r]) \<and>
        hd (upper @ lower @ [h_safe r]) = h_unsafe h \<and>
        (upper = [] \<or> origin_reorged l1 (last upper)) \<and> (\<forall>m \<in> set lower. plausible l1 m) \<and>
        (if h_unsafe r = zero_l2_ref then at_finalized h r \<and> origin_reorged l1 (h_safe r)
         else h_unsafe r = hd (lower @ [h_safe r]) \<and> (lower = [] \<longrightarrow> plausible l1 (h_safe r))) \<and>
        (at_finalized h r \<or>
         (\<exists>m high. m \<in> set (upper @ lower) \<and> lc_by_hash l2 (l2_parent_hash m) = Inr (h_safe r) \<and>
            l2_sequence_number m = 0 \<and> l2_number m \<le> l2_number (h_safe h) \<and>
            high \<in> set (upper @ lower) \<and> origin_canonical l1 high \<and>
            bid_number (l2_l1_origin m) + rc_seq_window_size cfg < bid_number (l2_l1_origin high))))"

lemma heads_okI:
  assumes "linked l2 (upper @ lower @ [s])" "hd (upper @ lower @ [s]) = h_unsafe h"
    and "upper = [] \<or> origin_reorged l1 (last upper)" "\<forall>m \<in> set lower. plausible l1 m"
    and "(if u = zero_l2_ref then at_finalized h (h\<lparr>h_unsafe := u, h_safe := s\<rparr>) \<and> origin_reorged l1 s
         else u = hd (lower @ [s]) \<and> (lower = [] \<longrightarrow> plausible l1 s))"
    and "at_finalized h (h\<lparr>h_unsafe := u, h_safe := s\<rparr>) \<or>
         (\<exists>m high. m \<in> set (upper @ lower) \<and> lc_by_hash l2 (l2_parent_hash m) = Inr s \<and>
            l2_sequence_number m = 0 \<and> l2_number m \<le> l2_number (h_safe h) \<and>
            high \<in> set (upper @ lower) \<and> origin_canonical l1 high \<and>
            bid_number (l2_l1_origin m) + rc_seq_window_size cfg < bid_number (l2_l1_origin high))"
  shows "heads_ok l1 l2 cfg h (h\<lparr>h_unsafe := u, h_safe := s\<rparr>)"
proof -
  have r: "h_finalized (h\<lparr>h_unsafe := u, h_safe := s\<rparr>) = h_finalized h" "h_safe (h\<lparr>h_unsafe := u, h_safe := s\<rparr>) = s"
    "h_unsafe (h\<lparr>h_unsafe := u, h_safe := s\<rparr>) = u" by simp_all
  show ?thesis unfolding heads_ok_def r
    by (rule conjI, rule refl, rule exI [of _ upper], rule exI [of _ lower]) (intro conjI assms)
qed

lemma window_done:
  assumes "walk_compared l1 l2 (h_unsafe h) upper lower w" "window_covered cfg (h_safe h) w"
    and "lc_by_hash l2 (l2_parent_hash (w_n w)) = Inr parent"
  shows "heads_ok l1 l2 cfg h (h\<lparr>h_unsafe := w_unsafe w, h_safe := parent\<rparr>)"
proof -
  note i = assms(1) [unfolded walk_compared_def]
  have c: "l2_number (w_n w) \<le> l2_number (h_safe h)" "l2_sequence_number (w_n w) = 0"
      "bid_number (l2_l1_origin (w_n w)) + rc_seq_window_size cfg < bid_number (l2_l1_origin (w_highest w))"
    using assms(2) by (simp_all add: window_covered_def)
  then have "w_highest w \<noteq> zero_l2_ref" by (auto simp: zero_l2_ref_def)
  then have h: "w_highest w \<in> set (upper @ lower @ [w_n w])" "origin_canonical l1 (w_highest w)"
      and u: "w_unsafe w \<noteq> zero_l2_ref" "hd (lower @ [w_n w]) = w_unsafe w" "plausible l1 (w_n w)"
    using i by (auto split: if_splits)
  have l: "linked l2 (upper @ (lower @ [w_n w]) @ [parent])"
    using i assms(3) linked_snoc [of l2 "upper @ lower" "w_n w" parent] by simp
  have hds: "hd (upper @ (lower @ [w_n w]) @ [parent]) = h_unsafe h" "hd ((lower @ [w_n w]) @ [parent]) = w_unsafe w"
    using i u(2) by (cases upper; cases lower; simp)+
  have reorged: "upper = [] \<or> origin_reorged l1 (last upper)" and pl: "\<forall>m \<in> set (lower @ [w_n w]). plausible l1 m"
    using i u(3) by auto
  have w: "\<exists>m high. m \<in> set (upper @ lower @ [w_n w]) \<and> lc_by_hash l2 (l2_parent_hash m) = Inr parent \<and>
      l2_sequence_number m = 0 \<and> l2_number m \<le> l2_number (h_safe h) \<and>
      high \<in> set (upper @ lower @ [w_n w]) \<and> origin_canonical l1 high \<and>
      bid_number (l2_l1_origin m) + rc_seq_window_size cfg < bid_number (l2_l1_origin high)"
    using c h assms(3) by (intro exI [of _ "w_n w"] exI [of _ "w_highest w"]) simp
  show ?thesis
    by (rule heads_okI [of l2 upper "lower @ [w_n w]"]) (use l hds reorged pl w u(1) in simp_all)
qed

lemma finalized_done:
  assumes "walk_compared l1 l2 (h_unsafe h) upper lower w"
    and "l2_number (w_n w) = l2_number (h_finalized h)" "l2_hash (w_n w) = l2_hash (h_finalized h)"
  shows "heads_ok l1 l2 cfg h (h\<lparr>h_unsafe := w_unsafe w, h_safe := w_n w\<rparr>)"
proof -
  note i = assms(1) [unfolded walk_compared_def]
  have fin: "at_finalized h (h\<lparr>h_unsafe := w_unsafe w, h_safe := w_n w\<rparr>)"
    using assms(2,3) by (simp add: at_finalized_def)
  then have u: "if w_unsafe w = zero_l2_ref
      then at_finalized h (h\<lparr>h_unsafe := w_unsafe w, h_safe := w_n w\<rparr>) \<and> origin_reorged l1 (w_n w)
      else w_unsafe w = hd (lower @ [w_n w]) \<and> (lower = [] \<longrightarrow> plausible l1 (w_n w))"
    using i by (cases "w_unsafe w = zero_l2_ref") simp_all
  show ?thesis
    by (rule heads_okI [of l2 upper lower, OF _ _ _ _ u disjI1 [OF fin]]) (use i in simp_all)
qed

lemma walk_on:
  assumes "walk_compared l1 l2 start upper lower w" "lc_by_hash l2 (l2_parent_hash (w_n w)) = Inr parent"
  shows "\<exists>upper' lower'. walk_inv l1 l2 start upper' lower' (w\<lparr>w_n := parent\<rparr>)"
proof -
  note i = assms(1) [unfolded walk_compared_def]
  have k: "known_block l2 parent" using assms(2) by (auto simp: known_block_def)
  have l: "linked l2 (upper @ lower @ [w_n w, parent])"
    using i assms(2) linked_snoc [of l2 "upper @ lower" "w_n w" parent] by simp
  have hds: "hd (upper @ lower @ [w_n w, parent]) = start" "hd (lower @ [w_n w, parent]) = hd (lower @ [w_n w])"
    using i by (cases upper; cases lower; simp)+
  show ?thesis
  proof (cases "w_unsafe w = zero_l2_ref")
    case True
    then have "walk_inv l1 l2 start (upper @ lower @ [w_n w]) [] (w\<lparr>w_n := parent\<rparr>)"
      using i k l hds by (simp add: walk_inv_def)
    then show ?thesis by blast
  next
    case False
    then have "walk_inv l1 l2 start upper (lower @ [w_n w]) (w\<lparr>w_n := parent\<rparr>)"
      using i k l hds by (auto simp: walk_inv_def)
    then show ?thesis by blast
  qed
qed

lemma walk_parent_ok:
  assumes "walk_compared l1 l2 (h_unsafe h) upper lower w" "walk_parent l2 cfg h w = Inr out"
  shows "(\<exists>r. out = WalkDone r \<and> heads_ok l1 l2 cfg h r) \<or>
    (\<exists>w' upper' lower'. out = WalkOn w' \<and> walk_inv l1 l2 (h_unsafe h) upper' lower' w' \<and>
       lc_by_hash l2 (l2_parent_hash (w_n w)) = Inr (w_n w'))"
proof -
  obtain parent where parent: "lc_by_hash l2 (l2_parent_hash (w_n w)) = Inr parent"
      "out = (if window_covered cfg (h_safe h) w
          then WalkDone (h\<lparr>h_unsafe := w_unsafe w, h_safe := parent\<rparr>)
          else WalkOn (w\<lparr>w_n := parent\<rparr>))"
    using assms(2) by (auto simp: walk_parent_def rbind_eq_Inr split: sum.splits if_splits)
  show ?thesis
  proof (cases "window_covered cfg (h_safe h) w")
    case True
    then show ?thesis using window_done [OF assms(1) True parent(1)] parent(2) by simp
  next
    case False
    then show ?thesis using walk_on [OF assms(1) parent(1)] parent by auto
  qed
qed

lemma walk_step_cases:
  assumes "walk_inv l1 l2 (h_unsafe h) upper lower w" "l2_chain_ok l2" "l1_view_ok l1"
    and "walk_step l1 l2 cfg False h w = Inr out"
  shows "(\<exists>r. out = WalkDone r \<and> heads_ok l1 l2 cfg h r) \<or>
    (\<exists>w' upper' lower'. out = WalkOn w' \<and> walk_inv l1 l2 (h_unsafe h) upper' lower' w' \<and>
       lc_by_hash l2 (l2_parent_hash (w_n w)) = Inr (w_n w') \<and>
       l2_number (w_n w) \<noteq> l2_number (h_finalized h))"
proof -
  obtain w1 w2 where w: "fetch_l1 l1 w = Inr w1" "check_walk cfg (h_finalized h) w1 = Inr ()"
      "set_unsafe cfg (h_unsafe h) w1 = Inr w2"
    using assms(4) by (auto simp: walk_step_def rbind_eq_Inr)
  note f = fetch_l1_inv [OF assms(1) w(1) assms(2,3)]
  note i2 = set_unsafe_inv [OF conjunct1 [OF f] _ w(3) assms(2)]
  define w3 where "w3 = compare_origin w2"
  have told: "l1_told l1 w1" using f by simp
  note i3 = compare_origin_inv [OF i2(1) [OF told] i2(2) [OF told] i2(4) [OF told], folded w3_def]
  have n: "w_n w3 = w_n w" using i3(2) i2(3) [OF told] f by simp
  have o: "walk_step l1 l2 cfg False h w =
      (if l2_number (w_n w) = l2_number (h_finalized h)
       then Inr (WalkDone (h\<lparr>h_unsafe := w_unsafe w3, h_safe := w_n w\<rparr>))
       else walk_parent l2 cfg h w3)"
    unfolding walk_step_def Let_def w rbind_simps w3_def [symmetric] n by simp
  show ?thesis
  proof (cases "l2_number (w_n w) = l2_number (h_finalized h)")
    case True
    then have out: "out = WalkDone (h\<lparr>h_unsafe := w_unsafe w3, h_safe := w_n w\<rparr>)"
      using assms(4) by (simp add: o)
    have eq: "l2_hash (w_n w) = l2_hash (h_finalized h)"
      using w(2) True f by (auto simp: check_walk_def Let_def split: if_splits)
    have "heads_ok l1 l2 cfg h (h\<lparr>h_unsafe := w_unsafe w3, h_safe := w_n w\<rparr>)"
      using finalized_done [OF i3(1), of cfg] True eq n by simp
    then show ?thesis using out by simp
  next
    case False
    then have "walk_parent l2 cfg h w3 = Inr out"
      using assms(4) by (simp add: o)
    from walk_parent_ok [OF i3(1) this] show ?thesis using n False by simp
  qed
qed

lemma walk_back_ok:
  assumes "walk_inv l1 l2 (h_unsafe h) upper lower w" "l2_chain_ok l2" "l1_view_ok l1"
    and "l2_number (h_finalized h) \<le> l2_number (w_n w)"
  shows "\<exists>res. walk_back l1 l2 cfg False h w = Some res \<and> (\<forall>r. res = Inr r \<longrightarrow> heads_ok l1 l2 cfg h r)"
  using assms(1,4)
proof (induction "unat (l2_number (w_n w))" arbitrary: w upper lower rule: less_induct)
  case less
  show ?case
  proof (cases "walk_step l1 l2 cfg False h w")
    case (Inl e)
    then show ?thesis by (subst walk_back.simps) simp
  next
    case (Inr out)
    consider r where "out = WalkDone r" "heads_ok l1 l2 cfg h r"
      | w' upper' lower' where "out = WalkOn w'" "walk_inv l1 l2 (h_unsafe h) upper' lower' w'"
        "lc_by_hash l2 (l2_parent_hash (w_n w)) = Inr (w_n w')"
        "l2_number (w_n w) \<noteq> l2_number (h_finalized h)"
      using walk_step_cases [OF less.prems(1) assms(2,3) Inr] by blast
    then show ?thesis
    proof cases
      case 1
      then show ?thesis using Inr by (subst walk_back.simps) simp
    next
      case 2
      have "known_block l2 (w_n w)" using less.prems(1) by (simp add: walk_inv_def)
      then have s: "unat (l2_number (w_n w)) = unat (l2_number (w_n w')) + 1"
        using assms(2) 2(3) by (simp add: l2_chain_ok_def)
      moreover have "unat (l2_number (w_n w)) \<noteq> unat (l2_number (h_finalized h))"
        using 2(4) by (simp add: word_unat_eq_iff)
      ultimately have "l2_number (h_finalized h) \<le> l2_number (w_n w')"
        using less.prems(2) by (simp add: word_le_nat_alt)
      then show ?thesis using less.hyps [OF _ 2(2)] s Inr 2(1) by (subst walk_back.simps) simp
    qed
  qed
qed

text \<open>C29. The search for the sync start always returns, on every L2 chain whose numbers count
  along parent hashes and whose unsafe head is not below the finalized one, with an L1 node that answers from one chain,
  and without the option to skip checks, with which it may not return. When it returns heads: the finalized head is
  unchanged; the safe head lies on the chain of the old unsafe head and is the finalized block itself, or the
  parent of the first block of an epoch that is not above the old safe head and is more than a
  sequencing window of L1 blocks older than a block seen of canonical origin; and the unsafe
  head is the highest block of that chain such that from it down to the one above the safe head every L1 origin is
  canonical or not visible yet: it is the old unsafe head, or L1 has another block at the origin's height of the block right
  above it. There is one exception, against the description of the function: the unsafe head may be left unset, but only
  when the safe head is the finalized block and L1 has another block at the height of that block's own origin.\<close>

theorem find_heads_sound:
  assumes "current_heads cfg l2 = Inr h" "l2_chain_ok l2" "l1_view_ok l1"
    and "l2_number (h_finalized h) \<le> l2_number (h_unsafe h)"
  shows "\<exists>res. find_l2_heads l1 l2 cfg False = Some res \<and>
    (\<forall>r. res = Inr r \<longrightarrow>
       h_finalized r = h_finalized h \<and>
       (\<exists>upper lower. linked l2 (upper @ lower @ [h_safe r]) \<and>
          hd (upper @ lower @ [h_safe r]) = h_unsafe h \<and>
          (upper = [] \<or> origin_reorged l1 (last upper)) \<and> (\<forall>m \<in> set lower. plausible l1 m) \<and>
          (if h_unsafe r = zero_l2_ref
           then l2_number (h_safe r) = l2_number (h_finalized h) \<and> l2_hash (h_safe r) = l2_hash (h_finalized h) \<and>
             origin_reorged l1 (h_safe r)
           else h_unsafe r = hd (lower @ [h_safe r]) \<and> (lower = [] \<longrightarrow> plausible l1 (h_safe r))) \<and>
          (l2_number (h_safe r) = l2_number (h_finalized h) \<and> l2_hash (h_safe r) = l2_hash (h_finalized h) \<or>
           (\<exists>m high. m \<in> set (upper @ lower) \<and> lc_by_hash l2 (l2_parent_hash m) = Inr (h_safe r) \<and>
              l2_sequence_number m = 0 \<and> l2_number m \<le> l2_number (h_safe h) \<and>
              high \<in> set (upper @ lower) \<and> origin_canonical l1 high \<and>
              bid_number (l2_l1_origin m) + rc_seq_window_size cfg < bid_number (l2_l1_origin high)))))"
proof -
  have "known_block l2 (h_unsafe h)"
    using assms(1) by (auto simp: current_heads_def known_block_def split: sum.splits if_splits)
  moreover from this have "h_unsafe h \<noteq> zero_l2_ref" using assms(2) by (auto simp: l2_chain_ok_def zero_l2_ref_def)
  ultimately have "walk_inv l1 l2 (h_unsafe h) [] [] (start_walk h)"
    by (simp add: walk_inv_def start_walk_def)
  then obtain res where "walk_back l1 l2 cfg False h (start_walk h) = Some res"
      "\<forall>r. res = Inr r \<longrightarrow> heads_ok l1 l2 cfg h r"
    using walk_back_ok [of l1 l2 h "[]" "[]" "start_walk h"] assms(2,3,4) by (auto simp: start_walk_def)
  moreover from this have "find_l2_heads l1 l2 cfg False = Some res" using assms(1) by (simp add: find_l2_heads_def)
  ultimately show ?thesis unfolding heads_ok_def at_finalized_def conj_assoc by blast
qed

section \<open>Concrete walks\<close>

definition demo_genesis_ref :: l2_ref where
  "demo_genesis_ref = \<lparr>l2_hash = replicate 32 2, l2_number = 0, l2_parent_hash = replicate 32 9,
     l2_time = 1000, l2_l1_origin = \<lparr>bid_hash = replicate 32 1, bid_number = 10\<rparr>,
     l2_sequence_number = 0\<rparr>"

definition demo_block1 :: l2_ref where
  "demo_block1 = \<lparr>l2_hash = replicate 32 4, l2_number = 1, l2_parent_hash = replicate 32 2,
     l2_time = 1002, l2_l1_origin = \<lparr>bid_hash = replicate 32 1, bid_number = 10\<rparr>,
     l2_sequence_number = 1\<rparr>"

definition demo_l1_block :: "byte \<Rightarrow> l1_ref" where
  "demo_l1_block x = \<lparr>l1_hash = replicate 32 x, l1_number = 10, l1_parent_hash = replicate 32 8, l1_time = 990\<rparr>"

definition demo_l1_view :: "byte \<Rightarrow> l1_env" where
  "demo_l1_view x = demo_l1_env\<lparr>l1_by_number := (\<lambda>k. if k = 10 then Inr (demo_l1_block x) else Inl RpcNotFound)\<rparr>"

definition demo_chain :: "rpc_err + l2_ref \<Rightarrow> rpc_err + l2_ref \<Rightarrow> l2_chain" where
  "demo_chain fin safe = \<lparr>lc_finalized = fin, lc_safe = safe, lc_unsafe = Inr demo_block1,
     lc_by_hash = (\<lambda>h. if h = l2_hash demo_genesis_ref then Inr demo_genesis_ref else Inl RpcNotFound)\<rparr>"

lemmas demo_chain_simps =
  demo_chain_def demo_block1_def demo_genesis_ref_def demo_l1_view_def demo_l1_block_def demo_l1_env_def
  demo_config_def

lemma demo_chain_ok: "l2_chain_ok (demo_chain fin safe)" "l1_view_ok (demo_l1_view 1)"
proof -
  have k: "known_block (demo_chain fin safe) n \<Longrightarrow> n = demo_block1 \<or> n = demo_genesis_ref" for n
    by (auto simp: known_block_def demo_chain_def split: if_splits)
  have u: "(0 :: u64) + 1 = 1" by simp
  have "bid_hash (l2_l1_origin n) \<noteq> zero_hash32" if "known_block (demo_chain fin safe) n" for n
    using k [OF that] by (auto simp: demo_block1_def demo_genesis_ref_def)
  moreover have "unat (l2_number n) = unat (l2_number p) + 1"
    if "known_block (demo_chain fin safe) n" "lc_by_hash (demo_chain fin safe) (l2_parent_hash n) = Inr p" for n p
    using k [OF that(1)] that(2)
    by (auto simp: demo_chain_def demo_block1_def demo_genesis_ref_def split: if_splits)
  ultimately show "l2_chain_ok (demo_chain fin safe)" by (auto simp: l2_chain_ok_def)
  show "l1_view_ok (demo_l1_view 1)"
    by (auto simp: l1_view_ok_def canonical_def demo_l1_view_def demo_l1_block_def demo_l1_env_def split: if_splits)
qed

lemma demo_walk:
  "find_l2_heads (demo_l1_view 1) (demo_chain (Inl RpcNotFound) (Inl RpcNotFound)) demo_config False =
     Some (Inr \<lparr>h_unsafe = demo_block1, h_safe = demo_genesis_ref, h_finalized = demo_genesis_ref\<rparr>)"
proof -
  define h where "h = \<lparr>h_unsafe = demo_block1, h_safe = demo_genesis_ref, h_finalized = demo_genesis_ref\<rparr>"
  define w where "w = \<lparr>w_n = demo_block1, w_highest = demo_block1, w_l1 = demo_l1_block 1, w_ahead = False,
     w_unsafe = demo_block1\<rparr>"
  define l2 where "l2 = demo_chain (Inl RpcNotFound) (Inl RpcNotFound)"
  have c: "current_heads demo_config l2 = Inr h"
    by (simp add: l2_def current_heads_def demo_chain_def demo_config_def demo_genesis_ref_def h_def)
  have nz: "demo_block1 \<noteq> zero_l2_ref" "demo_l1_block 1 \<noteq> zero_l1_ref"
    by (simp_all add: demo_block1_def zero_l2_ref_def demo_l1_block_def zero_l1_ref_def)
  have b: "l2_number demo_block1 \<noteq> l2_number demo_genesis_ref" "l2_number demo_block1 \<noteq> 0"
    "bid_hash (l2_l1_origin demo_block1) = l1_hash (demo_l1_block 1)"
    "bid_hash (l2_l1_origin demo_block1) \<noteq> l1_parent_hash (demo_l1_block 1)"
    "bid_hash (l2_l1_origin demo_block1) \<noteq> l1_parent_hash zero_l1_ref"
    "l1_by_number (demo_l1_view 1) (bid_number (l2_l1_origin demo_block1)) = Inr (demo_l1_block 1)"
    "bid_number (gen_l2 (rc_genesis demo_config)) = 0"
    by (simp_all add: demo_block1_def demo_genesis_ref_def demo_l1_block_def zero_l1_ref_def
        demo_l1_view_def demo_config_def)
  have g: "l2_l1_origin demo_genesis_ref = l2_l1_origin demo_block1" "l2_number demo_genesis_ref = 0"
    "l2_hash demo_genesis_ref = bid_hash (gen_l2 (rc_genesis demo_config))"
    "l1_hash (demo_l1_block 1) = bid_hash (gen_l1 (rc_genesis demo_config))"
    "l2_sequence_number demo_genesis_ref + 1 = l2_sequence_number demo_block1"
    "lc_by_hash l2 (l2_parent_hash demo_block1) = Inr demo_genesis_ref" "l2_sequence_number demo_block1 \<noteq> 0"
    by (simp_all add: demo_block1_def demo_genesis_ref_def demo_l1_block_def demo_config_def l2_def demo_chain_def)
  let ?wg = "w\<lparr>w_n := demo_genesis_ref\<rparr>"
  have f: "fetch_l1 (demo_l1_view 1) (start_walk h) = Inr (w\<lparr>w_highest := zero_l2_ref\<rparr>)"
    "fetch_l1 (demo_l1_view 1) ?wg = Inr ?wg"
    using b nz g by (simp_all add: fetch_l1_def start_walk_def h_def w_def Let_def)
  have k: "check_walk demo_config demo_genesis_ref v = Inr ()" if "w_n v = demo_block1" for v
    using b that by (simp add: check_walk_def Let_def)
  have kg: "check_walk demo_config demo_genesis_ref ?wg = Inr ()"
    using b g by (simp add: check_walk_def Let_def w_def)
  have "check_parent w demo_genesis_ref = Inr ()" "\<not> window_covered demo_config demo_genesis_ref w"
    using g by (simp_all add: check_parent_def w_def Let_def window_covered_def)
  then have "walk_parent l2 demo_config h w = Inr (WalkOn ?wg)"
    using g(6) by (simp add: walk_parent_def w_def h_def)
  then have "walk_step (demo_l1_view 1) l2 demo_config False h (start_walk h) = Inr (WalkOn ?wg)"
    using f(1) k nz b by (simp add: walk_step_def h_def set_unsafe_def compare_origin_def w_def)
  moreover have "walk_step (demo_l1_view 1) l2 demo_config False h ?wg = Inr (WalkDone h)"
    using f(2) kg nz b g by (simp add: walk_step_def h_def set_unsafe_def compare_origin_def w_def)
  ultimately show ?thesis
    unfolding l2_def [symmetric] find_l2_heads_def c h_def [symmetric]
    by (simp add: walk_back.simps [of _ _ _ _ _ "start_walk h"] walk_back.simps [of _ _ _ _ _ ?wg])
qed

theorem find_heads_sound_witness:
  "\<exists>r upper lower. find_l2_heads (demo_l1_view 1) (demo_chain (Inl RpcNotFound) (Inl RpcNotFound)) demo_config False =
       Some (Inr r) \<and>
     h_unsafe r = hd (lower @ [h_safe r]) \<and> h_safe r = demo_genesis_ref \<and> (\<forall>m \<in> set lower. plausible (demo_l1_view 1) m) \<and>
     hd (upper @ lower @ [h_safe r]) = demo_block1"
proof -
  have "current_heads demo_config (demo_chain (Inl RpcNotFound) (Inl RpcNotFound)) =
      Inr \<lparr>h_unsafe = demo_block1, h_safe = demo_genesis_ref, h_finalized = demo_genesis_ref\<rparr>"
    by (simp add: current_heads_def demo_chain_def demo_config_def demo_genesis_ref_def)
  moreover have "demo_block1 \<noteq> zero_l2_ref" "l2_number demo_genesis_ref \<le> l2_number demo_block1"
    by (simp_all add: demo_block1_def zero_l2_ref_def demo_genesis_ref_def)
  ultimately show ?thesis
    using find_heads_sound [OF _ demo_chain_ok, of demo_config "Inl RpcNotFound" "Inl RpcNotFound"]
    by (auto simp: demo_walk)
qed

text \<open>
  A walk that steps to itself does not end. With the option to skip checks, that is what
  happens when the safe head is the unsafe head and above the finalized one: the jump to
  the safe head stays where it is.
\<close>

lemma walk_back_stuck:
  assumes "walk_step l1 l2 cfg sk h w = Inr (WalkOn w)"
  shows "walk_back l1 l2 cfg sk h w = None"
proof -
  have "walk_step l1 l2 cfg sk h w \<noteq> Inr (WalkOn w)" if "walk_back l1 l2 cfg sk h w = Some y" for y
    by (rule walk_back.raw_induct
          [where P = "\<lambda>l1 l2 cfg sk h w y. walk_step l1 l2 cfg sk h w \<noteq> Inr (WalkOn w)", OF _ that])
       (auto split: sum.splits walk_result.splits)
  then show ?thesis using assms by (cases "walk_back l1 l2 cfg sk h w") auto
qed

lemma skip_check_diverges:
  "find_l2_heads (demo_l1_view 1) (demo_chain (Inl RpcNotFound) (Inr demo_block1)) demo_config True = None"
proof -
  define h where "h = \<lparr>h_unsafe = demo_block1, h_safe = demo_block1, h_finalized = demo_genesis_ref\<rparr>"
  define w where "w = \<lparr>w_n = demo_block1, w_highest = demo_block1, w_l1 = demo_l1_block 1, w_ahead = False,
     w_unsafe = demo_block1\<rparr>"
  define l2 where "l2 = demo_chain (Inl RpcNotFound) (Inr demo_block1)"
  have c: "current_heads demo_config l2 = Inr h"
    by (simp add: l2_def current_heads_def demo_chain_def demo_config_def demo_genesis_ref_def h_def)
  have nz: "demo_block1 \<noteq> zero_l2_ref" "demo_l1_block 1 \<noteq> zero_l1_ref"
    by (simp_all add: demo_block1_def zero_l2_ref_def demo_l1_block_def zero_l1_ref_def)
  have b: "l2_number demo_block1 \<noteq> l2_number demo_genesis_ref" "l2_number demo_block1 \<noteq> 0"
    "bid_hash (l2_l1_origin demo_block1) = l1_hash (demo_l1_block 1)"
    "bid_hash (l2_l1_origin demo_block1) \<noteq> l1_parent_hash (demo_l1_block 1)"
    "bid_hash (l2_l1_origin demo_block1) \<noteq> l1_parent_hash zero_l1_ref"
    "l1_by_number (demo_l1_view 1) (bid_number (l2_l1_origin demo_block1)) = Inr (demo_l1_block 1)"
    "bid_number (gen_l2 (rc_genesis demo_config)) = 0"
    by (simp_all add: demo_block1_def demo_genesis_ref_def demo_l1_block_def zero_l1_ref_def
        demo_l1_view_def demo_config_def)
  have f: "fetch_l1 (demo_l1_view 1) (start_walk h) = Inr (w\<lparr>w_highest := zero_l2_ref\<rparr>)"
    "fetch_l1 (demo_l1_view 1) w = Inr w"
    using b nz by (simp_all add: fetch_l1_def start_walk_def h_def w_def Let_def)
  have k: "check_walk demo_config demo_genesis_ref v = Inr ()" if "w_n v = demo_block1" for v
    using b that by (simp add: check_walk_def Let_def)
  have "walk_step (demo_l1_view 1) l2 demo_config True h (start_walk h) = Inr (WalkOn w)"
    using f(1) k nz b by (simp add: walk_step_def h_def set_unsafe_def compare_origin_def w_def)
  moreover have "walk_step (demo_l1_view 1) l2 demo_config True h w = Inr (WalkOn w)"
    using f(2) k nz b by (simp add: walk_step_def h_def set_unsafe_def compare_origin_def w_def)
  ultimately show ?thesis
    using walk_back_stuck by (simp add: find_l2_heads_def c walk_back.simps [of _ _ _ _ _ "start_walk h"] flip: l2_def)
qed

text \<open>When the finalized block's own origin is not canonical, the walk returns without an error,
  but with the zero reference for the unsafe head.\<close>

lemma unsafe_head_lost:
  "\<exists>r. find_l2_heads (demo_l1_view 7) (demo_chain (Inr demo_block1) (Inr demo_block1)) demo_config False = Some (Inr r) \<and>
     h_unsafe r = zero_l2_ref \<and> h_safe r = demo_block1"
proof -
  define h where "h = \<lparr>h_unsafe = demo_block1, h_safe = demo_block1, h_finalized = demo_block1\<rparr>"
  define w where "w = \<lparr>w_n = demo_block1, w_highest = zero_l2_ref, w_l1 = demo_l1_block 7, w_ahead = False,
     w_unsafe = demo_block1\<rparr>"
  define l2 where "l2 = demo_chain (Inr demo_block1) (Inr demo_block1)"
  have c: "current_heads demo_config l2 = Inr h" by (simp add: l2_def current_heads_def demo_chain_def h_def)
  have nz: "demo_block1 \<noteq> zero_l2_ref" by (simp add: demo_block1_def zero_l2_ref_def)
  have b: "l2_number demo_block1 \<noteq> 0" "bid_hash (l2_l1_origin demo_block1) \<noteq> l1_hash (demo_l1_block 7)"
    "bid_hash (l2_l1_origin demo_block1) \<noteq> l1_parent_hash zero_l1_ref"
    "l1_by_number (demo_l1_view 7) (bid_number (l2_l1_origin demo_block1)) = Inr (demo_l1_block 7)"
    "bid_number (gen_l2 (rc_genesis demo_config)) = 0"
    by (simp_all add: demo_block1_def demo_l1_block_def zero_l1_ref_def demo_l1_view_def demo_config_def)
  have f: "fetch_l1 (demo_l1_view 7) (start_walk h) = Inr w"
    using b by (simp add: fetch_l1_def start_walk_def h_def w_def Let_def)
  have "check_walk demo_config demo_block1 w = Inr ()" using b by (simp add: check_walk_def w_def Let_def)
  then have "walk_step (demo_l1_view 7) l2 demo_config False h (start_walk h) =
      Inr (WalkDone (h\<lparr>h_unsafe := zero_l2_ref\<rparr>))"
    using f nz b(2) [symmetric] by (simp add: walk_step_def h_def set_unsafe_def compare_origin_def w_def)
  then show ?thesis
    by (simp add: find_l2_heads_def c walk_back.simps [of _ _ _ _ _ "start_walk h"] flip: l2_def) (simp add: h_def)
qed

end
