(* ===== verification/Derive_Engine_Props.thy ===== *)
theory Derive_Engine_Props
  imports Derive_Pipeline Derive_Sync_Props
begin

text \<open>
  What the engine queue guarantees: the safe head moves only with the last block of a span,
  only blocks derived from finalized L1 data are finalized, and its buffers stay bounded.
\<close>

section \<open>What the operations leave alone\<close>

lemma pop_unsafe_fields [simp]:
  "eq_safe_head (pop_unsafe q) = eq_safe_head q"
  "eq_pending_safe_head (pop_unsafe q) = eq_pending_safe_head q"
  "eq_finalized (pop_unsafe q) = eq_finalized q"
  "eq_finality_data (pop_unsafe q) = eq_finality_data q"
  "eq_safe_attributes (pop_unsafe q) = eq_safe_attributes q"
  "eq_finalized_l1 (pop_unsafe q) = eq_finalized_l1 q"
  "eq_need_forkchoice_update (pop_unsafe q) = eq_need_forkchoice_update q"
  "eq_unsafe_payloads (pop_unsafe q) = snd (payloads_pop (eq_unsafe_payloads q))"
  by (simp_all add: pop_unsafe_def)

lemma post_process_fields [simp]:
  "eq_safe_head (post_process_safe_l2 q) = eq_safe_head q"
  "eq_pending_safe_head (post_process_safe_l2 q) = eq_pending_safe_head q"
  "eq_finalized (post_process_safe_l2 q) = eq_finalized q"
  "eq_safe_attributes (post_process_safe_l2 q) = eq_safe_attributes q"
  "eq_finalized_l1 (post_process_safe_l2 q) = eq_finalized_l1 q"
  "eq_unsafe_payloads (post_process_safe_l2 q) = eq_unsafe_payloads q"
  by (simp_all add: post_process_safe_l2_def Let_def)

lemma reset_building_fields [simp]:
  "eq_safe_head (reset_building_state q) = eq_safe_head q"
  "eq_pending_safe_head (reset_building_state q) = eq_pending_safe_head q"
  "eq_finalized (reset_building_state q) = eq_finalized q"
  "eq_finality_data (reset_building_state q) = eq_finality_data q"
  "eq_safe_attributes (reset_building_state q) = eq_safe_attributes q"
  "eq_finalized_l1 (reset_building_state q) = eq_finalized_l1 q"
  "eq_unsafe_payloads (reset_building_state q) = eq_unsafe_payloads q"
  by (simp_all add: reset_building_state_def)

text \<open>The part of the state an operation on unsafe payloads keeps.\<close>

definition same_safe :: "engine_queue \<Rightarrow> engine_queue \<Rightarrow> bool" where
  "same_safe q q' \<longleftrightarrow>
     eq_safe_head q' = eq_safe_head q \<and> eq_pending_safe_head q' = eq_pending_safe_head q \<and>
     eq_finalized q' = eq_finalized q \<and> eq_finality_data q' = eq_finality_data q \<and>
     eq_safe_attributes q' = eq_safe_attributes q \<and> eq_finalized_l1 q' = eq_finalized_l1 q"

definition same_payloads :: "engine_queue \<Rightarrow> engine_queue \<Rightarrow> bool" where
  "same_payloads q q' \<longleftrightarrow>
     eq_unsafe_payloads q' = eq_unsafe_payloads q \<or>
     eq_unsafe_payloads q' = snd (payloads_pop (eq_unsafe_payloads q))"

lemma try_update_same:
  "try_update_engine eng q e = (r, q', e') \<Longrightarrow> same_safe q q' \<and> same_payloads q q'"
  by (auto simp: try_update_engine_def same_safe_def same_payloads_def split: prod.splits sum.splits)

lemma mark_unsafe_same:
  "mark_unsafe_valid env first ref q e = (r, q', e') \<Longrightarrow> same_safe q q' \<and> same_payloads q q'"
  by (auto simp: mark_unsafe_valid_def same_safe_def same_payloads_def split: prod.splits sum.splits if_splits)

lemma insert_unsafe_same:
  "insert_unsafe env first q e = (r, q', e') \<Longrightarrow> same_safe q q' \<and> same_payloads q q'"
  using mark_unsafe_same [of env first _ q]
  by (auto simp: insert_unsafe_def split: sum.splits prod.splits if_splits)
     (auto simp: same_safe_def same_payloads_def)

lemma try_next_unsafe_same:
  "try_next_unsafe_payload env q e = (r, q', e') \<Longrightarrow> same_safe q q' \<and> same_payloads q q'"
  using insert_unsafe_same [of env _ q e]
  by (auto simp: try_next_unsafe_payload_def split: option.splits if_splits)
     (auto simp: same_safe_def same_payloads_def)

lemma start_payload_same:
  "queue_start_payload env parent attrs s q e = (r, q', e') \<Longrightarrow> same_safe q q' \<and> same_payloads q q'"
  by (auto simp: queue_start_payload_def same_safe_def same_payloads_def split: prod.splits sum.splits if_splits)

lemma cancel_payload_same:
  "queue_cancel_payload env f q e = (r, q', e') \<Longrightarrow> same_safe q q' \<and> same_payloads q q'"
  by (auto simp: queue_cancel_payload_def same_safe_def same_payloads_def split: prod.splits sum.splits if_splits)

lemma same_safe_trans: "same_safe q q1 \<Longrightarrow> same_safe q1 q2 \<Longrightarrow> same_safe q q2"
  by (simp add: same_safe_def)

section \<open>Finality data\<close>

abbreviation fd_number :: "finality_data \<Rightarrow> nat" where
  "fd_number fd \<equiv> unat (bid_number (fd_l1_block fd))"

definition finality_ok :: "finality_data list \<Rightarrow> bool" where
  "finality_ok data \<longleftrightarrow>
     length data \<le> finality_lookback \<and> sorted_wrt (<) (map fd_number data)"

lemma sorted_wrt_snoc:
  "sorted_wrt (<) (xs @ [x :: nat]) \<longleftrightarrow> sorted_wrt (<) xs \<and> (xs = [] \<or> last xs < x)"
  by (induction xs rule: rev_induct) (auto simp: sorted_wrt_append)

lemma finality_ok_post_process:
  assumes "finality_ok (eq_finality_data q)"
  shows "finality_ok (eq_finality_data (post_process_safe_l2 q))"
proof -
  define data where "data = (if length (eq_finality_data q) \<ge> finality_lookback
      then take (finality_lookback - 1) (tl (eq_finality_data q)) else eq_finality_data q)"
  have len: "length data < finality_lookback"
    by (auto simp: data_def finality_lookback_def)
  have s: "sorted_wrt (<) (map fd_number data)"
    using assms
    by (cases "eq_finality_data q") (auto simp: data_def finality_ok_def sorted_wrt_take simp flip: take_map)
  show ?thesis
  proof (cases "data = [] \<or> bid_number (fd_l1_block (last data)) < l1_number (eq_origin q)")
    case True
    then have "eq_finality_data (post_process_safe_l2 q) =
        data @ [\<lparr>fd_l2_block = eq_safe_head q, fd_l1_block = l1_id (eq_origin q)\<rparr>]"
      by (simp add: post_process_safe_l2_def Let_def flip: data_def)
    moreover have "sorted_wrt (<) (map fd_number data @ [unat (l1_number (eq_origin q))])"
      using s True by (cases "data = []") (auto simp: sorted_wrt_snoc last_map word_less_nat_alt)
    ultimately show ?thesis using len by (simp add: finality_ok_def l1_id_def)
  next
    case False
    then have e: "eq_finality_data (post_process_safe_l2 q) =
        butlast data @ [(last data)\<lparr>fd_l2_block := eq_safe_head q\<rparr>]"
      by (simp add: post_process_safe_l2_def Let_def flip: data_def)
    have "map fd_number (butlast data @ [(last data)\<lparr>fd_l2_block := eq_safe_head q\<rparr>]) =
        map fd_number (butlast data @ [last data])" by simp
    also have "butlast data @ [last data] = data" using False by simp
    finally show ?thesis using len s False unfolding finality_ok_def e by (cases data) auto
  qed
qed

section \<open>The safe head\<close>

text \<open>
  What processing safe attributes does: finality and the payloads stay, the safe head stays or becomes
  the pending one with the last block of a span, and the pending head moves only when the
  attributes are used up.
\<close>

definition safe_moved :: "engine_queue \<Rightarrow> engine_queue \<Rightarrow> bool" where
  "safe_moved q q' \<longleftrightarrow>
     eq_finalized q' = eq_finalized q \<and> eq_finalized_l1 q' = eq_finalized_l1 q \<and>
     eq_unsafe_payloads q' = eq_unsafe_payloads q \<and>
     (finality_ok (eq_finality_data q) \<longrightarrow> finality_ok (eq_finality_data q')) \<and>
     (eq_safe_head q' = eq_safe_head q \<or> last_in_span q \<and> eq_safe_head q' = eq_pending_safe_head q') \<and>
     (eq_pending_safe_head q' \<noteq> eq_pending_safe_head q \<or> eq_safe_head q' \<noteq> eq_safe_head q \<longrightarrow>
        eq_safe_attributes q' = None)"

lemma same_safe_moved:
  "same_safe q q' \<Longrightarrow> eq_unsafe_payloads q' = eq_unsafe_payloads q \<Longrightarrow> safe_moved q q'"
  by (auto simp: same_safe_def safe_moved_def)

lemma adopt_built_fields:
  "eq_finalized (adopt_built ref s q) = eq_finalized q"
  "eq_finalized_l1 (adopt_built ref s q) = eq_finalized_l1 q"
  "eq_unsafe_payloads (adopt_built ref s q) = eq_unsafe_payloads q"
  "eq_safe_attributes (adopt_built ref s q) = eq_safe_attributes q"
  "eq_safe_head (adopt_built ref s q) = (if eq_building_safe q \<and> s then ref else eq_safe_head q)"
  "eq_pending_safe_head (adopt_built ref s q) =
     (if eq_building_safe q then ref else eq_pending_safe_head q)"
  by (simp_all add: adopt_built_def Let_def)

lemma adopt_built_finality:
  "finality_ok (eq_finality_data q) \<Longrightarrow> finality_ok (eq_finality_data (adopt_built ref s q))"
  by (simp add: adopt_built_def Let_def finality_ok_post_process)

lemma confirm_cases:
  assumes "queue_confirm_payload env q e = (r, q', e')"
  shows "(\<exists>err. r = Inl err) \<and> q' = q \<or>
    (\<exists>pl ref. r = Inr pl \<and> payload_to_block_ref (ee_l2 env) (rc_genesis (ee_cfg env)) pl = Inr ref \<and>
       q' = adopt_built ref (eq_building_safe q \<and> last_in_span q) q)"
  using assms by (auto simp: queue_confirm_payload_def Let_def split: prod.splits sum.splits if_splits)

lemma start_fields:
  "queue_start_payload env parent attrs s q e = (r, q', e') \<Longrightarrow>
   eq_unsafe_payloads q' = eq_unsafe_payloads q \<and> (\<forall>u. r = Inr u \<longrightarrow> eq_building_safe q' = s)"
  by (auto simp: queue_start_payload_def split: prod.splits sum.splits if_splits)

lemma cancel_payloads:
  "queue_cancel_payload env f q e = (r, q', e') \<Longrightarrow> eq_unsafe_payloads q' = eq_unsafe_payloads q"
  by (auto simp: queue_cancel_payload_def split: prod.splits sum.splits if_splits)

text \<open>Up to the removal of the attributes.\<close>

definition built_safe :: "engine_queue \<Rightarrow> engine_queue \<Rightarrow> bool" where
  "built_safe q q' \<longleftrightarrow>
     eq_finalized q' = eq_finalized q \<and> eq_finalized_l1 q' = eq_finalized_l1 q \<and>
     eq_unsafe_payloads q' = eq_unsafe_payloads q \<and> eq_safe_attributes q' = eq_safe_attributes q \<and>
     (finality_ok (eq_finality_data q) \<longrightarrow> finality_ok (eq_finality_data q')) \<and>
     (eq_safe_head q' = eq_safe_head q \<or> last_in_span q \<and> eq_safe_head q' = eq_pending_safe_head q')"

lemma start_and_confirm_built:
  assumes "start_and_confirm env attrs q e = (r, q', e')"
  shows "if isl r then same_safe q q' \<and> eq_unsafe_payloads q' = eq_unsafe_payloads q else built_safe q q'"
proof -
  obtain r1 q1 e1 where s: "queue_start_payload env (eq_pending_safe_head q) attrs True q e = (r1, q1, e1)"
    by (metis prod_cases3)
  note same = start_payload_same [OF s] and flds = start_fields [OF s]
  show ?thesis
  proof (cases r1)
    case (Inl err)
    then have "r = Inl err" "q' = q1" using assms s by (simp_all add: start_and_confirm_def)
    then show ?thesis using same flds by simp
  next
    case (Inr u)
    then have c: "queue_confirm_payload env q1 e1 = (r, q', e')" using assms s by (simp add: start_and_confirm_def)
    have lst: "last_in_span q1 = last_in_span q" using same by (simp add: last_in_span_def same_safe_def)
    consider "isl r" "q' = q1"
      | pl ref where "r = Inr pl" "q' = adopt_built ref (eq_building_safe q1 \<and> last_in_span q1) q1"
      using confirm_cases [OF c] by auto
    then show ?thesis
    proof cases
      case 1
      then show ?thesis using same flds by simp
    next
      case 2
      have "built_safe q (adopt_built ref (eq_building_safe q1 \<and> last_in_span q1) q1)"
        unfolding built_safe_def adopt_built_fields lst
        using same flds adopt_built_finality [of q1 ref] Inr by (simp add: same_safe_def)
      then show ?thesis using 2 by simp
    qed
  qed
qed

lemma drop_invalid_moved:
  assumes "drop_invalid_batch env attrs q e = (r, q', e')"
  shows "safe_moved q q'"
proof -
  obtain r1 q1 e1 where c: "queue_cancel_payload env True q e = (r1, q1, e1)" by (metis prod_cases3)
  then show ?thesis using assms cancel_payload_same [OF c] cancel_payloads [OF c]
    by (auto simp: drop_invalid_batch_def safe_moved_def same_safe_def split: if_splits)
qed

lemma safe_moved_trans:
  "same_safe q q1 \<Longrightarrow> eq_unsafe_payloads q1 = eq_unsafe_payloads q \<Longrightarrow> safe_moved q1 q2 \<Longrightarrow> safe_moved q q2"
  by (auto simp: same_safe_def safe_moved_def last_in_span_def)

lemma force_moved:
  assumes "force_next_safe_attributes env q e = (r, q', e')"
  shows "safe_moved q q'"
proof (cases "eq_safe_attributes q")
  case None
  then show ?thesis using assms by (simp add: force_next_safe_attributes_def safe_moved_def)
next
  case (Some a)
  obtain r1 q1 e1 where s: "start_and_confirm env (awp_attributes a) q e = (r1, q1, e1)"
    by (metis prod_cases3)
  note b = start_and_confirm_built [OF s]
  show ?thesis
  proof (cases r1)
    case (Inr pl)
    then have "q' = q1\<lparr>eq_safe_attributes := None\<rparr>"
      using assms s Some by (simp add: force_next_safe_attributes_def)
    then show ?thesis using b Inr by (simp add: built_safe_def safe_moved_def)
  next
    case (Inl err)
    then have same: "same_safe q q1" "eq_unsafe_payloads q1 = eq_unsafe_payloads q" using b by simp_all
    show ?thesis
    proof (cases err)
      case InsertPayload
      then have "drop_invalid_batch env (awp_attributes a) q1 e1 = (r, q', e')"
        using assms s Some Inl by (simp add: force_next_safe_attributes_def)
      then show ?thesis by (intro safe_moved_trans [OF same] drop_invalid_moved)
    next
      case InsertPrestate
      obtain r2 q2 e2 where c: "queue_cancel_payload env True q1 e1 = (r2, q2, e2)" by (metis prod_cases3)
      then have q': "q' = q2" using assms s Some Inl InsertPrestate by (simp add: force_next_safe_attributes_def)
      have "safe_moved q1 q2" using cancel_payload_same [OF c] cancel_payloads [OF c] same_safe_moved by blast
      then show ?thesis unfolding q' by (rule safe_moved_trans [OF same])
    next
      case InsertTemporary
      then have "q' = q1" using assms s Some Inl by (simp add: force_next_safe_attributes_def)
      then show ?thesis using same_safe_moved [OF same] by simp
    next
      case InsertPanic
      then have "q' = q1" using assms s Some Inl by (simp add: force_next_safe_attributes_def)
      then show ?thesis using same_safe_moved [OF same] by simp
    qed
  qed
qed

lemma consolidate_moved:
  assumes "consolidate_next_safe_attributes env a q e = (r, q', e')" "eq_safe_attributes q = Some a"
  shows "safe_moved q q'"
  using assms force_moved [of env q e r q' e'] finality_ok_post_process
  by (auto simp: consolidate_next_safe_attributes_def safe_moved_def last_in_span_def Let_def
      split: sum.splits rpc_err.splits if_splits)

lemma try_next_safe_moved:
  assumes "try_next_safe_attributes env q e = (r, q', e')"
  shows "safe_moved q q'"
proof (cases "eq_safe_attributes q")
  case (Some a)
  then show ?thesis
    using assms force_moved [of env q e r q' e'] consolidate_moved [of env a q e r q' e']
    by (auto simp: try_next_safe_attributes_def split: if_splits) (auto simp: safe_moved_def)
qed (use assms in \<open>simp add: try_next_safe_attributes_def safe_moved_def\<close>)

section \<open>The step\<close>

lemma try_finalize_fold:
  defines "f \<equiv> \<lambda>fd q. if l2_number (fd_l2_block fd) > l2_number (eq_finalized q) \<and>
                   bid_number (fd_l1_block fd) \<le> l1_number (eq_finalized_l1 q)
                 then q\<lparr>eq_finalized := fd_l2_block fd, eq_need_forkchoice_update := True\<rparr> else q"
  shows "eq_safe_head (fold f data q) = eq_safe_head q \<and>
    eq_pending_safe_head (fold f data q) = eq_pending_safe_head q \<and>
    eq_finality_data (fold f data q) = eq_finality_data q \<and>
    eq_safe_attributes (fold f data q) = eq_safe_attributes q \<and>
    eq_finalized_l1 (fold f data q) = eq_finalized_l1 q \<and>
    eq_unsafe_payloads (fold f data q) = eq_unsafe_payloads q \<and>
    (eq_finalized (fold f data q) = eq_finalized q \<or>
      (\<exists>fd \<in> set data. eq_finalized (fold f data q) = fd_l2_block fd \<and>
         bid_number (fd_l1_block fd) \<le> l1_number (eq_finalized_l1 q))) \<and>
    l2_number (eq_finalized q) \<le> l2_number (eq_finalized (fold f data q)) \<and>
    (\<forall>fd \<in> set data. bid_number (fd_l1_block fd) \<le> l1_number (eq_finalized_l1 q) \<longrightarrow>
       l2_number (fd_l2_block fd) \<le> l2_number (eq_finalized (fold f data q)))"
proof (induction data arbitrary: q)
  case (Cons fd data)
  define q1 where "q1 = f fd q"
  have s: "eq_safe_head q1 = eq_safe_head q" "eq_pending_safe_head q1 = eq_pending_safe_head q"
    "eq_finality_data q1 = eq_finality_data q" "eq_safe_attributes q1 = eq_safe_attributes q"
    "eq_finalized_l1 q1 = eq_finalized_l1 q" "eq_unsafe_payloads q1 = eq_unsafe_payloads q"
    by (simp_all add: q1_def f_def)
  have g: "eq_finalized q1 = (if l2_number (fd_l2_block fd) > l2_number (eq_finalized q) \<and>
      bid_number (fd_l1_block fd) \<le> l1_number (eq_finalized_l1 q) then fd_l2_block fd else eq_finalized q)"
    by (simp add: q1_def f_def)
  have e: "fold f (fd # data) q = fold f data q1" by (simp add: q1_def)
  note ih = Cons.IH [of q1, unfolded s]
  have le: "l2_number (eq_finalized q) \<le> l2_number (eq_finalized q1)" by (auto simp: g)
  have b: "bid_number (fd_l1_block fd) \<le> l1_number (eq_finalized_l1 q) \<Longrightarrow>
      l2_number (fd_l2_block fd) \<le> l2_number (eq_finalized q1)" by (auto simp: g)
  have c: "eq_finalized q1 = eq_finalized q \<or>
      eq_finalized q1 = fd_l2_block fd \<and> bid_number (fd_l1_block fd) \<le> l1_number (eq_finalized_l1 q)"
    by (simp add: g)
  show ?case unfolding e using ih le b c by (auto intro: order_trans)
qed simp

definition finalized_from :: "engine_queue \<Rightarrow> engine_queue \<Rightarrow> bool" where
  "finalized_from q q' \<longleftrightarrow>
     eq_finalized q' = eq_finalized q \<or>
     (\<exists>fd \<in> set (eq_finality_data q'). eq_finalized q' = fd_l2_block fd \<and>
        bid_number (fd_l1_block fd) \<le> l1_number (eq_finalized_l1 q') \<and>
        l2_number (eq_finalized q) \<le> l2_number (eq_finalized q'))"

lemma try_finalize_ok:
  "eq_safe_head (try_finalize_l2 q) = eq_safe_head q"
  "eq_pending_safe_head (try_finalize_l2 q) = eq_pending_safe_head q"
  "eq_finality_data (try_finalize_l2 q) = eq_finality_data q"
  "eq_safe_attributes (try_finalize_l2 q) = eq_safe_attributes q"
  "eq_finalized_l1 (try_finalize_l2 q) = eq_finalized_l1 q"
  "eq_unsafe_payloads (try_finalize_l2 q) = eq_unsafe_payloads q"
  "finalized_from q (try_finalize_l2 q)"
  using try_finalize_fold [of "eq_finality_data q" "q\<lparr>eq_tried_finalize_at := eq_origin q\<rparr>"]
  by (auto simp: try_finalize_l2_def finalized_from_def)

text \<open>The safe part of one step of the queue.\<close>

definition step_moved :: "engine_queue \<Rightarrow> engine_queue \<Rightarrow> bool" where
  "step_moved q q' \<longleftrightarrow>
     finalized_from q q' \<and> eq_finalized_l1 q' = eq_finalized_l1 q \<and>
     (finality_ok (eq_finality_data q) \<longrightarrow> finality_ok (eq_finality_data q')) \<and>
     (eq_safe_head q' = eq_safe_head q \<or> last_in_span q \<and> eq_safe_head q' = eq_pending_safe_head q') \<and>
     (eq_pending_safe_head q' \<noteq> eq_pending_safe_head q \<or> eq_safe_head q' \<noteq> eq_safe_head q \<longrightarrow>
        (\<exists>a. eq_safe_attributes q = Some a \<and> awp_parent a = eq_pending_safe_head q) \<and>
        eq_safe_attributes q' = None) \<and>
     same_payloads q q'"

lemma try_next_safe_parent:
  "try_next_safe_attributes env q e = (r, q', e') \<Longrightarrow> eq_safe_attributes q = Some a \<Longrightarrow>
   awp_parent a = eq_pending_safe_head q \<or>
   eq_pending_safe_head q' = eq_pending_safe_head q \<and> eq_safe_head q' = eq_safe_head q"
  by (auto simp: try_next_safe_attributes_def split: if_splits)

lemma safe_moved_step:
  "safe_moved q q' \<Longrightarrow> eq_safe_attributes q = Some a \<Longrightarrow>
   awp_parent a = eq_pending_safe_head q \<or>
   eq_pending_safe_head q' = eq_pending_safe_head q \<and> eq_safe_head q' = eq_safe_head q \<Longrightarrow>
   step_moved q q'"
  by (auto simp: safe_moved_def step_moved_def finalized_from_def same_payloads_def)

lemma same_safe_step: "same_safe q q' \<Longrightarrow> same_payloads q q' \<Longrightarrow> step_moved q q'"
  by (auto simp: same_safe_def step_moved_def finalized_from_def)

lemma try_finalize_past_ok:
  assumes "try_finalize_past_l2_blocks l1 q = (r, q')"
  shows "q' = q \<or> q' = try_finalize_l2 q"
  using assms by (auto simp: try_finalize_past_l2_blocks_def split: if_splits sum.splits)

lemma pull_attributes_moved:
  assumes "pull_attributes env prev q p = (r, q', p')"
  shows "step_moved q q'" "eq_safe_head q' = eq_safe_head q"
    "eq_pending_safe_head q' = eq_pending_safe_head q" "eq_unsafe_payloads q' = eq_unsafe_payloads q"
proof -
  define q0 where "q0 = post_process_safe_l2 (q\<lparr>eq_origin := ap_origin prev p\<rparr>)"
  obtain r1 q1 where t: "try_finalize_past_l2_blocks (ee_l1 env) q0 = (r1, q1)" by fastforce
  have q': "q' = q \<or> q' = q1 \<or> (\<exists>nxt. q' = q1\<lparr>eq_safe_attributes := Some nxt\<rparr>)"
    using assms t by (auto simp: pull_attributes_def simp flip: q0_def split: sum.splits prod.splits)
  have q0: "eq_safe_head q0 = eq_safe_head q" "eq_pending_safe_head q0 = eq_pending_safe_head q"
    "eq_finalized q0 = eq_finalized q" "eq_finalized_l1 q0 = eq_finalized_l1 q"
    "eq_unsafe_payloads q0 = eq_unsafe_payloads q"
    "finality_ok (eq_finality_data q) \<Longrightarrow> finality_ok (eq_finality_data q0)"
    using finality_ok_post_process [of "q\<lparr>eq_origin := ap_origin prev p\<rparr>"] by (simp_all add: q0_def)
  have q1: "eq_safe_head q1 = eq_safe_head q" "eq_pending_safe_head q1 = eq_pending_safe_head q"
    "finalized_from q q1" "eq_finalized_l1 q1 = eq_finalized_l1 q"
    "eq_unsafe_payloads q1 = eq_unsafe_payloads q"
    "finality_ok (eq_finality_data q) \<Longrightarrow> finality_ok (eq_finality_data q1)"
    using try_finalize_past_ok [OF t] q0 try_finalize_ok [of q0] by (auto simp: finalized_from_def)
  show "eq_safe_head q' = eq_safe_head q" "eq_pending_safe_head q' = eq_pending_safe_head q"
    "eq_unsafe_payloads q' = eq_unsafe_payloads q"
    using q' q1 by auto
  show "step_moved q q'"
    using q' q1 by (auto simp: step_moved_def finalized_from_def same_payloads_def)
qed

lemma step_derived_moved:
  assumes "step_derived env prev q p e = (r, q', p', e')"
  shows "step_moved q q'" "eq_unsafe_payloads q' = eq_unsafe_payloads q"
proof -
  have refl: "step_moved q q" by (simp add: step_moved_def finalized_from_def same_payloads_def)
  have "step_moved q q' \<and> eq_unsafe_payloads q' = eq_unsafe_payloads q"
  proof (cases "is_engine_syncing q")
    case True
    then show ?thesis using assms refl by (simp add: step_derived_def)
  next
    case False
    show ?thesis
    proof (cases "eq_safe_attributes q = None")
      case True
      obtain r1 q1 p1 where t: "pull_attributes env prev q p = (r1, q1, p1)" by (metis prod_cases3)
      then have "q' = q1" using assms False True by (simp add: step_derived_def)
      then show ?thesis using pull_attributes_moved(1,4) [OF t] by simp
    next
      case some: False
      obtain r1 q1 e1 where t: "try_next_safe_attributes env q e = (r1, q1, e1)" by (metis prod_cases3)
      obtain a where a: "eq_safe_attributes q = Some a" using some by auto
      have "q' = q1" using assms False some t by (simp add: step_derived_def)
      then show ?thesis
        using safe_moved_step [OF try_next_safe_moved [OF t] a try_next_safe_parent [OF t a]]
          try_next_safe_moved [OF t] by (simp add: safe_moved_def)
    qed
  qed
  then show "step_moved q q'" "eq_unsafe_payloads q' = eq_unsafe_payloads q" by simp_all
qed

lemma step_moved_trans:
  "same_safe q q1 \<Longrightarrow> same_payloads q q1 \<Longrightarrow> step_moved q1 q2 \<Longrightarrow>
   eq_unsafe_payloads q2 = eq_unsafe_payloads q1 \<Longrightarrow> step_moved q q2"
  by (auto simp: same_safe_def step_moved_def finalized_from_def same_payloads_def last_in_span_def)

lemma engine_step_moved:
  assumes "engine_step env prev q p e = (r, q', p', e')"
  shows "step_moved q q'"
proof (cases "eq_need_forkchoice_update q")
  case True
  obtain r1 q1 e1 where t: "try_update_engine (ee_engine env) q e = (r1, q1, e1)" by (metis prod_cases3)
  then have "q' = q1" using assms True by (simp add: engine_step_def)
  then show ?thesis using try_update_same [OF t] same_safe_step by blast
next
  case nofc: False
  show ?thesis
  proof (cases "pq_heap (eq_unsafe_payloads q) = []")
    case True
    then show ?thesis using assms nofc step_derived_moved by (simp add: engine_step_def)
  next
    case False
    obtain r1 q1 e1 where t: "try_next_unsafe_payload env q e = (r1, q1, e1)" by (metis prod_cases3)
    note same = try_next_unsafe_same [OF t]
    show ?thesis
    proof (cases "r1 = Inl StageEOF")
      case True
      then have s: "step_derived env prev q1 p e1 = (r, q', p', e')"
        using assms nofc False t by (simp add: engine_step_def)
      show ?thesis
        using step_moved_trans [OF conjunct1 [OF same] conjunct2 [OF same]] step_derived_moved [OF s] by blast
    next
      case noteof: False
      then have "q' = q1"
        using assms nofc False t by (cases r1; cases "projl r1") (auto simp: engine_step_def)
      then show ?thesis using same same_safe_step by blast
    qed
  qed
qed

section \<open>The block that is adopted\<close>

text \<open>Consolidation: the engine has a block on top of the pending safe head, and it is what the attributes
  would give. Insertion: the engine built the block from the attributes on top of the pending safe head, the block passed the
  checks, and the engine took it as valid and made it its head, and the safe one with the last block of a span.\<close>

definition consolidated_block ::
  "'e engine_env \<Rightarrow> attributes_with_parent \<Rightarrow> engine_queue \<Rightarrow> 'e \<Rightarrow> payload \<Rightarrow> bool" where
  "consolidated_block env a q e pl \<longleftrightarrow>
     eng_payload_by_number (ee_engine env) (l2_number (eq_pending_safe_head q) + 1) e = Inr pl \<and>
     attributes_match_block (awp_attributes a) (l2_hash (eq_pending_safe_head q)) pl"

definition inserted_block ::
  "'e engine_env \<Rightarrow> attributes_with_parent \<Rightarrow> engine_queue \<Rightarrow> 'e \<Rightarrow> payload \<Rightarrow> bool" where
  "inserted_block env a q e pl \<longleftrightarrow>
     (\<exists>ident e1 e2 e3 e4 x.
        start_payload (ee_engine env)
          \<lparr>fc_head = l2_hash (eq_pending_safe_head q), fc_safe = l2_hash (eq_safe_head q),
           fc_finalized = l2_hash (eq_finalized q)\<rparr> (awp_attributes a) e = (Inr ident, e1) \<and>
        eng_get_payload (ee_engine env) ident e1 = (Inr pl, e2) \<and> sanity_check_payload pl = Inr () \<and>
        eng_new_payload (ee_engine env) pl e2 = (Inr ExecutionValid, e3) \<and>
        eng_forkchoice_update (ee_engine env)
          \<lparr>fc_head = pl_block_hash pl,
           fc_safe = (if awp_last_in_span a then pl_block_hash pl else l2_hash (eq_safe_head q)),
           fc_finalized = l2_hash (eq_finalized q)\<rparr> None e3 = (Inr (ExecutionValid, x), e4))"

definition adopts ::
  "'e engine_env \<Rightarrow> attributes_with_parent \<Rightarrow> engine_queue \<Rightarrow> 'e \<Rightarrow> engine_queue \<Rightarrow> bool" where
  "adopts env a q e q' \<longleftrightarrow>
     (\<exists>pl. payload_to_block_ref (ee_l2 env) (rc_genesis (ee_cfg env)) pl = Inr (eq_pending_safe_head q') \<and>
        eq_safe_head q' = (if awp_last_in_span a then eq_pending_safe_head q' else eq_safe_head q) \<and>
        (consolidated_block env a q e pl \<or>
         inserted_block env a q e pl \<and> eq_unsafe_head q' = eq_pending_safe_head q'))"

text \<open>A block that turned out invalid: its span is dropped.\<close>

definition gives_up :: "attributes_with_parent \<Rightarrow> engine_queue \<Rightarrow> engine_queue \<Rightarrow> bool" where
  "gives_up a q q' \<longleftrightarrow>
     (\<exists>tx \<in> set (at_transactions (awp_attributes a)). tx = [] \<or> hd tx \<noteq> deposit_tx_type) \<and>
     eq_safe_head q' = eq_safe_head q \<and> eq_pending_safe_head q' = eq_safe_head q"

definition same_heads :: "engine_queue \<Rightarrow> engine_queue \<Rightarrow> bool" where
  "same_heads q q' \<longleftrightarrow> eq_safe_head q' = eq_safe_head q \<and> eq_pending_safe_head q' = eq_pending_safe_head q"

lemma same_safe_heads: "same_safe q q' \<Longrightarrow> same_heads q q'"
  by (simp add: same_safe_def same_heads_def)

lemma confirmed_payload:
  assumes "confirm_payload eng fc ident up e = (Inr pl, e')"
  shows "\<exists>e2 e3 x. eng_get_payload eng ident e = (Inr pl, e2) \<and> sanity_check_payload pl = Inr () \<and>
    eng_new_payload eng pl e2 = (Inr ExecutionValid, e3) \<and>
    eng_forkchoice_update eng
      (fc\<lparr>fc_head := pl_block_hash pl, fc_safe := (if up then pl_block_hash pl else fc_safe fc)\<rparr>) None e3 =
      (Inr (ExecutionValid, x), e')"
  using assms
  by (auto simp: confirm_payload_def make_canonical_def split: prod.splits sum.splits engine_err.splits if_splits)

lemma confirmed_built:
  assumes "queue_confirm_payload env q e = (Inr pl, q', e')" "eq_building_safe q" "eq_safe_attributes q = Some a"
  obtains ref e2 e3 x where
    "payload_to_block_ref (ee_l2 env) (rc_genesis (ee_cfg env)) pl = Inr ref"
    "q' = adopt_built ref (awp_last_in_span a) q"
    "eng_get_payload (ee_engine env) (eq_building_id q) e = (Inr pl, e2)" "sanity_check_payload pl = Inr ()"
    "eng_new_payload (ee_engine env) pl e2 = (Inr ExecutionValid, e3)"
    "eng_forkchoice_update (ee_engine env)
      \<lparr>fc_head = pl_block_hash pl,
       fc_safe = (if awp_last_in_span a then pl_block_hash pl else l2_hash (eq_safe_head q)),
       fc_finalized = l2_hash (eq_finalized q)\<rparr> None e3 = (Inr (ExecutionValid, x), e')"
proof -
  let ?fc = "\<lparr>fc_head = zero_hash32, fc_safe = l2_hash (eq_safe_head q), fc_finalized = l2_hash (eq_finalized q)\<rparr>"
  obtain e1 ref where c: "confirm_payload (ee_engine env) ?fc (eq_building_id q) (awp_last_in_span a) e = (Inr pl, e1)"
      "payload_to_block_ref (ee_l2 env) (rc_genesis (ee_cfg env)) pl = Inr ref"
      "q' = adopt_built ref (awp_last_in_span a) q" "e1 = e'"
    using assms by (auto simp: queue_confirm_payload_def Let_def last_in_span_def split: prod.splits sum.splits if_splits)
  from confirmed_payload [OF c(1)] that [OF c(2,3)] c(4) show thesis by (auto cong: if_cong)
qed

lemma start_and_confirm_adopts:
  assumes "start_and_confirm env (awp_attributes a) q e = (Inr pl, q', e')" "eq_safe_attributes q = Some a"
  shows "adopts env a q e q'"
proof -
  obtain ident e1 where i: "start_payload (ee_engine env)
          \<lparr>fc_head = l2_hash (eq_pending_safe_head q), fc_safe = l2_hash (eq_safe_head q),
           fc_finalized = l2_hash (eq_finalized q)\<rparr> (awp_attributes a) e = (Inr ident, e1)"
      "queue_confirm_payload env (q\<lparr>eq_building_id := ident, eq_building_safe := True,
         eq_building_onto := eq_pending_safe_head q\<rparr>) e1 = (Inr pl, q', e')"
    using assms(1) by (auto simp: start_and_confirm_def queue_start_payload_def split: prod.splits sum.splits if_splits)
  show ?thesis
  proof (rule confirmed_built [OF i(2), of a])
    fix ref e2 e3 x
    assume c: "payload_to_block_ref (ee_l2 env) (rc_genesis (ee_cfg env)) pl = Inr ref"
      "q' = adopt_built ref (awp_last_in_span a) (q\<lparr>eq_building_id := ident, eq_building_safe := True,
         eq_building_onto := eq_pending_safe_head q\<rparr>)"
      "eng_get_payload (ee_engine env) (eq_building_id (q\<lparr>eq_building_id := ident, eq_building_safe := True,
         eq_building_onto := eq_pending_safe_head q\<rparr>)) e1 = (Inr pl, e2)" "sanity_check_payload pl = Inr ()"
      "eng_new_payload (ee_engine env) pl e2 = (Inr ExecutionValid, e3)"
      "eng_forkchoice_update (ee_engine env)
        \<lparr>fc_head = pl_block_hash pl,
         fc_safe = (if awp_last_in_span a then pl_block_hash pl
           else l2_hash (eq_safe_head (q\<lparr>eq_building_id := ident, eq_building_safe := True,
             eq_building_onto := eq_pending_safe_head q\<rparr>))),
         fc_finalized = l2_hash (eq_finalized (q\<lparr>eq_building_id := ident, eq_building_safe := True,
           eq_building_onto := eq_pending_safe_head q\<rparr>))\<rparr> None e3 = (Inr (ExecutionValid, x), e')"
    have "inserted_block env a q e pl"
      unfolding inserted_block_def using i(1) c(3-6) by auto
    moreover have "eq_pending_safe_head q' = ref" "eq_unsafe_head q' = ref"
      "eq_safe_head q' = (if awp_last_in_span a then ref else eq_safe_head q)"
      by (simp_all add: c(2) adopt_built_def Let_def post_process_safe_l2_def reset_building_state_def)
    ultimately show ?thesis unfolding adopts_def using c(1) by auto
  qed (use assms(2) in simp_all)
qed

lemma cancel_heads:
  "queue_cancel_payload env f q e = (r, q', e') \<Longrightarrow> same_heads q q'"
  using cancel_payload_same [of env f q e r q' e'] same_safe_heads [of q q'] by simp

lemma force_adopts:
  assumes "force_next_safe_attributes env q e = (r, q', e')" "eq_safe_attributes q = Some a"
  shows "same_heads q q' \<or> adopts env a q e q' \<or> gives_up a q q'"
proof -
  obtain r1 q1 e1 where s: "start_and_confirm env (awp_attributes a) q e = (r1, q1, e1)"
    by (metis prod_cases3)
  obtain r2 q2 e2 where c: "queue_cancel_payload env True q1 e1 = (r2, q2, e2)" by (metis prod_cases3)
  note f = assms(1) [unfolded force_next_safe_attributes_def assms(2) option.case s prod.case]
  show ?thesis
  proof (cases r1)
    case (Inr pl)
    then have "q' = q1\<lparr>eq_safe_attributes := None\<rparr>" using f by simp
    then have "adopts env a q e q' \<longleftrightarrow> adopts env a q e q1" by (simp add: adopts_def)
    then show ?thesis using start_and_confirm_adopts [of env a q e pl q1 e1] s Inr assms(2) by simp
  next
    case (Inl err)
    then have same: "same_heads q q1" using start_and_confirm_built [OF s] same_safe_heads by simp
    have two: "same_heads q q2" using same cancel_heads [OF c] by (simp add: same_heads_def)
    show ?thesis
    proof (cases err)
      case InsertPayload
      then have "drop_invalid_batch env (awp_attributes a) q1 e1 = (r, q', e')" using f Inl by simp
      then have "q' = q2 \<or> (\<exists>tx \<in> set (at_transactions (awp_attributes a)). tx = [] \<or> hd tx \<noteq> deposit_tx_type) \<and>
          q' = q2\<lparr>eq_safe_attributes := None, eq_pending_safe_head := eq_safe_head q2\<rparr>"
        using c by (auto simp: drop_invalid_batch_def list_all_iff split: if_splits)
      then show ?thesis using two by (auto simp: same_heads_def gives_up_def)
    next
      case InsertPrestate
      then have "q' = q2" using f Inl c by simp
      then show ?thesis using two by simp
    next
      case InsertTemporary
      then show ?thesis using f Inl same by simp
    next
      case InsertPanic
      then show ?thesis using f Inl same by simp
    qed
  qed
qed

lemma consolidate_adopts:
  assumes "consolidate_next_safe_attributes env a q e = (r, q', e')" "eq_safe_attributes q = Some a"
  shows "same_heads q q' \<or> adopts env a q e q' \<or> gives_up a q q'"
proof (cases "eng_payload_by_number (ee_engine env) (l2_number (eq_pending_safe_head q) + 1) e")
  case (Inl err)
  then show ?thesis
    using assms(1) by (cases err) (simp_all add: consolidate_next_safe_attributes_def same_heads_def)
next
  case (Inr pl)
  note c = assms(1) [unfolded consolidate_next_safe_attributes_def Inr sum.case]
  show ?thesis
  proof (cases "attributes_match_block (awp_attributes a) (l2_hash (eq_pending_safe_head q)) pl")
    case False
    then show ?thesis using c force_adopts [of env q e r q' e', OF _ assms(2)] by simp
  next
    case True
    then have ok: "consolidated_block env a q e pl" using Inr by (simp add: consolidated_block_def)
    show ?thesis
    proof (cases "payload_to_block_ref (ee_l2 env) (rc_genesis (ee_cfg env)) pl")
      case (Inr ref)
      then have "eq_pending_safe_head q' = ref" "eq_safe_head q' = (if awp_last_in_span a then ref else eq_safe_head q)"
        using c True by (auto simp: Let_def post_process_safe_l2_def)
      then show ?thesis using Inr ok unfolding adopts_def by auto
    qed (use c True in \<open>simp add: same_heads_def\<close>)
  qed
qed

lemma derived_adopts:
  assumes "step_derived env prev q p e = (r, q', p', e')" "\<not> same_heads q q'"
  shows "\<exists>a. eq_safe_attributes q = Some a \<and> (adopts env a q e q' \<or> gives_up a q q')"
proof (cases "eq_safe_attributes q")
  case None
  obtain r1 q1 p1 where t: "pull_attributes env prev q p = (r1, q1, p1)" by (metis prod_cases3)
  then have "q' = q \<or> q' = q1" using assms(1) None by (auto simp: step_derived_def split: if_splits)
  then show ?thesis using assms(2) pull_attributes_moved(2,3) [OF t] by (auto simp: same_heads_def)
next
  case (Some a)
  obtain r1 q1 e1 where t: "try_next_safe_attributes env q e = (r1, q1, e1)" by (metis prod_cases3)
  have "q' = q1" using assms t Some by (auto simp: step_derived_def same_heads_def split: if_splits)
  then have "consolidate_next_safe_attributes env a q e = (r1, q', e1) \<or>
      force_next_safe_attributes env q e = (r1, q', e1)"
    using t assms(2) Some by (auto simp: try_next_safe_attributes_def same_heads_def split: if_splits)
  then show ?thesis
    using consolidate_adopts [of env a q e r1 q' e1, OF _ Some] force_adopts [of env q e r1 q' e1, OF _ Some]
      assms(2) Some by auto
qed

lemma adopts_same:
  "same_safe q q1 \<Longrightarrow> adopts env a q1 e q' \<Longrightarrow> adopts env a q e q'"
  "same_safe q q1 \<Longrightarrow> gives_up a q1 q' \<Longrightarrow> gives_up a q q'"
  "same_safe q q1 \<Longrightarrow> same_heads q q' = same_heads q1 q'"
  by (auto simp: same_safe_def adopts_def gives_up_def consolidated_block_def inserted_block_def same_heads_def cong: if_cong)

lemma unsafe_eof_engine:
  "try_next_unsafe_payload env q e = (Inl StageEOF, q', e') \<Longrightarrow> e' = e"
  by (auto simp: try_next_unsafe_payload_def insert_unsafe_def mark_unsafe_valid_def forkchoice_level_def
      split: option.splits if_splits sum.splits prod.splits)

lemma engine_step_adopts:
  assumes "engine_step env prev q p e = (r, q', p', e')" "\<not> same_heads q q'"
  shows "\<exists>a. eq_safe_attributes q = Some a \<and> (adopts env a q e q' \<or> gives_up a q q')"
proof (cases "eq_need_forkchoice_update q")
  case True
  obtain r1 q1 e1 where t: "try_update_engine (ee_engine env) q e = (r1, q1, e1)" by (metis prod_cases3)
  then have "q' = q1" using assms(1) True by (simp add: engine_step_def)
  then show ?thesis using try_update_same [OF t] same_safe_heads assms(2) by blast
next
  case nofc: False
  show ?thesis
  proof (cases "pq_heap (eq_unsafe_payloads q) = []")
    case True
    then show ?thesis using assms nofc derived_adopts by (simp add: engine_step_def)
  next
    case False
    obtain r1 q1 e1 where t: "try_next_unsafe_payload env q e = (r1, q1, e1)" by (metis prod_cases3)
    have same: "same_safe q q1" using try_next_unsafe_same [OF t] by simp
    show ?thesis
    proof (cases "r1 = Inl StageEOF")
      case True
      then have s: "step_derived env prev q1 p e = (r, q', p', e')"
        using assms nofc False t unsafe_eof_engine [of env q e q1 e1] by (simp add: engine_step_def)
      obtain a where a: "eq_safe_attributes q1 = Some a" "adopts env a q1 e q' \<or> gives_up a q1 q'"
        using derived_adopts [OF s] adopts_same(3) [OF same, of q'] assms(2) by auto
      moreover have "eq_safe_attributes q = Some a" using a(1) same by (simp add: same_safe_def)
      ultimately show ?thesis
        using adopts_same(1) [OF same, of env a e q'] adopts_same(2) [OF same, of a q'] by auto
    next
      case noteof: False
      then have "q' = q1"
        using assms nofc False t by (cases r1; cases "projl r1") (auto simp: engine_step_def)
      then show ?thesis using same same_safe_heads assms(2) by blast
    qed
  qed
qed

section \<open>Guarantees of every step\<close>

text \<open>C27. The safe heads move only to derived blocks, and the safe head only with a whole span. When a step of the
  engine queue moves the safe or the pending safe head, then it used up the attributes on top of the pending one, and
  either it adopted a block, or it gave the span up. A block that is adopted is read as the new pending safe head, which
  becomes the safe head exactly with the last block of a span, or else the safe head stays; and the block is the engine's
  own at the next number and matches the attributes, parent included (consolidation), or the engine built it from the attributes
  on top of the pending safe head, the queue checked it, and the engine took it as valid and made it its head, and its safe
  head if the span ends (insertion), and then it is the new unsafe head too. A span is given up only if the attributes
  have more than deposits: the safe head stays and the pending one goes back to it.\<close>

theorem safe_head_span_atomic:
  assumes "engine_step env prev q p e = (r, q', p', e')"
    and "eq_safe_head q' \<noteq> eq_safe_head q \<or> eq_pending_safe_head q' \<noteq> eq_pending_safe_head q"
  shows "\<exists>a. eq_safe_attributes q = Some a \<and> awp_parent a = eq_pending_safe_head q \<and>
    eq_safe_attributes q' = None \<and>
    ((\<exists>pl. payload_to_block_ref (ee_l2 env) (rc_genesis (ee_cfg env)) pl = Inr (eq_pending_safe_head q') \<and>
        eq_safe_head q' = (if awp_last_in_span a then eq_pending_safe_head q' else eq_safe_head q) \<and>
        (consolidated_block env a q e pl \<or>
         inserted_block env a q e pl \<and> eq_unsafe_head q' = eq_pending_safe_head q')) \<or>
     (\<exists>tx \<in> set (at_transactions (awp_attributes a)). tx = [] \<or> hd tx \<noteq> deposit_tx_type) \<and>
       eq_safe_head q' = eq_safe_head q \<and> eq_pending_safe_head q' = eq_safe_head q)"
proof -
  obtain a where a: "eq_safe_attributes q = Some a" "adopts env a q e q' \<or> gives_up a q q'"
    using engine_step_adopts [OF assms(1)] assms(2) by (auto simp: same_heads_def)
  moreover have "awp_parent a = eq_pending_safe_head q" "eq_safe_attributes q' = None"
    using engine_step_moved [OF assms(1)] assms(2) a(1) by (auto simp: step_moved_def)
  ultimately show ?thesis unfolding adopts_def gives_up_def by blast
qed

definition demo_engine :: "unit engine" where
  "demo_engine = \<lparr>eng_forkchoice_update = (\<lambda>_ _ e. (Inr (ExecutionValid, None), e)),
     eng_new_payload = (\<lambda>_ e. (Inr ExecutionValid, e)), eng_get_payload = (\<lambda>_ e. (Inl EngineFailed, e)),
     eng_payload_by_number = (\<lambda>_ _. Inr
       \<lparr>pl_parent_hash = replicate 32 3, pl_prev_randao = [], pl_block_number = 0, pl_gas_limit = 5,
        pl_timestamp = 1000, pl_block_hash = replicate 32 2, pl_withdrawals = None,
        pl_transactions = [[126]]\<rparr>),
     eng_chain = (\<lambda>_. demo_chain (Inl RpcNotFound) (Inl RpcNotFound)),
     eng_system_config = (\<lambda>_ _. Inl RpcFailed)\<rparr>"

definition demo_engine_env :: "unit engine_env" where
  "demo_engine_env = \<lparr>ee_cfg = demo_config, ee_engine = demo_engine, ee_l1 = demo_l1_env,
     ee_l2 = demo_l2_env, ee_engine_sync = False, ee_skip_sync_start_check = False\<rparr>"

text \<open>The last attributes of a span, on top of a pending head below the unsafe one.\<close>

definition demo_attributes :: attributes_with_parent where
  "demo_attributes = \<lparr>awp_attributes = \<lparr>at_timestamp = 1000, at_prev_randao = [], at_fee_recipient = [],
       at_withdrawals = None, at_transactions = [[126]], at_no_tx_pool = True, at_gas_limit = Some 5\<rparr>,
     awp_parent = zero_l2_ref\<lparr>l2_hash := replicate 32 3\<rparr>, awp_last_in_span = True\<rparr>"

definition demo_engine_queue :: engine_queue where
  "demo_engine_queue = new_engine_queue
     \<lparr>eq_safe_attributes := Some demo_attributes, eq_pending_safe_head := awp_parent demo_attributes,
      eq_safe_head := awp_parent demo_attributes, eq_unsafe_head := demo_block1,
      eq_engine_sync_target := demo_block1\<rparr>"

lemma demo_engine_step:
  "\<exists>q'. engine_step demo_engine_env prev demo_engine_queue p e = (Inr (), q', p, e) \<and>
     eq_safe_head q' \<noteq> eq_safe_head demo_engine_queue \<and> l2_hash (eq_safe_head q') = replicate 32 2"
proof -
  have "try_next_safe_attributes demo_engine_env demo_engine_queue e =
      consolidate_next_safe_attributes demo_engine_env demo_attributes demo_engine_queue e"
    by (simp add: try_next_safe_attributes_def demo_engine_queue_def demo_attributes_def
        zero_l2_ref_def demo_block1_def)
  moreover have "\<exists>ref. payload_to_block_ref demo_l2_env (rc_genesis demo_config)
      \<lparr>pl_parent_hash = replicate 32 3, pl_prev_randao = [], pl_block_number = 0, pl_gas_limit = 5,
        pl_timestamp = 1000, pl_block_hash = replicate 32 2, pl_withdrawals = None,
        pl_transactions = [[126]]\<rparr> = Inr ref \<and> l2_hash ref = replicate 32 2"
    by (simp add: payload_to_block_ref_def demo_config_def)
  ultimately obtain q' where "try_next_safe_attributes demo_engine_env demo_engine_queue e = (Inr (), q', e)"
      "l2_hash (eq_safe_head q') = replicate 32 2"
    by (auto simp: consolidate_next_safe_attributes_def demo_engine_env_def demo_engine_def
        attributes_match_block_def demo_attributes_def withdrawals_match_def demo_engine_queue_def
        zero_l2_ref_def Let_def)
  moreover have "\<not> eq_need_forkchoice_update demo_engine_queue" "\<not> is_engine_syncing demo_engine_queue"
    "pq_heap (eq_unsafe_payloads demo_engine_queue) = []" "eq_safe_attributes demo_engine_queue \<noteq> None"
    "l2_hash (eq_safe_head demo_engine_queue) = replicate 32 3"
    by (simp_all add: demo_engine_queue_def new_engine_queue_def is_engine_syncing_def
        new_payloads_queue_def demo_attributes_def)
  ultimately show ?thesis by (auto simp: engine_step_def step_derived_def)
qed

definition demo_provider :: "unit attributes_provider" where
  "demo_provider = \<lparr>ap_origin = (\<lambda>_. demo_l1_block 1), ap_next = (\<lambda>_ p. (Inl StageEOF, p))\<rparr>"

theorem safe_head_span_atomic_witness:
  "\<exists>q' pl. engine_step demo_engine_env demo_provider demo_engine_queue () () = (Inr (), q', (), ()) \<and>
     consolidated_block demo_engine_env demo_attributes demo_engine_queue () pl \<and>
     payload_to_block_ref demo_l2_env (rc_genesis demo_config) pl = Inr (eq_safe_head q') \<and>
     eq_safe_head q' = eq_pending_safe_head q'"
proof -
  obtain q' where q': "engine_step demo_engine_env demo_provider demo_engine_queue () () = (Inr (), q', (), ())"
      "eq_safe_head q' \<noteq> eq_safe_head demo_engine_queue"
    using demo_engine_step [of demo_provider "()" "()"] by blast
  have a: "eq_safe_attributes demo_engine_queue = Some demo_attributes" "awp_last_in_span demo_attributes"
    by (simp_all add: demo_engine_queue_def demo_attributes_def)
  have none: "\<not> inserted_block demo_engine_env demo_attributes demo_engine_queue () pl" for pl
    by (simp add: inserted_block_def demo_engine_env_def demo_engine_def)
  have "ee_l2 demo_engine_env = demo_l2_env" "ee_cfg demo_engine_env = demo_config"
    by (simp_all add: demo_engine_env_def)
  then show ?thesis using safe_head_span_atomic [OF q'(1)] q' a none by auto
qed

text \<open>The three ways the finalized head is touched.\<close>

lemma finalized_moves:
  shows "engine_step env prev q p e = (r, q', p', e') \<Longrightarrow>
      eq_finalized q' = eq_finalized q \<or>
      (\<exists>fd \<in> set (eq_finality_data q'). eq_finalized q' = fd_l2_block fd \<and>
         bid_number (fd_l1_block fd) \<le> l1_number (eq_finalized_l1 q') \<and>
         l2_number (eq_finalized q) \<le> l2_number (eq_finalized q'))"
    and "eq_finalized (finalize l1Origin q) = eq_finalized q \<or>
      (\<exists>fd \<in> set (eq_finality_data q). eq_finalized (finalize l1Origin q) = fd_l2_block fd \<and>
         bid_number (fd_l1_block fd) \<le> l1_number l1Origin \<and>
         l2_number (eq_finalized q) \<le> l2_number (eq_finalized (finalize l1Origin q)))"
    and "l1Origin \<noteq> zero_l1_ref \<Longrightarrow> l1_number l1Origin \<ge> l1_number (eq_finalized_l1 q) \<Longrightarrow>
      l1_id l1Origin \<in> fd_l1_block ` set (eq_finality_data q) \<Longrightarrow> fd \<in> set (eq_finality_data q) \<Longrightarrow>
      bid_number (fd_l1_block fd) \<le> l1_number l1Origin \<Longrightarrow>
      l2_number (fd_l2_block fd) \<le> l2_number (eq_finalized (finalize l1Origin q))"
proof -
  show "engine_step env prev q p e = (r, q', p', e') \<Longrightarrow>
      eq_finalized q' = eq_finalized q \<or>
      (\<exists>fd \<in> set (eq_finality_data q'). eq_finalized q' = fd_l2_block fd \<and>
         bid_number (fd_l1_block fd) \<le> l1_number (eq_finalized_l1 q') \<and>
         l2_number (eq_finalized q) \<le> l2_number (eq_finalized q'))"
    using engine_step_moved [of env prev q p e r q' p' e'] unfolding step_moved_def finalized_from_def by blast
  define q1 where "q1 = q\<lparr>eq_finalized_l1 := l1Origin\<rparr>"
  have f: "finalize l1Origin q = (if l1_number l1Origin < l1_number (eq_finalized_l1 q) then q
      else if l1_id l1Origin \<in> fd_l1_block ` set (eq_finality_data q) then try_finalize_l2 q1 else q1)"
    by (simp add: finalize_def q1_def)
  show "eq_finalized (finalize l1Origin q) = eq_finalized q \<or>
      (\<exists>fd \<in> set (eq_finality_data q). eq_finalized (finalize l1Origin q) = fd_l2_block fd \<and>
         bid_number (fd_l1_block fd) \<le> l1_number l1Origin \<and>
         l2_number (eq_finalized q) \<le> l2_number (eq_finalized (finalize l1Origin q)))"
    using try_finalize_ok(3,5,7) [of q1] by (auto simp: f finalized_from_def q1_def)
  assume a: "l1Origin \<noteq> zero_l1_ref" "l1_number l1Origin \<ge> l1_number (eq_finalized_l1 q)"
    "l1_id l1Origin \<in> fd_l1_block ` set (eq_finality_data q)" "fd \<in> set (eq_finality_data q)"
    "bid_number (fd_l1_block fd) \<le> l1_number l1Origin"
  then have "finalize l1Origin q = try_finalize_l2 q1" by (simp add: f not_less)
  then show "l2_number (fd_l2_block fd) \<le> l2_number (eq_finalized (finalize l1Origin q))"
    using try_finalize_fold [of "eq_finality_data q1" "q1\<lparr>eq_tried_finalize_at := eq_origin q1\<rparr>"] a
    by (simp add: try_finalize_l2_def) (simp add: q1_def)
qed

text \<open>C28. Only blocks derived from finalized L1 data are finalized. A finality signal, and every step
  of the queue, leaves the finalized head or moves it forward to a block that the queue
  recorded as the safe head while it was at an L1 block not above the finalized L1 block; a
  signal that matches a recorded L1 block finalizes the highest such block.\<close>

theorem finalizes_derived_blocks:
  "(engine_step env prev q p e = (r, q', p', e') \<longrightarrow>
      eq_finalized q' = eq_finalized q \<or>
      (\<exists>fd \<in> set (eq_finality_data q'). eq_finalized q' = fd_l2_block fd \<and>
         bid_number (fd_l1_block fd) \<le> l1_number (eq_finalized_l1 q') \<and>
         l2_number (eq_finalized q) \<le> l2_number (eq_finalized q'))) \<and>
   (eq_finalized (finalize l1Origin q) = eq_finalized q \<or>
      (\<exists>fd \<in> set (eq_finality_data q). eq_finalized (finalize l1Origin q) = fd_l2_block fd \<and>
         bid_number (fd_l1_block fd) \<le> l1_number l1Origin \<and>
         l2_number (eq_finalized q) \<le> l2_number (eq_finalized (finalize l1Origin q)))) \<and>
   (l1Origin \<noteq> zero_l1_ref \<and> l1_number l1Origin \<ge> l1_number (eq_finalized_l1 q) \<and>
      l1_id l1Origin \<in> fd_l1_block ` set (eq_finality_data q) \<and> fd \<in> set (eq_finality_data q) \<and>
      bid_number (fd_l1_block fd) \<le> l1_number l1Origin \<longrightarrow>
      l2_number (fd_l2_block fd) \<le> l2_number (eq_finalized (finalize l1Origin q)))"
  using finalized_moves(1) [of env prev q p e r q' p' e'] finalized_moves(2) [of l1Origin q]
    finalized_moves(3) [of l1Origin q fd] by blast

theorem finalizes_derived_blocks_witness:
  "demo_block1 = fd_l2_block \<lparr>fd_l2_block = demo_block1, fd_l1_block = l1_id (demo_l1_block 1)\<rparr> \<and>
   l2_number demo_block1 \<le> l2_number (eq_finalized (finalize (demo_l1_block 1)
     (new_engine_queue\<lparr>eq_finality_data := [\<lparr>fd_l2_block = demo_block1, fd_l1_block = l1_id (demo_l1_block 1)\<rparr>]\<rparr>))) \<and>
   (\<exists>q'. engine_step demo_engine_env demo_provider demo_engine_queue () () = (Inr (), q', (), ()) \<and>
     (eq_finalized q' = zero_l2_ref \<or> (\<exists>fd \<in> set (eq_finality_data q'). eq_finalized q' = fd_l2_block fd)))"
proof -
  obtain q' where q': "engine_step demo_engine_env demo_provider demo_engine_queue () () = (Inr (), q', (), ())"
    using demo_engine_step [of demo_provider "()" "()"] by blast
  have "eq_finalized demo_engine_queue = zero_l2_ref"
    by (simp add: demo_engine_queue_def new_engine_queue_def)
  then have a: "eq_finalized q' = zero_l2_ref \<or> (\<exists>fd \<in> set (eq_finality_data q'). eq_finalized q' = fd_l2_block fd)"
    using finalizes_derived_blocks [THEN conjunct1, rule_format, OF q'] by auto
  define fd where "fd = \<lparr>fd_l2_block = demo_block1, fd_l1_block = l1_id (demo_l1_block 1)\<rparr>"
  have "l2_number (fd_l2_block fd) \<le> l2_number (eq_finalized (finalize (demo_l1_block 1)
     (new_engine_queue\<lparr>eq_finality_data := [fd]\<rparr>)))"
    by (rule finalizes_derived_blocks [THEN conjunct2, THEN conjunct2, rule_format])
       (simp add: fd_def l1_id_def demo_l1_block_def zero_l1_ref_def new_engine_queue_def)
  then show ?thesis using a q' by (auto simp: fd_def)
qed

section \<open>Bounded buffers\<close>

inductive engine_op :: "'e engine_env \<Rightarrow> 'p attributes_provider \<Rightarrow> engine_queue \<Rightarrow> engine_queue \<Rightarrow> bool"
  for env prev where
  op_step: "engine_step env prev q p e = (r, q', p', e') \<Longrightarrow> engine_op env prev q q'"
| op_finalize: "engine_op env prev q (finalize l1Origin q)"
| op_add: "add_unsafe_payload pl q = Some (Inr q') \<Longrightarrow> engine_op env prev q q'"
| op_start: "queue_start_payload env parent attrs s q e = (r, q', e') \<Longrightarrow> engine_op env prev q q'"
| op_confirm: "queue_confirm_payload env q e = (r, q', e') \<Longrightarrow> engine_op env prev q q'"
| op_cancel: "queue_cancel_payload env f q e = (r, q', e') \<Longrightarrow> engine_op env prev q q'"
| op_set_unsafe: "engine_op env prev q (q\<lparr>eq_unsafe_head := ref\<rparr>)"
| op_set_target: "engine_op env prev q (q\<lparr>eq_engine_sync_target := ref\<rparr>)"
| op_reset: "engine_reset env q e = Some (r, q') \<Longrightarrow> engine_op env prev q q'"

definition queue_inv :: "engine_queue \<Rightarrow> bool" where
  "queue_inv q \<longleftrightarrow>
     finality_ok (eq_finality_data q) \<and> payloads_inv (eq_unsafe_payloads q) \<and>
     pq_max_size (eq_unsafe_payloads q) = max_unsafe_payloads_memory"

lemma pop_max_size: "pq_max_size (snd (payloads_pop pq)) = pq_max_size pq"
  by (simp add: payloads_pop_def split: prod.splits)

lemma same_payloads_inv:
  "same_payloads q q' \<Longrightarrow> payloads_inv (eq_unsafe_payloads q) \<Longrightarrow>
   payloads_inv (eq_unsafe_payloads q') \<and> pq_max_size (eq_unsafe_payloads q') = pq_max_size (eq_unsafe_payloads q)"
  by (auto simp: same_payloads_def pop_max_size intro: payloads_pop_inv)

lemma reset_at_cases:
  assumes "reset_at env h q e = Some (r, q')"
  shows "q' = q \<or> (\<exists>orig sys. q' = reset_to h orig sys q \<and> r = Inl StageEOF)"
proof (cases "l1_by_hash (ee_l1 env) (bid_hash (l2_l1_origin (h_safe h)))")
  case (Inl err)
  then show ?thesis using assms by (simp add: reset_at_def)
next
  case (Inr l1Origin)
  show ?thesis
  proof (cases "l2_time (h_safe h) < l1_time l1Origin")
    case True
    then show ?thesis using assms Inr by (simp add: reset_at_def)
  next
    case False
    then obtain z where z: "pipeline_start (ee_cfg env) (eng_chain (ee_engine env) e)
        (l1_number l1Origin) (h_safe h) = Some z"
      using assms Inr by (auto simp: reset_at_def)
    then show ?thesis using assms Inr False
      by (cases z) (auto simp: reset_at_def split: sum.splits)
  qed
qed

lemma reset_cases:
  assumes "engine_reset env q e = Some (r, q')"
  shows "q' = q \<or> (\<exists>h orig sys. q' = reset_to h orig sys q \<and> r = Inl StageEOF)"
proof -
  obtain z where z: "find_l2_heads (ee_l1 env) (eng_chain (ee_engine env) e) (ee_cfg env)
      (ee_skip_sync_start_check env) = Some z"
    using assms by (auto simp: engine_reset_def Option.bind_eq_Some_conv)
  show ?thesis
  proof (cases z)
    case (Inl err)
    then show ?thesis using assms z by (simp add: engine_reset_def)
  next
    case (Inr h)
    then have "reset_at env h q e = Some (r, q')" using assms z by (simp add: engine_reset_def)
    from reset_at_cases [OF this] show ?thesis by blast
  qed
qed

lemma add_unsafe_payload_ok:
  assumes "payloads_inv (eq_unsafe_payloads q)"
  shows "\<exists>q'. add_unsafe_payload (Some pl) q = Some (Inr q') \<and> payloads_inv (eq_unsafe_payloads q') \<and>
    pq_max_size (eq_unsafe_payloads q') = pq_max_size (eq_unsafe_payloads q) \<and>
    eq_finality_data q' = eq_finality_data q"
proof -
  define pq where "pq = eq_unsafe_payloads q"
  define sz where "sz = (\<lambda>x. payload_mem_size (Some x))"
  show ?thesis
  proof (cases "pl_block_hash pl \<in> pq_block_hashes pq \<or> sz pl > pq_max_size pq")
    case True
    then have "\<exists>err. payloads_push sz (Some pl) pq = Some (Inl err)"
      by (auto simp: payloads_push_def)
    then show ?thesis using assms by (auto simp: add_unsafe_payload_def pq_def sz_def)
  next
    case False
    have i: "payloads_inv pq" using assms by (simp add: pq_def)
    obtain pq' dropped where p: "payloads_push sz (Some pl) pq = Some (Inr pq')" "payloads_inv pq'"
        "pq_max_size pq' = pq_max_size pq"
        "add_mset (pl, sz pl) (mset (pq_heap pq)) = mset (pq_heap pq') + dropped"
        "dropped \<noteq> {#} \<longrightarrow>
          (\<exists>d \<in># dropped. unat (pq_max_size pq) < heap_mem (mset (pq_heap pq')) + unat (snd d))"
      using payloads_push_ok [OF i, of pl sz] False by blast
    have "pq_heap pq' \<noteq> []"
    proof
      assume e: "pq_heap pq' = []"
      then have d: "dropped = add_mset (pl, sz pl) (mset (pq_heap pq))" using p(4) by simp
      then have "\<exists>x \<in># dropped. unat (pq_max_size pq) < unat (snd x)" using p(5) e by simp
      then obtain x where x: "x \<in># add_mset (pl, sz pl) (mset (pq_heap pq))" "unat (pq_max_size pq) < unat (snd x)"
        unfolding d by blast
      have "unat (snd x) \<le> unat (pq_max_size pq)"
      proof (cases "x = (pl, sz pl)")
        case True
        then show ?thesis using False by (simp add: word_le_nat_alt not_less)
      next
        case False
        then have "x \<in># mset (pq_heap pq)" using x(1) by auto
        then obtain M where "mset (pq_heap pq) = add_mset x M" by (rule mset_add)
        then have "unat (snd x) \<le> unat (pq_current_size pq)"
          using i by (simp add: payloads_inv_def heap_state_def)
        then show ?thesis using i by (simp add: payloads_inv_def word_le_nat_alt)
      qed
      then show False using x(2) by simp
    qed
    then have "payloads_peek pq' \<noteq> None" by (simp add: payloads_peek_def split: list.splits)
    then have "add_unsafe_payload (Some pl) q = Some (Inr (q\<lparr>eq_unsafe_payloads := pq'\<rparr>))"
      using p(1) by (simp add: add_unsafe_payload_def pq_def sz_def)
    then show ?thesis using p(2,3) by (simp add: pq_def)
  qed
qed

lemma engine_op_inv: "engine_op env prev q q' \<Longrightarrow> queue_inv q \<Longrightarrow> queue_inv q'"
proof (induction rule: engine_op.induct)
  case (op_step q p e r q' p' e')
  then show ?case using engine_step_moved [OF op_step(1)] same_payloads_inv
    by (auto simp: queue_inv_def step_moved_def)
next
  case (op_finalize q l1Origin)
  then show ?case using try_finalize_ok(3,6) by (simp add: finalize_def queue_inv_def Let_def)
next
  case (op_add pl q q')
  then show ?case
  proof (cases pl)
    case (Some p)
    then show ?thesis using op_add add_unsafe_payload_ok [of q p] by (auto simp: queue_inv_def)
  qed (use op_add in \<open>simp add: add_unsafe_payload_def\<close>)
next
  case (op_start parent attrs s q e r q' e')
  then show ?case using start_payload_same [OF op_start(1)] start_fields [OF op_start(1)]
    by (simp add: queue_inv_def same_safe_def)
next
  case (op_confirm q e r q' e')
  then show ?case using confirm_cases [OF op_confirm(1)] adopt_built_finality
    by (auto simp: queue_inv_def adopt_built_fields)
next
  case (op_cancel f q e r q' e')
  then show ?case using cancel_payload_same [OF op_cancel(1)] cancel_payloads [OF op_cancel(1)]
    by (simp add: queue_inv_def same_safe_def)
next
  case (op_reset q e r q')
  then show ?case using reset_cases [OF op_reset(1)]
    by (auto simp: queue_inv_def reset_to_def finality_ok_def)
qed (simp_all add: queue_inv_def)

lemma new_engine_queue_inv: "queue_inv new_engine_queue"
proof -
  have "payloads_inv (new_payloads_queue max_unsafe_payloads_memory)"
    by (rule payloads_new_inv) (simp add: max_unsafe_payloads_memory_def)
  moreover have "pq_max_size (new_payloads_queue n) = n" for n by (simp add: new_payloads_queue_def)
  ultimately show ?thesis by (simp add: queue_inv_def new_engine_queue_def finality_ok_def)
qed

interpretation engine_machine:
  machine "\<lambda>q. q = new_engine_queue" "engine_op env prev" queue_inv for env prev
  by unfold_locales (simp add: new_engine_queue_inv, rule engine_op_inv)

text \<open>What the invariant gives.\<close>

lemma queue_inv_limits:
  assumes i: "queue_inv q"
  shows "length (eq_finality_data q) \<le> 129 \<and>
    sorted_wrt (<) (map (\<lambda>fd. unat (bid_number (fd_l1_block fd))) (eq_finality_data q)) \<and>
    heap_mem (mset (pq_heap (eq_unsafe_payloads q))) \<le> 500 * 1024 * 1024 \<and>
    distinct (map (\<lambda>x. pl_block_hash (fst x)) (pq_heap (eq_unsafe_payloads q)))"
proof -
  have "pq_current_size (eq_unsafe_payloads q) \<le> max_unsafe_payloads_memory"
    "heap_mem (mset (pq_heap (eq_unsafe_payloads q))) = unat (pq_current_size (eq_unsafe_payloads q))"
    using i by (auto simp: queue_inv_def payloads_inv_def heap_state_def)
  then have "heap_mem (mset (pq_heap (eq_unsafe_payloads q))) \<le> 500 * 1024 * 1024"
    by (simp add: max_unsafe_payloads_memory_def word_le_nat_alt)
  moreover have "distinct (map (\<lambda>x. pl_block_hash (fst x)) (pq_heap (eq_unsafe_payloads q)))"
    using i by (simp add: queue_inv_def payloads_inv_def known_hashes_but)
  ultimately show ?thesis using i by (simp add: queue_inv_def finality_ok_def finality_lookback_def)
qed

lemma engine_queue_limits:
  assumes "reach (\<lambda>q. q = new_engine_queue) (engine_op env prev) q"
  shows "queue_inv q \<and> (\<exists>q'. add_unsafe_payload (Some pl) q = Some (Inr q'))"
proof -
  have i: "queue_inv q" using engine_machine.reach_inv [OF assms] .
  then show ?thesis using add_unsafe_payload_ok by (auto simp: queue_inv_def)
qed

end
