(* ===== verification/Batcher_Compressor.thy ===== *)
theory Batcher_Compressor
  imports Prelude
begin

text \<open>
  The compressors of the batcher (\<^verbatim>\<open>bl-batcher/compressor/{ratio,shadow}_compressor.go\<close>) and
  their interface (\<^verbatim>\<open>Compressor\<close> in \<^verbatim>\<open>bl-node/rollup/derive/channel_out.go\<close>). The \<^verbatim>\<open>zlib\<close> writer is a
  parameter: what it emits into the buffer on a write, a flush and a close. That the emitted bytes
  inflate to what was written, once flushed or closed, is \<open>zlib_ok\<close>.
\<close>

section \<open>The zlib writer\<close>

record 'z zlib =
  zl_new :: 'z
  zl_write :: "byte list \<Rightarrow> 'z \<Rightarrow> byte list \<times> 'z"
  zl_flush :: "'z \<Rightarrow> byte list \<times> 'z"
  zl_close :: "'z \<Rightarrow> byte list \<times> 'z"

text \<open>\<open>zlib_run Z opn s w out\<close>: a writer in state \<open>s\<close> has taken \<open>w\<close> and emitted \<open>out\<close>, and is open or
  closed. Only an open writer is written to, flushed and closed: Go's writer refuses data after \<^verbatim>\<open>Close\<close>. That the channels
  keep to this is part of their contract with the compressor below.\<close>

inductive zlib_run :: "'z zlib \<Rightarrow> bool \<Rightarrow> 'z \<Rightarrow> byte list \<Rightarrow> byte list \<Rightarrow> bool" for Z where
  run_new: "zlib_run Z True (zl_new Z) [] []"
| run_write: "zlib_run Z True s w out \<Longrightarrow> zl_write Z d s = (b, s') \<Longrightarrow> zlib_run Z True s' (w @ d) (out @ b)"
| run_flush: "zlib_run Z True s w out \<Longrightarrow> zl_flush Z s = (b, s') \<Longrightarrow> zlib_run Z True s' w (out @ b)"
| run_close: "zlib_run Z True s w out \<Longrightarrow> zl_close Z s = (b, s') \<Longrightarrow> zlib_run Z False s' w (out @ b)"

text \<open>What a reader gets out of the emitted bytes, up to the end of the stream or of the bytes, is what was written, once the
  writer was flushed or closed. \<open>inflate\<close> is the reader.\<close>

definition zlib_ok :: "'z zlib \<Rightarrow> (byte list \<Rightarrow> byte list) \<Rightarrow> bool" where
  "zlib_ok Z inflate \<longleftrightarrow>
     inflate [] = [] \<and>
     (\<forall>s w out b s'. zlib_run Z True s w out \<and> (zl_flush Z s = (b, s') \<or> zl_close Z s = (b, s')) \<longrightarrow>
        inflate (out @ b) = w)"

section \<open>The interface\<close>

text \<open>A write takes all of its data, or none of it when the compressor is full. \<^verbatim>\<open>Read\<close> hands out
  buffered bytes.\<close>

datatype compress_err = CompressorFullErr

record 'c compressor =
  cmp_write :: "byte list \<Rightarrow> 'c \<Rightarrow> (compress_err + nat) \<times> 'c"
  cmp_close :: "'c \<Rightarrow> 'c"
  cmp_read :: "nat \<Rightarrow> 'c \<Rightarrow> byte list \<times> 'c"
  cmp_reset :: "'c \<Rightarrow> 'c"
  cmp_len :: "'c \<Rightarrow> nat"
  cmp_flush :: "'c \<Rightarrow> 'c"
  cmp_full :: "'c \<Rightarrow> bool"

section \<open>The ratio compressor\<close>

text \<open>\<open>threshold\<close> is \<^verbatim>\<open>InputThreshold\<close>, computed from the configuration in floating point.\<close>

record 'z ratio =
  ra_input_bytes :: nat
  ra_buf :: "byte list"
  ra_compress :: 'z

definition new_ratio :: "'z zlib \<Rightarrow> 'z ratio" where
  "new_ratio Z = \<lparr>ra_input_bytes = 0, ra_buf = [], ra_compress = zl_new Z\<rparr>"

definition ratio_full :: "u64 \<Rightarrow> 'z ratio \<Rightarrow> bool" where
  "ratio_full threshold t \<longleftrightarrow> of_nat (ra_input_bytes t) \<ge> threshold"

definition ratio_write :: "'z zlib \<Rightarrow> u64 \<Rightarrow> byte list \<Rightarrow> 'z ratio \<Rightarrow> (compress_err + nat) \<times> 'z ratio" where
  "ratio_write Z threshold p t =
     (if ratio_full threshold t then (Inl CompressorFullErr, t)
      else case zl_write Z p (ra_compress t) of (b, z) \<Rightarrow>
        (Inr (length p),
         t\<lparr>ra_input_bytes := ra_input_bytes t + length p, ra_buf := ra_buf t @ b, ra_compress := z\<rparr>))"

definition ratio_close :: "'z zlib \<Rightarrow> 'z ratio \<Rightarrow> 'z ratio" where
  "ratio_close Z t =
     (case zl_close Z (ra_compress t) of (b, z) \<Rightarrow> t\<lparr>ra_buf := ra_buf t @ b, ra_compress := z\<rparr>)"

definition ratio_read :: "nat \<Rightarrow> 'z ratio \<Rightarrow> byte list \<times> 'z ratio" where
  "ratio_read n t = (take n (ra_buf t), t\<lparr>ra_buf := drop n (ra_buf t)\<rparr>)"

definition ratio_reset :: "'z zlib \<Rightarrow> 'z ratio \<Rightarrow> 'z ratio" where
  "ratio_reset Z t = t\<lparr>ra_buf := [], ra_compress := zl_new Z, ra_input_bytes := 0\<rparr>"

definition ratio_flush :: "'z zlib \<Rightarrow> 'z ratio \<Rightarrow> 'z ratio" where
  "ratio_flush Z t =
     (case zl_flush Z (ra_compress t) of (b, z) \<Rightarrow> t\<lparr>ra_buf := ra_buf t @ b, ra_compress := z\<rparr>)"

definition ratio_compressor :: "'z zlib \<Rightarrow> u64 \<Rightarrow> 'z ratio compressor" where
  "ratio_compressor Z threshold =
     \<lparr>cmp_write = ratio_write Z threshold, cmp_close = ratio_close Z, cmp_read = ratio_read,
      cmp_reset = ratio_reset Z, cmp_len = (\<lambda>t. length (ra_buf t)), cmp_flush = ratio_flush Z,
      cmp_full = ratio_full threshold\<rparr>"

section \<open>The shadow compressor\<close>

text \<open>The shadow copy is flushed on every write and only measures; it refuses a write that would
  exceed the target, except the first. \<open>target\<close> is \<^verbatim>\<open>TargetFrameSize*uint64(TargetNumFrames)\<close>.\<close>

record 'z shadow =
  sh_buf :: "byte list"
  sh_compress :: 'z
  sh_shadow_buf :: "byte list"
  sh_shadow_compress :: 'z
  sh_full_err :: bool

definition new_shadow :: "'z zlib \<Rightarrow> 'z shadow" where
  "new_shadow Z = \<lparr>sh_buf = [], sh_compress = zl_new Z, sh_shadow_buf = [],
     sh_shadow_compress = zl_new Z, sh_full_err = False\<rparr>"

definition shadow_measure :: "'z zlib \<Rightarrow> byte list \<Rightarrow> 'z shadow \<Rightarrow> 'z shadow" where
  "shadow_measure Z p t =
     (case zl_write Z p (sh_shadow_compress t) of (b, z) \<Rightarrow>
      case zl_flush Z z of (b', z') \<Rightarrow>
        t\<lparr>sh_shadow_buf := sh_shadow_buf t @ b @ b', sh_shadow_compress := z'\<rparr>)"

definition shadow_write :: "'z zlib \<Rightarrow> u64 \<Rightarrow> byte list \<Rightarrow> 'z shadow \<Rightarrow> (compress_err + nat) \<times> 'z shadow" where
  "shadow_write Z target p t =
     (let t1 = shadow_measure Z p t;
          over = of_nat (length (sh_shadow_buf t1)) > target;
          t2 = (if over then t1\<lparr>sh_full_err := True\<rparr> else t1)
      in if over \<and> length (sh_buf t2) > 0 then (Inl CompressorFullErr, t2)
         else case zl_write Z p (sh_compress t2) of (b, z) \<Rightarrow>
           (Inr (length p), t2\<lparr>sh_buf := sh_buf t2 @ b, sh_compress := z\<rparr>))"

definition shadow_close :: "'z zlib \<Rightarrow> 'z shadow \<Rightarrow> 'z shadow" where
  "shadow_close Z t =
     (case zl_close Z (sh_compress t) of (b, z) \<Rightarrow> t\<lparr>sh_buf := sh_buf t @ b, sh_compress := z\<rparr>)"

definition shadow_read :: "nat \<Rightarrow> 'z shadow \<Rightarrow> byte list \<times> 'z shadow" where
  "shadow_read n t = (take n (sh_buf t), t\<lparr>sh_buf := drop n (sh_buf t)\<rparr>)"

definition shadow_reset :: "'z zlib \<Rightarrow> 'z shadow \<Rightarrow> 'z shadow" where
  "shadow_reset Z t = t\<lparr>sh_buf := [], sh_compress := zl_new Z, sh_shadow_buf := [],
     sh_shadow_compress := zl_new Z, sh_full_err := False\<rparr>"

definition shadow_flush :: "'z zlib \<Rightarrow> 'z shadow \<Rightarrow> 'z shadow" where
  "shadow_flush Z t =
     (case zl_flush Z (sh_compress t) of (b, z) \<Rightarrow> t\<lparr>sh_buf := sh_buf t @ b, sh_compress := z\<rparr>)"

definition shadow_compressor :: "'z zlib \<Rightarrow> u64 \<Rightarrow> 'z shadow compressor" where
  "shadow_compressor Z target =
     \<lparr>cmp_write = shadow_write Z target, cmp_close = shadow_close Z, cmp_read = shadow_read,
      cmp_reset = shadow_reset Z, cmp_len = (\<lambda>t. length (sh_buf t)), cmp_flush = shadow_flush Z,
      cmp_full = sh_full_err\<rparr>"

section \<open>The contract\<close>

text \<open>\<open>took opn c w out buf\<close>: since its reset the compressor took \<open>w\<close>, handed out \<open>out\<close>, and holds
  \<open>buf\<close>, and it is open or closed. After a flush or a close, what was handed out and what it holds inflate to \<open>w\<close>. A
  compressor that is not full takes the first write after a reset.\<close>

locale compressing =
  fixes C :: "'c compressor"
    and took :: "bool \<Rightarrow> 'c \<Rightarrow> byte list \<Rightarrow> byte list \<Rightarrow> byte list \<Rightarrow> bool"
    and inflate :: "byte list \<Rightarrow> byte list"
  assumes inflate_Nil: "took opn c w out buf \<Longrightarrow> inflate [] = []"
    and took_len: "took opn c w out buf \<Longrightarrow> cmp_len C c = length buf"
    and took_write: "took True c w out buf \<Longrightarrow> cmp_write C d c = (r, c') \<Longrightarrow>
      (case r of Inl _ \<Rightarrow> took True c' w out buf | Inr n \<Rightarrow> n = length d \<and> (\<exists>b. took True c' (w @ d) out (buf @ b)))"
    and took_flush: "took True c w out buf \<Longrightarrow>
      \<exists>b. took True (cmp_flush C c) w out (buf @ b) \<and> inflate (out @ buf @ b) = w"
    and took_close: "took True c w out buf \<Longrightarrow>
      \<exists>b. took False (cmp_close C c) w out (buf @ b) \<and> inflate (out @ buf @ b) = w"
    and took_read: "took opn c w out buf \<Longrightarrow> cmp_read C n c = (d, c') \<Longrightarrow>
      d = take n buf \<and> took opn c' w (out @ d) (drop n buf)"
    and took_reset: "took opn c w out buf \<Longrightarrow> took True (cmp_reset C c) [] [] []"
    and full_flush: "cmp_full C (cmp_flush C c) = cmp_full C c"
    and full_read: "cmp_read C n c = (d, c') \<Longrightarrow> cmp_full C c' = cmp_full C c"
    and reset_write: "took opn c w out buf \<Longrightarrow> \<not> cmp_full C c \<Longrightarrow>
      \<exists>n c'. cmp_write C d (cmp_reset C c) = (Inr n, c')"
begin

lemma took_write_ok:
  "took True c w out buf \<Longrightarrow> cmp_write C d c = (Inr n, c') \<Longrightarrow> \<exists>b. took True c' (w @ d) out (buf @ b)"
  using took_write by fastforce

lemma took_write_full:
  "took True c w out buf \<Longrightarrow> cmp_write C d c = (Inl e, c') \<Longrightarrow> took True c' w out buf"
  using took_write by fastforce

end

definition ratio_took ::
  "'z zlib \<Rightarrow> (byte list \<Rightarrow> byte list) \<Rightarrow> bool \<Rightarrow> 'z ratio \<Rightarrow> byte list \<Rightarrow> byte list \<Rightarrow> byte list \<Rightarrow> bool" where
  "ratio_took Z inflate opn c w out buf \<longleftrightarrow>
     zlib_ok Z inflate \<and> zlib_run Z opn (ra_compress c) w (out @ buf) \<and> ra_buf c = buf"

definition shadow_took ::
  "'z zlib \<Rightarrow> (byte list \<Rightarrow> byte list) \<Rightarrow> bool \<Rightarrow> 'z shadow \<Rightarrow> byte list \<Rightarrow> byte list \<Rightarrow> byte list \<Rightarrow> bool" where
  "shadow_took Z inflate opn c w out buf \<longleftrightarrow>
     zlib_ok Z inflate \<and> zlib_run Z opn (sh_compress c) w (out @ buf) \<and> sh_buf c = buf"

lemma run_append:
  "zlib_run Z True s w (out @ buf) \<Longrightarrow> zl_write Z d s = (b, s') \<Longrightarrow> zlib_run Z True s' (w @ d) (out @ buf @ b)"
  "zlib_run Z True s w (out @ buf) \<Longrightarrow> zl_flush Z s = (b, s') \<Longrightarrow> zlib_run Z True s' w (out @ buf @ b)"
  "zlib_run Z True s w (out @ buf) \<Longrightarrow> zl_close Z s = (b, s') \<Longrightarrow> zlib_run Z False s' w (out @ buf @ b)"
  using run_write [of Z s w "out @ buf"] run_flush [of Z s w "out @ buf"]
    run_close [of Z s w "out @ buf"] by simp_all

lemma zlib_ok_inflates:
  "zlib_ok Z inflate \<Longrightarrow> zlib_run Z True s w (out @ buf) \<Longrightarrow> zl_flush Z s = (b, s') \<Longrightarrow> inflate (out @ buf @ b) = w"
  "zlib_ok Z inflate \<Longrightarrow> zlib_run Z True s w (out @ buf) \<Longrightarrow> zl_close Z s = (b, s') \<Longrightarrow> inflate (out @ buf @ b) = w"
  "zlib_ok Z inflate \<Longrightarrow> inflate [] = []"
  unfolding zlib_ok_def by (metis append.assoc)+

lemma shadow_measure_same [simp]:
  "sh_buf (shadow_measure Z p t) = sh_buf t" "sh_compress (shadow_measure Z p t) = sh_compress t"
  by (simp_all add: shadow_measure_def split: prod.splits)

lemma ratio_write_took:
  "ratio_took Z inflate True c w out buf \<Longrightarrow> ratio_write Z threshold d c = (r, c') \<Longrightarrow>
   (case r of Inl _ \<Rightarrow> ratio_took Z inflate True c' w out buf
    | Inr n \<Rightarrow> n = length d \<and> (\<exists>b. ratio_took Z inflate True c' (w @ d) out (buf @ b)))"
  by (auto simp: ratio_took_def ratio_write_def run_append split: if_splits prod.splits)

lemma shadow_write_took:
  "shadow_took Z inflate True c w out buf \<Longrightarrow> shadow_write Z target d c = (r, c') \<Longrightarrow>
   (case r of Inl _ \<Rightarrow> shadow_took Z inflate True c' w out buf
    | Inr n \<Rightarrow> n = length d \<and> (\<exists>b. shadow_took Z inflate True c' (w @ d) out (buf @ b)))"
  by (auto simp: shadow_took_def shadow_write_def run_append Let_def intro: run_write
      split: if_splits prod.splits)

interpretation ratio: compressing "ratio_compressor Z threshold" "ratio_took Z inflate" inflate
  for Z threshold inflate
proof (unfold_locales, goal_cases)
  case (3 c w out buf d r c')
  then show ?case using ratio_write_took [of Z inflate c w out buf threshold d r c']
    by (simp add: ratio_compressor_def)
next
  case (4 c w out buf)
  then show ?case
    by (cases "zl_flush Z (ra_compress c)")
       (auto simp: ratio_compressor_def ratio_took_def ratio_flush_def run_append zlib_ok_inflates)
next
  case (5 c w out buf)
  then show ?case
    by (cases "zl_close Z (ra_compress c)")
       (auto simp: ratio_compressor_def ratio_took_def ratio_close_def run_append zlib_ok_inflates)
next
  case (6 opn c w out buf n d c')
  then show ?case by (auto simp: ratio_compressor_def ratio_took_def ratio_read_def)
next
  case (8 c)
  then show ?case by (simp add: ratio_compressor_def ratio_flush_def ratio_full_def split: prod.splits)
next
  case (9 n c d c')
  then show ?case by (auto simp: ratio_compressor_def ratio_read_def ratio_full_def)
next
  case (10 opn c w out buf d)
  then have "\<not> ratio_full threshold (ratio_reset Z c)"
    using word_zero_le order_trans by (fastforce simp: ratio_compressor_def ratio_full_def ratio_reset_def)
  then show ?case by (simp add: ratio_compressor_def ratio_write_def split: prod.splits)
qed (auto simp: ratio_compressor_def ratio_took_def ratio_reset_def run_new dest: zlib_ok_inflates(3))

interpretation shadow: compressing "shadow_compressor Z target" "shadow_took Z inflate" inflate
  for Z target inflate
proof (unfold_locales, goal_cases)
  case (3 c w out buf d r c')
  then show ?case using shadow_write_took [of Z inflate c w out buf target d r c']
    by (simp add: shadow_compressor_def)
next
  case (4 c w out buf)
  then show ?case
    by (cases "zl_flush Z (sh_compress c)")
       (auto simp: shadow_compressor_def shadow_took_def shadow_flush_def run_append zlib_ok_inflates)
next
  case (5 c w out buf)
  then show ?case
    by (cases "zl_close Z (sh_compress c)")
       (auto simp: shadow_compressor_def shadow_took_def shadow_close_def run_append zlib_ok_inflates)
next
  case (6 opn c w out buf n d c')
  then show ?case by (auto simp: shadow_compressor_def shadow_took_def shadow_read_def)
next
  case (8 c)
  then show ?case by (simp add: shadow_compressor_def shadow_flush_def split: prod.splits)
next
  case (9 n c d c')
  then show ?case by (auto simp: shadow_compressor_def shadow_read_def)
next
  case (10 opn c w out buf d)
  then show ?case
    by (simp add: shadow_compressor_def shadow_write_def shadow_reset_def Let_def split: prod.splits)
qed (auto simp: shadow_compressor_def shadow_took_def shadow_reset_def run_new dest: zlib_ok_inflates(3))

lemma new_compressor_took:
  "zlib_ok Z inflate \<Longrightarrow> ratio_took Z inflate True (new_ratio Z) [] [] []"
  "zlib_ok Z inflate \<Longrightarrow> shadow_took Z inflate True (new_shadow Z) [] [] []"
  by (simp_all add: ratio_took_def new_ratio_def shadow_took_def new_shadow_def run_new)

end
