(* ===== verification/Batcher_Channel_Out.thy ===== *)
theory Batcher_Channel_Out
  imports Batcher_Compressor Derive_Span_Raw Derive_Channel
begin

text \<open>
  Channels on their way out (\<^verbatim>\<open>bl-node/rollup/derive/{channel_out,span_channel_out}.go\<close>): batches
  are encoded and compressed, and the compressed bytes are cut into frames. A channel of singular
  batches is one stream; a channel of a span batch encodes and compresses the whole span again with
  every block and keeps the result of the last span that fits. RLP, the compressor and the random
  channel identifiers are parameters.
\<close>

section \<open>Environment\<close>

record out_env =
  oe_rlp :: "singular_batch \<Rightarrow> byte list"
  oe_string :: "byte list \<Rightarrow> byte list"
  oe_tx :: tx_env
  oe_sig :: "byte list"

text \<open>\<^verbatim>\<open>BatchData.EncodeRLP\<close>: the typed encoding as one RLP string.\<close>

definition batch_bytes :: "out_env \<Rightarrow> batch_data \<Rightarrow> byte list" where
  "batch_bytes env b = oe_string env (encode_typed (oe_rlp env) b)"

definition max_rlp_bytes_per_channel :: nat where "max_rlp_bytes_per_channel = 10000000"

definition frame_v0_overhead :: u64 where "frame_v0_overhead = 23"

datatype out_err =
    AlreadyClosed | TooManyRLPBytes | CompressorFull | SpanConversion span_err
  | FrameSizeTooSmall | ShortRead | UnknownOutType | NoRandomness
  | NoBlockTxs | BlockNotDeposit | BlockTxEncode | BlockInfo

section \<open>Blocks\<close>

text \<open>A block's transaction: its type, call data, and binary form where it can be encoded.\<close>

record block_tx =
  bt_type :: byte
  bt_data :: "byte list"
  bt_raw :: "byte list option"

record out_block =
  ob_hash :: hash
  ob_parent_hash :: hash
  ob_number :: u64
  ob_time :: u64
  ob_txs :: "block_tx list"

definition opaque_txs :: "block_tx list \<Rightarrow> byte list option list" where
  "opaque_txs txs = map bt_raw (filter (\<lambda>tx. bt_type tx \<noteq> deposit_tx_type) txs)"

definition block_to_singular_batch ::
  "byte list \<Rightarrow> out_block \<Rightarrow> out_err + singular_batch \<times> l1_block_info" where
  "block_to_singular_batch sig blk =
     (if None \<in> set (opaque_txs (ob_txs blk)) then Inl BlockTxEncode
      else case ob_txs blk of
          [] \<Rightarrow> Inl NoBlockTxs
        | tx # _ \<Rightarrow>
            if bt_type tx \<noteq> deposit_tx_type then Inl BlockNotDeposit
            else case unmarshal_l1_info sig (bt_data tx) of
                Inl _ \<Rightarrow> Inl BlockInfo
              | Inr info \<Rightarrow> Inr
                  (\<lparr>sb_parent_hash = ob_parent_hash blk, sb_epoch_num = li_number info,
                    sb_epoch_hash = li_block_hash info, sb_timestamp = ob_time blk,
                    sb_transactions = map the (opaque_txs (ob_txs blk))\<rparr>, info))"

section \<open>Frames\<close>

text \<open>The frame and the number of data bytes to fill in. The count of ready bytes is a length, so its
  conversion to 64 bits loses nothing.\<close>

definition create_empty_frame :: "byte list \<Rightarrow> u64 \<Rightarrow> nat \<Rightarrow> bool \<Rightarrow> u64 \<Rightarrow> frame \<times> nat" where
  "create_empty_frame ident num readyBytes closed maxSize =
     (let maxDataSize = maxSize - frame_v0_overhead;
          spill = \<not> unat maxDataSize > readyBytes
      in (\<lparr>fr_id = ident, fr_number = ucast num, fr_data = [], fr_is_last = (\<not> spill \<and> closed)\<rparr>,
          if spill then unat maxDataSize else readyBytes))"

section \<open>Channels of singular batches\<close>

record 'c singular_out =
  so_id :: "byte list"
  so_frame :: u64
  so_rlp_length :: nat
  so_compress :: 'c
  so_closed :: bool

definition new_singular_out :: "byte list \<Rightarrow> 'c \<Rightarrow> 'c singular_out" where
  "new_singular_out ident c =
     \<lparr>so_id = ident, so_frame = 0, so_rlp_length = 0, so_compress = c, so_closed = False\<rparr>"

definition singular_reset :: "'c compressor \<Rightarrow> byte list \<Rightarrow> 'c singular_out \<Rightarrow> 'c singular_out" where
  "singular_reset C ident co =
     \<lparr>so_id = ident, so_frame = 0, so_rlp_length = 0, so_compress = cmp_reset C (so_compress co),
      so_closed = False\<rparr>"

text \<open>The length is counted before the compressor may refuse the batch.\<close>

definition singular_add ::
  "'c compressor \<Rightarrow> out_env \<Rightarrow> singular_batch \<Rightarrow> 'c singular_out \<Rightarrow> (out_err + nat) \<times> 'c singular_out" where
  "singular_add C env b co =
     (if so_closed co then (Inl AlreadyClosed, co)
      else let buf = batch_bytes env (SingularData b)
        in if so_rlp_length co + length buf > max_rlp_bytes_per_channel then (Inl TooManyRLPBytes, co)
           else case cmp_write C buf (so_compress co) of
              (r, c) \<Rightarrow>
                ((case r of Inl _ \<Rightarrow> Inl CompressorFull | Inr n \<Rightarrow> Inr n),
                 co\<lparr>so_rlp_length := so_rlp_length co + length buf, so_compress := c\<rparr>))"

definition singular_flush :: "'c compressor \<Rightarrow> 'c singular_out \<Rightarrow> 'c singular_out" where
  "singular_flush C co = co\<lparr>so_compress := cmp_flush C (so_compress co)\<rparr>"

definition singular_close :: "'c compressor \<Rightarrow> 'c singular_out \<Rightarrow> (out_err + unit) \<times> 'c singular_out" where
  "singular_close C co =
     (if so_closed co then (Inl AlreadyClosed, co)
      else (Inr (), co\<lparr>so_closed := True, so_compress := cmp_close C (so_compress co)\<rparr>))"

text \<open>The frame; a last frame stands for the result \<^verbatim>\<open>io.EOF\<close>.\<close>

definition singular_output_frame ::
  "'c compressor \<Rightarrow> u64 \<Rightarrow> 'c singular_out \<Rightarrow> (out_err + frame) \<times> 'c singular_out" where
  "singular_output_frame C maxSize co =
     (if maxSize < frame_v0_overhead then (Inl FrameSizeTooSmall, co)
      else case create_empty_frame (so_id co) (so_frame co) (cmp_len C (so_compress co)) (so_closed co) maxSize of
        (f, n) \<Rightarrow>
          (case cmp_read C n (so_compress co) of
             (d, c) \<Rightarrow>
               if length d < n then (Inl ShortRead, co\<lparr>so_compress := c\<rparr>)
               else (Inr (f\<lparr>fr_data := d\<rparr>), co\<lparr>so_compress := c, so_frame := so_frame co + 1\<rparr>)))"

section \<open>Channels of one span batch\<close>

record 'c span_out =
  po_id :: "byte list"
  po_frame :: u64
  po_rlp_length :: nat
  po_compress :: 'c
  po_closed :: bool
  po_builder :: span_builder
  po_reader :: "byte list"

definition new_span_out :: "byte list \<Rightarrow> 'c \<Rightarrow> span_builder \<Rightarrow> 'c span_out" where
  "new_span_out ident c b =
     \<lparr>po_id = ident, po_frame = 0, po_rlp_length = 0, po_compress = c, po_closed = False,
      po_builder = b, po_reader = []\<rparr>"

definition span_out_reset :: "'c compressor \<Rightarrow> byte list \<Rightarrow> 'c span_out \<Rightarrow> 'c span_out" where
  "span_out_reset C ident co =
     \<lparr>po_id = ident, po_frame = 0, po_rlp_length = 0, po_compress = cmp_reset C (po_compress co),
      po_closed = False, po_builder = builder_reset (po_builder co), po_reader = []\<rparr>"

text \<open>\<^verbatim>\<open>io.Copy(co.reader, co.compress)\<close>: all the compressor holds.\<close>

definition copy_compressed :: "'c compressor \<Rightarrow> 'c span_out \<Rightarrow> 'c span_out" where
  "copy_compressed C co =
     (case cmp_read C (cmp_len C (po_compress co)) (po_compress co) of
        (d, c) \<Rightarrow> co\<lparr>po_reader := po_reader co @ d, po_compress := c\<rparr>)"

definition span_preserve :: "'c compressor \<Rightarrow> 'c span_out \<Rightarrow> 'c span_out" where
  "span_preserve C co =
     (if length (sp_batches (sbb_span (po_builder co))) > 1
      then copy_compressed C (co\<lparr>po_compress := cmp_flush C (po_compress co)\<rparr>) else co)"

definition span_rewrite :: "'c compressor \<Rightarrow> byte list \<Rightarrow> 'c span_out \<Rightarrow> (out_err + nat) \<times> 'c span_out" where
  "span_rewrite C buf co =
     (case cmp_write C buf (cmp_reset C (po_compress co)) of
        (r, c) \<Rightarrow>
          if cmp_full C c
          then ((if length (sp_batches (sbb_span (po_builder co))) = 1
                 then Inr (case r of Inl _ \<Rightarrow> 0 | Inr n \<Rightarrow> n) else Inl CompressorFull),
                co\<lparr>po_compress := c\<rparr>)
          else ((case r of Inl _ \<Rightarrow> Inl CompressorFull | Inr n \<Rightarrow> Inr n),
                co\<lparr>po_compress := c, po_reader := []\<rparr>))"

definition span_out_add ::
  "'c compressor \<Rightarrow> out_env \<Rightarrow> singular_batch \<Rightarrow> u64 \<Rightarrow> 'c span_out \<Rightarrow> (out_err + nat) \<times> 'c span_out" where
  "span_out_add C env b seqNum co =
     (if po_closed co then (Inl AlreadyClosed, co)
      else if cmp_full C (po_compress co) then (Inl CompressorFull, co)
      else let co1 = co\<lparr>po_builder := builder_append b seqNum (po_builder co)\<rparr>
        in case builder_raw (oe_tx env) (po_builder co1) of
             Inl e \<Rightarrow> (Inl (SpanConversion e), co1)
           | Inr raw \<Rightarrow>
               let buf = batch_bytes env (SpanData raw)
               in if length buf > max_rlp_bytes_per_channel then (Inl TooManyRLPBytes, co1)
                  else span_rewrite C buf (span_preserve C (co1\<lparr>po_rlp_length := length buf\<rparr>)))"

definition span_out_flush :: "'c compressor \<Rightarrow> 'c span_out \<Rightarrow> 'c span_out" where
  "span_out_flush C co =
     (let co1 = co\<lparr>po_compress := cmp_flush C (po_compress co)\<rparr>
      in if po_closed co1 \<and> po_reader co1 = [] \<and> cmp_len C (po_compress co1) > 0
         then copy_compressed C co1 else co1)"

definition span_out_close :: "'c compressor \<Rightarrow> 'c span_out \<Rightarrow> (out_err + unit) \<times> 'c span_out" where
  "span_out_close C co =
     (if po_closed co then (Inl AlreadyClosed, co)
      else let co1 = span_out_flush C (co\<lparr>po_closed := True\<rparr>)
        in (Inr (), co1\<lparr>po_compress := cmp_close C (po_compress co1)\<rparr>))"

definition span_output_frame :: "u64 \<Rightarrow> 'c span_out \<Rightarrow> (out_err + frame) \<times> 'c span_out" where
  "span_output_frame maxSize co =
     (if maxSize < frame_v0_overhead then (Inl FrameSizeTooSmall, co)
      else case create_empty_frame (po_id co) (po_frame co) (length (po_reader co)) (po_closed co) maxSize of
        (f, n) \<Rightarrow>
          if length (po_reader co) < n then (Inl ShortRead, co\<lparr>po_reader := []\<rparr>)
          else (Inr (f\<lparr>fr_data := take n (po_reader co)\<rparr>),
                co\<lparr>po_reader := drop n (po_reader co), po_frame := po_frame co + 1\<rparr>))"

section \<open>Either kind\<close>

datatype 'c channel_out = SingularOut "'c singular_out" | SpanOut "'c span_out"

definition new_channel_out ::
  "nat \<Rightarrow> byte list option \<Rightarrow> 'c \<Rightarrow> span_builder \<Rightarrow> out_err + 'c channel_out" where
  "new_channel_out batchType ident c b =
     (if batchType = 0
      then (case ident of None \<Rightarrow> Inl NoRandomness | Some i \<Rightarrow> Inr (SingularOut (new_singular_out i c)))
      else if batchType = 1
      then (case ident of None \<Rightarrow> Inl NoRandomness | Some i \<Rightarrow> Inr (SpanOut (new_span_out i c b)))
      else Inl UnknownOutType)"

definition out_id :: "'c channel_out \<Rightarrow> byte list" where
  "out_id ch = (case ch of SingularOut co \<Rightarrow> so_id co | SpanOut co \<Rightarrow> po_id co)"

definition out_reset :: "'c compressor \<Rightarrow> byte list \<Rightarrow> 'c channel_out \<Rightarrow> 'c channel_out" where
  "out_reset C ident ch =
     (case ch of SingularOut co \<Rightarrow> SingularOut (singular_reset C ident co)
              | SpanOut co \<Rightarrow> SpanOut (span_out_reset C ident co))"

definition out_add_singular_batch ::
  "'c compressor \<Rightarrow> out_env \<Rightarrow> singular_batch \<Rightarrow> u64 \<Rightarrow> 'c channel_out \<Rightarrow> (out_err + nat) \<times> 'c channel_out" where
  "out_add_singular_batch C env b seqNum ch =
     (case ch of
        SingularOut co \<Rightarrow> map_prod id SingularOut (singular_add C env b co)
      | SpanOut co \<Rightarrow> map_prod id SpanOut (span_out_add C env b seqNum co))"

definition out_closed :: "'c channel_out \<Rightarrow> bool" where
  "out_closed ch = (case ch of SingularOut co \<Rightarrow> so_closed co | SpanOut co \<Rightarrow> po_closed co)"

definition out_add_block ::
  "'c compressor \<Rightarrow> out_env \<Rightarrow> out_block \<Rightarrow> 'c channel_out \<Rightarrow> (out_err + nat) \<times> 'c channel_out" where
  "out_add_block C env blk ch =
     (if out_closed ch then (Inl AlreadyClosed, ch)
      else case block_to_singular_batch (oe_sig env) blk of
          Inl e \<Rightarrow> (Inl e, ch)
        | Inr (b, info) \<Rightarrow> out_add_singular_batch C env b (li_sequence_number info) ch)"

definition out_input_bytes :: "'c channel_out \<Rightarrow> nat" where
  "out_input_bytes ch = (case ch of SingularOut co \<Rightarrow> so_rlp_length co | SpanOut co \<Rightarrow> po_rlp_length co)"

definition out_ready_bytes :: "'c compressor \<Rightarrow> 'c channel_out \<Rightarrow> nat" where
  "out_ready_bytes C ch =
     (case ch of SingularOut co \<Rightarrow> cmp_len C (so_compress co) | SpanOut co \<Rightarrow> length (po_reader co))"

definition out_full_err :: "'c compressor \<Rightarrow> 'c channel_out \<Rightarrow> bool" where
  "out_full_err C ch =
     cmp_full C (case ch of SingularOut co \<Rightarrow> so_compress co | SpanOut co \<Rightarrow> po_compress co)"

definition out_close :: "'c compressor \<Rightarrow> 'c channel_out \<Rightarrow> (out_err + unit) \<times> 'c channel_out" where
  "out_close C ch =
     (case ch of SingularOut co \<Rightarrow> map_prod id SingularOut (singular_close C co)
              | SpanOut co \<Rightarrow> map_prod id SpanOut (span_out_close C co))"

definition out_output_frame ::
  "'c compressor \<Rightarrow> u64 \<Rightarrow> 'c channel_out \<Rightarrow> (out_err + frame) \<times> 'c channel_out" where
  "out_output_frame C maxSize ch =
     (case ch of SingularOut co \<Rightarrow> map_prod id SingularOut (singular_output_frame C maxSize co)
              | SpanOut co \<Rightarrow> map_prod id SpanOut (span_output_frame maxSize co))"

section \<open>Closing a channel from outside\<close>

datatype force_err = NoFramesGiven | DifferentIds

text \<open>The counter is 16 bits wide and the loop runs while it is at most the number of the last frame.\<close>

partial_function (option) fill_frames ::
  "byte list \<Rightarrow> u16 set \<Rightarrow> u16 \<Rightarrow> u16 \<Rightarrow> byte list \<Rightarrow> byte list option" where
  "fill_frames ident numbers closeNumber i buf =
     (if i \<le> closeNumber
      then fill_frames ident numbers closeNumber (i + 1)
        (if i \<in> numbers then buf
         else buf @ marshal_frame \<lparr>fr_id = ident, fr_number = i, fr_data = [], fr_is_last = False\<rparr>)
      else Some buf)"

definition close_number :: "frame list \<Rightarrow> u16 option" where
  "close_number frames = map_option fr_number (find fr_is_last frames)"

definition force_close_tx_data :: "frame list \<Rightarrow> (force_err + byte list) option" where
  "force_close_tx_data frames =
     (case frames of
        [] \<Rightarrow> Some (Inl NoFramesGiven)
      | f # _ \<Rightarrow>
          if \<not> list_all (\<lambda>g. fr_id g = fr_id f) frames then Some (Inl DifferentIds)
          else case close_number frames of
              None \<Rightarrow> Some (Inr (0 # marshal_frame
                \<lparr>fr_id = fr_id f, fr_number = 0, fr_data = [], fr_is_last = True\<rparr>))
            | Some n \<Rightarrow> map_option Inr (fill_frames (fr_id f) (fr_number ` set frames) n 0 [0]))"

end
