(* ===== verification/Batcher_Channel.thy ===== *)
theory Batcher_Channel
  imports Batcher_Channel_Out "HOL-Library.AList"
begin

text \<open>
  The batcher's channel builder and channel (\<^verbatim>\<open>bl-batcher/batcher/{channel_builder,channel,tx_data}.go\<close>):
  blocks are added until the channel is full or an L1 timeout draws near; frames are cut off as
  they become ready and handed out one per transaction, and come back when a transaction fails.
\<close>

section \<open>Configuration\<close>

record channel_config =
  cc_seq_window_size :: u64
  cc_channel_timeout :: u64
  cc_max_channel_duration :: u64
  cc_sub_safety_margin :: u64
  cc_max_frame_size :: u64
  cc_batch_type :: nat

datatype channel_config_err =
  InvalidChannelTimeout | ZeroFrameSize | FrameSizeBelowMinimum | UnknownBatchKind

definition check_channel_config :: "channel_config \<Rightarrow> channel_config_err + unit" where
  "check_channel_config cc =
     (if cc_channel_timeout cc < cc_sub_safety_margin cc then Inl InvalidChannelTimeout
      else if cc_max_frame_size cc = 0 then Inl ZeroFrameSize
      else if cc_max_frame_size cc < frame_v0_overhead then Inl FrameSizeBelowMinimum
      else if cc_batch_type cc > 1 then Inl UnknownBatchKind
      else Inr ())"

text \<open>\<open>be_new_comp\<close> is a fresh compressor of the configured kind.\<close>

record 'c batcher_env =
  be_comp :: "'c compressor"
  be_new_comp :: 'c
  be_out :: out_env
  be_genesis_time :: u64
  be_chain_id :: int

section \<open>The channel builder\<close>

datatype full_reason =
    FullMaxFrameIndex | FullMaxDuration | FullChannelTimeout | FullSeqWindow | FullTerminated
  | FullOut out_err

type_synonym tx_id = "byte list \<times> u16"

record frame_data =
  fm_data :: "byte list"
  fm_id :: tx_id

record 'c channel_builder =
  chb_cfg :: channel_config
  chb_timeout :: u64
  chb_timeout_reason :: "full_reason option"
  chb_full_err :: "full_reason option"
  chb_co :: "'c channel_out"
  chb_blocks :: "out_block list"
  chb_frames :: "frame_data list"
  chb_num_frames :: nat
  chb_output_bytes :: nat

definition new_channel_builder ::
  "'c batcher_env \<Rightarrow> channel_config \<Rightarrow> byte list option \<Rightarrow> out_err + 'c channel_builder" where
  "new_channel_builder env cfg ident =
     rbind (new_channel_out (cc_batch_type cfg) ident (be_new_comp env)
              (new_span_builder (be_genesis_time env) (be_chain_id env)))
       (\<lambda>co. Inr \<lparr>chb_cfg = cfg, chb_timeout = 0, chb_timeout_reason = None, chb_full_err = None,
                  chb_co = co, chb_blocks = [], chb_frames = [], chb_num_frames = 0,
                  chb_output_bytes = 0\<rparr>)"

definition chb_is_full :: "'c channel_builder \<Rightarrow> bool" where
  "chb_is_full c \<longleftrightarrow> chb_full_err c \<noteq> None"

text \<open>The frame and byte counters and the timeout's reason are not reset.\<close>

definition chb_reset :: "'c compressor \<Rightarrow> byte list \<Rightarrow> 'c channel_builder \<Rightarrow> 'c channel_builder" where
  "chb_reset C ident c =
     c\<lparr>chb_blocks := [], chb_frames := [], chb_timeout := 0, chb_full_err := None,
       chb_co := out_reset C ident (chb_co c)\<rparr>"

subsection \<open>Timeouts\<close>

definition chb_update_timeout :: "u64 \<Rightarrow> full_reason \<Rightarrow> 'c channel_builder \<Rightarrow> 'c channel_builder" where
  "chb_update_timeout t reason c =
     (if chb_timeout c = 0 \<or> chb_timeout c > t
      then c\<lparr>chb_timeout := t, chb_timeout_reason := Some reason\<rparr> else c)"

definition chb_update_sw_timeout :: "singular_batch \<Rightarrow> 'c channel_builder \<Rightarrow> 'c channel_builder" where
  "chb_update_sw_timeout b c =
     chb_update_timeout
       (sb_epoch_num b + cc_seq_window_size (chb_cfg c) - cc_sub_safety_margin (chb_cfg c))
       FullSeqWindow c"

definition chb_update_duration_timeout :: "u64 \<Rightarrow> 'c channel_builder \<Rightarrow> 'c channel_builder" where
  "chb_update_duration_timeout l1BlockNum c =
     (if cc_max_channel_duration (chb_cfg c) = 0 then c
      else chb_update_timeout (l1BlockNum + cc_max_channel_duration (chb_cfg c)) FullMaxDuration c)"

definition chb_frame_published :: "u64 \<Rightarrow> 'c channel_builder \<Rightarrow> 'c channel_builder" where
  "chb_frame_published l1BlockNum c =
     chb_update_timeout
       (l1BlockNum + cc_channel_timeout (chb_cfg c) - cc_sub_safety_margin (chb_cfg c))
       FullChannelTimeout c"

definition chb_timed_out :: "u64 \<Rightarrow> 'c channel_builder \<Rightarrow> bool" where
  "chb_timed_out blockNum c \<longleftrightarrow> chb_timeout c \<noteq> 0 \<and> blockNum \<ge> chb_timeout c"

definition chb_check_timeout :: "u64 \<Rightarrow> 'c channel_builder \<Rightarrow> 'c channel_builder" where
  "chb_check_timeout blockNum c =
     (if \<not> chb_is_full c \<and> chb_timed_out blockNum c
      then c\<lparr>chb_full_err := chb_timeout_reason c\<rparr> else c)"

definition chb_register_l1_block :: "u64 \<Rightarrow> 'c channel_builder \<Rightarrow> 'c channel_builder" where
  "chb_register_l1_block l1BlockNum c =
     chb_check_timeout l1BlockNum (chb_update_duration_timeout l1BlockNum c)"

subsection \<open>Blocks\<close>

datatype add_err = ChannelFull full_reason | AddFailed out_err

definition chb_mark_full :: "'c compressor \<Rightarrow> 'c channel_builder \<Rightarrow> 'c channel_builder" where
  "chb_mark_full C c =
     (if out_full_err C (chb_co c) then c\<lparr>chb_full_err := Some (FullOut CompressorFull)\<rparr> else c)"

definition chb_add_block ::
  "'c batcher_env \<Rightarrow> out_block \<Rightarrow> 'c channel_builder \<Rightarrow> (add_err + l1_block_info) \<times> 'c channel_builder" where
  "chb_add_block env blk c =
     (case chb_full_err c of
        Some e \<Rightarrow> (Inl (ChannelFull e), c)
      | None \<Rightarrow>
          (case block_to_singular_batch (oe_sig (be_out env)) blk of
             Inl e \<Rightarrow> (Inl (AddFailed e), c)
           | Inr (b, info) \<Rightarrow>
               (case out_add_singular_batch (be_comp env) (be_out env) b (li_sequence_number info) (chb_co c) of
                  (Inl e, co) \<Rightarrow>
                    if e = TooManyRLPBytes \<or> e = CompressorFull
                    then (Inl (ChannelFull (FullOut e)), c\<lparr>chb_co := co, chb_full_err := Some (FullOut e)\<rparr>)
                    else (Inl (AddFailed e), c\<lparr>chb_co := co\<rparr>)
                | (Inr _, co) \<Rightarrow>
                    (Inr info,
                     chb_mark_full (be_comp env)
                       (chb_update_sw_timeout b (c\<lparr>chb_co := co, chb_blocks := chb_blocks c @ [blk]\<rparr>))))))"

subsection \<open>Frames\<close>

text \<open>\<^term>\<open>True\<close> stands for \<^verbatim>\<open>io.EOF\<close>, the result of the last frame.\<close>

definition chb_output_frame ::
  "'c compressor \<Rightarrow> 'c channel_builder \<Rightarrow> (out_err + bool) \<times> 'c channel_builder" where
  "chb_output_frame C c =
     (case out_output_frame C (cc_max_frame_size (chb_cfg c)) (chb_co c) of
        (Inl e, co) \<Rightarrow> (Inl e, c\<lparr>chb_co := co\<rparr>)
      | (Inr f, co) \<Rightarrow>
          (Inr (fr_is_last f),
           c\<lparr>chb_co := co,
             chb_full_err := (if fr_number f = 65535 then Some FullMaxFrameIndex else chb_full_err c),
             chb_frames := chb_frames c @ [\<lparr>fm_data = marshal_frame f, fm_id = (out_id co, fr_number f)\<rparr>],
             chb_num_frames := chb_num_frames c + 1,
             chb_output_bytes := chb_output_bytes c + length (marshal_frame f)\<rparr>))"

partial_function (option) output_ready_frames ::
  "'c compressor \<Rightarrow> 'c channel_builder \<Rightarrow> ((out_err + unit) \<times> 'c channel_builder) option" where
  "output_ready_frames C c =
     (if int (out_ready_bytes C (chb_co c)) \<ge> sint (cc_max_frame_size (chb_cfg c))
      then (case chb_output_frame C c of
              (r, c') \<Rightarrow>
                (case r of Inl e \<Rightarrow> Some (Inl e, c')
                 | Inr eof \<Rightarrow> if eof then Some (Inr (), c') else output_ready_frames C c'))
      else Some (Inr (), c))"

partial_function (option) output_all_frames ::
  "'c compressor \<Rightarrow> 'c channel_builder \<Rightarrow> ((out_err + unit) \<times> 'c channel_builder) option" where
  "output_all_frames C c =
     (case chb_output_frame C c of
        (r, c') \<Rightarrow>
          (case r of Inl e \<Rightarrow> Some (Inl e, c')
           | Inr eof \<Rightarrow> if eof then Some (Inr (), c') else output_all_frames C c'))"

definition close_and_output_all_frames ::
  "'c compressor \<Rightarrow> 'c channel_builder \<Rightarrow> ((out_err + unit) \<times> 'c channel_builder) option" where
  "close_and_output_all_frames C c =
     (case out_close C (chb_co c) of
        (Inl e, co) \<Rightarrow> Some (Inl e, c\<lparr>chb_co := co\<rparr>)
      | (Inr _, co) \<Rightarrow> output_all_frames C (c\<lparr>chb_co := co\<rparr>))"

definition chb_output_frames ::
  "'c compressor \<Rightarrow> 'c channel_builder \<Rightarrow> ((out_err + unit) \<times> 'c channel_builder) option" where
  "chb_output_frames C c =
     (if chb_is_full c then close_and_output_all_frames C c else output_ready_frames C c)"

definition chb_close :: "'c channel_builder \<Rightarrow> 'c channel_builder" where
  "chb_close c = (if chb_is_full c then c else c\<lparr>chb_full_err := Some FullTerminated\<rparr>)"

text \<open>Taking a frame from an empty queue, and pushing a frame of another channel, panic.\<close>

definition chb_next_frame :: "'c channel_builder \<Rightarrow> (frame_data \<times> 'c channel_builder) option" where
  "chb_next_frame c =
     (case chb_frames c of [] \<Rightarrow> None | f # rest \<Rightarrow> Some (f, c\<lparr>chb_frames := rest\<rparr>))"

definition chb_push_frame :: "frame_data \<Rightarrow> 'c channel_builder \<Rightarrow> 'c channel_builder option" where
  "chb_push_frame f c =
     (if fst (fm_id f) \<noteq> out_id (chb_co c) then None
      else Some (c\<lparr>chb_frames := chb_frames c @ [f]\<rparr>))"

section \<open>Transactions\<close>

text \<open>A transaction carries one frame after the version byte.\<close>

definition tx_bytes :: "frame_data \<Rightarrow> byte list" where
  "tx_bytes f = 0 # fm_data f"

record 'c pending_channel =
  pc_builder :: "'c channel_builder"
  pc_pending :: "(tx_id \<times> frame_data) list"
  pc_confirmed :: "(tx_id \<times> block_id) list"

definition new_pending_channel ::
  "'c batcher_env \<Rightarrow> channel_config \<Rightarrow> byte list option \<Rightarrow> out_err + 'c pending_channel" where
  "new_pending_channel env cfg ident =
     rbind (new_channel_builder env cfg ident)
       (\<lambda>b. Inr \<lparr>pc_builder = b, pc_pending = [], pc_confirmed = []\<rparr>)"

definition pc_tx_failed :: "tx_id \<Rightarrow> 'c pending_channel \<Rightarrow> 'c pending_channel option" where
  "pc_tx_failed k s =
     (case map_of (pc_pending s) k of
        None \<Rightarrow> Some s
      | Some f \<Rightarrow>
          map_option (\<lambda>b. s\<lparr>pc_builder := b, pc_pending := AList.delete k (pc_pending s)\<rparr>)
            (chb_push_frame f (pc_builder s)))"

text \<open>First and last inclusion lie a channel timeout or more apart.\<close>

definition pc_is_timed_out :: "'c pending_channel \<Rightarrow> bool" where
  "pc_is_timed_out s \<longleftrightarrow>
     pc_confirmed s \<noteq> [] \<and>
     (let nums = map (bid_number \<circ> snd) (pc_confirmed s)
      in fold (\<lambda>n m. if n > m then n else m) nums 0 - fold (\<lambda>n m. if n < m then n else m) nums (- 1)
         \<ge> cc_channel_timeout (chb_cfg (pc_builder s)))"

definition pc_is_fully_submitted :: "'c pending_channel \<Rightarrow> bool" where
  "pc_is_fully_submitted s \<longleftrightarrow>
     chb_is_full (pc_builder s) \<and> length (pc_pending s) + length (chb_frames (pc_builder s)) = 0"

definition pc_none_submitted :: "'c pending_channel \<Rightarrow> bool" where
  "pc_none_submitted s \<longleftrightarrow> pc_confirmed s = [] \<and> pc_pending s = []"

text \<open>The result says that the channel is done, with the blocks to send again.\<close>

definition pc_tx_confirmed ::
  "tx_id \<Rightarrow> block_id \<Rightarrow> 'c pending_channel \<Rightarrow> (bool \<times> out_block list) \<times> 'c pending_channel" where
  "pc_tx_confirmed k inclusion s =
     (case map_of (pc_pending s) k of
        None \<Rightarrow> ((False, []), s)
      | Some _ \<Rightarrow>
          let s1 = s\<lparr>pc_pending := AList.delete k (pc_pending s),
                     pc_confirmed := AList.update k inclusion (pc_confirmed s),
                     pc_builder := chb_frame_published (bid_number inclusion) (pc_builder s)\<rparr>
          in if pc_is_timed_out s1 then ((True, chb_blocks (pc_builder s1)), s1)
             else if pc_is_fully_submitted s1 then ((True, []), s1)
             else ((False, []), s1))"

definition pc_next_tx_data :: "'c pending_channel \<Rightarrow> (frame_data \<times> 'c pending_channel) option" where
  "pc_next_tx_data s =
     map_option
       (\<lambda>(f, b). (f, s\<lparr>pc_builder := b, pc_pending := AList.update (fm_id f) f (pc_pending s)\<rparr>))
       (chb_next_frame (pc_builder s))"

end
