(* ===== verification/Batcher_Manager.thy ===== *)
theory Batcher_Manager
  imports Batcher_Channel
begin

text \<open>
  The batcher's channel manager (\<^verbatim>\<open>bl-batcher/batcher/channel_manager.go\<close>): it holds the L2 blocks
  that still have to be sent, the channel that is filled, the queue of channels with frames to send, and
  the channel of every transaction in flight. Channels are shared by pointer between these; here
  they live in a store, and a pointer is an index into it. Every method runs under the mutex: an
  operation is one step. \<^verbatim>\<open>be_fresh\<close>, the random identifier of the next channel, is an argument.
\<close>

section \<open>State\<close>

record 'c channel_manager =
  cm_store :: "'c pending_channel list"
  cm_blocks :: "out_block list"
  cm_tip :: hash
  cm_current :: "nat option"
  cm_queue :: "nat list"
  cm_tx_channels :: "(tx_id \<times> nat) list"
  cm_closed :: bool

definition new_channel_manager :: "'c channel_manager" where
  "new_channel_manager =
     \<lparr>cm_store = [], cm_blocks = [], cm_tip = zero_hash32, cm_current = None, cm_queue = [],
      cm_tx_channels = [], cm_closed = False\<rparr>"

definition cm_clear :: "'c channel_manager \<Rightarrow> 'c channel_manager" where
  "cm_clear s =
     s\<lparr>cm_blocks := [], cm_tip := zero_hash32, cm_closed := False, cm_current := None,
       cm_queue := [], cm_tx_channels := []\<rparr>"

definition put_chan :: "nat \<Rightarrow> 'c pending_channel \<Rightarrow> 'c channel_manager \<Rightarrow> 'c channel_manager" where
  "put_chan i ch s = s\<lparr>cm_store := (cm_store s)[i := ch]\<rparr>"

section \<open>Transactions\<close>

text \<open>The first occurrence leaves the queue.\<close>

definition remove_pending_channel :: "nat \<Rightarrow> 'c channel_manager \<Rightarrow> 'c channel_manager" where
  "remove_pending_channel i s =
     s\<lparr>cm_current := (if cm_current s = Some i then None else cm_current s),
       cm_queue := remove1 i (cm_queue s)\<rparr>"

text \<open>\<^const>\<open>None\<close> is the panic of a frame pushed back to another channel.\<close>

definition cm_tx_failed :: "tx_id \<Rightarrow> 'c channel_manager \<Rightarrow> 'c channel_manager option" where
  "cm_tx_failed k s =
     (case map_of (cm_tx_channels s) k of
        None \<Rightarrow> Some s
      | Some i \<Rightarrow>
          map_option
            (\<lambda>ch. let s1 = put_chan i ch (s\<lparr>cm_tx_channels := AList.delete k (cm_tx_channels s)\<rparr>)
               in if cm_closed s1 \<and> pc_none_submitted ch then remove_pending_channel i s1 else s1)
            (pc_tx_failed k (cm_store s ! i)))"

definition cm_tx_confirmed :: "tx_id \<Rightarrow> block_id \<Rightarrow> 'c channel_manager \<Rightarrow> 'c channel_manager" where
  "cm_tx_confirmed k inclusion s =
     (case map_of (cm_tx_channels s) k of
        None \<Rightarrow> s
      | Some i \<Rightarrow>
          (case pc_tx_confirmed k inclusion (cm_store s ! i) of
             ((finished, blocks), ch) \<Rightarrow>
               let s1 = put_chan i ch (s\<lparr>cm_tx_channels := AList.delete k (cm_tx_channels s),
                                         cm_blocks := blocks @ cm_blocks s\<rparr>)
               in if finished then remove_pending_channel i s1 else s1))"

section \<open>New transaction data\<close>

datatype manager_err = NoTxData | ManagerFailed out_err | ManagerPanic

definition cm_next_tx_data :: "nat option \<Rightarrow> 'c channel_manager \<Rightarrow> (manager_err + frame_data) \<times> 'c channel_manager" where
  "cm_next_tx_data ch s =
     (case ch of
        None \<Rightarrow> (Inl NoTxData, s)
      | Some i \<Rightarrow>
          if chb_frames (pc_builder (cm_store s ! i)) = [] then (Inl NoTxData, s)
          else case pc_next_tx_data (cm_store s ! i) of
              None \<Rightarrow> (Inl ManagerPanic, s)
            | Some (f, c) \<Rightarrow>
                (Inr f, (put_chan i c s)\<lparr>cm_tx_channels := AList.update (fm_id f) i (cm_tx_channels s)\<rparr>))"

definition ensure_channel_with_space ::
  "'c batcher_env \<Rightarrow> channel_config \<Rightarrow> byte list option \<Rightarrow> 'c channel_manager \<Rightarrow>
   (manager_err + unit) \<times> 'c channel_manager" where
  "ensure_channel_with_space env cfg ident s =
     (if (case cm_current s of None \<Rightarrow> False | Some i \<Rightarrow> \<not> chb_is_full (pc_builder (cm_store s ! i)))
      then (Inr (), s)
      else case new_pending_channel env cfg ident of
          Inl e \<Rightarrow> (Inl (ManagerFailed e), s)
        | Inr ch \<Rightarrow> (Inr (), s\<lparr>cm_store := cm_store s @ [ch], cm_current := Some (length (cm_store s)),
                              cm_queue := cm_queue s @ [length (cm_store s)]\<rparr>))"

text \<open>The builder takes blocks until it is full or the blocks are used up; the number of blocks it
  took is returned. An error other than that of a full channel stops the processing.\<close>

fun add_blocks ::
  "'c batcher_env \<Rightarrow> out_block list \<Rightarrow> nat \<Rightarrow> 'c channel_builder \<Rightarrow>
   (manager_err + nat) \<times> 'c channel_builder" where
  "add_blocks env [] n b = (Inr n, b)"
| "add_blocks env (blk # blks) n b =
     (case chb_add_block env blk b of
        (Inl (ChannelFull _), b') \<Rightarrow> (Inr n, b')
      | (Inl (AddFailed e), b') \<Rightarrow> (Inl (ManagerFailed e), b')
      | (Inr _, b') \<Rightarrow> if chb_is_full b' then (Inr (n + 1), b') else add_blocks env blks (n + 1) b')"

text \<open>On an error the blocks that were added stay in the queue.\<close>

definition process_blocks ::
  "'c batcher_env \<Rightarrow> nat \<Rightarrow> 'c channel_manager \<Rightarrow> (manager_err + unit) \<times> 'c channel_manager" where
  "process_blocks env i s =
     (case add_blocks env (cm_blocks s) 0 (pc_builder (cm_store s ! i)) of
        (r, b) \<Rightarrow>
          let s1 = put_chan i ((cm_store s ! i)\<lparr>pc_builder := b\<rparr>) s
          in (case r of Inl e \<Rightarrow> (Inl e, s1)
              | Inr n \<Rightarrow> (Inr (), s1\<lparr>cm_blocks := drop n (cm_blocks s)\<rparr>)))"

definition register_l1_block :: "u64 \<Rightarrow> nat \<Rightarrow> 'c channel_manager \<Rightarrow> 'c channel_manager" where
  "register_l1_block l1Head i s =
     put_chan i ((cm_store s ! i)\<lparr>pc_builder := chb_register_l1_block l1Head (pc_builder (cm_store s ! i))\<rparr>) s"

definition output_frames ::
  "'c batcher_env \<Rightarrow> nat \<Rightarrow> 'c channel_manager \<Rightarrow> ((manager_err + unit) \<times> 'c channel_manager) option" where
  "output_frames env i s =
     map_option
       (\<lambda>(r, b). ((case r of Inl e \<Rightarrow> Inl (ManagerFailed e) | Inr _ \<Rightarrow> Inr ()),
                  put_chan i ((cm_store s ! i)\<lparr>pc_builder := b\<rparr>) s))
       (chb_output_frames (be_comp env) (pc_builder (cm_store s ! i)))"

definition fill_current ::
  "'c batcher_env \<Rightarrow> u64 \<Rightarrow> nat \<Rightarrow> 'c channel_manager \<Rightarrow>
   ((manager_err + frame_data) \<times> 'c channel_manager) option" where
  "fill_current env l1Head i s =
     (case process_blocks env i s of
        (Inl e, s1) \<Rightarrow> Some (Inl e, s1)
      | (Inr _, s1) \<Rightarrow>
          map_option
            (\<lambda>(r, s2). (case r of Inl e \<Rightarrow> (Inl e, s2) | Inr _ \<Rightarrow> cm_next_tx_data (Some i) s2))
            (output_frames env i (register_l1_block l1Head i s1)))"

text \<open>\<^const>\<open>None\<close> as the result: frames are produced without an end.\<close>

definition cm_tx_data ::
  "'c batcher_env \<Rightarrow> channel_config \<Rightarrow> byte list option \<Rightarrow> u64 \<Rightarrow> 'c channel_manager \<Rightarrow>
   ((manager_err + frame_data) \<times> 'c channel_manager) option" where
  "cm_tx_data env cfg ident l1Head s =
     (let firstWithFrame = find (\<lambda>i. chb_frames (pc_builder (cm_store s ! i)) \<noteq> []) (cm_queue s)
      in if firstWithFrame \<noteq> None \<or> cm_closed s then Some (cm_next_tx_data firstWithFrame s)
         else if cm_blocks s = [] then Some (Inl NoTxData, s)
         else case ensure_channel_with_space env cfg ident s of
             (Inl e, s1) \<Rightarrow> Some (Inl e, s1)
           | (Inr _, s1) \<Rightarrow>
               (case cm_current s1 of
                  None \<Rightarrow> Some (Inl ManagerPanic, s1)
                | Some i \<Rightarrow> fill_current env l1Head i s1))"

section \<open>Blocks in, and closing\<close>

definition cm_add_l2_block :: "out_block \<Rightarrow> 'c channel_manager \<Rightarrow> (unit + unit) \<times> 'c channel_manager" where
  "cm_add_l2_block blk s =
     (if cm_tip s \<noteq> zero_hash32 \<and> cm_tip s \<noteq> ob_parent_hash blk then (Inl (), s)
      else (Inr (), s\<lparr>cm_blocks := cm_blocks s @ [blk], cm_tip := ob_hash blk\<rparr>))"

text \<open>
  \<^verbatim>\<open>Close\<close> ranges over the queue while \<^verbatim>\<open>removePendingChannel\<close> shifts the elements of the same
  backing array to the left: \<open>arr\<close> is that array, of which the queue is the front.
\<close>

definition shift_out :: "nat \<Rightarrow> nat list \<Rightarrow> nat list \<Rightarrow> nat list" where
  "shift_out i queue arr = remove1 i queue @ drop (length (remove1 i queue)) arr"

fun close_loop :: "nat list \<Rightarrow> nat \<Rightarrow> nat \<Rightarrow> 'c channel_manager \<Rightarrow> 'c channel_manager" where
  "close_loop arr pos 0 s = s"
| "close_loop arr pos (Suc n) s =
     (let i = arr ! pos
      in if pc_none_submitted (cm_store s ! i)
         then close_loop (shift_out i (cm_queue s) arr) (pos + 1) n (remove_pending_channel i s)
         else close_loop arr (pos + 1) n s)"

definition cm_close ::
  "'c batcher_env \<Rightarrow> 'c channel_manager \<Rightarrow> ((manager_err + unit) \<times> 'c channel_manager) option" where
  "cm_close env s =
     (if cm_closed s then Some (Inr (), s)
      else let s1 = close_loop (cm_queue s) 0 (length (cm_queue s)) (s\<lparr>cm_closed := True\<rparr>)
        in case cm_current s1 of
             None \<Rightarrow> Some (Inr (), s1)
           | Some i \<Rightarrow>
               output_frames env i
                 (put_chan i ((cm_store s1 ! i)\<lparr>pc_builder := chb_close (pc_builder (cm_store s1 ! i))\<rparr>) s1))"

end
