(* ===== verification/Batcher_Out_Props.thy ===== *)
theory Batcher_Out_Props
  imports Batcher_Channel_Out
begin

text \<open>
  What a channel on its way out carries: the encoding of exactly the batches it took. The contract
  of the channel towards the builder is stated over any compressor that keeps the contract
  \<open>compressing\<close>.
\<close>

section \<open>What a channel carries\<close>

definition appended :: "span_builder \<Rightarrow> (singular_batch \<times> u64) list \<Rightarrow> span_builder" where
  "appended b0 bs = fold (\<lambda>(b, n). builder_append b n) bs b0"

text \<open>\<open>carries env kind bs w\<close>: \<open>w\<close> encodes the batches \<open>bs\<close>; \<open>kind\<close> is the empty builder of a span.\<close>

definition carries ::
  "out_env \<Rightarrow> span_builder option \<Rightarrow> (singular_batch \<times> u64) list \<Rightarrow> byte list \<Rightarrow> bool" where
  "carries env kind bs w \<longleftrightarrow>
     (case kind of
        None \<Rightarrow> w = concat (map (\<lambda>(b, _). batch_bytes env (SingularData b)) bs)
      | Some b0 \<Rightarrow>
          if bs = [] then w = []
          else \<exists>raw. builder_raw (oe_tx env) (appended b0 bs) = Inr raw \<and>
                 w = batch_bytes env (SpanData raw))"

text \<open>A channel that may take batches: \<open>cs\<close> are the chunks it gave out as frames.\<close>

definition out_open ::
  "(bool \<Rightarrow> 'c \<Rightarrow> byte list \<Rightarrow> byte list \<Rightarrow> byte list \<Rightarrow> bool) \<Rightarrow> out_env \<Rightarrow> span_builder option \<Rightarrow>
   'c channel_out \<Rightarrow> (singular_batch \<times> u64) list \<Rightarrow> byte list list \<Rightarrow> bool" where
  "out_open took env kind ch bs cs \<longleftrightarrow>
     (case ch of
        SingularOut co \<Rightarrow> kind = None \<and> \<not> so_closed co \<and> so_frame co = of_nat (length cs) \<and>
          (\<exists>w buf. carries env None bs w \<and> took True (so_compress co) w (concat cs) buf)
      | SpanOut co \<Rightarrow> (\<exists>b0 w buf. kind = Some b0 \<and> sp_batches (sbb_span b0) = [] \<and> \<not> po_closed co \<and>
          po_frame co = of_nat (length cs) \<and> concat cs = [] \<and> po_reader co = [] \<and>
          po_builder co = appended b0 bs \<and> carries env kind bs w \<and> took True (po_compress co) w [] buf))"

text \<open>A channel that is to be closed without taking any more: a span that did not fit any more has
  left its predecessor in the reader.\<close>

definition out_sealed ::
  "(bool \<Rightarrow> 'c \<Rightarrow> byte list \<Rightarrow> byte list \<Rightarrow> byte list \<Rightarrow> bool) \<Rightarrow> (byte list \<Rightarrow> byte list) \<Rightarrow> out_env \<Rightarrow>
   span_builder option \<Rightarrow> 'c channel_out \<Rightarrow> (singular_batch \<times> u64) list \<Rightarrow> byte list list \<Rightarrow> bool" where
  "out_sealed took inflate env kind ch bs cs \<longleftrightarrow>
     (case ch of
        SingularOut co \<Rightarrow> out_open took env kind ch bs cs
      | SpanOut co \<Rightarrow> (\<exists>w buf v. kind \<noteq> None \<and> \<not> po_closed co \<and> po_frame co = of_nat (length cs) \<and>
          concat cs = [] \<and> carries env kind bs w \<and>
          (if po_reader co = [] then took True (po_compress co) w [] buf
           else inflate (po_reader co) = w \<and> took True (po_compress co) v [] buf)))"

text \<open>A closed channel: \<open>rest\<close> is still to be given out.\<close>

definition out_done ::
  "(bool \<Rightarrow> 'c \<Rightarrow> byte list \<Rightarrow> byte list \<Rightarrow> byte list \<Rightarrow> bool) \<Rightarrow> (byte list \<Rightarrow> byte list) \<Rightarrow> out_env \<Rightarrow>
   span_builder option \<Rightarrow> 'c channel_out \<Rightarrow> (singular_batch \<times> u64) list \<Rightarrow> byte list list \<Rightarrow>
   byte list \<Rightarrow> bool" where
  "out_done took inflate env kind ch bs cs rest \<longleftrightarrow>
     carries env kind bs (inflate (concat cs @ rest)) \<and>
     (case ch of
        SingularOut co \<Rightarrow> so_closed co \<and> so_frame co = of_nat (length cs) \<and>
          (\<exists>w. took False (so_compress co) w (concat cs) rest)
      | SpanOut co \<Rightarrow> po_closed co \<and> po_frame co = of_nat (length cs) \<and> po_reader co = rest)"

lemma appended_snoc [simp]: "appended b0 (bs @ [(b, n)]) = builder_append b n (appended b0 bs)"
  by (simp add: appended_def)

lemma builder_append_length:
  "length (sp_batches (sbb_span (builder_append b n bl))) = Suc (length (sp_batches (sbb_span bl)))"
  by (simp add: builder_append_def append_singular_batch_def)

lemma appended_length:
  "length (sp_batches (sbb_span (appended b0 bs))) = length (sp_batches (sbb_span b0)) + length bs"
  by (induction bs rule: rev_induct) (auto simp: builder_append_length, simp add: appended_def)

lemma carries_singular_snoc:
  "carries env None bs w \<Longrightarrow> carries env None (bs @ [(b, n)]) (w @ batch_bytes env (SingularData b))"
  by (simp add: carries_def)

text \<open>An RLP string is never empty.\<close>

definition rlp_nonempty :: "out_env \<Rightarrow> bool" where
  "rlp_nonempty env \<longleftrightarrow> (\<forall>x. oe_string env x \<noteq> [])"

lemma carries_nonempty:
  "carries env (Some b0) bs w \<Longrightarrow> bs \<noteq> [] \<Longrightarrow> rlp_nonempty env \<Longrightarrow> w \<noteq> []"
  by (auto simp: carries_def rlp_nonempty_def batch_bytes_def)

section \<open>The contract\<close>

lemma new_channel_out_open:
  assumes "new_channel_out t ident c (new_span_builder g chain) = Inr ch" "took True c [] [] []"
  shows "out_open took env (if t = 0 then None else Some (new_span_builder g chain)) ch [] [] \<and>
    ident = Some (out_id ch)"
  using assms
  by (auto simp: new_channel_out_def out_open_def carries_def new_singular_out_def new_span_out_def
      out_id_def new_span_builder_def empty_span_def appended_def split: if_splits option.splits
      intro!: exI [of _ "[] :: byte list"])

context compressing
begin

lemma out_open_sealed: "out_open took env kind ch bs cs \<Longrightarrow> out_sealed took inflate env kind ch bs cs"
  by (auto simp: out_open_def out_sealed_def split: channel_out.splits)

lemma singular_add_open:
  assumes "out_open took env kind (SingularOut co) bs cs" "singular_add C env b co = (r, co')"
  shows "case r of
      Inr _ \<Rightarrow> out_open took env kind (SingularOut co') (bs @ [(b, n)]) cs
    | Inl _ \<Rightarrow> out_open took env kind (SingularOut co') bs cs"
proof -
  obtain w buf where o: "kind = None" "\<not> so_closed co" "so_frame co = of_nat (length cs)"
      "carries env None bs w" "took True (so_compress co) w (concat cs) buf"
    using assms(1) by (auto simp: out_open_def)
  show ?thesis
  proof (cases "so_rlp_length co + length (batch_bytes env (SingularData b)) > max_rlp_bytes_per_channel")
    case True
    then show ?thesis using assms o by (auto simp: singular_add_def Let_def)
  next
    case False
    obtain q c where q: "cmp_write C (batch_bytes env (SingularData b)) (so_compress co) = (q, c)"
      by fastforce
    then have r: "r = (case q of Inl _ \<Rightarrow> Inl CompressorFull | Inr n \<Rightarrow> Inr n)"
      "co' = co\<lparr>so_rlp_length := so_rlp_length co + length (batch_bytes env (SingularData b)), so_compress := c\<rparr>"
      using assms(2) o(2) False by (auto simp: singular_add_def Let_def)
    show ?thesis
    proof (cases q)
      case (Inl e)
      then have "took True c w (concat cs) buf" using took_write_full [OF o(5)] q by simp
      then show ?thesis using o r Inl by (auto simp: out_open_def)
    next
      case (Inr m)
      then obtain b' where "took True c (w @ batch_bytes env (SingularData b)) (concat cs) (buf @ b')"
        using took_write_ok [OF o(5)] q by blast
      then show ?thesis using o r Inr carries_singular_snoc [OF o(4)] by (auto simp: out_open_def)
    qed
  qed
qed

lemma copy_all:
  assumes "took opn c w out buf" "cmp_read C (cmp_len C c) c = (d, c')"
  shows "d = buf \<and> took opn c' w (out @ buf) []"
  using took_read [OF assms] took_len [OF assms(1)] by auto

lemma span_preserve_holds:
  assumes "took True (po_compress co) w [] buf" "po_reader co = []"
    and "length (sp_batches (sbb_span (po_builder co))) > 1"
  obtains d c where "span_preserve C co = co\<lparr>po_reader := d, po_compress := c\<rparr>"
    "inflate d = w" "took True c w d []" "cmp_full C c = cmp_full C (po_compress co)"
proof -
  obtain b where b: "took True (cmp_flush C (po_compress co)) w [] (buf @ b)" "inflate (buf @ b) = w"
    using took_flush [OF assms(1)] by auto
  obtain d c where r: "cmp_read C (cmp_len C (cmp_flush C (po_compress co))) (cmp_flush C (po_compress co)) = (d, c)"
    by fastforce
  from copy_all [OF b(1) r] have d: "d = buf @ b" "took True c w (buf @ b) []" by simp_all
  have "span_preserve C co = co\<lparr>po_reader := d, po_compress := c\<rparr>"
    using assms(2,3) r by (simp add: span_preserve_def copy_compressed_def)
  moreover have "cmp_full C c = cmp_full C (po_compress co)"
    using full_read [OF r] full_flush by simp
  ultimately show thesis using that d b(2) by blast
qed

lemma span_rewrite_holds:
  assumes "took True (po_compress co) v out buf" "\<not> cmp_full C (po_compress co)"
    and "span_rewrite C w co = (r, co')"
  obtains c b where "took True c w [] b"
    "if cmp_full C c \<and> length (sp_batches (sbb_span (po_builder co))) \<noteq> 1
     then r = Inl CompressorFull \<and> co' = co\<lparr>po_compress := c\<rparr>
     else (\<exists>n. r = Inr n) \<and>
       co' = (if cmp_full C c then co\<lparr>po_compress := c\<rparr> else co\<lparr>po_compress := c, po_reader := []\<rparr>)"
proof -
  obtain n c where q: "cmp_write C w (cmp_reset C (po_compress co)) = (Inr n, c)"
    using reset_write [OF assms(1,2)] by blast
  then obtain b where "took True c w [] b"
    using took_write_ok [OF took_reset [OF assms(1)] q] by auto
  then show thesis using that [of c b] assms(3) q by (auto simp: span_rewrite_def split: if_splits)
qed

lemma span_add_open:
  assumes "out_open took env kind (SpanOut co) bs cs" "span_out_add C env b n co = (r, co')"
    and "rlp_nonempty env"
  shows "case r of
      Inr _ \<Rightarrow> out_open took env kind (SpanOut co') (bs @ [(b, n)]) cs
    | Inl _ \<Rightarrow> out_sealed took inflate env kind (SpanOut co') bs cs"
proof -
  obtain b0 w buf where o: "kind = Some b0" "sp_batches (sbb_span b0) = []" "\<not> po_closed co"
      "po_frame co = of_nat (length cs)" "concat cs = []" "po_reader co = []"
      "po_builder co = appended b0 bs" "carries env kind bs w" "took True (po_compress co) w [] buf"
    using assms(1) by (auto simp: out_open_def)
  define co1 where "co1 = co\<lparr>po_builder := builder_append b n (po_builder co)\<rparr>"
  have keep: "out_sealed took inflate env kind (SpanOut co2) bs cs"
    if "co2 = co \<or> co2 = co1" for co2
    using that o(1-6) o(8,9) unfolding out_sealed_def co1_def by (elim disjE) (simp; blast)+
  show ?thesis
  proof (cases "cmp_full C (po_compress co) \<or> (\<exists>e. builder_raw (oe_tx env) (po_builder co1) = Inl e) \<or>
      (\<exists>raw. builder_raw (oe_tx env) (po_builder co1) = Inr raw \<and>
         length (batch_bytes env (SpanData raw)) > max_rlp_bytes_per_channel)")
    case True
    then have "\<exists>e. r = Inl e" "co' = co \<or> co' = co1"
      using assms(2) o(3) by (auto simp: span_out_add_def co1_def [symmetric] Let_def split: if_splits sum.splits)
    then show ?thesis using keep by auto
  next
    case False
    then obtain raw where raw: "builder_raw (oe_tx env) (po_builder co1) = Inr raw"
        "\<not> length (batch_bytes env (SpanData raw)) > max_rlp_bytes_per_channel"
        and nf: "\<not> cmp_full C (po_compress co)"
      by (cases "builder_raw (oe_tx env) (po_builder co1)") auto
    define v where "v = batch_bytes env (SpanData raw)"
    define co2 where "co2 = co1\<lparr>po_rlp_length := length v\<rparr>"
    have st: "span_rewrite C v (span_preserve C co2) = (r, co')"
      using assms(2) o(3) raw nf
      by (simp add: span_out_add_def co1_def [symmetric] Let_def v_def co2_def)
    have bld: "po_builder co1 = appended b0 (bs @ [(b, n)])" using o(7) by (simp add: co1_def)
    then have v: "carries env kind (bs @ [(b, n)]) v" using raw o(1) by (simp add: carries_def v_def)
    have len: "length (sp_batches (sbb_span (po_builder co2))) = Suc (length bs)"
      using o(2) by (simp add: co2_def bld appended_length del: appended_snoc)
    have same: "po_compress co2 = po_compress co" "po_reader co2 = []" "po_closed co2 = False"
        "po_frame co2 = of_nat (length cs)" "po_builder co2 = appended b0 (bs @ [(b, n)])"
      using o bld by (simp_all add: co2_def co1_def)
    show ?thesis
    proof (cases "bs = []")
      case True
      then have "span_preserve C co2 = co2" using len by (simp add: span_preserve_def)
      then obtain c buf' where c: "took True c v [] buf'" "(\<exists>n. r = Inr n) \<and>
          co' = (if cmp_full C c then co2\<lparr>po_compress := c\<rparr> else co2\<lparr>po_compress := c, po_reader := []\<rparr>)"
        using span_rewrite_holds [of co2 w "[]" buf v r co'] o(9) nf st len True same(1)
        by (auto split del: if_split)
      then show ?thesis using o v same by (auto simp: out_open_def) blast+
    next
      case False
      then have gt: "length (sp_batches (sbb_span (po_builder co2))) > 1" using len by simp
      obtain d c where p: "span_preserve C co2 = co2\<lparr>po_reader := d, po_compress := c\<rparr>"
          "inflate d = w" "took True c w d []" "cmp_full C c = cmp_full C (po_compress co2)"
        using span_preserve_holds [of co2 w buf] o(9) same(1,2) gt by metis
      have "w \<noteq> []" using carries_nonempty o(1,8) False assms(3) by blast
      then have d: "d \<noteq> []" using p(2) inflate_Nil [OF o(9)] by auto
      have p': "took True (po_compress (span_preserve C co2)) w d []" "\<not> cmp_full C (po_compress (span_preserve C co2))"
        using p same(1) nf by simp_all
      obtain c2 buf' where c2: "took True c2 v [] buf'" and f:
          "if cmp_full C c2 \<and> length (sp_batches (sbb_span (po_builder (span_preserve C co2)))) \<noteq> 1
           then r = Inl CompressorFull \<and> co' = span_preserve C co2\<lparr>po_compress := c2\<rparr>
           else (\<exists>n. r = Inr n) \<and> co' = (if cmp_full C c2 then span_preserve C co2\<lparr>po_compress := c2\<rparr>
             else span_preserve C co2\<lparr>po_compress := c2, po_reader := []\<rparr>)"
        using span_rewrite_holds [OF p' st] by blast
      have e: "if cmp_full C c2 then r = Inl CompressorFull \<and> co' = co2\<lparr>po_reader := d, po_compress := c2\<rparr>
           else (\<exists>n. r = Inr n) \<and> co' = co2\<lparr>po_reader := [], po_compress := c2\<rparr>"
        using f gt p(1) by (cases "cmp_full C c2") simp_all
      show ?thesis
      proof (cases "cmp_full C c2")
        case True
        then show ?thesis using c2 e o same p(2) d by (auto simp: out_sealed_def) blast?
      next
        case False
        then show ?thesis using c2 e o same v by (auto simp: out_open_def) blast?
      qed
    qed
  qed
qed

lemma out_add_open:
  assumes "out_open took env kind ch bs cs" "rlp_nonempty env"
    and "out_add_singular_batch C env b n ch = (r, ch')"
  shows "case r of
      Inr _ \<Rightarrow> out_open took env kind ch' (bs @ [(b, n)]) cs
    | Inl _ \<Rightarrow> out_sealed took inflate env kind ch' bs cs"
proof (cases ch)
  case (SingularOut co)
  then obtain co' where c: "singular_add C env b co = (r, co')" "ch' = SingularOut co'"
    using assms(3) by (cases "singular_add C env b co") (simp add: out_add_singular_batch_def)
  then show ?thesis using singular_add_open [of env kind co bs cs b r co' n] assms(1) SingularOut
    by (auto intro: out_open_sealed split: sum.splits)
next
  case (SpanOut co)
  then obtain co' where c: "span_out_add C env b n co = (r, co')" "ch' = SpanOut co'"
    using assms(3) by (cases "span_out_add C env b n co") (simp add: out_add_singular_batch_def)
  then show ?thesis using span_add_open [of env kind co bs cs b n r co'] assms(1,2) SpanOut
    by (auto split: sum.splits)
qed

text \<open>Closing moves what the compressor holds within reach of the frames.\<close>

lemma out_close_done:
  assumes "out_sealed took inflate env kind ch bs cs"
  shows "\<exists>ch' rest. out_close C ch = (Inr (), ch') \<and> out_done took inflate env kind ch' bs cs rest"
proof (cases ch)
  case (SingularOut co)
  then obtain w buf where o: "kind = None" "\<not> so_closed co" "so_frame co = of_nat (length cs)"
      "carries env None bs w" "took True (so_compress co) w (concat cs) buf"
    using assms by (auto simp: out_sealed_def out_open_def)
  obtain b where "took False (cmp_close C (so_compress co)) w (concat cs) (buf @ b)"
      "inflate (concat cs @ buf @ b) = w"
    using took_close [OF o(5)] by blast
  then show ?thesis using o SingularOut by (auto simp: out_close_def singular_close_def out_done_def)
next
  case (SpanOut co)
  then obtain w buf v where o: "kind \<noteq> None" "\<not> po_closed co" "po_frame co = of_nat (length cs)"
      "concat cs = []" "carries env kind bs w"
      "if po_reader co = [] then took True (po_compress co) w [] buf
       else inflate (po_reader co) = w \<and> took True (po_compress co) v [] buf"
    using assms by (auto simp: out_sealed_def)
  show ?thesis
  proof (cases "po_reader co = []")
    case True
    then have t: "took True (po_compress co) w [] buf" using o(6) by simp
    obtain b where b: "took True (cmp_flush C (po_compress co)) w [] (buf @ b)" "inflate (buf @ b) = w"
      using took_flush [OF t] by auto
    obtain d c where r: "cmp_read C (cmp_len C (cmp_flush C (po_compress co))) (cmp_flush C (po_compress co)) = (d, c)"
      by fastforce
    have d: "d = buf @ b" using copy_all [OF b(1) r] by simp
    have "inflate (if cmp_len C (cmp_flush C (po_compress co)) > 0 then d else []) = w"
      using b(2) d took_len [OF b(1)] by (cases "buf @ b = []") auto
    then show ?thesis using o SpanOut True r
      by (auto simp: out_close_def span_out_close_def span_out_flush_def copy_compressed_def Let_def
          out_done_def simp del: concat_eq_Nil_conv)
  next
    case False
    then show ?thesis using o SpanOut
      by (auto simp: out_close_def span_out_close_def span_out_flush_def Let_def out_done_def
          simp del: concat_eq_Nil_conv)
  qed
qed

lemma out_close_again: "out_closed ch \<Longrightarrow> out_close C ch = (Inl AlreadyClosed, ch)"
  by (auto simp: out_closed_def out_close_def singular_close_def span_out_close_def split: channel_out.splits)

end

section \<open>Frames\<close>

lemma ucast_count: "ucast (of_nat k :: u64) = (of_nat k :: u16)"
  by (rule bit_word_eqI) (simp add: bit_simps)

lemma create_empty_frame_eq:
  "create_empty_frame ident k n closed m =
     (\<lparr>fr_id = ident, fr_number = ucast k, fr_data = [],
       fr_is_last = (unat (m - frame_v0_overhead) > n \<and> closed)\<rparr>, min (unat (m - frame_v0_overhead)) n)"
  by (simp add: create_empty_frame_def Let_def)

context compressing
begin

lemma done_output_frame:
  assumes "out_done took inflate env kind ch bs cs rest" "frame_v0_overhead \<le> m"
  defines "n \<equiv> unat (m - frame_v0_overhead)"
  shows "\<exists>ch'. out_output_frame C m ch =
      (Inr \<lparr>fr_id = out_id ch, fr_number = of_nat (length cs), fr_data = take n rest,
            fr_is_last = (n > length rest)\<rparr>, ch') \<and>
    out_id ch' = out_id ch \<and> out_done took inflate env kind ch' bs (cs @ [take n rest]) (drop n rest)"
proof (cases ch)
  case (SingularOut co)
  then obtain w where o: "carries env kind bs (inflate (concat cs @ rest))" "so_closed co"
      "so_frame co = of_nat (length cs)" "took False (so_compress co) w (concat cs) rest"
    using assms(1) by (auto simp: out_done_def)
  obtain d c where r: "cmp_read C (min n (length rest)) (so_compress co) = (d, c)" by fastforce
  have "d = take n rest" "took False c w (concat (cs @ [take n rest])) (drop n rest)"
    using took_read [OF o(4) r] by (cases "n \<le> length rest"; simp)+
  then show ?thesis using o SingularOut r took_len [OF o(4)] assms(2)
    by (simp add: out_output_frame_def singular_output_frame_def create_empty_frame_eq n_def
        out_id_def out_done_def not_less ucast_count)
      (cases "unat (m - frame_v0_overhead) \<le> length rest"; auto)
next
  case (SpanOut co)
  then show ?thesis using assms
    by (simp add: out_output_frame_def span_output_frame_def create_empty_frame_eq out_id_def out_done_def
        not_less ucast_count)
      (cases "unat (m - frame_v0_overhead) \<le> length rest"; simp)
qed

end

end
