(* ===== verification/Batcher_Channel_Props.thy ===== *)
theory Batcher_Channel_Props
  imports Batcher_Manager Batcher_Out_Props Derive_Channel_Props "HOL-Library.Multiset"
begin

text \<open>
  What the batcher's channels guarantee: every frame is in the queue, in flight or confirmed, the
  frames of a submitted channel reassemble at the receiver, and what they carry inflates to the
  encoding of exactly the channel's blocks.
\<close>

section \<open>Blocks and frames of a builder\<close>

definition block_batch :: "byte list \<Rightarrow> out_block \<Rightarrow> (singular_batch \<times> u64) option" where
  "block_batch sig blk =
     (case block_to_singular_batch sig blk of
        Inl _ \<Rightarrow> None | Inr (b, info) \<Rightarrow> Some (b, li_sequence_number info))"

text \<open>Frame \<open>i\<close> of the chunks given out so far; the last one is marked once the channel is finished.\<close>

definition sent_frame :: "byte list \<Rightarrow> byte list list \<Rightarrow> bool \<Rightarrow> nat \<Rightarrow> frame" where
  "sent_frame k cs fin i = (frame_of k cs i)\<lparr>fr_is_last := (fin \<and> i + 1 = length cs)\<rparr>"

definition frame_entry :: "byte list \<Rightarrow> byte list list \<Rightarrow> bool \<Rightarrow> nat \<Rightarrow> frame_data" where
  "frame_entry k cs fin i =
     \<lparr>fm_data = marshal_frame (sent_frame k cs fin i), fm_id = (k, of_nat i)\<rparr>"

lemma sent_frame_fin: "sent_frame k cs True i = frame_of k cs i"
  by (simp add: sent_frame_def frame_of_def)

lemma sent_frame_append:
  "i < length cs \<Longrightarrow> (ds = [] \<longrightarrow> \<not> fin) \<Longrightarrow> sent_frame k (cs @ ds) fin i = sent_frame k cs False i"
  by (cases ds) (auto simp: sent_frame_def frame_of_def nth_append)

lemma frame_entry_append:
  "i < length cs \<Longrightarrow> (ds = [] \<longrightarrow> \<not> fin) \<Longrightarrow> frame_entry k (cs @ ds) fin i = frame_entry k cs False i"
  by (simp add: frame_entry_def sent_frame_append)

lemma frame_entry_id [simp]: "fm_id (frame_entry k cs fin i) = (k, of_nat i)"
  by (simp add: frame_entry_def)

text \<open>\<open>chunk_ok m cs\<close>: what fits in a frame of size \<open>m\<close>.\<close>

definition chunks_fit :: "u64 \<Rightarrow> byte list list \<Rightarrow> bool" where
  "chunks_fit m cs \<longleftrightarrow> list_all (\<lambda>d. length d \<le> unat (m - frame_v0_overhead)) cs"

definition builder_inv ::
  "(bool \<Rightarrow> 'c \<Rightarrow> byte list \<Rightarrow> byte list \<Rightarrow> byte list \<Rightarrow> bool) \<Rightarrow> (byte list \<Rightarrow> byte list) \<Rightarrow> out_env \<Rightarrow>
   span_builder option \<Rightarrow> byte list \<Rightarrow> 'c channel_builder \<Rightarrow> byte list list \<Rightarrow> bool" where
  "builder_inv took inflate env kind k c cs \<longleftrightarrow>
     out_id (chb_co c) = k \<and> chb_num_frames c = length cs \<and>
     chunks_fit (cc_max_frame_size (chb_cfg c)) cs \<and>
     (\<exists>bs. map (block_batch (oe_sig env)) (chb_blocks c) = map Some bs \<and>
        (if chb_is_full c
         then cs \<noteq> [] \<and> out_closed (chb_co c) \<and> carries env kind bs (inflate (concat cs))
         else out_open took env kind (chb_co c) bs cs))"

text \<open>Between the filling and the output of frames: a full channel is not closed yet.\<close>

definition builder_filled ::
  "(bool \<Rightarrow> 'c \<Rightarrow> byte list \<Rightarrow> byte list \<Rightarrow> byte list \<Rightarrow> bool) \<Rightarrow> (byte list \<Rightarrow> byte list) \<Rightarrow> out_env \<Rightarrow>
   span_builder option \<Rightarrow> byte list \<Rightarrow> 'c channel_builder \<Rightarrow> byte list list \<Rightarrow> bool" where
  "builder_filled took inflate env kind k c cs \<longleftrightarrow>
     out_id (chb_co c) = k \<and> chb_num_frames c = length cs \<and>
     chunks_fit (cc_max_frame_size (chb_cfg c)) cs \<and>
     (\<exists>bs. map (block_batch (oe_sig env)) (chb_blocks c) = map Some bs \<and>
        out_sealed took inflate env kind (chb_co c) bs cs \<and>
        (\<not> chb_is_full c \<longrightarrow> out_open took env kind (chb_co c) bs cs))"

lemma out_add_id [simp]:
  "out_add_singular_batch C env b n ch = (r, ch') \<Longrightarrow> out_id ch' = out_id ch"
  by (auto simp: out_add_singular_batch_def out_id_def singular_add_def span_out_add_def Let_def
      span_rewrite_def span_preserve_def copy_compressed_def
      split: channel_out.splits if_splits prod.splits sum.splits)

lemma update_timeout_same [simp]:
  "chb_co (chb_update_timeout t r c) = chb_co c" "chb_cfg (chb_update_timeout t r c) = chb_cfg c"
  "chb_blocks (chb_update_timeout t r c) = chb_blocks c"
  "chb_num_frames (chb_update_timeout t r c) = chb_num_frames c"
  "chb_frames (chb_update_timeout t r c) = chb_frames c"
  "chb_full_err (chb_update_timeout t r c) = chb_full_err c"
  by (simp_all add: chb_update_timeout_def)

lemma sw_timeout_same [simp]:
  "chb_co (chb_update_sw_timeout b c) = chb_co c" "chb_cfg (chb_update_sw_timeout b c) = chb_cfg c"
  "chb_blocks (chb_update_sw_timeout b c) = chb_blocks c"
  "chb_num_frames (chb_update_sw_timeout b c) = chb_num_frames c"
  "chb_frames (chb_update_sw_timeout b c) = chb_frames c"
  "chb_full_err (chb_update_sw_timeout b c) = chb_full_err c"
  by (simp_all add: chb_update_sw_timeout_def)

lemma frame_published_same [simp]:
  "chb_co (chb_frame_published n c) = chb_co c" "chb_cfg (chb_frame_published n c) = chb_cfg c"
  "chb_blocks (chb_frame_published n c) = chb_blocks c"
  "chb_num_frames (chb_frame_published n c) = chb_num_frames c"
  "chb_frames (chb_frame_published n c) = chb_frames c"
  "chb_full_err (chb_frame_published n c) = chb_full_err c"
  by (simp_all add: chb_frame_published_def)

lemma register_same [simp]:
  "chb_co (chb_register_l1_block n c) = chb_co c" "chb_cfg (chb_register_l1_block n c) = chb_cfg c"
  "chb_blocks (chb_register_l1_block n c) = chb_blocks c"
  "chb_num_frames (chb_register_l1_block n c) = chb_num_frames c"
  "chb_frames (chb_register_l1_block n c) = chb_frames c"
  by (simp_all add: chb_register_l1_block_def chb_check_timeout_def chb_update_duration_timeout_def)

lemma register_full: "chb_is_full c \<Longrightarrow> chb_is_full (chb_register_l1_block n c)"
  by (auto simp: chb_is_full_def chb_register_l1_block_def chb_check_timeout_def
      chb_update_duration_timeout_def)

lemma mark_full_same [simp]:
  "chb_co (chb_mark_full C c) = chb_co c" "chb_cfg (chb_mark_full C c) = chb_cfg c"
  "chb_blocks (chb_mark_full C c) = chb_blocks c" "chb_frames (chb_mark_full C c) = chb_frames c"
  "chb_num_frames (chb_mark_full C c) = chb_num_frames c"
  by (simp_all add: chb_mark_full_def)

section \<open>Filling\<close>

lemma filled_registered:
  "builder_filled took inflate env kind k c cs \<Longrightarrow>
   builder_filled took inflate env kind k (chb_register_l1_block n c) cs"
  using register_full by (auto simp: builder_filled_def)

lemma filled_closed:
  "builder_filled took inflate env kind k c cs \<Longrightarrow> builder_filled took inflate env kind k (chb_close c) cs"
  by (auto simp: builder_filled_def chb_close_def chb_is_full_def)

text \<open>The conversion of a span that fails leaves a batch in the span's builder that was not accepted; the
  results below are about runs without it.\<close>

definition conversion_failed :: "manager_err + 'a \<Rightarrow> bool" where
  "conversion_failed r \<longleftrightarrow> (\<exists>e. r = Inl (ManagerFailed (SpanConversion e)))"

context compressing
begin

lemma out_add_errors:
  assumes "out_open took env kind ch bs cs" "out_add_singular_batch C env b n ch = (Inl e, ch')"
  shows "e = TooManyRLPBytes \<or> e = CompressorFull \<or> (\<exists>x. e = SpanConversion x)"
  using assms
  by (auto simp: out_add_singular_batch_def out_open_def singular_add_def span_out_add_def Let_def
      span_rewrite_def split: channel_out.splits if_splits prod.splits sum.splits)

lemma add_block_filled:
  assumes "builder_inv took inflate (be_out env) kind k c cs" "\<not> chb_is_full c" "be_comp env = C"
    and "rlp_nonempty (be_out env)" "chb_add_block env blk c = (r, c')"
    and "\<nexists>e. r = Inl (AddFailed (SpanConversion e))"
  shows "builder_filled took inflate (be_out env) kind k c' cs \<and>
    ((\<exists>e. r = Inl (AddFailed e)) \<longrightarrow> \<not> chb_is_full c') \<and> chb_cfg c' = chb_cfg c \<and>
    chb_frames c' = chb_frames c"
proof -
  obtain bs where i: "out_id (chb_co c) = k" "chb_num_frames c = length cs"
      "chunks_fit (cc_max_frame_size (chb_cfg c)) cs"
      "map (block_batch (oe_sig (be_out env))) (chb_blocks c) = map Some bs"
      "out_open took (be_out env) kind (chb_co c) bs cs"
    using assms(1,2) by (auto simp: builder_inv_def)
  have none: "chb_full_err c = None" using assms(2) by (simp add: chb_is_full_def)
  have keep: "builder_filled took inflate (be_out env) kind k c cs"
    using i out_open_sealed [OF i(5)] unfolding builder_filled_def by blast
  show ?thesis
  proof (cases "block_to_singular_batch (oe_sig (be_out env)) blk")
    case (Inl e)
    then have "c' = c" "r = Inl (AddFailed e)" using assms(5) none by (simp_all add: chb_add_block_def)
    then show ?thesis using keep assms(2) by simp
  next
    case (Inr p)
    obtain b info where p: "p = (b, info)" by fastforce
    obtain q co where q: "out_add_singular_batch C (be_out env) b (li_sequence_number info) (chb_co c) = (q, co)"
      by fastforce
    have st: "case q of
        Inr _ \<Rightarrow> out_open took (be_out env) kind co (bs @ [(b, li_sequence_number info)]) cs
      | Inl _ \<Rightarrow> out_sealed took inflate (be_out env) kind co bs cs"
      by (rule out_add_open [OF i(5) assms(4) q])
    have ident: "out_id co = k" using out_add_id [OF q] i(1) by simp
    show ?thesis
    proof (cases q)
      case (Inl e)
      have "e = TooManyRLPBytes \<or> e = CompressorFull"
        using out_add_errors [OF i(5), of b "li_sequence_number info" e co] q Inl assms(5,6) none Inr p assms(3)
        by (auto simp: chb_add_block_def)
      then have "r = Inl (ChannelFull (FullOut e))" "c' = c\<lparr>chb_co := co, chb_full_err := Some (FullOut e)\<rparr>"
        using assms(3,5) none Inr p q Inl by (auto simp: chb_add_block_def)
      then show ?thesis using i st Inl ident by (auto simp: builder_filled_def chb_is_full_def)
    next
      case (Inr x)
      then have c': "r = Inr info"
        "c' = chb_mark_full C (chb_update_sw_timeout b (c\<lparr>chb_co := co, chb_blocks := chb_blocks c @ [blk]\<rparr>))"
        using assms(3,5) none \<open>block_to_singular_batch _ _ = _\<close> p q by (auto simp: chb_add_block_def)
      have "block_batch (oe_sig (be_out env)) blk = Some (b, li_sequence_number info)"
        using \<open>block_to_singular_batch _ _ = _\<close> p by (simp add: block_batch_def)
      then have m: "map (block_batch (oe_sig (be_out env))) (chb_blocks c @ [blk]) =
          map Some (bs @ [(b, li_sequence_number info)])" using i(4) by simp
      have o: "out_open took (be_out env) kind co (bs @ [(b, li_sequence_number info)]) cs"
        using st Inr by simp
      have "builder_filled took inflate (be_out env) kind k c' cs"
        unfolding builder_filled_def c'(2)
        by (intro conjI exI [of _ "bs @ [(b, li_sequence_number info)]"])
           (use m o out_open_sealed [OF o] i(2,3) ident in simp_all)
      then show ?thesis by (simp add: c')
    qed
  qed
qed

lemma add_blocks_filled:
  "builder_inv took inflate (be_out env) kind k c cs \<Longrightarrow> \<not> chb_is_full c \<Longrightarrow> be_comp env = C \<Longrightarrow>
   rlp_nonempty (be_out env) \<Longrightarrow> add_blocks env blks n c = (r, c') \<Longrightarrow> \<not> conversion_failed r \<Longrightarrow>
   builder_filled took inflate (be_out env) kind k c' cs \<and>
   ((\<exists>e. r = Inl e) \<longrightarrow> \<not> chb_is_full c') \<and> chb_cfg c' = chb_cfg c \<and> chb_frames c' = chb_frames c"
proof (induction env blks n c rule: add_blocks.induct)
  case (1 env n b)
  then show ?case by (auto simp: builder_filled_def builder_inv_def intro: out_open_sealed)
next
  case (2 env blk blks n b)
  obtain q b' where q: "chb_add_block env blk b = (q, b')" by fastforce
  have ok: "\<nexists>e. q = Inl (AddFailed (SpanConversion e))"
    using "2.prems"(5,6) q by (auto simp: conversion_failed_def)
  note f = add_block_filled [OF "2.prems"(1-4) q ok]
  show ?case
  proof (cases "\<exists>x. q = Inr x \<and> \<not> chb_is_full b'")
    case True
    then obtain x where x: "q = Inr x" "\<not> chb_is_full b'" by blast
    have inv: "builder_inv took inflate (be_out env) kind k b' cs"
      using f x(2) by (auto simp: builder_filled_def builder_inv_def)
    have "add_blocks env blks (n + 1) b' = (r, c')" using "2.prems"(5) q x by simp
    then show ?thesis
      using "2.IH" [OF q [symmetric] x(1) x(2) inv x(2) "2.prems"(3,4) _ "2.prems"(6)] f by simp
  next
    case False
    then show ?thesis using "2.prems"(5) q f
      by (auto split: sum.splits add_err.splits if_splits)
  qed
qed

text \<open>Frames as they are cut off while the channel is open, and all of them once it is closed.\<close>

lemma chunks_fit_snoc: "chunks_fit m (cs @ [take (unat (m - frame_v0_overhead)) d]) \<longleftrightarrow> chunks_fit m cs"
  by (simp add: chunks_fit_def)

lemma out_output_closed [simp]:
  "out_output_frame C m ch = (r, ch') \<Longrightarrow> out_closed ch' = out_closed ch"
  by (auto simp: out_output_frame_def out_closed_def singular_output_frame_def span_output_frame_def
      split: channel_out.splits if_splits prod.splits)

lemma done_closed: "out_done took inflate env kind ch bs cs rest \<Longrightarrow> out_closed ch"
  by (auto simp: out_done_def out_closed_def split: channel_out.splits)

lemma output_all_done:
  assumes "out_done took inflate env kind (chb_co c) bs cs rest"
    and "frame_v0_overhead < cc_max_frame_size (chb_cfg c)"
    and "chb_num_frames c = length cs" "chunks_fit (cc_max_frame_size (chb_cfg c)) cs"
  shows "\<exists>c' ds. output_all_frames C c = Some (Inr (), c') \<and> ds \<noteq> [] \<and>
    chb_frames c' = chb_frames c @ map (frame_entry (out_id (chb_co c)) (cs @ ds) True) [length cs..<length (cs @ ds)] \<and>
    carries env kind bs (inflate (concat (cs @ ds))) \<and> out_closed (chb_co c') \<and>
    out_id (chb_co c') = out_id (chb_co c) \<and> chb_num_frames c' = length (cs @ ds) \<and>
    chunks_fit (cc_max_frame_size (chb_cfg c)) (cs @ ds) \<and> chb_cfg c' = chb_cfg c \<and>
    chb_blocks c' = chb_blocks c \<and> (chb_is_full c \<longrightarrow> chb_is_full c')"
  using assms
proof (induction "length rest" arbitrary: c cs rest rule: less_induct)
  case less
  define m where "m = cc_max_frame_size (chb_cfg c)"
  define n where "n = unat (m - frame_v0_overhead)"
  have n: "n > 0" using less.prems(2) by (simp add: n_def m_def word_neq_0_conv [symmetric] unat_gt_0)
  have le: "frame_v0_overhead \<le> m" using less.prems(2) by (simp add: m_def)
  define f where "f = \<lparr>fr_id = out_id (chb_co c), fr_number = of_nat (length cs), fr_data = take n rest,
      fr_is_last = (n > length rest)\<rparr>"
  obtain co where o: "out_output_frame C m (chb_co c) = (Inr f, co)" "out_id co = out_id (chb_co c)"
      "out_done took inflate env kind co bs (cs @ [take n rest]) (drop n rest)"
    using done_output_frame [OF less.prems(1) le] by (auto simp: n_def f_def)
  define c1 where "c1 = c\<lparr>chb_co := co,
      chb_full_err := (if fr_number f = 65535 then Some FullMaxFrameIndex else chb_full_err c),
      chb_frames := chb_frames c @ [\<lparr>fm_data = marshal_frame f, fm_id = (out_id co, fr_number f)\<rparr>],
      chb_num_frames := chb_num_frames c + 1,
      chb_output_bytes := chb_output_bytes c + length (marshal_frame f)\<rparr>"
  have out: "chb_output_frame C c = (Inr (fr_is_last f), c1)"
    using o(1) by (simp add: chb_output_frame_def m_def [symmetric] c1_def)
  have fit: "chunks_fit m (cs @ [take n rest])" using less.prems(4) by (simp add: chunks_fit_def n_def m_def)
  have c1: "chb_num_frames c1 = length (cs @ [take n rest])" "chb_cfg c1 = chb_cfg c" "chb_co c1 = co"
      "chb_blocks c1 = chb_blocks c" "chb_is_full c \<longrightarrow> chb_is_full c1"
    using less.prems(3) by (simp_all add: c1_def chb_is_full_def)
  show ?case
  proof (cases "n > length rest")
    case True
    then have "f = frame_of (out_id (chb_co c)) (cs @ [take n rest]) (length cs)"
      by (simp add: f_def frame_of_def)
    then have fr: "chb_frames c1 = chb_frames c @
        map (frame_entry (out_id (chb_co c)) (cs @ [take n rest]) True) [length cs..<length (cs @ [take n rest])]"
      by (simp add: c1_def frame_entry_def sent_frame_fin o(2)) (simp add: frame_of_def)
    have "output_all_frames C c = Some (Inr (), c1)"
      using True by (subst output_all_frames.simps) (simp add: out f_def)
    moreover have "carries env kind bs (inflate (concat (cs @ [take n rest])))"
      using o(3) True by (simp add: out_done_def)
    ultimately show ?thesis
      using fr c1 fit done_closed [OF o(3)] o(2)
      by (intro exI [of _ c1] exI [of _ "[take n rest]"]) (simp add: m_def)
  next
    case False
    then have "length (drop n rest) < length rest" using n by simp
    from less.hyps [OF this, of c1 "cs @ [take n rest]"] obtain c' ds where ih:
        "output_all_frames C c1 = Some (Inr (), c')" "ds \<noteq> []"
        "chb_frames c' = chb_frames c1 @ map (frame_entry (out_id (chb_co c)) (cs @ take n rest # ds) True)
           [Suc (length cs)..<length (cs @ take n rest # ds)]"
        "carries env kind bs (inflate (concat (cs @ take n rest # ds)))" "out_closed (chb_co c')"
        "out_id (chb_co c') = out_id (chb_co c)" "chb_num_frames c' = length (cs @ take n rest # ds)"
        "chunks_fit m (cs @ take n rest # ds)" "chb_cfg c' = chb_cfg c"
        "chb_blocks c' = chb_blocks c" "chb_is_full c1 \<longrightarrow> chb_is_full c'"
      using o c1 less.prems(2) fit by (auto simp: m_def)
    have fin: "sent_frame (out_id (chb_co c)) (cs @ take n rest # ds) True (length cs) = f"
      using False ih(2) by (simp add: sent_frame_fin frame_of_def f_def)
    have "chb_frames c' = chb_frames c @
        map (frame_entry (out_id (chb_co c)) (cs @ take n rest # ds) True) [length cs..<length (cs @ take n rest # ds)]"
    proof -
      have "[length cs..<length (cs @ take n rest # ds)] =
          length cs # [Suc (length cs)..<length (cs @ take n rest # ds)]" by (rule upt_conv_Cons) simp
      moreover have "frame_entry (out_id (chb_co c)) (cs @ take n rest # ds) True (length cs) =
          \<lparr>fm_data = marshal_frame f, fm_id = (out_id co, fr_number f)\<rparr>"
        by (simp only: frame_entry_def fin) (simp add: f_def o(2))
      ultimately show ?thesis unfolding ih(3) by (simp add: c1_def)
    qed
    moreover have "output_all_frames C c = Some (Inr (), c')"
      using False ih(1) by (subst output_all_frames.simps) (simp add: out f_def)
    ultimately show ?thesis using ih c1(5)
      by (intro exI [of _ c'] exI [of _ "take n rest # ds"]) (simp add: m_def)
  qed
qed

lemma open_output_frame:
  assumes "out_open took env kind ch bs cs" "frame_v0_overhead \<le> m"
  shows "\<exists>ch' d. out_output_frame C m ch =
      (Inr \<lparr>fr_id = out_id ch, fr_number = of_nat (length cs), fr_data = d, fr_is_last = False\<rparr>, ch') \<and>
    out_open took env kind ch' bs (cs @ [d]) \<and> length d = min (unat (m - frame_v0_overhead)) (out_ready_bytes C ch) \<and>
    out_ready_bytes C ch' = out_ready_bytes C ch - length d \<and> out_id ch' = out_id ch"
proof (cases ch)
  case (SingularOut co)
  then obtain w buf where o: "kind = None" "\<not> so_closed co" "so_frame co = of_nat (length cs)"
      "carries env None bs w" "took True (so_compress co) w (concat cs) buf"
    using assms(1) by (auto simp: out_open_def)
  define n where "n = min (unat (m - frame_v0_overhead)) (length buf)"
  obtain d c where r: "cmp_read C n (so_compress co) = (d, c)" by fastforce
  have d: "d = take n buf" "took True c w (concat cs @ take n buf) (drop n buf)"
    using took_read [OF o(5) r] by auto
  have l: "cmp_len C (so_compress co) = length buf" "cmp_len C c = length buf - n" "length d = n"
    using took_len [OF o(5)] took_len [OF d(2)] d(1) by (simp_all add: n_def)
  have out: "out_output_frame C m ch =
      (Inr \<lparr>fr_id = out_id ch, fr_number = of_nat (length cs), fr_data = d, fr_is_last = False\<rparr>,
       SingularOut (co\<lparr>so_compress := c, so_frame := so_frame co + 1\<rparr>))"
    using o(2,3) l r assms(2) SingularOut
    by (simp add: out_output_frame_def singular_output_frame_def create_empty_frame_eq n_def [symmetric]
        out_id_def ucast_count not_less)
  show ?thesis
    unfolding out using o SingularOut d l
    by (intro exI) (auto simp: out_open_def out_ready_bytes_def out_id_def n_def, blast)
next
  case (SpanOut co)
  then show ?thesis using assms
    by (auto simp: out_open_def out_output_frame_def span_output_frame_def create_empty_frame_eq out_id_def
        out_ready_bytes_def not_less ucast_count) blast
qed

lemma output_ready_open:
  assumes "out_open took env kind (chb_co c) bs cs"
    and "frame_v0_overhead < cc_max_frame_size (chb_cfg c)" "unat (cc_max_frame_size (chb_cfg c)) < 2 ^ 63"
    and "chb_num_frames c = length cs" "chunks_fit (cc_max_frame_size (chb_cfg c)) cs"
  shows "\<exists>c' ds. output_ready_frames C c = Some (Inr (), c') \<and>
    chb_frames c' = chb_frames c @ map (frame_entry (out_id (chb_co c)) (cs @ ds) False) [length cs..<length (cs @ ds)] \<and>
    out_open took env kind (chb_co c') bs (cs @ ds) \<and>
    out_id (chb_co c') = out_id (chb_co c) \<and> chb_num_frames c' = length (cs @ ds) \<and>
    chunks_fit (cc_max_frame_size (chb_cfg c)) (cs @ ds) \<and> chb_cfg c' = chb_cfg c \<and>
    chb_blocks c' = chb_blocks c \<and> (length (cs @ ds) \<le> 65535 \<longrightarrow> chb_full_err c' = chb_full_err c)"
  using assms
proof (induction "out_ready_bytes C (chb_co c)" arbitrary: c cs rule: less_induct)
  case less
  define m where "m = cc_max_frame_size (chb_cfg c)"
  have le: "frame_v0_overhead \<le> m" using less.prems(2) by (simp add: m_def)
  have sm: "int r \<ge> sint m \<longleftrightarrow> r \<ge> unat m" for r
    using less.prems(3) sint_small [of m] by (simp add: m_def del: of_nat_unat)
  show ?case
  proof (cases "out_ready_bytes C (chb_co c) \<ge> unat m")
    case False
    then have "output_ready_frames C c = Some (Inr (), c)"
      by (subst output_ready_frames.simps) (simp add: m_def [symmetric] sm del: of_nat_unat)
    then show ?thesis using less.prems by (intro exI [of _ c] exI [of _ "[]"]) simp
  next
    case True
    define k where "k = out_id (chb_co c)"
    obtain co d where o: "out_output_frame C m (chb_co c) =
          (Inr \<lparr>fr_id = k, fr_number = of_nat (length cs), fr_data = d, fr_is_last = False\<rparr>, co)"
        "out_open took env kind co bs (cs @ [d])"
        "length d = min (unat (m - frame_v0_overhead)) (out_ready_bytes C (chb_co c))"
        "out_ready_bytes C co = out_ready_bytes C (chb_co c) - length d" "out_id co = k"
      using open_output_frame [OF less.prems(1) le] unfolding k_def by blast
    have "m - frame_v0_overhead \<noteq> 0" using less.prems(2) by (simp add: m_def)
    then have "0 < unat (m - frame_v0_overhead)" by (simp add: unat_gt_0)
    moreover have "0 < unat m" using le by (simp add: word_le_nat_alt frame_v0_overhead_def)
    ultimately have shrink: "out_ready_bytes C co < out_ready_bytes C (chb_co c)" using o(3,4) True by simp
    define f where "f = \<lparr>fr_id = k, fr_number = of_nat (length cs) :: u16, fr_data = d, fr_is_last = False\<rparr>"
    define c1 where "c1 = c\<lparr>chb_co := co,
        chb_full_err := (if fr_number f = 65535 then Some FullMaxFrameIndex else chb_full_err c),
        chb_frames := chb_frames c @ [\<lparr>fm_data = marshal_frame f, fm_id = (k, fr_number f)\<rparr>],
        chb_num_frames := chb_num_frames c + 1,
        chb_output_bytes := chb_output_bytes c + length (marshal_frame f)\<rparr>"
    have out: "chb_output_frame C c = (Inr False, c1)"
      using o(1,5) by (simp add: chb_output_frame_def m_def [symmetric] c1_def f_def)
    have fit: "chunks_fit m (cs @ [d])" using less.prems(5) o(3) by (simp add: chunks_fit_def m_def)
    have c1: "chb_num_frames c1 = length (cs @ [d])" "chb_cfg c1 = chb_cfg c" "chb_co c1 = co"
        "chb_blocks c1 = chb_blocks c"
      using less.prems(4) by (simp_all add: c1_def)
    obtain c' ds where ih: "output_ready_frames C c1 = Some (Inr (), c')"
        "chb_frames c' = chb_frames c1 @ map (frame_entry k (cs @ d # ds) False)
           [Suc (length cs)..<length (cs @ d # ds)]"
        "out_open took env kind (chb_co c') bs (cs @ d # ds)" "out_id (chb_co c') = k"
        "chb_num_frames c' = length (cs @ d # ds)" "chunks_fit m (cs @ d # ds)"
        "chb_cfg c' = chb_cfg c" "chb_blocks c' = chb_blocks c"
        "length (cs @ d # ds) \<le> 65535 \<longrightarrow> chb_full_err c' = chb_full_err c1"
      using less.hyps [of c1 "cs @ [d]"] shrink o(2,5) c1 less.prems(2,3) fit by (auto simp: m_def)
    have "[length cs..<length (cs @ d # ds)] = length cs # [Suc (length cs)..<length (cs @ d # ds)]"
      by (rule upt_conv_Cons) simp
    moreover have "frame_entry k (cs @ d # ds) False (length cs) =
        \<lparr>fm_data = marshal_frame f, fm_id = (k, fr_number f)\<rparr>"
      by (simp add: frame_entry_def sent_frame_def frame_of_def f_def)
    ultimately have "chb_frames c' = chb_frames c @
        map (frame_entry k (cs @ d # ds) False) [length cs..<length (cs @ d # ds)]"
      unfolding ih(2) by (simp add: c1_def)
    moreover have "output_ready_frames C c = Some (Inr (), c')"
      using True ih(1) by (subst output_ready_frames.simps) (simp add: m_def [symmetric] sm out del: of_nat_unat)
    moreover have "length (cs @ d # ds) \<le> 65535 \<longrightarrow> chb_full_err c1 = chb_full_err c"
    proof
      assume "length (cs @ d # ds) \<le> 65535"
      then have "unat (fr_number f) < 65535" by (simp add: f_def unat_of_nat)
      then show "chb_full_err c1 = chb_full_err c" by (auto simp: c1_def)
    qed
    ultimately show ?thesis using ih
      by (intro exI [of _ c'] exI [of _ "d # ds"]) (simp add: m_def k_def)
  qed
qed

text \<open>The output of frames after the filling restores the invariant.\<close>

lemma output_frames_inv:
  assumes "builder_filled took inflate (be_out env) kind k c cs" "be_comp env = C"
    and "frame_v0_overhead < cc_max_frame_size (chb_cfg c)" "unat (cc_max_frame_size (chb_cfg c)) < 2 ^ 63"
  shows "\<exists>c' ds. chb_output_frames C c = Some (Inr (), c') \<and> chb_cfg c' = chb_cfg c \<and>
    chb_num_frames c' = length (cs @ ds) \<and> (chb_is_full c \<longrightarrow> ds \<noteq> []) \<and>
    (length (cs @ ds) \<le> 65535 \<longrightarrow>
       builder_inv took inflate (be_out env) kind k c' (cs @ ds) \<and>
       chb_frames c' = chb_frames c @ map (frame_entry k (cs @ ds) (chb_is_full c')) [length cs..<length (cs @ ds)] \<and>
       chb_is_full c' = chb_is_full c)"
proof -
  obtain bs where i: "out_id (chb_co c) = k" "chb_num_frames c = length cs"
      "chunks_fit (cc_max_frame_size (chb_cfg c)) cs"
      "map (block_batch (oe_sig (be_out env))) (chb_blocks c) = map Some bs"
      "out_sealed took inflate (be_out env) kind (chb_co c) bs cs"
      "\<not> chb_is_full c \<longrightarrow> out_open took (be_out env) kind (chb_co c) bs cs"
    using assms(1) by (auto simp: builder_filled_def)
  show ?thesis
  proof (cases "chb_is_full c")
    case True
    obtain co rest where cl: "out_close C (chb_co c) = (Inr (), co)"
        "out_done took inflate (be_out env) kind co bs cs rest"
      using out_close_done [OF i(5)] by blast
    have ident: "out_id co = k"
      using cl(1) i(1) by (auto simp: out_close_def out_id_def singular_close_def span_out_close_def
          span_out_flush_def copy_compressed_def Let_def split: channel_out.splits if_splits prod.splits)
    from output_all_done [of "be_out env" kind "c\<lparr>chb_co := co\<rparr>" bs cs rest] obtain c' ds where
        "output_all_frames C (c\<lparr>chb_co := co\<rparr>) = Some (Inr (), c')" "ds \<noteq> []"
        "chb_frames c' = chb_frames c @ map (frame_entry k (cs @ ds) True) [length cs..<length (cs @ ds)]"
        "carries (be_out env) kind bs (inflate (concat (cs @ ds)))" "out_closed (chb_co c')"
        "out_id (chb_co c') = k" "chb_num_frames c' = length (cs @ ds)"
        "chunks_fit (cc_max_frame_size (chb_cfg c)) (cs @ ds)" "chb_cfg c' = chb_cfg c"
        "chb_blocks c' = chb_blocks c" "chb_is_full c'"
      using cl(2) assms(3) i(2,3) ident True by (auto simp: chb_is_full_def)
    then show ?thesis using True cl(1) i(4)
      by (intro exI [of _ c'] exI [of _ ds])
         (auto simp: chb_output_frames_def close_and_output_all_frames_def builder_inv_def)
  next
    case False
    from output_ready_open [of "be_out env" kind c bs cs] obtain c' ds where
        "output_ready_frames C c = Some (Inr (), c')"
        "chb_frames c' = chb_frames c @ map (frame_entry k (cs @ ds) False) [length cs..<length (cs @ ds)]"
        "out_open took (be_out env) kind (chb_co c') bs (cs @ ds)"
        "out_id (chb_co c') = k" "chb_num_frames c' = length (cs @ ds)"
        "chunks_fit (cc_max_frame_size (chb_cfg c)) (cs @ ds)" "chb_cfg c' = chb_cfg c"
        "chb_blocks c' = chb_blocks c" "length (cs @ ds) \<le> 65535 \<longrightarrow> chb_full_err c' = chb_full_err c"
      using False i assms(3,4) by blast
    then show ?thesis using False i(4)
      by (intro exI [of _ c'] exI [of _ ds]) (auto simp: chb_output_frames_def builder_inv_def chb_is_full_def)
  qed
qed

end

section \<open>The life of a channel\<close>

text \<open>The state is the channel and the frames whose transactions were confirmed. A channel is filled and
  its frames are cut off in one operation of the manager, as it is when the batcher stops. Frame
  numbers have 16 bits: the runs are those that stay below the last one.\<close>

inductive channel_step ::
  "'c batcher_env \<Rightarrow> 'c pending_channel \<times> frame_data list \<Rightarrow> 'c pending_channel \<times> frame_data list \<Rightarrow> bool"
  for env where
  step_fill: "\<not> chb_is_full (pc_builder s) \<Longrightarrow> add_blocks env blks 0 (pc_builder s) = (Inr n, b1) \<Longrightarrow>
    chb_output_frames (be_comp env) (chb_register_l1_block l1 b1) = Some (r, b2) \<Longrightarrow>
    chb_num_frames b2 \<le> 65535 \<Longrightarrow>
    channel_step env (s, sent) (s\<lparr>pc_builder := b2\<rparr>, sent)"
| step_fill_failed: "\<not> chb_is_full (pc_builder s) \<Longrightarrow> add_blocks env blks 0 (pc_builder s) = (Inl e, b1) \<Longrightarrow>
    \<not> conversion_failed (Inl e :: manager_err + nat) \<Longrightarrow>
    channel_step env (s, sent) (s\<lparr>pc_builder := b1\<rparr>, sent)"
| step_terminate: "chb_output_frames (be_comp env) (chb_close (pc_builder s)) = Some (r, b2) \<Longrightarrow>
    chb_num_frames b2 \<le> 65535 \<Longrightarrow>
    channel_step env (s, sent) (s\<lparr>pc_builder := b2\<rparr>, sent)"
| step_next: "pc_next_tx_data s = Some (f, s') \<Longrightarrow> channel_step env (s, sent) (s', sent)"
| step_failed: "pc_tx_failed k s = Some s' \<Longrightarrow> channel_step env (s, sent) (s', sent)"
| step_confirmed: "pc_tx_confirmed k inclusion s = (res, s') \<Longrightarrow>
    channel_step env (s, sent)
      (s', sent @ (case map_of (pc_pending s) k of None \<Rightarrow> [] | Some f \<Rightarrow> [f]))"

definition pending_ok :: "(tx_id \<times> frame_data) list \<Rightarrow> bool" where
  "pending_ok al \<longleftrightarrow> distinct (map fst al) \<and> list_all (\<lambda>(k, f). fm_id f = k) al"

text \<open>Every frame that was cut off is waiting, in flight, or confirmed, and only once.\<close>

definition channel_held ::
  "byte list \<Rightarrow> byte list list \<Rightarrow> 'c pending_channel \<times> frame_data list \<Rightarrow> bool" where
  "channel_held k cs st \<longleftrightarrow>
     (case st of (s, sent) \<Rightarrow>
        pending_ok (pc_pending s) \<and>
        mset (chb_frames (pc_builder s) @ map snd (pc_pending s) @ sent) =
          mset (map (frame_entry k cs (chb_is_full (pc_builder s))) [0..<length cs]))"

lemma map_of_delete_mset:
  "distinct (map fst al) \<Longrightarrow> map_of al k = Some v \<Longrightarrow>
   mset (map snd al) = add_mset v (mset (map snd (AList.delete k al)))"
proof (induction al)
  case (Cons p al)
  then show ?case by (cases p) auto
qed simp

lemma update_new: "k \<notin> fst ` set al \<Longrightarrow> AList.update k v al = al @ [(k, v)]"
  by (induction al) auto

lemma pending_ok_delete: "pending_ok al \<Longrightarrow> pending_ok (AList.delete k al)"
  unfolding pending_ok_def
  by (simp add: AList.distinct_delete) (auto simp: list_all_iff AList.delete_eq)

lemma pending_ok_value: "pending_ok al \<Longrightarrow> map_of al k = Some f \<Longrightarrow> fm_id f = k"
  by (auto simp: pending_ok_def list_all_iff dest: map_of_SomeD)

lemma pending_keys: "pending_ok al \<Longrightarrow> fst ` set al = fm_id ` set (map snd al)"
  by (force simp: pending_ok_def list_all_iff)

text \<open>Frame numbers are distinct as long as they fit in 16 bits.\<close>

lemma held_distinct:
  assumes "channel_held k cs (s, sent)" "length cs \<le> 65536"
  shows "distinct (map fm_id (chb_frames (pc_builder s) @ map snd (pc_pending s) @ sent))"
proof -
  let ?all = "chb_frames (pc_builder s) @ map snd (pc_pending s) @ sent"
  let ?es = "map (frame_entry k cs (chb_is_full (pc_builder s))) [0..<length cs]"
  have "mset ?all = mset ?es" using assms(1) unfolding channel_held_def prod.case by blast
  then have "mset (map fm_id ?all) = mset (map fm_id ?es)" by (simp only: mset_map)
  moreover have "map fm_id ?es = map (\<lambda>i. (k, of_nat i)) [0..<length cs]" by simp
  moreover have "inj_on (\<lambda>i. (k, of_nat i :: u16)) {0..<length cs}"
    by (rule inj_onI) (use assms(2) in \<open>metis atLeastLessThan_iff frame_number less_le_trans prod.inject\<close>)
  then have "distinct (map (\<lambda>i. (k, of_nat i :: u16)) [0..<length cs])" by (simp add: distinct_map)
  ultimately show ?thesis by (metis mset_eq_imp_distinct_iff)
qed

lemma entries_append:
  "(ds = [] \<longrightarrow> \<not> fin) \<Longrightarrow>
   map (frame_entry k (cs @ ds) fin) [0..<length (cs @ ds)] =
   map (frame_entry k cs False) [0..<length cs] @ map (frame_entry k (cs @ ds) fin) [length cs..<length (cs @ ds)]"
  by (simp add: upt_add_eq_append [of 0 "length cs"] frame_entry_append)

lemma held_output:
  assumes "channel_held k cs (s, sent)" "\<not> chb_is_full (pc_builder s)"
    and "chb_frames b = chb_frames (pc_builder s) @
      map (frame_entry k (cs @ ds) (chb_is_full b)) [length cs..<length (cs @ ds)]"
    and "ds = [] \<longrightarrow> \<not> chb_is_full b"
  shows "channel_held k (cs @ ds) (s\<lparr>pc_builder := b\<rparr>, sent)"
proof -
  let ?new = "map (frame_entry k (cs @ ds) (chb_is_full b)) [length cs..<length (cs @ ds)]"
  let ?rest = "map snd (pc_pending s) @ sent"
  have "mset (chb_frames b @ ?rest) = mset (chb_frames (pc_builder s) @ ?rest) + mset ?new"
    by (simp only: assms(3) mset_append) (simp only: ac_simps)
  also have "mset (chb_frames (pc_builder s) @ ?rest) = mset (map (frame_entry k cs False) [0..<length cs])"
    using assms(1,2) by (simp only: channel_held_def prod.case)
  also have "\<dots> + mset ?new = mset (map (frame_entry k (cs @ ds) (chb_is_full b)) [0..<length (cs @ ds)])"
    by (simp only: entries_append [OF assms(4)] mset_append)
  finally show ?thesis using assms(1) by (simp add: channel_held_def)
qed

lemma held_builder:
  "channel_held k cs (s, sent) \<Longrightarrow> chb_frames b = chb_frames (pc_builder s) \<Longrightarrow>
   chb_is_full b = chb_is_full (pc_builder s) \<Longrightarrow> channel_held k cs (s\<lparr>pc_builder := b\<rparr>, sent)"
  by (simp add: channel_held_def)

lemma held_next:
  assumes h: "channel_held k cs (s, sent)" "length cs \<le> 65536" and n: "pc_next_tx_data s = Some (f, s')"
  shows "channel_held k cs (s', sent) \<and> chb_co (pc_builder s') = chb_co (pc_builder s) \<and>
    pc_builder s' = (pc_builder s)\<lparr>chb_frames := chb_frames (pc_builder s')\<rparr>"
proof -
  obtain rest where r: "chb_frames (pc_builder s) = f # rest"
      "s' = s\<lparr>pc_builder := (pc_builder s)\<lparr>chb_frames := rest\<rparr>,
              pc_pending := AList.update (fm_id f) f (pc_pending s)\<rparr>"
    using n by (auto simp: pc_next_tx_data_def chb_next_frame_def split: list.splits)
  have p: "pending_ok (pc_pending s)" using h(1) by (simp add: channel_held_def)
  have "fm_id f \<notin> fm_id ` set (map snd (pc_pending s))"
    using held_distinct [OF h] r(1) by auto
  then have new: "fm_id f \<notin> fst ` set (pc_pending s)" using pending_keys [OF p] by simp
  then have "pending_ok (pc_pending s @ [(fm_id f, f)])" using p by (auto simp: pending_ok_def)
  then show ?thesis using h(1) r update_new [OF new] by (simp add: channel_held_def chb_is_full_def)
qed

lemma held_failed:
  assumes h: "channel_held k cs (s, sent)" and f: "pc_tx_failed i s = Some s'"
  shows "channel_held k cs (s', sent) \<and>
    pc_builder s' = (pc_builder s)\<lparr>chb_frames := chb_frames (pc_builder s')\<rparr>"
proof (cases "map_of (pc_pending s) i")
  case None
  then show ?thesis using f h by (simp add: pc_tx_failed_def)
next
  case (Some x)
  have p: "pending_ok (pc_pending s)" using h by (simp add: channel_held_def)
  have s': "s' = s\<lparr>pc_builder := (pc_builder s)\<lparr>chb_frames := chb_frames (pc_builder s) @ [x]\<rparr>,
      pc_pending := AList.delete i (pc_pending s)\<rparr>"
    using f Some by (auto simp: pc_tx_failed_def chb_push_frame_def split: if_splits)
  have "mset (map snd (pc_pending s)) = add_mset x (mset (map snd (AList.delete i (pc_pending s))))"
    by (rule map_of_delete_mset [OF _ Some]) (use p in \<open>simp add: pending_ok_def\<close>)
  then show ?thesis using h pending_ok_delete [OF p] by (simp add: s' channel_held_def chb_is_full_def)
qed

lemma held_confirmed:
  assumes h: "channel_held k cs (s, sent)" and f: "pc_tx_confirmed i inclusion s = (res, s')"
  shows "channel_held k cs (s', sent @ (case map_of (pc_pending s) i of None \<Rightarrow> [] | Some f \<Rightarrow> [f])) \<and>
    (pc_builder s' = pc_builder s \<or> pc_builder s' = chb_frame_published (bid_number inclusion) (pc_builder s))"
proof (cases "map_of (pc_pending s) i")
  case None
  then show ?thesis using f h by (simp add: pc_tx_confirmed_def)
next
  case (Some x)
  have p: "pending_ok (pc_pending s)" using h by (simp add: channel_held_def)
  have s': "s' = s\<lparr>pc_pending := AList.delete i (pc_pending s),
      pc_confirmed := AList.update i inclusion (pc_confirmed s),
      pc_builder := chb_frame_published (bid_number inclusion) (pc_builder s)\<rparr>"
    using f Some by (auto simp: pc_tx_confirmed_def Let_def split: if_splits)
  have "mset (map snd (pc_pending s)) = add_mset x (mset (map snd (AList.delete i (pc_pending s))))"
    by (rule map_of_delete_mset [OF _ Some]) (use p in \<open>simp add: pending_ok_def\<close>)
  then show ?thesis using h pending_ok_delete [OF p] Some
    by (simp add: s' channel_held_def chb_is_full_def)
qed

definition frame_size_ok :: "channel_config \<Rightarrow> bool" where
  "frame_size_ok cfg \<longleftrightarrow> frame_v0_overhead < cc_max_frame_size cfg \<and> unat (cc_max_frame_size cfg) < 2 ^ 63"

definition sending_inv ::
  "(bool \<Rightarrow> 'c \<Rightarrow> byte list \<Rightarrow> byte list \<Rightarrow> byte list \<Rightarrow> bool) \<Rightarrow> (byte list \<Rightarrow> byte list) \<Rightarrow> out_env \<Rightarrow>
   channel_config \<Rightarrow> span_builder option \<Rightarrow> byte list \<Rightarrow> 'c pending_channel \<times> frame_data list \<Rightarrow> bool" where
  "sending_inv took inflate env cfg kind k st \<longleftrightarrow>
     (\<exists>cs. length cs \<le> 65535 \<and> chb_cfg (pc_builder (fst st)) = cfg \<and>
        builder_inv took inflate env kind k (pc_builder (fst st)) cs \<and> channel_held k cs st)"

lemma full_frames [simp]:
  "chb_is_full (b\<lparr>chb_frames := fs\<rparr>) = chb_is_full b" "chb_is_full (chb_frame_published n b) = chb_is_full b"
  by (simp_all add: chb_is_full_def)

lemma builder_inv_frames:
  assumes "builder_inv took inflate env kind k b cs"
  shows "builder_inv took inflate env kind k (b\<lparr>chb_frames := fs\<rparr>) cs"
    and "builder_inv took inflate env kind k (chb_frame_published n b) cs"
  using assms unfolding builder_inv_def by (simp_all cong: if_cong split del: if_split)

context compressing
begin

lemma channel_output_inv:
  assumes "builder_filled took inflate (be_out env) kind k b1 cs" "be_comp env = C"
    and "frame_size_ok cfg" "chb_cfg b1 = cfg" "chb_frames b1 = chb_frames (pc_builder s)"
    and "channel_held k cs (s, sent)" "\<not> chb_is_full (pc_builder s)"
    and "chb_output_frames C b1 = Some (r, b2)" "chb_num_frames b2 \<le> 65535"
  shows "sending_inv took inflate (be_out env) cfg kind k (s\<lparr>pc_builder := b2\<rparr>, sent)"
proof -
  obtain ds where d: "chb_cfg b2 = cfg" "chb_num_frames b2 = length (cs @ ds)" "chb_is_full b1 \<longrightarrow> ds \<noteq> []"
      "length (cs @ ds) \<le> 65535 \<longrightarrow>
       builder_inv took inflate (be_out env) kind k b2 (cs @ ds) \<and>
       chb_frames b2 = chb_frames b1 @ map (frame_entry k (cs @ ds) (chb_is_full b2)) [length cs..<length (cs @ ds)] \<and>
       chb_is_full b2 = chb_is_full b1"
    using output_frames_inv [OF assms(1,2)] assms(3,4,8) by (auto simp: frame_size_ok_def)
  have n: "length (cs @ ds) \<le> 65535" using d(2) assms(9) by simp
  then have b2: "builder_inv took inflate (be_out env) kind k b2 (cs @ ds)"
      "chb_frames b2 = chb_frames (pc_builder s) @
         map (frame_entry k (cs @ ds) (chb_is_full b2)) [length cs..<length (cs @ ds)]"
      "ds = [] \<longrightarrow> \<not> chb_is_full b2" using d(3,4) assms(5) by auto
  show ?thesis using held_output [OF assms(6,7) b2(2,3)] b2(1) n d(1) unfolding sending_inv_def
    by (intro exI [of _ "cs @ ds"]) simp
qed

lemma channel_step_inv:
  assumes "channel_step env st st'" "sending_inv took inflate (be_out env) cfg kind k st"
    and "be_comp env = C" "rlp_nonempty (be_out env)" "frame_size_ok cfg"
  shows "sending_inv took inflate (be_out env) cfg kind k st'"
  using assms(1,2)
proof cases
  case (step_fill s blks n b1 l1 r b2 sent)
  obtain cs where i: "length cs \<le> 65535" "chb_cfg (pc_builder s) = cfg"
      "builder_inv took inflate (be_out env) kind k (pc_builder s) cs" "channel_held k cs (s, sent)"
    using assms(2) step_fill(1) by (auto simp: sending_inv_def)
  have f: "builder_filled took inflate (be_out env) kind k b1 cs" "chb_cfg b1 = chb_cfg (pc_builder s)"
      "chb_frames b1 = chb_frames (pc_builder s)"
    using add_blocks_filled [OF i(3) step_fill(3) assms(3,4) step_fill(4)]
    by (auto simp: conversion_failed_def)
  show ?thesis unfolding step_fill(2)
    by (rule channel_output_inv [OF filled_registered [OF f(1)] assms(3,5)])
       (use f i step_fill assms(3) in simp_all)
next
  case (step_fill_failed s blks e b1 sent)
  obtain cs where i: "length cs \<le> 65535" "chb_cfg (pc_builder s) = cfg"
      "builder_inv took inflate (be_out env) kind k (pc_builder s) cs" "channel_held k cs (s, sent)"
    using assms(2) step_fill_failed(1) by (auto simp: sending_inv_def)
  have f: "builder_filled took inflate (be_out env) kind k b1 cs" "\<not> chb_is_full b1"
      "chb_cfg b1 = chb_cfg (pc_builder s)" "chb_frames b1 = chb_frames (pc_builder s)"
    using add_blocks_filled [OF i(3) step_fill_failed(3) assms(3,4) step_fill_failed(4,5)] by auto
  then have "builder_inv took inflate (be_out env) kind k b1 cs"
    by (auto simp: builder_filled_def builder_inv_def)
  then show ?thesis unfolding step_fill_failed(2) sending_inv_def
    using i f held_builder [OF i(4) f(4)] step_fill_failed(3) by (intro exI [of _ cs]) simp
next
  case (step_terminate s r b2 sent)
  obtain cs where i: "length cs \<le> 65535" "chb_cfg (pc_builder s) = cfg"
      "builder_inv took inflate (be_out env) kind k (pc_builder s) cs" "channel_held k cs (s, sent)"
    using assms(2) step_terminate(1) by (auto simp: sending_inv_def)
  show ?thesis
  proof (cases "chb_is_full (pc_builder s)")
    case True
    then have "out_closed (chb_co (pc_builder s))" using i(3) by (auto simp: builder_inv_def)
    then have "b2 = pc_builder s"
      using True step_terminate(3) assms(3)
      by (simp add: chb_close_def chb_output_frames_def close_and_output_all_frames_def out_close_again)
    then show ?thesis using assms(2) step_terminate(1,2) by simp
  next
    case False
    then have "builder_filled took inflate (be_out env) kind k (pc_builder s) cs"
      using i(3) by (auto simp: builder_filled_def builder_inv_def intro: out_open_sealed)
    from filled_closed [OF this] show ?thesis unfolding step_terminate(2)
      by (rule channel_output_inv [OF _ assms(3,5)])
         (use i step_terminate False assms(3) in \<open>simp_all add: chb_close_def\<close>)
  qed
next
  case (step_next s f s' sent)
  obtain cs where i: "length cs \<le> 65535" "chb_cfg (pc_builder s) = cfg"
      "builder_inv took inflate (be_out env) kind k (pc_builder s) cs" "channel_held k cs (s, sent)"
    using assms(2) step_next(1) by (auto simp: sending_inv_def)
  have l: "length cs \<le> 65536" using i(1) by simp
  note h = held_next [OF i(4) l step_next(3)]
  obtain fs where "pc_builder s' = (pc_builder s)\<lparr>chb_frames := fs\<rparr>" using h by blast
  then show ?thesis unfolding step_next(2) sending_inv_def
    using h builder_inv_frames(1) [OF i(3), of fs] i(1,2) by (intro exI [of _ cs]) simp
next
  case (step_failed i s s' sent)
  obtain cs where c: "length cs \<le> 65535" "chb_cfg (pc_builder s) = cfg"
      "builder_inv took inflate (be_out env) kind k (pc_builder s) cs" "channel_held k cs (s, sent)"
    using assms(2) step_failed(1) by (auto simp: sending_inv_def)
  note h = held_failed [OF c(4) step_failed(3)]
  obtain fs where "pc_builder s' = (pc_builder s)\<lparr>chb_frames := fs\<rparr>" using h by blast
  then show ?thesis unfolding step_failed(2) sending_inv_def
    using h builder_inv_frames(1) [OF c(3), of fs] c(1,2) by (intro exI [of _ cs]) simp
next
  case (step_confirmed i inclusion s res s' sent)
  obtain cs where c: "length cs \<le> 65535" "chb_cfg (pc_builder s) = cfg"
      "builder_inv took inflate (be_out env) kind k (pc_builder s) cs" "channel_held k cs (s, sent)"
    using assms(2) step_confirmed(1) by (auto simp: sending_inv_def)
  note h = held_confirmed [OF c(4) step_confirmed(3)]
  have "builder_inv took inflate (be_out env) kind k (pc_builder s') cs \<and> chb_cfg (pc_builder s') = cfg"
    using h builder_inv_frames(2) [OF c(3)] c(2,3) by (metis frame_published_same(2))
  then show ?thesis unfolding step_confirmed(2) sending_inv_def
    using h c(1) by (intro exI [of _ cs]) simp
qed

end

end
