(* ===== verification/Batcher_Decode.thy ===== *)
theory Batcher_Decode
  imports Batcher_Channel_Props
begin

text \<open>
  The batcher and the derivation pipeline together: the transactions of a channel the batcher counts as
  submitted give the receiver the channel back, and it inflates to the encoding of the channel's
  blocks.
\<close>

section \<open>The receiving side\<close>

text \<open>A transaction's frames go to the channel one by one; what does not parse or fit is skipped.\<close>

definition receive_tx :: "l1_ref \<Rightarrow> byte list \<Rightarrow> channel \<Rightarrow> channel" where
  "receive_tx l1 tx ch =
     (case parse_frames tx of
        Inl _ \<Rightarrow> ch
      | Inr fs \<Rightarrow> fold (\<lambda>f ch. case add_frame ch f l1 of Inl _ \<Rightarrow> ch | Inr ch' \<Rightarrow> ch') fs ch)"

definition receive_txs :: "(byte list \<times> l1_ref) list \<Rightarrow> channel \<Rightarrow> channel" where
  "receive_txs txs ch = fold (\<lambda>(tx, l1). receive_tx l1 tx) txs ch"

definition frame_index :: "byte list \<Rightarrow> nat" where
  "frame_index tx = unat (fr_number (hd (projr (parse_frames tx))))"

lemma parse_tx:
  assumes "length k = 16" "chunks_fit m cs" "unat m \<le> 1000023" "i < length cs" "frame_v0_overhead \<le> m"
  shows "parse_frames (tx_bytes (frame_entry k cs True i)) = Inr [frame_of k cs i]"
proof -
  have "length (cs ! i) \<le> unat (m - frame_v0_overhead)"
    using assms(2,4) by (simp add: chunks_fit_def list_all_length)
  also have "\<dots> \<le> 1000000" using assms(3,5) by (simp add: unat_sub) (simp add: frame_v0_overhead_def)
  finally have "wf_frame (frame_of k cs i)" using assms(1) by (simp add: wf_frame_def frame_of_def)
  then show ?thesis
    using parse_frames_loop_enc [of "[frame_of k cs i]" "[]"]
    by (simp add: tx_bytes_def frame_entry_def sent_frame_fin parse_frames_def)
qed

lemma receive_txs_deliver:
  assumes "length k = 16" "chunks_fit m cs" "unat m \<le> 1000023" "frame_v0_overhead \<le> m" "length cs \<le> 65535"
    and "fst ` set txs \<subseteq> (\<lambda>i. tx_bytes (frame_entry k cs True i)) ` {..<length cs}"
  shows "receive_txs txs ch = deliver k cs (map (\<lambda>(tx, l1). (frame_index tx, l1)) txs) ch"
  using assms(6)
proof (induction txs arbitrary: ch)
  case (Cons p txs)
  obtain tx l1 where p: "p = (tx, l1)" by fastforce
  obtain i where i: "i < length cs" "tx = tx_bytes (frame_entry k cs True i)" using Cons.prems p by auto
  have parse: "parse_frames tx = Inr [frame_of k cs i]" using parse_tx [OF assms(1-3) i(1) assms(4)] i(2) by simp
  then have "frame_index tx = i" using i(1) assms(5) by (simp add: frame_index_def frame_of_def frame_number)
  then show ?case using Cons p parse by (simp add: receive_txs_def receive_tx_def deliver_def)
qed (simp add: receive_txs_def deliver_def)

context compressing
begin

lemma new_channel_inv:
  assumes "new_pending_channel env cfg (Some k) = Inr s" "took True (be_new_comp env) [] [] []"
  shows "sending_inv took inflate (be_out env) cfg
    (if cc_batch_type cfg = 0 then None else Some (new_span_builder (be_genesis_time env) (be_chain_id env))) k (s, [])"
proof -
  obtain co where co: "new_channel_out (cc_batch_type cfg) (Some k) (be_new_comp env)
      (new_span_builder (be_genesis_time env) (be_chain_id env)) = Inr co"
    and s: "s = \<lparr>pc_builder = \<lparr>chb_cfg = cfg, chb_timeout = 0, chb_timeout_reason = None, chb_full_err = None,
                  chb_co = co, chb_blocks = [], chb_frames = [], chb_num_frames = 0,
                  chb_output_bytes = 0\<rparr>, pc_pending = [], pc_confirmed = []\<rparr>"
    using assms(1) by (auto simp: new_pending_channel_def new_channel_builder_def rbind_eq_Inr)
  show ?thesis
    using new_channel_out_open [where took = took and env = "be_out env", OF co assms(2)]
    unfolding sending_inv_def
    by (intro exI [of _ "[]"])
       (simp add: s builder_inv_def chb_is_full_def chunks_fit_def channel_held_def pending_ok_def)
qed

lemma sending_inv_reach:
  assumes "(channel_step env)\<^sup>*\<^sup>* st st'" "sending_inv took inflate (be_out env) cfg kind k st"
    and "be_comp env = C" "rlp_nonempty (be_out env)" "frame_size_ok cfg"
  shows "sending_inv took inflate (be_out env) cfg kind k st'"
  using assms(1,2) by (induction rule: rtranclp_induct) (auto intro: channel_step_inv assms(3-5))

lemma submitted_decodes:
  assumes "sending_inv took inflate env cfg kind k (s, sent)" "pc_is_fully_submitted s"
    and "length k = 16" "frame_size_ok cfg" "unat (cc_max_frame_size cfg) \<le> 1000023"
    and "fst ` set txs = tx_bytes ` set sent"
  shows "\<exists>data bs. channel_is_ready (receive_txs txs (new_channel k l1)) \<and>
    channel_reader (receive_txs txs (new_channel k l1)) = Inr data \<and>
    map (block_batch (oe_sig env)) (chb_blocks (pc_builder s)) = map Some bs \<and>
    carries env kind bs (inflate data)"
proof -
  obtain cs bs where i: "length cs \<le> 65535" "chb_cfg (pc_builder s) = cfg" "channel_held k cs (s, sent)"
      "chunks_fit (cc_max_frame_size cfg) cs" "cs \<noteq> []"
      "map (block_batch (oe_sig env)) (chb_blocks (pc_builder s)) = map Some bs"
      "carries env kind bs (inflate (concat cs))" "chb_is_full (pc_builder s)"
    using assms(1,2) by (auto simp: sending_inv_def builder_inv_def pc_is_fully_submitted_def)
  have empty: "chb_frames (pc_builder s) = []" "pc_pending s = []"
    using assms(2) by (simp_all add: pc_is_fully_submitted_def)
  have "mset sent = mset (map (frame_entry k cs True) [0..<length cs])"
    using i(3,8) empty unfolding channel_held_def prod.case by (simp del: mset_map)
  then have "set sent = frame_entry k cs True ` {..<length cs}"
    by (metis mset_eq_setD set_map atLeast_upt)
  then have txs: "fst ` set txs = (\<lambda>i. tx_bytes (frame_entry k cs True i)) ` {..<length cs}"
    using assms(6) by (simp add: image_image)
  have le: "frame_v0_overhead \<le> cc_max_frame_size cfg" using assms(4) by (auto simp: frame_size_ok_def)
  let ?order = "map (\<lambda>(tx, l1). (frame_index tx, l1)) txs"
  have idx: "frame_index (tx_bytes (frame_entry k cs True j)) = j" if "j < length cs" for j
    using parse_tx [OF assms(3) i(4) assms(5) that le] that i(1)
    by (simp add: frame_index_def frame_of_def frame_number)
  have "fst ` set ?order = frame_index ` fst ` set txs" by (force simp: image_iff)
  then have order: "fst ` set ?order = {..<length cs}" using idx by (simp add: txs image_image)
  have "receive_txs txs (new_channel k l1) = deliver k cs ?order (new_channel k l1)"
    using receive_txs_deliver [OF assms(3) i(4) assms(5) le i(1)] txs by simp
  then show ?thesis
    using deliver_reassembles [of cs ?order k l1] order i(1,5,6,7) by auto
qed

end

section \<open>The manager\<close>

text \<open>The manager's operations as steps; \<open>sent i\<close> are the frames of channel \<open>i\<close> whose transactions
  were confirmed. A channel identifier has 16 bytes.\<close>

inductive manager_step ::
  "'c batcher_env \<Rightarrow> channel_config \<Rightarrow> 'c channel_manager \<times> (nat \<Rightarrow> frame_data list) \<Rightarrow>
   'c channel_manager \<times> (nat \<Rightarrow> frame_data list) \<Rightarrow> bool"
  for env cfg where
  step_add: "cm_add_l2_block blk s = (r, s') \<Longrightarrow> manager_step env cfg (s, sent) (s', sent)"
| step_clear: "manager_step env cfg (s, sent) (cm_clear s, sent)"
| step_tx_data: "cm_tx_data env cfg (Some k) l1Head s = Some (r, s') \<Longrightarrow> length k = 16 \<Longrightarrow>
    \<not> conversion_failed r \<Longrightarrow> list_all (\<lambda>c. chb_num_frames (pc_builder c) \<le> 65535) (cm_store s') \<Longrightarrow>
    manager_step env cfg (s, sent) (s', sent)"
| step_tx_failed: "cm_tx_failed t s = Some s' \<Longrightarrow> manager_step env cfg (s, sent) (s', sent)"
| step_tx_confirmed: "map_of (cm_tx_channels s) t = Some i \<Longrightarrow>
    manager_step env cfg (s, sent)
      (cm_tx_confirmed t inclusion s,
       sent(i := sent i @ (case map_of (pc_pending (cm_store s ! i)) t of None \<Rightarrow> [] | Some f \<Rightarrow> [f])))"
| step_tx_unknown: "map_of (cm_tx_channels s) t = None \<Longrightarrow>
    manager_step env cfg (s, sent) (cm_tx_confirmed t inclusion s, sent)"
| step_close: "cm_close env s = Some (r, s') \<Longrightarrow>
    list_all (\<lambda>c. chb_num_frames (pc_builder c) \<le> 65535) (cm_store s') \<Longrightarrow>
    manager_step env cfg (s, sent) (s', sent)"

text \<open>Every pointer leads to a channel, and every channel lives its life by the steps of a channel.\<close>

definition pointers_ok :: "'c channel_manager \<Rightarrow> bool" where
  "pointers_ok s \<longleftrightarrow> (\<forall>i. cm_current s = Some i \<longrightarrow> i < length (cm_store s)) \<and>
     (\<forall>i\<in>set (cm_queue s). i < length (cm_store s)) \<and>
     (\<forall>(t, i)\<in>set (cm_tx_channels s). i < length (cm_store s))"

definition lives ::
  "'c batcher_env \<Rightarrow> channel_config \<Rightarrow> 'c pending_channel \<Rightarrow> frame_data list \<Rightarrow> bool" where
  "lives env cfg c fs \<longleftrightarrow>
     (\<exists>k c0. length k = 16 \<and> new_pending_channel env cfg (Some k) = Inr c0 \<and>
        (channel_step env)\<^sup>*\<^sup>* (c0, []) (c, fs))"

definition manager_inv ::
  "'c batcher_env \<Rightarrow> channel_config \<Rightarrow> 'c channel_manager \<times> (nat \<Rightarrow> frame_data list) \<Rightarrow> bool" where
  "manager_inv env cfg st \<longleftrightarrow>
     (case st of (s, sent) \<Rightarrow> pointers_ok s \<and>
        (\<forall>i<length (cm_store s). lives env cfg (cm_store s ! i) (sent i)) \<and>
        (\<forall>i\<ge>length (cm_store s). sent i = []))"

lemma lives_step: "lives env cfg c fs \<Longrightarrow> channel_step env (c, fs) (c', fs') \<Longrightarrow> lives env cfg c' fs'"
  unfolding lives_def by (meson rtranclp.rtrancl_into_rtrancl)

lemma inv_pointers: "manager_inv env cfg (s, sent) \<Longrightarrow> pointers_ok s"
  by (simp add: manager_inv_def)

lemma manager_put:
  assumes "manager_inv env cfg (s, sent)" "i < length (cm_store s)"
    and "channel_step env (cm_store s ! i, sent i) (c, fs)"
    and "cm_store s' = (cm_store s)[i := c]" "pointers_ok s'"
  shows "manager_inv env cfg (s', sent(i := fs))"
  using assms lives_step [OF _ assms(3)] by (simp add: manager_inv_def nth_list_update)

lemma manager_same:
  "manager_inv env cfg (s, sent) \<Longrightarrow> cm_store s' = cm_store s \<Longrightarrow> pointers_ok s' \<Longrightarrow> manager_inv env cfg (s', sent)"
  by (simp add: manager_inv_def)

lemma pointers_put [simp]: "pointers_ok (put_chan i c s) = pointers_ok s"
  by (simp add: pointers_ok_def put_chan_def)

lemma pointers_remove: "pointers_ok s \<Longrightarrow> pointers_ok (remove_pending_channel i s)"
  by (auto simp: pointers_ok_def remove_pending_channel_def dest: notin_set_remove1)

lemma put_store [simp]: "cm_store (put_chan i c s) = (cm_store s)[i := c]"
  by (simp add: put_chan_def)

lemma remove_store [simp]: "cm_store (remove_pending_channel i s) = cm_store s"
  by (simp add: remove_pending_channel_def)

lemma close_loop_same:
  "pointers_ok s \<Longrightarrow> cm_store (close_loop arr pos n s) = cm_store s \<and> pointers_ok (close_loop arr pos n s)"
  by (induction arr pos n s rule: close_loop.induct) (auto simp: Let_def pointers_remove)

lemma tx_pointer: "pointers_ok s \<Longrightarrow> map_of (cm_tx_channels s) t = Some i \<Longrightarrow> i < length (cm_store s)"
  by (auto simp: pointers_ok_def dest: map_of_SomeD)

lemma pointers_delete:
  "pointers_ok s \<Longrightarrow> pointers_ok (s\<lparr>cm_tx_channels := AList.delete t (cm_tx_channels s)\<rparr>)"
  "pointers_ok s \<Longrightarrow> pointers_ok (s\<lparr>cm_tx_channels := AList.delete t (cm_tx_channels s), cm_blocks := bs\<rparr>)"
  by (auto simp: pointers_ok_def AList.delete_eq)

lemma manager_failed:
  assumes "manager_inv env cfg (s, sent)" "cm_tx_failed t s = Some s'"
  shows "manager_inv env cfg (s', sent)"
proof (cases "map_of (cm_tx_channels s) t")
  case None
  then show ?thesis using assms by (simp add: cm_tx_failed_def)
next
  case (Some i)
  note i = tx_pointer [OF inv_pointers [OF assms(1)] Some]
  obtain c where c: "pc_tx_failed t (cm_store s ! i) = Some c" "cm_store s' = (cm_store s)[i := c]" "pointers_ok s'"
    using assms(2) Some inv_pointers [OF assms(1)]
    by (auto simp: cm_tx_failed_def Let_def pointers_remove pointers_delete split: if_splits)
  show ?thesis using manager_put [OF assms(1) i step_failed [OF c(1)] c(2,3)] by simp
qed

lemma manager_confirmed:
  assumes "manager_inv env cfg (s, sent)" "map_of (cm_tx_channels s) t = Some i"
  shows "manager_inv env cfg (cm_tx_confirmed t inclusion s,
    sent(i := sent i @ (case map_of (pc_pending (cm_store s ! i)) t of None \<Rightarrow> [] | Some f \<Rightarrow> [f])))"
proof -
  note i = tx_pointer [OF inv_pointers [OF assms(1)] assms(2)]
  obtain fin bs c where c: "pc_tx_confirmed t inclusion (cm_store s ! i) = ((fin, bs), c)"
    by (metis prod.exhaust)
  show ?thesis
    by (rule manager_put [OF assms(1) i step_confirmed [OF c]])
       (use assms(2) c inv_pointers [OF assms(1)] in
         \<open>simp_all add: cm_tx_confirmed_def Let_def pointers_remove pointers_delete\<close>)
qed

lemma set_update_subset: "set (AList.update k v al) \<subseteq> insert (k, v) (set al)"
  by (induction al) (auto split: if_splits)

lemma next_nums:
  "i < length (cm_store s) \<Longrightarrow> cm_next_tx_data (Some i) s = (r, s') \<Longrightarrow>
   map (\<lambda>c. chb_num_frames (pc_builder c)) (cm_store s') = map (\<lambda>c. chb_num_frames (pc_builder c)) (cm_store s)"
  by (auto simp: cm_next_tx_data_def pc_next_tx_data_def chb_next_frame_def map_update list_update_same_conv
      split: if_splits list.splits)

lemma manager_next:
  assumes "manager_inv env cfg (s, sent)" "i < length (cm_store s)" "cm_next_tx_data (Some i) s = (r, s')"
  shows "manager_inv env cfg (s', sent)"
proof (cases "chb_frames (pc_builder (cm_store s ! i)) = [] \<or> pc_next_tx_data (cm_store s ! i) = None")
  case True
  then show ?thesis using assms by (auto simp: cm_next_tx_data_def split: if_splits)
next
  case False
  then obtain f c where c: "pc_next_tx_data (cm_store s ! i) = Some (f, c)" by auto
  have s': "s' = (put_chan i c s)\<lparr>cm_tx_channels := AList.update (fm_id f) i (cm_tx_channels s)\<rparr>"
    using assms(3) False c by (simp add: cm_next_tx_data_def)
  have ptr: "pointers_ok s'"
    using inv_pointers [OF assms(1)] assms(2) set_update_subset [of "fm_id f" i "cm_tx_channels s"]
    by (force simp: s' pointers_ok_def put_chan_def)
  have "manager_inv env cfg (s', sent(i := sent i))"
    by (rule manager_put [OF assms(1,2) step_next [OF c] _ ptr]) (simp add: s')
  then show ?thesis by simp
qed

lemma manager_ensure:
  assumes "manager_inv env cfg (s, sent)" "ensure_channel_with_space env cfg (Some k) s = (r, s')" "length k = 16"
  shows "manager_inv env cfg (s', sent) \<and>
    (\<forall>x. r = Inr x \<longrightarrow> (\<exists>i. cm_current s' = Some i \<and> i < length (cm_store s') \<and>
       \<not> chb_is_full (pc_builder (cm_store s' ! i))))"
proof (cases "\<exists>i. cm_current s = Some i \<and> \<not> chb_is_full (pc_builder (cm_store s ! i))")
  case True
  then have "s' = s" using assms(2) by (auto simp: ensure_channel_with_space_def)
  then show ?thesis using assms(1) True by (auto simp: manager_inv_def pointers_ok_def)
next
  case False
  then have no: "\<not> (case cm_current s of None \<Rightarrow> False | Some i \<Rightarrow> \<not> chb_is_full (pc_builder (cm_store s ! i)))"
    by (auto split: option.splits)
  show ?thesis
  proof (cases "new_pending_channel env cfg (Some k)")
    case (Inl e)
    then show ?thesis using assms(1,2) no by (auto simp: ensure_channel_with_space_def)
  next
    case (Inr c)
    have nf: "\<not> chb_is_full (pc_builder c)"
      using Inr by (auto simp: new_pending_channel_def new_channel_builder_def rbind_eq_Inr chb_is_full_def)
    have "lives env cfg c []" unfolding lives_def using Inr assms(3) by blast
    then have "manager_inv env cfg (s', sent)"
      using assms(1,2) no Inr
      by (auto simp: ensure_channel_with_space_def manager_inv_def pointers_ok_def nth_append less_Suc_eq)
    then show ?thesis using assms(2) no Inr nf by (auto simp: ensure_channel_with_space_def)
  qed
qed

lemma manager_fill:
  assumes "manager_inv env cfg (s, sent)" "i < length (cm_store s)" "\<not> chb_is_full (pc_builder (cm_store s ! i))"
    and "fill_current env l1Head i s = Some (r, s')" "\<not> conversion_failed r"
    and "list_all (\<lambda>c. chb_num_frames (pc_builder c) \<le> 65535) (cm_store s')"
  shows "manager_inv env cfg (s', sent)"
proof -
  let ?c = "cm_store s ! i"
  obtain q b1 where q: "add_blocks env (cm_blocks s) 0 (pc_builder ?c) = (q, b1)" by fastforce
  have ptr: "pointers_ok s" using inv_pointers [OF assms(1)] .
  then have ptr': "pointers_ok (s\<lparr>cm_blocks := bs\<rparr>)" for bs by (simp add: pointers_ok_def)
  show ?thesis
  proof (cases q)
    case (Inl e)
    then have r: "r = Inl e" "s' = put_chan i (?c\<lparr>pc_builder := b1\<rparr>) s"
      using assms(4) q by (auto simp: fill_current_def process_blocks_def Let_def)
    have "channel_step env (?c, sent i) (?c\<lparr>pc_builder := b1\<rparr>, sent i)"
      by (rule step_fill_failed [OF assms(3)]) (use q Inl assms(5) r(1) in \<open>simp_all add: conversion_failed_def\<close>)
    from manager_put [OF assms(1,2) this] show ?thesis using r(2) ptr by (metis fun_upd_triv put_store pointers_put)
  next
    case (Inr n)
    let ?s1 = "put_chan i (?c\<lparr>pc_builder := chb_register_l1_block l1Head b1\<rparr>) (s\<lparr>cm_blocks := drop n (cm_blocks s)\<rparr>)"
    have out: "output_frames env i ?s1 = map_option
        (\<lambda>(r, b). ((case r of Inl e \<Rightarrow> Inl (ManagerFailed e) | Inr _ \<Rightarrow> Inr ()), put_chan i (?c\<lparr>pc_builder := b\<rparr>) ?s1))
        (chb_output_frames (be_comp env) (chb_register_l1_block l1Head b1))"
      using assms(2) by (simp add: output_frames_def)
    have reg: "register_l1_block l1Head i
        (put_chan i (?c\<lparr>pc_builder := b1\<rparr>) s\<lparr>cm_blocks := drop n (cm_blocks s)\<rparr>) = ?s1"
      using assms(2) by (simp add: register_l1_block_def put_chan_def)
    have fill: "fill_current env l1Head i s = map_option
        (\<lambda>(r, s2). (case r of Inl e \<Rightarrow> (Inl e, s2) | Inr _ \<Rightarrow> cm_next_tx_data (Some i) s2)) (output_frames env i ?s1)"
      using q Inr reg by (simp add: fill_current_def process_blocks_def Let_def)
    obtain r2 b2 where o2: "chb_output_frames (be_comp env) (chb_register_l1_block l1Head b1) = Some (r2, b2)"
      using assms(4) by (auto simp: fill out)
    have s': "(case r2 of Inl e \<Rightarrow> (Inl (ManagerFailed e), put_chan i (?c\<lparr>pc_builder := b2\<rparr>) ?s1)
          | Inr _ \<Rightarrow> cm_next_tx_data (Some i) (put_chan i (?c\<lparr>pc_builder := b2\<rparr>) ?s1)) = (r, s')"
      using assms(4) by (simp add: fill out o2 split: sum.splits)
    let ?s2 = "put_chan i (?c\<lparr>pc_builder := b2\<rparr>) ?s1"
    have st: "cm_store ?s2 = (cm_store s)[i := ?c\<lparr>pc_builder := b2\<rparr>]" "pointers_ok ?s2"
      using ptr' by simp_all
    have nums: "map (\<lambda>c. chb_num_frames (pc_builder c)) (cm_store s') =
        map (\<lambda>c. chb_num_frames (pc_builder c)) (cm_store ?s2)"
    proof (cases r2)
      case (Inr u)
      then show ?thesis using next_nums [of i ?s2 r s'] s' assms(2) by simp
    qed (use s' in simp)
    have "list_all (\<lambda>n. n \<le> 65535) (map (\<lambda>c. chb_num_frames (pc_builder c)) (cm_store s'))"
      using assms(6) by (simp add: list_all_iff)
    then have "list_all (\<lambda>n. n \<le> 65535) (map (\<lambda>c. chb_num_frames (pc_builder c)) (cm_store ?s2))"
      unfolding nums .
    then have "chb_num_frames b2 \<le> 65535"
      using assms(2) st(1) by (auto simp: list_all_length dest: spec [of _ i])
    from manager_put [OF assms(1,2) step_fill [OF assms(3) _ o2 this] st]
    have inv: "manager_inv env cfg (?s2, sent)" using q Inr by simp
    show ?thesis
    proof (cases r2)
      case (Inl e)
      then show ?thesis using s' inv by simp
    next
      case (Inr u)
      then show ?thesis using manager_next [OF inv, of i r s'] s' assms(2) by simp
    qed
  qed
qed

lemma manager_tx_data:
  assumes "manager_inv env cfg (s, sent)" "cm_tx_data env cfg (Some k) l1Head s = Some (r, s')" "length k = 16"
    and "\<not> conversion_failed r" "list_all (\<lambda>c. chb_num_frames (pc_builder c) \<le> 65535) (cm_store s')"
  shows "manager_inv env cfg (s', sent)"
proof -
  define ready where "ready = find (\<lambda>i. chb_frames (pc_builder (cm_store s ! i)) \<noteq> []) (cm_queue s)"
  show ?thesis
  proof (cases "ready \<noteq> None \<or> cm_closed s")
    case True
    then have n: "cm_next_tx_data ready s = (r, s')"
      using assms(2) by (auto simp: cm_tx_data_def ready_def [symmetric] Let_def)
    show ?thesis
    proof (cases ready)
      case None
      then show ?thesis using n assms(1) by (simp add: cm_next_tx_data_def)
    next
      case (Some i)
      then have "i < length (cm_store s)"
        using inv_pointers [OF assms(1)] by (auto simp: ready_def find_Some_iff pointers_ok_def)
      then show ?thesis using manager_next [OF assms(1)] n Some by simp
    qed
  next
    case False
    show ?thesis
    proof (cases "cm_blocks s = []")
      case True
      then show ?thesis using False assms(1,2) by (simp add: cm_tx_data_def ready_def [symmetric] Let_def)
    next
      case blocks: False
      obtain q s1 where q: "ensure_channel_with_space env cfg (Some k) s = (q, s1)" by fastforce
      note e = manager_ensure [OF assms(1) q assms(3)]
      show ?thesis
      proof (cases q)
        case (Inl x)
        then show ?thesis using False blocks q e assms(2) by (auto simp: cm_tx_data_def ready_def [symmetric] Let_def)
      next
        case (Inr x)
        then obtain i where i: "cm_current s1 = Some i" "i < length (cm_store s1)"
            "\<not> chb_is_full (pc_builder (cm_store s1 ! i))" using e by blast
        have "fill_current env l1Head i s1 = Some (r, s')"
          using False blocks q Inr i assms(2) by (auto simp: cm_tx_data_def ready_def [symmetric] Let_def)
        with manager_fill e i(2,3) assms(4,5) show ?thesis by blast
      qed
    qed
  qed
qed

lemma manager_closed:
  assumes "manager_inv env cfg (s, sent)" "cm_close env s = Some (r, s')"
    and "list_all (\<lambda>c. chb_num_frames (pc_builder c) \<le> 65535) (cm_store s')"
  shows "manager_inv env cfg (s', sent)"
proof -
  define s1 where "s1 = close_loop (cm_queue s) 0 (length (cm_queue s)) (s\<lparr>cm_closed := True\<rparr>)"
  have "pointers_ok (s\<lparr>cm_closed := True\<rparr>)" using inv_pointers [OF assms(1)] by (simp add: pointers_ok_def)
  from close_loop_same [OF this, of "cm_queue s" 0 "length (cm_queue s)"]
  have s1: "cm_store s1 = cm_store s" "pointers_ok s1" by (simp_all add: s1_def)
  have inv: "manager_inv env cfg (s1, sent)" by (rule manager_same [OF assms(1) s1])
  show ?thesis
  proof (cases "cm_closed s \<or> cm_current s1 = None")
    case True
    then show ?thesis using assms(1,2) inv by (auto simp: cm_close_def s1_def [symmetric] Let_def split: if_splits)
  next
    case False
    then obtain i where i: "\<not> cm_closed s" "cm_current s1 = Some i" by auto
    then have len: "i < length (cm_store s1)" using s1(2) by (simp add: pointers_ok_def)
    obtain r2 b2 where b2: "chb_output_frames (be_comp env) (chb_close (pc_builder (cm_store s1 ! i))) = Some (r2, b2)"
      and store: "cm_store s' = (cm_store s1)[i := (cm_store s1 ! i)\<lparr>pc_builder := b2\<rparr>]" and ptr: "pointers_ok s'"
      using assms(2) i len s1(2) by (auto simp: cm_close_def s1_def [symmetric] Let_def output_frames_def)
    have "chb_num_frames b2 \<le> 65535"
      using assms(3) len by (auto simp: list_all_length store dest: spec [of _ i])
    from manager_put [OF inv len step_terminate [OF b2 this] store ptr] show ?thesis by simp
  qed
qed

lemma manager_step_inv:
  assumes "manager_step env cfg st st'" "manager_inv env cfg st"
  shows "manager_inv env cfg st'"
  using assms
proof cases
  case (step_add blk s r s' sent)
  then show ?thesis using assms(2) by (auto simp: cm_add_l2_block_def manager_inv_def pointers_ok_def split: if_splits)
next
  case (step_clear s sent)
  then show ?thesis using assms(2) by (auto simp: cm_clear_def manager_inv_def pointers_ok_def)
next
  case (step_tx_data k l1Head s r s' sent)
  then show ?thesis using assms(2) manager_tx_data by blast
next
  case (step_tx_failed t s s' sent)
  then show ?thesis using assms(2) manager_failed by blast
next
  case (step_tx_confirmed s t i sent inclusion)
  then show ?thesis using assms(2) manager_confirmed by blast
next
  case (step_tx_unknown s t inclusion sent)
  then show ?thesis using assms(2) by (simp add: cm_tx_confirmed_def)
next
  case (step_close s r s' sent)
  then show ?thesis using assms(2) manager_closed by blast
qed

lemma manager_reach:
  "(manager_step env cfg)\<^sup>*\<^sup>* (new_channel_manager, \<lambda>_. []) st \<Longrightarrow> manager_inv env cfg st"
proof (induction rule: rtranclp_induct)
  case base
  then show ?case by (simp add: manager_inv_def new_channel_manager_def pointers_ok_def)
qed (rule manager_step_inv)

section \<open>A concrete channel\<close>

text \<open>A zlib stream of stored blocks, as a writer without compression makes it: a header, blocks of up to 65535 bytes
  with their length and its complement, an empty block at every flush, and at the end an empty block that is marked as
  the last, with a checksum after it. The writer holds what it has not emitted yet and all it has taken.\<close>

definition le16 :: "nat \<Rightarrow> byte list" where
  "le16 n = [of_nat (n mod 256), of_nat (n div 256)]"

definition stored_block :: "byte list \<Rightarrow> byte list" where
  "stored_block d = 0 # le16 (length d) @ le16 (65535 - length d) @ d"

fun stored_blocks :: "byte list \<Rightarrow> byte list" where
  "stored_blocks p = (if p = [] then [] else stored_block (take 65535 p) @ stored_blocks (drop 65535 p))"

declare stored_blocks.simps [simp del]

lemma stored_blocks_step:
  "stored_blocks [] = []"
  "p \<noteq> [] \<Longrightarrow> stored_blocks p = stored_block (take 65535 p) @ stored_blocks (drop 65535 p)"
  by (simp_all add: stored_blocks.simps [of "[]"] stored_blocks.simps [of p])

definition adler32 :: "byte list \<Rightarrow> byte list" where
  "adler32 w =
     (case foldl (\<lambda>(a, b) x. ((a + unat x) mod 65521, (b + a + unat x) mod 65521)) (1, 0) w of
        (a, b) \<Rightarrow> be_enc 4 (b * 65536 + a))"

definition stored_header :: "bool \<Rightarrow> byte list" where
  "stored_header begun = (if begun then [] else [0x78, 1])"

definition stored_zlib :: "(bool \<times> byte list \<times> byte list) zlib" where
  "stored_zlib =
     \<lparr>zl_new = (False, [], []),
      zl_write = (\<lambda>d (begun, p, w). (stored_header begun, (True, p @ d, w @ d))),
      zl_flush = (\<lambda>(begun, p, w). (stored_header begun @ stored_blocks p @ [0, 0, 0, 0xff, 0xff], (True, [], w))),
      zl_close = (\<lambda>(begun, p, w).
        (stored_header begun @ stored_blocks p @ [1, 0, 0, 0xff, 0xff] @ adler32 w, (True, [], w)))\<rparr>"

text \<open>The reader stops after the last block, or when it runs out of bytes or does not understand them; it does not
  compare the checksum.\<close>

fun inflate_blocks :: "byte list \<Rightarrow> byte list" where
  "inflate_blocks (f # a # b # c # d # bs) =
     (let n = unat a + 256 * unat b
      in if f > 1 \<or> unat c + 256 * unat d \<noteq> 65535 - n then []
         else take n bs @ (if f = 1 then [] else inflate_blocks (drop n bs)))"
| "inflate_blocks bs = []"

definition stored_inflate :: "byte list \<Rightarrow> byte list" where
  "stored_inflate bs = inflate_blocks (drop 2 bs)"

lemma inflate_stored_block:
  assumes "length d \<le> 65535"
  shows "inflate_blocks (stored_block d @ bs) = d @ inflate_blocks bs"
proof -
  have u: "unat (of_nat (n mod 256) :: byte) = n mod 256" for n :: nat
    by (simp add: unat_of_nat)
  have v: "unat (of_nat (n div 256) :: byte) = n div 256" if "n \<le> 65535" for n :: nat
  proof -
    have "n div 256 < 256" using that by simp
    then show ?thesis by (simp add: unat_of_nat)
  qed
  have n: "n mod 256 + 256 * (n div 256) = n" for n :: nat by simp
  show ?thesis
    by (simp add: stored_block_def le16_def u v [OF assms] v [of "65535 - length d"] n Let_def)
qed

lemma inflate_stored_blocks: "inflate_blocks (stored_blocks p @ bs) = p @ inflate_blocks bs"
proof (induction p rule: stored_blocks.induct)
  case (1 p)
  show ?case
  proof (cases "p = []")
    case False
    have "inflate_blocks (stored_block (take 65535 p) @ stored_blocks (drop 65535 p) @ bs) =
        take 65535 p @ drop 65535 p @ inflate_blocks bs"
      using 1 [OF False] by (simp add: inflate_stored_block)
    also have "\<dots> = p @ inflate_blocks bs" by (simp flip: append_assoc)
    finally show ?thesis by (simp add: stored_blocks_step(2) [OF False])
  qed (simp add: stored_blocks_step)
qed

text \<open>What an open writer has emitted: the header and blocks that carry all it has taken but what it holds.\<close>

definition stored_state :: "bool \<times> byte list \<times> byte list \<Rightarrow> byte list \<Rightarrow> byte list \<Rightarrow> bool" where
  "stored_state s w out \<longleftrightarrow>
     (case s of (begun, p, w') \<Rightarrow> w' = w \<and>
        (if begun then \<exists>blocks v. out = [0x78, 1] @ blocks \<and> w = v @ p \<and>
             (\<forall>bs. inflate_blocks (blocks @ bs) = v @ inflate_blocks bs)
         else out = [] \<and> w = [] \<and> p = []))"

lemma stored_state_begun:
  assumes "stored_state (begun, p, w') w out"
  obtains blocks v where "out @ stored_header begun = [0x78, 1] @ blocks" "w = v @ p" "w' = w"
    "\<And>bs. inflate_blocks (blocks @ bs) = v @ inflate_blocks bs"
proof (cases begun)
  case True
  then show thesis using assms that by (auto simp: stored_state_def stored_header_def)
next
  case False
  then show thesis using assms that [of "[]" "[]"] by (auto simp: stored_state_def stored_header_def)
qed

lemma stored_run: "zlib_run stored_zlib opn s w out \<Longrightarrow> opn \<Longrightarrow> stored_state s w out"
proof (induction rule: zlib_run.induct)
  case run_new
  then show ?case by (simp add: stored_zlib_def stored_state_def)
next
  case (run_write s w out d b s')
  obtain begun p w' where s: "s = (begun, p, w')" by (metis prod_cases3)
  then obtain blocks v where "out @ stored_header begun = [0x78, 1] @ blocks" "w = v @ p" "w' = w"
      "\<And>bs. inflate_blocks (blocks @ bs) = v @ inflate_blocks bs"
    using run_write stored_state_begun by metis
  then show ?case using run_write(2) s by (auto simp: stored_zlib_def stored_state_def)
next
  case (run_flush s w out b s')
  obtain begun p w' where s: "s = (begun, p, w')" by (metis prod_cases3)
  then obtain blocks v where i: "out @ stored_header begun = [0x78, 1] @ blocks" "w = v @ p" "w' = w"
      "\<And>bs. inflate_blocks (blocks @ bs) = v @ inflate_blocks bs"
    using run_flush stored_state_begun by metis
  have "out @ b = [0x78, 1] @ (blocks @ stored_blocks p @ [0, 0, 0, 0xff, 0xff])" "s' = (True, [], w)"
    using run_flush(2) s i(1,3) by (auto simp: stored_zlib_def)
  moreover have "inflate_blocks ((blocks @ stored_blocks p @ [0, 0, 0, 0xff, 0xff]) @ bs) = w @ inflate_blocks bs" for bs
    using i(2,4) by (simp add: inflate_stored_blocks)
  ultimately show ?case unfolding stored_state_def by auto
qed simp

lemma stored_zlib_ok: "zlib_ok stored_zlib stored_inflate"
proof -
  have "stored_inflate (out @ b) = w"
    if run: "zlib_run stored_zlib True s w out" and fin: "zl_flush stored_zlib s = (b, s') \<or> zl_close stored_zlib s = (b, s')"
    for s w out b s'
  proof -
    obtain begun p w' where s: "s = (begun, p, w')" by (metis prod_cases3)
    have "stored_state (begun, p, w') w out" using stored_run [OF run] s by simp
    then obtain blocks v where i: "out @ stored_header begun = [0x78, 1] @ blocks" "w = v @ p"
        "\<And>bs. inflate_blocks (blocks @ bs) = v @ inflate_blocks bs"
      using stored_state_begun by metis
    obtain t where b: "b = stored_header begun @ stored_blocks p @ t" "inflate_blocks t = []"
      using fin s by (auto simp: stored_zlib_def)
    then have "out @ b = [0x78, 1] @ blocks @ stored_blocks p @ t" using i(1) by simp
    then show ?thesis using i(2,3) b(2) by (simp add: stored_inflate_def inflate_stored_blocks)
  qed
  moreover have "stored_inflate [] = []" by (simp add: stored_inflate_def)
  ultimately show ?thesis unfolding zlib_ok_def by blast
qed

text \<open>One block, one frame. The stream of the four bytes \<open>3, 0, 7, 8\<close>.\<close>

type_synonym zstate = "bool \<times> byte list \<times> byte list"

definition demo_stream :: "byte list" where
  "demo_stream = [0x78, 1] @ [0, 4, 0, 251, 255, 3, 0, 7, 8] @ [1, 0, 0, 255, 255] @ [0, 38, 0, 19]"

lemma length_demo_stream: "length demo_stream = 20"
  by (simp add: demo_stream_def)

lemma demo_close: "zl_close stored_zlib (True, [3, 0, 7, 8], [3, 0, 7, 8]) = (drop 2 demo_stream, (True, [], [3, 0, 7, 8]))"
proof -
  have "stored_blocks [3, 0, 7, 8] = [0, 4, 0, 251, 255, 3, 0, 7, 8]"
    by (simp add: stored_blocks_step stored_block_def le16_def)
  moreover have "be_enc 4 2490387 = [0, 38, 0, 19]"
  proof -
    have four: "4 = Suc (Suc (Suc (Suc 0)))" by simp
    show ?thesis unfolding four be_enc.simps by simp
  qed
  then have "adler32 [3, 0, 7, 8] = [0, 38, 0, 19]" by (simp add: adler32_def)
  ultimately show ?thesis by (simp add: stored_zlib_def stored_header_def demo_stream_def)
qed

definition demo_out_env :: out_env where
  "demo_out_env =
     \<lparr>oe_rlp = (\<lambda>b. concat (sb_transactions b)), oe_string = (\<lambda>x. of_nat (length x) # x),
      oe_tx = \<lparr>te_rlp_enc = (\<lambda>_. None), te_rlp_dec = (\<lambda>_ _. None), te_read_list = (\<lambda>_. Inl ErrEOF),
        te_unmarshal = (\<lambda>_. None), te_marshal = (\<lambda>_. None), te_protected = (\<lambda>_. False),
        te_tx_chain_id = (\<lambda>_. 1)\<rparr>,
      oe_sig = [1, 93, 142, 185]\<rparr>"

definition demo_batcher_env :: "zstate ratio batcher_env" where
  "demo_batcher_env =
     \<lparr>be_comp = ratio_compressor stored_zlib 1000, be_new_comp = new_ratio stored_zlib,
      be_out = demo_out_env, be_genesis_time = 0, be_chain_id = 1\<rparr>"

definition demo_block :: out_block where
  "demo_block =
     \<lparr>ob_hash = replicate 32 1, ob_parent_hash = replicate 32 2, ob_number = 5, ob_time = 10,
      ob_txs = [\<lparr>bt_type = deposit_tx_type, bt_data = projr (marshal_l1_info [1, 93, 142, 185] demo_l1_info),
                 bt_raw = Some []\<rparr>,
                \<lparr>bt_type = 2, bt_data = [], bt_raw = Some [7, 8]\<rparr>]\<rparr>"

definition demo_channel_config :: channel_config where
  "demo_channel_config =
     \<lparr>cc_seq_window_size = 100, cc_channel_timeout = 50, cc_max_channel_duration = 0,
      cc_sub_safety_margin = 4, cc_max_frame_size = 1000, cc_batch_type = 0\<rparr>"

abbreviation demo_id :: "byte list" where "demo_id \<equiv> replicate 16 5"

definition demo_batch :: singular_batch where
  "demo_batch = \<lparr>sb_parent_hash = replicate 32 2, sb_epoch_num = 17, sb_epoch_hash = replicate 32 3,
     sb_timestamp = 10, sb_transactions = [[7, 8]]\<rparr>"

lemma demo_block_batch: "block_to_singular_batch (oe_sig demo_out_env) demo_block = Inr (demo_batch, demo_l1_info)"
proof -
  obtain d where d: "marshal_l1_info [1, 93, 142, 185] demo_l1_info = Inr d"
    by (simp add: marshal_l1_info_def demo_l1_info_def write_uint256_def)
  have "wf_l1_info demo_l1_info" by (simp add: wf_l1_info_def demo_l1_info_def)
  then have "unmarshal_l1_info [1, 93, 142, 185] d = Inr demo_l1_info"
    using unmarshal_marshal_l1_info [OF _ _ d] by simp
  then show ?thesis
    by (simp add: block_to_singular_batch_def demo_block_def demo_out_env_def opaque_txs_def d demo_batch_def
        deposit_tx_type_def) (simp add: demo_l1_info_def)
qed

definition demo_start :: "zstate ratio pending_channel" where
  "demo_start = projr (new_pending_channel demo_batcher_env demo_channel_config (Some demo_id))"

lemmas demo_defs = demo_batcher_env_def demo_channel_config_def new_pending_channel_def
  new_channel_builder_def new_channel_out_def rbind_def

lemma demo_start: "new_pending_channel demo_batcher_env demo_channel_config (Some demo_id) = Inr demo_start"
  by (simp add: demo_start_def demo_defs)

definition demo_out :: "bool \<Rightarrow> u64 \<Rightarrow> byte list \<Rightarrow> byte list \<Rightarrow> zstate ratio channel_out" where
  "demo_out closed n buf held = SingularOut \<lparr>so_id = demo_id, so_frame = n, so_rlp_length = 4,
     so_compress = \<lparr>ra_input_bytes = 4, ra_buf = buf, ra_compress = (True, held, [3, 0, 7, 8])\<rparr>, so_closed = closed\<rparr>"

definition demo_filled :: "zstate ratio channel_builder" where
  "demo_filled = (pc_builder demo_start)\<lparr>chb_co := demo_out False 0 [0x78, 1] [3, 0, 7, 8],
     chb_blocks := [demo_block], chb_timeout := 113, chb_timeout_reason := Some FullSeqWindow\<rparr>"

lemma demo_bytes: "batch_bytes demo_out_env (SingularData demo_batch) = [3, 0, 7, 8]"
  by (simp add: batch_bytes_def demo_out_env_def encode_typed_def demo_batch_def)

lemma demo_singular_add:
  "singular_add (ratio_compressor stored_zlib 1000) demo_out_env demo_batch (new_singular_out demo_id (new_ratio stored_zlib)) =
   (Inr 4, \<lparr>so_id = demo_id, so_frame = 0, so_rlp_length = 4,
     so_compress = \<lparr>ra_input_bytes = 4, ra_buf = [0x78, 1], ra_compress = (True, [3, 0, 7, 8], [3, 0, 7, 8])\<rparr>, so_closed = False\<rparr>)"
  by (simp add: singular_add_def demo_bytes new_singular_out_def max_rlp_bytes_per_channel_def ratio_compressor_def
      ratio_write_def ratio_full_def new_ratio_def stored_zlib_def stored_header_def Let_def)

lemma ratio_ops:
  "cmp_full (ratio_compressor Z t) = ratio_full t" "cmp_len (ratio_compressor Z t) = (\<lambda>c. length (ra_buf c))"
  "cmp_read (ratio_compressor Z t) = ratio_read" "cmp_close (ratio_compressor Z t) = ratio_close Z"
  by (simp_all add: ratio_compressor_def)

lemma demo_epoch: "sb_epoch_num demo_batch = 17" by (simp add: demo_batch_def)

lemma demo_add: "add_blocks demo_batcher_env [demo_block] 0 (pc_builder demo_start) = (Inr 1, demo_filled)"
  by (simp add: chb_add_block_def demo_block_batch demo_start_def demo_filled_def demo_defs chb_is_full_def
      out_add_singular_batch_def demo_singular_add demo_out_def chb_mark_full_def out_full_err_def
      ratio_ops ratio_full_def chb_update_sw_timeout_def chb_update_timeout_def demo_epoch)

lemma demo_cfg: "chb_cfg demo_filled = demo_channel_config" "chb_co demo_filled = demo_out False 0 [0x78, 1] [3, 0, 7, 8]"
  "chb_full_err demo_filled = None" "chb_frames demo_filled = []" "chb_num_frames demo_filled = 0"
  "chb_timeout demo_filled = 113" "chb_output_bytes demo_filled = 0"
  by (simp_all add: demo_filled_def demo_start_def demo_defs)

definition demo_frame :: frame_data where
  "demo_frame = \<lparr>fm_data = marshal_frame \<lparr>fr_id = demo_id, fr_number = 0, fr_data = demo_stream,
     fr_is_last = True\<rparr>, fm_id = (demo_id, 0)\<rparr>"

definition demo_sealed :: "zstate ratio channel_builder" where
  "demo_sealed = demo_filled\<lparr>chb_full_err := Some FullSeqWindow, chb_co := demo_out True 1 [] [],
     chb_frames := [demo_frame], chb_num_frames := 1, chb_output_bytes := length (fm_data demo_frame)\<rparr>"

lemma demo_frame_out:
  "chb_output_frame (be_comp demo_batcher_env)
     (demo_filled\<lparr>chb_full_err := Some FullSeqWindow, chb_co := demo_out True 0 demo_stream []\<rparr>) = (Inr True, demo_sealed)"
  by (simp add: chb_output_frame_def demo_cfg demo_channel_config_def out_output_frame_def demo_out_def
      singular_output_frame_def frame_v0_overhead_def create_empty_frame_def Let_def ratio_ops
      demo_batcher_env_def ratio_read_def demo_sealed_def demo_frame_def out_id_def length_demo_stream)

lemma demo_output:
  "chb_output_frames (be_comp demo_batcher_env) (chb_register_l1_block 200 demo_filled) = Some (Inr (), demo_sealed)"
proof -
  have "chb_timeout_reason demo_filled = Some FullSeqWindow" by (simp add: demo_filled_def)
  then have full: "chb_register_l1_block 200 demo_filled = demo_filled\<lparr>chb_full_err := Some FullSeqWindow\<rparr>"
    by (simp add: chb_register_l1_block_def chb_update_duration_timeout_def demo_cfg demo_channel_config_def
        chb_check_timeout_def chb_timed_out_def chb_is_full_def)
  have "[0x78, 1] @ drop 2 demo_stream = demo_stream" by (simp add: demo_stream_def)
  then have "out_close (be_comp demo_batcher_env) (demo_out False 0 [0x78, 1] [3, 0, 7, 8]) =
      (Inr (), demo_out True 0 demo_stream [])"
    by (simp add: out_close_def demo_out_def singular_close_def demo_batcher_env_def ratio_ops ratio_close_def
        demo_close)
  moreover have "output_all_frames (be_comp demo_batcher_env)
      (demo_filled\<lparr>chb_full_err := Some FullSeqWindow, chb_co := demo_out True 0 demo_stream []\<rparr>) =
      Some (Inr (), demo_sealed)"
    by (subst output_all_frames.simps) (simp add: demo_frame_out)
  ultimately show ?thesis
    by (simp add: full chb_output_frames_def close_and_output_all_frames_def chb_is_full_def demo_cfg)
qed

text \<open>The manager takes the block, fills a channel, finds the L1 head past the channel's timeout, sends its only
  frame, and sees it confirmed.\<close>

definition demo_sending :: "zstate ratio pending_channel" where
  "demo_sending = \<lparr>pc_builder = demo_sealed\<lparr>chb_frames := []\<rparr>, pc_pending = [((demo_id, 0), demo_frame)],
     pc_confirmed = []\<rparr>"

definition demo_manager :: "zstate ratio channel_manager" where
  "demo_manager = \<lparr>cm_store = [demo_sending], cm_blocks = [], cm_tip = replicate 32 1, cm_current = Some 0,
     cm_queue = [0], cm_tx_channels = [((demo_id, 0), 0)], cm_closed = False\<rparr>"

definition demo_inclusion :: block_id where
  "demo_inclusion = \<lparr>bid_hash = zero_hash32, bid_number = 200\<rparr>"

lemma demo_tx_data:
  "cm_tx_data demo_batcher_env demo_channel_config (Some demo_id) 200 (snd (cm_add_l2_block demo_block new_channel_manager)) =
   Some (Inr demo_frame, demo_manager)"
proof -
  have "pc_pending demo_start = []" "pc_confirmed demo_start = []" "\<not> chb_is_full (pc_builder demo_start)"
    by (simp_all add: demo_start_def demo_defs chb_is_full_def)
  then show ?thesis
    by (simp add: cm_add_l2_block_def new_channel_manager_def cm_tx_data_def Let_def ensure_channel_with_space_def
        demo_start fill_current_def process_blocks_def demo_add register_l1_block_def output_frames_def
        put_chan_def demo_output cm_next_tx_data_def pc_next_tx_data_def chb_next_frame_def demo_manager_def
        demo_sending_def del: add_blocks.simps)
      (cases demo_start, simp add: put_chan_def demo_sealed_def demo_frame_def demo_block_def)
qed

lemma demo_run:
  "(manager_step demo_batcher_env demo_channel_config)\<^sup>*\<^sup>* (new_channel_manager, \<lambda>_. [])
     (cm_tx_confirmed (demo_id, 0) demo_inclusion demo_manager, (\<lambda>_. [])(0 := [demo_frame]))"
proof -
  let ?step = "manager_step demo_batcher_env demo_channel_config"
  let ?s1 = "snd (cm_add_l2_block demo_block new_channel_manager)"
  have "?step (new_channel_manager, \<lambda>_. []) (?s1, \<lambda>_. [])"
    by (rule step_add [OF prod.collapse [symmetric]])
  moreover have "?step (?s1, \<lambda>_. []) (demo_manager, \<lambda>_. [])"
    by (rule step_tx_data [OF demo_tx_data])
       (simp_all add: conversion_failed_def demo_manager_def demo_sending_def demo_sealed_def)
  moreover have "?step (demo_manager, \<lambda>_. [])
      (cm_tx_confirmed (demo_id, 0) demo_inclusion demo_manager, (\<lambda>_. [])(0 := [demo_frame]))"
    using step_tx_confirmed [of demo_manager "(demo_id, 0)" 0 demo_batcher_env demo_channel_config "\<lambda>_. []" demo_inclusion]
    by (simp add: demo_manager_def demo_sending_def)
  ultimately show ?thesis by (simp add: rtranclp.intros)
qed

lemma demo_confirmed:
  "cm_store (cm_tx_confirmed (demo_id, 0) demo_inclusion demo_manager) =
   [demo_sending\<lparr>pc_pending := [], pc_confirmed := [((demo_id, 0), demo_inclusion)],
      pc_builder := chb_frame_published 200 (demo_sealed\<lparr>chb_frames := []\<rparr>)\<rparr>]"
  by (simp add: cm_tx_confirmed_def demo_manager_def demo_sending_def pc_tx_confirmed_def Let_def
      demo_inclusion_def put_chan_def remove_pending_channel_def split: prod.splits if_splits)

definition demo_submitted_manager :: "zstate ratio channel_manager" where
  "demo_submitted_manager = cm_tx_confirmed (demo_id, 0) demo_inclusion demo_manager"

lemma demo_submitted_store:
  "length (cm_store demo_submitted_manager) = 1"
  "pc_is_fully_submitted (cm_store demo_submitted_manager ! 0)"
  "out_id (chb_co (pc_builder (cm_store demo_submitted_manager ! 0))) = demo_id"
  by (simp_all add: demo_submitted_manager_def demo_confirmed pc_is_fully_submitted_def chb_is_full_def
      demo_sealed_def out_id_def demo_out_def)

lemma demo_submitted:
  "(manager_step demo_batcher_env demo_channel_config)\<^sup>*\<^sup>* (new_channel_manager, \<lambda>_. [])
     (demo_submitted_manager, (\<lambda>_. [])(0 := [demo_frame])) \<and>
   0 < length (cm_store demo_submitted_manager) \<and> pc_is_fully_submitted (cm_store demo_submitted_manager ! 0) \<and>
   out_id (chb_co (pc_builder (cm_store demo_submitted_manager ! 0))) = demo_id \<and>
   fst ` set [(tx_bytes demo_frame, zero_l1_ref)] = tx_bytes ` set (((\<lambda>_. [])(0 := [demo_frame])) (0::nat))"
proof (intro conjI)
  show "(manager_step demo_batcher_env demo_channel_config)\<^sup>*\<^sup>* (new_channel_manager, \<lambda>_. [])
     (demo_submitted_manager, (\<lambda>_. [])(0 := [demo_frame]))"
    unfolding demo_submitted_manager_def by (rule demo_run)
qed (simp_all add: demo_submitted_store)

lemma demo_blocks: "chb_blocks (pc_builder (cm_store demo_submitted_manager ! 0)) = [demo_block]"
  by (simp add: demo_submitted_manager_def demo_confirmed demo_sealed_def demo_filled_def)

text \<open>What it means that the batcher and the derivation agree: take any run of the channel manager (blocks
  arriving, transaction data handed out, transactions failing and being confirmed in any order,
  the state being cleared or closed) and any of its channels that counts as fully submitted.
  Whoever receives the data of the channel's confirmed transactions, in any order and any number
  of times, gets a channel that is ready, and the data it reads inflates to the encoding of exactly
  the channel's blocks, in their order.\<close>

definition submissions_decode :: "'c batcher_env \<Rightarrow> channel_config \<Rightarrow> (byte list \<Rightarrow> byte list) \<Rightarrow> bool" where
  "submissions_decode env cfg inflate \<longleftrightarrow>
     (\<forall>s sent i k txs l1.
        (manager_step env cfg)\<^sup>*\<^sup>* (new_channel_manager, \<lambda>_. []) (s, sent) \<and> i < length (cm_store s) \<and>
        pc_is_fully_submitted (cm_store s ! i) \<and> out_id (chb_co (pc_builder (cm_store s ! i))) = k \<and>
        fst ` set txs = tx_bytes ` set (sent i) \<longrightarrow>
        (\<exists>data bs. channel_is_ready (receive_txs txs (new_channel k l1)) \<and>
           channel_reader (receive_txs txs (new_channel k l1)) = Inr data \<and>
           map (block_batch (oe_sig (be_out env))) (chb_blocks (pc_builder (cm_store s ! i))) = map Some bs \<and>
           carries (be_out env)
             (if cc_batch_type cfg = 0 then None
              else Some (new_span_builder (be_genesis_time env) (be_chain_id env)))
             bs (inflate data)))"

context compressing
begin

lemma manager_decodes:
  assumes "took True (be_new_comp env) [] [] []" "be_comp env = C" "rlp_nonempty (be_out env)"
    and "frame_v0_overhead < cc_max_frame_size cfg" "unat (cc_max_frame_size cfg) \<le> 1000023"
    and "(manager_step env cfg)\<^sup>*\<^sup>* (new_channel_manager, \<lambda>_. []) (s, sent)"
    and "i < length (cm_store s)" "pc_is_fully_submitted (cm_store s ! i)"
    and "out_id (chb_co (pc_builder (cm_store s ! i))) = k"
    and "fst ` set txs = tx_bytes ` set (sent i)"
  shows "\<exists>data bs. channel_is_ready (receive_txs txs (new_channel k l1)) \<and>
    channel_reader (receive_txs txs (new_channel k l1)) = Inr data \<and>
    map (block_batch (oe_sig (be_out env))) (chb_blocks (pc_builder (cm_store s ! i))) = map Some bs \<and>
    carries (be_out env)
      (if cc_batch_type cfg = 0 then None else Some (new_span_builder (be_genesis_time env) (be_chain_id env)))
      bs (inflate data)"
proof -
  have fs: "frame_size_ok cfg" using assms(4,5) by (simp add: frame_size_ok_def)
  obtain k' c0 where c: "length k' = 16" "new_pending_channel env cfg (Some k') = Inr c0"
      "(channel_step env)\<^sup>*\<^sup>* (c0, []) (cm_store s ! i, sent i)"
    using manager_reach [OF assms(6)] assms(7) by (auto simp: manager_inv_def lives_def)
  note inv = sending_inv_reach [OF c(3) new_channel_inv [OF c(2) assms(1)] assms(2,3) fs]
  then have "k' = k" using assms(9) by (auto simp: sending_inv_def builder_inv_def)
  then show ?thesis using submitted_decodes [OF inv assms(8) c(1) fs assms(5,10)] by simp
qed

lemma manager_submissions:
  assumes "took True (be_new_comp env) [] [] []" "be_comp env = C" "rlp_nonempty (be_out env)"
    and "frame_v0_overhead < cc_max_frame_size cfg" "unat (cc_max_frame_size cfg) \<le> 1000023"
  shows "submissions_decode env cfg inflate"
  unfolding submissions_decode_def
  by (intro allI impI, elim conjE, rule manager_decodes [OF assms]) assumption+

end

section \<open>What the batcher submits is what the node derives\<close>

text \<open>C32. The batcher and the derivation pipeline agree (\<open>submissions_decode\<close> above), for both compressors of the
  batcher: every channel of the manager that counts as fully submitted is decoded by its receiver to exactly the
  channel's blocks, in their order. The zlib library is taken as documented: what an open writer has emitted up to a
  flush, or up to its close, reads back as what was written. A frame is larger than its overhead of 23 bytes and at most
  1,000,023 bytes, as much as the derivation accepts. The runs are those without a failing span conversion
  (\<open>failed_conversion_keeps_batch\<close> shows what happens then) and with at most 65535 frames in a channel, because frames
  are numbered in 16 bits.\<close>

theorem submitted_channel_decodes:
  assumes "zlib_ok Z inflate" "frame_v0_overhead < cc_max_frame_size cfg" "unat (cc_max_frame_size cfg) \<le> 1000023"
    and "rlp_nonempty (be_out env)" "be_comp env = ratio_compressor Z threshold" "be_new_comp env = new_ratio Z"
    and "rlp_nonempty (be_out env')" "be_comp env' = shadow_compressor Z target" "be_new_comp env' = new_shadow Z"
  shows "submissions_decode env cfg inflate \<and> submissions_decode env' cfg inflate"
proof
  have "ratio_took Z inflate True (be_new_comp env) [] [] []"
    using new_compressor_took(1) [OF assms(1)] assms(6) by simp
  from ratio.manager_submissions [OF this assms(5,4,2,3)] show "submissions_decode env cfg inflate" .
next
  have "shadow_took Z inflate True (be_new_comp env') [] [] []"
    using new_compressor_took(2) [OF assms(1)] assms(9) by simp
  from shadow.manager_submissions [OF this assms(8,7,2,3)] show "submissions_decode env' cfg inflate" .
qed

text \<open>The run above, with the stream that a writer of stored blocks makes of its block.\<close>

theorem submitted_channel_decodes_witness:
  "\<exists>data bs. channel_reader (receive_txs [(tx_bytes demo_frame, zero_l1_ref)] (new_channel demo_id zero_l1_ref)) = Inr data \<and>
      map (block_batch (oe_sig demo_out_env)) [demo_block] = map Some bs \<and>
      carries demo_out_env None bs (stored_inflate data)"
proof -
  let ?env' = "\<lparr>be_comp = shadow_compressor stored_zlib 1000, be_new_comp = new_shadow stored_zlib,
      be_out = demo_out_env, be_genesis_time = 0, be_chain_id = 1\<rparr> :: zstate shadow batcher_env"
  have "rlp_nonempty demo_out_env" by (simp add: rlp_nonempty_def demo_out_env_def)
  then have decode: "submissions_decode demo_batcher_env demo_channel_config stored_inflate"
    by (intro submitted_channel_decodes [OF stored_zlib_ok, of demo_channel_config demo_batcher_env 1000 ?env' 1000,
          THEN conjunct1])
       (simp_all add: demo_batcher_env_def demo_channel_config_def frame_v0_overhead_def)
  have env: "be_out demo_batcher_env = demo_out_env" "(cc_batch_type demo_channel_config = 0) = True"
    by (simp_all add: demo_batcher_env_def demo_channel_config_def)
  from decode [unfolded submissions_decode_def, THEN spec, THEN spec, THEN spec, THEN spec, THEN spec,
      THEN spec [of _ zero_l1_ref], THEN mp, OF demo_submitted, unfolded demo_blocks env if_True]
  show ?thesis by blast
qed

end
