(* ===== verification/Batcher_Findings.thy ===== *)
theory Batcher_Findings
  imports Batcher_Decode
begin

text \<open>
  Where the batcher does not do what it means to: configurations, states and inputs at which the
  guarantees of the other theories end.
\<close>

section \<open>Frames without room for data\<close>

text \<open>The smallest frame size that the configuration's check lets through is the size of a frame's
  header: the loop that cuts off frames never ends.\<close>

lemma minimal_output:
  assumes "cc_max_frame_size (chb_cfg c) = frame_v0_overhead"
  shows "\<exists>c'. chb_output_frame C c = (Inr False, c') \<and> chb_cfg c' = chb_cfg c"
proof -
  have "\<exists>f co. out_output_frame C frame_v0_overhead (chb_co c) = (Inr f, co) \<and> \<not> fr_is_last f"
  proof (cases "chb_co c")
    case (SingularOut x)
    then show ?thesis
      by (cases "cmp_read C 0 (so_compress x)")
         (simp add: out_output_frame_def singular_output_frame_def create_empty_frame_eq)
  qed (simp add: out_output_frame_def span_output_frame_def create_empty_frame_eq)
  then obtain f co where "out_output_frame C frame_v0_overhead (chb_co c) = (Inr f, co)" "\<not> fr_is_last f"
    by blast
  then show ?thesis using assms by (simp add: chb_output_frame_def)
qed

lemma minimal_frames_never_end:
  assumes "cc_max_frame_size (chb_cfg c) = frame_v0_overhead"
  shows "output_all_frames C c = None"
proof -
  have "cc_max_frame_size (chb_cfg c) \<noteq> frame_v0_overhead" if "output_all_frames C c = Some y" for y
  proof (rule output_all_frames.raw_induct
      [where P = "\<lambda>_ c _. cc_max_frame_size (chb_cfg c) \<noteq> frame_v0_overhead", OF _ that], rule notI)
    fix f and C :: "'c compressor" and c :: "'c channel_builder" and y
    assume ih: "\<And>C c y. f C c = Some y \<Longrightarrow> cc_max_frame_size (chb_cfg (c :: 'c channel_builder)) \<noteq> frame_v0_overhead"
      and run: "(case chb_output_frame C c of (Inl e, c') \<Rightarrow> Some (Inl e, c')
        | (Inr eof, c') \<Rightarrow> if eof then Some (Inr (), c') else f C c') = Some y"
      and size: "cc_max_frame_size (chb_cfg c) = frame_v0_overhead"
    obtain c' where "chb_output_frame C c = (Inr False, c')" "chb_cfg c' = chb_cfg c"
      using minimal_output [OF size] by blast
    then show False using ih [of C c' y] run size by simp
  qed
  then show ?thesis using assms by (cases "output_all_frames C c") auto
qed

lemma minimal_frame_size_accepted:
  "check_channel_config (demo_channel_config\<lparr>cc_max_frame_size := frame_v0_overhead\<rparr>) = Inr ()"
  by (simp add: check_channel_config_def demo_channel_config_def frame_v0_overhead_def)

section \<open>Closing\<close>

text \<open>When the current channel is full already, closing the manager reports an error.\<close>

lemma close_full_channel_fails:
  assumes "\<not> cm_closed s" "cm_queue s = []" "cm_current s = Some i" "i < length (cm_store s)"
    and "chb_is_full (pc_builder (cm_store s ! i))" "out_closed (chb_co (pc_builder (cm_store s ! i)))"
  shows "\<exists>s'. cm_close env s = Some (Inl (ManagerFailed AlreadyClosed), s')"
proof -
  have "out_close C ch = (Inl AlreadyClosed, ch)" if "out_closed ch" for C :: "'a compressor" and ch
    using that by (auto simp: out_closed_def out_close_def singular_close_def span_out_close_def split: channel_out.splits)
  then show ?thesis using assms
    by (simp add: cm_close_def Let_def chb_close_def output_frames_def chb_output_frames_def
        close_and_output_all_frames_def)
qed

text \<open>\<^verbatim>\<open>Close\<close> means to drop every channel of which nothing was submitted; of three in a row the
  second stays.\<close>

lemma close_skips_channel:
  assumes "cm_queue s = [0, 1, 2]" "list_all (\<lambda>i. pc_none_submitted (cm_store s ! i)) [0, 1, 2]"
  shows "cm_queue (close_loop (cm_queue s) 0 3 s) = [1]"
  using assms by (simp add: numeral_3_eq_3 numeral_2_eq_2 shift_out_def remove_pending_channel_def)

section \<open>Blocks sent twice\<close>

text \<open>A channel that timed out gives its blocks back for every further transaction that is confirmed.\<close>

lemma timed_out_blocks_again:
  assumes "map_of (cm_tx_channels s) t = Some i" "i < length (cm_store s)"
    and "map_of (pc_pending (cm_store s ! i)) t \<noteq> None"
    and "pc_tx_confirmed t inclusion (cm_store s ! i) = ((fin, bs), c)" "pc_is_timed_out c"
  shows "cm_blocks (cm_tx_confirmed t inclusion s) = chb_blocks (pc_builder (cm_store s ! i)) @ cm_blocks s"
proof -
  have "bs = chb_blocks (pc_builder (cm_store s ! i))"
    using assms(3-5) by (auto simp: pc_tx_confirmed_def Let_def split: if_splits)
  then show ?thesis using assms(1,4)
    by (simp add: cm_tx_confirmed_def Let_def remove_pending_channel_def put_chan_def)
qed

text \<open>When the processing of blocks fails midway, those added before stay in the manager's queue.\<close>

lemma failed_processing_keeps_blocks:
  "process_blocks env i s = (Inl e, s') \<Longrightarrow> cm_blocks s' = cm_blocks s"
  by (auto simp: process_blocks_def Let_def put_chan_def split: prod.splits sum.splits)

section \<open>Force closing\<close>

text \<open>The loop's 16-bit counter never exceeds the largest frame number.\<close>

lemma fill_frames_never_ends: "fill_frames ident numbers (- 1) i buf = None"
proof -
  have "- 1 \<noteq> (- 1 :: u16)" if "fill_frames ident numbers (- 1) i buf = Some y" for y
    by (rule fill_frames.raw_induct [where P = "\<lambda>_ _ n _ _ _. n \<noteq> - 1", OF _ that])
       (use word_n1_ge in \<open>auto split: if_splits\<close>)
  then show ?thesis by (cases "fill_frames ident numbers (- 1) i buf") auto
qed

text \<open>When no last frame was given, the frame that is to close the channel has number 0: the channel
  refuses it when its first frame is there.\<close>

lemma force_close_rejected:
  assumes "map_of (ch_inputs ch) 0 \<noteq> None" "fr_id f = ch_id ch" "fr_number f = 0"
  shows "\<exists>e. add_frame ch f l1 = Inl e"
  using assms by (auto simp: add_frame_def)

section \<open>The span's builder after an error\<close>

lemma failed_conversion_keeps_batch:
  assumes "span_out_add C env b n co = (Inl (SpanConversion e), co')"
  shows "po_builder co' = builder_append b n (po_builder co)"
  using assms
  by (auto simp: span_out_add_def Let_def span_rewrite_def split: if_splits sum.splits prod.splits)

end
