(* ===== verification/Driver_Sequencer.thy ===== *)
theory Driver_Sequencer
  imports Derive_Pipeline
begin

text \<open>
  The sequencer of the rollup node (\<^verbatim>\<open>bl-node/rollup/driver/{conf_depth,l1_state,origin_selector,sequencer}.go\<close>):
  it chooses the L1 origin of the next block, starts a building job on the engine, and seals it. It
  works on the engine queue of the derivation pipeline. Times are nanoseconds since the epoch;
  durations have 64 bits.
\<close>

section \<open>L1 as the driver sees it\<close>

text \<open>L1 blocks with fewer confirmations than the depth are hidden when asked for by number.\<close>

definition conf_depth :: "u64 \<Rightarrow> l1_ref \<Rightarrow> l1_env \<Rightarrow> l1_env" where
  "conf_depth depth l1Head l1 =
     l1\<lparr>l1_by_number := (\<lambda>num.
       if l1Head = zero_l1_ref then l1_by_number l1 num
       else if num = 0 \<or> depth = 0 \<or> num + depth \<le> l1_number l1Head then l1_by_number l1 num
       else Inl RpcNotFound)\<rparr>"

record l1_state =
  ls_head :: l1_ref
  ls_safe :: l1_ref
  ls_finalized :: l1_ref

definition new_l1_state :: l1_state where
  "new_l1_state = \<lparr>ls_head = zero_l1_ref, ls_safe = zero_l1_ref, ls_finalized = zero_l1_ref\<rparr>"

definition handle_new_l1_head :: "l1_ref \<Rightarrow> l1_state \<Rightarrow> l1_state" where
  "handle_new_l1_head head s = s\<lparr>ls_head := head\<rparr>"

definition handle_new_l1_safe :: "l1_ref \<Rightarrow> l1_state \<Rightarrow> l1_state" where
  "handle_new_l1_safe safe s = s\<lparr>ls_safe := safe\<rparr>"

definition handle_new_l1_finalized :: "l1_ref \<Rightarrow> l1_state \<Rightarrow> l1_state" where
  "handle_new_l1_finalized finalized s = s\<lparr>ls_finalized := finalized\<rparr>"

section \<open>The origin of the next block\<close>

datatype origin_err = OriginFetch rpc_err | PastDrift rpc_err

definition past_seq_drift :: "rollup_config \<Rightarrow> l2_ref \<Rightarrow> l1_ref \<Rightarrow> bool" where
  "past_seq_drift cfg l2Head currentOrigin \<longleftrightarrow>
     l2_time l2Head + rc_block_time cfg > l1_time currentOrigin + rc_max_sequencer_drift cfg"

definition find_l1_origin :: "rollup_config \<Rightarrow> l1_env \<Rightarrow> l2_ref \<Rightarrow> origin_err + l1_ref" where
  "find_l1_origin cfg l1 l2Head =
     (case l1_by_hash l1 (bid_hash (l2_l1_origin l2Head)) of
        Inl e \<Rightarrow> Inl (OriginFetch e)
      | Inr currentOrigin \<Rightarrow>
          (case l1_by_number l1 (l1_number currentOrigin + 1) of
             Inl e \<Rightarrow>
               if past_seq_drift cfg l2Head currentOrigin then Inl (PastDrift e) else Inr currentOrigin
           | Inr nextOrigin \<Rightarrow>
               if l2_time l2Head + rc_block_time cfg \<ge> l1_time nextOrigin then Inr nextOrigin
               else Inr currentOrigin))"

section \<open>Building\<close>

text \<open>The class of an error as \<^verbatim>\<open>errors.Is\<close> tells it. The insertion errors of the engine queue
  carry no class, but for a payload that cannot be read back, which is a reset error.\<close>

datatype seq_err = SeqCritical | SeqReset | SeqTemporary | SeqOther | SeqPanic

definition seq_class :: "stage_err \<Rightarrow> seq_err" where
  "seq_class e =
     (case e of
        CriticalError \<Rightarrow> SeqCritical
      | ResetError \<Rightarrow> SeqReset
      | TemporaryError \<Rightarrow> SeqTemporary
      | StagePanic \<Rightarrow> SeqPanic
      | _ \<Rightarrow> SeqOther)"

record 'e sequencer_env =
  sq_engine :: "'e engine_env"
  sq_attr :: attr_env
  sq_l1 :: l1_env

definition sequencer_attributes ::
  "attr_env \<Rightarrow> rollup_config \<Rightarrow> l1_env \<Rightarrow> l2_ref \<Rightarrow> seq_err + payload_attributes" where
  "sequencer_attributes env cfg l1 l2Head =
     (case find_l1_origin cfg l1 l2Head of
        Inl _ \<Rightarrow> Inl SeqOther
      | Inr l1Origin \<Rightarrow>
          if \<not> (bid_hash (l2_l1_origin l2Head) = l1_parent_hash l1Origin \<or>
                 bid_hash (l2_l1_origin l2Head) = l1_hash l1Origin)
          then Inl SeqReset
          else (case prepare_payload_attributes env cfg l2Head (l1_id l1Origin) of
              Inl e \<Rightarrow> Inl (seq_class e)
            | Inr attrs \<Rightarrow>
                Inr (attrs\<lparr>at_no_tx_pool :=
                  (at_timestamp attrs > l1_time l1Origin + rc_max_sequencer_drift cfg)\<rparr>)))"

definition start_building_block ::
  "'e sequencer_env \<Rightarrow> engine_queue \<Rightarrow> 'e \<Rightarrow> (seq_err + unit) \<times> engine_queue \<times> 'e" where
  "start_building_block env q e =
     (case sequencer_attributes (sq_attr env) (ee_cfg (sq_engine env)) (sq_l1 env) (eq_unsafe_head q) of
        Inl err \<Rightarrow> (Inl err, q, e)
      | Inr attrs \<Rightarrow>
          (case queue_start_payload (sq_engine env) (eq_unsafe_head q) attrs False q e of
             (Inl _, q1, e1) \<Rightarrow> (Inl SeqOther, q1, e1)
           | (Inr _, q1, e1) \<Rightarrow> (Inr (), q1, e1)))"

text \<open>Whether the engine confirmed the payload, but it cannot be read back as a block.\<close>

definition unreadable_payload :: "'e engine_env \<Rightarrow> engine_queue \<Rightarrow> 'e \<Rightarrow> bool" where
  "unreadable_payload env q e \<longleftrightarrow>
     eq_building_id q \<noteq> zero_payload_id \<and>
     (case fst (confirm_payload (ee_engine env)
              \<lparr>fc_head = zero_hash32, fc_safe = l2_hash (eq_safe_head q),
               fc_finalized = l2_hash (eq_finalized q)\<rparr> (eq_building_id q)
              (eq_building_safe q \<and> last_in_span q) e) of
        Inl _ \<Rightarrow> False
      | Inr pl \<Rightarrow>
          (case payload_to_block_ref (ee_l2 env) (rc_genesis (ee_cfg env)) pl of Inl _ \<Rightarrow> True | Inr _ \<Rightarrow> False))"

definition complete_building_block ::
  "'e sequencer_env \<Rightarrow> engine_queue \<Rightarrow> 'e \<Rightarrow> (seq_err + payload) \<times> engine_queue \<times> 'e" where
  "complete_building_block env q e =
     (case queue_confirm_payload (sq_engine env) q e of
        (Inl InsertPanic, q1, e1) \<Rightarrow> (Inl SeqPanic, q1, e1)
      | (Inl _, q1, e1) \<Rightarrow>
          (Inl (if unreadable_payload (sq_engine env) q e then SeqReset else SeqOther), q1, e1)
      | (Inr pl, q1, e1) \<Rightarrow> (Inr pl, q1, e1))"

definition cancel_building_block ::
  "'e sequencer_env \<Rightarrow> engine_queue \<Rightarrow> 'e \<Rightarrow> engine_queue \<times> 'e" where
  "cancel_building_block env q e = snd (queue_cancel_payload (sq_engine env) True q e)"

section \<open>Time\<close>

definition saturate :: "int \<Rightarrow> int" where
  "saturate d = max (- (2 ^ 63)) (min (2 ^ 63 - 1) d)"

definition second :: u64 where "second = 1000000000"

definition sealing_duration :: int where "sealing_duration = 50000000"

text \<open>\<^verbatim>\<open>time.Second * time.Duration(cfg.BlockTime)\<close>; the product wraps around.\<close>

definition block_duration :: "rollup_config \<Rightarrow> int" where
  "block_duration cfg = sint (second * rc_block_time cfg)"

definition block_due :: "rollup_config \<Rightarrow> l2_ref \<Rightarrow> int" where
  "block_due cfg head = sint (l2_time head + rc_block_time cfg) * 1000000000"

text \<open>The delay until the next action; \<open>nextAction\<close> is the time before which the sequencer holds off.\<close>

definition plan_next_action :: "rollup_config \<Rightarrow> engine_queue \<Rightarrow> int \<Rightarrow> int \<Rightarrow> int" where
  "plan_next_action cfg q nextAction now =
     (if eq_building_safe q then block_duration cfg
      else let onHead = (l2_hash (eq_building_onto q) = l2_hash (eq_unsafe_head q));
               delay = saturate (nextAction - now);
               remaining = saturate (block_due cfg (eq_unsafe_head q) - now)
        in if delay > 0 \<and> onHead then delay
           else if eq_building_id q \<noteq> zero_payload_id \<and> onHead
           then (if remaining < sealing_duration then 0 else remaining - sealing_duration)
           else if remaining > block_duration cfg then remaining - block_duration cfg else 0)"

section \<open>The next action\<close>

record sequencer_state =
  ss_pipeline :: pipeline
  ss_next_action :: int

definition ss_engine :: "sequencer_state \<Rightarrow> engine_queue" where
  "ss_engine s = pp_engine (ss_pipeline s)"

definition put_engine :: "engine_queue \<Rightarrow> sequencer_state \<Rightarrow> sequencer_state" where
  "put_engine q s = s\<lparr>ss_pipeline := (ss_pipeline s)\<lparr>pp_engine := q\<rparr>\<rparr>"

definition hold_off :: "int \<Rightarrow> sequencer_state \<Rightarrow> sequencer_state" where
  "hold_off t s = s\<lparr>ss_next_action := t\<rparr>"

definition reset_engine :: "sequencer_state \<Rightarrow> sequencer_state" where
  "reset_engine s = s\<lparr>ss_pipeline := pipeline_reset (ss_pipeline s)\<rparr>"

definition after_start_error ::
  "rollup_config \<Rightarrow> int \<Rightarrow> seq_err \<Rightarrow> sequencer_state \<Rightarrow> sequencer_state" where
  "after_start_error cfg now err s =
     (if err = SeqReset then reset_engine (hold_off (now + block_duration cfg) s)
      else hold_off (now + 1000000000) s)"

definition after_seal_error ::
  "'e sequencer_env \<Rightarrow> int \<Rightarrow> seq_err \<Rightarrow> sequencer_state \<Rightarrow> 'e \<Rightarrow> sequencer_state \<times> 'e" where
  "after_seal_error env now err s e =
     (if err = SeqReset
      then (case cancel_building_block env (ss_engine s) e of
          (q, e1) \<Rightarrow>
            (reset_engine (put_engine q (hold_off (now + block_duration (ee_cfg (sq_engine env))) s)), e1))
      else if err = SeqTemporary then (hold_off (now + 1000000000) s, e)
      else (case cancel_building_block env (ss_engine s) e of
          (q, e1) \<Rightarrow> (put_engine q (hold_off (now + 1000000000) s), e1)))"

text \<open>Critical errors, and panics, are returned; other errors are handled here.\<close>

definition run_next_action ::
  "'e sequencer_env \<Rightarrow> int \<Rightarrow> sequencer_state \<Rightarrow> 'e \<Rightarrow>
   (seq_err + payload option) \<times> sequencer_state \<times> 'e" where
  "run_next_action env now s e =
     (let q = ss_engine s; cfg = ee_cfg (sq_engine env) in
      if eq_building_id q \<noteq> zero_payload_id then
        if eq_building_safe q then (Inr None, hold_off (now + block_duration cfg) s, e)
        else (case complete_building_block env q e of
            (Inr pl, q1, e1) \<Rightarrow> (Inr (Some pl), put_engine q1 s, e1)
          | (Inl err, q1, e1) \<Rightarrow>
              if err = SeqCritical \<or> err = SeqPanic then (Inl err, put_engine q1 s, e1)
              else (Inr None, after_seal_error env now err (put_engine q1 s) e1))
      else (case start_building_block env q e of
          (Inr _, q1, e1) \<Rightarrow> (Inr None, put_engine q1 s, e1)
        | (Inl err, q1, e1) \<Rightarrow>
            if err = SeqCritical \<or> err = SeqPanic then (Inl err, put_engine q1 s, e1)
            else (Inr None, after_start_error cfg now err (put_engine q1 s), e1)))"

end
