(* ===== verification/Driver_Loop.thy ===== *)
theory Driver_Loop
  imports Driver_Sequencer
begin

text \<open>
  The event loop of the rollup node's driver (\<^verbatim>\<open>bl-node/rollup/driver/{driver,state,config}.go\<close>). One
  round prepares the sequencer's timer and then handles one event. Timers carry the time at which
  they fire; the requests that other goroutines send over channels are events, and what they get in
  reply, the blocks that are published and the ranges asked for are outputs.
\<close>

section \<open>State\<close>

record driver_config =
  dc_verifier_depth :: u64
  dc_sequencer_depth :: u64
  dc_sequencer_enabled :: bool
  dc_max_safe_lag :: u64

text \<open>\<open>dr_backoff\<close> is the delay of the retry strategy after so many attempts, \<open>dr_network\<close> whether
  there is a network to publish to.\<close>

record 'e driver_env =
  dr_config :: driver_config
  dr_engine :: "'e engine_env"
  dr_pull :: pull_env
  dr_attr :: attr_env
  dr_l1 :: l1_env
  dr_keccak :: "byte list \<Rightarrow> hash"
  dr_backoff :: "nat \<Rightarrow> int"
  dr_network :: bool

record 'e driver =
  dv_l1 :: l1_state
  dv_seq :: sequencer_state
  dv_engine :: 'e
  dv_stopped :: bool
  dv_timer :: "int option"
  dv_step_req :: bool
  dv_delayed :: "int option"
  dv_attempts :: nat

definition dv_pipeline :: "'e driver \<Rightarrow> pipeline" where
  "dv_pipeline s = ss_pipeline (dv_seq s)"

definition dv_queue :: "'e driver \<Rightarrow> engine_queue" where
  "dv_queue s = pp_engine (dv_pipeline s)"

definition put_pipeline :: "pipeline \<Rightarrow> 'e driver \<Rightarrow> 'e driver" where
  "put_pipeline pp s = s\<lparr>dv_seq := (dv_seq s)\<lparr>ss_pipeline := pp\<rparr>\<rparr>"

definition put_queue :: "engine_queue \<Rightarrow> 'e driver \<Rightarrow> 'e driver" where
  "put_queue q s = put_pipeline ((dv_pipeline s)\<lparr>pp_engine := q\<rparr>) s"

text \<open>The pipeline and the sequencer see L1 through their own confirmation depth.\<close>

definition verifier_l1 :: "'e driver_env \<Rightarrow> 'e driver \<Rightarrow> l1_env" where
  "verifier_l1 env s = conf_depth (dc_verifier_depth (dr_config env)) (ls_head (dv_l1 s)) (dr_l1 env)"

definition engine_at :: "'e driver_env \<Rightarrow> 'e driver \<Rightarrow> 'e engine_env" where
  "engine_at env s = (dr_engine env)\<lparr>ee_l1 := verifier_l1 env s\<rparr>"

definition pull_at :: "'e driver_env \<Rightarrow> 'e driver \<Rightarrow> pull_env" where
  "pull_at env s =
     (dr_pull env)\<lparr>pe_l1 := verifier_l1 env s,
                   pe_attr := (pe_attr (dr_pull env))\<lparr>ae_l1 := verifier_l1 env s\<rparr>\<rparr>"

definition sequencer_at :: "'e driver_env \<Rightarrow> 'e driver \<Rightarrow> 'e sequencer_env" where
  "sequencer_at env s =
     \<lparr>sq_engine = engine_at env s, sq_attr = dr_attr env,
      sq_l1 = conf_depth (dc_sequencer_depth (dr_config env)) (ls_head (dv_l1 s)) (dr_l1 env)\<rparr>"

definition driver_start :: "'e driver \<Rightarrow> 'e driver" where
  "driver_start s =
     (put_pipeline (pipeline_reset (dv_pipeline s)) s)
       \<lparr>dv_timer := None, dv_step_req := True, dv_delayed := None, dv_attempts := 0\<rparr>"

section \<open>Requests\<close>

definition request_step :: "'e driver_env \<Rightarrow> int \<Rightarrow> 'e driver \<Rightarrow> 'e driver" where
  "request_step env now s =
     (if dv_attempts s > 0
      then (if dv_delayed s = None then s\<lparr>dv_delayed := Some (now + dr_backoff env (dv_attempts s))\<rparr> else s)
      else s\<lparr>dv_step_req := True\<rparr>)"

definition plan_action :: "'e driver_env \<Rightarrow> int \<Rightarrow> 'e driver \<Rightarrow> 'e driver" where
  "plan_action env now s =
     s\<lparr>dv_timer := Some (now +
         plan_next_action (ee_cfg (dr_engine env)) (dv_queue s) (ss_next_action (dv_seq s)) now)\<rparr>"

definition sequencing :: "'e driver_env \<Rightarrow> 'e driver \<Rightarrow> bool" where
  "sequencing env s \<longleftrightarrow>
     dc_sequencer_enabled (dr_config env) \<and> \<not> dv_stopped s \<and> ls_head (dv_l1 s) \<noteq> zero_l1_ref \<and>
     pipeline_engine_ready (dv_pipeline s)"

definition lag_exceeded :: "'e driver_env \<Rightarrow> 'e driver \<Rightarrow> bool" where
  "lag_exceeded env s \<longleftrightarrow>
     dc_max_safe_lag (dr_config env) > 0 \<and>
     l2_number (eq_safe_head (dv_queue s)) + dc_max_safe_lag (dr_config env)
       \<le> l2_number (eq_unsafe_head (dv_queue s))"

definition prepare_round :: "'e driver_env \<Rightarrow> int \<Rightarrow> 'e driver \<Rightarrow> 'e driver" where
  "prepare_round env now s =
     (if sequencing env s then
        if lag_exceeded env s then s\<lparr>dv_timer := None\<rparr>
        else if l2_id (eq_building_onto (dv_queue s)) \<noteq> l2_id (eq_unsafe_head (dv_queue s))
        then plan_action env now s
        else s
      else s\<lparr>dv_timer := None\<rparr>)"

section \<open>Status\<close>

record sync_status =
  st_current_l1 :: l1_ref
  st_current_l1_finalized :: l1_ref
  st_head_l1 :: l1_ref
  st_safe_l1 :: l1_ref
  st_finalized_l1 :: l1_ref
  st_unsafe_l2 :: l2_ref
  st_safe_l2 :: l2_ref
  st_finalized_l2 :: l2_ref
  st_pending_safe_l2 :: l2_ref
  st_unsafe_sync_target :: l2_ref
  st_engine_sync_target :: l2_ref

definition sync_status_of :: "'e driver_env \<Rightarrow> 'e driver \<Rightarrow> sync_status" where
  "sync_status_of env s =
     \<lparr>st_current_l1 = eq_origin (dv_queue s), st_current_l1_finalized = eq_finalized_l1 (dv_queue s),
      st_head_l1 = ls_head (dv_l1 s), st_safe_l1 = ls_safe (dv_l1 s),
      st_finalized_l1 = ls_finalized (dv_l1 s), st_unsafe_l2 = eq_unsafe_head (dv_queue s),
      st_safe_l2 = eq_safe_head (dv_queue s), st_finalized_l2 = eq_finalized (dv_queue s),
      st_pending_safe_l2 = eq_pending_safe_head (dv_queue s),
      st_unsafe_sync_target = unsafe_l2_sync_target (dr_engine env) (dv_queue s),
      st_engine_sync_target = eq_engine_sync_target (dv_queue s)\<rparr>"

section \<open>Events\<close>

text \<open>The flag of a start or stop request says whether the listener could persist it.\<close>

datatype driver_event =
    SequencerFires | AltSyncFires | UnsafePayload payload | NewL1Head l1_ref | NewL1Safe l1_ref
  | NewL1Finalized l1_ref | DelayedFires | StepFires | StateRequest | ForceReset
  | StartSequencer hash bool | StopSequencer bool | QuerySequencer | DriverDone

datatype driver_output =
    Published payload | RangeRequested l2_ref l2_ref | Status sync_status
  | SequencerStarted | SequencerRefused | SequencerStoppedAt hash | SequencerActive bool

datatype driver_exit = Running | Halted | Crashed

type_synonym 'e round = "driver_output list \<times> driver_exit \<times> 'e driver"

definition check_for_gap :: "'e driver_env \<Rightarrow> 'e driver \<Rightarrow> driver_output list" where
  "check_for_gap env s =
     (let start = eq_unsafe_head (dv_queue s); target = unsafe_l2_sync_target (dr_engine env) (dv_queue s)
      in if target = zero_l2_ref then [RangeRequested start zero_l2_ref]
         else if l2_number target > l2_number start + 1 then [RangeRequested start target]
         else [])"

definition sequencer_round :: "'e driver_env \<Rightarrow> int \<Rightarrow> 'e driver \<Rightarrow> 'e round" where
  "sequencer_round env now s =
     (case run_next_action (sequencer_at env s) now (dv_seq s) (dv_engine s) of
        (r, seq, e) \<Rightarrow>
          let s1 = s\<lparr>dv_seq := seq, dv_engine := e\<rparr>
          in (case r of
                Inl err \<Rightarrow> ([], if err = SeqPanic then Crashed else Halted, s1)
              | Inr pl \<Rightarrow>
                  ((case pl of None \<Rightarrow> [] | Some p \<Rightarrow> if dr_network env then [Published p] else []),
                   Running, plan_action env now s1)))"

text \<open>A reset is not followed by a request for the next step.\<close>

definition after_step :: "'e driver_env \<Rightarrow> int \<Rightarrow> stage_err + unit \<Rightarrow> 'e driver \<Rightarrow> 'e round" where
  "after_step env now r s =
     (case r of
        Inr _ \<Rightarrow> ([], Running, request_step env now (s\<lparr>dv_attempts := 0\<rparr>))
      | Inl StageEOF \<Rightarrow> ([], Running, s\<lparr>dv_attempts := 0\<rparr>)
      | Inl EngineP2PSyncing \<Rightarrow> ([], Running, s\<lparr>dv_attempts := 0\<rparr>)
      | Inl ResetError \<Rightarrow> ([], Running, put_pipeline (pipeline_reset (dv_pipeline s)) s)
      | Inl CriticalError \<Rightarrow> ([], Halted, s)
      | Inl NotEnoughData \<Rightarrow> ([], Running, request_step env now (s\<lparr>dv_attempts := 0\<rparr>))
      | Inl StagePanic \<Rightarrow> ([], Crashed, s)
      | Inl _ \<Rightarrow> ([], Running, request_step env now s))"

definition step_round :: "'e driver_env \<Rightarrow> int \<Rightarrow> 'e driver \<Rightarrow> 'e round option" where
  "step_round env now s =
     map_option
       (\<lambda>(r, pp, e). after_step env now r
          ((put_pipeline pp s)\<lparr>dv_engine := e, dv_step_req := False, dv_attempts := dv_attempts s + 1\<rparr>))
       (pipeline_step (dr_keccak env) (pull_at env s) (engine_at env s) (dv_pipeline s) (dv_engine s))"

definition payload_round :: "'e driver_env \<Rightarrow> int \<Rightarrow> payload \<Rightarrow> 'e driver \<Rightarrow> 'e round option" where
  "payload_round env now pl s =
     map_option
       (\<lambda>r. case r of
            Inl _ \<Rightarrow> ([], Crashed, s)
          | Inr q \<Rightarrow> ([], Running, request_step env now (put_queue q s)))
       (add_unsafe_payload (Some pl) (dv_queue s))"

definition start_round :: "'e driver_env \<Rightarrow> int \<Rightarrow> hash \<Rightarrow> bool \<Rightarrow> 'e driver \<Rightarrow> 'e round" where
  "start_round env now h persisted s =
     (if \<not> dc_sequencer_enabled (dr_config env) \<or> \<not> dv_stopped s \<or>
         l2_hash (eq_unsafe_head (dv_queue s)) \<noteq> h \<or> \<not> persisted
      then ([SequencerRefused], Running, s)
      else ([SequencerStarted], Running, plan_action env now (s\<lparr>dv_stopped := False\<rparr>)))"

definition stop_round :: "'e driver_env \<Rightarrow> bool \<Rightarrow> 'e driver \<Rightarrow> 'e round" where
  "stop_round env persisted s =
     (if \<not> dc_sequencer_enabled (dr_config env) \<or> dv_stopped s \<or> \<not> persisted
      then ([SequencerRefused], Running, s)
      else case cancel_building_block (sequencer_at env s) (dv_queue s) (dv_engine s) of
          (q, e) \<Rightarrow>
            ([SequencerStoppedAt (l2_hash (eq_unsafe_head q))], Running,
             (put_queue q s)\<lparr>dv_stopped := True, dv_engine := e\<rparr>))"

definition handle_event :: "'e driver_env \<Rightarrow> int \<Rightarrow> driver_event \<Rightarrow> 'e driver \<Rightarrow> 'e round option" where
  "handle_event env now ev s =
     (case ev of
        SequencerFires \<Rightarrow> Some (sequencer_round env now s)
      | AltSyncFires \<Rightarrow> Some (check_for_gap env s, Running, s)
      | UnsafePayload pl \<Rightarrow> payload_round env now pl s
      | NewL1Head r \<Rightarrow> Some ([], Running, request_step env now (s\<lparr>dv_l1 := handle_new_l1_head r (dv_l1 s)\<rparr>))
      | NewL1Safe r \<Rightarrow> Some ([], Running, s\<lparr>dv_l1 := handle_new_l1_safe r (dv_l1 s)\<rparr>)
      | NewL1Finalized r \<Rightarrow> Some ([], Running, request_step env now
          (put_queue (finalize r (dv_queue s)) (s\<lparr>dv_l1 := handle_new_l1_finalized r (dv_l1 s)\<rparr>)))
      | DelayedFires \<Rightarrow> Some ([], Running, s\<lparr>dv_delayed := None, dv_step_req := True\<rparr>)
      | StepFires \<Rightarrow> step_round env now s
      | StateRequest \<Rightarrow> Some ([Status (sync_status_of env s)], Running, s)
      | ForceReset \<Rightarrow> Some ([], Running, put_pipeline (pipeline_reset (dv_pipeline s)) s)
      | StartSequencer h persisted \<Rightarrow> Some (start_round env now h persisted s)
      | StopSequencer persisted \<Rightarrow> Some (stop_round env persisted s)
      | QuerySequencer \<Rightarrow>
          Some ([SequencerActive (dc_sequencer_enabled (dr_config env) \<and> \<not> dv_stopped s)], Running, s)
      | DriverDone \<Rightarrow> Some ([], Halted, s))"

text \<open>Which events can be taken now: timers that have fired, and any request.\<close>

definition can_fire :: "int \<Rightarrow> driver_event \<Rightarrow> 'e driver \<Rightarrow> bool" where
  "can_fire now ev s \<longleftrightarrow>
     (case ev of
        SequencerFires \<Rightarrow> (case dv_timer s of None \<Rightarrow> False | Some t \<Rightarrow> t \<le> now)
      | DelayedFires \<Rightarrow> (case dv_delayed s of None \<Rightarrow> False | Some t \<Rightarrow> t \<le> now)
      | StepFires \<Rightarrow> dv_step_req s
      | _ \<Rightarrow> True)"

text \<open>A round of the loop, and a run of rounds with the events taken and the outputs made.\<close>

inductive driver_round ::
  "'e driver_env \<Rightarrow> driver_event \<Rightarrow> driver_output list \<Rightarrow> 'e driver \<Rightarrow> 'e driver \<Rightarrow> bool" for env where
  round: "can_fire now ev (prepare_round env now s) \<Longrightarrow>
    handle_event env now ev (prepare_round env now s) = Some (out, Running, s') \<Longrightarrow>
    driver_round env ev out s s'"

inductive driver_run ::
  "'e driver_env \<Rightarrow> driver_event list \<Rightarrow> driver_output list \<Rightarrow> 'e driver \<Rightarrow> 'e driver \<Rightarrow> bool" for env where
  run_none: "driver_run env [] [] s s"
| run_more: "driver_round env ev out s s1 \<Longrightarrow> driver_run env evs outs s1 s2 \<Longrightarrow>
    driver_run env (ev # evs) (out @ outs) s s2"

end
