(* ===== verification/Driver_Sequencer_Props.thy ===== *)
theory Driver_Sequencer_Props
  imports Driver_Loop Derive_Stages_Props Batcher_Channel_Out
begin

text \<open>
  The sequencer, the batcher and the derivation agree: the block that the sequencer has built is one that
  the batch rules accept when the batcher has put it on L1.
\<close>

section \<open>What is known of the L1 node and of the block\<close>

text \<open>References and headers of the L1 node belong together.\<close>

definition l1_agrees :: "attr_env \<Rightarrow> l1_env \<Rightarrow> bool" where
  "l1_agrees env l1 \<longleftrightarrow>
     (\<forall>h r. l1_by_hash l1 h = Inr r \<longrightarrow> l1_hash r = h) \<and>
     (\<forall>n r. l1_by_number l1 n = Inr r \<longrightarrow> l1_number r = n) \<and>
     (\<forall>r info. ((\<exists>h. l1_by_hash l1 h = Inr r) \<or> (\<exists>n. l1_by_number l1 n = Inr r)) \<longrightarrow>
        ((\<exists>rs. l1_fetch_receipts (ae_l1 env) (l1_hash r) = Inr (info, rs)) \<or>
         l1_info_by_hash (ae_l1 env) (l1_hash r) = Inr info) \<longrightarrow>
        hd_number info = l1_number r \<and> hd_time info = l1_time r)"

text \<open>\<open>decode\<close> is go-ethereum's decoding of a transaction.\<close>

definition decodes_deposits :: "attr_env \<Rightarrow> (byte list \<Rightarrow> block_tx) \<Rightarrow> bool" where
  "decodes_deposits env decode \<longleftrightarrow>
     (\<forall>dep t. ae_enc env dep = Some t \<longrightarrow>
        bt_type (decode t) = deposit_tx_type \<and> bt_data (decode t) = dt_data dep)"

definition pool_ok :: "(byte list \<Rightarrow> block_tx) \<Rightarrow> byte list list \<Rightarrow> bool" where
  "pool_ok decode pool \<longleftrightarrow>
     txs_ok pool \<and> list_all (\<lambda>t. bt_type (decode t) \<noteq> deposit_tx_type \<and> bt_raw (decode t) = Some t) pool"

text \<open>The block an engine makes of attributes and transactions of its pool.\<close>

definition built_block ::
  "(byte list \<Rightarrow> block_tx) \<Rightarrow> l2_ref \<Rightarrow> payload_attributes \<Rightarrow> byte list list \<Rightarrow> hash \<Rightarrow> out_block" where
  "built_block decode parent attrs pool h =
     \<lparr>ob_hash = h, ob_parent_hash = l2_hash parent, ob_number = l2_number parent + 1,
      ob_time = at_timestamp attrs, ob_txs = map decode (at_transactions attrs @ pool)\<rparr>"

section \<open>Attributes\<close>

lemma conf_depth_hash [simp]: "l1_by_hash (conf_depth d head l1) = l1_by_hash l1"
  by (simp add: conf_depth_def)

lemma conf_depth_number: "l1_by_number (conf_depth d head l1) n = Inr r \<Longrightarrow> l1_by_number l1 n = Inr r"
  by (auto simp: conf_depth_def split: if_splits)

lemma deposits_encoded:
  assumes "epoch_inputs env cfg parent epoch sc = Inr (info, deps, sys, n)" "t \<in> set deps"
  shows "\<exists>dep. ae_enc env dep = Some t"
  using assms
  by (auto simp: epoch_inputs_def derive_deposits_def List.map_filter_def
      split: if_splits sum.splits prod.splits) blast

lemma prepared_attributes:
  assumes "prepare_payload_attributes env cfg parent epoch = Inr attrs" "nodes_ok env"
  obtains info dep tx deps where "epoch_header env parent epoch info" "hd_hash info = bid_hash epoch"
    "at_transactions attrs = tx # deps" "at_timestamp attrs = l2_time parent + rc_block_time cfg"
    "\<not> at_timestamp attrs < hd_time info" "ae_enc env dep = Some tx"
    "\<exists>li. unmarshal_l1_info (ae_sig env) (dt_data dep) = Inr li \<and> li_number li = hd_number info \<and>
      li_block_hash li = hd_hash info"
    "\<forall>t\<in>set deps. \<exists>dep. ae_enc env dep = Some t"
proof -
  obtain sc where sc: "ae_l2_config env (l2_hash parent) = Inr sc"
    using assms(1) by (auto simp: prepare_payload_attributes_def split: sum.splits)
  obtain info deps sys seqNum tx where e: "epoch_inputs env cfg parent epoch sc = Inr (info, deps, sys, seqNum)"
      "l1_info_deposit_bytes env seqNum info sys (is_regolith cfg (l2_time parent + rc_block_time cfg)) = Some tx"
      "\<not> l2_time parent + rc_block_time cfg < hd_time info" "at_transactions attrs = tx # deps"
      "at_timestamp attrs = l2_time parent + rc_block_time cfg"
    using assms(1) sc by (auto simp: prepare_payload_attributes_def rbind_eq_Inr Let_def split: if_splits option.splits)
  have w: "wf_sys_config sc" using sc assms(2) by (simp add: nodes_ok_def)
  note ei = epoch_inputs_ok [OF e(1) assms(2) w]
  define li where "li = \<lparr>li_number = hd_number info, li_time = hd_time info, li_base_fee = hd_base_fee info,
        li_block_hash = hd_hash info, li_sequence_number = seqNum,
        li_batcher_addr = sc_batcher_addr sys, li_l1_fee_overhead = sc_overhead sys,
        li_l1_fee_scalar = sc_scalar sys\<rparr>"
  obtain dep where dep: "l1_info_deposit env seqNum info sys (is_regolith cfg (l2_time parent + rc_block_time cfg)) = Inr dep"
      "ae_enc env dep = Some tx"
    using e(2) by (auto simp: l1_info_deposit_bytes_def split: sum.splits)
  then have m: "marshal_l1_info (ae_sig env) li = Inr (dt_data dep)"
    by (auto simp: l1_info_deposit_def li_def rbind_eq_Inr)
  have "wf_l1_info li" using ei(2,4) by (simp add: wf_l1_info_def li_def wf_l1_header_def wf_sys_config_def)
  then have "unmarshal_l1_info (ae_sig env) (dt_data dep) = Inr li"
    using unmarshal_marshal_l1_info [OF _ _ m] assms(2) by (simp add: nodes_ok_def)
  then show thesis
    using that [OF ei(1,3) e(4,5) _ dep(2)] e(3,5) deposits_encoded [OF e(1)] by (simp add: li_def)
qed

text \<open>The batch the batcher makes of the block.\<close>

lemma built_block_batch:
  assumes "at_transactions attrs = tx # deps" "ae_enc env dep = Some tx" "\<forall>t\<in>set deps. \<exists>dep. ae_enc env dep = Some t"
    and "unmarshal_l1_info sig (dt_data dep) = Inr li" "decodes_deposits env decode" "pool_ok decode pool"
  shows "block_to_singular_batch sig (built_block decode parent attrs pool h) =
    Inr (\<lparr>sb_parent_hash = l2_hash parent, sb_epoch_num = li_number li, sb_epoch_hash = li_block_hash li,
          sb_timestamp = at_timestamp attrs, sb_transactions = pool\<rparr>, li)"
proof -
  have d: "bt_type (decode tx) = deposit_tx_type" "bt_data (decode tx) = dt_data dep"
    "\<forall>t\<in>set deps. bt_type (decode t) = deposit_tx_type"
    using assms(2,3,5) unfolding decodes_deposits_def by blast+
  have "filter (\<lambda>tx. bt_type tx \<noteq> deposit_tx_type) (map decode deps) = []"
    using d(3) by (simp add: filter_empty_conv)
  moreover have "filter (\<lambda>tx. bt_type tx \<noteq> deposit_tx_type) (map decode pool) = map decode pool"
    using assms(6) by (simp add: pool_ok_def list_all_iff)
  moreover have "map bt_raw (map decode pool) = map Some pool"
    using assms(6) by (simp add: pool_ok_def list_all_iff)
  ultimately have "opaque_txs (ob_txs (built_block decode parent attrs pool h)) = map Some pool"
    using d(1) by (simp add: opaque_txs_def built_block_def assms(1))
  then show ?thesis using d(1,2) assms(4)
    by (simp add: block_to_singular_batch_def built_block_def assms(1) comp_def)
qed

section \<open>The origin\<close>

text \<open>The origin that is chosen is that of the parent or its child; past the drift the pool stays
  closed, and the parent's origin is kept only when its child is later than the block.\<close>

lemma chosen_origin:
  assumes "find_l1_origin cfg (conf_depth d head l1) l2Head = Inr r"
    and "l1_by_hash l1 (bid_hash (l2_l1_origin l2Head)) = Inr orig"
  shows "(r = orig \<and>
      (past_seq_drift cfg l2Head orig \<longrightarrow>
        (\<exists>nx. l1_by_number l1 (l1_number orig + 1) = Inr nx \<and> \<not> l2_time l2Head + rc_block_time cfg \<ge> l1_time nx))) \<or>
    l1_by_number l1 (l1_number orig + 1) = Inr r"
  using assms
  by (auto simp: find_l1_origin_def split: sum.splits if_splits dest: conf_depth_number)

lemma accepted_at:
  assumes "\<not> sb_timestamp b > l2_time parent + rc_block_time cfg" "\<not> sb_timestamp b < l2_time parent + rc_block_time cfg"
    and "sb_parent_hash b = l2_hash parent" "sb_epoch_num b = l1_number r" "sb_epoch_hash b = l1_hash r"
    and "\<not> sb_timestamp b < l1_time r" "\<not> l1_number r + rc_seq_window_size cfg < l1_number inclusion"
    and "txs_ok (sb_transactions b)" "singular_origin (orig # rest) (l1_number r) = Inr r"
    and "singular_drift cfg (orig # rest) r b = Inr ()"
  shows "check_singular_batch cfg (orig # rest) parent b inclusion = BatchAccept"
  unfolding check_singular_batch_def Let_def assms(3-5) assms(9,10) sum.case
  using assms(1,2,6-8) by (simp only: if_False list.distinct if_True not_False_eq_True not_True_eq_False)
    simp

lemma word_less_succ: "x \<noteq> - 1 \<Longrightarrow> x < x + (1 :: u64)"
  using unatSuc [of x] by (simp add: word_less_nat_alt add.commute [of x] eq_neg_iff_add_eq_0)

lemma drift_early:
  "\<not> sb_timestamp b > l1_time r + rc_max_sequencer_drift cfg \<Longrightarrow> singular_drift cfg l1s r b = Inr ()"
  by (simp add: singular_drift_def)

lemma drift_new_epoch:
  "sb_transactions b = [] \<Longrightarrow> l1_number orig \<noteq> l1_number r \<Longrightarrow> singular_drift cfg (orig # rest) r b = Inr ()"
  by (simp add: singular_drift_def)

lemma drift_same_epoch:
  "sb_transactions b = [] \<Longrightarrow> \<not> sb_timestamp b \<ge> l1_time x \<Longrightarrow> singular_drift cfg (orig # x # xs) r b = Inr ()"
  by (simp add: singular_drift_def)

text \<open>A batch with the origin that was chosen is in the window, and keeps the drift.\<close>

lemma chosen_origin_allowed:
  assumes find: "find_l1_origin cfg (conf_depth depth head l1) parent = Inr r"
    and orig: "l1_by_hash l1 (bid_hash (l2_l1_origin parent)) = Inr orig" "l1_number orig \<noteq> - 1"
    and agree: "l1_agrees env l1"
    and later: "\<And>nx. l1_by_number l1 (l1_number orig + 1) = Inr nx \<Longrightarrow> rest \<noteq> [] \<and> hd rest = nx"
    and incl: "\<not> l1_number orig + rc_seq_window_size cfg < l1_number inclusion"
      "\<not> l1_number orig + 1 + rc_seq_window_size cfg < l1_number inclusion"
    and b: "sb_timestamp b = l2_time parent + rc_block_time cfg"
    and empty: "l2_time parent + rc_block_time cfg > l1_time r + rc_max_sequencer_drift cfg \<Longrightarrow> sb_transactions b = []"
  shows "\<not> l1_number r + rc_seq_window_size cfg < l1_number inclusion \<and>
    singular_origin (orig # rest) (l1_number r) = Inr r \<and> singular_drift cfg (orig # rest) r b = Inr ()"
proof (cases "r = orig")
  case True
  have "singular_drift cfg (orig # rest) r b = Inr ()"
  proof (cases "past_seq_drift cfg parent orig")
    case past: True
    have "l1_number orig = l1_number orig + 1" if "l1_by_number l1 (l1_number orig + 1) = Inr orig"
      using agree that unfolding l1_agrees_def by blast
    then have "l1_by_number l1 (l1_number orig + 1) \<noteq> Inr orig" by auto
    then obtain nx where nx: "l1_by_number l1 (l1_number orig + 1) = Inr nx"
        "\<not> l2_time parent + rc_block_time cfg \<ge> l1_time nx"
      using chosen_origin [OF find orig(1)] past True by auto
    obtain x xs where "rest = x # xs" using later [OF nx(1)] by (cases rest) auto
    then have "rest = nx # xs" using later [OF nx(1)] by simp
    moreover have "sb_transactions b = []" by (rule empty) (use past True in \<open>simp add: past_seq_drift_def\<close>)
    ultimately show ?thesis using nx(2) b drift_same_epoch by metis
  next
    case False
    then show ?thesis using b True by (intro drift_early) (simp add: past_seq_drift_def)
  qed
  then show ?thesis using True incl(1) by (simp add: singular_origin_def)
next
  case False
  then have nx: "l1_by_number l1 (l1_number orig + 1) = Inr r" using chosen_origin [OF find orig(1)] by simp
  then have n: "l1_number r = l1_number orig + 1" using agree by (simp add: l1_agrees_def)
  have gt: "l1_number orig + 1 > l1_number orig" by (rule word_less_succ [OF orig(2)])
  obtain xs where rest: "rest = r # xs" using later [OF nx] by (cases rest) auto
  have "singular_drift cfg (orig # rest) r b = Inr ()"
  proof (cases "sb_timestamp b > l1_time r + rc_max_sequencer_drift cfg")
    case True
    then have "sb_transactions b = []" using empty b by simp
    moreover have "l1_number orig \<noteq> l1_number r" using gt n by auto
    ultimately show ?thesis by (rule drift_new_epoch)
  qed (rule drift_early)
  moreover have "singular_origin (orig # rest) (l1_number r) = Inr r"
    using gt n unfolding singular_origin_def Let_def rest by (simp add: not_less)
  ultimately show ?thesis using incl(2) n by simp
qed

text \<open>C33. The sequencer's blocks survive derivation. Take the attributes that the sequencer builds the
  next block with, and the block an engine makes of them, with any transactions of the pool unless
  the attributes close it. The batcher turns that block into a batch with exactly the pool's
  transactions, and the rules for singular batches accept this batch, on the same parent and with
  the parent's L1 origin and the blocks after it as the window: as long as the L1 chain stays (the
  block after the parent's origin, when the L1 node had it, is the window's second), and the batch
  is included within the sequencing window.\<close>

theorem sequenced_block_accepted:
  assumes "sequencer_attributes env cfg (conf_depth depth head l1) parent = Inr attrs"
    and "nodes_ok env" "l1_agrees env l1" "decodes_deposits env decode"
    and "pool_ok decode pool" "at_no_tx_pool attrs \<Longrightarrow> pool = []"
    and "l1_by_hash l1 (bid_hash (l2_l1_origin parent)) = Inr orig"
    and "bid_number (l2_l1_origin parent) = l1_number orig" "l1_number orig \<noteq> - 1"
    and "\<And>nx. l1_by_number l1 (l1_number orig + 1) = Inr nx \<Longrightarrow> rest \<noteq> [] \<and> hd rest = nx"
    and "\<not> l1_number orig + rc_seq_window_size cfg < l1_number inclusion"
    and "\<not> l1_number orig + 1 + rc_seq_window_size cfg < l1_number inclusion"
  shows "\<exists>b info. block_to_singular_batch (ae_sig env) (built_block decode parent attrs pool h) = Inr (b, info) \<and>
    sb_transactions b = pool \<and> check_singular_batch cfg (orig # rest) parent b inclusion = BatchAccept"
proof -
  obtain r at where r: "find_l1_origin cfg (conf_depth depth head l1) parent = Inr r"
      "prepare_payload_attributes env cfg parent (l1_id r) = Inr at"
      "attrs = at\<lparr>at_no_tx_pool := (at_timestamp at > l1_time r + rc_max_sequencer_drift cfg)\<rparr>"
      "bid_hash (l2_l1_origin parent) = l1_parent_hash r \<or> bid_hash (l2_l1_origin parent) = l1_hash r"
    using assms(1) by (auto simp: sequencer_attributes_def split: sum.splits if_splits)
  have oh: "l1_hash orig = bid_hash (l2_l1_origin parent)" using assms(3,7) by (simp add: l1_agrees_def)
  obtain info dep tx deps where p0: "epoch_header env parent (l1_id r) info" "hd_hash info = bid_hash (l1_id r)"
      and p: "at_transactions at = tx # deps" "at_timestamp at = l2_time parent + rc_block_time cfg"
      "\<not> at_timestamp at < hd_time info" "ae_enc env dep = Some tx"
      "\<exists>li. unmarshal_l1_info (ae_sig env) (dt_data dep) = Inr li \<and> li_number li = hd_number info \<and>
        li_block_hash li = hd_hash info" "\<forall>t\<in>set deps. \<exists>dep. ae_enc env dep = Some t"
    by (rule prepared_attributes [OF r(2) assms(2)]) (rule that)
  have hash: "hd_hash info = l1_hash r" using p0(2) by (simp add: l1_id_def)
  have known: "(\<exists>h. l1_by_hash l1 h = Inr r) \<or> (\<exists>n. l1_by_number l1 n = Inr r)" using chosen_origin [OF r(1) assms(7)] assms(7) by auto
  have "(\<exists>rs. l1_fetch_receipts (ae_l1 env) (l1_hash r) = Inr (info, rs)) \<or>
      l1_info_by_hash (ae_l1 env) (l1_hash r) = Inr info"
    using p0(1) by (auto simp: epoch_header_def l1_id_def split: if_splits)
  then have info: "hd_number info = l1_number r" "hd_time info = l1_time r"
    using assms(3) known unfolding l1_agrees_def by blast+
  obtain li where li: "unmarshal_l1_info (ae_sig env) (dt_data dep) = Inr li" "li_number li = l1_number r"
      "li_block_hash li = l1_hash r" using hash p(5) info by auto
  define b where "b = \<lparr>sb_parent_hash = l2_hash parent, sb_epoch_num = l1_number r, sb_epoch_hash = l1_hash r,
      sb_timestamp = at_timestamp attrs, sb_transactions = pool\<rparr>"
  have "at_transactions attrs = tx # deps" using p(1) r(3) by simp
  from built_block_batch [OF this p(4,6) li(1) assms(4,5), of parent h]
  have blk: "block_to_singular_batch (ae_sig env) (built_block decode parent attrs pool h) = Inr (b, li)"
    by (simp add: b_def li)
  have ts: "at_timestamp attrs = l2_time parent + rc_block_time cfg" using p(2) r(3) by simp
  have pool: "l2_time parent + rc_block_time cfg > l1_time r + rc_max_sequencer_drift cfg \<Longrightarrow> pool = []"
    using assms(6) r(3) p(2) by simp
  have b: "sb_parent_hash b = l2_hash parent" "sb_epoch_num b = l1_number r" "sb_epoch_hash b = l1_hash r"
      "sb_transactions b = pool" "sb_timestamp b = l2_time parent + rc_block_time cfg"
    using ts by (simp_all add: b_def)
  have late: "\<not> sb_timestamp b < l1_time r" using p(2,3) info(2) b(5) by simp
  have win: "\<not> l1_number r + rc_seq_window_size cfg < l1_number inclusion \<and>
      singular_origin (orig # rest) (l1_number r) = Inr r \<and> singular_drift cfg (orig # rest) r b = Inr ()"
    using chosen_origin_allowed [OF r(1) assms(7,9,3,10-12) b(5)] pool b(4) by simp
  have "txs_ok (sb_transactions b)" using assms(5) b(4) by (simp add: pool_ok_def)
  from accepted_at [OF _ _ b(1,2,3) late _ this] win b(5)
  have "check_singular_batch cfg (orig # rest) parent b inclusion = BatchAccept" by simp
  then show ?thesis using blk b(4) by blast
qed

definition demo_l1_ref :: l1_ref where
  "demo_l1_ref = \<lparr>l1_hash = replicate 32 3, l1_number = 17, l1_parent_hash = replicate 32 1, l1_time = 1000\<rparr>"

definition demo_l1_node :: l1_env where
  "demo_l1_node = demo_l1_env\<lparr>l1_by_hash := (\<lambda>h. if h = l1_hash demo_l1_ref then Inr demo_l1_ref else Inl RpcNotFound)\<rparr>"

definition demo_decode :: "byte list \<Rightarrow> block_tx" where
  "demo_decode t = \<lparr>bt_type = hd t, bt_data = tl t, bt_raw = Some t\<rparr>"

theorem sequenced_block_accepted_witness:
  "\<exists>attrs b info. sequencer_attributes demo_attr_env demo_config (conf_depth 4 zero_l1_ref demo_l1_node) demo_parent = Inr attrs \<and>
     block_to_singular_batch (ae_sig demo_attr_env)
       (built_block demo_decode demo_parent attrs [[2, 1]] (replicate 32 6)) = Inr (b, info) \<and>
     sb_transactions b = [[2, 1]] \<and>
     check_singular_batch demo_config [demo_l1_ref] demo_parent b (demo_l1_ref\<lparr>l1_number := 18\<rparr>) = BatchAccept"
proof -
  obtain at where at: "prepare_payload_attributes demo_attr_env demo_config demo_parent (l1_id demo_l1_ref) = Inr at"
    using demo_prepared by (auto simp: l1_id_def demo_l1_ref_def)
  have number: "l1_by_number demo_l1_node n = Inl RpcNotFound" for n by (simp add: demo_l1_node_def demo_l1_env_def)
  have drift: "\<not> past_seq_drift demo_config demo_parent demo_l1_ref"
    by (simp add: past_seq_drift_def demo_parent_def demo_config_def demo_l1_ref_def)
  have "find_l1_origin demo_config (conf_depth 4 zero_l1_ref demo_l1_node) demo_parent = Inr demo_l1_ref"
    by (simp add: find_l1_origin_def demo_l1_node_def conf_depth_def demo_parent_def demo_l1_ref_def
        demo_l1_env_def) (use drift in \<open>simp add: demo_parent_def demo_l1_ref_def\<close>)
  moreover have "bid_hash (l2_l1_origin demo_parent) = l1_hash demo_l1_ref"
    by (simp add: demo_parent_def demo_l1_ref_def)
  moreover have "\<not> at_timestamp at > l1_time demo_l1_ref + rc_max_sequencer_drift demo_config"
  proof -
    have "at_timestamp at = 1012"
      using at by (auto simp: prepare_payload_attributes_def rbind_eq_Inr Let_def demo_parent_def demo_config_def
          split: sum.splits if_splits option.splits)
    then show ?thesis by (simp add: demo_l1_ref_def demo_config_def)
  qed
  ultimately obtain attrs where attrs: "sequencer_attributes demo_attr_env demo_config
      (conf_depth 4 zero_l1_ref demo_l1_node) demo_parent = Inr attrs" "\<not> at_no_tx_pool attrs"
    using at by (auto simp: sequencer_attributes_def)
  have agree: "l1_agrees demo_attr_env demo_l1_node"
    by (auto simp: l1_agrees_def number demo_l1_node_def demo_attr_env_def demo_l1_env_def demo_header_def
        demo_l1_ref_def split: if_splits)
  have dec: "decodes_deposits demo_attr_env demo_decode" "pool_ok demo_decode [[2, 1]]"
    by (auto simp: decodes_deposits_def demo_attr_env_def demo_decode_def pool_ok_def txs_ok_def
        deposit_tx_type_def)
  show ?thesis
    using sequenced_block_accepted [OF attrs(1) demo_nodes_ok(1) agree dec, of demo_l1_ref "[]"
        "demo_l1_ref\<lparr>l1_number := 18\<rparr>" "replicate 32 6"] attrs number
    by (simp add: demo_parent_def demo_l1_ref_def demo_l1_node_def demo_config_def)
qed

end
