(* ===== verification/Driver_Loop_Props.thy ===== *)
theory Driver_Loop_Props
  imports Driver_Loop
begin

text \<open>
  What the driver's loop guarantees: when it publishes a block, and that a stopped sequencer stays
  silent; and where it stalls.
\<close>

section \<open>Publishing\<close>

lemma engine_part_same [simp]:
  "dv_stopped (put_pipeline pp s) = dv_stopped s" "dv_stopped (put_queue q s) = dv_stopped s"
  "dv_stopped (request_step env now s) = dv_stopped s" "dv_stopped (plan_action env now s) = dv_stopped s"
  by (simp_all add: put_queue_def put_pipeline_def request_step_def plan_action_def)

lemma quiet_step:
  "step_round env now s = Some (out, x, s') \<Longrightarrow> out = [] \<and> dv_stopped s' = dv_stopped s"
proof -
  have "fst (after_step env now r t) = [] \<and> dv_stopped (snd (snd (after_step env now r t))) = dv_stopped t" for r t
    by (simp add: after_step_def split: sum.split stage_err.split)
  then show "step_round env now s = Some (out, x, s') \<Longrightarrow> out = [] \<and> dv_stopped s' = dv_stopped s"
    by (auto simp: step_round_def) (metis engine_part_same(1) fst_conv driver.select_convs(4) driver.surjective
        driver.update_convs(3,6,8) snd_conv)+
qed

lemma quiet_payload:
  "payload_round env now pl s = Some (out, x, s') \<Longrightarrow> out = [] \<and> dv_stopped s' = dv_stopped s"
  by (cases "add_unsafe_payload (Some pl) (dv_queue s)") (auto simp: payload_round_def split: sum.splits)

lemma sequencer_outputs:
  "sequencer_round env now s = (out, x, s') \<Longrightarrow> set out \<subseteq> range Published \<and> dv_stopped s' = dv_stopped s"
  by (auto simp: sequencer_round_def Let_def split: prod.splits sum.splits option.splits if_splits)

lemma gap_outputs: "set (check_for_gap env s) \<subseteq> {RangeRequested a b |a b. True}"
  by (auto simp: check_for_gap_def Let_def)

lemma other_events:
  assumes "handle_event env now ev s = Some (out, x, s')" "ev \<noteq> SequencerFires"
    and "\<nexists>h p. ev = StartSequencer h p" "\<nexists>p. ev = StopSequencer p"
  shows "(\<forall>pl. Published pl \<notin> set out) \<and> SequencerStarted \<notin> set out \<and> (\<forall>h. SequencerStoppedAt h \<notin> set out) \<and>
    dv_stopped s' = dv_stopped s"
proof (cases ev)
  case StepFires
  then show ?thesis using assms(1) quiet_step [of env now s out x s'] by (simp add: handle_event_def)
next
  case (UnsafePayload pl)
  then show ?thesis using assms(1) quiet_payload [of env now pl s out x s'] by (simp add: handle_event_def)
next
  case AltSyncFires
  then show ?thesis using assms(1) gap_outputs [of env s] by (auto simp: handle_event_def)
qed (use assms in \<open>auto simp: handle_event_def\<close>)

lemma start_outputs:
  "start_round env now h p s = (out, x, s') \<Longrightarrow>
   (\<forall>pl. Published pl \<notin> set out) \<and> (\<forall>h. SequencerStoppedAt h \<notin> set out) \<and>
   (if SequencerStarted \<in> set out
    then p \<and> h = l2_hash (eq_unsafe_head (dv_queue s)) \<and> dv_stopped s \<and> \<not> dv_stopped s' else s' = s)"
  by (auto simp: start_round_def split: if_splits)

lemma cancelled_idle:
  "cancel_building_block env q e = (q', e') \<Longrightarrow>
   eq_building_id q' = zero_payload_id \<and> eq_unsafe_head q' = eq_unsafe_head q"
  by (auto simp: cancel_building_block_def queue_cancel_payload_def reset_building_state_def
      split: if_splits sum.splits prod.splits)

lemma stop_outputs:
  assumes "stop_round env p s = (out, x, s')"
  shows "(\<forall>pl. Published pl \<notin> set out) \<and> SequencerStarted \<notin> set out \<and>
    (if \<exists>h. SequencerStoppedAt h \<in> set out
     then dv_stopped s' \<and> eq_building_id (dv_queue s') = zero_payload_id \<and>
       out = [SequencerStoppedAt (l2_hash (eq_unsafe_head (dv_queue s')))] \<and>
       eq_unsafe_head (dv_queue s') = eq_unsafe_head (dv_queue s)
     else s' = s)"
proof -
  obtain q e where q: "cancel_building_block (sequencer_at env s) (dv_queue s) (dv_engine s) = (q, e)" by fastforce
  show ?thesis
    using assms q cancelled_idle [OF q]
    by (auto simp: stop_round_def put_queue_def put_pipeline_def dv_queue_def dv_pipeline_def split: if_splits)
qed

lemma published_by_sequencer:
  assumes "handle_event env now ev s = Some (out, x, s')" "Published pl \<in> set out"
  shows "ev = SequencerFires \<and> sequencer_round env now s = (out, x, s')"
proof -
  have "(\<exists>h p. ev = StartSequencer h p) \<or> (\<exists>p. ev = StopSequencer p) \<or> ev = SequencerFires"
    using other_events [OF assms(1)] assms(2) by auto
  then show ?thesis
    using assms start_outputs [of env now _ _ s out x s'] stop_outputs [of env _ s out x s']
    by (auto simp: handle_event_def)
qed

lemma adopt_built_head: "eq_unsafe_head (adopt_built ref upd q) = ref"
  by (simp add: adopt_built_def Let_def reset_building_state_def post_process_safe_l2_def)

lemma adopt_built_idle: "eq_building_id (adopt_built ref upd q) = zero_payload_id"
  by (simp add: adopt_built_def Let_def reset_building_state_def post_process_safe_l2_def)

lemma confirmed_head:
  "queue_confirm_payload env q e = (Inr pl, q', e') \<Longrightarrow>
   payload_to_block_ref (ee_l2 env) (rc_genesis (ee_cfg env)) pl = Inr (eq_unsafe_head q') \<and>
   eq_building_id q \<noteq> zero_payload_id \<and> eq_building_id q' = zero_payload_id"
  by (auto simp: queue_confirm_payload_def Let_def adopt_built_head adopt_built_idle
      split: if_splits sum.splits prod.splits)

lemma published_head:
  assumes "sequencer_round env now s = (out, x, s')" "Published pl \<in> set out"
  shows "x = Running \<and> dr_network env \<and> \<not> eq_building_safe (dv_queue s) \<and>
    eq_building_id (dv_queue s) \<noteq> zero_payload_id \<and>
    payload_to_block_ref (ee_l2 (dr_engine env)) (rc_genesis (ee_cfg (dr_engine env))) pl =
      Inr (eq_unsafe_head (dv_queue s')) \<and> eq_building_id (dv_queue s') = zero_payload_id"
proof -
  obtain r sq e where r: "run_next_action (sequencer_at env s) now (dv_seq s) (dv_engine s) = (r, sq, e)"
    by (metis prod.exhaust)
  have pl: "r = Inr (Some pl)" and x: "x = Running" "dr_network env"
    and s': "s' = plan_action env now (s\<lparr>dv_seq := sq, dv_engine := e\<rparr>)"
    using assms by (auto simp: sequencer_round_def r Let_def split: sum.splits option.splits if_splits)
  obtain q1 where q1: "complete_building_block (sequencer_at env s) (ss_engine (dv_seq s)) (dv_engine s) = (Inr pl, q1, e)"
      "sq = put_engine q1 (dv_seq s)" "\<not> eq_building_safe (ss_engine (dv_seq s))"
    using r pl by (auto simp: run_next_action_def Let_def split: if_splits sum.splits prod.splits)
  then have "queue_confirm_payload (engine_at env s) (ss_engine (dv_seq s)) (dv_engine s) = (Inr pl, q1, e)"
    by (auto simp: complete_building_block_def sequencer_at_def split: sum.splits prod.splits insertion_err.splits)
  from confirmed_head [OF this] show ?thesis
    using q1 x by (simp add: s' plan_action_def dv_queue_def dv_pipeline_def ss_engine_def put_engine_def
        engine_at_def)
qed

lemma prepared_timer:
  "dv_timer (prepare_round env now s) \<noteq> None \<Longrightarrow> sequencing env s \<and> \<not> lag_exceeded env s"
  by (auto simp: prepare_round_def split: if_splits)

lemma prepared_same [simp]:
  "dv_queue (prepare_round env now s) = dv_queue s" "dv_stopped (prepare_round env now s) = dv_stopped s"
  "dv_seq (prepare_round env now s) = dv_seq s" "dv_l1 (prepare_round env now s) = dv_l1 s"
  by (simp_all add: prepare_round_def plan_action_def dv_queue_def dv_pipeline_def)

lemma round_publishes:
  assumes "driver_round env ev out s s'" "Published pl \<in> set out"
  shows "ev = SequencerFires \<and> sequencing env s \<and> \<not> lag_exceeded env s \<and>
    \<not> eq_building_safe (dv_queue s) \<and>
    payload_to_block_ref (ee_l2 (dr_engine env)) (rc_genesis (ee_cfg (dr_engine env))) pl =
      Inr (eq_unsafe_head (dv_queue s'))"
  using assms
proof cases
  case (round now)
  note p = published_by_sequencer [OF round(2) assms(2)]
  have "dv_timer (prepare_round env now s) \<noteq> None" using round(1) p by (auto simp: can_fire_def split: option.splits)
  then show ?thesis
    using p prepared_timer published_head [OF conjunct2 [OF p] assms(2)] by auto
qed

section \<open>A stopped sequencer\<close>

lemma event_stopped:
  assumes "handle_event env now ev s = Some (out, x, s')" "dv_stopped s" "SequencerStarted \<notin> set out"
  shows "dv_stopped s'"
proof (cases ev)
  case SequencerFires
  then show ?thesis
    using assms sequencer_outputs [of env now s out x s'] by (simp add: handle_event_def)
next
  case (StartSequencer h p)
  then show ?thesis
    using assms start_outputs [of env now h p s out x s'] by (simp add: handle_event_def)
next
  case (StopSequencer p)
  then show ?thesis
    using assms stop_outputs [of env p s out x s'] by (simp add: handle_event_def split: if_splits)
qed (use other_events [OF assms(1)] assms(2) in simp_all)

lemma stopped_round:
  assumes "driver_round env ev out s s'" "dv_stopped s" "SequencerStarted \<notin> set out"
  shows "dv_stopped s' \<and> (\<forall>pl. Published pl \<notin> set out)"
proof -
  have "\<forall>pl. Published pl \<notin> set out"
    using round_publishes [OF assms(1)] assms(2) by (auto simp: sequencing_def)
  moreover have "dv_stopped s'" using assms
  proof cases
    case (round now)
    then show ?thesis using event_stopped [OF round(2)] assms(2,3) by simp
  qed
  ultimately show ?thesis by simp
qed

lemma stopped_run:
  "driver_run env evs outs s s' \<Longrightarrow> dv_stopped s \<Longrightarrow> SequencerStarted \<notin> set outs \<Longrightarrow>
   dv_stopped s' \<and> (\<forall>pl. Published pl \<notin> set outs)"
proof (induction rule: driver_run.induct)
  case (run_more ev out s s1 evs outs s2)
  then show ?case using stopped_round [OF run_more(1)] by auto
qed simp

lemma stop_reply:
  assumes "driver_round env ev out s s'" "SequencerStoppedAt h \<in> set out"
  shows "dv_stopped s' \<and> eq_building_id (dv_queue s') = zero_payload_id \<and>
    h = l2_hash (eq_unsafe_head (dv_queue s')) \<and> eq_unsafe_head (dv_queue s') = eq_unsafe_head (dv_queue s)"
  using assms(1)
proof cases
  case (round now)
  have "(\<exists>h p. ev = StartSequencer h p) \<or> (\<exists>p. ev = StopSequencer p) \<or> ev = SequencerFires"
    using other_events [OF round(2)] assms(2) by auto
  then obtain p where p: "stop_round env p (prepare_round env now s) = (out, Running, s')"
    using round(2) assms(2) start_outputs [of env now _ _ "prepare_round env now s" out Running s']
      sequencer_outputs [of env now "prepare_round env now s" out Running s']
    by (auto simp: handle_event_def)
  then show ?thesis using stop_outputs [OF p] assms(2) by (auto split: if_splits)
qed

lemma start_reply:
  assumes "driver_round env ev out s s'" "SequencerStarted \<in> set out"
  shows "ev = StartSequencer (l2_hash (eq_unsafe_head (dv_queue s))) True \<and> dv_stopped s \<and> \<not> dv_stopped s'"
  using assms(1)
proof cases
  case (round now)
  note e = round(2)
  show ?thesis
  proof (cases ev)
    case SequencerFires
    then show ?thesis
      using e assms(2) sequencer_outputs [of env now "prepare_round env now s" out Running s']
      by (auto simp: handle_event_def)
  next
    case (StartSequencer h p)
    then show ?thesis
      using e assms(2) start_outputs [of env now h p "prepare_round env now s" out Running s']
      by (simp add: handle_event_def)
  next
    case (StopSequencer p)
    then show ?thesis
      using e assms(2) stop_outputs [of env p "prepare_round env now s" out Running s']
      by (simp add: handle_event_def)
  qed (use other_events [OF e] assms(2) in simp_all)
qed

end
