(* ===== verification/Driver_Runs.thy ===== *)
theory Driver_Runs
  imports Driver_Loop_Props Derive_Engine_Props Derive_Span_Roundtrip
begin

text \<open>
  Stopping the sequencer, and where the driver does not do what its comments say.
\<close>

section \<open>A stopped sequencer stays silent\<close>

text \<open>C34. A stopped sequencer is silent. Once a stop request has been answered with a hash, this is
  the hash of the unsafe head, the stop itself has not moved the head, and the block that was being
  built is given up. However the loop goes on, whatever blocks, L1 signals and timers it handles, it publishes no block
  until a start request is answered; and the answer to such a request says that it
  named the head at that time.\<close>

theorem stopped_sequencer_silent:
  assumes "driver_round env ev out s0 s1" "SequencerStoppedAt h \<in> set out"
    and "driver_run env evs outs s1 s2" "SequencerStarted \<notin> set outs"
    and "driver_round env ev' out' s2 s3"
  shows "h = l2_hash (eq_unsafe_head (dv_queue s1)) \<and>
    eq_unsafe_head (dv_queue s1) = eq_unsafe_head (dv_queue s0) \<and>
    eq_building_id (dv_queue s1) = zero_payload_id \<and>
    dv_stopped s2 \<and> (\<forall>pl. Published pl \<notin> set outs) \<and> (\<forall>pl. Published pl \<notin> set out') \<and>
    (if SequencerStarted \<in> set out'
     then ev' = StartSequencer (l2_hash (eq_unsafe_head (dv_queue s2))) True \<and> \<not> dv_stopped s3
     else dv_stopped s3)"
proof -
  have s2: "dv_stopped s2" "\<forall>pl. Published pl \<notin> set outs"
    using stopped_run [OF assms(3) _ assms(4)] stop_reply [OF assms(1,2)] by auto
  have "\<not> sequencing env s2" using s2(1) by (simp add: sequencing_def)
  then have "\<forall>pl. Published pl \<notin> set out'" using round_publishes [OF assms(5)] by blast
  then show ?thesis
    using s2 stop_reply [OF assms(1,2)] start_reply [OF assms(5)] stopped_round [OF assms(5) s2(1)]
    by auto
qed

definition demo_driver_env :: "unit driver_env" where
  "demo_driver_env =
     \<lparr>dr_config = \<lparr>dc_verifier_depth = 0, dc_sequencer_depth = 4, dc_sequencer_enabled = True,
        dc_max_safe_lag = 0\<rparr>,
      dr_engine = demo_engine_env,
      dr_pull = \<lparr>pe_cfg = demo_config, pe_l1 = demo_l1_env, pe_l2 = demo_l2_env,
        pe_chan = \<lparr>ce_unzip = (\<lambda>_. None), ce_unrlp = (\<lambda>_. None), ce_tx = demo_tx_env\<rparr>,
        pe_attr = demo_attr_env\<rparr>,
      dr_attr = demo_attr_env, dr_l1 = demo_l1_env, dr_keccak = (\<lambda>_. replicate 32 0),
      dr_backoff = (\<lambda>n. int n * 1000000000), dr_network = True\<rparr>"

text \<open>A driver that builds a block on the head.\<close>

definition demo_driver :: "unit driver" where
  "demo_driver =
     \<lparr>dv_l1 = new_l1_state\<lparr>ls_head := demo_l1_block 1\<rparr>,
      dv_seq = \<lparr>ss_pipeline = \<lparr>pp_resetting = 8,
          pp_stages = \<lparr>ps_retrieval = \<lparr>rt_prev = \<lparr>tv_block = demo_l1_block 1, tv_done = False,
              tv_sys_cfg = gen_system_config (rc_genesis demo_config)\<rparr>, rt_datas = None\<rparr>,
            ps_frames = [], ps_bank = \<lparr>cb_channels = [], cb_queue = []\<rparr>, ps_reader = None,
            ps_batches = \<lparr>bq_origin = demo_l1_block 1, bq_l1_blocks = [], bq_batches = [], bq_next_span = []\<rparr>,
            ps_attributes = \<lparr>aq_batch = None, aq_last_in_span = False\<rparr>\<rparr>,
          pp_engine = demo_engine_queue
            \<lparr>eq_building_id := replicate 8 1, eq_building_onto := demo_block1\<rparr>\<rparr>,
        ss_next_action = 0\<rparr>,
      dv_engine = (), dv_stopped = False, dv_timer = None, dv_step_req = True, dv_delayed = None,
      dv_attempts = 0\<rparr>"

lemma demo_stop:
  "driver_round demo_driver_env (StopSequencer True) [SequencerStoppedAt (replicate 32 4)] demo_driver
     ((put_queue (reset_building_state (dv_queue demo_driver)) demo_driver)\<lparr>dv_stopped := True\<rparr>)"
proof -
  have "prepare_round demo_driver_env 0 demo_driver = demo_driver"
    by (simp add: prepare_round_def sequencing_def lag_exceeded_def demo_driver_env_def demo_driver_def
        new_l1_state_def demo_l1_block_def zero_l1_ref_def pipeline_engine_ready_def dv_queue_def dv_pipeline_def
        demo_engine_queue_def)
  then show ?thesis
    by (intro driver_round.round [where now = 0])
       (simp_all add: can_fire_def handle_event_def stop_round_def cancel_building_block_def
        queue_cancel_payload_def demo_driver_env_def demo_driver_def dv_queue_def dv_pipeline_def
        put_queue_def put_pipeline_def sequencer_at_def engine_at_def demo_engine_env_def demo_engine_def
        zero_payload_id_def demo_engine_queue_def reset_building_state_def demo_block1_def)
qed

lemma added_same_head:
  assumes "add_unsafe_payload (Some pl) q = Some (Inr q')"
  shows "eq_unsafe_head q' = eq_unsafe_head q"
proof -
  obtain r where "payloads_push (\<lambda>x. payload_mem_size (Some x)) (Some pl) (eq_unsafe_payloads q) = Some r"
    using assms by (auto simp: add_unsafe_payload_def)
  then show ?thesis using assms by (cases r) (auto simp: add_unsafe_payload_def split: if_splits)
qed

text \<open>Rounds of a driver that is stopped and has no timer.\<close>

lemma stopped_prepare: "dv_stopped s \<Longrightarrow> dv_timer s = None \<Longrightarrow> prepare_round env now s = s"
  by (simp add: prepare_round_def sequencing_def)

lemma stopped_payload:
  assumes "dv_stopped s" "dv_timer s = None" "add_unsafe_payload (Some pl) (dv_queue s) = Some (Inr q)"
  shows "driver_round env (UnsafePayload pl) [] s (request_step env now (put_queue q s))"
  using assms
  by (intro driver_round.round [where now = now])
     (simp_all add: stopped_prepare can_fire_def handle_event_def payload_round_def)

lemma stopped_start:
  assumes "dv_stopped s" "dv_timer s = None" "dc_sequencer_enabled (dr_config env)"
  shows "driver_round env (StartSequencer (l2_hash (eq_unsafe_head (dv_queue s))) True) [SequencerStarted] s
    (plan_action env now (s\<lparr>dv_stopped := False\<rparr>))"
  using assms
  by (intro driver_round.round [where now = now])
     (simp_all add: stopped_prepare can_fire_def handle_event_def start_round_def)

theorem stopped_sequencer_silent_witness:
  "\<exists>s1 s2 s3. driver_round demo_driver_env (StopSequencer True) [SequencerStoppedAt (replicate 32 4)] demo_driver s1 \<and>
     driver_run demo_driver_env [UnsafePayload (demo_payload 3)] [] s1 s2 \<and>
     driver_round demo_driver_env (StartSequencer (replicate 32 4) True) [SequencerStarted] s2 s3 \<and>
     eq_building_id (dv_queue demo_driver) \<noteq> zero_payload_id \<and>
     eq_building_id (dv_queue s1) = zero_payload_id \<and> dv_stopped s2 \<and> \<not> dv_stopped s3"
proof -
  define s1 where "s1 = (put_queue (reset_building_state (dv_queue demo_driver)) demo_driver)\<lparr>dv_stopped := True\<rparr>"
  have q: "eq_unsafe_payloads (dv_queue s1) = eq_unsafe_payloads new_engine_queue"
    "l2_hash (eq_unsafe_head (dv_queue s1)) = replicate 32 4" "dv_stopped s1" "dv_timer s1 = None"
    by (simp_all add: s1_def put_queue_def put_pipeline_def dv_queue_def dv_pipeline_def reset_building_state_def
        demo_driver_def demo_engine_queue_def demo_block1_def)
  then obtain q' where q': "add_unsafe_payload (Some (demo_payload 3)) (dv_queue s1) = Some (Inr q')"
    using add_unsafe_payload_ok [of "dv_queue s1" "demo_payload 3"] new_engine_queue_inv
    by (auto simp: queue_inv_def)
  define s2 where "s2 = request_step demo_driver_env 0 (put_queue q' s1)"
  have "eq_unsafe_head q' = eq_unsafe_head (dv_queue s1)" by (rule added_same_head [OF q'])
  then have s2: "l2_hash (eq_unsafe_head (dv_queue s2)) = replicate 32 4" "dv_stopped s2" "dv_timer s2 = None"
    using q by (simp_all add: s2_def request_step_def put_queue_def put_pipeline_def dv_queue_def dv_pipeline_def)
  have r: "driver_run demo_driver_env [UnsafePayload (demo_payload 3)] ([] @ []) s1 s2"
    by (rule run_more [OF _ run_none]) (use stopped_payload [OF q(3,4) q'] in \<open>simp add: s2_def\<close>)
  obtain s3 where s3: "driver_round demo_driver_env (StartSequencer (replicate 32 4) True) [SequencerStarted] s2 s3"
    using stopped_start [OF s2(2,3), of demo_driver_env 0] s2(1) by (auto simp: demo_driver_env_def)
  note p = stopped_sequencer_silent [OF demo_stop [folded s1_def] _ r _ s3, of "replicate 32 4"]
  have "eq_building_id (dv_queue demo_driver) \<noteq> zero_payload_id"
    by (simp add: demo_driver_def dv_queue_def dv_pipeline_def zero_payload_id_def)
  then show ?thesis using p r s3 demo_stop [folded s1_def] by auto
qed

section \<open>The buffers of the node\<close>

text \<open>Every operation of the engine queue keeps its invariant, whatever the environment is.\<close>

lemmas queue_ops_inv = engine_op_inv [OF op_start] engine_op_inv [OF op_confirm] engine_op_inv [OF op_cancel]

lemma ss_engine_simps [simp]:
  "ss_engine (put_engine q s) = q" "ss_engine (hold_off t s) = ss_engine s"
  "ss_engine (reset_engine s) = ss_engine s"
  by (simp_all add: ss_engine_def put_engine_def hold_off_def reset_engine_def pipeline_reset_def)

lemma start_building_inv:
  "start_building_block env q e = (r, q', e') \<Longrightarrow> queue_inv q \<Longrightarrow> queue_inv q'"
  by (auto simp: start_building_block_def split: sum.splits prod.splits intro: queue_ops_inv(1))

lemma complete_building_inv:
  "complete_building_block env q e = (r, q', e') \<Longrightarrow> queue_inv q \<Longrightarrow> queue_inv q'"
  by (auto simp: complete_building_block_def split: sum.splits prod.splits insertion_err.splits
      intro: queue_ops_inv(2))

lemma cancel_building_inv:
  "cancel_building_block env q e = (q', e') \<Longrightarrow> queue_inv q \<Longrightarrow> queue_inv q'"
  by (cases "queue_cancel_payload (sq_engine env) True q e")
     (auto simp: cancel_building_block_def intro: queue_ops_inv(3))

lemma after_start_engine: "ss_engine (after_start_error cfg now err s) = ss_engine s"
  by (simp add: after_start_error_def)

lemma after_seal_inv:
  "after_seal_error env now err s e = (s', e') \<Longrightarrow> queue_inv (ss_engine s) \<Longrightarrow> queue_inv (ss_engine s')"
  by (auto simp: after_seal_error_def split: if_splits prod.splits intro: cancel_building_inv)

lemma next_action_inv:
  assumes "run_next_action env now s e = (r, s', e')" "queue_inv (ss_engine s)"
  shows "queue_inv (ss_engine s')"
proof (cases "eq_building_id (ss_engine s) \<noteq> zero_payload_id")
  case True
  obtain c q1 e1 where c: "complete_building_block env (ss_engine s) e = (c, q1, e1)" by (metis prod.exhaust)
  have "queue_inv q1" using complete_building_inv [OF c] assms(2) .
  then show ?thesis using assms True c after_seal_inv [of env now _ "put_engine q1 s" e1 s' e']
    by (auto simp: run_next_action_def Let_def split: if_splits sum.splits)
next
  case False
  obtain c q1 e1 where c: "start_building_block env (ss_engine s) e = (c, q1, e1)" by (metis prod.exhaust)
  have "queue_inv q1" using start_building_inv [OF c] assms(2) .
  then show ?thesis using assms False c
    by (auto simp: run_next_action_def Let_def after_start_engine split: if_splits sum.splits)
qed

lemma pipeline_step_inv:
  assumes "pipeline_step K penv env pp e = Some (r, pp', e')" "queue_inv (pp_engine pp)"
  shows "queue_inv (pp_engine pp')"
proof (cases "pp_resetting pp < stage_count")
  case True
  then show ?thesis
    using assms engine_op_inv [OF op_reset]
    by (auto simp: pipeline_step_def reset_step_def split: if_splits prod.splits)
next
  case False
  obtain r1 q1 ps1 e1 where s: "engine_step env (stages_provider penv) (pp_engine pp) (pp_stages pp) e = (r1, q1, ps1, e1)"
    by (metis prod.exhaust)
  have "queue_inv q1" using engine_op_inv [OF op_step [OF s]] assms(2) .
  then show ?thesis using assms(1) False s
    by (auto simp: pipeline_step_def split: sum.splits stage_err.splits prod.splits)
qed

lemma queue_of_updates [simp]:
  "dv_queue (put_queue q s) = q" "dv_queue (put_pipeline pp s) = pp_engine pp"
  "dv_queue (request_step env now s) = dv_queue s" "dv_queue (plan_action env now s) = dv_queue s"
  "dv_queue (s\<lparr>dv_stopped := b\<rparr>) = dv_queue s" "dv_queue (s\<lparr>dv_engine := e\<rparr>) = dv_queue s"
  "dv_queue (s\<lparr>dv_l1 := l\<rparr>) = dv_queue s" "dv_queue (s\<lparr>dv_attempts := n\<rparr>) = dv_queue s"
  "dv_queue (s\<lparr>dv_step_req := b\<rparr>) = dv_queue s" "dv_queue (s\<lparr>dv_delayed := d\<rparr>) = dv_queue s"
  "dv_queue (s\<lparr>dv_seq := sq\<rparr>) = ss_engine sq" "pp_engine (pipeline_reset (dv_pipeline s)) = dv_queue s"
  "pp_engine (dv_pipeline s) = dv_queue s" "ss_engine (dv_seq s) = dv_queue s"
  by (simp_all add: dv_queue_def put_queue_def put_pipeline_def dv_pipeline_def request_step_def plan_action_def
      ss_engine_def pipeline_reset_def)

lemma step_round_inv:
  assumes "step_round env now s = Some (out, x, s')" "queue_inv (dv_queue s)"
  shows "queue_inv (dv_queue s')"
proof -
  obtain r pp e where p: "pipeline_step (dr_keccak env) (pull_at env s) (engine_at env s) (dv_pipeline s) (dv_engine s) =
      Some (r, pp, e)"
    using assms(1) by (auto simp: step_round_def)
  have "dv_queue (snd (snd (after_step env now r t))) = dv_queue t" for r t
    by (simp add: after_step_def split: sum.split stage_err.split)
  then have "dv_queue s' = pp_engine pp"
    using assms(1) p by (auto simp: step_round_def) (metis queue_of_updates(2,6,8,9) snd_conv)
  then show ?thesis using pipeline_step_inv [OF p] assms(2) by simp
qed

lemma sequencer_round_inv:
  assumes "sequencer_round env now s = (out, x, s')" "queue_inv (dv_queue s)"
  shows "queue_inv (dv_queue s')"
proof -
  obtain r sq e where r: "run_next_action (sequencer_at env s) now (dv_seq s) (dv_engine s) = (r, sq, e)"
    by (metis prod.exhaust)
  have "dv_queue s' = ss_engine sq" using assms(1) r
    by (auto simp: sequencer_round_def Let_def split: sum.splits)
  then show ?thesis using next_action_inv [OF r] assms(2) by simp
qed

lemma event_inv:
  assumes "handle_event env now ev s = Some (out, x, s')" "queue_inv (dv_queue s)"
  shows "queue_inv (dv_queue s')"
proof (cases ev)
  case SequencerFires
  then show ?thesis using assms sequencer_round_inv by (simp add: handle_event_def)
next
  case (UnsafePayload pl)
  obtain q where "add_unsafe_payload (Some pl) (dv_queue s) = Some (Inr q)" "queue_inv q"
    using add_unsafe_payload_ok [of "dv_queue s" pl] assms(2) engine_op_inv [OF op_add]
    by (auto simp: queue_inv_def)
  then show ?thesis using assms UnsafePayload by (auto simp: handle_event_def payload_round_def)
next
  case (NewL1Finalized r)
  then show ?thesis using assms engine_op_inv [OF op_finalize] by (auto simp: handle_event_def)
next
  case StepFires
  then show ?thesis using assms step_round_inv by (simp add: handle_event_def)
next
  case (StopSequencer p)
  then show ?thesis using assms cancel_building_inv
    by (auto simp: handle_event_def stop_round_def split: if_splits prod.splits)
qed (use assms in \<open>auto simp: handle_event_def start_round_def split: if_splits\<close>)

definition new_driver :: "'e driver \<Rightarrow> bool" where
  "new_driver s \<longleftrightarrow> dv_queue s = new_engine_queue"

interpretation driver_machine:
  machine new_driver "\<lambda>s s'. \<exists>ev out. driver_round env ev out s s'" "\<lambda>s. queue_inv (dv_queue s)" for env
  by unfold_locales
     (auto simp: new_driver_def new_engine_queue_inv driver_round.simps intro: event_inv)

lemma run_reach:
  "driver_run env evs outs s s' \<Longrightarrow> reach new_driver (\<lambda>s s'. \<exists>ev out. driver_round env ev out s s') s \<Longrightarrow>
   reach new_driver (\<lambda>s s'. \<exists>ev out. driver_round env ev out s s') s'"
proof (induction rule: driver_run.induct)
  case (run_more ev out s s1 evs outs s2)
  then show ?case using reach_step [OF run_more(4)] by blast
qed

lemma payload_taken:
  assumes "queue_inv (dv_queue s)"
  shows "\<exists>s'. handle_event env now (UnsafePayload pl) s = Some ([], Running, s')"
proof -
  obtain q where "add_unsafe_payload (Some pl) (dv_queue s) = Some (Inr q)"
    using add_unsafe_payload_ok [of "dv_queue s" pl] assms by (auto simp: queue_inv_def)
  then show ?thesis by (simp add: handle_event_def payload_round_def)
qed

text \<open>C35. The node's buffers stay bounded. From a new engine queue on, whatever the driver's loop does,
  with the sequencer, the derivation and the network changing the queue in any order of events: it
  relates at most 129 L1 blocks to safe heads, in strictly increasing L1 order; the payloads that are
  buffered take at most 500 MiB as they are measured, none of them twice; and the loop takes any
  further payload without panic and without an endless eviction.\<close>

theorem driver_buffers_bounded:
  assumes "new_driver s0" "driver_run env evs outs s0 s"
  shows "length (eq_finality_data (dv_queue s)) \<le> 129 \<and>
    sorted_wrt (<) (map (\<lambda>fd. unat (bid_number (fd_l1_block fd))) (eq_finality_data (dv_queue s))) \<and>
    heap_mem (mset (pq_heap (eq_unsafe_payloads (dv_queue s)))) \<le> 500 * 1024 * 1024 \<and>
    distinct (map (\<lambda>x. pl_block_hash (fst x)) (pq_heap (eq_unsafe_payloads (dv_queue s)))) \<and>
    (\<exists>s'. handle_event env now (UnsafePayload pl) s = Some ([], Running, s'))"
proof -
  have "queue_inv (dv_queue s)"
    using driver_machine.reach_inv [OF run_reach [OF assms(2) reach_init]] assms(1) by blast
  then show ?thesis using queue_inv_limits payload_taken by blast
qed

theorem driver_buffers_bounded_witness:
  "\<exists>s. driver_run demo_driver_env [UnsafePayload (demo_payload 3)] [] (put_queue new_engine_queue (demo_driver\<lparr>dv_stopped := True\<rparr>)) s \<and>
     length (eq_finality_data (dv_queue s)) \<le> 129"
proof -
  define s0 where "s0 = put_queue new_engine_queue (demo_driver\<lparr>dv_stopped := True\<rparr>)"
  have s0: "dv_queue s0 = new_engine_queue" "dv_stopped s0" "dv_timer s0 = None"
    by (simp_all add: s0_def) (simp add: put_queue_def put_pipeline_def demo_driver_def)
  obtain q where q: "add_unsafe_payload (Some (demo_payload 3)) (dv_queue s0) = Some (Inr q)"
    using add_unsafe_payload_ok [of "dv_queue s0" "demo_payload 3"] new_engine_queue_inv s0(1)
    by (auto simp: queue_inv_def)
  have r: "driver_run demo_driver_env [UnsafePayload (demo_payload 3)] ([] @ []) s0
      (request_step demo_driver_env 0 (put_queue q s0))"
    by (rule run_more [OF stopped_payload [OF s0(2,3) q] run_none])
  have "new_driver s0" using s0(1) by (simp add: new_driver_def)
  from driver_buffers_bounded [OF this r] show ?thesis using r unfolding s0_def by auto
qed

section \<open>Where the driver stalls\<close>

text \<open>A reset, asked for by the derivation or from outside, is not followed by a request for a step: the
  pipeline waits for the next signal.\<close>

lemma reset_requests_no_step:
  assumes "pipeline_step (dr_keccak env) (pull_at env s) (engine_at env s) (dv_pipeline s) (dv_engine s) =
      Some (Inl ResetError, pp, e)" "step_round env now s = Some (out, x, s')"
  shows "\<not> dv_step_req s' \<and> dv_delayed s' = dv_delayed s \<and> dv_attempts s' = dv_attempts s + 1"
  using assms by (auto simp: step_round_def after_step_def put_pipeline_def)

lemma forced_reset_requests_no_step:
  "handle_event env now ForceReset s = Some (out, x, s') \<Longrightarrow> dv_step_req s' = dv_step_req s \<and> dv_delayed s' = dv_delayed s"
  by (auto simp: handle_event_def put_pipeline_def)

text \<open>Until a signal comes that asks for a step, no step is taken: the timers of the sequencer and of
  the gap check, and status requests, ask for none.\<close>

lemma sequencer_requests_no_step:
  "sequencer_round env now s = (out, x, s') \<Longrightarrow> dv_step_req s' = dv_step_req s \<and> dv_delayed s' = dv_delayed s"
  by (cases "run_next_action (sequencer_at env s) now (dv_seq s) (dv_engine s)")
     (auto simp: sequencer_round_def plan_action_def Let_def split: sum.splits)

lemma idle_stays_idle:
  assumes "driver_round env ev out s s'" "\<not> dv_step_req s" "dv_delayed s = None"
    and ev: "ev \<in> {SequencerFires, AltSyncFires, StateRequest, ForceReset, QuerySequencer}"
  shows "\<not> dv_step_req s' \<and> dv_delayed s' = None"
  using assms(1)
proof cases
  case (round now)
  define s1 where "s1 = prepare_round env now s"
  have p: "\<not> dv_step_req s1" "dv_delayed s1 = None"
    using assms(2,3) by (simp_all add: s1_def prepare_round_def plan_action_def)
  have h: "handle_event env now ev s1 = Some (out, Running, s')" using round(2) by (simp only: s1_def)
  from ev consider "ev = SequencerFires" | "ev = ForceReset" | "ev \<in> {AltSyncFires, StateRequest, QuerySequencer}"
    by blast
  then show ?thesis
  proof cases
    case 1
    then show ?thesis using h p sequencer_requests_no_step [of env now s1 out Running s']
      by (simp add: handle_event_def)
  next
    case 2
    then show ?thesis using forced_reset_requests_no_step [of env now s1] h p by simp
  next
    case 3
    then show ?thesis using h p by (auto simp: handle_event_def)
  qed
qed

text \<open>An error of the engine while a block is sealed is never classified as temporary: the job is always given
  up, also when the engine only failed to answer.\<close>

lemma sealing_never_temporary:
  "complete_building_block env q e = (Inl err, q', e') \<Longrightarrow> err \<noteq> SeqTemporary"
proof (cases "queue_confirm_payload (sq_engine env) q e")
  case (fields r q1 e1)
  then show "complete_building_block env q e = (Inl err, q', e') \<Longrightarrow> err \<noteq> SeqTemporary"
  proof (cases r)
    case (Inl x)
    then show "complete_building_block env q e = (Inl err, q', e') \<Longrightarrow> err \<noteq> SeqTemporary"
      using fields by (cases x) (auto simp: complete_building_block_def split: if_splits)
  qed (simp add: complete_building_block_def)
qed

lemma seal_error_cancels:
  assumes "after_seal_error env now err s e = (s', e')" "err \<noteq> SeqTemporary"
  shows "eq_building_id (ss_engine s') = zero_payload_id"
proof -
  obtain q e1 where c: "cancel_building_block env (ss_engine s) e = (q, e1)" by fastforce
  then have "ss_engine s' = q" using assms by (auto simp: after_seal_error_def split: if_splits)
  then show ?thesis using cancelled_idle [OF c] by simp
qed

lemma failed_sealing_cancels:
  assumes "run_next_action env now s e = (Inr None, s', e')"
    and "eq_building_id (ss_engine s) \<noteq> zero_payload_id" "\<not> eq_building_safe (ss_engine s)"
  shows "eq_building_id (ss_engine s') = zero_payload_id"
proof -
  obtain c q1 e1 where c: "complete_building_block env (ss_engine s) e = (c, q1, e1)" by (metis prod.exhaust)
  show ?thesis
  proof (cases c)
    case (Inl err)
    have "after_seal_error env now err (put_engine q1 s) e1 = (s', e')"
      using assms c Inl by (simp add: run_next_action_def Let_def split: if_splits)
    from seal_error_cancels [OF this sealing_never_temporary [OF c [unfolded Inl]]] show ?thesis .
  next
    case (Inr pl)
    then show ?thesis using assms c by (simp add: run_next_action_def Let_def)
  qed
qed

end
