(* ===== verification/P2p_Ssz.thy ===== *)
theory P2p_Ssz
  imports Derive_Batch
begin

text \<open>
  The SSZ encoding of execution payloads (\<^verbatim>\<open>bl-service/eth/{ssz,types}.go\<close>), in which blocks travel
  between nodes. Sizes have 32 bits in the code; \<open>SizeOverflow\<close> stands for a payload whose encoding does
  not fit them, which is not described further.
\<close>

section \<open>Little-endian numbers\<close>

definition put_le32 :: "u32 \<Rightarrow> byte list" where "put_le32 x = rev (put_u32 x)"
definition put_le64 :: "u64 \<Rightarrow> byte list" where "put_le64 x = rev (put_u64 x)"
definition get_le32 :: "byte list \<Rightarrow> u32" where "get_le32 bs = get_u32 (rev bs)"
definition get_le64 :: "byte list \<Rightarrow> u64" where "get_le64 bs = get_u64 (rev bs)"

text \<open>A 256-bit number is four 64-bit words, the lowest first.\<close>

type_synonym uint256 = "u64 \<times> u64 \<times> u64 \<times> u64"

definition marshal_bytes32_le :: "uint256 \<Rightarrow> byte list" where
  "marshal_bytes32_le z =
     (case z of (z0, z1, z2, z3) \<Rightarrow> put_le64 z0 @ put_le64 z1 @ put_le64 z2 @ put_le64 z3)"

definition unmarshal_bytes32_le :: "byte list \<Rightarrow> uint256" where
  "unmarshal_bytes32_le bs =
     (get_le64 (take 8 bs), get_le64 (take 8 (drop 8 bs)), get_le64 (take 8 (drop 16 bs)),
      get_le64 (take 8 (drop 24 bs)))"

section \<open>Payloads\<close>

text \<open>The whole of an execution payload; the rest of the node uses the fields of \<^typ>\<open>payload\<close>.\<close>

record exec_payload = payload +
  xp_fee_recipient :: "byte list"
  xp_state_root :: hash
  xp_receipts_root :: hash
  xp_logs_bloom :: "byte list"
  xp_gas_used :: u64
  xp_extra_data :: "byte list"
  xp_base_fee :: uint256

datatype block_version = BlockV1 | BlockV2

definition block_v1_fixed_part :: nat where
  "block_v1_fixed_part = 32 + 20 + 32 + 32 + 256 + 32 + 8 + 8 + 8 + 8 + 4 + 32 + 32 + 4"

definition block_v2_fixed_part :: nat where
  "block_v2_fixed_part = block_v1_fixed_part + 4"

definition withdrawal_bytes :: nat where "withdrawal_bytes = 8 + 8 + 20 + 8"

definition max_transactions_per_payload :: nat where "max_transactions_per_payload = 2 ^ 20"

definition max_withdrawals_per_payload :: nat where "max_withdrawals_per_payload = 2 ^ 4"

definition fixed_part :: "block_version \<Rightarrow> nat" where
  "fixed_part version = (if version = BlockV2 then block_v2_fixed_part else block_v1_fixed_part)"

definition infer_version :: "exec_payload \<Rightarrow> block_version" where
  "infer_version p = (if pl_withdrawals p \<noteq> None then BlockV2 else BlockV1)"

definition withdrawal_size :: "exec_payload \<Rightarrow> nat" where
  "withdrawal_size p = (case pl_withdrawals p of None \<Rightarrow> 0 | Some ws \<Rightarrow> length ws * withdrawal_bytes)"

definition transaction_size :: "byte list list \<Rightarrow> nat" where
  "transaction_size txs = length txs * 4 + sum_list (map length txs)"

definition size_ssz :: "exec_payload \<Rightarrow> nat" where
  "size_ssz p =
     fixed_part (infer_version p) + length (xp_extra_data p) + transaction_size (pl_transactions p) +
     withdrawal_size p"

datatype ssz_err =
    ExtraDataTooLarge | SizeOverflow
  | ScopeTooSmall | ShortRead | BadExtraOffset | BadTransactionOffset | BadWithdrawalsOffset
  | BadFirstTxOffset | TooManyTransactions | BadTxOffset | WithdrawalsOutOfScope | BadWithdrawals
  | TooManyWithdrawals | SszPanic

section \<open>Encoding\<close>

definition marshal_withdrawal :: "withdrawal \<Rightarrow> byte list" where
  "marshal_withdrawal w =
     put_le64 (wd_index w) @ put_le64 (wd_validator w) @ wd_address w @ put_le64 (wd_amount w)"

definition marshal_withdrawals :: "withdrawal list \<Rightarrow> byte list" where
  "marshal_withdrawals ws = concat (map marshal_withdrawal ws)"

fun tx_offsets :: "nat \<Rightarrow> byte list list \<Rightarrow> byte list" where
  "tx_offsets off [] = []"
| "tx_offsets off (tx # txs) = put_le32 (of_nat off) @ tx_offsets (off + length tx) txs"

definition marshal_transactions :: "byte list list \<Rightarrow> byte list" where
  "marshal_transactions txs = tx_offsets (length txs * 4) txs @ concat txs"

definition marshal_fixed :: "exec_payload \<Rightarrow> byte list" where
  "marshal_fixed p =
     (let fixedSize = fixed_part (infer_version p);
          txOffset = fixedSize + length (xp_extra_data p)
      in pl_parent_hash p @ xp_fee_recipient p @ xp_state_root p @ xp_receipts_root p @ xp_logs_bloom p @
         pl_prev_randao p @ put_le64 (pl_block_number p) @ put_le64 (pl_gas_limit p) @
         put_le64 (xp_gas_used p) @ put_le64 (pl_timestamp p) @ put_le32 (of_nat fixedSize) @
         marshal_bytes32_le (xp_base_fee p) @ pl_block_hash p @ put_le32 (of_nat txOffset) @
         (case pl_withdrawals p of
            None \<Rightarrow> []
          | Some _ \<Rightarrow> put_le32 (of_nat (txOffset + transaction_size (pl_transactions p)))))"

definition marshal_ssz :: "exec_payload \<Rightarrow> ssz_err + byte list" where
  "marshal_ssz p =
     (if (of_nat (length (xp_extra_data p)) :: u32) > - 1 - of_nat (fixed_part (infer_version p))
      then Inl ExtraDataTooLarge
      else if size_ssz p \<ge> 2 ^ 32 then Inl SizeOverflow
      else Inr (marshal_fixed p @ xp_extra_data p @ marshal_transactions (pl_transactions p) @
                (case pl_withdrawals p of None \<Rightarrow> [] | Some ws \<Rightarrow> marshal_withdrawals ws)))"

section \<open>Decoding\<close>

definition part :: "nat \<Rightarrow> nat \<Rightarrow> 'a list \<Rightarrow> 'a list" where
  "part i n xs = take n (drop i xs)"

fun read_withdrawals :: "nat \<Rightarrow> byte list \<Rightarrow> withdrawal list" where
  "read_withdrawals 0 bs = []"
| "read_withdrawals (Suc n) bs =
     \<lparr>wd_index = get_le64 (part 0 8 bs), wd_validator = get_le64 (part 8 8 bs), wd_address = part 16 20 bs,
      wd_amount = get_le64 (part 36 8 bs)\<rparr> # read_withdrawals n (drop withdrawal_bytes bs)"

definition unmarshal_withdrawals :: "byte list \<Rightarrow> ssz_err + withdrawal list" where
  "unmarshal_withdrawals bs =
     (if length bs mod withdrawal_bytes \<noteq> 0 then Inl BadWithdrawals
      else if length bs div withdrawal_bytes > max_withdrawals_per_payload then Inl TooManyWithdrawals
      else Inr (read_withdrawals (length bs div withdrawal_bytes) bs))"

text \<open>The transactions from \<open>i\<close> on, \<open>k\<close> of them, the first of which starts at \<open>cur\<close>.\<close>

fun read_transactions :: "byte list \<Rightarrow> nat \<Rightarrow> nat \<Rightarrow> nat \<Rightarrow> ssz_err + byte list list" where
  "read_transactions bs 0 i cur = Inr []"
| "read_transactions bs (Suc k) i cur =
     (let nx = (if k = 0 then length bs else unat (get_le32 (part (4 * (i + 1)) 4 bs)))
      in if nx < cur \<or> nx > length bs then Inl BadTxOffset
         else rbind (read_transactions bs k (i + 1) nx) (\<lambda>txs. Inr (part cur (nx - cur) bs # txs)))"

definition unmarshal_transactions :: "byte list \<Rightarrow> ssz_err + byte list list" where
  "unmarshal_transactions bs =
     (if bs = [] then Inr []
      else if length bs < 4 then Inl BadFirstTxOffset
      else let firstTx = unat (get_le32 (take 4 bs))
        in if firstTx mod 4 \<noteq> 0 \<or> firstTx > length bs then Inl BadFirstTxOffset
           else if firstTx div 4 > max_transactions_per_payload then Inl TooManyTransactions
           else read_transactions bs (firstTx div 4) 0 firstTx)"

text \<open>The buffer comes from a pool: behind the \<open>scope\<close> bytes that are read lies what \<open>pool\<close> held before,
  and a slice may reach into it, up to the buffer's capacity.\<close>

definition unmarshal_ssz :: "block_version \<Rightarrow> nat \<Rightarrow> byte list \<Rightarrow> byte list \<Rightarrow> ssz_err + exec_payload" where
  "unmarshal_ssz version scope pool input =
     (if scope < fixed_part version then Inl ScopeTooSmall
      else if length input < scope then Inl ShortRead
      else let buf = take scope input;
               backing = buf @ drop scope pool;
               extraOff = unat (get_le32 (part 436 4 buf));
               txOff = unat (get_le32 (part 504 4 buf));
               wOff = (if version = BlockV2 then unat (get_le32 (part 508 4 buf)) else scope)
        in if extraOff \<noteq> fixed_part version then Inl BadExtraOffset
           else if txOff < extraOff then Inl BadTransactionOffset
           else if version = BlockV2 \<and> wOff < txOff then Inl BadWithdrawalsOffset
           else if txOff > extraOff + 32 \<or> txOff > scope then Inl ExtraDataTooLarge
           else if wOff > length backing then Inl SszPanic
           else rbind (unmarshal_transactions (part txOff (wOff - txOff) backing)) (\<lambda>txs.
             let p = \<lparr>pl_parent_hash = part 0 32 buf, pl_prev_randao = part 372 32 buf,
                  pl_block_number = get_le64 (part 404 8 buf), pl_gas_limit = get_le64 (part 412 8 buf),
                  pl_timestamp = get_le64 (part 428 8 buf), pl_block_hash = part 472 32 buf,
                  pl_withdrawals = None, pl_transactions = txs,
                  xp_fee_recipient = part 32 20 buf, xp_state_root = part 52 32 buf,
                  xp_receipts_root = part 84 32 buf, xp_logs_bloom = part 116 256 buf,
                  xp_gas_used = get_le64 (part 420 8 buf), xp_extra_data = part extraOff (txOff - extraOff) buf,
                  xp_base_fee = unmarshal_bytes32_le (part 440 32 buf)\<rparr>
             in if version = BlockV1 then Inr p
                else if wOff > scope then Inl WithdrawalsOutOfScope
                else rbind (unmarshal_withdrawals (drop wOff buf))
                  (\<lambda>ws. Inr (p\<lparr>pl_withdrawals := Some ws\<rparr>))))"

end
