(* ===== verification/P2p_Gossip.thy ===== *)
theory P2p_Gossip
  imports P2p_Ssz
begin

text \<open>
  The gossip of blocks between nodes (\<^verbatim>\<open>bl-node/p2p/{gossip,signer}.go\<close> and the hash check of
  \<^verbatim>\<open>bl-service/eth/types.go\<close>): how the sequencer's node signs and publishes a block, and how a node validates what it
  receives. The validator handles one message at a time.
\<close>

section \<open>LRU caches\<close>

text \<open>The caches are those of a library: \<open>lru_view\<close> is the contents, adding may evict an entry, which is
  returned, and so does removing.\<close>

record ('k, 'v, 'c) lru =
  lru_view :: "'c \<Rightarrow> 'k \<rightharpoonup> 'v"
  lru_get :: "'k \<Rightarrow> 'c \<Rightarrow> 'v option \<times> 'c"
  lru_add :: "'k \<Rightarrow> 'v \<Rightarrow> 'c \<Rightarrow> ('k \<times> 'v) option \<times> 'c"
  lru_remove :: "'k \<Rightarrow> 'c \<Rightarrow> ('k \<times> 'v) option \<times> 'c"

text \<open>What is documented: a lookup changes no contents; what is added is there, and at most one
  other entry is evicted; a removal takes away that entry.\<close>

definition lru_ok :: "('k, 'v, 'c) lru \<Rightarrow> bool" where
  "lru_ok l \<longleftrightarrow>
     (\<forall>k c. fst (lru_get l k c) = lru_view l c k \<and> lru_view l (snd (lru_get l k c)) = lru_view l c) \<and>
     (\<forall>k v c. case lru_add l k v c of
        (None, c') \<Rightarrow> lru_view l c' = (lru_view l c)(k \<mapsto> v)
      | (Some (k', v'), c') \<Rightarrow> k' \<noteq> k \<and> lru_view l c k' = Some v' \<and>
          lru_view l c' = ((lru_view l c)(k \<mapsto> v))(k' := None)) \<and>
     (\<forall>k c. case lru_remove l k c of
        (r, c') \<Rightarrow> r = map_option (Pair k) (lru_view l c k) \<and> lru_view l c' = (lru_view l c)(k := None))"

section \<open>Block hashes\<close>

record block_header =
  bh_parent_hash :: hash
  bh_coinbase :: "byte list"
  bh_root :: hash
  bh_tx_hash :: hash
  bh_receipt_hash :: hash
  bh_bloom :: "byte list"
  bh_number :: int
  bh_gas_limit :: u64
  bh_gas_used :: u64
  bh_time :: u64
  bh_extra :: "byte list"
  bh_mix_digest :: hash
  bh_base_fee :: uint256
  bh_withdrawals_hash :: "hash option"

text \<open>The tries and the header's hash are go-ethereum's. The uncle hash, difficulty and nonce
  of a header are constants.\<close>

record hash_env =
  he_txs_root :: "byte list list \<Rightarrow> hash"
  he_withdrawals_root :: "withdrawal list \<Rightarrow> hash"
  he_header_hash :: "block_header \<Rightarrow> hash"

definition header_of :: "hash_env \<Rightarrow> exec_payload \<Rightarrow> block_header" where
  "header_of env p =
     \<lparr>bh_parent_hash = pl_parent_hash p, bh_coinbase = xp_fee_recipient p, bh_root = xp_state_root p,
      bh_tx_hash = he_txs_root env (pl_transactions p), bh_receipt_hash = xp_receipts_root p,
      bh_bloom = xp_logs_bloom p, bh_number = sint (pl_block_number p), bh_gas_limit = pl_gas_limit p,
      bh_gas_used = xp_gas_used p, bh_time = pl_timestamp p, bh_extra = xp_extra_data p,
      bh_mix_digest = pl_prev_randao p, bh_base_fee = xp_base_fee p,
      bh_withdrawals_hash = map_option (he_withdrawals_root env) (pl_withdrawals p)\<rparr>"

definition check_block_hash :: "hash_env \<Rightarrow> exec_payload \<Rightarrow> hash \<times> bool" where
  "check_block_hash env p =
     (let blockHash = he_header_hash env (header_of env p) in (blockHash, blockHash = pl_block_hash p))"

section \<open>Signatures\<close>

definition signing_domain_blocks_v1 :: "byte list" where
  "signing_domain_blocks_v1 = replicate 32 0"

datatype sign_err = ChainIdTooLarge | SignerClosed | SignFailed | ChainIdNil

definition signing_hash ::
  "(byte list \<Rightarrow> hash) \<Rightarrow> byte list \<Rightarrow> int option \<Rightarrow> byte list \<Rightarrow> sign_err + hash" where
  "signing_hash keccak domain chainID payloadBytes =
     (case chainID of
        None \<Rightarrow> Inl ChainIdNil
      | Some c \<Rightarrow>
          if nat \<bar>c\<bar> \<ge> 2 ^ 256 then Inl ChainIdTooLarge
          else Inr (keccak (domain @ be_enc 32 (nat \<bar>c\<bar>) @ keccak payloadBytes)))"

definition block_signing_hash :: "(byte list \<Rightarrow> hash) \<Rightarrow> rollup_config \<Rightarrow> byte list \<Rightarrow> sign_err + hash" where
  "block_signing_hash keccak cfg payloadBytes =
     signing_hash keccak signing_domain_blocks_v1 (rc_l2_chain_id cfg) payloadBytes"

text \<open>The private key, when the signer has one, is given by how it signs a hash.\<close>

definition local_sign ::
  "(byte list \<Rightarrow> hash) \<Rightarrow> (hash \<Rightarrow> byte list option) option \<Rightarrow> byte list \<Rightarrow> int option \<Rightarrow> byte list \<Rightarrow>
   sign_err + byte list" where
  "local_sign keccak priv domain chainID encodedMsg =
     (case priv of
        None \<Rightarrow> Inl SignerClosed
      | Some sign \<Rightarrow>
          rbind (signing_hash keccak domain chainID encodedMsg)
            (\<lambda>h. case sign h of None \<Rightarrow> Inl SignFailed | Some sig \<Rightarrow> Inr sig))"

section \<open>Validation\<close>

definition max_gossip_size :: nat where "max_gossip_size = 10 * 2 ^ 20"

definition min_gossip_size :: nat where "min_gossip_size = 66"

datatype validation = ValidationAccept | ValidationIgnore | ValidationReject

record gossip_env =
  ge_cfg :: rollup_config
  ge_hash :: hash_env
  ge_keccak :: "byte list \<Rightarrow> hash"
  ge_snappy_len :: "byte list \<Rightarrow> nat option"
  ge_unsnappy :: "byte list \<Rightarrow> byte list option"
  ge_snappy :: "byte list \<Rightarrow> byte list"
  ge_recover :: "hash \<Rightarrow> byte list \<Rightarrow> byte list option"
  ge_sequencer :: "byte list"

definition verify_block_signature :: "gossip_env \<Rightarrow> byte list \<Rightarrow> byte list \<Rightarrow> validation" where
  "verify_block_signature env signatureBytes payloadBytes =
     (case block_signing_hash (ge_keccak env) (ge_cfg env) payloadBytes of
        Inl _ \<Rightarrow> ValidationReject
      | Inr signingHash \<Rightarrow>
          (case ge_recover env signingHash signatureBytes of
             None \<Rightarrow> ValidationReject
           | Some addr \<Rightarrow>
               if ge_sequencer env = replicate 20 0 then ValidationIgnore
               else if addr \<noteq> ge_sequencer env then ValidationReject
               else ValidationAccept))"

text \<open>The blocks seen per height: the cache holds pointers, indices into the store \<open>gs_seen\<close>.\<close>

record 'c gossip_state =
  gs_heights :: 'c
  gs_seen :: "hash list list"

definition has_seen :: "hash \<Rightarrow> hash list \<Rightarrow> nat \<times> bool" where
  "has_seen h blockHashes = (length blockHashes, h \<in> set blockHashes)"

definition mark_seen :: "hash \<Rightarrow> hash list \<Rightarrow> hash list" where
  "mark_seen h blockHashes = blockHashes @ [h]"

definition seen_at :: "(u64, nat, 'c) lru \<Rightarrow> u64 \<Rightarrow> 'c gossip_state \<Rightarrow> nat \<times> 'c gossip_state" where
  "seen_at l height s =
     (case lru_get l height (gs_heights s) of
        (Some i, c) \<Rightarrow> (i, s\<lparr>gs_heights := c\<rparr>)
      | (None, c) \<Rightarrow>
          (length (gs_seen s),
           s\<lparr>gs_heights := snd (lru_add l height (length (gs_seen s)) c), gs_seen := gs_seen s @ [[]]\<rparr>))"

text \<open>The checks on a decoded payload, and on the blocks seen at its height.\<close>

definition check_payload :: "gossip_env \<Rightarrow> block_version \<Rightarrow> u64 \<Rightarrow> exec_payload \<Rightarrow> bool" where
  "check_payload env version now p \<longleftrightarrow>
     \<not> pl_timestamp p < now - 60 \<and> \<not> pl_timestamp p > now + 5 \<and>
     snd (check_block_hash (ge_hash env) p) \<and>
     \<not> (version = BlockV1 \<and> pl_withdrawals p \<noteq> None) \<and>
     \<not> (version = BlockV2 \<and> pl_withdrawals p = None) \<and>
     \<not> (version = BlockV2 \<and> pl_withdrawals p \<noteq> Some [])"

definition check_seen ::
  "(u64, nat, 'c) lru \<Rightarrow> exec_payload \<Rightarrow> 'c gossip_state \<Rightarrow>
   validation \<times> exec_payload option \<times> 'c gossip_state" where
  "check_seen l p s =
     (case seen_at l (pl_block_number p) s of
        (i, s1) \<Rightarrow>
          (case has_seen (pl_block_hash p) (gs_seen s1 ! i) of
             (count, seen) \<Rightarrow>
               if count > 5 then (ValidationReject, None, s1)
               else if seen then (ValidationIgnore, None, s1)
               else (ValidationAccept, Some p,
                     s1\<lparr>gs_seen := (gs_seen s1)[i := mark_seen (pl_block_hash p) (gs_seen s1 ! i)]\<rparr>)))"

text \<open>A panic is turned into a rejection by \<^verbatim>\<open>guardGossipValidator\<close>. \<open>pool\<close> is what the decoder's
  buffer held.\<close>

definition validate_block ::
  "gossip_env \<Rightarrow> (u64, nat, 'c) lru \<Rightarrow> block_version \<Rightarrow> u64 \<Rightarrow> byte list \<Rightarrow> byte list \<Rightarrow> 'c gossip_state \<Rightarrow>
   validation \<times> exec_payload option \<times> 'c gossip_state" where
  "validate_block env l version now pool message s =
     (case ge_snappy_len env message of
        None \<Rightarrow> (ValidationReject, None, s)
      | Some outLen \<Rightarrow>
          if outLen > max_gossip_size \<or> outLen < min_gossip_size then (ValidationReject, None, s)
          else case ge_unsnappy env message of
              None \<Rightarrow> (ValidationReject, None, s)
            | Some data \<Rightarrow>
                if length data < 65 then (ValidationReject, None, s)
                else let result = verify_block_signature env (take 65 data) (drop 65 data)
                  in if result \<noteq> ValidationAccept then (result, None, s)
                     else case unmarshal_ssz version (length (drop 65 data)) pool (drop 65 data) of
                         Inl _ \<Rightarrow> (ValidationReject, None, s)
                       | Inr p \<Rightarrow>
                           if \<not> check_payload env version now p then (ValidationReject, None, s)
                           else check_seen l p s)"

section \<open>Publishing\<close>

datatype publish_err = PublishEncode ssz_err | PublishSign sign_err

text \<open>The topic is given by its block version.\<close>

definition publish_payload ::
  "gossip_env \<Rightarrow> (hash \<Rightarrow> byte list option) option \<Rightarrow> exec_payload \<Rightarrow>
   publish_err + block_version \<times> byte list" where
  "publish_payload env priv p =
     (case marshal_ssz p of
        Inl e \<Rightarrow> Inl (PublishEncode e)
      | Inr payloadData \<Rightarrow>
          (case local_sign (ge_keccak env) priv signing_domain_blocks_v1 (rc_l2_chain_id (ge_cfg env)) payloadData of
             Inl e \<Rightarrow> Inl (PublishSign e)
           | Inr sig \<Rightarrow>
               Inr (if is_canyon (ge_cfg env) (pl_timestamp p) then BlockV2 else BlockV1,
                    ge_snappy env (sig @ payloadData))))"

text \<open>The identifier of a message, by which duplicates are told; \<open>sha\<close> is SHA-256.\<close>

definition message_id :: "gossip_env \<Rightarrow> (byte list \<Rightarrow> byte list) \<Rightarrow> byte list \<Rightarrow> byte list \<Rightarrow> byte list" where
  "message_id env sha topic message =
     (let decoded = (case ge_snappy_len env message of
            None \<Rightarrow> None
          | Some n \<Rightarrow> if n \<le> max_gossip_size then ge_unsnappy env message else None);
          domain = (if decoded \<noteq> None then [1, 0, 0, 0] else [0, 0, 0, 0]);
          data = (case decoded of None \<Rightarrow> message | Some d \<Rightarrow> d)
      in take 20 (sha (domain @ put_le64 (of_nat (length topic)) @ topic @ data)))"

fun combine_peers :: "'p list \<Rightarrow> 'p list \<Rightarrow> 'p list" where
  "combine_peers seen [] = []"
| "combine_peers seen (p # ps) =
     (if p \<in> set seen then combine_peers seen ps else p # combine_peers (p # seen) ps)"

end
