(* ===== verification/P2p_Sync.thy ===== *)
theory P2p_Sync
  imports P2p_Gossip Derive_Sync
begin

text \<open>
  The retrieval of missing blocks from other nodes (\<^verbatim>\<open>bl-node/p2p/sync.go\<close>): the sync client with its main loop and one
  worker per peer, and the server that answers them. The client's goroutines share channels, so that a
  step of one of them is a step of the whole; contexts that end and connections that fail are events.
\<close>

type_synonym peer_id = string

section \<open>State of the client\<close>

record sync_result =
  sr_payload :: exec_payload
  sr_peer :: peer_id

text \<open>\<open>sy_unframe\<close> reads at most so many bytes out of a stream in snappy's framing, \<open>sy_frame\<close> writes one;
  the trusted hashes and the quarantine are LRU caches.\<close>

record ('q, 't) sync_env =
  sy_cfg :: rollup_config
  sy_hash :: hash_env
  sy_unframe :: "nat \<Rightarrow> byte list \<Rightarrow> byte list option"
  sy_frame :: "byte list \<Rightarrow> byte list"
  sy_quarantine :: "(hash, sync_result, 'q) lru"
  sy_trusted :: "(hash, unit, 't) lru"

text \<open>A request in flight points to a flag that says whether it is complete: the pointer is the number of
  the request, the flags that are set are \<open>sc_complete\<close>. \<open>sc_working\<close> are the requests peers work on.\<close>

record ('q, 't) sync_client =
  sc_trusted :: 't
  sc_quarantine :: 'q
  sc_by_num :: "u64 \<rightharpoonup> hash"
  sc_in_flight :: "u64 \<rightharpoonup> nat"
  sc_complete :: "nat set"
  sc_issued :: nat
  sc_requests :: "(u64 \<times> nat) list"
  sc_working :: "(peer_id \<times> u64 \<times> nat) list"
  sc_results :: "sync_result list"

definition sync_channel_size :: nat where "sync_channel_size = 128"

text \<open>The receiver is called with a block, and takes it or returns an error.\<close>

datatype sync_output =
    Received sync_result bool | RejectedPayload peer_id | ValidResponse peer_id | ResponseError peer_id
  | InFlight bool

definition trusts :: "('q, 't) sync_env \<Rightarrow> hash \<Rightarrow> ('q, 't) sync_client \<Rightarrow> bool" where
  "trusts env h s \<longleftrightarrow> lru_view (sy_trusted env) (sc_trusted s) h \<noteq> None"

definition trust :: "('q, 't) sync_env \<Rightarrow> hash \<Rightarrow> ('q, 't) sync_client \<Rightarrow> ('q, 't) sync_client" where
  "trust env h s = s\<lparr>sc_trusted := snd (lru_add (sy_trusted env) h () (sc_trusted s))\<rparr>"

section \<open>Quarantine\<close>

definition on_quarantine_evict ::
  "('q, 't) sync_env \<Rightarrow> (hash \<times> sync_result) option \<Rightarrow> ('q, 't) sync_client \<Rightarrow>
   sync_output list \<times> ('q, 't) sync_client" where
  "on_quarantine_evict env evicted s =
     (case evicted of
        None \<Rightarrow> ([], s)
      | Some (key, res) \<Rightarrow>
          (if trusts env key s then [] else [RejectedPayload (sr_peer res)],
           s\<lparr>sc_by_num := (sc_by_num s)(pl_block_number (sr_payload res) := None)\<rparr>))"

definition quarantine_add ::
  "('q, 't) sync_env \<Rightarrow> sync_result \<Rightarrow> ('q, 't) sync_client \<Rightarrow> sync_output list \<times> ('q, 't) sync_client" where
  "quarantine_add env res s =
     (case lru_add (sy_quarantine env) (pl_block_hash (sr_payload res)) res (sc_quarantine s) of
        (evicted, q) \<Rightarrow> on_quarantine_evict env evicted (s\<lparr>sc_quarantine := q\<rparr>))"

definition quarantine_remove ::
  "('q, 't) sync_env \<Rightarrow> hash \<Rightarrow> ('q, 't) sync_client \<Rightarrow> sync_output list \<times> ('q, 't) sync_client" where
  "quarantine_remove env h s =
     (case lru_remove (sy_quarantine env) h (sc_quarantine s) of
        (evicted, q) \<Rightarrow> on_quarantine_evict env evicted (s\<lparr>sc_quarantine := q\<rparr>))"

definition try_promote ::
  "('q, 't) sync_env \<Rightarrow> hash \<Rightarrow> ('q, 't) sync_client \<Rightarrow> ('q, 't) sync_client" where
  "try_promote env h s =
     (case lru_get (sy_quarantine env) h (sc_quarantine s) of
        (None, q) \<Rightarrow> s\<lparr>sc_quarantine := q\<rparr>
      | (Some res, q) \<Rightarrow>
          s\<lparr>sc_quarantine := q,
            sc_results := (if length (sc_results s) < sync_channel_size then sc_results s @ [res]
                           else sc_results s)\<rparr>)"

section \<open>Main loop\<close>

definition promote ::
  "('q, 't) sync_env \<Rightarrow> bool \<Rightarrow> sync_result \<Rightarrow> ('q, 't) sync_client \<Rightarrow>
   sync_output list \<times> ('q, 't) sync_client" where
  "promote env taken res s =
     (if \<not> taken then ([Received res False], s)
      else let p = sr_payload res in
        case quarantine_remove env (pl_block_hash p) (trust env (pl_block_hash p) s) of
          (out1, s1) \<Rightarrow>
            let s2 = try_promote env (pl_parent_hash p) (trust env (pl_parent_hash p) s1)
            in (case sc_by_num s2 (pl_block_number p - 1) of
                  None \<Rightarrow> (Received res True # out1, s2)
                | Some h \<Rightarrow>
                    (case quarantine_remove env h s2 of
                       (out2, s3) \<Rightarrow> (Received res True # out1 @ out2, s3))))"

definition on_result ::
  "('q, 't) sync_env \<Rightarrow> bool \<Rightarrow> sync_result \<Rightarrow> ('q, 't) sync_client \<Rightarrow>
   sync_output list \<times> ('q, 't) sync_client" where
  "on_result env taken res s =
     (let p = sr_payload res in
      case quarantine_add env res (s\<lparr>sc_in_flight := (sc_in_flight s)(pl_block_number p := None)\<rparr>) of
        (out1, s1) \<Rightarrow>
          let s2 = s1\<lparr>sc_by_num := (sc_by_num s1)(pl_block_number p \<mapsto> pl_block_hash p)\<rparr>
          in if trusts env (pl_block_hash p) s2
             then (case promote env taken res s2 of (out2, s3) \<Rightarrow> (out1 @ out2, s3))
             else (out1, s2))"

lemma unat_pred_less: "\<not> num \<le> start \<Longrightarrow> unat (num - 1) < unat (num :: u64)"
  by (cases "num = 0") (simp_all add: unat_minus_one unat_gt_0)

text \<open>From \<open>num\<close> downwards; \<open>late\<close> says at which numbers the time for scheduling was found to be over.\<close>

function range_loop ::
  "('q, 't) sync_env \<Rightarrow> (u64 \<Rightarrow> bool) \<Rightarrow> u64 \<Rightarrow> u64 \<Rightarrow> ('q, 't) sync_client \<Rightarrow> ('q, 't) sync_client" where
  "range_loop env late start num s =
     (if num \<le> start then s
      else case sc_by_num s num of
          Some h \<Rightarrow> range_loop env late start (num - 1) (if trusts env h s then try_promote env h s else s)
        | None \<Rightarrow>
            if sc_in_flight s num \<noteq> None then range_loop env late start (num - 1) s
            else if late num \<or> length (sc_requests s) \<ge> sync_channel_size then s
            else range_loop env late start (num - 1)
              (s\<lparr>sc_requests := sc_requests s @ [(num, sc_issued s)],
                 sc_in_flight := (sc_in_flight s)(num \<mapsto> sc_issued s), sc_issued := sc_issued s + 1\<rparr>))"
  by pat_completeness auto

termination
  by (relation "measure (\<lambda>(env, late, start, num, s). unat num)") (auto intro: unat_pred_less)

declare range_loop.simps [simp del]

definition drop_completed :: "('q, 't) sync_client \<Rightarrow> ('q, 't) sync_client" where
  "drop_completed s =
     s\<lparr>sc_in_flight := (\<lambda>num. case sc_in_flight s num of
          None \<Rightarrow> None | Some i \<Rightarrow> if i \<in> sc_complete s then None else Some i)\<rparr>"

definition on_range_request ::
  "('q, 't) sync_env \<Rightarrow> (u64 \<Rightarrow> bool) \<Rightarrow> u64 \<Rightarrow> l2_ref \<Rightarrow> ('q, 't) sync_client \<Rightarrow> ('q, 't) sync_client" where
  "on_range_request env late start end s =
     range_loop env late start (l2_number end - 1)
       (drop_completed (trust env (l2_parent_hash end) (trust env (l2_hash end) s)))"

section \<open>Requests to a peer\<close>

definition verify_block :: "hash_env \<Rightarrow> exec_payload \<Rightarrow> u64 \<Rightarrow> bool" where
  "verify_block henv p expectedNum \<longleftrightarrow> expectedNum = pl_block_number p \<and> snd (check_block_hash henv p)"

datatype sync_response = ResponseFailed | ResponseCrash | ResponseBlock exec_payload

text \<open>What comes of the bytes a peer answers with. Nothing recovers from a panic of the decoder.\<close>

definition read_response :: "('q, 't) sync_env \<Rightarrow> byte list \<Rightarrow> u64 \<Rightarrow> byte list \<Rightarrow> sync_response" where
  "read_response env pool expectedNum stream =
     (let r = take max_gossip_size stream in
      if r = [] \<or> hd r \<noteq> 0 then ResponseFailed
      else if length r < 5 \<or> get_le32 (part 1 4 r) \<noteq> 0 then ResponseFailed
      else case sy_unframe env max_gossip_size (drop 5 r) of
          None \<Rightarrow> ResponseFailed
        | Some data \<Rightarrow>
            let version = (if is_canyon (sy_cfg env) (timestamp_for_block (sy_cfg env) expectedNum)
                           then BlockV2 else BlockV1)
            in (case unmarshal_ssz version (length data) pool data of
                  Inl e \<Rightarrow> if e = SszPanic then ResponseCrash else ResponseFailed
                | Inr p \<Rightarrow>
                    if verify_block (sy_hash env) p expectedNum then ResponseBlock p else ResponseFailed))"

section \<open>Steps\<close>

text \<open>A worker takes a request; it gets an answer, or fails before that; the main loop takes a range
  request, a result, or a question.\<close>

datatype sync_event =
    PeerTakes peer_id | PeerAnswers nat "byte list" "byte list" | PeerFails nat
  | RangeRequest u64 l2_ref "u64 \<Rightarrow> bool" | ResultReady bool | InFlightCheck u64

definition finish_request :: "nat \<Rightarrow> ('q, 't) sync_client \<Rightarrow> ('q, 't) sync_client" where
  "finish_request i s = s\<lparr>sc_working := take i (sc_working s) @ drop (Suc i) (sc_working s)\<rparr>"

definition fail_request ::
  "nat \<Rightarrow> ('q, 't) sync_client \<Rightarrow> sync_output list \<times> ('q, 't) sync_client" where
  "fail_request i s =
     (case sc_working s ! i of (peer, num, ident) \<Rightarrow>
        ([ResponseError peer], (finish_request i s)\<lparr>sc_complete := insert ident (sc_complete s)\<rparr>))"

text \<open>\<^const>\<open>None\<close>: the step cannot be taken, or the node crashes.\<close>

definition sync_handle ::
  "('q, 't) sync_env \<Rightarrow> sync_event \<Rightarrow> ('q, 't) sync_client \<Rightarrow>
   (sync_output list \<times> ('q, 't) sync_client) option" where
  "sync_handle env ev s =
     (case ev of
        PeerTakes peer \<Rightarrow>
          (case sc_requests s of
             [] \<Rightarrow> None
           | (num, ident) # rest \<Rightarrow>
               Some ([], s\<lparr>sc_requests := rest, sc_working := sc_working s @ [(peer, num, ident)]\<rparr>))
      | PeerAnswers i pool stream \<Rightarrow>
          if i < length (sc_working s) then
            (case sc_working s ! i of (peer, num, ident) \<Rightarrow>
               (case read_response env pool num stream of
                  ResponseFailed \<Rightarrow> Some (fail_request i s)
                | ResponseCrash \<Rightarrow> None
                | ResponseBlock p \<Rightarrow>
                    if length (sc_results s) < sync_channel_size
                    then Some ([ValidResponse peer],
                      (finish_request i s)\<lparr>sc_results := sc_results s @ [\<lparr>sr_payload = p, sr_peer = peer\<rparr>]\<rparr>)
                    else None))
          else None
      | PeerFails i \<Rightarrow> if i < length (sc_working s) then Some (fail_request i s) else None
      | RangeRequest start end late \<Rightarrow> Some ([], on_range_request env late start end s)
      | ResultReady taken \<Rightarrow>
          (case sc_results s of
             [] \<Rightarrow> None
           | res # rest \<Rightarrow> Some (on_result env taken res (s\<lparr>sc_results := rest\<rparr>)))
      | InFlightCheck num \<Rightarrow>
          Some ([InFlight (case sc_in_flight s num of None \<Rightarrow> False | Some i \<Rightarrow> i \<notin> sc_complete s)], s))"

inductive sync_run ::
  "('q, 't) sync_env \<Rightarrow> sync_event list \<Rightarrow> sync_output list \<Rightarrow> ('q, 't) sync_client \<Rightarrow>
   ('q, 't) sync_client \<Rightarrow> bool" for env where
  sync_none: "sync_run env [] [] s s"
| sync_more: "sync_run env evs outs s s1 \<Longrightarrow> sync_handle env ev s1 = Some (out, s2) \<Longrightarrow>
    sync_run env (evs @ [ev]) (outs @ out) s s2"

definition request_l2_range :: "l2_ref \<Rightarrow> l2_ref \<Rightarrow> (u64 \<times> l2_ref) option" where
  "request_l2_range start end = (if end = zero_l2_ref then None else Some (l2_number start, end))"

section \<open>The server\<close>

text \<open>The lock guards the rate limits of the peers, which are in an LRU cache.\<close>

record 'r sync_server =
  sv_locked :: bool
  sv_peers :: 'r

datatype serve_err = ServeTimeout | ServeRead | ServeInvalid | ServeNotFound | ServeFailed | ServePanic

definition response_header :: "byte list" where "response_header = replicate 5 0"

definition result_code :: "serve_err \<Rightarrow> byte" where
  "result_code e = (if e = ServeNotFound then 1 else if e = ServeInvalid then 2 else 3)"

text \<open>What is written for a request, and the error, if any. \<open>chain\<close> is the engine's answer.\<close>

definition serve_block ::
  "('q, 't) sync_env \<Rightarrow> (u64 \<Rightarrow> rpc_err + exec_payload) \<Rightarrow> u64 \<Rightarrow> u64 \<Rightarrow> byte list \<times> serve_err option" where
  "serve_block env chain now req =
     (if req < bid_number (gen_l2 (rc_genesis (sy_cfg env))) then ([], Some ServeInvalid)
      else case target_block_number (sy_cfg env) now of
          Inl e \<Rightarrow> ([], Some (if e = DivideByZeroPanic then ServePanic else ServeInvalid))
        | Inr highest \<Rightarrow>
            if req > highest then ([], Some ServeInvalid)
            else (case chain req of
                Inl e \<Rightarrow> ([], Some (if e = RpcNotFound then ServeNotFound else ServeFailed))
              | Inr p \<Rightarrow>
                  (case marshal_ssz p of
                     Inl _ \<Rightarrow> (response_header, Some ServeFailed)
                   | Inr data \<Rightarrow> (response_header @ sy_frame env data, None))))"

text \<open>The stream as the handler leaves it: an error code follows what was written before, but for a
  panic, from which the stream's handler recovers. The request is \<^const>\<open>None\<close> when it cannot be read;
  \<open>inTime\<close> says whether the limit for all peers and that of this peer let it through in time. The result \<^const>\<open>None\<close> means
  that the handler waits for the lock for ever.\<close>

definition handle_sync_request ::
  "('q, 't) sync_env \<Rightarrow> (peer_id, unit, 'r) lru \<Rightarrow> (u64 \<Rightarrow> rpc_err + exec_payload) \<Rightarrow> u64 \<Rightarrow> peer_id \<Rightarrow>
   bool \<times> bool \<Rightarrow> u64 option \<Rightarrow> 'r sync_server \<Rightarrow> (byte list \<times> 'r sync_server) option" where
  "handle_sync_request env l chain now peer inTime req s =
     (if \<not> fst inTime then Some ([result_code ServeTimeout], s)
      else if sv_locked s then None
      else case lru_get l peer (sv_peers s) of
          (known, c) \<Rightarrow>
            if known \<noteq> None \<and> \<not> snd inTime
            then Some ([result_code ServeTimeout], s\<lparr>sv_locked := True, sv_peers := c\<rparr>)
            else let s1 = s\<lparr>sv_peers := (if known = None then snd (lru_add l peer () c) else c)\<rparr>
              in (case req of
                    None \<Rightarrow> Some ([result_code ServeRead], s1)
                  | Some num \<Rightarrow>
                      (case serve_block env chain now num of
                         (written, None) \<Rightarrow> Some (written, s1)
                       | (written, Some e) \<Rightarrow>
                           Some (if e = ServePanic then written else written @ [result_code e], s1))))"

end
