(* ===== verification/P2p_Ssz_Props.thy ===== *)
theory P2p_Ssz_Props
  imports P2p_Ssz
begin

text \<open>
  The SSZ decoder reads back what the encoder writes, and accepts nothing else but for one kind of slack; and the
  check of the withdrawals' offset comes too late.
\<close>

section \<open>Parts of byte strings\<close>

lemma length_put_le [simp]: "length (put_le32 a) = 4" "length (put_le64 b) = 8"
  by (simp_all add: put_le32_def put_le64_def)

lemma get_put_le [simp]: "get_le32 (put_le32 a) = a" "get_le64 (put_le64 b) = b"
  by (simp_all add: put_le32_def put_le64_def get_le32_def get_le64_def)

lemma put_get_le32: "length bs = 4 \<Longrightarrow> put_le32 (get_le32 bs) = bs"
  by (simp add: put_le32_def get_le32_def put_get_u32)

lemma put_get_le64: "length bs = 8 \<Longrightarrow> put_le64 (get_le64 bs) = bs"
  by (simp add: put_le64_def get_le64_def put_get_u64)

lemma part_skip: "length a \<le> i \<Longrightarrow> part i n (a @ b) = part (i - length a) n b"
  by (simp add: part_def)

lemma part_hit: "length a = n \<Longrightarrow> part 0 n (a @ b) = a"
  by (simp add: part_def)

lemma part_left: "i + n \<le> length a \<Longrightarrow> part i n (a @ b) = part i n a"
  by (simp add: part_def)

lemma length_part: "i + n \<le> length bs \<Longrightarrow> length (part i n bs) = n"
  by (simp add: part_def)

lemma part_append: "part i m bs @ part (i + m) n bs = part i (m + n) bs"
  by (simp add: part_def take_add add.commute)

lemma part_all: "n = length bs \<Longrightarrow> part 0 n bs = bs"
  by (simp add: part_def)

lemma part_zero [simp]: "part i 0 bs = []"
  by (simp add: part_def)

lemma base_fee_roundtrip:
  "unmarshal_bytes32_le (marshal_bytes32_le z) = z" "length (marshal_bytes32_le z) = 32"
  by (cases z; simp add: unmarshal_bytes32_le_def marshal_bytes32_le_def)+

lemma base_fee_bytes: "length bs = 32 \<Longrightarrow> marshal_bytes32_le (unmarshal_bytes32_le bs) = bs"
proof -
  assume l: "length bs = 32"
  have "take 8 bs @ take 8 (drop 8 bs) @ take 8 (drop 16 bs) @ take 8 (drop 24 bs) = bs"
    using part_append [of 0 8 bs 8] part_append [of 0 16 bs 8] part_append [of 0 24 bs 8] l
    by (simp add: part_def) (metis append_assoc append_take_drop_id)
  then show ?thesis using l
    by (simp add: marshal_bytes32_le_def unmarshal_bytes32_le_def put_get_le64)
qed

section \<open>Transactions\<close>

lemma tx_offsets_append:
  "tx_offsets off (xs @ ys) = tx_offsets off xs @ tx_offsets (off + sum_list (map length xs)) ys"
  by (induction xs arbitrary: off) (simp_all add: add.assoc)

lemma length_tx_offsets [simp]: "length (tx_offsets off txs) = 4 * length txs"
  by (induction txs arbitrary: off) simp_all

lemma length_marshal_transactions: "length (marshal_transactions txs) = transaction_size txs"
  by (simp add: marshal_transactions_def transaction_size_def length_concat)

lemma unat_small: "n < 2 ^ 32 \<Longrightarrow> unat (of_nat n :: u32) = n"
  by (simp add: unat_of_nat)

lemma offset_entry:
  assumes "r = tx_offsets off (xs @ y # ys) @ rest" "off + sum_list (map length xs) < 2 ^ 32"
  shows "unat (get_le32 (part (4 * length xs) 4 r)) = off + sum_list (map length xs)"
proof -
  have "part (4 * length xs) 4 r = put_le32 (of_nat (off + sum_list (map length xs)))"
    unfolding assms(1) tx_offsets_append tx_offsets.simps append_assoc
    by (subst part_skip) (simp_all add: part_hit)
  then show ?thesis using unat_small [OF assms(2)] by simp
qed

lemma read_transactions_marshalled:
  assumes "r = marshal_transactions (xs @ ys)" "length r < 2 ^ 32"
  shows "read_transactions r (length ys) (length xs)
    (4 * length (xs @ ys) + sum_list (map length xs)) = Inr ys"
  using assms
proof (induction ys arbitrary: xs)
  case (Cons y ys)
  define n where "n = 4 * length (xs @ y # ys)"
  define cur where "cur = n + sum_list (map length xs)"
  have len: "length r = n + sum_list (map length (xs @ y # ys))"
    using Cons(2) by (simp add: n_def length_marshal_transactions transaction_size_def)
  have nx: "(if length ys = 0 then length r else unat (get_le32 (part (4 * (length xs + 1)) 4 r))) = cur + length y"
  proof (cases ys)
    case Nil
    then show ?thesis using len by (simp add: cur_def)
  next
    case c: (Cons z zs)
    have "n + sum_list (map length (xs @ [y])) < 2 ^ 32" using len Cons(3) by simp
    moreover have "r = tx_offsets n ((xs @ [y]) @ z # zs) @ concat (xs @ y # ys)"
      using Cons(2) c by (simp add: marshal_transactions_def n_def mult.commute)
    ultimately have "unat (get_le32 (part (4 * length (xs @ [y])) 4 r)) = n + sum_list (map length (xs @ [y]))"
      by (rule offset_entry [rotated])
    then show ?thesis using c by (simp add: cur_def add.commute [of 4] add.assoc)
  qed
  have body: "part cur (length y) r = y"
  proof -
    have "r = (tx_offsets n (xs @ y # ys) @ concat xs) @ y @ concat ys"
      using Cons(2) by (simp add: marshal_transactions_def n_def mult.commute)
    moreover have "length (tx_offsets n (xs @ y # ys) @ concat xs) = cur"
      by (simp add: cur_def n_def length_concat)
    ultimately show ?thesis by (metis part_skip part_hit le_refl diff_self_eq_0)
  qed
  have rest: "read_transactions r (length ys) (length xs + 1) (cur + length y) = Inr ys"
    using Cons(1) [of "xs @ [y]"] Cons(2,3) by (simp add: cur_def n_def algebra_simps)
  have "cur + length y \<le> length r" using len by (simp add: cur_def)
  then have "read_transactions r (Suc (length ys)) (length xs) cur = Inr (y # ys)"
    using nx body rest by (simp add: Let_def)
  then show ?case by (simp add: cur_def n_def)
qed simp

lemma unmarshal_marshal_transactions:
  assumes "length (marshal_transactions txs) < 2 ^ 32" "length txs \<le> max_transactions_per_payload"
  shows "unmarshal_transactions (marshal_transactions txs) = Inr txs"
proof (cases txs)
  case (Cons t ts)
  define r where "r = marshal_transactions txs"
  have r: "r = tx_offsets (4 * length txs) ([] @ t # ts) @ concat txs"
    by (simp add: r_def marshal_transactions_def Cons mult.commute)
  have len: "4 * length txs \<le> length r" "4 \<le> length r"
    by (simp_all add: r_def length_marshal_transactions transaction_size_def Cons)
  have "unat (get_le32 (part 0 4 r)) = 4 * length txs"
    using offset_entry [OF r] assms(1) len by (simp add: r_def)
  then have "unat (get_le32 (take 4 r)) = 4 * length txs" by (simp add: part_def)
  then have "unmarshal_transactions r = read_transactions r (length txs) 0 (4 * length txs)"
    using len assms(2) by (auto simp: unmarshal_transactions_def Let_def)
  also have "\<dots> = Inr txs"
    using read_transactions_marshalled [of r "[]" txs] assms(1) by (simp add: r_def)
  finally show ?thesis by (simp add: r_def)
qed (simp add: marshal_transactions_def unmarshal_transactions_def)

section \<open>Withdrawals\<close>

lemma length_marshal_withdrawal: "length (wd_address w) = 20 \<Longrightarrow> length (marshal_withdrawal w) = withdrawal_bytes"
  by (simp add: marshal_withdrawal_def withdrawal_bytes_def)

lemma length_marshal_withdrawals:
  "list_all (\<lambda>w. length (wd_address w) = 20) ws \<Longrightarrow> length (marshal_withdrawals ws) = length ws * withdrawal_bytes"
  by (induction ws) (simp_all add: marshal_withdrawals_def length_marshal_withdrawal)

lemma read_marshalled_withdrawals:
  "list_all (\<lambda>w. length (wd_address w) = 20) ws \<Longrightarrow> read_withdrawals (length ws) (marshal_withdrawals ws) = ws"
proof (induction ws)
  case (Cons w ws)
  have m: "marshal_withdrawals (w # ws) =
      put_le64 (wd_index w) @ put_le64 (wd_validator w) @ wd_address w @ put_le64 (wd_amount w) @ marshal_withdrawals ws"
    by (simp add: marshal_withdrawals_def marshal_withdrawal_def)
  have "part 0 8 (marshal_withdrawals (w # ws)) = put_le64 (wd_index w)"
    "part 8 8 (marshal_withdrawals (w # ws)) = put_le64 (wd_validator w)"
    "part 16 20 (marshal_withdrawals (w # ws)) = wd_address w"
    "part 36 8 (marshal_withdrawals (w # ws)) = put_le64 (wd_amount w)"
    "drop withdrawal_bytes (marshal_withdrawals (w # ws)) = marshal_withdrawals ws"
    using Cons(2) unfolding m by (simp_all add: part_skip part_hit withdrawal_bytes_def)
  then show ?case using Cons by simp
qed simp

lemma unmarshal_marshal_withdrawals:
  assumes "list_all (\<lambda>w. length (wd_address w) = 20) ws" "length ws \<le> max_withdrawals_per_payload"
  shows "unmarshal_withdrawals (marshal_withdrawals ws) = Inr ws"
  using assms read_marshalled_withdrawals [OF assms(1)]
  by (simp add: unmarshal_withdrawals_def length_marshal_withdrawals withdrawal_bytes_def)

section \<open>Payloads\<close>

definition wf_exec_payload :: "exec_payload \<Rightarrow> bool" where
  "wf_exec_payload p \<longleftrightarrow>
     length (pl_parent_hash p) = 32 \<and> length (xp_fee_recipient p) = 20 \<and> length (xp_state_root p) = 32 \<and>
     length (xp_receipts_root p) = 32 \<and> length (xp_logs_bloom p) = 256 \<and> length (pl_prev_randao p) = 32 \<and>
     length (pl_block_hash p) = 32 \<and> length (xp_extra_data p) \<le> 32 \<and>
     length (pl_transactions p) \<le> max_transactions_per_payload \<and>
     (case pl_withdrawals p of None \<Rightarrow> True
      | Some ws \<Rightarrow> length ws \<le> max_withdrawals_per_payload \<and> list_all (\<lambda>w. length (wd_address w) = 20) ws)"

definition marshal_tail :: "exec_payload \<Rightarrow> byte list" where
  "marshal_tail p = (case pl_withdrawals p of None \<Rightarrow> [] | Some ws \<Rightarrow> marshal_withdrawals ws)"

lemmas fixed_part_simps = fixed_part_def block_v1_fixed_part_def block_v2_fixed_part_def infer_version_def

lemma length_marshal_fixed: "wf_exec_payload p \<Longrightarrow> length (marshal_fixed p) = fixed_part (infer_version p)"
  by (simp add: marshal_fixed_def wf_exec_payload_def fixed_part_simps base_fee_roundtrip Let_def
      split: option.split)

lemma length_marshal_tail: "wf_exec_payload p \<Longrightarrow> length (marshal_tail p) = withdrawal_size p"
  by (auto simp: marshal_tail_def withdrawal_size_def wf_exec_payload_def length_marshal_withdrawals
      split: option.split)

lemma fixed_fields:
  assumes "wf_exec_payload p" "bs = marshal_fixed p @ rest"
  shows "part 0 32 bs = pl_parent_hash p" "part 32 20 bs = xp_fee_recipient p" "part 52 32 bs = xp_state_root p"
    "part 84 32 bs = xp_receipts_root p" "part 116 256 bs = xp_logs_bloom p" "part 372 32 bs = pl_prev_randao p"
    "part 404 8 bs = put_le64 (pl_block_number p)" "part 412 8 bs = put_le64 (pl_gas_limit p)"
    "part 420 8 bs = put_le64 (xp_gas_used p)" "part 428 8 bs = put_le64 (pl_timestamp p)"
    "part 436 4 bs = put_le32 (of_nat (fixed_part (infer_version p)))"
    "part 440 32 bs = marshal_bytes32_le (xp_base_fee p)" "part 472 32 bs = pl_block_hash p"
    "part 504 4 bs = put_le32 (of_nat (fixed_part (infer_version p) + length (xp_extra_data p)))"
  using assms(1)
  by (simp_all add: assms(2) marshal_fixed_def wf_exec_payload_def Let_def part_skip part_hit base_fee_roundtrip)

lemma withdrawals_field:
  assumes "wf_exec_payload p" "bs = marshal_fixed p @ rest" "pl_withdrawals p = Some ws"
  shows "part 508 4 bs = put_le32 (of_nat (fixed_part (infer_version p) + length (xp_extra_data p) +
    transaction_size (pl_transactions p)))"
  using assms(1)
  by (simp add: assms(2,3) marshal_fixed_def wf_exec_payload_def Let_def part_skip part_hit base_fee_roundtrip)

lemma marshal_ssz_Inr:
  assumes "marshal_ssz p = Inr bs"
  shows "bs = marshal_fixed p @ xp_extra_data p @ marshal_transactions (pl_transactions p) @ marshal_tail p"
    "size_ssz p < 2 ^ 32"
  using assms by (auto simp: marshal_ssz_def marshal_tail_def split: if_splits)

lemma length_marshal_ssz:
  assumes "marshal_ssz p = Inr bs" "wf_exec_payload p"
  shows "length bs = size_ssz p"
  using marshal_ssz_Inr(1) [OF assms(1)] assms(2)
  by (simp add: length_marshal_fixed length_marshal_transactions length_marshal_tail size_ssz_def)

lemma unmarshal_marshal_ssz:
  assumes m: "marshal_ssz p = Inr bs" and w: "wf_exec_payload p"
  shows "unmarshal_ssz (infer_version p) (length bs) pool bs = Inr p"
proof -
  note bs = marshal_ssz_Inr(1) [OF m]
  define v where "v = infer_version p"
  define n where "n = fixed_part v"
  define e where "e = length (xp_extra_data p)"
  define t where "t = transaction_size (pl_transactions p)"
  have len: "length bs = n + e + t + withdrawal_size p" "length bs < 2 ^ 32"
    using length_marshal_ssz [OF m w] marshal_ssz_Inr(2) [OF m] by (simp_all add: size_ssz_def n_def e_def t_def v_def)
  have e: "e \<le> 32" using w by (simp add: wf_exec_payload_def e_def)
  note f = fixed_fields [OF w bs, folded v_def, folded n_def e_def]
  have offs: "unat (get_le32 (part 436 4 bs)) = n" "unat (get_le32 (part 504 4 bs)) = n + e"
    using len by (simp_all add: f unat_small del: of_nat_add)
  have drops: "drop n bs = xp_extra_data p @ marshal_transactions (pl_transactions p) @ marshal_tail p"
    using bs length_marshal_fixed [OF w] by (simp add: n_def v_def)
  have extra: "part n e bs = xp_extra_data p" by (simp add: part_def drops e_def)
  have "drop (n + e) bs = drop e (drop n bs)" by (simp add: add.commute)
  then have de: "drop (n + e) bs = marshal_transactions (pl_transactions p) @ marshal_tail p" by (simp add: drops e_def)
  have t: "length (marshal_transactions (pl_transactions p)) = t" by (simp add: t_def length_marshal_transactions)
  have region: "part (n + e) (n + e + t - (n + e)) (bs @ more) = marshal_transactions (pl_transactions p)" for more
    using len t by (simp add: part_def de)
  have txs: "unmarshal_transactions (marshal_transactions (pl_transactions p)) = Inr (pl_transactions p)"
    using w len t by (intro unmarshal_marshal_transactions) (simp_all add: wf_exec_payload_def)
  have base: "unmarshal_bytes32_le (part 440 32 bs) = xp_base_fee p" by (simp add: f base_fee_roundtrip)
  show ?thesis
  proof (cases "pl_withdrawals p")
    case None
    then have v: "v = BlockV1" and l: "length bs = n + e + t"
      using len by (simp_all add: v_def infer_version_def withdrawal_size_def)
    show ?thesis
      unfolding v_def [symmetric] unmarshal_ssz_def Let_def n_def [symmetric]
      using l e region [of "drop (length bs) pool"] txs None
      by (cases p) (simp add: v offs extra f(1-10,13) base)
  next
    case (Some ws)
    then have v: "v = BlockV2" and l: "length bs = n + e + t + length ws * withdrawal_bytes"
      using len by (simp_all add: v_def infer_version_def withdrawal_size_def)
    have wo: "unat (get_le32 (part 508 4 bs)) = n + e + t"
      using withdrawals_field [OF w bs Some, folded v_def, folded n_def e_def t_def] len
      by (simp add: unat_small del: of_nat_add)
    have "drop (n + e + t) bs = drop t (drop (n + e) bs)" by (simp add: add.commute)
    then have "drop (n + e + t) bs = marshal_withdrawals ws" using t by (simp add: de marshal_tail_def Some)
    moreover have "unmarshal_withdrawals (marshal_withdrawals ws) = Inr ws"
      using w Some by (intro unmarshal_marshal_withdrawals) (simp_all add: wf_exec_payload_def)
    ultimately have ws: "unmarshal_withdrawals (drop (n + e + t) bs) = Inr ws" by simp
    show ?thesis
      unfolding v_def [symmetric] unmarshal_ssz_def Let_def n_def [symmetric]
      using l e region [of "drop (length bs) pool"] txs Some ws
      by (cases p) (simp add: v offs wo extra f(1-10,13) base)
  qed
qed

section \<open>What the decoder accepts\<close>

lemma put_le32_unat: "unat (get_le32 bs) = n \<Longrightarrow> length bs = 4 \<Longrightarrow> put_le32 (of_nat n) = bs"
  using put_get_le32 by auto

lemma take_part_drop: "a \<le> b \<Longrightarrow> part a (b - a) bs @ drop b bs = drop a bs"
  by (simp add: part_def) (metis append_take_drop_id drop_drop le_add_diff_inverse2)

lemma read_transactions_bytes:
  "read_transactions r k i cur = Inr txs \<Longrightarrow> 0 < k \<Longrightarrow> cur \<le> length r \<Longrightarrow> 4 * (i + k) \<le> length r \<Longrightarrow>
   length txs = k \<and> concat txs = drop cur r \<and>
   tx_offsets cur txs = put_le32 (of_nat cur) @ part (4 * (i + 1)) (4 * (k - 1)) r"
proof (induction r k i cur arbitrary: txs rule: read_transactions.induct)
  case (2 r k i cur)
  define nx where "nx = (if k = 0 then length r else unat (get_le32 (part (4 * (i + 1)) 4 r)))"
  have nx: "cur \<le> nx" "nx \<le> length r" using 2(2) by (auto simp: nx_def Let_def split: if_splits)
  then obtain ts where ts: "read_transactions r k (i + 1) nx = Inr ts" "txs = part cur (nx - cur) r # ts"
    using 2(2) by (auto simp: nx_def [symmetric] Let_def rbind_eq_Inr)
  have len: "length (part cur (nx - cur) r) = nx - cur" using nx by (intro length_part) simp
  show ?case
  proof (cases k)
    case 0
    then show ?thesis using ts nx len by (simp add: nx_def part_def)
  next
    case (Suc j)
    have "\<not> (nx < cur \<or> nx > length r)" using nx by simp
    from 2(1) [OF nx_def this ts(1)] Suc nx 2(5)
    have ih: "length ts = k" "concat ts = drop nx r"
        "tx_offsets nx ts = put_le32 (of_nat nx) @ part (4 * (i + 2)) (4 * (k - 1)) r"
      by (simp_all add: add.commute)
    have "length (part (4 * (i + 1)) 4 r) = 4" using 2(5) Suc by (intro length_part) simp
    then have "put_le32 (of_nat nx) = part (4 * (i + 1)) 4 r"
      by (rule put_le32_unat [rotated]) (simp add: nx_def Suc)
    moreover have "part (4 * (i + 1)) 4 r @ part (4 * (i + 2)) (4 * (k - 1)) r = part (4 * (i + 1)) (4 * k) r"
      using part_append [of "4 * (i + 1)" 4 r "4 * (k - 1)"] Suc by (simp add: algebra_simps)
    ultimately show ?thesis using ih ts(2) nx len take_part_drop [OF nx(1)] by simp
  qed
qed simp

lemma unmarshal_transactions_bytes:
  assumes "unmarshal_transactions r = Inr txs" "txs = [] \<Longrightarrow> r = []"
  shows "marshal_transactions txs = r \<and> length txs \<le> max_transactions_per_payload"
proof (cases "r = []")
  case True
  then show ?thesis using assms by (auto simp: unmarshal_transactions_def marshal_transactions_def)
next
  case False
  define k where "k = unat (get_le32 (take 4 r)) div 4"
  have first: "unat (get_le32 (take 4 r)) = 4 * k" "4 * k \<le> length r" "4 \<le> length r"
      "k \<le> max_transactions_per_payload" "read_transactions r k 0 (4 * k) = Inr txs"
    using assms(1) False by (auto simp: unmarshal_transactions_def Let_def k_def split: if_splits)
  have "0 < k" using first(5) assms(2) False by (cases k) auto
  note t = read_transactions_bytes [OF first(5) this first(2)]
  have t: "length txs = k" "concat txs = drop (4 * k) r"
      "tx_offsets (4 * k) txs = put_le32 (of_nat (4 * k)) @ part 4 (4 * (k - 1)) r"
    using t first(2) by simp_all
  have "put_le32 (of_nat (4 * k)) = take 4 r" using first by (intro put_le32_unat) simp_all
  moreover have "4 + 4 * (k - 1) = 4 * k" using \<open>0 < k\<close> by simp
  ultimately have "tx_offsets (4 * k) txs = take (4 * k) r"
    using t(3) part_append [of 0 4 r "4 * (k - 1)"] by (simp add: part_def)
  then show ?thesis using t(1,2) first(4) by (simp add: marshal_transactions_def mult.commute)
qed

lemma empty_transactions: "unmarshal_transactions r = Inr txs \<Longrightarrow> length txs \<le> max_transactions_per_payload"
  using unmarshal_transactions_bytes [of r txs] by (cases "txs = []") (simp, blast)

lemma read_withdrawals_bytes:
  "length bs = n * withdrawal_bytes \<Longrightarrow>
   marshal_withdrawals (read_withdrawals n bs) = bs \<and> length (read_withdrawals n bs) = n \<and>
   list_all (\<lambda>w. length (wd_address w) = 20) (read_withdrawals n bs)"
proof (induction n bs rule: read_withdrawals.induct)
  case (2 n bs)
  have l: "44 \<le> length bs" using 2(2) by (simp add: withdrawal_bytes_def)
  have "part 0 8 bs @ part 8 8 bs @ part 16 20 bs @ part 36 8 bs = take 44 bs"
    using part_append [of 0 8 bs 8] part_append [of 0 16 bs 20] part_append [of 0 36 bs 8]
    by (simp add: part_def) (metis append_assoc)
  moreover have "length (part 0 8 bs) = 8" "length (part 8 8 bs) = 8" "length (part 36 8 bs) = 8"
      "length (part 16 20 bs) = 20"
    using l by (simp_all add: part_def)
  ultimately have "marshal_withdrawals (read_withdrawals (Suc n) bs) =
      take 44 bs @ marshal_withdrawals (read_withdrawals n (drop 44 bs))" "length (part 16 20 bs) = 20"
    by (simp_all add: marshal_withdrawals_def marshal_withdrawal_def put_get_le64 withdrawal_bytes_def)
  moreover have "length (drop withdrawal_bytes bs) = n * withdrawal_bytes" using 2(2) by simp
  ultimately show ?case using 2(1) by (simp add: withdrawal_bytes_def)
qed (simp add: marshal_withdrawals_def)

lemma unmarshal_withdrawals_bytes:
  assumes "unmarshal_withdrawals bs = Inr ws"
  shows "marshal_withdrawals ws = bs \<and> length ws \<le> max_withdrawals_per_payload \<and>
    list_all (\<lambda>w. length (wd_address w) = 20) ws"
proof -
  have "length bs mod withdrawal_bytes = 0" using assms by (auto simp: unmarshal_withdrawals_def split: if_splits)
  then have "length bs = length bs div withdrawal_bytes * withdrawal_bytes"
    by (metis add.right_neutral div_mult_mod_eq)
  from read_withdrawals_bytes [OF this] show ?thesis
    using assms by (auto simp: unmarshal_withdrawals_def split: if_splits)
qed

lemma unmarshal_ssz_cases:
  assumes "unmarshal_ssz v (length bs) pool bs = Inr p" "length bs < 2 ^ 32"
  defines "txOff \<equiv> unat (get_le32 (part 504 4 bs))"
    and "wOff \<equiv> (if v = BlockV2 then unat (get_le32 (part 508 4 bs)) else length bs)"
  shows "fixed_part v \<le> length bs" "unat (get_le32 (part 436 4 bs)) = fixed_part v"
    "fixed_part v \<le> txOff" "txOff \<le> fixed_part v + 32" "txOff \<le> wOff" "wOff \<le> length bs"
    "unmarshal_transactions (part txOff (wOff - txOff) bs) = Inr (pl_transactions p)"
    "xp_extra_data p = part (fixed_part v) (txOff - fixed_part v) bs"
    "case pl_withdrawals p of None \<Rightarrow> v = BlockV1
     | Some ws \<Rightarrow> v = BlockV2 \<and> unmarshal_withdrawals (drop wOff bs) = Inr ws"
    "pl_parent_hash p = part 0 32 bs" "xp_fee_recipient p = part 32 20 bs" "xp_state_root p = part 52 32 bs"
    "xp_receipts_root p = part 84 32 bs" "xp_logs_bloom p = part 116 256 bs" "pl_prev_randao p = part 372 32 bs"
    "pl_block_number p = get_le64 (part 404 8 bs)" "pl_gas_limit p = get_le64 (part 412 8 bs)"
    "xp_gas_used p = get_le64 (part 420 8 bs)" "pl_timestamp p = get_le64 (part 428 8 bs)"
    "xp_base_fee p = unmarshal_bytes32_le (part 440 32 bs)" "pl_block_hash p = part 472 32 bs"
proof -
  define q where "q txs = \<lparr>pl_parent_hash = part 0 32 bs, pl_prev_randao = part 372 32 bs,
      pl_block_number = get_le64 (part 404 8 bs), pl_gas_limit = get_le64 (part 412 8 bs),
      pl_timestamp = get_le64 (part 428 8 bs), pl_block_hash = part 472 32 bs,
      pl_withdrawals = None, pl_transactions = txs,
      xp_fee_recipient = part 32 20 bs, xp_state_root = part 52 32 bs,
      xp_receipts_root = part 84 32 bs, xp_logs_bloom = part 116 256 bs,
      xp_gas_used = get_le64 (part 420 8 bs), xp_extra_data = part (fixed_part v) (txOff - fixed_part v) bs,
      xp_base_fee = unmarshal_bytes32_le (part 440 32 bs)\<rparr>" for txs
  have g: "fixed_part v \<le> length bs" "unat (get_le32 (part 436 4 bs)) = fixed_part v"
      "fixed_part v \<le> txOff" "txOff \<le> fixed_part v + 32" "txOff \<le> wOff" "wOff \<le> length (bs @ drop (length bs) pool)"
      "txOff \<le> length bs"
    using assms(1) by (auto simp: unmarshal_ssz_def Let_def txOff_def wOff_def split: if_splits)
  then obtain txs where txs: "unmarshal_transactions (part txOff (wOff - txOff) (bs @ drop (length bs) pool)) = Inr txs"
      "if v = BlockV1 then p = q txs
       else wOff \<le> length bs \<and> (\<exists>ws. unmarshal_withdrawals (drop wOff bs) = Inr ws \<and> p = (q txs)\<lparr>pl_withdrawals := Some ws\<rparr>)"
    using assms(1) unfolding q_def
    by (auto simp: unmarshal_ssz_def Let_def rbind_eq_Inr txOff_def wOff_def split: if_splits)
  have w: "wOff \<le> length bs" using txs(2) by (cases v) (simp_all add: wOff_def)
  then have "part txOff (wOff - txOff) (bs @ drop (length bs) pool) = part txOff (wOff - txOff) bs"
    using g(5) by (intro part_left) simp
  then show "unmarshal_transactions (part txOff (wOff - txOff) bs) = Inr (pl_transactions p)"
    using txs by (auto simp: q_def split: if_splits)
  show "case pl_withdrawals p of None \<Rightarrow> v = BlockV1
     | Some ws \<Rightarrow> v = BlockV2 \<and> unmarshal_withdrawals (drop wOff bs) = Inr ws"
    using txs(2) by (cases v) (auto simp: q_def)
  have p: "\<exists>w. p = (q txs)\<lparr>pl_withdrawals := w\<rparr>" using txs(2) by (auto simp: q_def split: if_splits)
  show "fixed_part v \<le> length bs" "unat (get_le32 (part 436 4 bs)) = fixed_part v"
    "fixed_part v \<le> txOff" "txOff \<le> fixed_part v + 32" "txOff \<le> wOff" "wOff \<le> length bs"
    using g w by simp_all
  show "xp_extra_data p = part (fixed_part v) (txOff - fixed_part v) bs"
    "pl_parent_hash p = part 0 32 bs" "xp_fee_recipient p = part 32 20 bs" "xp_state_root p = part 52 32 bs"
    "xp_receipts_root p = part 84 32 bs" "xp_logs_bloom p = part 116 256 bs" "pl_prev_randao p = part 372 32 bs"
    "pl_block_number p = get_le64 (part 404 8 bs)" "pl_gas_limit p = get_le64 (part 412 8 bs)"
    "xp_gas_used p = get_le64 (part 420 8 bs)" "pl_timestamp p = get_le64 (part 428 8 bs)"
    "xp_base_fee p = unmarshal_bytes32_le (part 440 32 bs)" "pl_block_hash p = part 472 32 bs"
    using p by (auto simp: q_def)
qed

lemma unmarshalled_wf:
  assumes "unmarshal_ssz v (length bs) pool bs = Inr p" "length bs < 2 ^ 32"
  shows "wf_exec_payload p \<and> infer_version p = v"
proof -
  note c = unmarshal_ssz_cases [OF assms]
  have "508 \<le> length bs" using c(1) by (simp add: fixed_part_simps split: if_splits)
  then have "length (pl_parent_hash p) = 32" "length (xp_fee_recipient p) = 20" "length (xp_state_root p) = 32"
      "length (xp_receipts_root p) = 32" "length (xp_logs_bloom p) = 256" "length (pl_prev_randao p) = 32"
      "length (pl_block_hash p) = 32"
    by (simp_all add: c length_part)
  moreover have "length (xp_extra_data p) \<le> 32" using c(4,8) by (simp add: part_def)
  moreover have "length (pl_transactions p) \<le> max_transactions_per_payload" by (rule empty_transactions [OF c(7)])
  moreover have "case pl_withdrawals p of None \<Rightarrow> v = BlockV1
     | Some ws \<Rightarrow> v = BlockV2 \<and> length ws \<le> max_withdrawals_per_payload \<and> list_all (\<lambda>w. length (wd_address w) = 20) ws"
    using c(9) unmarshal_withdrawals_bytes by (auto split: option.splits)
  ultimately show ?thesis
    unfolding wf_exec_payload_def infer_version_def by (auto split: option.splits)
qed

lemma part_join: "j = i + m \<Longrightarrow> part i m bs @ part j n bs @ xs = part i (m + n) bs @ xs"
  using part_append [of i m bs n] by (metis append_assoc)

lemma part_join_last: "j = i + m \<Longrightarrow> part i m bs @ part j n bs = part i (m + n) bs"
  by (simp add: part_append)

lemma marshalled_fixed_bytes:
  assumes u: "unmarshal_ssz v (length bs) pool bs = Inr p" and len: "length bs < 2 ^ 32"
    and off: "unat (get_le32 (part 504 4 bs)) = fixed_part v + length (xp_extra_data p)"
    and woff: "v = BlockV2 \<Longrightarrow> unat (get_le32 (part 508 4 bs)) =
      fixed_part v + length (xp_extra_data p) + transaction_size (pl_transactions p)"
  shows "marshal_fixed p = part 0 (fixed_part v) bs"
proof -
  note c = unmarshal_ssz_cases [OF u len]
  have v: "infer_version p = v" using unmarshalled_wf [OF u len] by simp
  have l: "508 \<le> length bs" using c(1) by (simp add: fixed_part_simps split: if_splits)
  have w: "put_le32 (of_nat (fixed_part v)) = part 436 4 bs"
      "put_le32 (of_nat (fixed_part v + length (xp_extra_data p))) = part 504 4 bs"
    using l c(2) off by (intro put_le32_unat; simp add: length_part)+
  have x: "put_le64 (pl_block_number p) = part 404 8 bs" "put_le64 (pl_gas_limit p) = part 412 8 bs"
      "put_le64 (xp_gas_used p) = part 420 8 bs" "put_le64 (pl_timestamp p) = part 428 8 bs"
      "marshal_bytes32_le (xp_base_fee p) = part 440 32 bs"
    using l by (simp_all add: c put_get_le64 base_fee_bytes length_part)
  show ?thesis
  proof (cases "pl_withdrawals p")
    case None
    then have "fixed_part v = 508" using v by (simp add: fixed_part_simps split: if_splits)
    then show ?thesis using w
      by (simp add: marshal_fixed_def Let_def v x None c(10-15,21) part_join part_join_last
          del: of_nat_add)
  next
    case (Some ws)
    then have v2: "v = BlockV2" using v by (simp add: infer_version_def)
    have "length (part 508 4 bs) = 4" using c(1) v2 by (intro length_part) (simp add: fixed_part_simps)
    then have "put_le32 (of_nat (fixed_part v + length (xp_extra_data p) + transaction_size (pl_transactions p))) =
        part 508 4 bs"
      using woff [OF v2] by (intro put_le32_unat) simp_all
    moreover have "fixed_part v = 512" by (simp add: v2 fixed_part_simps)
    ultimately show ?thesis using w
      by (simp add: marshal_fixed_def Let_def v x Some c(10-15,21) part_join part_join_last
          del: of_nat_add)
  qed
qed

lemma marshal_unmarshal_ssz:
  assumes u: "unmarshal_ssz v (length bs) pool bs = Inr p" and len: "length bs < 2 ^ 32"
    and size: "size_ssz p = length bs"
  shows "marshal_ssz p = Inr bs"
proof -
  note c = unmarshal_ssz_cases [OF u len]
  define n where "n = fixed_part v"
  define t where "t = unat (get_le32 (part 504 4 bs))"
  define w where "w = (if v = BlockV2 then unat (get_le32 (part 508 4 bs)) else length bs)"
  note c = c [folded t_def w_def n_def]
  have wf: "wf_exec_payload p" and v: "infer_version p = v" using unmarshalled_wf [OF u len] by simp_all
  have e: "length (xp_extra_data p) = t - n" using c by (simp add: length_part)
  have tail: "marshal_tail p = drop w bs" "withdrawal_size p = length bs - w"
  proof -
    show m: "marshal_tail p = drop w bs"
    proof (cases "pl_withdrawals p")
      case None
      then have "w = length bs" using v by (auto simp: w_def infer_version_def)
      then show ?thesis by (simp add: marshal_tail_def None)
    next
      case (Some ws)
      then show ?thesis using c(9) unmarshal_withdrawals_bytes by (auto simp: marshal_tail_def)
    qed
    then show "withdrawal_size p = length bs - w" using length_marshal_tail [OF wf] by simp
  qed
  have ts: "transaction_size (pl_transactions p) = w - t"
    using size tail(2) e c(3,5,6) by (simp add: size_ssz_def v n_def [symmetric])
  have region: "length (part t (w - t) bs) = w - t" using c(5,6) by (intro length_part) simp
  have "marshal_transactions (pl_transactions p) = part t (w - t) bs"
  proof (rule unmarshal_transactions_bytes [OF c(7), THEN conjunct1])
    assume "pl_transactions p = []"
    then have "w - t = 0" using ts by (simp add: transaction_size_def)
    then show "part t (w - t) bs = []" by simp
  qed
  moreover have "marshal_fixed p = part 0 n bs"
    unfolding n_def
  proof (rule marshalled_fixed_bytes [OF u len])
    show "unat (get_le32 (part 504 4 bs)) = fixed_part v + length (xp_extra_data p)"
      using e c(3) by (simp add: t_def n_def)
    show "unat (get_le32 (part 508 4 bs)) = fixed_part v + length (xp_extra_data p) + transaction_size (pl_transactions p)"
      if "v = BlockV2"
      using that e ts c(3,5) by (simp add: t_def n_def w_def)
  qed
  moreover have "part 0 n bs @ part n (t - n) bs @ part t (w - t) bs @ drop w bs = bs"
    using take_part_drop [OF c(5), of bs] take_part_drop [OF c(3), of bs] by (simp add: part_def)
  ultimately have "marshal_fixed p @ xp_extra_data p @ marshal_transactions (pl_transactions p) @ marshal_tail p = bs"
    by (simp add: c(8) tail)
  moreover have "\<not> (of_nat (length (xp_extra_data p)) :: u32) > - 1 - of_nat (fixed_part (infer_version p))"
    using wf unat_small [of "length (xp_extra_data p)"]
    by (simp add: wf_exec_payload_def word_less_nat_alt fixed_part_simps)
  ultimately show ?thesis using size len by (simp add: marshal_ssz_def marshal_tail_def)
qed

text \<open>C38. The SSZ decoder accepts exactly what the encoder writes, up to one kind of slack. The bytes that
  \<^verbatim>\<open>MarshalSSZ\<close> writes for a payload with fields of their lengths and the limits kept are read back as
  that payload, whatever the buffer of the pool held. And whatever bytes \<^verbatim>\<open>UnmarshalSSZ\<close> accepts
  give a payload with fields of their lengths and the limits kept, in the version asked for, that is encoded to those very bytes
  if it has their size (it has not, when the transactions are given as an empty list with data behind it).\<close>

theorem ssz_codec:
  assumes "length bs < 2 ^ 32"
  shows "unmarshal_ssz v (length bs) pool bs = Inr p \<and> size_ssz p = length bs \<longleftrightarrow>
    marshal_ssz p = Inr bs \<and> wf_exec_payload p \<and> infer_version p = v"
proof
  assume u: "unmarshal_ssz v (length bs) pool bs = Inr p \<and> size_ssz p = length bs"
  show "marshal_ssz p = Inr bs \<and> wf_exec_payload p \<and> infer_version p = v"
    using marshal_unmarshal_ssz [OF _ assms, of v pool p] unmarshalled_wf [OF _ assms, of v pool p] u by blast
next
  assume m: "marshal_ssz p = Inr bs \<and> wf_exec_payload p \<and> infer_version p = v"
  show "unmarshal_ssz v (length bs) pool bs = Inr p \<and> size_ssz p = length bs"
    using unmarshal_marshal_ssz [of p bs pool] length_marshal_ssz [of p bs] m by simp
qed

definition demo_exec_payload :: exec_payload where
  "demo_exec_payload =
     \<lparr>pl_parent_hash = replicate 32 1, pl_prev_randao = replicate 32 2, pl_block_number = 7, pl_gas_limit = 30000000,
      pl_timestamp = 1000, pl_block_hash = replicate 32 3, pl_withdrawals = Some [],
      pl_transactions = [[126, 1], [2]], xp_fee_recipient = replicate 20 4, xp_state_root = replicate 32 5,
      xp_receipts_root = replicate 32 6, xp_logs_bloom = replicate 256 0, xp_gas_used = 21000,
      xp_extra_data = [9], xp_base_fee = (1, 0, 0, 0)\<rparr>"

lemma demo_exec_wf:
  "wf_exec_payload demo_exec_payload" "infer_version demo_exec_payload = BlockV2"
  "size_ssz demo_exec_payload = 524" "\<exists>bs. marshal_ssz demo_exec_payload = Inr bs"
proof -
  show w: "wf_exec_payload demo_exec_payload" and v: "infer_version demo_exec_payload = BlockV2"
    by (simp_all add: wf_exec_payload_def demo_exec_payload_def infer_version_def
        max_transactions_per_payload_def)
  show "size_ssz demo_exec_payload = 524"
    unfolding size_ssz_def v
    by (simp add: demo_exec_payload_def transaction_size_def withdrawal_size_def fixed_part_simps)
  then show "\<exists>bs. marshal_ssz demo_exec_payload = Inr bs"
    unfolding marshal_ssz_def v
    by (simp add: demo_exec_payload_def word_less_nat_alt fixed_part_simps)
qed

theorem ssz_codec_witness:
  "\<exists>bs. length bs = 524 \<and> marshal_ssz demo_exec_payload = Inr bs \<and>
     unmarshal_ssz BlockV2 (length bs) [] bs = Inr demo_exec_payload"
proof -
  obtain bs where bs: "marshal_ssz demo_exec_payload = Inr bs" using demo_exec_wf(4) by blast
  then have "length bs = 524" using length_marshal_ssz demo_exec_wf by metis
  then show ?thesis using ssz_codec [of bs BlockV2 "[]" demo_exec_payload] bs demo_exec_wf by auto
qed

section \<open>Slack, and a late check\<close>

text \<open>An offset of zero for the first transaction gives an empty list, whatever follows.\<close>

lemma ignored_transactions: "length junk < 2 ^ 30 \<Longrightarrow> unmarshal_transactions (put_le32 0 @ junk) = Inr []"
  by (simp add: unmarshal_transactions_def Let_def)

text \<open>The transactions are cut out of the buffer before the offset of the withdrawals is compared with the
  scope. Beyond the capacity of the buffer that is a panic; up to it, the bytes that are decoded
  first are those of earlier payloads.\<close>

lemma late_offset_check:
  assumes "512 \<le> length bs" "unat (get_le32 (part 436 4 bs)) = 512" "unat (get_le32 (part 504 4 bs)) = 512"
    and "max (length bs) (length pool) < unat (get_le32 (part 508 4 bs))"
  shows "unmarshal_ssz BlockV2 (length bs) pool bs = Inl SszPanic"
proof -
  have "length bs + (length pool - length bs) < unat (get_le32 (part 508 4 bs))" using assms(4) by arith
  then show ?thesis using assms(1-3) by (simp add: unmarshal_ssz_def Let_def fixed_part_simps)
qed

lemma late_offset_stale:
  assumes "512 \<le> length bs" "unat (get_le32 (part 436 4 bs)) = 512" "unat (get_le32 (part 504 4 bs)) = 512"
    and "length bs < unat (get_le32 (part 508 4 bs))" "unat (get_le32 (part 508 4 bs)) \<le> length pool"
  shows "unmarshal_ssz BlockV2 (length bs) pool bs =
    (case unmarshal_transactions (part 512 (unat (get_le32 (part 508 4 bs)) - 512) (bs @ drop (length bs) pool)) of
       Inl e \<Rightarrow> Inl e | Inr _ \<Rightarrow> Inl WithdrawalsOutOfScope)"
  using assms by (simp add: unmarshal_ssz_def Let_def fixed_part_simps split: sum.split)

end
