(* ===== verification/P2p_Gossip_Props.thy ===== *)
theory P2p_Gossip_Props
  imports P2p_Gossip P2p_Ssz_Props
begin

text \<open>
  What a validated block is: signed by the sequencer, fresh, consistent, and new at its height; and the
  sequencer's own blocks are.
\<close>

section \<open>The validator's steps\<close>

lemma check_payload_iff:
  "check_payload env v now p \<longleftrightarrow>
     \<not> pl_timestamp p < now - 60 \<and> \<not> pl_timestamp p > now + 5 \<and>
     he_header_hash (ge_hash env) (header_of (ge_hash env) p) = pl_block_hash p \<and>
     pl_withdrawals p = (if v = BlockV2 then Some [] else None)"
  by (cases v) (auto simp: check_payload_def check_block_hash_def Let_def)

lemma validate_cases:
  assumes "validate_block env l v now pool msg s = (r, po, s')"
  shows "(r \<noteq> ValidationAccept \<and> po = None \<and> s' = s) \<or>
    (\<exists>sig payloadBytes p. ge_unsnappy env msg = Some (sig @ payloadBytes) \<and> length sig = 65 \<and>
       verify_block_signature env sig payloadBytes = ValidationAccept \<and>
       unmarshal_ssz v (length payloadBytes) pool payloadBytes = Inr p \<and> check_payload env v now p \<and>
       check_seen l p s = (r, po, s'))"
proof -
  consider (quick) "r \<noteq> ValidationAccept" "po = None" "s' = s" | (full) data p where
      "ge_unsnappy env msg = Some data" "65 \<le> length data"
      "verify_block_signature env (take 65 data) (drop 65 data) = ValidationAccept"
      "unmarshal_ssz v (length (drop 65 data)) pool (drop 65 data) = Inr p" "check_payload env v now p"
      "check_seen l p s = (r, po, s')"
    using assms
    by (auto simp: validate_block_def Let_def split: option.splits if_splits sum.splits)
  then show ?thesis
  proof cases
    case full
    then have "ge_unsnappy env msg = Some (take 65 data @ drop 65 data)" "length (take 65 data) = 65" by simp_all
    then show ?thesis using full by blast
  qed simp
qed

lemma signature_accepted:
  "verify_block_signature env sig payloadBytes = ValidationAccept \<longleftrightarrow>
     ge_sequencer env \<noteq> replicate 20 0 \<and>
     (\<exists>h. block_signing_hash (ge_keccak env) (ge_cfg env) payloadBytes = Inr h \<and>
        ge_recover env h sig = Some (ge_sequencer env))"
  by (auto simp: verify_block_signature_def split: sum.splits option.splits if_splits)

section \<open>Blocks seen\<close>

text \<open>Every height of the cache has a list of its own, with no hash twice and at most six.\<close>

definition seen_inv :: "(u64, nat, 'c) lru \<Rightarrow> 'c gossip_state \<Rightarrow> bool" where
  "seen_inv l s \<longleftrightarrow>
     (\<forall>height i. lru_view l (gs_heights s) height = Some i \<longrightarrow> i < length (gs_seen s)) \<and>
     inj_on (lru_view l (gs_heights s)) (dom (lru_view l (gs_heights s))) \<and>
     list_all (\<lambda>hs. distinct hs \<and> length hs \<le> 6) (gs_seen s)"

lemma lru_get_view:
  assumes "lru_ok l" "lru_get l k c = (r, c')"
  shows "r = lru_view l c k \<and> lru_view l c' = lru_view l c"
proof -
  have "fst (lru_get l k c) = lru_view l c k" "lru_view l (snd (lru_get l k c)) = lru_view l c"
    using assms(1) by (simp_all add: lru_ok_def)
  then show ?thesis using assms(2) by simp
qed

lemma lru_add_view:
  assumes "lru_ok l" "lru_add l k v c = (r, c')"
  shows "lru_view l c' k = Some v"
    and "k' \<noteq> k \<Longrightarrow> lru_view l c' k' = lru_view l c k' \<or> lru_view l c' k' = None"
proof -
  have "case lru_add l k v c of (None, c') \<Rightarrow> lru_view l c' = (lru_view l c)(k \<mapsto> v)
      | (Some (k', v'), c') \<Rightarrow> k' \<noteq> k \<and> lru_view l c k' = Some v' \<and>
          lru_view l c' = ((lru_view l c)(k \<mapsto> v))(k' := None)"
    by (rule assms(1) [unfolded lru_ok_def, THEN conjunct2, THEN conjunct1, THEN spec, THEN spec, THEN spec])
  then show "lru_view l c' k = Some v" "k' \<noteq> k \<Longrightarrow> lru_view l c' k' = lru_view l c k' \<or> lru_view l c' k' = None"
    using assms(2) by (auto split: option.splits if_splits)
qed

lemma inj_on_fresh:
  assumes f: "inj_on f (dom f)" "\<And>k j. f k = Some j \<Longrightarrow> j < (n :: nat)"
    and g: "g h = Some n" "\<And>k. k \<noteq> h \<Longrightarrow> g k = f k \<or> g k = None"
  shows "inj_on g (dom g)"
proof (rule inj_onI)
  fix x y assume "x \<in> dom g" "y \<in> dom g" "g x = g y"
  then obtain j where j: "g x = Some j" "g y = Some j" by auto
  have old: "f k = Some j" if "k \<noteq> h" "g k = Some j" for k using g(2) [OF that(1)] that(2) by simp
  show "x = y"
  proof (cases "x = h")
    case True
    then have "j = n" using j(1) g(1) by simp
    then have "f y \<noteq> Some j" using f(2) [of y j] by auto
    then show ?thesis using old [of y] j(2) True by blast
  next
    case False
    then have x: "f x = Some j" using old j(1) by blast
    then have "j \<noteq> n" using f(2) [of x j] by simp
    then have "y \<noteq> h" using j(2) g(1) by auto
    then have "f y = Some j" using old j(2) by blast
    then show ?thesis using inj_onD [OF f(1), of x y] x by auto
  qed
qed

lemma seen_at_inv:
  assumes "lru_ok l" "seen_at l height s = (i, s1)" "seen_inv l s"
  shows "seen_inv l s1 \<and> lru_view l (gs_heights s1) height = Some i"
proof (cases "lru_get l height (gs_heights s)")
  case (Pair r c)
  note g = lru_get_view [OF assms(1) Pair]
  show ?thesis
  proof (cases r)
    case (Some j)
    then have "i = j" "s1 = s\<lparr>gs_heights := c\<rparr>" using assms(2) by (simp_all add: seen_at_def Pair)
    then show ?thesis using assms(3) g Some by (simp add: seen_inv_def)
  next
    case None
    define n where "n = length (gs_seen s)"
    obtain e c' where a: "lru_add l height n c = (e, c')" by fastforce
    have "seen_at l height s = (n, s\<lparr>gs_heights := c', gs_seen := gs_seen s @ [[]]\<rparr>)"
      using a by (simp add: seen_at_def Pair None n_def)
    then have s1: "i = n" "s1 = s\<lparr>gs_heights := c', gs_seen := gs_seen s @ [[]]\<rparr>" using assms(2) by simp_all
    have va: "lru_view l c' height = Some n"
      "\<And>k. k \<noteq> height \<Longrightarrow> lru_view l c' k = lru_view l (gs_heights s) k \<or> lru_view l c' k = None"
      using lru_add_view [OF assms(1) a] g by simp_all
    have old: "lru_view l (gs_heights s) k = Some j \<Longrightarrow> j < n" for k j
      using assms(3) unfolding seen_inv_def n_def by blast
    have "inj_on (lru_view l (gs_heights s)) (dom (lru_view l (gs_heights s)))"
      using assms(3) unfolding seen_inv_def by blast
    from inj_on_fresh [OF this old va] have "inj_on (lru_view l c') (dom (lru_view l c'))" .
    moreover have "j < Suc n" if "lru_view l c' k = Some j" for k j
    proof (cases "k = height")
      case False
      then show ?thesis using va(2) [OF False] that old [of k j] by simp
    qed (use that va(1) in simp)
    moreover have "list_all (\<lambda>hs. distinct hs \<and> length hs \<le> 6) (gs_seen s1)"
      using assms(3) s1(2) by (simp add: seen_inv_def)
    ultimately show ?thesis unfolding seen_inv_def using va(1) s1 by (simp add: n_def)
  qed
qed

lemma check_seen_inv:
  assumes "lru_ok l" "check_seen l p s = (r, po, s')" "seen_inv l s"
  shows "seen_inv l s'"
    and "r = ValidationAccept \<Longrightarrow> po = Some p \<and> (\<exists>i earlier. lru_view l (gs_heights s') (pl_block_number p) = Some i \<and>
      gs_seen s' ! i = earlier @ [pl_block_hash p] \<and> pl_block_hash p \<notin> set earlier \<and> length earlier \<le> 5)"
    and "r \<noteq> ValidationAccept \<Longrightarrow> po = None"
proof -
  obtain i s1 where s1: "seen_at l (pl_block_number p) s = (i, s1)" by fastforce
  note a = seen_at_inv [OF assms(1) s1 assms(3)]
  then have i: "i < length (gs_seen s1)" by (auto simp: seen_inv_def)
  then have d: "distinct (gs_seen s1 ! i)" using a by (auto simp: seen_inv_def list_all_length)
  show "seen_inv l s'" using assms(2) s1 a i d
    by (auto simp: check_seen_def has_seen_def mark_seen_def seen_inv_def list_all_length nth_list_update
        split: if_splits)
  show "r = ValidationAccept \<Longrightarrow> po = Some p \<and> (\<exists>i earlier. lru_view l (gs_heights s') (pl_block_number p) = Some i \<and>
      gs_seen s' ! i = earlier @ [pl_block_hash p] \<and> pl_block_hash p \<notin> set earlier \<and> length earlier \<le> 5)"
    using assms(2) s1 a i by (auto simp: check_seen_def has_seen_def mark_seen_def split: if_splits)
  show "r \<noteq> ValidationAccept \<Longrightarrow> po = None"
    using assms(2) s1 by (auto simp: check_seen_def has_seen_def split: if_splits)
qed

lemma validate_inv:
  assumes "lru_ok l" "validate_block env l v now pool msg s = (r, po, s')" "seen_inv l s"
  shows "seen_inv l s'"
  using validate_cases [OF assms(2)] check_seen_inv(1) [OF assms(1) _ assms(3)] assms(3) by blast

definition new_gossip_state :: "(u64, nat, 'c) lru \<Rightarrow> 'c gossip_state \<Rightarrow> bool" where
  "new_gossip_state l s \<longleftrightarrow> lru_view l (gs_heights s) = Map.empty \<and> gs_seen s = []"

definition validation_step ::
  "(u64, nat, 'c) lru \<Rightarrow> gossip_env \<Rightarrow> block_version \<Rightarrow> 'c gossip_state \<Rightarrow> 'c gossip_state \<Rightarrow> bool" where
  "validation_step l env v s s' \<longleftrightarrow>
     (\<exists>now pool msg r po. validate_block env l v now pool msg s = (r, po, s'))"

text \<open>An LRU cache that never evicts anything, as an instance.\<close>

definition map_lru :: "('k, 'v, 'k \<rightharpoonup> 'v) lru" where
  "map_lru =
     \<lparr>lru_view = (\<lambda>c. c), lru_get = (\<lambda>k c. (c k, c)), lru_add = (\<lambda>k v c. (None, c(k \<mapsto> v))),
      lru_remove = (\<lambda>k c. (map_option (Pair k) (c k), c(k := None)))\<rparr>"

lemma map_lru_ok: "lru_ok map_lru"
  by (simp add: lru_ok_def map_lru_def)

text \<open>C37. What gossip lets through. When the validator of a topic accepts a message, in whatever state other
  messages have left it, then the message unpacks to a signature and a payload; the signature is, over the
  payload's bytes and the chain, that of the configured sequencer; the payload decodes, is at most 60
  seconds old and 5 ahead, has the hash its contents give, and withdrawals as the topic wants them; it has not been
  seen at its height, and at most five others have, as long as the height is in the cache. The payload is the one
  that is handed on.\<close>

theorem gossip_accepts_signed_fresh_blocks:
  assumes "lru_ok l" "reach (new_gossip_state l) (validation_step l env v) s"
    and "validate_block env l v now pool msg s = (ValidationAccept, po, s')"
  shows "\<exists>p sig payloadBytes h i earlier. po = Some p \<and> ge_unsnappy env msg = Some (sig @ payloadBytes) \<and> length sig = 65 \<and>
    ge_sequencer env \<noteq> replicate 20 0 \<and> block_signing_hash (ge_keccak env) (ge_cfg env) payloadBytes = Inr h \<and>
    ge_recover env h sig = Some (ge_sequencer env) \<and>
    unmarshal_ssz v (length payloadBytes) pool payloadBytes = Inr p \<and>
    \<not> pl_timestamp p < now - 60 \<and> \<not> pl_timestamp p > now + 5 \<and>
    he_header_hash (ge_hash env) (header_of (ge_hash env) p) = pl_block_hash p \<and>
    pl_withdrawals p = (if v = BlockV2 then Some [] else None) \<and>
    lru_view l (gs_heights s') (pl_block_number p) = Some i \<and>
    gs_seen s' ! i = earlier @ [pl_block_hash p] \<and> pl_block_hash p \<notin> set earlier \<and> length earlier \<le> 5"
proof -
  have "seen_inv l s"
    using assms(2)
  proof (induction rule: reach.induct)
    case (reach_init s)
    then show ?case by (simp add: new_gossip_state_def seen_inv_def)
  next
    case (reach_step s t)
    then show ?case using validate_inv [OF assms(1)] by (auto simp: validation_step_def)
  qed
  moreover obtain sig payloadBytes p where m: "ge_unsnappy env msg = Some (sig @ payloadBytes)" "length sig = 65"
      "verify_block_signature env sig payloadBytes = ValidationAccept"
      "unmarshal_ssz v (length payloadBytes) pool payloadBytes = Inr p" "check_payload env v now p"
      "check_seen l p s = (ValidationAccept, po, s')"
    using validate_cases [OF assms(3)] by blast
  ultimately have "po = Some p \<and> (\<exists>i earlier. lru_view l (gs_heights s') (pl_block_number p) = Some i \<and>
      gs_seen s' ! i = earlier @ [pl_block_hash p] \<and> pl_block_hash p \<notin> set earlier \<and> length earlier \<le> 5)"
    using check_seen_inv(2) [OF assms(1)] by blast
  then show ?thesis using m(1-4) m(3) [unfolded signature_accepted] m(5) [unfolded check_payload_iff] by blast
qed

definition demo_gossip_env :: gossip_env where
  "demo_gossip_env =
     \<lparr>ge_cfg = demo_config,
      ge_hash = \<lparr>he_txs_root = (\<lambda>_. replicate 32 0), he_withdrawals_root = (\<lambda>_. replicate 32 0),
        he_header_hash = (\<lambda>_. replicate 32 3)\<rparr>,
      ge_keccak = (\<lambda>d. take 32 (d @ replicate 32 0)), ge_snappy_len = (\<lambda>d. Some (length d)),
      ge_unsnappy = Some, ge_snappy = (\<lambda>d. d),
      ge_recover = (\<lambda>h sig. if take 32 sig = h then Some (replicate 20 9) else None),
      ge_sequencer = replicate 20 9\<rparr>"

definition demo_key :: "hash \<Rightarrow> byte list option" where
  "demo_key h = (if length h = 32 then Some (h @ replicate 33 1) else None)"

section \<open>What is published is accepted\<close>

lemma check_seen_new:
  assumes "lru_ok l"
    and "\<And>i. lru_view l (gs_heights s) (pl_block_number p) = Some i \<Longrightarrow>
      pl_block_hash p \<notin> set (gs_seen s ! i) \<and> length (gs_seen s ! i) \<le> 5"
  shows "\<exists>s'. check_seen l p s = (ValidationAccept, Some p, s')"
proof (cases "lru_get l (pl_block_number p) (gs_heights s)")
  case (Pair r c)
  note g = lru_get_view [OF assms(1) Pair]
  show ?thesis
  proof (cases r)
    case None
    then show ?thesis by (simp add: check_seen_def seen_at_def Pair has_seen_def)
  next
    case (Some i)
    then show ?thesis using assms(2) [of i] g by (simp add: check_seen_def seen_at_def Pair has_seen_def)
  qed
qed

lemma validates:
  assumes "marshal_ssz p = Inr payloadBytes" "wf_exec_payload p" "infer_version p = v"
    and "ge_snappy_len env msg = Some (length (sig @ payloadBytes))" "ge_unsnappy env msg = Some (sig @ payloadBytes)"
    and "length sig = 65" "block_signing_hash (ge_keccak env) (ge_cfg env) payloadBytes = Inr h"
    and "ge_recover env h sig = Some (ge_sequencer env)" "ge_sequencer env \<noteq> replicate 20 0"
    and "check_payload env v now p" "65 + size_ssz p \<le> max_gossip_size" "lru_ok l"
    and "\<And>i. lru_view l (gs_heights s) (pl_block_number p) = Some i \<Longrightarrow>
      pl_block_hash p \<notin> set (gs_seen s ! i) \<and> length (gs_seen s ! i) \<le> 5"
  shows "\<exists>s'. validate_block env l v now pool msg s = (ValidationAccept, Some p, s')"
proof -
  have len: "length payloadBytes = size_ssz p" by (rule length_marshal_ssz [OF assms(1,2)])
  have size: "\<not> length (sig @ payloadBytes) > max_gossip_size" "\<not> length (sig @ payloadBytes) < min_gossip_size"
    using assms(6,11) len by (simp_all add: size_ssz_def min_gossip_size_def fixed_part_simps)
  have "verify_block_signature env sig payloadBytes = ValidationAccept"
    using assms(7-9) by (simp add: signature_accepted)
  moreover have "unmarshal_ssz v (length payloadBytes) pool payloadBytes = Inr p"
    using unmarshal_marshal_ssz [OF assms(1,2)] assms(3) by simp
  moreover obtain s' where "check_seen l p s = (ValidationAccept, Some p, s')"
    using check_seen_new [OF assms(12,13)] by blast
  ultimately have "validate_block env l v now pool msg s = (ValidationAccept, Some p, s')"
    using assms(4-6,10) size by (simp add: validate_block_def Let_def)
  then show ?thesis by blast
qed

lemma published_message:
  assumes "publish_payload env (Some sign) p = Inr (v, msg)"
  shows "\<exists>payloadBytes h sig. marshal_ssz p = Inr payloadBytes \<and>
    block_signing_hash (ge_keccak env) (ge_cfg env) payloadBytes = Inr h \<and> sign h = Some sig \<and>
    msg = ge_snappy env (sig @ payloadBytes) \<and>
    v = (if is_canyon (ge_cfg env) (pl_timestamp p) then BlockV2 else BlockV1)"
  using assms
  by (auto simp: publish_payload_def local_sign_def block_signing_hash_def rbind_eq_Inr
      split: sum.splits option.splits)

text \<open>C36. The sequencer's blocks get through. Let a block be published with the sequencer's key, and a node with the same
  configuration receive it on the topic it was published to, with a clock that is neither 60 seconds ahead of the
  block's time nor 5 behind it, and with fewer than six other blocks seen at its height. If the block is well formed,
  has the hash its contents give, withdrawals as the fork rules want them and at most the size of a message, the
  validator accepts it, and the payload it hands on is the published one.\<close>

theorem published_block_accepted:
  assumes "publish_payload env (Some sign) p = Inr (v, msg)" "wf_exec_payload p"
    and "\<And>d. ge_snappy_len env (ge_snappy env d) = Some (length d) \<and> ge_unsnappy env (ge_snappy env d) = Some d"
    and "\<And>h sig. sign h = Some sig \<Longrightarrow> length sig = 65 \<and> ge_recover env h sig = Some (ge_sequencer env)"
    and "ge_sequencer env \<noteq> replicate 20 0" "lru_ok l"
    and "he_header_hash (ge_hash env) (header_of (ge_hash env) p) = pl_block_hash p"
    and "pl_withdrawals p = (if is_canyon (ge_cfg env) (pl_timestamp p) then Some [] else None)"
    and "\<not> pl_timestamp p < now - 60" "\<not> pl_timestamp p > now + 5"
    and "65 + size_ssz p \<le> max_gossip_size"
    and "\<And>i. lru_view l (gs_heights s) (pl_block_number p) = Some i \<Longrightarrow>
      pl_block_hash p \<notin> set (gs_seen s ! i) \<and> length (gs_seen s ! i) \<le> 5"
  shows "\<exists>s'. validate_block env l v now pool msg s = (ValidationAccept, Some p, s')"
proof -
  obtain payloadBytes h sig where m: "marshal_ssz p = Inr payloadBytes"
      "block_signing_hash (ge_keccak env) (ge_cfg env) payloadBytes = Inr h" "sign h = Some sig"
      "msg = ge_snappy env (sig @ payloadBytes)"
      "v = (if is_canyon (ge_cfg env) (pl_timestamp p) then BlockV2 else BlockV1)"
    using published_message [OF assms(1)] by blast
  note sig = assms(4) [OF m(3)]
  have "infer_version p = v" using assms(8) m(5) by (simp add: infer_version_def)
  moreover have "check_payload env v now p" using assms(7-10) m(5) by (simp add: check_payload_iff)
  moreover have "ge_snappy_len env msg = Some (length (sig @ payloadBytes))"
      "ge_unsnappy env msg = Some (sig @ payloadBytes)"
    unfolding m(4) using assms(3) [of "sig @ payloadBytes"] by blast+
  ultimately show ?thesis
    using validates [OF m(1) assms(2) _ _ _ conjunct1 [OF sig] m(2) conjunct2 [OF sig] assms(5) _ assms(11,6,12)]
    by blast
qed

text \<open>The message of the sample block, on its way from the sequencer to a node that has seen nothing yet.\<close>

lemma demo_signing:
  "\<exists>h. block_signing_hash (ge_keccak demo_gossip_env) (ge_cfg demo_gossip_env) bs = Inr h \<and> length h = 32"
  by (simp add: block_signing_hash_def signing_hash_def demo_gossip_env_def demo_config_def)

lemma demo_signed:
  "demo_key h = Some sig \<Longrightarrow> length sig = 65 \<and>
   ge_recover demo_gossip_env h sig = Some (ge_sequencer demo_gossip_env)"
  by (auto simp: demo_key_def demo_gossip_env_def split: if_splits)

lemma demo_payload_checks:
  "check_payload demo_gossip_env BlockV2 1010 demo_exec_payload" "65 + size_ssz demo_exec_payload \<le> max_gossip_size"
  "ge_sequencer demo_gossip_env \<noteq> replicate 20 0"
  "is_canyon (ge_cfg demo_gossip_env) (pl_timestamp demo_exec_payload)"
  "he_header_hash (ge_hash demo_gossip_env) (header_of (ge_hash demo_gossip_env) demo_exec_payload) =
     pl_block_hash demo_exec_payload"
  by (simp_all add: check_payload_iff demo_gossip_env_def demo_exec_payload_def)
     (simp_all add: demo_exec_wf(3) [unfolded demo_exec_payload_def] max_gossip_size_def is_canyon_def
       fork_active_def demo_config_def)

lemma demo_message:
  "\<exists>msg. publish_payload demo_gossip_env (Some demo_key) demo_exec_payload = Inr (BlockV2, msg)"
proof -
  obtain bs where bs: "marshal_ssz demo_exec_payload = Inr bs" using demo_exec_wf(4) by blast
  obtain h where h: "block_signing_hash (ge_keccak demo_gossip_env) (ge_cfg demo_gossip_env) bs = Inr h"
      "length h = 32" using demo_signing by blast
  then show ?thesis using bs demo_payload_checks(4)
    by (simp add: publish_payload_def local_sign_def block_signing_hash_def demo_key_def)
qed

theorem published_block_accepted_witness:
  "\<exists>msg s'. publish_payload demo_gossip_env (Some demo_key) demo_exec_payload = Inr (BlockV2, msg) \<and>
     validate_block demo_gossip_env map_lru BlockV2 1010 [] msg \<lparr>gs_heights = Map.empty, gs_seen = []\<rparr> =
       (ValidationAccept, Some demo_exec_payload, s')"
proof -
  obtain msg where msg: "publish_payload demo_gossip_env (Some demo_key) demo_exec_payload = Inr (BlockV2, msg)"
    using demo_message by blast
  have snappy: "ge_snappy_len demo_gossip_env (ge_snappy demo_gossip_env d) = Some (length d) \<and>
      ge_unsnappy demo_gossip_env (ge_snappy demo_gossip_env d) = Some d" for d
    by (simp add: demo_gossip_env_def)
  have "\<exists>s'. validate_block demo_gossip_env map_lru BlockV2 1010 [] msg \<lparr>gs_heights = Map.empty, gs_seen = []\<rparr> =
       (ValidationAccept, Some demo_exec_payload, s')"
    using demo_payload_checks(4)
    by (intro published_block_accepted [OF msg demo_exec_wf(1) snappy demo_signed demo_payload_checks(3) map_lru_ok
          demo_payload_checks(5) _ _ _ demo_payload_checks(2)])
       (simp_all add: demo_exec_payload_def map_lru_def)
  then show ?thesis using msg by blast
qed

theorem gossip_accepts_signed_fresh_blocks_witness:
  "\<exists>msg s' i. validate_block demo_gossip_env map_lru BlockV2 1010 [] msg \<lparr>gs_heights = Map.empty, gs_seen = []\<rparr> =
       (ValidationAccept, Some demo_exec_payload, s') \<and>
     lru_view map_lru (gs_heights s') 7 = Some i \<and> last (gs_seen s' ! i) = replicate 32 3"
proof -
  define s where "s = (\<lparr>gs_heights = Map.empty, gs_seen = []\<rparr> :: (u64 \<rightharpoonup> nat) gossip_state)"
  obtain bs where bs: "marshal_ssz demo_exec_payload = Inr bs" using demo_exec_wf(4) by blast
  obtain h where h: "block_signing_hash (ge_keccak demo_gossip_env) (ge_cfg demo_gossip_env) bs = Inr h"
      "length h = 32" using demo_signing by blast
  then obtain sig where sig: "demo_key h = Some sig" by (simp add: demo_key_def)
  note k = demo_signed [OF sig]
  have "\<exists>s'. validate_block demo_gossip_env map_lru BlockV2 1010 [] (sig @ bs) s =
      (ValidationAccept, Some demo_exec_payload, s')"
    by (rule validates [OF bs demo_exec_wf(1,2) _ _ conjunct1 [OF k] h(1) conjunct2 [OF k] demo_payload_checks(3,1,2)
          map_lru_ok])
       (simp_all add: demo_gossip_env_def s_def map_lru_def)
  then obtain s' where v: "validate_block demo_gossip_env map_lru BlockV2 1010 [] (sig @ bs) s =
      (ValidationAccept, Some demo_exec_payload, s')" by blast
  have r: "reach (new_gossip_state map_lru) (validation_step map_lru demo_gossip_env BlockV2) s"
    by (rule reach_init) (simp add: s_def new_gossip_state_def map_lru_def)
  have n: "pl_block_number demo_exec_payload = 7" "pl_block_hash demo_exec_payload = replicate 32 3"
    by (simp_all add: demo_exec_payload_def)
  from gossip_accepts_signed_fresh_blocks [OF map_lru_ok r v]
  obtain i earlier where "lru_view map_lru (gs_heights s') 7 = Some i" "gs_seen s' ! i = earlier @ [replicate 32 3]"
    using n by auto
  then have "lru_view map_lru (gs_heights s') 7 = Some i \<and> last (gs_seen s' ! i) = replicate 32 3"
    by (simp only: last_snoc simp_thms)
  then show ?thesis using v unfolding s_def by blast
qed

end
