(* ===== verification/P2p_Sync_Props.thy ===== *)
theory P2p_Sync_Props
  imports P2p_Sync P2p_Gossip_Props
begin

text \<open>
  What the sync client hands on is linked to a block that was asked for, no request is lost, and what a server
  writes is what a client reads; and the server's lock that is kept for ever.
\<close>

section \<open>Links\<close>

text \<open>The hashes that are known to belong to the chain: the ends of the ranges that were asked for with their parents,
  and the parent of a block that is known and was taken.\<close>

inductive hash_linked :: "hash set \<Rightarrow> exec_payload set \<Rightarrow> hash \<Rightarrow> bool" for targets taken where
  hash_linked_target: "h \<in> targets \<Longrightarrow> hash_linked targets taken h"
| hash_linked_parent: "p \<in> taken \<Longrightarrow> hash_linked targets taken (pl_block_hash p) \<Longrightarrow> hash_linked targets taken (pl_parent_hash p)"

inductive_cases hash_linked_cases: "hash_linked targets taken h"

lemma hash_linked_mono: "hash_linked T D h \<Longrightarrow> T \<subseteq> T' \<Longrightarrow> D \<subseteq> D' \<Longrightarrow> hash_linked T' D' h"
  by (induction rule: hash_linked.induct) (auto intro: hash_linked.intros)

fun event_targets :: "sync_event \<Rightarrow> hash set" where
  "event_targets (RangeRequest start end late) = {l2_hash end, l2_parent_hash end}"
| "event_targets _ = {}"

fun output_taken :: "sync_output \<Rightarrow> exec_payload set" where
  "output_taken (Received res True) = {sr_payload res}"
| "output_taken _ = {}"

definition targets_of :: "sync_event list \<Rightarrow> hash set" where
  "targets_of evs = \<Union> (event_targets ` set evs)"

definition taken_of :: "sync_output list \<Rightarrow> exec_payload set" where
  "taken_of outs = \<Union> (output_taken ` set outs)"

lemma of_append [simp]:
  "targets_of (evs @ [ev]) = targets_of evs \<union> event_targets ev" "taken_of (outs @ out) = taken_of outs \<union> taken_of out"
  "taken_of [] = {}" "taken_of (x # outs) = output_taken x \<union> taken_of outs" "targets_of [] = {}"
  by (auto simp: targets_of_def taken_of_def)

section \<open>The invariant of the client\<close>

definition hash_ok :: "('q, 't) sync_env \<Rightarrow> exec_payload \<Rightarrow> bool" where
  "hash_ok env p \<longleftrightarrow> he_header_hash (sy_hash env) (header_of (sy_hash env) p) = pl_block_hash p"

definition caches_ok :: "('q, 't) sync_env \<Rightarrow> bool" where
  "caches_ok env \<longleftrightarrow> lru_ok (sy_quarantine env) \<and> lru_ok (sy_trusted env)"

definition client_safe ::
  "('q, 't) sync_env \<Rightarrow> hash set \<Rightarrow> exec_payload set \<Rightarrow> ('q, 't) sync_client \<Rightarrow> bool" where
  "client_safe env T D s \<longleftrightarrow>
     (\<forall>h. trusts env h s \<longrightarrow> hash_linked T D h) \<and>
     (\<forall>res \<in> set (sc_results s). hash_ok env (sr_payload res)) \<and>
     (\<forall>h res. lru_view (sy_quarantine env) (sc_quarantine s) h = Some res \<longrightarrow> hash_ok env (sr_payload res))"

text \<open>Every number in flight whose request is not complete is queued, worked on, or answered.\<close>

definition tracked :: "('q, 't) sync_client \<Rightarrow> bool" where
  "tracked s \<longleftrightarrow>
     (\<forall>num i. sc_in_flight s num = Some i \<and> i \<notin> sc_complete s \<longrightarrow>
        (num, i) \<in> set (sc_requests s) \<or> (\<exists>peer. (peer, num, i) \<in> set (sc_working s)) \<or>
        (\<exists>res \<in> set (sc_results s). pl_block_number (sr_payload res) = num))"

lemma client_safe_mono: "client_safe env T D s \<Longrightarrow> T \<subseteq> T' \<Longrightarrow> D \<subseteq> D' \<Longrightarrow> client_safe env T' D' s"
  by (auto simp: client_safe_def intro: hash_linked_mono)

lemma lru_remove_view:
  assumes "lru_ok l" "lru_remove l k c = (r, c')"
  shows "lru_view l c' = (lru_view l c)(k := None)"
proof -
  have "case lru_remove l k c of (r, c') \<Rightarrow> r = map_option (Pair k) (lru_view l c k) \<and> lru_view l c' = (lru_view l c)(k := None)"
    by (rule assms(1) [unfolded lru_ok_def, THEN conjunct2, THEN conjunct2, THEN spec, THEN spec])
  then show ?thesis using assms(2) by simp
qed

section \<open>Quarantine\<close>

text \<open>What the steps on the quarantine leave alone.\<close>

definition same_flow :: "('q, 't) sync_client \<Rightarrow> ('q, 't) sync_client \<Rightarrow> bool" where
  "same_flow s s' \<longleftrightarrow>
     sc_in_flight s' = sc_in_flight s \<and> sc_complete s' = sc_complete s \<and> sc_requests s' = sc_requests s \<and>
     sc_working s' = sc_working s \<and> sc_issued s' = sc_issued s \<and> set (sc_results s) \<subseteq> set (sc_results s')"

lemma same_flow_trans: "same_flow s t \<Longrightarrow> same_flow t u \<Longrightarrow> same_flow s u"
  by (auto simp: same_flow_def)

lemma same_flow_tracked: "same_flow s s' \<Longrightarrow> tracked s \<Longrightarrow> tracked s'"
  by (simp add: tracked_def same_flow_def) blast

lemma quarantine_evict_ok:
  assumes "on_quarantine_evict env ev s = (out, s')"
  shows "same_flow s s'" "client_safe env T D s' = client_safe env T D s" "taken_of out = {}"
    "\<And>res b. Received res b \<notin> set out" "sc_results s' = sc_results s"
  using assms by (auto simp: on_quarantine_evict_def same_flow_def client_safe_def trusts_def split: option.splits if_splits)

lemma quarantine_add_ok:
  assumes "quarantine_add env res s = (out, s')" "caches_ok env"
  shows "same_flow s s'" "client_safe env T D s \<Longrightarrow> hash_ok env (sr_payload res) \<Longrightarrow> client_safe env T D s'"
    "taken_of out = {}" "\<And>res b. Received res b \<notin> set out"
proof -
  obtain ev q where a: "lru_add (sy_quarantine env) (pl_block_hash (sr_payload res)) res (sc_quarantine s) = (ev, q)"
    by fastforce
  then have e: "on_quarantine_evict env ev (s\<lparr>sc_quarantine := q\<rparr>) = (out, s')"
    using assms(1) by (simp add: quarantine_add_def)
  note e = quarantine_evict_ok [OF e]
  show "same_flow s s'" "taken_of out = {}" "\<And>res b. Received res b \<notin> set out"
    using e by (simp_all add: same_flow_def)
  assume s: "client_safe env T D s" "hash_ok env (sr_payload res)"
  have l: "lru_ok (sy_quarantine env)" using assms(2) by (simp add: caches_ok_def)
  have "hash_ok env (sr_payload r)" if "lru_view (sy_quarantine env) q h = Some r" for h r
  proof (cases "h = pl_block_hash (sr_payload res)")
    case True
    then show ?thesis using lru_add_view(1) [OF l a] that s(2) by simp
  next
    case False
    then show ?thesis using lru_add_view(2) [OF l a False] that s(1) unfolding client_safe_def by (metis option.distinct(1))
  qed
  then show "client_safe env T D s'" using s(1) unfolding e(2) by (simp add: client_safe_def trusts_def)
qed

lemma quarantine_remove_ok:
  assumes "quarantine_remove env h s = (out, s')" "caches_ok env"
  shows "same_flow s s'" "client_safe env T D s \<Longrightarrow> client_safe env T D s'" "taken_of out = {}"
    "\<And>res b. Received res b \<notin> set out"
proof -
  obtain ev q where a: "lru_remove (sy_quarantine env) h (sc_quarantine s) = (ev, q)" by fastforce
  then have e: "on_quarantine_evict env ev (s\<lparr>sc_quarantine := q\<rparr>) = (out, s')"
    using assms(1) by (simp add: quarantine_remove_def)
  note e = quarantine_evict_ok [OF e]
  show "same_flow s s'" "taken_of out = {}" "\<And>res b. Received res b \<notin> set out"
    using e by (simp_all add: same_flow_def)
  have "lru_view (sy_quarantine env) q = (lru_view (sy_quarantine env) (sc_quarantine s))(h := None)"
    using lru_remove_view [OF _ a] assms(2) by (simp add: caches_ok_def)
  then show "client_safe env T D s \<Longrightarrow> client_safe env T D s'"
    unfolding e(2) by (auto simp: client_safe_def trusts_def split: if_splits)
qed

lemma try_promote_ok:
  assumes "caches_ok env"
  shows "same_flow s (try_promote env h s)" "client_safe env T D s \<Longrightarrow> client_safe env T D (try_promote env h s)"
proof -
  obtain r q where g: "lru_get (sy_quarantine env) h (sc_quarantine s) = (r, q)" by fastforce
  have v: "r = lru_view (sy_quarantine env) (sc_quarantine s) h"
      "lru_view (sy_quarantine env) q = lru_view (sy_quarantine env) (sc_quarantine s)"
    using lru_get_view [OF _ g] assms by (simp_all add: caches_ok_def)
  note g = g [unfolded v(1)]
  show "same_flow s (try_promote env h s)"
    by (cases "lru_view (sy_quarantine env) (sc_quarantine s) h") (auto simp: try_promote_def g same_flow_def)
  show "client_safe env T D s \<Longrightarrow> client_safe env T D (try_promote env h s)"
    using v(2) by (cases "lru_view (sy_quarantine env) (sc_quarantine s) h")
      (auto simp: try_promote_def g client_safe_def trusts_def split: if_splits)
qed

lemma trust_ok:
  assumes "caches_ok env"
  shows "same_flow s (trust env h s)"
    "client_safe env T D s \<Longrightarrow> hash_linked T D h \<Longrightarrow> client_safe env T D (trust env h s)"
proof -
  show "same_flow s (trust env h s)" by (simp add: trust_def same_flow_def)
  obtain ev c where a: "lru_add (sy_trusted env) h () (sc_trusted s) = (ev, c)" by fastforce
  assume s: "client_safe env T D s" "hash_linked T D h"
  have "hash_linked T D k" if "lru_view (sy_trusted env) c k \<noteq> None" for k
  proof (cases "k = h")
    case False
    then have "trusts env k s"
      using that lru_add_view(2) [OF _ a False] assms by (auto simp: caches_ok_def trusts_def)
    then show ?thesis using s(1) by (simp add: client_safe_def)
  qed (use s(2) in simp)
  then show "client_safe env T D (trust env h s)"
    using s(1) a by (simp add: client_safe_def trust_def trusts_def)
qed

section \<open>The main loop\<close>

text \<open>The outputs of a step are right: whatever the receiver is called with has the hash of its contents, and is linked.\<close>

definition outputs_ok ::
  "('q, 't) sync_env \<Rightarrow> hash set \<Rightarrow> exec_payload set \<Rightarrow> sync_output list \<Rightarrow> bool" where
  "outputs_ok env T D out \<longleftrightarrow>
     (\<forall>res b. Received res b \<in> set out \<longrightarrow>
        hash_ok env (sr_payload res) \<and> hash_linked T D (pl_block_hash (sr_payload res)))"

lemma outputs_ok_simps [simp]:
  "outputs_ok env T D []" "outputs_ok env T D (xs @ ys) \<longleftrightarrow> outputs_ok env T D xs \<and> outputs_ok env T D ys"
  "outputs_ok env T D (Received res b # xs) \<longleftrightarrow>
     hash_ok env (sr_payload res) \<and> hash_linked T D (pl_block_hash (sr_payload res)) \<and> outputs_ok env T D xs"
  by (auto simp: outputs_ok_def)

lemma outputs_ok_mono: "outputs_ok env T D out \<Longrightarrow> T \<subseteq> T' \<Longrightarrow> D \<subseteq> D' \<Longrightarrow> outputs_ok env T' D' out"
  by (auto simp: outputs_ok_def intro: hash_linked_mono)

lemma taken_append: "taken_of (xs @ ys) = taken_of xs \<union> taken_of ys"
  by (auto simp: taken_of_def)

lemma promote_ok:
  assumes "promote env b res s = (out, s')" "caches_ok env"
    and "client_safe env T D s" "hash_ok env (sr_payload res)" "hash_linked T D (pl_block_hash (sr_payload res))"
  shows "same_flow s s'" "client_safe env T (D \<union> taken_of out) s'" "outputs_ok env T D out"
proof -
  define p where "p = sr_payload res"
  have "same_flow s s' \<and> client_safe env T (D \<union> taken_of out) s' \<and> outputs_ok env T D out"
  proof (cases b)
    case False
    then have "out = [Received res False]" "s' = s" using assms(1) by (simp_all add: promote_def)
    then show ?thesis using assms(3-5) by (simp add: same_flow_def)
  next
    case True
    define D' where "D' = insert p D"
    have lp: "hash_linked T D' (pl_block_hash p)" using hash_linked_mono [OF assms(5), of T D'] by (auto simp: D'_def p_def)
    then have lq: "hash_linked T D' (pl_parent_hash p)" by (rule hash_linked_parent [rotated]) (simp add: D'_def)
    have s: "client_safe env T D' s" by (rule client_safe_mono [OF assms(3)]) (auto simp: D'_def)
    obtain out1 s1 where r1: "quarantine_remove env (pl_block_hash p) (trust env (pl_block_hash p) s) = (out1, s1)"
      by fastforce
    define s2 where "s2 = try_promote env (pl_parent_hash p) (trust env (pl_parent_hash p) s1)"
    note q1 = quarantine_remove_ok [OF r1 assms(2)] and t1 = trust_ok [OF assms(2)] and p1 = try_promote_ok [OF assms(2)]
    have f2: "same_flow s s2" unfolding s2_def by (meson q1(1) t1(1) p1(1) same_flow_trans)
    have c2: "client_safe env T D' s2" unfolding s2_def by (intro p1(2) t1(2) q1(2) s lp lq)
    show ?thesis
    proof (cases "sc_by_num s2 (pl_block_number p - 1)")
      case None
      then have "out = Received res True # out1" "s' = s2"
        using assms(1) True r1 by (simp_all add: promote_def p_def s2_def Let_def)
      then show ?thesis using f2 c2 assms(4,5) q1(3,4)
        by (simp add: D'_def p_def outputs_ok_def insert_commute)
    next
      case (Some h)
      obtain out2 s3 where r2: "quarantine_remove env h s2 = (out2, s3)" by fastforce
      note q2 = quarantine_remove_ok [OF r2 assms(2)]
      have "out = Received res True # out1 @ out2" "s' = s3"
        using assms(1) True r1 Some r2 by (simp_all add: promote_def p_def s2_def Let_def)
      then show ?thesis using same_flow_trans [OF f2 q2(1)] q2(2) [OF c2] assms(4,5) q1(3,4) q2(3,4)
        by (simp add: D'_def p_def outputs_ok_def taken_append)
    qed
  qed
  then show "same_flow s s'" "client_safe env T (D \<union> taken_of out) s'" "outputs_ok env T D out" by blast+
qed

lemma on_result_ok:
  assumes "on_result env b res s = (out, s')" "caches_ok env" "client_safe env T D s" "hash_ok env (sr_payload res)"
  shows "same_flow (s\<lparr>sc_in_flight := (sc_in_flight s)(pl_block_number (sr_payload res) := None)\<rparr>) s'"
    "client_safe env T (D \<union> taken_of out) s'" "outputs_ok env T D out"
proof -
  define p where "p = sr_payload res"
  define s0 where "s0 = s\<lparr>sc_in_flight := (sc_in_flight s)(pl_block_number p := None)\<rparr>"
  obtain out1 s1 where a: "quarantine_add env res s0 = (out1, s1)" by fastforce
  define s2 where "s2 = s1\<lparr>sc_by_num := (sc_by_num s1)(pl_block_number p \<mapsto> pl_block_hash p)\<rparr>"
  note q = quarantine_add_ok [OF a assms(2)]
  have "client_safe env T D s0" using assms(3) by (simp add: s0_def client_safe_def trusts_def)
  then have "client_safe env T D s1" using q(2) assms(4) by blast
  then have c: "client_safe env T D s2" by (simp add: s2_def client_safe_def trusts_def)
  have f: "same_flow s0 s2" using q(1) by (simp add: s2_def same_flow_def)
  have o1: "outputs_ok env T D out1" using q(4) by (simp add: outputs_ok_def)
  have "same_flow s0 s' \<and> client_safe env T (D \<union> taken_of out) s' \<and> outputs_ok env T D out"
  proof (cases "trusts env (pl_block_hash p) s2")
    case False
    then have "out = out1" "s' = s2" using assms(1) a by (simp_all add: on_result_def p_def s0_def s2_def Let_def)
    then show ?thesis using c f o1 q(3) by simp
  next
    case True
    then have l: "hash_linked T D (pl_block_hash (sr_payload res))" using c by (simp add: client_safe_def p_def)
    obtain out2 s3 where r: "promote env b res s2 = (out2, s3)" by fastforce
    have "out = out1 @ out2" "s' = s3"
      using assms(1) a True r by (simp_all add: on_result_def p_def s0_def s2_def Let_def)
    then show ?thesis
      using promote_ok [OF r assms(2) c assms(4) l] same_flow_trans [OF f] o1 q(3) by (simp add: taken_append)
  qed
  then show "same_flow (s\<lparr>sc_in_flight := (sc_in_flight s)(pl_block_number (sr_payload res) := None)\<rparr>) s'"
    "client_safe env T (D \<union> taken_of out) s'" "outputs_ok env T D out"
    by (simp_all add: s0_def p_def)
qed

definition schedule :: "u64 \<Rightarrow> ('q, 't) sync_client \<Rightarrow> ('q, 't) sync_client" where
  "schedule num s =
     s\<lparr>sc_requests := sc_requests s @ [(num, sc_issued s)],
       sc_in_flight := (sc_in_flight s)(num \<mapsto> sc_issued s), sc_issued := sc_issued s + 1\<rparr>"

lemma range_loop_keeps:
  assumes "\<And>h s. P s \<Longrightarrow> P (try_promote env h s)" "\<And>num s. P s \<Longrightarrow> P (schedule num s)"
  shows "P s \<Longrightarrow> P (range_loop env late start num s)"
proof (induction "unat num" arbitrary: num s rule: less_induct)
  case less
  show ?case
  proof (cases "num \<le> start")
    case True
    then show ?thesis using less(2) by (simp add: range_loop.simps)
  next
    case False
    have ih: "P t \<Longrightarrow> P (range_loop env late start (num - 1) t)" for t
      by (rule less(1) [OF unat_pred_less [OF False]])
    show ?thesis
    proof (cases "sc_by_num s num")
      case None
      have "P (range_loop env late start (num - 1) (schedule num s))" by (intro ih assms(2) less(2))
      then show ?thesis using False None less(2) ih [OF less(2)]
        by (subst range_loop.simps) (simp add: schedule_def)
    next
      case (Some h)
      have "P (range_loop env late start (num - 1) (if trusts env h s then try_promote env h s else s))"
        using less(2) assms(1) by (intro ih) simp
      then show ?thesis using False Some by (subst range_loop.simps) simp
    qed
  qed
qed

lemma schedule_ok:
  "client_safe env T D s \<Longrightarrow> client_safe env T D (schedule num s)" "tracked s \<Longrightarrow> tracked (schedule num s)"
  by (auto simp: schedule_def client_safe_def trusts_def tracked_def)

lemma drop_completed_ok:
  "client_safe env T D s \<Longrightarrow> client_safe env T D (drop_completed s)" "tracked s \<Longrightarrow> tracked (drop_completed s)"
  by (auto simp: drop_completed_def client_safe_def trusts_def tracked_def split: option.splits if_splits)

lemma range_request_ok:
  assumes "caches_ok env"
  shows "client_safe env T D s \<Longrightarrow> l2_hash end \<in> T \<Longrightarrow> l2_parent_hash end \<in> T \<Longrightarrow>
      client_safe env T D (on_range_request env late start end s)"
    and "tracked s \<Longrightarrow> tracked (on_range_request env late start end s)"
proof -
  note t = trust_ok [OF assms] and p = try_promote_ok [OF assms]
  show "client_safe env T D (on_range_request env late start end s)"
    if "client_safe env T D s" "l2_hash end \<in> T" "l2_parent_hash end \<in> T"
    unfolding on_range_request_def
    by (intro range_loop_keeps [where P = "client_safe env T D"] p(2) schedule_ok(1) drop_completed_ok(1) t(2) that
        hash_linked_target)
  show "tracked (on_range_request env late start end s)" if "tracked s"
    unfolding on_range_request_def
    by (intro range_loop_keeps [where P = tracked] same_flow_tracked [OF p(1)] schedule_ok(2) drop_completed_ok(2)
        same_flow_tracked [OF t(1)] that)
qed

section \<open>Every step\<close>

lemma response_block:
  assumes "read_response env pool num stream = ResponseBlock p"
  shows "hash_ok env p" "pl_block_number p = num"
  using assms
  by (auto simp: read_response_def Let_def verify_block_def check_block_hash_def hash_ok_def
      split: if_splits option.splits sum.splits)

lemma finish_request_working: "i < length ws \<Longrightarrow> x \<in> set ws \<Longrightarrow> x \<noteq> ws ! i \<Longrightarrow> x \<in> set (take i ws @ drop (Suc i) ws)"
  using id_take_nth_drop [of i ws] by (metis Un_iff set_append set_ConsD)

lemma fail_request_ok:
  assumes "i < length (sc_working s)" "fail_request i s = (out, s')"
  shows "client_safe env T D s \<Longrightarrow> client_safe env T D s'" "tracked s \<Longrightarrow> tracked s'" "taken_of out = {}"
    "outputs_ok env T D out"
proof -
  obtain peer num ident where w: "sc_working s ! i = (peer, num, ident)" by (metis prod.exhaust)
  have s': "s' = (finish_request i s)\<lparr>sc_complete := insert ident (sc_complete s)\<rparr>" "out = [ResponseError peer]"
    using assms(2) by (simp_all add: fail_request_def w)
  show "client_safe env T D s \<Longrightarrow> client_safe env T D s'"
    by (simp add: s' finish_request_def client_safe_def trusts_def)
  show "taken_of out = {}" "outputs_ok env T D out" by (simp_all add: s' outputs_ok_def)
  show "tracked s'" if t: "tracked s"
  proof -
    have "(peer', num', i') \<in> set (sc_working s')"
      if "(peer', num', i') \<in> set (sc_working s)" "i' \<noteq> ident" for peer' num' i'
      using finish_request_working [OF assms(1) that(1)] that(2) w by (simp add: s' finish_request_def)
    then show ?thesis using t by (simp add: tracked_def s' finish_request_def) blast
  qed
qed

lemma answer_ok:
  assumes "i < length (sc_working s)" "sc_working s ! i = (peer, num, ident)" "hash_ok env p" "pl_block_number p = num"
    and s': "s' = (finish_request i s)\<lparr>sc_results := sc_results s @ [\<lparr>sr_payload = p, sr_peer = peer\<rparr>]\<rparr>"
  shows "client_safe env T D s \<Longrightarrow> client_safe env T D s'" "tracked s \<Longrightarrow> tracked s'"
proof -
  show "client_safe env T D s \<Longrightarrow> client_safe env T D s'"
    using assms(3) by (simp add: s' finish_request_def client_safe_def trusts_def)
  show "tracked s'" if t: "tracked s"
  proof -
    have "(peer', num', i') \<in> set (sc_working s')"
      if "(peer', num', i') \<in> set (sc_working s)" "num' \<noteq> num" for peer' num' i'
      using finish_request_working [OF assms(1) that(1)] that(2) assms(2) by (simp add: s' finish_request_def)
    moreover have "\<exists>res \<in> set (sc_results s'). pl_block_number (sr_payload res) = num"
      using assms(4) by (simp add: s')
    ultimately show ?thesis using t by (simp add: tracked_def s' finish_request_def) metis
  qed
qed

definition client_inv ::
  "('q, 't) sync_env \<Rightarrow> sync_event list \<Rightarrow> sync_output list \<Rightarrow> ('q, 't) sync_client \<Rightarrow> bool" where
  "client_inv env evs outs s \<longleftrightarrow>
     client_safe env (targets_of evs) (taken_of outs) s \<and>
     outputs_ok env (targets_of evs) (taken_of outs) outs \<and> tracked s"

lemma client_invI:
  assumes "client_inv env evs outs s" "client_safe env (targets_of evs) (taken_of outs \<union> taken_of out) s'"
    and "outputs_ok env (targets_of evs) (taken_of outs \<union> taken_of out) out" "tracked s'"
  shows "client_inv env (evs @ [ev]) (outs @ out) s'"
  using assms unfolding client_inv_def of_append
  by (auto intro: client_safe_mono outputs_ok_mono)

lemma handle_inv:
  assumes h: "sync_handle env ev s = Some (out, s')" and c: "caches_ok env" and i: "client_inv env evs outs s"
  shows "client_inv env (evs @ [ev]) (outs @ out) s'"
proof -
  define T where "T = targets_of evs"
  define D where "D = taken_of outs"
  have s: "client_safe env T D s" "tracked s" using i by (simp_all add: client_inv_def T_def D_def)
  show ?thesis
  proof (cases ev)
    case (PeerTakes peer)
    then obtain num ident rest where r: "sc_requests s = (num, ident) # rest"
        "s' = s\<lparr>sc_requests := rest, sc_working := sc_working s @ [(peer, num, ident)]\<rparr>" "out = []"
      using h by (auto simp: sync_handle_def split: list.splits)
    then have "client_safe env T D s'" using s(1) by (simp add: client_safe_def trusts_def)
    moreover have "tracked s'" using s(2) r by (simp add: tracked_def) blast
    ultimately show ?thesis using r(3) by (intro client_invI [OF i]) (simp_all add: T_def D_def)
  next
    case (PeerAnswers k pool stream)
    then have k: "k < length (sc_working s)" using h by (auto simp: sync_handle_def split: if_splits)
    obtain peer num ident where w: "sc_working s ! k = (peer, num, ident)" by (metis prod.exhaust)
    show ?thesis
    proof (cases "read_response env pool num stream")
      case ResponseFailed
      then have "fail_request k s = (out, s')" using h k w PeerAnswers by (simp add: sync_handle_def)
      note f = fail_request_ok [OF k this]
      show ?thesis by (rule client_invI [OF i]) (use f s in \<open>simp_all add: T_def D_def\<close>)
    next
      case (ResponseBlock p)
      then have r: "out = [ValidResponse peer]"
          "s' = (finish_request k s)\<lparr>sc_results := sc_results s @ [\<lparr>sr_payload = p, sr_peer = peer\<rparr>]\<rparr>"
        using h k w PeerAnswers by (simp_all add: sync_handle_def split: if_splits)
      note a = answer_ok [OF k w response_block [OF ResponseBlock] r(2)]
      show ?thesis
        by (rule client_invI [OF i]) (use a s r(1) in \<open>simp_all add: T_def D_def outputs_ok_def\<close>)
    qed (use h k w PeerAnswers in \<open>simp add: sync_handle_def\<close>)
  next
    case (PeerFails k)
    then have k: "k < length (sc_working s)" "fail_request k s = (out, s')"
      using h by (auto simp: sync_handle_def split: if_splits)
    note f = fail_request_ok [OF k]
    show ?thesis by (rule client_invI [OF i]) (use f s in \<open>simp_all add: T_def D_def\<close>)
  next
    case (RangeRequest start e late)
    then have r: "s' = on_range_request env late start e s" "out = []" using h by (simp_all add: sync_handle_def)
    have T: "targets_of (evs @ [ev]) = T \<union> {l2_hash e, l2_parent_hash e}" by (simp add: RangeRequest T_def)
    have "client_safe env (targets_of (evs @ [ev])) D s'"
      unfolding r(1) T by (rule range_request_ok(1) [OF c client_safe_mono [OF s(1)]]) auto
    moreover have "tracked s'" unfolding r(1) by (rule range_request_ok(2) [OF c s(2)])
    moreover have "outputs_ok env (targets_of (evs @ [ev])) D outs"
      using i T by (auto simp: client_inv_def T_def D_def intro: outputs_ok_mono)
    ultimately show ?thesis using r(2) by (simp add: client_inv_def D_def)
  next
    case (ResultReady b)
    then obtain res rest where r: "sc_results s = res # rest"
        "on_result env b res (s\<lparr>sc_results := rest\<rparr>) = (out, s')"
      using h by (auto simp: sync_handle_def split: list.splits)
    have safe: "client_safe env T D (s\<lparr>sc_results := rest\<rparr>)" and ok: "hash_ok env (sr_payload res)"
      using s(1) r(1) by (auto simp: client_safe_def trusts_def)
    note rs = on_result_ok [OF r(2) c safe ok]
    have "tracked s'"
      by (rule same_flow_tracked [OF rs(1)]) (use s(2) r(1) in \<open>auto simp: tracked_def\<close>)
    then show ?thesis
      using rs(2) outputs_ok_mono [OF rs(3), of T "D \<union> taken_of out"] by (intro client_invI [OF i]) (simp_all add: T_def D_def)
  next
    case (InFlightCheck num)
    then have "s' = s" "taken_of out = {}" "\<And>T D. outputs_ok env T D out"
      using h by (auto simp: sync_handle_def outputs_ok_def)
    then show ?thesis using s by (intro client_invI [OF i]) (simp_all add: T_def D_def)
  qed
qed

definition new_sync_client :: "('q, 't) sync_env \<Rightarrow> ('q, 't) sync_client \<Rightarrow> bool" where
  "new_sync_client env s \<longleftrightarrow>
     lru_view (sy_trusted env) (sc_trusted s) = Map.empty \<and>
     lru_view (sy_quarantine env) (sc_quarantine s) = Map.empty \<and>
     sc_by_num s = Map.empty \<and> sc_in_flight s = Map.empty \<and> sc_complete s = {} \<and>
     sc_requests s = [] \<and> sc_working s = [] \<and> sc_results s = []"

lemma sync_run_inv:
  "sync_run env evs outs s0 s \<Longrightarrow> caches_ok env \<Longrightarrow> new_sync_client env s0 \<Longrightarrow> client_inv env evs outs s"
proof (induction rule: sync_run.induct)
  case (sync_none s)
  then show ?case
    by (simp add: client_inv_def client_safe_def trusts_def new_sync_client_def tracked_def)
next
  case (sync_more evs outs s s1 ev out s2)
  then show ?case using handle_inv by blast
qed

text \<open>C39. The sync client hands on only blocks of the chain it was asked for. In every run, with any peers, answers,
  failures and evictions: a block that the receiver is called with has the hash that its contents give, and this hash is
  linked to the end of a range that was asked for: it is its hash or its parent's, or the parent of a block that
  the receiver took and that is linked itself. And no request is lost: as long as a number is in flight, its
  request waits for a peer, is being worked on, or its answer waits for the main loop, or it is marked as complete and can be asked for again.\<close>

theorem sync_delivers_linked_blocks:
  assumes "lru_ok (sy_quarantine env)" "lru_ok (sy_trusted env)" "new_sync_client env s0"
    and "sync_run env evs outs s0 s"
  shows "(\<forall>res b. Received res b \<in> set outs \<longrightarrow>
      he_header_hash (sy_hash env) (header_of (sy_hash env) (sr_payload res)) = pl_block_hash (sr_payload res) \<and>
      hash_linked (targets_of evs) (taken_of outs) (pl_block_hash (sr_payload res))) \<and>
    (\<forall>num i. sc_in_flight s num = Some i \<longrightarrow>
      i \<in> sc_complete s \<or> (num, i) \<in> set (sc_requests s) \<or> (\<exists>peer. (peer, num, i) \<in> set (sc_working s)) \<or>
      (\<exists>res \<in> set (sc_results s). pl_block_number (sr_payload res) = num))"
proof -
  have "client_inv env evs outs s" using sync_run_inv [OF assms(4)] assms(1-3) by (simp add: caches_ok_def)
  then show ?thesis
    unfolding client_inv_def outputs_ok_def hash_ok_def tracked_def by blast
qed

section \<open>The server's answers are read\<close>

lemma header_parts:
  "hd (response_header @ x) = 0" "response_header @ x \<noteq> []" "drop 5 (response_header @ x) = x"
  "get_le32 (part 1 4 (response_header @ x)) = 0" "length (response_header @ x) = 5 + length x"
  by (simp_all add: response_header_def part_def numeral_eq_Suc get_le32_def get_u32_def be_dec_def)

lemma read_served:
  assumes "marshal_ssz p = Inr data" "wf_exec_payload p" "hash_ok env p"
    and "sy_unframe env max_gossip_size (sy_frame env data) = Some data"
    and "length (sy_frame env data) + 5 \<le> max_gossip_size"
    and "infer_version p = (if is_canyon (sy_cfg env) (timestamp_for_block (sy_cfg env) (pl_block_number p)) then BlockV2 else BlockV1)"
  shows "read_response env pool (pl_block_number p) (response_header @ sy_frame env data) = ResponseBlock p"
proof -
  have t: "take max_gossip_size (response_header @ sy_frame env data) = response_header @ sy_frame env data"
    using assms(5) by (intro take_all) (simp add: header_parts del: length_append)
  have u: "unmarshal_ssz (infer_version p) (length data) pool data = Inr p"
    by (rule unmarshal_marshal_ssz [OF assms(1,2)])
  have v: "verify_block (sy_hash env) p (pl_block_number p)"
    using assms(3) by (simp add: verify_block_def check_block_hash_def hash_ok_def)
  show ?thesis
    unfolding read_response_def Let_def t header_parts assms(4) assms(6) [symmetric] u
    using header_parts(2) by (simp add: v u del: append_is_Nil_conv)
qed

text \<open>C40. What a server writes, a client reads. When a node that has a block, is within its limits and has its lock free, is
  asked for it by its number, between genesis and the block expected by now, it answers, keeps no lock, and a client that asked for
  this number decodes the answer to the very block, if that is well formed, has the hash its contents give,
  withdrawals exactly when the fork rules want them at the time of its number, and fits the limit of a message.\<close>

theorem served_block_received:
  assumes "chain num = Inr p" "marshal_ssz p = Inr data" "pl_block_number p = num"
    and "bid_number (gen_l2 (rc_genesis (sy_cfg env))) \<le> num"
    and "target_block_number (sy_cfg env) now = Inr highest" "num \<le> highest" "\<not> sv_locked s"
    and "wf_exec_payload p"
    and "he_header_hash (sy_hash env) (header_of (sy_hash env) p) = pl_block_hash p"
    and "pl_withdrawals p \<noteq> None \<longleftrightarrow> is_canyon (sy_cfg env) (timestamp_for_block (sy_cfg env) num)"
    and "sy_unframe env max_gossip_size (sy_frame env data) = Some data"
    and "length (sy_frame env data) + 5 \<le> max_gossip_size"
  shows "\<exists>written s'. handle_sync_request env l chain now peer (True, True) (Some num) s = Some (written, s') \<and>
    \<not> sv_locked s' \<and> read_response env pool num written = ResponseBlock p"
proof -
  have "serve_block env chain now num = (response_header @ sy_frame env data, None)"
    using assms(1,2,4-6) by (simp add: serve_block_def not_less)
  moreover have "read_response env pool num (response_header @ sy_frame env data) = ResponseBlock p"
    using read_served [OF assms(2,8) _ assms(11,12)] assms(3,9,10)
    by (simp add: hash_ok_def infer_version_def)
  ultimately show ?thesis using assms(7)
    by (cases "lru_get l peer (sv_peers s)") (simp add: handle_sync_request_def Let_def)
qed

section \<open>What goes wrong\<close>

text \<open>When the wait for the limit of a known peer fails, the handler returns with the lock held, and no
  request of any peer is answered after that.\<close>

lemma server_lock_kept:
  assumes "lru_ok l" "lru_view l (sv_peers s) peer \<noteq> None" "\<not> sv_locked s"
  shows "\<exists>s'. handle_sync_request env l chain now peer (True, False) req s = Some ([3], s') \<and>
    (\<forall>chain now peer' ok req. handle_sync_request env l chain now peer' (True, ok) req s' = None)"
proof -
  obtain known c where g: "lru_get l peer (sv_peers s) = (known, c)" by fastforce
  then have "known = lru_view l (sv_peers s) peer" using assms(1) by (metis lru_ok_def fst_conv)
  then show ?thesis using g assms(2,3) by (simp add: handle_sync_request_def result_code_def)
qed

text \<open>A peer's answer of a valid header and a payload with a withdrawals offset beyond its end ends the node that asked.\<close>

lemma answer_crashes_client:
  assumes "sy_unframe env max_gossip_size framed = Some bs" "length framed + 5 \<le> max_gossip_size"
    and "is_canyon (sy_cfg env) (timestamp_for_block (sy_cfg env) num)"
    and "512 \<le> length bs" "unat (get_le32 (part 436 4 bs)) = 512" "unat (get_le32 (part 504 4 bs)) = 512"
    and "max (length bs) (length pool) < unat (get_le32 (part 508 4 bs))"
  shows "read_response env pool num (response_header @ framed) = ResponseCrash"
proof -
  have t: "take max_gossip_size (response_header @ framed) = response_header @ framed"
    using assms(2) by (intro take_all) (simp add: header_parts del: length_append)
  show ?thesis unfolding read_response_def Let_def t header_parts assms(1)
    using assms(3) header_parts(2) late_offset_check [OF assms(4-7)] by (simp del: append_is_Nil_conv)
qed

text \<open>An eviction drops the index of its number also when that index is of another block, which is still kept.\<close>

lemma eviction_drops_other_index:
  assumes "sc_by_num s (pl_block_number (sr_payload res)) = Some h" "h \<noteq> key"
    and "lru_view (sy_quarantine env) (sc_quarantine s) h = Some other"
  shows "let s' = snd (on_quarantine_evict env (Some (key, res)) s)
     in sc_by_num s' (pl_block_number (sr_payload res)) = None \<and>
        lru_view (sy_quarantine env) (sc_quarantine s') h = Some other"
  using assms by (simp add: on_quarantine_evict_def)

text \<open>With the channel of results full, the parent of a block that was taken is neither promoted nor kept.\<close>

lemma full_channel_loses_parent:
  fixes s :: "('q, 't) sync_client"
  assumes "lru_ok (sy_quarantine env)" "sync_channel_size \<le> length (sc_results s)"
    and "lru_view (sy_quarantine env) (sc_quarantine s) (pl_block_hash (sr_payload res)) = Some res"
    and "sc_by_num s (pl_block_number (sr_payload res) - 1) = Some (pl_parent_hash (sr_payload res))"
  shows "let s' = snd (promote env True res s) in sc_results s' = sc_results s \<and>
     lru_view (sy_quarantine env) (sc_quarantine s') (pl_parent_hash (sr_payload res)) = None"
proof -
  define p where "p = sr_payload res"
  define q where "q = sy_quarantine env"
  have removed: "fst (lru_remove q k c) = map_option (Pair k) (lru_view q c k) \<and>
      lru_view q (snd (lru_remove q k c)) = (lru_view q c)(k := None)" for k c
    using assms(1) unfolding lru_ok_def q_def by (metis (mono_tags, lifting) case_prod_unfold)
  have same: "sc_results (snd (quarantine_remove env h t)) = sc_results t"
      "lru_view q (sc_quarantine (snd (quarantine_remove env h t))) h = None" for h and t :: "('q, 't) sync_client"
    using removed [of h "sc_quarantine t"]
    by (auto simp: quarantine_remove_def on_quarantine_evict_def q_def split: prod.splits option.splits)
  define s1 where "s1 = snd (quarantine_remove env (pl_block_hash p) (trust env (pl_block_hash p) s))"
  define s2 where "s2 = try_promote env (pl_parent_hash p) (trust env (pl_parent_hash p) s1)"
  have "sc_by_num s1 = (sc_by_num s)(pl_block_number p := None)"
    using removed [of "pl_block_hash p" "sc_quarantine s"] assms(3)
    by (auto simp: s1_def p_def q_def quarantine_remove_def on_quarantine_evict_def trust_def split: prod.splits)
  then have num: "sc_by_num s2 (pl_block_number p - 1) = Some (pl_parent_hash p)"
    using assms(4) by (simp add: s2_def p_def try_promote_def trust_def split: prod.splits option.splits)
  have "sc_results s1 = sc_results s" by (simp add: s1_def same trust_def)
  then have "sc_results s2 = sc_results s"
    using assms(2) by (simp add: s2_def try_promote_def trust_def split: prod.splits option.splits)
  moreover have "snd (promote env True res s) = snd (quarantine_remove env (pl_parent_hash p) s2)"
    using num unfolding promote_def s2_def s1_def p_def
    by (cases "quarantine_remove env (pl_block_hash (sr_payload res)) (trust env (pl_block_hash (sr_payload res)) s)")
       (simp add: Let_def split: prod.splits)
  ultimately show ?thesis using same [of "pl_parent_hash p" s2] by (simp add: p_def q_def)
qed

section \<open>A concrete exchange\<close>

definition demo_sync_env :: "(hash \<rightharpoonup> sync_result, hash \<rightharpoonup> unit) sync_env" where
  "demo_sync_env =
     \<lparr>sy_cfg = demo_config, sy_hash = ge_hash demo_gossip_env, sy_unframe = (\<lambda>n d. Some (take n d)),
      sy_frame = (\<lambda>d. d), sy_quarantine = map_lru, sy_trusted = map_lru\<rparr>"

lemma demo_fields:
  "pl_block_number demo_exec_payload = 7" "pl_block_hash demo_exec_payload = replicate 32 3"
  "pl_parent_hash demo_exec_payload = replicate 32 1" "pl_withdrawals demo_exec_payload = Some []"
  by (simp_all add: demo_exec_payload_def)

lemma demo_hash_ok: "hash_ok demo_sync_env demo_exec_payload"
  using demo_payload_checks(5) by (simp add: hash_ok_def demo_sync_env_def)

lemma demo_canyon: "is_canyon (sy_cfg demo_sync_env) t"
  by (simp add: demo_sync_env_def is_canyon_def fork_active_def demo_config_def)

lemma demo_served:
  "\<exists>data. marshal_ssz demo_exec_payload = Inr data \<and> length data = 524 \<and>
     read_response demo_sync_env [] 7 (response_header @ data) = ResponseBlock demo_exec_payload"
proof -
  obtain data where d: "marshal_ssz demo_exec_payload = Inr data" using demo_exec_wf(4) by blast
  then have l: "length data = 524" using length_marshal_ssz demo_exec_wf by metis
  have "read_response demo_sync_env [] (pl_block_number demo_exec_payload) (response_header @ sy_frame demo_sync_env data) =
      ResponseBlock demo_exec_payload"
    by (rule read_served [OF d demo_exec_wf(1) demo_hash_ok])
       (use l demo_exec_wf(2) demo_canyon in \<open>simp_all add: demo_sync_env_def max_gossip_size_def\<close>)
  then show ?thesis using d l by (simp add: demo_fields demo_sync_env_def)
qed

theorem served_block_received_witness:
  "\<exists>written. handle_sync_request demo_sync_env map_lru (\<lambda>_. Inr demo_exec_payload) 1100 ''p'' (True, True) (Some 7)
       \<lparr>sv_locked = False, sv_peers = Map.empty\<rparr> = Some (written, \<lparr>sv_locked = False, sv_peers = [''p'' \<mapsto> ()]\<rparr>) \<and>
     read_response demo_sync_env [] 7 written = ResponseBlock demo_exec_payload"
proof -
  obtain data where d: "marshal_ssz demo_exec_payload = Inr data" "length data = 524" using demo_served by blast
  have "\<exists>written s'. handle_sync_request demo_sync_env map_lru (\<lambda>_. Inr demo_exec_payload) 1100 ''p'' (True, True) (Some 7)
       \<lparr>sv_locked = False, sv_peers = Map.empty\<rparr> = Some (written, s') \<and> \<not> sv_locked s' \<and>
     read_response demo_sync_env [] 7 written = ResponseBlock demo_exec_payload"
    by (rule served_block_received [OF refl d(1) demo_fields(1), where highest = 50])
       (use d demo_exec_wf(1) demo_hash_ok demo_canyon in
         \<open>simp_all add: demo_sync_env_def demo_config_def target_block_number_def hash_ok_def demo_fields max_gossip_size_def\<close>)
  moreover have "snd (the (handle_sync_request demo_sync_env map_lru (\<lambda>_. Inr demo_exec_payload) 1100 ''p'' (True, True) (Some 7)
       \<lparr>sv_locked = False, sv_peers = Map.empty\<rparr>)) = \<lparr>sv_locked = False, sv_peers = [''p'' \<mapsto> ()]\<rparr>"
    by (simp add: handle_sync_request_def map_lru_def serve_block_def d demo_sync_env_def demo_config_def target_block_number_def)
  ultimately show ?thesis by auto
qed

definition demo_client :: "(hash \<rightharpoonup> sync_result, hash \<rightharpoonup> unit) sync_client" where
  "demo_client =
     \<lparr>sc_trusted = Map.empty, sc_quarantine = Map.empty, sc_by_num = Map.empty, sc_in_flight = Map.empty,
      sc_complete = {}, sc_issued = 0, sc_requests = [], sc_working = [], sc_results = []\<rparr>"

definition demo_target :: l2_ref where
  "demo_target = zero_l2_ref\<lparr>l2_hash := replicate 32 4, l2_number := 8, l2_parent_hash := replicate 32 3\<rparr>"

lemmas demo_sync_simps = demo_client_def demo_target_def demo_fields sync_handle_def

definition asked_client :: "(hash \<rightharpoonup> sync_result, hash \<rightharpoonup> unit) sync_client" where
  "asked_client = demo_client
     \<lparr>sc_trusted := [replicate 32 4 \<mapsto> (), replicate 32 3 \<mapsto> ()], sc_in_flight := [7 \<mapsto> 0], sc_issued := 1,
      sc_requests := [(7, 0)]\<rparr>"

lemma demo_asked:
  "sync_handle demo_sync_env (RangeRequest 6 demo_target (\<lambda>_. False)) demo_client = Some ([], asked_client)"
  by (simp add: demo_sync_simps asked_client_def on_range_request_def trust_def drop_completed_def
      demo_sync_env_def map_lru_def range_loop.simps sync_channel_size_def)

definition answered_client :: "(hash \<rightharpoonup> sync_result, hash \<rightharpoonup> unit) sync_client" where
  "answered_client =
     asked_client\<lparr>sc_requests := [], sc_results := [\<lparr>sr_payload = demo_exec_payload, sr_peer = ''p''\<rparr>]\<rparr>"

lemma demo_answered:
  assumes "read_response demo_sync_env [] 7 stream = ResponseBlock demo_exec_payload"
  shows "sync_run demo_sync_env [RangeRequest 6 demo_target (\<lambda>_. False), PeerTakes ''p'', PeerAnswers 0 [] stream]
     [ValidResponse ''p''] demo_client answered_client"
proof -
  note m = sync_more [where env = demo_sync_env and s = demo_client]
  have 1: "sync_run demo_sync_env [RangeRequest 6 demo_target (\<lambda>_. False)] [] demo_client asked_client"
    using m [OF sync_none demo_asked] by simp
  have "sync_handle demo_sync_env (PeerTakes ''p'') asked_client =
      Some ([], asked_client\<lparr>sc_requests := [], sc_working := [(''p'', 7, 0)]\<rparr>)"
    by (simp add: sync_handle_def asked_client_def demo_client_def)
  note 2 = m [OF 1 this]
  have "sync_handle demo_sync_env (PeerAnswers 0 [] stream)
      (asked_client\<lparr>sc_requests := [], sc_working := [(''p'', 7, 0)]\<rparr>) = Some ([ValidResponse ''p''], answered_client)"
    by (simp add: sync_handle_def assms finish_request_def answered_client_def sync_channel_size_def)
       (simp add: asked_client_def demo_client_def)
  from m [OF 2 this] show ?thesis by simp
qed

lemma demo_received:
  "\<exists>s. sync_handle demo_sync_env (ResultReady True) answered_client =
     Some ([Received \<lparr>sr_payload = demo_exec_payload, sr_peer = ''p''\<rparr> True], s)"
  by (simp add: answered_client_def asked_client_def demo_client_def sync_handle_def on_result_def promote_def
      quarantine_add_def quarantine_remove_def on_quarantine_evict_def try_promote_def trust_def trusts_def
      demo_sync_env_def map_lru_def demo_fields)

theorem sync_delivers_linked_blocks_witness:
  "\<exists>evs outs s res. sync_run demo_sync_env evs outs demo_client s \<and> Received res True \<in> set outs \<and>
     hash_linked (targets_of evs) (taken_of outs) (pl_block_hash (sr_payload res))"
proof -
  obtain stream where "read_response demo_sync_env [] 7 stream = ResponseBlock demo_exec_payload"
    using demo_served by blast
  moreover obtain s where "sync_handle demo_sync_env (ResultReady True) answered_client =
      Some ([Received \<lparr>sr_payload = demo_exec_payload, sr_peer = ''p''\<rparr> True], s)"
    using demo_received by blast
  ultimately have run: "sync_run demo_sync_env ([RangeRequest 6 demo_target (\<lambda>_. False), PeerTakes ''p'',
        PeerAnswers 0 [] stream] @ [ResultReady True])
      ([ValidResponse ''p''] @ [Received \<lparr>sr_payload = demo_exec_payload, sr_peer = ''p''\<rparr> True]) demo_client s"
    by (rule sync_more [OF demo_answered])
  have "lru_ok (sy_quarantine demo_sync_env)" "lru_ok (sy_trusted demo_sync_env)"
    by (simp_all add: demo_sync_env_def map_lru_ok)
  moreover have "new_sync_client demo_sync_env demo_client"
    by (simp add: new_sync_client_def demo_sync_env_def demo_client_def map_lru_def)
  ultimately show ?thesis
    using sync_delivers_linked_blocks [OF _ _ _ run] run by (metis in_set_conv_decomp)
qed

end
