(* ===== verification/Spec2Isabelle.thy ===== *)
theory Spec2Isabelle
  imports Mips_Insn_Props Game_Trace_Props Game_Agent_Props Derive_Channel_Props Derive_Span_Wf Derive_Engine_Props Batcher_Findings Driver_Sequencer_Props Driver_Runs P2p_Sync_Props
begin

text \<open>
  A verification development for the Go code of the BLAST rollup stack, a fork of the OP
  stack. Paths below are relative to the repository.

  \<^bold>\<open>The program and its parts.\<close> A rollup node (\<^verbatim>\<open>bl-node\<close>) derives the L2 chain from L1: the
  derivation pipeline reads the batcher's transactions off L1, reassembles channels from their
  frames, decodes batches, checks them, turns them into payload attributes, and drives an
  execution engine with them. A challenger (\<^verbatim>\<open>bl-challenger\<close>) plays dispute games over
  claims about the L2 state: it walks the game tree, compares claims with what a trace provider
  answers, and moves or resolves on chain. At the leaf of a game a single
  instruction of a MIPS virtual machine (\<^verbatim>\<open>cannon/mipsevm\<close>) is executed on chain; the machine
  produces the witnesses for it. A batcher (\<^verbatim>\<open>bl-batcher\<close>) collects L2 blocks into channels,
  compresses them, cuts them into frames and sends these to L1, where the derivation
  pipeline finds them. The node's driver runs the pipeline and, on the sequencer's node, builds the blocks.
  The development models these parts, each by translating the
  functions named below, and proves what makes them correct.

  \<^bold>\<open>Conventions.\<close> A Go struct is a \<^verbatim>\<open>record\<close>, an \<^verbatim>\<open>int\<close> of fixed width a word of that width,
  \<^verbatim>\<open>big.Int\<close> an \<^verbatim>\<open>int\<close>, a byte slice a list of bytes, a Go map an association list or a set where
  order cannot matter. A function that may fail returns a sum, the error on the left; a panic
  (index out of range, nil dereference, failed assertion) is one of the errors. A method with
  a pointer receiver takes the state and returns the new one, also when it fails. A loop that
  may not end is a \<^verbatim>\<open>partial_function\<close> whose value is then \<^verbatim>\<open>None\<close>; that it ends is a theorem.
  Third-party code is a parameter: the hash functions, zlib, RLP and go-ethereum's transaction
  codec, signature recovery, the L1 and L2 nodes, the execution engine (a state machine of its
  API answers), the dispute game contract, the cannon process and its files. What is relied on
  of them is a hypothesis of the theorem that needs it. Answers of the L1 node do not change
  while one operation runs. Logging, metrics, time limits and contexts are left out.

  \<^bold>\<open>Prelude\<close>: results, words, big-endian encodings, slices, and the contract of a machine
  with an invariant. \<open>Go_Heap\<close>: \<^verbatim>\<open>container/heap\<close>.

  \<^bold>\<open>The MIPS machine\<close> (\<^verbatim>\<open>cannon/mipsevm/{page,memory,state,witness,mips,instrumented}.go\<close>).
  \<^item> \<open>Mips_Memory\<close>, \<open>Mips_Merkle\<close>, \<open>Mips_Memory_Inv\<close>, \<open>Mips_Memory_Ops\<close>, \<open>Mips_Memory_IO\<close>,
    \<open>Mips_Memory_Props\<close>: pages, the last-used entries, the caches of Merkle nodes, words, ranges and
    the JSON form. The cached root equals that of a plain tree over the flat contents after every
    sequence of operations in which ranges are set only while no node is cached (as when a program is loaded);
    a range set later leaves a stale root (\<open>set_memory_range_stale_root\<close>). Proofs verify, reads return the last write.
  \<^item> \<open>Mips_State\<close>, \<open>Mips_Exec\<close>, \<open>Mips_Step\<close>: the state and its witness, arithmetic, and the whole
    step with every instruction and system call. \<open>Mips_Alu\<close>, \<open>Mips_Sim\<close>, \<open>Mips_Step_Sim\<close>,
    \<open>Mips_Props\<close>, \<open>Mips_Insn_Props\<close>: what instructions compute, the simulation between runs with and
    without proof recording, the machine's invariant, soundness of the step witness.

  \<^bold>\<open>The challenger\<close> (\<^verbatim>\<open>bl-challenger/game\<close>).
  \<^item> \<open>Game_Position\<close>, \<open>Game_Types\<close>, \<open>Game_Solver\<close>: positions, claims, games
    (\<^verbatim>\<open>fault/types\<close>), the honest actor and its rules (\<^verbatim>\<open>fault/solver\<close>). \<open>Game_Trace\<close>: providers,
    split games and the cannon provider (\<^verbatim>\<open>fault/trace\<close>). \<open>Game_Agent\<close>, \<open>Game_Scheduler\<close>: contract
    calls, responder, agent, player, and the monitor with its scheduler as a step relation
    (\<^verbatim>\<open>fault/{contracts,responder}\<close>, \<^verbatim>\<open>{loader,registry,scheduler}\<close>).
  \<^item> \<open>Game_Solver_Lemmas\<close>, \<open>Game_Solver_Props\<close>, \<open>Game_Trace_Props\<close>, \<open>Game_Agent_Props\<close>: the solver
    returns, keeps the rules and answers every claim that needs it; positions, split games and
    the extension of a finished trace; resolution ends; one job per game, and no live file removed.

  \<^bold>\<open>The derivation pipeline\<close> (\<^verbatim>\<open>bl-node/rollup\<close>, \<^verbatim>\<open>bl-service/{eth,solabi}\<close>), from L1 inwards.
  \<^item> \<open>Derive_Types\<close>, \<open>Derive_Abi\<close>, \<open>Derive_Deposit\<close>: references, configuration, ABI words, the L1
    attributes, deposits and configuration updates; their round trips.
  \<^item> \<open>Derive_Frame\<close>, \<open>Derive_Channel\<close>, \<open>Derive_Channel_Props\<close>: frames, the frame queue, channels and
    their bank. Frames in any order give back the data; the bank stays bounded.
  \<^item> \<open>Derive_Bits\<close>, \<open>Derive_Span\<close>, \<open>Derive_Span_Raw\<close>, \<open>Derive_Span_Props\<close>, \<open>Derive_Span_Roundtrip\<close>,
    \<open>Derive_Span_Wf\<close>: the encoding of span batches, back and forth, and what any bytes decode to: steps of
    one block time and at most one origin, modulo the word, on which the checker does not panic.
  \<^item> \<open>Derive_Batch\<close>, \<open>Derive_Queue\<close>, \<open>Derive_Queue_Props\<close>: the rules for batches and the batch queue.
    An accepted span is as good as its blocks one by one; what is returned builds on its parent.
  \<^item> \<open>Derive_Stages\<close>, \<open>Derive_Stages_Props\<close>: L1 traversal and retrieval, the channel reader,
    the attributes of the next block and their queue. The deposit in front of a block decodes to its L1
    origin and the configuration in force.
  \<^item> \<open>Derive_Payloads\<close>, \<open>Derive_Sync\<close>, \<open>Derive_Engine\<close>, \<open>Derive_Pipeline\<close>, \<open>Derive_Sync_Props\<close>,
    \<open>Derive_Engine_Props\<close>: the queue of unsafe payloads, the search for the sync start, the engine
    queue and the pipeline that composes all stages. Without the option to skip checks the search
    returns; its safe head lies on the chain, and its unsafe head is the highest block whose origins are plausible down to
    there, or unset in one case (\<open>unsafe_head_lost\<close>). The safe heads move only to blocks that the engine has and that
    match the attributes, or that it built from them, and the safe head only with whole spans; only blocks derived from finalized L1 data are
    finalized, and every buffer is bounded.

  \<^bold>\<open>The driver\<close> (\<^verbatim>\<open>bl-node/rollup/driver\<close>).
  \<^item> \<open>Driver_Sequencer\<close>, \<open>Driver_Loop\<close>: confirmation depths, the choice of the L1 origin, the sequencer's
    building jobs on the engine queue, and the event loop: a round takes any event that can be taken
    (\<open>driver_round\<close>), runs are sequences of rounds. Times are integers of nanoseconds, durations wrap
    and saturate as Go's do; a timer is the time at which it fires, and the ticker of the gap check may fire
    at any time. A step of the derivation that never returns is \<^verbatim>\<open>None\<close>, and takes no round.
  \<^item> \<open>Driver_Sequencer_Props\<close>: a block built of the sequencer's attributes becomes, through the
    batcher's conversion, a batch that the batch rules accept. \<open>Driver_Loop_Props\<close>, \<open>Driver_Runs\<close>: what is
    published and when, that a stopped sequencer is silent, that the buffers stay bounded in every run,
    and where the loop stands still.

  \<^bold>\<open>Blocks between nodes\<close> (\<^verbatim>\<open>bl-service/eth/{ssz,types}.go\<close>, \<^verbatim>\<open>bl-node/p2p/{gossip,signer,sync}.go\<close>).
  \<^item> \<open>P2p_Ssz\<close>, \<open>P2p_Ssz_Props\<close>: the SSZ codec of payloads over the buffer it gets from a pool; it reads
    back what it writes and accepts little else, and one check comes too late. \<open>P2p_Gossip\<close>, \<open>P2p_Gossip_Props\<close>: signing,
    publishing and validating blocks, one message at a time; what is accepted is signed, fresh and new, and what
    the sequencer publishes is accepted. The LRU cache of heights is a parameter with its contents as abstraction
    (\<open>lru_ok\<close>).
  \<^item> \<open>P2p_Sync\<close>, \<open>P2p_Sync_Props\<close>: the client that fetches missing blocks, with its quarantine and its
    requests in flight, as runs of steps of its main loop and of one worker per peer, and the server that
    answers it. What is handed on is linked by parent hashes to a block that was asked for, and what a
    server writes a client reads; a lock that is never given back and a crash are shown.

  \<^bold>\<open>The batcher\<close> (\<^verbatim>\<open>bl-batcher/{batcher,compressor}\<close> and the outgoing channels of
  \<^verbatim>\<open>bl-node/rollup/derive\<close>).
  \<^item> \<open>Batcher_Compressor\<close>, \<open>Batcher_Channel_Out\<close>, \<open>Batcher_Channel\<close>, \<open>Batcher_Manager\<close>: the two compressors
    over a zlib writer, channels of singular batches and of a span batch, the channel builder with
    its timeouts, the channel with its transactions in flight, and the channel manager. Every method of
    the manager runs under its mutex and is one step; its pointers to channels are indices into a
    store. Slices are values: that the manager's queue of blocks can share its array with the
    blocks of a channel that timed out is not seen.
  \<^item> \<open>Batcher_Out_Props\<close>, \<open>Batcher_Channel_Props\<close>, \<open>Batcher_Decode\<close>: what a channel carries while it
    is filled, cut into frames, sent and resent; in every run of the manager without a failing
    span conversion, with either compressor over a zlib library as documented (\<open>zlib_ok\<close>), the confirmed
    transactions of a submitted channel give the derivation's channel back, with the encoding of
    exactly its blocks. \<open>Batcher_Findings\<close>: where the batcher does not do what it means to.

  \<^bold>\<open>Interfaces.\<close> The contracts a component gives its clients are locales, interpreted on the
  model's own definitions where they are provided: \<open>machine\<close> (an invariant of every reachable
  state: the engine queue, the driver), \<open>codec\<close> (prefix codecs: frames and the parts of a span batch), the word store
  (the emulator's memory), \<open>heap_order\<close> (the payloads queue), \<open>compressing\<close> (the compressors of the batcher), accessors and providers of
  the game.

  \<^bold>\<open>Bounds and fuel.\<close> Where a definition takes fuel, the theorems say how much is enough: the
  drain of an L1 block takes one step more than it has data, ancestor walks in a
  game as many as the game has claims. Words have the width of the code, and the
  hypotheses on sizes (a channel of at most 65536 frames, numbers below the word's range) are those
  the encodings need.

  \<^bold>\<open>Not modelled.\<close> The contract bindings are generated. The Solidity and TypeScript packages
  are not Go. The peer-to-peer layer but for gossip, the servers, clients, flags and metrics are
  wiring around libraries; the indexer, the proxy daemon and the monitoring services are
  database, HTTP and polling applications whose behaviour is that of the systems they drive, as are the
  proposer, the batcher's polling loop, the transaction manager, the RPC clients and the hosts of the fault proof program; the
  chain operations are one-off tools over compiler output. In the modelled parts, files, processes and
  subscriptions are parameters, goroutines and channels of the scheduler are a step relation, and text
  output is left out.
\<close>

end
